(* ===== verification/Prelude.thy ===== *)
theory Prelude
  imports Complex_Main "HOL-Library.Word"
begin

text \<open>
  Shared vocabulary of the development: names for the machine integers of the program, the
  C++ standard-library helpers its code calls on numbers (\<open>std::min\<close>, \<open>std::clamp\<close>,
  \<open>std::round\<close>, truncating casts), the power-of-two loop three components share, and one
  generic account of ring storage (an index map \<open>p \<mapsto> p mod m\<close> over a list), from which
  the sample ring, the pair buffer and the delay lines get their storage lemmas.
\<close>

unbundle bit_operations_syntax

text \<open>Word values are read as natural numbers throughout, never silently as \<open>uint\<close>.\<close>

declare of_nat_unat [simp del]

lemma word_of_nat_unat [simp]: "(of_nat (unat w) :: 'a::len word) = w"
  by (simp add: of_nat_unat)

type_synonym u8 = "8 word"
type_synonym u16 = "16 word"
type_synonym u32 = "32 word"
type_synonym u64 = "64 word"

named_theorems ring_rules \<open>storage lemmas for index-masked ring buffers\<close>
named_theorems rate_rules \<open>bounds on clamped controller outputs\<close>
named_theorems codec_rules \<open>byte-level encode and decode equations\<close>

text \<open>The exceptions the program throws, with their messages.\<close>

datatype error = Invalid_Argument string | Runtime_Error string

section \<open>Numbers of the C++ standard library\<close>

text \<open>
  \<open>std::min\<close>, \<open>std::max\<close> and \<open>std::clamp\<close> as the standard words them (the first
  argument wins a tie), over any linear order; \<open>cclamp\<close> is only called with \<open>lo \<le> hi\<close>.
\<close>

definition cmin :: "'a::linorder \<Rightarrow> 'a \<Rightarrow> 'a" where
  "cmin a b = (if b < a then b else a)"

definition cmax :: "'a::linorder \<Rightarrow> 'a \<Rightarrow> 'a" where
  "cmax a b = (if a < b then b else a)"

definition cclamp :: "'a::linorder \<Rightarrow> 'a \<Rightarrow> 'a \<Rightarrow> 'a" where
  "cclamp v lo hi = (if v < lo then lo else if hi < v then hi else v)"

lemma cmin_min [simp]: "cmin a b = min a b"
  by (auto simp: cmin_def min_def)

lemma cmax_max [simp]: "cmax a b = max a b"
  by (auto simp: cmax_def max_def)

lemma cclamp_bounds: "lo \<le> hi \<Longrightarrow> lo \<le> cclamp v lo hi \<and> cclamp v lo hi \<le> hi"
  by (auto simp: cclamp_def)

lemmas cclamp_lower = cclamp_bounds [THEN conjunct1]
  and cclamp_upper = cclamp_bounds [THEN conjunct2]

lemma cclamp_id: "lo \<le> v \<Longrightarrow> v \<le> hi \<Longrightarrow> cclamp v lo hi = v"
  by (auto simp: cclamp_def)

lemma cclamp_mono: "lo \<le> hi \<Longrightarrow> v \<le> w \<Longrightarrow> cclamp v lo hi \<le> cclamp w lo hi"
  by (auto simp: cclamp_def)

text \<open>A floating-point to integer conversion truncates towards zero; \<open>std::round\<close> rounds
  halves away from zero.\<close>

definition ctrunc :: "real \<Rightarrow> int" where
  "ctrunc x = (if 0 \<le> x then \<lfloor>x\<rfloor> else \<lceil>x\<rceil>)"

definition cround :: "real \<Rightarrow> int" where
  "cround x = (if 0 \<le> x then \<lfloor>x + 1/2\<rfloor> else - \<lfloor>1/2 - x\<rfloor>)"

lemma ctrunc_nonneg: "0 \<le> x \<Longrightarrow> 0 \<le> ctrunc x"
  by (simp add: ctrunc_def)

lemma ctrunc_of_int [simp]: "ctrunc (of_int i) = i"
  by (simp add: ctrunc_def)

lemma ctrunc_of_nat [simp]: "ctrunc (of_nat n) = int n"
  by (simp add: ctrunc_def)

lemma ctrunc_mono: "x \<le> y \<Longrightarrow> ctrunc x \<le> ctrunc y"
proof (cases "x < 0 \<and> 0 \<le> y")
  case True
  then have "\<lceil>x\<rceil> \<le> 0" and "0 \<le> \<lfloor>y\<rfloor>" by (simp_all add: ceiling_le_iff)
  then have "\<lceil>x\<rceil> \<le> \<lfloor>y\<rfloor>" by linarith
  with True show ?thesis by (simp add: ctrunc_def)
next
  case False
  assume "x \<le> y"
  with False show ?thesis by (auto simp: ctrunc_def floor_mono ceiling_mono)
qed

lemma ctrunc_nonneg_le: "0 \<le> x \<Longrightarrow> of_int (ctrunc x) \<le> x"
  by (simp add: ctrunc_def)

lemma cround_nonneg: "0 \<le> x \<Longrightarrow> 0 \<le> cround x"
  by (simp add: cround_def)

lemma cround_of_int [simp]: "cround (of_int i) = i"
proof (cases "0 \<le> i")
  case True
  have "\<lfloor>of_int i + 1/2 :: real\<rfloor> = i" by (simp add: floor_eq_iff)
  with True show ?thesis by (simp add: cround_def)
next
  case False
  have "\<lfloor>1/2 - of_int i :: real\<rfloor> = - i" by (simp add: floor_eq_iff)
  with False show ?thesis by (simp add: cround_def)
qed

lemma cround_mono: "0 \<le> x \<Longrightarrow> x \<le> y \<Longrightarrow> cround x \<le> cround y"
  by (simp add: cround_def floor_mono)

text \<open>Ranges of the machine integers.\<close>

lemma unat_u8: "unat (w :: u8) < 256"
proof -
  have "unat w < 2 ^ LENGTH(8)" by (rule unsigned_less)
  then show ?thesis by simp
qed

lemma unat_u16: "unat (w :: u16) < 65536"
proof -
  have "unat w < 2 ^ LENGTH(16)" by (rule unsigned_less)
  then show ?thesis by simp
qed

lemma unat_u32: "unat (w :: u32) < 2 ^ 32"
proof -
  have "unat w < 2 ^ LENGTH(32)" by (rule unsigned_less)
  then show ?thesis by simp
qed

lemma unat_u64: "unat (w :: u64) < 2 ^ 64"
proof -
  have "unat w < 2 ^ LENGTH(64)" by (rule unsigned_less)
  then show ?thesis by simp
qed

lemma unat_ucast_up: "LENGTH('a) \<le> LENGTH('b) \<Longrightarrow>
    unat (ucast (w :: 'a::len word) :: 'b::len word) = unat w"
proof -
  assume le: "LENGTH('a) \<le> LENGTH('b)"
  have "unat w < 2 ^ LENGTH('a)" by (rule unsigned_less)
  also have "(2::nat) ^ LENGTH('a) \<le> 2 ^ LENGTH('b)" using le by (rule power_increasing) simp
  finally show ?thesis by (simp add: unsigned_ucast_eq take_bit_nat_eq_self_iff)
qed

text \<open>A 64-bit value below \<open>2^63\<close> reads the same as a signed integer.\<close>

lemma sint_small_u64:
  assumes "unat (w :: u64) < 2 ^ 63"
  shows "sint w = int (unat w)"
proof -
  have u: "uint w < 2 ^ 63" using assms by (simp add: uint_nat)
  then have "take_bit 63 (uint w) = uint w" by (simp add: take_bit_int_eq_self_iff)
  then have "\<not> bit (uint w) 63" by (metis bit_take_bit_iff less_irrefl)
  then have "sint w = take_bit 63 (uint w)" by (simp add: sint_uint signed_take_bit_eq_if_positive)
  with \<open>take_bit 63 (uint w) = uint w\<close> show ?thesis by (simp add: uint_nat)
qed

section \<open>Rounding up to a power of two\<close>

text \<open>
  The loop \<open>while (p < n) p <<= 1\<close> of the storage constructors, over unbounded counts. It is
  entered with \<open>p = 1\<close>; the guard \<open>0 < p\<close> never fires there and makes the function total.
\<close>

function pow2_loop :: "nat \<Rightarrow> nat \<Rightarrow> nat" where
  "pow2_loop p n = (if 0 < p \<and> p < n then pow2_loop (2 * p) n else p)"
  by pat_completeness auto
termination
  by (relation "measure (\<lambda>(p, n). n - p)") auto

declare pow2_loop.simps [simp del]

lemma pow2_loop_spec:
  assumes "p = 2 ^ k"
  shows "(\<exists>j. pow2_loop p n = 2 ^ j) \<and> n \<le> pow2_loop p n \<and>
    pow2_loop p n \<le> max p (2 * n)"
  using assms
proof (induction p n arbitrary: k rule: pow2_loop.induct)
  case (1 p n)
  show ?case
  proof (cases "p < n")
    case True
    with "1.prems" have "2 * p = 2 ^ Suc k" and "0 < p" by simp_all
    with "1.IH" True have "(\<exists>j. pow2_loop (2 * p) n = 2 ^ j) \<and> n \<le> pow2_loop (2 * p) n \<and>
      pow2_loop (2 * p) n \<le> max (2 * p) (2 * n)" by blast
    with True \<open>0 < p\<close> show ?thesis by (subst (1 2 3) pow2_loop.simps) auto
  next
    case False
    with "1.prems" show ?thesis by (subst (1 2 3) pow2_loop.simps) auto
  qed
qed

lemma pow2_loop_1: "(\<exists>j. pow2_loop 1 n = 2 ^ j) \<and> n \<le> pow2_loop 1 n \<and> pow2_loop 1 n \<le> max 1 (2 * n)"
  using pow2_loop_spec [of 1 0 n] by simp

lemma pow2_loop_1_pos: "0 < pow2_loop 1 n"
  using pow2_loop_1 [of n] by (metis zero_less_numeral zero_less_power)

lemma and_pow2_mask: "(i::nat) AND (2 ^ k - 1) = i mod 2 ^ k"
  by (metis take_bit_eq_mask take_bit_eq_mod mask_eq_exp_minus_1)

lemma and_mask_mod:
  assumes "\<exists>k. m = 2 ^ k"
  shows "(i::nat) AND (m - 1) = i mod m"
  using assms and_pow2_mask by blast

section \<open>Ring storage\<close>

text \<open>
  \<open>ring_upd ix f p xs b\<close> is the loop \<open>for i: b[ix(p+i)] = f(xs[i], b[ix(p+i)])\<close> and
  \<open>ring_get ix p n b\<close> the loop reading \<open>n\<close> slots from \<open>p\<close>. Every instance uses
  \<open>ix p = p mod m\<close>, written as a mask or a remainder in the code.
\<close>

fun ring_upd :: "(nat \<Rightarrow> nat) \<Rightarrow> ('x \<Rightarrow> 'b \<Rightarrow> 'b) \<Rightarrow> nat \<Rightarrow> 'x list \<Rightarrow> 'b list \<Rightarrow> 'b list" where
  "ring_upd ix f p [] b = b"
| "ring_upd ix f p (x # xs) b = ring_upd ix f (Suc p) xs (b[ix p := f x (b ! ix p)])"

definition ring_get :: "(nat \<Rightarrow> nat) \<Rightarrow> nat \<Rightarrow> nat \<Rightarrow> 'b list \<Rightarrow> 'b list" where
  "ring_get ix p n b = map (\<lambda>i. b ! ix (p + i)) [0..<n]"

lemma length_ring_upd [simp]: "length (ring_upd ix f p xs b) = length b"
  by (induction xs arbitrary: p b) simp_all

lemma length_ring_get [simp]: "length (ring_get ix p n b) = n"
  by (simp add: ring_get_def)

lemma nth_ring_get [simp]: "i < n \<Longrightarrow> ring_get ix p n b ! i = b ! ix (p + i)"
  by (simp add: ring_get_def)

lemma mod_eq_window:
  fixes p q m :: nat
  assumes "p \<le> q" and "q < p + m" and "q mod m = p mod m"
  shows "q = p"
proof -
  from assms(1,3) obtain s where s: "q = p + m * s"
    using mod_eq_nat1E [of q m p] by auto
  with assms(2) have "s = 0" by (cases s) auto
  with s show ?thesis by simp
qed

lemma ring_upd_other:
  assumes "\<forall>i < length xs. ix (p + i) \<noteq> s"
  shows "ring_upd ix f p xs b ! s = b ! s"
  using assms
proof (induction xs arbitrary: p b)
  case Nil
  then show ?case by simp
next
  case (Cons x xs)
  have "\<forall>i < length xs. ix (Suc p + i) \<noteq> s"
    using Cons.prems by (metis add_Suc_shift length_Cons Suc_less_eq)
  moreover have "ix p \<noteq> s" using Cons.prems by (metis add_0_right length_greater_0_conv list.simps(3))
  ultimately show ?case using Cons.IH by simp
qed

lemma ring_upd_nth [ring_rules]:
  assumes "length b = m" and "0 < m" and "length xs \<le> m" and "p \<le> q" and "q < p + m"
  shows "ring_upd (\<lambda>i. i mod m) f p xs b ! (q mod m) =
    (if q < p + length xs then f (xs ! (q - p)) (b ! (q mod m)) else b ! (q mod m))"
  using assms
proof (induction xs arbitrary: p b)
  case Nil
  then show ?case by simp
next
  case (Cons x xs)
  let ?b = "b[p mod m := f x (b ! (p mod m))]"
  show ?case
  proof (cases "q = p")
    case True
    have "\<forall>i < length xs. (Suc p + i) mod m \<noteq> p mod m"
    proof (intro allI impI notI)
      fix i assume "i < length xs" and "(Suc p + i) mod m = p mod m"
      then have "Suc p + i = p" using Cons.prems(3) mod_eq_window [of p "Suc p + i" m] by simp
      then show False by simp
    qed
    then have "ring_upd (\<lambda>i. i mod m) f (Suc p) xs ?b ! (p mod m) = ?b ! (p mod m)"
      by (rule ring_upd_other)
    with True Cons.prems show ?thesis by simp
  next
    case False
    with Cons.prems have le: "Suc p \<le> q" by simp
    have ne: "q mod m \<noteq> p mod m"
      using mod_eq_window [of p q m] False Cons.prems by blast
    have "ring_upd (\<lambda>i. i mod m) f (Suc p) xs ?b ! (q mod m) =
      (if q < Suc p + length xs then f (xs ! (q - Suc p)) (?b ! (q mod m)) else ?b ! (q mod m))"
      by (rule Cons.IH) (use Cons.prems le in simp_all)
    moreover have "?b ! (q mod m) = b ! (q mod m)" using ne by simp
    moreover have "(x # xs) ! (q - p) = xs ! (q - Suc p)"
      using le by (simp add: nth_Cons')
    ultimately show ?thesis by simp
  qed
qed

lemma ring_upd_cong: "(\<And>i. ix i = ix' i) \<Longrightarrow> ring_upd ix f p xs b = ring_upd ix' f p xs b"
  by (metis ext)

lemma ring_get_cong: "(\<And>i. ix i = ix' i) \<Longrightarrow> ring_get ix p n b = ring_get ix' p n b"
  by (metis ext)

section \<open>Lists and options\<close>

lemma take_append_drop_mid: "i \<le> j \<Longrightarrow> take i xs @ drop i (take j xs) = take j xs"
  by (metis append_take_drop_id min.absorb1 take_take)

lemma nth_in_range: "i < length xs \<Longrightarrow> list_all P xs \<Longrightarrow> P (xs ! i)"
  by (simp add: list_all_length)

end
