(* ===== verification/Ring_Buffer.thy ===== *)
theory Ring_Buffer
  imports Prelude
begin

text \<open>
  \<open>SPSCRingBuffer\<close> of \<open>src/core/ring_buffer.hpp\<close>: the lock-free ring between an I/O thread
  and a processing thread. Positions are free-running 64-bit counters whose difference (wrapping)
  is the fill; slots are addressed through a power-of-two mask. The contract is the bounded FIFO
  of the locale \<open>bounded_fifo\<close>, whose client lemma speaks of arbitrary interleavings of
  producer and consumer calls.
\<close>

section \<open>The bounded FIFO contract\<close>

datatype 'a fifo_op = Enq "'a list" | Deq nat

locale bounded_fifo =
  fixes enq :: "'q \<Rightarrow> 'a list \<Rightarrow> 'q \<times> nat"
    and deq :: "'q \<Rightarrow> nat \<Rightarrow> 'q \<times> 'a list"
    and contents :: "'q \<Rightarrow> 'a list"
    and room :: "'q \<Rightarrow> nat"
    and invar :: "'q \<Rightarrow> bool"
    and accepts :: "'a list \<Rightarrow> bool"
    and countable_n :: "nat \<Rightarrow> bool"
  assumes enq_inv: "invar q \<Longrightarrow> accepts xs \<Longrightarrow> invar (fst (enq q xs))"
    and enq_count: "invar q \<Longrightarrow> accepts xs \<Longrightarrow> snd (enq q xs) = min (length xs) (room q)"
    and enq_contents: "invar q \<Longrightarrow> accepts xs \<Longrightarrow>
      contents (fst (enq q xs)) = contents q @ take (snd (enq q xs)) xs"
    and deq_inv: "invar q \<Longrightarrow> countable_n n \<Longrightarrow> invar (fst (deq q n))"
    and deq_out: "invar q \<Longrightarrow> countable_n n \<Longrightarrow> snd (deq q n) = take n (contents q)"
    and deq_contents: "invar q \<Longrightarrow> countable_n n \<Longrightarrow>
      contents (fst (deq q n)) = drop n (contents q)"
begin

text \<open>One call, recording what was accepted and what was delivered.\<close>

fun fifo_step :: "'q \<times> 'a list \<times> 'a list \<Rightarrow> 'a fifo_op \<Rightarrow> 'q \<times> 'a list \<times> 'a list" where
  "fifo_step (q, ins, outs) (Enq xs) = (let r = enq q xs in (fst r, ins @ take (snd r) xs, outs))"
| "fifo_step (q, ins, outs) (Deq n) = (let r = deq q n in (fst r, ins, outs @ snd r))"

definition op_ok :: "'a fifo_op \<Rightarrow> bool" where
  "op_ok c = (case c of Enq xs \<Rightarrow> accepts xs | Deq n \<Rightarrow> countable_n n)"

lemma fifo_step_order:
  assumes "invar q" and "op_ok c" and "ins = outs @ contents q"
    and "fifo_step (q, ins, outs) c = (q', ins', outs')"
  shows "invar q' \<and> ins' = outs' @ contents q'"
proof (cases c)
  case (Enq xs)
  with assms show ?thesis
    by (auto simp: op_ok_def Let_def enq_inv enq_contents)
next
  case (Deq n)
  with assms show ?thesis
    by (auto simp: op_ok_def Let_def deq_inv deq_contents deq_out)
qed

lemma fifo_run_order:
  assumes "invar q" and "list_all op_ok cs" and "ins = outs @ contents q"
    and "foldl fifo_step (q, ins, outs) cs = (q', ins', outs')"
  shows "invar q' \<and> ins' = outs' @ contents q'"
  using assms
proof (induction cs arbitrary: q ins outs)
  case Nil
  then show ?case by auto
next
  case (Cons c cs)
  obtain q1 i1 o1 where s: "fifo_step (q, ins, outs) c = (q1, i1, o1)" by (metis prod_cases3)
  have "invar q1 \<and> i1 = o1 @ contents q1"
    by (rule fifo_step_order [OF Cons.prems(1) _ Cons.prems(3) s]) (use Cons.prems(2) in simp)
  then show ?case using Cons.IH [of q1 i1 o1] Cons.prems s by simp
qed

end

section \<open>The code\<close>

record 'a spsc =
  rb_write_pos :: u64
  rb_read_pos :: u64
  rb_capacity :: u64
  rb_mask :: u64
  rb_buffer :: "'a list"

text \<open>\<open>while (cap < capacity) cap <<= 1;\<close> on \<open>size_t\<close>: it need not end.\<close>

partial_function (option) spsc_cap_loop :: "u64 \<Rightarrow> u64 \<Rightarrow> u64 option" where
  "spsc_cap_loop cap capacity =
     (if cap < capacity then spsc_cap_loop (push_bit 1 cap) capacity else Some cap)"

definition spsc_new :: "'a \<Rightarrow> u64 \<Rightarrow> 'a spsc option" where
  "spsc_new dflt capacity = (case spsc_cap_loop 1 capacity of None \<Rightarrow> None
     | Some cap \<Rightarrow> Some \<lparr>rb_write_pos = 0, rb_read_pos = 0, rb_capacity = cap,
         rb_mask = cap - 1, rb_buffer = replicate (unat cap) dflt\<rparr>)"

definition spsc_available_write :: "'a spsc \<Rightarrow> u64" where
  "spsc_available_write rb = rb_capacity rb - (rb_write_pos rb - rb_read_pos rb)"

definition spsc_write :: "'a spsc \<Rightarrow> 'a list \<Rightarrow> 'a spsc \<times> u64" where
  "spsc_write rb data =
     (let wp = rb_write_pos rb; rp = rb_read_pos rb;
          available = rb_capacity rb - (wp - rp);
          to_write = cmin (of_nat (length data)) available;
          buf = ring_upd (\<lambda>i. unat ((wp + of_nat i) AND rb_mask rb)) (\<lambda>x _. x) 0
                  (take (unat to_write) data) (rb_buffer rb)
      in (rb\<lparr>rb_buffer := buf, rb_write_pos := wp + to_write\<rparr>, to_write))"

definition spsc_available_read :: "'a spsc \<Rightarrow> u64" where
  "spsc_available_read rb = rb_write_pos rb - rb_read_pos rb"

definition spsc_read :: "'a spsc \<Rightarrow> u64 \<Rightarrow> 'a spsc \<times> 'a list" where
  "spsc_read rb count =
     (let rp = rb_read_pos rb; wp = rb_write_pos rb;
          available = wp - rp;
          to_read = cmin count available;
          out = ring_get (\<lambda>i. unat ((rp + of_nat i) AND rb_mask rb)) 0 (unat to_read) (rb_buffer rb)
      in (rb\<lparr>rb_read_pos := rp + to_read\<rparr>, out))"

definition spsc_reset :: "'a spsc \<Rightarrow> 'a spsc" where
  "spsc_reset rb = rb\<lparr>rb_write_pos := 0, rb_read_pos := 0\<rparr>"

section \<open>Invariant and abstraction\<close>

definition spsc_inv :: "'a spsc \<Rightarrow> bool" where
  "spsc_inv rb = ((\<exists>k < 64. rb_capacity rb = 2 ^ k) \<and> rb_mask rb = rb_capacity rb - 1 \<and>
     length (rb_buffer rb) = unat (rb_capacity rb) \<and>
     rb_write_pos rb - rb_read_pos rb \<le> rb_capacity rb)"

definition spsc_contents :: "'a spsc \<Rightarrow> 'a list" where
  "spsc_contents rb = ring_get (\<lambda>i. i mod unat (rb_capacity rb)) (unat (rb_read_pos rb))
     (unat (rb_write_pos rb - rb_read_pos rb)) (rb_buffer rb)"

lemma unat_pow2: "k < 64 \<Longrightarrow> unat (2 ^ k :: u64) = 2 ^ k"
proof -
  assume "k < 64"
  then have "(2::nat) ^ k < 2 ^ 64" by (rule power_strict_increasing) simp
  then have "unat (of_nat (2 ^ k) :: u64) = 2 ^ k" by (simp only: unat_of_nat) simp
  then show ?thesis by simp
qed

lemma spsc_slot:
  assumes "spsc_inv rb"
  shows "unat ((w + of_nat i) AND rb_mask rb) = (unat w + i) mod unat (rb_capacity rb)"
proof -
  from assms obtain k where k: "k < 64" "rb_capacity rb = 2 ^ k" "rb_mask rb = 2 ^ k - 1"
    by (auto simp: spsc_inv_def)
  have "(w + of_nat i) AND (2 ^ k - 1) = take_bit k (w + of_nat i)"
    by (simp add: take_bit_eq_mask mask_eq_exp_minus_1)
  then have "unat ((w + of_nat i) AND rb_mask rb) = take_bit k (unat (w + of_nat i))"
    using k by (simp add: unsigned_take_bit_eq)
  also have "\<dots> = unat (w + of_nat i) mod 2 ^ k" by (simp add: take_bit_eq_mod)
  also have "\<dots> = ((unat w + i) mod 2 ^ 64) mod 2 ^ k"
    by (simp add: unat_word_ariths unat_of_nat mod_simps)
  also have "\<dots> = (unat w + i) mod 2 ^ k"
    by (rule mod_mod_cancel) (rule le_imp_power_dvd, use k(1) in simp)
  finally show ?thesis using k by (simp add: unat_pow2)
qed

lemma ring_upd_shift: "ring_upd (\<lambda>i. ix (a + i)) f p xs b = ring_upd ix f (a + p) xs b"
  by (induction xs arbitrary: p b) simp_all

lemma spsc_fill:
  assumes "spsc_inv rb"
  shows "unat (rb_write_pos rb - rb_read_pos rb) \<le> unat (rb_capacity rb)"
  using assms by (simp add: spsc_inv_def word_le_nat_alt)

lemma spsc_available_write_unat:
  assumes "spsc_inv rb"
  shows "unat (spsc_available_write rb) = unat (rb_capacity rb) - length (spsc_contents rb)"
  using assms
  by (simp add: spsc_available_write_def spsc_contents_def spsc_inv_def unat_sub)

lemma spsc_available_read_unat: "unat (spsc_available_read rb) = length (spsc_contents rb)"
  by (simp add: spsc_available_read_def spsc_contents_def)

text \<open>The constructor's loop ends exactly when the requested capacity is at most \<open>2^63\<close>.\<close>

lemma push_bit_pow2: "push_bit 1 (2 ^ j :: u64) = 2 ^ Suc j"
  by (simp add: push_bit_eq_mult)

lemma spsc_cap_loop_returns:
  assumes "unat capacity \<le> 2 ^ 63" and "j \<le> 63"
  shows "\<exists>k \<le> 63. spsc_cap_loop (2 ^ j) capacity = Some (2 ^ k) \<and> capacity \<le> 2 ^ k"
  using assms(2)
proof (induction "63 - j" arbitrary: j)
  case 0
  then have "j = 63" by simp
  moreover have "\<not> (2 ^ 63 :: u64) < capacity"
    using assms(1) unat_pow2 [of 63] by (simp add: word_less_nat_alt)
  ultimately show ?case by (subst spsc_cap_loop.simps) (auto simp: not_less)
next
  case (Suc n)
  show ?case
  proof (cases "(2 ^ j :: u64) < capacity")
    case True
    have "n = 63 - Suc j" and "Suc j \<le> 63" using Suc.hyps(2) by simp_all
    then have "\<exists>k \<le> 63. spsc_cap_loop (2 ^ Suc j) capacity = Some (2 ^ k) \<and> capacity \<le> 2 ^ k"
      by (rule Suc.hyps(1))
    with True show ?thesis by (subst spsc_cap_loop.simps) (simp only: push_bit_pow2 if_True)
  next
    case False
    with Suc.prems show ?thesis by (subst spsc_cap_loop.simps) (auto simp: not_less)
  qed
qed

lemma spsc_cap_loop_diverges:
  assumes "spsc_cap_loop cap capacity = Some r" and "2 ^ 63 < unat capacity"
    and "cap = 0 \<or> (\<exists>j \<le> 63. cap = 2 ^ j)"
  shows False
proof -
  have "2 ^ 63 < unat capacity \<longrightarrow> cap = 0 \<or> (\<exists>j \<le> 63. cap = 2 ^ j) \<longrightarrow> False"
  proof (rule spsc_cap_loop.raw_induct
      [where P = "\<lambda>cap capacity r. 2 ^ 63 < unat capacity \<longrightarrow>
         cap = 0 \<or> (\<exists>j \<le> 63. cap = 2 ^ j) \<longrightarrow> False", OF _ assms(1)], intro impI)
    fix f :: "u64 \<Rightarrow> u64 \<Rightarrow> u64 option" and cap capacity r
    assume IH: "\<And>cap capacity r. f cap capacity = Some r \<Longrightarrow> 2 ^ 63 < unat capacity \<longrightarrow>
        cap = 0 \<or> (\<exists>j \<le> 63. cap = 2 ^ j) \<longrightarrow> False"
      and eq: "(if cap < capacity then f (push_bit 1 cap) capacity else Some cap) = Some r"
      and big: "2 ^ 63 < unat capacity" and cap: "cap = 0 \<or> (\<exists>j \<le> 63. cap = 2 ^ j)"
    have "unat cap \<le> 2 ^ 63"
      using cap power_increasing [of _ 63 "2::nat"] by (auto simp: unat_pow2)
    with big have "cap < capacity" by (simp add: word_less_nat_alt)
    with eq have step: "f (push_bit 1 cap) capacity = Some r" by simp
    have zero: "(2::u64) ^ Suc 63 = 0" by simp
    have "push_bit 1 cap = 0 \<or> (\<exists>j \<le> 63. push_bit 1 cap = 2 ^ j)"
      using cap
    proof (elim disjE exE conjE)
      assume "cap = 0"
      then show ?thesis by simp
    next
      fix j assume j: "j \<le> 63" "cap = 2 ^ j"
      show ?thesis
      proof (cases "j = 63")
        case True
        with j zero show ?thesis by (simp only: push_bit_pow2) simp
      next
        case False
        with j show ?thesis by (intro disjI2 exI [of _ "Suc j"]) (simp only: push_bit_pow2, simp)
      qed
    qed
    with IH [OF step] big show False by blast
  qed
  with assms(2,3) show ?thesis by blast
qed

lemma spsc_new_inv:
  assumes "spsc_new d capacity = Some rb"
  shows "spsc_inv rb \<and> spsc_contents rb = [] \<and> capacity \<le> rb_capacity rb"
proof -
  have le: "unat capacity \<le> 2 ^ 63"
    using assms spsc_cap_loop_diverges [of 1 capacity]
    by (force simp: spsc_new_def not_less [symmetric] split: option.splits intro: exI [of _ 0])
  then obtain k where k: "k \<le> 63" "spsc_cap_loop (2 ^ 0) capacity = Some (2 ^ k)" "capacity \<le> 2 ^ k"
    using spsc_cap_loop_returns [of capacity 0] by auto
  with assms have "rb = \<lparr>rb_write_pos = 0, rb_read_pos = 0, rb_capacity = 2 ^ k,
      rb_mask = 2 ^ k - 1, rb_buffer = replicate (unat (2 ^ k :: u64)) d\<rparr>"
    by (simp add: spsc_new_def)
  moreover have "\<exists>k' < 64. (2::u64) ^ k = 2 ^ k'" using k(1) by (intro exI [of _ k]) simp
  ultimately show ?thesis using k by (simp add: spsc_inv_def spsc_contents_def ring_get_def)
qed

section \<open>The operations refine the FIFO\<close>

lemma spsc_write_facts:
  assumes inv: "spsc_inv rb" and len: "length data < 2 ^ 64"
  shows "spsc_inv (fst (spsc_write rb data)) \<and>
    unat (snd (spsc_write rb data)) =
      min (length data) (unat (rb_capacity rb) - length (spsc_contents rb)) \<and>
    spsc_contents (fst (spsc_write rb data)) =
      spsc_contents rb @ take (unat (snd (spsc_write rb data))) data"
proof -
  let ?wp = "rb_write_pos rb" and ?rp = "rb_read_pos rb" and ?m = "unat (rb_capacity rb)"
  let ?avail = "rb_capacity rb - (?wp - ?rp)"
  let ?tw = "min (of_nat (length data)) ?avail"
  let ?n = "unat (?wp - ?rp)" and ?w = "unat ?tw"
  have fill: "?n \<le> ?m" by (rule spsc_fill [OF inv])
  have avail: "unat ?avail = ?m - ?n" using inv by (simp add: spsc_inv_def unat_sub)
  have ulen: "unat (of_nat (length data) :: u64) = length data" using len by (simp add: unat_of_nat)
  have w: "?w = min (length data) (?m - ?n)"
    using avail ulen by (auto simp: min_def word_le_nat_alt)
  have m0: "0 < ?m" using inv unat_pow2 by (auto simp: spsc_inv_def)
  define buf where "buf = ring_upd (\<lambda>i. i mod ?m) (\<lambda>x _. x) (unat ?wp) (take ?w data) (rb_buffer rb)"
  have res: "spsc_write rb data = (rb\<lparr>rb_buffer := buf, rb_write_pos := ?wp + ?tw\<rparr>, ?tw)"
    by (simp add: spsc_write_def Let_def buf_def spsc_slot [OF inv]
        ring_upd_shift [of "\<lambda>i. i mod ?m" "unat ?wp" _ 0, simplified])
  have newfill: "unat (?wp + ?tw - ?rp) = ?n + ?w"
  proof -
    have e: "?wp + ?tw - ?rp = (?wp - ?rp) + ?tw" by simp
    have "?n + ?w < 2 ^ 64" using w fill unat_u64 [of "rb_capacity rb"] by simp
    then show ?thesis unfolding e by (simp add: unat_word_ariths)
  qed
  have inv': "spsc_inv (fst (spsc_write rb data))"
    using inv newfill w fill by (simp add: res spsc_inv_def buf_def word_le_nat_alt)
  have slots: "length (rb_buffer rb) = ?m" using inv by (simp add: spsc_inv_def)
  have wpos: "(unat ?rp + ?n) mod ?m = unat ?wp mod ?m"
    using spsc_slot [OF inv, of ?rp ?n] spsc_slot [OF inv, of ?wp 0] by simp
  have shift: "(unat ?rp + (?n + j)) mod ?m = (unat ?wp + j) mod ?m" for j
    using wpos by (metis add.assoc mod_add_left_eq)
  have "spsc_contents (fst (spsc_write rb data)) = spsc_contents rb @ take ?w data"
  proof (rule nth_equalityI)
    show "length (spsc_contents (fst (spsc_write rb data))) = length (spsc_contents rb @ take ?w data)"
      using w by (simp add: res spsc_contents_def newfill)
  next
    fix i assume "i < length (spsc_contents (fst (spsc_write rb data)))"
    then have i: "i < ?n + ?w" by (simp add: res spsc_contents_def newfill)
    have lhs: "spsc_contents (fst (spsc_write rb data)) ! i = buf ! ((unat ?rp + i) mod ?m)"
      using i by (simp add: res spsc_contents_def newfill)
    show "spsc_contents (fst (spsc_write rb data)) ! i = (spsc_contents rb @ take ?w data) ! i"
    proof (cases "i < ?n")
      case True
      let ?q = "unat ?wp + (?m - ?n + i)"
      have q: "(unat ?rp + i) mod ?m = ?q mod ?m"
      proof -
        have "(unat ?rp + (?n + (?m - ?n + i))) mod ?m = ?q mod ?m" by (rule shift)
        moreover have "unat ?rp + (?n + (?m - ?n + i)) = (unat ?rp + i) + ?m" using fill by simp
        ultimately show ?thesis by (metis mod_add_self2)
      qed
      have "buf ! (?q mod ?m) = rb_buffer rb ! (?q mod ?m)"
        unfolding buf_def
        by (subst ring_upd_nth [OF slots m0]) (use True fill w in auto)
      with True q show ?thesis unfolding lhs by (simp add: spsc_contents_def nth_append)
    next
      case False
      then obtain j where j: "i = ?n + j" by (metis le_iff_add not_less)
      have "buf ! ((unat ?wp + j) mod ?m) = data ! j"
        unfolding buf_def
        by (subst ring_upd_nth [OF slots m0]) (use i j w in auto)
      with j i w shift [of j] show ?thesis unfolding lhs by (simp add: spsc_contents_def nth_append)
    qed
  qed
  with inv' w show ?thesis by (simp add: res spsc_contents_def)
qed

lemma spsc_read_facts:
  assumes inv: "spsc_inv rb"
  shows "spsc_inv (fst (spsc_read rb count)) \<and>
    snd (spsc_read rb count) = take (unat count) (spsc_contents rb) \<and>
    spsc_contents (fst (spsc_read rb count)) = drop (unat count) (spsc_contents rb)"
proof -
  let ?wp = "rb_write_pos rb" and ?rp = "rb_read_pos rb" and ?m = "unat (rb_capacity rb)"
  let ?tr = "min count (?wp - ?rp)"
  let ?n = "unat (?wp - ?rp)" and ?r = "unat ?tr"
  have r: "?r = min (unat count) ?n" by (auto simp: min_def word_le_nat_alt)
  have out: "snd (spsc_read rb count) = take (unat count) (spsc_contents rb)"
    by (rule nth_equalityI)
      (simp_all add: spsc_read_def Let_def r spsc_contents_def spsc_slot [OF inv])
  have newfill: "unat (?wp - (?rp + ?tr)) = ?n - ?r"
  proof -
    have e: "?wp - (?rp + ?tr) = (?wp - ?rp) - ?tr" by simp
    show ?thesis unfolding e by (simp add: unat_sub)
  qed
  have rest: "spsc_contents (fst (spsc_read rb count)) = drop (unat count) (spsc_contents rb)"
  proof (rule nth_equalityI)
    show "length (spsc_contents (fst (spsc_read rb count))) = length (drop (unat count) (spsc_contents rb))"
      using r by (simp add: spsc_read_def Let_def spsc_contents_def newfill)
  next
    fix i assume "i < length (spsc_contents (fst (spsc_read rb count)))"
    then have i: "i < ?n - ?r" by (simp add: spsc_read_def Let_def spsc_contents_def newfill)
    have slot: "(unat (?rp + ?tr) + i) mod ?m = (unat ?rp + (?r + i)) mod ?m"
      using spsc_slot [OF inv, of "?rp + ?tr" i] spsc_slot [OF inv, of ?rp "?r + i"]
      by (simp add: add.assoc)
    show "spsc_contents (fst (spsc_read rb count)) ! i = drop (unat count) (spsc_contents rb) ! i"
      using i r slot by (simp add: spsc_read_def Let_def spsc_contents_def newfill)
  qed
  have "spsc_inv (fst (spsc_read rb count))"
    using inv newfill spsc_fill [OF inv]
    by (simp add: spsc_read_def Let_def spsc_inv_def word_le_nat_alt)
  with out rest show ?thesis by blast
qed

text \<open>The calls with counts read as naturals: the shape the clients and the contract use.\<close>

definition spsc_enq :: "'a spsc \<Rightarrow> 'a list \<Rightarrow> 'a spsc \<times> nat" where
  "spsc_enq rb data = (let r = spsc_write rb data in (fst r, unat (snd r)))"

definition spsc_deq :: "'a spsc \<Rightarrow> nat \<Rightarrow> 'a spsc \<times> 'a list" where
  "spsc_deq rb n = spsc_read rb (of_nat n)"

interpretation spsc: bounded_fifo spsc_enq spsc_deq spsc_contents
  "\<lambda>rb. unat (rb_capacity rb) - length (spsc_contents rb)" spsc_inv
  "\<lambda>xs. length xs < 2 ^ 64" "\<lambda>n. n < 2 ^ 64"
  by unfold_locales
    (simp_all add: spsc_enq_def spsc_deq_def Let_def spsc_write_facts spsc_read_facts unat_of_nat)

section \<open>Properties\<close>

text \<open>C27: For any interleaving of writes and reads on a new ring, what was accepted is what was
  delivered followed by what is still stored, in order; nothing is lost, duplicated or reordered, and
  no more than the capacity is ever stored, however often the 64-bit position counters wrap.\<close>

theorem spsc_fifo:
  assumes "spsc_new d capacity = Some rb" and "list_all spsc.op_ok cs"
    and "foldl spsc.fifo_step (rb, [], []) cs = (rb', accepted, delivered)"
  shows "accepted = delivered @ spsc_contents rb' \<and>
    length (spsc_contents rb') \<le> unat (rb_capacity rb')"
proof -
  have "spsc_inv rb" "[] = [] @ spsc_contents rb" using spsc_new_inv [OF assms(1)] by simp_all
  from spsc.fifo_run_order [OF this(1) assms(2) this(2) assms(3)]
  have "spsc_inv rb'" "accepted = delivered @ spsc_contents rb'" by simp_all
  then show ?thesis using spsc_fill by (simp add: spsc_contents_def)
qed

theorem spsc_fifo_witness:
  "\<exists>rb' accepted delivered. foldl spsc.fifo_step (the (spsc_new (0::nat) 3), [], [])
       [Enq [7, 8, 9, 10, 11], Deq 2, Enq [12]] = (rb', accepted, delivered) \<and>
     accepted = delivered @ spsc_contents rb'"
proof -
  obtain k where "spsc_cap_loop (2 ^ 0) 3 = Some (2 ^ k)" using spsc_cap_loop_returns [of 3 0] by auto
  then have n: "spsc_new (0::nat) 3 = Some (the (spsc_new 0 3))" by (simp add: spsc_new_def)
  have ok: "list_all spsc.op_ok [Enq [7, 8, 9, 10, 11::nat], Deq 2, Enq [12]]"
    unfolding spsc.op_ok_def by simp
  obtain rb' a d where r: "foldl spsc.fifo_step (the (spsc_new (0::nat) 3), [], [])
      [Enq [7, 8, 9, 10, 11], Deq 2, Enq [12]] = (rb', a, d)" by (metis prod_cases3)
  with spsc_fifo [OF n ok r] show ?thesis by blast
qed

text \<open>The constructor returns exactly for capacities up to \<open>2^63\<close>; beyond that its
  doubling loop reaches zero and never ends. When it returns, the ring is empty and at least as large
  as asked.\<close>

theorem spsc_constructor_returns:
  "(spsc_new d capacity \<noteq> None) = (unat capacity \<le> 2 ^ 63) \<and>
   (\<forall>rb. spsc_new d capacity = Some rb \<longrightarrow> spsc_contents rb = [] \<and> capacity \<le> rb_capacity rb)"
proof -
  have "spsc_new d capacity \<noteq> None" if le: "unat capacity \<le> 2 ^ 63"
    using spsc_cap_loop_returns [OF le, of 0] by (auto simp: spsc_new_def)
  moreover have "unat capacity \<le> 2 ^ 63" if some: "spsc_new d capacity \<noteq> None"
  proof (rule ccontr)
    assume "\<not> unat capacity \<le> 2 ^ 63"
    moreover obtain r where "spsc_cap_loop 1 capacity = Some r"
      using some by (auto simp: spsc_new_def split: option.splits)
    ultimately show False using spsc_cap_loop_diverges [of 1 capacity r] by (force intro: exI [of _ 0])
  qed
  moreover have "spsc_contents rb = [] \<and> capacity \<le> rb_capacity rb" if "spsc_new d capacity = Some rb" for rb
    using spsc_new_inv [OF that] by blast
  ultimately show ?thesis by auto
qed

theorem spsc_constructor_returns_witness:
  "spsc_new (0::nat) 9223372036854775809 = None"
  using spsc_constructor_returns [of "0::nat" 9223372036854775809] by simp

end
