(* ===== verification/Floats.thy ===== *)
theory Floats
  imports Prelude
begin

text \<open>
  The C++ \<open>float\<close> and \<open>double\<close> of the program. A finite value is a real number, and every
  arithmetic operation is the exact operation followed by rounding to nearest, ties to even, with
  gradual underflow, at 24 or 53 bits of precision (\<open>f32\<close>, \<open>f64\<close>). Library functions
  (\<open>sqrt\<close>, \<open>pow\<close>, \<open>log10\<close>, \<open>cos\<close>) are taken as correctly rounded. Values are finite:
  overflow to infinity, NaN and the sign of zero are outside this reading; where the code
  depends on them (calibration words off the wire) the value is kept as its 32-bit pattern and
  classified by \<open>float_class\<close>.
\<close>

section \<open>Rounding\<close>

definition rne :: "real \<Rightarrow> int" where
  "rne y = (let f = \<lfloor>y\<rfloor>; d = y - of_int f in
     if d < 1/2 then f else if 1/2 < d then f + 1 else if even f then f else f + 1)"

text \<open>\<open>ilog2 x\<close> is the exponent of the binade of \<open>x > 0\<close>, by repeated scaling.\<close>

function ilog2 :: "real \<Rightarrow> int" where
  "ilog2 x = (if x \<le> 0 then 0 else if x < 1 then ilog2 (2 * x) - 1
     else if x < 2 then 0 else ilog2 (x / 2) + 1)"
  by pat_completeness auto
termination
proof (relation "measure (\<lambda>x. 2 * nat \<lceil>1 / x\<rceil> + nat \<lceil>x\<rceil>)", goal_cases)
  case 1
  show ?case by simp
next
  case (2 x)
  then have x: "0 < x" "x < 1" by simp_all
  then have "1 < 1 / x" by simp
  then have "2 \<le> \<lceil>1 / x\<rceil>" by linarith
  moreover have "\<lceil>1 / (2 * x)\<rceil> \<le> \<lceil>1 / x\<rceil> - 1"
  proof -
    have half: "y / 2 \<le> of_int (\<lceil>y\<rceil> - 1)" if "2 \<le> \<lceil>y\<rceil>" for y :: real
      using that le_of_int_ceiling [of y] by linarith
    have "1 / (2 * x) = (1 / x) / 2" by simp
    with half [OF \<open>2 \<le> \<lceil>1 / x\<rceil>\<close>] show ?thesis by (simp only: ceiling_le_iff)
  qed
  moreover have "\<lceil>x\<rceil> = 1" using x by (simp add: ceiling_eq_iff)
  moreover have "\<lceil>2 * x\<rceil> \<le> 2" using x by (simp add: ceiling_le_iff)
  ultimately have "2 * nat \<lceil>1 / (2 * x)\<rceil> + nat \<lceil>2 * x\<rceil> < 2 * nat \<lceil>1 / x\<rceil> + nat \<lceil>x\<rceil>"
    by linarith
  then show ?case by simp
next
  case (3 x)
  then have x: "2 \<le> x" by simp
  have "\<lceil>1 / x\<rceil> = 1" using x by (simp add: ceiling_eq_iff)
  moreover have "\<lceil>1 / (x / 2)\<rceil> = 1" using x by (simp add: ceiling_eq_iff)
  moreover have "2 \<le> \<lceil>x\<rceil>" using x by linarith
  moreover have "\<lceil>x / 2\<rceil> \<le> \<lceil>x\<rceil> - 1"
  proof -
    have "x / 2 \<le> of_int (\<lceil>x\<rceil> - 1)" using \<open>2 \<le> \<lceil>x\<rceil>\<close> le_of_int_ceiling [of x] by linarith
    then show ?thesis by (simp only: ceiling_le_iff)
  qed
  ultimately show ?case by simp
qed

declare ilog2.simps [simp del]

lemma ilog2_bounds: "0 < x \<Longrightarrow> 2 powi ilog2 x \<le> x \<and> x < 2 powi (ilog2 x + 1)"
proof (induction x rule: ilog2.induct)
  case (1 x)
  consider "x < 1" | "1 \<le> x" "x < 2" | "2 \<le> x" by linarith
  then show ?case
  proof cases
    case 1
    with "1.IH"(1) "1.prems" have ih: "2 powi ilog2 (2 * x) \<le> 2 * x \<and> 2 * x < 2 powi (ilog2 (2 * x) + 1)"
      by simp
    have e: "ilog2 x = ilog2 (2 * x) - 1" using 1 "1.prems" by (subst ilog2.simps) simp
    have "2 powi (ilog2 x) = 2 powi ilog2 (2 * x) / (2::real)"
      and "2 powi (ilog2 x + 1) = 2 powi (ilog2 (2 * x) + 1) / (2::real)"
      unfolding e by (simp_all add: power_int_diff power_int_add)
    with ih show ?thesis by simp
  next
    case 2
    then have "ilog2 x = 0" by (subst ilog2.simps) simp
    with 2 show ?thesis by simp
  next
    case 3
    with "1.IH"(2) have ih: "2 powi ilog2 (x / 2) \<le> x / 2 \<and> x / 2 < 2 powi (ilog2 (x / 2) + 1)"
      by simp
    have e: "ilog2 x = ilog2 (x / 2) + 1" using 3 by (subst ilog2.simps) simp
    have "2 powi (ilog2 x) = 2 powi ilog2 (x / 2) * (2::real)"
      and "2 powi (ilog2 x + 1) = 2 powi (ilog2 (x / 2) + 1) * (2::real)"
      unfolding e by (simp_all add: power_int_add)
    with ih show ?thesis by simp
  qed
qed

lemma powi2_less_iff: "(2::real) powi a < 2 powi b \<longleftrightarrow> a < b"
  using power_int_strict_increasing [of a b "2::real"] power_int_increasing [of b a "2::real"]
  by fastforce

lemma powi2_le_iff: "(2::real) powi a \<le> 2 powi b \<longleftrightarrow> a \<le> b"
  using powi2_less_iff [of b a] by linarith

lemma ilog2_eq: "2 powi e \<le> x \<Longrightarrow> x < 2 powi (e + 1) \<Longrightarrow> ilog2 x = e"
proof -
  assume a: "2 powi e \<le> x" "x < 2 powi (e + 1)"
  have "0 < x" using a(1) by (smt (verit) zero_less_power_int)
  with ilog2_bounds [of x] a have "(2::real) powi ilog2 x < 2 powi (e + 1)"
    and "(2::real) powi e < 2 powi (ilog2 x + 1)" by linarith+
  then show ?thesis by (simp add: powi2_less_iff)
qed

lemma ilog2_mono: "0 < x \<Longrightarrow> x \<le> y \<Longrightarrow> ilog2 x \<le> ilog2 y"
proof -
  assume "0 < x" "x \<le> y"
  with ilog2_bounds [of x] ilog2_bounds [of y] have "(2::real) powi ilog2 x < 2 powi (ilog2 y + 1)"
    by linarith
  then show ?thesis by (simp add: powi2_less_iff)
qed

text \<open>Unit in the last place, and rounding to a multiple of it.\<close>

definition ulp :: "nat \<Rightarrow> int \<Rightarrow> real \<Rightarrow> real" where
  "ulp p emin x = 2 powi (max (ilog2 \<bar>x\<bar>) emin - int p + 1)"

definition rnd :: "nat \<Rightarrow> int \<Rightarrow> real \<Rightarrow> real" where
  "rnd p emin x = of_int (rne (x / ulp p emin x)) * ulp p emin x"

definition f32 :: "real \<Rightarrow> real" where
  "f32 = rnd 24 (- 126)"

definition f64 :: "real \<Rightarrow> real" where
  "f64 = rnd 53 (- 1022)"

text \<open>The arithmetic of the code: \<open>f\<close> operations in \<open>float\<close>, \<open>d\<close> operations in \<open>double\<close>.\<close>

abbreviation fadd :: "real \<Rightarrow> real \<Rightarrow> real" where "fadd a b \<equiv> f32 (a + b)"
abbreviation fsub :: "real \<Rightarrow> real \<Rightarrow> real" where "fsub a b \<equiv> f32 (a - b)"
abbreviation fmul :: "real \<Rightarrow> real \<Rightarrow> real" where "fmul a b \<equiv> f32 (a * b)"
abbreviation fdiv :: "real \<Rightarrow> real \<Rightarrow> real" where "fdiv a b \<equiv> f32 (a / b)"
abbreviation dadd :: "real \<Rightarrow> real \<Rightarrow> real" where "dadd a b \<equiv> f64 (a + b)"
abbreviation dsub :: "real \<Rightarrow> real \<Rightarrow> real" where "dsub a b \<equiv> f64 (a - b)"
abbreviation dmul :: "real \<Rightarrow> real \<Rightarrow> real" where "dmul a b \<equiv> f64 (a * b)"
abbreviation ddiv :: "real \<Rightarrow> real \<Rightarrow> real" where "ddiv a b \<equiv> f64 (a / b)"

section \<open>Properties of rounding\<close>

lemma rne_mono: "x \<le> y \<Longrightarrow> rne x \<le> rne y"
proof -
  assume "x \<le> y"
  then have f: "\<lfloor>x\<rfloor> \<le> \<lfloor>y\<rfloor>" by (rule floor_mono)
  have b: "\<And>z. \<lfloor>z\<rfloor> \<le> rne z \<and> rne z \<le> \<lfloor>z\<rfloor> + 1" by (simp add: rne_def Let_def)
  show ?thesis
  proof (cases "\<lfloor>x\<rfloor> = \<lfloor>y\<rfloor>")
    case True
    with \<open>x \<le> y\<close> show ?thesis by (auto simp: rne_def Let_def)
  next
    case False
    with f b [of x] b [of y] show ?thesis by linarith
  qed
qed

lemma rne_of_int [simp]: "rne (of_int i) = i"
  by (simp add: rne_def Let_def)

lemma rne_close: "\<bar>of_int (rne x) - x\<bar> \<le> 1/2"
proof -
  define f where "f = \<lfloor>x\<rfloor>"
  have "of_int f \<le> x" and "x < of_int f + 1" unfolding f_def by linarith+
  then show ?thesis unfolding rne_def Let_def f_def [symmetric] by (simp add: abs_le_iff)
qed

lemma rne_minus: "rne (- x) = - rne x"
proof (cases "x = of_int \<lfloor>x\<rfloor>")
  case True
  then show ?thesis by (metis of_int_minus rne_of_int)
next
  case False
  have fl: "\<lfloor>- x\<rfloor> = - \<lfloor>x\<rfloor> - 1"
    using False floor_correct [of x] by (simp add: floor_eq_iff) linarith
  show ?thesis by (auto simp: rne_def Let_def fl field_simps)
qed

lemma ulp_pos [simp]: "0 < ulp p emin x"
  by (simp add: ulp_def)

lemma ulp_facts [simp]: "0 \<le> ulp p emin x" "ulp p emin x \<noteq> 0"
  using ulp_pos [of p emin x] by linarith+

lemma rnd_0 [simp]: "rnd p emin 0 = 0"
  using rne_of_int [of 0] by (simp add: rnd_def del: rne_of_int)

lemma rnd_minus: "rnd p emin (- x) = - rnd p emin x"
  by (simp add: rnd_def ulp_def rne_minus)

lemma rnd_nonneg: "0 \<le> x \<Longrightarrow> 0 \<le> rnd p emin x"
proof -
  assume "0 \<le> x"
  then have "0 \<le> x / ulp p emin x" by simp
  then have "rne 0 \<le> rne (x / ulp p emin x)" by (rule rne_mono)
  then show ?thesis using rne_of_int [of 0] by (simp add: rnd_def del: rne_of_int)
qed

lemma rnd_error: "\<bar>rnd p emin x - x\<bar> \<le> ulp p emin x / 2"
proof -
  let ?u = "ulp p emin x"
  have "rnd p emin x - x = (of_int (rne (x / ?u)) - x / ?u) * ?u"
    using ulp_pos [of p emin x] by (simp add: rnd_def field_simps)
  then have "\<bar>rnd p emin x - x\<bar> = \<bar>of_int (rne (x / ?u)) - x / ?u\<bar> * ?u"
    by (simp add: abs_mult)
  also have "\<dots> \<le> 1/2 * ?u" by (intro mult_right_mono rne_close) simp
  finally show ?thesis by simp
qed

text \<open>Relative error \<open>2\<^sup>-\<^sup>p\<close> for numbers in the normal range.\<close>

lemma rnd_rel_error:
  assumes "2 powi emin \<le> \<bar>x\<bar>"
  shows "\<bar>rnd p emin x - x\<bar> \<le> \<bar>x\<bar> * 2 powi (- int p)"
proof -
  have pos: "0 < \<bar>x\<bar>" using assms by (smt (verit) zero_less_power_int)
  note b = ilog2_bounds [OF pos]
  have "(2::real) powi emin < 2 powi (ilog2 \<bar>x\<bar> + 1)" using assms b by linarith
  then have "emin \<le> ilog2 \<bar>x\<bar>" by (simp add: powi2_less_iff)
  then have "ulp p emin x / 2 = 2 powi ilog2 \<bar>x\<bar> * 2 powi (- int p)"
    by (simp add: ulp_def power_int_add power_int_diff power_int_minus field_simps max_def)
  also have "\<dots> \<le> \<bar>x\<bar> * 2 powi (- int p)" by (intro mult_right_mono) (use b in simp_all)
  finally show ?thesis using rnd_error [of p emin x] by linarith
qed

text \<open>Numbers of the format round to themselves.\<close>

lemma powi2_mult_int: "0 \<le> k \<Longrightarrow> \<exists>n::int. (2::real) powi k = of_int n"
  by (metis nonneg_int_cases of_int_power of_int_numeral power_int_of_nat)

lemma rnd_multiple_id:
  assumes "x = of_int m * 2 powi e" and "max (ilog2 \<bar>x\<bar>) emin - int p + 1 \<le> e"
  shows "rnd p emin x = x"
proof -
  let ?k = "max (ilog2 \<bar>x\<bar>) emin - int p + 1"
  obtain n where n: "(2::real) powi (e - ?k) = of_int n" using assms(2) powi2_mult_int [of "e - ?k"] by auto
  have "x / ulp p emin x = of_int m * 2 powi (e - ?k)"
    using assms(1) by (simp add: ulp_def power_int_diff)
  then have eq: "x / ulp p emin x = of_int (m * n)" using n by simp
  have "rnd p emin x = of_int (rne (x / ulp p emin x)) * ulp p emin x" by (simp add: rnd_def)
  also have "\<dots> = x / ulp p emin x * ulp p emin x" by (simp only: eq rne_of_int)
  also have "\<dots> = x" using ulp_pos [of p emin x] by (simp add: field_simps)
  finally show ?thesis .
qed

lemma rnd_representable:
  assumes "x = of_int m * 2 powi e" and "\<bar>m\<bar> \<le> 2 ^ p" and "emin - int p + 1 \<le> e" and "1 \<le> p"
  shows "rnd p emin x = x"
proof (cases "x = 0")
  case True
  then show ?thesis by simp
next
  case False
  have m0: "m \<noteq> 0" using False assms(1) by auto
  have pos: "0 < \<bar>x\<bar>" using False by simp
  show ?thesis
  proof (cases "\<bar>m\<bar> = 2 ^ p")
    case True
    have ax: "\<bar>x\<bar> = 2 powi (e + int p)"
      using assms(1) True by (simp add: abs_mult power_int_add flip: of_int_abs)
    then have il: "ilog2 \<bar>x\<bar> = e + int p" by (intro ilog2_eq) (simp_all add: powi2_less_iff)
    have "x = of_int (sgn m) * 2 powi (e + int p)"
      using assms(1) True m0 ax
      by (simp add: power_int_add sgn_if abs_if split: if_splits) (metis minus_equation_iff of_int_1 of_int_minus of_int_power of_int_numeral)
    then show ?thesis by (rule rnd_multiple_id) (use il assms(3,4) in simp)
  next
    case False
    with assms(2) have "\<bar>m\<bar> < 2 ^ p" by simp
    then have "real_of_int \<bar>m\<bar> < 2 ^ p" by (metis of_int_less_numeral_power_cancel_iff)
    then have "\<bar>x\<bar> < 2 ^ p * 2 powi e" using assms(1) by (simp add: abs_mult)
    then have "\<bar>x\<bar> < 2 powi (e + int p)" by (simp add: power_int_add mult.commute)
    with ilog2_bounds [OF pos] have "(2::real) powi ilog2 \<bar>x\<bar> < 2 powi (e + int p)" by linarith
    then have "ilog2 \<bar>x\<bar> < e + int p" by (simp add: powi2_less_iff)
    with assms(3) show ?thesis by (intro rnd_multiple_id [OF assms(1)]) simp
  qed
qed

lemma rnd_of_int: "\<bar>m\<bar> \<le> 2 ^ p \<Longrightarrow> emin \<le> 0 \<Longrightarrow> 1 \<le> p \<Longrightarrow> rnd p emin (of_int m) = of_int m"
  by (rule rnd_representable [where m = m and e = 0]) simp_all

lemma rnd_powi: "emin \<le> k \<Longrightarrow> 1 \<le> p \<Longrightarrow> rnd p emin (2 powi k) = 2 powi k"
  by (rule rnd_representable [where m = 1 and e = k]) simp_all

text \<open>Rounding is monotone: within a binade because \<open>rne\<close> is, across binades because a power
  of two separates the results.\<close>

lemma ulp_eq_same: "max (ilog2 \<bar>x\<bar>) emin = max (ilog2 \<bar>y\<bar>) emin \<Longrightarrow> ulp p emin x = ulp p emin y"
  by (simp add: ulp_def)

lemma rnd_le_pow:
  assumes "0 < x" and "1 \<le> p"
  shows "rnd p emin x \<le> 2 powi (max (ilog2 x) emin + 1)"
proof -
  let ?E = "max (ilog2 x) emin"
  let ?u = "ulp p emin x"
  have u: "?u = 2 powi (?E - int p + 1)" using assms by (simp add: ulp_def)
  have "x < 2 powi (ilog2 x + 1)" using ilog2_bounds assms(1) by blast
  also have "\<dots> \<le> 2 powi (?E + 1)" by (simp add: powi2_le_iff)
  finally have "x / ?u \<le> 2 powi (?E + 1) / ?u" by (intro divide_right_mono) simp_all
  also have "\<dots> = 2 powi int p" unfolding u by (simp flip: power_int_diff)
  finally have "x / ?u \<le> of_int (2 ^ p)" by simp
  then have "rne (x / ?u) \<le> 2 ^ p" using rne_mono rne_of_int by metis
  then have "real_of_int (rne (x / ?u)) \<le> 2 ^ p" by (metis of_int_le_numeral_power_cancel_iff)
  then have "of_int (rne (x / ?u)) * ?u \<le> 2 ^ p * ?u" by (intro mult_right_mono) simp_all
  also have "\<dots> = 2 powi (?E + 1)" unfolding u by (simp add: power_int_add power_int_diff field_simps)
  finally show ?thesis by (simp add: rnd_def)
qed

lemma rnd_ge_pow:
  assumes "0 < x" and "emin \<le> ilog2 x" and "1 \<le> p"
  shows "2 powi ilog2 x \<le> rnd p emin x"
proof -
  let ?u = "ulp p emin x"
  have u: "?u = 2 powi (ilog2 x - int p + 1)" using assms by (simp add: ulp_def max_def)
  have pp: "(2::real) powi (int p - 1) = of_int (2 ^ (p - 1))"
    using assms(3) by (simp add: power_int_def nat_diff_distrib)
  have "2 powi ilog2 x / ?u \<le> x / ?u"
    using ilog2_bounds [OF assms(1)] by (intro divide_right_mono) simp_all
  moreover have "2 powi ilog2 x / ?u = 2 powi (int p - 1)" unfolding u by (simp flip: power_int_diff)
  ultimately have "of_int (2 ^ (p - 1)) \<le> x / ?u" using pp by simp
  then have "2 ^ (p - 1) \<le> rne (x / ?u)" using rne_mono rne_of_int by metis
  then have "(of_int (2 ^ (p - 1)) :: real) \<le> of_int (rne (x / ?u))" by (simp only: of_int_le_iff)
  then have "2 powi (int p - 1) * ?u \<le> of_int (rne (x / ?u)) * ?u"
    using pp by (intro mult_right_mono) simp_all
  moreover have "2 powi (int p - 1) * ?u = 2 powi ilog2 x" unfolding u by (simp flip: power_int_add)
  ultimately show ?thesis by (simp add: rnd_def)
qed

lemma rnd_mono_pos:
  assumes "0 < x" and "x \<le> y" and "1 \<le> p"
  shows "rnd p emin x \<le> rnd p emin y"
proof (cases "max (ilog2 x) emin = max (ilog2 y) emin")
  case True
  then have u: "ulp p emin x = ulp p emin y" using assms by (intro ulp_eq_same) simp
  have "rne (x / ulp p emin x) \<le> rne (y / ulp p emin x)"
    using assms by (intro rne_mono divide_right_mono) simp_all
  then show ?thesis unfolding rnd_def u by (intro mult_right_mono) simp_all
next
  case False
  have le: "ilog2 x \<le> ilog2 y" using assms ilog2_mono by blast
  with False have lt: "max (ilog2 x) emin + 1 \<le> ilog2 y" by (auto simp: max_def split: if_splits)
  have "rnd p emin x \<le> 2 powi (max (ilog2 x) emin + 1)" by (rule rnd_le_pow [OF assms(1,3)])
  also have "\<dots> \<le> 2 powi ilog2 y" using lt by (simp add: powi2_le_iff)
  also have "\<dots> \<le> rnd p emin y" by (rule rnd_ge_pow) (use assms lt in simp_all)
  finally show ?thesis .
qed

lemma rnd_mono:
  assumes "x \<le> y" and "1 \<le> p"
  shows "rnd p emin x \<le> rnd p emin y"
proof -
  consider "0 < x" | "x \<le> 0" "0 \<le> y" | "y < 0" by linarith
  then show ?thesis
  proof cases
    case 1
    with assms show ?thesis by (simp add: rnd_mono_pos)
  next
    case 2
    have "0 \<le> rnd p emin (- x)" "0 \<le> rnd p emin y" using 2 by (simp_all add: rnd_nonneg)
    then show ?thesis by (simp add: rnd_minus)
  next
    case 3
    with assms have "rnd p emin (- y) \<le> rnd p emin (- x)" by (intro rnd_mono_pos) simp_all
    then show ?thesis by (simp add: rnd_minus)
  qed
qed

lemma rne_abs_le: "\<bar>y\<bar> \<le> of_int b \<Longrightarrow> \<bar>rne y\<bar> \<le> b"
  using rne_mono [of y "of_int b"] rne_mono [of "- of_int b" y] rne_of_int [of "- b"]
  by (simp add: abs_le_iff rne_minus)

text \<open>A rounded value has the form \<open>m * 2 powi e\<close>, so rounding it again changes nothing, and its
  double is representable too.\<close>

lemma rnd_form: "1 \<le> p \<Longrightarrow> \<exists>m e. rnd p emin x = of_int m * 2 powi e \<and> \<bar>m\<bar> \<le> 2 ^ p \<and> emin - int p + 1 \<le> e"
proof (cases "x = 0")
  case True
  then show ?thesis by (intro exI [of _ 0] exI [of _ "emin - int p + 1"]) simp
next
  case False
  let ?u = "ulp p emin x" and ?E = "max (ilog2 \<bar>x\<bar>) emin"
  have "\<bar>x\<bar> < 2 powi (ilog2 \<bar>x\<bar> + 1)" using ilog2_bounds [of "\<bar>x\<bar>"] False by simp
  also have "\<dots> \<le> 2 powi (?E + 1)" by (simp add: powi2_le_iff)
  finally have "\<bar>x\<bar> / ?u \<le> 2 powi (?E + 1) / ?u" by (intro divide_right_mono) simp_all
  also have "\<dots> = 2 powi int p" by (simp add: ulp_def flip: power_int_diff)
  finally have "\<bar>x / ?u\<bar> \<le> of_int (2 ^ p)" by (simp add: abs_divide)
  then have "\<bar>rne (x / ?u)\<bar> \<le> 2 ^ p" by (rule rne_abs_le)
  then show ?thesis
    by (intro exI [of _ "rne (x / ?u)"] exI [of _ "?E - int p + 1"]) (simp add: rnd_def ulp_def)
qed

lemma rnd_idem:
  assumes "1 \<le> p"
  shows "rnd p emin (rnd p emin x) = rnd p emin x"
  using rnd_form [of p emin x] assms rnd_representable by metis

lemma rnd_double:
  assumes "1 \<le> p"
  shows "rnd p emin (2 * rnd p emin x) = 2 * rnd p emin x"
proof -
  obtain m e where f: "rnd p emin x = of_int m * 2 powi e" "\<bar>m\<bar> \<le> 2 ^ p" "emin - int p + 1 \<le> e"
    using rnd_form [OF assms] by blast
  then have "2 * rnd p emin x = of_int m * 2 powi (e + 1)" by (simp add: power_int_add)
  then show ?thesis by (rule rnd_representable) (use f assms in simp_all)
qed

section \<open>The two formats\<close>

lemma f32_idem [simp]: "f32 (f32 x) = f32 x" and f64_idem [simp]: "f64 (f64 x) = f64 x"
  by (simp_all add: f32_def f64_def rnd_idem)

lemma f32_double: "f32 (2 * f32 x) = 2 * f32 x" and f64_double: "f64 (2 * f64 x) = 2 * f64 x"
  by (simp_all add: f32_def f64_def rnd_double)

lemma f32_0 [simp]: "f32 0 = 0" and f64_0 [simp]: "f64 0 = 0"
  by (simp_all add: f32_def f64_def)

lemma f32_mono: "x \<le> y \<Longrightarrow> f32 x \<le> f32 y" and f64_mono: "x \<le> y \<Longrightarrow> f64 x \<le> f64 y"
  by (simp_all add: f32_def f64_def rnd_mono)

lemma f32_nonneg [simp, intro]: "0 \<le> x \<Longrightarrow> 0 \<le> f32 x"
  and f64_nonneg [simp, intro]: "0 \<le> x \<Longrightarrow> 0 \<le> f64 x"
  by (simp_all add: f32_def f64_def rnd_nonneg)

lemma f32_nonpos: "x \<le> 0 \<Longrightarrow> f32 x \<le> 0" and f64_nonpos: "x \<le> 0 \<Longrightarrow> f64 x \<le> 0"
  using f32_mono [of x 0] f64_mono [of x 0] by simp_all

lemma f32_minus [simp]: "f32 (- x) = - f32 x" and f64_minus [simp]: "f64 (- x) = - f64 x"
  by (simp_all add: f32_def f64_def rnd_minus)

lemma f32_of_int: "\<bar>m\<bar> \<le> 2 ^ 24 \<Longrightarrow> f32 (of_int m) = of_int m"
  by (simp add: f32_def rnd_of_int)

lemma f64_of_int: "\<bar>m\<bar> \<le> 2 ^ 53 \<Longrightarrow> f64 (of_int m) = of_int m"
  by (simp add: f64_def rnd_of_int)

lemma f32_of_nat: "n \<le> 2 ^ 24 \<Longrightarrow> f32 (of_nat n) = of_nat n"
  using f32_of_int [of "int n"] by simp

lemma f64_of_nat: "n \<le> 2 ^ 53 \<Longrightarrow> f64 (of_nat n) = of_nat n"
  using f64_of_int [of "int n"] by simp

lemma f32_1 [simp]: "f32 1 = 1" and f64_1 [simp]: "f64 1 = 1"
  using f32_of_int [of 1] f64_of_int [of 1] by simp_all

lemma f32_dyadic: "\<bar>m\<bar> \<le> 2 ^ 24 \<Longrightarrow> -149 \<le> e \<Longrightarrow> f32 (of_int m * 2 powi e) = of_int m * 2 powi e"
  unfolding f32_def by (rule rnd_representable [where m = m and e = e]) simp_all

lemma f64_dyadic: "\<bar>m\<bar> \<le> 2 ^ 53 \<Longrightarrow> -1074 \<le> e \<Longrightarrow> f64 (of_int m * 2 powi e) = of_int m * 2 powi e"
  unfolding f64_def by (rule rnd_representable [where m = m and e = e]) simp_all

lemma f64_rel: "2 powi (- 1022) \<le> \<bar>x\<bar> \<Longrightarrow> \<bar>f64 x - x\<bar> \<le> \<bar>x\<bar> * 2 powi (- 53)"
  using rnd_rel_error [of "- 1022" x 53] by (simp add: f64_def)

lemma f32_rel: "2 powi (- 126) \<le> \<bar>x\<bar> \<Longrightarrow> \<bar>f32 x - x\<bar> \<le> \<bar>x\<bar> * 2 powi (- 24)"
  using rnd_rel_error [of "- 126" x 24] by (simp add: f32_def)

text \<open>The same for a positive argument, in the form the rate bounds use.\<close>

lemma f64_between:
  assumes "1 / 10 ^ 20 \<le> x"
  shows "x * (1 - 1 / 10 ^ 15) \<le> f64 x \<and> f64 x \<le> x * (1 + 1 / 10 ^ 15)"
proof -
  have x0: "0 < x" using assms by (rule less_le_trans [rotated]) simp
  have "(2::real) powi (- 1022) \<le> 2 powi (- 67)" by (simp only: powi2_le_iff)
  also have "\<dots> \<le> 1 / 10 ^ 20" by (simp add: power_int_minus field_simps)
  finally have "2 powi (- 1022) \<le> (1::real) / 10 ^ 20" .
  with assms have "2 powi (- 1022) \<le> \<bar>x\<bar>" by linarith
  then have e: "\<bar>f64 x - x\<bar> \<le> x * 2 powi (- 53)" using f64_rel [of x] x0 by simp
  have "(2::real) powi (- 53) \<le> 1 / 10 ^ 15" by (simp add: power_int_minus divide_simps)
  then have "x * 2 powi (- 53) \<le> x * (1 / 10 ^ 15)" using x0 by (intro mult_left_mono) simp_all
  with e have c: "\<bar>f64 x - x\<bar> \<le> x * (1 / 10 ^ 15)" by (rule order_trans)
  define d :: real where "d = 1 / 10 ^ 15"
  from c have "\<bar>f64 x - x\<bar> \<le> x * d" unfolding d_def .
  then have "x * (1 - d) \<le> f64 x \<and> f64 x \<le> x * (1 + d)" by (simp add: abs_le_iff algebra_simps)
  then show ?thesis unfolding d_def .
qed

lemma f64_f32 [simp]: "f64 (f32 x) = f32 x"
proof -
  obtain m e where "f32 x = of_int m * 2 powi e" "\<bar>m\<bar> \<le> 2 ^ 24" "- 149 \<le> e"
    using rnd_form [of 24 "- 126" x] by (auto simp: f32_def)
  moreover from this(2) have "\<bar>m\<bar> \<le> 2 ^ 53" by (rule order_trans) simp
  ultimately show ?thesis by (simp add: f64_dyadic)
qed

section \<open>Bit patterns\<close>

text \<open>The classes of a binary32 bit pattern; only finite patterns have a real value.\<close>

datatype float_class = Finite | Infinite | NotANumber

definition f32_exponent :: "u32 \<Rightarrow> nat" where
  "f32_exponent w = unat ((drop_bit 23 w) AND 0xFF)"

definition f32_fraction :: "u32 \<Rightarrow> nat" where
  "f32_fraction w = unat (w AND 0x7FFFFF)"

definition f32_sign :: "u32 \<Rightarrow> bool" where
  "f32_sign w = bit w 31"

definition f32_class :: "u32 \<Rightarrow> float_class" where
  "f32_class w = (if f32_exponent w \<noteq> 255 then Finite
     else if f32_fraction w = 0 then Infinite else NotANumber)"

definition f32_value :: "u32 \<Rightarrow> real" where
  "f32_value w = (let s = (if f32_sign w then - 1 else 1) :: real; e = f32_exponent w;
     m = f32_fraction w in
     if e = 0 then s * real m * 2 powi (- 149)
     else s * real (2 ^ 23 + m) * 2 powi (int e - 150))"

text \<open>\<open>std::isfinite\<close>, and an ordered comparison with a constant: false for NaN, the sign
  decides for an infinity.\<close>

definition f32_isfinite :: "u32 \<Rightarrow> bool" where
  "f32_isfinite w = (f32_class w = Finite)"

definition f32_lt :: "u32 \<Rightarrow> real \<Rightarrow> bool" where
  "f32_lt w c = (case f32_class w of NotANumber \<Rightarrow> False | Infinite \<Rightarrow> f32_sign w
     | Finite \<Rightarrow> f32_value w < c)"

definition f32_le :: "u32 \<Rightarrow> real \<Rightarrow> bool" where
  "f32_le w c = (case f32_class w of NotANumber \<Rightarrow> False | Infinite \<Rightarrow> f32_sign w
     | Finite \<Rightarrow> f32_value w \<le> c)"

definition f32_gt :: "u32 \<Rightarrow> real \<Rightarrow> bool" where
  "f32_gt w c = (case f32_class w of NotANumber \<Rightarrow> False | Infinite \<Rightarrow> \<not> f32_sign w
     | Finite \<Rightarrow> c < f32_value w)"

end
