(* ===== verification/Core_Types.thy ===== *)
theory Core_Types
  imports Floats
begin

text \<open>
  \<open>src/core/constants.hpp\<close>, \<open>src/core/types.hpp\<close> and \<open>src/core/sample_conversion.hpp\<close>:
  sizing constants, modem state, calibration data, multipath taps, and the conversion between raw
  converter codes and normalised samples. Calibration floats keep their wire bit pattern.
\<close>

section \<open>Constants\<close>

definition MAX_MODEMS :: nat where "MAX_MODEMS = 6"
definition MAX_TAPS_PER_CHANNEL :: nat where "MAX_TAPS_PER_CHANNEL = 32"
definition DATA_PACKET_SIZE :: nat where "DATA_PACKET_SIZE = 512"
definition CONTROL_PACKET_SIZE :: nat where "CONTROL_PACKET_SIZE = 64"
definition PACKET_HEADER_SIZE :: nat where "PACKET_HEADER_SIZE = 2"
definition MAX_MULTIPATH_DELAY_S :: real where "MAX_MULTIPATH_DELAY_S = f32 (1/5)"
definition PROCESSING_BLOCK_SIZE :: nat where "PROCESSING_BLOCK_SIZE = 256"
definition MODEM_AUDIO_BUFFER_CAPACITY :: u16 where "MODEM_AUDIO_BUFFER_CAPACITY = 16384"
definition TX_RING_CAPACITY :: u64 where "TX_RING_CAPACITY = 512 * 1024"
definition RX_RING_CAPACITY :: u64 where "RX_RING_CAPACITY = 64 * 1024"

section \<open>Modem state and calibration\<close>

text \<open>\<open>enum class ModemState : uint8_t\<close>. A cast from a byte keeps any value, named or not.\<close>

datatype modem_state = ST_IDLE | ST_RX | ST_TX | ST_SETTLING | ST_UNNAMED u8

definition state_of_byte :: "u8 \<Rightarrow> modem_state" where
  "state_of_byte b = (if b = 0 then ST_IDLE else if b = 1 then ST_RX else if b = 2 then ST_TX
     else if b = 3 then ST_SETTLING else ST_UNNAMED b)"

fun byte_of_state :: "modem_state \<Rightarrow> u8" where
  "byte_of_state ST_IDLE = 0"
| "byte_of_state ST_RX = 1"
| "byte_of_state ST_TX = 2"
| "byte_of_state ST_SETTLING = 3"
| "byte_of_state (ST_UNNAMED b) = b"

lemma byte_of_state_of_byte [simp]: "byte_of_state (state_of_byte b) = b"
  by (simp add: state_of_byte_def)

text \<open>A C++ \<open>float\<close> as the 32-bit word that travels on the wire.\<close>

type_synonym float_bits = u32

record calibration_data =
  cal_adc_bits :: u8
  cal_dac_bits :: u8
  cal_num_input_attenuations :: u8
  cal_loopback_cal_attenuation :: u16
  cal_noise_floor_psd :: float_bits
  cal_loopback_gain :: float_bits
  cal_adc_sampling_rate :: u32
  cal_dac_sampling_rate :: u32
  cal_input_attenuation_0 :: float_bits
  cal_input_attenuation_1 :: float_bits
  cal_output_attenuation :: float_bits
  cal_center_freq_hz :: float_bits
  cal_adc_vref_peak_volts :: float_bits
  cal_dac_vref_peak_volts :: float_bits

text \<open>The member initialisers: \<open>1.0f\<close> is \<open>0x3F800000\<close>, \<open>25000.0f\<close> is \<open>0x46C35000\<close>.\<close>

definition default_calibration :: calibration_data where
  "default_calibration = \<lparr>cal_adc_bits = 16, cal_dac_bits = 16,
     cal_num_input_attenuations = 2, cal_loopback_cal_attenuation = 0,
     cal_noise_floor_psd = 0, cal_loopback_gain = 0x3F800000,
     cal_adc_sampling_rate = 500000, cal_dac_sampling_rate = 500000,
     cal_input_attenuation_0 = 0, cal_input_attenuation_1 = 0, cal_output_attenuation = 0,
     cal_center_freq_hz = 0x46C35000,
     cal_adc_vref_peak_volts = 0x3F800000, cal_dac_vref_peak_volts = 0x3F800000\<rparr>"

lemma default_calibration_floats:
  "f32_value (cal_loopback_gain default_calibration) = 1 \<and>
   f32_value (cal_center_freq_hz default_calibration) = 25000"
  by (simp add: default_calibration_def f32_value_def f32_sign_def f32_exponent_def
      f32_fraction_def Let_def power_int_def) code_simp

definition samples_per_packet :: "calibration_data \<Rightarrow> u16" where
  "samples_per_packet cal =
     (let bytes_per_sample = (if cal_adc_bits cal \<le> 16 then 2 else 4) :: nat
      in of_nat ((DATA_PACKET_SIZE - PACKET_HEADER_SIZE) div bytes_per_sample))"

lemma samples_per_packet_cases:
  "samples_per_packet cal = (if cal_adc_bits cal \<le> 16 then 255 else 127)"
  by (simp add: samples_per_packet_def DATA_PACKET_SIZE_def PACKET_HEADER_SIZE_def)

record multipath_tap =
  mt_delay_s :: real
  mt_gain_linear :: real
  mt_phase_rad :: real

record modem_runtime_state =
  rt_state :: modem_state
  rt_buffer_fill_fraction :: real
  rt_tx_start_ns :: nat
  rt_state_change_ns :: nat
  rt_error_flags :: u32

definition initial_runtime :: modem_runtime_state where
  "initial_runtime = \<lparr>rt_state = ST_IDLE, rt_buffer_fill_fraction = 0, rt_tx_start_ns = 0,
     rt_state_change_ns = 0, rt_error_flags = 0\<rparr>"

section \<open>Sample conversion\<close>

text \<open>
  \<open>1u << (bits - 1)\<close> is defined for \<open>1 \<le> bits \<le> 32\<close>; the functions are read for those
  widths, and the results below for the widths that fit the 16-bit code type.
\<close>

definition converter_midpoint :: "u8 \<Rightarrow> real" where
  "converter_midpoint bits = f32 (real (unat (push_bit (unat bits - 1) (1 :: u32))))"

definition adc_to_float :: "u16 \<Rightarrow> u8 \<Rightarrow> real" where
  "adc_to_float sample adc_bits =
     (let midpoint = converter_midpoint adc_bits
      in fdiv (fsub (f32 (real (unat sample))) midpoint) midpoint)"

definition float_to_dac :: "real \<Rightarrow> u8 \<Rightarrow> u16" where
  "float_to_dac sample dac_bits =
     (let midpoint = converter_midpoint dac_bits;
          max_val = f32 (real (unat (push_bit (unat dac_bits) (1 :: u32) - 1)));
          scaled = fadd (fmul sample midpoint) midpoint;
          clamped = cclamp scaled 0 max_val
      in of_int (ctrunc clamped))"

lemma unat_pow2_u32 [simp]:
  assumes "n < 32"
  shows "unat (2 ^ n :: u32) = 2 ^ n"
proof -
  have "(2::nat) ^ n < 2 ^ 32" by (rule power_strict_increasing) (use assms in simp_all)
  then have "unat (of_nat (2 ^ n) :: u32) = 2 ^ n" by (simp only: unat_of_nat) simp
  then show ?thesis by simp
qed

lemma push_bit_1_u32: "push_bit n (1 :: u32) = 2 ^ n"
  by (simp add: push_bit_eq_mult)

lemma pow2_le_16: "n \<le> 16 \<Longrightarrow> (2::nat) ^ n \<le> 65536"
  using power_increasing [of n 16 "2::nat"] by simp

lemma midpoint_value:
  assumes "1 \<le> unat b" and "unat b \<le> 16"
  shows "converter_midpoint b = 2 ^ (unat b - 1)"
proof -
  have "(2::nat) ^ (unat b - 1) \<le> 2 ^ 24" by (rule power_increasing) (use assms in simp_all)
  then have "f32 (real (2 ^ (unat b - 1))) = real (2 ^ (unat b - 1))" by (rule f32_of_nat)
  moreover have "unat (push_bit (unat b - 1) (1 :: u32)) = 2 ^ (unat b - 1)"
    unfolding push_bit_1_u32 by (rule unat_pow2_u32) (use assms in simp)
  ultimately show ?thesis by (simp only: converter_midpoint_def) simp
qed

lemma dac_max_value:
  assumes "1 \<le> unat b" and "unat b \<le> 16"
  shows "f32 (real (unat (push_bit (unat b) (1 :: u32) - 1))) = real (2 ^ unat b - 1)"
proof -
  have u: "unat (2 ^ unat b :: u32) = 2 ^ unat b" by (rule unat_pow2_u32) (use assms in simp)
  then have "(1::u32) \<le> 2 ^ unat b" by (simp only: word_le_nat_alt) simp
  then have "unat (push_bit (unat b) (1 :: u32) - 1) = 2 ^ unat b - 1"
    unfolding push_bit_1_u32 by (simp only: unat_sub u) simp
  moreover have "(2::nat) ^ unat b - 1 \<le> 2 ^ 24" using pow2_le_16 [OF assms(2)] by simp
  ultimately show ?thesis using f32_of_nat by metis
qed

lemma code_diff_bound:
  assumes "unat b \<le> 16"
  shows "\<bar>int (unat (s::u16)) - 2 ^ (unat b - 1)\<bar> \<le> 2 ^ 24"
proof -
  define z where "z = (2::int) ^ (unat b - 1)"
  have "z \<le> 2 ^ 16" unfolding z_def by (rule power_increasing) (use assms in simp_all)
  then have "z \<le> 65536" and "0 < z" by (simp_all add: z_def)
  moreover have "int (unat s) < 65536" "0 \<le> int (unat s)" using unat_u16 [of s] by linarith+
  moreover have "(2::int) ^ 24 = 16777216" by simp
  ultimately show ?thesis unfolding z_def [symmetric] by linarith
qed

text \<open>The ADC conversion is exact: no rounding takes place for codes of at most 16 bits.\<close>

lemma adc_to_float_exact:
  assumes "1 \<le> unat b" and "unat b \<le> 16"
  shows "adc_to_float s b = (real (unat s) - 2 ^ (unat b - 1)) / 2 ^ (unat b - 1)"
proof -
  let ?k = "unat b - 1"
  let ?d = "int (unat s) - 2 ^ ?k"
  have s: "f32 (real (unat s)) = real (unat s)"
    using unat_u16 [of s] by (intro f32_of_nat) simp
  have d: "\<bar>?d\<bar> \<le> 2 ^ 24" by (rule code_diff_bound [OF assms(2)])
  have sub: "fsub (real (unat s)) (2 ^ ?k) = of_int ?d"
    using f32_of_int [OF d] by simp
  have "of_int ?d / 2 ^ ?k = of_int ?d * (2 powi (- int ?k) :: real)"
    by (simp add: power_int_minus divide_inverse)
  moreover have "f32 (of_int ?d * 2 powi (- int ?k)) = of_int ?d * 2 powi (- int ?k)"
    by (rule f32_dyadic [OF d]) (use assms in simp)
  ultimately show ?thesis
    unfolding adc_to_float_def Let_def midpoint_value [OF assms] s sub by simp
qed

lemma dac_clamped_range:
  fixes v :: real
  assumes "b \<le> 16"
  shows "0 \<le> ctrunc (cclamp v 0 (real (2 ^ b - 1))) \<and>
    ctrunc (cclamp v 0 (real (2 ^ b - 1))) < 2 ^ 16 \<and>
    ctrunc (cclamp v 0 (real (2 ^ b - 1))) \<le> 2 ^ b - 1"
proof -
  let ?c = "cclamp v 0 (real (2 ^ b - 1))"
  have "0 \<le> ?c" and hi: "?c \<le> real (2 ^ b - 1)" by (rule cclamp_lower cclamp_upper, simp)+
  then have "0 \<le> ctrunc ?c" by (simp add: ctrunc_nonneg)
  moreover have "ctrunc ?c \<le> ctrunc (real (2 ^ b - 1))" by (rule ctrunc_mono [OF hi])
  then have le: "ctrunc ?c \<le> 2 ^ b - 1" by (simp only: ctrunc_of_nat) (simp add: of_nat_diff)
  moreover have "(2::int) ^ b \<le> 2 ^ 16" by (rule power_increasing) (use assms in simp_all)
  ultimately show ?thesis by simp
qed

lemma unat_word_of_nonneg: "0 \<le> i \<Longrightarrow> i < 2 ^ 16 \<Longrightarrow> int (unat (of_int i :: u16)) = i"
  by (simp add: uint_word_of_int flip: uint_nat)

lemma float_to_dac_value:
  assumes "1 \<le> unat b" and "unat b \<le> 16"
  shows "int (unat (float_to_dac x b)) =
    ctrunc (cclamp (fadd (fmul x (2 ^ (unat b - 1))) (2 ^ (unat b - 1))) 0 (real (2 ^ unat b - 1)))"
proof -
  have "float_to_dac x b = of_int (ctrunc (cclamp (fadd (fmul x (2 ^ (unat b - 1)))
      (2 ^ (unat b - 1))) 0 (real (2 ^ unat b - 1))))"
    unfolding float_to_dac_def Let_def midpoint_value [OF assms] dac_max_value [OF assms] ..
  with dac_clamped_range [OF assms(2)] show ?thesis by (simp only: unat_word_of_nonneg)
qed

lemma float_to_dac_range:
  assumes "1 \<le> unat b" and "unat b \<le> 16"
  shows "unat (float_to_dac x b) < 2 ^ unat b"
proof -
  have "int (unat (float_to_dac x b)) \<le> 2 ^ unat b - 1"
    unfolding float_to_dac_value [OF assms] using dac_clamped_range [OF assms(2)] by blast
  then have "int (unat (float_to_dac x b)) < int (2 ^ unat b)" by simp
  then show ?thesis by (simp only: of_nat_less_iff)
qed

lemma float_to_dac_order:
  assumes "1 \<le> unat b" and "unat b \<le> 16" and "x \<le> y"
  shows "float_to_dac x b \<le> float_to_dac y b"
proof -
  have "int (unat (float_to_dac x b)) \<le> int (unat (float_to_dac y b))"
    unfolding float_to_dac_value [OF assms(1,2)]
    by (intro ctrunc_mono cclamp_mono f32_mono add_right_mono mult_right_mono assms(3)) simp_all
  then show ?thesis by (simp add: word_le_nat_alt)
qed

lemma adc_dac_inverse:
  assumes "1 \<le> unat b" and "unat b \<le> 16" and "unat s < 2 ^ unat b"
  shows "float_to_dac (adc_to_float s b) b = s"
proof -
  let ?M = "2 ^ (unat b - 1) :: real"
  have M: "?M = of_int (2 ^ (unat b - 1))" by simp
  have "fmul (adc_to_float s b) ?M = f32 (of_int (int (unat s) - 2 ^ (unat b - 1)))"
    unfolding adc_to_float_exact [OF assms(1,2)] by simp
  also have "\<dots> = of_int (int (unat s) - 2 ^ (unat b - 1))"
    by (rule f32_of_int [OF code_diff_bound [OF assms(2)]])
  finally have mul: "fmul (adc_to_float s b) ?M = real (unat s) - ?M" by simp
  have add: "fadd (fmul (adc_to_float s b) ?M) ?M = real (unat s)"
    unfolding mul using f32_of_nat [of "unat s"] unat_u16 [of s] by simp
  have "real (unat s) \<le> real (2 ^ unat b - 1)" using assms(3) by (simp only: of_nat_le_iff)
  then have "int (unat (float_to_dac (adc_to_float s b) b)) = int (unat s)"
    unfolding float_to_dac_value [OF assms(1,2)] add by (simp add: cclamp_id del: of_nat_diff)
  then show ?thesis by (simp add: word_unat_eq_iff)
qed

lemma float_to_dac_saturates:
  assumes "1 \<le> unat b" and "unat b \<le> 16"
  shows "1 \<le> x \<Longrightarrow> unat (float_to_dac x b) = 2 ^ unat b - 1"
    and "x \<le> - 1 \<Longrightarrow> float_to_dac x b = 0"
proof -
  let ?M = "2 ^ (unat b - 1) :: real"
  have M16: "(2::nat) ^ (unat b - 1) \<le> 2 ^ 16" by (rule power_increasing) (use assms in simp_all)
  have fM: "f32 ?M = ?M" using f32_of_nat [of "2 ^ (unat b - 1)"] M16 by simp
  have twoM: "?M + ?M = 2 ^ unat b" using assms by (cases "unat b") simp_all
  have f2M: "f32 (?M + ?M) = 2 ^ unat b"
    using f32_of_nat [of "2 ^ unat b"] pow2_le_16 [OF assms(2)] unfolding twoM by simp
  {
    assume "1 \<le> x"
    then have "?M \<le> x * ?M" by simp
    then have "?M \<le> fmul x ?M" using f32_mono [of ?M "x * ?M"] fM by simp
    then have "2 ^ unat b \<le> fadd (fmul x ?M) ?M"
      using f32_mono [of "?M + ?M" "fmul x ?M + ?M"] f2M by simp
    moreover have "real (2 ^ unat b - 1) < 2 ^ unat b" by (simp add: of_nat_diff)
    moreover have "(0::real) \<le> 2 ^ unat b" by simp
    ultimately have c: "cclamp (fadd (fmul x ?M) ?M) 0 (real (2 ^ unat b - 1)) = real (2 ^ unat b - 1)"
      unfolding cclamp_def by (smt (verit))
    have "int (unat (float_to_dac x b)) = int (2 ^ unat b - 1)"
      unfolding float_to_dac_value [OF assms] c by (rule ctrunc_of_nat)
    then show "unat (float_to_dac x b) = 2 ^ unat b - 1" by (simp only: of_nat_eq_iff)
  next
    assume "x \<le> - 1"
    then have "x * ?M \<le> - 1 * ?M" by (intro mult_right_mono) simp_all
    then have "x * ?M \<le> - ?M" by simp
    then have "fmul x ?M \<le> - ?M" using f32_mono [of "x * ?M" "- ?M"] fM by simp
    then have "fadd (fmul x ?M) ?M \<le> 0" by (intro f32_nonpos) simp
    moreover have "(0::real) \<le> real (2 ^ unat b - 1)" by (rule of_nat_0_le_iff)
    ultimately have c: "cclamp (fadd (fmul x ?M) ?M) 0 (real (2 ^ unat b - 1)) = 0"
      unfolding cclamp_def by (smt (verit))
    have "int (unat (float_to_dac x b)) = 0"
      unfolding float_to_dac_value [OF assms] c by (simp add: ctrunc_def)
    then show "float_to_dac x b = 0" by (simp add: unat_eq_zero)
  }
qed

text \<open>For converters of 1 to 16 bits the two conversions agree: every code in range survives
  the trip through floating point, whatever is played stays inside the code range, the conversion
  preserves order, and values beyond full scale saturate at the end codes.\<close>

theorem converters_agree:
  assumes "1 \<le> unat b" and "unat b \<le> 16"
  shows "(unat s < 2 ^ unat b \<longrightarrow> float_to_dac (adc_to_float s b) b = s) \<and>
    unat (float_to_dac x b) < 2 ^ unat b \<and>
    (x \<le> y \<longrightarrow> float_to_dac x b \<le> float_to_dac y b) \<and>
    (1 \<le> x \<longrightarrow> unat (float_to_dac x b) = 2 ^ unat b - 1) \<and>
    (x \<le> - 1 \<longrightarrow> float_to_dac x b = 0)"
  using assms
  by (simp add: adc_dac_inverse float_to_dac_range float_to_dac_order float_to_dac_saturates)

theorem converters_agree_witness:
  "float_to_dac (adc_to_float 40000 16) 16 = 40000 \<and> float_to_dac 2 12 = 4095 \<and>
   float_to_dac (- 3) 12 = 0"
proof -
  have "float_to_dac (adc_to_float 40000 16) 16 = 40000"
    using converters_agree [of 16 40000 0 0] by simp
  moreover have "unat (float_to_dac 2 12) = 4095" using converters_agree [of 12 0 2 2] by simp
  then have "float_to_dac 2 12 = 4095" by (simp add: word_unat_eq_iff)
  moreover have "float_to_dac (- 3) 12 = 0" using converters_agree [of 12 0 "- 3" "- 3"] by simp
  ultimately show ?thesis by blast
qed

end
