(* ===== verification/Codec.thy ===== *)
theory Codec
  imports Core_Types
begin

text \<open>
  \<open>src/protocol/packets.hpp\<close> and \<open>protocol_codec.cpp\<close>: the wire format between host
  and modem. A buffer is a byte list; a packed struct is the concatenation of its little-endian
  fields in declaration order, so \<open>memcpy\<close> to or from a buffer is encoding or decoding at
  the fields' offsets.
\<close>

section \<open>Little-endian fields\<close>

definition le16 :: "u16 \<Rightarrow> u8 list" where
  "le16 w = [ucast w, ucast (drop_bit 8 w)]"

definition rd16 :: "u8 list \<Rightarrow> nat \<Rightarrow> u16" where
  "rd16 buf i = ucast (buf ! i) OR push_bit 8 (ucast (buf ! Suc i))"

definition le32 :: "u32 \<Rightarrow> u8 list" where
  "le32 w = [ucast w, ucast (drop_bit 8 w), ucast (drop_bit 16 w), ucast (drop_bit 24 w)]"

definition rd32 :: "u8 list \<Rightarrow> nat \<Rightarrow> u32" where
  "rd32 buf i = ucast (buf ! i) OR push_bit 8 (ucast (buf ! (i + 1)))
     OR push_bit 16 (ucast (buf ! (i + 2))) OR push_bit 24 (ucast (buf ! (i + 3)))"

lemma length_le16 [simp, codec_rules]: "length (le16 w) = 2"
  by (simp add: le16_def)

lemma length_le32 [simp, codec_rules]: "length (le32 w) = 4"
  by (simp add: le32_def)

lemma split_u16: "ucast (ucast w :: u8) OR push_bit 8 (ucast (ucast (drop_bit 8 w) :: u8)) = (w::u16)"
  by (rule bit_word_eqI) (auto simp: bit_simps)

lemma split_u32: "ucast (ucast w :: u8) OR push_bit 8 (ucast (ucast (drop_bit 8 w) :: u8))
    OR push_bit 16 (ucast (ucast (drop_bit 16 w) :: u8))
    OR push_bit 24 (ucast (ucast (drop_bit 24 w) :: u8)) = (w::u32)" (is "?L = w")
proof (rule bit_word_eqI)
  fix n assume "n < LENGTH(32)"
  then consider "n < 8" | "8 \<le> n" "n < 16" | "16 \<le> n" "n < 24" | "24 \<le> n" "n < 32"
    by fastforce
  then show "bit ?L n = bit w n" by cases (auto simp: bit_simps)
qed

lemma rd16_at [codec_rules]:
  assumes "length pre = i"
  shows "rd16 (pre @ le16 w @ post) i = w"
  using assms by (simp add: rd16_def le16_def nth_append split_u16)

lemma rd32_at [codec_rules]:
  assumes "length pre = i"
  shows "rd32 (pre @ le32 w @ post) i = w"
  using assms by (simp add: rd32_def le32_def nth_append split_u32)

section \<open>Packets\<close>

definition DATA_PACKET_BYTES :: nat where "DATA_PACKET_BYTES = 512"
definition CONTROL_PACKET_BYTES :: nat where "CONTROL_PACKET_BYTES = 64"
definition DATA_HEADER_BYTES :: nat where "DATA_HEADER_BYTES = 2"
definition DATA_SAMPLES_PER_PKT :: nat where
  "DATA_SAMPLES_PER_PKT = (DATA_PACKET_BYTES - DATA_HEADER_BYTES) div 2"

lemma DATA_SAMPLES_PER_PKT_eq [simp]: "DATA_SAMPLES_PER_PKT = 255"
  by (simp add: DATA_SAMPLES_PER_PKT_def DATA_PACKET_BYTES_def DATA_HEADER_BYTES_def)

datatype control_type = CT_STATUS | CT_CALIBRATION

fun control_type_byte :: "control_type \<Rightarrow> u8" where
  "control_type_byte CT_STATUS = 0x01"
| "control_type_byte CT_CALIBRATION = 0x02"

datatype command_id = REQUEST_CALIBRATION | ENTER_HIL_MODE | EXIT_HIL_MODE | SELECT_ATTENUATION

fun command_byte :: "command_id \<Rightarrow> u8" where
  "command_byte REQUEST_CALIBRATION = 0x10"
| "command_byte ENTER_HIL_MODE = 0x11"
| "command_byte EXIT_HIL_MODE = 0x12"
| "command_byte SELECT_ATTENUATION = 0x13"

record status_payload =
  sp_type :: u8
  sp_modem_state :: u8
  sp_buffer_fill :: u16
  sp_buffer_capacity :: u16
  sp_attenuation_idx :: u8
  sp_error_flags :: u8
  sp_firmware_timestamp_ms :: u32
  sp_rx_expected_id :: u16
  sp_fill_reference_id :: u16
  sp_reserved :: "u8 list"

text \<open>\<open>StatusPayload status{}\<close>: value-initialised to zero.\<close>

definition zero_status :: status_payload where
  "zero_status = \<lparr>sp_type = 0, sp_modem_state = 0, sp_buffer_fill = 0, sp_buffer_capacity = 0,
     sp_attenuation_idx = 0, sp_error_flags = 0, sp_firmware_timestamp_ms = 0,
     sp_rx_expected_id = 0, sp_fill_reference_id = 0, sp_reserved = replicate 48 0\<rparr>"

record calibration_payload =
  cp_type :: u8
  cp_cal :: calibration_data
  cp_reserved0 :: u16
  cp_reserved :: "u8 list"

text \<open>The packed image of a \<open>CalibrationPayload\<close>, field by field.\<close>

definition calibration_bytes :: "calibration_payload \<Rightarrow> u8 list" where
  "calibration_bytes p = (let c = cp_cal p in
     [cp_type p, cal_adc_bits c, cal_dac_bits c, cal_num_input_attenuations c]
     @ le16 (cal_loopback_cal_attenuation c) @ le16 (cp_reserved0 p)
     @ le32 (cal_noise_floor_psd c) @ le32 (cal_loopback_gain c)
     @ le32 (cal_adc_sampling_rate c) @ le32 (cal_dac_sampling_rate c)
     @ le32 (cal_input_attenuation_0 c) @ le32 (cal_input_attenuation_1 c)
     @ le32 (cal_output_attenuation c) @ le32 (cal_center_freq_hz c)
     @ le32 (cal_adc_vref_peak_volts c) @ le32 (cal_dac_vref_peak_volts c)
     @ cp_reserved p)"

text \<open>A command packet: the id byte followed by 63 payload bytes; \<open>SelectAttenuationPayload\<close>
  is its first payload byte.\<close>

definition command_packet :: "u8 \<Rightarrow> u8 list \<Rightarrow> u8 list" where
  "command_packet cid payload = cid # payload"

section \<open>Encoders and decoders\<close>

definition validate_calibration_ranges :: "calibration_data \<Rightarrow> bool" where
  "validate_calibration_ranges cal =
    (if \<not> f32_isfinite (cal_noise_floor_psd cal) \<or> f32_lt (cal_noise_floor_psd cal) 0 then False
     else if \<not> f32_isfinite (cal_center_freq_hz cal) \<or> f32_le (cal_center_freq_hz cal) 0
       \<or> f32_gt (cal_center_freq_hz cal) 1000000 then False
     else if \<not> f32_isfinite (cal_adc_vref_peak_volts cal) \<or> f32_le (cal_adc_vref_peak_volts cal) 0
       \<or> f32_gt (cal_adc_vref_peak_volts cal) 50 then False
     else if \<not> f32_isfinite (cal_dac_vref_peak_volts cal) \<or> f32_le (cal_dac_vref_peak_volts cal) 0
       \<or> f32_gt (cal_dac_vref_peak_volts cal) 50 then False
     else True)"

definition encode_data_packet :: "u16 \<Rightarrow> u16 list \<Rightarrow> nat \<Rightarrow> u8 list" where
  "encode_data_packet packet_id samples sample_count =
     (let n = cmin sample_count DATA_SAMPLES_PER_PKT
      in [ucast (packet_id AND 0xFF), ucast (drop_bit 8 packet_id AND 0xFF)]
         @ concat (map le16 (take n samples)) @ replicate ((DATA_SAMPLES_PER_PKT - n) * 2) 0)"

definition decode_data_packet :: "u8 list \<Rightarrow> nat \<Rightarrow> u16 \<times> u16 list" where
  "decode_data_packet buf max_samples =
     (let packet_id = ucast (buf ! 0) OR push_bit 8 (ucast (buf ! 1));
          actual_samples = cmin max_samples DATA_SAMPLES_PER_PKT
      in (packet_id, map (\<lambda>i. rd16 buf (DATA_HEADER_BYTES + 2 * i)) [0..<actual_samples]))"

definition encode_command :: "command_id \<Rightarrow> u8 list \<Rightarrow> u8 list" where
  "encode_command cmd payload =
     (let n = cmin (length payload) (CONTROL_PACKET_BYTES - 1)
      in command_packet (command_byte cmd)
           (take n payload @ replicate (CONTROL_PACKET_BYTES - 1 - n) 0))"

definition decode_status :: "u8 list \<Rightarrow> status_payload option" where
  "decode_status buf =
     (if buf ! 0 \<noteq> control_type_byte CT_STATUS then None
      else Some \<lparr>sp_type = buf ! 0, sp_modem_state = buf ! 1, sp_buffer_fill = rd16 buf 2,
        sp_buffer_capacity = rd16 buf 4, sp_attenuation_idx = buf ! 6, sp_error_flags = buf ! 7,
        sp_firmware_timestamp_ms = rd32 buf 8, sp_rx_expected_id = rd16 buf 12,
        sp_fill_reference_id = rd16 buf 14, sp_reserved = take 48 (drop 16 buf)\<rparr>)"

text \<open>The out-parameter \<open>cal\<close> is untouched for a wrong type byte, and overwritten before the
  range check otherwise.\<close>

definition decode_calibration :: "u8 list \<Rightarrow> calibration_data \<Rightarrow> bool \<times> calibration_data" where
  "decode_calibration buf cal =
     (if buf ! 0 \<noteq> control_type_byte CT_CALIBRATION then (False, cal)
      else let cal' = \<lparr>cal_adc_bits = buf ! 1, cal_dac_bits = buf ! 2,
             cal_num_input_attenuations = buf ! 3, cal_loopback_cal_attenuation = rd16 buf 4,
             cal_noise_floor_psd = rd32 buf 8, cal_loopback_gain = rd32 buf 12,
             cal_adc_sampling_rate = rd32 buf 16, cal_dac_sampling_rate = rd32 buf 20,
             cal_input_attenuation_0 = rd32 buf 24, cal_input_attenuation_1 = rd32 buf 28,
             cal_output_attenuation = rd32 buf 32, cal_center_freq_hz = rd32 buf 36,
             cal_adc_vref_peak_volts = rd32 buf 40, cal_dac_vref_peak_volts = rd32 buf 44\<rparr>
        in (validate_calibration_ranges cal', cal'))"

definition encode_calibration :: "calibration_data \<Rightarrow> u8 list" where
  "encode_calibration cal = calibration_bytes \<lparr>cp_type = control_type_byte CT_CALIBRATION,
     cp_cal = cal, cp_reserved0 = 0, cp_reserved = replicate 16 0\<rparr>"

definition encode_status :: "status_payload \<Rightarrow> u8 list" where
  "encode_status s = [sp_type s, sp_modem_state s] @ le16 (sp_buffer_fill s)
     @ le16 (sp_buffer_capacity s) @ [sp_attenuation_idx s, sp_error_flags s]
     @ le32 (sp_firmware_timestamp_ms s) @ le16 (sp_rx_expected_id s)
     @ le16 (sp_fill_reference_id s) @ sp_reserved s"

record codec =
  cd_expected_id :: u16
  cd_gap_count :: u64

definition codec_init :: codec where
  "codec_init = \<lparr>cd_expected_id = 0, cd_gap_count = 0\<rparr>"

definition check_sequence :: "u16 \<Rightarrow> codec \<Rightarrow> bool \<times> codec" where
  "check_sequence received_id c =
     (if received_id \<noteq> cd_expected_id c
      then (False, c\<lparr>cd_gap_count := cd_gap_count c + 1, cd_expected_id := received_id + 1\<rparr>)
      else (True, c\<lparr>cd_expected_id := received_id + 1\<rparr>))"

definition reset_sequence :: "codec \<Rightarrow> codec" where
  "reset_sequence c = c\<lparr>cd_expected_id := 0, cd_gap_count := 0\<rparr>"

section \<open>Sizes\<close>

lemma length_concat_le16: "length (concat (map le16 xs)) = 2 * length xs"
  by (induction xs) simp_all

lemma length_encode_data_packet:
  assumes "sample_count \<le> length samples"
  shows "length (encode_data_packet pid samples sample_count) = 512"
  using assms by (simp add: encode_data_packet_def Let_def length_concat_le16)

lemma length_encode_command: "length (encode_command cmd payload) = 64"
  by (simp add: encode_command_def command_packet_def Let_def CONTROL_PACKET_BYTES_def)

lemma length_encode_calibration: "length (encode_calibration cal) = 64"
  by (simp add: encode_calibration_def calibration_bytes_def Let_def)

lemma length_encode_status: "length (sp_reserved s) = 48 \<Longrightarrow> length (encode_status s) = 64"
  by (simp add: encode_status_def)

section \<open>Round trips\<close>

lemma rd16_concat:
  assumes "i < length xs" and "length pre = 2"
  shows "rd16 (pre @ concat (map le16 xs) @ post) (2 + 2 * i) = xs ! i"
proof -
  have "xs = take i xs @ xs ! i # drop (Suc i) xs" using assms(1) by (rule id_take_nth_drop)
  then have split: "pre @ concat (map le16 xs) @ post =
      (pre @ concat (map le16 (take i xs))) @ le16 (xs ! i)
        @ (concat (map le16 (drop (Suc i) xs)) @ post)"
    by (metis (no_types, lifting) append.assoc concat.simps(2) concat_append list.simps(9) map_append)
  show ?thesis
    unfolding split by (rule rd16_at) (use assms in \<open>simp add: length_concat_le16\<close>)
qed

lemma concat_le16_zeros: "concat (map le16 (replicate n 0)) = replicate (n * 2) 0"
  by (induction n) (simp_all add: le16_def)

lemma data_packet_header: "ucast (ucast (w AND 0xFF) :: u8) OR
    push_bit 8 (ucast (ucast (drop_bit 8 w AND 0xFF) :: u8)) = (w::u16)"
proof (rule bit_word_eqI)
  fix n assume n: "n < LENGTH(16)"
  have m: "(0xFF :: u16) = mask 8" by (simp add: mask_eq_exp_minus_1)
  show "bit (ucast (ucast (w AND 0xFF) :: u8) OR
    push_bit 8 (ucast (ucast (drop_bit 8 w AND 0xFF) :: u8)) :: u16) n = bit w n"
    unfolding m using n by (auto simp: bit_simps)
qed

lemma data_packet_round_trip:
  assumes "sample_count \<le> length samples"
  shows "decode_data_packet (encode_data_packet pid samples sample_count) max_samples =
    (pid, take max_samples
       (take (min sample_count 255) samples @ replicate (255 - min sample_count 255) 0))"
    (is "?L = _")
proof -
  define xs where "xs = take (min sample_count 255) samples @ replicate (255 - min sample_count 255) 0"
  let ?hdr = "[ucast (pid AND 0xFF), ucast (drop_bit 8 pid AND 0xFF)] :: u8 list"
  have enc: "encode_data_packet pid samples sample_count = ?hdr @ concat (map le16 xs) @ []"
    by (simp add: encode_data_packet_def Let_def xs_def concat_le16_zeros del: map_replicate)
  have len: "length xs = 255" using assms by (simp add: xs_def)
  have rd: "rd16 (?hdr @ concat (map le16 xs) @ []) (2 + 2 * i) = xs ! i" if "i < 255" for i
    by (rule rd16_concat) (use that len in simp_all)
  have "map (\<lambda>i. rd16 (encode_data_packet pid samples sample_count) (DATA_HEADER_BYTES + 2 * i))
      [0..<min max_samples 255] = take max_samples xs"
    unfolding enc DATA_HEADER_BYTES_def
    by (rule nth_equalityI) (use len rd in \<open>simp_all del: append_Nil2\<close>)
  moreover have "fst ?L = pid"
    using data_packet_header [of pid] by (simp add: decode_data_packet_def enc Let_def)
  ultimately show ?thesis
    by (simp add: decode_data_packet_def Let_def prod_eq_iff flip: xs_def)
qed

text \<open>C28: Encoding a data packet and decoding it gives back the packet id and the first 255
  samples, followed by zeros when fewer were sent; the reader's own limit truncates the result.
  The buffer is exactly 512 bytes.\<close>

theorem data_packet_decodes:
  assumes "sample_count \<le> length samples"
  shows "length (encode_data_packet pid samples sample_count) = DATA_PACKET_BYTES \<and>
    decode_data_packet (encode_data_packet pid samples sample_count) max_samples =
      (pid, take max_samples
         (take (min sample_count 255) samples @ replicate (255 - min sample_count 255) 0))"
  using length_encode_data_packet [OF assms] data_packet_round_trip [OF assms]
  by (simp add: DATA_PACKET_BYTES_def)

theorem data_packet_decodes_witness:
  "decode_data_packet (encode_data_packet 0xABCD [0x1234, 7] 2) 3 = (0xABCD, [0x1234, 7, 0])"
  using data_packet_decodes [of 2 "[0x1234, 7]" "0xABCD" 3] by (simp add: numeral_3_eq_3)

lemma decode_encode_calibration:
  "decode_calibration (encode_calibration cal) old = (validate_calibration_ranges cal, cal)"
  by (cases cal) (simp add: decode_calibration_def encode_calibration_def calibration_bytes_def
      Let_def le16_def le32_def rd16_def rd32_def split_u16 split_u32)

lemma decode_calibration_other: "buf ! 0 \<noteq> 2 \<Longrightarrow> decode_calibration buf old = (False, old)"
  by (simp add: decode_calibration_def)

lemma encode_command_type: "encode_command cmd payload ! 0 \<noteq> 1 \<and> encode_command cmd payload ! 0 \<noteq> 2"
  by (cases cmd) (simp_all add: encode_command_def command_packet_def Let_def)

lemma decode_encode_status:
  assumes "sp_type s = control_type_byte CT_STATUS" and "length (sp_reserved s) = 48"
  shows "decode_status (encode_status s) = Some s"
  using assms
  by (simp add: decode_status_def encode_status_def le16_def le32_def rd16_def rd32_def
      split_u16 split_u32)

lemma decode_status_other: "buf ! 0 \<noteq> 1 \<Longrightarrow> decode_status buf = None"
  by (simp add: decode_status_def)

section \<open>Calibration ranges\<close>

lemma f32_in_range: "f32_isfinite w \<and> \<not> f32_le w 0 \<and> \<not> f32_gt w c \<longleftrightarrow>
    f32_class w = Finite \<and> 0 < f32_value w \<and> f32_value w \<le> c"
  by (auto simp: f32_isfinite_def f32_le_def f32_gt_def)

lemma validate_calibration_ranges_iff:
  "validate_calibration_ranges cal \<longleftrightarrow>
     f32_class (cal_noise_floor_psd cal) = Finite \<and> 0 \<le> f32_value (cal_noise_floor_psd cal) \<and>
     f32_class (cal_center_freq_hz cal) = Finite \<and> 0 < f32_value (cal_center_freq_hz cal) \<and>
       f32_value (cal_center_freq_hz cal) \<le> 1000000 \<and>
     f32_class (cal_adc_vref_peak_volts cal) = Finite \<and> 0 < f32_value (cal_adc_vref_peak_volts cal) \<and>
       f32_value (cal_adc_vref_peak_volts cal) \<le> 50 \<and>
     f32_class (cal_dac_vref_peak_volts cal) = Finite \<and> 0 < f32_value (cal_dac_vref_peak_volts cal) \<and>
       f32_value (cal_dac_vref_peak_volts cal) \<le> 50"
  by (auto simp: validate_calibration_ranges_def f32_isfinite_def f32_lt_def f32_le_def f32_gt_def)

lemma default_fields: "f32_value 0x46C35000 = 25000" "f32_value 0x3F800000 = 1" "f32_value 0 = 0"
    "f32_class 0x46C35000 = Finite" "f32_class 0x3F800000 = Finite" "f32_class 0 = Finite"
    "f32_class 0x7FC00000 = NotANumber" "f32_class 0x7F800000 = Infinite"
proof -
  show "f32_value 0x46C35000 = 25000" "f32_value 0x3F800000 = 1" "f32_value 0 = 0"
    by (simp_all add: f32_value_def f32_sign_def f32_exponent_def f32_fraction_def Let_def power_int_def) code_simp+
qed (simp_all add: f32_class_def f32_exponent_def f32_fraction_def drop_bit_eq_div)



text \<open>A status packet survives the wire, and command packets are never mistaken for status
  or calibration packets.\<close>

theorem status_round_trip:
  assumes "sp_type s = control_type_byte CT_STATUS" and "length (sp_reserved s) = 48"
  shows "length (encode_status s) = CONTROL_PACKET_BYTES \<and> decode_status (encode_status s) = Some s
    \<and> decode_status (encode_command cmd payload) = None
    \<and> decode_calibration (encode_command cmd payload) old = (False, old)"
  using assms encode_command_type [of cmd payload]
  by (simp add: decode_encode_status length_encode_status CONTROL_PACKET_BYTES_def
      decode_status_other decode_calibration_other)

theorem status_round_trip_witness:
  "decode_status (encode_status (zero_status\<lparr>sp_type := 1, sp_buffer_fill := 300\<rparr>)) =
     Some (zero_status\<lparr>sp_type := 1, sp_buffer_fill := 300\<rparr>)"
  using status_round_trip [of "zero_status\<lparr>sp_type := 1, sp_buffer_fill := 300\<rparr>"
      ENTER_HIL_MODE "[]" default_calibration]
  by (simp add: zero_status_def)

text \<open>The range check does not look at the loopback gain or the attenuations: a NaN there, or
  converter widths of zero bits, are accepted.\<close>

theorem calibration_check_ignores_gains:
  "validate_calibration_ranges (default_calibration\<lparr>cal_loopback_gain := 0x7FC00000,
     cal_input_attenuation_0 := 0x7F800000, cal_output_attenuation := 0xFFC00000,
     cal_adc_bits := 0, cal_dac_bits := 0\<rparr>) \<and>
   f32_class 0x7FC00000 = NotANumber \<and> f32_class 0x7F800000 = Infinite"
  by (simp add: validate_calibration_ranges_iff default_calibration_def default_fields)

section \<open>Sequence checking\<close>

text \<open>The ids a stream delivers, checked one after the other from a fresh codec.\<close>

fun check_all :: "u16 list \<Rightarrow> codec \<Rightarrow> codec" where
  "check_all [] c = c"
| "check_all (i # is) c = check_all is (snd (check_sequence i c))"

text \<open>Specification: the number of ids that do not follow their predecessor.\<close>

definition breaks :: "u16 \<Rightarrow> u16 list \<Rightarrow> nat" where
  "breaks e is = length (filter (\<lambda>(a, b). b \<noteq> a) (zip (e # map (\<lambda>i. i + 1) is) is))"

lemma breaks_Cons: "breaks e (i # is) = (if i = e then 0 else 1) + breaks (i + 1) is"
  by (simp add: breaks_def)

lemma check_all_count:
  "cd_gap_count (check_all is c) = cd_gap_count c + of_nat (breaks (cd_expected_id c) is)"
proof (induction "is" arbitrary: c)
  case Nil
  then show ?case by (simp add: breaks_def)
next
  case (Cons i "is")
  then show ?case by (simp add: breaks_Cons check_sequence_def)
qed

lemma breaks_sequential: "breaks (of_nat k) (map of_nat [k..<k + n]) = 0"
proof (induction n arbitrary: k)
  case 0
  then show ?case by (simp add: breaks_def)
next
  case (Suc n)
  have "[k..<k + Suc n] = k # [Suc k..<Suc k + n]" by (simp add: upt_conv_Cons del: upt_Suc)
  then show ?case using Suc [of "Suc k"] by (simp add: breaks_Cons add.commute del: upt_Suc)
qed

text \<open>From a reset codec the gap counter is the number of packets that do not follow their
  predecessor (the counter is 64 bits wide), one per break and not one per lost packet; a stream
  whose ids count up from 0, wrapping after 65535, has none.\<close>

theorem gap_count_counts_breaks:
  "cd_gap_count (check_all is (reset_sequence c)) = of_nat (breaks 0 is) \<and>
   cd_gap_count (check_all (map of_nat [0..<n]) (reset_sequence c)) = 0"
  using breaks_sequential [of 0 n] by (simp add: check_all_count reset_sequence_def)

end
