(* ===== verification/Chrono.thy ===== *)
theory Chrono
  imports Floats
begin

text \<open>
  The steady clock: host times and durations are integer nanoseconds. Conversions to floating
  seconds divide by \<open>10^9\<close> in the target format, and a conversion back truncates, as
  \<open>std::chrono::duration_cast\<close> does. The send schedule with bounded catch-up is written twice
  in the program (\<open>buffer_pacer.cpp\<close>, \<open>clock_fill_tracker.cpp\<close>) and once here.
\<close>

type_synonym host_time = int

definition seconds_f32 :: "int \<Rightarrow> real" where
  "seconds_f32 ns = fdiv (f32 (of_int ns)) 1000000000"

definition seconds_f64 :: "int \<Rightarrow> real" where
  "seconds_f64 ns = ddiv (f64 (of_int ns)) 1000000000"

definition ns_of_seconds :: "real \<Rightarrow> int" where
  "ns_of_seconds s = ctrunc (dmul s 1000000000)"

lemma ns_of_seconds_mono: "s \<le> t \<Longrightarrow> ns_of_seconds s \<le> ns_of_seconds t"
  unfolding ns_of_seconds_def by (intro ctrunc_mono f64_mono mult_right_mono) simp_all

lemma ns_of_seconds_nonneg: "0 \<le> s \<Longrightarrow> 0 \<le> ns_of_seconds s"
  by (simp add: ns_of_seconds_def ctrunc_nonneg)

lemma seconds_f64_nonneg: "0 \<le> t \<Longrightarrow> 0 \<le> seconds_f64 t"
  by (simp add: seconds_f64_def)

lemma seconds_f32_nonneg: "0 \<le> t \<Longrightarrow> 0 \<le> seconds_f32 t"
  by (simp add: seconds_f32_def)

section \<open>The send schedule\<close>

definition MAX_CATCHUP_SLOTS :: int where "MAX_CATCHUP_SLOTS = 3"

text \<open>\<open>next += period; if (now - next > period * MAX_CATCHUP_SLOTS) next = now + period\<close>.\<close>

definition advance_schedule :: "host_time \<Rightarrow> int \<Rightarrow> host_time \<Rightarrow> host_time" where
  "advance_schedule now period next_send =
     (let n = next_send + period
      in if period * MAX_CATCHUP_SLOTS < now - n then now + period else n)"

lemma advance_schedule_ge: "0 \<le> period \<Longrightarrow> next_send + period \<le> advance_schedule now period next_send"
  by (simp add: advance_schedule_def MAX_CATCHUP_SLOTS_def Let_def)

lemma advance_schedule_backlog:
  "0 \<le> period \<Longrightarrow> now - 3 * period \<le> advance_schedule now period next_send"
  by (simp add: advance_schedule_def MAX_CATCHUP_SLOTS_def Let_def)

lemma advance_schedule_le:
  "0 \<le> period \<Longrightarrow> next_send \<le> now \<Longrightarrow> advance_schedule now period next_send \<le> now + period"
  by (simp add: advance_schedule_def MAX_CATCHUP_SLOTS_def Let_def)

text \<open>
  What a sender that follows such a schedule promises: a call that returns true happens at or
  after the scheduled time, moves the schedule on by at least \<open>pmin\<close>, and leaves no more than
  three periods (of at most \<open>pmax\<close>) of backlog. The client lemma bounds the number of sends in
  any window.
\<close>

locale paced_sender =
  fixes ask :: "host_time \<Rightarrow> 's \<Rightarrow> 's \<times> bool"
    and due :: "'s \<Rightarrow> host_time"
    and good :: "'s \<Rightarrow> bool"
    and pmin :: "'s \<Rightarrow> int"
  assumes good_ask: "good s \<Longrightarrow> good (fst (ask t s))"
    and pmin_pos: "good s \<Longrightarrow> 0 < pmin s"
    and pmin_ask: "good s \<Longrightarrow> pmin (fst (ask t s)) = pmin s"
    and silent: "good s \<Longrightarrow> \<not> snd (ask t s) \<Longrightarrow> due (fst (ask t s)) = due s"
    and not_early: "good s \<Longrightarrow> snd (ask t s) \<Longrightarrow> due s \<le> t"
    and moves_on: "good s \<Longrightarrow> snd (ask t s) \<Longrightarrow> due s + pmin s \<le> due (fst (ask t s))"
    and backlog: "good s \<Longrightarrow> snd (ask t s) \<Longrightarrow> t - 3 * pmin s \<le> due (fst (ask t s))"
begin

fun sends :: "host_time list \<Rightarrow> 's \<Rightarrow> nat" where
  "sends [] s = 0"
| "sends (t # ts) s = (if snd (ask t s) then 1 else 0) + sends ts (fst (ask t s))"

lemma sends_due:
  assumes "good s" and "\<forall>t \<in> set ts. t \<le> b"
  shows "sends ts s = 0 \<or> due s + (int (sends ts s) - 1) * pmin s \<le> b"
  using assms
proof (induction ts arbitrary: s)
  case Nil
  then show ?case by simp
next
  case (Cons t ts)
  let ?s = "fst (ask t s)"
  have g: "good ?s" and p: "pmin ?s = pmin s" using Cons.prems good_ask pmin_ask by auto
  have IH: "sends ts ?s = 0 \<or> due ?s + (int (sends ts ?s) - 1) * pmin s \<le> b"
    using Cons.IH [OF g] Cons.prems p by simp
  show ?case
  proof (cases "snd (ask t s)")
    case True
    then have due: "due s \<le> b" "due s + pmin s \<le> due ?s"
      using not_early moves_on Cons.prems by fastforce+
    show ?thesis
    proof (cases "sends ts ?s = 0")
      case True
      with \<open>snd (ask t s)\<close> due show ?thesis by simp
    next
      case False
      with IH have "due ?s + (int (sends ts ?s) - 1) * pmin s \<le> b" by blast
      with due have "due s + pmin s + (int (sends ts ?s) - 1) * pmin s \<le> b" by linarith
      with \<open>snd (ask t s)\<close> show ?thesis by (simp add: algebra_simps)
    qed
  next
    case False
    with IH silent Cons.prems show ?thesis by auto
  qed
qed

lemma sends_window:
  assumes "good s" and "\<forall>t \<in> set ts. a \<le> t \<and> t \<le> b"
  shows "sends ts s \<le> 1 \<or> (int (sends ts s) - 5) * pmin s \<le> b - a"
  using assms
proof (induction ts arbitrary: s)
  case Nil
  then show ?case by simp
next
  case (Cons t ts)
  let ?s = "fst (ask t s)"
  have g: "good ?s" and p: "pmin ?s = pmin s" using Cons.prems good_ask pmin_ask by auto
  have in_b: "\<forall>t \<in> set ts. t \<le> b" using Cons.prems by simp
  show ?case
  proof (cases "snd (ask t s)")
    case True
    then have bk: "a - 3 * pmin s \<le> due ?s" using backlog [of s t] Cons.prems by fastforce
    have "sends ts ?s = 0 \<or> due ?s + (int (sends ts ?s) - 1) * pmin s \<le> b"
      using sends_due [OF g in_b] p by simp
    moreover have "(int (1 + sends ts ?s) - 5) * pmin s =
        (int (sends ts ?s) - 1) * pmin s - 3 * pmin s" by (simp add: algebra_simps)
    ultimately show ?thesis using True bk by auto
  next
    case False
    with Cons.IH [OF g] Cons.prems p show ?thesis by simp
  qed
qed

end

end
