(* ===== verification/Tx_Start.thy ===== *)
theory Tx_Start
  imports Core_Types Chrono
begin

text \<open>
  \<open>src/core/tx_start_estimator.cpp\<close>: the estimate of when the modem began the current
  transmission. Host times are integers, in nanoseconds of the steady clock.
\<close>

record tx_estimator =
  te_modem_sample_rate :: u32
  te_cumulative_samples :: u64
  te_tightest :: "host_time option"

definition tx_estimator_new :: "u32 \<Rightarrow> tx_estimator" where
  "tx_estimator_new rate =
     \<lparr>te_modem_sample_rate = rate, te_cumulative_samples = 0, te_tightest = None\<rparr>"

definition on_tx_entry :: "tx_estimator \<Rightarrow> tx_estimator" where
  "on_tx_entry e = e\<lparr>te_cumulative_samples := 0, te_tightest := None\<rparr>"

definition on_tx_packet :: "u16 \<Rightarrow> host_time \<Rightarrow> tx_estimator \<Rightarrow> tx_estimator" where
  "on_tx_packet samples arrival_now e =
     (let cumulative = te_cumulative_samples e + ucast samples;
          elapsed_us = sint (cumulative * 1000000 div ucast (te_modem_sample_rate e));
          t_lower = arrival_now - elapsed_us * 1000
      in e\<lparr>te_cumulative_samples := cumulative,
           te_tightest := (case te_tightest e of None \<Rightarrow> Some t_lower
             | Some t \<Rightarrow> if t < t_lower then Some t_lower else Some t)\<rparr>)"

definition has_observation :: "tx_estimator \<Rightarrow> bool" where
  "has_observation e = (te_tightest e \<noteq> None)"

definition earliest_start_time :: "tx_estimator \<Rightarrow> host_time option" where
  "earliest_start_time e = te_tightest e"

section \<open>Arithmetic of one observation\<close>

text \<open>The elapsed time in exact arithmetic, in nanoseconds rounded down to a microsecond.\<close>

definition elapsed_ns :: "nat \<Rightarrow> nat \<Rightarrow> int" where
  "elapsed_ns n rate = int (n * 1000000 div rate) * 1000"

lemma elapsed_word:
  assumes "unat c * 1000000 < 2 ^ 63"
  shows "sint ((c::u64) * 1000000 div ucast (r::u32)) * 1000 = elapsed_ns (unat c) (unat r)"
proof -
  have m: "unat (c * 1000000) = unat c * 1000000"
    using assms by (simp add: unat_word_ariths)
  have r: "unat (ucast r :: u64) = unat r" by (simp add: unat_ucast_up)
  have q: "unat (c * 1000000 div ucast r) = unat c * 1000000 div unat r"
    by (simp add: unat_div m r)
  have "unat c * 1000000 div unat r \<le> unat c * 1000000" by (rule div_le_dividend)
  with assms have "unat (c * 1000000 div ucast r) < 2 ^ 63" unfolding q by linarith
  then show ?thesis by (simp add: elapsed_ns_def q sint_small_u64)
qed

text \<open>The observations of one burst: sample counts and arrival times, oldest first.\<close>

fun on_tx_packets :: "(u16 \<times> host_time) list \<Rightarrow> tx_estimator \<Rightarrow> tx_estimator" where
  "on_tx_packets [] e = e"
| "on_tx_packets ((n, t) # ps) e = on_tx_packets ps (on_tx_packet n t e)"

text \<open>What each observation says: arrival time less the duration of all samples so far.\<close>

fun arrival_bounds :: "nat \<Rightarrow> nat \<Rightarrow> (u16 \<times> host_time) list \<Rightarrow> int list" where
  "arrival_bounds rate c [] = []"
| "arrival_bounds rate c ((n, t) # ps) =
     (t - elapsed_ns (c + unat n) rate) # arrival_bounds rate (c + unat n) ps"

definition packet_total :: "(u16 \<times> host_time) list \<Rightarrow> nat" where
  "packet_total ps = sum_list (map (\<lambda>p. unat (fst p)) ps)"

definition opt_list :: "'a option \<Rightarrow> 'a list" where
  "opt_list x = (case x of None \<Rightarrow> [] | Some v \<Rightarrow> [v])"

lemma Max_insert_max:
  fixes a b :: "'a::linorder"
  assumes "finite S"
  shows "Max (insert (max a b) S) = Max (insert a (insert b S))"
  using assms by (cases "S = {}") (simp_all add: Max.insert max.assoc del: Max.insert_remove)

lemma on_tx_packets_max:
  assumes "(unat (te_cumulative_samples e) + packet_total ps) * 1000000 < 2 ^ 63"
    and "bs = opt_list (te_tightest e) @ arrival_bounds (unat (te_modem_sample_rate e))
           (unat (te_cumulative_samples e)) ps"
  shows "te_tightest (on_tx_packets ps e) = (if bs = [] then None else Some (Max (set bs)))"
  using assms
proof (induction ps arbitrary: e bs)
  case Nil
  then show ?case by (cases "te_tightest e") (simp_all add: opt_list_def)
next
  case (Cons p ps)
  obtain n t where p: "p = (n, t)" by (cases p)
  let ?c = "te_cumulative_samples e" and ?r = "te_modem_sample_rate e"
  let ?e = "on_tx_packet n t e"
  have total: "(unat ?c + unat n + packet_total ps) * 1000000 < 2 ^ 63"
    using Cons.prems(1) by (simp add: p packet_total_def)
  have n64: "unat (ucast n :: u64) = unat n" by (simp add: unat_ucast_up)
  have c: "unat (?c + ucast n) = unat ?c + unat n"
    using total by (simp add: unat_word_ariths n64)
  have cum: "te_cumulative_samples ?e = ?c + ucast n" "te_modem_sample_rate ?e = ?r"
    by (simp_all add: on_tx_packet_def Let_def)
  have "unat (?c + ucast n) * 1000000 < 2 ^ 63" using total unfolding c by simp
  then have low: "sint ((?c + ucast n) * 1000000 div ucast ?r) * 1000 =
      elapsed_ns (unat ?c + unat n) (unat ?r)"
    by (simp only: elapsed_word c)
  let ?b = "t - elapsed_ns (unat ?c + unat n) (unat ?r)"
  let ?rest = "arrival_bounds (unat ?r) (unat ?c + unat n) ps"
  have tight: "te_tightest ?e = (case te_tightest e of None \<Rightarrow> Some ?b
      | Some v \<Rightarrow> Some (max v ?b))"
    unfolding on_tx_packet_def Let_def low by (simp add: max_def split: option.splits)
  have "te_tightest (on_tx_packets ps ?e) =
      (if opt_list (te_tightest ?e) @ ?rest = [] then None
       else Some (Max (set (opt_list (te_tightest ?e) @ ?rest))))"
    by (rule Cons.IH) (use total in \<open>simp_all add: cum c\<close>)
  moreover have "bs = opt_list (te_tightest e) @ ?b # ?rest" using Cons.prems(2) by (simp add: p)
  ultimately show ?case
    by (cases "te_tightest e")
      (simp_all add: tight opt_list_def p Max_insert_max del: Max_insert)
qed

lemma length_arrival_bounds [simp]: "length (arrival_bounds rate c ps) = length ps"
  by (induction rate c ps rule: arrival_bounds.induct) simp_all

lemma arrival_bounds_nth:
  "i < length ps \<Longrightarrow> arrival_bounds rate c ps ! i =
     snd (ps ! i) - elapsed_ns (c + packet_total (take (Suc i) ps)) rate"
proof (induction rate c ps arbitrary: i rule: arrival_bounds.induct)
  case (1 rate c)
  then show ?case by simp
next
  case (2 rate c n t ps)
  then show ?case by (cases i) (simp_all add: packet_total_def add.assoc)
qed

lemma arrival_bounds_Nil [simp]: "arrival_bounds rate c ps = [] \<longleftrightarrow> ps = []"
  by (cases ps) auto

lemma estimate_is_max:
  assumes "packet_total ps * 1000000 < 2 ^ 63" and "ps \<noteq> []"
  shows "earliest_start_time (on_tx_packets ps (on_tx_entry e)) =
    Some (Max (set (arrival_bounds (unat (te_modem_sample_rate e)) 0 ps)))"
  using assms on_tx_packets_max [of "on_tx_entry e" ps, OF _ refl]
  by (simp add: earliest_start_time_def on_tx_entry_def opt_list_def)

lemma elapsed_ns_le: "real_of_int (elapsed_ns n rate) \<le> real n * 10 ^ 9 / real rate"
proof -
  have "real (n * 1000000 div rate) \<le> real (n * 1000000) / real rate" by (rule of_nat_div_le_of_nat)
  then have "real (n * 1000000 div rate) * 1000 \<le> real (n * 1000000) / real rate * 1000"
    by (rule mult_right_mono) simp
  then show ?thesis by (simp add: elapsed_ns_def mult.commute)
qed

text \<open>After a TX entry the estimate is the largest of the observed values "arrival time minus
  duration of all samples so far", and there is none before the first packet; whatever was observed
  before the entry is forgotten.\<close>

theorem tx_start_is_largest_bound:
  assumes "packet_total ps * 1000000 < 2 ^ 63"
  shows "earliest_start_time (on_tx_packets ps (on_tx_entry e)) =
    (if ps = [] then None
     else Some (Max (set (arrival_bounds (unat (te_modem_sample_rate e)) 0 ps))))"
  using estimate_is_max [OF assms] by (auto simp: earliest_start_time_def on_tx_entry_def)

theorem tx_start_is_largest_bound_witness:
  "earliest_start_time (on_tx_packets [(255, 600000), (255, 1200000)]
     (on_tx_entry (tx_estimator_new 500000))) = Some 180000"
proof -
  have "packet_total [(255, 600000), (255, 1200000)] * 1000000 < 2 ^ 63"
    by (simp add: packet_total_def)
  from tx_start_is_largest_bound [OF this, of "tx_estimator_new 500000"] show ?thesis
    by (simp add: tx_estimator_new_def elapsed_ns_def)
qed

text \<open>The estimate lies on the late side of the true start. When the modem started at \<open>t0\<close>
  and every packet arrives no sooner than its last sample was produced, the reported time is never
  before \<open>t0\<close>, and it is at least as late as what the most delayed packet of the burst says: delay
  jitter pushes it away from \<open>t0\<close>, where the class comment speaks of a lower bound
  approaching the start from below.\<close>

theorem tx_start_estimate_is_late:
  assumes "ps \<noteq> []" and "packet_total ps * 1000000 < 2 ^ 63"
    and "\<forall>i < length ps. real_of_int t0 + real (packet_total (take (Suc i) ps)) * 10 ^ 9
           / real (unat (te_modem_sample_rate e)) \<le> real_of_int (snd (ps ! i))"
  shows "\<exists>est. earliest_start_time (on_tx_packets ps (on_tx_entry e)) = Some est \<and> t0 \<le> est \<and>
    (\<forall>i < length ps. snd (ps ! i) - elapsed_ns (packet_total (take (Suc i) ps))
       (unat (te_modem_sample_rate e)) \<le> est)"
proof -
  let ?r = "unat (te_modem_sample_rate e)"
  let ?bs = "arrival_bounds ?r 0 ps"
  have up: "\<forall>i < length ps. snd (ps ! i) - elapsed_ns (packet_total (take (Suc i) ps)) ?r \<le> Max (set ?bs)"
  proof (intro allI impI)
    fix i assume i: "i < length ps"
    then have "?bs ! i \<in> set ?bs" by simp
    then have "?bs ! i \<le> Max (set ?bs)" by (rule Max_ge [rotated]) simp
    then show "snd (ps ! i) - elapsed_ns (packet_total (take (Suc i) ps)) ?r \<le> Max (set ?bs)"
      using i by (simp add: arrival_bounds_nth)
  qed
  have z: "0 < length ps" using assms(1) by simp
  have "real_of_int t0 + real_of_int (elapsed_ns (packet_total (take (Suc 0) ps)) ?r)
      \<le> real_of_int (snd (ps ! 0))"
    using assms(3) z elapsed_ns_le [of "packet_total (take (Suc 0) ps)" ?r] by fastforce
  then have "t0 + elapsed_ns (packet_total (take (Suc 0) ps)) ?r \<le> snd (ps ! 0)"
    by (simp only: of_int_add [symmetric] of_int_le_iff)
  then have "t0 \<le> Max (set ?bs)" using up z by fastforce
  then show ?thesis using up estimate_is_max [OF assms(2,1)] by blast
qed

theorem tx_start_estimate_is_late_witness:
  "\<exists>est. earliest_start_time (on_tx_packets [(255, 510000), (255, 1420000)]
     (on_tx_entry (tx_estimator_new 500000))) = Some est \<and> (400000::int) \<le> est"
proof -
  let ?ps = "[(255, 510000), (255, 1420000)] :: (u16 \<times> host_time) list"
  have "\<forall>i < length ?ps. real_of_int 0 + real (packet_total (take (Suc i) ?ps)) * 10 ^ 9
      / real (unat (te_modem_sample_rate (tx_estimator_new 500000))) \<le> real_of_int (snd (?ps ! i))"
  proof (intro allI impI)
    fix i assume "i < length ?ps"
    then consider "i = 0" | "i = 1" by fastforce
    then show "real_of_int 0 + real (packet_total (take (Suc i) ?ps)) * 10 ^ 9
      / real (unat (te_modem_sample_rate (tx_estimator_new 500000))) \<le> real_of_int (snd (?ps ! i))"
      by cases (simp_all add: packet_total_def tx_estimator_new_def)
  qed
  note arr = this
  have "packet_total ?ps * 1000000 < 2 ^ 63" by (simp add: packet_total_def)
  from tx_start_estimate_is_late [OF _ this arr] obtain est where
    est: "earliest_start_time (on_tx_packets ?ps (on_tx_entry (tx_estimator_new 500000))) = Some est"
    and late: "\<forall>i < length ?ps. snd (?ps ! i) - elapsed_ns (packet_total (take (Suc i) ?ps))
       (unat (te_modem_sample_rate (tx_estimator_new 500000))) \<le> est"
    by blast
  have "400000 \<le> est"
    using late [rule_format, of 1] by (simp add: packet_total_def elapsed_ns_def tx_estimator_new_def)
  with est show ?thesis by blast
qed

end
