(* ===== verification/Fill_Tracker.thy ===== *)
theory Fill_Tracker
  imports Codec Chrono
begin

text \<open>
  \<open>src/core/fill_tracker.hpp\<close>: the contract of an \<open>IFillTracker\<close>, the host's estimate of
  a modem's receive buffer. Both implementations interpret the locale; its client lemma holds for
  every sequence of calls an I/O thread can make.
\<close>

datatype tracker_op = Status status_payload host_time | Sent u16 u16 host_time
  | Ask host_time | Forget

locale fill_tracker =
  fixes on_status :: "status_payload \<Rightarrow> host_time \<Rightarrow> 's \<Rightarrow> 's"
    and on_packet_sent :: "u16 \<Rightarrow> u16 \<Rightarrow> host_time \<Rightarrow> 's \<Rightarrow> 's"
    and should_send :: "host_time \<Rightarrow> 's \<Rightarrow> 's \<times> bool"
    and reset :: "'s \<Rightarrow> 's"
    and estimated_fill :: "host_time \<Rightarrow> 's \<Rightarrow> u32"
    and capacity :: "'s \<Rightarrow> u16"
    and good :: "'s \<Rightarrow> bool"
  assumes good_status: "good s \<Longrightarrow> good (on_status st t s)"
    and good_sent: "good s \<Longrightarrow> good (on_packet_sent i n t s)"
    and good_ask: "good s \<Longrightarrow> good (fst (should_send t s))"
    and good_reset: "good s \<Longrightarrow> good (reset s)"
    and same_capacity: "capacity (on_status st t s) = capacity s"
      "capacity (on_packet_sent i n t s) = capacity s"
      "capacity (fst (should_send t s)) = capacity s" "capacity (reset s) = capacity s"
    and fill_le: "good s \<Longrightarrow> unat (estimated_fill t s) \<le> unat (capacity s)"
    and reset_fill: "good s \<Longrightarrow> estimated_fill t (reset s) = estimated_fill t' (reset s)"
begin

fun tracker_step :: "tracker_op \<Rightarrow> 's \<Rightarrow> 's" where
  "tracker_step (Status st t) s = on_status st t s"
| "tracker_step (Sent i n t) s = on_packet_sent i n t s"
| "tracker_step (Ask t) s = fst (should_send t s)"
| "tracker_step Forget s = reset s"

lemma tracker_step_good: "good s \<Longrightarrow> good (tracker_step c s) \<and> capacity (tracker_step c s) = capacity s"
  by (cases c) (simp_all add: good_status good_sent good_ask good_reset same_capacity)

lemma tracker_run:
  "good s \<Longrightarrow> good (fold tracker_step cs s) \<and> capacity (fold tracker_step cs s) = capacity s"
  by (induction cs arbitrary: s) (simp_all add: tracker_step_good)

lemma tracker_run_fill:
  "good s \<Longrightarrow> unat (estimated_fill t (fold tracker_step cs s)) \<le> unat (capacity s)"
  using tracker_run [of s cs] fill_le by metis

lemma tracker_reset_fill:
  "good s \<Longrightarrow> estimated_fill t (reset (fold tracker_step cs s)) =
     estimated_fill t' (reset (fold tracker_step cs s))"
  using tracker_run reset_fill by blast

end

end
