(* ===== verification/Buffer_Pacer.thy ===== *)
theory Buffer_Pacer
  imports Fill_Tracker
begin

text \<open>
  \<open>src/io/buffer_pacer.cpp\<close> and the adapter \<open>src/io/pid_fill_tracker.cpp\<close>: the PI
  controller of the host-to-modem packet rate, its send schedule and its extrapolated fill.
  Controller arithmetic is single precision, the schedule is integer nanoseconds.
\<close>

section \<open>State\<close>

record buffer_pacer =
  bp_target_fill :: real
  bp_kp :: real
  bp_ki :: real
  bp_dac_rate :: u32
  bp_buffer_capacity :: u16
  bp_samples_per_packet :: u16
  bp_nominal_rate :: real
  bp_min_rate :: real
  bp_max_rate :: real
  bp_max_integral :: real
  bp_integral :: real
  bp_desired_rate :: real
  bp_prev_update_time :: host_time
  bp_has_prev_update :: bool
  bp_last_reported_fill :: u16
  bp_packets_sent_since_report :: u32
  bp_last_report_time :: host_time
  bp_has_report :: bool
  bp_next_send_time :: host_time
  bp_schedule_initialized :: bool

abbreviation f32_u32 :: "u32 \<Rightarrow> real" where "f32_u32 w \<equiv> f32 (real (unat w))"
abbreviation f32_u16 :: "u16 \<Rightarrow> real" where "f32_u16 w \<equiv> f32 (real (unat w))"

definition buffer_pacer_new :: "u32 \<Rightarrow> u16 \<Rightarrow> u16 \<Rightarrow> real \<Rightarrow> real \<Rightarrow> real \<Rightarrow> buffer_pacer" where
  "buffer_pacer_new dac_rate buffer_capacity spp target_fill kp ki =
     (let nominal = fdiv (f32_u32 dac_rate) (f32_u16 spp)
      in \<lparr>bp_target_fill = target_fill, bp_kp = kp, bp_ki = ki, bp_dac_rate = dac_rate,
          bp_buffer_capacity = buffer_capacity, bp_samples_per_packet = spp,
          bp_nominal_rate = nominal, bp_min_rate = fmul nominal (f32 (7/10)),
          bp_max_rate = fmul nominal (f32 (13/10)), bp_max_integral = f32 (1/5),
          bp_integral = 0, bp_desired_rate = nominal,
          bp_prev_update_time = 0, bp_has_prev_update = False,
          bp_last_reported_fill = 0, bp_packets_sent_since_report = 0,
          bp_last_report_time = 0, bp_has_report = False,
          bp_next_send_time = 0, bp_schedule_initialized = False\<rparr>)"

section \<open>Controller\<close>

definition update_controller :: "u16 \<Rightarrow> host_time \<Rightarrow> buffer_pacer \<Rightarrow> buffer_pacer" where
  "update_controller fill_samples now p =
     (let fill_frac = fdiv (f32_u16 fill_samples) (f32_u16 (bp_buffer_capacity p));
          err = fsub (bp_target_fill p) fill_frac;
          p1 = (if bp_has_prev_update p then
                  let dt = seconds_f32 (now - bp_prev_update_time p);
                      dt_clamped = cmin dt (f32 (1/10));
                      integral = fadd (bp_integral p) (fmul err dt_clamped)
                  in p\<lparr>bp_integral := cclamp integral (- bp_max_integral p) (bp_max_integral p)\<rparr>
                else p);
          p2 = p1\<lparr>bp_has_prev_update := True, bp_prev_update_time := now\<rparr>;
          desired = fmul (bp_nominal_rate p2)
             (fadd (fadd 1 (fmul (bp_kp p2) err)) (fmul (bp_ki p2) (bp_integral p2)))
      in p2\<lparr>bp_desired_rate := cclamp desired (bp_min_rate p2) (bp_max_rate p2)\<rparr>)"

definition update_fill :: "u16 \<Rightarrow> host_time \<Rightarrow> buffer_pacer \<Rightarrow> buffer_pacer" where
  "update_fill fill_samples now p =
     update_controller fill_samples now
       (p\<lparr>bp_last_reported_fill := fill_samples, bp_packets_sent_since_report := 0,
          bp_last_report_time := now, bp_has_report := True\<rparr>)"

definition bp_reset :: "buffer_pacer \<Rightarrow> buffer_pacer" where
  "bp_reset p = p\<lparr>bp_has_report := False, bp_packets_sent_since_report := 0, bp_integral := 0,
     bp_desired_rate := bp_nominal_rate p, bp_has_prev_update := False,
     bp_schedule_initialized := False\<rparr>"

definition notify_packet_sent :: "buffer_pacer \<Rightarrow> buffer_pacer" where
  "notify_packet_sent p = p\<lparr>bp_packets_sent_since_report := bp_packets_sent_since_report p + 1\<rparr>"

definition bp_extrapolate :: "host_time \<Rightarrow> buffer_pacer \<Rightarrow> real" where
  "bp_extrapolate now p =
     (if \<not> bp_has_report p then bp_target_fill p
      else let elapsed = seconds_f32 (now - bp_last_report_time p);
               dac_consumed = fmul elapsed (f32_u32 (bp_dac_rate p));
               host_sent = fmul (f32_u32 (bp_packets_sent_since_report p))
                             (f32_u16 (bp_samples_per_packet p));
               estimated = fadd (fsub (f32_u16 (bp_last_reported_fill p)) dac_consumed) host_sent;
               clamped = cclamp estimated 0 (f32_u16 (bp_buffer_capacity p))
           in fdiv clamped (f32_u16 (bp_buffer_capacity p)))"

definition estimated_fill_fraction :: "host_time \<Rightarrow> buffer_pacer \<Rightarrow> real" where
  "estimated_fill_fraction now p = bp_extrapolate now p"

definition bp_period :: "buffer_pacer \<Rightarrow> int" where
  "bp_period p = ns_of_seconds (ddiv 1 (bp_desired_rate p))"

definition bp_should_send :: "host_time \<Rightarrow> buffer_pacer \<Rightarrow> buffer_pacer \<times> bool" where
  "bp_should_send now p0 =
     (let p = (if \<not> bp_schedule_initialized p0
               then p0\<lparr>bp_next_send_time := now, bp_schedule_initialized := True\<rparr> else p0)
      in if now < bp_next_send_time p then (p, False)
         else (p\<lparr>bp_next_send_time :=
                   advance_schedule now (bp_period p) (bp_next_send_time p)\<rparr>, True))"

section \<open>The tracker adapter\<close>

record pid_fill_tracker =
  pf_pacer :: buffer_pacer
  pf_buffer_capacity :: u16

definition pid_new :: "u32 \<Rightarrow> u16 \<Rightarrow> u16 \<Rightarrow> real \<Rightarrow> real \<Rightarrow> real \<Rightarrow> pid_fill_tracker" where
  "pid_new dac_rate buffer_capacity spp target_fill kp ki =
     \<lparr>pf_pacer = buffer_pacer_new dac_rate buffer_capacity spp target_fill kp ki,
      pf_buffer_capacity = buffer_capacity\<rparr>"

definition pid_on_status :: "status_payload \<Rightarrow> host_time \<Rightarrow> pid_fill_tracker \<Rightarrow> pid_fill_tracker" where
  "pid_on_status status now p =
     p\<lparr>pf_pacer := update_fill (sp_buffer_fill status) now (pf_pacer p)\<rparr>"

definition pid_on_packet_sent ::
  "u16 \<Rightarrow> u16 \<Rightarrow> host_time \<Rightarrow> pid_fill_tracker \<Rightarrow> pid_fill_tracker" where
  "pid_on_packet_sent packet_id samples now p = p\<lparr>pf_pacer := notify_packet_sent (pf_pacer p)\<rparr>"

definition pid_should_send :: "host_time \<Rightarrow> pid_fill_tracker \<Rightarrow> pid_fill_tracker \<times> bool" where
  "pid_should_send now p =
     (let r = bp_should_send now (pf_pacer p) in (p\<lparr>pf_pacer := fst r\<rparr>, snd r))"

definition pid_next_send_time :: "pid_fill_tracker \<Rightarrow> host_time" where
  "pid_next_send_time p = bp_next_send_time (pf_pacer p)"

definition pid_estimated_fill :: "host_time \<Rightarrow> pid_fill_tracker \<Rightarrow> u32" where
  "pid_estimated_fill now p =
     (let frac = estimated_fill_fraction now (pf_pacer p);
          fill = fmul (cclamp frac 0 1) (f32_u16 (pf_buffer_capacity p))
      in of_int (ctrunc (fadd fill (1/2))))"

definition pid_reset :: "pid_fill_tracker \<Rightarrow> pid_fill_tracker" where
  "pid_reset p = p\<lparr>pf_pacer := bp_reset (pf_pacer p)\<rparr>"

section \<open>Controller invariant\<close>

definition pacer_ok :: "buffer_pacer \<Rightarrow> bool" where
  "pacer_ok p \<longleftrightarrow> 0 \<le> bp_nominal_rate p \<and> f32 (bp_nominal_rate p) = bp_nominal_rate p \<and>
     bp_min_rate p = fmul (bp_nominal_rate p) (f32 (7/10)) \<and>
     bp_max_rate p = fmul (bp_nominal_rate p) (f32 (13/10)) \<and>
     bp_max_integral p = f32 (1/5) \<and> \<bar>bp_integral p\<bar> \<le> bp_max_integral p \<and>
     bp_min_rate p \<le> bp_desired_rate p \<and> bp_desired_rate p \<le> bp_max_rate p"

lemma seven_tenths: "f32 (7/10) \<le> 1" "1 \<le> f32 (13/10)" "0 \<le> f32 (1/5)"
  using f32_mono [of "7/10" 1] f32_mono [of 1 "13/10"] by simp_all

lemma rate_band:
  assumes "0 \<le> n" and "f32 n = n"
  shows "fmul n (f32 (7/10)) \<le> n \<and> n \<le> fmul n (f32 (13/10))"
proof
  have "n * f32 (7/10) \<le> n * 1" by (rule mult_left_mono) (use assms seven_tenths in simp_all)
  then show "fmul n (f32 (7/10)) \<le> n" using f32_mono [of "n * f32 (7/10)" n] assms by simp
  have "n * 1 \<le> n * f32 (13/10)" by (rule mult_left_mono) (use assms seven_tenths in simp_all)
  then show "n \<le> fmul n (f32 (13/10))" using f32_mono [of n "n * f32 (13/10)"] assms by simp
qed

lemma pacer_ok_new: "pacer_ok (buffer_pacer_new dac cap spp target kp ki)"
  using rate_band [of "fdiv (f32_u32 dac) (f32_u16 spp)"] seven_tenths
  by (simp add: pacer_ok_def buffer_pacer_new_def Let_def)

lemma pacer_ok_controller:
  assumes "pacer_ok p"
  shows "pacer_ok (update_controller f t p)"
proof -
  have "fmul (bp_nominal_rate p) (f32 (7/10)) \<le> fmul (bp_nominal_rate p) (f32 (13/10))"
    using rate_band assms by (force simp: pacer_ok_def)
  then have rate: "fmul (bp_nominal_rate p) (f32 (7/10)) \<le> cclamp v (fmul (bp_nominal_rate p)
      (f32 (7/10))) (fmul (bp_nominal_rate p) (f32 (13/10)))"
    "cclamp v (fmul (bp_nominal_rate p) (f32 (7/10))) (fmul (bp_nominal_rate p) (f32 (13/10)))
      \<le> fmul (bp_nominal_rate p) (f32 (13/10))" for v
    by (simp_all only: cclamp_bounds)
  have integral: "\<bar>cclamp v (- f32 (1/5)) (f32 (1/5))\<bar> \<le> f32 (1/5)" for v
    using cclamp_bounds [of "- f32 (1/5)" "f32 (1/5)" v] seven_tenths by (simp add: abs_le_iff)
  from assms show ?thesis
    unfolding update_controller_def pacer_ok_def Let_def by (simp add: rate integral)
qed

lemma pacer_ok_update [rate_rules]: "pacer_ok p \<Longrightarrow> pacer_ok (update_fill f t p)"
  unfolding update_fill_def by (rule pacer_ok_controller) (simp add: pacer_ok_def)

lemma pacer_ok_sent [rate_rules]: "pacer_ok p \<Longrightarrow> pacer_ok (notify_packet_sent p)"
  by (simp add: notify_packet_sent_def pacer_ok_def)

lemma pacer_ok_reset [rate_rules]: "pacer_ok p \<Longrightarrow> pacer_ok (bp_reset p)"
  using rate_band [of "bp_nominal_rate p"] seven_tenths by (simp add: bp_reset_def pacer_ok_def)

lemma pacer_ok_ask [rate_rules]: "pacer_ok p \<Longrightarrow> pacer_ok (fst (bp_should_send t p))"
  by (simp add: bp_should_send_def pacer_ok_def Let_def)

lemma pacer_same:
  "bp_nominal_rate (update_fill f t p) = bp_nominal_rate p"
  "bp_nominal_rate (notify_packet_sent p) = bp_nominal_rate p"
  "bp_nominal_rate (bp_reset p) = bp_nominal_rate p"
  "bp_nominal_rate (fst (bp_should_send t p)) = bp_nominal_rate p"
  "bp_buffer_capacity (update_fill f t p) = bp_buffer_capacity p"
  "bp_buffer_capacity (notify_packet_sent p) = bp_buffer_capacity p"
  "bp_buffer_capacity (bp_reset p) = bp_buffer_capacity p"
  "bp_buffer_capacity (fst (bp_should_send t p)) = bp_buffer_capacity p"
  by (simp_all add: update_fill_def update_controller_def notify_packet_sent_def bp_reset_def
      bp_should_send_def Let_def)

text \<open>The calls a client can make on the controller.\<close>

datatype pacer_op = Update u16 host_time | Notify | Poll host_time | Reset

fun pacer_step :: "pacer_op \<Rightarrow> buffer_pacer \<Rightarrow> buffer_pacer" where
  "pacer_step (Update f t) p = update_fill f t p"
| "pacer_step Notify p = notify_packet_sent p"
| "pacer_step (Poll t) p = fst (bp_should_send t p)"
| "pacer_step Reset p = bp_reset p"

lemma pacer_step_ok:
  "pacer_ok p \<Longrightarrow> pacer_ok (pacer_step c p) \<and> bp_nominal_rate (pacer_step c p) = bp_nominal_rate p"
  by (cases c) (simp_all add: rate_rules pacer_same)

lemma pacer_run_ok:
  "pacer_ok p \<Longrightarrow> pacer_ok (fold pacer_step cs p) \<and>
     bp_nominal_rate (fold pacer_step cs p) = bp_nominal_rate p"
  by (induction cs arbitrary: p) (simp_all add: pacer_step_ok)

text \<open>Whatever statuses, sends, polls and resets arrive, in any order and at any times, the
  commanded packet rate stays within the rounded 0.7 to 1.3 band around the nominal rate and the
  integrator within its anti-windup bound.\<close>

theorem pacer_rate_bounded:
  "let p0 = buffer_pacer_new dac cap spp target kp ki; p = fold pacer_step cs p0;
       nominal = fdiv (f32_u32 dac) (f32_u16 spp)
   in fmul nominal (f32 (7/10)) \<le> bp_desired_rate p \<and>
      bp_desired_rate p \<le> fmul nominal (f32 (13/10)) \<and>
      \<bar>bp_integral p\<bar> \<le> f32 (1/5)"
proof -
  define p0 where "p0 = buffer_pacer_new dac cap spp target kp ki"
  have "bp_nominal_rate p0 = fdiv (f32_u32 dac) (f32_u16 spp)"
    by (simp add: p0_def buffer_pacer_new_def Let_def)
  moreover have "pacer_ok (fold pacer_step cs p0) \<and>
      bp_nominal_rate (fold pacer_step cs p0) = bp_nominal_rate p0"
    unfolding p0_def by (rule pacer_run_ok [OF pacer_ok_new])
  ultimately show ?thesis by (auto simp: Let_def pacer_ok_def simp flip: p0_def)
qed

section \<open>The send schedule\<close>

definition pacer_armed :: "buffer_pacer \<Rightarrow> bool" where
  "pacer_armed p \<longleftrightarrow> bp_schedule_initialized p \<and> 0 < bp_period p"

lemma bp_should_send_period [simp]: "bp_period (fst (bp_should_send t p)) = bp_period p"
  by (simp add: bp_should_send_def bp_period_def Let_def)

interpretation pacing: paced_sender bp_should_send bp_next_send_time pacer_armed bp_period
proof unfold_locales
  fix p t
  assume a: "pacer_armed p"
  then show "pacer_armed (fst (bp_should_send t p))"
    unfolding pacer_armed_def bp_should_send_period by (simp add: bp_should_send_def Let_def)
  show "0 < bp_period p" using a by (simp add: pacer_armed_def)
  show "bp_period (fst (bp_should_send t p)) = bp_period p" by simp
  show "bp_next_send_time (fst (bp_should_send t p)) = bp_next_send_time p"
    if "\<not> snd (bp_should_send t p)"
    using a that by (auto simp: bp_should_send_def pacer_armed_def Let_def split: if_splits)
  assume s: "snd (bp_should_send t p)"
  with a have d: "bp_next_send_time p \<le> t" and
    n: "bp_next_send_time (fst (bp_should_send t p)) =
          advance_schedule t (bp_period p) (bp_next_send_time p)"
    by (auto simp: bp_should_send_def pacer_armed_def Let_def split: if_splits)
  show "bp_next_send_time p \<le> t" by (rule d)
  show "bp_next_send_time p + bp_period p \<le> bp_next_send_time (fst (bp_should_send t p))"
    unfolding n by (rule advance_schedule_ge) (use a in \<open>simp add: pacer_armed_def\<close>)
  show "t - 3 * bp_period p \<le> bp_next_send_time (fst (bp_should_send t p))"
    unfolding n by (rule advance_schedule_backlog) (use a in \<open>simp add: pacer_armed_def\<close>)
qed

text \<open>How many of the polls at the given times are answered with "send".\<close>

fun pacer_sends :: "host_time list \<Rightarrow> buffer_pacer \<Rightarrow> nat" where
  "pacer_sends [] p = 0"
| "pacer_sends (t # ts) p =
     (if snd (bp_should_send t p) then 1 else 0) + pacer_sends ts (fst (bp_should_send t p))"

lemma pacer_sends_eq: "pacer_sends ts p = pacing.sends ts p"
  by (induction ts arbitrary: p) simp_all

text \<open>However irregular the polling and however long the stall before it, the number of packets
  released in a window is at most its length in periods plus five: backlog beyond three periods is
  given up rather than burst out.\<close>

theorem pacer_burst_bounded:
  assumes "bp_schedule_initialized p" and "0 < bp_period p" and "\<forall>t \<in> set ts. a \<le> t \<and> t \<le> b"
    and "a \<le> b"
  shows "(int (pacer_sends ts p) - 5) * bp_period p \<le> b - a"
proof -
  have "pacer_sends ts p \<le> 1 \<or> (int (pacer_sends ts p) - 5) * bp_period p \<le> b - a"
    unfolding pacer_sends_eq
    by (rule pacing.sends_window) (use assms in \<open>simp_all add: pacer_armed_def\<close>)
  moreover have "(int n - 5) * bp_period p \<le> 0" if "n \<le> 1" for n
    by (rule mult_nonpos_nonneg) (use that assms in simp_all)
  ultimately show ?thesis using assms(4) by fastforce
qed

theorem pacer_burst_bounded_witness:
  "let p = fst (bp_should_send 0 (buffer_pacer_new 1 16384 1 (1/2) (1/2) 0))
   in (int (pacer_sends [9000000000, 9000000000, 9000000001] p) - 5) * 1000000000 \<le> 1"
proof -
  let ?p = "fst (bp_should_send 0 (buffer_pacer_new 1 16384 1 (1/2) (1/2) 0))"
  have e: "bp_desired_rate ?p = 1" by (simp add: bp_should_send_def buffer_pacer_new_def Let_def)
  have "f64 1000000000 = of_int 1000000000" using f64_of_int [of 1000000000] by simp
  then have p: "bp_period ?p = 1000000000"
    unfolding bp_period_def e by (simp add: ns_of_seconds_def ctrunc_def)
  have "bp_schedule_initialized ?p" by (simp add: bp_should_send_def Let_def)
  from pacer_burst_bounded [OF this, of "[9000000000, 9000000000, 9000000001]" 9000000000 9000000001]
  show ?thesis by (simp add: p Let_def)
qed

section \<open>The adapter is a fill tracker\<close>

definition pid_ok :: "pid_fill_tracker \<Rightarrow> bool" where
  "pid_ok p \<longleftrightarrow> pacer_ok (pf_pacer p)"

lemma pid_fill_bound: "unat (pid_estimated_fill t p) \<le> unat (pf_buffer_capacity p)"
proof -
  let ?C = "real (unat (pf_buffer_capacity p))"
  let ?fr = "cclamp (estimated_fill_fraction t (pf_pacer p)) 0 1"
  have c: "f32_u16 (pf_buffer_capacity p) = ?C"
    using unat_u16 [of "pf_buffer_capacity p"] by (intro f32_of_nat) simp
  have fr: "0 \<le> ?fr" "?fr \<le> 1" using cclamp_bounds [of 0 1 "estimated_fill_fraction t (pf_pacer p)"] by simp_all
  have "?fr * ?C \<le> 1 * ?C" by (rule mult_right_mono) (use fr in simp_all)
  then have "fmul ?fr ?C \<le> ?C" using f32_mono [of "?fr * ?C" ?C] c by simp
  moreover have "f32 (?C + 1/2) = ?C + 1/2"
    using f32_dyadic [of "2 * int (unat (pf_buffer_capacity p)) + 1" "- 1"]
      unat_u16 [of "pf_buffer_capacity p"] by (simp add: power_int_minus field_simps)
  ultimately have up: "fadd (fmul ?fr ?C) (1/2) \<le> ?C + 1/2"
    using f32_mono [of "fmul ?fr ?C + 1/2" "?C + 1/2"] by simp
  have low: "0 \<le> fadd (fmul ?fr ?C) (1/2)" using fr by simp
  let ?v = "ctrunc (fadd (fmul ?fr ?C) (1/2))"
  have "real_of_int ?v \<le> ?C + 1/2" using ctrunc_nonneg_le [OF low] up by linarith
  then have hi: "?v \<le> int (unat (pf_buffer_capacity p))" by linarith
  have pos: "0 \<le> ?v" using ctrunc_nonneg [OF low] .
  have "?v < 2 ^ 32" using hi unat_u16 [of "pf_buffer_capacity p"] by simp
  with pos have "int (unat (of_int ?v :: u32)) = ?v"
    by (simp add: of_nat_unat uint_word_of_int_eq take_bit_int_eq_self)
  with hi show ?thesis unfolding pid_estimated_fill_def Let_def c by simp
qed

interpretation pid: fill_tracker pid_on_status pid_on_packet_sent pid_should_send pid_reset
  pid_estimated_fill pf_buffer_capacity pid_ok
  by unfold_locales
    (rule pid_fill_bound | simp add: pid_ok_def pid_on_status_def pid_on_packet_sent_def
      pid_should_send_def pid_reset_def Let_def rate_rules |
     simp add: pid_estimated_fill_def estimated_fill_fraction_def bp_extrapolate_def bp_reset_def
      pid_reset_def)+

text \<open>The adapter's estimate of the modem buffer never exceeds the buffer's capacity, after any
  sequence of statuses, sends, polls and resets, and does not depend on time after a reset until a
  status arrives.\<close>

theorem pid_fill_in_capacity:
  "let s = fold pid.tracker_step cs (pid_new dac cap spp target kp ki)
   in unat (pid_estimated_fill t s) \<le> unat cap \<and>
      pid_estimated_fill t (pid_reset s) = pid_estimated_fill t' (pid_reset s)"
proof -
  let ?s0 = "pid_new dac cap spp target kp ki"
  have ok: "pid_ok ?s0" by (simp add: pid_ok_def pid_new_def pacer_ok_new)
  have "unat (pid_estimated_fill t (fold pid.tracker_step cs ?s0)) \<le> unat (pf_buffer_capacity ?s0)"
    by (rule pid.tracker_run_fill [OF ok])
  then show ?thesis using pid.tracker_reset_fill [OF ok, of t cs t'] by (simp add: Let_def pid_new_def)
qed

end
