(* ===== verification/Clock_Fill_Tracker.thy ===== *)
theory Clock_Fill_Tracker
  imports Fill_Tracker
begin

text \<open>
  \<open>src/io/clock_fill_tracker.cpp\<close>: the default fill tracker. It anchors a reported fill to the
  send time of the packet the firmware names, extrapolates with a smoothed drain rate, and decides
  when the next packet may go. Sample counters are unbounded naturals (64 bits last for a million
  years at the supported rates); fills are signed integers as in the code.
\<close>

section \<open>State\<close>

record cft_config =
  cc_dac_rate :: u32
  cc_buffer_capacity :: u16
  cc_samples_per_packet :: u16
  cc_target_fill_frac :: real
  cc_hyst_low_frac :: real
  cc_hyst_high_frac :: real
  cc_burst_cap_multiplier :: real
  cc_rate_ewma_alpha :: real
  cc_initial_modem_rate_hint :: u32

definition cft_default_config :: cft_config where
  "cft_default_config = \<lparr>cc_dac_rate = 500000, cc_buffer_capacity = 16384,
     cc_samples_per_packet = 255, cc_target_fill_frac = 1/2, cc_hyst_low_frac = f32 (2/100),
     cc_hyst_high_frac = f32 (2/100), cc_burst_cap_multiplier = 3/2,
     cc_rate_ewma_alpha = f32 (1/5), cc_initial_modem_rate_hint = 0\<rparr>"

record cft_entry =
  ce_packet_id :: u16
  ce_ts :: host_time
  ce_cumulative_after :: nat
  ce_valid :: bool

definition RING_CAPACITY :: nat where "RING_CAPACITY = 64"

record cft =
  cf_cfg :: cft_config
  cf_target_fill_samples :: nat
  cf_hyst_low_samples :: nat
  cf_hyst_high_samples :: nat
  cf_nominal_rate :: real
  cf_modem_rate :: real
  cf_has_anchor :: bool
  cf_anchor_fill :: int
  cf_anchor_time :: host_time
  cf_anchor_cumulative :: nat
  cf_last_anchor_was_fallback :: bool
  cf_skip_next_rate_inference :: bool
  cf_ring :: "cft_entry list"
  cf_next_ring_slot :: nat
  cf_cumulative_sent :: nat
  cf_prev_rx_expected_id :: u16
  cf_prev_rx_expected_id_valid :: bool
  cf_fallback_anchor_count :: nat
  cf_next_send_time :: host_time
  cf_schedule_initialized :: bool
  cf_holding :: bool
  cf_last_send_time :: host_time

definition empty_entry :: cft_entry where
  "empty_entry = \<lparr>ce_packet_id = 0, ce_ts = 0, ce_cumulative_after = 0, ce_valid = False\<rparr>"

definition fraction_samples :: "real \<Rightarrow> u16 \<Rightarrow> nat" where
  "fraction_samples fr cap = nat (ctrunc (fmul fr (f32 (real (unat cap)))))"

definition cft_new :: "cft_config \<Rightarrow> cft" where
  "cft_new cfg = \<lparr>cf_cfg = cfg,
     cf_target_fill_samples = fraction_samples (cc_target_fill_frac cfg) (cc_buffer_capacity cfg),
     cf_hyst_low_samples = fraction_samples (cc_hyst_low_frac cfg) (cc_buffer_capacity cfg),
     cf_hyst_high_samples = fraction_samples (cc_hyst_high_frac cfg) (cc_buffer_capacity cfg),
     cf_nominal_rate = ddiv (real (unat (cc_dac_rate cfg))) (real (unat (cc_samples_per_packet cfg))),
     cf_modem_rate = (if cc_initial_modem_rate_hint cfg \<noteq> 0
       then real (unat (cc_initial_modem_rate_hint cfg)) else real (unat (cc_dac_rate cfg))),
     cf_has_anchor = False, cf_anchor_fill = 0, cf_anchor_time = 0, cf_anchor_cumulative = 0,
     cf_last_anchor_was_fallback = False, cf_skip_next_rate_inference = True,
     cf_ring = replicate RING_CAPACITY empty_entry, cf_next_ring_slot = 0,
     cf_cumulative_sent = 0, cf_prev_rx_expected_id = 0, cf_prev_rx_expected_id_valid = False,
     cf_fallback_anchor_count = 0, cf_next_send_time = 0, cf_schedule_initialized = False,
     cf_holding = False, cf_last_send_time = 0\<rparr>"

section \<open>Operations\<close>

definition cft_on_packet_sent :: "u16 \<Rightarrow> u16 \<Rightarrow> host_time \<Rightarrow> cft \<Rightarrow> cft" where
  "cft_on_packet_sent packet_id samples now c =
     (let cum = cf_cumulative_sent c + unat samples
      in c\<lparr>cf_cumulative_sent := cum,
           cf_ring := (cf_ring c)[cf_next_ring_slot c mod RING_CAPACITY :=
             \<lparr>ce_packet_id = packet_id, ce_ts = now, ce_cumulative_after = cum, ce_valid = True\<rparr>],
           cf_next_ring_slot := cf_next_ring_slot c + 1\<rparr>)"

definition cft_find_entry :: "u16 \<Rightarrow> cft \<Rightarrow> cft_entry option" where
  "cft_find_entry packet_id c = find (\<lambda>e. ce_valid e \<and> ce_packet_id e = packet_id) (cf_ring c)"

text \<open>The anchor part of \<open>on_status\<close>: anchored to the named packet, or to arrival time.\<close>

definition cft_anchor :: "status_payload \<Rightarrow> host_time \<Rightarrow> cft \<Rightarrow> cft" where
  "cft_anchor status now c =
     (case cft_find_entry (sp_fill_reference_id status) c of
        Some e \<Rightarrow> c\<lparr>cf_anchor_fill := int (unat (sp_buffer_fill status)), cf_anchor_time := ce_ts e,
          cf_anchor_cumulative := ce_cumulative_after e, cf_last_anchor_was_fallback := False\<rparr>
      | None \<Rightarrow> c\<lparr>cf_anchor_fill := int (unat (sp_buffer_fill status)), cf_anchor_time := now,
          cf_anchor_cumulative := cf_cumulative_sent c, cf_last_anchor_was_fallback := True,
          cf_fallback_anchor_count := cf_fallback_anchor_count c + 1,
          cf_skip_next_rate_inference := True\<rparr>)
       \<lparr>cf_has_anchor := True\<rparr>"

text \<open>The rate part: \<open>c\<close> is the state before, \<open>c1\<close> the state with the new anchor. The
  nested conditions each leave the rate alone when they fail.\<close>

definition cft_observed_rate :: "status_payload \<Rightarrow> cft \<Rightarrow> cft \<Rightarrow> real option" where
  "cft_observed_rate status c c1 =
     (if cf_has_anchor c \<and> cf_prev_rx_expected_id_valid c \<and> \<not> cf_skip_next_rate_inference c1 then
        let dt_seconds = seconds_f64 (cf_anchor_time c1 - cf_anchor_time c)
        in if 0 < dt_seconds then
             let accepted_pkts = sint (sp_rx_expected_id status - cf_prev_rx_expected_id c)
             in if 0 < accepted_pkts then
                  let accepted_samples =
                        accepted_pkts * int (unat (cc_samples_per_packet (cf_cfg c)));
                      fill_delta = cf_anchor_fill c1 - cf_anchor_fill c;
                      consumed = accepted_samples - fill_delta
                  in if 0 < consumed then
                       let observed_rate = ddiv (f64 (of_int consumed)) dt_seconds;
                           nominal = real (unat (cc_dac_rate (cf_cfg c)))
                       in if dmul nominal (1/2) < observed_rate \<and> observed_rate < dmul nominal 2
                          then Some observed_rate else None
                     else None
                else None
           else None
      else None)"

definition cft_on_status :: "status_payload \<Rightarrow> host_time \<Rightarrow> cft \<Rightarrow> cft" where
  "cft_on_status status now c =
     (let c1 = cft_anchor status now c;
          c2 = (case cft_observed_rate status c c1 of
                  None \<Rightarrow> c1
                | Some observed \<Rightarrow> c1\<lparr>cf_modem_rate :=
                    dadd (dmul (dsub 1 (cc_rate_ewma_alpha (cf_cfg c))) (cf_modem_rate c))
                         (dmul (cc_rate_ewma_alpha (cf_cfg c)) observed)\<rparr>)
      in c2\<lparr>cf_prev_rx_expected_id := sp_rx_expected_id status,
            cf_prev_rx_expected_id_valid := True, cf_skip_next_rate_inference := False\<rparr>)"

definition cft_extrapolated_fill :: "host_time \<Rightarrow> cft \<Rightarrow> int" where
  "cft_extrapolated_fill now c =
     (if \<not> cf_has_anchor c then int (cf_target_fill_samples c)
      else let sent_since_anchor = int (cf_cumulative_sent c) - int (cf_anchor_cumulative c);
               elapsed_s = seconds_f64 (now - cf_anchor_time c);
               consumed = ctrunc (dadd (dmul elapsed_s (cf_modem_rate c)) (1/2));
               fill = cf_anchor_fill c + sent_since_anchor - consumed
           in cmin (cmax fill 0) (int (unat (cc_buffer_capacity (cf_cfg c)))))"

definition cft_estimated_fill :: "host_time \<Rightarrow> cft \<Rightarrow> u32" where
  "cft_estimated_fill now c = of_int (cft_extrapolated_fill now c)"

definition KEEPALIVE_INTERVAL :: int where "KEEPALIVE_INTERVAL = 50 * 1000000"

text \<open>The hold decision of \<open>should_send\<close>: the anchor is trusted when it disagrees with the
  extrapolation by more than half the target.\<close>

definition cft_effective_fill :: "host_time \<Rightarrow> cft \<Rightarrow> int" where
  "cft_effective_fill now c =
     (let fill = cft_extrapolated_fill now c;
          disagreement_threshold = int (cf_target_fill_samples c div 2);
          disagreement = (if cf_has_anchor c then \<bar>fill - cf_anchor_fill c\<bar> else 0);
          trust_anchor = (cf_has_anchor c \<and> disagreement_threshold < disagreement)
      in if trust_anchor then cf_anchor_fill c else fill)"

definition cft_holding' :: "host_time \<Rightarrow> cft \<Rightarrow> bool" where
  "cft_holding' now c =
     (let effective_fill = cft_effective_fill now c
      in if \<not> cf_holding c \<and>
            int (cf_target_fill_samples c + cf_hyst_high_samples c) < effective_fill then True
         else if cf_holding c \<and> effective_fill < int (cf_target_fill_samples c) then False
         else cf_holding c)"

definition cft_period :: "host_time \<Rightarrow> cft \<Rightarrow> int" where
  "cft_period now c =
     (let deeply_low = cft_extrapolated_fill now c <
            int (cf_target_fill_samples c) - int (cf_hyst_low_samples c);
          rate = (if deeply_low then dmul (cf_nominal_rate c) (cc_burst_cap_multiplier (cf_cfg c))
                  else cf_nominal_rate c)
      in ns_of_seconds (ddiv 1 rate))"

definition cft_should_send :: "host_time \<Rightarrow> cft \<Rightarrow> cft \<times> bool" where
  "cft_should_send now c0 =
     (let c = (if \<not> cf_schedule_initialized c0
               then c0\<lparr>cf_next_send_time := now, cf_last_send_time := now,
                       cf_schedule_initialized := True\<rparr> else c0);
          c1 = c\<lparr>cf_holding := cft_holding' now c\<rparr>
      in if cf_holding c1 then
           (if now - cf_last_send_time c1 < KEEPALIVE_INTERVAL then (c1, False)
            else (c1\<lparr>cf_last_send_time := now\<rparr>, True))
         else if now < cf_next_send_time c1 then (c1, False)
         else (c1\<lparr>cf_next_send_time :=
                    advance_schedule now (cft_period now c1) (cf_next_send_time c1),
                  cf_last_send_time := now\<rparr>, True))"

definition cft_reset :: "cft \<Rightarrow> cft" where
  "cft_reset c = c\<lparr>cf_has_anchor := False, cf_anchor_fill := 0, cf_anchor_time := 0,
     cf_anchor_cumulative := 0, cf_last_anchor_was_fallback := False,
     cf_skip_next_rate_inference := True,
     cf_ring := map (\<lambda>e. e\<lparr>ce_valid := False\<rparr>) (cf_ring c), cf_next_ring_slot := 0,
     cf_cumulative_sent := 0, cf_prev_rx_expected_id := 0, cf_prev_rx_expected_id_valid := False,
     cf_next_send_time := 0, cf_last_send_time := 0, cf_schedule_initialized := False,
     cf_holding := False\<rparr>"

section \<open>Fill bounds\<close>

text \<open>Configurations whose target fraction is at most one, as every caller's is.\<close>

definition cft_ok :: "cft \<Rightarrow> bool" where
  "cft_ok c \<longleftrightarrow> cf_target_fill_samples c \<le> unat (cc_buffer_capacity (cf_cfg c)) \<and>
     length (cf_ring c) = RING_CAPACITY \<and>
     cf_skip_next_rate_inference c = (\<not> cf_has_anchor c) \<and>
     cf_prev_rx_expected_id_valid c = cf_has_anchor c"

lemma fraction_samples_le:
  assumes "0 \<le> fr" and "fr \<le> 1"
  shows "fraction_samples fr cap \<le> unat cap"
proof -
  have c: "f32 (real (unat cap)) = real (unat cap)" using unat_u16 [of cap] by (intro f32_of_nat) simp
  have "fr * real (unat cap) \<le> 1 * real (unat cap)" by (rule mult_right_mono) (use assms in simp_all)
  then have "fmul fr (real (unat cap)) \<le> real (unat cap)"
    using f32_mono [of "fr * real (unat cap)" "real (unat cap)"] c by simp
  then have "ctrunc (fmul fr (real (unat cap))) \<le> ctrunc (real (unat cap))" by (rule ctrunc_mono)
  then have "ctrunc (fmul fr (real (unat cap))) \<le> int (unat cap)" by (simp only: ctrunc_of_nat)
  then show ?thesis unfolding fraction_samples_def c by (simp add: nat_le_iff)
qed

lemma cft_ok_new: "0 \<le> cc_target_fill_frac cfg \<Longrightarrow> cc_target_fill_frac cfg \<le> 1 \<Longrightarrow> cft_ok (cft_new cfg)"
  by (simp add: cft_ok_def cft_new_def fraction_samples_le)

lemma cft_ok_status: "cft_ok c \<Longrightarrow> cft_ok (cft_on_status st t c)"
  by (auto simp: cft_ok_def cft_on_status_def cft_anchor_def Let_def split: option.splits)

lemma cft_ok_sent: "cft_ok c \<Longrightarrow> cft_ok (cft_on_packet_sent i n t c)"
  by (simp add: cft_ok_def cft_on_packet_sent_def Let_def)

lemma cft_ok_ask: "cft_ok c \<Longrightarrow> cft_ok (fst (cft_should_send t c))"
  by (simp add: cft_ok_def cft_should_send_def Let_def)

lemma cft_ok_reset: "cft_ok c \<Longrightarrow> cft_ok (cft_reset c)"
  by (simp add: cft_ok_def cft_reset_def)

lemma cft_cfg_same:
  "cf_cfg (cft_on_status st t c) = cf_cfg c" "cf_cfg (cft_on_packet_sent i n t c) = cf_cfg c"
  "cf_cfg (fst (cft_should_send t c)) = cf_cfg c" "cf_cfg (cft_reset c) = cf_cfg c"
  by (simp_all add: cft_on_status_def cft_anchor_def cft_on_packet_sent_def cft_should_send_def
      cft_reset_def Let_def split: option.splits)

lemma cft_extrapolated_range:
  assumes "cft_ok c"
  shows "0 \<le> cft_extrapolated_fill t c \<and>
    cft_extrapolated_fill t c \<le> int (unat (cc_buffer_capacity (cf_cfg c)))"
  using assms by (simp add: cft_extrapolated_fill_def cft_ok_def Let_def)

lemma cft_fill_bound:
  assumes "cft_ok c"
  shows "int (unat (cft_estimated_fill t c)) = cft_extrapolated_fill t c"
proof -
  have "cft_extrapolated_fill t c < 2 ^ 32"
    using cft_extrapolated_range [OF assms, of t] unat_u16 [of "cc_buffer_capacity (cf_cfg c)"] by simp
  with cft_extrapolated_range [OF assms, of t] show ?thesis
    by (simp add: cft_estimated_fill_def of_nat_unat uint_word_of_int_eq take_bit_int_eq_self)
qed

interpretation clock: fill_tracker cft_on_status cft_on_packet_sent cft_should_send cft_reset
  cft_estimated_fill "\<lambda>c. cc_buffer_capacity (cf_cfg c)" cft_ok
proof (unfold_locales, goal_cases)
  case (9 s t)
  then have "int (unat (cft_estimated_fill t s)) \<le> int (unat (cc_buffer_capacity (cf_cfg s)))"
    using cft_fill_bound cft_extrapolated_range by metis
  then show ?case by simp
next
  case (10 s t t')
  then show ?case by (simp add: cft_estimated_fill_def cft_extrapolated_fill_def cft_reset_def)
qed (simp_all add: cft_ok_status cft_ok_sent cft_ok_ask cft_ok_reset cft_cfg_same)

section \<open>The rate smoother\<close>

lemma ewma_band:
  fixes a m n v :: real
  assumes "1/100 \<le> a" "a \<le> 99/100" "1 \<le> n" "499/1000 * n \<le> m" "m \<le> 2001/1000 * n"
    and "n/2 \<le> v" "v \<le> 2 * n"
  shows "499/1000 * n \<le> dadd (dmul (dsub 1 a) m) (dmul a v) \<and>
    dadd (dmul (dsub 1 a) m) (dmul a v) \<le> 2001/1000 * n"
proof -
  define d :: real where "d = 1 / 10 ^ 15"
  have d: "0 \<le> d" "d \<le> 1 / 100000" by (simp_all add: d_def)
  have tiny: "1 / 10 ^ 20 \<le> (1/100000::real)" by simp
  have shrink: "c / 2 \<le> x * (1 - d)" if "c \<le> x" "0 \<le> c" for c x
  proof -
    have "c * (1/2) \<le> x * (1 - d)" by (rule mult_mono) (use that d in simp_all)
    then show ?thesis by simp
  qed
  let ?b = "f64 (1 - a)"
  have b: "(1 - a) * (1 - d) \<le> ?b" "?b \<le> (1 - a) * (1 + d)"
    unfolding d_def by (rule f64_between [THEN conjunct1] f64_between [THEN conjunct2],
      use assms tiny in linarith)+
  have b1: "1/200 \<le> ?b"
  proof -
    have "1/200 \<le> (1/100) * (1 - d)" using d by simp
    also have "\<dots> \<le> (1 - a) * (1 - d)" using assms d by (intro mult_right_mono) simp_all
    also have "\<dots> \<le> ?b" by (rule b)
    finally show ?thesis .
  qed
  have bm: "1/1000 \<le> ?b * m"
  proof -
    have "(1/200) * (499/1000) \<le> ?b * m"
      by (rule mult_mono) (use b1 assms in linarith)+
    then show ?thesis by linarith
  qed
  have av: "1/1000 \<le> a * v"
  proof -
    have "(1/100) * (1/2) \<le> a * v" by (rule mult_mono) (use assms in linarith)+
    then show ?thesis by linarith
  qed
  have pm: "?b * m * (1 - d) \<le> dmul ?b m" "dmul ?b m \<le> ?b * m * (1 + d)"
    unfolding d_def by (rule f64_between [THEN conjunct1] f64_between [THEN conjunct2],
      use bm tiny in linarith)+
  have pv: "a * v * (1 - d) \<le> dmul a v" "dmul a v \<le> a * v * (1 + d)"
    unfolding d_def by (rule f64_between [THEN conjunct1] f64_between [THEN conjunct2],
      use av tiny in linarith)+
  have half: "1/2000 \<le> dmul ?b m" "1/2000 \<le> dmul a v"
    using order_trans [OF shrink [OF bm] pm(1)] order_trans [OF shrink [OF av] pv(1)] by simp_all
  let ?s = "dmul ?b m + dmul a v"
  have ps: "?s * (1 - d) \<le> f64 ?s" "f64 ?s \<le> ?s * (1 + d)"
    unfolding d_def by (rule f64_between [THEN conjunct1] f64_between [THEN conjunct2],
      use half tiny in linarith)+
  have m0: "0 \<le> m" "0 \<le> v" using assms by linarith+
  have swap: "x * y * z * y = x * z * (y * y)" for x y z :: real by simp
  \<comment> \<open>upper bound\<close>
  let ?U = "(1 + d) * (1 + d)"
  have "?b * m \<le> (1 - a) * (1 + d) * (2001/1000 * n)"
    by (rule mult_mono) (use b b1 assms m0 d in auto)
  then have "?b * m * (1 + d) \<le> (1 - a) * (1 + d) * (2001/1000 * n) * (1 + d)"
    by (rule mult_right_mono) (use d in simp)
  from order_trans [OF pm(2) this]
  have u1: "dmul ?b m \<le> (1 - a) * (2001/1000 * n) * ?U" by (simp only: swap)
  have "a * v * (1 + d) \<le> a * (2 * n) * (1 + d)"
    by (intro mult_right_mono mult_left_mono) (use assms d in simp_all)
  also have "\<dots> \<le> a * (2 * n) * (1 + d) * (1 + d)"
    using mult_left_mono [of 1 "1 + d" "a * (2 * n) * (1 + d)"] assms d by simp
  finally have "a * v * (1 + d) \<le> a * (2 * n) * (1 + d) * (1 + d)" .
  from order_trans [OF pv(2) this] have u2: "dmul a v \<le> a * (2 * n) * ?U" by (simp only: mult.assoc)
  have "?s \<le> ((1 - a) * (2001/1000 * n) + a * (2 * n)) * ?U"
    using add_mono [OF u1 u2] by (simp only: distrib_right)
  moreover have "(1 - a) * (2001/1000 * n) + a * (2 * n) \<le> 2001/1000 * n - 1/100000 * n"
  proof -
    have "1/100 * n \<le> a * n" using assms by (intro mult_right_mono) simp_all
    moreover have "(1 - a) * (2001/1000 * n) + a * (2 * n) = 2001/1000 * n - 1/1000 * (a * n)"
      by (simp add: field_simps)
    ultimately show ?thesis by linarith
  qed
  then have "((1 - a) * (2001/1000 * n) + a * (2 * n)) * ((1 + d) * (1 + d)) \<le>
      (2001/1000 * n - 1/100000 * n) * ((1 + d) * (1 + d))"
    by (rule mult_right_mono) (use d in simp)
  ultimately have s_up: "?s \<le> (2001/1000 * n - 1/100000 * n) * ((1 + d) * (1 + d))" by linarith
  have "?s * (1 + d) \<le> (2001/1000 * n - 1/100000 * n) * ((1 + d) * (1 + d)) * (1 + d)"
    by (rule mult_right_mono [OF s_up]) (use d in simp)
  also have "\<dots> = n * ((2001/1000 - 1/100000) * ((1 + d) * (1 + d) * (1 + d)))"
    by (simp add: algebra_simps)
  also have "\<dots> \<le> n * (2001/1000)"
    by (rule mult_left_mono) (use assms in \<open>simp_all add: d_def\<close>)
  finally have upper: "f64 ?s \<le> 2001/1000 * n" using ps by simp
  \<comment> \<open>lower bound\<close>
  let ?L = "(1 - d) * (1 - d)"
  have "(1 - a) * (1 - d) * (499/1000 * n) \<le> ?b * m"
    by (rule mult_mono) (use b b1 assms m0 d in auto)
  then have "(1 - a) * (1 - d) * (499/1000 * n) * (1 - d) \<le> ?b * m * (1 - d)"
    by (rule mult_right_mono) (use d in simp)
  from order_trans [OF this pm(1)]
  have l1: "(1 - a) * (499/1000 * n) * ?L \<le> dmul ?b m" by (simp only: swap)
  have "a * (n/2) * (1 - d) * (1 - d) \<le> a * (n/2) * (1 - d)"
    using mult_left_mono [of "1 - d" 1 "a * (n/2) * (1 - d)"] assms d by simp
  also have "\<dots> \<le> a * v * (1 - d)"
    by (intro mult_right_mono mult_left_mono) (use assms d in simp_all)
  finally have "a * (n/2) * (1 - d) * (1 - d) \<le> a * v * (1 - d)" .
  from order_trans [OF this pv(1)] have l2: "a * (n/2) * ?L \<le> dmul a v" by (simp only: mult.assoc)
  have "((1 - a) * (499/1000 * n) + a * (n/2)) * ?L \<le> ?s"
    using add_mono [OF l1 l2] by (simp only: distrib_right)
  moreover have "499/1000 * n + 1/100000 * n \<le> (1 - a) * (499/1000 * n) + a * (n/2)"
  proof -
    have "1/100 * n \<le> a * n" using assms by (intro mult_right_mono) simp_all
    moreover have "(1 - a) * (499/1000 * n) + a * (n/2) = 499/1000 * n + 1/1000 * (a * n)"
      by (simp add: field_simps)
    ultimately show ?thesis by linarith
  qed
  then have "(499/1000 * n + 1/100000 * n) * ((1 - d) * (1 - d)) \<le>
      ((1 - a) * (499/1000 * n) + a * (n/2)) * ((1 - d) * (1 - d))"
    by (rule mult_right_mono) (use d in simp)
  ultimately have s_low: "(499/1000 * n + 1/100000 * n) * ((1 - d) * (1 - d)) \<le> ?s" by linarith
  have "n * (499/1000) \<le> n * ((499/1000 + 1/100000) * ((1 - d) * (1 - d) * (1 - d)))"
    by (rule mult_left_mono) (use assms in \<open>simp_all add: d_def\<close>)
  also have "\<dots> = (499/1000 * n + 1/100000 * n) * ((1 - d) * (1 - d)) * (1 - d)"
    by (simp add: algebra_simps)
  also have "\<dots> \<le> ?s * (1 - d)" by (rule mult_right_mono [OF s_low]) (use d in simp)
  finally have "499/1000 * n \<le> f64 ?s" using ps by simp
  with upper show ?thesis by simp
qed

text \<open>The invariant of the smoothed rate, around the nominal one.\<close>

definition rate_ok :: "cft \<Rightarrow> bool" where
  "rate_ok c \<longleftrightarrow> 1/100 \<le> cc_rate_ewma_alpha (cf_cfg c) \<and> cc_rate_ewma_alpha (cf_cfg c) \<le> 99/100 \<and>
     1 \<le> unat (cc_dac_rate (cf_cfg c)) \<and>
     499/1000 * real (unat (cc_dac_rate (cf_cfg c))) \<le> cf_modem_rate c \<and>
     cf_modem_rate c \<le> 2001/1000 * real (unat (cc_dac_rate (cf_cfg c)))"

lemma observed_rate_band:
  assumes "cft_observed_rate st c c1 = Some v" and "1 \<le> unat (cc_dac_rate (cf_cfg c))"
  shows "real (unat (cc_dac_rate (cf_cfg c))) / 2 \<le> v \<and> v \<le> 2 * real (unat (cc_dac_rate (cf_cfg c)))"
proof -
  let ?n = "real (unat (cc_dac_rate (cf_cfg c)))"
  have n32: "unat (cc_dac_rate (cf_cfg c)) < 2 ^ 32" by (rule unat_u32)
  have "f64 (of_int (int (unat (cc_dac_rate (cf_cfg c)))) * 2 powi (- 1)) =
      of_int (int (unat (cc_dac_rate (cf_cfg c)))) * 2 powi (- 1)"
    by (rule f64_dyadic) (use n32 in simp_all)
  then have half: "dmul ?n (1/2) = ?n * (1/2)" by (simp add: power_int_minus inverse_eq_divide)
  have "f64 (of_nat (unat (cc_dac_rate (cf_cfg c)) * 2)) = of_nat (unat (cc_dac_rate (cf_cfg c)) * 2)"
    by (rule f64_of_nat) (use n32 in simp)
  then have twice: "dmul ?n 2 = ?n * 2" by simp
  have "dmul ?n (1/2) < v \<and> v < dmul ?n 2"
    using assms(1) unfolding cft_observed_rate_def Let_def by (simp only: split: if_splits) blast+
  with half twice show ?thesis by simp
qed

lemma rate_ok_status:
  assumes "rate_ok c"
  shows "rate_ok (cft_on_status st t c)"
proof -
  let ?c1 = "cft_anchor st t c"
  have cfg: "cf_cfg ?c1 = cf_cfg c" "cf_modem_rate ?c1 = cf_modem_rate c"
    by (simp_all add: cft_anchor_def split: option.splits)
  show ?thesis
  proof (cases "cft_observed_rate st c ?c1")
    case None
    with assms cfg show ?thesis by (simp add: cft_on_status_def Let_def rate_ok_def)
  next
    case (Some v)
    have "499/1000 * real (unat (cc_dac_rate (cf_cfg c))) \<le>
        dadd (dmul (dsub 1 (cc_rate_ewma_alpha (cf_cfg c))) (cf_modem_rate c))
          (dmul (cc_rate_ewma_alpha (cf_cfg c)) v) \<and>
        dadd (dmul (dsub 1 (cc_rate_ewma_alpha (cf_cfg c))) (cf_modem_rate c))
          (dmul (cc_rate_ewma_alpha (cf_cfg c)) v) \<le> 2001/1000 * real (unat (cc_dac_rate (cf_cfg c)))"
      by (rule ewma_band) (use assms observed_rate_band [OF Some] in \<open>auto simp: rate_ok_def\<close>)
    with assms cfg Some show ?thesis by (simp add: cft_on_status_def Let_def rate_ok_def)
  qed
qed

lemma rate_ok_others:
  "rate_ok c \<Longrightarrow> rate_ok (cft_on_packet_sent i n t c)"
  "rate_ok c \<Longrightarrow> rate_ok (fst (cft_should_send t c))"
  "rate_ok c \<Longrightarrow> rate_ok (cft_reset c)"
  by (simp_all add: rate_ok_def cft_on_packet_sent_def cft_should_send_def cft_reset_def Let_def)

lemma rate_ok_run: "rate_ok c \<Longrightarrow> rate_ok (fold clock.tracker_step cs c)"
proof (induction cs arbitrary: c)
  case Nil
  then show ?case by simp
next
  case (Cons x cs)
  have "rate_ok (clock.tracker_step x c)"
    by (cases x) (simp_all add: Cons.prems rate_ok_status rate_ok_others)
  then show ?case by (simp add: Cons.IH)
qed

text \<open>The smoothed modem rate never leaves the band from 0.499 to 2.001 times the nominal rate,
  rounding of the double arithmetic included, for any sequence of calls: the rejection of
  observations outside half to twice nominal is enough to keep the filter itself there.\<close>

theorem modem_rate_bounded:
  assumes "1/100 \<le> cc_rate_ewma_alpha cfg" and "cc_rate_ewma_alpha cfg \<le> 99/100"
    and "cc_dac_rate cfg \<noteq> 0" and "cc_initial_modem_rate_hint cfg = 0"
  shows "499/1000 * real (unat (cc_dac_rate cfg)) \<le>
      cf_modem_rate (fold clock.tracker_step cs (cft_new cfg)) \<and>
    cf_modem_rate (fold clock.tracker_step cs (cft_new cfg)) \<le>
      2001/1000 * real (unat (cc_dac_rate cfg))"
proof -
  have n: "1 \<le> unat (cc_dac_rate cfg)" using assms(3) by (simp add: Suc_le_eq unat_gt_0)
  have "rate_ok (cft_new cfg)" using assms n by (simp add: rate_ok_def cft_new_def)
  then have r: "rate_ok (fold clock.tracker_step cs (cft_new cfg))" by (rule rate_ok_run)
  have "cf_cfg (clock.tracker_step x c) = cf_cfg c" for x c
    by (cases x) (simp_all add: cft_cfg_same)
  then have "cf_cfg (fold clock.tracker_step cs c) = cf_cfg c" for c
    by (induction cs arbitrary: c) simp_all
  then have "cf_cfg (fold clock.tracker_step cs (cft_new cfg)) = cfg" by (simp add: cft_new_def)
  with r show ?thesis by (simp add: rate_ok_def)
qed

lemma default_alpha: "1/100 \<le> f32 (1/5) \<and> f32 (1/5) \<le> 99/100"
  using f32_mono [of "1/8" "1/5"] f32_mono [of "1/5" "1/2"] f32_dyadic [of 1 "- 3"]
    f32_dyadic [of 1 "- 1"] by (simp add: power_int_minus)

theorem modem_rate_bounded_witness:
  "cf_modem_rate (fold clock.tracker_step [Sent 0 255 0, Forget] (cft_new cft_default_config)) \<le> 1000500"
  using modem_rate_bounded [of cft_default_config "[Sent 0 255 0, Forget]"] default_alpha
  by (simp add: cft_default_config_def)

section \<open>Anchoring\<close>

text \<open>Packets sent since a reset: id, samples, time; and what the ring should remember of them.\<close>

fun sent_all :: "(u16 \<times> u16 \<times> host_time) list \<Rightarrow> cft \<Rightarrow> cft" where
  "sent_all [] c = c"
| "sent_all ((i, n, t) # ps) c = sent_all ps (cft_on_packet_sent i n t c)"

definition sent_samples :: "(u16 \<times> u16 \<times> host_time) list \<Rightarrow> nat" where
  "sent_samples ps = sum_list (map (\<lambda>(i, n, t). unat n) ps)"

definition sent_entry :: "(u16 \<times> u16 \<times> host_time) list \<Rightarrow> nat \<Rightarrow> cft_entry" where
  "sent_entry ps k = (case ps ! k of (i, n, t) \<Rightarrow> \<lparr>ce_packet_id = i, ce_ts = t,
     ce_cumulative_after = sent_samples (take (Suc k) ps), ce_valid = True\<rparr>)"

lemma sent_all_snoc: "sent_all (ps @ [(i, n, t)]) c = cft_on_packet_sent i n t (sent_all ps c)"
  by (induction ps arbitrary: c) auto

lemma sent_entry_append: "k < length ps \<Longrightarrow> sent_entry (ps @ qs) k = sent_entry ps k"
  by (simp add: sent_entry_def nth_append)

definition ring_holds :: "(u16 \<times> u16 \<times> host_time) list \<Rightarrow> cft \<Rightarrow> bool" where
  "ring_holds ps c \<longleftrightarrow> length (cf_ring c) = RING_CAPACITY \<and> cf_next_ring_slot c = length ps \<and>
     cf_cumulative_sent c = sent_samples ps \<and>
     (\<forall>k < length ps. length ps \<le> k + RING_CAPACITY \<longrightarrow>
        cf_ring c ! (k mod RING_CAPACITY) = sent_entry ps k) \<and>
     (\<forall>s < RING_CAPACITY. ce_valid (cf_ring c ! s) \<longrightarrow>
        (\<exists>k < length ps. length ps \<le> k + RING_CAPACITY \<and> k mod RING_CAPACITY = s))"

lemma ring_holds_reset: "length (cf_ring c) = RING_CAPACITY \<Longrightarrow> ring_holds [] (cft_reset c)"
  by (simp add: ring_holds_def cft_reset_def sent_samples_def)

lemma ring_holds_snoc:
  assumes "ring_holds ps c"
  shows "ring_holds (ps @ [(i, n, t)]) (cft_on_packet_sent i n t c)"
proof -
  let ?m = "length ps" and ?R = RING_CAPACITY
  have R: "0 < ?R" by (simp add: RING_CAPACITY_def)
  have len: "length (cf_ring c) = ?R" and slot: "cf_next_ring_slot c = ?m"
    and cum: "cf_cumulative_sent c = sent_samples ps" using assms by (simp_all add: ring_holds_def)
  let ?new = "sent_entry (ps @ [(i, n, t)]) ?m"
  have ring: "cf_ring (cft_on_packet_sent i n t c) = (cf_ring c)[?m mod ?R := ?new]"
    by (simp add: cft_on_packet_sent_def Let_def slot cum sent_entry_def sent_samples_def)
  have other: "k mod ?R \<noteq> ?m mod ?R" if "k < ?m" "Suc ?m \<le> k + ?R" for k
    using mod_eq_window [of k ?m ?R] that by auto
  show ?thesis
    unfolding ring_holds_def ring
  proof (intro conjI allI impI)
    show "length ((cf_ring c)[?m mod ?R := ?new]) = ?R" by (simp add: len)
    show "cf_next_ring_slot (cft_on_packet_sent i n t c) = length (ps @ [(i, n, t)])"
      by (simp add: cft_on_packet_sent_def Let_def slot)
    show "cf_cumulative_sent (cft_on_packet_sent i n t c) = sent_samples (ps @ [(i, n, t)])"
      by (simp add: cft_on_packet_sent_def Let_def cum sent_samples_def)
  next
    fix k assume k: "k < length (ps @ [(i, n, t)])" "length (ps @ [(i, n, t)]) \<le> k + ?R"
    show "(cf_ring c)[?m mod ?R := ?new] ! (k mod ?R) = sent_entry (ps @ [(i, n, t)]) k"
    proof (cases "k = ?m")
      case True
      with len R show ?thesis by simp
    next
      case False
      with k have "k < ?m" "Suc ?m \<le> k + ?R" by simp_all
      with assms other [of k] show ?thesis by (simp add: ring_holds_def sent_entry_append)
    qed
  next
    fix s assume s: "s < ?R" "ce_valid ((cf_ring c)[?m mod ?R := ?new] ! s)"
    show "\<exists>k < length (ps @ [(i, n, t)]). length (ps @ [(i, n, t)]) \<le> k + ?R \<and> k mod ?R = s"
    proof (cases "s = ?m mod ?R")
      case True
      with R show ?thesis by (intro exI [of _ ?m]) simp
    next
      case False
      with s have "ce_valid (cf_ring c ! s)" by simp
      with assms s(1) obtain k where k: "k < ?m" "?m \<le> k + ?R" "k mod ?R = s"
        by (auto simp: ring_holds_def)
      have "?m \<noteq> k + ?R" using False k(3) by auto
      with k show ?thesis by (intro exI [of _ k]) simp
    qed
  qed
qed

lemma ring_holds_sent: "length (cf_ring c) = RING_CAPACITY \<Longrightarrow> ring_holds ps (sent_all ps (cft_reset c))"
proof (induction ps rule: rev_induct)
  case Nil
  then show ?case by (simp add: ring_holds_reset)
next
  case (snoc p ps)
  then show ?case by (cases p) (simp add: sent_all_snoc ring_holds_snoc)
qed

lemma find_unique:
  assumes "i < length xs" and "P (xs ! i)" and "\<And>j. j < length xs \<Longrightarrow> P (xs ! j) \<Longrightarrow> j = i"
  shows "find P xs = Some (xs ! i)"
  unfolding find_Some_iff using assms by (intro exI [of _ i]) (metis dual_order.strict_trans less_irrefl)

text \<open>The send-time ring answers for exactly the last 64 packets since the reset. If their ids
  differ, looking up the id of one of them gives its own send time and the total of samples sent
  through it, and an id not among them is not found (and so anchors to arrival time).\<close>

theorem find_entry_window:
  assumes "length (cf_ring c) = RING_CAPACITY"
    and "distinct (map fst (drop (length ps - RING_CAPACITY) ps))"
  shows "(\<forall>k < length ps. length ps \<le> k + RING_CAPACITY \<longrightarrow>
      cft_find_entry (fst (ps ! k)) (sent_all ps (cft_reset c)) = Some (sent_entry ps k)) \<and>
    (\<forall>i. i \<notin> fst ` set (drop (length ps - RING_CAPACITY) ps) \<longrightarrow>
      cft_find_entry i (sent_all ps (cft_reset c)) = None)"
proof -
  let ?s = "sent_all ps (cft_reset c)" and ?m = "length ps" and ?R = RING_CAPACITY
  have h: "ring_holds ps ?s" by (rule ring_holds_sent [OF assms(1)])
  then have len: "length (cf_ring ?s) = ?R" by (simp add: ring_holds_def)
  have R: "0 < ?R" by (simp add: RING_CAPACITY_def)
  have held: "cf_ring ?s ! (k mod ?R) = sent_entry ps k" if "k < ?m" "?m \<le> k + ?R" for k
    using h that by (simp add: ring_holds_def)
  have valid: "\<exists>k < ?m. ?m \<le> k + ?R \<and> k mod ?R = s" if "s < ?R" "ce_valid (cf_ring ?s ! s)" for s
    using h that by (simp add: ring_holds_def)
  have idk: "ce_packet_id (sent_entry ps k) = fst (ps ! k)" "ce_valid (sent_entry ps k)" for k
    by (simp_all add: sent_entry_def split: prod.splits)
  have inj: "k = l" if "k < ?m" "?m \<le> k + ?R" "l < ?m" "?m \<le> l + ?R" "fst (ps ! k) = fst (ps ! l)" for k l
  proof -
    let ?d = "?m - ?R"
    have "map fst (drop ?d ps) ! (k - ?d) = map fst (drop ?d ps) ! (l - ?d)"
      using that by (simp add: nth_drop)
    moreover have "k - ?d < length (map fst (drop ?d ps))" "l - ?d < length (map fst (drop ?d ps))"
      using that by simp_all
    ultimately have "k - ?d = l - ?d" using assms(2) by (metis distinct_conv_nth)
    with that show ?thesis by simp
  qed
  have "cft_find_entry (fst (ps ! k)) ?s = Some (sent_entry ps k)" if k: "k < ?m" "?m \<le> k + ?R" for k
  proof -
    have "find (\<lambda>e. ce_valid e \<and> ce_packet_id e = fst (ps ! k)) (cf_ring ?s) =
        Some (cf_ring ?s ! (k mod ?R))"
    proof (rule find_unique)
      show "k mod ?R < length (cf_ring ?s)" using R by (simp add: len)
      show "ce_valid (cf_ring ?s ! (k mod ?R)) \<and> ce_packet_id (cf_ring ?s ! (k mod ?R)) = fst (ps ! k)"
        by (simp add: held k idk)
      fix j assume j: "j < length (cf_ring ?s)"
        "ce_valid (cf_ring ?s ! j) \<and> ce_packet_id (cf_ring ?s ! j) = fst (ps ! k)"
      then obtain l where l: "l < ?m" "?m \<le> l + ?R" "l mod ?R = j" using valid len by metis
      with j held idk have "fst (ps ! l) = fst (ps ! k)" by metis
      with inj k l show "j = k mod ?R" by metis
    qed
    then show ?thesis by (simp add: cft_find_entry_def held k)
  qed
  moreover have "cft_find_entry i ?s = None"
    if i: "i \<notin> fst ` set (drop (?m - ?R) ps)" for i
  proof -
    have "\<not> (ce_valid e \<and> ce_packet_id e = i)" if mem: "e \<in> set (cf_ring ?s)" for e
    proof
      assume e: "ce_valid e \<and> ce_packet_id e = i"
      obtain j where j: "j < ?R" "e = cf_ring ?s ! j" using mem len by (metis in_set_conv_nth)
      have "ce_valid (cf_ring ?s ! j)" using e j by simp
      from valid [OF j(1) this] obtain l where l: "l < ?m" "?m \<le> l + ?R" "l mod ?R = j" by blast
      have "drop (?m - ?R) ps ! (l - (?m - ?R)) = ps ! l" "l - (?m - ?R) < length (drop (?m - ?R) ps)"
        using l by simp_all
      then have "ps ! l \<in> set (drop (?m - ?R) ps)" by (metis nth_mem)
      then have "fst (ps ! l) \<in> fst ` set (drop (?m - ?R) ps)" by (rule imageI)
      moreover have "fst (ps ! l) = i" using e j(2) held [OF l(1,2)] idk(1) [of l] l(3) by simp
      ultimately show False using i by simp
    qed
    then show ?thesis by (auto simp: cft_find_entry_def find_None_iff)
  qed
  ultimately show ?thesis by blast
qed

theorem find_entry_window_witness:
  "cft_find_entry 8 (sent_all [(7, 255, 100), (8, 255, 200)] (cft_reset (cft_new cft_default_config)))
     = Some \<lparr>ce_packet_id = 8, ce_ts = 200, ce_cumulative_after = 510, ce_valid = True\<rparr>"
proof -
  let ?ps = "[(7, 255, 100), (8, 255, 200)] :: (u16 \<times> u16 \<times> host_time) list"
  have "length (cf_ring (cft_new cft_default_config)) = RING_CAPACITY" by (simp add: cft_new_def)
  moreover have "distinct (map fst (drop (length ?ps - RING_CAPACITY) ?ps))"
    by (simp add: RING_CAPACITY_def)
  ultimately have "cft_find_entry (fst (?ps ! 1)) (sent_all ?ps (cft_reset (cft_new cft_default_config)))
      = Some (sent_entry ?ps 1)"
    by (rule find_entry_window [THEN conjunct1, rule_format]) (simp_all add: RING_CAPACITY_def)
  then show ?thesis by (simp add: sent_entry_def sent_samples_def)
qed

section \<open>The contract, and two behaviours of the state machine\<close>

text \<open>C26: The extrapolated fill is always between zero and the modem's buffer capacity, whatever
  statuses, sends, polls and resets happened, and right after a reset it is the target fill.\<close>

theorem clock_fill_in_capacity:
  assumes "0 \<le> cc_target_fill_frac cfg" and "cc_target_fill_frac cfg \<le> 1"
  shows "let c = fold clock.tracker_step cs (cft_new cfg) in
    unat (cft_estimated_fill t c) \<le> unat (cc_buffer_capacity cfg) \<and>
    cft_extrapolated_fill t (cft_reset c) = int (cf_target_fill_samples (cft_new cfg))"
proof -
  have ok: "cft_ok (cft_new cfg)" using assms by (rule cft_ok_new)
  have "cf_target_fill_samples (clock.tracker_step x c) = cf_target_fill_samples c" for x c
    by (cases x) (simp_all add: cft_on_status_def cft_anchor_def cft_on_packet_sent_def
        cft_should_send_def cft_reset_def Let_def split: option.splits)
  then have "cf_target_fill_samples (fold clock.tracker_step cs c) = cf_target_fill_samples c" for c
    by (induction cs arbitrary: c) simp_all
  moreover have "cf_target_fill_samples (cft_reset c) = cf_target_fill_samples c" for c
    by (simp add: cft_reset_def)
  moreover have "cft_extrapolated_fill t (cft_reset c) = int (cf_target_fill_samples c)" for c
    by (simp add: cft_extrapolated_fill_def cft_reset_def)
  moreover have "unat (cft_estimated_fill t (fold clock.tracker_step cs (cft_new cfg))) \<le>
      unat (cc_buffer_capacity (cf_cfg (cft_new cfg)))"
    by (rule clock.tracker_run_fill [OF ok])
  ultimately show ?thesis by (simp add: Let_def) (simp add: cft_new_def)
qed

theorem clock_fill_in_capacity_witness:
  "let c = fold clock.tracker_step [Sent 0 255 0, Ask 700] (cft_new cft_default_config) in
    unat (cft_estimated_fill 1000 c) \<le> 16384"
  using clock_fill_in_capacity [of cft_default_config "[Sent 0 255 0, Ask 700]" 1000]
  by (simp add: Let_def) (simp add: cft_default_config_def)

text \<open>A run of the second behaviour: one packet, a status naming an unknown packet, another packet,
  and a status naming that one.\<close>

definition half_alpha_config :: cft_config where
  "half_alpha_config = cft_default_config\<lparr>cc_rate_ewma_alpha := 1/2\<rparr>"

definition status_with :: "u16 \<Rightarrow> u16 \<Rightarrow> u16 \<Rightarrow> status_payload" where
  "status_with fill expected ref = zero_status\<lparr>sp_type := 1, sp_modem_state := 1,
     sp_buffer_fill := fill, sp_rx_expected_id := expected, sp_fill_reference_id := ref\<rparr>"

definition after_fallback :: cft where
  "after_fallback = fold clock.tracker_step
     [Sent 0 255 0, Status (status_with 8000 0 9) 1000000000, Sent 1 255 2000000000]
     (cft_new half_alpha_config)"

lemma find_update_None:
  assumes "find P xs = None" and "\<not> P x"
  shows "find P (xs[i := x]) = None"
  using assms set_update_subset_insert [of xs i x] by (auto simp: find_None_iff)

lemma find_update_Some:
  assumes "find P xs = None" and "P x" and "i < length xs"
  shows "find P (xs[i := x]) = Some x"
proof -
  have "find P (xs[i := x]) = Some (xs[i := x] ! i)"
    by (rule find_unique) (use assms in \<open>auto simp: find_None_iff nth_list_update in_set_conv_nth
      split: if_splits\<close>)
  with assms(3) show ?thesis by simp
qed

lemma find_fresh_ring: "find (\<lambda>e. ce_valid e \<and> ce_packet_id e = i) (cf_ring (cft_new cfg)) = None"
  by (auto simp: cft_new_def find_None_iff empty_entry_def)

lemma after_first_sent:
  "cft_find_entry 9 (cft_on_packet_sent 0 255 0 (cft_new cfg)) = None"
  "cft_find_entry 1 (cft_on_packet_sent 0 255 0 (cft_new cfg)) = None"
  by (simp_all add: cft_find_entry_def cft_on_packet_sent_def Let_def find_update_None find_fresh_ring)

text \<open>The state after the run, as far as the next status looks at it.\<close>

lemma after_fallback_facts:
  "cf_last_anchor_was_fallback after_fallback" "cf_has_anchor after_fallback"
  "cf_prev_rx_expected_id_valid after_fallback" "cf_prev_rx_expected_id after_fallback = 0"
  "cf_anchor_fill after_fallback = 8000" "cf_anchor_time after_fallback = 1000000000"
  "cf_modem_rate after_fallback = 500000" "cf_cfg after_fallback = half_alpha_config"
  "\<not> cf_skip_next_rate_inference after_fallback"
  by (simp_all add: after_fallback_def cft_on_status_def cft_anchor_def after_first_sent status_with_def
      cft_observed_rate_def Let_def)
    (simp_all add: cft_on_packet_sent_def cft_new_def half_alpha_config_def cft_default_config_def Let_def)

lemma after_fallback_finds:
  "cft_find_entry 1 after_fallback =
     Some \<lparr>ce_packet_id = 1, ce_ts = 2000000000, ce_cumulative_after = 510, ce_valid = True\<rparr>"
proof -
  let ?c = "cft_on_status (status_with 8000 0 9) 1000000000
    (cft_on_packet_sent 0 255 0 (cft_new half_alpha_config))"
  have r: "cf_ring ?c = cf_ring (cft_on_packet_sent 0 255 0 (cft_new half_alpha_config))"
    "cf_cumulative_sent ?c = 255" "cf_next_ring_slot ?c = 1"
    by (simp_all add: cft_on_status_def cft_anchor_def Let_def split: option.splits)
      (simp_all add: cft_on_packet_sent_def cft_new_def Let_def)
  have n: "find (\<lambda>e. ce_valid e \<and> ce_packet_id e = 1) (cf_ring ?c) = None"
    using after_first_sent(2) unfolding r cft_find_entry_def .
  have l: "Suc 0 < length (cf_ring ?c)"
    unfolding r by (simp add: cft_on_packet_sent_def cft_new_def RING_CAPACITY_def Let_def)
  show ?thesis
    unfolding after_fallback_def
    by (simp add: cft_find_entry_def) (simp add: cft_on_packet_sent_def [of 1] r(2,3) Let_def
        RING_CAPACITY_def find_update_Some [OF n _ l])
qed

text \<open>The flag that should suppress the rate inference after a fallback never reaches the next status:
  between calls it is set exactly when there is no anchor, when no inference is possible anyway. A
  fallback suppresses only its own inference; the status after it does infer a rate across the two
  epochs, as the run \<open>after_fallback\<close> shows, where the comment in \<open>on_status\<close> says that the
  following inference is skipped.\<close>

theorem skip_flag_is_dead:
  assumes "0 \<le> cc_target_fill_frac cfg" and "cc_target_fill_frac cfg \<le> 1"
  shows "(let c = fold clock.tracker_step cs (cft_new cfg) in
      cf_skip_next_rate_inference c = (\<not> cf_has_anchor c)) \<and>
    cf_last_anchor_was_fallback after_fallback \<and> cf_modem_rate after_fallback = 500000 \<and>
    cf_modem_rate (cft_on_status (status_with 8000 2000 1) t after_fallback) = 505000"
proof -
  have ok: "cft_ok (fold clock.tracker_step cs (cft_new cfg))"
    using clock.tracker_run [OF cft_ok_new [OF assms]] by blast
  have b9: "f64 1000000000 = 1000000000" using f64_of_int [of 1000000000] by simp
  have b5: "f64 (of_int m) = of_int m" if "\<bar>m\<bar> \<le> 2 ^ 24" for m by (rule f64_of_int) (use that in simp)
  have c: "f64 510000 = 510000" "f64 250000 = 250000" "f64 1000000 = 1000000" "f64 505000 = 505000"
    "f64 255000 = 255000"
    using b5 [of 510000] b5 [of 250000] b5 [of 1000000] b5 [of 505000] b5 [of 255000] by simp_all
  have h: "f64 (1/2) = 1/2" using f64_dyadic [of 1 "- 1"] by (simp add: power_int_minus)
  have "cft_observed_rate (status_with 8000 2000 1) after_fallback
      (cft_anchor (status_with 8000 2000 1) t after_fallback) = Some 510000"
    by (simp add: cft_observed_rate_def cft_anchor_def after_fallback_facts after_fallback_finds
        status_with_def half_alpha_config_def cft_default_config_def seconds_f64_def b9 c Let_def)
  then have "cf_modem_rate (cft_on_status (status_with 8000 2000 1) t after_fallback) = 505000"
    by (simp add: cft_on_status_def Let_def after_fallback_facts half_alpha_config_def c h)
  with ok show ?thesis by (simp add: Let_def cft_ok_def after_fallback_facts)
qed

theorem skip_flag_is_dead_witness:
  "cf_skip_next_rate_inference (fold clock.tracker_step [Sent 0 255 0] (cft_new cft_default_config)) =
     (\<not> cf_has_anchor (fold clock.tracker_step [Sent 0 255 0] (cft_new cft_default_config)))"
  using skip_flag_is_dead [of cft_default_config "[Sent 0 255 0]" 0]
  by (simp add: cft_default_config_def Let_def)

text \<open>C35: Above the high threshold the tracker stops sending except for one keepalive packet per 50
  ms, and it resumes only when the effective fill is below target: on an armed schedule a "send"
  answer means the keepalive interval has passed (while holding) or the scheduled time has come (while
  not), the hold state follows the hysteresis, and the next scheduled send lies at most one period
  ahead.\<close>

theorem hold_and_keepalive:
  assumes "cf_schedule_initialized c" and "0 < cft_period now c"
  shows "let r = cft_should_send now c; c' = fst r; e = cft_effective_fill now c in
    cf_holding c' = (if cf_holding c then int (cf_target_fill_samples c) \<le> e
       else int (cf_target_fill_samples c + cf_hyst_high_samples c) < e) \<and>
    (snd r \<longleftrightarrow> (if cf_holding c' then cf_last_send_time c + KEEPALIVE_INTERVAL \<le> now
       else cf_next_send_time c \<le> now)) \<and>
    (snd r \<longrightarrow> cf_last_send_time c' = now) \<and>
    (snd r \<and> \<not> cf_holding c' \<longrightarrow> now - 3 * cft_period now c \<le> cf_next_send_time c' \<and>
       cf_next_send_time c' \<le> now + cft_period now c)"
proof -
  have p: "cft_period now (c\<lparr>cf_holding := b\<rparr>) = cft_period now c" for b
    by (simp add: cft_period_def cft_extrapolated_fill_def Let_def)
  have "cft_holding' now c = (if cf_holding c then int (cf_target_fill_samples c) \<le> cft_effective_fill now c
       else int (cf_target_fill_samples c + cf_hyst_high_samples c) < cft_effective_fill now c)"
    by (auto simp: cft_holding'_def Let_def)
  moreover have "cf_next_send_time c \<le> now \<Longrightarrow>
      now - 3 * cft_period now c \<le> advance_schedule now (cft_period now c) (cf_next_send_time c) \<and>
      advance_schedule now (cft_period now c) (cf_next_send_time c) \<le> now + cft_period now c"
    using assms(2) by (simp add: advance_schedule_backlog advance_schedule_le)
  ultimately show ?thesis
    using assms(1) by (auto simp: cft_should_send_def Let_def p)
qed

definition armed_example :: cft where
  "armed_example = (cft_new cft_default_config)\<lparr>cf_schedule_initialized := True,
     cf_nominal_rate := 1, cf_holding := True, cf_has_anchor := True, cf_anchor_fill := 16000,
     cf_target_fill_samples := 8192\<rparr>"

lemma f64_half: "f64 (1/2) = 1/2"
  using f64_dyadic [of 1 "- 1"] by (simp add: power_int_minus inverse_eq_divide)

lemma armed_example_fill: "cft_extrapolated_fill 0 armed_example = 16000"
  by (simp add: armed_example_def cft_new_def cft_extrapolated_fill_def seconds_f64_def
      cft_default_config_def ctrunc_def f64_half Let_def)

theorem hold_and_keepalive_witness:
  "\<not> snd (cft_should_send 0 armed_example) \<and> cf_holding (fst (cft_should_send 0 armed_example))"
proof -
  have "f64 1000000000 = 1000000000" using f64_of_int [of 1000000000] by simp
  then have p: "cft_period 0 armed_example = 1000000000"
    by (simp add: cft_period_def armed_example_fill)
      (simp add: armed_example_def ns_of_seconds_def ctrunc_def)
  have e: "cft_effective_fill 0 armed_example = 16000"
    by (simp add: cft_effective_fill_def armed_example_fill Let_def) (simp add: armed_example_def)
  have "cf_schedule_initialized armed_example" "cf_holding armed_example"
    "cf_target_fill_samples armed_example = 8192" "cf_last_send_time armed_example = 0"
    by (simp_all add: armed_example_def cft_new_def)
  then show ?thesis
    using hold_and_keepalive [of armed_example 0] by (simp add: p e Let_def KEEPALIVE_INTERVAL_def)
qed

end
