(* ===== verification/Pair_Buffer.thy ===== *)
theory Pair_Buffer
  imports Floats
begin

text \<open>
  \<open>src/channel/pair_buffer.cpp\<close>: the additive sample buffer between one source and one
  receiver, in absolute receiver time. Physically a power-of-two ring; conceptually an infinite
  timeline of sums. Positions are unbounded naturals (the code's 64-bit counters of samples do not
  wrap in practice). The producer's view of the read head may be stale, so \<open>scatter_add\<close> takes
  the position it observes as an argument.
\<close>

section \<open>The code\<close>

record pair_buffer =
  pb_buffer :: "real list"
  pb_capacity :: nat
  pb_mask :: nat
  pb_base_delay_samples :: nat
  pb_read_pos :: nat
  pb_write_watermark :: nat
  pb_write_origin :: nat
  pb_first_message :: bool
  pb_overflow_drops :: nat

definition round_up_pow2 :: "nat \<Rightarrow> nat" where
  "round_up_pow2 n = (if n = 0 then 1 else pow2_loop 1 n)"

definition pair_buffer_new :: "nat \<Rightarrow> nat \<Rightarrow> error + pair_buffer" where
  "pair_buffer_new capacity base_delay =
     (let cap = round_up_pow2 capacity
      in if cap \<le> base_delay
         then Inl (Invalid_Argument ''PairBuffer: capacity must exceed base_delay_samples'')
         else Inr \<lparr>pb_buffer = replicate cap 0, pb_capacity = cap, pb_mask = cap - 1,
           pb_base_delay_samples = base_delay, pb_read_pos = 0, pb_write_watermark = 0,
           pb_write_origin = 0, pb_first_message = True, pb_overflow_drops = 0\<rparr>)"

definition begin_message :: "nat \<Rightarrow> bool \<Rightarrow> pair_buffer \<Rightarrow> pair_buffer" where
  "begin_message gap absolute_first_origin b =
     (if pb_first_message b \<and> \<not> absolute_first_origin
      then b\<lparr>pb_write_origin := pb_base_delay_samples b, pb_first_message := False\<rparr>
      else b\<lparr>pb_write_origin := pb_write_watermark b + gap, pb_first_message := False\<rparr>)"

definition scatter_add :: "nat \<Rightarrow> nat \<Rightarrow> real list \<Rightarrow> pair_buffer \<Rightarrow> pair_buffer" where
  "scatter_add seen_read_pos offset samples b =
     (if samples = [] then b
      else let abs_start = pb_write_origin b + offset;
               abs_end = abs_start + length samples;
               max_writable_end = seen_read_pos + pb_capacity b
           in if max_writable_end \<le> abs_start
              then b\<lparr>pb_overflow_drops := pb_overflow_drops b + length samples\<rparr>
              else let dropped = (if max_writable_end < abs_end then abs_end - max_writable_end else 0);
                       to_write = (if max_writable_end < abs_end then max_writable_end - abs_start
                                   else length samples)
                   in b\<lparr>pb_overflow_drops := pb_overflow_drops b + dropped,
                        pb_buffer := ring_upd (\<lambda>i. i AND pb_mask b) (\<lambda>x s. fadd s x) abs_start
                          (take to_write samples) (pb_buffer b)\<rparr>)"

definition commit_source_progress :: "nat \<Rightarrow> pair_buffer \<Rightarrow> pair_buffer" where
  "commit_source_progress processed b =
     (let new_watermark = pb_write_origin b + processed
      in if pb_write_watermark b < new_watermark
         then b\<lparr>pb_write_watermark := new_watermark\<rparr> else b)"

definition commit_extra :: "nat \<Rightarrow> pair_buffer \<Rightarrow> pair_buffer" where
  "commit_extra extra b =
     (if extra = 0 then b else b\<lparr>pb_write_watermark := pb_write_watermark b + extra\<rparr>)"

text \<open>The read loop: take a slot, zero it, go on.\<close>

fun read_slots :: "(nat \<Rightarrow> nat) \<Rightarrow> nat \<Rightarrow> nat \<Rightarrow> real list \<Rightarrow> real list \<times> real list" where
  "read_slots ix pos 0 buf = (buf, [])"
| "read_slots ix pos (Suc n) buf =
     (let r = read_slots ix (Suc pos) n (buf[ix pos := 0]) in (fst r, buf ! ix pos # snd r))"

definition available_read :: "pair_buffer \<Rightarrow> nat" where
  "available_read b = (let rp = pb_read_pos b; wm = pb_write_watermark b
     in if rp < wm then wm - rp else 0)"

definition read_advance :: "nat \<Rightarrow> pair_buffer \<Rightarrow> pair_buffer \<times> real list" where
  "read_advance count b =
     (let available = (if pb_read_pos b < pb_write_watermark b
            then pb_write_watermark b - pb_read_pos b else 0);
          to_read = cmin count available;
          r = read_slots (\<lambda>i. i AND pb_mask b) (pb_read_pos b) to_read (pb_buffer b);
          b' = b\<lparr>pb_buffer := fst r\<rparr>
      in (if 0 < to_read then b'\<lparr>pb_read_pos := pb_read_pos b + to_read\<rparr> else b', snd r))"

section \<open>The timeline contract\<close>

text \<open>
  What a consumer may rely on: \<open>tl b p\<close> is the sum standing at receiver position \<open>p\<close>.
  A scatter adds each of its samples once, at its position, unless it lies beyond the writable
  window; the other producer calls leave the timeline alone; a read returns the timeline from the
  read head on and moves the head.
\<close>

datatype tl_op = Begin nat bool | Scatter nat nat "real list" | Commit nat | Extra nat | Read nat

locale timeline_buffer =
  fixes step :: "tl_op \<Rightarrow> 'b \<Rightarrow> 'b \<times> real list"
    and tl :: "'b \<Rightarrow> nat \<Rightarrow> real"
    and rp wm org cap drops :: "'b \<Rightarrow> nat"
    and good :: "'b \<Rightarrow> bool"
  assumes good_step: "good b \<Longrightarrow> good (fst (step c b)) \<and> cap (fst (step c b)) = cap b"
    and rp_le_wm: "good b \<Longrightarrow> rp b \<le> wm b"
    and wm_mono: "good b \<Longrightarrow> wm b \<le> wm (fst (step c b))"
    and scatter_tl: "good b \<Longrightarrow> seen \<le> rp b \<Longrightarrow> rp b \<le> org b + off \<Longrightarrow> rp b \<le> p \<Longrightarrow>
      tl (fst (step (Scatter seen off xs) b)) p =
        (if org b + off \<le> p \<and> p < org b + off + length xs \<and> p < seen + cap b
         then fadd (tl b p) (xs ! (p - (org b + off))) else tl b p)"
    and scatter_drops: "good b \<Longrightarrow> drops (fst (step (Scatter seen off xs) b)) =
      drops b + length (filter (\<lambda>p. \<not> p < seen + cap b) [org b + off..<org b + off + length xs])"
    and quiet: "good b \<Longrightarrow> (\<forall>n. c \<noteq> Read n) \<Longrightarrow>
      snd (step c b) = [] \<and> rp (fst (step c b)) = rp b"
    and quiet_tl: "good b \<Longrightarrow> (\<forall>n. c \<noteq> Read n) \<Longrightarrow> (\<forall>s off xs. c \<noteq> Scatter s off xs) \<Longrightarrow>
      tl (fst (step c b)) = tl b \<and> drops (fst (step c b)) = drops b"
    and read_out: "good b \<Longrightarrow> snd (step (Read n) b) = map (tl b) [rp b..<rp b + min n (wm b - rp b)]"
    and read_rp: "good b \<Longrightarrow> rp (fst (step (Read n) b)) = rp b + min n (wm b - rp b)"
    and read_tl: "good b \<Longrightarrow> rp (fst (step (Read n) b)) \<le> p \<Longrightarrow> tl (fst (step (Read n) b)) p = tl b p"
    and read_drops: "good b \<Longrightarrow> drops (fst (step (Read n) b)) = drops b"
begin

text \<open>The additions a call makes, and the ghost log of a run: what the consumer got so far, and all
  additions in order.\<close>

definition added :: "tl_op \<Rightarrow> 'b \<Rightarrow> (nat \<times> real) list" where
  "added c b = (case c of Scatter seen off xs \<Rightarrow>
     filter (\<lambda>(p, x). p < seen + cap b) (zip [org b + off..<org b + off + length xs] xs) | _ \<Rightarrow> [])"

definition sum_at :: "(nat \<times> real) list \<Rightarrow> nat \<Rightarrow> real" where
  "sum_at adds p = foldl (\<lambda>s x. fadd s x) 0 (map snd (filter (\<lambda>a. fst a = p) adds))"

text \<open>Scatters do not reach below the watermark, and see a read head that is at most stale.\<close>

definition call_ok :: "tl_op \<Rightarrow> 'b \<Rightarrow> bool" where
  "call_ok c b = (case c of Scatter seen off xs \<Rightarrow> seen \<le> rp b \<and> wm b \<le> org b + off | _ \<Rightarrow> True)"

fun run :: "tl_op list \<Rightarrow> 'b \<times> real list \<times> (nat \<times> real) list \<Rightarrow> 'b \<times> real list \<times> (nat \<times> real) list" where
  "run [] s = s"
| "run (c # cs) (b, out, adds) =
     run cs (fst (step c b), out @ snd (step c b), adds @ added c b)"

fun calls_ok :: "tl_op list \<Rightarrow> 'b \<Rightarrow> bool" where
  "calls_ok [] b = True"
| "calls_ok (c # cs) b = (call_ok c b \<and> calls_ok cs (fst (step c b)))"

definition in_step :: "'b \<Rightarrow> real list \<Rightarrow> (nat \<times> real) list \<Rightarrow> bool" where
  "in_step b out adds \<longleftrightarrow> good b \<and> length out = rp b \<and>
     (\<forall>p < length out. out ! p = sum_at adds p) \<and> (\<forall>p \<ge> rp b. tl b p = sum_at adds p)"

lemma sum_at_append: "sum_at (adds @ new) p =
    foldl (\<lambda>s x. fadd s x) (sum_at adds p) (map snd (filter (\<lambda>a. fst a = p) new))"
  by (simp add: sum_at_def)

lemma filter_zip_upt:
  "filter (\<lambda>a. fst a = p) (zip [s..<s + length xs] xs) =
     (if s \<le> p \<and> p < s + length xs then [(p, xs ! (p - s))] else [])"
proof (induction xs arbitrary: s)
  case Nil
  then show ?case by simp
next
  case (Cons x xs)
  have e: "[s..<s + length (x # xs)] = s # [Suc s..<Suc s + length xs]"
    by (simp add: upt_conv_Cons del: upt_Suc)
  have IH: "filter (\<lambda>a. fst a = p) (zip [Suc s..<Suc (s + length xs)] xs) =
      (if Suc s \<le> p \<and> p < Suc s + length xs then [(p, xs ! (p - Suc s))] else [])"
    using Cons.IH [of "Suc s"] by (simp del: upt_Suc)
  show ?case
    unfolding e using IH by (cases "s < p"; cases "s = p") (simp_all add: nth_Cons' del: upt_Suc)
qed

lemma added_at: "filter (\<lambda>a. fst a = p) (added (Scatter seen off xs) b) =
    (if org b + off \<le> p \<and> p < org b + off + length xs \<and> p < seen + cap b
     then [(p, xs ! (p - (org b + off)))] else [])"
proof -
  have "filter (\<lambda>a. fst a = p) (filter (\<lambda>(q, x). q < seen + cap b) zs) =
      (if p < seen + cap b then filter (\<lambda>a. fst a = p) zs else [])" for zs :: "(nat \<times> real) list"
    by (induction zs) auto
  then show ?thesis by (simp add: added_def filter_zip_upt)
qed

lemma in_step_scatter:
  assumes s: "in_step b out adds" and ok: "call_ok (Scatter seen off xs) b"
  shows "in_step (fst (step (Scatter seen off xs) b)) (out @ snd (step (Scatter seen off xs) b))
    (adds @ added (Scatter seen off xs) b)"
proof -
  let ?c = "Scatter seen off xs"
  have g: "good b" and len: "length out = rp b" using s by (simp_all add: in_step_def)
  have q: "snd (step ?c b) = []" "rp (fst (step ?c b)) = rp b" using quiet [OF g, of ?c] by simp_all
  have low: "seen \<le> rp b" "rp b \<le> org b + off" using ok rp_le_wm [OF g] by (simp_all add: call_ok_def)
  have "sum_at (adds @ added ?c b) p = out ! p" if "p < length out" for p
    using s that low len by (simp add: sum_at_append added_at in_step_def)
  moreover have "tl (fst (step ?c b)) p = sum_at (adds @ added ?c b) p" if "rp b \<le> p" for p
    using s that by (simp add: sum_at_append added_at scatter_tl [OF g low that] in_step_def)
  ultimately show ?thesis using good_step [OF g] q len by (simp add: in_step_def)
qed

lemma in_step_read:
  assumes s: "in_step b out adds"
  shows "in_step (fst (step (Read n) b)) (out @ snd (step (Read n) b)) (adds @ added (Read n) b)"
proof -
  have g: "good b" and len: "length out = rp b" using s by (simp_all add: in_step_def)
  let ?k = "min n (wm b - rp b)"
  have "(out @ map (tl b) [rp b..<rp b + ?k]) ! p = sum_at adds p" if "p < rp b + ?k" for p
  proof (cases "p < rp b")
    case True
    with s len show ?thesis by (simp add: in_step_def nth_append)
  next
    case False
    with that have "p - rp b < ?k" "rp b + (p - rp b) = p" by linarith+
    with False s len show ?thesis by (simp add: in_step_def nth_append del: min_less_iff_conj)
  qed
  moreover have "tl (fst (step (Read n) b)) p = sum_at adds p" if "rp b + ?k \<le> p" for p
    using s that read_tl [OF g, of n p] by (simp add: in_step_def read_rp [OF g])
  ultimately show ?thesis
    using good_step [OF g] len by (simp add: in_step_def read_out [OF g] read_rp [OF g] added_def)
qed

lemma in_step_quiet:
  assumes s: "in_step b out adds" and c: "\<forall>n. c \<noteq> Read n" "\<forall>s off xs. c \<noteq> Scatter s off xs"
  shows "in_step (fst (step c b)) (out @ snd (step c b)) (adds @ added c b)"
proof -
  have g: "good b" using s by (simp add: in_step_def)
  have "added c b = []" using c by (cases c) (simp_all add: added_def)
  then show ?thesis using s quiet [OF g c(1)] quiet_tl [OF g c] good_step [OF g] by (simp add: in_step_def)
qed

lemma in_step_step:
  assumes "in_step b out adds" and "call_ok c b"
  shows "in_step (fst (step c b)) (out @ snd (step c b)) (adds @ added c b)"
proof (cases c)
  case (Scatter s off xs)
  with assms in_step_scatter show ?thesis by blast
next
  case (Read n)
  with assms in_step_read show ?thesis by blast
qed (rule in_step_quiet [OF assms(1)]; simp)+

lemma run_sums:
  assumes "in_step b out adds" and "calls_ok cs b" and "run cs (b, out, adds) = (b', out', adds')"
  shows "in_step b' out' adds'"
  using assms
proof (induction cs arbitrary: b out adds)
  case Nil
  then show ?case by simp
next
  case (Cons c cs)
  from Cons.prems(1,2) have "in_step (fst (step c b)) (out @ snd (step c b)) (adds @ added c b)"
    by (intro in_step_step) simp_all
  with Cons show ?case by simp
qed

end

section \<open>The ring refines the timeline\<close>

definition pb_ok :: "pair_buffer \<Rightarrow> bool" where
  "pb_ok b \<longleftrightarrow> (\<exists>k. pb_capacity b = 2 ^ k) \<and> pb_mask b = pb_capacity b - 1 \<and>
     length (pb_buffer b) = pb_capacity b \<and> pb_read_pos b \<le> pb_write_watermark b"

text \<open>The window of an array over a ring of \<open>cap\<close> slots, from position \<open>rp\<close>.\<close>

definition window :: "nat \<Rightarrow> nat \<Rightarrow> real list \<Rightarrow> nat \<Rightarrow> real" where
  "window cap rp buf p = (if rp \<le> p \<and> p < rp + cap then buf ! (p mod cap) else 0)"

definition pb_timeline :: "pair_buffer \<Rightarrow> nat \<Rightarrow> real" where
  "pb_timeline b = window (pb_capacity b) (pb_read_pos b) (pb_buffer b)"

lemma pb_slot: "pb_ok b \<Longrightarrow> i AND pb_mask b = i mod pb_capacity b"
  using and_mask_mod by (simp add: pb_ok_def)

lemma pb_cap_pos: "pb_ok b \<Longrightarrow> 0 < pb_capacity b"
  by (auto simp: pb_ok_def)

lemma pair_buffer_new_facts:
  assumes "pair_buffer_new capacity base = Inr b"
  shows "pb_ok b \<and> capacity \<le> pb_capacity b \<and> base < pb_capacity b \<and> pb_timeline b = (\<lambda>p. 0) \<and>
    pb_read_pos b = 0 \<and> pb_overflow_drops b = 0"
proof -
  have "(\<exists>k. round_up_pow2 capacity = 2 ^ k) \<and> capacity \<le> round_up_pow2 capacity"
    using pow2_loop_1 [of capacity] by (auto simp: round_up_pow2_def intro: exI [of _ 0])
  moreover have "p mod c < c" if "0 < c" for p c :: nat using that by simp
  ultimately show ?thesis
    using assms by (auto simp: pair_buffer_new_def Let_def pb_ok_def pb_timeline_def window_def fun_eq_iff
        split: if_splits)
qed

lemma window_zeroed:
  assumes "length buf = cap" and "0 < cap" and "Suc pos \<le> q"
  shows "window cap (Suc pos) (buf[pos mod cap := 0]) q = window cap pos buf q"
proof (cases "q < pos + cap")
  case True
  with assms have "q mod cap \<noteq> pos mod cap" using mod_eq_window [of pos q cap] by auto
  with True assms show ?thesis by (simp add: window_def)
next
  case False
  with assms show ?thesis by (auto simp: window_def less_Suc_eq)
qed

lemma read_slots_window:
  assumes "length buf = cap" and "0 < cap"
  shows "length (fst (read_slots (\<lambda>i. i mod cap) pos n buf)) = cap \<and>
    snd (read_slots (\<lambda>i. i mod cap) pos n buf) = map (window cap pos buf) [pos..<pos + n] \<and>
    (\<forall>q \<ge> pos + n. window cap (pos + n) (fst (read_slots (\<lambda>i. i mod cap) pos n buf)) q =
       window cap pos buf q)"
  using assms
proof (induction n arbitrary: pos buf)
  case 0
  then show ?case by simp
next
  case (Suc n)
  let ?b = "buf[pos mod cap := 0]"
  have IH: "length (fst (read_slots (\<lambda>i. i mod cap) (Suc pos) n ?b)) = cap \<and>
    snd (read_slots (\<lambda>i. i mod cap) (Suc pos) n ?b) = map (window cap (Suc pos) ?b) [Suc pos..<Suc pos + n] \<and>
    (\<forall>q \<ge> Suc pos + n. window cap (Suc pos + n) (fst (read_slots (\<lambda>i. i mod cap) (Suc pos) n ?b)) q =
       window cap (Suc pos) ?b q)" by (rule Suc.IH) (use Suc.prems in simp_all)
  have z: "Suc pos \<le> q \<Longrightarrow> window cap (Suc pos) ?b q = window cap pos buf q" for q
    by (rule window_zeroed) (use Suc.prems in simp_all)
  have "map (window cap (Suc pos) ?b) [Suc pos..<Suc pos + n] = map (window cap pos buf) [Suc pos..<Suc pos + n]"
    by (rule map_cong [OF refl]) (simp add: z del: upt_Suc)
  moreover have "[pos..<pos + Suc n] = pos # [Suc pos..<Suc pos + n]" by (simp add: upt_conv_Cons del: upt_Suc)
  moreover have "window cap pos buf pos = buf ! (pos mod cap)" using Suc.prems by (simp add: window_def)
  ultimately show ?case using IH z by (simp add: Let_def del: upt_Suc)
qed

lemma window_added:
  assumes "length buf = cap" and "0 < cap" and "rp \<le> s" and "s + length xs \<le> rp + cap" and "rp \<le> q"
  shows "window cap rp (ring_upd (\<lambda>i. i mod cap) (\<lambda>x v. fadd v x) s xs buf) q =
    (if s \<le> q \<and> q < s + length xs then fadd (window cap rp buf q) (xs ! (q - s)) else window cap rp buf q)"
proof (cases "q < rp + cap")
  case False
  with assms show ?thesis by (simp add: window_def)
next
  case True
  have xs: "length xs \<le> cap" using assms by simp
  show ?thesis
  proof (cases "s \<le> q")
    case le: True
    have "q < s + cap" using True assms by simp
    from ring_upd_nth [OF assms(1,2) xs le this, of "\<lambda>x v. fadd v x"] le True assms show ?thesis
      by (simp add: window_def)
  next
    case False
    then have lo: "s \<le> q + cap" and hi: "q + cap < s + cap" using assms by simp_all
    from ring_upd_nth [OF assms(1,2) xs lo hi, of "\<lambda>x v. fadd v x"] False True assms show ?thesis
      by (simp add: window_def)
  qed
qed

fun pb_step :: "tl_op \<Rightarrow> pair_buffer \<Rightarrow> pair_buffer \<times> real list" where
  "pb_step (Begin gap absolute) b = (begin_message gap absolute b, [])"
| "pb_step (Scatter seen off xs) b = (scatter_add seen off xs b, [])"
| "pb_step (Commit n) b = (commit_source_progress n b, [])"
| "pb_step (Extra n) b = (commit_extra n b, [])"
| "pb_step (Read n) b = read_advance n b"

lemma scatter_fields:
  "pb_capacity (scatter_add seen off xs b) = pb_capacity b"
  "pb_mask (scatter_add seen off xs b) = pb_mask b"
  "pb_read_pos (scatter_add seen off xs b) = pb_read_pos b"
  "pb_write_watermark (scatter_add seen off xs b) = pb_write_watermark b"
  "length (pb_buffer (scatter_add seen off xs b)) = length (pb_buffer b)"
  by (simp_all add: scatter_add_def Let_def)

lemma scatter_buffer:
  assumes "pb_ok b"
  shows "pb_buffer (scatter_add seen off xs b) =
    ring_upd (\<lambda>i. i mod pb_capacity b) (\<lambda>x v. fadd v x) (pb_write_origin b + off)
      (take (seen + pb_capacity b - (pb_write_origin b + off)) xs) (pb_buffer b)"
proof -
  let ?s = "pb_write_origin b + off" and ?e = "seen + pb_capacity b"
  consider "xs = []" | "?e \<le> ?s" | "?s < ?e" "?e < ?s + length xs" | "?s + length xs \<le> ?e" "xs \<noteq> []"
    by linarith
  then show ?thesis
    by cases (auto simp: scatter_add_def Let_def ring_upd_cong [OF pb_slot [OF assms]] Suc_le_eq
        simp flip: length_greater_0_conv)
qed

lemma read_fields:
  "pb_capacity (fst (read_advance n b)) = pb_capacity b"
  "pb_mask (fst (read_advance n b)) = pb_mask b"
  "pb_write_watermark (fst (read_advance n b)) = pb_write_watermark b"
  "pb_overflow_drops (fst (read_advance n b)) = pb_overflow_drops b"
  "pb_read_pos (fst (read_advance n b)) =
     pb_read_pos b + min n (pb_write_watermark b - pb_read_pos b)"
  by (auto simp: read_advance_def Let_def)

lemma read_buffer:
  assumes "pb_ok b"
  shows "pb_buffer (fst (read_advance n b)) = fst (read_slots (\<lambda>i. i mod pb_capacity b)
      (pb_read_pos b) (min n (pb_write_watermark b - pb_read_pos b)) (pb_buffer b))"
    and "snd (read_advance n b) = snd (read_slots (\<lambda>i. i mod pb_capacity b)
      (pb_read_pos b) (min n (pb_write_watermark b - pb_read_pos b)) (pb_buffer b))"
  by (auto simp: read_advance_def Let_def pb_slot [OF assms])

lemma pb_ok_step: "pb_ok b \<Longrightarrow> pb_ok (fst (pb_step c b)) \<and> pb_capacity (fst (pb_step c b)) = pb_capacity b"
proof (cases c)
  case (Read n)
  assume ok: "pb_ok b"
  have "length (pb_buffer (fst (read_advance n b))) = pb_capacity b"
    using read_slots_window [of "pb_buffer b" "pb_capacity b"] ok pb_cap_pos [OF ok]
    by (simp add: read_buffer [OF ok] pb_ok_def)
  moreover have "m + min n (w - m) \<le> w" if "m \<le> w" for m w :: nat using that by simp
  ultimately show ?thesis using ok Read by (simp add: pb_ok_def read_fields)
qed (auto simp: pb_ok_def begin_message_def scatter_fields commit_source_progress_def commit_extra_def Let_def)

lemma pb_read_timeline:
  assumes ok: "pb_ok b"
  shows "snd (read_advance n b) = map (pb_timeline b)
      [pb_read_pos b..<pb_read_pos b + min n (pb_write_watermark b - pb_read_pos b)]"
    and "pb_read_pos (fst (read_advance n b)) \<le> p \<Longrightarrow>
      pb_timeline (fst (read_advance n b)) p = pb_timeline b p"
proof -
  let ?k = "min n (pb_write_watermark b - pb_read_pos b)"
  have len: "length (pb_buffer b) = pb_capacity b" using ok by (simp add: pb_ok_def)
  note w = read_slots_window [OF len pb_cap_pos [OF ok], of "pb_read_pos b" ?k]
  show "snd (read_advance n b) = map (pb_timeline b) [pb_read_pos b..<pb_read_pos b + ?k]"
    using w by (simp add: read_buffer [OF ok] pb_timeline_def)
  show "pb_read_pos (fst (read_advance n b)) \<le> p \<Longrightarrow>
      pb_timeline (fst (read_advance n b)) p = pb_timeline b p"
    using w by (simp add: read_buffer [OF ok] pb_timeline_def read_fields)
qed

lemma pb_scatter_timeline:
  assumes ok: "pb_ok b" and "seen \<le> pb_read_pos b" and low: "pb_read_pos b \<le> pb_write_origin b + off"
    and p: "pb_read_pos b \<le> p"
  shows "pb_timeline (scatter_add seen off xs b) p =
    (if pb_write_origin b + off \<le> p \<and> p < pb_write_origin b + off + length xs \<and> p < seen + pb_capacity b
     then fadd (pb_timeline b p) (xs ! (p - (pb_write_origin b + off))) else pb_timeline b p)"
proof -
  let ?s = "pb_write_origin b + off" and ?C = "pb_capacity b" and ?rp = "pb_read_pos b"
  let ?xs = "take (seen + ?C - ?s) xs"
  have len: "length (pb_buffer b) = ?C" using ok by (simp add: pb_ok_def)
  have t: "pb_timeline (scatter_add seen off xs b) p =
      window ?C ?rp (ring_upd (\<lambda>i. i mod ?C) (\<lambda>x v. fadd v x) ?s ?xs (pb_buffer b)) p"
    by (simp add: pb_timeline_def scatter_fields scatter_buffer [OF ok])
  show ?thesis
  proof (cases "seen + ?C \<le> ?s")
    case True
    then show ?thesis unfolding t by (simp add: pb_timeline_def)
  next
    case False
    have "?s + length ?xs \<le> ?rp + ?C" using False assms(2) by simp
    from window_added [OF len pb_cap_pos [OF ok] low this p] False show ?thesis
      unfolding t by (auto simp: pb_timeline_def)
  qed
qed

lemma length_filter_upt: "length (filter (\<lambda>p. \<not> p < e) [s..<s + n]) = s + n - max s e"
proof (induction n)
  case 0
  then show ?case by simp
next
  case (Suc n)
  then show ?case by (cases "s + n < e") auto
qed

lemma pb_scatter_drops: "pb_overflow_drops (scatter_add seen off xs b) = pb_overflow_drops b +
    length (filter (\<lambda>p. \<not> p < seen + pb_capacity b)
      [pb_write_origin b + off..<pb_write_origin b + off + length xs])"
  unfolding length_filter_upt by (auto simp: scatter_add_def Let_def max_def)

interpretation pb: timeline_buffer pb_step pb_timeline pb_read_pos pb_write_watermark pb_write_origin
  pb_capacity pb_overflow_drops pb_ok
proof (unfold_locales, goal_cases)
  case (1 b c)
  then show ?case by (rule pb_ok_step)
next
  case (2 b)
  then show ?case by (simp add: pb_ok_def)
next
  case (3 b c)
  then show ?case
    by (cases c) (simp_all add: begin_message_def scatter_fields read_fields commit_source_progress_def
        commit_extra_def Let_def)
next
  case (4 b seen off p xs)
  then show ?case using pb_scatter_timeline by simp
next
  case (5 b seen off xs)
  then show ?case by (simp add: pb_scatter_drops)
next
  case (6 b c)
  then show ?case
    by (cases c) (simp_all add: begin_message_def scatter_fields commit_source_progress_def
        commit_extra_def Let_def)
next
  case (7 b c)
  then show ?case
    by (cases c) (simp_all add: begin_message_def commit_source_progress_def commit_extra_def Let_def
        pb_timeline_def)
next
  case (8 b n)
  then show ?case by (simp add: pb_read_timeline(1))
next
  case (9 b n)
  then show ?case by (simp add: read_fields)
next
  case (10 b n p)
  then show ?case by (simp add: pb_read_timeline(2))
next
  case (11 b n)
  then show ?case by (simp add: read_fields)
qed

section \<open>Properties\<close>

text \<open>C7: Refinement of the whole buffer. In any interleaving of producer calls and reads in which
  each scatter starts at or beyond the committed watermark and sees a read head that is at most stale,
  the receiver's stream is, position by position, the single-precision sum of exactly the additions
  made at that position, each once, and silence where none were made; ring wrap-around never shows.\<close>

theorem pair_buffer_refines_timeline:
  assumes "pair_buffer_new capacity base = Inr b0" and "pb.calls_ok cs b0"
    and "pb.run cs (b0, [], []) = (b, out, adds)"
  shows "length out = pb_read_pos b \<and> (\<forall>p < length out. out ! p = pb.sum_at adds p) \<and>
    (\<forall>p \<ge> pb_read_pos b. pb_timeline b p = pb.sum_at adds p)"
proof -
  have "pb.in_step b0 [] []"
    using pair_buffer_new_facts [OF assms(1)] by (simp add: pb.in_step_def pb.sum_at_def)
  then have "pb.in_step b out adds" using assms(2,3) by (rule pb.run_sums)
  then show ?thesis by (simp add: pb.in_step_def)
qed

theorem pair_buffer_refines_timeline_witness:
  "snd (read_advance 5 (commit_source_progress 2 (scatter_add 0 1 [3] (scatter_add 0 0 [1, 2]
     (begin_message 0 False (projr (pair_buffer_new 4 1))))))) = [0, 1, 5]"
proof -
  have new: "pair_buffer_new 4 1 = Inr (projr (pair_buffer_new 4 1))"
    by (simp add: pair_buffer_new_def round_up_pow2_def pow2_loop.simps Let_def)
  let ?cs = "[Begin 0 False, Scatter 0 0 [1, 2], Scatter 0 1 [3], Commit 2, Read 5]"
  define b0 where "b0 = projr (pair_buffer_new 4 1)"
  obtain b out adds where r: "pb.run ?cs (b0, [], []) = (b, out, adds)" by (metis prod_cases3)
  have z: "pb_write_watermark b0 = 0" "pb_first_message b0" "pb_base_delay_samples b0 = 1"
    "pb_capacity b0 = 4" "pb_read_pos b0 = 0"
    by (simp_all add: b0_def pair_buffer_new_def round_up_pow2_def pow2_loop.simps Let_def)
  have org: "pb_write_origin (scatter_add seen off xs c) = pb_write_origin c" for seen off xs c
    by (simp add: scatter_add_def Let_def)
  have ok: "pb.calls_ok ?cs b0"
    by (simp add: pb.call_ok_def scatter_fields org z begin_message_def commit_source_progress_def)
  have f: "f32 2 = 2" "f32 3 = 3" "f32 5 = 5"
    using f32_of_int [of 2] f32_of_int [of 3] f32_of_int [of 5] by simp_all
  have s: "out = snd (read_advance 5 (commit_source_progress 2 (scatter_add 0 1 [3] (scatter_add 0 0 [1, 2]
     (begin_message 0 False b0)))))"
    and a: "adds = [(1, 1), (2, 2), (2, 3)]" and b: "pb_read_pos b = 3"
    using r by (auto simp: pb.added_def z begin_message_def scatter_fields org read_fields
        commit_source_progress_def Let_def upt_conv_Cons)
  have "length out = 3" "\<forall>p < length out. out ! p = pb.sum_at adds p"
    using pair_buffer_refines_timeline [OF new [folded b0_def] ok r] b by simp_all
  then have "out = map (pb.sum_at adds) [0..<3]" by (intro nth_equalityI) simp_all
  then show ?thesis unfolding b0_def [symmetric] s [symmetric] by (simp add: a pb.sum_at_def upt_conv_Cons f)
qed

text \<open>Every scattered sample is accounted for, either added to the timeline or counted as an
  overflow drop, and a stale view of the read head can only turn additions into counted drops.\<close>

theorem scatter_accounts_for_all:
  assumes "pb_ok b" and "seen \<le> pb_read_pos b" and "pb_read_pos b \<le> pb_write_origin b + off"
  shows "pb_overflow_drops (scatter_add seen off xs b) - pb_overflow_drops b +
      length (pb.added (Scatter seen off xs) b) = length xs \<and>
    pb_overflow_drops (scatter_add (pb_read_pos b) off xs b) \<le>
      pb_overflow_drops (scatter_add seen off xs b)"
proof
  let ?s = "pb_write_origin b + off" and ?e = "seen + pb_capacity b"
  have "length (pb.added (Scatter seen off xs) b) = length (filter (\<lambda>p. p < ?e) [?s..<?s + length xs])"
  proof -
    have "length (filter (\<lambda>(p, x). p < e) (zip ps ys)) = length (filter (\<lambda>p. p < e) ps)"
      if "length ps = length ys" for ps and ys :: "real list" and e :: nat
      using that by (induction ps ys rule: list_induct2) auto
    then show ?thesis by (simp add: pb.added_def)
  qed
  then show "pb_overflow_drops (scatter_add seen off xs b) - pb_overflow_drops b +
      length (pb.added (Scatter seen off xs) b) = length xs"
    using sum_length_filter_compl [of "\<lambda>p. p < ?e" "[?s..<?s + length xs]"] by (simp add: pb_scatter_drops)
  show "pb_overflow_drops (scatter_add (pb_read_pos b) off xs b) \<le>
      pb_overflow_drops (scatter_add seen off xs b)"
    using assms(2) unfolding pb_scatter_drops length_filter_upt by simp
qed

theorem scatter_accounts_for_all_witness:
  "pb_overflow_drops (scatter_add 0 3 [1, 2, 3] (projr (pair_buffer_new 4 0))) = 2"
proof -
  let ?b = "projr (pair_buffer_new 4 0)"
  have new: "pair_buffer_new 4 0 = Inr ?b"
    by (simp add: pair_buffer_new_def round_up_pow2_def pow2_loop.simps Let_def)
  note f = pair_buffer_new_facts [OF new]
  have o: "pb_write_origin ?b = 0" "pb_capacity ?b = 4"
    by (simp_all add: pair_buffer_new_def round_up_pow2_def pow2_loop.simps Let_def)
  have "pb_overflow_drops (scatter_add 0 3 [1, 2, 3] ?b) - pb_overflow_drops ?b +
      length (pb.added (Scatter 0 3 [1, 2, 3]) ?b) = length [1::real, 2, 3]"
    using scatter_accounts_for_all [of ?b 0 3 "[1, 2, 3]"] f by simp
  then show ?thesis using f by (simp add: pb.added_def o upt_conv_Cons)
qed

end
