(* ===== verification/Transport.thy ===== *)
theory Transport
  imports Codec
begin

text \<open>
  \<open>src/transport/modem_transport.hpp\<close>, the interface between I/O threads and a modem link, as a
  record of functions on a transport state; and \<open>mock_transport.cpp\<close>, the deterministic modem
  the tests run against. A receive call returns the bytes it wrote at the start of the caller's
  buffer. \<open>std::sort\<close> by time is modelled as a stable sort.
\<close>

section \<open>The interface\<close>

datatype transfer_status = TS_OK | TS_TIMEOUT | TS_ERROR | TS_DISCONNECTED

record transfer_result =
  tr_status :: transfer_status
  tr_bytes :: int

definition tr_ok :: "transfer_result \<Rightarrow> bool" where
  "tr_ok r = (tr_status r = TS_OK)"

definition tr_timed_out :: "transfer_result \<Rightarrow> bool" where
  "tr_timed_out r = (tr_status r = TS_TIMEOUT)"

definition tr_disconnected :: "transfer_result \<Rightarrow> bool" where
  "tr_disconnected r = (tr_status r = TS_DISCONNECTED)"

abbreviation result :: "transfer_status \<Rightarrow> int \<Rightarrow> transfer_result" where
  "result s n \<equiv> \<lparr>tr_status = s, tr_bytes = n\<rparr>"

record 't transport =
  tp_open :: "string \<Rightarrow> 't \<Rightarrow> 't \<times> bool"
  tp_close :: "'t \<Rightarrow> 't"
  tp_is_open :: "'t \<Rightarrow> bool"
  tp_send_data :: "u8 list \<Rightarrow> int \<Rightarrow> 't \<Rightarrow> 't \<times> transfer_result"
  tp_recv_data :: "nat \<Rightarrow> int \<Rightarrow> 't \<Rightarrow> 't \<times> transfer_result \<times> u8 list"
  tp_send_control :: "u8 list \<Rightarrow> int \<Rightarrow> 't \<Rightarrow> 't \<times> transfer_result"
  tp_recv_control :: "nat \<Rightarrow> int \<Rightarrow> 't \<Rightarrow> 't \<times> transfer_result \<times> u8 list"

text \<open>A buffer after a receive wrote at its start.\<close>

definition overwrite :: "u8 list \<Rightarrow> u8 list \<Rightarrow> u8 list" where
  "overwrite written buf = written @ drop (length written) buf"

text \<open>What every client relies on: closing closes, and a closed link moves no data.\<close>

locale modem_link =
  fixes tp :: "'t transport"
  assumes closed: "\<not> tp_is_open tp (tp_close tp t)"
    and send_closed: "\<not> tp_is_open tp t \<Longrightarrow> tp_send_control tp d ms t = (t, result TS_DISCONNECTED 0)"
      "\<not> tp_is_open tp t \<Longrightarrow> tp_send_data tp d ms t = (t, result TS_DISCONNECTED 0)"
    and recv_closed: "\<not> tp_is_open tp t \<Longrightarrow> tp_recv_control tp n ms t = (t, result TS_DISCONNECTED 0, [])"
      "\<not> tp_is_open tp t \<Longrightarrow> tp_recv_data tp n ms t = (t, result TS_DISCONNECTED 0, [])"

section \<open>The mock modem\<close>

record mock =
  mk_is_open :: bool
  mk_state :: modem_state
  mk_sim_time_ms :: nat
  mk_settling_time_ms :: nat
  mk_calibration :: calibration_data
  mk_pending_calibration :: bool
  mk_attenuation_idx :: u8
  mk_error_flags :: u32
  mk_rx_expected_id :: u16
  mk_tx_queue :: "u8 list list"
  mk_rx_packets :: "u8 list list"
  mk_transitions :: "(nat \<times> modem_state) list"

definition mock_new :: mock where
  "mock_new = \<lparr>mk_is_open = False, mk_state = ST_IDLE, mk_sim_time_ms = 0,
     mk_settling_time_ms = 200, mk_calibration = default_calibration,
     mk_pending_calibration = False, mk_attenuation_idx = 0, mk_error_flags = 0,
     mk_rx_expected_id = 0, mk_tx_queue = [], mk_rx_packets = [], mk_transitions = []\<rparr>"

definition mock_set_calibration :: "calibration_data \<Rightarrow> mock \<Rightarrow> mock" where
  "mock_set_calibration cal m = m\<lparr>mk_calibration := cal\<rparr>"

definition mock_set_initial_state :: "modem_state \<Rightarrow> mock \<Rightarrow> mock" where
  "mock_set_initial_state s m = m\<lparr>mk_state := s\<rparr>"

definition mock_set_settling_time_ms :: "nat \<Rightarrow> mock \<Rightarrow> mock" where
  "mock_set_settling_time_ms ms m = m\<lparr>mk_settling_time_ms := ms\<rparr>"

definition mock_enqueue_tx_packet :: "u8 list \<Rightarrow> mock \<Rightarrow> mock" where
  "mock_enqueue_tx_packet pkt m = m\<lparr>mk_tx_queue := mk_tx_queue m @ [pkt]\<rparr>"

text \<open>The packetising loop: 255 samples per packet, ids counting from 0 and wrapping.\<close>

function waveform_packets :: "u16 list \<Rightarrow> u16 \<Rightarrow> u8 list list" where
  "waveform_packets samples pkt_id =
     (if samples = [] then []
      else let n = cmin (length samples) DATA_SAMPLES_PER_PKT
           in encode_data_packet pkt_id samples n # waveform_packets (drop n samples) (pkt_id + 1))"
  by pat_completeness auto
termination
  by (relation "measure (\<lambda>(xs, i). length xs)") (auto simp: min_def)

declare waveform_packets.simps [simp del]

definition mock_enqueue_tx_waveform :: "u16 list \<Rightarrow> mock \<Rightarrow> mock" where
  "mock_enqueue_tx_waveform samples m =
     m\<lparr>mk_tx_queue := mk_tx_queue m @ waveform_packets samples 0\<rparr>"

definition add_transition :: "nat \<Rightarrow> modem_state \<Rightarrow> mock \<Rightarrow> mock" where
  "add_transition time s m =
     m\<lparr>mk_transitions := sort_key fst (mk_transitions m @ [(time, s)])\<rparr>"

definition mock_schedule_state_transition :: "nat \<Rightarrow> modem_state \<Rightarrow> mock \<Rightarrow> mock" where
  "mock_schedule_state_transition delay_ms next_state m =
     add_transition (mk_sim_time_ms m + delay_ms) next_state m"

text \<open>\<open>apply_transitions\<close>: fire the due ones in order; the last one to fire decides.\<close>

fun fire_due :: "nat \<Rightarrow> (nat \<times> modem_state) list \<Rightarrow> modem_state \<Rightarrow> (nat \<times> modem_state) list \<times> modem_state"
where
  "fire_due now [] s = ([], s)"
| "fire_due now ((t, s') # ts) s = (if t \<le> now then fire_due now ts s' else ((t, s') # ts, s))"

definition mock_apply_transitions :: "mock \<Rightarrow> mock" where
  "mock_apply_transitions m =
     (let r = fire_due (mk_sim_time_ms m) (mk_transitions m) (mk_state m)
      in m\<lparr>mk_transitions := fst r, mk_state := snd r\<rparr>)"

definition mock_open :: "string \<Rightarrow> mock \<Rightarrow> mock \<times> bool" where
  "mock_open device_identifier m = (m\<lparr>mk_is_open := True\<rparr>, True)"

definition mock_close :: "mock \<Rightarrow> mock" where
  "mock_close m = m\<lparr>mk_is_open := False\<rparr>"

definition mock_send_data :: "u8 list \<Rightarrow> int \<Rightarrow> mock \<Rightarrow> mock \<times> transfer_result" where
  "mock_send_data data timeout_ms m =
     (if \<not> mk_is_open m then (m, result TS_DISCONNECTED 0)
      else let n = cmin (length data) DATA_PACKET_BYTES
           in (m\<lparr>mk_rx_packets := mk_rx_packets m @
                   [take n data @ replicate (DATA_PACKET_BYTES - n) 0],
                 mk_rx_expected_id := mk_rx_expected_id m + 1\<rparr>, result TS_OK (int n)))"

definition mock_recv_data :: "nat \<Rightarrow> int \<Rightarrow> mock \<Rightarrow> mock \<times> transfer_result \<times> u8 list" where
  "mock_recv_data len timeout_ms m =
     (if \<not> mk_is_open m then (m, result TS_DISCONNECTED 0, [])
      else case mk_tx_queue m of
        [] \<Rightarrow> (m, result TS_TIMEOUT 0, [])
      | pkt # rest \<Rightarrow>
          (if mk_state m \<noteq> ST_TX then (m, result TS_TIMEOUT 0, [])
           else let n = cmin len DATA_PACKET_BYTES;
                    m1 = m\<lparr>mk_tx_queue := rest\<rparr>;
                    m2 = (if rest = [] then add_transition (mk_sim_time_ms m + mk_settling_time_ms m)
                            ST_RX (m1\<lparr>mk_state := ST_SETTLING\<rparr>) else m1)
                in (m2, result TS_OK (int n), take n pkt)))"

text \<open>The command byte is switched on as it is: unknown values fall through the switch.\<close>

definition mock_send_control :: "u8 list \<Rightarrow> int \<Rightarrow> mock \<Rightarrow> mock \<times> transfer_result" where
  "mock_send_control data timeout_ms m =
     (if \<not> mk_is_open m then (m, result TS_DISCONNECTED 0)
      else if length data < 1 then (m, result TS_ERROR 0)
      else let cmd = data ! 0;
               m' = (if cmd = command_byte REQUEST_CALIBRATION then m\<lparr>mk_pending_calibration := True\<rparr>
                     else if cmd = command_byte ENTER_HIL_MODE then
                       (if mk_state m = ST_IDLE then m\<lparr>mk_state := ST_RX\<rparr> else m)
                     else if cmd = command_byte EXIT_HIL_MODE then m\<lparr>mk_state := ST_IDLE\<rparr>
                     else if cmd = command_byte SELECT_ATTENUATION then
                       (if 2 \<le> length data then m\<lparr>mk_attenuation_idx := data ! 1\<rparr> else m)
                     else m)
           in (m', result TS_OK (int (length data))))"

definition mock_status :: "mock \<Rightarrow> status_payload" where
  "mock_status m = zero_status\<lparr>sp_type := control_type_byte CT_STATUS,
     sp_modem_state := byte_of_state (mk_state m), sp_buffer_fill := 0, sp_buffer_capacity := 1024,
     sp_attenuation_idx := mk_attenuation_idx m, sp_error_flags := ucast (mk_error_flags m),
     sp_firmware_timestamp_ms := of_nat (mk_sim_time_ms m),
     sp_rx_expected_id := mk_rx_expected_id m, sp_fill_reference_id := mk_rx_expected_id m - 1\<rparr>"

definition mock_recv_control :: "nat \<Rightarrow> int \<Rightarrow> mock \<Rightarrow> mock \<times> transfer_result \<times> u8 list" where
  "mock_recv_control len timeout_ms m =
     (if \<not> mk_is_open m then (m, result TS_DISCONNECTED 0, [])
      else let m1 = mock_apply_transitions
             (m\<lparr>mk_sim_time_ms := mk_sim_time_ms m + nat (if 0 < timeout_ms then timeout_ms else 1)\<rparr>);
               n = cmin len CONTROL_PACKET_BYTES
           in if mk_pending_calibration m1
              then (m1\<lparr>mk_pending_calibration := False\<rparr>, result TS_OK (int n),
                    encode_calibration (mk_calibration m1))
              else (m1, result TS_OK (int n), encode_status (mock_status m1)))"

definition mock_transport :: "mock transport" where
  "mock_transport = \<lparr>tp_open = mock_open, tp_close = mock_close, tp_is_open = mk_is_open,
     tp_send_data = mock_send_data, tp_recv_data = mock_recv_data,
     tp_send_control = mock_send_control, tp_recv_control = mock_recv_control\<rparr>"

interpretation mock: modem_link mock_transport
  by unfold_locales (simp_all add: mock_transport_def mock_close_def mock_send_control_def
    mock_send_data_def mock_recv_control_def mock_recv_data_def)

section \<open>Waveforms\<close>

lemma waveform_packets_step: "samples \<noteq> [] \<Longrightarrow> waveform_packets samples i =
    encode_data_packet i samples (min (length samples) 255)
      # waveform_packets (drop (min (length samples) 255) samples) (i + 1)"
  by (subst waveform_packets.simps) (simp add: Let_def)

lemma waveform_packets_length: "length (waveform_packets samples i) = (length samples + 254) div 255"
proof (induction samples i rule: waveform_packets.induct)
  case (1 samples i)
  show ?case
  proof (cases "samples = []")
    case True
    then show ?thesis by (simp add: waveform_packets.simps)
  next
    case False
    have "length (waveform_packets (drop (min (length samples) 255) samples) (i + 1)) =
        (length samples - min (length samples) 255 + 254) div 255"
      using "1.IH" [OF False refl] by simp
    with False show ?thesis
    proof (cases "length samples \<le> 255")
      case True
      have "0 < length samples" using False by simp
      with True have "(length samples + 254) div 255 = 1" by (intro div_nat_eqI) (simp_all add: Suc_le_eq)
      moreover have "waveform_packets [] j = []" for j by (simp add: waveform_packets.simps)
      ultimately show ?thesis using False True by (simp add: waveform_packets_step)
    next
      case big: False
      have "length samples + 254 = (length samples - 255 + 254) + 255" using big by simp
      then have "(length samples + 254) div 255 = (length samples - 255 + 254) div 255 + 1"
        by (metis div_add_self2 zero_neq_numeral)
      with False big \<open>length (waveform_packets _ _) = _\<close> show ?thesis
        by (simp add: waveform_packets_step)
    qed
  qed
qed

lemma waveform_packet_ids: "k < length (waveform_packets samples i) \<Longrightarrow>
    fst (decode_data_packet (waveform_packets samples i ! k) 255) = i + of_nat k"
proof (induction samples i arbitrary: k rule: waveform_packets.induct)
  case (1 samples i)
  then have ne: "samples \<noteq> []" by (auto simp: waveform_packets.simps)
  show ?case
  proof (cases k)
    case 0
    with ne show ?thesis by (simp add: waveform_packets_step data_packet_round_trip)
  next
    case (Suc j)
    have "fst (decode_data_packet (waveform_packets (drop (min (length samples) 255) samples) (i + 1) ! j) 255)
        = i + 1 + of_nat j"
      using "1.IH" [OF ne refl, of j] "1.prems" ne Suc by (simp add: waveform_packets_step)
    with ne Suc show ?thesis by (simp add: waveform_packets_step)
  qed
qed

lemma waveform_samples: "\<exists>z. concat (map (\<lambda>p. snd (decode_data_packet p 255)) (waveform_packets samples i))
    = samples @ replicate z 0 \<and> z < 255"
proof (induction samples i rule: waveform_packets.induct)
  case (1 samples i)
  show ?case
  proof (cases "samples = []")
    case True
    then show ?thesis by (simp add: waveform_packets.simps)
  next
    case False
    let ?n = "min (length samples) 255"
    have d: "snd (decode_data_packet (encode_data_packet i samples ?n) 255) =
        take ?n samples @ replicate (255 - ?n) 0"
      by (simp add: data_packet_round_trip)
    show ?thesis
    proof (cases "length samples \<le> 255")
      case True
      have "waveform_packets [] (i + 1) = []" by (simp add: waveform_packets.simps)
      with True False d show ?thesis
        by (intro exI [of _ "255 - length samples"]) (simp add: waveform_packets_step)
    next
      case big: False
      obtain z where "concat (map (\<lambda>p. snd (decode_data_packet p 255))
          (waveform_packets (drop ?n samples) (i + 1))) = drop ?n samples @ replicate z 0" "z < 255"
        using "1.IH" [OF False refl] by auto
      with big False d show ?thesis
        by (intro exI [of _ z]) (simp add: waveform_packets_step)
    qed
  qed
qed

text \<open>A waveform queued on the mock modem is delivered completely and in order: it becomes
  \<open>ceil(n/255)\<close> packets with ids counting up from 0 (modulo 65536), whose samples concatenate to
  the waveform followed by fewer than 255 zeros.\<close>

theorem waveform_round_trip:
  "let ps = waveform_packets samples 0 in
    mk_tx_queue (mock_enqueue_tx_waveform samples m) = mk_tx_queue m @ ps \<and>
    length ps = (length samples + 254) div 255 \<and>
    (\<forall>k < length ps. fst (decode_data_packet (ps ! k) 255) = of_nat k) \<and>
    (\<exists>z < 255. concat (map (\<lambda>p. snd (decode_data_packet p 255)) ps) = samples @ replicate z 0)"
  using waveform_packets_length [of samples 0] waveform_packet_ids [of _ samples 0]
    waveform_samples [of samples 0]
  by (auto simp: Let_def mock_enqueue_tx_waveform_def)

theorem waveform_round_trip_witness:
  "mk_tx_queue (mock_enqueue_tx_waveform [5, 6] mock_new) = waveform_packets [5, 6] 0 \<and>
   length (waveform_packets [5, 6] 0) = 1"
  using waveform_round_trip [of "[5, 6]" mock_new] by (simp add: Let_def mock_new_def)

section \<open>Scripted transitions\<close>

lemma fire_due_sorted:
  assumes "sorted (map fst ts)"
  shows "fst (fire_due now ts s) = filter (\<lambda>t. \<not> fst t \<le> now) ts \<and>
    snd (fire_due now ts s) = (case rev (filter (\<lambda>t. fst t \<le> now) ts) of [] \<Rightarrow> s | t # _ \<Rightarrow> snd t)"
  using assms
proof (induction now ts s rule: fire_due.induct)
  case (1 now s)
  then show ?case by simp
next
  case (2 now t s' ts s)
  show ?case
  proof (cases "t \<le> now")
    case True
    with 2 show ?thesis by (auto split: list.splits)
  next
    case False
    with 2 have "\<forall>x \<in> set ts. \<not> fst x \<le> now" by fastforce
    then have "filter (\<lambda>t. fst t \<le> now) ts = []" "filter (\<lambda>t. \<not> fst t \<le> now) ts = ts"
      by (auto simp: filter_empty_conv filter_id_conv)
    with False show ?thesis by simp
  qed
qed

text \<open>Sessions of the mock, for the invariant of its bookkeeping.\<close>

datatype mock_op = M_Open string | M_Close | M_Send "u8 list" | M_Recv nat | M_Send_Control "u8 list"
  | M_Recv_Control int | M_Schedule nat modem_state | M_Waveform "u16 list"

fun mock_step :: "mock_op \<Rightarrow> mock \<Rightarrow> mock" where
  "mock_step (M_Open i) m = fst (mock_open i m)"
| "mock_step M_Close m = mock_close m"
| "mock_step (M_Send d) m = fst (mock_send_data d 0 m)"
| "mock_step (M_Recv n) m = fst (mock_recv_data n 0 m)"
| "mock_step (M_Send_Control d) m = fst (mock_send_control d 0 m)"
| "mock_step (M_Recv_Control ms) m = fst (mock_recv_control 64 ms m)"
| "mock_step (M_Schedule d s) m = mock_schedule_state_transition d s m"
| "mock_step (M_Waveform xs) m = mock_enqueue_tx_waveform xs m"

definition mock_ok :: "mock \<Rightarrow> bool" where
  "mock_ok m \<longleftrightarrow> sorted (map fst (mk_transitions m)) \<and>
     mk_rx_expected_id m = of_nat (length (mk_rx_packets m))"

lemma mock_ok_step: "mock_ok m \<Longrightarrow> mock_ok (mock_step c m)"
proof (cases c)
  case (M_Recv_Control ms)
  assume ok: "mock_ok m"
  have "sorted (map fst (fst (fire_due now (mk_transitions m) s)))" for now s
    using fire_due_sorted ok by (metis mock_ok_def sorted_filter)
  with ok M_Recv_Control show ?thesis
    by (simp add: mock_recv_control_def mock_apply_transitions_def mock_ok_def Let_def)
qed (auto simp: mock_ok_def mock_open_def mock_close_def mock_send_data_def mock_recv_data_def
    mock_send_control_def mock_schedule_state_transition_def add_transition_def
    mock_enqueue_tx_waveform_def Let_def split: list.splits)

text \<open>In every session of the mock modem the scripted transitions stay in time order, the next
  expected packet id is the number of packets received modulo 65536, and after a status poll no due
  transition is left: the state is the last one that was due.\<close>

theorem mock_session_consistent:
  "let m = fold mock_step cs mock_new; m' = fst (mock_recv_control 64 ms m) in
    sorted (map fst (mk_transitions m)) \<and>
    mk_rx_expected_id m = of_nat (length (mk_rx_packets m)) \<and>
    (mk_is_open m \<longrightarrow> (\<forall>t \<in> set (mk_transitions m'). mk_sim_time_ms m' < fst t) \<and>
      mk_state m' = (case rev (filter (\<lambda>t. fst t \<le> mk_sim_time_ms m') (mk_transitions m)) of
        [] \<Rightarrow> mk_state m | t # _ \<Rightarrow> snd t))"
proof -
  let ?m = "fold mock_step cs mock_new"
  have "mock_ok (fold mock_step cs m)" if "mock_ok m" for m
    using that by (induction cs arbitrary: m) (simp_all add: mock_ok_step)
  then have ok: "mock_ok ?m" by (simp add: mock_ok_def mock_new_def)
  then have "sorted (map fst (mk_transitions ?m))" by (simp add: mock_ok_def)
  note f = fire_due_sorted [OF this]
  show ?thesis
    using ok f by (auto simp: Let_def mock_ok_def mock_recv_control_def mock_apply_transitions_def)
qed

theorem mock_session_consistent_witness:
  "mk_state (fst (mock_recv_control 64 20 (fold mock_step
     [M_Open [], M_Schedule 30 ST_TX, M_Schedule 10 ST_RX] mock_new))) = ST_RX"
  using mock_session_consistent [of "[M_Open [], M_Schedule 30 ST_TX, M_Schedule 10 ST_RX]" 20]
  by (simp add: Let_def mock_open_def mock_schedule_state_transition_def add_transition_def
      mock_new_def mock_recv_control_def mock_apply_transitions_def)

end
