(* ===== verification/Modem.thy ===== *)
theory Modem
  imports Transport
begin

text \<open>
  \<open>src/modem/modem.cpp\<close> and \<open>modem_registry.cpp\<close>: the handshake with one modem and the
  start-up of all modems of a scenario, over any transport. Thrown exceptions are the left values of
  a sum; the destructors that run while the stack unwinds are part of the model: \<open>discover_loop\<close>
  returns the links they closed, and \<open>discover_loop_fails\<close> says which ones these are, by what becomes of
  each configured modem on its own (\<open>bring_up\<close>).
\<close>

section \<open>One modem\<close>

definition CTRL_TIMEOUT_MS :: int where "CTRL_TIMEOUT_MS = 5000"
definition MAX_RETRIES :: nat where "MAX_RETRIES = 10"

record 't modem =
  md_transport :: 't
  md_id :: string
  md_calibration :: calibration_data
  md_runtime_state :: modem_runtime_state

definition in_quotes :: "string \<Rightarrow> string" where
  "in_quotes s = CHR 0x27 # s @ [CHR 0x27]"

definition modem_new :: "'t \<Rightarrow> string \<Rightarrow> 't modem" where
  "modem_new t modem_id = \<lparr>md_transport = t, md_id = modem_id,
     md_calibration = default_calibration, md_runtime_state = initial_runtime\<rparr>"

definition modem_connect :: "'t transport \<Rightarrow> 't modem \<Rightarrow> 't modem \<times> bool" where
  "modem_connect tp m = (let r = tp_open tp (md_id m) (md_transport m)
     in (m\<lparr>md_transport := fst r\<rparr>, snd r))"

text \<open>The receive loop of \<open>calibrate\<close>: \<open>n\<close> attempts left, one response buffer reused.\<close>

fun calibrate_loop :: "'t transport \<Rightarrow> nat \<Rightarrow> u8 list \<Rightarrow> 't modem \<Rightarrow> 't modem \<times> (error + calibration_data)"
where
  "calibrate_loop tp 0 buf m = (m, Inl (Runtime_Error
     (''Modem::calibrate: no calibration response from '' @ in_quotes (md_id m) @ '' after retries'')))"
| "calibrate_loop tp (Suc n) buf m =
     (case tp_recv_control tp 64 CTRL_TIMEOUT_MS (md_transport m) of
        (t, r, written) \<Rightarrow>
          let buf' = overwrite written buf; m1 = m\<lparr>md_transport := t\<rparr>
          in if tr_timed_out r then (m1, Inl (Runtime_Error
               (''Modem::calibrate: timeout waiting for calibration from '' @ in_quotes (md_id m))))
             else if \<not> tr_ok r then (m1, Inl (Runtime_Error
               (''Modem::calibrate: transport error from '' @ in_quotes (md_id m))))
             else let d = decode_calibration buf' (md_calibration m1);
                      m2 = m1\<lparr>md_calibration := snd d\<rparr>
                  in if fst d then (m2, Inr (md_calibration m2)) else calibrate_loop tp n buf' m2)"

definition modem_calibrate :: "'t transport \<Rightarrow> 't modem \<Rightarrow> 't modem \<times> (error + calibration_data)" where
  "modem_calibrate tp m =
     (case tp_send_control tp (encode_command REQUEST_CALIBRATION []) CTRL_TIMEOUT_MS (md_transport m) of
        (t, r) \<Rightarrow>
          let m1 = m\<lparr>md_transport := t\<rparr>
          in if \<not> tr_ok r then (m1, Inl (Runtime_Error
               (''Modem::calibrate: failed to send REQUEST_CALIBRATION to '' @ in_quotes (md_id m))))
             else calibrate_loop tp MAX_RETRIES (replicate CONTROL_PACKET_BYTES 0) m1)"

definition modem_enter_hil_mode :: "'t transport \<Rightarrow> 't modem \<Rightarrow> 't modem \<times> (error + unit)" where
  "modem_enter_hil_mode tp m =
     (case tp_send_control tp (encode_command ENTER_HIL_MODE []) CTRL_TIMEOUT_MS (md_transport m) of
        (t, r) \<Rightarrow> (m\<lparr>md_transport := t\<rparr>,
          if \<not> tr_ok r then Inl (Runtime_Error (''Modem::enter_hil_mode: failed for '' @ in_quotes (md_id m)))
          else Inr ()))"

text \<open>The last two only log a failure.\<close>

definition modem_exit_hil_mode :: "'t transport \<Rightarrow> 't modem \<Rightarrow> 't modem" where
  "modem_exit_hil_mode tp m = m\<lparr>md_transport := fst (tp_send_control tp
     (encode_command EXIT_HIL_MODE []) CTRL_TIMEOUT_MS (md_transport m))\<rparr>"

definition modem_select_attenuation :: "'t transport \<Rightarrow> u8 \<Rightarrow> 't modem \<Rightarrow> 't modem" where
  "modem_select_attenuation tp index m = m\<lparr>md_transport := fst (tp_send_control tp
     (encode_command SELECT_ATTENUATION [index]) CTRL_TIMEOUT_MS (md_transport m))\<rparr>"

definition modem_destroy :: "'t transport \<Rightarrow> 't modem \<Rightarrow> 't" where
  "modem_destroy tp m =
     (if tp_is_open tp (md_transport m)
      then tp_close tp (md_transport (modem_exit_hil_mode tp m)) else md_transport m)"

section \<open>The registry\<close>

record modem_ident =
  mi_id :: string
  mi_usb_serial :: string

text \<open>\<open>discover_and_connect\<close>, with the transport factory as an argument. On a throw the modem
  at hand and those connected before are destroyed: their transports are the first component.\<close>

fun discover_loop :: "'t transport \<Rightarrow> (string \<Rightarrow> 't) \<Rightarrow> modem_ident list \<Rightarrow> 't modem list \<Rightarrow>
    't list \<times> (error + 't modem list)" where
  "discover_loop tp factory [] modems = ([], Inr modems)"
| "discover_loop tp factory (cfg # cfgs) modems =
     (let m0 = modem_new (factory (mi_usb_serial cfg)) (mi_usb_serial cfg);
          c = modem_connect tp m0; m1 = fst c
      in if \<not> snd c then (modem_destroy tp m1 # map (modem_destroy tp) modems,
           Inl (Runtime_Error (''ModemRegistry: cannot connect to modem '' @ in_quotes (mi_id cfg)
             @ '' (serial: '' @ in_quotes (mi_usb_serial cfg) @ '')'')))
         else (case modem_calibrate tp m1 of
             (m2, Inl e) \<Rightarrow> (modem_destroy tp m2 # map (modem_destroy tp) modems, Inl e)
           | (m2, Inr _) \<Rightarrow>
               (case modem_enter_hil_mode tp m2 of
                  (m3, Inl e) \<Rightarrow> (modem_destroy tp m3 # map (modem_destroy tp) modems, Inl e)
                | (m3, Inr _) \<Rightarrow> discover_loop tp factory cfgs (modems @ [m3]))))"

definition discover_and_connect ::
  "'t transport \<Rightarrow> (string \<Rightarrow> 't) \<Rightarrow> modem_ident list \<Rightarrow> 't list \<times> (error + 't modem list)" where
  "discover_and_connect tp factory modems = discover_loop tp factory modems []"

section \<open>What holds over any link\<close>

text \<open>How many receives a calibration makes: the number of attempts it uses up.\<close>

fun receives_used :: "'t transport \<Rightarrow> nat \<Rightarrow> u8 list \<Rightarrow> 't modem \<Rightarrow> nat" where
  "receives_used tp 0 buf m = 0"
| "receives_used tp (Suc n) buf m =
     (case tp_recv_control tp 64 CTRL_TIMEOUT_MS (md_transport m) of (t, r, written) \<Rightarrow>
        let buf' = overwrite written buf; d = decode_calibration buf' (md_calibration m)
        in Suc (if tr_ok r \<and> \<not> fst d
                then receives_used tp n buf' (m\<lparr>md_transport := t, md_calibration := snd d\<rparr>) else 0))"

lemma receives_used_le: "receives_used tp n buf m \<le> n"
  by (induction tp n buf m rule: receives_used.induct) (simp_all add: Let_def split: prod.splits)

lemma calibrate_loop_valid:
  "calibrate_loop tp n buf m = (m', Inr cal) \<Longrightarrow>
     validate_calibration_ranges cal \<and> md_calibration m' = cal"
proof (induction tp n buf m rule: calibrate_loop.induct)
  case (1 tp buf m)
  then show ?case by simp
next
  case (2 tp n buf m)
  obtain t r w where rc: "tp_recv_control tp 64 CTRL_TIMEOUT_MS (md_transport m) = (t, r, w)"
    by (metis prod_cases3)
  let ?d = "decode_calibration (overwrite w buf) (md_calibration m)"
  have ok: "\<not> tr_timed_out r" "tr_ok r" using "2.prems" rc by (auto simp: Let_def split: if_splits)
  show ?case
  proof (cases "fst ?d")
    case True
    then have "validate_calibration_ranges (snd ?d)"
      by (auto simp: decode_calibration_def Let_def split: if_splits)
    with "2.prems" rc ok True show ?thesis by (auto simp: Let_def)
  next
    case False
    with "2.prems" rc ok have
      "calibrate_loop tp n (overwrite w buf) (m\<lparr>md_transport := t, md_calibration := snd ?d\<rparr>) = (m', Inr cal)"
      by (simp add: Let_def)
    with "2.IH" [OF rc [symmetric] refl refl refl] ok False show ?thesis by (simp add: Let_def)
  qed
qed

text \<open>What becomes of one configured modem on its own: how far its start-up gets, and whether to the end.\<close>

definition bring_up :: "'t transport \<Rightarrow> (string \<Rightarrow> 't) \<Rightarrow> modem_ident \<Rightarrow> 't modem \<times> bool" where
  "bring_up tp factory cfg =
     (case modem_connect tp (modem_new (factory (mi_usb_serial cfg)) (mi_usb_serial cfg)) of
        (m1, False) \<Rightarrow> (m1, False)
      | (m1, True) \<Rightarrow> (case modem_calibrate tp m1 of
            (m2, Inl _) \<Rightarrow> (m2, False)
          | (m2, Inr _) \<Rightarrow> (case modem_enter_hil_mode tp m2 of (m3, r) \<Rightarrow> (m3, \<not> isl r))))"

lemma discover_loop_step: "discover_loop tp factory (cfg # cfgs) modems =
    (if snd (bring_up tp factory cfg) then discover_loop tp factory cfgs (modems @ [fst (bring_up tp factory cfg)])
     else (modem_destroy tp (fst (bring_up tp factory cfg)) # map (modem_destroy tp) modems,
       snd (discover_loop tp factory (cfg # cfgs) modems))) \<and>
    (\<not> snd (bring_up tp factory cfg) \<longrightarrow> isl (snd (discover_loop tp factory (cfg # cfgs) modems)))"
  by (auto simp: bring_up_def Let_def split: prod.splits sum.splits bool.splits)

declare discover_loop.simps(2) [simp del]

text \<open>A start-up fails at the first modem that does not come up: the links given back are those of that modem and of
  the ones before it, each after its modem was destroyed.\<close>

lemma discover_loop_fails:
  assumes "discover_loop tp factory cfgs modems = (ts, Inl e)"
  shows "\<exists>k < length cfgs. (\<forall>i < k. snd (bring_up tp factory (cfgs ! i))) \<and> \<not> snd (bring_up tp factory (cfgs ! k)) \<and>
    ts = map (modem_destroy tp) (fst (bring_up tp factory (cfgs ! k)) # modems @ map (fst \<circ> bring_up tp factory) (take k cfgs))"
  using assms
proof (induction cfgs arbitrary: modems)
  case (Cons cfg cfgs)
  note step = discover_loop_step [of tp factory cfg cfgs modems]
  show ?case
  proof (cases "snd (bring_up tp factory cfg)")
    case True
    with step Cons.prems have "discover_loop tp factory cfgs (modems @ [fst (bring_up tp factory cfg)]) = (ts, Inl e)" by simp
    from Cons.IH [OF this] obtain k where k: "k < length cfgs" "\<forall>i < k. snd (bring_up tp factory (cfgs ! i))"
      "\<not> snd (bring_up tp factory (cfgs ! k))"
      "ts = map (modem_destroy tp) (fst (bring_up tp factory (cfgs ! k)) # (modems @ [fst (bring_up tp factory cfg)]) @
        map (fst \<circ> bring_up tp factory) (take k cfgs))" by blast
    then show ?thesis using True by (intro exI [of _ "Suc k"]) (auto simp: less_Suc_eq_0_disj)
  next
    case False
    with step Cons.prems have "ts = modem_destroy tp (fst (bring_up tp factory cfg)) # map (modem_destroy tp) modems"
      by (metis fst_conv)
    with False show ?thesis by (intro exI [of _ 0]) simp
  qed
qed simp

lemma discover_loop_succeeds: "\<forall>cfg \<in> set cfgs. snd (bring_up tp factory cfg) \<Longrightarrow>
    discover_loop tp factory cfgs modems = ([], Inr (modems @ map (fst \<circ> bring_up tp factory) cfgs))"
proof (induction cfgs arbitrary: modems)
  case (Cons cfg cfgs)
  with discover_loop_step [of tp factory cfg cfgs modems] show ?case by simp
qed simp

lemma discover_loop_result: "(\<exists>e. snd (discover_loop tp factory cfgs modems) = Inl e) \<longleftrightarrow> (\<exists>cfg \<in> set cfgs. \<not> snd (bring_up tp factory cfg))"
proof (cases "\<forall>cfg \<in> set cfgs. snd (bring_up tp factory cfg)")
  case True
  with discover_loop_succeeds show ?thesis by fastforce
next
  case False
  have "\<exists>e. snd (discover_loop tp factory cfgs modems) = Inl e" using False
  proof (induction cfgs arbitrary: modems)
    case (Cons cfg cfgs)
    with discover_loop_step [of tp factory cfg cfgs modems] show ?case
      by (cases "snd (bring_up tp factory cfg)") (auto simp: isl_def)
  qed simp
  with False show ?thesis by blast
qed

context modem_link
begin

lemma destroy_closes: "\<not> tp_is_open tp (modem_destroy tp m)"
  by (simp add: modem_destroy_def closed)

lemma discover_loop_closes:
  "discover_loop tp factory cfgs modems = (ts, Inl e) \<Longrightarrow>
     length modems < length ts \<and> (\<forall>t \<in> set ts. \<not> tp_is_open tp t)"
  using discover_loop_fails [of tp factory cfgs modems ts e] destroy_closes by fastforce

end

section \<open>The handshake with the mock modem\<close>

lemma mock_status_type: "encode_status (mock_status m) ! 0 = 1"
  by (simp add: encode_status_def mock_status_def)

lemma overwrite_all: "length w = length buf \<Longrightarrow> overwrite w buf = w"
  by (simp add: overwrite_def)

lemma mock_status_buffer: "length (encode_status (mock_status m)) = 64"
  by (rule length_encode_status) (simp add: mock_status_def zero_status_def)

text \<open>The mock modem after connecting and one calibration request.\<close>

definition mock_polled :: "mock \<Rightarrow> mock" where
  "mock_polled t = mock_apply_transitions (t\<lparr>mk_sim_time_ms := mk_sim_time_ms t + 5000\<rparr>)"

lemma mock_polled_fields:
  "mk_is_open (mock_polled t) = mk_is_open t" "mk_calibration (mock_polled t) = mk_calibration t"
  "mk_pending_calibration (mock_polled t) = mk_pending_calibration t"
  by (simp_all add: mock_polled_def mock_apply_transitions_def Let_def)

lemma mock_recv_status:
  assumes "mk_is_open t" and "\<not> mk_pending_calibration t"
  shows "tp_recv_control mock_transport 64 CTRL_TIMEOUT_MS t =
    (mock_polled t, result TS_OK 64, encode_status (mock_status (mock_polled t)))"
  using assms mock_polled_fields [of t]
  by (simp add: mock_transport_def mock_recv_control_def CTRL_TIMEOUT_MS_def Let_def mock_polled_def
      CONTROL_PACKET_BYTES_def)

lemma mock_recv_calibration:
  assumes "mk_is_open t" and "mk_pending_calibration t"
  shows "tp_recv_control mock_transport 64 CTRL_TIMEOUT_MS t =
    ((mock_polled t)\<lparr>mk_pending_calibration := False\<rparr>, result TS_OK 64,
     encode_calibration (mk_calibration t))"
  using assms mock_polled_fields [of t]
  by (simp add: mock_transport_def mock_recv_control_def CTRL_TIMEOUT_MS_def Let_def mock_polled_def
      CONTROL_PACKET_BYTES_def)

lemma calibrate_loop_status_only:
  assumes "mk_is_open (md_transport m)" and "\<not> mk_pending_calibration (md_transport m)"
    and "length buf = 64"
  shows "\<exists>e. snd (calibrate_loop mock_transport n buf m) = Inl e"
  using assms
proof (induction n arbitrary: buf m)
  case 0
  then show ?case by simp
next
  case (Suc n)
  let ?t = "mock_polled (md_transport m)"
  have "calibrate_loop mock_transport (Suc n) buf m =
      calibrate_loop mock_transport n (encode_status (mock_status ?t)) (m\<lparr>md_transport := ?t\<rparr>)"
    using Suc.prems mock_status_type [of ?t]
    by (simp add: mock_recv_status Let_def tr_timed_out_def tr_ok_def overwrite_all mock_status_buffer
        decode_calibration_other)
  moreover have "\<exists>e. snd (calibrate_loop mock_transport n (encode_status (mock_status ?t))
      (m\<lparr>md_transport := ?t\<rparr>)) = Inl e"
    by (rule Suc.IH) (use Suc.prems mock_polled_fields mock_status_buffer in simp_all)
  ultimately show ?case by simp
qed

lemma MAX_RETRIES_Suc: "MAX_RETRIES = Suc 9"
  by (simp add: MAX_RETRIES_def)

definition mock_asked :: "mock \<Rightarrow> mock" where
  "mock_asked t = (mock_polled (t\<lparr>mk_pending_calibration := True\<rparr>))\<lparr>mk_pending_calibration := False\<rparr>"

lemma mock_calibrate:
  fixes m :: "mock modem"
  assumes "mk_is_open (md_transport m)"
  defines "t \<equiv> mock_asked (md_transport m)"
    and "cal \<equiv> mk_calibration (md_transport m)"
  shows "validate_calibration_ranges cal \<Longrightarrow> modem_calibrate mock_transport m =
      (m\<lparr>md_transport := t, md_calibration := cal\<rparr>, Inr cal)"
    and "\<not> validate_calibration_ranges cal \<Longrightarrow> \<exists>e. snd (modem_calibrate mock_transport m) = Inl e"
proof -
  let ?t0 = "(md_transport m)\<lparr>mk_pending_calibration := True\<rparr>"
  have send: "tp_send_control mock_transport (encode_command REQUEST_CALIBRATION []) CTRL_TIMEOUT_MS
      (md_transport m) = (?t0, result TS_OK 64)"
    using assms(1) length_encode_command [of REQUEST_CALIBRATION "[]"]
    by (simp add: mock_transport_def mock_send_control_def Let_def)
      (simp add: encode_command_def command_packet_def Let_def)
  have buf: "overwrite (encode_calibration cal) (replicate CONTROL_PACKET_BYTES 0) = encode_calibration cal"
    by (rule overwrite_all) (simp add: length_encode_calibration CONTROL_PACKET_BYTES_def)
  have recv: "tp_recv_control mock_transport 64 CTRL_TIMEOUT_MS ?t0 =
      (t, result TS_OK 64, encode_calibration cal)"
    using assms(1) mock_recv_calibration [of ?t0] by (simp add: t_def cal_def mock_asked_def)
  have step: "modem_calibrate mock_transport m = (if validate_calibration_ranges cal
      then (m\<lparr>md_transport := t, md_calibration := cal\<rparr>, Inr cal)
      else calibrate_loop mock_transport 9 (encode_calibration cal)
        (m\<lparr>md_transport := t, md_calibration := cal\<rparr>))"
  proof -
    have "modem_calibrate mock_transport m = calibrate_loop mock_transport (Suc 9)
        (replicate CONTROL_PACKET_BYTES 0) (m\<lparr>md_transport := ?t0\<rparr>)"
      unfolding modem_calibrate_def send Let_def MAX_RETRIES_Suc by (simp add: tr_ok_def)
    also have "\<dots> = (if validate_calibration_ranges cal
      then (m\<lparr>md_transport := t, md_calibration := cal\<rparr>, Inr cal)
      else calibrate_loop mock_transport 9 (encode_calibration cal)
        (m\<lparr>md_transport := t, md_calibration := cal\<rparr>))"
      by (subst calibrate_loop.simps)
        (simp add: Let_def tr_ok_def tr_timed_out_def recv buf decode_encode_calibration)
    finally show ?thesis .
  qed
  show "validate_calibration_ranges cal \<Longrightarrow> modem_calibrate mock_transport m =
      (m\<lparr>md_transport := t, md_calibration := cal\<rparr>, Inr cal)" using step by simp
  assume "\<not> validate_calibration_ranges cal"
  then show "\<exists>e. snd (modem_calibrate mock_transport m) = Inl e"
    using step calibrate_loop_status_only
      [of "m\<lparr>md_transport := t, md_calibration := cal\<rparr>" "encode_calibration cal" 9]
      mock_polled_fields [of ?t0] assms(1)
    by (simp add: t_def mock_asked_def length_encode_calibration)
qed

text \<open>What a connected modem looks like after the whole start-up.\<close>

definition ready :: "(string \<Rightarrow> calibration_data) \<Rightarrow> mock modem \<Rightarrow> bool" where
  "ready cals m \<longleftrightarrow> mk_is_open (md_transport m) \<and> mk_state (md_transport m) = ST_RX \<and>
     md_calibration m = cals (md_id m)"

lemma discover_mocks:
  assumes "\<forall>s. factory s = mock_set_calibration (cals s) mock_new"
    and "\<forall>cfg \<in> set cfgs. validate_calibration_ranges (cals (mi_usb_serial cfg))"
    and "\<forall>m \<in> set modems. ready cals m"
  shows "\<exists>ms. discover_loop mock_transport factory cfgs modems = ([], Inr ms) \<and>
    map md_id ms = map md_id modems @ map mi_usb_serial cfgs \<and> (\<forall>m \<in> set ms. ready cals m)"
  using assms(2,3)
proof (induction cfgs arbitrary: modems)
  case Nil
  then show ?case by simp
next
  case (Cons cfg cfgs)
  let ?s = "mi_usb_serial cfg"
  let ?t = "(mock_set_calibration (cals ?s) mock_new)\<lparr>mk_is_open := True\<rparr>"
  let ?m1 = "\<lparr>md_transport = ?t, md_id = ?s, md_calibration = default_calibration,
     md_runtime_state = initial_runtime\<rparr>"
  have conn: "modem_connect mock_transport (modem_new (factory ?s) ?s) = (?m1, True)"
    using assms(1) by (simp add: modem_connect_def modem_new_def mock_transport_def mock_open_def Let_def)
  have valid: "validate_calibration_ranges (mk_calibration (md_transport ?m1))"
    using Cons.prems by (simp add: mock_set_calibration_def)
  let ?m2 = "?m1\<lparr>md_transport := mock_asked ?t, md_calibration := cals ?s\<rparr>"
  have cal: "modem_calibrate mock_transport ?m1 = (?m2, Inr (cals ?s))"
    using mock_calibrate(1) [of ?m1] valid by (simp add: mock_set_calibration_def)
  have idle: "mk_is_open (mock_asked ?t)" "mk_state (mock_asked ?t) = ST_IDLE"
    by (simp_all add: mock_asked_def mock_polled_def mock_apply_transitions_def mock_set_calibration_def
        mock_new_def Let_def)
  let ?m3 = "?m2\<lparr>md_transport := (mock_asked ?t)\<lparr>mk_state := ST_RX\<rparr>\<rparr>"
  have hil: "modem_enter_hil_mode mock_transport ?m2 = (?m3, Inr ())"
    using idle length_encode_command [of ENTER_HIL_MODE "[]"]
    by (simp add: modem_enter_hil_mode_def mock_transport_def mock_send_control_def Let_def tr_ok_def)
      (simp add: encode_command_def command_packet_def Let_def)
  have "discover_loop mock_transport factory (cfg # cfgs) modems =
      discover_loop mock_transport factory cfgs (modems @ [?m3])"
    using hil by (simp add: discover_loop.simps(2) conn cal Let_def)
  moreover have "\<forall>m \<in> set (modems @ [?m3]). ready cals m"
    using Cons.prems idle by (simp add: ready_def)
  ultimately show ?case using Cons.IH [of "modems @ [?m3]"] Cons.prems by simp
qed

section \<open>Properties\<close>

text \<open>With one mock modem per configured serial, each holding a calibration in range, start-up
  succeeds: every modem ends up open, in RX, in the configured order, with its own calibration
  received over the wire.\<close>

theorem startup_with_mocks_succeeds:
  assumes "\<forall>s. factory s = mock_set_calibration (cals s) mock_new"
    and "\<forall>cfg \<in> set cfgs. validate_calibration_ranges (cals (mi_usb_serial cfg))"
  shows "\<exists>ms. discover_and_connect mock_transport factory cfgs = ([], Inr ms) \<and>
    map md_id ms = map mi_usb_serial cfgs \<and>
    (\<forall>m \<in> set ms. mk_is_open (md_transport m) \<and> mk_state (md_transport m) = ST_RX \<and>
       md_calibration m = cals (md_id m))"
  using discover_mocks [OF assms, of "[]"] by (auto simp: discover_and_connect_def ready_def)

lemma default_calibration_valid: "validate_calibration_ranges default_calibration"
  by (simp add: validate_calibration_ranges_iff default_calibration_def default_fields)

text \<open>A mock modem comes up exactly when its calibration is in range.\<close>

lemma mock_bring_up:
  assumes "factory (mi_usb_serial cfg) = mock_set_calibration cal mock_new"
  shows "snd (bring_up mock_transport factory cfg) \<longleftrightarrow> validate_calibration_ranges cal"
proof -
  define m1 where "m1 = fst (modem_connect mock_transport (modem_new (factory (mi_usb_serial cfg)) (mi_usb_serial cfg)))"
  have "snd (modem_connect mock_transport (modem_new (factory (mi_usb_serial cfg)) (mi_usb_serial cfg)))"
    and m1: "mk_is_open (md_transport m1)" "mk_calibration (md_transport m1) = cal"
    unfolding m1_def assms by (simp_all add: modem_connect_def modem_new_def mock_transport_def mock_open_def mock_set_calibration_def Let_def)
  then have c: "modem_connect mock_transport (modem_new (factory (mi_usb_serial cfg)) (mi_usb_serial cfg)) = (m1, True)"
    by (simp add: m1_def prod_eq_iff)
  show ?thesis
  proof (cases "validate_calibration_ranges cal")
    case True
    define m2 where "m2 = m1\<lparr>md_transport := mock_asked (md_transport m1), md_calibration := cal\<rparr>"
    have cal: "modem_calibrate mock_transport m1 = (m2, Inr cal)" using mock_calibrate(1) [OF m1(1)] True m1(2) by (simp add: m2_def)
    have "mk_is_open (md_transport m2)"
      using m1(1) by (simp add: m2_def mock_asked_def mock_polled_def mock_apply_transitions_def Let_def)
    then have "snd (modem_enter_hil_mode mock_transport m2) = Inr ()"
      using length_encode_command [of ENTER_HIL_MODE "[]"]
      by (simp add: modem_enter_hil_mode_def mock_transport_def mock_send_control_def Let_def tr_ok_def)
    then obtain m3 where "modem_enter_hil_mode mock_transport m2 = (m3, Inr ())" by (metis prod.collapse)
    with True show ?thesis by (simp add: bring_up_def c cal)
  next
    case False
    then obtain m2 e where "modem_calibrate mock_transport m1 = (m2, Inl e)"
      using mock_calibrate(2) [OF m1(1)] m1(2) by (metis prod.collapse)
    with False show ?thesis by (simp add: bring_up_def c)
  qed
qed

theorem startup_with_mocks_succeeds_witness:
  "\<exists>ms. discover_and_connect mock_transport
      (\<lambda>s. mock_set_calibration default_calibration mock_new)
      [\<lparr>mi_id = ''a'', mi_usb_serial = ''S1''\<rparr>, \<lparr>mi_id = ''b'', mi_usb_serial = ''S2''\<rparr>] = ([], Inr ms) \<and>
    map md_id ms = [''S1'', ''S2'']"
  using startup_with_mocks_succeeds [of "\<lambda>s. mock_set_calibration default_calibration mock_new"
      "\<lambda>s. default_calibration"
      "[\<lparr>mi_id = ''a'', mi_usb_serial = ''S1''\<rparr>, \<lparr>mi_id = ''b'', mi_usb_serial = ''S2''\<rparr>]"]
    default_calibration_valid by auto

text \<open>Starting up the modems of a scenario over the mock link is all or nothing: when any step
  fails, every modem opened so far, including the one at hand, is closed again before the error
  reaches the caller.\<close>

theorem failed_startup_closes_all:
  assumes "discover_and_connect mock_transport factory cfgs = (ts, Inl e)"
  shows "ts \<noteq> [] \<and> (\<forall>t \<in> set ts. \<not> mk_is_open t)"
proof -
  have "length ([] :: mock modem list) < length ts \<and> (\<forall>t \<in> set ts. \<not> tp_is_open mock_transport t)"
    using assms unfolding discover_and_connect_def by (rule mock.discover_loop_closes)
  then show ?thesis by (auto simp: mock_transport_def)
qed

theorem failed_startup_closes_all_witness:
  "\<exists>t. fst (discover_and_connect mock_transport
      (\<lambda>s. mock_set_calibration (default_calibration\<lparr>cal_adc_vref_peak_volts := 0\<rparr>) mock_new)
      [\<lparr>mi_id = ''a'', mi_usb_serial = ''S1''\<rparr>]) = [t] \<and> \<not> mk_is_open t"
proof -
  let ?bad = "default_calibration\<lparr>cal_adc_vref_peak_volts := 0\<rparr>"
  let ?f = "\<lambda>s :: string. mock_set_calibration ?bad mock_new"
  let ?cfgs = "[\<lparr>mi_id = ''a'', mi_usb_serial = ''S1''\<rparr>]"
  let ?m1 = "fst (modem_connect mock_transport (modem_new (?f ''S1'') ''S1''))"
  have "f32_class 0 = Finite" "f32_value 0 = 0"
    by (simp_all add: f32_class_def f32_exponent_def f32_fraction_def f32_value_def Let_def)
  then have bad: "\<not> validate_calibration_ranges ?bad" by (simp add: validate_calibration_ranges_iff)
  have m1: "mk_is_open (md_transport ?m1)" "mk_calibration (md_transport ?m1) = ?bad"
    and conn: "snd (modem_connect mock_transport (modem_new (?f ''S1'') ''S1''))"
    by (simp_all add: modem_connect_def modem_new_def mock_transport_def mock_open_def
        mock_set_calibration_def Let_def)
  obtain m2 e where c: "modem_calibrate mock_transport ?m1 = (m2, Inl e)"
    using mock_calibrate(2) [OF m1(1)] bad m1(2) by (metis prod.collapse)
  then have d: "discover_and_connect mock_transport ?f ?cfgs = ([modem_destroy mock_transport m2], Inl e)"
    using conn by (simp add: discover_and_connect_def discover_loop.simps(2) Let_def)
  with failed_startup_closes_all [OF d] show ?thesis by simp
qed

text \<open>A calibration exchange ends after at most ten receives, whatever the link delivers, and an
  accepted calibration is within the checked ranges and the one stored in the modem.\<close>

theorem calibration_exchange_bounded:
  "receives_used tp MAX_RETRIES buf m \<le> 10 \<and>
   (\<forall>m' cal. modem_calibrate tp m = (m', Inr cal) \<longrightarrow>
      validate_calibration_ranges cal \<and> md_calibration m' = cal)"
proof
  show "receives_used tp MAX_RETRIES buf m \<le> 10"
    using receives_used_le [of tp MAX_RETRIES buf m] by (simp add: MAX_RETRIES_def)
  show "\<forall>m' cal. modem_calibrate tp m = (m', Inr cal) \<longrightarrow>
      validate_calibration_ranges cal \<and> md_calibration m' = cal"
    by (auto simp: modem_calibrate_def Let_def split: prod.splits if_splits dest: calibrate_loop_valid)
qed

theorem calibration_exchange_bounded_witness:
  "let m = modem_new (mock_new\<lparr>mk_is_open := True\<rparr>) ''S'' in
    validate_calibration_ranges (md_calibration (fst (modem_calibrate mock_transport m)))"
proof -
  let ?m = "modem_new (mock_new\<lparr>mk_is_open := True\<rparr>) ''S''"
  have "modem_calibrate mock_transport ?m = (?m\<lparr>md_transport := mock_asked (md_transport ?m),
      md_calibration := default_calibration\<rparr>, Inr default_calibration)"
    using mock_calibrate(1) [of ?m] default_calibration_valid by (simp add: modem_new_def mock_new_def)
  with calibration_exchange_bounded [of mock_transport "[]" ?m] show ?thesis
    by (auto simp: Let_def)
qed

end
