(* ===== verification/Usb_Transport.thy ===== *)
theory Usb_Transport
  imports Transport
begin

text \<open>
  \<open>src/transport/usb_transport.cpp\<close> and \<open>usb_device_discovery.cpp\<close>. libusb is not part of
  the repository: its calls are a record of functions on a library state \<open>'w\<close>, with devices
  \<open>'d\<close> and handles \<open>'h\<close> left abstract. Return codes are libusb's documented ones.
\<close>

section \<open>libusb, as far as it is called\<close>

definition LIBUSB_SUCCESS :: int where "LIBUSB_SUCCESS = 0"
definition LIBUSB_ERROR_NO_DEVICE :: int where "LIBUSB_ERROR_NO_DEVICE = - 4"
definition LIBUSB_ERROR_TIMEOUT :: int where "LIBUSB_ERROR_TIMEOUT = - 7"
definition LIBUSB_ERROR_PIPE :: int where "LIBUSB_ERROR_PIPE = - 9"

record usb_device_descriptor =
  ud_vendor :: u16
  ud_product :: u16
  ud_serial_index :: u8

record usb_endpoint =
  ue_attributes :: u8
  ue_address :: u8

text \<open>An interface is the endpoint list of its first alternate setting, \<open>None\<close> if it has no
  alternate setting.\<close>

type_synonym usb_interface = "usb_endpoint list option"

record ('w, 'd, 'h) libusb =
  lu_get_device_list :: "'w \<Rightarrow> 'w \<times> 'd list option"
  lu_get_device_descriptor :: "'d \<Rightarrow> 'w \<Rightarrow> usb_device_descriptor option"
  lu_bus_number :: "'d \<Rightarrow> u8"
  lu_port_number :: "'d \<Rightarrow> u8"
  lu_open :: "'d \<Rightarrow> 'w \<Rightarrow> 'w \<times> int \<times> 'h"
  lu_close :: "'h \<Rightarrow> 'w \<Rightarrow> 'w"
  lu_ref_device :: "'d \<Rightarrow> 'w \<Rightarrow> 'w"
  lu_unref_device :: "'d \<Rightarrow> 'w \<Rightarrow> 'w"
  lu_free_device_list :: "'d list \<Rightarrow> 'w \<Rightarrow> 'w"
  lu_string_descriptor :: "'h \<Rightarrow> u8 \<Rightarrow> 'w \<Rightarrow> 'w \<times> string option"
  lu_kernel_driver_active :: "'h \<Rightarrow> int \<Rightarrow> 'w \<Rightarrow> int"
  lu_detach_kernel_driver :: "'h \<Rightarrow> int \<Rightarrow> 'w \<Rightarrow> 'w"
  lu_claim_interface :: "'h \<Rightarrow> int \<Rightarrow> 'w \<Rightarrow> 'w \<times> int"
  lu_release_interface :: "'h \<Rightarrow> int \<Rightarrow> 'w \<Rightarrow> 'w"
  lu_bulk_transfer :: "'h \<Rightarrow> u8 \<Rightarrow> u8 list \<Rightarrow> nat \<Rightarrow> int \<Rightarrow> 'w \<Rightarrow> 'w \<times> int \<times> int \<times> u8 list"
  lu_active_config :: "'h \<Rightarrow> 'w \<Rightarrow> 'w \<times> usb_interface list option"

section \<open>Discovery\<close>

definition HIL_MODEM_VENDOR_ID :: u16 where "HIL_MODEM_VENDOR_ID = 0xCAFE"
definition HIL_MODEM_PRODUCT_ID :: u16 where "HIL_MODEM_PRODUCT_ID = 0x4001"

record usb_device_info =
  ui_serial_number :: string
  ui_bus :: u8
  ui_port :: u8

definition read_string_descriptor ::
  "('w, 'd, 'h) libusb \<Rightarrow> 'd \<Rightarrow> u8 \<Rightarrow> 'w \<Rightarrow> 'w \<times> string" where
  "read_string_descriptor lu dev index w =
     (if index = 0 then (w, [])
      else case lu_open lu dev w of (w1, ret, handle) \<Rightarrow>
        if ret \<noteq> LIBUSB_SUCCESS then (w1, [])
        else case lu_string_descriptor lu handle index w1 of (w2, s) \<Rightarrow>
          let w3 = lu_close lu handle w2
          in case s of None \<Rightarrow> (w3, []) | Some str \<Rightarrow> (w3, str))"

definition is_hil_modem :: "usb_device_descriptor \<Rightarrow> bool" where
  "is_hil_modem desc \<longleftrightarrow>
     \<not> (ud_vendor desc \<noteq> HIL_MODEM_VENDOR_ID \<or> ud_product desc \<noteq> HIL_MODEM_PRODUCT_ID)"

fun discover_scan :: "('w, 'd, 'h) libusb \<Rightarrow> 'd list \<Rightarrow> 'w \<Rightarrow> 'w \<times> usb_device_info list" where
  "discover_scan lu [] w = (w, [])"
| "discover_scan lu (dev # devs) w =
     (case lu_get_device_descriptor lu dev w of
        None \<Rightarrow> discover_scan lu devs w
      | Some desc \<Rightarrow>
          (if \<not> is_hil_modem desc then discover_scan lu devs w
           else case read_string_descriptor lu dev (ud_serial_index desc) w of (w1, serial) \<Rightarrow>
             case discover_scan lu devs w1 of (w2, infos) \<Rightarrow>
               (w2, \<lparr>ui_serial_number = serial, ui_bus = lu_bus_number lu dev,
                     ui_port = lu_port_number lu dev\<rparr> # infos)))"

definition discover_hil_modems :: "('w, 'd, 'h) libusb \<Rightarrow> 'w \<Rightarrow> 'w \<times> usb_device_info list" where
  "discover_hil_modems lu w =
     (case lu_get_device_list lu w of
        (w1, None) \<Rightarrow> (w1, [])
      | (w1, Some devs) \<Rightarrow> (case discover_scan lu devs w1 of (w2, infos) \<Rightarrow>
          (lu_free_device_list lu devs w2, infos)))"

fun find_scan :: "('w, 'd, 'h) libusb \<Rightarrow> string \<Rightarrow> 'd list \<Rightarrow> 'w \<Rightarrow> 'w \<times> 'd option" where
  "find_scan lu serial_number [] w = (w, None)"
| "find_scan lu serial_number (dev # devs) w =
     (case lu_get_device_descriptor lu dev w of
        None \<Rightarrow> find_scan lu serial_number devs w
      | Some desc \<Rightarrow>
          (if \<not> is_hil_modem desc then find_scan lu serial_number devs w
           else case read_string_descriptor lu dev (ud_serial_index desc) w of (w1, serial) \<Rightarrow>
             if serial = serial_number then (lu_ref_device lu dev w1, Some dev)
             else find_scan lu serial_number devs w1))"

definition find_device_by_serial ::
  "('w, 'd, 'h) libusb \<Rightarrow> string \<Rightarrow> 'w \<Rightarrow> 'w \<times> 'd option" where
  "find_device_by_serial lu serial_number w =
     (case lu_get_device_list lu w of
        (w1, None) \<Rightarrow> (w1, None)
      | (w1, Some devs) \<Rightarrow> (case find_scan lu serial_number devs w1 of (w2, found) \<Rightarrow>
          (lu_free_device_list lu devs w2, found)))"

section \<open>The transport\<close>

record ('w, 'h) usb =
  us_world :: 'w
  us_has_ctx :: bool
  us_handle :: "'h option"
  us_data_ep_in :: u8
  us_data_ep_out :: u8
  us_ctrl_ep_in :: u8
  us_ctrl_ep_out :: u8

definition DATA_INTERFACE_NUM :: int where "DATA_INTERFACE_NUM = 2"
definition CTRL_INTERFACE_NUM :: int where "CTRL_INTERFACE_NUM = 3"

definition usb_new :: "int \<Rightarrow> 'w \<Rightarrow> ('w, 'h) usb" where
  "usb_new init_ret w = \<lparr>us_world = w, us_has_ctx = (init_ret = LIBUSB_SUCCESS), us_handle = None,
     us_data_ep_in = 0x83, us_data_ep_out = 0x03, us_ctrl_ep_in = 0x84, us_ctrl_ep_out = 0x04\<rparr>"

definition usb_close :: "('w, 'd, 'h) libusb \<Rightarrow> ('w, 'h) usb \<Rightarrow> ('w, 'h) usb" where
  "usb_close lu u =
     (case us_handle u of None \<Rightarrow> u
      | Some h \<Rightarrow> u\<lparr>us_world := lu_close lu h (lu_release_interface lu h DATA_INTERFACE_NUM
          (lu_release_interface lu h CTRL_INTERFACE_NUM (us_world u))), us_handle := None\<rparr>)"

definition usb_is_open :: "('w, 'h) usb \<Rightarrow> bool" where
  "usb_is_open u = (us_handle u \<noteq> None)"

definition map_libusb_error :: "int \<Rightarrow> int \<Rightarrow> transfer_result" where
  "map_libusb_error err transferred =
     (if err = LIBUSB_SUCCESS then result TS_OK transferred
      else if err = LIBUSB_ERROR_TIMEOUT then result TS_TIMEOUT transferred
      else if err = LIBUSB_ERROR_NO_DEVICE \<or> err = LIBUSB_ERROR_PIPE then result TS_DISCONNECTED 0
      else result TS_ERROR 0)"

definition bulk_transfer :: "('w, 'd, 'h) libusb \<Rightarrow> u8 \<Rightarrow> u8 list \<Rightarrow> nat \<Rightarrow> int \<Rightarrow> ('w, 'h) usb \<Rightarrow>
    ('w, 'h) usb \<times> transfer_result \<times> u8 list" where
  "bulk_transfer lu endpoint data len timeout_ms u =
     (case us_handle u of None \<Rightarrow> (u, result TS_DISCONNECTED 0, [])
      | Some h \<Rightarrow> (case lu_bulk_transfer lu h endpoint data len timeout_ms (us_world u) of
          (w, ret, transferred, written) \<Rightarrow>
            (u\<lparr>us_world := w\<rparr>, map_libusb_error ret transferred, written)))"

text \<open>At most 16 short reads of 4096 bytes; anything but a non-empty success ends it.\<close>

fun drain_loop :: "('w, 'd, 'h) libusb \<Rightarrow> 'h \<Rightarrow> u8 \<Rightarrow> nat \<Rightarrow> 'w \<Rightarrow> 'w" where
  "drain_loop lu h endpoint 0 w = w"
| "drain_loop lu h endpoint (Suc n) w =
     (case lu_bulk_transfer lu h endpoint [] 4096 5 w of (w1, ret, transferred, _) \<Rightarrow>
        if ret = LIBUSB_ERROR_TIMEOUT then w1
        else if ret \<noteq> LIBUSB_SUCCESS then w1
        else if transferred = 0 then w1
        else drain_loop lu h endpoint n w1)"

definition drain_in_endpoint :: "('w, 'd, 'h) libusb \<Rightarrow> u8 \<Rightarrow> ('w, 'h) usb \<Rightarrow> ('w, 'h) usb" where
  "drain_in_endpoint lu endpoint u =
     (case us_handle u of None \<Rightarrow> u
      | Some h \<Rightarrow> u\<lparr>us_world := drain_loop lu h endpoint 16 (us_world u)\<rparr>)"

text \<open>The last IN and the last OUT bulk endpoint of an interface; 0 when there is none.\<close>

fun bulk_endpoints :: "usb_endpoint list \<Rightarrow> u8 \<Rightarrow> u8 \<Rightarrow> u8 \<times> u8" where
  "bulk_endpoints [] ep_in ep_out = (ep_in, ep_out)"
| "bulk_endpoints (ep # eps) ep_in ep_out =
     (if ue_attributes ep AND 0x03 \<noteq> 0x02 then bulk_endpoints eps ep_in ep_out
      else if ue_address ep AND 0x80 \<noteq> 0 then bulk_endpoints eps (ue_address ep) ep_out
      else bulk_endpoints eps ep_in (ue_address ep))"

fun endpoint_scan :: "usb_interface list \<Rightarrow> nat \<Rightarrow> bool \<Rightarrow> bool \<Rightarrow> ('w, 'h) usb \<Rightarrow>
    ('w, 'h) usb \<times> bool \<times> bool" where
  "endpoint_scan [] i data_ok ctrl_ok u = (u, data_ok, ctrl_ok)"
| "endpoint_scan (iface # ifaces) i data_ok ctrl_ok u =
     (if data_ok \<and> ctrl_ok then (u, data_ok, ctrl_ok)
      else case iface of None \<Rightarrow> endpoint_scan ifaces (i + 1) data_ok ctrl_ok u
        | Some eps \<Rightarrow> (case bulk_endpoints eps 0 0 of (ep_in, ep_out) \<Rightarrow>
            if int i = DATA_INTERFACE_NUM \<and> ep_in \<noteq> 0 \<and> ep_out \<noteq> 0
            then endpoint_scan ifaces (i + 1) True ctrl_ok
                   (u\<lparr>us_data_ep_in := ep_in, us_data_ep_out := ep_out\<rparr>)
            else if int i = CTRL_INTERFACE_NUM \<and> ep_in \<noteq> 0 \<and> ep_out \<noteq> 0
            then endpoint_scan ifaces (i + 1) data_ok True
                   (u\<lparr>us_ctrl_ep_in := ep_in, us_ctrl_ep_out := ep_out\<rparr>)
            else endpoint_scan ifaces (i + 1) data_ok ctrl_ok u))"

definition discover_endpoints :: "('w, 'd, 'h) libusb \<Rightarrow> 'h \<Rightarrow> ('w, 'h) usb \<Rightarrow> ('w, 'h) usb \<times> bool" where
  "discover_endpoints lu h u =
     (case lu_active_config lu h (us_world u) of
        (w, None) \<Rightarrow> (u\<lparr>us_world := w\<rparr>, False)
      | (w, Some config) \<Rightarrow> (case endpoint_scan config 0 False False (u\<lparr>us_world := w\<rparr>) of
          (u', data_ok, ctrl_ok) \<Rightarrow> (u', data_ok \<and> ctrl_ok)))"

definition detach_drivers :: "('w, 'd, 'h) libusb \<Rightarrow> 'h \<Rightarrow> 'w \<Rightarrow> 'w" where
  "detach_drivers lu h w =
     fold (\<lambda>iface w. if lu_kernel_driver_active lu h iface w = 1
            then lu_detach_kernel_driver lu h iface w else w)
       [DATA_INTERFACE_NUM, CTRL_INTERFACE_NUM] w"

text \<open>Claiming in order; the boolean is false at the first refusal.\<close>

fun claim_interfaces :: "('w, 'd, 'h) libusb \<Rightarrow> 'h \<Rightarrow> int list \<Rightarrow> 'w \<Rightarrow> 'w \<times> bool" where
  "claim_interfaces lu h [] w = (w, True)"
| "claim_interfaces lu h (iface # ifaces) w =
     (case lu_claim_interface lu h iface w of (w1, ret) \<Rightarrow>
        if ret \<noteq> LIBUSB_SUCCESS then (w1, False) else claim_interfaces lu h ifaces w1)"

definition usb_open :: "('w, 'd, 'h) libusb \<Rightarrow> string \<Rightarrow> ('w, 'h) usb \<Rightarrow> ('w, 'h) usb \<times> bool" where
  "usb_open lu usb_serial u0 =
     (if \<not> us_has_ctx u0 then (u0, False)
      else let u = (if us_handle u0 \<noteq> None then usb_close lu u0 else u0)
        in case find_device_by_serial lu usb_serial (us_world u) of
          (w1, None) \<Rightarrow> (u\<lparr>us_world := w1\<rparr>, False)
        | (w1, Some dev) \<Rightarrow> (case lu_open lu dev w1 of (w2, ret, h) \<Rightarrow>
            let w3 = lu_unref_device lu dev w2
            in if ret \<noteq> LIBUSB_SUCCESS then (u\<lparr>us_world := w3, us_handle := None\<rparr>, False)
               else case claim_interfaces lu h [DATA_INTERFACE_NUM, CTRL_INTERFACE_NUM]
                        (detach_drivers lu h w3) of
                 (w4, claimed) \<Rightarrow>
                   let u1 = u\<lparr>us_world := w4, us_handle := Some h\<rparr>
                   in if \<not> claimed then (usb_close lu u1, False)
                      else case discover_endpoints lu h u1 of (u2, found) \<Rightarrow>
                        if \<not> found then (usb_close lu u2, False)
                        else (drain_in_endpoint lu (us_data_ep_in u2)
                               (drain_in_endpoint lu (us_ctrl_ep_in u2) u2), True)))"

definition usb_send_data :: "('w, 'd, 'h) libusb \<Rightarrow> u8 list \<Rightarrow> int \<Rightarrow> ('w, 'h) usb \<Rightarrow> ('w, 'h) usb \<times> transfer_result" where
  "usb_send_data lu data timeout_ms u =
     (case bulk_transfer lu (us_data_ep_out u) data (length data) timeout_ms u of (u', r, _) \<Rightarrow> (u', r))"

definition usb_recv_data :: "('w, 'd, 'h) libusb \<Rightarrow> nat \<Rightarrow> int \<Rightarrow> ('w, 'h) usb \<Rightarrow> ('w, 'h) usb \<times> transfer_result \<times> u8 list" where
  "usb_recv_data lu len timeout_ms u = bulk_transfer lu (us_data_ep_in u) [] len timeout_ms u"

definition usb_send_control :: "('w, 'd, 'h) libusb \<Rightarrow> u8 list \<Rightarrow> int \<Rightarrow> ('w, 'h) usb \<Rightarrow> ('w, 'h) usb \<times> transfer_result" where
  "usb_send_control lu data timeout_ms u =
     (case bulk_transfer lu (us_ctrl_ep_out u) data (length data) timeout_ms u of (u', r, _) \<Rightarrow> (u', r))"

definition usb_recv_control :: "('w, 'd, 'h) libusb \<Rightarrow> nat \<Rightarrow> int \<Rightarrow> ('w, 'h) usb \<Rightarrow> ('w, 'h) usb \<times> transfer_result \<times> u8 list" where
  "usb_recv_control lu len timeout_ms u = bulk_transfer lu (us_ctrl_ep_in u) [] len timeout_ms u"

definition usb_transport :: "('w, 'd, 'h) libusb \<Rightarrow> ('w, 'h) usb transport" where
  "usb_transport lu = \<lparr>tp_open = usb_open lu, tp_close = usb_close lu, tp_is_open = usb_is_open,
     tp_send_data = usb_send_data lu, tp_recv_data = usb_recv_data lu,
     tp_send_control = usb_send_control lu, tp_recv_control = usb_recv_control lu\<rparr>"

interpretation usb: modem_link "usb_transport lu"
  by unfold_locales (auto simp: usb_transport_def usb_is_open_def usb_close_def usb_send_data_def
    usb_send_control_def usb_recv_data_def usb_recv_control_def bulk_transfer_def split: option.splits)

section \<open>Properties\<close>

lemma usb_close_closed: "us_handle (usb_close lu u) = None"
  by (simp add: usb_close_def split: option.splits)

lemma endpoint_scan_handle: "us_handle (fst (endpoint_scan ifs i d c u)) = us_handle u"
  by (induction ifs i d c u rule: endpoint_scan.induct) (auto split: option.splits prod.splits)

lemma discover_endpoints_handle: "us_handle (fst (discover_endpoints lu h u)) = us_handle u"
proof -
  have "us_handle u' = us_handle (u\<lparr>us_world := w\<rparr>)"
    if "endpoint_scan c 0 False False (u\<lparr>us_world := w\<rparr>) = (u', b)" for c w u' b
    using endpoint_scan_handle [of c 0 False False "u\<lparr>us_world := w\<rparr>"] that by simp
  then show ?thesis
    by (auto simp: discover_endpoints_def split: prod.splits option.splits)
qed

lemma drain_handle: "us_handle (drain_in_endpoint lu e u) = us_handle u"
  by (simp add: drain_in_endpoint_def split: option.splits)

text \<open>Opening a USB modem leaves a handle exactly when it reports success: every failing step
  (no context, device not found, open, claim, endpoint layout) leaves the transport closed, and
  a handle left over from before is closed first.\<close>

theorem usb_open_all_or_nothing:
  assumes "us_has_ctx u"
  shows "usb_is_open (fst (usb_open lu serial u)) = snd (usb_open lu serial u)"
proof -
  have found: "us_handle u2 = us_handle u1" if "discover_endpoints lu h u1 = (u2, b)" for h u1 u2 b
    using discover_endpoints_handle [of lu h u1] that by simp
  show ?thesis
    using assms
    by (auto simp: usb_open_def Let_def usb_is_open_def usb_close_closed drain_handle
        split: prod.splits option.splits if_splits dest!: found)
qed

text \<open>A library with one HIL modem, as a concrete instance of the parameters.\<close>

definition one_modem_libusb :: "(unit, unit, unit) libusb" where
  "one_modem_libusb = \<lparr>lu_get_device_list = \<lambda>w. (w, Some [()]),
     lu_get_device_descriptor = \<lambda>d w. Some \<lparr>ud_vendor = 0xCAFE, ud_product = 0x4001, ud_serial_index = 3\<rparr>,
     lu_bus_number = \<lambda>d. 1, lu_port_number = \<lambda>d. 2, lu_open = \<lambda>d w. (w, 0, ()), lu_close = \<lambda>h w. w,
     lu_ref_device = \<lambda>d w. w, lu_unref_device = \<lambda>d w. w, lu_free_device_list = \<lambda>l w. w,
     lu_string_descriptor = \<lambda>h i w. (w, Some ''S1''), lu_kernel_driver_active = \<lambda>h i w. 0,
     lu_detach_kernel_driver = \<lambda>h i w. w, lu_claim_interface = \<lambda>h i w. (w, 0),
     lu_release_interface = \<lambda>h i w. w,
     lu_bulk_transfer = \<lambda>h e d n ms w. (w, LIBUSB_ERROR_TIMEOUT, 0, []),
     lu_active_config = \<lambda>h w. (w, Some [None, None,
       Some [\<lparr>ue_attributes = 2, ue_address = 0x83\<rparr>, \<lparr>ue_attributes = 2, ue_address = 0x03\<rparr>],
       Some [\<lparr>ue_attributes = 2, ue_address = 0x84\<rparr>, \<lparr>ue_attributes = 2, ue_address = 0x04\<rparr>]])\<rparr>"

theorem usb_open_all_or_nothing_witness:
  "usb_is_open (fst (usb_open one_modem_libusb ''S2'' (usb_new 0 ()))) = False"
proof -
  have "us_has_ctx (usb_new 0 ())" by (simp add: usb_new_def LIBUSB_SUCCESS_def)
  note u = usb_open_all_or_nothing [OF this, of one_modem_libusb "''S2''"]
  have "\<not> snd (usb_open one_modem_libusb ''S2'' (usb_new 0 ()))"
    by (simp add: usb_open_def usb_new_def one_modem_libusb_def find_device_by_serial_def
        is_hil_modem_def read_string_descriptor_def HIL_MODEM_VENDOR_ID_def HIL_MODEM_PRODUCT_ID_def
        LIBUSB_SUCCESS_def Let_def)
  with u show ?thesis by simp
qed

text \<open>What a bulk transfer reports: success and time-out keep the byte count, a lost device or a
  stalled pipe is a disconnect, everything else an error without bytes, and a closed transport is a
  disconnect without touching the library.\<close>

theorem usb_transfer_results:
  "map_libusb_error err n = \<lparr>tr_status = (if err = 0 then TS_OK else if err = - 7 then TS_TIMEOUT
      else if err = - 4 \<or> err = - 9 then TS_DISCONNECTED else TS_ERROR),
     tr_bytes = (if err = 0 \<or> err = - 7 then n else 0)\<rparr> \<and>
   (us_handle u = None \<longrightarrow> bulk_transfer lu e d len ms u = (u, result TS_DISCONNECTED 0, []))"
  by (simp add: map_libusb_error_def LIBUSB_SUCCESS_def LIBUSB_ERROR_TIMEOUT_def
      LIBUSB_ERROR_NO_DEVICE_def LIBUSB_ERROR_PIPE_def bulk_transfer_def)

theorem usb_transfer_results_witness:
  "bulk_transfer one_modem_libusb 0x83 [] 512 10 (usb_new 0 ()) =
     (usb_new 0 (), result TS_DISCONNECTED 0, [])"
  using usb_transfer_results [of 0 0 "usb_new 0 ()" one_modem_libusb "0x83" "[]" 512 10]
  by (simp add: usb_new_def)

end
