(* ===== verification/Delay_Lines.thy ===== *)
theory Delay_Lines
  imports Pair_Buffer
begin

text \<open>
  The sample stores of the signal path: \<open>dsp/delay_line\<close> (integer delays),
  \<open>dsp/source_delay_line\<close> (fractional reads by cubic interpolation) and \<open>dsp/per_tap_farrow\<close>
  (one tap of one output block). Positions are unbounded naturals; a read position is a double.
\<close>

section \<open>Delay line\<close>

record delay_line =
  dl_buffer :: "real list"
  dl_write_pos :: nat

definition delay_line_new :: "nat \<Rightarrow> error + delay_line" where
  "delay_line_new capacity =
    (if capacity = 0 then Inl (Invalid_Argument ''DelayLine: capacity must be > 0'')
     else Inr \<lparr>dl_buffer = replicate capacity 0, dl_write_pos = 0\<rparr>)"

definition dl_write :: "real \<Rightarrow> delay_line \<Rightarrow> delay_line" where
  "dl_write sample d =
    (let p = dl_write_pos d + 1
     in d\<lparr>dl_buffer := (dl_buffer d)[dl_write_pos d := sample],
          dl_write_pos := (if length (dl_buffer d) \<le> p then 0 else p)\<rparr>)"

fun dl_write_block :: "real list \<Rightarrow> delay_line \<Rightarrow> delay_line" where
  "dl_write_block [] d = d"
| "dl_write_block (x # xs) d = dl_write_block xs (dl_write x d)"

text \<open>The index is computed on \<open>size_t\<close>; it cannot wrap while \<open>delay < capacity\<close>.\<close>

definition dl_read :: "nat \<Rightarrow> delay_line \<Rightarrow> real" where
  "dl_read delay_samples d =
    (let sz = length (dl_buffer d)
     in dl_buffer d ! ((dl_write_pos d + sz - 1 - delay_samples) mod sz))"

definition dl_reset :: "delay_line \<Rightarrow> delay_line" where
  "dl_reset d = d\<lparr>dl_buffer := map (\<lambda>_. 0) (dl_buffer d), dl_write_pos := 0\<rparr>"

lemma dl_write_read:
  assumes "dl_write_pos d < length (dl_buffer d)" and "k < length (dl_buffer d)"
  shows "dl_read k (dl_write x d) = (if k = 0 then x else dl_read (k - 1) d)"
    and "dl_write_pos (dl_write x d) < length (dl_buffer (dl_write x d))"
    and "length (dl_buffer (dl_write x d)) = length (dl_buffer d)"
proof -
  let ?c = "length (dl_buffer d)" and ?p = "dl_write_pos d"
  let ?q = "if ?c \<le> ?p + 1 then 0 else ?p + 1"
  have q: "(?q + ?c - 1 - k) mod ?c = (?p + ?c - k) mod ?c"
    using assms by (cases "?c \<le> ?p + 1") (auto simp: mod_if)
  have r: "dl_read k (dl_write x d) = (dl_buffer d)[?p := x] ! ((?p + ?c - k) mod ?c)"
    using q by (simp add: dl_read_def dl_write_def Let_def split: if_splits)
  have m: "(?p + ?c - k) mod ?c = (if k \<le> ?p then ?p - k else ?p + ?c - k)"
  proof (cases "k \<le> ?p")
    case True
    then have "?p + ?c - k = (?p - k) + ?c" by simp
    then have "(?p + ?c - k) mod ?c = (?p - k) mod ?c" by (metis mod_add_self2)
    also have "\<dots> = ?p - k" by (rule mod_less) (use assms in simp)
    finally show ?thesis using True by simp
  next
    case False
    then have "?p + ?c - k < ?c" using assms by simp
    with False show ?thesis by (simp only: mod_less if_False)
  qed
  show "dl_read k (dl_write x d) = (if k = 0 then x else dl_read (k - 1) d)"
  proof (cases "k = 0")
    case True
    with r assms(1) show ?thesis by simp
  next
    case False
    have "(?p + ?c - k) mod ?c \<noteq> ?p" unfolding m using False assms by auto
    then have "dl_read k (dl_write x d) = dl_buffer d ! ((?p + ?c - k) mod ?c)" using r by simp
    also have "?p + ?c - k = ?p + ?c - 1 - (k - 1)" using False by simp
    finally show ?thesis using False unfolding dl_read_def Let_def by simp
  qed
  show "dl_write_pos (dl_write x d) < length (dl_buffer (dl_write x d))"
    "length (dl_buffer (dl_write x d)) = length (dl_buffer d)"
    using assms by (auto simp: dl_write_def Let_def)
qed

lemma dl_block_read:
  assumes "dl_write_pos d < length (dl_buffer d)" and "k < length (dl_buffer d)"
  shows "dl_read k (dl_write_block xs d) =
    (if k < length xs then xs ! (length xs - 1 - k) else dl_read (k - length xs) d)"
  using assms
proof (induction xs arbitrary: d)
  case Nil
  then show ?case by simp
next
  case (Cons x xs)
  note w = dl_write_read [OF Cons.prems(1)]
  have "dl_read k (dl_write_block xs (dl_write x d)) = (if k < length xs then xs ! (length xs - 1 - k)
      else dl_read (k - length xs) (dl_write x d))"
    by (rule Cons.IH) (use w(2,3) [OF Cons.prems(2)] Cons.prems in simp_all)
  moreover have "k - length xs < length (dl_buffer d)" using Cons.prems by simp
  note w(1) [OF this]
  ultimately show ?case by (auto simp: nth_Cons' not_less le_Suc_eq)
qed

text \<open>After any samples written to a new delay line, in blocks or one by one, reading back at
  a delay below the capacity gives the sample that many writes ago, and silence before the first.\<close>

theorem delay_line_reads_history:
  assumes "delay_line_new capacity = Inr d" and "k < capacity"
  shows "dl_read k (dl_write_block ys (dl_write_block xs d)) =
    (if k < length (xs @ ys) then (xs @ ys) ! (length (xs @ ys) - 1 - k) else 0)"
proof -
  have d: "d = \<lparr>dl_buffer = replicate capacity 0, dl_write_pos = 0\<rparr>" and c: "0 < capacity"
    using assms by (auto simp: delay_line_new_def split: if_splits)
  have app: "dl_write_block ys (dl_write_block xs d) = dl_write_block (xs @ ys) d"
    by (induction xs arbitrary: d) simp_all
  have "dl_read k (dl_write_block (xs @ ys) d) = (if k < length (xs @ ys)
      then (xs @ ys) ! (length (xs @ ys) - 1 - k) else dl_read (k - length (xs @ ys)) d)"
    by (rule dl_block_read) (use d c assms(2) in simp_all)
  moreover have "dl_read j d = 0" if "j < capacity" for j
    using that c by (simp add: d dl_read_def Let_def)
  ultimately show ?thesis unfolding app using assms(2) by simp
qed

theorem delay_line_reads_history_witness:
  "dl_read 1 (dl_write_block [7] (dl_write_block [5, 6] \<lparr>dl_buffer = replicate 2 0, dl_write_pos = 0\<rparr>)) = 6"
  using delay_line_reads_history [of 2 "\<lparr>dl_buffer = replicate 2 0, dl_write_pos = 0\<rparr>" 1 "[7]" "[5, 6]"]
  by (simp add: delay_line_new_def)

section \<open>Cubic interpolation\<close>

text \<open>The Horner form both interpolators share, in the code's order of operations.\<close>

definition catmull_rom :: "real \<Rightarrow> real \<Rightarrow> real \<Rightarrow> real \<Rightarrow> real \<Rightarrow> real" where
  "catmull_rom h0 h1 h2 h3 t =
    fadd h1 (fmul (fmul (1/2) t) (fadd (fsub h2 h0)
      (fmul t (fadd (fsub (fadd (fsub (fmul 2 h0) (fmul 5 h1)) (fmul 4 h2)) h3)
                    (fmul t (fsub (fadd (fmul 3 (fsub h1 h2)) h3) h0))))))"

lemma catmull_rom_0: "f32 h1 = h1 \<Longrightarrow> catmull_rom h0 h1 h2 h3 0 = h1"
  by (simp add: catmull_rom_def)

section \<open>Source delay line\<close>

record source_delay_line =
  sl_buffer :: "real list"
  sl_mask :: nat
  sl_producer_position :: nat

definition sdl_resize :: "nat \<Rightarrow> source_delay_line" where
  "sdl_resize capacity_samples = (let cap = round_up_pow2 capacity_samples
     in \<lparr>sl_buffer = replicate cap 0, sl_mask = cap - 1, sl_producer_position = 0\<rparr>)"

definition sdl_clear :: "source_delay_line \<Rightarrow> source_delay_line" where
  "sdl_clear s = s\<lparr>sl_buffer := map (\<lambda>_. 0) (sl_buffer s), sl_producer_position := 0\<rparr>"

definition sdl_write :: "real list \<Rightarrow> source_delay_line \<Rightarrow> source_delay_line" where
  "sdl_write xs s = s\<lparr>sl_buffer := ring_upd (\<lambda>i. i AND sl_mask s) (\<lambda>x _. x) (sl_producer_position s) xs (sl_buffer s),
     sl_producer_position := sl_producer_position s + length xs\<rparr>"

text \<open>Negative positions wrap to \<open>uint64\<close> before the mask.\<close>

definition sdl_at :: "source_delay_line \<Rightarrow> int \<Rightarrow> real" where
  "sdl_at s n = sl_buffer s ! (nat (n mod 2 ^ 64) AND sl_mask s)"

definition sdl_read_at :: "real \<Rightarrow> source_delay_line \<Rightarrow> real" where
  "sdl_read_at pos s =
    (let n = \<lfloor>pos\<rfloor>; mu = f32 (dsub pos (of_int n))
     in catmull_rom (sdl_at s (n - 1)) (sdl_at s n) (sdl_at s (n + 1)) (sdl_at s (n + 2)) mu)"

section \<open>One tap of one block\<close>

record tap_state =
  tp_delay_start :: real
  tp_delay_end :: real
  tp_amplitude_start :: real
  tp_amplitude_end :: real

definition per_tap_sample :: "source_delay_line \<Rightarrow> tap_state \<Rightarrow> real \<Rightarrow> nat \<Rightarrow> nat \<Rightarrow> real" where
  "per_tap_sample src tap out_pos_start n_out i =
    (let inv_n = ddiv 1 (f64 (real n_out));
         delay_d = dsub (tp_delay_end tap) (tp_delay_start tap);
         amp_start = tp_amplitude_start tap;
         amp_d = dsub (tp_amplitude_end tap) amp_start;
         alpha = dmul (f64 (real i)) inv_n;
         tap_delay = dadd (tp_delay_start tap) (dmul alpha delay_d);
         pos = dsub (dadd out_pos_start (f64 (real i))) tap_delay;
         amp = f32 (dadd amp_start (dmul alpha amp_d))
     in fmul amp (sdl_read_at pos src))"

definition per_tap_produce :: "source_delay_line \<Rightarrow> tap_state \<Rightarrow> real \<Rightarrow> nat \<Rightarrow> real list" where
  "per_tap_produce src tap out_pos_start n_out = map (per_tap_sample src tap out_pos_start n_out) [0..<n_out]"

section \<open>What the line holds\<close>

definition sdl_holds :: "source_delay_line \<Rightarrow> nat \<Rightarrow> real list \<Rightarrow> bool" where
  "sdl_holds s cap ws \<longleftrightarrow> (\<exists>k \<le> 64. cap = 2 ^ k) \<and> length (sl_buffer s) = cap \<and> sl_mask s = cap - 1 \<and>
     sl_producer_position s = length ws \<and>
     (\<forall>p < length ws. length ws \<le> p + cap \<longrightarrow> sl_buffer s ! (p mod cap) = ws ! p)"

lemma sdl_write_1:
  assumes "sdl_holds s cap ws"
  shows "sdl_holds (sdl_write [x] s) cap (ws @ [x])"
proof -
  have c: "0 < cap" and len: "length (sl_buffer s) = cap" and pos: "sl_producer_position s = length ws"
    and ix: "i AND sl_mask s = i mod cap" for i
    using assms and_mask_mod [of cap] by (auto simp: sdl_holds_def)
  have "(sl_buffer s)[length ws mod cap := x] ! (p mod cap) = (ws @ [x]) ! p"
    if p: "p < Suc (length ws)" "Suc (length ws) \<le> p + cap" for p
  proof (cases "p = length ws")
    case True
    then show ?thesis using c len by simp
  next
    case False
    with p mod_eq_window [of p "length ws" cap] have "length ws mod cap \<noteq> p mod cap" by fastforce
    with assms p False show ?thesis by (simp add: sdl_holds_def nth_append)
  qed
  moreover have "sdl_write [x] s = s\<lparr>sl_buffer := (sl_buffer s)[length ws mod cap := x],
      sl_producer_position := Suc (length ws)\<rparr>"
    by (simp add: sdl_write_def ix pos)
  ultimately show ?thesis using assms by (simp add: sdl_holds_def)
qed

lemma sdl_write_Cons: "sdl_write (x # xs) s = sdl_write xs (sdl_write [x] s)"
  by (simp add: sdl_write_def)

lemma sdl_write_holds: "sdl_holds s cap ws \<Longrightarrow> sdl_holds (sdl_write xs s) cap (ws @ xs)"
proof (induction xs arbitrary: s ws)
  case Nil
  then show ?case by (simp add: sdl_holds_def sdl_write_def)
next
  case (Cons x xs)
  from Cons.IH [OF sdl_write_1 [OF Cons.prems, of x]] show ?case by (subst sdl_write_Cons) simp
qed

lemma sdl_at_holds:
  assumes "sdl_holds s cap ws" and "p < length ws" and "length ws \<le> p + cap" and "p < 2 ^ 64"
  shows "sdl_at s (int p) = ws ! p"
proof -
  have "int p mod 2 ^ 64 = int p" using assms(4) by simp
  moreover have "p AND sl_mask s = p mod cap" using assms(1) and_mask_mod [of cap] by (auto simp: sdl_holds_def)
  ultimately show ?thesis using assms(1-3) by (simp add: sdl_at_def sdl_holds_def)
qed

lemma sdl_read_integer:
  assumes "sdl_holds s cap ws" and "1 \<le> p" and "p + 2 < length ws" and "length ws < p + cap"
    and "length ws < 2 ^ 64" and "f32 (ws ! p) = ws ! p"
  shows "sdl_read_at (real p) s = ws ! p"
proof -
  have "sdl_at s (int p) = ws ! p" by (rule sdl_at_holds [OF assms(1)]) (use assms in simp_all)
  then show ?thesis by (simp add: sdl_read_at_def Let_def catmull_rom_0 assms(6))
qed

lemma sdl_resize_holds:
  assumes "n \<le> 2 ^ 63"
  shows "sdl_holds (sdl_resize n) (round_up_pow2 n) []"
proof -
  obtain j where j: "round_up_pow2 n = 2 ^ j" "(2::nat) ^ j \<le> max 1 (2 * n)"
    using pow2_loop_1 [of n] by (cases "n = 0") (auto simp: round_up_pow2_def intro: that [of 0])
  have "max 1 (2 * n) \<le> 2 ^ 64" using assms by simp
  with j(2) have "(2::nat) ^ j \<le> 2 ^ 64" by (rule order_trans)
  then have "j \<le> 64" by (rule power_le_imp_le_exp [rotated]) simp
  with j(1) show ?thesis by (auto simp: sdl_holds_def sdl_resize_def Let_def)
qed

text \<open>A tap of constant integer delay and constant gain is exactly that: reading a block at
  source position \<open>P\<close> gives, sample by sample, the source sample \<open>D\<close> positions earlier times the
  gain, with no interpolation error, while the reads stay between one sample after the start and
  three behind the producer and within the ring.\<close>

theorem constant_tap_is_pure_delay:
  assumes "capacity \<le> 2 ^ 63" and "cap = round_up_pow2 capacity"
    and "\<forall>x \<in> set (concat blocks). f32 x = x" and "f32 g = g"
    and "1 + D \<le> P" and "P + n_out + 2 \<le> length (concat blocks) + D"
    and "length (concat blocks) + D < P + cap" and "length (concat blocks) < 2 ^ 53" and "P + n_out \<le> 2 ^ 53"
    and "i < n_out"
  shows "per_tap_produce (foldl (\<lambda>s xs. sdl_write xs s) (sdl_resize capacity) blocks)
      \<lparr>tp_delay_start = real D, tp_delay_end = real D, tp_amplitude_start = g, tp_amplitude_end = g\<rparr>
      (real P) n_out ! i = fmul g (concat blocks ! (P + i - D))"
proof -
  let ?s = "foldl (\<lambda>s xs. sdl_write xs s) (sdl_resize capacity) blocks" and ?ws = "concat blocks"
  have "sdl_holds (foldl (\<lambda>s xs. sdl_write xs s) s0 bs) cap (ws0 @ concat bs)" if "sdl_holds s0 cap ws0"
    for s0 ws0 bs
    using that
  proof (induction bs arbitrary: s0 ws0)
    case Nil
    then show ?case by simp
  next
    case (Cons b bs)
    from Cons.IH [OF sdl_write_holds [OF Cons.prems, of b]] show ?case by simp
  qed
  from this [OF sdl_resize_holds [OF assms(1), folded assms(2)]] have h: "sdl_holds ?s cap ?ws" by simp
  let ?p = "P + i - D"
  have p: "1 \<le> ?p" "?p + 2 < length ?ws" "length ?ws < ?p + cap" using assms by linarith+
  have "f64 (real P + f64 (real i)) = real (P + i)"
    using f64_of_nat [of i] f64_of_nat [of "P + i"] assms by simp
  moreover have "f64 (real (P + i) - real D) = real ?p"
    using f64_of_nat [of ?p] assms by (simp add: of_nat_diff)
  ultimately have pos: "dsub (dadd (real P) (f64 (real i))) (real D) = real ?p" by simp
  have g: "f64 g = g" using f64_f32 [of g] assms(4) by simp
  have d: "f64 (real D) = real D" using f64_of_nat [of D] assms by simp
  have "sdl_read_at (real ?p) ?s = ?ws ! ?p"
    by (rule sdl_read_integer [OF h p])
      (use assms(3,8) nth_mem [of ?p ?ws] p in \<open>simp_all del: set_concat\<close>)
  then have "per_tap_sample ?s \<lparr>tp_delay_start = real D, tp_delay_end = real D, tp_amplitude_start = g,
      tp_amplitude_end = g\<rparr> (real P) n_out i = fmul g (?ws ! ?p)"
    using pos by (simp add: per_tap_sample_def Let_def d g assms(4))
  then show ?thesis using assms(10) by (simp add: per_tap_produce_def)
qed

theorem constant_tap_is_pure_delay_witness:
  "per_tap_produce (foldl (\<lambda>s xs. sdl_write xs s) (sdl_resize 8) [[0, 1], [2, 3, 4]])
    \<lparr>tp_delay_start = real 1, tp_delay_end = real 1, tp_amplitude_start = 2, tp_amplitude_end = 2\<rparr> (real 2) 1 ! 0 = 2"
proof -
  have r: "round_up_pow2 8 = 8" by (simp add: round_up_pow2_def pow2_loop.simps)
  have f: "f32 2 = 2" "f32 3 = 3" "f32 4 = 4" using f32_of_nat [of 2] f32_of_nat [of 3] f32_of_nat [of 4] by simp_all
  show ?thesis
    using constant_tap_is_pure_delay [of 8 8 "[[0, 1], [2, 3, 4]]" 2 1 2 1 0] by (simp add: f r)
qed

end
