(* ===== verification/Metrics.thy ===== *)
theory Metrics
  imports Floats
begin

text \<open>
  \<open>src/simulator/metrics\<close>: the process-wide counters. The 64-bit event counters are natural
  numbers, the two 32-bit signed levels integers. Each operation the code performs is one atomic
  access, so a handler is a sequence of record updates.
\<close>

record metrics =
  mt_tx_packets_received :: nat
  mt_rx_packets_sent :: nat
  mt_sequence_gaps :: nat
  mt_short_reads :: nat
  mt_tx_ring_overruns :: nat
  mt_rx_ring_underruns :: nat
  mt_fw_rx_underruns :: nat
  mt_fw_tx_overruns :: nat
  mt_rx_drift :: int
  mt_processing_tick_us :: nat
  mt_late_messages :: nat
  mt_fill_anchor_fallbacks :: nat
  mt_estimated_fill_samples :: int
  mt_estimated_modem_rate :: nat
  mt_fw_buffer_fill :: nat

definition metrics_init :: metrics where
  "metrics_init = \<lparr>mt_tx_packets_received = 0, mt_rx_packets_sent = 0, mt_sequence_gaps = 0,
     mt_short_reads = 0, mt_tx_ring_overruns = 0, mt_rx_ring_underruns = 0, mt_fw_rx_underruns = 0,
     mt_fw_tx_overruns = 0, mt_rx_drift = 0, mt_processing_tick_us = 0, mt_late_messages = 0,
     mt_fill_anchor_fallbacks = 0, mt_estimated_fill_samples = 0, mt_estimated_modem_rate = 0,
     mt_fw_buffer_fill = 0\<rparr>"

text \<open>The drift and the three buffer levels survive a reset.\<close>

definition metrics_reset :: "metrics \<Rightarrow> metrics" where
  "metrics_reset m = m\<lparr>mt_tx_packets_received := 0, mt_rx_packets_sent := 0, mt_sequence_gaps := 0,
     mt_short_reads := 0, mt_tx_ring_overruns := 0, mt_rx_ring_underruns := 0, mt_fw_rx_underruns := 0,
     mt_fw_tx_overruns := 0, mt_processing_tick_us := 0, mt_late_messages := 0,
     mt_fill_anchor_fallbacks := 0\<rparr>"

text \<open>The two rates \<open>print_summary\<close> computes; the rest of the line prints the counters.\<close>

definition metrics_rates :: "real \<Rightarrow> metrics \<Rightarrow> real \<times> real" where
  "metrics_rates elapsed_s m =
    (if 0 < elapsed_s then ddiv (f64 (real (mt_tx_packets_received m))) elapsed_s else 0,
     if 0 < elapsed_s then ddiv (f64 (real (mt_rx_packets_sent m))) elapsed_s else 0)"

end
