(* ===== verification/Noise.thy ===== *)
theory Noise
  imports Floats
begin

text \<open>
  The Wenz ambient-noise model (\<open>dsp/wenz_model\<close>) and the per-receiver noise generator
  (\<open>dsp/noise_generator\<close>). The C++ library functions \<open>sqrt\<close>, \<open>cos\<close>, \<open>sin\<close>, \<open>log10\<close> and
  \<open>pow\<close> on \<open>float\<close> are the correctly rounded real functions. The random engine and the normal
  distribution of the standard library are the operations of a record: a draw, a re-seeding and
  the reset of the distribution's cached value.
\<close>

section \<open>Library functions on floats\<close>

definition fsqrt :: "real \<Rightarrow> real" where "fsqrt x = f32 (sqrt x)"
definition fcos :: "real \<Rightarrow> real" where "fcos x = f32 (cos x)"
definition fsin :: "real \<Rightarrow> real" where "fsin x = f32 (sin x)"
definition flog10 :: "real \<Rightarrow> real" where "flog10 x = f32 (log 10 x)"
definition fpow10 :: "real \<Rightarrow> real" where "fpow10 x = f32 (10 powr x)"

definition PI_F :: real where "PI_F = f32 (314159265358979323846 / 10 ^ 20)"
definition TWO_PI :: real where "TWO_PI = f32 (628318530717958647693 / 10 ^ 20)"

section \<open>Ambient noise spectrum\<close>

definition sea_state_to_wind_knots :: "int \<Rightarrow> real" where
  "sea_state_to_wind_knots sea_state =
    [f32 (1/10), 3, 8, 13, 18, 24, 30] ! nat (cclamp sea_state 0 6)"

definition wind_noise_psd_db :: "real \<Rightarrow> int \<Rightarrow> real" where
  "wind_noise_psd_db freq_hz sea_state =
    (let f_khz = fmul (cmax freq_hz 1) (f32 (1/1000));
         w = sea_state_to_wind_knots sea_state
     in fsub (fadd (fadd 50 (fmul (15/2) (fsqrt w))) (fmul 20 (flog10 f_khz)))
             (fmul 40 (flog10 (fadd f_khz (f32 (4/10))))))"

definition thermal_noise_psd_db :: "real \<Rightarrow> real" where
  "thermal_noise_psd_db freq_hz =
    (let f_khz = fmul (cmax freq_hz 1) (f32 (1/1000)) in fadd (-15) (fmul 20 (flog10 f_khz)))"

definition noise_psd_db :: "real \<Rightarrow> int \<Rightarrow> bool \<Rightarrow> real" where
  "noise_psd_db freq_hz sea_state saltwater =
    (let p_wind = fpow10 (fdiv (wind_noise_psd_db freq_hz sea_state) 10);
         p_thermal = fpow10 (fdiv (thermal_noise_psd_db freq_hz) 10)
     in fmul 10 (flog10 (fadd p_wind p_thermal)))"

section \<open>The shaping filter\<close>

definition desired_amplitude :: "real \<Rightarrow> int \<Rightarrow> bool \<Rightarrow> nat \<Rightarrow> nat \<Rightarrow> real" where
  "desired_amplitude fs sea_state saltwater N k =
    (let freq_hz = (if k = 0 then 1 else fmul (fdiv (f32 (real k)) (f32 (real N))) fs);
         psd_db = noise_psd_db freq_hz sea_state saltwater
     in fsqrt (fpow10 (fdiv psd_db 10)))"

definition normalise_peak :: "real list \<Rightarrow> real list" where
  "normalise_peak H =
    (let max_H = foldl cmax (hd H) (tl H) in if 0 < max_H then map (\<lambda>h. fdiv h max_H) H else H)"

definition idft_tap :: "real list \<Rightarrow> nat \<Rightarrow> nat \<Rightarrow> real" where
  "idft_tap H N n =
    (let delta = f32 (of_int (int n - int (N div 2)));
         val = foldl (\<lambda>v k. fadd v (fmul (fmul 2 (H ! k))
                 (fcos (fdiv (fmul (fmul (fmul 2 PI_F) (f32 (real k))) delta) (f32 (real N))))))
               (H ! 0) [1..<N div 2];
         val' = fadd val (fmul (H ! (N div 2)) (fcos (fmul PI_F delta)))
     in fdiv val' (f32 (real N)))"

definition hann :: "nat \<Rightarrow> nat \<Rightarrow> real" where
  "hann N n = fmul (1/2) (fsub 1
     (fcos (fdiv (fmul (fmul 2 PI_F) (f32 (real n))) (f32 (real (N - 1))))))"

definition design_shaping_filter :: "real \<Rightarrow> int \<Rightarrow> bool \<Rightarrow> nat \<Rightarrow> real list" where
  "design_shaping_filter fs sea_state saltwater n_taps =
    (let N = cmax n_taps 4;
         H = normalise_peak (map (desired_amplitude fs sea_state saltwater N) [0..<N div 2 + 1])
     in map (\<lambda>n. fmul (idft_tap H N n) (hann N n)) [0..<N])"

definition filter_response_at :: "real list \<Rightarrow> real \<Rightarrow> real \<Rightarrow> real" where
  "filter_response_at taps fc_hz fs_hz =
    (if taps = [] \<or> fs_hz \<le> 0 then 0 else
     let omega = fdiv (fmul (fmul 2 PI_F) fc_hz) fs_hz;
         (re, im) = foldl (\<lambda>(re, im) n. let arg = fmul omega (f32 (real n)) in
             (fadd re (fmul (taps ! n) (fcos arg)), fsub im (fmul (taps ! n) (fsin arg))))
           (0, 0) [0..<length taps]
     in fsqrt (fadd (fmul re re) (fmul im im)))"

section \<open>The noise generator\<close>

record tonal_source =
  ts_frequency_hz :: real
  ts_amplitude_linear :: real
  ts_bandwidth_hz :: real

record noise_config =
  nc_wenz_sea_state :: int
  nc_target_level_db_re_fs :: real
  nc_saltwater :: bool
  nc_tonals :: "tonal_source list"

definition default_noise_config :: noise_config where
  "default_noise_config = \<lparr>nc_wenz_sea_state = 3, nc_target_level_db_re_fs = -40,
     nc_saltwater = True, nc_tonals = []\<rparr>"

record 'g gauss_source =
  gs_draw :: "'g \<Rightarrow> real \<times> 'g"
  gs_seed :: "nat \<Rightarrow> 'g \<Rightarrow> 'g"
  gs_reset :: "'g \<Rightarrow> 'g"

record tonal_osc =
  os_phase :: real
  os_phase_inc :: real
  os_amplitude :: real
  os_bw_phase :: real
  os_bw_phase_inc :: real

record 'g noise_gen =
  ng_rng :: 'g
  ng_shaping_coeffs :: "real list"
  ng_filter_state :: "real list"
  ng_tonals :: "tonal_osc list"
  ng_output_scale :: real

definition set_seed :: "'g gauss_source \<Rightarrow> nat \<Rightarrow> 'g noise_gen \<Rightarrow> 'g noise_gen" where
  "set_seed gs seed ng = ng\<lparr>ng_rng := gs_reset gs (gs_seed gs seed (ng_rng ng))\<rparr>"

definition target_rms :: "noise_config \<Rightarrow> real" where
  "target_rms cfg = fpow10 (fdiv (nc_target_level_db_re_fs cfg) 20)"

definition shaping_energy :: "real list \<Rightarrow> real" where
  "shaping_energy taps = foldl (\<lambda>e c. fadd e (fmul c c)) 0 taps"

definition init_shaping_filter :: "noise_config \<Rightarrow> nat \<Rightarrow> 'g noise_gen \<Rightarrow> 'g noise_gen" where
  "init_shaping_filter cfg sample_rate ng =
    (let coeffs = design_shaping_filter (f32 (real sample_rate)) (nc_wenz_sea_state cfg)
           (nc_saltwater cfg) 32;
         energy = shaping_energy coeffs;
         sigma_out = (if 0 < energy then fsqrt energy else 1)
     in ng\<lparr>ng_shaping_coeffs := coeffs, ng_filter_state := replicate (length coeffs - 1) 0,
          ng_output_scale := fdiv (target_rms cfg) sigma_out\<rparr>)"

definition init_tonals :: "noise_config \<Rightarrow> nat \<Rightarrow> 'g noise_gen \<Rightarrow> 'g noise_gen" where
  "init_tonals cfg sample_rate ng = ng\<lparr>ng_tonals := ng_tonals ng @ map (\<lambda>t.
     \<lparr>os_phase = 0,
      os_phase_inc = fdiv (fmul TWO_PI (ts_frequency_hz t)) (f32 (real sample_rate)),
      os_amplitude = fmul (ts_amplitude_linear t) (target_rms cfg),
      os_bw_phase = 0,
      os_bw_phase_inc = (if 0 < ts_bandwidth_hz t
        then fdiv (fmul TWO_PI (ts_bandwidth_hz t)) (f32 (real sample_rate)) else 0)\<rparr>)
     (nc_tonals cfg)\<rparr>"

definition noise_gen_new :: "'g gauss_source \<Rightarrow> 'g \<Rightarrow> noise_config \<Rightarrow> nat \<Rightarrow> 'g noise_gen" where
  "noise_gen_new gs g0 cfg sample_rate = set_seed gs 12345 (init_tonals cfg sample_rate
     (init_shaping_filter cfg sample_rate \<lparr>ng_rng = g0, ng_shaping_coeffs = [],
        ng_filter_state = [], ng_tonals = [], ng_output_scale = 1\<rparr>))"

definition wrap_phase :: "real \<Rightarrow> real" where
  "wrap_phase p = (if TWO_PI < p then fsub p TWO_PI else p)"

definition osc_step :: "real \<Rightarrow> tonal_osc \<Rightarrow> real \<times> tonal_osc" where
  "osc_step y osc =
    (let narrow = 0 < os_bw_phase_inc osc;
         amp = (if narrow then fmul (os_amplitude osc) (fmul (1/2) (fadd 1 (fcos (os_bw_phase osc))))
                else os_amplitude osc);
         bw = (if narrow then wrap_phase (fadd (os_bw_phase osc) (os_bw_phase_inc osc))
               else os_bw_phase osc)
     in (fadd y (fmul amp (fcos (os_phase osc))),
         osc\<lparr>os_bw_phase := bw, os_phase := wrap_phase (fadd (os_phase osc) (os_phase_inc osc))\<rparr>))"

fun tonal_sum :: "real \<Rightarrow> tonal_osc list \<Rightarrow> real \<times> tonal_osc list" where
  "tonal_sum y [] = (y, [])"
| "tonal_sum y (osc # oscs) =
    (let (y', osc') = osc_step y osc; (y'', oscs') = tonal_sum y' oscs in (y'', osc' # oscs'))"

definition fir_output :: "real list \<Rightarrow> real list \<Rightarrow> real \<Rightarrow> real" where
  "fir_output h st white = foldl (\<lambda>y k. fadd y (fmul (h ! k)
     (if k - 1 < length st then st ! (k - 1) else 0))) (fmul (h ! 0) white) [1..<length h]"

definition push_state :: "real \<Rightarrow> real list \<Rightarrow> real list" where
  "push_state white st = (if st = [] then [] else white # butlast st)"

definition generate_sample :: "'g gauss_source \<Rightarrow> 'g noise_gen \<Rightarrow> 'g noise_gen \<times> real" where
  "generate_sample gs ng =
    (let (white, g) = gs_draw gs (ng_rng ng);
         y = fir_output (ng_shaping_coeffs ng) (ng_filter_state ng) white;
         (out, oscs) = tonal_sum (fmul y (ng_output_scale ng)) (ng_tonals ng)
     in (ng\<lparr>ng_rng := g, ng_filter_state := push_state white (ng_filter_state ng),
            ng_tonals := oscs\<rparr>, out))"

fun generate :: "'g gauss_source \<Rightarrow> nat \<Rightarrow> 'g noise_gen \<Rightarrow> 'g noise_gen \<times> real list" where
  "generate gs 0 ng = (ng, [])"
| "generate gs (Suc n) ng =
    (let (ng', x) = generate_sample gs ng; (ng'', xs) = generate gs n ng' in (ng'', x # xs))"

definition noise_reset :: "'g gauss_source \<Rightarrow> 'g noise_gen \<Rightarrow> 'g noise_gen" where
  "noise_reset gs ng = ng\<lparr>ng_filter_state := map (\<lambda>_. 0) (ng_filter_state ng),
     ng_tonals := map (\<lambda>osc. osc\<lparr>os_phase := 0, os_bw_phase := 0\<rparr>) (ng_tonals ng),
     ng_rng := gs_reset gs (ng_rng ng)\<rparr>"


section \<open>The generator filters its white noise\<close>

lemma generate_append: "generate gs (m + n) ng =
    (let (ng', xs) = generate gs m ng; (ng'', ys) = generate gs n ng' in (ng'', xs @ ys))"
  by (induction m arbitrary: ng) (simp_all add: case_prod_beta Let_def)

lemma length_generate [simp]: "length (snd (generate gs n ng)) = n"
  by (induction n arbitrary: ng) (simp_all add: case_prod_beta Let_def)

lemma generate_coeffs: "ng_shaping_coeffs (fst (generate gs n ng)) = ng_shaping_coeffs ng \<and>
    ng_output_scale (fst (generate gs n ng)) = ng_output_scale ng"
  by (induction n arbitrary: ng) (simp_all add: case_prod_beta Let_def generate_sample_def)

text \<open>The white samples the engine delivers, and the FIR sum over the last of them, with zeros
  before the first.\<close>

fun whites :: "'g gauss_source \<Rightarrow> nat \<Rightarrow> 'g \<Rightarrow> real list" where
  "whites gs 0 g = []"
| "whites gs (Suc n) g = fst (gs_draw gs g) # whites gs n (snd (gs_draw gs g))"

lemma length_whites [simp]: "length (whites gs n g) = n"
  by (induction n arbitrary: g) simp_all

definition convolved :: "real list \<Rightarrow> real list \<Rightarrow> nat \<Rightarrow> real" where
  "convolved h ws i = foldl (\<lambda>y k. fadd y (fmul (h ! k) (if k \<le> i then ws ! (i - k) else 0)))
     (fmul (h ! 0) (ws ! i)) [1..<length h]"

definition history :: "real list \<Rightarrow> nat \<Rightarrow> real list" where
  "history past L = take L (rev past @ replicate L 0)"

lemma history_nth: "j < L \<Longrightarrow> history past L ! j = (if j < length past then past ! (length past - 1 - j) else 0)"
  by (simp add: history_def nth_append rev_nth)

lemma length_history [simp]: "length (history past L) = L"
  by (simp add: history_def)

lemma push_history: "push_state w (history past L) = history (past @ [w]) L"
proof (cases L)
  case 0
  then show ?thesis by (simp add: push_state_def history_def)
next
  case (Suc K)
  have ne: "history past L \<noteq> []" using Suc length_history [of past L] by (metis list.size(3) nat.distinct(1))
  show ?thesis
  proof (rule nth_equalityI)
    show "length (push_state w (history past L)) = length (history (past @ [w]) L)"
      using ne Suc by (simp add: push_state_def)
    fix j assume "j < length (push_state w (history past L))"
    then have j: "j < L" using ne Suc by (simp add: push_state_def)
    show "push_state w (history past L) ! j = history (past @ [w]) L ! j"
      using j ne Suc by (cases j) (auto simp: push_state_def history_nth nth_butlast nth_append)
  qed
qed

lemma fir_history:
  assumes "h \<noteq> []"
  shows "fir_output h (history past (length h - 1)) w = convolved h (past @ [w] @ rest) (length past)"
  unfolding fir_output_def convolved_def
  by (rule foldl_cong) (auto simp: history_nth nth_append)

lemma generate_from_history:
  assumes "ng_tonals ng = []" and "ng_shaping_coeffs ng = h" and "h \<noteq> []"
    and "ng_filter_state ng = history past (length h - 1)" and "i < n"
  shows "snd (generate gs n ng) ! i =
    fmul (convolved h (past @ whites gs n (ng_rng ng)) (length past + i)) (ng_output_scale ng)"
  using assms
proof (induction n arbitrary: ng past i)
  case 0
  then show ?case by simp
next
  case (Suc n)
  let ?w = "fst (gs_draw gs (ng_rng ng))" and ?ng = "fst (generate_sample gs ng)"
  show ?case
  proof (cases i)
    case 0
    with Suc.prems show ?thesis
      by (simp add: case_prod_beta Let_def generate_sample_def
          fir_history [where rest = "whites gs n (snd (gs_draw gs (ng_rng ng)))", simplified])
  next
    case (Suc k)
    have "snd (generate gs n ?ng) ! k = fmul (convolved h ((past @ [?w]) @ whites gs n (ng_rng ?ng))
        (length (past @ [?w]) + k)) (ng_output_scale ?ng)"
      by (rule Suc.IH) (use Suc.prems \<open>i = Suc k\<close> in \<open>simp_all add: generate_sample_def
          case_prod_beta Let_def push_history\<close>)
    with \<open>i = Suc k\<close> show ?thesis by (simp add: case_prod_beta Let_def generate_sample_def)
  qed
qed

text \<open>C34: a generator without tonal sources that has just been reset delivers, block by block
  in any block sizes, the white samples of its engine convolved with the shaping taps in the
  code's order of additions, scaled by the output scale, with silence before the first.\<close>

theorem noise_is_filtered_white:
  assumes "ng_tonals ng = []" and "h = ng_shaping_coeffs ng" and "h \<noteq> []"
    and "length (ng_filter_state ng) = length h - 1" and "i < m + n"
  shows "(let (ng1, xs) = generate gs m (noise_reset gs ng); (ng2, ys) = generate gs n ng1
          in (xs @ ys) ! i) =
    fmul (convolved h (whites gs (m + n) (gs_reset gs (ng_rng ng))) i) (ng_output_scale ng)"
proof -
  have "ng_filter_state (noise_reset gs ng) = history [] (length h - 1)"
    using assms(4) by (simp add: noise_reset_def history_def map_replicate_const)
  then have "snd (generate gs (m + n) (noise_reset gs ng)) ! i = fmul (convolved h ([] @
      whites gs (m + n) (ng_rng (noise_reset gs ng))) (length ([] :: real list) + i))
      (ng_output_scale (noise_reset gs ng))"
    using assms by (intro generate_from_history) (simp_all add: noise_reset_def)
  then show ?thesis by (simp add: generate_append case_prod_beta Let_def noise_reset_def)
qed

text \<open>A counting engine stands in for the random one.\<close>

definition counting :: "nat gauss_source" where
  "counting = \<lparr>gs_draw = (\<lambda>n. (real n, Suc n)), gs_seed = (\<lambda>s _. s), gs_reset = id\<rparr>"

definition two_taps :: "nat noise_gen" where
  "two_taps = \<lparr>ng_rng = 1, ng_shaping_coeffs = [1, 2], ng_filter_state = [7], ng_tonals = [],
     ng_output_scale = 1/2\<rparr>"

lemma small_floats: "f32 2 = 2" "f32 (1/2) = 1/2" "f32 3 = 3" "f32 4 = 4" "f32 (3/2) = 3/2"
  using f32_of_nat [of 2] f32_of_nat [of 3] f32_of_nat [of 4] f32_dyadic [of 1 "-1"] f32_dyadic [of 3 "-1"]
  by (simp_all add: power_int_minus)

theorem noise_is_filtered_white_witness:
  "(let (ng1, xs) = generate counting 1 (noise_reset counting two_taps);
        (ng2, ys) = generate counting 1 ng1 in (xs @ ys) ! 1) = 2"
  by (subst noise_is_filtered_white [of two_taps "[1, 2]" 1 1 1 counting])
    (simp_all add: two_taps_def counting_def convolved_def small_floats upt_conv_Cons)

section \<open>The oscillators stay on the circle\<close>

definition osc_ok :: "tonal_osc \<Rightarrow> bool" where
  "osc_ok osc \<longleftrightarrow> 0 \<le> os_phase osc \<and> os_phase osc \<le> TWO_PI \<and> 0 \<le> os_phase_inc osc \<and>
    os_phase_inc osc \<le> TWO_PI \<and> 0 \<le> os_bw_phase osc \<and> os_bw_phase osc \<le> TWO_PI \<and>
    0 \<le> os_bw_phase_inc osc \<and> os_bw_phase_inc osc \<le> TWO_PI"

lemma TWO_PI_bounds: "6 \<le> TWO_PI" "TWO_PI \<le> 7" "f32 TWO_PI = TWO_PI"
  using f32_mono [of 6 "628318530717958647693 / 10 ^ 20"] f32_mono [of "628318530717958647693 / 10 ^ 20" 7]
    f32_of_nat [of 6] f32_of_nat [of 7] by (simp_all add: TWO_PI_def)

lemma wrap_phase_range:
  assumes "0 \<le> p" and "p \<le> TWO_PI" and "0 \<le> d" and "d \<le> TWO_PI"
  shows "0 \<le> wrap_phase (fadd p d) \<and> wrap_phase (fadd p d) \<le> TWO_PI"
proof (cases "TWO_PI < fadd p d")
  case True
  have "fadd p d \<le> f32 (2 * TWO_PI)" using assms by (intro f32_mono) simp
  also have "f32 (2 * TWO_PI) = 2 * TWO_PI"
    unfolding TWO_PI_def by (rule f32_double)
  finally have "fsub (fadd p d) TWO_PI \<le> f32 TWO_PI" by (intro f32_mono) simp
  with True show ?thesis by (auto simp: wrap_phase_def TWO_PI_bounds)
next
  case False
  with assms show ?thesis by (simp add: wrap_phase_def)
qed

lemma osc_step_ok: "osc_ok osc \<Longrightarrow> osc_ok (snd (osc_step y osc))"
  using wrap_phase_range by (auto simp: osc_step_def osc_ok_def Let_def)

lemma tonal_sum_ok: "list_all osc_ok oscs \<Longrightarrow> list_all osc_ok (snd (tonal_sum y oscs))"
  by (induction oscs arbitrary: y) (simp_all add: case_prod_beta Let_def osc_step_ok)

lemma generate_ok: "list_all osc_ok (ng_tonals ng) \<Longrightarrow> list_all osc_ok (ng_tonals (fst (generate gs n ng)))"
  by (induction n arbitrary: ng)
    (simp_all add: case_prod_beta Let_def generate_sample_def tonal_sum_ok)

text \<open>once the tonal oscillators of a generator have their phases and phase increments in
  \<open>[0, 2 pi]\<close>, their phases are still there after any number of blocks: the float accumulator
  never drifts off, however long the run.\<close>

theorem noise_phases_stay_bounded:
  assumes "list_all (\<lambda>t. 0 \<le> os_phase_inc t \<and> os_phase_inc t \<le> TWO_PI \<and> 0 \<le> os_bw_phase_inc t
      \<and> os_bw_phase_inc t \<le> TWO_PI) (ng_tonals ng)"
    and "osc \<in> set (ng_tonals (foldl (\<lambda>ng n. fst (generate gs n ng)) (noise_reset gs ng) blocks))"
  shows "0 \<le> os_phase osc \<and> os_phase osc \<le> TWO_PI \<and> 0 \<le> os_bw_phase osc \<and> os_bw_phase osc \<le> TWO_PI"
proof -
  have "list_all osc_ok (ng_tonals (noise_reset gs ng))"
    using assms(1) TWO_PI_bounds by (auto simp: noise_reset_def list_all_iff osc_ok_def)
  then have "list_all osc_ok (ng_tonals (foldl (\<lambda>ng n. fst (generate gs n ng)) (noise_reset gs ng) blocks))"
    by (induction blocks rule: rev_induct) (simp_all add: generate_ok)
  with assms(2) show ?thesis by (auto simp: list_all_iff osc_ok_def)
qed

definition one_tone :: "nat noise_gen" where
  "one_tone = two_taps\<lparr>ng_tonals := [\<lparr>os_phase = 9, os_phase_inc = 1, os_amplitude = 1,
     os_bw_phase = 9, os_bw_phase_inc = 2\<rparr>]\<rparr>"

theorem noise_phases_stay_bounded_witness:
  "\<exists>osc. osc \<in> set (ng_tonals (foldl (\<lambda>ng n. fst (generate counting n ng)) (noise_reset counting one_tone) []))
     \<and> 0 \<le> os_phase osc \<and> os_phase osc \<le> TWO_PI"
proof (rule exI, rule conjI)
  show m: "\<lparr>os_phase = 0, os_phase_inc = 1, os_amplitude = 1, os_bw_phase = 0, os_bw_phase_inc = 2\<rparr> \<in>
    set (ng_tonals (foldl (\<lambda>ng n. fst (generate counting n ng)) (noise_reset counting one_tone) []))"
    by (simp add: one_tone_def two_taps_def noise_reset_def)
  have "list_all (\<lambda>t. 0 \<le> os_phase_inc t \<and> os_phase_inc t \<le> TWO_PI \<and> 0 \<le> os_bw_phase_inc t
      \<and> os_bw_phase_inc t \<le> TWO_PI) (ng_tonals one_tone)"
    using TWO_PI_bounds by (simp add: one_tone_def)
  from noise_phases_stay_bounded [OF this m]
  show "0 \<le> os_phase \<lparr>os_phase = 0, os_phase_inc = 1, os_amplitude = 1, os_bw_phase = 0, os_bw_phase_inc = 2\<rparr> \<and>
    os_phase \<lparr>os_phase = 0, os_phase_inc = 1, os_amplitude = 1, os_bw_phase = 0, os_bw_phase_inc = 2\<rparr> \<le> TWO_PI"
    by blast
qed

end
