(* ===== verification/Receiver_Mix.thy ===== *)
theory Receiver_Mix
  imports Core_Types Ring_Buffer Pair_Buffer Noise
begin

text \<open>
  \<open>src/channel/receiver_mix.cpp\<close>: the fan-in of one receiver. The pair buffers live in a store
  shared with the source workers; a mix holds the indices of those that target it. The scratch
  vectors of the class are overwritten before they are read, so only their length, one processing
  block, is modelled.
\<close>

section \<open>The code\<close>

record 'g receiver_mix =
  rm_incoming :: "nat list"
  rm_noise_gen :: "'g noise_gen"
  rm_rcv_cal :: calibration_data
  rm_rx_ring_drops :: nat

definition receiver_mix_new ::
    "'g gauss_source \<Rightarrow> 'g \<Rightarrow> nat list \<Rightarrow> noise_config \<Rightarrow> calibration_data \<Rightarrow> nat \<Rightarrow> 'g receiver_mix" where
  "receiver_mix_new gs g0 incoming noise_cfg rcv_cal sample_rate =
    \<lparr>rm_incoming = incoming, rm_noise_gen = noise_gen_new gs g0 noise_cfg sample_rate,
     rm_rcv_cal = rcv_cal, rm_rx_ring_drops = 0\<rparr>"

definition add_prefix :: "real list \<Rightarrow> real list \<Rightarrow> real list" where
  "add_prefix acc xs = map (\<lambda>i. if i < length xs then fadd (acc ! i) (xs ! i) else acc ! i) [0..<length acc]"

definition sum_incoming :: "nat \<Rightarrow> nat list \<Rightarrow> pair_buffer list \<Rightarrow> pair_buffer list \<times> real list" where
  "sum_incoming chunk incoming pbs = foldl (\<lambda>(pbs, acc) k.
     let (b, got) = read_advance chunk (pbs ! k) in (pbs[k := b], add_prefix acc got))
     (pbs, replicate chunk 0) incoming"

definition pull_chunk :: "'g gauss_source \<Rightarrow> nat \<Rightarrow> 'g receiver_mix \<Rightarrow> pair_buffer list \<Rightarrow> u16 spsc \<Rightarrow>
    'g receiver_mix \<times> pair_buffer list \<times> u16 spsc \<times> nat" where
  "pull_chunk gs chunk rm pbs ring =
    (let (pbs', sum) = sum_incoming chunk (rm_incoming rm) pbs;
         (ng, noise) = generate gs chunk (rm_noise_gen rm);
         sum' = map2 fadd sum noise;
         dac = map (\<lambda>x. float_to_dac x (cal_dac_bits (rm_rcv_cal rm))) sum';
         (ring', accepted) = spsc_write ring dac;
         rm' = rm\<lparr>rm_noise_gen := ng\<rparr>
     in (if unat accepted < chunk
         then rm'\<lparr>rm_rx_ring_drops := rm_rx_ring_drops rm + (chunk - unat accepted)\<rparr> else rm',
         pbs', ring', unat accepted))"

function pull_loop :: "'g gauss_source \<Rightarrow> nat \<Rightarrow> nat \<Rightarrow> 'g receiver_mix \<Rightarrow> pair_buffer list \<Rightarrow> u16 spsc \<Rightarrow>
    'g receiver_mix \<times> pair_buffer list \<times> u16 spsc \<times> nat" where
  "pull_loop gs count total_accepted rm pbs ring =
    (if 0 < count then
       let chunk = cmin count PROCESSING_BLOCK_SIZE;
           (rm', pbs', ring', accepted) = pull_chunk gs chunk rm pbs ring
       in pull_loop gs (count - chunk) (total_accepted + accepted) rm' pbs' ring'
     else (rm, pbs, ring, total_accepted))"
  by pat_completeness auto
termination
  by (relation "measure (\<lambda>(_, count, _). count)") (simp_all add: PROCESSING_BLOCK_SIZE_def)

declare pull_loop.simps [simp del]

definition pull :: "'g gauss_source \<Rightarrow> nat \<Rightarrow> 'g receiver_mix \<Rightarrow> pair_buffer list \<Rightarrow> u16 spsc \<Rightarrow>
    'g receiver_mix \<times> pair_buffer list \<times> u16 spsc \<times> nat" where
  "pull gs count rm pbs ring = (if count = 0 then (rm, pbs, ring, 0) else pull_loop gs count 0 rm pbs ring)"

section \<open>What a pull delivers\<close>

text \<open>The pair sum at offset \<open>i\<close> from the read heads, over the buffers that have a sample there.\<close>

definition mix_at :: "pair_buffer list \<Rightarrow> nat list \<Rightarrow> nat \<Rightarrow> real" where
  "mix_at pbs incoming i = foldl (\<lambda>s k. if i < available_read (pbs ! k)
     then fadd s (pb_timeline (pbs ! k) (pb_read_pos (pbs ! k) + i)) else s) 0 incoming"

definition pulled :: "'g gauss_source \<Rightarrow> nat \<Rightarrow> 'g receiver_mix \<Rightarrow> pair_buffer list \<Rightarrow> u16 list" where
  "pulled gs n rm pbs = map (\<lambda>i. float_to_dac (fadd (mix_at pbs (rm_incoming rm) i)
     (snd (generate gs n (rm_noise_gen rm)) ! i)) (cal_dac_bits (rm_rcv_cal rm))) [0..<n]"

definition mix_wf :: "'g receiver_mix \<Rightarrow> pair_buffer list \<Rightarrow> bool" where
  "mix_wf rm pbs \<longleftrightarrow> distinct (rm_incoming rm) \<and> (\<forall>k \<in> set (rm_incoming rm). k < length pbs \<and> pb_ok (pbs ! k))"

lemma available_read_eq: "available_read b = pb_write_watermark b - pb_read_pos b"
  by (simp add: available_read_def Let_def)

lemma read_advance_out:
  assumes "pb_ok b"
  shows "length (snd (read_advance n b)) = min n (available_read b)"
    and "i < min n (available_read b) \<Longrightarrow> snd (read_advance n b) ! i = pb_timeline b (pb_read_pos b + i)"
  by (simp_all add: pb_read_timeline [OF assms] available_read_eq)

lemma read_advance_next:
  assumes "pb_ok b"
  shows "pb_ok (fst (read_advance n b))"
    and "available_read (fst (read_advance n b)) = available_read b - min n (available_read b)"
    and "n \<le> i \<Longrightarrow> i < available_read b \<Longrightarrow>
      pb_timeline (fst (read_advance n b)) (pb_read_pos (fst (read_advance n b)) + (i - n)) =
      pb_timeline b (pb_read_pos b + i)"
  using pb_ok_step [OF assms, of "Read n"] pb_read_timeline(2) [OF assms, of n]
  by (auto simp: available_read_eq read_fields min_def)

lemma length_add_prefix [simp]: "length (add_prefix acc xs) = length acc"
  by (simp add: add_prefix_def)

lemma sum_incoming_facts:
  assumes "distinct ks" and "\<forall>k \<in> set ks. k < length pbs \<and> pb_ok (pbs ! k)"
  shows "length (snd (sum_incoming n ks pbs)) = n"
    and "length (fst (sum_incoming n ks pbs)) = length pbs"
    and "\<forall>i < n. snd (sum_incoming n ks pbs) ! i = mix_at pbs ks i"
    and "\<forall>k < length pbs. fst (sum_incoming n ks pbs) ! k =
      (if k \<in> set ks then fst (read_advance n (pbs ! k)) else pbs ! k)"
  using assms
proof (induction ks rule: rev_induct)
  case Nil
  {
    case 1 then show ?case by (simp add: sum_incoming_def)
  next
    case 2 then show ?case by (simp add: sum_incoming_def)
  next
    case 3 then show ?case by (simp add: sum_incoming_def mix_at_def)
  next
    case 4 then show ?case by (simp add: sum_incoming_def)
  }
next
  case (snoc k ks)
  let ?s = "sum_incoming n ks pbs"
  have step: "sum_incoming n (ks @ [k]) pbs = (let (b, got) = read_advance n (fst ?s ! k)
      in ((fst ?s)[k := b], add_prefix (snd ?s) got))"
    by (simp add: sum_incoming_def case_prod_beta)
  {
    case 1 with snoc.IH(1) show ?case unfolding step by (simp add: case_prod_beta Let_def)
  next
    case 2 with snoc.IH(2) show ?case unfolding step by (simp add: case_prod_beta Let_def)
  next
    case 3
    then have "fst ?s ! k = pbs ! k" and "pb_ok (pbs ! k)" using snoc.IH(4) by simp_all
    with 3 snoc.IH(1,3) show ?case
      unfolding step by (auto simp: case_prod_beta Let_def add_prefix_def mix_at_def read_advance_out)
  next
    case 4
    then have "fst ?s ! k = pbs ! k" using snoc.IH(4) by simp
    with 4 snoc.IH(2,4) show ?case unfolding step by (auto simp: case_prod_beta Let_def nth_list_update)
  }
qed

lemma mix_at_next:
  assumes "distinct ks" and "\<forall>k \<in> set ks. k < length pbs \<and> pb_ok (pbs ! k)" and "n \<le> i"
  shows "mix_at (fst (sum_incoming n ks pbs)) ks (i - n) = mix_at pbs ks i"
  unfolding mix_at_def
proof (rule foldl_cong)
  fix s k assume k: "k \<in> set ks"
  with assms have "fst (sum_incoming n ks pbs) ! k = fst (read_advance n (pbs ! k))"
    and ok: "pb_ok (pbs ! k)" using sum_incoming_facts(4) [OF assms(1,2)] by simp_all
  moreover note read_advance_next(2,3) [OF ok, of n] assms(3)
  ultimately show "(if i - n < available_read (fst (sum_incoming n ks pbs) ! k)
      then fadd s (pb_timeline (fst (sum_incoming n ks pbs) ! k)
        (pb_read_pos (fst (sum_incoming n ks pbs) ! k) + (i - n))) else s) =
    (if i < available_read (pbs ! k) then fadd s (pb_timeline (pbs ! k) (pb_read_pos (pbs ! k) + i)) else s)"
    by auto
qed simp_all

lemma length_pulled: "length (pulled gs n rm pbs) = n"
  by (simp add: pulled_def)

lemma pull_chunk_facts:
  assumes wf: "mix_wf rm pbs" and inv: "spsc_inv ring" and n: "n < 2 ^ 64"
    and c: "pull_chunk gs n rm pbs ring = (rm', pbs', ring', acc)"
  shows "acc = min n (unat (rb_capacity ring) - length (spsc_contents ring))"
    and "spsc_inv ring'" and "rb_capacity ring' = rb_capacity ring"
    and "spsc_contents ring' = spsc_contents ring @ take acc (pulled gs n rm pbs)"
    and "rm' = rm\<lparr>rm_noise_gen := fst (generate gs n (rm_noise_gen rm)),
      rm_rx_ring_drops := rm_rx_ring_drops rm + (n - acc)\<rparr>"
    and "pbs' = fst (sum_incoming n (rm_incoming rm) pbs)"
proof -
  from wf have d: "distinct (rm_incoming rm)"
    and ok: "\<forall>k \<in> set (rm_incoming rm). k < length pbs \<and> pb_ok (pbs ! k)" by (simp_all add: mix_wf_def)
  note f = sum_incoming_facts [OF d ok, of n]
  let ?dac = "map (\<lambda>x. float_to_dac x (cal_dac_bits (rm_rcv_cal rm)))
    (map2 fadd (snd (sum_incoming n (rm_incoming rm) pbs)) (snd (generate gs n (rm_noise_gen rm))))"
  have dac: "?dac = pulled gs n rm pbs"
    by (rule nth_equalityI) (use f(1,3) in \<open>simp_all add: pulled_def\<close>)
  note w = spsc_write_facts [OF inv, of "pulled gs n rm pbs"]
  have l: "length (pulled gs n rm pbs) = n" by (simp add: pulled_def)
  have le: "unat (snd (spsc_write ring (pulled gs n rm pbs))) \<le> n" using w n l by simp
  from c have r: "ring' = fst (spsc_write ring (pulled gs n rm pbs))"
    and a: "acc = unat (snd (spsc_write ring (pulled gs n rm pbs)))"
    and p: "pbs' = fst (sum_incoming n (rm_incoming rm) pbs)"
    and m: "rm' = rm\<lparr>rm_noise_gen := fst (generate gs n (rm_noise_gen rm)),
      rm_rx_ring_drops := rm_rx_ring_drops rm + (n - acc)\<rparr>"
    using le dac by (auto simp: pull_chunk_def case_prod_beta Let_def split: if_splits)
  show "acc = min n (unat (rb_capacity ring) - length (spsc_contents ring))" using w n l a by simp
  show "spsc_inv ring'" using w n l r by simp
  show "rb_capacity ring' = rb_capacity ring" unfolding r by (simp add: spsc_write_def Let_def)
  show "spsc_contents ring' = spsc_contents ring @ take acc (pulled gs n rm pbs)" using w n l r a by simp
  show "rm' = rm\<lparr>rm_noise_gen := fst (generate gs n (rm_noise_gen rm)),
      rm_rx_ring_drops := rm_rx_ring_drops rm + (n - acc)\<rparr>" by (rule m)
  show "pbs' = fst (sum_incoming n (rm_incoming rm) pbs)" by (rule p)
qed

lemma pulled_append:
  assumes wf: "mix_wf rm pbs"
    and rm': "rm' = rm\<lparr>rm_noise_gen := fst (generate gs m (rm_noise_gen rm)), rm_rx_ring_drops := d\<rparr>"
    and pbs': "pbs' = fst (sum_incoming m (rm_incoming rm) pbs)"
  shows "pulled gs (m + n) rm pbs = pulled gs m rm pbs @ pulled gs n rm' pbs'"
proof (rule nth_equalityI)
  show "length (pulled gs (m + n) rm pbs) = length (pulled gs m rm pbs @ pulled gs n rm' pbs')"
    by (simp add: pulled_def)
  fix i assume "i < length (pulled gs (m + n) rm pbs)"
  then have i: "i < m + n" by (simp add: pulled_def)
  have g: "snd (generate gs (m + n) (rm_noise_gen rm)) = snd (generate gs m (rm_noise_gen rm)) @
      snd (generate gs n (fst (generate gs m (rm_noise_gen rm))))"
    by (simp add: generate_append case_prod_beta Let_def)
  show "pulled gs (m + n) rm pbs ! i = (pulled gs m rm pbs @ pulled gs n rm' pbs') ! i"
  proof (cases "i < m")
    case True
    with i show ?thesis by (simp add: pulled_def nth_append g)
  next
    case False
    then have "mix_at pbs' (rm_incoming rm) (i - m) = mix_at pbs (rm_incoming rm) i"
      unfolding pbs' using wf by (intro mix_at_next) (simp_all add: mix_wf_def)
    moreover have "i - m < n" using False i by simp
    ultimately show ?thesis using False i by (simp add: pulled_def nth_append g rm')
  qed
qed

lemma mix_wf_next:
  assumes wf: "mix_wf rm pbs" and "rm_incoming rm' = rm_incoming rm"
    and pbs': "pbs' = fst (sum_incoming m (rm_incoming rm) pbs)"
  shows "mix_wf rm' pbs'"
  using assms sum_incoming_facts(2,4) [of "rm_incoming rm" pbs m] read_advance_next(1)
  by (simp add: mix_wf_def)

lemma pull_loop_facts:
  assumes "mix_wf rm pbs" and "spsc_inv ring" and "count < 2 ^ 64"
    and "pull_loop gs count tot rm pbs ring = (rm', pbs', ring', acc)"
  shows "acc = tot + min count (unat (rb_capacity ring) - length (spsc_contents ring)) \<and>
    spsc_contents ring' = spsc_contents ring @ take (acc - tot) (pulled gs count rm pbs) \<and>
    rm_rx_ring_drops rm' = rm_rx_ring_drops rm + (count - (acc - tot)) \<and>
    (\<forall>k \<in> set (rm_incoming rm). pb_read_pos (pbs' ! k) =
       pb_read_pos (pbs ! k) + min count (available_read (pbs ! k)))"
  using assms
proof (induction gs count tot rm pbs ring rule: pull_loop.induct)
  case (1 gs count tot rm pbs ring)
  show ?case
  proof (cases "count = 0")
    case True
    with "1.prems"(4) show ?thesis by (auto simp: pull_loop.simps pulled_def)
  next
    case False
    define n where "n = cmin count PROCESSING_BLOCK_SIZE"
    obtain rm1 pbs1 ring1 a where c: "pull_chunk gs n rm pbs ring = (rm1, pbs1, ring1, a)"
      by (metis prod_cases4)
    then have c': "(rm1, pbs1, ring1, a) = pull_chunk gs (cmin count PROCESSING_BLOCK_SIZE) rm pbs ring"
      by (simp add: n_def)
    have nle: "n \<le> count" and n64: "n < 2 ^ 64" using "1.prems"(3) by (simp_all add: n_def)
    note f = pull_chunk_facts [OF "1.prems"(1,2) n64 c]
    let ?free = "unat (rb_capacity ring) - length (spsc_contents ring)"
    have rest: "pull_loop gs (count - n) (tot + a) rm1 pbs1 ring1 = (rm', pbs', ring', acc)"
      using "1.prems"(4) False c by (subst (asm) pull_loop.simps) (simp add: Let_def flip: n_def cmin_min)
    have len: "length (spsc_contents ring1) = length (spsc_contents ring) + a"
      using f(1,4) nle by (simp add: pulled_def)
    have inc: "rm_incoming rm1 = rm_incoming rm" and dr: "rm_rx_ring_drops rm1 = rm_rx_ring_drops rm + (n - a)"
      by (simp_all add: f(5))
    have wf1: "mix_wf rm1 pbs1" using mix_wf_next [OF "1.prems"(1) inc f(6)] .
    have ih: "acc = tot + a + min (count - n) (unat (rb_capacity ring1) - length (spsc_contents ring1)) \<and>
      spsc_contents ring' = spsc_contents ring1 @ take (acc - (tot + a)) (pulled gs (count - n) rm1 pbs1) \<and>
      rm_rx_ring_drops rm' = rm_rx_ring_drops rm1 + (count - n - (acc - (tot + a))) \<and>
      (\<forall>k \<in> set (rm_incoming rm1). pb_read_pos (pbs' ! k) =
         pb_read_pos (pbs1 ! k) + min (count - n) (available_read (pbs1 ! k)))"
      by (rule "1.IH" [OF _ refl c' refl refl refl, folded n_def, OF _ wf1 f(2) _ rest])
        (use False "1.prems"(3) in simp_all)
    have app: "pulled gs count rm pbs = pulled gs n rm pbs @ pulled gs (count - n) rm1 pbs1"
      using pulled_append [OF "1.prems"(1) f(5,6), of "count - n"] nle by simp
    have free1: "unat (rb_capacity ring1) - length (spsc_contents ring1) = ?free - a"
      by (simp add: f(3) len)
    have ih1: "acc = tot + a + min (count - n) (?free - a)" using ih free1 by simp
    have min_split: "min n z + min (count - n) (z - min n z) = min count z" for z
      using nle by (auto simp: min_def)
    have acc: "acc = tot + min count ?free"
      unfolding ih1 f(1) using min_split [of ?free] by simp
    moreover have "spsc_contents ring' = spsc_contents ring @ take (acc - tot) (pulled gs count rm pbs)"
    proof (cases "a < n")
      case True
      then have "a = ?free" using f(1) by simp
      then have "acc = tot + a" using ih1 by simp
      with ih f(4) True show ?thesis by (simp add: app length_pulled)
    next
      case False
      then have "a = n" using f(1) by simp
      with ih f(4) acc show ?thesis by (simp add: app length_pulled diff_diff_add)
    qed
    moreover have "rm_rx_ring_drops rm' = rm_rx_ring_drops rm + (count - (acc - tot))"
    proof -
      have d: "rm_rx_ring_drops rm' = rm_rx_ring_drops rm + (n - a) + (count - n - (acc - (tot + a)))"
        using ih dr by simp
      obtain m where m: "acc = tot + a + m" "m \<le> count - n" using ih1 by (metis min.cobounded1)
      have "a \<le> n" using f(1) by simp
      with m nle show ?thesis unfolding d by simp
    qed
    moreover have "\<forall>k \<in> set (rm_incoming rm). pb_read_pos (pbs' ! k) =
       pb_read_pos (pbs ! k) + min count (available_read (pbs ! k))"
    proof
      fix k assume k: "k \<in> set (rm_incoming rm)"
      with "1.prems"(1) have ok: "pb_ok (pbs ! k)" and b: "pbs1 ! k = fst (read_advance n (pbs ! k))"
        using sum_incoming_facts(4) [of "rm_incoming rm" pbs n] by (simp_all add: mix_wf_def f(6))
      have "pb_read_pos (pbs1 ! k) = pb_read_pos (pbs ! k) + min n (available_read (pbs ! k))"
        unfolding b by (simp add: read_fields available_read_eq)
      moreover have "available_read (pbs1 ! k) = available_read (pbs ! k) - min n (available_read (pbs ! k))"
        unfolding b by (rule read_advance_next(2) [OF ok])
      moreover have "pb_read_pos (pbs' ! k) = pb_read_pos (pbs1 ! k) + min (count - n) (available_read (pbs1 ! k))"
        using ih k inc by simp
      ultimately show "pb_read_pos (pbs' ! k) = pb_read_pos (pbs ! k) + min count (available_read (pbs ! k))"
        using nle by linarith
    qed
    ultimately show ?thesis by blast
  qed
qed

text \<open>A pull leaves the buffers well formed and the ring and the mix as they were wired.\<close>

definition pbs_kept :: "pair_buffer list \<Rightarrow> pair_buffer list \<Rightarrow> bool" where
  "pbs_kept pbs pbs' \<longleftrightarrow> length pbs' = length pbs \<and> (\<forall>k < length pbs. pb_ok (pbs ! k) \<longrightarrow> pb_ok (pbs' ! k))"

lemma pbs_kept_refl [simp]: "pbs_kept pbs pbs"
  by (simp add: pbs_kept_def)

lemma pbs_kept_trans: "pbs_kept a b \<Longrightarrow> pbs_kept b c \<Longrightarrow> pbs_kept a c"
  by (simp add: pbs_kept_def)

lemma mix_wf_kept: "mix_wf rm pbs \<Longrightarrow> pbs_kept pbs pbs' \<Longrightarrow> rm_incoming rm' = rm_incoming rm \<Longrightarrow> mix_wf rm' pbs'"
  by (simp add: mix_wf_def pbs_kept_def)

lemma pull_loop_keeps:
  assumes "pull_loop gs n0 tot rm pbs ring = (rm', pbs', ring', acc)" and "mix_wf rm pbs" and "spsc_inv ring" and "n0 < 2 ^ 64"
  shows "rm_incoming rm' = rm_incoming rm \<and> spsc_inv ring' \<and> rb_capacity ring' = rb_capacity ring \<and> pbs_kept pbs pbs'"
  using assms
proof (induction gs n0 tot rm pbs ring rule: pull_loop.induct)
  case (1 gs n0 tot rm pbs ring)
  show ?case
  proof (cases "n0 = 0")
    case True
    with "1.prems" show ?thesis by (simp add: pull_loop.simps [of _ 0])
  next
    case False
    define n where "n = cmin n0 PROCESSING_BLOCK_SIZE"
    obtain rm1 pbs1 ring1 a where c: "pull_chunk gs n rm pbs ring = (rm1, pbs1, ring1, a)" by (metis prod_cases4)
    then have c': "(rm1, pbs1, ring1, a) = pull_chunk gs (cmin n0 PROCESSING_BLOCK_SIZE) rm pbs ring" by (simp add: n_def)
    have n64: "n < 2 ^ 64" using "1.prems"(4) by (simp add: n_def)
    note f = pull_chunk_facts [OF "1.prems"(2,3) n64 c]
    have rest: "pull_loop gs (n0 - n) (tot + a) rm1 pbs1 ring1 = (rm', pbs', ring', acc)"
      using "1.prems"(1) False c by (subst (asm) pull_loop.simps) (simp add: Let_def flip: n_def cmin_min)
    have inc: "rm_incoming rm1 = rm_incoming rm" by (simp add: f(5))
    have wf1: "mix_wf rm1 pbs1" using mix_wf_next [OF "1.prems"(2) inc f(6)] .
    have "rm_incoming rm' = rm_incoming rm1 \<and> spsc_inv ring' \<and> rb_capacity ring' = rb_capacity ring1 \<and> pbs_kept pbs1 pbs'"
      by (rule "1.IH" [OF _ refl c' refl refl refl, folded n_def, OF _ rest wf1 f(2)]) (use False "1.prems"(4) in simp_all)
    moreover have "pbs_kept pbs pbs1"
      using "1.prems"(2) sum_incoming_facts(2,4) [of "rm_incoming rm" pbs n] read_advance_next(1)
      by (auto simp: pbs_kept_def f(6) mix_wf_def)
    ultimately show ?thesis using inc f(3) pbs_kept_trans by metis
  qed
qed

section \<open>Property\<close>

text \<open>C9: Whatever the size of the request, and however the pull is cut into processing blocks,
  the receive ring gets exactly the first samples that fit of the stream whose sample \<open>i\<close> is the
  converter code of the sum of the incoming timelines at offset \<open>i\<close> plus noise; what does not fit
  is counted as dropped, and every incoming buffer is consumed up to the request or its watermark,
  also when the ring is full.\<close>

theorem receiver_mix_pull:
  assumes "distinct (rm_incoming rm)" and "\<forall>k \<in> set (rm_incoming rm). k < length pbs \<and> pb_ok (pbs ! k)"
    and "spsc_inv ring" and "count < 2 ^ 64" and "pull gs count rm pbs ring = (rm', pbs', ring', accepted)"
  shows "accepted = min count (unat (rb_capacity ring) - length (spsc_contents ring)) \<and>
    spsc_contents ring' = spsc_contents ring @ take accepted (pulled gs count rm pbs) \<and>
    rm_rx_ring_drops rm' = rm_rx_ring_drops rm + (count - accepted) \<and>
    (\<forall>k \<in> set (rm_incoming rm). pb_read_pos (pbs' ! k) =
       pb_read_pos (pbs ! k) + min count (available_read (pbs ! k)))"
proof (cases "count = 0")
  case True
  with assms(5) show ?thesis by (auto simp: pull_def)
next
  case False
  with assms pull_loop_facts [of rm pbs ring count gs 0 rm' pbs' ring' accepted] show ?thesis
    by (simp add: pull_def mix_wf_def)
qed

text \<open>A receiver with two incoming buffers, the second empty, silent noise and room for two.\<close>

definition ready_buffer :: pair_buffer where
  "ready_buffer = \<lparr>pb_buffer = [1/2, 0, 0, 0], pb_capacity = 4, pb_mask = 3, pb_base_delay_samples = 0,
     pb_read_pos = 0, pb_write_watermark = 1, pb_write_origin = 0, pb_first_message = False,
     pb_overflow_drops = 0\<rparr>"

definition quiet_mix :: "nat receiver_mix" where
  "quiet_mix = \<lparr>rm_incoming = [0, 1], rm_noise_gen = two_taps\<lparr>ng_output_scale := 0\<rparr>,
     rm_rcv_cal = default_calibration, rm_rx_ring_drops = 0\<rparr>"

definition small_ring :: "u16 spsc" where
  "small_ring = \<lparr>rb_write_pos = 0, rb_read_pos = 0, rb_capacity = 2, rb_mask = 1, rb_buffer = [0, 0]\<rparr>"

theorem receiver_mix_pull_witness:
  "\<exists>rm' pbs' ring' accepted. pull counting 3 quiet_mix [ready_buffer, ready_buffer\<lparr>pb_write_watermark := 0\<rparr>]
     small_ring = (rm', pbs', ring', accepted) \<and> accepted = 2 \<and> rm_rx_ring_drops rm' = 1 \<and>
     pb_read_pos (pbs' ! 0) = 1 \<and> pb_read_pos (pbs' ! 1) = 0"
proof -
  let ?pbs = "[ready_buffer, ready_buffer\<lparr>pb_write_watermark := 0\<rparr>]"
  obtain rm' pbs' ring' accepted where p: "pull counting 3 quiet_mix ?pbs small_ring = (rm', pbs', ring', accepted)"
    by (metis prod_cases4)
  have cap: "\<exists>k<64. (2 :: u64) = 2 ^ k" by (rule exI [of _ 1]) simp
  have pow: "\<exists>k. (4 :: nat) = 2 ^ k" by (rule exI [of _ 2]) simp
  have "distinct (rm_incoming quiet_mix)" and "\<forall>k \<in> set (rm_incoming quiet_mix). k < length ?pbs \<and> pb_ok (?pbs ! k)"
    and "spsc_inv small_ring" and "(3::nat) < 2 ^ 64"
    using cap pow by (auto simp: quiet_mix_def pb_ok_def ready_buffer_def small_ring_def spsc_inv_def)
  from receiver_mix_pull [OF this p] p show ?thesis
    by (auto simp: small_ring_def spsc_contents_def quiet_mix_def ready_buffer_def available_read_def)
qed

end
