(* ===== verification/Modem_IO.thy ===== *)
theory Modem_IO
  imports Modem Tx_Start Clock_Fill_Tracker Receiver_Mix Metrics
begin

text \<open>
  \<open>src/io/modem_io.cpp\<close>: the I/O thread of one modem, in the default build (clock fill tracker).
  Every call that reads the steady clock takes the next reading of a stream \<open>clk\<close>; the calls made
  on the stream logger are recorded in order; \<open>sleep_for\<close> records its argument. The optional
  collaborators (receiver mix, logger, metrics) are options. The ring buffers and pair buffers the
  thread shares with others are fields of its state, so a handler is one uninterleaved step.
\<close>

section \<open>State\<close>

datatype log_call = Log_Begin_Rx string | Log_Tx string "u16 list" | Log_Rx string "u16 list"

record ('t, 'g) io_env =
  en_transport :: "'t transport"
  en_gauss :: "'g gauss_source"
  en_clock :: "nat \<Rightarrow> host_time"

record ('t, 'g) modem_io =
  io_modem :: "'t modem"
  io_tx_ring :: "u16 spsc"
  io_rx_ring :: "u16 spsc"
  io_receiver_mix :: "'g receiver_mix option"
  io_pair_buffers :: "pair_buffer list"
  io_logger :: "log_call list option"
  io_metrics :: "metrics option"
  io_codec :: codec
  io_cal :: calibration_data
  io_tracker :: cft
  io_tx_start :: tx_estimator
  io_samples_per_pkt :: nat
  io_running :: bool
  io_tx_pkt_id :: u16
  io_last_error_flags :: u32
  io_log_first_rx_send :: bool
  io_skip_next_drift_check :: bool
  io_last_fallback_count :: nat
  io_last_fill_fw :: u16
  io_last_fill_est :: int
  io_last_modem_rate :: u32
  io_last_tracker_fallbacks :: nat
  io_rx_send_skipped :: nat
  io_rx_packets_sent :: nat
  io_prev_rx_packets_sent :: nat
  io_data_buf :: "u8 list"
  io_ctrl_buf :: "u8 list"
  io_clock_reads :: nat
  io_sleeps :: "int list"

definition make_fill_tracker :: "u32 \<Rightarrow> u16 \<Rightarrow> u16 \<Rightarrow> cft" where
  "make_fill_tracker dac_rate buffer_capacity samples_per_pkt =
    cft_new (cft_default_config\<lparr>cc_dac_rate := dac_rate, cc_buffer_capacity := buffer_capacity,
      cc_samples_per_packet := samples_per_pkt, cc_initial_modem_rate_hint := dac_rate\<rparr>)"

definition modem_io_new :: "'t modem \<Rightarrow> u16 spsc \<Rightarrow> u16 spsc \<Rightarrow> 'g receiver_mix option \<Rightarrow>
    pair_buffer list \<Rightarrow> log_call list option \<Rightarrow> metrics option \<Rightarrow> ('t, 'g) modem_io" where
  "modem_io_new modem tx_ring rx_ring mix pbs logger metrics =
    (let cal = md_calibration modem in
     \<lparr>io_modem = modem, io_tx_ring = tx_ring, io_rx_ring = rx_ring, io_receiver_mix = mix,
      io_pair_buffers = pbs, io_logger = logger, io_metrics = metrics, io_codec = codec_init,
      io_cal = cal,
      io_tracker = make_fill_tracker (cal_dac_sampling_rate cal) MODEM_AUDIO_BUFFER_CAPACITY
        (samples_per_packet cal),
      io_tx_start = tx_estimator_new (cal_adc_sampling_rate cal),
      io_samples_per_pkt = unat (samples_per_packet cal), io_running = False, io_tx_pkt_id = 0,
      io_last_error_flags = 0, io_log_first_rx_send = True, io_skip_next_drift_check = True,
      io_last_fallback_count = 0, io_last_fill_fw = 0, io_last_fill_est = 0,
      io_last_modem_rate = 0, io_last_tracker_fallbacks = 0, io_rx_send_skipped = 0,
      io_rx_packets_sent = 0, io_prev_rx_packets_sent = 0, io_data_buf = replicate 512 0,
      io_ctrl_buf = replicate 64 0, io_clock_reads = 0, io_sleeps = []\<rparr>)"

definition io_stop :: "('t, 'g) modem_io \<Rightarrow> ('t, 'g) modem_io" where
  "io_stop io = io\<lparr>io_running := False\<rparr>"

text \<open>Small steps the handlers share: a clock reading, a metrics update, a logger call, the runtime
  state of the modem, and the two receives with the buffers they fill.\<close>

definition read_clock :: "('t, 'g) io_env \<Rightarrow> ('t, 'g) modem_io \<Rightarrow> ('t, 'g) modem_io \<times> host_time" where
  "read_clock env io = (io\<lparr>io_clock_reads := io_clock_reads io + 1\<rparr>, en_clock env (io_clock_reads io))"

definition upd_metrics :: "(metrics \<Rightarrow> metrics) \<Rightarrow> ('t, 'g) modem_io \<Rightarrow> ('t, 'g) modem_io" where
  "upd_metrics f io = io\<lparr>io_metrics := map_option f (io_metrics io)\<rparr>"

definition log_to :: "log_call \<Rightarrow> ('t, 'g) modem_io \<Rightarrow> ('t, 'g) modem_io" where
  "log_to c io = io\<lparr>io_logger := map_option (\<lambda>cs. cs @ [c]) (io_logger io)\<rparr>"

definition upd_runtime :: "(modem_runtime_state \<Rightarrow> modem_runtime_state) \<Rightarrow> ('t, 'g) modem_io \<Rightarrow> ('t, 'g) modem_io"
where
  "upd_runtime f io = io\<lparr>io_modem := (io_modem io)\<lparr>md_runtime_state := f (md_runtime_state (io_modem io))\<rparr>\<rparr>"

definition io_state :: "('t, 'g) modem_io \<Rightarrow> modem_state" where
  "io_state io = rt_state (md_runtime_state (io_modem io))"

definition set_transport :: "'t \<Rightarrow> ('t, 'g) modem_io \<Rightarrow> ('t, 'g) modem_io" where
  "set_transport t io = io\<lparr>io_modem := (io_modem io)\<lparr>md_transport := t\<rparr>\<rparr>"

definition io_recv_data :: "('t, 'g) io_env \<Rightarrow> int \<Rightarrow> ('t, 'g) modem_io \<Rightarrow> ('t, 'g) modem_io \<times> transfer_result"
where
  "io_recv_data env ms io =
    (case tp_recv_data (en_transport env) DATA_PACKET_SIZE ms (md_transport (io_modem io)) of
       (t, r, written) \<Rightarrow>
         ((set_transport t io)\<lparr>io_data_buf := overwrite written (io_data_buf io)\<rparr>, r))"

definition io_recv_control :: "('t, 'g) io_env \<Rightarrow> int \<Rightarrow> ('t, 'g) modem_io \<Rightarrow> ('t, 'g) modem_io \<times> transfer_result"
where
  "io_recv_control env ms io =
    (case tp_recv_control (en_transport env) CONTROL_PACKET_SIZE ms (md_transport (io_modem io)) of
       (t, r, written) \<Rightarrow>
         ((set_transport t io)\<lparr>io_ctrl_buf := overwrite written (io_ctrl_buf io)\<rparr>, r))"

section \<open>Receiving from the modem\<close>

definition IO_CTRL_TIMEOUT_MS :: int where "IO_CTRL_TIMEOUT_MS = 1"
definition DATA_TIMEOUT_MS :: int where "DATA_TIMEOUT_MS = 1"
definition CONTROL_POLL_INTERVAL :: nat where "CONTROL_POLL_INTERVAL = 5"
definition TX_DRAIN_MAX_ITERATIONS :: nat where "TX_DRAIN_MAX_ITERATIONS = 8"
definition TX_DRAIN_TIMEOUT_MS :: int where "TX_DRAIN_TIMEOUT_MS = 1"

definition process_tx_packet :: "('t, 'g) io_env \<Rightarrow> int \<Rightarrow> ('t, 'g) modem_io \<Rightarrow> ('t, 'g) modem_io" where
  "process_tx_packet env bytes_transferred io =
    (if bytes_transferred \<noteq> int DATA_PACKET_SIZE
     then upd_metrics (\<lambda>m. m\<lparr>mt_short_reads := mt_short_reads m + 1\<rparr>) io
     else
       let (pkt_id, samples) = decode_data_packet (io_data_buf io) DATA_SAMPLES_PER_PKT;
           (in_sequence, c) = check_sequence pkt_id (io_codec io);
           io1 = io\<lparr>io_codec := c\<rparr>;
           io2 = (if \<not> in_sequence
                  then upd_metrics (\<lambda>m. m\<lparr>mt_sequence_gaps := mt_sequence_gaps m + 1\<rparr>) io1 else io1);
           io3 = io2\<lparr>io_tx_ring := fst (spsc_write (io_tx_ring io2) samples)\<rparr>;
           (io4, now) = read_clock env io3;
           io5 = io4\<lparr>io_tx_start := on_tx_packet (of_nat (length samples)) now (io_tx_start io4)\<rparr>;
           io6 = upd_metrics (\<lambda>m. m\<lparr>mt_tx_packets_received := mt_tx_packets_received m + 1\<rparr>) io5
       in log_to (Log_Tx (md_id (io_modem io)) samples) io6)"

definition receive_tx_data :: "('t, 'g) io_env \<Rightarrow> ('t, 'g) modem_io \<Rightarrow> ('t, 'g) modem_io" where
  "receive_tx_data env io =
    (let (io1, r) = io_recv_data env DATA_TIMEOUT_MS io
     in if tr_disconnected r then io1\<lparr>io_running := False\<rparr>
        else if \<not> tr_ok r then io1
        else process_tx_packet env (tr_bytes r) io1)"

fun tx_drain_loop :: "('t, 'g) io_env \<Rightarrow> nat \<Rightarrow> ('t, 'g) modem_io \<Rightarrow> ('t, 'g) modem_io" where
  "tx_drain_loop env 0 io = io"
| "tx_drain_loop env (Suc i) io =
    (let (io1, r) = io_recv_data env TX_DRAIN_TIMEOUT_MS io
     in if tr_disconnected r then io1\<lparr>io_running := False\<rparr>
        else if \<not> tr_ok r then io1
        else if tr_bytes r \<noteq> int DATA_PACKET_SIZE
        then upd_metrics (\<lambda>m. m\<lparr>mt_short_reads := mt_short_reads m + 1\<rparr>) io1
        else tx_drain_loop env i (process_tx_packet env (tr_bytes r) io1))"

definition drain_tx_pipeline :: "('t, 'g) io_env \<Rightarrow> ('t, 'g) modem_io \<Rightarrow> ('t, 'g) modem_io" where
  "drain_tx_pipeline env io = tx_drain_loop env TX_DRAIN_MAX_ITERATIONS io"

section \<open>Status handling\<close>

text \<open>The counter resets of a state change, in the order of the code.\<close>

definition state_change :: "('t, 'g) io_env \<Rightarrow> modem_state \<Rightarrow> modem_state \<Rightarrow> ('t, 'g) modem_io \<Rightarrow> ('t, 'g) modem_io"
where
  "state_change env old_state new_state io =
    (if new_state \<noteq> old_state then
       let io1 = (if old_state = ST_TX then drain_tx_pipeline env io else io);
           io2 = io1\<lparr>io_codec := reset_sequence (io_codec io1), io_tx_pkt_id := 0,
                    io_tracker := cft_reset (io_tracker io1)\<rparr>
       in (if new_state = ST_TX then io2\<lparr>io_tx_start := on_tx_entry (io_tx_start io2)\<rparr> else io2)
     else io)"

definition track_status :: "('t, 'g) io_env \<Rightarrow> status_payload \<Rightarrow> modem_state \<Rightarrow> modem_state \<Rightarrow>
    ('t, 'g) modem_io \<Rightarrow> ('t, 'g) modem_io" where
  "track_status env status old_state new_state io =
    (if new_state = ST_RX then
       let io1 = (if old_state \<noteq> ST_RX
                  then log_to (Log_Begin_Rx (md_id (io_modem io)))
                         (io\<lparr>io_log_first_rx_send := True, io_skip_next_drift_check := True\<rparr>)
                  else io);
           (io2, status_now) = read_clock env io1;
           io3 = io2\<lparr>io_tracker := cft_on_status status status_now (io_tracker io2)\<rparr>;
           est = cft_estimated_fill status_now (io_tracker io3);
           rate = of_int (ctrunc (cf_modem_rate (io_tracker io3))) :: u32;
           cur_fb = cf_fallback_anchor_count (io_tracker io3);
           io4 = io3\<lparr>io_last_fill_est := sint est, io_last_modem_rate := rate,
                    io_last_tracker_fallbacks := cur_fb\<rparr>
       in (case io_metrics io4 of None \<Rightarrow> io4
           | Some _ \<Rightarrow>
             let io5 = upd_metrics (\<lambda>m. m\<lparr>mt_estimated_fill_samples := sint est,
                         mt_estimated_modem_rate := unat rate\<rparr>) io4
             in (if io_last_fallback_count io5 < cur_fb
                 then (upd_metrics (\<lambda>m. m\<lparr>mt_fill_anchor_fallbacks := mt_fill_anchor_fallbacks m +
                         (cur_fb - io_last_fallback_count io5)\<rparr>) io5)\<lparr>io_last_fallback_count := cur_fb\<rparr>
                 else io5))
     else io)"

definition record_fill :: "status_payload \<Rightarrow> ('t, 'g) modem_io \<Rightarrow> ('t, 'g) modem_io" where
  "record_fill status io =
    (let fill = (if 0 < sp_buffer_capacity status
           then fdiv (f32 (real (unat (sp_buffer_fill status)))) (f32 (real (unat (sp_buffer_capacity status))))
           else 1/2);
         io1 = upd_runtime (\<lambda>rt. rt\<lparr>rt_buffer_fill_fraction := fill\<rparr>) io;
         io2 = upd_metrics (\<lambda>m. m\<lparr>mt_fw_buffer_fill := unat (sp_buffer_fill status)\<rparr>)
                 (io1\<lparr>io_last_fill_fw := sp_buffer_fill status\<rparr>)
     in upd_runtime (\<lambda>rt. rt\<lparr>rt_error_flags := ucast (sp_error_flags status)\<rparr>) io2)"

definition record_errors :: "status_payload \<Rightarrow> ('t, 'g) modem_io \<Rightarrow> ('t, 'g) modem_io" where
  "record_errors status io =
    (let flags = sp_error_flags status;
         io1 = (if flags AND 0x01 \<noteq> 0
                then upd_metrics (\<lambda>m. m\<lparr>mt_fw_rx_underruns := mt_fw_rx_underruns m + 1\<rparr>) io else io);
         io2 = (if flags AND 0x02 \<noteq> 0
                then upd_metrics (\<lambda>m. m\<lparr>mt_fw_tx_overruns := mt_fw_tx_overruns m + 1\<rparr>) io1 else io1)
     in (if ucast flags \<noteq> io_last_error_flags io2 then io2\<lparr>io_last_error_flags := ucast flags\<rparr> else io2))"

definition record_drift :: "status_payload \<Rightarrow> modem_state \<Rightarrow> ('t, 'g) modem_io \<Rightarrow> ('t, 'g) modem_io" where
  "record_drift status new_state io =
    (if new_state = ST_RX then
       let drift = sint (io_tx_pkt_id io - sp_rx_expected_id status);
           io1 = upd_metrics (\<lambda>m. m\<lparr>mt_rx_drift := drift\<rparr>) io
       in (if io_skip_next_drift_check io1 then io1\<lparr>io_skip_next_drift_check := False\<rparr> else io1)
     else io)"

definition handle_status :: "('t, 'g) io_env \<Rightarrow> status_payload \<Rightarrow> ('t, 'g) modem_io \<Rightarrow> ('t, 'g) modem_io" where
  "handle_status env status io =
    (let new_state = state_of_byte (sp_modem_state status);
         old_state = io_state io;
         io1 = state_change env old_state new_state io;
         io2 = upd_runtime (\<lambda>rt. rt\<lparr>rt_state := new_state\<rparr>) io1;
         io3 = track_status env status old_state new_state io2;
         io4 = record_errors status (record_fill status io3)
     in record_drift status new_state io4)"

definition poll_control :: "('t, 'g) io_env \<Rightarrow> ('t, 'g) modem_io \<Rightarrow> ('t, 'g) modem_io" where
  "poll_control env io =
    (let (io1, r) = io_recv_control env IO_CTRL_TIMEOUT_MS io
     in if tr_disconnected r then io1\<lparr>io_running := False\<rparr>
        else if \<not> tr_ok r \<and> \<not> tr_timed_out r then io1
        else if tr_bytes r \<noteq> int CONTROL_PACKET_SIZE then io1
        else (case decode_status (io_ctrl_buf io1) of
                Some status \<Rightarrow> handle_status env status io1
              | None \<Rightarrow> io1))"

section \<open>Sending to the modem\<close>

definition SLEEP_CAP :: int where "SLEEP_CAP = 500 * 1000"

definition top_up :: "('t, 'g) io_env \<Rightarrow> ('t, 'g) modem_io \<Rightarrow> ('t, 'g) modem_io" where
  "top_up env io =
    (case io_receiver_mix io of None \<Rightarrow> io
     | Some rm \<Rightarrow>
       (if unat (spsc_available_read (io_rx_ring io)) < io_samples_per_pkt io then
          let (rm', pbs, ring, n) = pull (en_gauss env) (io_samples_per_pkt io) rm
                (io_pair_buffers io) (io_rx_ring io)
          in io\<lparr>io_receiver_mix := Some rm', io_pair_buffers := pbs, io_rx_ring := ring\<rparr>
        else io))"

definition send_packet :: "('t, 'g) io_env \<Rightarrow> ('t, 'g) modem_io \<Rightarrow> ('t, 'g) modem_io" where
  "send_packet env io =
    (let (ring, samples) = spsc_read (io_rx_ring io) (of_nat (io_samples_per_pkt io));
         n = length samples;
         this_pkt_id = io_tx_pkt_id io;
         io1 = io\<lparr>io_rx_ring := ring, io_log_first_rx_send := False,
                 io_data_buf := encode_data_packet this_pkt_id samples n\<rparr>;
         (t, r) = tp_send_data (en_transport env) (io_data_buf io1) DATA_TIMEOUT_MS (md_transport (io_modem io1));
         io2 = set_transport t io1
     in if tr_disconnected r then io2\<lparr>io_running := False\<rparr>
        else if \<not> tr_ok r then io2
        else
          let io3 = io2\<lparr>io_tx_pkt_id := io_tx_pkt_id io2 + 1\<rparr>;
              (io4, sent_now) = read_clock env io3;
              io5 = io4\<lparr>io_tracker := cft_on_packet_sent this_pkt_id (of_nat n) sent_now (io_tracker io4),
                       io_rx_packets_sent := io_rx_packets_sent io4 + 1\<rparr>;
              io6 = upd_metrics (\<lambda>m. m\<lparr>mt_rx_packets_sent := mt_rx_packets_sent m + 1\<rparr>) io5
          in log_to (Log_Rx (md_id (io_modem io)) samples) io6)"

definition send_rx_data :: "('t, 'g) io_env \<Rightarrow> ('t, 'g) modem_io \<Rightarrow> ('t, 'g) modem_io" where
  "send_rx_data env io0 =
    (let io = top_up env io0
     in if unat (spsc_available_read (io_rx_ring io)) < io_samples_per_pkt io
        then io\<lparr>io_rx_send_skipped := io_rx_send_skipped io + 1\<rparr>
        else
          let (io1, now) = read_clock env io;
              (c, send) = cft_should_send now (io_tracker io1);
              io2 = io1\<lparr>io_tracker := c\<rparr>
          in if \<not> send then
               let wait = cf_next_send_time c - now
               in (if 0 < wait then io2\<lparr>io_sleeps := io_sleeps io2 @ [cmin wait SLEEP_CAP]\<rparr> else io2)
             else send_packet env io2)"

section \<open>The loop\<close>

definition io_iteration :: "('t, 'g) io_env \<Rightarrow> nat \<Rightarrow> ('t, 'g) modem_io \<Rightarrow> ('t, 'g) modem_io" where
  "io_iteration env iteration io =
    (let io1 = (if iteration mod CONTROL_POLL_INTERVAL = 0 then poll_control env io else io)
     in case io_state io1 of
          ST_TX \<Rightarrow> receive_tx_data env io1
        | ST_RX \<Rightarrow> send_rx_data env io1
        | _ \<Rightarrow> io1)"

text \<open>The first \<open>n\<close> iterations of the loop from iteration \<open>i\<close>, ended early by the flag.\<close>

fun io_loop :: "('t, 'g) io_env \<Rightarrow> nat \<Rightarrow> nat \<Rightarrow> ('t, 'g) modem_io \<Rightarrow> ('t, 'g) modem_io" where
  "io_loop env 0 i io = io"
| "io_loop env (Suc n) i io =
    (if io_running io then io_loop env n (Suc i) (io_iteration env i io) else io)"

definition io_run :: "('t, 'g) io_env \<Rightarrow> nat \<Rightarrow> ('t, 'g) modem_io \<Rightarrow> ('t, 'g) modem_io" where
  "io_run env n io = io_loop env n 0 (io\<lparr>io_running := True\<rparr>)"

text \<open>\<open>print_metrics_line\<close>: the rate it prints, and the snapshot it leaves.\<close>

definition print_metrics_line :: "real \<Rightarrow> ('t, 'g) modem_io \<Rightarrow> ('t, 'g) modem_io \<times> real" where
  "print_metrics_line elapsed_s io =
    (let cur_sent = io_rx_packets_sent io;
         rx_pps = (if 0 < elapsed_s
           then ddiv (f64 (real (cur_sent - io_prev_rx_packets_sent io))) elapsed_s else 0)
     in (io\<lparr>io_prev_rx_packets_sent := cur_sent\<rparr>, rx_pps))"

section \<open>Frames\<close>

text \<open>The fields each part of a handler leaves alone.\<close>

lemmas io_steps = upd_metrics_def log_to_def upd_runtime_def read_clock_def set_transport_def

definition audio_fields :: "('t, 'g) modem_io \<Rightarrow> u16 spsc \<times> u16 spsc \<times> 'g receiver_mix option \<times> pair_buffer list \<times>
    codec \<times> tx_estimator \<times> nat \<times> u16 \<times> bool \<times> int list \<times> 't \<times> string" where
  "audio_fields io = (io_tx_ring io, io_rx_ring io, io_receiver_mix io, io_pair_buffers io,
     io_codec io, io_tx_start io, io_samples_per_pkt io, io_tx_pkt_id io, io_running io, io_sleeps io,
     md_transport (io_modem io), md_id (io_modem io))"

lemma audio_fields_upd [simp]:
  "audio_fields (upd_metrics f io) = audio_fields io"
  "audio_fields (log_to lc io) = audio_fields io"
  "audio_fields (io\<lparr>io_clock_reads := n\<rparr>) = audio_fields io"
  "audio_fields (io\<lparr>io_metrics := mts\<rparr>) = audio_fields io"
  "audio_fields (io\<lparr>io_tracker := c\<rparr>) = audio_fields io"
  "audio_fields (io\<lparr>io_last_fill_est := i, io_last_modem_rate := w, io_last_tracker_fallbacks := k\<rparr>) = audio_fields io"
  "audio_fields (io\<lparr>io_log_first_rx_send := b, io_skip_next_drift_check := b'\<rparr>) = audio_fields io"
  "audio_fields (io\<lparr>io_skip_next_drift_check := b\<rparr>) = audio_fields io"
  "audio_fields (io\<lparr>io_log_first_rx_send := b\<rparr>) = audio_fields io"
  "audio_fields (io\<lparr>io_last_fallback_count := n\<rparr>) = audio_fields io"
  "audio_fields (io\<lparr>io_last_fill_fw := w'\<rparr>) = audio_fields io"
  "audio_fields (io\<lparr>io_last_error_flags := w''\<rparr>) = audio_fields io"
  "audio_fields (upd_runtime g io) = audio_fields io"
  by (simp_all add: audio_fields_def io_steps)

lemma io_state_upd [simp]:
  "io_state (upd_metrics f io) = io_state io"
  "io_state (log_to c io) = io_state io"
  "io_state (upd_runtime g io) = rt_state (g (md_runtime_state (io_modem io)))"
  "io_tracker (upd_metrics f io) = io_tracker io"
  "io_tracker (log_to c io) = io_tracker io"
  "io_tracker (upd_runtime g io) = io_tracker io"
  "io_modem (upd_metrics f io) = io_modem io"
  "io_modem (log_to c io) = io_modem io"
  "io_modem (upd_runtime g io) = (io_modem io)\<lparr>md_runtime_state := g (md_runtime_state (io_modem io))\<rparr>"
  by (simp_all add: io_state_def io_steps)

lemma audio_track [simp]: "audio_fields (track_status env status old new io) = audio_fields io"
  by (simp add: track_status_def read_clock_def Let_def split: option.splits)

lemma audio_record [simp]:
  "audio_fields (record_fill status io) = audio_fields io"
  "audio_fields (record_errors status io) = audio_fields io"
  "audio_fields (record_drift status new io) = audio_fields io"
  by (simp_all add: record_fill_def record_errors_def record_drift_def Let_def)

lemma state_track [simp]: "io_state (track_status env status old new io) = io_state io"
  by (simp add: track_status_def read_clock_def Let_def io_state_def split: option.splits)

lemma state_record [simp]:
  "io_state (record_fill status io) = io_state io"
  "io_state (record_errors status io) = io_state io"
  "io_state (record_drift status new io) = io_state io"
  by (simp_all add: record_fill_def record_errors_def record_drift_def Let_def)
    (simp_all add: io_state_def)

lemma tracker_record [simp]:
  "io_tracker (record_fill status io) = io_tracker io"
  "io_tracker (record_errors status io) = io_tracker io"
  "io_tracker (record_drift status new io) = io_tracker io"
  by (simp_all add: record_fill_def record_errors_def record_drift_def Let_def)

text \<open>A status leaves the audio side as the state change left it, and publishes the state.\<close>

lemma handle_status_audio:
  "audio_fields (handle_status env status io) =
    audio_fields (state_change env (io_state io) (state_of_byte (sp_modem_state status)) io)"
  "io_state (handle_status env status io) = state_of_byte (sp_modem_state status)"
  by (simp_all add: handle_status_def Let_def)

section \<open>State changes\<close>

lemma find_after_reset: "cft_find_entry i (cft_reset c) = None"
  by (auto simp: cft_find_entry_def cft_reset_def find_None_iff)

lemma on_status_ring: "cf_ring (cft_on_status status now c) = cf_ring c"
    "cf_cumulative_sent (cft_on_status status now c) = cf_cumulative_sent c"
  by (auto simp: cft_on_status_def cft_anchor_def Let_def split: option.splits)

lemma drain_tracker: "io_tracker (tx_drain_loop env n io) = io_tracker io"
proof (induction n arbitrary: io)
  case (Suc n)
  have "io_tracker (process_tx_packet env b io) = io_tracker io" for b and io :: "('a, 'b) modem_io"
    by (simp add: process_tx_packet_def case_prod_beta Let_def read_clock_def)
  with Suc.IH show ?case by (simp add: io_recv_data_def set_transport_def case_prod_beta Let_def)
qed simp

lemma state_change_tracker:
  "io_tracker (state_change env old new io) = (if new = old then io_tracker io else cft_reset (io_tracker io))"
  by (simp add: state_change_def Let_def drain_tx_pipeline_def drain_tracker)

text \<open>What the status does to the tracker: nothing but the reset of a change, and in RX one anchor, at the time
  read when the status is handled.\<close>

lemma status_tracker:
  assumes "new_state = state_of_byte (sp_modem_state status)"
  shows "io_tracker (handle_status env status io) =
    (let io1 = state_change env (io_state io) new_state io
     in if new_state = ST_RX then cft_on_status status (en_clock env (io_clock_reads io1)) (io_tracker io1) else io_tracker io1)"
proof -
  let ?io = "upd_runtime (\<lambda>rt. rt\<lparr>rt_state := new_state\<rparr>) (state_change env (io_state io) new_state io)"
  have "io_tracker (handle_status env status io) = io_tracker (track_status env status (io_state io) new_state ?io)"
    by (simp add: handle_status_def Let_def assms)
  also have "\<dots> = (if new_state = ST_RX then cft_on_status status (en_clock env (io_clock_reads ?io)) (io_tracker ?io)
      else io_tracker ?io)"
    by (simp add: track_status_def read_clock_def log_to_def Let_def split: option.splits)
  also have "io_clock_reads ?io = io_clock_reads (state_change env (io_state io) new_state io)" by (simp add: upd_runtime_def)
  finally show ?thesis by (simp add: Let_def)
qed

text \<open>C36: A status that reports a state change zeroes the ids of both directions, the gap count and
  everything the fill tracker knew of sent packets, and on entry to TX the start-time estimator, whatever the
  drain and the link did. A status that reports no change leaves the ids, the gap count, both rings, the
  estimator and the link alone, and the fill tracker too unless the modem receives: then the status is one anchor
  for it, taken at the time read now, and the sent packets it remembers stay. A change between two states other
  than TX leaves the estimator alone. Either way the reported state, named or not, is the published one.\<close>

theorem state_change_mirrors_firmware:
  assumes "new_state = state_of_byte (sp_modem_state status)" and "io' = handle_status env status io"
  shows "io_state io' = new_state \<and>
    (if new_state = io_state io then audio_fields io' = audio_fields io \<and>
       io_tracker io' = (if new_state = ST_RX then cft_on_status status (en_clock env (io_clock_reads io)) (io_tracker io)
         else io_tracker io) \<and>
       cf_ring (io_tracker io') = cf_ring (io_tracker io) \<and>
       cf_cumulative_sent (io_tracker io') = cf_cumulative_sent (io_tracker io)
     else io_codec io' = codec_init \<and> io_tx_pkt_id io' = 0 \<and>
       (\<exists>now. io_tracker io' = (if new_state = ST_RX then cft_on_status status now (cft_reset (io_tracker io))
         else cft_reset (io_tracker io))) \<and>
       (\<forall>i. cft_find_entry i (io_tracker io') = None) \<and> cf_cumulative_sent (io_tracker io') = 0 \<and>
       (new_state = ST_TX \<longrightarrow> te_cumulative_samples (io_tx_start io') = 0 \<and> \<not> has_observation (io_tx_start io')) \<and>
       (new_state \<noteq> ST_TX \<and> io_state io \<noteq> ST_TX \<longrightarrow> io_tx_start io' = io_tx_start io))"
proof -
  let ?s = "state_change env (io_state io) new_state io"
  have a: "audio_fields io' = audio_fields ?s" and st: "io_state io' = new_state"
    unfolding assms by (rule handle_status_audio)+
  note t = status_tracker [OF assms(1), of env io, folded assms(2), unfolded Let_def state_change_tracker]
  show ?thesis
  proof (cases "new_state = io_state io")
    case True
    have "state_change env st st io = io" for st by (simp add: state_change_def)
    with True a st t show ?thesis by (simp add: on_status_ring)
  next
    case False
    let ?c = "cft_reset (io_tracker io)"
    note t' = t [unfolded if_not_P [OF False]]
    then have now: "\<exists>now. io_tracker io' = (if new_state = ST_RX then cft_on_status status now ?c else ?c)" by blast
    have "cf_ring (io_tracker io') = cf_ring ?c" "cf_cumulative_sent (io_tracker io') = cf_cumulative_sent ?c"
      by (simp_all add: t' on_status_ring)
    then have "(\<forall>i. cft_find_entry i (io_tracker io') = None) \<and> cf_cumulative_sent (io_tracker io') = 0"
      using find_after_reset [of _ "io_tracker io"] by (simp add: cft_find_entry_def) (simp add: cft_reset_def)
    with False a st now show ?thesis
      by (simp add: audio_fields_def state_change_def Let_def reset_sequence_def codec_init_def
          on_tx_entry_def has_observation_def)
  qed
qed

definition idle_env :: "(mock, nat) io_env" where
  "idle_env = \<lparr>en_transport = mock_transport, en_gauss = counting, en_clock = int\<rparr>"

definition fresh_io :: "(mock, nat) modem_io" where
  "fresh_io = modem_io_new (modem_new mock_new ''m'') small_ring small_ring None [] None None"

theorem state_change_mirrors_firmware_witness:
  "io_state (handle_status idle_env (zero_status\<lparr>sp_modem_state := 1\<rparr>) (fresh_io\<lparr>io_tx_pkt_id := 9\<rparr>)) = ST_RX \<and>
   io_tx_pkt_id (handle_status idle_env (zero_status\<lparr>sp_modem_state := 1\<rparr>) (fresh_io\<lparr>io_tx_pkt_id := 9\<rparr>)) = 0"
  using state_change_mirrors_firmware [of ST_RX "zero_status\<lparr>sp_modem_state := 1\<rparr>" _ idle_env
      "fresh_io\<lparr>io_tx_pkt_id := 9\<rparr>", OF _ refl]
  by (simp add: zero_status_def state_of_byte_def fresh_io_def modem_io_new_def modem_new_def Let_def
      io_state_def initial_runtime_def)

section \<open>Incomplete transfers\<close>

text \<open>A data transfer that is not a full packet changes nothing but the link, the buffer it
  wrote into and the short-read counter, and a control transfer that is not a full packet nothing
  but the link and its buffer: stale buffer contents are never decoded.\<close>

theorem incomplete_transfers_are_ignored:
  "tp_recv_data (en_transport env) 512 1 (md_transport (io_modem io)) = (t, r, w) \<Longrightarrow>
     tr_ok r \<Longrightarrow> tr_bytes r \<noteq> 512 \<Longrightarrow>
     tp_recv_control (en_transport env) 64 1 (md_transport (io_modem io)) = (t', r', w') \<Longrightarrow>
     \<not> tr_disconnected r' \<Longrightarrow> tr_bytes r' \<noteq> 64 \<Longrightarrow>
   receive_tx_data env io = upd_metrics (\<lambda>m. m\<lparr>mt_short_reads := mt_short_reads m + 1\<rparr>)
     (io\<lparr>io_modem := (io_modem io)\<lparr>md_transport := t\<rparr>, io_data_buf := overwrite w (io_data_buf io)\<rparr>) \<and>
   poll_control env io = io\<lparr>io_modem := (io_modem io)\<lparr>md_transport := t'\<rparr>,
     io_ctrl_buf := overwrite w' (io_ctrl_buf io)\<rparr>"
  by (simp add: receive_tx_data_def poll_control_def io_recv_data_def io_recv_control_def
      process_tx_packet_def DATA_PACKET_SIZE_def CONTROL_PACKET_SIZE_def DATA_TIMEOUT_MS_def
      IO_CTRL_TIMEOUT_MS_def set_transport_def tr_ok_def tr_disconnected_def)

text \<open>A link that answers every receive with success and ten bytes.\<close>

definition stutter :: "mock transport" where
  "stutter = mock_transport\<lparr>tp_recv_data := (\<lambda>n ms m. (m, result TS_OK 10, replicate 10 1)),
     tp_recv_control := (\<lambda>n ms m. (m, result TS_OK 10, replicate 10 1))\<rparr>"

theorem incomplete_transfers_are_ignored_witness:
  "io_tx_ring (receive_tx_data (idle_env\<lparr>en_transport := stutter\<rparr>) fresh_io) = small_ring \<and>
   io_state (poll_control (idle_env\<lparr>en_transport := stutter\<rparr>) fresh_io) = ST_IDLE"
  using incomplete_transfers_are_ignored [of "idle_env\<lparr>en_transport := stutter\<rparr>" fresh_io
      "md_transport (io_modem fresh_io)" "result TS_OK 10" "replicate 10 1"
      "md_transport (io_modem fresh_io)" "result TS_OK 10" "replicate 10 1"]
  by (simp add: stutter_def tr_ok_def tr_disconnected_def upd_metrics_def fresh_io_def modem_io_new_def
      Let_def io_state_def modem_new_def initial_runtime_def)

section \<open>Failed sends\<close>

text \<open>C37: What a send attempt does. The packet on the wire carries the current id and the oldest
  samples of the receive ring. When the link takes it, the id advances by one and the tracker learns
  of it; when the link fails, id, tracker and counters stay, so host and modem remain in step, but
  the samples are gone from the ring and are never sent.\<close>

theorem send_attempt_outcomes:
  assumes "spsc_inv (io_rx_ring io)" and "io_samples_per_pkt io \<le> 255"
    and "xs = take (io_samples_per_pkt io) (spsc_contents (io_rx_ring io))"
    and "tp_send_data (en_transport env) (encode_data_packet (io_tx_pkt_id io) xs (length xs)) 1
           (md_transport (io_modem io)) = (t, r)"
    and "io' = send_packet env io"
  shows "spsc_contents (io_rx_ring io') = drop (io_samples_per_pkt io) (spsc_contents (io_rx_ring io)) \<and>
    (if tr_ok r
     then io_tx_pkt_id io' = io_tx_pkt_id io + 1 \<and> io_rx_packets_sent io' = io_rx_packets_sent io + 1 \<and>
       io_tracker io' = cft_on_packet_sent (io_tx_pkt_id io) (of_nat (length xs))
         (en_clock env (io_clock_reads io)) (io_tracker io)
     else io_tx_pkt_id io' = io_tx_pkt_id io \<and> io_rx_packets_sent io' = io_rx_packets_sent io \<and>
       io_tracker io' = io_tracker io)"
proof -
  let ?rd = "spsc_read (io_rx_ring io) (of_nat (io_samples_per_pkt io))"
  have u: "unat (of_nat (io_samples_per_pkt io) :: u64) = io_samples_per_pkt io"
    using assms(2) by (simp add: unat_of_nat take_bit_nat_eq_self)
  have rd: "snd ?rd = xs" "spsc_contents (fst ?rd) = drop (io_samples_per_pkt io) (spsc_contents (io_rx_ring io))"
    using spsc_read_facts [OF assms(1), of "of_nat (io_samples_per_pkt io)"] by (simp_all add: u assms(3))
  have dis: "tr_disconnected r \<Longrightarrow> \<not> tr_ok r" by (simp add: tr_disconnected_def tr_ok_def)
  show ?thesis
    unfolding assms(5) send_packet_def Let_def case_prod_beta
    using rd assms(4) dis
    by (simp add: DATA_TIMEOUT_MS_def io_steps)
qed

theorem send_attempt_outcomes_witness:
  "spsc_contents (io_rx_ring (send_packet idle_env (fresh_io\<lparr>io_rx_ring := small_ring\<lparr>rb_write_pos := 2\<rparr>\<rparr>))) = []"
proof -
  let ?io = "fresh_io\<lparr>io_rx_ring := small_ring\<lparr>rb_write_pos := 2\<rparr>\<rparr>"
  have cap: "\<exists>k<64. (2 :: u64) = 2 ^ k" by (rule exI [of _ 1]) simp
  have i: "spsc_inv (io_rx_ring ?io)" using cap by (simp add: spsc_inv_def small_ring_def)
  have l: "length (spsc_contents (io_rx_ring ?io)) = 2" by (simp add: spsc_contents_def small_ring_def)
  have s: "io_samples_per_pkt ?io = 255"
    by (simp add: fresh_io_def modem_io_new_def Let_def samples_per_packet_cases modem_new_def
        default_calibration_def)
  obtain t r where "tp_send_data (en_transport idle_env) (encode_data_packet (io_tx_pkt_id ?io)
      (take (io_samples_per_pkt ?io) (spsc_contents (io_rx_ring ?io)))
      (length (take (io_samples_per_pkt ?io) (spsc_contents (io_rx_ring ?io))))) 1
      (md_transport (io_modem ?io)) = (t, r)" by (metis prod.exhaust)
  from send_attempt_outcomes [OF i _ refl this refl] s l show ?thesis by simp
qed

end
