(* ===== verification/Modem_Session.thy ===== *)
theory Modem_Session
  imports Modem_IO Usb_Transport
begin

text \<open>
  The I/O thread of \<open>Modem_IO\<close> run against the mock modem of \<open>Transport\<close>, over any number of
  iterations and any clock: what a session delivers in either direction, with other threads writing to the
  pair buffers between its iterations; and against a link that has gone dead (locale \<open>dead_link\<close>), closed or
  unplugged.
\<close>

definition mock_env :: "'g gauss_source \<Rightarrow> (nat \<Rightarrow> host_time) \<Rightarrow> (mock, 'g) io_env" where
  "mock_env gs clk = \<lparr>en_transport = mock_transport, en_gauss = gs, en_clock = clk\<rparr>"

abbreviation the_mock :: "(mock, 'g) modem_io \<Rightarrow> mock" where
  "the_mock io \<equiv> md_transport (io_modem io)"

definition gaps :: "('t, 'g) modem_io \<Rightarrow> nat option" where
  "gaps io = map_option mt_sequence_gaps (io_metrics io)"

section \<open>Gap counts\<close>

lemma gaps_upd [simp]:
  "gaps (log_to lc io) = gaps io"
  "gaps (upd_runtime g io) = gaps io"
  "gaps (io\<lparr>io_clock_reads := n\<rparr>) = gaps io"
  "gaps (io\<lparr>io_tracker := c\<rparr>) = gaps io"
  "gaps (io\<lparr>io_last_fill_est := i, io_last_modem_rate := w, io_last_tracker_fallbacks := k\<rparr>) = gaps io"
  "gaps (io\<lparr>io_log_first_rx_send := b, io_skip_next_drift_check := b'\<rparr>) = gaps io"
  "gaps (io\<lparr>io_skip_next_drift_check := b\<rparr>) = gaps io"
  "gaps (io\<lparr>io_log_first_rx_send := b\<rparr>) = gaps io"
  "gaps (io\<lparr>io_last_fallback_count := n\<rparr>) = gaps io"
  "gaps (io\<lparr>io_last_fill_fw := w'\<rparr>) = gaps io"
  "gaps (io\<lparr>io_last_error_flags := w''\<rparr>) = gaps io"
  by (simp_all add: gaps_def io_steps)

lemma gaps_upd_metrics: "(\<And>m. mt_sequence_gaps (f m) = mt_sequence_gaps m) \<Longrightarrow> gaps (upd_metrics f io) = gaps io"
  by (simp add: gaps_def upd_metrics_def option.map_comp comp_def)

lemma gaps_track [simp]: "gaps (track_status env status old new io) = gaps io"
  by (simp add: track_status_def read_clock_def Let_def gaps_upd_metrics split: option.splits)

lemma gaps_record [simp]:
  "gaps (record_fill status io) = gaps io"
  "gaps (record_errors status io) = gaps io"
  "gaps (record_drift status new io) = gaps io"
  by (simp_all add: record_fill_def record_errors_def record_drift_def Let_def gaps_upd_metrics)

lemma handle_status_gaps: "gaps (handle_status env status io) =
    gaps (state_change env (io_state io) (state_of_byte (sp_modem_state status)) io)"
  by (simp add: handle_status_def Let_def)

section \<open>Exchanges with the mock\<close>

lemma decode_status_prefix:
  assumes "sp_type s = 1" and "length (sp_reserved s) = 48"
  shows "decode_status (encode_status s @ rest) = Some s"
  using assms
  by (simp add: decode_status_def encode_status_def le16_def le32_def rd16_def rd32_def
      split_u16 split_u32)

lemma decode_calibration_prefix: "decode_status (encode_calibration cal @ rest) = None"
  by (rule decode_status_other) (simp add: encode_calibration_def calibration_bytes_def Let_def)

definition ticked :: "mock \<Rightarrow> mock" where
  "ticked m = mock_apply_transitions (m\<lparr>mk_sim_time_ms := mk_sim_time_ms m + 1\<rparr>)"

lemma ticked_fields [simp]:
  "mk_is_open (ticked m) = mk_is_open m" "mk_tx_queue (ticked m) = mk_tx_queue m"
  "mk_pending_calibration (ticked m) = mk_pending_calibration m"
  "mk_rx_expected_id (ticked m) = mk_rx_expected_id m" "mk_rx_packets (ticked m) = mk_rx_packets m"
  "mk_transitions m = [] \<Longrightarrow> mk_state (ticked m) = mk_state m"
  "mk_transitions m = [] \<Longrightarrow> mk_transitions (ticked m) = []"
  by (simp_all add: ticked_def mock_apply_transitions_def Let_def)

lemma mock_recv_control_open:
  assumes "mk_is_open m"
  shows "tp_recv_control mock_transport CONTROL_PACKET_SIZE IO_CTRL_TIMEOUT_MS m =
    (if mk_pending_calibration m
     then ((ticked m)\<lparr>mk_pending_calibration := False\<rparr>, result TS_OK 64, encode_calibration (mk_calibration (ticked m)))
     else (ticked m, result TS_OK 64, encode_status (mock_status (ticked m))))"
proof -
  have "mock_apply_transitions (m\<lparr>mk_sim_time_ms := Suc (mk_sim_time_ms m)\<rparr>) = ticked m"
    by (simp add: ticked_def)
  with assms ticked_fields(3) [of m] show ?thesis
    by (simp add: mock_transport_def mock_recv_control_def IO_CTRL_TIMEOUT_MS_def Let_def
        CONTROL_PACKET_SIZE_def CONTROL_PACKET_BYTES_def)
qed

text \<open>A poll answered with a status: what the handler is given.\<close>

lemma poll_status:
  assumes "mk_is_open (the_mock io)" and "\<not> mk_pending_calibration (the_mock io)"
  shows "\<exists>io1. audio_fields io1 = audio_fields (set_transport (ticked (the_mock io)) io) \<and>
    io_state io1 = io_state io \<and> gaps io1 = gaps io \<and>
    poll_control (mock_env gs clk) io = handle_status (mock_env gs clk) (mock_status (ticked (the_mock io))) io1"
proof -
  let ?m = "ticked (the_mock io)"
  let ?io1 = "(set_transport ?m io)\<lparr>io_ctrl_buf := overwrite (encode_status (mock_status ?m)) (io_ctrl_buf io)\<rparr>"
  have "decode_status (io_ctrl_buf ?io1) = Some (mock_status ?m)"
    unfolding overwrite_def
    by (simp add: decode_status_prefix overwrite_def mock_status_def zero_status_def)
  then have "poll_control (mock_env gs clk) io = handle_status (mock_env gs clk) (mock_status ?m) ?io1"
    using assms by (simp add: poll_control_def io_recv_control_def mock_env_def
        mock_recv_control_open [unfolded CONTROL_PACKET_SIZE_def] tr_disconnected_def tr_ok_def Let_def CONTROL_PACKET_SIZE_def)
  moreover have "audio_fields ?io1 = audio_fields (set_transport ?m io)" "io_state ?io1 = io_state io"
    "gaps ?io1 = gaps io"
    by (simp_all add: audio_fields_def io_state_def gaps_def set_transport_def)
  ultimately show ?thesis by blast
qed

lemma mock_status_state [simp]: "state_of_byte (sp_modem_state (mock_status m)) = state_of_byte (byte_of_state (mk_state m))"
  by (simp add: mock_status_def)

section \<open>Sample delivery from the modem\<close>

text \<open>With an empty transmit queue nothing reaches the transmit ring, whatever the handlers do.\<close>

definition tx_quiet :: "(mock, 'g) modem_io \<Rightarrow> (mock, 'g) modem_io \<Rightarrow> bool" where
  "tx_quiet io io' \<longleftrightarrow> io_tx_ring io' = io_tx_ring io \<and> gaps io' = gaps io \<and>
     mk_tx_queue (the_mock io') = [] \<and> mk_is_open (the_mock io') \<and> io_running io' = io_running io"

lemma audio_eqD:
  assumes "audio_fields io' = audio_fields io"
  shows "io_tx_ring io' = io_tx_ring io" "io_rx_ring io' = io_rx_ring io"
    "io_receiver_mix io' = io_receiver_mix io" "io_codec io' = io_codec io"
    "io_samples_per_pkt io' = io_samples_per_pkt io" "io_tx_pkt_id io' = io_tx_pkt_id io"
    "io_running io' = io_running io" "md_transport (io_modem io') = md_transport (io_modem io)"
    "io_sleeps io' = io_sleeps io" "io_pair_buffers io' = io_pair_buffers io"
  using assms by (simp_all add: audio_fields_def)

lemma tx_quiet_trans: "tx_quiet a b \<Longrightarrow> tx_quiet b c \<Longrightarrow> tx_quiet a c"
  by (simp add: tx_quiet_def)

lemma recv_empty:
  assumes "mk_is_open (the_mock io)" and "mk_tx_queue (the_mock io) = []"
  shows "io_recv_data (mock_env gs clk) ms io = (io, result TS_TIMEOUT 0)"
  using assms by (simp add: io_recv_data_def mock_env_def mock_transport_def mock_recv_data_def
      overwrite_def set_transport_def)

lemma drain_empty:
  assumes "mk_is_open (the_mock io)" and "mk_tx_queue (the_mock io) = []"
  shows "drain_tx_pipeline (mock_env gs clk) io = io"
  using assms by (simp add: drain_tx_pipeline_def TX_DRAIN_MAX_ITERATIONS_def numeral_eq_Suc recv_empty
      tr_disconnected_def tr_ok_def)

lemma receive_empty:
  assumes "mk_is_open (the_mock io)" and "mk_tx_queue (the_mock io) = []"
  shows "receive_tx_data (mock_env gs clk) io = io"
  using assms by (simp add: receive_tx_data_def recv_empty tr_disconnected_def tr_ok_def)

lemma quiet_status:
  assumes "mk_is_open (the_mock io)" and "mk_tx_queue (the_mock io) = []"
  shows "tx_quiet io (handle_status (mock_env gs clk) status io)"
proof -
  let ?s = "state_change (mock_env gs clk) (io_state io) (state_of_byte (sp_modem_state status)) io"
  have "tx_quiet io ?s"
    using assms drain_empty [OF assms] by (simp add: tx_quiet_def state_change_def Let_def gaps_def)
  moreover note audio_eqD [OF handle_status_audio(1) [of "mock_env gs clk" status io]]
    handle_status_gaps [of "mock_env gs clk" status io]
  ultimately show ?thesis by (simp add: tx_quiet_def)
qed

lemma quiet_poll:
  assumes "mk_is_open (the_mock io)" and "mk_tx_queue (the_mock io) = []"
  shows "tx_quiet io (poll_control (mock_env gs clk) io)"
proof (cases "mk_pending_calibration (the_mock io)")
  case True
  with assms show ?thesis
    by (simp add: poll_control_def io_recv_control_def mock_env_def
        mock_recv_control_open [unfolded CONTROL_PACKET_SIZE_def] tr_disconnected_def
        tr_ok_def Let_def CONTROL_PACKET_SIZE_def overwrite_def decode_calibration_prefix)
      (simp add: tx_quiet_def set_transport_def gaps_def)
next
  case False
  from poll_status [OF assms(1) False] obtain io1
    where a: "audio_fields io1 = audio_fields (set_transport (ticked (the_mock io)) io)"
      and g: "gaps io1 = gaps io" and p: "poll_control (mock_env gs clk) io =
        handle_status (mock_env gs clk) (mock_status (ticked (the_mock io))) io1" by blast
  note f = audio_eqD [OF a]
  have "tx_quiet io io1" using assms f g by (simp add: tx_quiet_def set_transport_def)
  moreover have "tx_quiet io1 (poll_control (mock_env gs clk) io)"
    unfolding p by (rule quiet_status) (use assms f in \<open>simp_all add: set_transport_def\<close>)
  ultimately show ?thesis by (rule tx_quiet_trans)
qed

lemma quiet_top_up: "io_tx_ring (top_up env io) = io_tx_ring io" "gaps (top_up env io) = gaps io"
    "io_modem (top_up env io) = io_modem io" "io_running (top_up env io) = io_running io"
  by (simp_all add: top_up_def gaps_def case_prod_beta Let_def split: option.splits)

lemma quiet_send_packet:
  assumes "mk_is_open (the_mock io)" and "mk_tx_queue (the_mock io) = []"
  shows "tx_quiet io (send_packet (mock_env gs clk) io)"
  using assms
  by (simp add: send_packet_def mock_env_def mock_transport_def mock_send_data_def case_prod_beta
      Let_def tr_disconnected_def tr_ok_def)
    (simp add: tx_quiet_def io_steps gaps_def option.map_comp comp_def)

lemma quiet_send:
  assumes "mk_is_open (the_mock io)" and "mk_tx_queue (the_mock io) = []"
  shows "tx_quiet io (send_rx_data (mock_env gs clk) io)"
proof -
  let ?t = "top_up (mock_env gs clk) io"
  let ?r = "read_clock (mock_env gs clk) ?t"
  let ?c = "cft_should_send (snd ?r) (io_tracker (fst ?r))"
  have q: "tx_quiet io ?t" using assms by (simp add: tx_quiet_def quiet_top_up)
  have q2: "tx_quiet io ((fst ?r)\<lparr>io_tracker := fst ?c\<rparr>)"
    using q by (simp add: tx_quiet_def read_clock_def gaps_def)
  have "tx_quiet io (send_packet (mock_env gs clk) ((fst ?r)\<lparr>io_tracker := fst ?c\<rparr>))"
    using q2 by (intro tx_quiet_trans [OF q2] quiet_send_packet) (simp_all add: tx_quiet_def)
  then show ?thesis
    using q q2 unfolding send_rx_data_def Let_def case_prod_beta
    by (auto simp: tx_quiet_def gaps_def)
qed

lemma quiet_iteration:
  assumes "mk_is_open (the_mock io)" and "mk_tx_queue (the_mock io) = []"
  shows "tx_quiet io (io_iteration (mock_env gs clk) i io)"
proof -
  let ?p = "if i mod CONTROL_POLL_INTERVAL = 0 then poll_control (mock_env gs clk) io else io"
  have q: "tx_quiet io ?p" using quiet_poll [OF assms] assms by (simp add: tx_quiet_def)
  then have "mk_is_open (the_mock ?p)" "mk_tx_queue (the_mock ?p) = []" by (simp_all only: tx_quiet_def)
  note quiet_send [OF this]
  with q receive_empty [OF \<open>mk_is_open (the_mock ?p)\<close> \<open>mk_tx_queue (the_mock ?p) = []\<close>]
  show ?thesis unfolding io_iteration_def Let_def
    by (cases "io_state ?p") (auto intro: tx_quiet_trans)
qed

text \<open>One packet of the queue arrives.\<close>

lemma decode_prefix:
  assumes "length p = 512" and "n \<le> 255"
  shows "decode_data_packet (p @ rest) n = decode_data_packet p n"
  using assms
  by (auto simp: decode_data_packet_def Let_def nth_append rd16_def DATA_HEADER_BYTES_def intro!: map_cong)

lemma receive_packet:
  fixes io :: "(mock, 'g) modem_io" and gs :: "'g gauss_source" and clk :: "nat \<Rightarrow> host_time"
  assumes "mk_is_open (the_mock io)" and "mk_tx_queue (the_mock io) = p # rest"
    and "mk_state (the_mock io) = ST_TX" and "length p = 512"
    and "decode_data_packet p 255 = (cd_expected_id (io_codec io), xs)"
  defines "io' \<equiv> receive_tx_data (mock_env gs clk) io"
  shows "io_tx_ring io' = fst (spsc_write (io_tx_ring io) xs)" and "gaps io' = gaps io"
    and "mk_tx_queue (the_mock io') = rest" and "mk_is_open (the_mock io')"
    and "cd_expected_id (io_codec io') = cd_expected_id (io_codec io) + 1"
    and "io_running io' = io_running io" and "io_state io' = io_state io"
    and "mk_pending_calibration (the_mock io') = mk_pending_calibration (the_mock io)"
    and "rest \<noteq> [] \<Longrightarrow> mk_state (the_mock io') = ST_TX \<and> mk_transitions (the_mock io') = mk_transitions (the_mock io)"
proof -
  define m where "m = fst (tp_recv_data mock_transport DATA_PACKET_SIZE DATA_TIMEOUT_MS (the_mock io))"
  have m: "mk_tx_queue m = rest" "mk_is_open m" "mk_pending_calibration m = mk_pending_calibration (the_mock io)"
    "rest \<noteq> [] \<Longrightarrow> mk_state m = ST_TX \<and> mk_transitions m = mk_transitions (the_mock io)"
    using assms(1-3) by (simp_all add: m_def mock_transport_def mock_recv_data_def Let_def add_transition_def)
  define io1 where "io1 = (set_transport m io)\<lparr>io_data_buf := overwrite p (io_data_buf io)\<rparr>"
  have "tp_recv_data mock_transport DATA_PACKET_SIZE DATA_TIMEOUT_MS (the_mock io) = (m, result TS_OK 512, p)"
    using assms(1-4) by (simp add: m_def mock_transport_def mock_recv_data_def DATA_PACKET_SIZE_def
        DATA_PACKET_BYTES_def Let_def)
  then have r: "io' = process_tx_packet (mock_env gs clk) 512 io1"
    by (simp add: io'_def receive_tx_data_def io_recv_data_def mock_env_def tr_disconnected_def tr_ok_def io1_def)
  have d: "decode_data_packet (io_data_buf io1) DATA_SAMPLES_PER_PKT = (cd_expected_id (io_codec io), xs)"
    using assms(4,5) by (simp add: io1_def overwrite_def decode_prefix)
  have c: "check_sequence (cd_expected_id (io_codec io)) (io_codec io1) =
      (True, (io_codec io)\<lparr>cd_expected_id := cd_expected_id (io_codec io) + 1\<rparr>)"
    by (simp add: check_sequence_def io1_def set_transport_def)
  have r': "io' = (let (io4, now) = read_clock (mock_env gs clk) (io1\<lparr>io_codec :=
        (io_codec io)\<lparr>cd_expected_id := cd_expected_id (io_codec io) + 1\<rparr>,
        io_tx_ring := fst (spsc_write (io_tx_ring io1) xs)\<rparr>)
    in log_to (Log_Tx (md_id (io_modem io1)) xs) (upd_metrics (\<lambda>m. m\<lparr>mt_tx_packets_received := mt_tx_packets_received m + 1\<rparr>)
      (io4\<lparr>io_tx_start := on_tx_packet (of_nat (length xs)) now (io_tx_start io4)\<rparr>)))"
    unfolding r process_tx_packet_def d by (simp add: c DATA_PACKET_SIZE_def Let_def case_prod_beta)
  show "io_tx_ring io' = fst (spsc_write (io_tx_ring io) xs)" "gaps io' = gaps io"
    "mk_tx_queue (the_mock io') = rest" "mk_is_open (the_mock io')"
    "cd_expected_id (io_codec io') = cd_expected_id (io_codec io) + 1"
    "io_running io' = io_running io" "io_state io' = io_state io"
    "mk_pending_calibration (the_mock io') = mk_pending_calibration (the_mock io)"
    unfolding r' using m
    by (simp_all add: read_clock_def io1_def upd_metrics_def log_to_def set_transport_def gaps_def
        io_state_def option.map_comp comp_def)
  show "rest \<noteq> [] \<Longrightarrow> mk_state (the_mock io') = ST_TX \<and> mk_transitions (the_mock io') = mk_transitions (the_mock io)"
    unfolding r' using m(4)
    by (simp add: read_clock_def io1_def upd_metrics_def log_to_def set_transport_def)
qed

lemma waveform_packet_length: "p \<in> set (waveform_packets samples i) \<Longrightarrow> length p = 512"
proof (induction samples i rule: waveform_packets.induct)
  case (1 samples i)
  then have ne: "samples \<noteq> []" by (auto simp: waveform_packets.simps)
  with 1 show ?case
    by (auto simp: waveform_packets_step length_encode_data_packet)
qed

definition tx_inv :: "u8 list list \<Rightarrow> nat option \<Rightarrow> nat \<Rightarrow> nat \<Rightarrow> (mock, 'g) modem_io \<Rightarrow> bool" where
  "tx_inv ps G j i io \<longleftrightarrow> j \<le> length ps \<and> io_running io \<and> mk_is_open (the_mock io) \<and>
     mk_tx_queue (the_mock io) = drop j ps \<and> gaps io = G \<and> spsc_inv (io_tx_ring io) \<and>
     255 * length ps \<le> unat (rb_capacity (io_tx_ring io)) \<and>
     spsc_contents (io_tx_ring io) = concat (map (\<lambda>p. snd (decode_data_packet p 255)) (take j ps)) \<and>
     (if j = length ps then True else mk_state (the_mock io) = ST_TX \<and> mk_transitions (the_mock io) = [] \<and>
        \<not> mk_pending_calibration (the_mock io) \<and>
        (io_state io = ST_TX \<and> cd_expected_id (io_codec io) = of_nat j \<or> io_state io \<noteq> ST_TX \<and> j = 0 \<and> i = 0))"

lemma tx_poll:
  assumes inv: "tx_inv ps G j i io" and j: "j < length ps"
  shows "tx_inv ps G j i (poll_control (mock_env gs clk) io) \<and> io_state (poll_control (mock_env gs clk) io) = ST_TX"
proof -
  have m: "mk_is_open (the_mock io)" "\<not> mk_pending_calibration (the_mock io)" "mk_state (the_mock io) = ST_TX"
    "mk_transitions (the_mock io) = []" "mk_tx_queue (the_mock io) = drop j ps"
    using inv j by (auto simp: tx_inv_def)
  from poll_status [OF m(1,2)] obtain io1
    where a: "audio_fields io1 = audio_fields (set_transport (ticked (the_mock io)) io)"
      and st: "io_state io1 = io_state io" and g: "gaps io1 = gaps io"
      and p: "poll_control (mock_env gs clk) io =
        handle_status (mock_env gs clk) (mock_status (ticked (the_mock io))) io1" by blast
  let ?io' = "handle_status (mock_env gs clk) (mock_status (ticked (the_mock io))) io1"
  let ?s = "state_change (mock_env gs clk) (io_state io) ST_TX io1"
  have new: "state_of_byte (sp_modem_state (mock_status (ticked (the_mock io)))) = ST_TX"
    unfolding mock_status_state using m by (simp add: state_of_byte_def)
  have b: "audio_fields ?io' = audio_fields ?s" "io_state ?io' = ST_TX" "gaps ?io' = gaps ?s"
    using handle_status_audio [of "mock_env gs clk" "mock_status (ticked (the_mock io))" io1]
      handle_status_gaps [of "mock_env gs clk" "mock_status (ticked (the_mock io))" io1]
    unfolding new st by simp_all
  have s: "io_tx_ring ?s = io_tx_ring io" "io_running ?s = io_running io" "the_mock ?s = ticked (the_mock io)"
    "gaps ?s = gaps io" "cd_expected_id (io_codec ?s) = (if io_state io = ST_TX then cd_expected_id (io_codec io) else 0)"
    using audio_eqD [OF a] g by (simp_all add: state_change_def Let_def set_transport_def gaps_def
        reset_sequence_def)
  show ?thesis unfolding p using audio_eqD [OF b(1)] b(2,3) s inv j m by (auto simp: tx_inv_def)
qed

lemma tx_receive:
  assumes inv: "tx_inv ps G j i io" and j: "j < length ps" and st: "io_state io = ST_TX"
    and ps: "length (ps ! j) = 512" "fst (decode_data_packet (ps ! j) 255) = of_nat j"
  shows "tx_inv ps G (Suc j) (Suc i) (receive_tx_data (mock_env gs clk) io)"
proof -
  let ?xs = "snd (decode_data_packet (ps ! j) 255)"
  have q: "mk_tx_queue (the_mock io) = ps ! j # drop (Suc j) ps"
    using inv j by (simp add: tx_inv_def Cons_nth_drop_Suc)
  have len: "length (snd (decode_data_packet p 255)) = 255" for p by (simp add: decode_data_packet_def Let_def)
  have "decode_data_packet (ps ! j) 255 = (cd_expected_id (io_codec io), ?xs)"
    using inv j st ps(2) by (auto simp: tx_inv_def prod_eq_iff)
  note r = receive_packet [OF _ q _ ps(1) this, of gs clk]
  have l: "length (spsc_contents (io_tx_ring io)) = 255 * j"
    using inv by (simp add: tx_inv_def length_concat len comp_def sum_list_triv)
  note w = spsc_write_facts [of "io_tx_ring io" ?xs]
  have room: "unat (snd (spsc_write (io_tx_ring io) ?xs)) = 255"
  proof -
    have "255 * Suc j \<le> 255 * length ps" using j by (intro mult_le_mono2) simp
    also have "\<dots> \<le> unat (rb_capacity (io_tx_ring io))" using inv by (simp add: tx_inv_def)
    finally have "255 \<le> unat (rb_capacity (io_tx_ring io)) - 255 * j" by simp
    with w inv l show ?thesis by (simp add: tx_inv_def len)
  qed
  have tk: "take (Suc j) ps = take j ps @ [ps ! j]" using j by (simp add: take_Suc_conv_app_nth)
  have cap: "rb_capacity (fst (spsc_write (io_tx_ring io) ?xs)) = rb_capacity (io_tx_ring io)"
    by (simp add: spsc_write_def Let_def)
  show ?thesis
    using r inv j st w room cap unfolding tx_inv_def tk by (auto simp: len)
qed

lemma tx_step:
  assumes inv: "tx_inv ps G j i io"
    and ps: "\<And>k. k < length ps \<Longrightarrow> length (ps ! k) = 512 \<and> fst (decode_data_packet (ps ! k) 255) = of_nat k"
  shows "tx_inv ps G (min (Suc j) (length ps)) (Suc i) (io_iteration (mock_env gs clk) i io)"
proof (cases "j < length ps")
  case True
  let ?p = "if i mod CONTROL_POLL_INTERVAL = 0 then poll_control (mock_env gs clk) io else io"
  have "tx_inv ps G j i ?p" and st: "io_state ?p = ST_TX"
    using tx_poll [OF inv True, of gs clk] inv True by (auto simp: tx_inv_def CONTROL_POLL_INTERVAL_def)
  from tx_receive [OF this(1) True st] ps [OF True]
  have "tx_inv ps G (Suc j) (Suc i) (receive_tx_data (mock_env gs clk) ?p)" by blast
  moreover have "io_iteration (mock_env gs clk) i io = receive_tx_data (mock_env gs clk) ?p"
    unfolding io_iteration_def Let_def st by simp
  ultimately show ?thesis using True by simp
next
  case False
  with inv have "j = length ps" "mk_is_open (the_mock io)" "mk_tx_queue (the_mock io) = []"
    by (simp_all add: tx_inv_def)
  from quiet_iteration [OF this(2,3), of gs clk i] this(1) inv show ?thesis
    by (simp add: tx_inv_def tx_quiet_def)
qed

lemma tx_loop:
  assumes "tx_inv ps G j i io"
    and "\<And>k. k < length ps \<Longrightarrow> length (ps ! k) = 512 \<and> fst (decode_data_packet (ps ! k) 255) = of_nat k"
  shows "tx_inv ps G (min (j + n) (length ps)) (i + n) (io_loop (mock_env gs clk) n i io)"
  using assms(1)
proof (induction n arbitrary: j i io)
  case 0
  then show ?case by (simp add: tx_inv_def)
next
  case (Suc n)
  from Suc.IH [OF tx_step [OF Suc.prems assms(2)]] Suc.prems
  have "tx_inv ps G (min (min (Suc j) (length ps) + n) (length ps)) (Suc i + n)
      (io_loop (mock_env gs clk) n (Suc i) (io_iteration (mock_env gs clk) i io))" by blast
  moreover have "min (min (Suc j) (length ps) + n) (length ps) = min (j + Suc n) (length ps)" by simp
  moreover have "io_running io" using Suc.prems by (simp add: tx_inv_def)
  ultimately show ?case by simp
qed

text \<open>C15: A waveform queued on a transmitting modem reaches the transmit ring complete and in order
  without a single sequence gap, one packet per loop iteration from the first on, whatever the
  polls, the drains and the turn-around to receive at its end do in between and however the clock
  behaves, and the thread is still running.\<close>

theorem tx_waveform_reaches_ring:
  fixes io :: "(mock, 'g) modem_io"
  assumes "md_transport (io_modem io) = mock_enqueue_tx_waveform wave m" and "mk_is_open m"
    and "mk_tx_queue m = []" and "mk_state m = ST_TX" and "mk_transitions m = []"
    and "\<not> mk_pending_calibration m" and "io_state io \<noteq> ST_TX" and "spsc_inv (io_tx_ring io)"
    and "spsc_contents (io_tx_ring io) = []"
    and "255 * ((length wave + 254) div 255) \<le> unat (rb_capacity (io_tx_ring io))"
    and "(length wave + 254) div 255 \<le> n"
  shows "let io' = io_run (mock_env gs clk) n io in
    (\<exists>z < 255. spsc_contents (io_tx_ring io') = wave @ replicate z 0) \<and> gaps io' = gaps io \<and> io_running io'"
proof -
  let ?ps = "waveform_packets wave 0"
  have len: "length ?ps = (length wave + 254) div 255" by (rule waveform_packets_length)
  have "tx_inv ?ps (gaps io) 0 0 (io\<lparr>io_running := True\<rparr>)"
    using assms by (simp add: tx_inv_def len mock_enqueue_tx_waveform_def gaps_def io_state_def)
  from tx_loop [OF this, of n gs clk] waveform_packet_ids [of _ wave 0] waveform_packet_length [of _ wave 0]
  have inv: "tx_inv ?ps (gaps io) (min n (length ?ps)) n (io_run (mock_env gs clk) n io)"
    by (simp add: io_run_def)
  have "min n (length ?ps) = length ?ps" using assms(11) len by simp
  with inv obtain z where "z < 255"
      "spsc_contents (io_tx_ring (io_run (mock_env gs clk) n io)) = wave @ replicate z 0"
    using waveform_samples [of wave 0] by (auto simp: tx_inv_def)
  with inv show ?thesis by (auto simp: Let_def tx_inv_def)
qed

section \<open>Sample delivery to the modem\<close>

definition rx_packet :: "nat \<Rightarrow> u16 list \<Rightarrow> nat \<Rightarrow> u8 list" where
  "rx_packet spp xs j = encode_data_packet (of_nat j) (take spp (drop (j * spp) xs)) spp"

text \<open>The loop with what the other threads do to the pair buffers before each iteration; with nothing done
  it is \<open>io_loop\<close>.\<close>

fun io_turns :: "('t, 'g) io_env \<Rightarrow> (pair_buffer list \<Rightarrow> pair_buffer list) list \<Rightarrow> nat \<Rightarrow> ('t, 'g) modem_io \<Rightarrow> ('t, 'g) modem_io" where
  "io_turns env [] i io = io"
| "io_turns env (w # ws) i io =
    (if io_running io
     then io_turns env ws (Suc i) (io_iteration env i (io\<lparr>io_pair_buffers := w (io_pair_buffers io)\<rparr>)) else io)"

lemma io_turns_alone: "io_turns env (replicate n (\<lambda>pbs. pbs)) i io = io_loop env n i io"
  by (induction n arbitrary: i io) simp_all

text \<open>What the mix hands to an iteration that sends: one packet of the mixed stream when less than that waits.\<close>

definition mix_in :: "('t, 'g) io_env \<Rightarrow> ('t, 'g) modem_io \<Rightarrow> u16 list" where
  "mix_in env io = (case io_receiver_mix io of None \<Rightarrow> []
     | Some rm \<Rightarrow> if length (spsc_contents (io_rx_ring io)) < io_samples_per_pkt io
         then pulled (en_gauss env) (io_samples_per_pkt io) rm (io_pair_buffers io) else [])"

fun mix_stream :: "('t, 'g) io_env \<Rightarrow> (pair_buffer list \<Rightarrow> pair_buffer list) list \<Rightarrow> nat \<Rightarrow> ('t, 'g) modem_io \<Rightarrow> u16 list" where
  "mix_stream env [] i io = []"
| "mix_stream env (w # ws) i io =
    (let io1 = io\<lparr>io_pair_buffers := w (io_pair_buffers io)\<rparr>
     in mix_in env io1 @ mix_stream env ws (Suc i) (io_iteration env i io1))"

text \<open>The invariant of a receiving session: \<open>k\<close> packets sent of the stream \<open>xs\<close> so far, \<open>D\<close> samples dropped;
  with \<open>r\<close> the host knows that the modem receives.\<close>

definition rx_inv :: "bool \<Rightarrow> nat \<Rightarrow> nat option \<Rightarrow> u16 list \<Rightarrow> nat \<Rightarrow> (mock, 'g) modem_io \<Rightarrow> bool" where
  "rx_inv r spp D xs k io \<longleftrightarrow> io_running io \<and> mk_is_open (the_mock io) \<and> \<not> mk_pending_calibration (the_mock io) \<and>
     mk_state (the_mock io) = ST_RX \<and> mk_transitions (the_mock io) = [] \<and>
     (\<forall>rm. io_receiver_mix io = Some rm \<longrightarrow> mix_wf rm (io_pair_buffers io) \<and> 2 * spp \<le> unat (rb_capacity (io_rx_ring io))) \<and>
     map_option rm_rx_ring_drops (io_receiver_mix io) = D \<and>
     io_samples_per_pkt io = spp \<and> mk_rx_packets (the_mock io) = map (rx_packet spp xs) [0..<k] \<and>
     mk_rx_expected_id (the_mock io) = of_nat k \<and> io_tx_pkt_id io = of_nat k \<and>
     spsc_inv (io_rx_ring io) \<and> k * spp \<le> length xs \<and> spsc_contents (io_rx_ring io) = drop (k * spp) xs \<and>
     (io_state io = ST_RX \<or> \<not> r \<and> io_state io \<noteq> ST_TX \<and> k = 0)"

lemma rx_others:
  assumes "rx_inv r spp D xs k io" and "pbs_kept (io_pair_buffers io) pbs"
  shows "rx_inv r spp D xs k (io\<lparr>io_pair_buffers := pbs\<rparr>)"
  using assms by (auto simp: rx_inv_def io_state_def intro: mix_wf_kept)

lemma rx_poll:
  assumes inv: "rx_inv r spp D xs k io"
  shows "rx_inv True spp D xs k (poll_control (mock_env gs clk) io) \<and>
    mix_in (mock_env gs clk) (poll_control (mock_env gs clk) io) = mix_in (mock_env gs clk) io"
proof -
  have m: "mk_is_open (the_mock io)" "\<not> mk_pending_calibration (the_mock io)" "mk_state (the_mock io) = ST_RX"
    "mk_transitions (the_mock io) = []"
    using inv by (auto simp: rx_inv_def)
  from poll_status [OF m(1,2)] obtain io1
    where a: "audio_fields io1 = audio_fields (set_transport (ticked (the_mock io)) io)"
      and st: "io_state io1 = io_state io" and p: "poll_control (mock_env gs clk) io =
        handle_status (mock_env gs clk) (mock_status (ticked (the_mock io))) io1" by blast
  let ?io' = "handle_status (mock_env gs clk) (mock_status (ticked (the_mock io))) io1"
  let ?s = "state_change (mock_env gs clk) (io_state io) ST_RX io1"
  have new: "state_of_byte (sp_modem_state (mock_status (ticked (the_mock io)))) = ST_RX"
    unfolding mock_status_state using m by (simp add: state_of_byte_def)
  have b: "audio_fields ?io' = audio_fields ?s" "io_state ?io' = ST_RX"
    using handle_status_audio [of "mock_env gs clk" "mock_status (ticked (the_mock io))" io1]
    unfolding new st by simp_all
  have s: "io_rx_ring ?s = io_rx_ring io" "io_running ?s = io_running io" "the_mock ?s = ticked (the_mock io)"
    "io_receiver_mix ?s = io_receiver_mix io" "io_samples_per_pkt ?s = io_samples_per_pkt io"
    "io_pair_buffers ?s = io_pair_buffers io"
    "io_tx_pkt_id ?s = (if io_state io = ST_RX then io_tx_pkt_id io else 0)"
    using audio_eqD [OF a] inv by (auto simp: state_change_def Let_def set_transport_def rx_inv_def)
  note f = audio_eqD [OF b(1)]
  have "rx_inv True spp D xs k ?io'" using f b(2) s inv m by (auto simp: rx_inv_def)
  moreover have "mix_in (mock_env gs clk) ?io' = mix_in (mock_env gs clk) io" using f s by (simp add: mix_in_def cong: option.case_cong if_cong)
  ultimately show ?thesis unfolding p by blast
qed

lemma rx_packet_append: "Suc j * spp \<le> length xs \<Longrightarrow> rx_packet spp (xs @ ys) j = rx_packet spp xs j"
  by (simp add: rx_packet_def)

lemma rx_packets_append:
  assumes "k * spp \<le> length xs"
  shows "map (rx_packet spp (xs @ ys)) [0..<k] = map (rx_packet spp xs) [0..<k]"
proof (rule map_cong [OF refl])
  fix j assume "j \<in> set [0..<k]"
  then have "Suc j * spp \<le> k * spp" by (intro mult_le_mono1) simp
  with assms show "rx_packet spp (xs @ ys) j = rx_packet spp xs j" by (intro rx_packet_append) simp
qed

lemma rx_send_packet:
  assumes inv: "rx_inv True spp D xs k io" and spp: "spp \<le> 255"
    and full: "spp \<le> length (spsc_contents (io_rx_ring io))"
  shows "rx_inv True spp D xs (Suc k) (send_packet (mock_env gs clk) io)"
proof -
  let ?rd = "spsc_read (io_rx_ring io) (of_nat spp)"
  have u: "unat (of_nat spp :: u64) = spp" using spp by (simp add: unat_of_nat take_bit_nat_eq_self)
  have ri: "spsc_inv (io_rx_ring io)" and c: "spsc_contents (io_rx_ring io) = drop (k * spp) xs"
    and le: "k * spp \<le> length xs" using inv by (simp_all add: rx_inv_def)
  have st: "io_state io = ST_RX" using inv by (simp add: rx_inv_def)
  have cap: "rb_capacity (fst ?rd) = rb_capacity (io_rx_ring io)" by (simp add: spsc_read_def Let_def)
  have rd: "snd ?rd = take spp (drop (k * spp) xs)" "spsc_contents (fst ?rd) = drop (Suc k * spp) xs"
    "spsc_inv (fst ?rd)"
    using spsc_read_facts [OF ri, of "of_nat spp"] by (simp_all add: u c add.commute)
  have len: "length (snd ?rd) = spp" using rd(1) full by (simp add: c)
  have enc: "encode_data_packet (io_tx_pkt_id io) (snd ?rd) (length (snd ?rd)) = rx_packet spp xs k"
    using inv unfolding len by (simp add: rx_packet_def rd rx_inv_def)
  have l512: "length (rx_packet spp xs k) = 512"
    unfolding enc [symmetric] by (rule length_encode_data_packet) simp
  let ?m = "(the_mock io)\<lparr>mk_rx_packets := mk_rx_packets (the_mock io) @ [rx_packet spp xs k],
      mk_rx_expected_id := mk_rx_expected_id (the_mock io) + 1\<rparr>"
  have send: "tp_send_data mock_transport (rx_packet spp xs k) ms (the_mock io) = (?m, result TS_OK 512)" for ms
    using inv l512 by (simp add: mock_transport_def mock_send_data_def rx_inv_def DATA_PACKET_BYTES_def)
  let ?io = "set_transport ?m (io\<lparr>io_rx_ring := fst ?rd, io_log_first_rx_send := False,
      io_data_buf := rx_packet spp xs k, io_tx_pkt_id := io_tx_pkt_id io + 1\<rparr>)"
  have "io_samples_per_pkt io = spp" using inv by (simp add: rx_inv_def)
  then have a: "audio_fields (send_packet (mock_env gs clk) io) = audio_fields ?io"
    "io_state (send_packet (mock_env gs clk) io) = io_state io"
    unfolding send_packet_def Let_def case_prod_beta
    by (simp_all add: enc send mock_env_def tr_disconnected_def tr_ok_def set_transport_def read_clock_def)
      (simp_all add: audio_fields_def io_state_def)
  have le': "Suc k * spp \<le> length xs" using full le by (simp add: c)
  show ?thesis
    using audio_eqD [OF a(1)] a(2) st inv rd le' cap by (simp add: rx_inv_def set_transport_def)
qed

lemma rx_top_up:
  assumes inv: "rx_inv True spp D xs k io" and spp: "spp \<le> 255"
  shows "rx_inv True spp D (xs @ mix_in (mock_env gs clk) io) k (top_up (mock_env gs clk) io)"
proof -
  note av = spsc_available_read_unat [of "io_rx_ring io"]
  have s: "io_samples_per_pkt io = spp" using inv by (simp add: rx_inv_def)
  show ?thesis
  proof (cases "\<exists>rm. io_receiver_mix io = Some rm \<and> length (spsc_contents (io_rx_ring io)) < spp")
    case False
    then have "top_up (mock_env gs clk) io = io" "mix_in (mock_env gs clk) io = []"
      by (auto simp: top_up_def mix_in_def av s split: option.splits)
    with inv show ?thesis by simp
  next
    case True
    then obtain rm where rm: "io_receiver_mix io = Some rm" and l: "length (spsc_contents (io_rx_ring io)) < spp" by blast
    obtain rm' pbs ring acc where p: "pull gs spp rm (io_pair_buffers io) (io_rx_ring io) = (rm', pbs, ring, acc)"
      by (metis prod_cases4)
    then have lp: "pull_loop gs spp 0 rm (io_pair_buffers io) (io_rx_ring io) = (rm', pbs, ring, acc)"
      using l by (simp add: pull_def split: if_splits)
    have wf: "mix_wf rm (io_pair_buffers io)" "spsc_inv (io_rx_ring io)" "2 * spp \<le> unat (rb_capacity (io_rx_ring io))"
      using inv rm by (simp_all add: rx_inv_def)
    have n64: "spp < 2 ^ 64" using spp by simp
    note f = pull_loop_facts [OF wf(1,2) n64 lp] and g = pull_loop_keeps [OF lp wf(1,2) n64]
    have "acc = spp" using f l wf(3) by simp
    with f have c: "spsc_contents ring = spsc_contents (io_rx_ring io) @ pulled gs spp rm (io_pair_buffers io)"
      "rm_rx_ring_drops rm' = rm_rx_ring_drops rm" by (simp_all add: length_pulled)
    have t: "top_up (mock_env gs clk) io = io\<lparr>io_receiver_mix := Some rm', io_pair_buffers := pbs, io_rx_ring := ring\<rparr>"
      using p l by (simp add: top_up_def rm av s mock_env_def)
    have i: "mix_in (mock_env gs clk) io = pulled gs spp rm (io_pair_buffers io)"
      using l by (simp add: mix_in_def rm s mock_env_def)
    have "mix_wf rm' pbs" using g wf(1) by (blast intro: mix_wf_kept)
    then show ?thesis
      using inv g wf(3) c rm unfolding t i by (auto simp: rx_inv_def rx_packets_append io_state_def)
  qed
qed

lemma rx_send:
  assumes inv: "rx_inv True spp D xs k io" and spp: "spp \<le> 255"
  shows "\<exists>k'. rx_inv True spp D (xs @ mix_in (mock_env gs clk) io) k' (send_rx_data (mock_env gs clk) io)"
proof -
  let ?t = "top_up (mock_env gs clk) io" and ?xs = "xs @ mix_in (mock_env gs clk) io"
  let ?r = "read_clock (mock_env gs clk) ?t"
  let ?c = "cft_should_send (snd ?r) (io_tracker (fst ?r))"
  let ?io2 = "(fst ?r)\<lparr>io_tracker := fst ?c\<rparr>"
  have t: "rx_inv True spp D ?xs k ?t" by (rule rx_top_up [OF inv spp])
  then have i2: "rx_inv True spp D ?xs k ?io2" "io_rx_ring ?io2 = io_rx_ring ?t"
    by (simp_all add: read_clock_def rx_inv_def io_state_def)
  have av: "unat (spsc_available_read (io_rx_ring ?t)) = length (spsc_contents (io_rx_ring ?t))"
    by (rule spsc_available_read_unat)
  have "rx_inv True spp D ?xs (Suc k) (send_packet (mock_env gs clk) ?io2)"
    if "spp \<le> length (spsc_contents (io_rx_ring ?t))"
    by (rule rx_send_packet) (use i2 spp that in simp_all)
  moreover have "rx_inv True spp D ?xs k (?t\<lparr>io_rx_send_skipped := n\<rparr>)" for n
    using t by (simp add: rx_inv_def io_state_def)
  moreover have "rx_inv True spp D ?xs k (?io2\<lparr>io_sleeps := s\<rparr>)" for s
    using i2 by (simp add: rx_inv_def io_state_def)
  moreover have "io_samples_per_pkt ?t = spp" using t by (simp add: rx_inv_def)
  ultimately show ?thesis
    using i2(1) unfolding send_rx_data_def Let_def case_prod_beta av by (auto simp: not_less)
qed

lemma rx_step:
  assumes inv: "rx_inv r spp D xs k io" and spp: "spp \<le> 255" and "r \<or> i mod 5 = 0"
  shows "\<exists>k'. rx_inv True spp D (xs @ mix_in (mock_env gs clk) io) k' (io_iteration (mock_env gs clk) i io)"
proof -
  let ?p = "if i mod CONTROL_POLL_INTERVAL = 0 then poll_control (mock_env gs clk) io else io"
  have p: "rx_inv True spp D xs k ?p" "mix_in (mock_env gs clk) ?p = mix_in (mock_env gs clk) io"
    using inv rx_poll [OF inv, of gs clk] assms(3) by (auto simp: CONTROL_POLL_INTERVAL_def)
  then have "io_state ?p = ST_RX" by (simp add: rx_inv_def)
  then have "io_iteration (mock_env gs clk) i io = send_rx_data (mock_env gs clk) ?p" by (simp add: io_iteration_def Let_def)
  with rx_send [OF p(1) spp, of gs clk] p(2) show ?thesis by simp
qed

lemma rx_turns:
  assumes "rx_inv r spp D xs k io" and "spp \<le> 255" and "r \<or> i mod 5 = 0"
    and "\<forall>w \<in> set ws. \<forall>pbs. pbs_kept pbs (w pbs)"
  shows "\<exists>k'. rx_inv r spp D (xs @ mix_stream (mock_env gs clk) ws i io) k' (io_turns (mock_env gs clk) ws i io)"
  using assms
proof (induction ws arbitrary: r xs k i io)
  case Nil
  then show ?case by auto
next
  case (Cons w ws)
  let ?io = "io\<lparr>io_pair_buffers := w (io_pair_buffers io)\<rparr>"
  have kept: "pbs_kept (io_pair_buffers io) (w (io_pair_buffers io))" using Cons.prems(4) by simp
  from rx_step [OF rx_others [OF Cons.prems(1) kept] Cons.prems(2,3)] obtain k'
    where k': "rx_inv True spp D (xs @ mix_in (mock_env gs clk) ?io) k' (io_iteration (mock_env gs clk) i ?io)" by blast
  obtain k'' where "rx_inv True spp D ((xs @ mix_in (mock_env gs clk) ?io) @
      mix_stream (mock_env gs clk) ws (Suc i) (io_iteration (mock_env gs clk) i ?io)) k''
      (io_turns (mock_env gs clk) ws (Suc i) (io_iteration (mock_env gs clk) i ?io))"
    using Cons.IH [OF k' Cons.prems(2) disjI1 [OF TrueI], of "Suc i"] Cons.prems(4) by auto
  moreover have "io_running io" using Cons.prems(1) by (simp add: rx_inv_def)
  ultimately show ?case by (auto simp: Let_def rx_inv_def)
qed

lemma rx_packets_decode:
  assumes "spp \<le> 255" and "k * spp \<le> length xs"
  shows "concat (map (\<lambda>p. snd (decode_data_packet p spp)) (map (rx_packet spp xs) [0..<k])) = take (k * spp) xs"
  using assms(2)
proof (induction k)
  case 0
  then show ?case by simp
next
  case (Suc k)
  have len: "length (take spp (drop (k * spp) xs)) = spp" using Suc.prems by simp
  have "snd (decode_data_packet (rx_packet spp xs k) spp) = take spp (drop (k * spp) xs)"
    unfolding rx_packet_def using len assms(1) by (simp add: data_packet_round_trip)
  with Suc show ?case by (simp add: take_add add.commute [of spp])
qed

text \<open>C16: While the modem receives, with the host in RX as a run starts it or not yet there, with a receiver mix
  or without, whatever the other threads write to the pair buffers between the iterations and however the clock
  behaves: over the mock modem, which takes every packet, the packets it holds after any number of iterations
  carry the ids 0, 1, 2, ... without a gap, the host's next id is the id the modem expects, and the samples of
  those packets followed by what still waits in the receive ring are what waited at the start followed by what the
  mix delivered, pull by pull: none lost, repeated or reordered. A ring of two packets never drops a pulled
  sample.\<close>

theorem rx_audio_reaches_modem:
  fixes io :: "(mock, 'g) modem_io"
  assumes "mk_is_open (md_transport (io_modem io))" and "\<not> mk_pending_calibration (md_transport (io_modem io))"
    and "mk_state (md_transport (io_modem io)) = ST_RX" and "mk_transitions (md_transport (io_modem io)) = []"
    and "mk_rx_packets (md_transport (io_modem io)) = []" and "mk_rx_expected_id (md_transport (io_modem io)) = 0"
    and "io_state io \<noteq> ST_TX" and "io_tx_pkt_id io = 0" and "spsc_inv (io_rx_ring io)" and "io_samples_per_pkt io \<le> 255"
    and "\<And>rm. io_receiver_mix io = Some rm \<Longrightarrow>
      mix_wf rm (io_pair_buffers io) \<and> 2 * io_samples_per_pkt io \<le> unat (rb_capacity (io_rx_ring io))"
    and "\<forall>w \<in> set ws. \<forall>pbs. pbs_kept pbs (w pbs)"
  shows "let start = io\<lparr>io_running := True\<rparr>; env = mock_env gs clk; io' = io_turns env ws 0 start;
      ps = mk_rx_packets (md_transport (io_modem io')) in
    map (\<lambda>p. fst (decode_data_packet p 255)) ps = map of_nat [0..<length ps] \<and>
    io_tx_pkt_id io' = of_nat (length ps) \<and> mk_rx_expected_id (md_transport (io_modem io')) = of_nat (length ps) \<and>
    concat (map (\<lambda>p. snd (decode_data_packet p (io_samples_per_pkt io))) ps) @ spsc_contents (io_rx_ring io')
      = spsc_contents (io_rx_ring io) @ mix_stream env ws 0 start \<and>
    map_option rm_rx_ring_drops (io_receiver_mix io') = map_option rm_rx_ring_drops (io_receiver_mix io) \<and> io_running io'"
proof -
  let ?spp = "io_samples_per_pkt io" and ?start = "io\<lparr>io_running := True\<rparr>"
  let ?xs = "spsc_contents (io_rx_ring io) @ mix_stream (mock_env gs clk) ws 0 ?start"
  let ?D = "map_option rm_rx_ring_drops (io_receiver_mix io)"
  have "rx_inv False ?spp ?D (spsc_contents (io_rx_ring io)) 0 ?start"
    using assms by (simp add: rx_inv_def io_state_def)
  from rx_turns [OF this assms(10) _ assms(12), of 0] obtain k
    where inv: "rx_inv False ?spp ?D ?xs k (io_turns (mock_env gs clk) ws 0 ?start)" by auto
  then have k: "k * ?spp \<le> length ?xs" by (simp add: rx_inv_def)
  have "fst (decode_data_packet (rx_packet ?spp ?xs j) 255) = of_nat j" if "j < k" for j
  proof -
    have "Suc j * ?spp \<le> k * ?spp" using that by (intro mult_le_mono1) simp
    with k have "?spp \<le> length (take ?spp (drop (j * ?spp) ?xs))" by simp
    then show ?thesis unfolding rx_packet_def by (simp add: data_packet_round_trip del: drop_append take_append)
  qed
  with inv rx_packets_decode [OF assms(10) k] show ?thesis
    by (simp add: rx_inv_def Let_def del: drop_append take_append)
qed

section \<open>Concrete sessions\<close>

definition empty_ring :: "u16 spsc" where
  "empty_ring = \<lparr>rb_write_pos = 0, rb_read_pos = 0, rb_capacity = 512, rb_mask = 511,
     rb_buffer = replicate 512 0\<rparr>"

lemma empty_ring_ok: "spsc_inv empty_ring" "spsc_contents empty_ring = []"
proof -
  have "\<exists>k<64. (512 :: u64) = 2 ^ k" by (rule exI [of _ 9]) simp
  then show "spsc_inv empty_ring" by (simp add: spsc_inv_def empty_ring_def)
  show "spsc_contents empty_ring = []" by (simp add: spsc_contents_def empty_ring_def ring_get_def)
qed

definition session_start :: "mock \<Rightarrow> (mock, nat) modem_io" where
  "session_start m = modem_io_new (modem_new m ''m'') empty_ring empty_ring None [] None None"

theorem tx_waveform_reaches_ring_witness:
  "\<exists>z < 255. spsc_contents (io_tx_ring (io_run (mock_env counting int) 1
     (session_start (mock_enqueue_tx_waveform [5, 6] (mock_new\<lparr>mk_is_open := True, mk_state := ST_TX\<rparr>)))))
   = [5, 6] @ replicate z 0"
  using tx_waveform_reaches_ring [of "session_start (mock_enqueue_tx_waveform [5, 6]
      (mock_new\<lparr>mk_is_open := True, mk_state := ST_TX\<rparr>))" "[5, 6]"
      "mock_new\<lparr>mk_is_open := True, mk_state := ST_TX\<rparr>" 1 counting int] empty_ring_ok
  by (simp add: session_start_def modem_io_new_def modem_new_def Let_def mock_new_def io_state_def
      initial_runtime_def empty_ring_def)

definition waiting_ring :: "u16 spsc" where
  "waiting_ring = empty_ring\<lparr>rb_write_pos := 256, rb_buffer := replicate 512 7\<rparr>"

lemma waiting_ring_ok: "spsc_inv waiting_ring" "spsc_contents waiting_ring = replicate 256 7"
proof -
  have "\<exists>k<64. (512 :: u64) = 2 ^ k" by (rule exI [of _ 9]) simp
  then show "spsc_inv waiting_ring" by (simp add: spsc_inv_def waiting_ring_def empty_ring_def)
  show "spsc_contents waiting_ring = replicate 256 7"
    by (rule nth_equalityI) (simp_all add: spsc_contents_def waiting_ring_def empty_ring_def)
qed

text \<open>A receiving session with the mix of \<open>Receiver_Mix\<close>; another thread commits a sample between its turns.\<close>

definition mixing_start :: "(mock, nat) modem_io" where
  "mixing_start = (session_start (mock_new\<lparr>mk_is_open := True, mk_state := ST_RX\<rparr>))\<lparr>io_rx_ring := waiting_ring,
     io_modem := (modem_new (mock_new\<lparr>mk_is_open := True, mk_state := ST_RX\<rparr>) ''m'')\<lparr>md_runtime_state := initial_runtime\<lparr>rt_state := ST_RX\<rparr>\<rparr>,
     io_receiver_mix := Some quiet_mix, io_pair_buffers := [ready_buffer, ready_buffer\<lparr>pb_write_watermark := 0\<rparr>]\<rparr>"

lemma mixing_fields:
  "md_transport (io_modem mixing_start) = mock_new\<lparr>mk_is_open := True, mk_state := ST_RX\<rparr>" "io_state mixing_start = ST_RX"
  "io_tx_pkt_id mixing_start = 0" "io_rx_ring mixing_start = waiting_ring" "io_samples_per_pkt mixing_start = 255"
  "io_receiver_mix mixing_start = Some quiet_mix"
  "io_pair_buffers mixing_start = [ready_buffer, ready_buffer\<lparr>pb_write_watermark := 0\<rparr>]"
  by (simp_all add: mixing_start_def session_start_def modem_io_new_def Let_def samples_per_packet_cases modem_new_def
      default_calibration_def io_state_def)

lemma quiet_mix_wf: "mix_wf quiet_mix [ready_buffer, ready_buffer\<lparr>pb_write_watermark := 0\<rparr>]"
proof -
  have "\<exists>k. (4 :: nat) = 2 ^ k" by (rule exI [of _ 2]) simp
  then show ?thesis by (auto simp: mix_wf_def quiet_mix_def pb_ok_def ready_buffer_def)
qed

theorem rx_audio_reaches_modem_witness:
  "let env = mock_env counting int; start = mixing_start\<lparr>io_running := True\<rparr>;
       ws = [(\<lambda>pbs. pbs), (\<lambda>pbs. pbs[1 := commit_source_progress 1 (pbs ! 1)]), (\<lambda>pbs. pbs)];
       io' = io_turns env ws 0 start
   in concat (map (\<lambda>p. snd (decode_data_packet p 255)) (mk_rx_packets (md_transport (io_modem io'))))
      @ spsc_contents (io_rx_ring io') = replicate 256 7 @ mix_stream env ws 0 start \<and>
      map_option rm_rx_ring_drops (io_receiver_mix io') = Some 0"
proof -
  let ?ws = "[(\<lambda>pbs. pbs), (\<lambda>pbs. pbs[1 := commit_source_progress 1 (pbs ! 1)]), (\<lambda>pbs. pbs)]"
  have "pbs_kept pbs (pbs[1 := commit_source_progress 1 (pbs ! 1)])" for pbs
    using pb_ok_step [of "pbs ! 1" "Commit 1"] by (cases "1 < length pbs") (auto simp: pbs_kept_def nth_list_update list_update_beyond)
  then have "\<forall>w \<in> set ?ws. \<forall>pbs. pbs_kept pbs (w pbs)" by simp
  moreover have "2 * io_samples_per_pkt mixing_start \<le> unat (rb_capacity (io_rx_ring mixing_start))"
    by (simp add: mixing_fields waiting_ring_def empty_ring_def)
  ultimately show ?thesis
    using rx_audio_reaches_modem [of mixing_start ?ws counting int] waiting_ring_ok quiet_mix_wf
    by (simp add: Let_def mixing_fields mock_new_def del: io_turns.simps mix_stream.simps list.set)
      (simp add: quiet_mix_def del: io_turns.simps mix_stream.simps)
qed

section \<open>Any link\<close>

text \<open>What every handler keeps: the flag is only ever lowered, and a sleep lies within the cap.\<close>

definition loop_kept :: "('t, 'g) modem_io \<Rightarrow> ('t, 'g) modem_io \<Rightarrow> bool" where
  "loop_kept io io' \<longleftrightarrow> (io_running io' \<longrightarrow> io_running io) \<and>
     (\<exists>ws. io_sleeps io' = io_sleeps io @ ws \<and> (\<forall>w \<in> set ws. 0 < w \<and> w \<le> SLEEP_CAP))"

lemma loop_kept_refl: "io_running io' = io_running io \<Longrightarrow> io_sleeps io' = io_sleeps io \<Longrightarrow> loop_kept io io'"
  by (simp add: loop_kept_def)

lemma loop_kept_trans: "loop_kept a b \<Longrightarrow> loop_kept b c \<Longrightarrow> loop_kept a c"
  unfolding loop_kept_def by (metis Un_iff append.assoc set_append)

lemma loop_kept_stop: "loop_kept io io' \<Longrightarrow> loop_kept io (io'\<lparr>io_running := False\<rparr>)"
  by (simp add: loop_kept_def)

lemma kept_recv: "loop_kept io (fst (io_recv_data env ms io))" "loop_kept io (fst (io_recv_control env ms io))"
  by (simp_all add: loop_kept_def io_recv_data_def io_recv_control_def set_transport_def case_prod_beta)

lemma kept_process: "loop_kept io (process_tx_packet env n io)"
  by (simp add: loop_kept_def process_tx_packet_def case_prod_beta Let_def io_steps)

lemma kept_receive: "loop_kept io (receive_tx_data env io)"
  using kept_recv(1) [of io env DATA_TIMEOUT_MS] loop_kept_trans [OF kept_recv(1) [of io env] kept_process]
  by (simp add: receive_tx_data_def case_prod_beta Let_def loop_kept_stop)

lemma kept_drain: "loop_kept io (tx_drain_loop env n io)"
proof (induction n arbitrary: io)
  case 0
  then show ?case by (simp add: loop_kept_def)
next
  case (Suc n)
  let ?r = "io_recv_data env TX_DRAIN_TIMEOUT_MS io"
  have r: "loop_kept io (fst ?r)" by (rule kept_recv)
  have b: "loop_kept io (upd_metrics f (fst ?r))" for f
    using r by (simp add: loop_kept_def upd_metrics_def)
  have c: "loop_kept io (tx_drain_loop env n (process_tx_packet env b (fst ?r)))" for b
    using loop_kept_trans [OF loop_kept_trans [OF r kept_process] Suc.IH] .
  show ?case using r b c by (simp add: case_prod_beta Let_def loop_kept_stop)
qed

lemma kept_status: "loop_kept io (handle_status env status io)"
proof -
  have "loop_kept io (state_change env old new io)" for old new
    using kept_drain [of io env TX_DRAIN_MAX_ITERATIONS]
    by (simp add: state_change_def drain_tx_pipeline_def Let_def loop_kept_def)
  then show ?thesis
    using audio_eqD(7,9) [OF handle_status_audio(1) [of env status io]] by (simp add: loop_kept_def)
qed

lemma kept_poll: "loop_kept io (poll_control env io)"
  using kept_recv(2) [of io env IO_CTRL_TIMEOUT_MS] loop_kept_trans [OF kept_recv(2) [of io env] kept_status]
  by (simp add: poll_control_def case_prod_beta Let_def loop_kept_stop split: option.splits)

lemma kept_send_packet: "loop_kept io (send_packet env io)"
  by (simp add: loop_kept_def send_packet_def case_prod_beta Let_def io_steps)

lemma kept_send: "loop_kept io (send_rx_data env io)"
proof -
  let ?t = "top_up env io"
  let ?r = "read_clock env ?t"
  let ?c = "cft_should_send (snd ?r) (io_tracker (fst ?r))"
  let ?io2 = "(fst ?r)\<lparr>io_tracker := fst ?c\<rparr>"
  have t: "io_running ?t = io_running io" "io_sleeps ?t = io_sleeps io"
    by (simp_all add: top_up_def case_prod_beta Let_def split: option.splits)
  have k: "loop_kept io ?io2" "loop_kept io (?t\<lparr>io_rx_send_skipped := n\<rparr>)" for n
    using t by (simp_all add: loop_kept_def read_clock_def)
  moreover have "loop_kept io (send_packet env ?io2)" using loop_kept_trans [OF k(1) kept_send_packet] .
  moreover have "loop_kept io (?io2\<lparr>io_sleeps := io_sleeps ?io2 @ [min w SLEEP_CAP]\<rparr>)" if "0 < w" for w
    using t that by (simp add: loop_kept_def read_clock_def SLEEP_CAP_def)
  ultimately show ?thesis
    unfolding send_rx_data_def Let_def case_prod_beta cmin_min by auto
qed

lemma kept_iteration: "loop_kept io (io_iteration env i io)"
proof -
  let ?p = "if i mod CONTROL_POLL_INTERVAL = 0 then poll_control env io else io"
  have p: "loop_kept io ?p" using kept_poll [of io env] by (simp add: loop_kept_refl)
  show ?thesis
    unfolding io_iteration_def Let_def
    using p loop_kept_trans [OF p kept_receive] loop_kept_trans [OF p kept_send]
    by (cases "io_state ?p") simp_all
qed

lemma kept_loop: "loop_kept io (io_loop env n i io)"
proof (induction n arbitrary: i io)
  case 0
  then show ?case by (simp add: loop_kept_refl)
next
  case (Suc n)
  from loop_kept_trans [OF kept_iteration Suc] show ?case by (simp add: loop_kept_refl)
qed

text \<open>The thread never sleeps longer than half a millisecond at a time, over any link, clock and
  number of iterations, so status polling stays responsive however far ahead the next send is.\<close>

theorem sleeps_are_short:
  "list_all (\<lambda>w. 0 < w \<and> w \<le> 500000)
     (io_sleeps (io_run env n (modem_io_new modem tx_ring rx_ring mix pbs logger metrics)))"
proof -
  obtain ws where "io_sleeps (io_run env n (modem_io_new modem tx_ring rx_ring mix pbs logger metrics)) = [] @ ws"
    "\<forall>w \<in> set ws. 0 < w \<and> w \<le> SLEEP_CAP"
    using kept_loop [of "(modem_io_new modem tx_ring rx_ring mix pbs logger metrics)\<lparr>io_running := True\<rparr>" env n 0]
    by (auto simp: loop_kept_def io_run_def modem_io_new_def Let_def)
  then show ?thesis by (simp add: list_all_iff SLEEP_CAP_def)
qed

text \<open>A link that answers every call with a disconnect, and will go on doing so: a closed one, or an open one
  whose device is gone.\<close>

locale dead_link =
  fixes tp :: "'t transport" and dead :: "'t \<Rightarrow> bool"
  assumes recv_dead: "dead t \<Longrightarrow> dead (fst (tp_recv_control tp n ms t)) \<and> tr_disconnected (fst (snd (tp_recv_control tp n ms t)))"
      "dead t \<Longrightarrow> dead (fst (tp_recv_data tp n ms t)) \<and> tr_disconnected (fst (snd (tp_recv_data tp n ms t)))"
    and send_dead: "dead t \<Longrightarrow> dead (fst (tp_send_data tp d ms t)) \<and> tr_disconnected (snd (tp_send_data tp d ms t))"

begin

text \<open>No handler brings the link back, and a poll lowers the flag.\<close>

lemma dead_handlers:
  assumes "en_transport env = tp" and "dead (md_transport (io_modem io))"
  shows "dead (md_transport (io_modem (poll_control env io)))" "\<not> io_running (poll_control env io)"
    "dead (md_transport (io_modem (receive_tx_data env io)))"
    "dead (md_transport (io_modem (send_packet env io)))"
  using recv_dead(1) [OF assms(2)] recv_dead(2) [OF assms(2)] send_dead [OF assms(2)]
  by (simp_all add: poll_control_def receive_tx_data_def send_packet_def io_recv_control_def io_recv_data_def
      set_transport_def case_prod_beta Let_def assms(1))

lemma dead_send:
  assumes "en_transport env = tp" and "dead (md_transport (io_modem io))"
  shows "dead (md_transport (io_modem (send_rx_data env io)))"
proof -
  have "io_modem (top_up env io) = io_modem io"
    by (simp add: top_up_def case_prod_beta Let_def split: option.splits)
  with assms(2) dead_handlers(4) [OF assms(1)] show ?thesis
    unfolding send_rx_data_def Let_def case_prod_beta by (simp add: read_clock_def)
qed

lemma dead_iteration:
  assumes "en_transport env = tp" and "dead (md_transport (io_modem io))"
  shows "dead (md_transport (io_modem (io_iteration env i io))) \<and> (i mod 5 = 0 \<longrightarrow> \<not> io_running (io_iteration env i io))"
proof -
  let ?p = "if i mod CONTROL_POLL_INTERVAL = 0 then poll_control env io else io"
  have p: "dead (md_transport (io_modem ?p))" using assms dead_handlers(1) [OF assms] by simp
  have "dead (md_transport (io_modem (io_iteration env i io)))"
    unfolding io_iteration_def Let_def using p dead_handlers(3) [OF assms(1) p] dead_send [OF assms(1) p]
    by (cases "io_state ?p") simp_all
  moreover have "\<not> io_running (io_iteration env i io)" if "i mod 5 = 0"
  proof -
    have "\<not> io_running ?p" using that dead_handlers(2) [OF assms] by (simp add: CONTROL_POLL_INTERVAL_def)
    then show ?thesis
      unfolding io_iteration_def Let_def using kept_receive [of ?p env] kept_send [of ?p env]
      by (cases "io_state ?p") (simp_all add: loop_kept_def)
  qed
  ultimately show ?thesis by blast
qed

lemma dead_loop:
  assumes "en_transport env = tp" and "dead (md_transport (io_modem io))" and "(i + k) mod 5 = 0"
  shows "\<not> io_running (io_loop env (Suc k) i io)"
  using assms(2,3)
proof (induction k arbitrary: i io)
  case 0
  then show ?case using dead_iteration [OF assms(1) "0.prems"(1), of i] by simp
next
  case (Suc k)
  have "\<not> io_running (io_loop env (Suc k) (Suc i) (io_iteration env i io))"
    by (rule Suc.IH) (use Suc.prems dead_iteration [OF assms(1) Suc.prems(1), of i] in simp_all)
  then show ?case by (subst io_loop.simps) simp
qed

lemma dead_loop_ends:
  assumes "en_transport env = tp" and "dead (md_transport (io_modem io))"
  shows "\<exists>k \<le> 5. \<not> io_running (io_loop env k i io)"
proof -
  have "(i + (4 * i mod 5)) mod 5 = 0" by presburger
  from dead_loop [OF assms this] have "\<not> io_running (io_loop env (Suc (4 * i mod 5)) i io)" .
  moreover have "Suc (4 * i mod 5) \<le> 5" by presburger
  ultimately show ?thesis by blast
qed

end

text \<open>Every transport's closed handle is such a link.\<close>

sublocale modem_link \<subseteq> dead_link tp "\<lambda>t. \<not> tp_is_open tp t"
  by unfold_locales (simp_all add: send_closed recv_closed tr_disconnected_def)

text \<open>A device pulled out of the USB port while its handle is open: libusb documents \<open>LIBUSB_ERROR_NO_DEVICE\<close>
  (-4) as the answer of every later transfer.\<close>

definition unplugged :: "('w, 'd, 'h) libusb \<Rightarrow> ('w \<Rightarrow> bool) \<Rightarrow> bool" where
  "unplugged lu gone \<longleftrightarrow> (\<forall>h e data n ms w. gone w \<longrightarrow>
     (\<exists>w' transferred written. lu_bulk_transfer lu h e data n ms w = (w', - 4, transferred, written) \<and> gone w'))"

lemma unplugged_transfer:
  assumes "unplugged lu gone" and "gone w"
  obtains w' k wr where "lu_bulk_transfer lu h e data n ms w = (w', - 4, k, wr)" and "gone w'"
  using assms unfolding unplugged_def by (elim allE [of _ h] allE [of _ e] allE [of _ data] allE [of _ n] allE [of _ ms] allE [of _ w]) auto

lemma unplugged_dead:
  fixes lu :: "('w, 'd, 'h) libusb"
  assumes u: "unplugged lu gone"
  shows "dead_link (usb_transport lu) (\<lambda>u. gone (us_world u))"
proof (unfold_locales)
  have b: "gone (us_world (fst (bulk_transfer lu e data n ms t))) \<and> tr_disconnected (fst (snd (bulk_transfer lu e data n ms t)))"
    if lost: "gone (us_world t)" for e data n ms and t :: "('w, 'h) usb"
  proof (cases "us_handle t")
    case None
    with lost show ?thesis by (simp add: bulk_transfer_def tr_disconnected_def)
  next
    case (Some h)
    obtain w' k wr where "lu_bulk_transfer lu h e data n ms (us_world t) = (w', - 4, k, wr)" "gone w'"
      by (rule unplugged_transfer [OF u lost])
    with Some show ?thesis
      by (simp add: bulk_transfer_def map_libusb_error_def LIBUSB_SUCCESS_def LIBUSB_ERROR_TIMEOUT_def
          LIBUSB_ERROR_NO_DEVICE_def tr_disconnected_def)
  qed
  fix t :: "('w, 'h) usb" and n ms d
  assume "gone (us_world t)"
  note b' = b [OF this]
  show "gone (us_world (fst (tp_recv_control (usb_transport lu) n ms t))) \<and>
      tr_disconnected (fst (snd (tp_recv_control (usb_transport lu) n ms t)))"
    using b' by (simp add: usb_transport_def usb_recv_control_def)
  show "gone (us_world (fst (tp_recv_data (usb_transport lu) n ms t))) \<and>
      tr_disconnected (fst (snd (tp_recv_data (usb_transport lu) n ms t)))"
    using b' by (simp add: usb_transport_def usb_recv_data_def)
  show "gone (us_world (fst (tp_send_data (usb_transport lu) d ms t))) \<and>
      tr_disconnected (snd (tp_send_data (usb_transport lu) d ms t))"
    using b' by (simp add: usb_transport_def usb_send_data_def case_prod_beta)
qed

text \<open>C38: When the device of a running I/O thread is unplugged, its handle still open, the thread's loop ends by
  itself within five iterations, whatever state it is in and whichever iteration it is at: the libusb answer
  reaches the poll, at most four iterations away, as a disconnect, and that lowers the flag.\<close>

theorem dead_link_stops_loop:
  assumes "en_transport env = usb_transport lu"
    and "\<forall>h e data n ms w. gone w \<longrightarrow>
      (\<exists>w' transferred written. lu_bulk_transfer lu h e data n ms w = (w', - 4, transferred, written) \<and> gone w')"
    and "gone (us_world (md_transport (io_modem io)))"
  shows "\<exists>k \<le> 5. \<not> io_running (io_loop env k i io)"
proof -
  from assms(2) have "unplugged lu gone" unfolding unplugged_def .
  from dead_link.dead_loop_ends [OF unplugged_dead [OF this] assms(1,3)] show ?thesis .
qed

definition lost_usb :: "(bool, unit, unit) libusb" where
  "lost_usb = \<lparr>lu_get_device_list = \<lambda>w. (w, None), lu_get_device_descriptor = \<lambda>d w. None, lu_bus_number = \<lambda>d. 1,
     lu_port_number = \<lambda>d. 1, lu_open = \<lambda>d w. (w, 0, ()), lu_close = \<lambda>h w. w, lu_ref_device = \<lambda>d w. w,
     lu_unref_device = \<lambda>d w. w, lu_free_device_list = \<lambda>ds w. w, lu_string_descriptor = \<lambda>h i w. (w, None),
     lu_kernel_driver_active = \<lambda>h i w. 0, lu_detach_kernel_driver = \<lambda>h i w. w, lu_claim_interface = \<lambda>h i w. (w, 0),
     lu_release_interface = \<lambda>h i w. w,
     lu_bulk_transfer = \<lambda>h e d n ms plugged. if plugged then (plugged, - 7, 0, []) else (plugged, - 4, 0, []),
     lu_active_config = \<lambda>h w. (w, None)\<rparr>"

text \<open>An open handle on an unplugged device, in the middle of a run that receives.\<close>

definition lost_io :: "((bool, unit) usb, nat) modem_io" where
  "lost_io = (modem_io_new ((modem_new ((usb_new 0 False)\<lparr>us_handle := Some ()\<rparr>) ''m'')\<lparr>md_runtime_state := initial_runtime\<lparr>rt_state := ST_RX\<rparr>\<rparr>)
     small_ring small_ring None [] None None)\<lparr>io_running := True\<rparr>"

lemma lost_transfer: "\<not> plugged \<Longrightarrow> lu_bulk_transfer lost_usb h e d n ms plugged = (False, - 4, 0, [])"
  by (simp add: lost_usb_def)

theorem dead_link_stops_loop_witness:
  "usb_is_open (md_transport (io_modem lost_io)) \<and>
   (\<exists>k \<le> 5. \<not> io_running (io_loop \<lparr>en_transport = usb_transport lost_usb, en_gauss = counting, en_clock = int\<rparr> k 3 lost_io))"
proof -
  have "us_world (md_transport (io_modem lost_io)) = False" "usb_is_open (md_transport (io_modem lost_io))"
    by (simp_all add: lost_io_def modem_io_new_def modem_new_def usb_new_def usb_is_open_def Let_def)
  moreover have "\<exists>k \<le> 5. \<not> io_running (io_loop \<lparr>en_transport = usb_transport lost_usb, en_gauss = counting, en_clock = int\<rparr> k 3 lost_io)"
    by (rule dead_link_stops_loop [where gone = Not and lu = lost_usb])
      (use calculation(1) lost_transfer in auto)
  ultimately show ?thesis by blast
qed

end
