(* ===== verification/Resampler.thy ===== *)
theory Resampler
  imports Delay_Lines Noise
begin

text \<open>
  The bulk resampler (\<open>dsp/farrow_resampler\<close>) and the Hilbert transformer
  (\<open>dsp/hilbert_filter\<close>) of the static renderer. Both keep their histories between calls; the
  results below say that block boundaries never show in their output.
\<close>

section \<open>Farrow resampler\<close>

record farrow =
  fr_ratio :: real
  fr_step :: real
  fr_mu :: real
  fr_h0 :: real
  fr_h1 :: real
  fr_h2 :: real
  fr_h3 :: real

definition farrow_new :: farrow where
  "farrow_new = \<lparr>fr_ratio = 1, fr_step = 1, fr_mu = 0, fr_h0 = 0, fr_h1 = 0, fr_h2 = 0, fr_h3 = 0\<rparr>"

definition set_ratio :: "real \<Rightarrow> farrow \<Rightarrow> error + farrow" where
  "set_ratio ratio f =
    (if ratio \<le> 0 then Inl (Invalid_Argument ''FarrowResampler: ratio must be > 0'')
     else Inr (f\<lparr>fr_ratio := ratio, fr_step := ratio\<rparr>))"

definition farrow_interpolate :: "farrow \<Rightarrow> real" where
  "farrow_interpolate f = catmull_rom (fr_h0 f) (fr_h1 f) (fr_h2 f) (fr_h3 f) (f32 (fr_mu f))"

definition farrow_shift :: "real \<Rightarrow> farrow \<Rightarrow> farrow" where
  "farrow_shift x f = f\<lparr>fr_h0 := fr_h1 f, fr_h1 := fr_h2 f, fr_h2 := fr_h3 f, fr_h3 := x,
     fr_mu := dsub (fr_mu f) 1\<rparr>"

text \<open>The inner loop, on the input still unread: the flag says that it ran dry.\<close>

fun farrow_advance :: "farrow \<Rightarrow> real list \<Rightarrow> farrow \<times> real list \<times> bool" where
  "farrow_advance f [] = (f, [], 1 \<le> fr_mu f)"
| "farrow_advance f (x # xs) =
    (if 1 \<le> fr_mu f then farrow_advance (farrow_shift x f) xs else (f, x # xs, False))"

text \<open>The outer loop, with the number of outputs still wanted; it returns the outputs and the
  input left over.\<close>

fun farrow_loop :: "farrow \<Rightarrow> real list \<Rightarrow> nat \<Rightarrow> farrow \<times> real list \<times> real list" where
  "farrow_loop f input 0 = (f, [], input)"
| "farrow_loop f input (Suc n) =
    (let (f1, rest, dry) = farrow_advance f input
     in if dry then (f1, [], rest)
        else let (f2, out, rest') = farrow_loop (f1\<lparr>fr_mu := dadd (fr_mu f1) (fr_step f1)\<rparr>) rest n
             in (f2, farrow_interpolate f1 # out, rest'))"

definition farrow_process :: "farrow \<Rightarrow> real list \<Rightarrow> nat \<Rightarrow> farrow \<times> real list \<times> nat" where
  "farrow_process f input output_count =
    (let (f', out, rest) = farrow_loop f input output_count in (f', out, length input - length rest))"

definition input_needed :: "nat \<Rightarrow> farrow \<Rightarrow> nat" where
  "input_needed output_count f = nat \<lceil>dmul (f64 (real output_count)) (fr_ratio f)\<rceil> + 4"

definition farrow_reset :: "farrow \<Rightarrow> farrow" where
  "farrow_reset f = f\<lparr>fr_mu := 0, fr_h0 := 0, fr_h1 := 0, fr_h2 := 0, fr_h3 := 0\<rparr>"

subsection \<open>Streaming\<close>

lemma farrow_advance_append:
  "farrow_advance f (xs @ ys) = (case farrow_advance f xs of (f1, rest, dry) \<Rightarrow>
     if dry then farrow_advance f1 ys else (f1, rest @ ys, False))"
proof (induction f xs rule: farrow_advance.induct)
  case (1 f)
  then show ?case by (cases ys) auto
qed simp

lemma farrow_advance_dry: "farrow_advance f xs = (f1, rest, True) \<Longrightarrow> rest = [] \<and> 1 \<le> fr_mu f1"
  by (induction f xs rule: farrow_advance.induct) (auto split: if_splits)

lemma farrow_advance_suffix: "\<exists>pre. xs = pre @ fst (snd (farrow_advance f xs))"
proof (induction f xs rule: farrow_advance.induct)
  case (2 f x xs)
  then show ?case by (cases "1 \<le> fr_mu f") (auto intro: exI [of _ "x # _"])
qed simp

lemma farrow_loop_suffix: "\<exists>pre. xs = pre @ snd (snd (farrow_loop f xs n))"
proof (induction f xs n rule: farrow_loop.induct)
  case (2 f input n)
  obtain f1 rest dry where a: "farrow_advance f input = (f1, rest, dry)" by (metis prod_cases3)
  from farrow_advance_suffix [of input f] a obtain p where p: "input = p @ rest" by auto
  show ?case
  proof (cases dry)
    case True
    with a p show ?thesis by auto
  next
    case False
    with "2.IH" [OF a [symmetric] refl refl] obtain q
      where "rest = q @ snd (snd (farrow_loop (f1\<lparr>fr_mu := dadd (fr_mu f1) (fr_step f1)\<rparr>) rest n))" by auto
    with a p False show ?thesis by (auto simp: case_prod_beta Let_def intro: exI [of _ "p @ q"])
  qed
qed simp

lemma farrow_loop_count: "length (fst (snd (farrow_loop f xs n))) \<le> n"
proof (induction f xs n rule: farrow_loop.induct)
  case (2 f input n)
  obtain f1 rest dry where a: "farrow_advance f input = (f1, rest, dry)" by (metis prod_cases3)
  with "2.IH" [OF a [symmetric] refl] show ?case by (cases dry) (auto simp: case_prod_beta Let_def)
qed simp

text \<open>More input continues where the loop ran dry.\<close>

lemma farrow_loop_append:
  "farrow_loop f (xs @ ys) n =
    (let (f1, out, rest) = farrow_loop f xs n
     in if length out = n then (f1, out, rest @ ys)
        else let (f2, out', rest') = farrow_loop f1 ys (n - length out) in (f2, out @ out', rest'))"
proof (induction f xs n rule: farrow_loop.induct)
  case (1 f input)
  then show ?case by simp
next
  case (2 f input n)
  obtain f1 rest dry where a: "farrow_advance f input = (f1, rest, dry)" by (metis prod_cases3)
  show ?case
  proof (cases dry)
    case True
    with farrow_advance_dry [of f input f1 rest] a have "rest = []" by simp
    with a True show ?thesis by (simp add: farrow_advance_append)
  next
    case False
    note ih = "2.IH" [OF refl a [symmetric] refl False]
    let ?g = "f1\<lparr>fr_mu := dadd (fr_mu f1) (fr_step f1)\<rparr>"
    have "farrow_loop f (input @ ys) (Suc n) = (let (f2, out, rest') = farrow_loop ?g (rest @ ys) n
        in (f2, farrow_interpolate f1 # out, rest'))"
      using a False by (simp add: farrow_advance_append)
    with ih a False show ?thesis by (simp add: case_prod_beta Let_def)
  qed
qed


subsection \<open>Unity ratio\<close>

text \<open>The state after consuming \<open>past\<close> at ratio one: the phase sits at one, so each further input
  gives one output.\<close>

definition farrow_at :: "real list \<Rightarrow> farrow \<Rightarrow> bool" where
  "farrow_at past f \<longleftrightarrow> fr_step f = 1 \<and> fr_mu f = 1 \<and>
     [fr_h0 f, fr_h1 f, fr_h2 f, fr_h3 f] = drop (length past) (replicate 4 0 @ past)"

definition delayed3 :: "real list \<Rightarrow> real list" where
  "delayed3 xs = replicate 3 0 @ xs"

lemma farrow_at_shift:
  assumes "farrow_at past f"
  shows "farrow_at (past @ [x]) ((farrow_shift x f)\<lparr>fr_mu := 1\<rparr>)"
    and "fr_h1 (farrow_shift x f) = delayed3 (past @ [x]) ! (length past + 1)"
    and "fr_mu (farrow_shift x f) = 0"
proof -
  have h: "[fr_h0 f, fr_h1 f, fr_h2 f, fr_h3 f] = drop (length past) (replicate 4 0 @ past)"
    and m: "fr_mu f = 1" and s: "fr_step f = 1"
    using assms by (simp_all add: farrow_at_def)
  have d: "drop (length (past @ [x])) (replicate 4 0 @ past @ [x]) =
      drop 1 (drop (length past) (replicate 4 0 @ past)) @ [x]"
  proof -
    have "drop (Suc k) (ys @ [x]) = drop 1 (drop k ys) @ [x]" if "Suc k \<le> length ys" for k and ys :: "real list"
      using that by simp
    from this [of "length past" "replicate 4 0 @ past"] show ?thesis by simp
  qed
  have "drop (length (past @ [x])) (replicate 4 0 @ past @ [x]) = [fr_h1 f, fr_h2 f, fr_h3 f, x]"
    unfolding d h [symmetric] by simp
  then show "farrow_at (past @ [x]) ((farrow_shift x f)\<lparr>fr_mu := 1\<rparr>)"
    using s by (simp add: farrow_at_def farrow_shift_def)
  have "fr_h2 f = drop (length past) (replicate 4 0 @ past) ! 2"
    unfolding h [symmetric] by simp
  also have "\<dots> = (replicate 4 0 @ past) ! (length past + 2)" by (rule nth_drop) simp
  also have "\<dots> = (replicate 3 0 @ past) ! (length past + 1)"
    by (simp add: numeral_nat)
  also have "\<dots> = delayed3 (past @ [x]) ! (length past + 1)"
    by (auto simp: delayed3_def nth_append)
  finally show "fr_h1 (farrow_shift x f) = delayed3 (past @ [x]) ! (length past + 1)"
    by (simp add: farrow_shift_def)
  show "fr_mu (farrow_shift x f) = 0" by (simp add: farrow_shift_def m)
qed

lemma farrow_unity_run:
  assumes "farrow_at past f" and "\<forall>x \<in> set (past @ xs). f32 x = x"
  shows "\<exists>f'. farrow_loop f xs n = (f', map (\<lambda>j. delayed3 (past @ xs) ! (length past + 1 + j)) [0..<min n (length xs)],
      drop (min n (length xs)) xs) \<and> farrow_at (past @ take (min n (length xs)) xs) f' \<and> fr_ratio f' = fr_ratio f"
  using assms
proof (induction xs arbitrary: past f n)
  case Nil
  then show ?case by (cases n) (auto simp: farrow_at_def)
next
  case (Cons x xs)
  show ?case
  proof (cases n)
    case 0
    with Cons.prems show ?thesis by simp
  next
    case (Suc m)
    let ?g = "(farrow_shift x f)\<lparr>fr_mu := 1\<rparr>"
    note sh = farrow_at_shift [OF Cons.prems(1), of x]
    have mu: "fr_mu f = 1" using Cons.prems(1) by (simp add: farrow_at_def)
    have adv: "farrow_advance f (x # xs) = (farrow_shift x f, xs, False)"
      using mu sh(3) by (cases xs) simp_all
    have st: "fr_step (farrow_shift x f) = 1" using Cons.prems(1) by (simp add: farrow_at_def farrow_shift_def)
    have rep: "f32 (fr_h1 (farrow_shift x f)) = fr_h1 (farrow_shift x f)"
    proof -
      have "fr_h1 (farrow_shift x f) \<in> set (delayed3 (past @ [x]))"
        unfolding sh(2) by (rule nth_mem) (simp add: delayed3_def)
      with Cons.prems(2) show ?thesis by (auto simp: delayed3_def)
    qed
    have out: "farrow_interpolate (farrow_shift x f) = delayed3 (past @ x # xs) ! (length past + 1)"
      using rep sh(2,3) by (simp add: farrow_interpolate_def catmull_rom_0 delayed3_def nth_append)
    obtain f' where ih: "farrow_loop ?g xs m = (f', map (\<lambda>j. delayed3 ((past @ [x]) @ xs) !
        (length (past @ [x]) + 1 + j)) [0..<min m (length xs)], drop (min m (length xs)) xs)"
      "farrow_at ((past @ [x]) @ take (min m (length xs)) xs) f'" "fr_ratio f' = fr_ratio ?g"
      using Cons.IH [OF sh(1), of m] Cons.prems(2) by auto
    have "farrow_loop f (x # xs) n = (f', delayed3 (past @ x # xs) ! (length past + 1) #
        map (\<lambda>j. delayed3 (past @ x # xs) ! (length past + 2 + j)) [0..<min m (length xs)], drop (min m (length xs)) xs)"
      using ih(1) sh(3) st unfolding Suc farrow_loop.simps(2) adv by (simp add: out)
    also have "delayed3 (past @ x # xs) ! (length past + 1) #
        map (\<lambda>j. delayed3 (past @ x # xs) ! (length past + 2 + j)) [0..<min m (length xs)] =
        map (\<lambda>j. delayed3 (past @ x # xs) ! (length past + 1 + j)) [0..<min n (length (x # xs))]"
      unfolding Suc by (simp add: map_upt_Suc del: upt_Suc)
    finally show ?thesis using ih(2,3) unfolding Suc by (auto simp: farrow_shift_def)
  qed
qed

lemma farrow_unity_start:
  assumes "fr_step f = 1" and "\<forall>x \<in> set xs. f32 x = x"
  shows "\<exists>f'. farrow_loop (farrow_reset f) xs (Suc n) =
      (f', map (\<lambda>j. delayed3 xs ! j) [0..<Suc (min n (length xs))], drop (min n (length xs)) xs) \<and>
      farrow_at (take (min n (length xs)) xs) f' \<and> fr_ratio f' = fr_ratio f"
proof -
  let ?g = "(farrow_reset f)\<lparr>fr_mu := 1\<rparr>"
  have g: "farrow_at [] ?g" using assms(1) by (simp add: farrow_at_def farrow_reset_def numeral_nat)
  have adv: "farrow_advance (farrow_reset f) xs = (farrow_reset f, xs, False)"
    by (cases xs) (simp_all add: farrow_reset_def)
  have out: "farrow_interpolate (farrow_reset f) = delayed3 xs ! 0"
    by (simp add: farrow_interpolate_def farrow_reset_def catmull_rom_0 delayed3_def nth_append)
  have mu: "(farrow_reset f)\<lparr>fr_mu := dadd (fr_mu (farrow_reset f)) (fr_step (farrow_reset f))\<rparr> = ?g"
    using assms(1) by (simp add: farrow_reset_def)
  obtain f' where r: "farrow_loop ?g xs n = (f', map (\<lambda>j. delayed3 ([] @ xs) ! (length ([] :: real list) + 1 + j))
      [0..<min n (length xs)], drop (min n (length xs)) xs)" "farrow_at ([] @ take (min n (length xs)) xs) f'"
      "fr_ratio f' = fr_ratio ?g"
    using farrow_unity_run [OF g, of xs n] assms(2) by auto
  have "farrow_loop (farrow_reset f) xs (Suc n) = (f', delayed3 xs ! 0 # map (\<lambda>j. delayed3 xs ! (1 + j))
      [0..<min n (length xs)], drop (min n (length xs)) xs)"
    using r(1) by (simp add: adv out mu)
  also have "delayed3 xs ! 0 # map (\<lambda>j. delayed3 xs ! (1 + j)) [0..<min n (length xs)] =
      map (\<lambda>j. delayed3 xs ! j) [0..<Suc (min n (length xs))]"
    by (simp add: map_upt_Suc del: upt_Suc)
  finally show ?thesis using r(2,3) by (auto simp: farrow_reset_def)
qed


text \<open>C39: Streaming at ratio one. A resampler that has just been reset returns its input three
  samples late and otherwise bit for bit, with no sample lost or repeated where one call ends and the
  next begins: two calls with room for all they can produce deliver the delayed concatenation.\<close>

theorem farrow_unity_streams:
  assumes "fr_step f = 1" and "\<forall>x \<in> set (xs @ ys). f32 x = x"
    and "length xs < m" and "length ys \<le> n"
  shows "(let (f1, out1, used1) = farrow_process (farrow_reset f) xs m;
              (f2, out2, used2) = farrow_process f1 ys n
          in out1 @ out2 = take (length xs + length ys + 1) (replicate 3 0 @ xs @ ys) \<and>
             used1 = length xs \<and> used2 = length ys)"
proof -
  obtain m' where m: "m = Suc m'" "length xs \<le> m'" using assms(3) by (cases m) auto
  obtain f1 where f1: "farrow_loop (farrow_reset f) xs m = (f1, map (\<lambda>j. delayed3 xs ! j) [0..<Suc (length xs)], [])"
      "farrow_at xs f1"
    using farrow_unity_start [OF assms(1), of xs m'] assms(2) m by (auto simp: min_def simp del: upt_Suc)
  obtain f2 where f2: "farrow_loop f1 ys n = (f2, map (\<lambda>j. delayed3 (xs @ ys) ! (length xs + 1 + j)) [0..<length ys], [])"
    using farrow_unity_run [OF f1(2), of ys n] assms(2,4) by (auto simp: min_def)
  have "map (\<lambda>j. delayed3 xs ! j) [0..<Suc (length xs)] @ map (\<lambda>j. delayed3 (xs @ ys) ! (length xs + 1 + j)) [0..<length ys]
    = take (length xs + length ys + 1) (delayed3 (xs @ ys))"
  proof (rule nth_equalityI)
    show "length (map (\<lambda>j. delayed3 xs ! j) [0..<Suc (length xs)] @
        map (\<lambda>j. delayed3 (xs @ ys) ! (length xs + 1 + j)) [0..<length ys]) =
      length (take (length xs + length ys + 1) (delayed3 (xs @ ys)))"
      by (simp add: delayed3_def)
    fix i assume "i < length (map (\<lambda>j. delayed3 xs ! j) [0..<Suc (length xs)] @
        map (\<lambda>j. delayed3 (xs @ ys) ! (length xs + 1 + j)) [0..<length ys])"
    then have i: "i < Suc (length xs) + length ys" by simp
    have pre: "delayed3 xs ! i = delayed3 (xs @ ys) ! i" if "i < Suc (length xs)"
      using that by (auto simp: delayed3_def nth_append)
    show "(map (\<lambda>j. delayed3 xs ! j) [0..<Suc (length xs)] @
        map (\<lambda>j. delayed3 (xs @ ys) ! (length xs + 1 + j)) [0..<length ys]) ! i =
      take (length xs + length ys + 1) (delayed3 (xs @ ys)) ! i"
    proof (cases "i < Suc (length xs)")
      case True
      then show ?thesis using pre by (simp add: nth_append del: upt_Suc)
    next
      case False
      then have "length xs + 1 + (i - Suc (length xs)) = i" by simp
      moreover have "[0..<length ys] ! (i - Suc (length xs)) = i - Suc (length xs)" using False i by simp
      ultimately show ?thesis using False i by (simp add: nth_append del: upt_Suc)
    qed
  qed
  then show ?thesis
    unfolding farrow_process_def f1(1) Let_def case_prod_conv f2 by (simp add: delayed3_def)
qed

theorem farrow_unity_streams_witness:
  "(let (f1, out1, used1) = farrow_process (farrow_reset farrow_new) [1, 2] 3;
        (f2, out2, used2) = farrow_process f1 [3, 4] 2
    in out1 @ out2 = [0, 0, 0, 1, 2] \<and> used1 = 2 \<and> used2 = 2)"
proof -
  have f: "\<forall>x \<in> set ([1, 2] @ [3, 4 :: real]). f32 x = x" by (simp add: small_floats)
  have t': "take (2 + 2 + 1) (replicate 3 0 @ [1, 2] @ [3, 4]) = [0, 0, 0, 1, 2 :: real]"
    by (simp add: numeral_nat)
  have n: "fr_step farrow_new = 1" "length [1, 2 :: real] < 3" "length [3, 4 :: real] \<le> 2" "length [1, 2 :: real] = 2"
    "length [3, 4 :: real] = 2" by (simp_all add: farrow_new_def)
  from farrow_unity_streams [OF n(1) f n(2,3)] show ?thesis unfolding n(4,5) t' .
qed

section \<open>Hilbert transformer\<close>

record hilbert =
  hb_length :: nat
  hb_group_delay :: nat
  hb_coeffs :: "real list"
  hb_history :: "real list"
  hb_write_pos :: nat

definition M_PI :: real where "M_PI = f64 pi"
definition dcos :: "real \<Rightarrow> real" where "dcos x = f64 (cos x)"

definition hilbert_tap :: "nat \<Rightarrow> nat \<Rightarrow> real" where
  "hilbert_tap len n =
    (let k = int n - int (len div 2)
     in if k = 0 \<or> k mod 2 = 0 then 0
        else let ideal = ddiv 2 (dmul M_PI (of_int k));
                 w = dsub (f64 (54/100)) (dmul (f64 (46/100))
                       (dcos (ddiv (dmul (dmul 2 M_PI) (f64 (real n))) (f64 (real (len - 1))))))
             in f32 (dmul ideal w))"

definition design_hilbert_taps :: "nat \<Rightarrow> error + real list" where
  "design_hilbert_taps len =
    (if len mod 2 = 0 \<or> len < 3 then Inl (Invalid_Argument ''HilbertFilter length must be odd and >= 3'')
     else Inr (map (hilbert_tap len) [0..<len]))"

definition hilbert_new :: "nat \<Rightarrow> error + hilbert" where
  "hilbert_new len = (case design_hilbert_taps len of Inl e \<Rightarrow> Inl e
     | Inr taps \<Rightarrow> Inr \<lparr>hb_length = len, hb_group_delay = (len - 1) div 2, hb_coeffs = taps,
         hb_history = replicate len 0, hb_write_pos = 0\<rparr>)"

definition hilbert_reset :: "hilbert \<Rightarrow> hilbert" where
  "hilbert_reset h = h\<lparr>hb_history := map (\<lambda>_. 0) (hb_history h), hb_write_pos := 0\<rparr>"

text \<open>One sample: the delayed input and the transform. Zero taps are skipped.\<close>

definition hilbert_step :: "real \<Rightarrow> hilbert \<Rightarrow> hilbert \<times> real \<times> real" where
  "hilbert_step x h =
    (let L = hb_length h; hist = (hb_history h)[hb_write_pos h := x];
         acc = foldl (\<lambda>acc k. if hb_coeffs h ! k = 0 then acc
                 else dadd acc (dmul (hb_coeffs h ! k) (hist ! ((hb_write_pos h + L - k) mod L)))) 0 [0..<L];
         delayed = hist ! ((hb_write_pos h + L - hb_group_delay h) mod L)
     in (h\<lparr>hb_history := hist, hb_write_pos := (hb_write_pos h + 1) mod L\<rparr>, delayed, f32 acc))"

fun hilbert_process :: "real list \<Rightarrow> hilbert \<Rightarrow> hilbert \<times> real list \<times> real list" where
  "hilbert_process [] h = (h, [], [])"
| "hilbert_process (x # xs) h =
    (let (h1, d, y) = hilbert_step x h; (h2, ds, ys) = hilbert_process xs h1 in (h2, d # ds, y # ys))"

text \<open>The history is a delay line read at \<open>k\<close> samples back, so its lemmas apply.\<close>

definition hilbert_line :: "hilbert \<Rightarrow> delay_line" where
  "hilbert_line h = \<lparr>dl_buffer = hb_history h, dl_write_pos = hb_write_pos h\<rparr>"

definition hilbert_ok :: "hilbert \<Rightarrow> bool" where
  "hilbert_ok h \<longleftrightarrow> length (hb_history h) = hb_length h \<and> hb_write_pos h < hb_length h \<and>
     hb_group_delay h < hb_length h"

definition hilbert_at :: "real list \<Rightarrow> hilbert \<Rightarrow> bool" where
  "hilbert_at past h \<longleftrightarrow> hilbert_ok h \<and> (\<forall>k < hb_length h. dl_read k (hilbert_line h) =
     (if k < length past then past ! (length past - 1 - k) else 0))"

text \<open>The transform of the sample at position \<open>i\<close> of an input, with silence before it.\<close>

definition hb_back :: "real list \<Rightarrow> nat \<Rightarrow> nat \<Rightarrow> real" where
  "hb_back xs i k = (if k \<le> i then xs ! (i - k) else 0)"

definition hilbert_fir :: "real list \<Rightarrow> real list \<Rightarrow> nat \<Rightarrow> real" where
  "hilbert_fir c xs i = f32 (foldl (\<lambda>acc k. if c ! k = 0 then acc else dadd acc (dmul (c ! k) (hb_back xs i k))) 0 [0..<length c])"

lemma hilbert_step_at:
  assumes "hilbert_at past h" and "length (hb_coeffs h) = hb_length h"
  shows "hilbert_at (past @ [x]) (fst (hilbert_step x h))"
    and "fst (snd (hilbert_step x h)) = hb_back (past @ [x]) (length past) (hb_group_delay h)"
    and "snd (snd (hilbert_step x h)) = hilbert_fir (hb_coeffs h) (past @ [x]) (length past)"
    and "hb_length (fst (hilbert_step x h)) = hb_length h" "hb_coeffs (fst (hilbert_step x h)) = hb_coeffs h"
      "hb_group_delay (fst (hilbert_step x h)) = hb_group_delay h"
proof -
  let ?L = "hb_length h" and ?p = "hb_write_pos h" and ?hist = "(hb_history h)[hb_write_pos h := x]"
  have ok: "length (hb_history h) = ?L" "?p < ?L" "hb_group_delay h < ?L"
    using assms(1) by (simp_all add: hilbert_at_def hilbert_ok_def)
  have line: "hilbert_line (fst (hilbert_step x h)) = dl_write x (hilbert_line h)"
    using ok by (auto simp: hilbert_line_def hilbert_step_def dl_write_def Let_def mod_Suc)
  have rd: "dl_read k (dl_write x (hilbert_line h)) = hb_back (past @ [x]) (length past) k" if "k < ?L" for k
  proof -
    have "dl_read k (dl_write x (hilbert_line h)) = (if k = 0 then x else dl_read (k - 1) (hilbert_line h))"
      by (rule dl_write_read(1)) (use that ok in \<open>simp_all add: hilbert_line_def\<close>)
    with assms(1) that show ?thesis by (auto simp: hilbert_at_def hb_back_def nth_append)
  qed
  have slot: "?hist ! ((?p + ?L - k) mod ?L) = hb_back (past @ [x]) (length past) k" if "k < ?L" for k
  proof -
    have "((?p + 1) mod ?L + ?L - 1 - k) mod ?L = (?p + ?L - k) mod ?L"
    proof (cases "?p + 1 < ?L")
      case False
      with ok(2) have e: "?p + 1 = ?L" by simp
      with that have "?p + ?L - k = (?L - 1 - k) + ?L" by simp
      then have "(?p + ?L - k) mod ?L = (?L - 1 - k) mod ?L" by (metis mod_add_self2)
      with e show ?thesis by simp
    qed simp
    then have "dl_read k (hilbert_line (fst (hilbert_step x h))) = ?hist ! ((?p + ?L - k) mod ?L)"
      using ok by (simp add: dl_read_def hilbert_line_def hilbert_step_def Let_def)
    with rd [OF that] line show ?thesis by simp
  qed
  show "hb_length (fst (hilbert_step x h)) = ?L" "hb_coeffs (fst (hilbert_step x h)) = hb_coeffs h"
    "hb_group_delay (fst (hilbert_step x h)) = hb_group_delay h" by (simp_all add: hilbert_step_def Let_def)
  show "hilbert_at (past @ [x]) (fst (hilbert_step x h))"
    unfolding hilbert_at_def line using ok rd
    by (auto simp: hilbert_ok_def hilbert_step_def Let_def hb_back_def)
  show "fst (snd (hilbert_step x h)) = hb_back (past @ [x]) (length past) (hb_group_delay h)"
    using slot [OF ok(3)] by (simp add: hilbert_step_def Let_def)
  have "foldl (\<lambda>acc k. if hb_coeffs h ! k = 0 then acc else dadd acc (dmul (hb_coeffs h ! k)
        (?hist ! ((?p + ?L - k) mod ?L)))) 0 [0..<?L] =
    foldl (\<lambda>acc k. if hb_coeffs h ! k = 0 then acc else dadd acc (dmul (hb_coeffs h ! k)
        (hb_back (past @ [x]) (length past) k))) 0 [0..<?L]"
    by (rule foldl_cong) (simp_all add: slot)
  then show "snd (snd (hilbert_step x h)) = hilbert_fir (hb_coeffs h) (past @ [x]) (length past)"
    by (simp add: hilbert_step_def Let_def hilbert_fir_def assms(2))
qed

lemma hilbert_process_at:
  assumes "hilbert_at past h" and "length (hb_coeffs h) = hb_length h"
  shows "\<exists>h'. hilbert_process xs h =
      (h', map (\<lambda>i. hb_back (past @ xs) i (hb_group_delay h)) [length past..<length past + length xs],
       map (hilbert_fir (hb_coeffs h) (past @ xs)) [length past..<length past + length xs]) \<and>
    hilbert_at (past @ xs) h' \<and> hb_length h' = hb_length h \<and> hb_coeffs h' = hb_coeffs h \<and>
    hb_group_delay h' = hb_group_delay h"
  using assms
proof (induction xs arbitrary: past h)
  case Nil
  then show ?case by simp
next
  case (Cons x xs)
  note st = hilbert_step_at [OF Cons.prems, of x]
  obtain h1 d y where e: "hilbert_step x h = (h1, d, y)" by (metis prod_cases3)
  with st have h1: "hilbert_at (past @ [x]) h1" "length (hb_coeffs h1) = hb_length h1"
    "hb_length h1 = hb_length h" "hb_coeffs h1 = hb_coeffs h" "hb_group_delay h1 = hb_group_delay h"
    and d: "d = hb_back (past @ [x]) (length past) (hb_group_delay h)"
    and y: "y = hilbert_fir (hb_coeffs h) (past @ [x]) (length past)"
    using Cons.prems(2) by simp_all
  have ext: "hb_back (past @ [x]) (length past) k = hb_back (past @ x # xs) (length past) k" for k
    by (simp add: hb_back_def nth_append)
  have y': "y = hilbert_fir (hb_coeffs h) (past @ x # xs) (length past)"
    unfolding y hilbert_fir_def ext ..
  from Cons.IH [OF h1(1,2)] obtain h' where "hilbert_process xs h1 =
      (h', map (\<lambda>i. hb_back ((past @ [x]) @ xs) i (hb_group_delay h)) [Suc (length past)..<Suc (length past) + length xs],
       map (hilbert_fir (hb_coeffs h) ((past @ [x]) @ xs)) [Suc (length past)..<Suc (length past) + length xs])"
    "hilbert_at ((past @ [x]) @ xs) h'" "hb_length h' = hb_length h" "hb_coeffs h' = hb_coeffs h"
    "hb_group_delay h' = hb_group_delay h" using h1 by auto
  then show ?case using e d ext y' by (simp add: upt_conv_Cons del: upt_Suc)
qed

lemma hilbert_reset_at:
  assumes "hilbert_new len = Inr h0" and "hb_length h = hb_length h0" "hb_group_delay h = hb_group_delay h0"
    and "length (hb_history h) = hb_length h"
  shows "hilbert_at [] (hilbert_reset h)"
proof -
  have l: "0 < len" "hb_length h = len" "hb_group_delay h = (len - 1) div 2"
    using assms by (auto simp: hilbert_new_def design_hilbert_taps_def split: if_splits)
  have "dl_read k (hilbert_line (hilbert_reset h)) = 0" if "k < len" for k
    using that l assms(4) by (simp add: dl_read_def hilbert_line_def hilbert_reset_def Let_def)
  with l assms(4) show ?thesis by (auto simp: hilbert_at_def hilbert_ok_def hilbert_reset_def)
qed

text \<open>The Hilbert transformer as a stream. From construction, samples fed in any two blocks come
  out as the input delayed by the group delay and, sample by sample, as the FIR transform of the whole
  input with silence before it: the ring never confuses old and new samples, and neither the block
  boundary nor the skipping of zero taps shows.\<close>

theorem hilbert_streams:
  assumes "hilbert_new len = Inr h"
  shows "(let (h1, d1, y1) = hilbert_process xs h; (h2, d2, y2) = hilbert_process ys h1
    in d1 @ d2 = take (length xs + length ys) (replicate ((len - 1) div 2) 0 @ xs @ ys) \<and>
       y1 @ y2 = map (\<lambda>i. f32 (foldl (\<lambda>acc k. if hilbert_tap len k = 0 then acc
           else dadd acc (dmul (hilbert_tap len k) (if k \<le> i then (xs @ ys) ! (i - k) else 0))) 0 [0..<len]))
         [0..<length xs + length ys])"
proof -
  have h: "hb_coeffs h = map (hilbert_tap len) [0..<len]" "hb_length h = len" "hb_group_delay h = (len - 1) div 2"
      "length (hb_history h) = len" "h = hilbert_reset h"
    using assms by (auto simp: hilbert_new_def design_hilbert_taps_def hilbert_reset_def map_replicate_const split: if_splits)
  have at: "hilbert_at [] h" using hilbert_reset_at [OF assms, of h] h by metis
  obtain h1 where h1: "hilbert_process xs h = (h1, map (\<lambda>i. hb_back xs i (hb_group_delay h)) [0..<length xs],
      map (hilbert_fir (hb_coeffs h) xs) [0..<length xs])" "hilbert_at xs h1" "hb_length h1 = hb_length h"
      "hb_coeffs h1 = hb_coeffs h" "hb_group_delay h1 = hb_group_delay h"
    using hilbert_process_at [OF at, of xs] h(1,2,4) by auto
  obtain h2 where h2: "hilbert_process ys h1 = (h2, map (\<lambda>i. hb_back (xs @ ys) i (hb_group_delay h)) [length xs..<length xs + length ys],
      map (hilbert_fir (hb_coeffs h) (xs @ ys)) [length xs..<length xs + length ys])"
    using hilbert_process_at [OF h1(2), of ys] h1 h(1,2) by auto
  have prefix: "hb_back xs i k = hb_back (xs @ ys) i k" if "i < length xs" for i k
    using that by (auto simp: hb_back_def nth_append)
  have fir: "map (hilbert_fir (hb_coeffs h) xs) [0..<length xs] = map (hilbert_fir (hb_coeffs h) (xs @ ys)) [0..<length xs]"
    by (rule map_cong [OF refl]) (simp only: hilbert_fir_def atLeastLessThan_iff set_upt prefix cong: foldl_cong)
  have del: "map (\<lambda>i. hb_back xs i g) [0..<length xs] = map (\<lambda>i. hb_back (xs @ ys) i g) [0..<length xs]" for g
    by (auto simp: prefix)
  have split: "map f [0..<length xs] @ map f [length xs..<length xs + length ys] = map f [0..<length xs + length ys]"
    for f :: "nat \<Rightarrow> real"
    unfolding map_append [symmetric] using upt_add_eq_append [of 0 "length xs" "length ys"] by simp
  have d: "map (\<lambda>i. hb_back zs i g) [0..<length zs] = take (length zs) (replicate g 0 @ zs)" for g zs
    by (rule nth_equalityI) (auto simp: hb_back_def nth_append)
  have f: "hilbert_fir (map (hilbert_tap len) [0..<len]) (xs @ ys) = (\<lambda>i. f32 (foldl (\<lambda>acc k. if hilbert_tap len k = 0 then acc
           else dadd acc (dmul (hilbert_tap len k) (if k \<le> i then (xs @ ys) ! (i - k) else 0))) 0 [0..<len]))"
    unfolding hilbert_fir_def hb_back_def by (rule ext, rule arg_cong [where f = f32], rule foldl_cong) simp_all
  show ?thesis
    unfolding h1(1) Let_def case_prod_conv h2 fir del split d [of "xs @ ys", unfolded length_append]
    by (simp only: h(1-4) f length_map length_upt minus_nat.diff_0 append_assoc simp_thms)
qed

theorem hilbert_streams_witness:
  "\<exists>h. hilbert_new 3 = Inr h \<and> fst (snd (hilbert_process [5, 6] h)) = [0, 5]"
proof -
  obtain h where h: "hilbert_new 3 = Inr h" by (simp add: hilbert_new_def design_hilbert_taps_def)
  from hilbert_streams [OF h, of "[5, 6]" "[]"] h show ?thesis by (auto simp: case_prod_beta Let_def)
qed

end
