(* ===== verification/Scenario.thy ===== *)
theory Scenario
  imports Core_Types Noise
begin

text \<open>
  The configuration data of \<open>src/config/scenario.hpp\<close>: one record per struct, with the
  member initialisers as default values.
\<close>

section \<open>Transducers, replay and geometry\<close>

record transducer_spec =
  tr_tvr_db :: real
  tr_rvr_db :: real

datatype channel_mode = Mode_Static | Mode_Geometric | Mode_Replay

record replay_config =
  rp_trajectory_path :: string
  rp_offset_s :: real
  rp_advance_per_message :: bool
  rp_wrap_if_remaining_lt_s :: real

definition default_replay :: replay_config where
  "default_replay = \<lparr>rp_trajectory_path = [], rp_offset_s = 0, rp_advance_per_message = False,
     rp_wrap_if_remaining_lt_s = 0\<rparr>"

record geometric_scene_config =
  ge_water_depth_m :: real
  ge_source_depth_m :: real
  ge_receiver_depth_m :: real
  ge_gamma_surface :: real
  ge_gamma_bottom :: real
  ge_spreading_exponent_k :: real
  ge_enable_direct :: bool
  ge_enable_surface :: bool
  ge_enable_bottom :: bool
  ge_enable_surface_bottom :: bool
  ge_enable_bottom_surface :: bool
  ge_max_bounces :: int
  ge_r_min_m :: real
  ge_r_max_m :: real

definition default_geometry :: geometric_scene_config where
  "default_geometry = \<lparr>ge_water_depth_m = 0, ge_source_depth_m = 0, ge_receiver_depth_m = 0,
     ge_gamma_surface = -1, ge_gamma_bottom = 1/2, ge_spreading_exponent_k = 3/2,
     ge_enable_direct = True, ge_enable_surface = True, ge_enable_bottom = True,
     ge_enable_surface_bottom = False, ge_enable_bottom_surface = False,
     ge_max_bounces = 2, ge_r_min_m = -1, ge_r_max_m = -1\<rparr>"

text \<open>The constants of \<open>geometric_constants.hpp\<close>.\<close>

definition kMaxImageOrder :: int where "kMaxImageOrder = 4"
definition MAX_GEOMETRIC_PATHS :: nat where "MAX_GEOMETRIC_PATHS = 1 + 2 * nat kMaxImageOrder"

section \<open>Modems and channels\<close>

record modem_config =
  mo_id :: string
  mo_usb_serial :: string
  mo_transducer_id :: string
  mo_clock_offset_ppm :: real
  mo_actual_clock_offset_ppm :: real
  mo_velocity_radial_m_s :: real
  mo_acceleration_radial_m_s2 :: real

record channel_config =
  ch_from_modem :: string
  ch_to_modem :: string
  ch_range_m :: real
  ch_gain_db :: real
  ch_direct_los :: bool
  ch_propagation_delay_s :: real
  ch_spreading_factor :: real
  ch_saltwater :: bool
  ch_sound_speed_m_s :: real
  ch_clock_offset_ppm :: real
  ch_velocity_radial_m_s :: real
  ch_acceleration_radial_m_s2 :: real
  ch_rx_atten_idx :: nat
  ch_multipath_taps :: "multipath_tap list"
  ch_mode :: channel_mode
  ch_geometry :: geometric_scene_config
  ch_replay :: replay_config
  ch_initial_range_m :: real

definition default_channel :: channel_config where
  "default_channel = \<lparr>ch_from_modem = [], ch_to_modem = [], ch_range_m = 150, ch_gain_db = 0,
     ch_direct_los = True, ch_propagation_delay_s = -1, ch_spreading_factor = 2, ch_saltwater = True,
     ch_sound_speed_m_s = 1500, ch_clock_offset_ppm = 0, ch_velocity_radial_m_s = 0,
     ch_acceleration_radial_m_s2 = 0, ch_rx_atten_idx = 1, ch_multipath_taps = [],
     ch_mode = Mode_Static, ch_geometry = default_geometry, ch_replay = default_replay,
     ch_initial_range_m = -1\<rparr>"

section \<open>Environment, noise, logging\<close>

record noise_settings =
  ns_wenz_sea_state :: int
  ns_min_margin_above_afe_db :: real
  ns_disable :: bool
  ns_saltwater :: bool
  ns_tonal_sources :: "tonal_source list"

definition default_noise :: noise_settings where
  "default_noise = \<lparr>ns_wenz_sea_state = 3, ns_min_margin_above_afe_db = 10, ns_disable = False,
     ns_saltwater = True, ns_tonal_sources = []\<rparr>"

record environment_config =
  en_sound_speed_m_s :: real
  en_saltwater :: bool
  en_spreading_model :: string
  en_spreading_factor :: real
  en_max_range_m :: real
  en_max_message_duration_s :: real

definition default_environment :: environment_config where
  "default_environment = \<lparr>en_sound_speed_m_s = 1500, en_saltwater = True,
     en_spreading_model = ''spherical'', en_spreading_factor = 2, en_max_range_m = 0,
     en_max_message_duration_s = 10\<rparr>"

record logging_config =
  lo_log_raw_tx :: bool
  lo_log_raw_rx :: bool
  lo_log_processed :: bool
  lo_output_directory :: string
  lo_file_format :: string
  lo_log_processing_time_histogram :: bool
  lo_log_message_events :: bool
  lo_run_summary_path :: string

definition default_logging :: logging_config where
  "default_logging = \<lparr>lo_log_raw_tx = False, lo_log_raw_rx = False, lo_log_processed = False,
     lo_output_directory = ''.'', lo_file_format = ''wav'', lo_log_processing_time_histogram = False,
     lo_log_message_events = False, lo_run_summary_path = []\<rparr>"

section \<open>The scenario\<close>

record scenario_config =
  sc_name :: string
  sc_description :: string
  sc_environment :: environment_config
  sc_noise :: noise_settings
  sc_transducers :: "string \<rightharpoonup> transducer_spec"
  sc_modems :: "modem_config list"
  sc_channels :: "channel_config list"
  sc_logging :: logging_config
  sc_random_seed :: u64

definition default_scenario :: scenario_config where
  "default_scenario = \<lparr>sc_name = [], sc_description = [], sc_environment = default_environment,
     sc_noise = default_noise, sc_transducers = Map.empty, sc_modems = [], sc_channels = [],
     sc_logging = default_logging, sc_random_seed = 12345\<rparr>"

end
