(* ===== verification/Tap_Trajectory.thy ===== *)
theory Tap_Trajectory
  imports Codec Scenario
begin

text \<open>
  Measured tap trajectories: \<open>channel/model/replay/tap_trajectory.cpp\<close>. A file system is a
  function from paths to contents, \<open>None\<close> where the file cannot be opened; a file's doubles
  are 64-bit patterns until their class has been checked. Error texts are the code's, without the
  numbers some of them quote.
\<close>

section \<open>Binary64 patterns\<close>

definition rd64 :: "u8 list \<Rightarrow> nat \<Rightarrow> u64" where
  "rd64 buf i = ucast (rd32 buf i) OR push_bit 32 (ucast (rd32 buf (i + 4)))"

definition f64_exponent :: "u64 \<Rightarrow> nat" where
  "f64_exponent w = unat (drop_bit 52 w AND 0x7FF)"

definition f64_fraction :: "u64 \<Rightarrow> nat" where
  "f64_fraction w = unat (w AND 0xFFFFFFFFFFFFF)"

definition f64_isfinite :: "u64 \<Rightarrow> bool" where
  "f64_isfinite w \<longleftrightarrow> f64_exponent w \<noteq> 2047"

definition f64_value :: "u64 \<Rightarrow> real" where
  "f64_value w = (let s = (if bit w 63 then - 1 else 1) :: real; e = f64_exponent w; m = f64_fraction w in
     if e = 0 then s * real m * 2 powi (- 1074) else s * real (2 ^ 52 + m) * 2 powi (int e - 1075))"

section \<open>The file\<close>

type_synonym files = "string \<Rightarrow> u8 list option"

datatype tap_error = Tap_Trajectory_Error string string

record tap_header =
  th_tap_count :: nat
  th_frame_count :: nat
  th_dt_s :: real
  th_fc_meas_hz :: real
  th_max_delay_s :: real

definition HEADER_BYTES :: nat where "HEADER_BYTES = 64"
definition RECORD_BYTES :: nat where "RECORD_BYTES = 16"

definition OCTT_MAGIC :: "u8 list" where "OCTT_MAGIC = [0x4F, 0x43, 0x54, 0x54]"

definition read_and_validate_header :: "string \<Rightarrow> u8 list \<Rightarrow> tap_error + tap_header" where
  "read_and_validate_header path raw =
    (let fail = (\<lambda>what. Inl (Tap_Trajectory_Error path what));
         tap_count = unat (rd32 raw 8); frame_count = unat (rd32 raw 12);
         dt = rd64 raw 16; fc = rd64 raw 24; max_delay = rd64 raw 32
     in if length raw < HEADER_BYTES then fail ''truncated header''
        else if take 4 raw \<noteq> OCTT_MAGIC then fail ''bad magic (not an .octt file)''
        else if rd32 raw 4 \<noteq> 1 then fail ''unsupported version''
        else if tap_count < 1 \<or> MAX_TAPS_PER_CHANNEL < tap_count then fail ''tap_count out of range''
        else if frame_count < 2 then fail ''frame_count < 2''
        else if \<not> f64_isfinite dt \<or> f64_value dt \<le> 0 then fail ''dt_s must be finite and > 0''
        else if \<not> f64_isfinite fc \<or> f64_value fc \<le> 0 then fail ''fc_meas_hz must be finite and > 0''
        else if \<not> f64_isfinite max_delay \<or> f64_value max_delay < 0 then fail ''max_delay_s must be finite and >= 0''
        else if MAX_MULTIPATH_DELAY_S < f64_value max_delay then fail ''max_delay_s exceeds the channel limit''
        else if \<exists>b \<in> set (take 24 (drop 40 raw)). b \<noteq> 0 then fail ''nonzero reserved header bytes''
        else Inr \<lparr>th_tap_count = tap_count, th_frame_count = frame_count, th_dt_s = f64_value dt,
               th_fc_meas_hz = f64_value fc, th_max_delay_s = f64_value max_delay\<rparr>)"

definition open_binary :: "files \<Rightarrow> string \<Rightarrow> tap_error + u8 list" where
  "open_binary fs path = (case fs path of None \<Rightarrow> Inl (Tap_Trajectory_Error path ''cannot open file'') | Some raw \<Rightarrow> Inr raw)"

definition peek_header :: "files \<Rightarrow> string \<Rightarrow> tap_error + tap_header" where
  "peek_header fs path = (case open_binary fs path of Inl e \<Rightarrow> Inl e
     | Inr raw \<Rightarrow> read_and_validate_header path raw)"

section \<open>Loading\<close>

record tap_trajectory =
  tj_header :: tap_header
  tj_delays :: "real list"
  tj_amplitudes :: "real list"

text \<open>The validation loop over the records: the delays, the amplitudes and the largest delay.\<close>

fun scan_records :: "string \<Rightarrow> u8 list \<Rightarrow> nat list \<Rightarrow> real \<Rightarrow> tap_error + real list \<times> real list \<times> real" where
  "scan_records path raw [] data_max = Inr ([], [], data_max)"
| "scan_records path raw (i # is) data_max =
    (let d = rd64 raw (HEADER_BYTES + i * RECORD_BYTES); a = rd32 raw (HEADER_BYTES + i * RECORD_BYTES + 8)
     in if \<not> f64_isfinite d \<or> f64_value d < 0 then Inl (Tap_Trajectory_Error path ''invalid delay sample'')
        else if \<not> f32_isfinite a \<or> f32_value a < 0 then Inl (Tap_Trajectory_Error path ''invalid amplitude sample'')
        else case scan_records path raw is (cmax data_max (f64_value d)) of
               Inl e \<Rightarrow> Inl e
             | Inr (ds, as, m) \<Rightarrow> Inr (f64_value d # ds, f32_value a # as, m))"

definition load_trajectory :: "files \<Rightarrow> string \<Rightarrow> tap_error + tap_trajectory" where
  "load_trajectory fs path =
    (case open_binary fs path of Inl e \<Rightarrow> Inl e | Inr raw \<Rightarrow>
     case read_and_validate_header path raw of Inl e \<Rightarrow> Inl e | Inr h \<Rightarrow>
       let n_records = th_frame_count h * th_tap_count h
       in if length raw \<noteq> HEADER_BYTES + n_records * RECORD_BYTES
          then Inl (Tap_Trajectory_Error path ''file size != expected'')
          else case scan_records path raw [0..<n_records] 0 of Inl e \<Rightarrow> Inl e
            | Inr (ds, as, data_max) \<Rightarrow>
                if f64 (1 / 10 ^ 6) < \<bar>dsub data_max (th_max_delay_s h)\<bar>
                then Inl (Tap_Trajectory_Error path ''header max_delay_s != data max'')
                else Inr \<lparr>tj_header = h, tj_delays = ds, tj_amplitudes = as\<rparr>)"

definition duration_s :: "tap_trajectory \<Rightarrow> real" where
  "duration_s t = dmul (f64 (real (th_frame_count (tj_header t) - 1))) (th_dt_s (tj_header t))"

section \<open>Sampling\<close>

definition catmull_rom_d :: "real \<Rightarrow> real \<Rightarrow> real \<Rightarrow> real \<Rightarrow> real \<Rightarrow> real" where
  "catmull_rom_d p0 p1 p2 p3 mu =
    dadd p1 (dmul (dmul (1/2) mu) (dadd (dsub p2 p0)
      (dmul mu (dadd (dsub (dadd (dsub (dmul 2 p0) (dmul 5 p1)) (dmul 4 p2)) p3)
                     (dmul mu (dsub (dadd (dmul 3 (dsub p1 p2)) p3) p0))))))"

record tap_sample =
  sm_delay_s :: real
  sm_amplitude :: real

definition trajectory_sample :: "tap_trajectory \<Rightarrow> nat \<Rightarrow> real \<Rightarrow> tap_sample" where
  "trajectory_sample t tap t_record_s =
    (let taps = th_tap_count (tj_header t); last_f = th_frame_count (tj_header t) - 1;
         u = cclamp (ddiv t_record_s (th_dt_s (tj_header t))) 0 (f64 (real last_f));
         i = cmin (nat (ctrunc u)) (last_f - 1);
         mu = dsub u (f64 (real i));
         f0 = (if i = 0 then 0 else i - 1); f1 = i; f2 = i + 1; f3 = cmin (i + 2) last_f;
         track = (\<lambda>xs f. xs ! (f * taps + tap));
         interp = (\<lambda>xs. catmull_rom_d (track xs f0) (track xs f1) (track xs f2) (track xs f3) mu)
     in \<lparr>sm_delay_s = interp (tj_delays t), sm_amplitude = f32 (cmax (interp (tj_amplitudes t)) 0)\<rparr>)"

section \<open>What a loaded trajectory satisfies\<close>

definition trajectory_ok :: "tap_trajectory \<Rightarrow> bool" where
  "trajectory_ok t \<longleftrightarrow>
    (let h = tj_header t; n = th_frame_count h * th_tap_count h
     in 1 \<le> th_tap_count h \<and> th_tap_count h \<le> MAX_TAPS_PER_CHANNEL \<and> 2 \<le> th_frame_count h \<and>
        0 < th_dt_s h \<and> 0 < th_fc_meas_hz h \<and> 0 \<le> th_max_delay_s h \<and> th_max_delay_s h \<le> MAX_MULTIPATH_DELAY_S \<and>
        th_frame_count h < 2 ^ 32 \<and> length (tj_delays t) = n \<and> length (tj_amplitudes t) = n \<and>
        (\<forall>d \<in> set (tj_delays t). 0 \<le> d \<and> f64 d = d) \<and> (\<forall>a \<in> set (tj_amplitudes t). 0 \<le> a \<and> f32 a = a))"

lemma f64_value_exact [simp]: "f64 (f64_value w) = f64_value w"
proof -
  have "f64_fraction w < 2 ^ 52"
  proof -
    have "w AND 0xFFFFFFFFFFFFF = take_bit 52 w" by (simp add: take_bit_eq_mask mask_eq_exp_minus_1)
    then show ?thesis using take_bit_nat_less_exp [of 52 "unat w"] by (simp add: f64_fraction_def unsigned_take_bit_eq)
  qed
  moreover have "f64 (of_int (s * int m) * 2 powi e) = of_int (s * int m) * 2 powi e"
    if "s = 1 \<or> s = - 1" "m \<le> 2 ^ 53" "- 1074 \<le> e" for s :: int and m e
    by (rule f64_dyadic) (use that in \<open>auto simp: abs_mult\<close>)
  moreover note this [of 1 "f64_fraction w" "- 1074"] this [of "- 1" "f64_fraction w" "- 1074"]
    this [of 1 "2 ^ 52 + f64_fraction w" "int (f64_exponent w) - 1075"]
    this [of "- 1" "2 ^ 52 + f64_fraction w" "int (f64_exponent w) - 1075"]
  ultimately show ?thesis by (auto simp: f64_value_def Let_def)
qed

lemma f32_value_exact [simp]: "f32 (f32_value w) = f32_value w"
proof -
  have "f32_fraction w < 2 ^ 23"
  proof -
    have "w AND 0x7FFFFF = take_bit 23 w" by (simp add: take_bit_eq_mask mask_eq_exp_minus_1)
    then show ?thesis using take_bit_nat_less_exp [of 23 "unat w"] by (simp add: f32_fraction_def unsigned_take_bit_eq)
  qed
  moreover have "f32 (of_int (s * int m) * 2 powi e) = of_int (s * int m) * 2 powi e"
    if "s = 1 \<or> s = - 1" "m \<le> 2 ^ 24" "- 149 \<le> e" for s :: int and m e
    by (rule f32_dyadic) (use that in \<open>auto simp: abs_mult\<close>)
  moreover note this [of 1 "f32_fraction w" "- 149"] this [of "- 1" "f32_fraction w" "- 149"]
    this [of 1 "2 ^ 23 + f32_fraction w" "int (f32_exponent w) - 150"]
    this [of "- 1" "2 ^ 23 + f32_fraction w" "int (f32_exponent w) - 150"]
  ultimately show ?thesis by (auto simp: f32_value_def Let_def)
qed

lemma scan_records_ok:
  assumes "scan_records path raw is m = Inr (ds, as, m')"
  shows "length ds = length is" "length as = length is" "\<forall>d \<in> set ds. 0 \<le> d \<and> d \<le> m' \<and> f64 d = d" "\<forall>a \<in> set as. 0 \<le> a \<and> f32 a = a" "m \<le> m'"
proof -
  have "length ds = length is \<and> length as = length is \<and> (\<forall>d \<in> set ds. 0 \<le> d \<and> d \<le> m' \<and> f64 d = d) \<and>
      (\<forall>a \<in> set as. 0 \<le> a \<and> f32 a = a) \<and> m \<le> m'"
    using assms
  proof (induction "is" arbitrary: m ds as)
    case Nil
    then show ?case by simp
  next
    case (Cons i "is")
    let ?d = "f64_value (rd64 raw (HEADER_BYTES + i * RECORD_BYTES))"
    let ?a = "f32_value (rd32 raw (HEADER_BYTES + i * RECORD_BYTES + 8))"
    obtain ds' as' where r: "scan_records path raw is (max m ?d) = Inr (ds', as', m')"
      "ds = ?d # ds'" "as = ?a # as'" and p: "0 \<le> ?d" "0 \<le> ?a"
      using Cons.prems by (auto simp: Let_def split: if_splits sum.splits)
    from Cons.IH [OF r(1)] r p show ?case by auto
  qed
  then show "length ds = length is" "length as = length is" "\<forall>d \<in> set ds. 0 \<le> d \<and> d \<le> m' \<and> f64 d = d" "\<forall>a \<in> set as. 0 \<le> a \<and> f32 a = a" "m \<le> m'"
    by blast+
qed

lemma header_ok:
  assumes "read_and_validate_header path raw = Inr h"
  shows "1 \<le> th_tap_count h" "th_tap_count h \<le> MAX_TAPS_PER_CHANNEL" "2 \<le> th_frame_count h"
    "0 < th_dt_s h" "0 < th_fc_meas_hz h" "0 \<le> th_max_delay_s h" "th_max_delay_s h \<le> MAX_MULTIPATH_DELAY_S"
    "th_frame_count h < 2 ^ 32"
  using assms unat_u32 by (auto simp: read_and_validate_header_def Let_def split: if_splits)

lemma load_trajectory_cases:
  assumes "load_trajectory fs path = Inr t"
  obtains raw data_max where "fs path = Some raw" "read_and_validate_header path raw = Inr (tj_header t)"
    "length raw = HEADER_BYTES + th_frame_count (tj_header t) * th_tap_count (tj_header t) * RECORD_BYTES"
    "scan_records path raw [0..<th_frame_count (tj_header t) * th_tap_count (tj_header t)] 0 =
      Inr (tj_delays t, tj_amplitudes t, data_max)"
    "\<bar>dsub data_max (th_max_delay_s (tj_header t))\<bar> \<le> f64 (1 / 10 ^ 6)"
  using assms
  by (auto simp: load_trajectory_def open_binary_def Let_def split: if_splits sum.splits option.splits)


definition tiny_octt :: "u8 list" where
  "tiny_octt = [0x4F, 0x43, 0x54, 0x54, 1, 0, 0, 0, 1, 0, 0, 0, 2, 0, 0, 0,
     0, 0, 0, 0, 0, 0, 0xF0, 0x3F, 0, 0, 0, 0, 0, 0, 0xF0, 0x3F, 0, 0, 0, 0, 0, 0, 0, 0,
     0, 0, 0, 0, 0, 0, 0, 0, 0, 0, 0, 0, 0, 0, 0, 0, 0, 0, 0, 0, 0, 0, 0, 0,
     0, 0, 0, 0, 0, 0, 0, 0, 0, 0, 0, 0, 0, 0, 0, 0,
     0, 0, 0, 0, 0, 0, 0, 0, 0, 0, 0x80, 0x3F, 0, 0, 0, 0]"

definition tiny_header :: tap_header where
  "tiny_header = \<lparr>th_tap_count = 1, th_frame_count = 2, th_dt_s = 1, th_fc_meas_hz = 1, th_max_delay_s = 0\<rparr>"

definition tiny_trajectory :: tap_trajectory where
  "tiny_trajectory = \<lparr>tj_header = tiny_header, tj_delays = [0, 0], tj_amplitudes = [0, 1]\<rparr>"

lemma tiny_header_reads: "read_and_validate_header path tiny_octt = Inr tiny_header"
  by (simp add: read_and_validate_header_def Let_def tiny_octt_def rd64_def rd32_def HEADER_BYTES_def OCTT_MAGIC_def
      f64_isfinite_def f64_value_def f64_exponent_def f64_fraction_def MAX_TAPS_PER_CHANNEL_def tiny_header_def MAX_MULTIPATH_DELAY_S_def not_less)

lemma tiny_loads: "load_trajectory (\<lambda>_. Some tiny_octt) path = Inr tiny_trajectory"
proof -
  have l: "length tiny_octt = 96" by (simp add: tiny_octt_def)
  have r: "rd64 tiny_octt 64 = 0" "rd64 tiny_octt 80 = 0" "rd32 tiny_octt 72 = 0" "rd32 tiny_octt 88 = 0x3F800000"
    by (simp_all add: tiny_octt_def rd64_def rd32_def)
  have v: "f64_value 0 = 0" "f64_isfinite 0" "f32_value 0 = 0" "f32_isfinite 0" "f32_value 0x3F800000 = 1" "f32_isfinite 0x3F800000"
    by (simp_all add: f64_value_def f64_isfinite_def f64_exponent_def f64_fraction_def f32_value_def f32_isfinite_def
        f32_class_def f32_exponent_def f32_fraction_def f32_sign_def Let_def power_int_def power_divide)
  have "scan_records path tiny_octt [0..<2] 0 = Inr ([0, 0], [0, 1], 0)"
    by (simp add: upt_conv_Cons Let_def HEADER_BYTES_def RECORD_BYTES_def r v)
  then show ?thesis
    by (simp add: load_trajectory_def open_binary_def tiny_header_reads Let_def tiny_header_def tiny_trajectory_def l
        HEADER_BYTES_def RECORD_BYTES_def f64_nonneg not_less)
qed


section \<open>Interpolation\<close>

lemma catmull_rom_d_0: "f64 p1 = p1 \<Longrightarrow> catmull_rom_d p0 p1 p2 p3 0 = p1"
  by (simp add: catmull_rom_d_def)

lemma trajectory_index:
  assumes "trajectory_ok t" and "tap < th_tap_count (tj_header t)" and "f < th_frame_count (tj_header t)"
  shows "f * th_tap_count (tj_header t) + tap < length (tj_delays t)"
    and "f * th_tap_count (tj_header t) + tap < length (tj_amplitudes t)"
proof -
  have "f * th_tap_count (tj_header t) + tap < Suc f * th_tap_count (tj_header t)" using assms(2) by simp
  also have "\<dots> \<le> th_frame_count (tj_header t) * th_tap_count (tj_header t)"
    by (rule mult_le_mono1) (use assms(3) in simp)
  finally show "f * th_tap_count (tj_header t) + tap < length (tj_delays t)"
    "f * th_tap_count (tj_header t) + tap < length (tj_amplitudes t)"
    using assms(1) by (simp_all add: trajectory_ok_def Let_def)
qed

text \<open>Sampling a sound trajectory. At the time of any frame but the last the stored delay and
  amplitude come back exactly; before the record the first frame's state is held, past its end the
  state at the end; and the amplitude is never negative.\<close>

theorem trajectory_sample_correct:
  assumes "trajectory_ok t" and "tap < th_tap_count (tj_header t)"
    and "i + 1 < th_frame_count (tj_header t)"
  shows "(ddiv tr (th_dt_s (tj_header t)) = real i \<longrightarrow> trajectory_sample t tap tr =
      \<lparr>sm_delay_s = tj_delays t ! (i * th_tap_count (tj_header t) + tap),
       sm_amplitude = tj_amplitudes t ! (i * th_tap_count (tj_header t) + tap)\<rparr>) \<and>
    (tr \<le> 0 \<longrightarrow> trajectory_sample t tap tr = trajectory_sample t tap 0) \<and>
    (real (th_frame_count (tj_header t) - 1) \<le> ddiv tr (th_dt_s (tj_header t)) \<and> tr \<le> tr' \<longrightarrow>
       trajectory_sample t tap tr' = trajectory_sample t tap tr) \<and>
    0 \<le> sm_amplitude (trajectory_sample t tap tr)"
proof -
  let ?h = "tj_header t"
  let ?last = "th_frame_count ?h - 1"
  note ok = assms(1) [unfolded trajectory_ok_def Let_def]
  have dt: "0 < th_dt_s ?h" and fr: "2 \<le> th_frame_count ?h" "th_frame_count ?h < 2 ^ 32" using ok by blast+
  have small: "f64 (real k) = real k" if "k < 2 ^ 32" for k by (rule f64_of_nat) (use that in simp)
  have grid: "trajectory_sample t tap tr = \<lparr>sm_delay_s = tj_delays t ! (i * th_tap_count ?h + tap),
       sm_amplitude = tj_amplitudes t ! (i * th_tap_count ?h + tap)\<rparr>"
    if u: "ddiv tr (th_dt_s ?h) = real i"
  proof -
    have c: "cclamp (real i) 0 (f64 (real ?last)) = real i"
      by (rule cclamp_id) (use assms(3) small [of ?last] fr in simp_all)
    have m: "cmin (nat (ctrunc (real i))) (?last - 1) = i" using assms(3) by simp
    have i64: "f64 (real i) = real i" by (rule small) (use assms(3) fr in simp)
    have "i < th_frame_count ?h" using assms(3) by simp
    note ix = trajectory_index [OF assms(1,2) this]
    have d: "f64 (tj_delays t ! (i * th_tap_count ?h + tap)) = tj_delays t ! (i * th_tap_count ?h + tap)"
      using ok nth_mem [OF ix(1)] by blast
    have a: "f32 (tj_amplitudes t ! (i * th_tap_count ?h + tap)) = tj_amplitudes t ! (i * th_tap_count ?h + tap)"
      "0 \<le> tj_amplitudes t ! (i * th_tap_count ?h + tap)"
      using ok nth_mem [OF ix(2)] by blast+
    then have a64: "f64 (tj_amplitudes t ! (i * th_tap_count ?h + tap)) = tj_amplitudes t ! (i * th_tap_count ?h + tap)"
      by (metis f64_f32)
    show ?thesis
      unfolding trajectory_sample_def Let_def u c m
      by (simp add: i64 catmull_rom_d_0 d a a64 del: One_nat_def)
  qed
  have low: "trajectory_sample t tap tr = trajectory_sample t tap 0" if "tr \<le> 0"
  proof -
    have "ddiv tr (th_dt_s ?h) \<le> 0" by (rule f64_nonpos) (use that dt in \<open>simp add: divide_nonpos_pos\<close>)
    then have eq: "cclamp (ddiv tr (th_dt_s ?h)) 0 (f64 (real ?last)) = cclamp (ddiv 0 (th_dt_s ?h)) 0 (f64 (real ?last))"
      using small [of ?last] fr by (auto simp: cclamp_def)
    show ?thesis unfolding trajectory_sample_def Let_def eq ..
  qed
  have high: "trajectory_sample t tap tr' = trajectory_sample t tap tr"
    if "real ?last \<le> ddiv tr (th_dt_s ?h)" "tr \<le> tr'"
  proof -
    have "ddiv tr (th_dt_s ?h) \<le> ddiv tr' (th_dt_s ?h)"
      by (rule f64_mono) (use that(2) dt in \<open>simp add: divide_right_mono\<close>)
    then have eq: "cclamp (ddiv tr' (th_dt_s ?h)) 0 (f64 (real ?last)) = cclamp (ddiv tr (th_dt_s ?h)) 0 (f64 (real ?last))"
      using that(1) small [of ?last] fr by (auto simp: cclamp_def)
    show ?thesis unfolding trajectory_sample_def Let_def eq ..
  qed
  have "0 \<le> sm_amplitude (trajectory_sample t tap tr)" by (simp add: trajectory_sample_def Let_def f32_nonneg)
  with grid low high show ?thesis by blast
qed

text \<open>The interpolation overshoots: between two frames at the largest delay the track can read past
  it, so a trajectory's \<open>max_delay_s\<close> does not bound what \<open>sample\<close> returns.\<close>

definition bump :: tap_trajectory where
  "bump = \<lparr>tj_header = \<lparr>th_tap_count = 1, th_frame_count = 4, th_dt_s = 1, th_fc_meas_hz = 1, th_max_delay_s = 1/8\<rparr>,
     tj_delays = [0, 1/8, 1/8, 0], tj_amplitudes = [1, 1, 1, 1]\<rparr>"

lemma f64_binary_fraction:
  assumes "\<bar>m\<bar> \<le> 2 ^ 53" and "k \<le> 1074"
  shows "f64 (of_int m / 2 ^ k) = of_int m / 2 ^ k"
  using f64_dyadic [OF assms(1), of "- int k"] assms(2) by (simp add: power_int_minus field_simps)

lemma small_doubles: "f64 (1/2) = 1/2" "f64 (1/4) = 1/4" "f64 (1/8) = 1/8" "f64 (3/2) = 3/2" "f64 (1/64) = 1/64"
    "f64 (9/64) = 9/64" "f64 (5/8) = 5/8" "f64 3 = 3" "f64 (1/16) = 1/16" "f64 2 = 2" "f64 (1/32) = 1/32"
  using f64_binary_fraction [of 1 1] f64_binary_fraction [of 1 2] f64_binary_fraction [of 1 3]
    f64_binary_fraction [of 3 1] f64_binary_fraction [of 1 6] f64_binary_fraction [of 9 6]
    f64_binary_fraction [of 5 3] f64_of_nat [of 3] f64_binary_fraction [of 1 4] f64_of_nat [of 2] f64_binary_fraction [of 1 5]
  by simp_all

lemma bump_ok: "trajectory_ok bump"
proof -
  have "f32 (1/8) = 1/8" using f32_dyadic [of 1 "- 3"] by (simp add: power_int_def power_divide)
  moreover have "f32 (1/8) \<le> f32 (1/5)" by (rule f32_mono) simp
  ultimately have "1/8 \<le> MAX_MULTIPATH_DELAY_S" by (simp add: MAX_MULTIPATH_DELAY_S_def)
  then show ?thesis by (auto simp: trajectory_ok_def bump_def MAX_TAPS_PER_CHANNEL_def small_doubles)
qed

theorem trajectory_sample_correct_witness:
  "trajectory_sample bump 0 1 = \<lparr>sm_delay_s = 1/8, sm_amplitude = 1\<rparr>"
  using trajectory_sample_correct [OF bump_ok, of 0 1 1] by (simp add: bump_def)

theorem interpolated_delay_exceeds_maximum:
  "trajectory_ok bump \<and> th_max_delay_s (tj_header bump) = 1/8 \<and>
   (\<forall>d \<in> set (tj_delays bump). d \<le> 1/8) \<and> sm_delay_s (trajectory_sample bump 0 (3/2)) = 9/64"
proof -
  have "sm_delay_s (trajectory_sample bump 0 (3/2)) = 9/64"
  proof -
    have c: "catmull_rom_d 0 (1/8) (1/8) 0 (1/2) = 9/64"
      by (simp add: catmull_rom_d_def small_doubles)
    have u: "cclamp (ddiv (3/2) 1) 0 (f64 (real (4 - 1))) = 3/2" by (simp add: small_doubles cclamp_def)
    have i: "cmin (nat (ctrunc (3/2))) (4 - 1 - 1) = 1" by (simp add: ctrunc_def)
    have m: "dsub (3/2) (f64 (real 1)) = 1/2" by (simp add: small_doubles)
    show ?thesis
      unfolding trajectory_sample_def bump_def Let_def tap_trajectory.simps tap_header.simps u i m
      by (simp add: c)
  qed
  with bump_ok show ?thesis by (simp add: bump_def)
qed

end
