(* ===== verification/Scenario_Loader.thy ===== *)
theory Scenario_Loader
  imports Tap_Trajectory
begin

text \<open>
  \<open>src/config/scenario_loader.cpp\<close>. yaml-cpp is a record of the node operations the loader
  calls, over an abstract node type; a conversion or subscript that throws returns the exception's
  text. A parse is a chain of steps on the record under construction, in the order of the code.
  Error texts are the code's, without source name and quoted values, which the error carries as
  data. Floating-point scalars are finite; the loader does not look for \<open>.nan\<close> or \<open>.inf\<close>.
\<close>

section \<open>Errors and steps\<close>

datatype error_place = At_Root | At_Transducer string | At_Modem_Index nat | At_Modem string
  | At_Channel nat | At_Tap nat nat

datatype load_error = Scenario_Load_Error string error_place string | Yaml_Exception string

definition ebind :: "'e + 'a \<Rightarrow> ('a \<Rightarrow> 'e + 'b) \<Rightarrow> 'e + 'b" where
  "ebind m f = (case m of Inl e \<Rightarrow> Inl e | Inr x \<Rightarrow> f x)"

lemma ebind_simps [simp]: "ebind (Inl e) f = Inl e" "ebind (Inr x) f = f x"
  by (simp_all add: ebind_def)

lemma ebind_Inr [simp]: "ebind m f = Inr y \<longleftrightarrow> (\<exists>x. m = Inr x \<and> f x = Inr y)"
  by (cases m) simp_all

fun chain :: "('r \<Rightarrow> 'e + 'r) list \<Rightarrow> 'r \<Rightarrow> 'e + 'r" where
  "chain [] r = Inr r"
| "chain (f # fs) r = ebind (f r) (chain fs)"

lemma chain_append: "chain (fs @ gs) r = ebind (chain fs r) (chain gs)"
proof (induction fs arbitrary: r)
  case (Cons f fs)
  then show ?case by (cases "f r") simp_all
qed simp

definition reject :: "('r \<Rightarrow> bool) \<Rightarrow> 'e \<Rightarrow> 'r \<Rightarrow> 'e + 'r" where
  "reject bad e r = (if bad r then Inl e else Inr r)"

lemma reject_Inr [simp]: "reject bad e r = Inr r' \<longleftrightarrow> \<not> bad r \<and> r' = r"
  by (auto simp: reject_def)

section \<open>yaml-cpp\<close>

record 'n yaml =
  ya_is_map :: "'n \<Rightarrow> bool"
  ya_is_sequence :: "'n \<Rightarrow> bool"
  ya_child :: "'n \<Rightarrow> string \<Rightarrow> string + 'n option"
  ya_items :: "'n \<Rightarrow> 'n list"
  ya_entries :: "'n \<Rightarrow> ('n \<times> 'n) list"
  ya_string :: "'n \<Rightarrow> string + string"
  ya_float :: "'n \<Rightarrow> string + real"
  ya_double :: "'n \<Rightarrow> string + real"
  ya_bool :: "'n \<Rightarrow> string + bool"
  ya_int :: "'n \<Rightarrow> string + int"
  ya_uint64 :: "'n \<Rightarrow> string + u64"

definition yaml_result :: "string + 'a \<Rightarrow> load_error + 'a" where
  "yaml_result m = map_sum Yaml_Exception id m"

lemma yaml_result_Inr [simp]: "yaml_result m = Inr x \<longleftrightarrow> m = Inr x"
  by (cases m) (simp_all add: yaml_result_def)

lemma yaml_result_simps [simp]: "yaml_result (Inr x) = Inr x" "yaml_result (Inl e) = Inl (Yaml_Exception e)"
  by (simp_all add: yaml_result_def)

text \<open>\<open>node[key]\<close> as a condition, as a required field, as an optional field with a default, and
  as \<open>if (node[key]) r.field = node[key].as<T>()\<close>.\<close>

definition child :: "'n yaml \<Rightarrow> 'n \<Rightarrow> string \<Rightarrow> load_error + 'n option" where
  "child Y n key = yaml_result (ya_child Y n key)"

definition required :: "'n yaml \<Rightarrow> 'n \<Rightarrow> string \<Rightarrow> load_error \<Rightarrow> load_error + 'n" where
  "required Y n key e = ebind (child Y n key) (\<lambda>v. case v of None \<Rightarrow> Inl e | Some v \<Rightarrow> Inr v)"

definition optional :: "'n yaml \<Rightarrow> 'n \<Rightarrow> string \<Rightarrow> ('n \<Rightarrow> string + 'a) \<Rightarrow> 'a \<Rightarrow> load_error + 'a" where
  "optional Y n key as d = ebind (child Y n key)
     (\<lambda>v. case v of None \<Rightarrow> Inr d | Some v \<Rightarrow> yaml_result (as v))"

definition set_opt :: "'n yaml \<Rightarrow> 'n \<Rightarrow> string \<Rightarrow> ('n \<Rightarrow> string + 'a) \<Rightarrow> ('a \<Rightarrow> 'r \<Rightarrow> 'r) \<Rightarrow> 'r \<Rightarrow> load_error + 'r" where
  "set_opt Y n key as upd r = ebind (child Y n key)
     (\<lambda>v. case v of None \<Rightarrow> Inr r | Some v \<Rightarrow> ebind (yaml_result (as v)) (\<lambda>x. Inr (upd x r)))"

definition forbid :: "'n yaml \<Rightarrow> 'n \<Rightarrow> string \<Rightarrow> load_error \<Rightarrow> 'r \<Rightarrow> load_error + 'r" where
  "forbid Y n key e r = ebind (child Y n key) (\<lambda>v. case v of None \<Rightarrow> Inr r | Some _ \<Rightarrow> Inl e)"

text \<open>A check that follows \<open>if (node[key])\<close> only applies when the key is there.\<close>

definition set_checked :: "'n yaml \<Rightarrow> 'n \<Rightarrow> string \<Rightarrow> ('n \<Rightarrow> string + 'a) \<Rightarrow> ('a \<Rightarrow> bool) \<Rightarrow> load_error \<Rightarrow>
    ('a \<Rightarrow> 'r \<Rightarrow> 'r) \<Rightarrow> 'r \<Rightarrow> load_error + 'r" where
  "set_checked Y n key as bad e upd r = ebind (child Y n key)
     (\<lambda>v. case v of None \<Rightarrow> Inr r
        | Some v \<Rightarrow> ebind (yaml_result (as v)) (\<lambda>x. if bad x then Inl e else Inr (upd x r)))"

lemma set_opt_keeps: "set_opt Y n key as upd r = Inr r' \<Longrightarrow> (\<And>x. f (upd x r) = f r) \<Longrightarrow> f r' = f r"
  by (auto simp: set_opt_def split: option.splits)

lemma set_checked_keeps: "set_checked Y n key as bad e upd r = Inr r' \<Longrightarrow> (\<And>x. f (upd x r) = f r) \<Longrightarrow> f r' = f r"
  by (auto simp: set_checked_def split: option.splits if_splits)

lemma set_checked_Inr: "set_checked Y n key as bad e upd r = Inr r' \<Longrightarrow> r' = r \<or> (\<exists>x. \<not> bad x \<and> r' = upd x r)"
  by (auto simp: set_checked_def split: option.splits if_splits)

lemma set_opt_Inr: "set_opt Y n key as upd r = Inr r' \<Longrightarrow> r' = r \<or> (\<exists>x. r' = upd x r)"
  by (auto simp: set_opt_def split: option.splits)

lemma forbid_Inr [simp]: "forbid Y n key e r = Inr r' \<longleftrightarrow> ya_child Y n key = Inr None \<and> r' = r"
  by (auto simp: forbid_def child_def split: option.splits)

section \<open>Environment\<close>

definition spreading_factor_from_model :: "string \<Rightarrow> real" where
  "spreading_factor_from_model m =
    (if m = ''cylindrical'' then 1 else if m = ''hybrid'' then 3/2 else 2)"

definition parse_environment :: "'n yaml \<Rightarrow> string \<Rightarrow> 'n \<Rightarrow> load_error + environment_config" where
  "parse_environment Y src env =
    (let fail = Scenario_Load_Error src At_Root in chain [
       set_opt Y env ''sound_speed_m_s'' (ya_float Y) (\<lambda>x r. r\<lparr>en_sound_speed_m_s := x\<rparr>),
       set_opt Y env ''saltwater'' (ya_bool Y) (\<lambda>x r. r\<lparr>en_saltwater := x\<rparr>),
       set_opt Y env ''spreading_model'' (ya_string Y)
         (\<lambda>x r. r\<lparr>en_spreading_model := x, en_spreading_factor := spreading_factor_from_model x\<rparr>),
       set_opt Y env ''spreading_factor'' (ya_float Y) (\<lambda>x r. r\<lparr>en_spreading_factor := x\<rparr>),
       forbid Y env ''center_freq_khz'' (fail ''environment.center_freq_khz is not accepted''),
       set_opt Y env ''max_range_m'' (ya_float Y) (\<lambda>x r. r\<lparr>en_max_range_m := x\<rparr>),
       set_checked Y env ''max_message_duration_s'' (ya_float Y) (\<lambda>x. x \<le> 0)
         (fail ''environment.max_message_duration_s must be > 0'') (\<lambda>x r. r\<lparr>en_max_message_duration_s := x\<rparr>)]
     default_environment)"

section \<open>Transducers and modems\<close>

definition parse_transducer :: "'n yaml \<Rightarrow> string \<Rightarrow> string \<Rightarrow> 'n \<Rightarrow> load_error + transducer_spec" where
  "parse_transducer Y src tid spec =
    (let fail = Scenario_Load_Error src (At_Transducer tid) in
     if \<not> ya_is_map Y spec then Inl (fail ''must be a mapping with tvr_db / rvr_db'')
     else ebind (required Y spec ''tvr_db'' (fail ''missing required field tvr_db'')) (\<lambda>t.
          ebind (required Y spec ''rvr_db'' (fail ''missing required field rvr_db'')) (\<lambda>v.
          ebind (yaml_result (ya_float Y t)) (\<lambda>tvr.
          ebind (yaml_result (ya_float Y v)) (\<lambda>rvr. Inr \<lparr>tr_tvr_db = tvr, tr_rvr_db = rvr\<rparr>)))))"

text \<open>\<open>emplace\<close> keeps the first entry of a repeated key.\<close>

fun parse_transducers :: "'n yaml \<Rightarrow> string \<Rightarrow> ('n \<times> 'n) list \<Rightarrow> (string \<rightharpoonup> transducer_spec) \<Rightarrow>
    load_error + (string \<rightharpoonup> transducer_spec)" where
  "parse_transducers Y src [] lib = Inr lib"
| "parse_transducers Y src ((k, spec) # rest) lib =
    ebind (yaml_result (ya_string Y k)) (\<lambda>tid.
    ebind (parse_transducer Y src tid spec) (\<lambda>ts.
    parse_transducers Y src rest (if tid \<in> dom lib then lib else lib(tid \<mapsto> ts))))"

definition parse_modem :: "'n yaml \<Rightarrow> string \<Rightarrow> (string \<rightharpoonup> transducer_spec) \<Rightarrow> string list \<Rightarrow> nat \<Rightarrow> 'n \<Rightarrow>
    load_error + modem_config" where
  "parse_modem Y src lib seen i m =
    (let fail = Scenario_Load_Error src in
     ebind (required Y m ''id'' (fail (At_Modem_Index i) ''missing required field id'')) (\<lambda>idn.
     ebind (required Y m ''usb_serial'' (fail (At_Modem_Index i) ''missing required field usb_serial'')) (\<lambda>usbn.
     ebind (yaml_result (ya_string Y idn)) (\<lambda>mid.
     ebind (yaml_result (ya_string Y usbn)) (\<lambda>usb.
     if mid \<in> set seen then Inl (fail (At_Modem mid) ''duplicate modem id'') else
     ebind (required Y m ''transducer_id'' (fail (At_Modem mid) ''missing required field transducer_id'')) (\<lambda>trn.
     ebind (yaml_result (ya_string Y trn)) (\<lambda>tr.
     if tr \<notin> dom lib then Inl (fail (At_Modem mid) ''transducer_id is not defined'') else
     ebind (optional Y m ''clock_offset_ppm'' (ya_float Y) 0) (\<lambda>ppm.
     ebind (optional Y m ''velocity_radial_m_s'' (ya_float Y) 0) (\<lambda>v.
     ebind (optional Y m ''acceleration_radial_m_s2'' (ya_float Y) 0) (\<lambda>a.
     if ppm < 0 then Inl (fail (At_Modem mid) ''clock_offset_ppm must be >= 0'') else
     Inr \<lparr>mo_id = mid, mo_usb_serial = usb, mo_transducer_id = tr, mo_clock_offset_ppm = ppm,
          mo_actual_clock_offset_ppm = 0, mo_velocity_radial_m_s = v, mo_acceleration_radial_m_s2 = a\<rparr>))))))))))"

fun parse_modems :: "'n yaml \<Rightarrow> string \<Rightarrow> (string \<rightharpoonup> transducer_spec) \<Rightarrow> string list \<Rightarrow> nat \<Rightarrow> 'n list \<Rightarrow>
    load_error + modem_config list" where
  "parse_modems Y src lib seen i [] = Inr []"
| "parse_modems Y src lib seen i (m # ms) =
    ebind (parse_modem Y src lib seen i m) (\<lambda>mc.
    ebind (parse_modems Y src lib (mo_id mc # seen) (Suc i) ms) (\<lambda>mcs. Inr (mc # mcs)))"

section \<open>Clock offsets\<close>

text \<open>\<open>std::mt19937_64\<close> and \<open>std::normal_distribution<float>\<close>: seeding, a new distribution
  object (which holds no saved value) and one draw of mean zero and the given deviation.\<close>

record 'g normal_source =
  nd_seed :: "u64 \<Rightarrow> 'g"
  nd_new :: "'g \<Rightarrow> 'g"
  nd_draw :: "real \<Rightarrow> 'g \<Rightarrow> real \<times> 'g"

definition kMaxAttempts :: nat where "kMaxAttempts = 1000"

fun draw_attempts :: "'g normal_source \<Rightarrow> real \<Rightarrow> nat \<Rightarrow> 'g \<Rightarrow> real \<times> 'g" where
  "draw_attempts N tolerance 0 g = (0, g)"
| "draw_attempts N tolerance (Suc n) g =
    (let (x, g') = nd_draw N tolerance g
     in if \<bar>x\<bar> \<le> tolerance then (x, g') else draw_attempts N tolerance n g')"

definition draw_truncated_normal_ppm :: "'g normal_source \<Rightarrow> real \<Rightarrow> 'g \<Rightarrow> real \<times> 'g" where
  "draw_truncated_normal_ppm N tolerance g =
    (if tolerance \<le> 0 then (0, g) else draw_attempts N tolerance kMaxAttempts (nd_new N g))"

fun sample_offsets :: "'g normal_source \<Rightarrow> modem_config list \<Rightarrow> 'g \<Rightarrow> modem_config list" where
  "sample_offsets N [] g = []"
| "sample_offsets N (mc # mcs) g =
    (let (x, g') = draw_truncated_normal_ppm N (mo_clock_offset_ppm mc) g
     in mc\<lparr>mo_actual_clock_offset_ppm := x\<rparr> # sample_offsets N mcs g')"

section \<open>Geometry\<close>

definition geometry_fields :: "'n yaml \<Rightarrow> 'n \<Rightarrow> (geometric_scene_config \<Rightarrow> load_error + geometric_scene_config) list" where
  "geometry_fields Y g = [
     set_opt Y g ''water_depth_m'' (ya_float Y) (\<lambda>x r. r\<lparr>ge_water_depth_m := x\<rparr>),
     set_opt Y g ''source_depth_m'' (ya_float Y) (\<lambda>x r. r\<lparr>ge_source_depth_m := x\<rparr>),
     set_opt Y g ''receiver_depth_m'' (ya_float Y) (\<lambda>x r. r\<lparr>ge_receiver_depth_m := x\<rparr>),
     set_opt Y g ''gamma_surface'' (ya_float Y) (\<lambda>x r. r\<lparr>ge_gamma_surface := x\<rparr>),
     set_opt Y g ''gamma_bottom'' (ya_float Y) (\<lambda>x r. r\<lparr>ge_gamma_bottom := x\<rparr>),
     set_opt Y g ''spreading_exponent_k'' (ya_float Y) (\<lambda>x r. r\<lparr>ge_spreading_exponent_k := x\<rparr>),
     set_opt Y g ''enable_direct'' (ya_bool Y) (\<lambda>x r. r\<lparr>ge_enable_direct := x\<rparr>),
     set_opt Y g ''enable_surface'' (ya_bool Y) (\<lambda>x r. r\<lparr>ge_enable_surface := x\<rparr>),
     set_opt Y g ''enable_bottom'' (ya_bool Y) (\<lambda>x r. r\<lparr>ge_enable_bottom := x\<rparr>),
     set_opt Y g ''enable_surface_bottom'' (ya_bool Y) (\<lambda>x r. r\<lparr>ge_enable_surface_bottom := x\<rparr>),
     set_opt Y g ''enable_bottom_surface'' (ya_bool Y) (\<lambda>x r. r\<lparr>ge_enable_bottom_surface := x\<rparr>),
     set_opt Y g ''max_bounces'' (ya_int Y) (\<lambda>x r. r\<lparr>ge_max_bounces := x\<rparr>),
     set_opt Y g ''r_min_m'' (ya_float Y) (\<lambda>x r. r\<lparr>ge_r_min_m := x\<rparr>),
     set_opt Y g ''r_max_m'' (ya_float Y) (\<lambda>x r. r\<lparr>ge_r_max_m := x\<rparr>)]"

text \<open>The checks, with the range envelope's defaults around \<open>r0\<close> set between them.\<close>

definition geometry_checks :: "(string \<Rightarrow> load_error) \<Rightarrow> real \<Rightarrow> (geometric_scene_config \<Rightarrow> load_error + geometric_scene_config) list" where
  "geometry_checks fail r0 = [
     reject (\<lambda>g. ge_max_bounces g < 0 \<or> kMaxImageOrder < ge_max_bounces g) (fail ''geometry.max_bounces out of range''),
     reject (\<lambda>g. ge_water_depth_m g \<le> 0) (fail ''geometry.water_depth_m must be > 0''),
     reject (\<lambda>g. ge_source_depth_m g \<le> 0 \<or> ge_water_depth_m g \<le> ge_source_depth_m g)
       (fail ''geometry.source_depth_m must lie in (0, water_depth_m)''),
     reject (\<lambda>g. ge_receiver_depth_m g \<le> 0 \<or> ge_water_depth_m g \<le> ge_receiver_depth_m g)
       (fail ''geometry.receiver_depth_m must lie in (0, water_depth_m)''),
     reject (\<lambda>g. ge_spreading_exponent_k g \<le> 0) (fail ''geometry.spreading_exponent_k must be > 0''),
     (\<lambda>g. Inr (if ge_r_min_m g \<le> 0 then g\<lparr>ge_r_min_m := fmul r0 (1/2)\<rparr> else g)),
     (\<lambda>g. Inr (if ge_r_max_m g \<le> 0 then g\<lparr>ge_r_max_m := fmul r0 2\<rparr> else g)),
     reject (\<lambda>g. \<not> (ge_r_min_m g < r0 \<and> r0 < ge_r_max_m g)) (fail ''geometry.r_min_m / r_max_m must bracket R_0 strictly'')]"

definition parse_geometry :: "'n yaml \<Rightarrow> (string \<Rightarrow> load_error) \<Rightarrow> 'n \<Rightarrow> channel_config \<Rightarrow> load_error + channel_config" where
  "parse_geometry Y fail c cc =
    ebind (required Y c ''geometry'' (fail ''mode: geometric requires a geometry block'')) (\<lambda>g.
    ebind (forbid Y c ''multipath_taps'' (fail ''multipath_taps is not allowed with mode: geometric'') cc) (\<lambda>cc.
    let r0 = (if 0 < ch_initial_range_m cc then ch_initial_range_m cc else ch_range_m cc)
    in ebind (chain (geometry_fields Y g @ geometry_checks fail r0) default_geometry)
         (\<lambda>gs. Inr (cc\<lparr>ch_geometry := gs\<rparr>))))"

section \<open>Replay\<close>

text \<open>POSIX paths of \<open>std::filesystem\<close>.\<close>

definition path_is_relative :: "string \<Rightarrow> bool" where
  "path_is_relative p \<longleftrightarrow> p = [] \<or> hd p \<noteq> CHR ''/''"

definition path_join :: "string \<Rightarrow> string \<Rightarrow> string" where
  "path_join base p = (if last base = CHR ''/'' then base @ p else base @ ''/'' @ p)"

definition parent_path :: "string \<Rightarrow> string" where
  "parent_path p = (let d = rev (dropWhile (\<lambda>c. c = CHR ''/'') (dropWhile (\<lambda>c. c \<noteq> CHR ''/'') (rev p)))
     in if d = [] \<and> \<not> path_is_relative p then ''/'' else d)"

definition resolve_path :: "string \<Rightarrow> string \<Rightarrow> string" where
  "resolve_path base_dir p = (if path_is_relative p \<and> base_dir \<noteq> [] then path_join base_dir p else p)"

definition check_trajectory :: "files \<Rightarrow> (string \<Rightarrow> load_error) \<Rightarrow> replay_config \<Rightarrow> load_error + replay_config" where
  "check_trajectory fs fail r = (case peek_header fs (rp_trajectory_path r) of
     Inl (Tap_Trajectory_Error path what) \<Rightarrow> Inl (fail (''replay trajectory: '' @ path @ '': '' @ what))
   | Inr _ \<Rightarrow> Inr r)"

definition replay_fields :: "'n yaml \<Rightarrow> files \<Rightarrow> (string \<Rightarrow> load_error) \<Rightarrow> 'n \<Rightarrow> (replay_config \<Rightarrow> load_error + replay_config) list" where
  "replay_fields Y fs fail r = [
       set_checked Y r ''offset_s'' (ya_double Y) (\<lambda>x. x < 0) (fail ''replay.offset_s must be >= 0'')
         (\<lambda>x r. r\<lparr>rp_offset_s := x\<rparr>),
       set_opt Y r ''advance_per_message'' (ya_bool Y) (\<lambda>x r. r\<lparr>rp_advance_per_message := x\<rparr>),
       set_checked Y r ''wrap_if_remaining_lt_s'' (ya_double Y) (\<lambda>x. x < 0)
         (fail ''replay.wrap_if_remaining_lt_s must be >= 0'') (\<lambda>x r. r\<lparr>rp_wrap_if_remaining_lt_s := x\<rparr>),
       check_trajectory fs fail]"

definition parse_replay :: "'n yaml \<Rightarrow> files \<Rightarrow> string \<Rightarrow> (string \<Rightarrow> load_error) \<Rightarrow> 'n \<Rightarrow> channel_config \<Rightarrow> load_error + channel_config" where
  "parse_replay Y fs base_dir fail c cc =
    ebind (required Y c ''replay'' (fail ''mode: replay requires a replay block'')) (\<lambda>r.
    ebind (chain [
       forbid Y c ''multipath_taps'' (fail ''multipath_taps is not allowed with mode: replay''),
       forbid Y c ''geometry'' (fail ''geometry is not allowed with mode: replay''),
       forbid Y c ''initial_range_m'' (fail ''initial_range_m is not allowed with mode: replay'')] cc) (\<lambda>cc.
    ebind (required Y r ''trajectory_file'' (fail ''replay block missing required field trajectory_file'')) (\<lambda>f.
    ebind (yaml_result (ya_string Y f)) (\<lambda>traj.
    ebind (chain (replay_fields Y fs fail r)
     (default_replay\<lparr>rp_trajectory_path := resolve_path base_dir traj\<rparr>)) (\<lambda>rp. Inr (cc\<lparr>ch_replay := rp\<rparr>))))))"

section \<open>Channels\<close>

definition parse_tap :: "'n yaml \<Rightarrow> load_error \<Rightarrow> 'n \<Rightarrow> load_error + multipath_tap" where
  "parse_tap Y e tap =
    ebind (optional Y tap ''delay_s'' (ya_float Y) 0) (\<lambda>delay.
    ebind (optional Y tap ''gain_db'' (ya_float Y) 0) (\<lambda>gain_db.
    ebind (optional Y tap ''phase_deg'' (ya_float Y) 0) (\<lambda>phase_deg.
    if delay < 0 \<or> MAX_MULTIPATH_DELAY_S < delay then Inl e
    else Inr \<lparr>mt_delay_s = delay, mt_gain_linear = fpow10 (fdiv gain_db 20),
                mt_phase_rad = fmul phase_deg (fdiv PI_F 180)\<rparr>)))"

fun parse_taps :: "'n yaml \<Rightarrow> string \<Rightarrow> nat \<Rightarrow> nat \<Rightarrow> 'n list \<Rightarrow> load_error + multipath_tap list" where
  "parse_taps Y src i t [] = Inr []"
| "parse_taps Y src i t (tap # taps) =
    ebind (parse_tap Y (Scenario_Load_Error src (At_Tap i t) ''delay_s outside the channel limit'') tap) (\<lambda>mt.
    ebind (parse_taps Y src i (Suc t) taps) (\<lambda>mts. Inr (mt # mts)))"

definition mode_of :: "string \<Rightarrow> channel_mode" where
  "mode_of s = (if s = ''static'' then Mode_Static else if s = ''geometric'' then Mode_Geometric else Mode_Replay)"

text \<open>The fields up to the mode, for endpoints already checked.\<close>

definition channel_fields :: "'n yaml \<Rightarrow> (string \<Rightarrow> load_error) \<Rightarrow> 'n \<Rightarrow> (channel_config \<Rightarrow> load_error + channel_config) list" where
  "channel_fields Y fail c = [
     set_opt Y c ''range_m'' (ya_float Y) (\<lambda>x r. r\<lparr>ch_range_m := x\<rparr>),
     reject (\<lambda>r. ch_range_m r \<le> 0) (fail ''range_m must be > 0''),
     set_opt Y c ''gain_db'' (ya_float Y) (\<lambda>x r. r\<lparr>ch_gain_db := x\<rparr>),
     set_checked Y c ''rx_atten_idx'' (ya_int Y) (\<lambda>x. x < 0 \<or> 1 < x) (fail ''rx_atten_idx must be 0 or 1'')
       (\<lambda>x r. r\<lparr>ch_rx_atten_idx := nat x\<rparr>),
     set_opt Y c ''direct_los'' (ya_bool Y) (\<lambda>x r. r\<lparr>ch_direct_los := x\<rparr>),
     set_checked Y c ''propagation_delay_s'' (ya_float Y) (\<lambda>x. x < 0) (fail ''propagation_delay_s must be >= 0'')
       (\<lambda>x r. r\<lparr>ch_propagation_delay_s := x\<rparr>),
     set_checked Y c ''initial_range_m'' (ya_float Y) (\<lambda>x. x \<le> 0) (fail ''initial_range_m must be > 0'')
       (\<lambda>x r. r\<lparr>ch_initial_range_m := x\<rparr>),
     set_checked Y c ''mode'' (ya_string Y) (\<lambda>s. s \<notin> {''static'', ''geometric'', ''replay''})
       (fail ''mode must be static, geometric, or replay'') (\<lambda>s r. r\<lparr>ch_mode := mode_of s\<rparr>)]"

text \<open>The last modem of a name wins the search, as in the code's loop.\<close>

definition find_modem :: "string \<Rightarrow> modem_config list \<Rightarrow> modem_config option" where
  "find_modem name modems = foldl (\<lambda>found mc. if mo_id mc = name then Some mc else found) None modems"

definition inherit :: "environment_config \<Rightarrow> modem_config option \<Rightarrow> channel_config \<Rightarrow> channel_config" where
  "inherit env src cc =
    (let cc = cc\<lparr>ch_spreading_factor := en_spreading_factor env, ch_saltwater := en_saltwater env,
         ch_sound_speed_m_s := en_sound_speed_m_s env\<rparr>
     in case src of None \<Rightarrow> cc
        | Some mc \<Rightarrow> cc\<lparr>ch_velocity_radial_m_s := mo_velocity_radial_m_s mc,
            ch_acceleration_radial_m_s2 := mo_acceleration_radial_m_s2 mc\<rparr>)"

definition relative_clock :: "modem_config option \<Rightarrow> modem_config option \<Rightarrow> channel_config \<Rightarrow> channel_config" where
  "relative_clock src rx cc = (case (src, rx) of
     (Some s, Some r) \<Rightarrow> cc\<lparr>ch_clock_offset_ppm := fsub (mo_actual_clock_offset_ppm s) (mo_actual_clock_offset_ppm r)\<rparr>
   | _ \<Rightarrow> cc)"

definition static_taps :: "'n yaml \<Rightarrow> string \<Rightarrow> nat \<Rightarrow> 'n \<Rightarrow> channel_config \<Rightarrow> load_error + channel_config" where
  "static_taps Y src i c cc =
    (let fail = Scenario_Load_Error src (At_Channel i) in
     if ch_mode cc \<noteq> Mode_Static then Inr cc
     else ebind (child Y c ''multipath_taps'') (\<lambda>v. case v of
       Some ts \<Rightarrow>
         if \<not> ya_is_sequence Y ts then Inl (fail ''multipath_taps must be a sequence'')
         else if MAX_TAPS_PER_CHANNEL < length (ya_items Y ts) then Inl (fail ''too many taps'')
         else ebind (parse_taps Y src i 0 (ya_items Y ts)) (\<lambda>mts.
           if \<not> ch_direct_los cc \<and> (\<exists>mt \<in> set mts. mt_delay_s mt = 0)
           then Inl (fail ''has direct_los: false but a zero-delay tap was specified'')
           else Inr (cc\<lparr>ch_multipath_taps := mts\<rparr>))
     | None \<Rightarrow>
         if ch_direct_los cc
         then Inr (cc\<lparr>ch_multipath_taps := [\<lparr>mt_delay_s = 0, mt_gain_linear = 1, mt_phase_rad = 0\<rparr>]\<rparr>)
         else Inl (fail ''has direct_los: false and no multipath_taps'')))"

definition finish_channel :: "'n yaml \<Rightarrow> files \<Rightarrow> string \<Rightarrow> string \<Rightarrow> environment_config \<Rightarrow> modem_config list \<Rightarrow> nat \<Rightarrow> 'n \<Rightarrow>
    channel_config \<Rightarrow> load_error + channel_config" where
  "finish_channel Y fs base_dir src env modems i c cc =
    (let fail = Scenario_Load_Error src (At_Channel i) in
     ebind (if ch_mode cc = Mode_Geometric then parse_geometry Y fail c cc else Inr cc) (\<lambda>cc.
     ebind (if ch_mode cc = Mode_Replay then parse_replay Y fs base_dir fail c cc else Inr cc) (\<lambda>cc.
     let s = find_modem (ch_from_modem cc) modems; r = find_modem (ch_to_modem cc) modems; cc = inherit env s cc
     in if ch_mode cc = Mode_Replay \<and> (ch_velocity_radial_m_s cc \<noteq> 0 \<or> ch_acceleration_radial_m_s2 cc \<noteq> 0)
        then Inl (fail ''motion in a replay channel comes from the recorded trajectory'')
        else static_taps Y src i c (relative_clock s r cc))))"

definition parse_channel :: "'n yaml \<Rightarrow> files \<Rightarrow> string \<Rightarrow> string \<Rightarrow> environment_config \<Rightarrow> modem_config list \<Rightarrow> nat \<Rightarrow> 'n \<Rightarrow>
    load_error + channel_config" where
  "parse_channel Y fs base_dir src env modems i c =
    (let fail = Scenario_Load_Error src (At_Channel i); ids = map mo_id modems in
     ebind (required Y c ''from'' (fail ''missing required field from'')) (\<lambda>fn.
     ebind (required Y c ''to'' (fail ''missing required field to'')) (\<lambda>tn.
     ebind (yaml_result (ya_string Y fn)) (\<lambda>from_m.
     ebind (yaml_result (ya_string Y tn)) (\<lambda>to_m.
     if from_m \<notin> set ids then Inl (fail ''from references unknown modem'')
     else if to_m \<notin> set ids then Inl (fail ''to references unknown modem'')
     else ebind (chain (channel_fields Y fail c) (default_channel\<lparr>ch_from_modem := from_m, ch_to_modem := to_m\<rparr>))
            (finish_channel Y fs base_dir src env modems i c))))))"

fun parse_channels :: "'n yaml \<Rightarrow> files \<Rightarrow> string \<Rightarrow> string \<Rightarrow> environment_config \<Rightarrow> modem_config list \<Rightarrow> nat \<Rightarrow> 'n list \<Rightarrow>
    load_error + channel_config list" where
  "parse_channels Y fs base_dir src env modems i [] = Inr []"
| "parse_channels Y fs base_dir src env modems i (c # cs) =
    ebind (parse_channel Y fs base_dir src env modems i c) (\<lambda>cc.
    ebind (parse_channels Y fs base_dir src env modems (Suc i) cs) (\<lambda>ccs. Inr (cc # ccs)))"

section \<open>Noise and logging\<close>

fun parse_tonals :: "'n yaml \<Rightarrow> 'n list \<Rightarrow> load_error + tonal_source list" where
  "parse_tonals Y [] = Inr []"
| "parse_tonals Y (t # ts) =
    ebind (optional Y t ''frequency_hz'' (ya_float Y) 0) (\<lambda>f.
    ebind (optional Y t ''amplitude_linear'' (ya_float Y) 0) (\<lambda>a.
    ebind (optional Y t ''bandwidth_hz'' (ya_float Y) 0) (\<lambda>b.
    ebind (parse_tonals Y ts) (\<lambda>rest. Inr (\<lparr>ts_frequency_hz = f, ts_amplitude_linear = a, ts_bandwidth_hz = b\<rparr> # rest)))))"

definition parse_noise :: "'n yaml \<Rightarrow> string \<Rightarrow> environment_config \<Rightarrow> 'n \<Rightarrow> load_error + noise_settings" where
  "parse_noise Y src env n =
    ebind (chain [
       set_opt Y n ''wenz_sea_state'' (ya_int Y) (\<lambda>x r. r\<lparr>ns_wenz_sea_state := x\<rparr>),
       forbid Y n ''level_above_noise_floor_db''
         (Scenario_Load_Error src At_Root ''noise.level_above_noise_floor_db is not accepted''),
       set_opt Y n ''min_margin_above_afe_db'' (ya_float Y) (\<lambda>x r. r\<lparr>ns_min_margin_above_afe_db := x\<rparr>),
       set_opt Y n ''disable'' (ya_bool Y) (\<lambda>x r. r\<lparr>ns_disable := x\<rparr>),
       set_opt Y n ''saltwater'' (ya_bool Y) (\<lambda>x r. r\<lparr>ns_saltwater := x\<rparr>)]
      (default_noise\<lparr>ns_saltwater := en_saltwater env\<rparr>)) (\<lambda>r.
    ebind (child Y n ''tonal_sources'') (\<lambda>v. case v of
        Some ts \<Rightarrow> if ya_is_sequence Y ts
          then ebind (parse_tonals Y (ya_items Y ts)) (\<lambda>tones. Inr (r\<lparr>ns_tonal_sources := tones\<rparr>)) else Inr r
      | None \<Rightarrow> Inr r))"

definition parse_logging :: "'n yaml \<Rightarrow> 'n \<Rightarrow> load_error + logging_config" where
  "parse_logging Y l = chain [
     set_opt Y l ''log_raw_tx'' (ya_bool Y) (\<lambda>x r. r\<lparr>lo_log_raw_tx := x\<rparr>),
     set_opt Y l ''log_raw_rx'' (ya_bool Y) (\<lambda>x r. r\<lparr>lo_log_raw_rx := x\<rparr>),
     set_opt Y l ''log_processed'' (ya_bool Y) (\<lambda>x r. r\<lparr>lo_log_processed := x\<rparr>),
     set_opt Y l ''output_directory'' (ya_string Y) (\<lambda>x r. r\<lparr>lo_output_directory := x\<rparr>),
     set_opt Y l ''file_format'' (ya_string Y) (\<lambda>x r. r\<lparr>lo_file_format := x\<rparr>),
     set_opt Y l ''log_processing_time_histogram'' (ya_bool Y) (\<lambda>x r. r\<lparr>lo_log_processing_time_histogram := x\<rparr>),
     set_opt Y l ''log_message_events'' (ya_bool Y) (\<lambda>x r. r\<lparr>lo_log_message_events := x\<rparr>),
     set_opt Y l ''run_summary_path'' (ya_string Y) (\<lambda>x r. r\<lparr>lo_run_summary_path := x\<rparr>)] default_logging"

section \<open>The whole file\<close>

text \<open>An optional section keeps its default when absent.\<close>

definition parse_section :: "'n yaml \<Rightarrow> 'n \<Rightarrow> string \<Rightarrow> ('n \<Rightarrow> load_error + 'a) \<Rightarrow> 'a \<Rightarrow> load_error + 'a" where
  "parse_section Y n key p d = ebind (child Y n key) (\<lambda>v. case v of None \<Rightarrow> Inr d | Some v \<Rightarrow> p v)"

definition parse_transducer_library :: "'n yaml \<Rightarrow> string \<Rightarrow> 'n \<Rightarrow> load_error + (string \<rightharpoonup> transducer_spec)" where
  "parse_transducer_library Y src t =
    (if \<not> ya_is_map Y t then Inl (Scenario_Load_Error src At_Root ''transducers must be a mapping'')
     else parse_transducers Y src (ya_entries Y t) Map.empty)"

definition parse_scenario :: "'n yaml \<Rightarrow> 'g normal_source \<Rightarrow> files \<Rightarrow> 'n \<Rightarrow> string \<Rightarrow> string \<Rightarrow> load_error + scenario_config" where
  "parse_scenario Y N fs doc src base_dir =
    (let fail = Scenario_Load_Error src At_Root in
     if \<not> ya_is_map Y doc then Inl (fail ''root node must be a YAML mapping'') else
     ebind (required Y doc ''name'' (fail ''missing required field name'')) (\<lambda>nn.
     ebind (yaml_result (ya_string Y nn)) (\<lambda>name.
     ebind (optional Y doc ''description'' (ya_string Y) []) (\<lambda>descr.
     ebind (optional Y doc ''random_seed'' (ya_uint64 Y) 12345) (\<lambda>seed.
     ebind (parse_section Y doc ''environment'' (parse_environment Y src) default_environment) (\<lambda>env.
     ebind (parse_section Y doc ''transducers'' (parse_transducer_library Y src) Map.empty) (\<lambda>lib.
     ebind (required Y doc ''modems'' (fail ''missing required section modems'')) (\<lambda>mn.
     if \<not> ya_is_sequence Y mn \<or> length (ya_items Y mn) = 0 then Inl (fail ''modems must be a non-empty sequence'')
     else if MAX_MODEMS < length (ya_items Y mn) then Inl (fail ''too many modems'') else
     ebind (parse_modems Y src lib [] 0 (ya_items Y mn)) (\<lambda>mcs.
     let modems = sample_offsets N mcs (nd_seed N seed) in
     ebind (required Y doc ''channels'' (fail ''missing required section channels'')) (\<lambda>cn.
     if \<not> ya_is_sequence Y cn \<or> length (ya_items Y cn) = 0 then Inl (fail ''channels must be a non-empty sequence'') else
     ebind (parse_channels Y fs base_dir src env modems 0 (ya_items Y cn)) (\<lambda>channels.
     ebind (parse_section Y doc ''noise'' (parse_noise Y src env) default_noise) (\<lambda>noise.
     ebind (parse_section Y doc ''logging'' (parse_logging Y) default_logging) (\<lambda>logging.
     Inr \<lparr>sc_name = name, sc_description = descr, sc_environment = env, sc_noise = noise, sc_transducers = lib,
          sc_modems = modems, sc_channels = channels, sc_logging = logging, sc_random_seed = seed\<rparr>)))))))))))))"

definition load_scenario :: "'n yaml \<Rightarrow> 'g normal_source \<Rightarrow> files \<Rightarrow> (string \<Rightarrow> string + 'n) \<Rightarrow> string \<Rightarrow> load_error + scenario_config" where
  "load_scenario Y N fs load_file filepath = (case load_file filepath of
     Inl what \<Rightarrow> Inl (Scenario_Load_Error filepath At_Root (''YAML parse error: '' @ what))
   | Inr doc \<Rightarrow> parse_scenario Y N fs doc filepath (parent_path filepath))"

definition load_from_string :: "'n yaml \<Rightarrow> 'g normal_source \<Rightarrow> files \<Rightarrow> (string \<Rightarrow> string + 'n) \<Rightarrow> string \<Rightarrow> load_error + scenario_config" where
  "load_from_string Y N fs load_text yaml_text = (case load_text yaml_text of
     Inl what \<Rightarrow> Inl (Scenario_Load_Error ''<string>'' At_Root (''YAML parse error: '' @ what))
   | Inr doc \<Rightarrow> parse_scenario Y N fs doc ''<string>'' [])"

section \<open>What an accepted scenario satisfies\<close>

definition geometry_ok :: "real \<Rightarrow> geometric_scene_config \<Rightarrow> bool" where
  "geometry_ok r0 g \<longleftrightarrow> 0 \<le> ge_max_bounces g \<and> ge_max_bounces g \<le> kMaxImageOrder \<and>
     0 < ge_source_depth_m g \<and> ge_source_depth_m g < ge_water_depth_m g \<and>
     0 < ge_receiver_depth_m g \<and> ge_receiver_depth_m g < ge_water_depth_m g \<and>
     0 < ge_spreading_exponent_k g \<and> ge_r_min_m g < r0 \<and> r0 < ge_r_max_m g"

definition start_range :: "channel_config \<Rightarrow> real" where
  "start_range c = (if 0 < ch_initial_range_m c then ch_initial_range_m c else ch_range_m c)"

definition channel_basic :: "string list \<Rightarrow> channel_config \<Rightarrow> bool" where
  "channel_basic ids c \<longleftrightarrow> ch_from_modem c \<in> set ids \<and> ch_to_modem c \<in> set ids \<and>
     ch_rx_atten_idx c \<le> 1 \<and> (ch_propagation_delay_s c = -1 \<or> 0 \<le> ch_propagation_delay_s c) \<and>
     (ch_initial_range_m c = -1 \<or> 0 < ch_initial_range_m c) \<and> ch_multipath_taps c = [] \<and>
     ch_clock_offset_ppm c = 0 \<and> ch_replay c = default_replay"

definition channel_ok :: "files \<Rightarrow> environment_config \<Rightarrow> string list \<Rightarrow> channel_config \<Rightarrow> bool" where
  "channel_ok fs env ids c \<longleftrightarrow>
     ch_from_modem c \<in> set ids \<and> ch_to_modem c \<in> set ids \<and> 0 < ch_range_m c \<and> ch_rx_atten_idx c \<le> 1 \<and>
     (ch_propagation_delay_s c = -1 \<or> 0 \<le> ch_propagation_delay_s c) \<and>
     ch_spreading_factor c = en_spreading_factor env \<and> ch_saltwater c = en_saltwater env \<and>
     ch_sound_speed_m_s c = en_sound_speed_m_s env \<and>
     (ch_from_modem c = ch_to_modem c \<longrightarrow> ch_clock_offset_ppm c = 0) \<and>
     (case ch_mode c of
        Mode_Static \<Rightarrow> length (ch_multipath_taps c) \<le> MAX_TAPS_PER_CHANNEL \<and>
          (\<forall>mt \<in> set (ch_multipath_taps c). 0 \<le> mt_delay_s mt \<and> mt_delay_s mt \<le> MAX_MULTIPATH_DELAY_S \<and>
             (\<not> ch_direct_los c \<longrightarrow> 0 < mt_delay_s mt))
      | Mode_Geometric \<Rightarrow> ch_multipath_taps c = [] \<and> geometry_ok (start_range c) (ch_geometry c)
      | Mode_Replay \<Rightarrow> ch_multipath_taps c = [] \<and> 0 \<le> rp_offset_s (ch_replay c) \<and>
          0 \<le> rp_wrap_if_remaining_lt_s (ch_replay c) \<and> ch_velocity_radial_m_s c = 0 \<and>
          ch_acceleration_radial_m_s2 c = 0 \<and> (\<exists>h. peek_header fs (rp_trajectory_path (ch_replay c)) = Inr h))"

definition scenario_ok :: "files \<Rightarrow> scenario_config \<Rightarrow> bool" where
  "scenario_ok fs cfg \<longleftrightarrow>
     1 \<le> length (sc_modems cfg) \<and> length (sc_modems cfg) \<le> MAX_MODEMS \<and> distinct (map mo_id (sc_modems cfg)) \<and>
     (\<forall>mc \<in> set (sc_modems cfg). mo_transducer_id mc \<in> dom (sc_transducers cfg) \<and>
        \<bar>mo_actual_clock_offset_ppm mc\<bar> \<le> mo_clock_offset_ppm mc) \<and>
     sc_channels cfg \<noteq> [] \<and>
     (\<forall>c \<in> set (sc_channels cfg). channel_ok fs (sc_environment cfg) (map mo_id (sc_modems cfg)) c)"

lemma chain_invariant:
  assumes "\<And>f r r'. f \<in> set fs \<Longrightarrow> P r \<Longrightarrow> f r = Inr r' \<Longrightarrow> P r'" and "P r" and "chain fs r = Inr r'"
  shows "P r'"
  using assms
proof (induction fs arbitrary: r)
  case (Cons f fs)
  then obtain r1 where "f r = Inr r1" "chain fs r1 = Inr r'" by auto
  with Cons show ?case by (metis list.set_intros)
qed simp

lemma parse_modem_ok:
  assumes "parse_modem Y src lib seen i m = Inr mc"
  shows "mo_id mc \<notin> set seen" "mo_transducer_id mc \<in> dom lib" "0 \<le> mo_clock_offset_ppm mc"
  using assms by (auto simp: parse_modem_def Let_def split: if_splits)

lemma parse_modems_ok:
  "parse_modems Y src lib seen i ms = Inr mcs \<Longrightarrow> length mcs = length ms \<and> distinct (map mo_id mcs) \<and>
     set (map mo_id mcs) \<inter> set seen = {} \<and>
     (\<forall>mc \<in> set mcs. mo_transducer_id mc \<in> dom lib \<and> 0 \<le> mo_clock_offset_ppm mc)"
proof (induction ms arbitrary: seen i mcs)
  case (Cons m ms)
  then obtain mc mcs' where p: "parse_modem Y src lib seen i m = Inr mc"
    "parse_modems Y src lib (mo_id mc # seen) (Suc i) ms = Inr mcs'" "mcs = mc # mcs'" by auto
  from Cons.IH [OF p(2)] parse_modem_ok [OF p(1)] p(3) show ?case by auto
qed simp

lemma draw_truncated_bound: "0 \<le> tol \<Longrightarrow> \<bar>fst (draw_truncated_normal_ppm N tol g)\<bar> \<le> tol"
proof -
  assume t: "0 \<le> tol"
  have "\<bar>fst (draw_attempts N tol n g)\<bar> \<le> tol" for n g
    by (induction n arbitrary: g) (use t in \<open>auto split: prod.splits\<close>)
  with t show ?thesis by (simp add: draw_truncated_normal_ppm_def)
qed

lemma sample_offsets_ok:
  "map mo_id (sample_offsets N mcs g) = map mo_id mcs \<and>
   ((\<forall>mc \<in> set mcs. mo_transducer_id mc \<in> D \<and> 0 \<le> mo_clock_offset_ppm mc) \<longrightarrow>
    (\<forall>mc \<in> set (sample_offsets N mcs g). mo_transducer_id mc \<in> D \<and>
       \<bar>mo_actual_clock_offset_ppm mc\<bar> \<le> mo_clock_offset_ppm mc))"
proof (induction mcs arbitrary: g)
  case (Cons mc mcs)
  obtain x g' where d: "draw_truncated_normal_ppm N (mo_clock_offset_ppm mc) g = (x, g')" by fastforce
  with draw_truncated_bound [of "mo_clock_offset_ppm mc" N g] Cons.IH [of g'] show ?case by auto
qed simp

lemma parse_geometry_ok:
  assumes "parse_geometry Y fail c cc = Inr cc'"
  shows "\<exists>g. cc' = cc\<lparr>ch_geometry := g\<rparr> \<and> geometry_ok (start_range cc) g"
proof -
  obtain g gs where gs: "chain (geometry_fields Y g @ geometry_checks fail (start_range cc)) default_geometry = Inr gs"
    "cc' = cc\<lparr>ch_geometry := gs\<rparr>"
    using assms by (auto simp: parse_geometry_def start_range_def Let_def)
  obtain g0 where "chain (geometry_checks fail (start_range cc)) g0 = Inr gs" using gs(1) by (auto simp: chain_append)
  then have "geometry_ok (start_range cc) gs"
    by (auto simp: geometry_checks_def geometry_ok_def not_less not_le)
  with gs(2) show ?thesis by blast
qed

lemma check_trajectory_Inr: "check_trajectory fs fail r = Inr r' \<longleftrightarrow> r' = r \<and> (\<exists>h. peek_header fs (rp_trajectory_path r) = Inr h)"
  by (auto simp: check_trajectory_def split: sum.splits tap_error.splits)

lemma parse_replay_ok:
  assumes "parse_replay Y fs base_dir fail c cc = Inr cc'"
  shows "\<exists>r h. cc' = cc\<lparr>ch_replay := r\<rparr> \<and> 0 \<le> rp_offset_s r \<and> 0 \<le> rp_wrap_if_remaining_lt_s r \<and>
    peek_header fs (rp_trajectory_path r) = Inr h"
proof -
  obtain n traj rp where rp: "chain (replay_fields Y fs fail n) (default_replay\<lparr>rp_trajectory_path := traj\<rparr>) = Inr rp"
      "cc' = cc\<lparr>ch_replay := rp\<rparr>"
    using assms by (auto simp: parse_replay_def)
  let ?P = "\<lambda>r. 0 \<le> rp_offset_s r \<and> 0 \<le> rp_wrap_if_remaining_lt_s r"
  have "?P rp"
    by (rule chain_invariant [OF _ _ rp(1)])
      (auto simp: replay_fields_def default_replay_def check_trajectory_Inr dest!: set_checked_Inr set_opt_Inr)
  moreover have "\<exists>h. peek_header fs (rp_trajectory_path rp) = Inr h" using rp(1) by (auto simp: replay_fields_def check_trajectory_Inr)
  ultimately show ?thesis using rp(2) by blast
qed

lemma channel_fields_ok:
  assumes "chain (channel_fields Y fail c) cc0 = Inr cc" and "channel_basic ids cc0"
  shows "channel_basic ids cc" "0 < ch_range_m cc" "ch_from_modem cc = ch_from_modem cc0" "ch_to_modem cc = ch_to_modem cc0"
proof -
  let ?P = "\<lambda>r. channel_basic ids r \<and> ch_from_modem r = ch_from_modem cc0 \<and> ch_to_modem r = ch_to_modem cc0"
  have "?P cc"
    by (rule chain_invariant [OF _ _ assms(1)], auto simp: channel_fields_def dest!: set_checked_Inr set_opt_Inr)
      (use assms(2) in \<open>auto simp: channel_basic_def\<close>)
  then show "channel_basic ids cc" "ch_from_modem cc = ch_from_modem cc0" "ch_to_modem cc = ch_to_modem cc0" by blast+
  obtain cc2 where cc2: "0 < ch_range_m cc2" "chain (drop 2 (channel_fields Y fail c)) cc2 = Inr cc"
  proof -
    have "chain (take 2 (channel_fields Y fail c) @ drop 2 (channel_fields Y fail c)) cc0 = Inr cc" using assms(1) by simp
    then obtain cc2 where c2: "chain (take 2 (channel_fields Y fail c)) cc0 = Inr cc2"
      "chain (drop 2 (channel_fields Y fail c)) cc2 = Inr cc" unfolding chain_append ebind_Inr by blast
    from c2(1) have "0 < ch_range_m cc2" by (auto simp: channel_fields_def not_le)
    with c2(2) that show thesis by blast
  qed
  show "0 < ch_range_m cc"
    by (rule chain_invariant [where P = "\<lambda>r. 0 < ch_range_m r", OF _ cc2])
      (auto simp: channel_fields_def dest!: set_checked_Inr set_opt_Inr)
qed

lemma parse_taps_ok:
  "parse_taps Y src i t ts = Inr mts \<Longrightarrow> length mts = length ts \<and>
     (\<forall>mt \<in> set mts. 0 \<le> mt_delay_s mt \<and> mt_delay_s mt \<le> MAX_MULTIPATH_DELAY_S)"
proof (induction ts arbitrary: t mts)
  case (Cons tap ts)
  then obtain mt mts' where p: "parse_tap Y (Scenario_Load_Error src (At_Tap i t) ''delay_s outside the channel limit'') tap = Inr mt"
    "parse_taps Y src i (Suc t) ts = Inr mts'" "mts = mt # mts'" by auto
  from p(1) have "0 \<le> mt_delay_s mt \<and> mt_delay_s mt \<le> MAX_MULTIPATH_DELAY_S"
    by (auto simp: parse_tap_def split: if_splits)
  with Cons.IH [OF p(2)] p(3) show ?case by simp
qed simp

definition static_taps_ok :: "channel_config \<Rightarrow> bool" where
  "static_taps_ok c \<longleftrightarrow> length (ch_multipath_taps c) \<le> MAX_TAPS_PER_CHANNEL \<and>
     (\<forall>mt \<in> set (ch_multipath_taps c). 0 \<le> mt_delay_s mt \<and> mt_delay_s mt \<le> MAX_MULTIPATH_DELAY_S \<and>
        (\<not> ch_direct_los c \<longrightarrow> 0 < mt_delay_s mt))"

lemma static_taps_ok:
  assumes "static_taps Y src i c cc = Inr cc'"
  shows "if ch_mode cc = Mode_Static then \<exists>ts. cc' = cc\<lparr>ch_multipath_taps := ts\<rparr> \<and> static_taps_ok cc' else cc' = cc"
proof (cases "ch_mode cc = Mode_Static")
  case False
  with assms show ?thesis by (simp add: static_taps_def)
next
  case True
  obtain v where v: "ya_child Y c ''multipath_taps'' = Inr v" using assms True
    by (cases "ya_child Y c ''multipath_taps''") (auto simp: static_taps_def child_def Let_def yaml_result_def Let_def)
  show ?thesis
  proof (cases v)
    case None
    with assms True v show ?thesis
      by (auto simp: static_taps_def child_def Let_def static_taps_ok_def MAX_TAPS_PER_CHANNEL_def MAX_MULTIPATH_DELAY_S_def split: if_splits)
  next
    case (Some ts)
    with assms True v obtain mts where m: "parse_taps Y src i 0 (ya_items Y ts) = Inr mts"
      "length (ya_items Y ts) \<le> MAX_TAPS_PER_CHANNEL" "ch_direct_los cc \<or> (\<forall>mt \<in> set mts. mt_delay_s mt \<noteq> 0)"
      "cc' = cc\<lparr>ch_multipath_taps := mts\<rparr>"
      by (auto simp: static_taps_def child_def Let_def split: if_splits)
    with parse_taps_ok [OF m(1)] True show ?thesis by (auto simp: static_taps_ok_def less_le)
  qed
qed

lemma inherit_fields:
  "ch_from_modem (inherit env s c) = ch_from_modem c" "ch_to_modem (inherit env s c) = ch_to_modem c"
  "ch_range_m (inherit env s c) = ch_range_m c" "ch_rx_atten_idx (inherit env s c) = ch_rx_atten_idx c"
  "ch_propagation_delay_s (inherit env s c) = ch_propagation_delay_s c" "ch_mode (inherit env s c) = ch_mode c"
  "ch_initial_range_m (inherit env s c) = ch_initial_range_m c" "ch_geometry (inherit env s c) = ch_geometry c"
  "ch_replay (inherit env s c) = ch_replay c" "ch_multipath_taps (inherit env s c) = ch_multipath_taps c"
  "ch_clock_offset_ppm (inherit env s c) = ch_clock_offset_ppm c"
  "ch_spreading_factor (inherit env s c) = en_spreading_factor env" "ch_saltwater (inherit env s c) = en_saltwater env"
  "ch_sound_speed_m_s (inherit env s c) = en_sound_speed_m_s env"
  by (simp_all add: inherit_def Let_def split: option.splits)

lemma relative_clock_fields:
  "\<exists>x. relative_clock s r c = c\<lparr>ch_clock_offset_ppm := x\<rparr> \<and> (s = r \<and> ch_clock_offset_ppm c = 0 \<longrightarrow> x = 0)"
proof (cases "s = None \<or> r = None")
  case True
  then have "relative_clock s r c = c\<lparr>ch_clock_offset_ppm := ch_clock_offset_ppm c\<rparr>"
    by (auto simp: relative_clock_def split: option.splits)
  then show ?thesis by blast
next
  case False
  then show ?thesis by (auto simp: relative_clock_def)
qed

lemma finish_channel_ok:
  assumes "finish_channel Y fs base_dir src env modems i c c1 = Inr cc"
    and "channel_basic (map mo_id modems) c1" and "0 < ch_range_m c1"
  shows "channel_ok fs env (map mo_id modems) cc"
proof -
  let ?fail = "Scenario_Load_Error src (At_Channel i)"
  obtain c2 c3 where p2: "(if ch_mode c1 = Mode_Geometric then parse_geometry Y ?fail c c1 else Inr c1) = Inr c2"
    and p3: "(if ch_mode c2 = Mode_Replay then parse_replay Y fs base_dir ?fail c c2 else Inr c2) = Inr c3"
    and rest: "(if ch_mode (inherit env (find_modem (ch_from_modem c3) modems) c3) = Mode_Replay \<and>
        (ch_velocity_radial_m_s (inherit env (find_modem (ch_from_modem c3) modems) c3) \<noteq> 0 \<or>
         ch_acceleration_radial_m_s2 (inherit env (find_modem (ch_from_modem c3) modems) c3) \<noteq> 0)
      then Inl (?fail ''motion in a replay channel comes from the recorded trajectory'')
      else static_taps Y src i c (relative_clock (find_modem (ch_from_modem c3) modems) (find_modem (ch_to_modem c3) modems)
        (inherit env (find_modem (ch_from_modem c3) modems) c3))) = Inr cc"
    using assms(1) unfolding finish_channel_def Let_def ebind_Inr by blast
  let ?i = "inherit env (find_modem (ch_from_modem c3) modems) c3"
  obtain g where c2: "c2 = (if ch_mode c1 = Mode_Geometric then c1\<lparr>ch_geometry := g\<rparr> else c1)"
    and g: "ch_mode c1 = Mode_Geometric \<Longrightarrow> geometry_ok (start_range c1) g"
    using p2 parse_geometry_ok [of Y ?fail c c1 c2] by (cases "ch_mode c1 = Mode_Geometric") auto
  have m2: "ch_mode c2 = ch_mode c1" using c2 by simp
  obtain r where c3: "c3 = (if ch_mode c1 = Mode_Replay then c2\<lparr>ch_replay := r\<rparr> else c2)"
    and r: "ch_mode c1 = Mode_Replay \<Longrightarrow> 0 \<le> rp_offset_s r \<and> 0 \<le> rp_wrap_if_remaining_lt_s r \<and>
      (\<exists>h. peek_header fs (rp_trajectory_path r) = Inr h)"
    using p3 parse_replay_ok [of Y fs base_dir ?fail c c2 c3] m2 by (cases "ch_mode c1 = Mode_Replay") auto
  have b3: "channel_basic (map mo_id modems) (c3\<lparr>ch_replay := default_replay\<rparr>)" "0 < ch_range_m c3" "ch_mode c3 = ch_mode c1"
      "start_range c3 = start_range c1"
    using assms(2,3) c2 c3 by (auto simp: channel_basic_def start_range_def)
  obtain x where x: "relative_clock (find_modem (ch_from_modem c3) modems) (find_modem (ch_to_modem c3) modems) ?i =
      ?i\<lparr>ch_clock_offset_ppm := x\<rparr>" "ch_from_modem c3 = ch_to_modem c3 \<longrightarrow> x = 0"
  proof -
    have "ch_clock_offset_ppm ?i = 0" using b3(1) by (simp add: inherit_fields channel_basic_def)
    then show thesis using that
        relative_clock_fields [of "find_modem (ch_from_modem c3) modems" "find_modem (ch_to_modem c3) modems" ?i]
      by metis
  qed
  have motion: "ch_mode c1 = Mode_Replay \<Longrightarrow> ch_velocity_radial_m_s ?i = 0 \<and> ch_acceleration_radial_m_s2 ?i = 0"
    using rest b3(3) by (auto simp: inherit_fields split: if_splits)
  have st: "static_taps Y src i c (?i\<lparr>ch_clock_offset_ppm := x\<rparr>) = Inr cc"
    using rest x(1) by (auto split: if_splits)
  have fin: "channel_ok fs env (map mo_id modems) cc"
    if "ch_mode c1 = Mode_Static" "cc = ?i\<lparr>ch_clock_offset_ppm := x, ch_multipath_taps := ts\<rparr>" "static_taps_ok cc" for ts
    using that b3 x(2) by (auto simp: channel_ok_def channel_basic_def static_taps_ok_def inherit_fields)
  show ?thesis
  proof (cases "ch_mode c1")
    case Mode_Static
    with static_taps_ok [OF st] fin b3(3) show ?thesis by (auto simp: inherit_fields)
  next
    case Mode_Geometric
    with static_taps_ok [OF st] b3(3) have "cc = ?i\<lparr>ch_clock_offset_ppm := x\<rparr>" by (simp add: inherit_fields)
    with Mode_Geometric g b3 x(2) c2 c3 show ?thesis
      by (auto simp: channel_ok_def channel_basic_def inherit_fields start_range_def)
  next
    case Mode_Replay
    with static_taps_ok [OF st] b3(3) have "cc = ?i\<lparr>ch_clock_offset_ppm := x\<rparr>" by (simp add: inherit_fields)
    moreover have "ch_replay c3 = r" using Mode_Replay c3 by simp
    ultimately show ?thesis using Mode_Replay r motion b3 x(2)
      by (auto simp: channel_ok_def channel_basic_def inherit_fields)
  qed
qed

lemma parse_channel_ok:
  assumes "parse_channel Y fs base_dir src env modems i c = Inr cc"
  shows "channel_ok fs env (map mo_id modems) cc"
proof -
  let ?ids = "map mo_id modems"
  obtain a b c1 where ab: "a \<in> set ?ids" "b \<in> set ?ids"
    and p: "chain (channel_fields Y (Scenario_Load_Error src (At_Channel i)) c)
        (default_channel\<lparr>ch_from_modem := a, ch_to_modem := b\<rparr>) = Inr c1"
      "finish_channel Y fs base_dir src env modems i c c1 = Inr cc"
    using assms by (auto simp: parse_channel_def Let_def split: if_splits)
  have "channel_basic ?ids (default_channel\<lparr>ch_from_modem := a, ch_to_modem := b\<rparr>)"
    using ab by (simp add: channel_basic_def default_channel_def)
  from channel_fields_ok(1,2) [OF p(1) this] p(2) show ?thesis by (simp add: finish_channel_ok)
qed

lemma parse_channels_ok:
  "parse_channels Y fs base_dir src env modems i cs = Inr ccs \<Longrightarrow> length ccs = length cs \<and>
     (\<forall>c \<in> set ccs. channel_ok fs env (map mo_id modems) c)"
proof (induction cs arbitrary: i ccs)
  case (Cons c cs)
  then obtain cc ccs' where p: "parse_channel Y fs base_dir src env modems i c = Inr cc"
    "parse_channels Y fs base_dir src env modems (Suc i) cs = Inr ccs'" "ccs = cc # ccs'" by auto
  from Cons.IH [OF p(2)] parse_channel_ok [OF p(1)] p(3) show ?case by simp
qed simp

lemma parse_scenario_ok:
  assumes "parse_scenario Y N fs doc src base_dir = Inr cfg"
  shows "scenario_ok fs cfg"
proof -
  obtain mn cn mcs lib env seed channels where
    m: "length (ya_items Y mn) \<noteq> 0" "length (ya_items Y mn) \<le> MAX_MODEMS" "parse_modems Y src lib [] 0 (ya_items Y mn) = Inr mcs"
    and c: "length (ya_items Y cn) \<noteq> 0" "parse_channels Y fs base_dir src env (sample_offsets N mcs (nd_seed N seed)) 0 (ya_items Y cn) = Inr channels"
    and cfg: "sc_modems cfg = sample_offsets N mcs (nd_seed N seed)" "sc_channels cfg = channels" "sc_transducers cfg = lib"
      "sc_environment cfg = env"
    using assms unfolding parse_scenario_def Let_def
    by (auto split: if_splits)
  note ms = parse_modems_ok [OF m(3)] and cs = parse_channels_ok [OF c(2)]
  note so = sample_offsets_ok [of N mcs "nd_seed N seed" "dom lib"]
  have len: "length (sample_offsets N mcs g) = length mcs" for g
    using arg_cong [OF conjunct1 [OF sample_offsets_ok [of N mcs g UNIV]], of length] by simp
  show ?thesis
    unfolding scenario_ok_def cfg using ms cs so m(1,2) c(1) len by (auto simp: Suc_le_eq)
qed

text \<open>C24: A scenario that loads is well formed: between one and \<open>MAX_MODEMS\<close> modems with
  distinct names, each with a known transducer and a drawn clock offset within its tolerance; at
  least one channel; every channel joins known modems at a positive range, inherits the environment,
  has no clock offset against itself, and carries taps, geometry or trajectory that its mode's
  renderer may rely on. Whatever the file holds, loading otherwise returns an error.\<close>

theorem loaded_scenario_is_well_formed:
  assumes "load_scenario Y N fs load_file path = Inr cfg \<or> load_from_string Y N fs load_text text = Inr cfg"
  shows "scenario_ok fs cfg"
  using assms parse_scenario_ok by (auto simp: load_scenario_def load_from_string_def split: sum.splits)

text \<open>A node type for examples: numbers and strings are the only scalars.\<close>

datatype node = Str string | Num real | Obj "(string \<times> node) list" | Arr "node list"

fun node_num :: "node \<Rightarrow> string + real" where
  "node_num (Num x) = Inr x"
| "node_num _ = Inl ''bad conversion''"

fun node_str :: "node \<Rightarrow> string + string" where
  "node_str (Str x) = Inr x"
| "node_str _ = Inl ''bad conversion''"

fun node_bool :: "node \<Rightarrow> string + bool" where
  "node_bool (Str x) = (if x = ''true'' then Inr True else if x = ''false'' then Inr False else Inl ''bad conversion'')"
| "node_bool _ = Inl ''bad conversion''"

fun node_child :: "node \<Rightarrow> string \<Rightarrow> string + node option" where
  "node_child (Obj kvs) k = Inr (map_of kvs k)"
| "node_child (Arr _) k = Inr None"
| "node_child _ k = Inl ''bad subscript''"

fun node_items :: "node \<Rightarrow> node list" where
  "node_items (Arr ns) = ns"
| "node_items _ = []"

fun node_entries :: "node \<Rightarrow> (node \<times> node) list" where
  "node_entries (Obj kvs) = map (\<lambda>(k, v). (Str k, v)) kvs"
| "node_entries _ = []"

definition nodes :: "node yaml" where
  "nodes = \<lparr>ya_is_map = (\<lambda>n. case n of Obj _ \<Rightarrow> True | _ \<Rightarrow> False),
     ya_is_sequence = (\<lambda>n. case n of Arr _ \<Rightarrow> True | _ \<Rightarrow> False),
     ya_child = node_child, ya_items = node_items, ya_entries = node_entries,
     ya_string = node_str, ya_float = node_num, ya_double = node_num, ya_bool = node_bool,
     ya_int = (\<lambda>n. map_sum id ctrunc (node_num n)), ya_uint64 = (\<lambda>n. map_sum id (\<lambda>x. of_int (ctrunc x)) (node_num n))\<rparr>"

definition quiet :: "unit normal_source" where
  "quiet = \<lparr>nd_seed = (\<lambda>_. ()), nd_new = id, nd_draw = (\<lambda>_ g. (0, g))\<rparr>"

definition small_doc :: "(string \<times> node) list \<Rightarrow> node" where
  "small_doc extra = Obj ([(''name'', Str ''t''),
     (''transducers'', Obj [(''d'', Obj [(''tvr_db'', Num 0), (''rvr_db'', Num 0)])]),
     (''modems'', Arr [Obj [(''id'', Str ''a''), (''usb_serial'', Str ''s''), (''transducer_id'', Str ''d'')]]),
     (''channels'', Arr [Obj [(''from'', Str ''a''), (''to'', Str ''a'')]])] @ extra)"

definition freshwater_doc :: node where
  "freshwater_doc = small_doc [(''environment'', Obj [(''saltwater'', Str ''false'')])]"

lemma nodes_simps:
  "ya_is_map nodes (Obj kvs)" "ya_is_sequence nodes (Arr ns)" "ya_items nodes = node_items" "ya_entries nodes = node_entries"
  "ya_string nodes = node_str" "ya_float nodes = node_num" "ya_bool nodes = node_bool" "ya_child nodes = node_child"
  by (simp_all add: nodes_def)

lemma ebind_weak: "m = m' \<Longrightarrow> ebind m f = ebind m' f"
  by simp

lemma child_Obj: "child nodes (Obj kvs) k = Inr (map_of kvs k)"
  by (simp add: child_def nodes_simps)

lemma absent:
  assumes "map_of kvs k = None"
  shows "set_opt nodes (Obj kvs) k as upd r = Inr r" "set_checked nodes (Obj kvs) k as bad e upd' r = Inr r"
    "forbid nodes (Obj kvs) k e r = Inr r" "optional nodes (Obj kvs) k as d = Inr d" "parse_section nodes (Obj kvs) k p d' = Inr d'"
  using assms by (simp_all add: set_opt_def set_checked_def forbid_def optional_def parse_section_def child_Obj)

lemma present:
  assumes "map_of kvs k = Some v"
  shows "required nodes (Obj kvs) k e = Inr v" "parse_section nodes (Obj kvs) k p d' = p v"
    "set_opt nodes (Obj kvs) k as upd r = ebind (yaml_result (as v)) (\<lambda>x. Inr (upd x r))"
  using assms by (simp_all add: required_def parse_section_def child_Obj set_opt_def)

lemma freshwater_environment: "parse_environment nodes src (Obj [(''saltwater'', Str ''false'')]) =
    Inr (default_environment\<lparr>en_saltwater := False\<rparr>)"
  by (simp add: parse_environment_def absent present nodes_simps)

lemma small_library: "parse_transducer_library nodes src (Obj [(''d'', Obj [(''tvr_db'', Num 0), (''rvr_db'', Num 0)])]) =
    Inr [''d'' \<mapsto> \<lparr>tr_tvr_db = 0, tr_rvr_db = 0\<rparr>]"
  by (simp add: parse_transducer_library_def parse_transducer_def nodes_simps present)

definition small_modem :: modem_config where
  "small_modem = \<lparr>mo_id = ''a'', mo_usb_serial = ''s'', mo_transducer_id = ''d'', mo_clock_offset_ppm = 0,
     mo_actual_clock_offset_ppm = 0, mo_velocity_radial_m_s = 0, mo_acceleration_radial_m_s2 = 0\<rparr>"

lemma small_modems: "parse_modems nodes src [''d'' \<mapsto> t] [] 0
    [Obj [(''id'', Str ''a''), (''usb_serial'', Str ''s''), (''transducer_id'', Str ''d'')]] = Inr [small_modem]"
  by (simp add: parse_modem_def nodes_simps present absent Let_def small_modem_def)

lemma small_channel: "\<exists>c. parse_channels nodes fs dir src env [small_modem] 0 [Obj [(''from'', Str ''a''), (''to'', Str ''a'')]] = Inr [c]"
proof -
  have "chain (channel_fields nodes e (Obj [(''from'', Str ''a''), (''to'', Str ''a'')])) c =
      Inr c" if "ch_range_m c = 150" for c e
    by (simp add: channel_fields_def absent reject_def that)
  moreover have "\<exists>c'. finish_channel nodes fs dir src env [small_modem] 0 (Obj [(''from'', Str ''a''), (''to'', Str ''a'')]) c = Inr c'"
    if "ch_mode c = Mode_Static" "ch_direct_los c" for c
    using that relative_clock_fields [of "find_modem (ch_from_modem c) [small_modem]" "find_modem (ch_to_modem c) [small_modem]"
        "inherit env (find_modem (ch_from_modem c) [small_modem]) c"]
    by (auto simp: finish_channel_def inherit_fields static_taps_def child_Obj Let_def inherit_def split: option.splits)
  ultimately show ?thesis
    by (simp add: parse_channel_def present nodes_simps Let_def small_modem_def default_channel_def)
qed

lemma freshwater_loads: "\<exists>cfg. parse_scenario nodes quiet fs freshwater_doc src dir = Inr cfg \<and>
    en_saltwater (sc_environment cfg) = False"
proof -
  have one: "sample_offsets quiet [small_modem] g = [small_modem]" for g
    by (simp add: draw_truncated_normal_ppm_def small_modem_def)
  obtain c where c: "parse_channels nodes fs dir src (default_environment\<lparr>en_saltwater := False\<rparr>) [small_modem] 0
      [Obj [(''from'', Str ''a''), (''to'', Str ''a'')]] = Inr [c]" using small_channel by blast
  show ?thesis
    unfolding parse_scenario_def freshwater_doc_def small_doc_def append.simps
    by (simp add: present absent nodes_simps small_library freshwater_environment small_modems one c Let_def MAX_MODEMS_def
        del: sample_offsets.simps parse_modems.simps parse_channels.simps ebind_Inr cong: ebind_weak)
qed

theorem loaded_scenario_is_well_formed_witness:
  "\<exists>cfg. load_from_string nodes quiet (\<lambda>_. None) (\<lambda>_. Inr freshwater_doc) [] = Inr cfg \<and> scenario_ok (\<lambda>_. None) cfg"
proof -
  obtain cfg where "load_from_string nodes quiet (\<lambda>_. None) (\<lambda>_. Inr freshwater_doc) [] = Inr cfg"
    using freshwater_loads [of "\<lambda>_. None" "''<string>''" "[]"] by (auto simp: load_from_string_def)
  with loaded_scenario_is_well_formed [of nodes quiet "\<lambda>_. None" "\<lambda>_. Inl []" "[]" cfg "\<lambda>_. Inr freshwater_doc" "[]"]
  show ?thesis by blast
qed

text \<open>Without a \<open>noise\<close> section the ambient noise is that of salt water, whatever the
  environment says: inheriting the environment's water happens only inside the section.\<close>

theorem absent_noise_section_is_saltwater:
  assumes "parse_scenario Y N fs doc src base_dir = Inr cfg" and "ya_child Y doc ''noise'' = Inr None"
  shows "ns_saltwater (sc_noise cfg)"
  using assms unfolding parse_scenario_def Let_def
  by (auto simp: parse_section_def child_def default_noise_def split: if_splits)

theorem absent_noise_section_is_saltwater_witness:
  "\<exists>cfg. parse_scenario nodes quiet (\<lambda>_. None) freshwater_doc ''s'' [] = Inr cfg \<and>
     \<not> en_saltwater (sc_environment cfg) \<and> ns_saltwater (sc_noise cfg)"
proof -
  obtain cfg where cfg: "parse_scenario nodes quiet (\<lambda>_. None) freshwater_doc ''s'' [] = Inr cfg" "\<not> en_saltwater (sc_environment cfg)"
    using freshwater_loads [of "\<lambda>_. None" "''s''" "[]"] by blast
  have "ya_child nodes freshwater_doc ''noise'' = Inr None"
    by (simp add: nodes_simps freshwater_doc_def small_doc_def)
  from absent_noise_section_is_saltwater [OF cfg(1) this] cfg show ?thesis by blast
qed

end
