(* ===== verification/Levels.thy ===== *)
theory Levels
  imports Scenario
begin

text \<open>
  The decibel arithmetic done at scenario load: path loss (\<open>dsp/path_loss.cpp\<close>), conversions
  between samples, volts and pressure (\<open>dsp/calibration_math.hpp\<close>), per-channel gains
  (\<open>dsp/physical_gain.hpp\<close>), noise sizing (\<open>dsp/noise_psd.hpp\<close>) and the flat
  transducer response. Where the code returns an infinity or NaN as a sentinel the result is a
  \<open>level\<close>; calibration words are read as finite floats, as the range check of the handshake
  leaves them to the firmware.
\<close>

definition dlog10 :: "real \<Rightarrow> real" where "dlog10 x = f64 (log 10 x)"
definition dpow10 :: "real \<Rightarrow> real" where "dpow10 x = f64 (10 powr x)"

datatype level = Level real | Minus_Infinity | No_Level

fun is_finite_level :: "level \<Rightarrow> bool" where
  "is_finite_level (Level x) = True"
| "is_finite_level _ = False"

section \<open>Path loss\<close>

definition thorp_absorption_db_per_km :: "real \<Rightarrow> bool \<Rightarrow> real" where
  "thorp_absorption_db_per_km freq_khz saltwater =
    (let f2 = fmul freq_khz freq_khz;
         alpha = fadd (fadd (fadd (fdiv (fmul (f32 (11/100)) f2) (fadd 1 f2))
                                  (fdiv (fmul 44 f2) (fadd 4100 f2)))
                            (fmul (f32 (275/1000000)) f2))
                      (f32 (3/1000))
     in if saltwater then alpha
        else cmax (fsub alpha (fdiv (fmul (f32 (2/1000)) f2) (fadd f2 1))) 0)"

definition transmission_loss_db :: "real \<Rightarrow> real \<Rightarrow> real \<Rightarrow> bool \<Rightarrow> real" where
  "transmission_loss_db range_m freq_khz spreading_factor saltwater =
    (if range_m \<le> 0 then 0
     else let alpha = thorp_absorption_db_per_km freq_khz saltwater;
              absorption = fdiv (fmul alpha range_m) 1000;
              spreading = fmul (fmul 10 spreading_factor) (flog10 range_m)
          in fadd spreading absorption)"

definition path_loss_linear :: "real \<Rightarrow> real \<Rightarrow> real \<Rightarrow> bool \<Rightarrow> real" where
  "path_loss_linear range_m freq_khz spreading_factor saltwater =
    fpow10 (fdiv (- transmission_loss_db range_m freq_khz spreading_factor saltwater) 20)"

section \<open>Calibration arithmetic\<close>

definition input_attenuation :: "calibration_data \<Rightarrow> nat \<Rightarrow> real" where
  "input_attenuation cal i = f32_value (if i = 0 then cal_input_attenuation_0 cal else cal_input_attenuation_1 cal)"

definition attenuation_db :: "calibration_data \<Rightarrow> nat \<Rightarrow> real" where
  "attenuation_db cal atten_idx = (if atten_idx < 2 then input_attenuation cal atten_idx else 0)"

definition positive_or_one :: "float_bits \<Rightarrow> real" where
  "positive_or_one v = (if f32_gt v 0 then f32_value v else 1)"

definition adc_dbfs_to_volts_rms :: "real \<Rightarrow> calibration_data \<Rightarrow> real" where
  "adc_dbfs_to_volts_rms dbfs cal =
    (let s_rms = fpow10 (fdiv dbfs 20) in fmul s_rms (f32_value (cal_adc_vref_peak_volts cal)))"

definition dac_volts_rms_to_dbfs :: "real \<Rightarrow> calibration_data \<Rightarrow> level" where
  "dac_volts_rms_to_dbfs v_rms cal =
    (if f32_le (cal_dac_vref_peak_volts cal) 0 \<or> v_rms \<le> 0 then Minus_Infinity
     else Level (fmul 20 (flog10 (fdiv v_rms (f32_value (cal_dac_vref_peak_volts cal))))))"

definition volts_rms_at_adc_to_drive_volts_rms :: "real \<Rightarrow> calibration_data \<Rightarrow> real" where
  "volts_rms_at_adc_to_drive_volts_rms v_rms_adc cal =
    fmul v_rms_adc (fpow10 (fdiv (- f32_value (cal_output_attenuation cal)) 20))"

definition preamp_volts_rms_to_dac_volts_rms :: "real \<Rightarrow> calibration_data \<Rightarrow> nat \<Rightarrow> real" where
  "preamp_volts_rms_to_dac_volts_rms v_rms_preamp cal atten_idx =
    fmul v_rms_preamp (fpow10 (fdiv (- attenuation_db cal atten_idx) 20))"

definition rx_chain_db_uPa_to_dBFS :: "calibration_data \<Rightarrow> real \<Rightarrow> nat \<Rightarrow> real" where
  "rx_chain_db_uPa_to_dBFS cal rvr_db atten_idx =
    fsub (fadd rvr_db (- attenuation_db cal atten_idx))
      (fmul 20 (flog10 (positive_or_one (cal_dac_vref_peak_volts cal))))"

definition afe_psd_dbfs_per_sqrt_hz :: "calibration_data \<Rightarrow> level" where
  "afe_psd_dbfs_per_sqrt_hz cal =
    (if f32_le (cal_noise_floor_psd cal) 0 then Minus_Infinity
     else let bits = (if 0 < cal_adc_bits cal then cal_adc_bits cal else 16);
              midpoint = converter_midpoint bits
          in Level (fmul 20 (flog10 (fdiv (f32_value (cal_noise_floor_psd cal)) midpoint))))"

definition preamp_gain_db :: "calibration_data \<Rightarrow> level" where
  "preamp_gain_db cal =
    (if f32_le (cal_loopback_gain cal) 0 then No_Level
     else let cal_idx = (if unat (cal_loopback_cal_attenuation cal) < 2 then unat (cal_loopback_cal_attenuation cal) else 0);
              cal_atten_db = input_attenuation cal cal_idx
          in Level (fsub (fmul 20 (flog10 (f32_value (cal_loopback_gain cal)))) cal_atten_db))"

definition afe_psd_dbv_at_preamp_per_sqrt_hz :: "calibration_data \<Rightarrow> level" where
  "afe_psd_dbv_at_preamp_per_sqrt_hz cal =
    (case afe_psd_dbfs_per_sqrt_hz cal of
       Level afe_dbfs \<Rightarrow>
         (case preamp_gain_db cal of
            Level pg_db \<Rightarrow> Level (fsub (fadd afe_dbfs
                (fmul 20 (flog10 (positive_or_one (cal_adc_vref_peak_volts cal))))) pg_db)
          | other \<Rightarrow> other)
     | other \<Rightarrow> other)"

definition dbv_at_preamp_from_db_uPa_per_sqrt_hz :: "real \<Rightarrow> real \<Rightarrow> real" where
  "dbv_at_preamp_from_db_uPa_per_sqrt_hz psd_db_uPa rvr_db = fadd psd_db_uPa rvr_db"

definition dac_dbfs_from_preamp_dbv_per_sqrt_hz :: "real \<Rightarrow> calibration_data \<Rightarrow> nat \<Rightarrow> real" where
  "dac_dbfs_from_preamp_dbv_per_sqrt_hz target cal atten_idx =
    fsub (fsub target (attenuation_db cal atten_idx))
      (fmul 20 (flog10 (positive_or_one (cal_dac_vref_peak_volts cal))))"

section \<open>Channel gains\<close>

definition afe_chain_terms :: "calibration_data \<Rightarrow> transducer_spec \<Rightarrow> real" where
  "afe_chain_terms src_cal src_tx =
    dadd (dadd (dmul 20 (dlog10 (positive_or_one (cal_adc_vref_peak_volts src_cal))))
               (- f32_value (cal_output_attenuation src_cal)))
         (tr_tvr_db src_tx)"

definition compute_channel_physical_gain_db ::
  "calibration_data \<Rightarrow> calibration_data \<Rightarrow> transducer_spec \<Rightarrow> transducer_spec \<Rightarrow> channel_config \<Rightarrow> nat \<Rightarrow> real" where
  "compute_channel_physical_gain_db src_cal rx_cal src_tx rx_tx cfg atten_idx =
    (let v_dac = positive_or_one (cal_dac_vref_peak_volts rx_cal);
         in_atten = attenuation_db rx_cal atten_idx;
         fc_khz = ddiv (f32_value (cal_center_freq_hz src_cal)) 1000;
         tl_db = transmission_loss_db (ch_range_m cfg) (f32 fc_khz) (ch_spreading_factor cfg) (ch_saltwater cfg)
     in dsub (dadd (dadd (dsub (afe_chain_terms src_cal src_tx) tl_db) (tr_rvr_db rx_tx)) (- in_atten))
             (dmul 20 (dlog10 v_dac)))"

definition compute_channel_afe_chain_gain_db ::
  "calibration_data \<Rightarrow> calibration_data \<Rightarrow> transducer_spec \<Rightarrow> transducer_spec \<Rightarrow> nat \<Rightarrow> real" where
  "compute_channel_afe_chain_gain_db src_cal rx_cal src_tx rx_tx atten_idx =
    (let v_dac = positive_or_one (cal_dac_vref_peak_volts rx_cal);
         in_atten = attenuation_db rx_cal atten_idx
     in dsub (dadd (dadd (afe_chain_terms src_cal src_tx) (tr_rvr_db rx_tx)) (- in_atten))
             (dmul 20 (dlog10 v_dac)))"

section \<open>Noise sizing\<close>

definition natural_noise_psd_dbv_at_preamp_per_sqrt_hz :: "real \<Rightarrow> transducer_spec \<Rightarrow> int \<Rightarrow> bool \<Rightarrow> real" where
  "natural_noise_psd_dbv_at_preamp_per_sqrt_hz fc_rx_hz receiver_transducer sea_state saltwater =
    dbv_at_preamp_from_db_uPa_per_sqrt_hz (noise_psd_db fc_rx_hz sea_state saltwater) (tr_rvr_db receiver_transducer)"

definition compute_boost_db :: "level \<Rightarrow> level \<Rightarrow> real \<Rightarrow> real" where
  "compute_boost_db natural_psd_db afe_psd_db min_margin =
    (case afe_psd_db of Level a \<Rightarrow>
       (let required_db = fadd a min_margin in
        case natural_psd_db of Level n \<Rightarrow> cmax 0 (fsub required_db n) | _ \<Rightarrow> 0)
     | _ \<Rightarrow> 0)"

definition psd_target_to_total_rms_dbfs :: "real \<Rightarrow> real list \<Rightarrow> real \<Rightarrow> real \<Rightarrow> level" where
  "psd_target_to_total_rms_dbfs target taps fc_hz fs_hz =
    (if taps = [] \<or> fs_hz \<le> 0 then Minus_Infinity
     else let energy = foldl (\<lambda>e t. fadd e (fmul t t)) 0 taps;
              h_at_fc = filter_response_at taps fc_hz fs_hz
          in if energy \<le> 0 \<or> h_at_fc \<le> 0 then Minus_Infinity
             else Level (fsub (fadd (fadd target (fmul 10 (flog10 energy))) (fmul 10 (flog10 (fdiv fs_hz 2))))
                              (fmul 20 (flog10 h_at_fc))))"

record receiver_noise_sizing =
  rz_natural_psd_dbv_at_preamp :: real
  rz_afe_psd_dbv_at_preamp :: real
  rz_boost_db :: real
  rz_target_psd_dbfs_at_dac :: real

definition kFallbackAfePsdDbvAtPreamp :: real where "kFallbackAfePsdDbvAtPreamp = -220"

definition compute_receiver_noise_sizing ::
  "calibration_data \<Rightarrow> transducer_spec \<Rightarrow> int \<Rightarrow> bool \<Rightarrow> nat \<Rightarrow> real \<Rightarrow> receiver_noise_sizing" where
  "compute_receiver_noise_sizing receiver_cal receiver_transducer sea_state saltwater atten_idx min_margin =
    (let natural_psd = natural_noise_psd_dbv_at_preamp_per_sqrt_hz (f32_value (cal_center_freq_hz receiver_cal))
           receiver_transducer sea_state saltwater;
         afe_raw = afe_psd_dbv_at_preamp_per_sqrt_hz receiver_cal;
         afe = (case afe_raw of Level a \<Rightarrow> a | _ \<Rightarrow> kFallbackAfePsdDbvAtPreamp);
         boost = compute_boost_db (Level natural_psd) (Level afe) min_margin;
         target = fadd natural_psd boost
     in \<lparr>rz_natural_psd_dbv_at_preamp = natural_psd, rz_afe_psd_dbv_at_preamp = afe, rz_boost_db = boost,
         rz_target_psd_dbfs_at_dac = dac_dbfs_from_preamp_dbv_per_sqrt_hz target receiver_cal atten_idx\<rparr>)"

section \<open>Flat transducer response\<close>

record flat_response =
  fx_gain_db :: real
  fx_gain_lin :: real

definition flat_response_new :: "real \<Rightarrow> flat_response" where
  "flat_response_new gain_db = \<lparr>fx_gain_db = gain_db, fx_gain_lin = fpow10 (fdiv gain_db 20)\<rparr>"

definition flat_gain_db_at :: "flat_response \<Rightarrow> real \<Rightarrow> real" where
  "flat_gain_db_at r freq_hz = fx_gain_db r"

definition flat_apply :: "flat_response \<Rightarrow> real list \<Rightarrow> real list" where
  "flat_apply r xs = map (\<lambda>x. fmul x (fx_gain_lin r)) xs"

section \<open>Results\<close>

lemma thorp_nonneg: "0 \<le> thorp_absorption_db_per_km f saltwater"
proof -
  have f2: "0 \<le> fmul f f" by (rule f32_nonneg) simp
  have d: "0 \<le> fdiv (fmul c (fmul f f)) (fadd b (fmul f f))" if "0 \<le> c" "0 \<le> b" for b c
    by (intro f32_nonneg divide_nonneg_nonneg mult_nonneg_nonneg add_nonneg_nonneg that f2)
  show ?thesis
    unfolding thorp_absorption_db_per_km_def Let_def
    by (auto intro!: f32_nonneg add_nonneg_nonneg mult_nonneg_nonneg d f2)
qed

lemma flog10_mono: "0 < x \<Longrightarrow> x \<le> y \<Longrightarrow> flog10 x \<le> flog10 y"
  by (simp add: flog10_def f32_mono)

text \<open>Sound does not get louder with distance. At any frequency, in either water, the
  transmission loss grows with the range in the rounded arithmetic of the code, and the linear path
  loss shrinks; from one metre on the loss is never negative and the factor lies between 0 and 1.\<close>

theorem path_loss_monotone:
  assumes "0 < r" and "r \<le> r'" and "0 \<le> k"
  shows "transmission_loss_db r f k salt \<le> transmission_loss_db r' f k salt \<and>
    path_loss_linear r' f k salt \<le> path_loss_linear r f k salt \<and>
    (1 \<le> r \<longrightarrow> 0 \<le> transmission_loss_db r f k salt \<and> 0 \<le> path_loss_linear r f k salt \<and> path_loss_linear r f k salt \<le> 1)"
proof -
  let ?a = "thorp_absorption_db_per_km f salt"
  have k: "0 \<le> fmul 10 k" using assms(3) by (intro f32_nonneg) simp
  have tl: "transmission_loss_db x f k salt \<le> transmission_loss_db y f k salt" if "0 < x" "x \<le> y" for x y
  proof -
    have "fdiv (fmul ?a x) 1000 \<le> fdiv (fmul ?a y) 1000"
      using that thorp_nonneg by (intro f32_mono divide_right_mono mult_left_mono) auto
    moreover have "fmul (fmul 10 k) (flog10 x) \<le> fmul (fmul 10 k) (flog10 y)"
      using flog10_mono [OF that] k by (intro f32_mono mult_left_mono)
    ultimately show ?thesis using that by (auto simp: transmission_loss_db_def Let_def intro!: f32_mono)
  qed
  have pl: "path_loss_linear y f k salt \<le> path_loss_linear x f k salt" if "0 < x" "x \<le> y" for x y
    using tl [OF that] by (auto simp: path_loss_linear_def fpow10_def intro!: f32_mono divide_right_mono)
  have one: "0 \<le> transmission_loss_db 1 f k salt"
    using thorp_nonneg by (auto simp: transmission_loss_db_def Let_def flog10_def intro!: f32_nonneg)
  have "0 \<le> transmission_loss_db r f k salt \<and> 0 \<le> path_loss_linear r f k salt \<and> path_loss_linear r f k salt \<le> 1"
    if "1 \<le> r"
  proof -
    have nn: "0 \<le> transmission_loss_db r f k salt" using tl [of 1 r] one that by simp
    then have "fdiv (- transmission_loss_db r f k salt) 20 \<le> 0" by (intro f32_nonpos) simp
    then have "10 powr fdiv (- transmission_loss_db r f k salt) 20 \<le> 10 powr 0" by (intro powr_mono) auto
    then have "path_loss_linear r f k salt \<le> f32 1" unfolding path_loss_linear_def fpow10_def by (intro f32_mono) simp
    moreover have "0 \<le> path_loss_linear r f k salt" unfolding path_loss_linear_def fpow10_def by (intro f32_nonneg) simp
    ultimately show ?thesis using nn by simp
  qed
  with tl [OF assms(1,2)] pl [OF assms(1,2)] show ?thesis by blast
qed

theorem path_loss_monotone_witness:
  "transmission_loss_db 10 25 2 True \<le> transmission_loss_db 100 25 2 True"
  using path_loss_monotone [of 10 100 2 25 True] by simp

lemma default_levels:
  "positive_or_one (cal_adc_vref_peak_volts default_calibration) = 1"
  "positive_or_one (cal_dac_vref_peak_volts default_calibration) = 1"
  "f32_value (cal_output_attenuation default_calibration) = 0" "attenuation_db default_calibration i = 0"
  by (auto simp: positive_or_one_def attenuation_db_def input_attenuation_def default_calibration_def f32_value_def
      f32_sign_def f32_exponent_def f32_fraction_def Let_def power_int_def power_divide f32_gt_def f32_class_def)

text \<open>The channel gain is the path loss plus electronics. Between two modems with default
  calibration and flat transducers it is exactly minus the transmission loss at the default centre
  frequency, for every channel and pad.\<close>

theorem default_gain_is_path_loss:
  "compute_channel_physical_gain_db default_calibration default_calibration
     \<lparr>tr_tvr_db = 0, tr_rvr_db = 0\<rparr> \<lparr>tr_tvr_db = 0, tr_rvr_db = 0\<rparr> cfg i =
   - transmission_loss_db (ch_range_m cfg) 25 (ch_spreading_factor cfg) (ch_saltwater cfg) \<and>
   compute_channel_afe_chain_gain_db default_calibration default_calibration
     \<lparr>tr_tvr_db = 0, tr_rvr_db = 0\<rparr> \<lparr>tr_tvr_db = 0, tr_rvr_db = 0\<rparr> i = 0"
proof -
  note d = default_levels default_calibration_floats
  have "f64 (transmission_loss_db r f k s) = transmission_loss_db r f k s" for r f k s
    by (simp add: transmission_loss_db_def Let_def)
  moreover have "f64 25 = 25" "f32 25 = 25" using f64_of_nat [of 25] f32_of_nat [of 25] by simp_all
  ultimately show ?thesis
    by (simp add: compute_channel_physical_gain_db_def compute_channel_afe_chain_gain_db_def afe_chain_terms_def Let_def d dlog10_def)
qed

text \<open>Noise sizing. The boost is never negative, is zero exactly when the ambient noise already
  clears the converter noise by the margin, and is otherwise the deficit; a modem without a noise
  floor or a loopback gain falls back to the quiet default floor.\<close>

theorem boost_restores_margin:
  fixes cal tr sea salt i m
  defines "s \<equiv> compute_receiver_noise_sizing cal tr sea salt i m"
  shows "0 \<le> rz_boost_db s \<and>
    (rz_boost_db s = 0 \<longleftrightarrow> fsub (fadd (rz_afe_psd_dbv_at_preamp s) m) (rz_natural_psd_dbv_at_preamp s) \<le> 0) \<and>
    (0 < rz_boost_db s \<longrightarrow> rz_boost_db s = fsub (fadd (rz_afe_psd_dbv_at_preamp s) m) (rz_natural_psd_dbv_at_preamp s)) \<and>
    (f32_le (cal_noise_floor_psd cal) 0 \<or> f32_le (cal_loopback_gain cal) 0 \<longrightarrow>
       rz_afe_psd_dbv_at_preamp s = kFallbackAfePsdDbvAtPreamp)"
  by (auto simp: s_def compute_receiver_noise_sizing_def compute_boost_db_def Let_def max_def
      afe_psd_dbv_at_preamp_per_sqrt_hz_def afe_psd_dbfs_per_sqrt_hz_def preamp_gain_db_def split: level.splits if_splits)

end
