(* ===== verification/Channel_Renderer.thy ===== *)
theory Channel_Renderer
  imports Pair_Buffer
begin

text \<open>
  The contract of \<open>channel/renderer/channel_renderer.hpp\<close>. A renderer only calls its pair
  buffer and never reads it, so an operation returns the calls it makes, in order; applying them is
  left to the channel. The locale states what every renderer promises: calls never reach below what
  is already committed, and never beyond the committed progress plus the longest tap delay.
\<close>

section \<open>Calls on the pair buffer\<close>

datatype render_call = R_Scatter nat "real list" | R_Commit nat | R_Extra nat

text \<open>The view of the read head a scatter sees is the buffer's, or any older one.\<close>

definition call_op :: "nat \<Rightarrow> render_call \<Rightarrow> tl_op" where
  "call_op seen c = (case c of R_Scatter off xs \<Rightarrow> Scatter seen off xs | R_Commit n \<Rightarrow> Commit n | R_Extra n \<Rightarrow> Extra n)"

definition apply_call :: "pair_buffer \<Rightarrow> render_call \<Rightarrow> pair_buffer" where
  "apply_call b c = fst (pb_step (call_op (pb_read_pos b) c) b)"

definition apply_calls :: "render_call list \<Rightarrow> pair_buffer \<Rightarrow> pair_buffer" where
  "apply_calls cs b = foldl apply_call b cs"

fun adds_of_call :: "render_call \<Rightarrow> (nat \<times> real) list" where
  "adds_of_call (R_Scatter off xs) = zip [off..<off + length xs] xs"
| "adds_of_call _ = []"

definition adds_of :: "render_call list \<Rightarrow> (nat \<times> real) list" where
  "adds_of cs = concat (map adds_of_call cs)"

lemma adds_of_simps [simp]: "adds_of [] = []" "adds_of (c # cs) = adds_of_call c @ adds_of cs"
    "adds_of (cs @ ds) = adds_of cs @ adds_of ds"
  by (simp_all add: adds_of_def)

text \<open>From progress \<open>p\<close>, the calls commit up to \<open>p'\<close>, scatter nothing below what is committed
  at that moment and nothing at or beyond \<open>hi\<close>.\<close>

fun calls_within :: "nat \<Rightarrow> nat \<Rightarrow> render_call list \<Rightarrow> nat \<Rightarrow> bool" where
  "calls_within hi p [] p' \<longleftrightarrow> p = p'"
| "calls_within hi p (R_Scatter off xs # cs) p' \<longleftrightarrow> p \<le> off \<and> off + length xs \<le> hi \<and> calls_within hi p cs p'"
| "calls_within hi p (R_Commit n # cs) p' \<longleftrightarrow> p \<le> n \<and> calls_within hi n cs p'"
| "calls_within hi p (R_Extra n # cs) p' \<longleftrightarrow> calls_within hi p cs p'"

lemma calls_within_append:
  "calls_within hi p cs p1 \<Longrightarrow> calls_within hi p1 ds p2 \<Longrightarrow> calls_within hi p (cs @ ds) p2"
  by (induction hi p cs p1 rule: calls_within.induct) auto

lemma calls_within_mono: "calls_within hi p cs p' \<Longrightarrow> hi \<le> hi' \<Longrightarrow> calls_within hi' p cs p'"
  by (induction hi p cs p' rule: calls_within.induct) auto

lemma calls_within_le: "calls_within hi p cs p' \<Longrightarrow> p \<le> p'"
  by (induction hi p cs p' rule: calls_within.induct) auto

section \<open>The interface\<close>

text \<open>\<open>'r\<close> is a renderer's state; \<open>progress\<close> is what it has committed of the current message,
  \<open>lead\<close> the longest tap delay. Operations that throw return the error.\<close>

locale channel_renderer =
  fixes start :: "'r \<Rightarrow> error + 'r"
    and process :: "real list \<Rightarrow> 'r \<Rightarrow> error + ('r \<times> render_call list \<times> nat) option"
    and finish :: "'r \<Rightarrow> error + ('r \<times> render_call list) option"
    and progress lead :: "'r \<Rightarrow> nat"
    and good :: "'r \<Rightarrow> bool"
  assumes start_law: "good r \<Longrightarrow> start r = Inr r' \<Longrightarrow> good r' \<and> progress r' = 0 \<and> lead r' = lead r"
    and process_law: "good r \<Longrightarrow> process xs r = Inr (Some (r', cs, used)) \<Longrightarrow>
      good r' \<and> lead r' = lead r \<and> used \<le> length xs \<and>
      calls_within (progress r' + lead r) (progress r) cs (progress r')"
    and finish_law: "good r \<Longrightarrow> finish r = Inr (Some (r', cs)) \<Longrightarrow>
      good r' \<and> lead r' = lead r \<and> calls_within (progress r' + lead r) (progress r) cs (progress r')"
begin

text \<open>A message: a start, any blocks of samples, an end.\<close>

inductive blocks :: "'r \<Rightarrow> render_call list \<Rightarrow> 'r \<Rightarrow> bool" where
  blocks_Nil: "blocks r [] r"
| blocks_Cons: "process xs r = Inr (Some (r1, cs, used)) \<Longrightarrow> blocks r1 ds r2 \<Longrightarrow> blocks r (cs @ ds) r2"

definition message :: "'r \<Rightarrow> render_call list \<Rightarrow> 'r \<Rightarrow> bool" where
  "message r cs r' \<longleftrightarrow> (\<exists>r0 r1 ds es. start r = Inr r0 \<and> blocks r0 ds r1 \<and> finish r1 = Inr (Some (r', es)) \<and> cs = ds @ es)"

lemma blocks_within:
  assumes "blocks r cs r'" and "good r"
  shows "good r' \<and> lead r' = lead r \<and> calls_within (progress r' + lead r) (progress r) cs (progress r')"
  using assms
proof (induction rule: blocks.induct)
  case (blocks_Cons xs r r1 cs used ds r2)
  from process_law [OF blocks_Cons.prems blocks_Cons.hyps(1)] blocks_Cons.IH
  have *: "good r2" "lead r2 = lead r" "calls_within (progress r1 + lead r) (progress r) cs (progress r1)"
    "calls_within (progress r2 + lead r) (progress r1) ds (progress r2)" by auto
  from calls_within_le [OF *(4)] calls_within_mono [OF *(3), of "progress r2 + lead r"]
  show ?case using * calls_within_append by fastforce
qed simp

lemma message_within:
  assumes "message r cs r'" and "good r"
  shows "good r' \<and> lead r' = lead r \<and> calls_within (progress r' + lead r) 0 cs (progress r')"
proof -
  obtain r0 r1 ds es where m: "start r = Inr r0" "blocks r0 ds r1" "finish r1 = Inr (Some (r', es))" "cs = ds @ es"
    using assms(1) by (auto simp: message_def)
  from start_law [OF assms(2) m(1)] have r0: "good r0" "progress r0 = 0" "lead r0 = lead r" by auto
  from blocks_within [OF m(2) r0(1)] r0 have b: "good r1" "lead r1 = lead r"
    "calls_within (progress r1 + lead r) 0 ds (progress r1)" by auto
  from finish_law [OF b(1) m(3)] b(2) have f: "good r'" "lead r' = lead r"
    "calls_within (progress r' + lead r) (progress r1) es (progress r')" by auto
  from calls_within_le [OF f(3)] calls_within_mono [OF b(3), of "progress r' + lead r"] f m(4)
  show ?thesis using calls_within_append by fastforce
qed

end

section \<open>Applying calls within bounds\<close>

text \<open>Calls within bounds on a buffer whose writable window reaches the limit drop nothing, and the
  watermark ends at the progress.\<close>

lemma apply_call_fields:
  "pb_read_pos (apply_call b c) = pb_read_pos b \<and> pb_capacity (apply_call b c) = pb_capacity b \<and>
   pb_write_origin (apply_call b c) = pb_write_origin b \<and> pb_base_delay_samples (apply_call b c) = pb_base_delay_samples b"
  by (cases c) (auto simp: apply_call_def call_op_def scatter_fields scatter_add_def commit_source_progress_def
      commit_extra_def Let_def)

lemma scatter_in_window_no_drop:
  "pb_write_origin b + off + length xs \<le> seen + pb_capacity b \<Longrightarrow>
     pb_overflow_drops (scatter_add seen off xs b) = pb_overflow_drops b"
  by (cases xs) (auto simp: scatter_add_def Let_def)

lemma apply_calls_no_drop:
  assumes "calls_within hi p cs p'" and "pb_write_origin b + hi \<le> pb_read_pos b + pb_capacity b"
  shows "pb_overflow_drops (apply_calls cs b) = pb_overflow_drops b"
  using assms
proof (induction hi p cs p' arbitrary: b rule: calls_within.induct)
  case (2 hi p off xs cs p')
  have "pb_overflow_drops (apply_call b (R_Scatter off xs)) = pb_overflow_drops b"
    using 2 scatter_in_window_no_drop [of b off xs "pb_read_pos b"] by (simp add: apply_call_def call_op_def)
  with 2 apply_call_fields [of b "R_Scatter off xs"] show ?case by (simp add: apply_calls_def)
next
  case (3 hi p n cs p')
  have "pb_overflow_drops (apply_call b (R_Commit n)) = pb_overflow_drops b"
    by (simp add: apply_call_def call_op_def commit_source_progress_def Let_def)
  with 3 apply_call_fields [of b "R_Commit n"] show ?case by (simp add: apply_calls_def)
next
  case (4 hi p n cs p')
  have "pb_overflow_drops (apply_call b (R_Extra n)) = pb_overflow_drops b"
    by (simp add: apply_call_def call_op_def commit_extra_def)
  with 4 apply_call_fields [of b "R_Extra n"] show ?case by (simp add: apply_calls_def)
qed (simp add: apply_calls_def)

end
