(* ===== verification/Static_Renderer.thy ===== *)
theory Static_Renderer
  imports Channel_Renderer Resampler Core_Types "HOL-Library.Multiset"
begin

text \<open>
  \<open>channel/renderer/static_renderer.cpp\<close>: bulk resampling for Doppler, then every tap of a
  fixed list adds its share at an integer offset. The scratch vectors hold nothing between calls and
  are left out. \<open>process\<close> loops while the resampler moves; \<open>None\<close> is a loop that does not end.
\<close>

section \<open>The code\<close>

record resolved_tap =
  rt_delta_samples :: nat
  rt_gain :: real
  rt_gain_imag :: real

record static_params =
  sp_taps :: "multipath_tap list"
  sp_channel_gain_linear :: real
  sp_base_delay_samples :: nat
  sp_sample_rate :: nat
  sp_clock_offset_ppm :: real
  sp_sound_speed_m_s :: real
  sp_velocity_radial_m_s :: real
  sp_acceleration_radial_m_s2 :: real

record static_renderer =
  sr_resampler :: farrow
  sr_hilbert :: hilbert
  sr_taps :: "resolved_tap list"
  sr_base_delay_samples :: nat
  sr_max_tap_delta_samples :: nat
  sr_sample_rate :: nat
  sr_clock_offset_ppm :: real
  sr_sound_speed_m_s :: real
  sr_velocity_radial_m_s :: real
  sr_acceleration_radial_m_s2 :: real
  sr_needs_hilbert :: bool
  sr_source_samples_processed :: nat

definition kFarrowDrainZeros :: nat where "kFarrowDrainZeros = 4"

definition clamp_sound_speed :: "real \<Rightarrow> real" where
  "clamp_sound_speed configured = (if 0 < configured then configured else 1500)"

definition resolve_tap :: "nat \<Rightarrow> real \<Rightarrow> multipath_tap \<Rightarrow> resolved_tap" where
  "resolve_tap sample_rate channel_gain t =
    \<lparr>rt_delta_samples = nat (cround (dmul (mt_delay_s t) (real sample_rate))),
     rt_gain = fmul (fmul (mt_gain_linear t) (fcos (mt_phase_rad t))) channel_gain,
     rt_gain_imag = fmul (fmul (mt_gain_linear t) (fsin (mt_phase_rad t))) channel_gain\<rparr>"

definition sr_current_doppler_ratio :: "static_renderer \<Rightarrow> real" where
  "sr_current_doppler_ratio r =
    (let base_ratio = dadd 1 (dmul (sr_clock_offset_ppm r) (f64 (1 / 10 ^ 6)));
         sound_speed = clamp_sound_speed (sr_sound_speed_m_s r);
         t = (if 0 < sr_sample_rate r
              then ddiv (f64 (real (sr_source_samples_processed r))) (real (sr_sample_rate r)) else 0);
         v = dadd (sr_velocity_radial_m_s r) (dmul (sr_acceleration_radial_m_s2 r) t)
     in dmul base_ratio (dadd 1 (ddiv v sound_speed)))"

text \<open>The default Hilbert filter has length 31 and always constructs.\<close>

definition default_hilbert :: hilbert where "default_hilbert = projr (hilbert_new 31)"

definition refresh_ratio :: "static_renderer \<Rightarrow> error + static_renderer" where
  "refresh_ratio r = (case set_ratio (sr_current_doppler_ratio r) (sr_resampler r) of
     Inl e \<Rightarrow> Inl e | Inr f \<Rightarrow> Inr (r\<lparr>sr_resampler := f\<rparr>))"

definition static_new :: "static_params \<Rightarrow> error + static_renderer" where
  "static_new p =
    (let taps = (if sp_taps p = []
           then [\<lparr>rt_delta_samples = 0, rt_gain = sp_channel_gain_linear p, rt_gain_imag = 0\<rparr>]
           else map (resolve_tap (sp_sample_rate p) (sp_channel_gain_linear p)) (sp_taps p))
     in refresh_ratio \<lparr>sr_resampler = farrow_new, sr_hilbert = default_hilbert, sr_taps = taps,
          sr_base_delay_samples = sp_base_delay_samples p,
          sr_max_tap_delta_samples = foldl (\<lambda>m t. cmax m (rt_delta_samples t)) 0 taps,
          sr_sample_rate = sp_sample_rate p, sr_clock_offset_ppm = sp_clock_offset_ppm p,
          sr_sound_speed_m_s = sp_sound_speed_m_s p, sr_velocity_radial_m_s = sp_velocity_radial_m_s p,
          sr_acceleration_radial_m_s2 = sp_acceleration_radial_m_s2 p,
          sr_needs_hilbert = (\<exists>t \<in> set taps. 0 < \<bar>rt_gain_imag t\<bar>), sr_source_samples_processed = 0\<rparr>)"

definition static_on_message_start :: "static_renderer \<Rightarrow> error + static_renderer" where
  "static_on_message_start r =
    refresh_ratio (r\<lparr>sr_resampler := farrow_reset (sr_resampler r),
      sr_hilbert := (if sr_needs_hilbert r then hilbert_reset (sr_hilbert r) else sr_hilbert r),
      sr_source_samples_processed := 0\<rparr>)"

definition scatter_taps :: "nat \<Rightarrow> real list \<Rightarrow> static_renderer \<Rightarrow> static_renderer \<times> render_call list" where
  "scatter_taps pos farrow_out r =
    (if \<not> sr_needs_hilbert r
     then (r, map (\<lambda>tap. R_Scatter (pos + rt_delta_samples tap) (map (\<lambda>x. fmul x (rt_gain tap)) farrow_out)) (sr_taps r))
     else let (h, delayed, hil) = hilbert_process farrow_out (sr_hilbert r)
          in (r\<lparr>sr_hilbert := h\<rparr>,
              map (\<lambda>tap. R_Scatter (pos + rt_delta_samples tap)
                (map2 (\<lambda>d x. fsub (fmul d (rt_gain tap)) (fmul x (rt_gain_imag tap))) delayed hil)) (sr_taps r)))"

partial_function (option) static_loop ::
  "static_renderer \<Rightarrow> real list \<Rightarrow> (static_renderer \<times> render_call list \<times> nat) option" where
  "static_loop r samples =
    (if samples = [] then Some (r, [], 0)
     else let (f, out, used) = farrow_process (sr_resampler r) samples PROCESSING_BLOCK_SIZE;
              r1 = r\<lparr>sr_resampler := f\<rparr>
          in if used = 0 \<and> out = [] then Some (r1, [], 0)
             else let (r2, cs) = (if out \<noteq> []
                    then let (r', cs) = scatter_taps (sr_source_samples_processed r1) out r1;
                             n = sr_source_samples_processed r1 + length out
                         in (r'\<lparr>sr_source_samples_processed := n\<rparr>, cs @ [R_Commit n])
                    else (r1, []))
                  in if length out < PROCESSING_BLOCK_SIZE then Some (r2, cs, used)
                     else Option.bind (static_loop r2 (drop used samples))
                            (\<lambda>(r3, cs', used'). Some (r3, cs @ cs', used + used')))"

definition static_process :: "real list \<Rightarrow> static_renderer \<Rightarrow> error + (static_renderer \<times> render_call list \<times> nat) option" where
  "static_process samples r =
    (if samples = [] then Inr (Some (r, [], 0))
     else case refresh_ratio r of Inl e \<Rightarrow> Inl e | Inr r1 \<Rightarrow> Inr (static_loop r1 samples))"

definition static_on_message_end :: "static_renderer \<Rightarrow> error + (static_renderer \<times> render_call list) option" where
  "static_on_message_end r =
    (let drain = (if sr_needs_hilbert r then cmax kFarrowDrainZeros (hb_group_delay (sr_hilbert r)) else kFarrowDrainZeros)
     in case static_process (replicate drain 0) r of Inl e \<Rightarrow> Inl e
        | Inr None \<Rightarrow> Inr None
        | Inr (Some (r', cs, used)) \<Rightarrow> Inr (Some (r', cs @ [R_Extra (sr_max_tap_delta_samples r')])))"

definition static_input_needed_for_batch :: "static_renderer \<Rightarrow> nat" where
  "static_input_needed_for_batch r = input_needed PROCESSING_BLOCK_SIZE (sr_resampler r)"

section \<open>The resampler always moves\<close>

text \<open>Without input consumed, a step of at least 1/64 gives at most 64 outputs.\<close>

lemma f64_sixty_fourth: "j \<le> 64 \<Longrightarrow> f64 (real j / 64) = real j / 64"
  using f64_dyadic [of "int j" "- 6"] by (simp add: power_int_def power_divide)

lemma farrow_stuck_output:
  assumes "farrow_loop f xs n = (f', out, rest)" and "length rest = length xs" and "xs \<noteq> []"
    and "1 / 64 \<le> fr_step f" and "real j / 64 \<le> fr_mu f" and "j \<le> 64"
  shows "length out + j \<le> 64"
  using assms
proof (induction n arbitrary: f j out)
  case 0
  then show ?case by simp
next
  case (Suc n)
  obtain x xs' where xs: "xs = x # xs'" using Suc.prems(3) by (cases xs) auto
  have mu: "fr_mu f < 1"
  proof (rule ccontr)
    assume "\<not> fr_mu f < 1"
    then have a: "farrow_advance f xs = farrow_advance (farrow_shift x f) xs'" by (simp add: xs not_less)
    obtain f1 r1 dry where e: "farrow_advance (farrow_shift x f) xs' = (f1, r1, dry)" by (metis prod_cases3)
    from farrow_advance_suffix [of xs' "farrow_shift x f"] e have "length r1 \<le> length xs'" by (auto dest: arg_cong [of _ _ length])
    moreover have "length rest \<le> length r1"
      using Suc.prems(1) farrow_loop_suffix [of r1 "f1\<lparr>fr_mu := dadd (fr_mu f1) (fr_step f1)\<rparr>" n]
      by (auto simp: a e Let_def split: if_splits prod.splits dest: arg_cong [of _ _ length])
    ultimately show False using Suc.prems(2) xs by simp
  qed
  then have adv: "farrow_advance f xs = (f, xs, False)" by (simp add: xs)
  let ?g = "f\<lparr>fr_mu := dadd (fr_mu f) (fr_step f)\<rparr>"
  obtain out' where o: "farrow_loop ?g xs n = (f', out', rest)" "out = farrow_interpolate f # out'"
    using Suc.prems(1) by (auto simp: adv Let_def split: prod.splits)
  have j: "j < 64" using mu Suc.prems(5) by (cases "j = 64") (use Suc.prems(6) in auto)
  have "real (Suc j) / 64 \<le> dadd (fr_mu f) (fr_step f)"
  proof -
    have "f64 (real (Suc j) / 64) \<le> f64 (fr_mu f + fr_step f)"
      using Suc.prems(4,5) by (intro f64_mono) (simp add: add_divide_distrib)
    then show ?thesis using f64_sixty_fourth [of "Suc j"] j by simp
  qed
  then have "length out' + Suc j \<le> 64" by (intro Suc.IH [OF o(1)]) (use Suc.prems j in simp_all)
  with o(2) show ?case by simp
qed

lemma refresh_ratio_Inr:
  "refresh_ratio r = Inr r' \<longleftrightarrow> 0 < sr_current_doppler_ratio r \<and>
     r' = r\<lparr>sr_resampler := (sr_resampler r)\<lparr>fr_ratio := sr_current_doppler_ratio r, fr_step := sr_current_doppler_ratio r\<rparr>\<rparr>"
  by (auto simp: refresh_ratio_def set_ratio_def)

lemma farrow_loop_step: "fr_step (fst (farrow_loop f xs n)) = fr_step f"
proof (induction f xs n rule: farrow_loop.induct)
  case (2 f input n)
  have a: "fr_step (fst (farrow_advance f input)) = fr_step f"
    by (induction f input rule: farrow_advance.induct) (auto simp: farrow_shift_def)
  obtain f1 rest dry where e: "farrow_advance f input = (f1, rest, dry)" by (metis prod_cases3)
  with "2.IH" [OF e [symmetric] refl] a show ?case by (cases dry) (auto simp: case_prod_beta Let_def)
qed simp

lemma scatter_taps_frame:
  "sr_resampler (fst (scatter_taps p out r)) = sr_resampler r"
  "sr_taps (fst (scatter_taps p out r)) = sr_taps r" "sr_max_tap_delta_samples (fst (scatter_taps p out r)) = sr_max_tap_delta_samples r"
  "sr_needs_hilbert (fst (scatter_taps p out r)) = sr_needs_hilbert r"
  by (simp_all add: scatter_taps_def case_prod_beta Let_def)

text \<open>One round of the loop.\<close>

definition static_round :: "static_renderer \<Rightarrow> real list \<Rightarrow> static_renderer \<times> render_call list \<times> real list \<times> nat" where
  "static_round r samples =
    (let (f, out, used) = farrow_process (sr_resampler r) samples PROCESSING_BLOCK_SIZE;
         r1 = r\<lparr>sr_resampler := f\<rparr>
     in if out = [] then (r1, [], [], used)
        else let (r', cs) = scatter_taps (sr_source_samples_processed r1) out r1;
                 n = sr_source_samples_processed r1 + length out
             in (r'\<lparr>sr_source_samples_processed := n\<rparr>, cs @ [R_Commit n], out, used))"

lemma static_loop_round:
  "static_loop r samples = (if samples = [] then Some (r, [], 0)
     else let (r2, cs, out, used) = static_round r samples
          in if length out < PROCESSING_BLOCK_SIZE then Some (r2, cs, used)
             else Option.bind (static_loop r2 (drop used samples)) (\<lambda>(r3, cs', used'). Some (r3, cs @ cs', used + used')))"
  by (subst static_loop.simps) (simp add: static_round_def Let_def case_prod_beta PROCESSING_BLOCK_SIZE_def)

lemma static_round_facts:
  assumes "static_round r samples = (r2, cs, out, used)"
  shows "used \<le> length samples" and "fr_step (sr_resampler r2) = fr_step (sr_resampler r)"
    and "length out \<le> PROCESSING_BLOCK_SIZE"
    and "farrow_process (sr_resampler r) samples PROCESSING_BLOCK_SIZE = (sr_resampler r2, out, used)"
proof -
  obtain f o' u where p: "farrow_process (sr_resampler r) samples PROCESSING_BLOCK_SIZE = (f, o', u)" by (metis prod_cases3)
  then have r: "out = o'" "used = u" "sr_resampler r2 = f"
    using assms by (auto simp: static_round_def Let_def case_prod_beta scatter_taps_frame split: if_splits)
  show "used \<le> length samples" using p r by (auto simp: farrow_process_def case_prod_beta Let_def)
  show "fr_step (sr_resampler r2) = fr_step (sr_resampler r)"
    using p r farrow_loop_step [of "sr_resampler r" samples PROCESSING_BLOCK_SIZE]
    by (auto simp: farrow_process_def case_prod_beta Let_def)
  show "length out \<le> PROCESSING_BLOCK_SIZE"
    using p r farrow_loop_count [of "sr_resampler r" samples PROCESSING_BLOCK_SIZE]
    by (auto simp: farrow_process_def case_prod_beta Let_def)
  show "farrow_process (sr_resampler r) samples PROCESSING_BLOCK_SIZE = (sr_resampler r2, out, used)" using p r by simp
qed

lemma static_round_moves:
  assumes "static_round r samples = (r2, cs, out, used)" and "samples \<noteq> []" and "1 / 64 \<le> fr_step (sr_resampler r)"
    and "0 \<le> fr_mu (sr_resampler r)" and "length out = PROCESSING_BLOCK_SIZE"
  shows "0 < used"
proof (rule ccontr)
  assume "\<not> 0 < used"
  then have u: "used = 0" by simp
  note p = static_round_facts(4) [OF assms(1)]
  obtain f' o' rest where l: "farrow_loop (sr_resampler r) samples PROCESSING_BLOCK_SIZE = (f', o', rest)" by (metis prod_cases3)
  with p u have o: "o' = out" "length samples \<le> length rest" by (auto simp: farrow_process_def)
  from farrow_loop_suffix [of samples "sr_resampler r" PROCESSING_BLOCK_SIZE] l
  have "length rest \<le> length samples" by (auto dest: arg_cong [of _ _ length])
  with farrow_stuck_output [OF l _ assms(2,3), of 0] o assms(4,5) show False by (simp add: PROCESSING_BLOCK_SIZE_def)
qed

text \<open>The phase never goes negative while it is only advanced.\<close>

lemma farrow_loop_mu:
  assumes "0 \<le> fr_mu f" and "0 \<le> fr_step f"
  shows "0 \<le> fr_mu (fst (farrow_loop f xs n))"
  using assms
proof (induction f xs n rule: farrow_loop.induct)
  case (2 f input n)
  have a: "0 \<le> fr_mu (fst (farrow_advance f input)) \<and> fr_step (fst (farrow_advance f input)) = fr_step f" if "0 \<le> fr_mu f" for f
    using that
  proof (induction f input rule: farrow_advance.induct)
    case (2 f x xs)
    then show ?case by (auto simp: farrow_shift_def)
  qed simp
  obtain f1 rest dry where e: "farrow_advance f input = (f1, rest, dry)" by (metis prod_cases3)
  with a [OF "2.prems"(1)] have f1: "0 \<le> fr_mu f1" "fr_step f1 = fr_step f" by auto
  show ?case
  proof (cases dry)
    case False
    have "0 \<le> fr_mu (fst (farrow_loop (f1\<lparr>fr_mu := dadd (fr_mu f1) (fr_step f1)\<rparr>) rest n))"
      by (rule "2.IH" [OF e [symmetric] refl refl False]) (use f1 "2.prems" in auto)
    with e False show ?thesis by (auto simp: case_prod_beta Let_def)
  qed (use e f1 in simp)
qed simp

lemma static_loop_returns:
  assumes "1 / 64 \<le> fr_step (sr_resampler r)" and "0 \<le> fr_mu (sr_resampler r)"
  shows "\<exists>y. static_loop r samples = Some y"
  using assms
proof (induction "length samples" arbitrary: samples r rule: less_induct)
  case less
  show ?case
  proof (cases "samples = []")
    case False
    obtain r2 cs out used where rd: "static_round r samples = (r2, cs, out, used)" by (metis prod_cases4)
    note f = static_round_facts [OF rd]
    show ?thesis
    proof (cases "length out < PROCESSING_BLOCK_SIZE")
      case True
      with rd False show ?thesis by (subst static_loop_round) simp
    next
      case 1: False
      with f(3) have "length out = PROCESSING_BLOCK_SIZE" by simp
      with static_round_moves [OF rd False less.prems] have "0 < used" by simp
      with f(1) have "length (drop used samples) < length samples" by simp
      moreover have "0 \<le> fr_mu (sr_resampler r2)"
        using f(4) farrow_loop_mu [of "sr_resampler r" samples PROCESSING_BLOCK_SIZE] less.prems
        by (auto simp: farrow_process_def case_prod_beta Let_def)
      ultimately obtain y where "static_loop r2 (drop used samples) = Some y"
        using less.hyps f(2) less.prems by metis
      with rd False 1 show ?thesis by (subst static_loop_round) (auto split: prod.splits)
    qed
  qed (subst static_loop_round, simp)
qed

section \<open>What the renderer adds\<close>

text \<open>The value a tap adds for position \<open>i\<close> of the resampled stream: the gained sample, or with
  complex taps the projection of the analytic pair.\<close>

definition tap_out :: "static_renderer \<Rightarrow> real list \<Rightarrow> resolved_tap \<Rightarrow> nat \<Rightarrow> real" where
  "tap_out r F tap i =
    (if \<not> sr_needs_hilbert r then fmul (F ! i) (rt_gain tap)
     else fsub (fmul (hb_back F i (hb_group_delay (sr_hilbert r))) (rt_gain tap))
               (fmul (hilbert_fir (hb_coeffs (sr_hilbert r)) F i) (rt_gain_imag tap)))"

definition tap_sum :: "static_renderer \<Rightarrow> real list \<Rightarrow> nat \<Rightarrow> nat \<Rightarrow> (nat \<times> real) multiset" where
  "tap_sum r F a b = (\<Sum>tap \<in># mset (sr_taps r). image_mset (\<lambda>i. (i + rt_delta_samples tap, tap_out r F tap i)) (mset [a..<b]))"

definition streamed :: "real list \<Rightarrow> static_renderer \<Rightarrow> bool" where
  "streamed F r \<longleftrightarrow> sr_source_samples_processed r = length F \<and>
     (sr_needs_hilbert r \<longrightarrow> hilbert_at F (sr_hilbert r) \<and> length (hb_coeffs (sr_hilbert r)) = hb_length (sr_hilbert r))"

text \<open>What no operation changes.\<close>

definition same_setup :: "static_renderer \<Rightarrow> static_renderer \<Rightarrow> bool" where
  "same_setup r r' \<longleftrightarrow> sr_taps r' = sr_taps r \<and> sr_max_tap_delta_samples r' = sr_max_tap_delta_samples r \<and>
     sr_needs_hilbert r' = sr_needs_hilbert r \<and> hb_coeffs (sr_hilbert r') = hb_coeffs (sr_hilbert r) \<and>
     hb_group_delay (sr_hilbert r') = hb_group_delay (sr_hilbert r) \<and> hb_length (sr_hilbert r') = hb_length (sr_hilbert r) \<and>
     sr_clock_offset_ppm r' = sr_clock_offset_ppm r \<and> sr_velocity_radial_m_s r' = sr_velocity_radial_m_s r \<and>
     sr_acceleration_radial_m_s2 r' = sr_acceleration_radial_m_s2 r \<and> sr_sound_speed_m_s r' = sr_sound_speed_m_s r \<and>
     sr_sample_rate r' = sr_sample_rate r"

lemma same_setup_refl [simp]: "same_setup r r" by (simp add: same_setup_def)

lemma same_setup_trans: "same_setup r r1 \<Longrightarrow> same_setup r1 r2 \<Longrightarrow> same_setup r r2" by (simp add: same_setup_def)

lemma tap_out_setup: "same_setup r r' \<Longrightarrow> tap_out r' = tap_out r"
  by (intro ext) (simp add: tap_out_def same_setup_def)

lemma tap_sum_setup: "same_setup r r' \<Longrightarrow> tap_sum r' F a b = tap_sum r F a b"
  using tap_out_setup [of r r'] by (simp add: tap_sum_def same_setup_def)

lemma hilbert_fir_prefix: "i < length F \<Longrightarrow> hilbert_fir c (F @ G) i = hilbert_fir c F i"
proof -
  assume i: "i < length F"
  have "hb_back (F @ G) i k = hb_back F i k" for k using i by (auto simp: hb_back_def nth_append)
  then show ?thesis unfolding hilbert_fir_def by (simp cong: if_cong)
qed

lemma tap_out_prefix: "i < length F \<Longrightarrow> tap_out r (F @ G) tap i = tap_out r F tap i"
  by (auto simp: tap_out_def hilbert_fir_prefix hb_back_def nth_append)

lemma tap_sum_prefix: "b \<le> length F \<Longrightarrow> tap_sum r (F @ G) a b = tap_sum r F a b"
  unfolding tap_sum_def
  by (intro arg_cong [where f = sum_mset] image_mset_cong) (auto simp: tap_out_prefix)

lemma tap_sum_join:
  assumes "a \<le> b" and "b \<le> c"
  shows "tap_sum r F a b + tap_sum r F b c = tap_sum r F a c"
proof -
  have "[a..<c] = [a..<b] @ [b..<c]" using assms upt_add_eq_append [of a b "c - b"] by simp
  then show ?thesis by (simp add: tap_sum_def sum_mset.distrib)
qed

lemma mset_adds_taps:
  "mset (adds_of (map (\<lambda>tap. R_Scatter (p + d tap) (map (g tap) [p..<p + n])) taps)) =
     (\<Sum>tap \<in># mset taps. image_mset (\<lambda>i. (i + d tap, g tap i)) (mset [p..<p + n]))"
proof (induction taps)
  case (Cons tap taps)
  have "zip [p + d tap..<p + d tap + length (map (g tap) [p..<p + n])] (map (g tap) [p..<p + n]) =
      map (\<lambda>i. (i + d tap, g tap i)) [p..<p + n]"
    by (rule nth_equalityI) auto
  with Cons show ?case by simp
qed simp

lemma map_nth_tail: "map (\<lambda>i. (F @ out) ! i) [length F..<length F + length out] = out"
  by (rule nth_equalityI) (auto simp: nth_append)

lemma scatter_taps_stream:
  assumes "streamed F r" and "scatter_taps (length F) out r = (r', cs)"
  shows "same_setup r r'" and "sr_needs_hilbert r \<longrightarrow> hilbert_at (F @ out) (sr_hilbert r')"
    and "cs = map (\<lambda>tap. R_Scatter (length F + rt_delta_samples tap)
      (map (tap_out r (F @ out) tap) [length F..<length F + length out])) (sr_taps r)"
    and "sr_resampler r' = sr_resampler r"
proof -
  have "same_setup r r' \<and> (sr_needs_hilbert r \<longrightarrow> hilbert_at (F @ out) (sr_hilbert r')) \<and>
    cs = map (\<lambda>tap. R_Scatter (length F + rt_delta_samples tap)
      (map (tap_out r (F @ out) tap) [length F..<length F + length out])) (sr_taps r) \<and> sr_resampler r' = sr_resampler r"
  proof (cases "sr_needs_hilbert r")
    case False
    have "map (tap_out r (F @ out) tap) [length F..<length F + length out] = map (\<lambda>x. fmul x (rt_gain tap)) out" for tap
      using map_nth_tail [of F out] False by (auto simp: tap_out_def intro!: nth_equalityI)
    with assms False show ?thesis by (auto simp: scatter_taps_def)
  next
    case True
    with assms(1) have h: "hilbert_at F (sr_hilbert r)" "length (hb_coeffs (sr_hilbert r)) = hb_length (sr_hilbert r)"
      by (auto simp: streamed_def)
    from hilbert_process_at [OF h, of out] obtain h' where p: "hilbert_process out (sr_hilbert r) =
        (h', map (\<lambda>i. hb_back (F @ out) i (hb_group_delay (sr_hilbert r))) [length F..<length F + length out],
         map (hilbert_fir (hb_coeffs (sr_hilbert r)) (F @ out)) [length F..<length F + length out])"
      and h': "hilbert_at (F @ out) h'" "hb_length h' = hb_length (sr_hilbert r)" "hb_coeffs h' = hb_coeffs (sr_hilbert r)"
        "hb_group_delay h' = hb_group_delay (sr_hilbert r)" by blast
    have "map2 (\<lambda>d x. fsub (fmul d (rt_gain tap)) (fmul x (rt_gain_imag tap)))
        (map (\<lambda>i. hb_back (F @ out) i (hb_group_delay (sr_hilbert r))) [length F..<length F + length out])
        (map (hilbert_fir (hb_coeffs (sr_hilbert r)) (F @ out)) [length F..<length F + length out]) =
      map (tap_out r (F @ out) tap) [length F..<length F + length out]" for tap
      using True by (auto simp: tap_out_def intro!: nth_equalityI)
    with assms(2) True p h' show ?thesis by (auto simp: scatter_taps_def Let_def same_setup_def)
  qed
  then show "same_setup r r'" "sr_needs_hilbert r \<longrightarrow> hilbert_at (F @ out) (sr_hilbert r')"
    "cs = map (\<lambda>tap. R_Scatter (length F + rt_delta_samples tap)
      (map (tap_out r (F @ out) tap) [length F..<length F + length out])) (sr_taps r)"
    "sr_resampler r' = sr_resampler r" by blast+
qed

text \<open>The taps a renderer holds lie within its declared extent.\<close>

definition taps_in_extent :: "static_renderer \<Rightarrow> bool" where
  "taps_in_extent r \<longleftrightarrow> (\<forall>tap \<in> set (sr_taps r). rt_delta_samples tap \<le> sr_max_tap_delta_samples r)"

lemma calls_within_scatters:
  "(\<forall>c \<in> set cs. \<exists>off xs. c = R_Scatter off xs \<and> p \<le> off \<and> off + length xs \<le> hi) \<Longrightarrow> p \<le> n \<Longrightarrow>
     calls_within hi p (cs @ [R_Commit n]) n"
  by (induction cs) auto

lemma static_round_stream:
  assumes "streamed F r" and "taps_in_extent r" and "static_round r samples = (r2, cs, out, used)"
  shows "streamed (F @ out) r2" and "same_setup r r2" and "mset (adds_of cs) = tap_sum r (F @ out) (length F) (length (F @ out))"
    and "calls_within (length (F @ out) + sr_max_tap_delta_samples r) (length F) cs (length (F @ out))"
proof -
  obtain f where p: "farrow_process (sr_resampler r) samples PROCESSING_BLOCK_SIZE = (f, out, used)"
    using static_round_facts(4) [OF assms(3)] by blast
  have "streamed (F @ out) r2 \<and> same_setup r r2 \<and> mset (adds_of cs) = tap_sum r (F @ out) (length F) (length (F @ out)) \<and>
    calls_within (length (F @ out) + sr_max_tap_delta_samples r) (length F) cs (length (F @ out))"
  proof (cases "out = []")
    case True
    with assms p show ?thesis by (auto simp: static_round_def Let_def streamed_def same_setup_def tap_sum_def)
  next
    case False
    let ?r1 = "r\<lparr>sr_resampler := f\<rparr>"
    have s1: "streamed F ?r1" and se: "same_setup r ?r1" using assms(1) by (auto simp: streamed_def same_setup_def)
    obtain r' cs' where sc: "scatter_taps (length F) out ?r1 = (r', cs')" by fastforce
    note st = scatter_taps_stream [OF s1 sc]
    have n: "sr_source_samples_processed ?r1 = length F" using s1 by (simp add: streamed_def)
    have r2: "r2 = r'\<lparr>sr_source_samples_processed := length F + length out\<rparr>" "cs = cs' @ [R_Commit (length F + length out)]"
      using assms(3) p False sc n by (auto simp: static_round_def Let_def)
    have set2: "same_setup r r2" using same_setup_trans [OF se st(1)] r2 by (simp add: same_setup_def)
    have "streamed (F @ out) r2" using st(1,2) s1 r2 by (auto simp: streamed_def same_setup_def)
    moreover have "mset (adds_of cs) = tap_sum r (F @ out) (length F) (length (F @ out))"
    proof -
      have "mset (adds_of cs') = tap_sum ?r1 (F @ out) (length F) (length F + length out)"
        unfolding st(3) mset_adds_taps tap_sum_def ..
      then show ?thesis using r2 tap_sum_setup [OF se] by simp
    qed
    moreover have "calls_within (length (F @ out) + sr_max_tap_delta_samples r) (length F) cs (length (F @ out))"
      unfolding r2(2) length_append
      by (rule calls_within_scatters) (use assms(2) in \<open>auto simp: st(3) taps_in_extent_def\<close>)
    ultimately show ?thesis using set2 by blast
  qed
  then show "streamed (F @ out) r2" "same_setup r r2" "mset (adds_of cs) = tap_sum r (F @ out) (length F) (length (F @ out))"
    "calls_within (length (F @ out) + sr_max_tap_delta_samples r) (length F) cs (length (F @ out))" by blast+
qed

lemma static_loop_stream:
  assumes "static_loop r samples = Some (r', cs, used)" and "streamed F r" and "taps_in_extent r"
  shows "\<exists>out. streamed (F @ out) r' \<and> same_setup r r' \<and> used \<le> length samples \<and>
    mset (adds_of cs) = tap_sum r (F @ out) (length F) (length (F @ out)) \<and>
    calls_within (length (F @ out) + sr_max_tap_delta_samples r) (length F) cs (length (F @ out))"
  using assms
proof (induction r samples "(r', cs, used)" arbitrary: F r' cs used rule: static_loop.raw_induct [rotated 1, consumes 1, case_names step])
  case (step loop r samples)
  obtain r2 cs2 out used2 where rd: "static_round r samples = (r2, cs2, out, used2)" by (metis prod_cases4)
  have body: "(if samples = [] then Some (r, [], 0)
     else if length out < PROCESSING_BLOCK_SIZE then Some (r2, cs2, used2)
     else Option.bind (loop r2 (drop used2 samples)) (\<lambda>(r3, cs', used'). Some (r3, cs2 @ cs', used2 + used'))) =
       Some (r', cs, used)"
    using step.hyps(2) rd by (auto simp: static_round_def Let_def case_prod_beta PROCESSING_BLOCK_SIZE_def split: if_splits)
  note st = static_round_stream [OF step.prems rd] and u2 = static_round_facts(1) [OF rd]
  consider (empty) "samples = []" | (short) "samples \<noteq> []" "length out < PROCESSING_BLOCK_SIZE"
    | (long) "samples \<noteq> []" "\<not> length out < PROCESSING_BLOCK_SIZE" by blast
  then show ?case
  proof cases
    case empty
    with body step.prems show ?thesis by (intro exI [of _ "[]"]) (auto simp: tap_sum_def)
  next
    case short
    with body st u2 show ?thesis by (intro exI [of _ out]) auto
  next
    case long
    then obtain cs' used' where l: "loop r2 (drop used2 samples) = Some (r', cs', used')" "cs = cs2 @ cs'" "used = used2 + used'"
      using body by (auto split: bind_splits)
    have ext2: "taps_in_extent r2" using st(2) step.prems(2) by (simp add: taps_in_extent_def same_setup_def)
    from step.hyps(1) [OF l(1) st(1) ext2] obtain out' where o: "streamed ((F @ out) @ out') r'" "same_setup r2 r'"
      "used' \<le> length (drop used2 samples)"
      "mset (adds_of cs') = tap_sum r2 ((F @ out) @ out') (length (F @ out)) (length ((F @ out) @ out'))"
      "calls_within (length ((F @ out) @ out') + sr_max_tap_delta_samples r2) (length (F @ out)) cs' (length ((F @ out) @ out'))"
      by blast
    have m2: "sr_max_tap_delta_samples r2 = sr_max_tap_delta_samples r" using st(2) by (simp add: same_setup_def)
    have "mset (adds_of cs) = tap_sum r (F @ out @ out') (length F) (length (F @ out @ out'))"
    proof -
      have "tap_sum r (F @ out) (length F) (length (F @ out)) = tap_sum r ((F @ out) @ out') (length F) (length (F @ out))"
        by (rule tap_sum_prefix [symmetric]) simp
      moreover have "mset (adds_of cs') = tap_sum r ((F @ out) @ out') (length (F @ out)) (length ((F @ out) @ out'))"
        unfolding o(4) by (rule tap_sum_setup [OF st(2)])
      ultimately show ?thesis
        using st(3) l(2) tap_sum_join [of "length F" "length (F @ out)" "length (F @ out @ out')" r "F @ out @ out'"] by simp
    qed
    moreover have "calls_within (length (F @ out @ out') + sr_max_tap_delta_samples r) (length F) cs (length (F @ out @ out'))"
      unfolding l(2)
      by (rule calls_within_append [OF calls_within_mono [OF st(4)]]) (use o(5) m2 in simp_all)
    moreover have "used \<le> length samples" using l(3) o(3) u2 by simp
    ultimately show ?thesis using o(1) same_setup_trans [OF st(2) o(2)] by (intro exI [of _ "out @ out'"]) simp
  qed
qed

text \<open>A block, with its ratio refreshed.\<close>

lemma refresh_frame:
  assumes "refresh_ratio r = Inr r1"
  shows "same_setup r r1" "streamed F r1 \<longleftrightarrow> streamed F r" "taps_in_extent r1 \<longleftrightarrow> taps_in_extent r"
    "sr_source_samples_processed r1 = sr_source_samples_processed r"
  using assms by (auto simp: refresh_ratio_Inr same_setup_def streamed_def taps_in_extent_def)

lemma static_process_stream:
  assumes "static_process samples r = Inr (Some (r', cs, used))" and "streamed F r" and "taps_in_extent r"
  shows "\<exists>out. streamed (F @ out) r' \<and> same_setup r r' \<and> used \<le> length samples \<and>
    mset (adds_of cs) = tap_sum r (F @ out) (length F) (length (F @ out)) \<and>
    calls_within (length (F @ out) + sr_max_tap_delta_samples r) (length F) cs (length (F @ out))"
proof (cases "samples = []")
  case True
  with assms show ?thesis by (intro exI [of _ "[]"]) (auto simp: static_process_def tap_sum_def)
next
  case False
  then obtain r1 where r1: "refresh_ratio r = Inr r1" "static_loop r1 samples = Some (r', cs, used)"
    using assms(1) by (auto simp: static_process_def split: sum.splits)
  note fr = refresh_frame [OF r1(1)]
  from static_loop_stream [OF r1(2), of F] fr(2,3) assms(2,3) obtain out where "streamed (F @ out) r'" "same_setup r1 r'"
    "used \<le> length samples" "mset (adds_of cs) = tap_sum r1 (F @ out) (length F) (length (F @ out))"
    "calls_within (length (F @ out) + sr_max_tap_delta_samples r1) (length F) cs (length (F @ out))" by blast
  with fr(1) same_setup_trans [OF fr(1)] tap_sum_setup [OF fr(1)] show ?thesis
    by (intro exI [of _ out]) (simp add: same_setup_def)
qed

text \<open>The renderer's invariant, with the stream of the current message as a ghost.\<close>

definition static_good :: "static_renderer \<Rightarrow> bool" where
  "static_good r \<longleftrightarrow> taps_in_extent r \<and> (sr_needs_hilbert r \<longrightarrow> length (hb_coeffs (sr_hilbert r)) = hb_length (sr_hilbert r) \<and>
     length (hb_history (sr_hilbert r)) = hb_length (sr_hilbert r) \<and> hb_group_delay (sr_hilbert r) < hb_length (sr_hilbert r)) \<and>
     (\<exists>F. streamed F r)"

lemma static_good_setup:
  assumes "streamed F r'" and "same_setup r r'" and "static_good r"
  shows "static_good r'"
  using assms by (auto simp: static_good_def same_setup_def taps_in_extent_def streamed_def hilbert_at_def hilbert_ok_def)

lemma static_start_streamed:
  assumes "static_on_message_start r = Inr r'" and "static_good r"
  shows "streamed [] r'" "same_setup r r'" "static_good r'"
proof -
  let ?h = "hilbert_reset (sr_hilbert r)"
  have z: "hilbert_at [] ?h" if "sr_needs_hilbert r"
  proof -
    have l: "length (hb_history (sr_hilbert r)) = hb_length (sr_hilbert r)" "hb_group_delay (sr_hilbert r) < hb_length (sr_hilbert r)"
      using assms(2) that by (auto simp: static_good_def)
    then have "dl_read k (hilbert_line ?h) = 0" if "k < hb_length (sr_hilbert r)" for k
      using that by (auto simp: dl_read_def hilbert_line_def hilbert_reset_def Let_def)
    with l show ?thesis by (auto simp: hilbert_at_def hilbert_ok_def hilbert_reset_def)
  qed
  have r': "refresh_ratio (r\<lparr>sr_resampler := farrow_reset (sr_resampler r),
      sr_hilbert := (if sr_needs_hilbert r then ?h else sr_hilbert r), sr_source_samples_processed := 0\<rparr>) = Inr r'"
    using assms(1) by (simp add: static_on_message_start_def)
  have se: "same_setup r (r\<lparr>sr_resampler := farrow_reset (sr_resampler r),
      sr_hilbert := (if sr_needs_hilbert r then ?h else sr_hilbert r), sr_source_samples_processed := 0\<rparr>)"
    by (simp add: same_setup_def hilbert_reset_def)
  show st: "streamed [] r'"
    unfolding refresh_frame(2) [OF r'] using z assms(2) by (auto simp: streamed_def static_good_def hilbert_reset_def)
  show set': "same_setup r r'" using same_setup_trans [OF se refresh_frame(1) [OF r']] .
  show "static_good r'" by (rule static_good_setup [OF st set' assms(2)])
qed

interpretation static: channel_renderer static_on_message_start static_process static_on_message_end
  sr_source_samples_processed sr_max_tap_delta_samples static_good
proof
  fix r r' assume "static_good r" "static_on_message_start r = Inr r'"
  note st = static_start_streamed [OF this(2,1)]
  then show "static_good r' \<and> sr_source_samples_processed r' = 0 \<and> sr_max_tap_delta_samples r' = sr_max_tap_delta_samples r"
    by (simp add: streamed_def same_setup_def)
next
  have proc: "static_good r' \<and> sr_max_tap_delta_samples r' = sr_max_tap_delta_samples r \<and> used \<le> length xs \<and>
      calls_within (sr_source_samples_processed r' + sr_max_tap_delta_samples r) (sr_source_samples_processed r) cs
        (sr_source_samples_processed r')"
    if g: "static_good r" and p: "static_process xs r = Inr (Some (r', cs, used))" for r r' cs used xs
  proof -
    obtain F where F: "streamed F r" "taps_in_extent r" using g by (auto simp: static_good_def)
    from static_process_stream [OF p F] obtain out where o: "streamed (F @ out) r'" "same_setup r r'" "used \<le> length xs"
      "calls_within (length (F @ out) + sr_max_tap_delta_samples r) (length F) cs (length (F @ out))" by blast
    with static_good_setup [OF o(1,2) g] F show ?thesis by (auto simp: streamed_def same_setup_def)
  qed
  fix r r' xs cs used assume "static_good r" "static_process xs r = Inr (Some (r', cs, used))"
  from proc [OF this] show "static_good r' \<and> sr_max_tap_delta_samples r' = sr_max_tap_delta_samples r \<and> used \<le> length xs \<and>
      calls_within (sr_source_samples_processed r' + sr_max_tap_delta_samples r) (sr_source_samples_processed r) cs
        (sr_source_samples_processed r')" .
next
  fix r r' cs assume g: "static_good r" and f: "static_on_message_end r = Inr (Some (r', cs))"
  obtain drain cs' used where p: "static_process (replicate drain 0) r = Inr (Some (r', cs', used))"
    "cs = cs' @ [R_Extra (sr_max_tap_delta_samples r')]"
    using f by (auto simp: static_on_message_end_def Let_def split: sum.splits option.splits)
  obtain F where F: "streamed F r" "taps_in_extent r" using g by (auto simp: static_good_def)
  from static_process_stream [OF p(1) F] obtain out where o: "streamed (F @ out) r'" "same_setup r r'"
    "calls_within (length (F @ out) + sr_max_tap_delta_samples r) (length F) cs' (length (F @ out))" by blast
  have "calls_within (length (F @ out) + sr_max_tap_delta_samples r) (length F) cs (length (F @ out))"
    unfolding p(2) by (rule calls_within_append [OF o(3)]) simp
  with o static_good_setup [OF o(1,2) g] F show "static_good r' \<and> sr_max_tap_delta_samples r' = sr_max_tap_delta_samples r \<and>
      calls_within (sr_source_samples_processed r' + sr_max_tap_delta_samples r) (sr_source_samples_processed r) cs
        (sr_source_samples_processed r')"
    by (auto simp: streamed_def same_setup_def)
qed

section \<open>Messages without Doppler\<close>

text \<open>The resampled stream once \<open>past\<close> has been consumed.\<close>

definition dstream :: "real list \<Rightarrow> real list" where
  "dstream past = take (length past + 1) (delayed3 past)"

lemma length_delayed3 [simp]: "length (delayed3 past) = length past + 3"
  by (simp add: delayed3_def)

lemma length_dstream [simp]: "length (dstream past) = length past + 1"
  by (simp add: dstream_def delayed3_def)

lemma dstream_append:
  "dstream past @ map (\<lambda>j. delayed3 (past @ xs) ! (length past + 1 + j)) [0..<length xs] = dstream (past @ xs)"
proof (rule nth_equalityI)
  fix i assume "i < length (dstream past @ map (\<lambda>j. delayed3 (past @ xs) ! (length past + 1 + j)) [0..<length xs])"
  then have i: "i < length past + 1 + length xs" by simp
  have pre: "delayed3 past ! i = delayed3 (past @ xs) ! i" if "i < length past + 1"
    using that by (auto simp: delayed3_def nth_append)
  show "(dstream past @ map (\<lambda>j. delayed3 (past @ xs) ! (length past + 1 + j)) [0..<length xs]) ! i = dstream (past @ xs) ! i"
  proof (cases "i < length past + 1")
    case True
    with pre show ?thesis by (simp add: nth_append dstream_def)
  next
    case False
    then have "length past + 1 + (i - (length past + 1)) = i" by simp
    moreover have "[0..<length xs] ! (i - (length past + 1)) = i - (length past + 1)" using False i by simp
    ultimately show ?thesis using False i by (simp add: nth_append dstream_def)
  qed
qed simp

definition unity :: "static_renderer \<Rightarrow> bool" where
  "unity r \<longleftrightarrow> sr_clock_offset_ppm r = 0 \<and> sr_velocity_radial_m_s r = 0 \<and> sr_acceleration_radial_m_s2 r = 0"

lemma unity_refresh:
  assumes "unity r"
  shows "refresh_ratio r = Inr (r\<lparr>sr_resampler := (sr_resampler r)\<lparr>fr_ratio := 1, fr_step := 1\<rparr>\<rparr>)"
proof -
  have "sr_current_doppler_ratio r = 1" using assms by (simp add: unity_def sr_current_doppler_ratio_def Let_def)
  then show ?thesis unfolding refresh_ratio_Inr by simp
qed

lemma static_round_unity:
  assumes "farrow_at past (sr_resampler r)" and "\<forall>x \<in> set (past @ samples). f32 x = x"
    and "static_round r samples = (r2, cs, out, used)"
  shows "used = min PROCESSING_BLOCK_SIZE (length samples)"
    and "out = map (\<lambda>j. delayed3 (past @ take used samples) ! (length past + 1 + j)) [0..<used]"
    and "farrow_at (past @ take used samples) (sr_resampler r2)"
proof -
  let ?k = "min PROCESSING_BLOCK_SIZE (length samples)"
  obtain f' where f': "farrow_loop (sr_resampler r) samples PROCESSING_BLOCK_SIZE =
      (f', map (\<lambda>j. delayed3 (past @ samples) ! (length past + 1 + j)) [0..<?k], drop ?k samples)"
      "farrow_at (past @ take ?k samples) f'"
    using farrow_unity_run [OF assms(1,2), of PROCESSING_BLOCK_SIZE] by blast
  with static_round_facts(4) [OF assms(3)] have r: "sr_resampler r2 = f'" "used = ?k"
    "out = map (\<lambda>j. delayed3 (past @ samples) ! (length past + 1 + j)) [0..<?k]"
    by (auto simp: farrow_process_def)
  have "delayed3 (past @ samples) ! (length past + 1 + j) = delayed3 (past @ take ?k samples) ! (length past + 1 + j)"
    if "j < ?k" for j
  proof -
    have "past @ samples = (past @ take ?k samples) @ drop ?k samples" by simp
    moreover have "delayed3 (as @ bs) ! q = delayed3 as ! q" if "q < length as + 3" for as bs and q :: nat
      using that by (auto simp: delayed3_def nth_append)
    moreover have "length past + 1 + j < length (past @ take ?k samples) + 3" using that by (auto simp: min_def)
    ultimately show ?thesis by metis
  qed
  then have "out = map (\<lambda>j. delayed3 (past @ take ?k samples) ! (length past + 1 + j)) [0..<?k]"
    unfolding r(3) by (intro map_cong) auto
  then show "used = ?k" "out = map (\<lambda>j. delayed3 (past @ take used samples) ! (length past + 1 + j)) [0..<used]"
    "farrow_at (past @ take used samples) (sr_resampler r2)" using r f'(2) by simp_all
qed

text \<open>The state between two blocks of a message: fresh, or settled on the stream.\<close>

definition settled :: "real list \<Rightarrow> static_renderer \<Rightarrow> bool" where
  "settled past r \<longleftrightarrow> farrow_at past (sr_resampler r) \<and> streamed (dstream past) r"

definition rendered :: "real list \<Rightarrow> static_renderer \<Rightarrow> bool" where
  "rendered past r \<longleftrightarrow> unity r \<and> taps_in_extent r \<and> (settled past r \<or>
     past = [] \<and> streamed [] r \<and> (\<exists>f. sr_resampler r = farrow_reset f))"

lemma static_loop_unity:
  assumes "settled past r" and "taps_in_extent r" and "\<forall>x \<in> set (past @ samples). f32 x = x"
  shows "\<exists>r' cs. static_loop r samples = Some (r', cs, length samples) \<and> settled (past @ samples) r' \<and> same_setup r r' \<and>
    mset (adds_of cs) = tap_sum r (dstream (past @ samples)) (length (dstream past)) (length (dstream (past @ samples)))"
  using assms
proof (induction "length samples" arbitrary: samples past r rule: less_induct)
  case less
  show ?case
  proof (cases "samples = []")
    case True
    with less.prems show ?thesis
      by (intro exI [of _ r] exI [of _ "[]"]) (subst static_loop_round, simp add: tap_sum_def)
  next
    case False
    obtain r2 cs out used where rd: "static_round r samples = (r2, cs, out, used)" by (metis prod_cases4)
    have at: "farrow_at past (sr_resampler r)" and str: "streamed (dstream past) r"
      using less.prems(1) by (simp_all add: settled_def)
    note u = static_round_unity [OF at less.prems(3) rd]
    note st = static_round_stream [OF str less.prems(2) rd]
    have "length out = used" by (subst u(2)) simp
    have us: "length (take used samples) = used" using u(1) by simp
    have F: "dstream past @ out = dstream (past @ take used samples)"
      using dstream_append [of past "take used samples"] u(2) us by simp
    have s2: "settled (past @ take used samples) r2" using st(1) u(3) F by (simp add: settled_def)
    show ?thesis
    proof (cases "used < PROCESSING_BLOCK_SIZE")
      case True
      then have all: "used = length samples" using u(1) by simp
      with True rd False \<open>length out = used\<close> have "static_loop r samples = Some (r2, cs, length samples)"
        by (subst static_loop_round) simp
      with s2 st(2,3) F all show ?thesis by auto
    next
      case 2: False
      have pos: "0 < used" using 2 by (simp add: PROCESSING_BLOCK_SIZE_def)
      have "taps_in_extent r2" using st(2) less.prems(2) by (simp add: taps_in_extent_def same_setup_def)
      moreover have split: "(past @ take used samples) @ drop used samples = past @ samples" by simp
      moreover have "length (drop used samples) < length samples" using pos False by simp
      ultimately obtain r' cs' where ih: "static_loop r2 (drop used samples) = Some (r', cs', length (drop used samples))"
        "settled (past @ samples) r'" "same_setup r2 r'"
        "mset (adds_of cs') = tap_sum r2 (dstream (past @ samples)) (length (dstream (past @ take used samples))) (length (dstream (past @ samples)))"
        using less.hyps [OF _ s2] less.prems(3) by metis
      have len: "used + length (drop used samples) = length samples" using u(1) by simp
      have "static_loop r samples = Some (r', cs @ cs', length samples)"
        using rd False 2 \<open>length out = used\<close> ih(1) len by (subst static_loop_round) simp
      moreover have "mset (adds_of (cs @ cs')) = tap_sum r (dstream (past @ samples)) (length (dstream past)) (length (dstream (past @ samples)))"
      proof -
        have d: "dstream (past @ samples) = dstream (past @ take used samples) @
            map (\<lambda>j. delayed3 (past @ samples) ! (length (past @ take used samples) + 1 + j)) [0..<length (drop used samples)]"
          using dstream_append [of "past @ take used samples" "drop used samples"] by simp
        have "mset (adds_of cs) = tap_sum r (dstream (past @ samples)) (length (dstream past)) (length (dstream (past @ take used samples)))"
          unfolding st(3) F by (subst d, subst tap_sum_prefix) simp_all
        moreover have "mset (adds_of cs') = tap_sum r (dstream (past @ samples)) (length (dstream (past @ take used samples))) (length (dstream (past @ samples)))"
          unfolding ih(4) by (rule tap_sum_setup [OF st(2)])
        ultimately show ?thesis
          using tap_sum_join [of "length (dstream past)" "length (dstream (past @ take used samples))" "length (dstream (past @ samples))" r] by simp
      qed
      ultimately show ?thesis using ih(2) same_setup_trans [OF st(2) ih(3)] by blast
    qed
  qed
qed

text \<open>The first block of a message that has samples.\<close>

lemma static_loop_unity_start:
  assumes "sr_resampler r = (farrow_reset f)\<lparr>fr_ratio := 1, fr_step := 1\<rparr>" and "streamed [] r" and "taps_in_extent r"
    and "\<forall>x \<in> set samples. f32 x = x" and "samples \<noteq> []"
  shows "\<exists>r' cs. static_loop r samples = Some (r', cs, length samples) \<and> settled samples r' \<and> same_setup r r' \<and>
    mset (adds_of cs) = tap_sum r (dstream samples) 0 (length (dstream samples))"
proof -
  let ?g = "f\<lparr>fr_ratio := 1, fr_step := 1\<rparr>"
  let ?k = "min 255 (length samples)"
  have g: "sr_resampler r = farrow_reset ?g" using assms(1) by (simp add: farrow_reset_def)
  have B: "PROCESSING_BLOCK_SIZE = Suc 255" by (simp add: PROCESSING_BLOCK_SIZE_def)
  obtain f' where f': "farrow_loop (sr_resampler r) samples PROCESSING_BLOCK_SIZE =
      (f', map (\<lambda>j. delayed3 samples ! j) [0..<Suc ?k], drop ?k samples)" "farrow_at (take ?k samples) f'"
    using farrow_unity_start [of ?g samples 255] assms(4) unfolding g B by auto
  obtain r2 cs out used where rd: "static_round r samples = (r2, cs, out, used)" by (metis prod_cases4)
  have o: "sr_resampler r2 = f'" "used = ?k" "out = map (\<lambda>j. delayed3 samples ! j) [0..<Suc ?k]"
    using static_round_facts(4) [OF rd] f'(1) by (auto simp: farrow_process_def simp del: upt_Suc)
  have F: "out = dstream (take ?k samples)"
  proof (rule nth_equalityI)
    show "length out = length (dstream (take ?k samples))" using o(3) by (simp del: upt_Suc)
    fix i assume "i < length out"
    then have i: "i < Suc ?k" using o(3) by (simp del: upt_Suc)
    have "delayed3 (as @ bs) ! q = delayed3 as ! q" if "q < length as + 3" for as bs and q :: nat
      using that by (auto simp: delayed3_def nth_append)
    from this [of i "take ?k samples" "drop ?k samples"] i have "delayed3 samples ! i = delayed3 (take ?k samples) ! i" by simp
    then show "out ! i = dstream (take ?k samples) ! i" using i unfolding o(3) by (simp add: dstream_def del: upt_Suc)
  qed
  note st = static_round_stream [OF assms(2,3) rd, unfolded append_Nil]
  have s2: "settled (take ?k samples) r2" using st(1) F f'(2) o(1) by (simp add: settled_def)
  have ext2: "taps_in_extent r2" using st(2) assms(3) by (simp add: taps_in_extent_def same_setup_def)
  show ?thesis
  proof (cases "length samples < 255")
    case True
    then have "static_loop r samples = Some (r2, cs, length samples)"
      using rd assms(5) o by (subst static_loop_round) (simp add: B del: upt_Suc)
    with s2 st(2,3) F True show ?thesis by auto
  next
    case False
    then have k: "?k = 255" by simp
    have all: "take ?k samples @ drop ?k samples = samples" by simp
    from static_loop_unity [OF s2 ext2, of "drop ?k samples"] assms(4) obtain r' cs' where
      l: "static_loop r2 (drop ?k samples) = Some (r', cs', length (drop ?k samples))" "settled samples r'" "same_setup r2 r'"
      "mset (adds_of cs') = tap_sum r2 (dstream samples) (length (dstream (take ?k samples))) (length (dstream samples))"
      unfolding all by auto
    have "static_loop r samples = Some (r', cs @ cs', length samples)"
      using rd assms(5) o l(1) False k by (subst static_loop_round) (simp add: B del: upt_Suc)
    moreover have "mset (adds_of (cs @ cs')) = tap_sum r (dstream samples) 0 (length (dstream samples))"
    proof -
      have d: "dstream samples = dstream (take ?k samples) @
          map (\<lambda>j. delayed3 samples ! (length (take ?k samples) + 1 + j)) [0..<length (drop ?k samples)]"
        using dstream_append [of "take ?k samples" "drop ?k samples"] by simp
      have "mset (adds_of cs) = tap_sum r (dstream samples) 0 (length (dstream (take ?k samples)))"
        using st(3) F by (subst d, subst tap_sum_prefix) simp_all
      moreover have "mset (adds_of cs') = tap_sum r (dstream samples) (length (dstream (take ?k samples))) (length (dstream samples))"
        unfolding l(4) by (rule tap_sum_setup [OF st(2)])
      ultimately show ?thesis
        using tap_sum_join [of 0 "length (dstream (take ?k samples))" "length (dstream samples)" r "dstream samples"] by simp
    qed
    ultimately show ?thesis using l(2) same_setup_trans [OF st(2) l(3)] by blast
  qed
qed

text \<open>The stream at each point of a message, and one block of it.\<close>

definition stream_at :: "real list \<Rightarrow> static_renderer \<Rightarrow> real list" where
  "stream_at past r = (if sr_source_samples_processed r = 0 then [] else dstream past)"

lemma rendered_stream: "rendered past r \<Longrightarrow> streamed (stream_at past r) r"
  by (auto simp: rendered_def settled_def stream_at_def streamed_def)

lemma farrow_at_set_ratio: "farrow_at past f \<Longrightarrow> farrow_at past (f\<lparr>fr_ratio := 1, fr_step := 1\<rparr>)"
  by (simp add: farrow_at_def)

lemma static_process_unity:
  assumes "rendered past r" and "\<forall>x \<in> set (past @ samples). f32 x = x"
  shows "\<exists>r' cs. static_process samples r = Inr (Some (r', cs, length samples)) \<and> rendered (past @ samples) r' \<and> same_setup r r' \<and>
    (samples \<noteq> [] \<longrightarrow> settled (past @ samples) r') \<and>
    mset (adds_of cs) = tap_sum r (stream_at (past @ samples) r') (length (stream_at past r)) (length (stream_at (past @ samples) r'))"
proof (cases "samples = []")
  case True
  with assms show ?thesis by (intro exI [of _ r] exI [of _ "[]"]) (simp add: static_process_def tap_sum_def)
next
  case False
  let ?r1 = "r\<lparr>sr_resampler := (sr_resampler r)\<lparr>fr_ratio := 1, fr_step := 1\<rparr>\<rparr>"
  have un: "unity r" and ext: "taps_in_extent r" using assms(1) by (simp_all add: rendered_def)
  note rf = unity_refresh [OF un]
  note fr = refresh_frame [OF rf]
  have ext1: "taps_in_extent ?r1" using fr(3) ext by blast
  have p: "static_process samples r = Inr (static_loop ?r1 samples)" using rf False by (simp add: static_process_def)
  have fin: "rendered (past @ samples) r'" if "settled (past @ samples) r'" "same_setup ?r1 r'" for r'
    using that un ext by (auto simp: rendered_def unity_def same_setup_def taps_in_extent_def)
  have sa: "stream_at (past @ samples) r' = dstream (past @ samples)" if "settled (past @ samples) r'" for r'
    using that by (auto simp: stream_at_def settled_def streamed_def)
  from assms(1) consider (settled) "settled past r" | (fresh) f where "past = []" "streamed [] r" "sr_resampler r = farrow_reset f"
    by (auto simp: rendered_def)
  then obtain r' cs where l: "static_loop ?r1 samples = Some (r', cs, length samples)" "settled (past @ samples) r'" "same_setup ?r1 r'"
    "mset (adds_of cs) = tap_sum ?r1 (dstream (past @ samples)) (length (stream_at past r)) (length (dstream (past @ samples)))"
  proof cases
    case settled
    then have s1: "settled past ?r1" using fr(2) farrow_at_set_ratio by (auto simp: settled_def)
    have "stream_at past r = dstream past" using settled by (auto simp: stream_at_def settled_def streamed_def)
    with static_loop_unity [OF s1 ext1 assms(2)] that show thesis by auto
  next
    case fresh
    have "sr_resampler ?r1 = (farrow_reset f)\<lparr>fr_ratio := 1, fr_step := 1\<rparr>" using fresh(3) by simp
    moreover have "streamed [] ?r1" using fr(2) fresh(2) by blast
    moreover have "length (stream_at past r) = 0" using fresh(1,2) by (simp add: stream_at_def streamed_def)
    ultimately show thesis
      using static_loop_unity_start [of ?r1 f samples] ext1 assms(2) False that fresh(1) by auto
  qed
  have "mset (adds_of cs) = tap_sum r (stream_at (past @ samples) r') (length (stream_at past r)) (length (stream_at (past @ samples) r'))"
    unfolding sa [OF l(2)] l(4) by (rule tap_sum_setup [OF fr(1)])
  moreover have "same_setup r r'" using fr(1) l(3) by (rule same_setup_trans)
  ultimately show ?thesis using p l fin [OF l(2,3)] by auto
qed

section \<open>Whole messages\<close>

text \<open>The calls of a whole message sent in blocks: start, blocks, end.\<close>

fun static_blocks :: "real list list \<Rightarrow> static_renderer \<Rightarrow> error + (static_renderer \<times> render_call list) option" where
  "static_blocks [] r = Inr (Some (r, []))"
| "static_blocks (xs # xss) r = (case static_process xs r of
     Inl e \<Rightarrow> Inl e | Inr None \<Rightarrow> Inr None
   | Inr (Some (r1, cs, used)) \<Rightarrow> (case static_blocks xss r1 of
       Inl e \<Rightarrow> Inl e | Inr None \<Rightarrow> Inr None | Inr (Some (r2, ds)) \<Rightarrow> Inr (Some (r2, cs @ ds))))"

definition static_message :: "real list list \<Rightarrow> static_renderer \<Rightarrow> error + (static_renderer \<times> render_call list) option" where
  "static_message xss r = (case static_on_message_start r of Inl e \<Rightarrow> Inl e | Inr r0 \<Rightarrow>
     (case static_blocks xss r0 of Inl e \<Rightarrow> Inl e | Inr None \<Rightarrow> Inr None | Inr (Some (r1, cs)) \<Rightarrow>
       (case static_on_message_end r1 of Inl e \<Rightarrow> Inl e | Inr None \<Rightarrow> Inr None
        | Inr (Some (r2, ds)) \<Rightarrow> Inr (Some (r2, cs @ ds)))))"

lemma static_blocks_blocks: "static_blocks xss r = Inr (Some (r', cs)) \<Longrightarrow> static.blocks r cs r'"
proof (induction xss arbitrary: r cs)
  case Nil
  then show ?case by (auto intro: static.blocks.intros)
next
  case (Cons xs xss)
  then obtain r1 c1 u ds where "static_process xs r = Inr (Some (r1, c1, u))" "static_blocks xss r1 = Inr (Some (r', ds))"
    "cs = c1 @ ds" by (auto split: sum.splits option.splits)
  with Cons.IH show ?case by (auto intro: static.blocks.intros)
qed

lemma static_message_message: "static_message xss r = Inr (Some (r', cs)) \<Longrightarrow> static.message r cs r'"
  unfolding static.message_def
  by (auto simp: static_message_def split: sum.splits option.splits) (metis static_blocks_blocks)

text \<open>The sizing contract between renderer and buffer. If the buffer's writable window reaches
  past the message's committed length plus the longest tap delay, no sample of the message is
  dropped, whatever the Doppler, the taps and the block split.\<close>

theorem static_message_fits:
  assumes "static_good r" and "static_message xss r = Inr (Some (r', cs))"
    and "pb_write_origin b + (sr_source_samples_processed r' + sr_max_tap_delta_samples r) \<le> pb_read_pos b + pb_capacity b"
  shows "pb_overflow_drops (apply_calls cs b) = pb_overflow_drops b"
  using static.message_within [OF static_message_message [OF assms(2)] assms(1)] assms(3) apply_calls_no_drop by blast

lemma stream_at_grows:
  assumes "rendered past r" and "rendered (past @ xs) r'" and "length (stream_at past r) \<le> length (stream_at (past @ xs) r')"
  shows "\<exists>G. stream_at (past @ xs) r' = stream_at past r @ G"
proof (cases "sr_source_samples_processed r = 0")
  case True
  then show ?thesis by (simp add: stream_at_def)
next
  case False
  then have "stream_at past r = dstream past" by (simp add: stream_at_def)
  moreover from this assms(3) have "stream_at (past @ xs) r' = dstream (past @ xs)" by (auto simp: stream_at_def split: if_splits)
  ultimately show ?thesis using dstream_append [of past xs] by metis
qed

lemma static_blocks_unity:
  assumes "rendered past r" and "\<forall>x \<in> set (past @ concat xss). f32 x = x"
  shows "\<exists>r' cs. static_blocks xss r = Inr (Some (r', cs)) \<and> rendered (past @ concat xss) r' \<and> same_setup r r' \<and>
    length (stream_at past r) \<le> length (stream_at (past @ concat xss) r') \<and>
    mset (adds_of cs) = tap_sum r (stream_at (past @ concat xss) r') (length (stream_at past r)) (length (stream_at (past @ concat xss) r'))"
  using assms
proof (induction xss arbitrary: past r)
  case Nil
  then show ?case by (simp add: tap_sum_def)
next
  case (Cons xs xss)
  from static_process_unity [OF Cons.prems(1), of xs] Cons.prems(2) obtain r1 cs where
    p: "static_process xs r = Inr (Some (r1, cs, length xs))" "rendered (past @ xs) r1" "same_setup r r1"
    "xs \<noteq> [] \<longrightarrow> settled (past @ xs) r1"
    "mset (adds_of cs) = tap_sum r (stream_at (past @ xs) r1) (length (stream_at past r)) (length (stream_at (past @ xs) r1))"
    by auto
  have le: "length (stream_at past r) \<le> length (stream_at (past @ xs) r1)"
  proof (cases "xs = []")
    case True
    with p(1) show ?thesis by (simp add: static_process_def)
  next
    case False
    with p(4) have "stream_at (past @ xs) r1 = dstream (past @ xs)" by (auto simp: settled_def streamed_def stream_at_def)
    then show ?thesis by (simp add: stream_at_def)
  qed
  have "\<forall>x \<in> set ((past @ xs) @ concat xss). f32 x = x" using Cons.prems(2) by auto
  from Cons.IH [OF p(2) this] obtain r' ds where
    i: "static_blocks xss r1 = Inr (Some (r', ds))" "rendered (past @ concat (xs # xss)) r'" "same_setup r1 r'"
    "length (stream_at (past @ xs) r1) \<le> length (stream_at (past @ concat (xs # xss)) r')"
    "mset (adds_of ds) = tap_sum r1 (stream_at (past @ concat (xs # xss)) r') (length (stream_at (past @ xs) r1))
      (length (stream_at (past @ concat (xs # xss)) r'))"
    by auto
  from stream_at_grows [OF p(2), of "concat xss" r'] i(2,4) obtain G where
    G: "stream_at (past @ concat (xs # xss)) r' = stream_at (past @ xs) r1 @ G" by auto
  have "mset (adds_of cs) = tap_sum r (stream_at (past @ concat (xs # xss)) r') (length (stream_at past r)) (length (stream_at (past @ xs) r1))"
    unfolding p(5) G by (rule tap_sum_prefix [symmetric]) simp
  moreover have "mset (adds_of ds) = tap_sum r (stream_at (past @ concat (xs # xss)) r') (length (stream_at (past @ xs) r1))
      (length (stream_at (past @ concat (xs # xss)) r'))"
    unfolding i(5) by (rule tap_sum_setup [OF p(3)])
  ultimately have "mset (adds_of (cs @ ds)) = tap_sum r (stream_at (past @ concat (xs # xss)) r') (length (stream_at past r))
      (length (stream_at (past @ concat (xs # xss)) r'))"
    using tap_sum_join [OF le i(4), of r "stream_at (past @ concat (xs # xss)) r'"] by simp
  with p(1) i(1,2) same_setup_trans [OF p(3) i(3)] le i(4) show ?case by auto
qed

definition drain_zeros :: "static_renderer \<Rightarrow> nat" where
  "drain_zeros r = (if sr_needs_hilbert r then max kFarrowDrainZeros (hb_group_delay (sr_hilbert r)) else kFarrowDrainZeros)"

lemma static_message_unity:
  assumes "static_good r" and "sr_clock_offset_ppm r = 0" and "sr_velocity_radial_m_s r = 0" and "sr_acceleration_radial_m_s2 r = 0"
    and "\<forall>x \<in> set (concat xss). f32 x = x"
    and "F = take (length (concat xss) + drain_zeros r + 1) (replicate 3 0 @ concat xss @ replicate (drain_zeros r) 0)"
  shows "\<exists>r' cs. static_message xss r = Inr (Some (r', cs)) \<and> mset (adds_of cs) =
    (\<Sum>tap \<in># mset (sr_taps r). image_mset (\<lambda>i. (i + rt_delta_samples tap, tap_out r F tap i)) (mset [0..<length F])) \<and>
    sr_source_samples_processed r' = length F"
proof -
  let ?xs = "concat xss" and ?z = "replicate (drain_zeros r) (0::real)"
  have un: "unity r" using assms(2-4) by (simp add: unity_def)
  let ?r0 = "r\<lparr>sr_resampler := farrow_reset (sr_resampler r),
      sr_hilbert := (if sr_needs_hilbert r then hilbert_reset (sr_hilbert r) else sr_hilbert r), sr_source_samples_processed := 0\<rparr>"
  have "unity ?r0" using un by (simp add: unity_def)
  from unity_refresh [OF this] obtain r0 where r0: "static_on_message_start r = Inr r0"
    "sr_resampler r0 = farrow_reset ((sr_resampler r)\<lparr>fr_ratio := 1, fr_step := 1\<rparr>)"
    by (auto simp: static_on_message_start_def farrow_reset_def)
  note st = static_start_streamed [OF r0(1) assms(1)]
  have ren0: "rendered [] r0"
    using un st r0(2) by (auto simp: rendered_def unity_def same_setup_def static_good_def)
  have e0: "stream_at [] r0 = []" using st(1) by (simp add: stream_at_def streamed_def)
  from static_blocks_unity [OF ren0, of xss] assms(5) e0 obtain r1 cs where
    b: "static_blocks xss r0 = Inr (Some (r1, cs))" "rendered ?xs r1" "same_setup r0 r1"
    "mset (adds_of cs) = tap_sum r0 (stream_at ?xs r1) 0 (length (stream_at ?xs r1))" by auto
  have dz: "(if sr_needs_hilbert r1 then cmax kFarrowDrainZeros (hb_group_delay (sr_hilbert r1)) else kFarrowDrainZeros) = drain_zeros r"
    using same_setup_trans [OF st(2) b(3)] by (simp add: drain_zeros_def same_setup_def)
  have z: "?z \<noteq> []" by (auto simp: drain_zeros_def kFarrowDrainZeros_def max_def)
  have "\<forall>x \<in> set (?xs @ ?z). f32 x = x" using assms(5) by auto
  from static_process_unity [OF b(2) this] z obtain r2 ds where
    p: "static_process ?z r1 = Inr (Some (r2, ds, length ?z))" "settled (?xs @ ?z) r2" "same_setup r1 r2"
    "mset (adds_of ds) = tap_sum r1 (stream_at (?xs @ ?z) r2) (length (stream_at ?xs r1)) (length (stream_at (?xs @ ?z) r2))"
    "rendered (?xs @ ?z) r2" by blast
  have "stream_at (?xs @ ?z) r2 = dstream (?xs @ ?z)" using p(2) by (auto simp: settled_def streamed_def stream_at_def)
  then have F: "stream_at (?xs @ ?z) r2 = F" using assms(6) by (simp add: dstream_def delayed3_def)
  have le: "length (stream_at ?xs r1) \<le> length F" unfolding F [symmetric] using p(2)
    by (auto simp: stream_at_def settled_def streamed_def)
  from stream_at_grows [OF b(2) p(5)] le F obtain G where G: "F = stream_at ?xs r1 @ G" by auto
  have "static_on_message_end r1 = Inr (Some (r2, ds @ [R_Extra (sr_max_tap_delta_samples r2)]))"
    unfolding static_on_message_end_def Let_def dz using p(1) by simp
  then have m: "static_message xss r = Inr (Some (r2, cs @ ds @ [R_Extra (sr_max_tap_delta_samples r2)]))"
    using r0(1) b(1) by (simp add: static_message_def)
  have "mset (adds_of cs) = tap_sum r F 0 (length (stream_at ?xs r1))"
    unfolding b(4) tap_sum_setup [OF st(2)] by (subst G, rule tap_sum_prefix [symmetric]) simp
  moreover have "mset (adds_of ds) = tap_sum r F (length (stream_at ?xs r1)) (length F)"
    unfolding p(4) F by (rule tap_sum_setup [OF same_setup_trans [OF st(2) b(3)]])
  ultimately have "mset (adds_of (cs @ ds @ [R_Extra (sr_max_tap_delta_samples r2)])) = tap_sum r F 0 (length F)"
    using tap_sum_join [OF _ le, of 0 r F] by simp
  moreover have "sr_source_samples_processed r2 = length F"
    using p(2) F by (auto simp: settled_def streamed_def stream_at_def split: if_splits)
  ultimately show ?thesis using m unfolding tap_sum_def by blast
qed

text \<open>C5: What a channel without motion does to a message. However its samples are split into
  blocks, starting, sending and ending the message succeeds, and what is added to the pair buffer is,
  tap by tap, the message delayed by the interpolator's three samples plus the tap's delay and
  multiplied by the tap's gain (with complex taps, the projection of its analytic signal), each sample
  exactly once: the drain zeros follow the samples and the stream ends one sample after them less the
  three in the interpolator.\<close>

theorem static_message_is_tap_sum:
  assumes "static_good r" and "sr_clock_offset_ppm r = 0" and "sr_velocity_radial_m_s r = 0" and "sr_acceleration_radial_m_s2 r = 0"
    and "\<forall>x \<in> set (concat xss). f32 x = x"
    and "F = take (length (concat xss) + drain_zeros r + 1) (replicate 3 0 @ concat xss @ replicate (drain_zeros r) 0)"
  shows "\<exists>r' cs. static_message xss r = Inr (Some (r', cs)) \<and> mset (adds_of cs) =
    (\<Sum>tap \<in># mset (sr_taps r). image_mset (\<lambda>i. (i + rt_delta_samples tap, tap_out r F tap i)) (mset [0..<length F]))"
  using static_message_unity [OF assms] by blast

text \<open>A renderer with a direct path and one echo.\<close>

definition echo_renderer :: static_renderer where
  "echo_renderer = \<lparr>sr_resampler = farrow_new, sr_hilbert = \<lparr>hb_length = 0, hb_group_delay = 0, hb_coeffs = [], hb_history = [], hb_write_pos = 0\<rparr>,
     sr_taps = [\<lparr>rt_delta_samples = 0, rt_gain = 1, rt_gain_imag = 0\<rparr>, \<lparr>rt_delta_samples = 2, rt_gain = 1/2, rt_gain_imag = 0\<rparr>],
     sr_base_delay_samples = 10, sr_max_tap_delta_samples = 2, sr_sample_rate = 500000, sr_clock_offset_ppm = 0,
     sr_sound_speed_m_s = 1500, sr_velocity_radial_m_s = 0, sr_acceleration_radial_m_s2 = 0,
     sr_needs_hilbert = False, sr_source_samples_processed = 0\<rparr>"

lemma echo_good: "static_good echo_renderer"
  by (auto simp: static_good_def echo_renderer_def taps_in_extent_def streamed_def)

lemma echo_sel:
  "sr_taps echo_renderer = [\<lparr>rt_delta_samples = 0, rt_gain = 1, rt_gain_imag = 0\<rparr>, \<lparr>rt_delta_samples = 2, rt_gain = 1/2, rt_gain_imag = 0\<rparr>]"
  "\<not> sr_needs_hilbert echo_renderer" "drain_zeros echo_renderer = 4"
  by (simp_all add: echo_renderer_def drain_zeros_def kFarrowDrainZeros_def)

lemma echo_facts:
  "\<forall>x \<in> set (concat [[1], [2 :: real]]). f32 x = x" "sr_clock_offset_ppm echo_renderer = 0"
  "sr_velocity_radial_m_s echo_renderer = 0" "sr_acceleration_radial_m_s2 echo_renderer = 0"
  "[0, 0, 0, 1, 2, 0, 0] = take (length (concat [[1], [2 :: real]]) + drain_zeros echo_renderer + 1)
     (replicate 3 0 @ concat [[1], [2]] @ replicate (drain_zeros echo_renderer) 0)"
proof -
  show "\<forall>x \<in> set (concat [[1], [2 :: real]]). f32 x = x" by (simp add: small_floats)
  show "sr_clock_offset_ppm echo_renderer = 0" "sr_velocity_radial_m_s echo_renderer = 0" "sr_acceleration_radial_m_s2 echo_renderer = 0"
    by (simp_all add: echo_renderer_def)
  show "[0, 0, 0, 1, 2, 0, 0] = take (length (concat [[1], [2 :: real]]) + drain_zeros echo_renderer + 1)
     (replicate 3 0 @ concat [[1], [2]] @ replicate (drain_zeros echo_renderer) 0)"
    unfolding echo_sel by (simp add: numeral_nat)
qed

theorem static_message_is_tap_sum_witness:
  "\<exists>r' cs. static_message [[1], [2]] echo_renderer = Inr (Some (r', cs)) \<and>
     (4, 2) \<in># mset (adds_of cs) \<and> (6, 1) \<in># mset (adds_of cs)"
proof -
  from static_message_is_tap_sum [OF echo_good echo_facts(2-4,1,5)] obtain r' cs where
    m: "static_message [[1], [2]] echo_renderer = Inr (Some (r', cs))"
    "mset (adds_of cs) = (\<Sum>tap \<in># mset (sr_taps echo_renderer). image_mset (\<lambda>i. (i + rt_delta_samples tap,
       tap_out echo_renderer [0, 0, 0, 1, 2, 0, 0] tap i)) (mset [0..<length [0, 0, 0, 1, 2, 0, 0 :: real]]))" by blast
  have "(4, 2) \<in># mset (adds_of cs) \<and> (6, 1) \<in># mset (adds_of cs)"
    unfolding m(2) by (simp add: echo_sel tap_out_def small_floats upt_conv_Cons)
  with m(1) show ?thesis by blast
qed

theorem static_message_fits_witness:
  "\<exists>r' cs. static_message [[1], [2]] echo_renderer = Inr (Some (r', cs)) \<and>
     pb_overflow_drops (apply_calls cs (begin_message 0 False (projr (pair_buffer_new 64 10)))) = 0"
proof -
  let ?b = "begin_message 0 False (projr (pair_buffer_new 64 10))"
  from static_message_unity [OF echo_good echo_facts(2-4,1,5)] obtain r' cs where
    m: "static_message [[1], [2]] echo_renderer = Inr (Some (r', cs))" "sr_source_samples_processed r' = 7" by auto
  have new: "pair_buffer_new 64 10 = Inr (projr (pair_buffer_new 64 10))"
    by (simp add: pair_buffer_new_def round_up_pow2_def pow2_loop.simps Let_def)
  have b: "pb_write_origin ?b = 10" "pb_read_pos ?b = 0" "pb_capacity ?b = 64" "pb_overflow_drops ?b = 0"
    by (simp_all add: pair_buffer_new_def round_up_pow2_def pow2_loop.simps Let_def begin_message_def)
  have "sr_max_tap_delta_samples echo_renderer = 2" by (simp add: echo_renderer_def)
  with static_message_fits [OF echo_good m(1), of ?b] m b show ?thesis by auto
qed

end
