(* ===== verification/Tap_Source.thy ===== *)
theory Tap_Source
  imports Tap_Trajectory
begin

text \<open>
  The tap providers of the read-style renderer: the interface of \<open>channel/model/tap_source.hpp\<close>
  as a record of functions with its contract as a locale, and the measured source of
  \<open>channel/model/replay/replay_tap_source.cpp\<close>.
\<close>

section \<open>The interface\<close>

record sourced_tap =
  st_delta_samples_frac :: real
  st_gain :: real

text \<open>\<open>taps_at\<close> takes the time and the capacity of the caller's array, and returns the taps it wrote.\<close>

record 's tap_source =
  src_on_message_start :: "'s \<Rightarrow> 's"
  src_taps_at :: "real \<Rightarrow> nat \<Rightarrow> 's \<Rightarrow> 's \<times> sourced_tap list"
  src_tap_count_max :: "'s \<Rightarrow> nat"
  src_max_tap_delta_samples :: "'s \<Rightarrow> nat"

locale tap_source_contract =
  fixes src :: "'s tap_source" and good :: "'s \<Rightarrow> bool"
  assumes start_good: "good s \<Longrightarrow> good (src_on_message_start src s)"
    and query_good: "good s \<Longrightarrow> good (fst (src_taps_at src t cap s))"
    and query_count: "good s \<Longrightarrow> length (snd (src_taps_at src t cap s)) = min (src_tap_count_max src s) cap"
    and start_sizes: "good s \<Longrightarrow> src_tap_count_max src (src_on_message_start src s) = src_tap_count_max src s \<and>
      src_max_tap_delta_samples src (src_on_message_start src s) = src_max_tap_delta_samples src s"
    and query_sizes: "good s \<Longrightarrow> src_tap_count_max src (fst (src_taps_at src t cap s)) = src_tap_count_max src s \<and>
      src_max_tap_delta_samples src (fst (src_taps_at src t cap s)) = src_max_tap_delta_samples src s"
begin

text \<open>The two queries of a block see the same number of taps: the renderer's minimum of the two
  counts never discards one.\<close>

lemma block_queries:
  assumes "good s" and "src_taps_at src t0 cap s = (s1, ts0)" and "src_taps_at src t1 cap s1 = (s2, ts1)"
  shows "good s2 \<and> length ts0 = length ts1 \<and> length ts0 = min (src_tap_count_max src s) cap \<and>
    src_tap_count_max src s2 = src_tap_count_max src s \<and>
    src_max_tap_delta_samples src s2 = src_max_tap_delta_samples src s"
  using query_good [OF assms(1), of t0 cap] query_count [OF assms(1), of t0 cap] query_sizes [OF assms(1), of t0 cap]
    query_good [of s1 t1 cap] query_count [of s1 t1 cap] query_sizes [of s1 t1 cap] assms(2,3) by simp

end

section \<open>The replay source\<close>

record replay_source =
  rs_trajectory :: tap_trajectory
  rs_offset_s :: real
  rs_advance_per_message :: bool
  rs_wrap_if_remaining_lt_s :: real
  rs_sample_rate :: real
  rs_max_tap_delta_samples :: nat
  rs_message_offset_s :: real
  rs_max_t_seen_s :: real
  rs_started_once :: bool
  rs_past_end_warned :: bool

definition replay_source_new :: "tap_trajectory \<Rightarrow> replay_config \<Rightarrow> nat \<Rightarrow> replay_source" where
  "replay_source_new trajectory config sample_rate =
    (let rate = f64 (real sample_rate)
     in \<lparr>rs_trajectory = trajectory, rs_offset_s = rp_offset_s config,
         rs_advance_per_message = rp_advance_per_message config,
         rs_wrap_if_remaining_lt_s = rp_wrap_if_remaining_lt_s config, rs_sample_rate = rate,
         rs_max_tap_delta_samples = nat \<lceil>dmul (th_max_delay_s (tj_header trajectory)) rate\<rceil>,
         rs_message_offset_s = rp_offset_s config, rs_max_t_seen_s = 0, rs_started_once = False,
         rs_past_end_warned = False\<rparr>)"

definition replay_on_message_start :: "replay_source \<Rightarrow> replay_source" where
  "replay_on_message_start s =
    (let s = (if \<not> rs_advance_per_message s then s\<lparr>rs_message_offset_s := rs_offset_s s\<rparr>
       else let s = (if rs_started_once s
              then s\<lparr>rs_message_offset_s := dadd (rs_message_offset_s s) (rs_max_t_seen_s s)\<rparr>
              else s\<lparr>rs_message_offset_s := rs_offset_s s\<rparr>)
         in if 0 < rs_wrap_if_remaining_lt_s s \<and>
               dsub (duration_s (rs_trajectory s)) (rs_message_offset_s s) < rs_wrap_if_remaining_lt_s s
            then s\<lparr>rs_message_offset_s := 0\<rparr> else s)
     in s\<lparr>rs_started_once := True, rs_max_t_seen_s := 0, rs_past_end_warned := False\<rparr>)"

definition past_end_ramp :: "tap_trajectory \<Rightarrow> real \<Rightarrow> real" where
  "past_end_ramp t record_t =
    (if duration_s t < record_t
     then cmax 0 (dsub 1 (ddiv (dsub record_t (duration_s t)) (th_dt_s (tj_header t)))) else 1)"

definition replay_taps_at :: "real \<Rightarrow> nat \<Rightarrow> replay_source \<Rightarrow> replay_source \<times> sourced_tap list" where
  "replay_taps_at t_seconds capacity s =
    (let s = s\<lparr>rs_max_t_seen_s := cmax (rs_max_t_seen_s s) t_seconds\<rparr>;
         record_t = dadd (rs_message_offset_s s) t_seconds;
         s = (if duration_s (rs_trajectory s) < record_t then s\<lparr>rs_past_end_warned := True\<rparr> else s);
         ramp = past_end_ramp (rs_trajectory s) record_t;
         n = cmin (th_tap_count (tj_header (rs_trajectory s))) capacity
     in (s, map (\<lambda>k. let p = trajectory_sample (rs_trajectory s) k record_t
           in \<lparr>st_delta_samples_frac = dmul (sm_delay_s p) (rs_sample_rate s),
               st_gain = fmul (sm_amplitude p) (f32 ramp)\<rparr>) [0..<n]))"

definition replay_ops :: "replay_source tap_source" where
  "replay_ops = \<lparr>src_on_message_start = replay_on_message_start, src_taps_at = replay_taps_at,
     src_tap_count_max = (\<lambda>s. th_tap_count (tj_header (rs_trajectory s))),
     src_max_tap_delta_samples = rs_max_tap_delta_samples\<rparr>"

lemma replay_frame:
  "rs_trajectory (replay_on_message_start s) = rs_trajectory s"
  "rs_max_tap_delta_samples (replay_on_message_start s) = rs_max_tap_delta_samples s"
  "rs_trajectory (fst (replay_taps_at t cap s)) = rs_trajectory s"
  "rs_max_tap_delta_samples (fst (replay_taps_at t cap s)) = rs_max_tap_delta_samples s"
  "rs_message_offset_s (fst (replay_taps_at t cap s)) = rs_message_offset_s s"
  "rs_max_t_seen_s (fst (replay_taps_at t cap s)) = max (rs_max_t_seen_s s) t"
  "rs_advance_per_message (fst (replay_taps_at t cap s)) = rs_advance_per_message s"
  "rs_started_once (fst (replay_taps_at t cap s)) = rs_started_once s"
  "rs_wrap_if_remaining_lt_s (fst (replay_taps_at t cap s)) = rs_wrap_if_remaining_lt_s s"
  by (simp_all add: replay_on_message_start_def replay_taps_at_def Let_def)

interpretation replay_source: tap_source_contract replay_ops "\<lambda>s. True"
  by unfold_locales (simp_all add: replay_ops_def replay_frame, simp add: replay_taps_at_def Let_def)

section \<open>What the replay source plays\<close>

lemma past_end_ramp_zero:
  assumes "0 < th_dt_s (tj_header t)" and "th_dt_s (tj_header t) \<le> dsub r (duration_s t)" and "duration_s t < r"
  shows "past_end_ramp t r = 0"
proof -
  have "f64 1 \<le> ddiv (dsub r (duration_s t)) (th_dt_s (tj_header t))"
    by (rule f64_mono) (use assms in simp)
  then have "dsub 1 (ddiv (dsub r (duration_s t)) (th_dt_s (tj_header t))) \<le> 0" by (intro f64_nonpos) simp
  with assms(3) show ?thesis by (simp add: past_end_ramp_def)
qed

lemma trajectory_amplitude_facts: "0 \<le> sm_amplitude (trajectory_sample t k r)"
    "f32 (sm_amplitude (trajectory_sample t k r)) = sm_amplitude (trajectory_sample t k r)"
  by (simp_all add: trajectory_sample_def Let_def f32_nonneg)

text \<open>The end of a record: the spline of a track at the right end of its last interval, where the last frame
  stands in for the one after it.\<close>

definition end_value :: "tap_trajectory \<Rightarrow> real list \<Rightarrow> nat \<Rightarrow> real" where
  "end_value j xs k = (let taps = th_tap_count (tj_header j); frames = th_frame_count (tj_header j); x = (\<lambda>f. xs ! (f * taps + k))
     in catmull_rom_d (x (frames - 3)) (x (frames - 2)) (x (frames - 1)) (x (frames - 1)) 1)"

lemma past_end_clamps:
  assumes "trajectory_ok j" and "duration_s j < r" and "f64 r = r"
  shows "cclamp (ddiv r (th_dt_s (tj_header j))) 0 (f64 (real (th_frame_count (tj_header j) - 1))) = real (th_frame_count (tj_header j) - 1)"
proof -
  let ?last = "real (th_frame_count (tj_header j) - 1)" and ?dt = "th_dt_s (tj_header j)"
  have ok: "0 < ?dt" "th_frame_count (tj_header j) < 2 ^ 32" using assms(1) by (simp_all add: trajectory_ok_def Let_def)
  have l: "f64 ?last = ?last" by (rule f64_of_nat) (use ok(2) in simp)
  have "?last * ?dt \<le> r"
  proof (rule ccontr)
    assume "\<not> ?last * ?dt \<le> r"
    then have "f64 r \<le> f64 (?last * ?dt)" by (intro f64_mono) simp
    with assms(2,3) l show False by (simp add: duration_s_def)
  qed
  then have "?last \<le> r / ?dt" using ok(1) by (simp add: pos_le_divide_eq)
  then have "f64 ?last \<le> ddiv r ?dt" by (rule f64_mono)
  then show ?thesis using l by (auto simp: cclamp_def)
qed

lemma past_end_sample:
  assumes "trajectory_ok j" and "duration_s j < r" and "f64 r = r"
  shows "trajectory_sample j k r = \<lparr>sm_delay_s = end_value j (tj_delays j) k, sm_amplitude = f32 (max (end_value j (tj_amplitudes j) k) 0)\<rparr>"
proof -
  let ?n = "th_frame_count (tj_header j)"
  have n: "2 \<le> ?n" "?n < 2 ^ 32" using assms(1) by (simp_all add: trajectory_ok_def Let_def)
  have i: "cmin (nat (ctrunc (real (?n - 1)))) (?n - 1 - 1) = ?n - 2" by simp
  have small: "f64 (real (?n - 2)) = real (?n - 2)" by (rule f64_of_nat) (use n(2) in simp)
  have step: "a - b = 1 \<Longrightarrow> f64 b = b \<Longrightarrow> dsub a (f64 b) = 1" for a b :: real by simp
  have mu: "dsub (real (?n - 1)) (f64 (real (?n - 2))) = 1" by (rule step [OF _ small]) (use n(1) in simp)
  have ix: "(if ?n - 2 = 0 then 0 else ?n - 2 - 1) = ?n - 3" "?n - 2 + 1 = ?n - 1" "cmin (?n - 2 + 2) (?n - 1) = ?n - 1"
    using n(1) by auto
  show ?thesis
    unfolding trajectory_sample_def Let_def past_end_clamps [OF assms] i mu ix end_value_def by simp
qed

text \<open>C30: What one query of the replay source writes, one tap per trajectory tap that fits, at record time \<open>r\<close>
  (message offset plus message time). Up to the end of the record, each tap has the delay in samples and the
  amplitude of the interpolated record, at the time of a frame exactly those stored. Past the end every delay is
  held at the value of the track's end, whatever \<open>r\<close>, and every gain is the amplitude there times a ramp that falls
  linearly from one at the end to zero one frame interval later, and stays zero.\<close>

theorem replay_taps_follow_record:
  fixes s :: replay_source and t :: real
  assumes "trajectory_ok (rs_trajectory s)"
  defines "r \<equiv> dadd (rs_message_offset_s s) t" and "j \<equiv> rs_trajectory s" and "rate \<equiv> rs_sample_rate s"
  defines "taps \<equiv> th_tap_count (tj_header j)" and "dt \<equiv> th_dt_s (tj_header j)" and "past \<equiv> dsub r (duration_s j)"
  shows "(r \<le> duration_s j \<longrightarrow> snd (replay_taps_at t cap s) =
      map (\<lambda>k. \<lparr>st_delta_samples_frac = dmul (sm_delay_s (trajectory_sample j k r)) rate,
                st_gain = sm_amplitude (trajectory_sample j k r)\<rparr>) [0..<min taps cap]) \<and>
    (\<forall>i. r \<le> duration_s j \<and> i + 1 < th_frame_count (tj_header j) \<and> ddiv r dt = real i \<longrightarrow> snd (replay_taps_at t cap s) =
      map (\<lambda>k. \<lparr>st_delta_samples_frac = dmul (tj_delays j ! (i * taps + k)) rate,
                st_gain = tj_amplitudes j ! (i * taps + k)\<rparr>) [0..<min taps cap]) \<and>
    (duration_s j < r \<longrightarrow> snd (replay_taps_at t cap s) =
      map (\<lambda>k. \<lparr>st_delta_samples_frac = dmul (end_value j (tj_delays j) k) rate,
                st_gain = fmul (f32 (max (end_value j (tj_amplitudes j) k) 0)) (f32 (max 0 (dsub 1 (ddiv past dt))))\<rparr>)
        [0..<min taps cap]) \<and>
    (duration_s j < r \<and> dt \<le> past \<longrightarrow> (\<forall>p \<in> set (snd (replay_taps_at t cap s)). st_gain p = 0))"
proof -
  have dt: "0 < th_dt_s (tj_header j)" using assms(1) by (simp add: j_def trajectory_ok_def Let_def)
  have ok: "trajectory_ok j" and r: "f64 r = r" using assms(1) by (simp_all add: j_def r_def)
  have written: "snd (replay_taps_at t cap s) = map (\<lambda>k. \<lparr>st_delta_samples_frac = dmul (sm_delay_s (trajectory_sample j k r)) rate,
      st_gain = fmul (sm_amplitude (trajectory_sample j k r)) (f32 (past_end_ramp j r))\<rparr>) [0..<min taps cap]"
    by (simp add: replay_taps_at_def Let_def r_def j_def rate_def taps_def)
  have inside: "snd (replay_taps_at t cap s) = map (\<lambda>k. \<lparr>st_delta_samples_frac = dmul (sm_delay_s (trajectory_sample j k r)) rate,
      st_gain = sm_amplitude (trajectory_sample j k r)\<rparr>) [0..<min taps cap]" if "r \<le> duration_s j"
    using that trajectory_amplitude_facts(2) unfolding written by (simp add: past_end_ramp_def)
  have frame: "snd (replay_taps_at t cap s) = map (\<lambda>k. \<lparr>st_delta_samples_frac = dmul (tj_delays j ! (i * taps + k)) rate,
      st_gain = tj_amplitudes j ! (i * taps + k)\<rparr>) [0..<min taps cap]"
    if at: "r \<le> duration_s j \<and> i + 1 < th_frame_count (tj_header j) \<and> ddiv r dt = real i" for i
  proof -
    have "trajectory_sample j k r = \<lparr>sm_delay_s = tj_delays j ! (i * taps + k), sm_amplitude = tj_amplitudes j ! (i * taps + k)\<rparr>"
      if "k < taps" for k
      using trajectory_sample_correct [OF ok, of k i r] that at unfolding dt_def taps_def by blast
    then show ?thesis using at inside by simp
  qed
  have past: "past_end_ramp j r = max 0 (dsub 1 (ddiv past dt))" if "duration_s j < r"
    using that by (simp add: past_end_ramp_def past_def dt_def)
  have "f32 (past_end_ramp j r) = 0" if "duration_s j < r \<and> dt \<le> past"
    using past_end_ramp_zero [OF dt, of r] that by (simp add: dt_def past_def)
  with inside frame past past_end_sample [OF ok _ r] show ?thesis
    by (intro conjI) (simp_all add: written)
qed

lemma bump_duration: "duration_s bump = 3"
  using f64_of_nat [of 3] by (simp add: duration_s_def bump_def)

lemma bump_end: "end_value bump (tj_delays bump) 0 = 0" "end_value bump (tj_amplitudes bump) 0 = 1"
proof -
  have e: "f64 (3/8) = 3/8" "f64 4 = 4" "f64 5 = 5" using f64_of_nat [of 4] f64_of_nat [of 5] f64_binary_fraction [of 3 3] by simp_all
  show "end_value bump (tj_delays bump) 0 = 0" "end_value bump (tj_amplitudes bump) 0 = 1"
    by (simp_all add: end_value_def bump_def Let_def catmull_rom_d_def small_doubles e)
qed

theorem replay_taps_follow_record_witness:
  "let s = replay_source_new bump default_replay 8
   in snd (replay_taps_at (7/2) 8 s) = [\<lparr>st_delta_samples_frac = 0, st_gain = 1/2\<rparr>] \<and>
      snd (replay_taps_at 5 8 s) = [\<lparr>st_delta_samples_frac = 0, st_gain = 0\<rparr>] \<and>
      snd (replay_taps_at 1 8 s) = [\<lparr>st_delta_samples_frac = 1, st_gain = 1\<rparr>]"
proof -
  let ?s = "replay_source_new bump default_replay 8"
  have f: "f64 5 = 5" "f64 2 = 2" "f64 8 = 8" "f64 (7/2) = 7/2" "f32 (1/2) = 1/2"
    using f64_of_nat [of 5] f64_of_nat [of 2] f64_of_nat [of 8] f64_binary_fraction [of 7 1] f32_dyadic [of 1 "- 1"] by simp_all
  have sel: "rs_trajectory ?s = bump" "rs_message_offset_s ?s = 0" "rs_sample_rate ?s = 8"
    by (simp_all add: replay_source_new_def default_replay_def Let_def f)
  note h = replay_taps_follow_record [where s = ?s, unfolded sel, OF bump_ok]
  have dt: "th_dt_s (tj_header bump) = 1" "th_tap_count (tj_header bump) = 1" "th_frame_count (tj_header bump) = 4" by (simp_all add: bump_def)
  have "snd (replay_taps_at (7/2) 8 ?s) = [\<lparr>st_delta_samples_frac = 0, st_gain = 1/2\<rparr>]"
    using h [where t = "7/2" and cap = 8] by (simp add: f dt bump_duration bump_end small_doubles)
  moreover have "snd (replay_taps_at 5 8 ?s) = [\<lparr>st_delta_samples_frac = 0, st_gain = 0\<rparr>]"
    using h [where t = 5 and cap = 8] by (simp add: f dt bump_duration bump_end small_doubles)
  moreover have "tj_delays bump ! 1 = 1/8" "tj_amplitudes bump ! 1 = 1" by (simp_all add: bump_def)
  then have "snd (replay_taps_at 1 8 ?s) = [\<lparr>st_delta_samples_frac = 1, st_gain = 1\<rparr>]"
    using h [where t = 1 and cap = 8, THEN conjunct2, THEN conjunct1, rule_format, of 1] by (simp add: f dt bump_duration)
  ultimately show ?thesis by (simp add: Let_def)
qed

fun replay_queries :: "real list \<Rightarrow> nat \<Rightarrow> replay_source \<Rightarrow> replay_source" where
  "replay_queries [] cap s = s"
| "replay_queries (t # ts) cap s = replay_queries ts cap (fst (replay_taps_at t cap s))"

lemma replay_queries_frame:
  "rs_trajectory (replay_queries ts cap s) = rs_trajectory s \<and>
   rs_message_offset_s (replay_queries ts cap s) = rs_message_offset_s s \<and>
   rs_advance_per_message (replay_queries ts cap s) = rs_advance_per_message s \<and>
   rs_offset_s (replay_queries ts cap s) = rs_offset_s s \<and>
   rs_wrap_if_remaining_lt_s (replay_queries ts cap s) = rs_wrap_if_remaining_lt_s s \<and>
   rs_started_once (replay_queries ts cap s) = rs_started_once s \<and>
   rs_max_t_seen_s (replay_queries ts cap s) = foldl max (rs_max_t_seen_s s) ts"
proof (induction ts arbitrary: s)
  case (Cons t ts)
  have "rs_offset_s (fst (replay_taps_at t cap s)) = rs_offset_s s" by (simp add: replay_taps_at_def Let_def)
  then show ?case using Cons.IH [of "fst (replay_taps_at t cap s)"] by (simp add: replay_frame)
qed simp

text \<open>The replay clock. After a message whose queries reached \<open>m\<close> seconds, an advancing source
  starts the next message where that one ended, unless less of the record than the configured dead
  zone would be left, when it wraps to the start; a fixed source starts every message at its configured
  offset. A message's queries do not move the clock.\<close>

theorem replay_clock:
  defines "restart \<equiv> \<lambda>s ts cap. replay_on_message_start (replay_queries ts cap (replay_on_message_start s))"
  shows "(\<not> rs_advance_per_message s \<longrightarrow> rs_message_offset_s (restart s ts cap) = rs_offset_s s) \<and>
    (rs_advance_per_message s \<longrightarrow> rs_message_offset_s (restart s ts cap) =
      (let ended = dadd (rs_message_offset_s (replay_on_message_start s)) (foldl max 0 ts)
       in if 0 < rs_wrap_if_remaining_lt_s s \<and> dsub (duration_s (rs_trajectory s)) ended < rs_wrap_if_remaining_lt_s s
          then 0 else ended)) \<and>
    rs_message_offset_s (replay_queries ts cap s) = rs_message_offset_s s"
proof -
  let ?s1 = "replay_on_message_start s"
  have f: "rs_advance_per_message ?s1 = rs_advance_per_message s" "rs_started_once ?s1"
    "rs_wrap_if_remaining_lt_s ?s1 = rs_wrap_if_remaining_lt_s s" "rs_offset_s ?s1 = rs_offset_s s"
    "rs_max_t_seen_s ?s1 = 0" "rs_trajectory ?s1 = rs_trajectory s"
    by (simp_all add: replay_on_message_start_def Let_def)
  note q = replay_queries_frame [of ts cap ?s1, unfolded f]
  have step: "rs_message_offset_s (replay_on_message_start x) =
    (if \<not> rs_advance_per_message x then rs_offset_s x
     else let e = (if rs_started_once x then dadd (rs_message_offset_s x) (rs_max_t_seen_s x) else rs_offset_s x)
       in if 0 < rs_wrap_if_remaining_lt_s x \<and> dsub (duration_s (rs_trajectory x)) e < rs_wrap_if_remaining_lt_s x
          then 0 else e)" for x
    by (simp add: replay_on_message_start_def Let_def)
  show ?thesis
    unfolding restart_def step [of "replay_queries ts cap ?s1"] using q f(2) replay_queries_frame [of ts cap s]
    by (simp add: Let_def)
qed

theorem replay_clock_witness:
  "rs_message_offset_s (replay_on_message_start (replay_queries [0, 1, 2] 8 (replay_on_message_start
     (replay_source_new bump (default_replay\<lparr>rp_advance_per_message := True\<rparr>) 8)))) = 2"
  using replay_clock [of "replay_source_new bump (default_replay\<lparr>rp_advance_per_message := True\<rparr>) 8" "[0, 1, 2]" 8]
  by (simp add: replay_source_new_def default_replay_def Let_def replay_on_message_start_def small_doubles)

end
