(* ===== verification/Geometric.thy ===== *)
theory Geometric
  imports Tap_Source Levels
begin

text \<open>
  The method-of-images channel: \<open>channel/model/geometric/geometric_scene.cpp\<close> and
  \<open>geometric_tap_source.cpp\<close>. The output arrays become the lists of entries written. The sort is
  by length; entries of equal length keep their table order (the library's sort leaves that open,
  and is an insertion sort at these sizes). Lengths are positive: the code divides by a power of them.
\<close>

section \<open>The scene\<close>

record path_tap =
  pt_length_m :: real
  pt_reflection_product :: real
  pt_has_surface_bounce :: bool
  pt_has_bottom_bounce :: bool

record candidate =
  ca_order :: int
  ca_dz :: real
  ca_gamma_product :: real
  ca_has_surface :: bool
  ca_has_bottom :: bool
  ca_enabled :: bool

definition clamp_sound_speed_geom :: "real \<Rightarrow> real" where
  "clamp_sound_speed_geom c = (if 0 < c then c else 1500)"

definition scene_candidates :: "geometric_scene_config \<Rightarrow> candidate list" where
  "scene_candidates geom =
    (let zs = ge_source_depth_m geom; zr = ge_receiver_depth_m geom; d = ge_water_depth_m geom;
         gs = ge_gamma_surface geom; gb = ge_gamma_bottom geom; d2 = fmul 2 d; d4 = fmul 4 d;
         c = (\<lambda>order dz gamma surface bottom enabled. \<lparr>ca_order = order, ca_dz = dz, ca_gamma_product = gamma,
           ca_has_surface = surface, ca_has_bottom = bottom, ca_enabled = enabled\<rparr>)
     in [c 0 (fsub zs zr) 1 False False (ge_enable_direct geom),
         c 1 (fadd zs zr) gs True False (ge_enable_surface geom),
         c 1 (fsub (fsub d2 zs) zr) gb False True (ge_enable_bottom geom),
         c 2 (fadd (fsub d2 zs) zr) (fmul gs gb) True True (ge_enable_surface_bottom geom),
         c 2 (fsub (fadd d2 zs) zr) (fmul gs gb) True True (ge_enable_bottom_surface geom),
         c 3 (fadd (fadd d2 zs) zr) (fmul (fmul gs gs) gb) True True True,
         c 3 (fsub (fsub d4 zs) zr) (fmul (fmul gs gb) gb) True True True,
         c 4 (fsub (fadd d4 zs) zr) (fmul (fmul (fmul gs gs) gb) gb) True True True,
         c 4 (fadd (fsub d4 zs) zr) (fmul (fmul (fmul gs gs) gb) gb) True True True])"

definition path_of :: "real \<Rightarrow> candidate \<Rightarrow> path_tap" where
  "path_of range_m c =
    \<lparr>pt_length_m = f32 (sqrt (fadd (fmul range_m range_m) (fmul (ca_dz c) (ca_dz c)))),
     pt_reflection_product = ca_gamma_product c, pt_has_surface_bounce = ca_has_surface c,
     pt_has_bottom_bounce = ca_has_bottom c\<rparr>"

definition candidate_active :: "int \<Rightarrow> candidate \<Rightarrow> bool" where
  "candidate_active max_b c \<longleftrightarrow> \<not> (max_b < ca_order c \<or> \<not> ca_enabled c)"

definition compute_paths :: "geometric_scene_config \<Rightarrow> real \<Rightarrow> path_tap list" where
  "compute_paths geom range_m =
    (let max_b = cclamp (ge_max_bounces geom) 0 kMaxImageOrder
     in sort_key pt_length_m (map (path_of range_m) (filter (candidate_active max_b) (scene_candidates geom))))"

text \<open>Excess over the anchor length in samples, and the gain of one path.\<close>

definition geom_resolve ::
  "geometric_scene_config \<Rightarrow> environment_config \<Rightarrow> path_tap \<Rightarrow> real \<Rightarrow> real \<Rightarrow> bool \<Rightarrow> real \<Rightarrow> sourced_tap" where
  "geom_resolve geom env path direct_length_m center_freq_hz saltwater sample_rate_hz =
    (let c_sound = clamp_sound_speed_geom (en_sound_speed_m_s env);
         excess_s = cmax 0 (ddiv (dsub (pt_length_m path) direct_length_m) c_sound);
         fc_khz = fdiv center_freq_hz 1000;
         alpha = thorp_absorption_db_per_km fc_khz saltwater;
         thorp_lin = fpow10 (fdiv (- fdiv (fmul alpha (pt_length_m path)) 1000) 20);
         spread = f32 (pt_length_m path powr fmul (ge_spreading_exponent_k geom) (1/2))
     in \<lparr>st_delta_samples_frac = dmul excess_s sample_rate_hz,
         st_gain = fmul (fdiv (pt_reflection_product path) spread) thorp_lin\<rparr>)"

section \<open>The tap source\<close>

definition clamp_sound_speed_d :: "real \<Rightarrow> real" where
  "clamp_sound_speed_d configured = (if 0 < configured then configured else 1500)"

definition env_from :: "channel_config \<Rightarrow> environment_config" where
  "env_from config = default_environment\<lparr>en_sound_speed_m_s := ch_sound_speed_m_s config,
     en_saltwater := ch_saltwater config, en_spreading_factor := ch_spreading_factor config\<rparr>"

record geometric_source =
  gs_geom :: geometric_scene_config
  gs_env :: environment_config
  gs_cfg_initial_range_m :: real
  gs_range_m :: real
  gs_velocity_m_s :: real
  gs_acceleration_m_s2 :: real
  gs_r_min_m :: real
  gs_r_max_m :: real
  gs_center_fc_hz :: real
  gs_saltwater :: bool
  gs_sample_rate :: nat
  gs_initial_range_m :: real
  gs_r_min_anchor_len_m :: real
  gs_tap_count :: nat
  gs_base_delay_samples :: nat
  gs_max_tap_delta_samples :: nat
  gs_sdl_worst_excess_samples :: nat

definition geometric_on_message_start :: "geometric_source \<Rightarrow> geometric_source" where
  "geometric_on_message_start s = s\<lparr>gs_initial_range_m :=
     (if 0 < gs_cfg_initial_range_m s then gs_cfg_initial_range_m s else gs_range_m s)\<rparr>"

definition geometric_source_new :: "channel_config \<Rightarrow> real \<Rightarrow> nat \<Rightarrow> error + geometric_source" where
  "geometric_source_new config source_center_fc_hz sample_rate =
    (let geom = ch_geometry config;
         sound_speed = clamp_sound_speed_d (ch_sound_speed_m_s config);
         paths_rmin = compute_paths geom (ge_r_min_m geom);
         paths_rmax = compute_paths geom (ge_r_max_m geom);
         rate = f64 (real sample_rate)
     in if paths_rmin = [] then Inl (Invalid_Argument ''Channel: geometric mode requires at least one enabled path'')
        else let anchor = pt_length_m (hd paths_rmin);
                 base_delay = nat (cround (dmul (ddiv anchor sound_speed) rate))
             in if paths_rmax = [] then Inl (Invalid_Argument
                     ''Channel: geometric mode requires at least one enabled path at r_max'')
                else let worst_len = pt_length_m (last paths_rmax);
                         worst_excess_s = cmax 0 (fdiv (fsub worst_len anchor) (f32 sound_speed));
                         max_tap_delta = nat (cround (fmul worst_excess_s (f32 (real sample_rate))));
                         rmin_worst_s = cmax 0 (ddiv (dsub (pt_length_m (last paths_rmin)) anchor) sound_speed);
                         rmax_worst_s = cmax 0 (ddiv (dsub worst_len anchor) sound_speed)
                     in Inr (geometric_on_message_start
                         \<lparr>gs_geom = geom, gs_env = env_from config, gs_cfg_initial_range_m = ch_initial_range_m config,
                          gs_range_m = ch_range_m config, gs_velocity_m_s = ch_velocity_radial_m_s config,
                          gs_acceleration_m_s2 = ch_acceleration_radial_m_s2 config,
                          gs_r_min_m = ge_r_min_m geom, gs_r_max_m = ge_r_max_m geom,
                          gs_center_fc_hz = source_center_fc_hz, gs_saltwater = ch_saltwater config,
                          gs_sample_rate = sample_rate, gs_initial_range_m = 0, gs_r_min_anchor_len_m = anchor,
                          gs_tap_count = cmax (length paths_rmin) (length paths_rmax),
                          gs_base_delay_samples = base_delay, gs_max_tap_delta_samples = max_tap_delta,
                          gs_sdl_worst_excess_samples =
                            cmax (nat \<lceil>dmul rmin_worst_s rate\<rceil>) (nat \<lceil>dmul rmax_worst_s rate\<rceil>)\<rparr>))"

definition range_at_source_time :: "real \<Rightarrow> geometric_source \<Rightarrow> real" where
  "range_at_source_time t s = f32 (dadd (dadd (gs_initial_range_m s) (dmul (gs_velocity_m_s s) t))
     (dmul (dmul (dmul (1/2) (gs_acceleration_m_s2 s)) t) t))"

definition geometric_taps_at :: "real \<Rightarrow> nat \<Rightarrow> geometric_source \<Rightarrow> geometric_source \<times> sourced_tap list" where
  "geometric_taps_at t capacity s =
    (let r_clamped = cclamp (range_at_source_time t s) (gs_r_min_m s) (gs_r_max_m s);
         paths = compute_paths (gs_geom s) r_clamped;
         n_out = cmin (length paths) capacity
     in (s, map (\<lambda>p. geom_resolve (gs_geom s) (gs_env s) p (gs_r_min_anchor_len_m s) (gs_center_fc_hz s)
               (gs_saltwater s) (f32 (real (gs_sample_rate s)))) (take n_out paths)))"

definition geometric_ops :: "geometric_source tap_source" where
  "geometric_ops = \<lparr>src_on_message_start = geometric_on_message_start, src_taps_at = geometric_taps_at,
     src_tap_count_max = gs_tap_count, src_max_tap_delta_samples = gs_max_tap_delta_samples\<rparr>"

section \<open>Paths over the range\<close>

abbreviation active_candidates :: "geometric_scene_config \<Rightarrow> candidate list" where
  "active_candidates geom \<equiv> filter (candidate_active (cclamp (ge_max_bounces geom) 0 kMaxImageOrder)) (scene_candidates geom)"

lemma compute_paths_set: "set (compute_paths geom r) = path_of r ` set (active_candidates geom)"
  by (simp add: compute_paths_def Let_def)

lemma length_compute_paths: "length (compute_paths geom r) = length (active_candidates geom)"
  by (simp add: compute_paths_def Let_def)

lemma compute_paths_sorted: "sorted (map pt_length_m (compute_paths geom r))"
  by (simp add: compute_paths_def Let_def)

lemma compute_paths_hd:
  assumes "p \<in> set (compute_paths geom r)"
  shows "pt_length_m (hd (compute_paths geom r)) \<le> pt_length_m p"
    and "pt_length_m p \<le> pt_length_m (last (compute_paths geom r))"
proof -
  let ?ps = "compute_paths geom r"
  obtain i where i: "i < length ?ps" "?ps ! i = p" using assms by (auto simp: in_set_conv_nth)
  note nth = sorted_nth_mono [OF compute_paths_sorted [of geom r]]
  have ne: "?ps \<noteq> []" "0 < length ?ps" using i by auto
  from i nth [of 0 i] ne show "pt_length_m (hd ?ps) \<le> pt_length_m p"
    by (simp add: hd_conv_nth)
  from i nth [of i "length ?ps - 1"] show "pt_length_m p \<le> pt_length_m (last ?ps)"
    by (subst last_conv_nth) auto
qed

lemma path_length_mono:
  "0 \<le> r \<Longrightarrow> r \<le> r' \<Longrightarrow> pt_length_m (path_of r c) \<le> pt_length_m (path_of r' c)"
  unfolding path_of_def path_tap.simps
  by (intro f32_mono real_sqrt_le_mono add_right_mono mult_mono) auto

lemma paths_between:
  assumes "p \<in> set (compute_paths geom r)" and "0 \<le> lo" and "lo \<le> r" and "r \<le> hi"
  shows "pt_length_m (hd (compute_paths geom lo)) \<le> pt_length_m p"
    and "pt_length_m p \<le> pt_length_m (last (compute_paths geom hi))"
proof -
  obtain c where c: "c \<in> set (active_candidates geom)" "p = path_of r c" using assms(1) unfolding compute_paths_set by auto
  then have "path_of lo c \<in> set (compute_paths geom lo)" "path_of hi c \<in> set (compute_paths geom hi)"
    unfolding compute_paths_set by blast+
  note ends = compute_paths_hd(1) [OF this(1)] compute_paths_hd(2) [OF this(2)]
    path_length_mono [of lo r c] path_length_mono [of r hi c]
  show "pt_length_m (hd (compute_paths geom lo)) \<le> pt_length_m p" using ends assms(2-4) unfolding c(2) by linarith
  show "pt_length_m p \<le> pt_length_m (last (compute_paths geom hi))" using ends assms(2-4) unfolding c(2) by linarith
qed

lemma scene_candidates_orders: "map ca_order (scene_candidates geom) = [0, 1, 1, 2, 2, 3, 3, 4, 4]"
  by (simp add: scene_candidates_def Let_def)

lemma paths_bounded: "length (compute_paths geom r) \<le> MAX_GEOMETRIC_PATHS"
proof -
  have "length (scene_candidates geom) = 9" using arg_cong [OF scene_candidates_orders, of length] by simp
  then show ?thesis unfolding length_compute_paths MAX_GEOMETRIC_PATHS_def kMaxImageOrder_def
    using length_filter_le [of _ "scene_candidates geom"] by simp
qed

text \<open>With every toggle on, the reflection order alone decides how many paths arrive.\<close>

lemma paths_by_order:
  assumes "ge_enable_direct g" "ge_enable_surface g" "ge_enable_bottom g" "ge_enable_surface_bottom g"
    "ge_enable_bottom_surface g" and "0 \<le> ge_max_bounces g" and "ge_max_bounces g \<le> kMaxImageOrder"
  shows "length (compute_paths g r) = 1 + 2 * nat (ge_max_bounces g)"
proof -
  have "ge_max_bounces g \<in> {0, 1, 2, 3, 4}" using assms(6,7) by (auto simp: kMaxImageOrder_def)
  then show ?thesis
    using assms(1-5) by (auto simp: length_compute_paths scene_candidates_def Let_def candidate_active_def cclamp_def
        kMaxImageOrder_def)
qed

section \<open>The source keeps its contract\<close>

definition geometric_ok :: "geometric_source \<Rightarrow> bool" where
  "geometric_ok s \<longleftrightarrow> gs_tap_count s = length (active_candidates (gs_geom s))"

interpretation geometric_source: tap_source_contract geometric_ops geometric_ok
  by unfold_locales
    (simp_all add: geometric_ops_def geometric_ok_def geometric_on_message_start_def geometric_taps_at_def Let_def
      length_compute_paths)

lemma geometric_new_ok: "geometric_source_new config fc rate = Inr s \<Longrightarrow> geometric_ok s \<and>
    gs_geom s = ch_geometry config \<and> gs_r_min_m s = ge_r_min_m (ch_geometry config) \<and>
    gs_r_max_m s = ge_r_max_m (ch_geometry config) \<and> gs_sample_rate s = rate \<and>
    gs_r_min_anchor_len_m s = pt_length_m (hd (compute_paths (ch_geometry config) (ge_r_min_m (ch_geometry config)))) \<and>
    gs_env s = env_from config"
  by (auto simp: geometric_source_new_def Let_def geometric_ok_def geometric_on_message_start_def length_compute_paths
      split: if_splits)

lemma le_max_ceiling: "x \<le> real (max a (nat \<lceil>x\<rceil>))"
  by linarith

text \<open>C31: The geometric source stays inside the envelope its buffers are sized from. Whatever the
  motion, at every time it emits the same number of taps, at most \<open>MAX_GEOMETRIC_PATHS\<close>, and each
  excess delay is not negative and at most the worst read-back the delay line is sized from. Construction
  fails exactly when no path is enabled.\<close>

theorem geometric_taps_in_envelope:
  assumes "geometric_source_new config fc rate = Inr s"
    and "0 \<le> ge_r_min_m (ch_geometry config)" and "ge_r_min_m (ch_geometry config) \<le> ge_r_max_m (ch_geometry config)"
    and "rate \<le> 2 ^ 24"
  shows "length (snd (geometric_taps_at t cap s)) = min (gs_tap_count s) cap \<and> gs_tap_count s \<le> MAX_GEOMETRIC_PATHS \<and>
    (\<forall>p \<in> set (snd (geometric_taps_at t cap s)). 0 \<le> st_delta_samples_frac p \<and>
      st_delta_samples_frac p \<le> real (gs_sdl_worst_excess_samples s))"
proof -
  let ?g = "ch_geometry config" and ?c = "clamp_sound_speed_d (ch_sound_speed_m_s config)" and ?rate = "f64 (real rate)"
  let ?lo = "ge_r_min_m ?g" and ?hi = "ge_r_max_m ?g"
  let ?anchor = "pt_length_m (hd (compute_paths ?g ?lo))"
  let ?r = "cclamp (range_at_source_time t s) ?lo ?hi"
  note f = geometric_new_ok [OF assms(1)]
  have rate: "f32 (real rate) = real rate" "f64 (real rate) = real rate"
    using f32_of_nat [OF assms(4)] f64_of_nat [of rate] assms(4) by simp_all
  have c: "0 < ?c" by (simp add: clamp_sound_speed_d_def)
  have cg: "clamp_sound_speed_geom (en_sound_speed_m_s (gs_env s)) = ?c"
    using f by (simp add: clamp_sound_speed_geom_def clamp_sound_speed_d_def env_from_def)
  have r: "?lo \<le> ?r" "?r \<le> ?hi" using cclamp_bounds [OF assms(3)] by blast+
  have worst: "dmul (max 0 (ddiv (dsub (pt_length_m (last (compute_paths ?g ?hi))) ?anchor) ?c)) ?rate
      \<le> real (gs_sdl_worst_excess_samples s)"
    using assms(1) le_max_ceiling
    by (auto simp: geometric_source_new_def Let_def geometric_on_message_start_def simp del: of_nat_max split: if_splits)
  have tap: "0 \<le> dmul (max 0 (ddiv (dsub (pt_length_m p) ?anchor) ?c)) ?rate \<and>
      dmul (max 0 (ddiv (dsub (pt_length_m p) ?anchor) ?c)) ?rate \<le> real (gs_sdl_worst_excess_samples s)"
    if "p \<in> set (compute_paths ?g ?r)" for p
  proof
    have "pt_length_m p \<le> pt_length_m (last (compute_paths ?g ?hi))" by (rule paths_between(2) [OF that assms(2) r])
    then have "dmul (max 0 (ddiv (dsub (pt_length_m p) ?anchor) ?c)) ?rate
        \<le> dmul (max 0 (ddiv (dsub (pt_length_m (last (compute_paths ?g ?hi))) ?anchor) ?c)) ?rate"
      using c by (intro f64_mono mult_right_mono max.mono divide_right_mono diff_right_mono) (simp_all add: f64_nonneg)
    with worst show "dmul (max 0 (ddiv (dsub (pt_length_m p) ?anchor) ?c)) ?rate \<le> real (gs_sdl_worst_excess_samples s)"
      by linarith
  qed (simp add: f64_nonneg)
  have "snd (geometric_taps_at t cap s) = map (\<lambda>p. geom_resolve ?g (gs_env s) p ?anchor (gs_center_fc_hz s)
      (gs_saltwater s) (f32 (real rate))) (take (min (length (compute_paths ?g ?r)) cap) (compute_paths ?g ?r))"
    using f by (simp add: geometric_taps_at_def Let_def)
  moreover have "length (compute_paths ?g ?r) = gs_tap_count s" using f by (simp add: geometric_ok_def length_compute_paths)
  ultimately show ?thesis
    using tap paths_bounded [of ?g ?r] rate
    by (auto simp: geom_resolve_def Let_def cg dest!: in_set_takeD)
qed

definition shallow_channel :: channel_config where
  "shallow_channel = default_channel\<lparr>ch_mode := Mode_Geometric,
     ch_geometry := default_geometry\<lparr>ge_r_min_m := 10, ge_r_max_m := 20\<rparr>\<rparr>"

lemma shallow_paths: "length (compute_paths (ch_geometry shallow_channel) r) = 3"
  by (simp add: length_compute_paths shallow_channel_def default_channel_def default_geometry_def scene_candidates_def
      Let_def candidate_active_def cclamp_def kMaxImageOrder_def)

lemma shallow_new: "geometric_source_new shallow_channel 25000 500000 =
    Inr (projr (geometric_source_new shallow_channel 25000 500000))"
  using shallow_paths [of "ge_r_min_m (ch_geometry shallow_channel)"] shallow_paths [of "ge_r_max_m (ch_geometry shallow_channel)"]
  by (auto simp: geometric_source_new_def Let_def)

theorem geometric_taps_in_envelope_witness:
  "let s = projr (geometric_source_new shallow_channel 25000 500000)
   in length (snd (geometric_taps_at 0 32 s)) = 3 \<and>
      (\<forall>p \<in> set (snd (geometric_taps_at 0 32 s)). st_delta_samples_frac p \<le> real (gs_sdl_worst_excess_samples s))"
proof -
  have g: "ge_r_min_m (ch_geometry shallow_channel) = 10" "ge_r_max_m (ch_geometry shallow_channel) = 20"
    by (simp_all add: shallow_channel_def)
  have "gs_tap_count (projr (geometric_source_new shallow_channel 25000 500000)) = 3"
    using geometric_new_ok [OF shallow_new] shallow_paths by (simp add: geometric_ok_def length_compute_paths)
  with geometric_taps_in_envelope [OF shallow_new, of 0 32] show ?thesis by (simp add: g Let_def)
qed

end
