(* ===== verification/Tap_Source_Renderer.thy ===== *)
theory Tap_Source_Renderer
  imports Channel_Renderer Delay_Lines Tap_Source
begin

text \<open>
  The read-style renderer, \<open>channel/renderer/tap_source_renderer.cpp\<close>, over any tap source: a
  record of its operations is an argument, its state lives in the renderer. The scratch arrays are the
  lists the operations return; a query is made with the size of the code's tap arrays.
\<close>

section \<open>The code\<close>

record 's tap_renderer_params =
  tp_tap_source :: "'s option"
  tp_afe_chain_gain_linear :: real
  tp_base_delay_samples :: nat
  tp_sample_rate :: nat
  tp_clock_offset_ppm :: real
  tp_sdl_worst_excess_samples :: nat

record 's tap_renderer =
  tr_source :: 's
  tr_afe_chain_gain :: real
  tr_base_delay_samples :: nat
  tr_max_tap_delta_samples :: nat
  tr_sample_rate :: nat
  tr_clock_offset_ppm :: real
  tr_line :: source_delay_line
  tr_tap_capacity :: nat
  tr_out_cursor :: nat
  tr_line_cursor :: real

definition delta_clock :: "real \<Rightarrow> real" where
  "delta_clock clock_offset_ppm = dmul clock_offset_ppm (f64 (1 / 10 ^ 6))"

definition sdl_min_capacity :: "nat \<Rightarrow> real \<Rightarrow> nat" where
  "sdl_min_capacity worst_excess clock_offset_ppm =
    (let clock_drift_per_block = dmul (dmul (real PROCESSING_BLOCK_SIZE) \<bar>clock_offset_ppm\<bar>) (f64 (1 / 10 ^ 6));
         clock_drift_margin = nat \<lceil>clock_drift_per_block\<rceil> + 1
     in worst_excess + 4 + clock_drift_margin + PROCESSING_BLOCK_SIZE)"

definition tap_renderer_new :: "'s tap_source \<Rightarrow> 's tap_renderer_params \<Rightarrow> error + 's tap_renderer" where
  "tap_renderer_new src p =
    (case tp_tap_source p of
       None \<Rightarrow> Inl (Invalid_Argument ''TapSourceRenderer: tap_source must not be null'')
     | Some s \<Rightarrow> Inr \<lparr>tr_source = s, tr_afe_chain_gain = tp_afe_chain_gain_linear p,
         tr_base_delay_samples = tp_base_delay_samples p,
         tr_max_tap_delta_samples = src_max_tap_delta_samples src s, tr_sample_rate = tp_sample_rate p,
         tr_clock_offset_ppm = tp_clock_offset_ppm p,
         tr_line = sdl_resize (sdl_min_capacity (tp_sdl_worst_excess_samples p) (tp_clock_offset_ppm p)),
         tr_tap_capacity = src_tap_count_max src s, tr_out_cursor = 0, tr_line_cursor = 0\<rparr>)"

definition tap_current_doppler_ratio :: "'s tap_renderer \<Rightarrow> real" where
  "tap_current_doppler_ratio r = dadd 1 (delta_clock (tr_clock_offset_ppm r))"

definition tap_on_message_start :: "'s tap_source \<Rightarrow> 's tap_renderer \<Rightarrow> error + 's tap_renderer" where
  "tap_on_message_start src r =
    Inr (r\<lparr>tr_source := src_on_message_start src (tr_source r), tr_line := sdl_clear (tr_line r),
           tr_out_cursor := 0, tr_line_cursor := 0\<rparr>)"

text \<open>The tap states of one block, from the two queries; the clock drift goes into the end delay.\<close>

definition block_tap :: "real \<Rightarrow> real \<Rightarrow> sourced_tap \<Rightarrow> sourced_tap \<Rightarrow> tap_state" where
  "block_tap afe drift ts te =
    \<lparr>tp_delay_start = st_delta_samples_frac ts, tp_delay_end = dsub (st_delta_samples_frac te) drift,
     tp_amplitude_start = fmul (st_gain ts) afe, tp_amplitude_end = fmul (st_gain te) afe\<rparr>"

definition tap_block :: "'s tap_source \<Rightarrow> nat \<Rightarrow> 's tap_renderer \<Rightarrow> 's tap_renderer \<times> render_call list" where
  "tap_block src n_out r =
    (let delta = delta_clock (tr_clock_offset_ppm r);
         fs = (if 0 < tr_sample_rate r then f64 (real (tr_sample_rate r)) else 500000);
         t_start = ddiv (f64 (real (tr_out_cursor r))) fs;
         t_end = ddiv (f64 (real (tr_out_cursor r + n_out))) fs;
         (s1, taps_start) = src_taps_at src t_start (tr_tap_capacity r) (tr_source r);
         (s2, taps_end) = src_taps_at src t_end (tr_tap_capacity r) s1;
         n_taps = cmin (length taps_start) (length taps_end);
         drift = dmul (f64 (real n_out)) delta;
         calls = map (\<lambda>k. R_Scatter (tr_out_cursor r)
           (per_tap_produce (tr_line r) (block_tap (tr_afe_chain_gain r) drift (taps_start ! k) (taps_end ! k))
             (tr_line_cursor r) n_out)) [0..<n_taps];
         out = tr_out_cursor r + n_out
     in (r\<lparr>tr_source := s2, tr_out_cursor := out,
           tr_line_cursor := dadd (tr_line_cursor r) (dmul (f64 (real n_out)) (dadd 1 delta))\<rparr>,
         calls @ [R_Commit out]))"

function tap_loop :: "'s tap_source \<Rightarrow> nat \<Rightarrow> 's tap_renderer \<Rightarrow> 's tap_renderer \<times> render_call list" where
  "tap_loop src todo r =
    (if todo = 0 then (r, [])
     else let n_out = cmin PROCESSING_BLOCK_SIZE todo; (r, cs) = tap_block src n_out r;
              (r, ds) = tap_loop src (todo - n_out) r
          in (r, cs @ ds))"
  by pat_completeness auto
termination by (relation "measure (\<lambda>(src, todo, r). todo)") (auto simp: PROCESSING_BLOCK_SIZE_def)

declare tap_loop.simps [simp del]

definition tap_process :: "'s tap_source \<Rightarrow> real list \<Rightarrow> 's tap_renderer \<Rightarrow> 's tap_renderer \<times> render_call list" where
  "tap_process src samples r =
    (if samples = [] then (r, []) else tap_loop src (length samples) (r\<lparr>tr_line := sdl_write samples (tr_line r)\<rparr>))"

function drain_tail :: "'s tap_source \<Rightarrow> nat \<Rightarrow> 's tap_renderer \<Rightarrow> 's tap_renderer \<times> render_call list" where
  "drain_tail src remaining r =
    (if remaining = 0 then (r, [])
     else let chunk = cmin PROCESSING_BLOCK_SIZE remaining; (r, cs) = tap_process src (replicate chunk 0) r;
              (r, ds) = drain_tail src (remaining - chunk) r
          in (r, cs @ ds))"
  by pat_completeness auto
termination by (relation "measure (\<lambda>(src, remaining, r). remaining)") (auto simp: PROCESSING_BLOCK_SIZE_def)

declare drain_tail.simps [simp del]

text \<open>The renderer's interface: nothing here throws, and every input sample is consumed.\<close>

definition tap_process_op :: "'s tap_source \<Rightarrow> real list \<Rightarrow> 's tap_renderer \<Rightarrow> error + ('s tap_renderer \<times> render_call list \<times> nat) option" where
  "tap_process_op src samples r = (let (r, cs) = tap_process src samples r in Inr (Some (r, cs, length samples)))"

definition tap_on_message_end :: "'s tap_source \<Rightarrow> 's tap_renderer \<Rightarrow> error + ('s tap_renderer \<times> render_call list) option" where
  "tap_on_message_end src r = Inr (Some (drain_tail src (tr_max_tap_delta_samples r) r))"

definition tap_input_needed_for_batch :: nat where
  "tap_input_needed_for_batch = PROCESSING_BLOCK_SIZE"

section \<open>Frame and extent\<close>

lemma tap_block_facts:
  assumes "tap_block src n r = (r', cs)"
  shows "tr_out_cursor r' = tr_out_cursor r + n \<and> tr_max_tap_delta_samples r' = tr_max_tap_delta_samples r \<and>
    tr_line r' = tr_line r \<and> tr_base_delay_samples r' = tr_base_delay_samples r \<and>
    tr_tap_capacity r' = tr_tap_capacity r \<and>
    calls_within (tr_out_cursor r') (tr_out_cursor r) cs (tr_out_cursor r')"
proof -
  have "calls_within (p + n) p (map (\<lambda>k. R_Scatter p (per_tap_produce l (f k) c n)) ks @ [R_Commit (p + n)]) (p + n)"
    for p l f c ks
    by (induction ks) (simp_all add: per_tap_produce_def)
  with assms show ?thesis by (auto simp: tap_block_def Let_def split: prod.splits)
qed

lemma tap_loop_facts:
  "tap_loop src todo r = (r', cs) \<Longrightarrow>
    tr_out_cursor r' = tr_out_cursor r + todo \<and> tr_max_tap_delta_samples r' = tr_max_tap_delta_samples r \<and>
    tr_line r' = tr_line r \<and> tr_base_delay_samples r' = tr_base_delay_samples r \<and>
    tr_tap_capacity r' = tr_tap_capacity r \<and>
    calls_within (tr_out_cursor r') (tr_out_cursor r) cs (tr_out_cursor r')"
proof (induction todo arbitrary: r r' cs rule: less_induct)
  case (less todo)
  show ?case
  proof (cases "todo = 0")
    case True
    with less.prems show ?thesis by (simp add: tap_loop.simps)
  next
    case False
    let ?n = "min 256 todo"
    obtain r1 cs1 where b: "tap_block src ?n r = (r1, cs1)" by (cases "tap_block src ?n r")
    obtain r2 cs2 where l: "tap_loop src (todo - ?n) r1 = (r2, cs2)" by (cases "tap_loop src (todo - ?n) r1")
    from less.prems False b l have e: "r' = r2" "cs = cs1 @ cs2"
      by (auto simp: tap_loop.simps [of src todo] Let_def PROCESSING_BLOCK_SIZE_def)
    have "todo - ?n < todo" using False by simp
    from less.IH [OF this l] tap_block_facts [OF b] show ?thesis
      using calls_within_append [OF calls_within_mono [of "tr_out_cursor r1" "tr_out_cursor r" cs1 "tr_out_cursor r1" "tr_out_cursor r2"]]
        calls_within_le [of _ "tr_out_cursor r1" cs2 "tr_out_cursor r2"]
      unfolding e by auto
  qed
qed

lemma tap_process_facts:
  assumes "tap_process src xs r = (r', cs)"
  shows "tr_out_cursor r' = tr_out_cursor r + length xs \<and> tr_max_tap_delta_samples r' = tr_max_tap_delta_samples r \<and>
    tr_base_delay_samples r' = tr_base_delay_samples r \<and> tr_tap_capacity r' = tr_tap_capacity r \<and>
    calls_within (tr_out_cursor r') (tr_out_cursor r) cs (tr_out_cursor r')"
  using assms tap_loop_facts [of src "length xs" "r\<lparr>tr_line := sdl_write xs (tr_line r)\<rparr>" r' cs]
  by (auto simp: tap_process_def split: if_splits)

lemma drain_tail_facts:
  "drain_tail src m r = (r', cs) \<Longrightarrow>
    tr_out_cursor r' = tr_out_cursor r + m \<and> tr_max_tap_delta_samples r' = tr_max_tap_delta_samples r \<and>
    tr_base_delay_samples r' = tr_base_delay_samples r \<and>
    calls_within (tr_out_cursor r') (tr_out_cursor r) cs (tr_out_cursor r')"
proof (induction m arbitrary: r r' cs rule: less_induct)
  case (less m)
  show ?case
  proof (cases "m = 0")
    case True
    with less.prems show ?thesis by (simp add: drain_tail.simps)
  next
    case False
    let ?n = "min 256 m"
    obtain r1 cs1 where b: "tap_process src (replicate ?n 0) r = (r1, cs1)" by (cases "tap_process src (replicate ?n 0) r")
    obtain r2 cs2 where l: "drain_tail src (m - ?n) r1 = (r2, cs2)" by (cases "drain_tail src (m - ?n) r1")
    from less.prems False b l have e: "r' = r2" "cs = cs1 @ cs2"
      by (auto simp: drain_tail.simps [of src m] Let_def PROCESSING_BLOCK_SIZE_def)
    have "m - ?n < m" using False by simp
    from less.IH [OF this l] tap_process_facts [OF b] show ?thesis
      using calls_within_append [OF calls_within_mono [of "tr_out_cursor r1" "tr_out_cursor r" cs1 "tr_out_cursor r1" "tr_out_cursor r2"]]
        calls_within_le [of _ "tr_out_cursor r1" cs2 "tr_out_cursor r2"]
      unfolding e by auto
  qed
qed

interpretation tap_renderer: channel_renderer "tap_on_message_start src" "tap_process_op src" "tap_on_message_end src"
    tr_out_cursor tr_max_tap_delta_samples "\<lambda>r. True"
proof
  fix r r' :: "'a tap_renderer"
  assume "tap_on_message_start src r = Inr r'"
  then show "True \<and> tr_out_cursor r' = 0 \<and> tr_max_tap_delta_samples r' = tr_max_tap_delta_samples r"
    by (auto simp: tap_on_message_start_def)
next
  fix r r' :: "'a tap_renderer" and xs cs used
  assume "tap_process_op src xs r = Inr (Some (r', cs, used))"
  then have p: "tap_process src xs r = (r', cs)" and u: "used = length xs"
    by (auto simp: tap_process_op_def split: prod.splits)
  from tap_process_facts [OF p] u calls_within_mono show "True \<and> tr_max_tap_delta_samples r' = tr_max_tap_delta_samples r \<and>
    used \<le> length xs \<and> calls_within (tr_out_cursor r' + tr_max_tap_delta_samples r) (tr_out_cursor r) cs (tr_out_cursor r')"
    by (auto intro: calls_within_mono)
next
  fix r r' :: "'a tap_renderer" and cs
  assume "tap_on_message_end src r = Inr (Some (r', cs))"
  then have p: "drain_tail src (tr_max_tap_delta_samples r) r = (r', cs)" by (simp add: tap_on_message_end_def)
  from drain_tail_facts [OF p] show "True \<and> tr_max_tap_delta_samples r' = tr_max_tap_delta_samples r \<and>
    calls_within (tr_out_cursor r' + tr_max_tap_delta_samples r) (tr_out_cursor r) cs (tr_out_cursor r')"
    by (auto intro: calls_within_mono)
qed

section \<open>The line as a tape\<close>

text \<open>The message's own samples, with silence on both sides: what an unbounded delay line would hold.\<close>

definition tape :: "real list \<Rightarrow> int \<Rightarrow> real" where
  "tape ws n = (if 0 \<le> n \<and> n < int (length ws) then ws ! nat n else 0)"

definition tape_read :: "real list \<Rightarrow> real \<Rightarrow> real" where
  "tape_read ws pos =
    (let n = \<lfloor>pos\<rfloor>; mu = f32 (dsub pos (of_int n))
     in catmull_rom (tape ws (n - 1)) (tape ws n) (tape ws (n + 1)) (tape ws (n + 2)) mu)"

definition sdl_tape :: "source_delay_line \<Rightarrow> nat \<Rightarrow> real list \<Rightarrow> bool" where
  "sdl_tape s cap ws \<longleftrightarrow> (\<exists>k \<le> 64. cap = 2 ^ k) \<and> length (sl_buffer s) = cap \<and> sl_mask s = cap - 1 \<and>
     sl_producer_position s = length ws \<and>
     (\<forall>q. int (length ws) - int cap \<le> q \<and> q < int (length ws) \<longrightarrow> sl_buffer s ! nat (q mod int cap) = tape ws q)"

lemma tape_append: "q < int (length ws) \<Longrightarrow> tape (ws @ xs) q = tape ws q"
  by (auto simp: tape_def nth_append)

lemma sdl_at_tape:
  assumes "sdl_tape s cap ws" and "int (length ws) - int cap \<le> q" and "q < int (length ws)"
  shows "sdl_at s q = tape ws q"
proof -
  obtain k where k: "k \<le> 64" "cap = 2 ^ k" using assms(1) by (auto simp: sdl_tape_def)
  have "int cap dvd 2 ^ 64" using le_imp_power_dvd [OF k(1), of "2 :: int"] by (simp add: k(2))
  then have "q mod 2 ^ 64 mod int cap = q mod int cap" by (simp add: mod_mod_cancel)
  then have "nat (q mod 2 ^ 64) mod cap = nat (q mod int cap)" by (simp add: nat_mod_distrib [symmetric] zmod_int nat_mod_as_int)
  moreover have "nat (q mod 2 ^ 64) AND sl_mask s = nat (q mod 2 ^ 64) mod cap"
    using assms(1) and_mask_mod [of cap] by (auto simp: sdl_tape_def)
  ultimately show ?thesis using assms by (simp add: sdl_at_def sdl_tape_def)
qed

lemma sdl_clear_tape:
  assumes "sdl_tape s cap ws"
  shows "sdl_tape (sdl_clear s) cap []"
proof -
  have c: "0 < cap" "length (sl_buffer s) = cap" using assms by (auto simp: sdl_tape_def)
  have "map (\<lambda>_. 0 :: real) (sl_buffer s) ! nat (q mod int cap) = 0" for q
    using c by (subst nth_map) (auto simp: nat_less_iff)
  then show ?thesis using assms by (simp add: sdl_tape_def sdl_clear_def tape_def)
qed

lemma sdl_write_tape_1:
  assumes "sdl_tape s cap ws"
  shows "sdl_tape (sdl_write [x] s) cap (ws @ [x])"
proof -
  let ?n = "length ws"
  have c: "0 < cap" and len: "length (sl_buffer s) = cap" and pos: "sl_producer_position s = ?n"
    and ix: "i AND sl_mask s = i mod cap" for i
    using assms and_mask_mod [of cap] by (auto simp: sdl_tape_def)
  have "(sl_buffer s)[?n mod cap := x] ! nat (q mod int cap) = tape (ws @ [x]) q"
    if q: "int ?n + 1 - int cap \<le> q" "q < int ?n + 1" for q
  proof (cases "q = int ?n")
    case True
    then have "nat (q mod int cap) = ?n mod cap" by (simp add: nat_mod_as_int)
    then show ?thesis using c len True by (simp add: tape_def)
  next
    case False
    have "nat (q mod int cap) \<noteq> ?n mod cap"
    proof
      assume "nat (q mod int cap) = ?n mod cap"
      then have "q mod int cap = int ?n mod int cap" using c by (simp add: zmod_int nat_eq_iff)
      then have "int cap dvd int ?n - q" by (metis mod_eq_dvd_iff)
      with False q show False using zdvd_imp_le [of "int cap" "int ?n - q"] by auto
    qed
    with assms False q show ?thesis by (simp add: sdl_tape_def tape_append)
  qed
  moreover have "sdl_write [x] s = s\<lparr>sl_buffer := (sl_buffer s)[?n mod cap := x], sl_producer_position := Suc ?n\<rparr>"
    by (simp add: sdl_write_def ix pos)
  ultimately show ?thesis using assms by (auto simp: sdl_tape_def)
qed

lemma sdl_write_tape: "sdl_tape s cap ws \<Longrightarrow> sdl_tape (sdl_write xs s) cap (ws @ xs)"
proof (induction xs arbitrary: s ws)
  case Nil
  then show ?case by (simp add: sdl_tape_def sdl_write_def)
next
  case (Cons x xs)
  from Cons.IH [OF sdl_write_tape_1 [OF Cons.prems, of x]] show ?case by (subst sdl_write_Cons) simp
qed

lemma sdl_read_tape:
  assumes "sdl_tape s cap ws" and "int (length ws) - int cap + 1 \<le> \<lfloor>pos\<rfloor>" and "\<lfloor>pos\<rfloor> + 2 < int (length ws)"
  shows "sdl_read_at pos s = tape_read (ws @ future) pos"
proof -
  have "sdl_at s q = tape (ws @ future) q" if "\<lfloor>pos\<rfloor> - 1 \<le> q" "q \<le> \<lfloor>pos\<rfloor> + 2" for q
    using sdl_at_tape [OF assms(1), of q] tape_append [of q ws future] that assms(2,3) by simp
  then show ?thesis by (simp add: sdl_read_at_def tape_read_def Let_def)
qed

section \<open>Interpolated delays stay in range\<close>

lemma inv_n_bound:
  assumes "0 < n" and "n \<le> 2 ^ 20" and "i < n"
  shows "0 \<le> dmul (f64 (real i)) (ddiv 1 (f64 (real n))) \<and> dmul (f64 (real i)) (ddiv 1 (f64 (real n))) \<le> 1"
proof -
  have e: "f64 (real i) = real i" "f64 (real n) = real n" using assms f64_of_nat [of i] f64_of_nat [of n] by simp_all
  have inv: "1 / 2 ^ 20 \<le> 1 / real n"
  proof -
    have "real n \<le> real (2 ^ 20)" using assms(2) by (simp only: of_nat_le_iff)
    then show ?thesis using assms(1) by (simp add: frac_le)
  qed
  have "2 powi (- 1022) \<le> (2 :: real) powi (- 20)" by (simp add: powi2_le_iff)
  also have "\<dots> = 1 / 2 ^ 20" by (simp add: power_int_minus field_simps)
  finally have "2 powi (- 1022) \<le> \<bar>1 / real n\<bar>" using inv by simp
  from f64_rel [OF this] have r: "ddiv 1 (real n) \<le> 1 / real n + (1 / real n) * 2 powi (- 53)" using assms(1) by simp
  have "(2 :: real) powi (- 53) \<le> 2 powi (- 20)" by (simp add: powi2_le_iff)
  also have "\<dots> = 1 / 2 ^ 20" by (simp add: power_int_minus field_simps)
  finally have small: "(2 :: real) powi (- 53) \<le> 1 / real n" using inv by linarith
  have "(1 / real n) * 2 powi (- 53) \<le> (1 / real n) * (1 / real n)" using small by (intro mult_left_mono) simp_all
  with r have d: "ddiv 1 (real n) \<le> 1 / real n + (1 / real n) * (1 / real n)" by linarith
  have "real i * ddiv 1 (real n) \<le> (real n - 1) * (1 / real n + (1 / real n) * (1 / real n))"
    using d assms by (intro mult_mono) (auto simp: f64_nonneg)
  also have "\<dots> \<le> 1" using assms(1) by (simp add: field_simps)
  finally have "dmul (real i) (ddiv 1 (real n)) \<le> f64 1" by (intro f64_mono) simp
  then show ?thesis by (simp add: e f64_nonneg)
qed

lemma lerp_between:
  assumes "real a \<le> ds" "ds \<le> real b" "real a \<le> de" "de \<le> real b" and "0 \<le> al" "al \<le> 1"
    and "1 \<le> a" and "b + 1 \<le> 2 ^ 53"
  shows "real (a - 1) \<le> dadd ds (dmul al (dsub de ds)) \<and> dadd ds (dmul al (dsub de ds)) \<le> real (b + 1)"
proof -
  have i: "f64 (of_int j) = of_int j" if "- int (b + 1) \<le> j" "j \<le> int (b + 1)" for j
    using f64_of_int [of j] that assms(8) by simp
  have fl: "real_of_int \<lfloor>ds\<rfloor> \<le> ds" "ds \<le> of_int \<lceil>ds\<rceil>" "int a \<le> \<lfloor>ds\<rfloor>" "\<lceil>ds\<rceil> \<le> int b" "ds \<le> of_int \<lfloor>ds\<rfloor> + 1"
     "of_int \<lceil>ds\<rceil> - 1 \<le> ds" "int a \<le> \<lceil>ds\<rceil>" "\<lfloor>ds\<rfloor> \<le> int b"
    using assms(1,2) by (simp_all add: le_floor_iff ceiling_le_iff) linarith+
  have hi: "dsub de ds \<le> of_int (int b - \<lfloor>ds\<rfloor>)"
  proof -
    have "dsub de ds \<le> f64 (of_int (int b - \<lfloor>ds\<rfloor>))" by (rule f64_mono) (simp, use assms(4) fl(1) in linarith)
    also have "\<dots> = of_int (int b - \<lfloor>ds\<rfloor>)" using fl by (intro i) auto
    finally show ?thesis .
  qed
  have lo: "of_int (int a - \<lceil>ds\<rceil>) \<le> dsub de ds"
  proof -
    have "of_int (int a - \<lceil>ds\<rceil>) = f64 (of_int (int a - \<lceil>ds\<rceil>))" using fl by (intro i [symmetric]) auto
    also have "\<dots> \<le> dsub de ds" by (rule f64_mono) (simp, use assms(3) fl(2) in linarith)
    finally show ?thesis .
  qed
  have m: "min 0 (dsub de ds) \<le> al * dsub de ds" "al * dsub de ds \<le> max 0 (dsub de ds)"
    using assms(5,6) mult_left_le_one_le [of "dsub de ds" al] mult_left_le_one_le [of "- dsub de ds" al]
    by (cases "0 \<le> dsub de ds"; simp add: min_def max_def mult_nonneg_nonpos)+
  have m': "min 0 (dsub de ds) \<le> dmul al (dsub de ds)" "dmul al (dsub de ds) \<le> max 0 (dsub de ds)"
    using f64_mono [OF m(1)] f64_mono [OF m(2)] by (simp_all add: min_def max_def split: if_splits)
  have hi': "dsub de ds \<le> real b - of_int \<lfloor>ds\<rfloor>" and lo': "real a - of_int \<lceil>ds\<rceil> \<le> dsub de ds" using hi lo by simp_all
  have "ds + dmul al (dsub de ds) \<le> real b + 1" using m'(2) hi' fl(5) assms(2) by linarith
  then have "ds + dmul al (dsub de ds) \<le> of_int (int (b + 1))" by simp
  then have "dadd ds (dmul al (dsub de ds)) \<le> f64 (of_int (int (b + 1)))" by (rule f64_mono)
  moreover have "real a - 1 \<le> ds + dmul al (dsub de ds)" using m'(1) lo' fl(6) assms(1) by linarith
  then have "of_int (int (a - 1)) \<le> ds + dmul al (dsub de ds)" using assms(7) by (simp add: of_nat_diff)
  then have "f64 (of_int (int (a - 1))) \<le> dadd ds (dmul al (dsub de ds))" by (rule f64_mono)
  moreover have "f64 (of_int (int (a - 1))) = of_int (int (a - 1))"
    using assms(1,2) by (intro i) (auto simp: le_diff_conv)
  ultimately show ?thesis using i [of "int (b + 1)"] by simp
qed

section \<open>A message, and the same message on an unbounded tape\<close>

fun tap_blocks :: "'s tap_source \<Rightarrow> real list list \<Rightarrow> 's tap_renderer \<Rightarrow> 's tap_renderer \<times> render_call list" where
  "tap_blocks src [] r = (r, [])"
| "tap_blocks src (xs # xss) r = (let (r, cs) = tap_process src xs r; (r, ds) = tap_blocks src xss r in (r, cs @ ds))"

definition tap_message :: "'s tap_source \<Rightarrow> real list list \<Rightarrow> 's tap_renderer \<Rightarrow> error + ('s tap_renderer \<times> render_call list) option" where
  "tap_message src xss r =
    (case tap_on_message_start src r of Inl e \<Rightarrow> Inl e
     | Inr r \<Rightarrow> let (r, cs) = tap_blocks src xss r
         in case tap_on_message_end src r of Inl e \<Rightarrow> Inl e | Inr None \<Rightarrow> Inr None
            | Inr (Some (r, ds)) \<Rightarrow> Inr (Some (r, cs @ ds)))"

text \<open>The block sizes of the drain.\<close>

function drain_chunks :: "nat \<Rightarrow> nat list" where
  "drain_chunks m = (if m = 0 then [] else min 256 m # drain_chunks (m - min 256 m))"
  by pat_completeness auto
termination by (relation "measure id") auto

declare drain_chunks.simps [simp del]

lemma drain_chunks_small: "n \<in> set (drain_chunks m) \<Longrightarrow> 0 < n \<and> n \<le> 256"
  by (induction m rule: drain_chunks.induct) (subst (asm) (2) drain_chunks.simps, auto split: if_splits)

lemma sum_drain_chunks: "sum_list (drain_chunks m) = m"
  by (induction m rule: drain_chunks.induct) (subst drain_chunks.simps, simp)

lemma drain_tail_blocks: "drain_tail src m r = tap_blocks src (map (\<lambda>n. replicate n 0) (drain_chunks m)) r"
proof (induction m arbitrary: r rule: drain_chunks.induct)
  case (1 m)
  show ?case
  proof (cases "m = 0")
    case True
    then show ?thesis by (simp add: drain_tail.simps drain_chunks.simps)
  next
    case False
    then show ?thesis
      using "1.IH" by (subst drain_tail.simps, subst drain_chunks.simps)
        (simp add: Let_def PROCESSING_BLOCK_SIZE_def case_prod_unfold)
  qed
qed

text \<open>The reference: reads go to the finished message, there is no ring and no block-local state but
  the position and the source.\<close>

definition tape_sample :: "real list \<Rightarrow> tap_state \<Rightarrow> real \<Rightarrow> nat \<Rightarrow> nat \<Rightarrow> real" where
  "tape_sample ws tap out_pos_start n_out i =
    (let alpha = dmul (f64 (real i)) (ddiv 1 (f64 (real n_out)));
         tap_delay = dadd (tp_delay_start tap) (dmul alpha (dsub (tp_delay_end tap) (tp_delay_start tap)));
         amp = f32 (dadd (tp_amplitude_start tap) (dmul alpha (dsub (tp_amplitude_end tap) (tp_amplitude_start tap))))
     in fmul amp (tape_read ws (dsub (dadd out_pos_start (f64 (real i))) tap_delay)))"

definition tape_block :: "'s tap_source \<Rightarrow> 's tap_renderer \<Rightarrow> real list \<Rightarrow> nat \<Rightarrow> nat \<Rightarrow> 's \<Rightarrow> 's \<times> render_call list" where
  "tape_block src r ws p n s =
    (let fs = (if 0 < tr_sample_rate r then f64 (real (tr_sample_rate r)) else 500000);
         (s1, taps_start) = src_taps_at src (ddiv (f64 (real p)) fs) (tr_tap_capacity r) s;
         (s2, taps_end) = src_taps_at src (ddiv (f64 (real (p + n))) fs) (tr_tap_capacity r) s1
     in (s2, map (\<lambda>k. R_Scatter p (map (tape_sample ws (block_tap (tr_afe_chain_gain r) 0 (taps_start ! k) (taps_end ! k))
           (real p) n) [0..<n])) [0..<min (length taps_start) (length taps_end)] @ [R_Commit (p + n)]))"

fun tape_calls :: "'s tap_source \<Rightarrow> 's tap_renderer \<Rightarrow> real list \<Rightarrow> nat \<Rightarrow> nat list \<Rightarrow> 's \<Rightarrow> 's \<times> render_call list" where
  "tape_calls src r ws p [] s = (s, [])"
| "tape_calls src r ws p (n # ns) s = (let (s, cs) = tape_block src r ws p n s; (s, ds) = tape_calls src r ws (p + n) ns s in (s, cs @ ds))"

text \<open>Delays between three samples and \<open>w\<close> at every time, over the states \<open>good\<close> the source moves in.\<close>

definition delays_between :: "'s tap_source \<Rightarrow> ('s \<Rightarrow> bool) \<Rightarrow> nat \<Rightarrow> bool" where
  "delays_between src good w \<longleftrightarrow> (\<forall>s t cap. good s \<longrightarrow> good (src_on_message_start src s) \<and> good (fst (src_taps_at src t cap s)) \<and>
     (\<forall>p \<in> set (snd (src_taps_at src t cap s)). 3 \<le> st_delta_samples_frac p \<and> st_delta_samples_frac p \<le> real w))"

definition renders_at :: "'s tap_renderer \<Rightarrow> nat \<Rightarrow> real list \<Rightarrow> bool" where
  "renders_at r w ws \<longleftrightarrow> tr_clock_offset_ppm r = 0 \<and> (\<exists>cap \<ge> w + 258. sdl_tape (tr_line r) cap ws) \<and>
     tr_out_cursor r = length ws \<and> tr_line_cursor r = real (length ws)"

lemma tape_sample_eq:
  assumes tape: "sdl_tape line cap (ws @ xs)" and cap: "w + 258 \<le> cap" and n: "length xs = n" "i < n" "n \<le> 256"
    and d: "3 \<le> st_delta_samples_frac ts" "st_delta_samples_frac ts \<le> real w"
      "3 \<le> st_delta_samples_frac te" "st_delta_samples_frac te \<le> real w"
    and big: "length (ws @ xs) + w + 2 \<le> 2 ^ 53"
  shows "per_tap_sample line (block_tap afe 0 ts te) (real (length ws)) n i =
    tape_sample (ws @ xs @ future) (block_tap afe 0 ts te) (real (length ws)) n i"
proof -
  let ?al = "dmul (f64 (real i)) (ddiv 1 (f64 (real n)))" and ?p = "length ws + i"
  let ?d = "dadd (st_delta_samples_frac ts) (dmul ?al (dsub (f64 (st_delta_samples_frac te)) (st_delta_samples_frac ts)))"
  have w: "3 \<le> w" using d(1,2) by linarith
  have te: "real 3 \<le> f64 (st_delta_samples_frac te)" "f64 (st_delta_samples_frac te) \<le> real w"
    using f64_mono [OF d(3)] f64_mono [OF d(4)] f64_of_nat [of 3] f64_of_nat [of w] big by simp_all
  have ts: "real 3 \<le> st_delta_samples_frac ts" using d(1) by simp
  have al: "0 \<le> ?al" "?al \<le> 1" using inv_n_bound [of n i] n by auto
  have b: "real (3 - 1) \<le> ?d" "?d \<le> real (w + 1)"
    using lerp_between [OF ts d(2) te al] big by auto
  have P: "dadd (real (length ws)) (f64 (real i)) = real ?p"
    using f64_of_nat [of i] f64_of_nat [of ?p] big n by simp
  have bound: "f64 (of_int j) = of_int j" if "- int (w + 1) \<le> j" "j \<le> int (length ws + n)" for j
    using f64_of_int [of j] that big n(1) by simp
  have hi: "dsub (real ?p) ?d \<le> of_int (int ?p - 2)"
  proof -
    have "dsub (real ?p) ?d \<le> f64 (of_int (int ?p - 2))" by (rule f64_mono) (use b(1) in simp)
    then show ?thesis using bound [of "int ?p - 2"] n w by simp
  qed
  have lo: "of_int (int ?p - int (w + 1)) \<le> dsub (real ?p) ?d"
  proof -
    have "f64 (of_int (int ?p - int (w + 1))) \<le> dsub (real ?p) ?d" by (rule f64_mono) (use b(2) in simp)
    then show ?thesis using bound [of "int ?p - int (w + 1)"] n by simp
  qed
  have fl: "\<lfloor>dsub (real ?p) ?d\<rfloor> \<le> int ?p - 2" "int ?p - int (w + 1) \<le> \<lfloor>dsub (real ?p) ?d\<rfloor>"
    using hi lo floor_mono [OF hi] by (simp_all add: le_floor_iff)
  have "sdl_read_at (dsub (real ?p) ?d) line = tape_read ((ws @ xs) @ future) (dsub (real ?p) ?d)"
    by (rule sdl_read_tape [OF tape]) (use fl n cap in simp_all)
  then show ?thesis unfolding per_tap_sample_def tape_sample_def Let_def block_tap_def tap_state.simps diff_zero P by simp
qed

lemma tap_block_tape:
  assumes src: "delays_between src good w" "good (tr_source r)" and n: "xs \<noteq> []" "length xs \<le> 256"
    and r: "renders_at r w ws" and big: "length (ws @ xs) + w + 2 \<le> 2 ^ 53"
  shows "\<exists>r'. tap_process src xs r = (r', snd (tape_block src r (ws @ xs @ future) (length ws) (length xs) (tr_source r))) \<and>
    tr_source r' = fst (tape_block src r (ws @ xs @ future) (length ws) (length xs) (tr_source r)) \<and>
    good (tr_source r') \<and> renders_at r' w (ws @ xs) \<and> tr_sample_rate r' = tr_sample_rate r \<and>
    tr_tap_capacity r' = tr_tap_capacity r \<and> tr_afe_chain_gain r' = tr_afe_chain_gain r \<and>
    tr_max_tap_delta_samples r' = tr_max_tap_delta_samples r"
proof -
  let ?n = "length xs" and ?fs = "if 0 < tr_sample_rate r then f64 (real (tr_sample_rate r)) else 500000"
  let ?r = "r\<lparr>tr_line := sdl_write xs (tr_line r)\<rparr>"
  obtain cap where cap: "w + 258 \<le> cap" "sdl_tape (tr_line r) cap ws" using r by (auto simp: renders_at_def)
  note tape = sdl_write_tape [OF cap(2), of xs]
  have f: "tr_clock_offset_ppm r = 0" "tr_out_cursor r = length ws" "tr_line_cursor r = real (length ws)"
    using r by (simp_all add: renders_at_def)
  obtain s1 a where a: "src_taps_at src (ddiv (f64 (real (length ws))) ?fs) (tr_tap_capacity r) (tr_source r) = (s1, a)"
    by (cases "src_taps_at src (ddiv (f64 (real (length ws))) ?fs) (tr_tap_capacity r) (tr_source r)")
  obtain s2 b where b: "src_taps_at src (ddiv (f64 (real (length ws + ?n))) ?fs) (tr_tap_capacity r) s1 = (s2, b)"
    by (cases "src_taps_at src (ddiv (f64 (real (length ws + ?n))) ?fs) (tr_tap_capacity r) s1")
  have g: "good s1" "\<forall>p \<in> set a. 3 \<le> st_delta_samples_frac p \<and> st_delta_samples_frac p \<le> real w"
    using src a unfolding delays_between_def by (metis fst_conv snd_conv)+
  have g2: "good s2" "\<forall>p \<in> set b. 3 \<le> st_delta_samples_frac p \<and> st_delta_samples_frac p \<le> real w"
    using src(1) g(1) b unfolding delays_between_def by (metis fst_conv snd_conv)+
  have cursor: "dadd (real (length ws)) (dmul (f64 (real ?n)) (dadd 1 0)) = real (length ws + ?n)"
    using f64_of_nat [of ?n] f64_of_nat [of "length ws + ?n"] big by simp
  have tap: "per_tap_produce (sdl_write xs (tr_line r)) (block_tap g 0 (a ! k) (b ! k)) (real (length ws)) ?n =
      map (tape_sample (ws @ xs @ future) (block_tap g 0 (a ! k) (b ! k)) (real (length ws)) ?n) [0..<?n]"
    if "k < min (length a) (length b)" for k g
    unfolding per_tap_produce_def
    using tape_sample_eq [OF tape cap(1) refl _ n(2), where ts = "a ! k" and te = "b ! k"] that g(2) g2(2) big by simp
  have one: "tap_process src xs r = tap_block src ?n ?r"
  proof -
    have "tap_loop src ?n ?r = (let (r, cs) = tap_block src ?n ?r; (r, ds) = tap_loop src 0 r in (r, cs @ ds))"
      using n by (subst tap_loop.simps) (simp add: PROCESSING_BLOCK_SIZE_def Let_def min_absorb2)
    then show ?thesis using n(1) by (simp add: tap_process_def tap_loop.simps case_prod_unfold)
  qed
  have "delta_clock 0 = 0" by (simp add: delta_clock_def)
  moreover have "map (\<lambda>k. R_Scatter (length ws) (per_tap_produce (sdl_write xs (tr_line r))
        (block_tap (tr_afe_chain_gain r) 0 (a ! k) (b ! k)) (real (length ws)) ?n)) [0..<min (length a) (length b)] =
      map (\<lambda>k. R_Scatter (length ws) (map (tape_sample (ws @ xs @ future)
        (block_tap (tr_afe_chain_gain r) 0 (a ! k) (b ! k)) (real (length ws)) ?n) [0..<?n])) [0..<min (length a) (length b)]"
    using tap by simp
  ultimately have "tap_block src ?n ?r = (?r\<lparr>tr_source := s2, tr_out_cursor := length ws + ?n, tr_line_cursor := real (length ws + ?n)\<rparr>,
      snd (tape_block src r (ws @ xs @ future) (length ws) ?n (tr_source r)))"
    using cursor
    by (simp add: tap_block_def tape_block_def Let_def f a b split del: if_split del: of_nat_add cong: if_cong)
  moreover have "fst (tape_block src r (ws @ xs @ future) (length ws) ?n (tr_source r)) = s2"
    by (simp add: tape_block_def Let_def a b split del: if_split del: of_nat_add)
  ultimately show ?thesis
    unfolding one using g2(1) tape cap(1) f by (auto simp: renders_at_def)
qed

text \<open>Fields that blocks leave alone.\<close>

definition same_tap_setup :: "'s tap_renderer \<Rightarrow> 's tap_renderer \<Rightarrow> bool" where
  "same_tap_setup r r' \<longleftrightarrow> tr_sample_rate r' = tr_sample_rate r \<and> tr_tap_capacity r' = tr_tap_capacity r \<and>
     tr_afe_chain_gain r' = tr_afe_chain_gain r \<and> tr_max_tap_delta_samples r' = tr_max_tap_delta_samples r"

lemma same_tap_setup_refl: "same_tap_setup r r" and
  same_tap_setup_trans: "same_tap_setup r r1 \<Longrightarrow> same_tap_setup r1 r2 \<Longrightarrow> same_tap_setup r r2"
  by (simp_all add: same_tap_setup_def)

lemma tape_block_setup: "same_tap_setup r r' \<Longrightarrow> tape_block src r' = tape_block src r"
  by (intro ext) (simp add: tape_block_def same_tap_setup_def)

lemma tape_calls_setup: "same_tap_setup r r' \<Longrightarrow> tape_calls src r' ws p ns s = tape_calls src r ws p ns s"
  by (induction ns arbitrary: p s) (simp_all add: tape_block_setup)

lemma tap_blocks_tape:
  assumes "delays_between src good w" and "\<forall>xs \<in> set xss. xs \<noteq> [] \<and> length xs \<le> 256"
    and "good (tr_source r)" and "renders_at r w ws" and "length (ws @ concat xss) + w + 2 \<le> 2 ^ 53"
  shows "\<exists>r'. tap_blocks src xss r = (r', snd (tape_calls src r (ws @ concat xss @ future) (length ws) (map length xss) (tr_source r))) \<and>
    tr_source r' = fst (tape_calls src r (ws @ concat xss @ future) (length ws) (map length xss) (tr_source r)) \<and>
    good (tr_source r') \<and> renders_at r' w (ws @ concat xss) \<and> same_tap_setup r r'"
  using assms(2-)
proof (induction xss arbitrary: r ws)
  case Nil
  then show ?case by (simp add: same_tap_setup_refl)
next
  case (Cons xs xss)
  obtain r1 where r1: "tap_process src xs r = (r1, snd (tape_block src r (ws @ xs @ concat xss @ future) (length ws) (length xs) (tr_source r)))"
    "tr_source r1 = fst (tape_block src r (ws @ xs @ concat xss @ future) (length ws) (length xs) (tr_source r))"
    "good (tr_source r1)" "renders_at r1 w (ws @ xs)" "same_tap_setup r r1"
    using tap_block_tape [OF assms(1) Cons.prems(2), of xs ws "concat xss @ future"] Cons.prems
    by (auto simp: same_tap_setup_def)
  obtain r2 where r2: "tap_blocks src xss r1 = (r2, snd (tape_calls src r1 ((ws @ xs) @ concat xss @ future) (length (ws @ xs)) (map length xss) (tr_source r1)))"
    "tr_source r2 = fst (tape_calls src r1 ((ws @ xs) @ concat xss @ future) (length (ws @ xs)) (map length xss) (tr_source r1))"
    "good (tr_source r2)" "renders_at r2 w ((ws @ xs) @ concat xss)" "same_tap_setup r1 r2"
    using Cons.IH [OF _ r1(3,4)] Cons.prems by auto
  from r1(2) have "fst (tape_block src r (ws @ xs @ concat xss @ future) (length ws) (length xs) (tr_source r)) = tr_source r1" ..
  then show ?case
    using r1(1,5) r2 same_tap_setup_trans [OF r1(5) r2(5)]
    by (simp add: tape_calls_setup [OF r1(5)] case_prod_unfold Let_def)
qed

text \<open>Between messages: the line is a tape of some earlier samples.\<close>

definition renderer_fit :: "'s tap_renderer \<Rightarrow> nat \<Rightarrow> bool" where
  "renderer_fit r w \<longleftrightarrow> tr_clock_offset_ppm r = 0 \<and> (\<exists>cap ws. w + 258 \<le> cap \<and> sdl_tape (tr_line r) cap ws)"

definition tape_message :: "'s tap_source \<Rightarrow> 's tap_renderer \<Rightarrow> real list list \<Rightarrow> 's \<Rightarrow> 's \<times> render_call list" where
  "tape_message src r xss s =
    (let d = tr_max_tap_delta_samples r
     in tape_calls src r (concat xss @ replicate d 0) 0 (map length xss @ drain_chunks d) (src_on_message_start src s))"

lemma concat_drain: "concat (map (\<lambda>n. replicate n 0) (drain_chunks m)) = replicate m (0 :: real)"
proof -
  have "concat (map (\<lambda>n. replicate n 0) ns) = replicate (sum_list ns) (0 :: real)" for ns
    by (induction ns) (simp_all add: replicate_add)
  then show ?thesis by (simp add: sum_drain_chunks)
qed

lemma tap_blocks_append: "tap_blocks src (xss @ yss) r = (let (r, cs) = tap_blocks src xss r; (r, ds) = tap_blocks src yss r in (r, cs @ ds))"
  by (induction xss arbitrary: r) (simp_all add: case_prod_unfold Let_def)

lemma tap_message_tape:
  assumes d: "delays_between src good w" and xss: "\<forall>xs \<in> set xss. xs \<noteq> [] \<and> length xs \<le> 256"
    and s: "good (tr_source r)" and r: "renderer_fit r w"
    and big: "length (concat xss) + tr_max_tap_delta_samples r + w + 2 \<le> 2 ^ 53"
  shows "\<exists>r'. tap_message src xss r = Inr (Some (r', snd (tape_message src r xss (tr_source r)))) \<and>
    tr_source r' = fst (tape_message src r xss (tr_source r)) \<and> good (tr_source r') \<and> renderer_fit r' w \<and> same_tap_setup r r'"
proof -
  let ?d = "tr_max_tap_delta_samples r" and ?zs = "map (\<lambda>n. replicate n 0) (drain_chunks (tr_max_tap_delta_samples r))"
  let ?r = "r\<lparr>tr_source := src_on_message_start src (tr_source r), tr_line := sdl_clear (tr_line r), tr_out_cursor := 0, tr_line_cursor := 0\<rparr>"
  have start: "tap_on_message_start src r = Inr ?r" by (simp add: tap_on_message_start_def)
  have same: "same_tap_setup r ?r" by (simp add: same_tap_setup_def)
  have begun: "renders_at ?r w []" using r sdl_clear_tape by (auto simp: renderer_fit_def renders_at_def)
  have good: "good (tr_source ?r)" using d s by (simp add: delays_between_def)
  have small: "\<forall>xs \<in> set (xss @ ?zs). xs \<noteq> [] \<and> length xs \<le> 256" using xss drain_chunks_small by fastforce
  obtain r' where r': "tap_blocks src (xss @ ?zs) ?r = (r', snd (tape_message src r xss (tr_source r)))"
    "tr_source r' = fst (tape_message src r xss (tr_source r))" "good (tr_source r')"
    "renders_at r' w (concat (xss @ ?zs))" "same_tap_setup ?r r'"
    using tap_blocks_tape [OF d small good begun, of "[]"] big
    by (auto simp: tape_message_def Let_def tape_calls_setup [OF same] concat_drain comp_def)
  obtain r1 cs where b: "tap_blocks src xss ?r = (r1, cs)" by (cases "tap_blocks src xss ?r")
  have "renderer_fit r' w" using r'(4) by (auto simp: renderer_fit_def renders_at_def)
  moreover have "tr_max_tap_delta_samples r1 = ?d"
  proof -
    have "tap_blocks src yss q = (q', ds) \<Longrightarrow> tr_max_tap_delta_samples q' = tr_max_tap_delta_samples q" for yss q q' ds
      by (induction yss arbitrary: q ds) (auto simp: tap_process_facts split: prod.splits)
    from this [OF b] show ?thesis by simp
  qed
  ultimately show ?thesis
    using r' b same_tap_setup_trans [OF same r'(5)]
    by (auto simp: tap_message_def start tap_on_message_end_def drain_tail_blocks tap_blocks_append case_prod_unfold Let_def)
qed

section \<open>The delay line is long enough\<close>

fun tap_messages :: "'s tap_source \<Rightarrow> real list list list \<Rightarrow> 's tap_renderer \<Rightarrow> render_call list list option" where
  "tap_messages src [] r = Some []"
| "tap_messages src (xss # ms) r =
    (case tap_message src xss r of Inr (Some (r, cs)) \<Rightarrow> map_option ((#) cs) (tap_messages src ms r) | _ \<Rightarrow> None)"

fun tape_messages :: "'s tap_source \<Rightarrow> 's tap_renderer \<Rightarrow> real list list list \<Rightarrow> 's \<Rightarrow> render_call list list" where
  "tape_messages src r [] s = []"
| "tape_messages src r (xss # ms) s = (let (s, cs) = tape_message src r xss s in cs # tape_messages src r ms s)"

lemma tape_message_setup: "same_tap_setup r r' \<Longrightarrow> tape_message src r' xss s = tape_message src r xss s"
  by (simp add: tape_message_def tape_calls_setup) (simp add: same_tap_setup_def Let_def)

lemma tape_messages_setup: "same_tap_setup r r' \<Longrightarrow> tape_messages src r' ms s = tape_messages src r ms s"
  by (induction ms arbitrary: s) (simp_all add: tape_message_setup)

lemma sdl_resize_tape:
  assumes "n \<le> 2 ^ 63"
  shows "\<exists>cap \<ge> n. sdl_tape (sdl_resize n) cap []"
proof -
  obtain j where j: "round_up_pow2 n = 2 ^ j" "(2 :: nat) ^ j \<le> max 1 (2 * n)" "n \<le> 2 ^ j"
    using pow2_loop_1 [of n] by (cases "n = 0") (auto simp: round_up_pow2_def intro: that [of 0])
  have "max 1 (2 * n) \<le> 2 ^ 64" using assms by simp
  with j(2) have "(2 :: nat) ^ j \<le> 2 ^ 64" by (rule order_trans)
  then have "j \<le> 64" by (rule power_le_imp_le_exp [rotated]) simp
  moreover have "replicate (2 ^ j) (0 :: real) ! nat (q mod 2 ^ j) = 0" for q :: int
    by (rule nth_replicate) (simp add: nat_less_iff)
  ultimately have "sdl_tape (sdl_resize n) (2 ^ j) []"
    by (auto simp: sdl_tape_def sdl_resize_def Let_def j(1) tape_def)
  with j(3) show ?thesis by blast
qed

text \<open>C13: The delay line is long enough, under the conditions its design names: no clock offset, blocks of at
  most 256 samples, and a source whose delays stay, in every state it reaches, between three samples (the guard
  floor of the converted trajectories) and the worst excess the model declared. Then any run of messages, in any
  such blocks, makes the pair-buffer calls of a renderer that keeps each finished message and reads it without a
  ring: no read meets a sample of an earlier message, an overwritten one, or one not yet written.\<close>

theorem delay_line_is_long_enough:
  assumes "tap_renderer_new src p = Inr r" and "tp_clock_offset_ppm p = 0" and "tp_tap_source p = Some s"
    and "good s" and "delays_between src good (tp_sdl_worst_excess_samples p)"
    and "\<forall>xss \<in> set ms. (\<forall>xs \<in> set xss. xs \<noteq> [] \<and> length xs \<le> 256) \<and>
      length (concat xss) + src_max_tap_delta_samples src s + tp_sdl_worst_excess_samples p + 2 \<le> 2 ^ 53"
    and "tp_sdl_worst_excess_samples p \<le> 2 ^ 52"
  shows "tap_messages src ms r = Some (tape_messages src r ms s)"
proof -
  let ?w = "tp_sdl_worst_excess_samples p"
  have run: "tap_messages src ms q = Some (tape_messages src q ms (tr_source q))"
    if "good (tr_source q)" "renderer_fit q ?w" "tr_max_tap_delta_samples q = tr_max_tap_delta_samples r" for q
    using that assms(6)
  proof (induction ms arbitrary: q)
    case (Cons xss ms)
    have big: "length (concat xss) + tr_max_tap_delta_samples q + ?w + 2 \<le> 2 ^ 53"
      using Cons.prems(3,4) assms(1,3) by (auto simp: tap_renderer_new_def)
    obtain q' where q: "tap_message src xss q = Inr (Some (q', snd (tape_message src q xss (tr_source q))))"
      "tr_source q' = fst (tape_message src q xss (tr_source q))" "good (tr_source q')" "renderer_fit q' ?w" "same_tap_setup q q'"
      using tap_message_tape [OF assms(5) _ Cons.prems(1,2) big] Cons.prems(4) by auto
    from q(5) Cons.prems(3) have "tr_max_tap_delta_samples q' = tr_max_tap_delta_samples r" by (simp add: same_tap_setup_def)
    from Cons.IH [OF q(3,4) this] Cons.prems(4) q(1,2) show ?case
      by (simp add: case_prod_unfold Let_def tape_messages_setup [OF q(5)])
  qed simp
  have cap: "sdl_min_capacity ?w 0 = ?w + 261" by (simp add: sdl_min_capacity_def PROCESSING_BLOCK_SIZE_def)
  obtain c where "?w + 261 \<le> c" "sdl_tape (sdl_resize (?w + 261)) c []"
    using sdl_resize_tape [of "?w + 261"] assms(7) by auto
  then have "renderer_fit r ?w" using assms(1-3) cap by (auto simp: renderer_fit_def tap_renderer_new_def intro!: exI [of _ c])
  moreover have "tr_source r = s" using assms(1,3) by (auto simp: tap_renderer_new_def)
  ultimately show ?thesis using run [of r] assms(4) by simp
qed

section \<open>Constant taps\<close>

lemma tape_read_integer:
  assumes "f32 (tape ws j) = tape ws j"
  shows "tape_read ws (of_int j) = tape ws j"
  by (simp add: tape_read_def Let_def catmull_rom_0 assms)

lemma tape_sample_constant:
  assumes "f32 g = g" and "f32 (tape ws (int p + int i - int d)) = tape ws (int p + int i - int d)"
    and "p + i + d \<le> 2 ^ 53"
  shows "tape_sample ws \<lparr>tp_delay_start = real d, tp_delay_end = real d, tp_amplitude_start = g, tp_amplitude_end = g\<rparr> (real p) n i =
    fmul g (tape ws (int p + int i - int d))"
proof -
  have g: "f64 g = g" using f64_f32 [of g] assms(1) by simp
  have e: "f64 (real i) = real i" "f64 (real d) = real d" "dadd (real p) (real i) = real (p + i)"
    using f64_of_nat [of i] f64_of_nat [of d] f64_of_nat [of "p + i"] assms(3) by simp_all
  have "dsub (real (p + i)) (real d) = of_int (int p + int i - int d)"
    using f64_of_int [of "int p + int i - int d"] assms(3) by simp
  moreover have "tape_read ws (real p + real i - real d) = tape ws (int p + int i - int d)"
    using tape_read_integer [OF assms(2)] by simp
  ultimately show ?thesis
    unfolding tape_sample_def Let_def tap_state.simps e by (simp add: e g assms(1,2))
qed

text \<open>A replay file with one tap that never moves, four samples late at 32768 Hz.\<close>

definition flat :: tap_trajectory where
  "flat = \<lparr>tj_header = \<lparr>th_tap_count = 1, th_frame_count = 4, th_dt_s = 1, th_fc_meas_hz = 1, th_max_delay_s = 1/8192\<rparr>,
     tj_delays = [1/8192, 1/8192, 1/8192, 1/8192], tj_amplitudes = [1, 1, 1, 1]\<rparr>"

definition flat_source :: replay_source where
  "flat_source = replay_source_new flat default_replay 32768"

definition flat_params :: "replay_source tap_renderer_params" where
  "flat_params = \<lparr>tp_tap_source = Some flat_source, tp_afe_chain_gain_linear = 1, tp_base_delay_samples = 10,
     tp_sample_rate = 32768, tp_clock_offset_ppm = 0, tp_sdl_worst_excess_samples = rs_max_tap_delta_samples flat_source\<rparr>"

definition flat_good :: "replay_source \<Rightarrow> bool" where
  "flat_good s \<longleftrightarrow> rs_trajectory s = flat \<and> rs_sample_rate s = 32768 \<and> rs_message_offset_s s = 0 \<and> rs_offset_s s = 0 \<and>
     \<not> rs_advance_per_message s"

lemma catmull_rom_d_const:
  assumes "f64 c = c" and "f64 (2 * c) = 2 * c" and "f64 (3 * c) = 3 * c" and "f64 (4 * c) = 4 * c" and "f64 (5 * c) = 5 * c"
  shows "catmull_rom_d c c c c mu = c"
proof -
  have "f64 (- (3 * c)) = - (3 * c)" using assms(3) by simp
  then show ?thesis using assms by (simp add: catmull_rom_d_def)
qed

lemma flat_numbers: "f64 (1/8192) = 1/8192" "f64 32768 = 32768" "f64 4 = 4" "f64 5 = 5"
  using f64_binary_fraction [of 1 13] f64_of_nat [of 32768] f64_of_nat [of 4] f64_of_nat [of 5] by simp_all

lemma flat_sample: "trajectory_sample flat 0 r = \<lparr>sm_delay_s = 1/8192, sm_amplitude = 1\<rparr>"
proof -
  define i where "i = cmin (nat (ctrunc (cclamp (ddiv r 1) 0 (f64 (real (4 - 1)))))) (4 - 1 - 1)"
  have i: "i \<le> 2" by (simp add: i_def)
  have t: "[c, c, c, c :: real] ! (f * 1 + 0) = c" if "f \<le> 3" for c f
    using that by (auto simp: nth_Cons' numeral_eq_Suc le_Suc_eq)
  have d: "catmull_rom_d (1/8192) (1/8192) (1/8192) (1/8192) mu = 1/8192" for mu
    by (rule catmull_rom_d_const) (use f64_binary_fraction [of 1 13] f64_binary_fraction [of 1 12] f64_binary_fraction [of 3 13]
      f64_binary_fraction [of 1 11] f64_binary_fraction [of 5 13] in simp_all)
  have a: "catmull_rom_d 1 1 1 1 mu = 1" for mu
    by (rule catmull_rom_d_const) (use small_doubles flat_numbers in simp_all)
  have f: "(if i = 0 then 0 else i - 1) \<le> 3" "i \<le> 3" "i + 1 \<le> 3" "cmin (i + 2) (4 - 1) \<le> 3" using i by auto
  show ?thesis
    unfolding trajectory_sample_def flat_def Let_def tap_trajectory.simps tap_header.simps i_def [symmetric] t [OF f(1)] t [OF f(2)] t [OF f(3)] t [OF f(4)] a d
    by simp
qed

lemma flat_max: "rs_max_tap_delta_samples flat_source = 4"
  by (simp add: flat_source_def replay_source_new_def flat_def Let_def flat_numbers)

lemma flat_start: "flat_good flat_source"
  by (simp add: flat_good_def flat_source_def replay_source_new_def default_replay_def Let_def flat_numbers)

lemma flat_taps:
  assumes "flat_good s"
  shows "flat_good (fst (replay_taps_at x cap s))" "flat_good (replay_on_message_start s)"
    and "\<forall>p \<in> set (snd (replay_taps_at x cap s)). st_delta_samples_frac p = 4"
    and "x \<le> 3 \<Longrightarrow> snd (replay_taps_at x 1 s) = [\<lparr>st_delta_samples_frac = 4, st_gain = 1\<rparr>]"
proof -
  show "flat_good (fst (replay_taps_at x cap s))" "flat_good (replay_on_message_start s)"
    using assms by (simp_all add: flat_good_def replay_taps_at_def replay_on_message_start_def Let_def)
  have n: "th_tap_count (tj_header flat) = 1" by (simp add: flat_def)
  show "\<forall>p \<in> set (snd (replay_taps_at x cap s)). st_delta_samples_frac p = 4"
    using assms by (auto simp: flat_good_def replay_taps_at_def Let_def n flat_sample flat_numbers)
  have d: "duration_s flat = 3" by (simp add: duration_s_def flat_def small_doubles)
  have "past_end_ramp flat (dadd 0 x) = 1" if "x \<le> 3"
    using f64_mono [OF that] by (simp add: past_end_ramp_def d small_doubles)
  then show "snd (replay_taps_at x 1 s) = [\<lparr>st_delta_samples_frac = 4, st_gain = 1\<rparr>]" if "x \<le> 3"
    using assms that by (simp add: flat_good_def replay_taps_at_def Let_def n flat_sample flat_numbers)
qed

text \<open>Its blocks: the message, four samples late.\<close>

lemma flat_block:
  assumes "flat_good s" and "tr_sample_rate r = 32768" and "tr_tap_capacity r = 1" and "tr_afe_chain_gain r = 1"
    and "\<forall>x \<in> set ws. f32 x = x" and "p + n \<le> 32768"
  shows "flat_good (fst (tape_block replay_ops r ws p n s))"
    and "snd (tape_block replay_ops r ws p n s) = [R_Scatter p (map (\<lambda>i. tape ws (int p + int i - 4)) [0..<n]), R_Commit (p + n)]"
proof -
  have q: "src_taps_at replay_ops = replay_taps_at" by (simp add: replay_ops_def)
  note g = flat_taps [OF assms(1)]
  show "flat_good (fst (tape_block replay_ops r ws p n s))"
    using flat_taps(1) [OF g(1)] by (simp add: tape_block_def q Let_def case_prod_unfold)
  have t: "ddiv (f64 (real k)) (f64 (real 32768)) \<le> 3" if "k \<le> 32768" for k
  proof -
    have "f64 (real k) = real k" by (rule f64_of_nat) (use that in simp)
    then have "f64 (f64 (real k) / 32768) \<le> f64 3" by (intro f64_mono) (use that in simp)
    then show ?thesis by (simp add: flat_numbers small_doubles)
  qed
  have s1: "snd (replay_taps_at (ddiv (f64 (real p)) (f64 (real 32768))) 1 s) = [\<lparr>st_delta_samples_frac = 4, st_gain = 1\<rparr>]"
    by (rule g(4) [OF t]) (use assms(6) in simp)
  have s2: "snd (replay_taps_at (ddiv (f64 (real (p + n))) (f64 (real 32768))) 1 s') = [\<lparr>st_delta_samples_frac = 4, st_gain = 1\<rparr>]"
    if "flat_good s'" for s' by (rule flat_taps(4) [OF that t]) (use assms(6) in simp)
  have bt: "block_tap 1 0 \<lparr>st_delta_samples_frac = 4, st_gain = 1\<rparr> \<lparr>st_delta_samples_frac = 4, st_gain = 1\<rparr> =
      \<lparr>tp_delay_start = real 4, tp_delay_end = real 4, tp_amplitude_start = 1, tp_amplitude_end = 1\<rparr>"
    by (simp add: block_tap_def flat_numbers)
  have f: "f32 (tape ws j) = tape ws j" for j using assms(5) by (auto simp: tape_def)
  have "tape_sample ws \<lparr>tp_delay_start = real 4, tp_delay_end = real 4, tp_amplitude_start = 1, tp_amplitude_end = 1\<rparr> (real p) n i =
      tape ws (int p + int i - 4)" if "i < n" for i
    using tape_sample_constant [OF f32_1 f, of p i 4 n] that assms(6) f by simp
  then show "snd (tape_block replay_ops r ws p n s) = [R_Scatter p (map (\<lambda>i. tape ws (int p + int i - 4)) [0..<n]), R_Commit (p + n)]"
    unfolding tape_block_def q assms(2-4) Let_def case_prod_unfold
    using s1 s2 [OF g(1)] by (simp add: bt)
qed

theorem delay_line_is_long_enough_witness:
  "map_option (map adds_of) (tap_messages replay_ops [[[1, 1]], [[1]]] (projr (tap_renderer_new replay_ops flat_params))) =
    Some [[(0, 0), (1, 0), (2, 0), (3, 0), (4, 1), (5, 1)], [(0, 0), (1, 0), (2, 0), (3, 0), (4, 1)]]"
proof -
  let ?r = "projr (tap_renderer_new replay_ops flat_params)"
  have new: "tap_renderer_new replay_ops flat_params = Inr ?r" by (simp add: tap_renderer_new_def flat_params_def)
  have r: "tr_max_tap_delta_samples ?r = 4" "tr_afe_chain_gain ?r = 1" "tr_tap_capacity ?r = 1" "tr_sample_rate ?r = 32768"
    using flat_start by (simp_all add: tap_renderer_new_def flat_params_def replay_ops_def flat_max flat_good_def) (simp add: flat_def)
  have "delays_between replay_ops flat_good 4"
    using flat_taps by (simp add: delays_between_def replay_ops_def)
  then have run: "tap_messages replay_ops [[[1, 1]], [[1]]] ?r = Some (tape_messages replay_ops ?r [[[1, 1]], [[1]]] flat_source)"
    by (intro delay_line_is_long_enough [OF new, where good = flat_good])
      (use flat_start flat_max in \<open>simp_all add: flat_params_def, simp_all add: replay_ops_def\<close>)
  have chunks: "drain_chunks 4 = [4]" by (simp add: drain_chunks.simps)
  have t: "tape [1, 1, 0, 0, 0, 0] 0 = 1" "tape [1, 1, 0, 0, 0, 0] 1 = 1" "tape [1, 0, 0, 0, 0] 0 = 1"
    "j < 0 \<Longrightarrow> tape ws j = 0" for j ws by (simp_all add: tape_def)
  have rep: "replicate 4 (0 :: real) = [0, 0, 0, 0]" by (simp add: numeral_eq_Suc)
  note block = flat_block [OF _ r(4,3,2)]
  have b1: "snd (tape_block replay_ops ?r [1, 1, 0, 0, 0, 0] 0 2 s) = [R_Scatter 0 [0, 0], R_Commit 2]"
    "snd (tape_block replay_ops ?r [1, 1, 0, 0, 0, 0] 2 4 s) = [R_Scatter 2 [0, 0, 1, 1], R_Commit 6]"
    "snd (tape_block replay_ops ?r [1, 0, 0, 0, 0] 0 1 s) = [R_Scatter 0 [0], R_Commit 1]"
    "snd (tape_block replay_ops ?r [1, 0, 0, 0, 0] 1 4 s) = [R_Scatter 1 [0, 0, 0, 1], R_Commit 5]" if "flat_good s" for s
    using block(2) [OF that, of "[1, 1, 0, 0, 0, 0]" 0 2] block(2) [OF that, of "[1, 1, 0, 0, 0, 0]" 2 4]
      block(2) [OF that, of "[1, 0, 0, 0, 0]" 0 1] block(2) [OF that, of "[1, 0, 0, 0, 0]" 1 4]
    by (simp_all add: upt_rec t del: upt_Suc)
  have next1: "flat_good (fst (tape_block replay_ops ?r [1, 1, 0, 0, 0, 0] 0 2 s))"
    "flat_good (fst (tape_block replay_ops ?r [1, 0, 0, 0, 0] 0 1 s))" if "flat_good s" for s
    using block(1) [OF that, of "[1, 1, 0, 0, 0, 0]" 0 2] block(1) [OF that, of "[1, 0, 0, 0, 0]" 0 1] by simp_all
  have next2: "flat_good (fst (tape_block replay_ops ?r [1, 1, 0, 0, 0, 0] 2 4 s))" if "flat_good s" for s
    using block(1) [OF that, of "[1, 1, 0, 0, 0, 0]" 2 4] by simp
  have start: "flat_good (src_on_message_start replay_ops s)" if "flat_good s" for s
    using flat_taps(2) [OF that] by (simp add: replay_ops_def)
  have m1: "adds_of (snd (tape_message replay_ops ?r [[1, 1]] s)) = [(0, 0), (1, 0), (2, 0), (3, 0), (4, 1), (5, 1)]"
    "flat_good (fst (tape_message replay_ops ?r [[1, 1]] s))" if "flat_good s" for s
    using b1 next1 next2 start [OF that] by (simp_all add: tape_message_def Let_def r chunks rep case_prod_unfold upt_rec numeral_2_eq_2)
  have m2: "adds_of (snd (tape_message replay_ops ?r [[1]] s)) = [(0, 0), (1, 0), (2, 0), (3, 0), (4, 1)]" if "flat_good s" for s
    using b1 next1 start [OF that] by (simp add: tape_message_def Let_def r chunks rep case_prod_unfold upt_rec)
  show ?thesis unfolding run using m1 [OF flat_start] m2 by (simp add: case_prod_unfold Let_def)
qed

end
