(* ===== verification/Channel_Model.thy ===== *)
theory Channel_Model
  imports Static_Renderer Tap_Source_Renderer Geometric
begin

text \<open>
  The propagation models and the channel: \<open>channel/model/channel_model.cpp\<close>, the three
  \<open>make_*_renderer\<close> functions and \<open>channel/channel.cpp\<close>. The registry of renderers is a
  datatype with one constructor per model, its virtual calls the functions that dispatch on it.
  Trajectory files come from the file system parameter. Log lines are left out.
\<close>

section \<open>Build context and shared helpers\<close>

record channel_build_context =
  cx_source_cal :: calibration_data
  cx_receiver_cal :: calibration_data
  cx_source_transducer :: transducer_spec
  cx_receiver_transducer :: transducer_spec
  cx_receive_boost_db :: real
  cx_sample_rate :: nat

datatype build_error = Build_Error error | Build_Tap_Error tap_error

definition bulk_propagation_delay_samples :: "channel_config \<Rightarrow> nat \<Rightarrow> nat" where
  "bulk_propagation_delay_samples config sample_rate =
    (let sound_speed = clamp_sound_speed (ch_sound_speed_m_s config);
         base_delay_seconds = (if 0 \<le> ch_propagation_delay_s config then ch_propagation_delay_s config
           else ddiv (ch_range_m config) sound_speed)
     in nat (cround (dmul base_delay_seconds (real sample_rate))))"

definition afe_chain_gain_db :: "channel_config \<Rightarrow> channel_build_context \<Rightarrow> real" where
  "afe_chain_gain_db config ctx =
    (let chain_db = compute_channel_afe_chain_gain_db (cx_source_cal ctx) (cx_receiver_cal ctx)
           (cx_source_transducer ctx) (cx_receiver_transducer ctx) (ch_rx_atten_idx config)
     in dadd (dadd chain_db (ch_gain_db config)) (cx_receive_boost_db ctx))"

definition afe_chain_gain_linear :: "channel_config \<Rightarrow> channel_build_context \<Rightarrow> real" where
  "afe_chain_gain_linear config ctx = f32 (dpow10 (ddiv (afe_chain_gain_db config ctx) 20))"

section \<open>The models\<close>

datatype renderer =
    Static_R static_renderer
  | Geometric_R "geometric_source tap_renderer"
  | Replay_R "replay_source tap_renderer"

definition make_static_renderer :: "channel_config \<Rightarrow> channel_build_context \<Rightarrow> build_error + renderer" where
  "make_static_renderer config ctx =
    (let physical_gain_db = compute_channel_physical_gain_db (cx_source_cal ctx) (cx_receiver_cal ctx)
           (cx_source_transducer ctx) (cx_receiver_transducer ctx) config (ch_rx_atten_idx config);
         total_gain_db = dadd (dadd physical_gain_db (ch_gain_db config)) (cx_receive_boost_db ctx);
         channel_gain = f32 (dpow10 (ddiv total_gain_db 20))
     in case static_new \<lparr>sp_taps = ch_multipath_taps config, sp_channel_gain_linear = channel_gain,
            sp_base_delay_samples = bulk_propagation_delay_samples config (cx_sample_rate ctx),
            sp_sample_rate = cx_sample_rate ctx, sp_clock_offset_ppm = ch_clock_offset_ppm config,
            sp_sound_speed_m_s = ch_sound_speed_m_s config,
            sp_velocity_radial_m_s = ch_velocity_radial_m_s config,
            sp_acceleration_radial_m_s2 = ch_acceleration_radial_m_s2 config\<rparr> of
          Inl e \<Rightarrow> Inl (Build_Error e) | Inr r \<Rightarrow> Inr (Static_R r))"

definition make_geometric_renderer :: "channel_config \<Rightarrow> channel_build_context \<Rightarrow> build_error + renderer" where
  "make_geometric_renderer config ctx =
    (case geometric_source_new config (f32_value (cal_center_freq_hz (cx_source_cal ctx))) (cx_sample_rate ctx) of
       Inl e \<Rightarrow> Inl (Build_Error e)
     | Inr source \<Rightarrow>
         (case tap_renderer_new geometric_ops
             \<lparr>tp_tap_source = Some source, tp_afe_chain_gain_linear = afe_chain_gain_linear config ctx,
              tp_base_delay_samples = gs_base_delay_samples source, tp_sample_rate = cx_sample_rate ctx,
              tp_clock_offset_ppm = ch_clock_offset_ppm config,
              tp_sdl_worst_excess_samples = gs_sdl_worst_excess_samples source\<rparr> of
            Inl e \<Rightarrow> Inl (Build_Error e) | Inr r \<Rightarrow> Inr (Geometric_R r)))"

definition make_replay_renderer :: "files \<Rightarrow> channel_config \<Rightarrow> channel_build_context \<Rightarrow> build_error + renderer" where
  "make_replay_renderer fs config ctx =
    (case load_trajectory fs (rp_trajectory_path (ch_replay config)) of
       Inl e \<Rightarrow> Inl (Build_Tap_Error e)
     | Inr trajectory \<Rightarrow>
         let source = replay_source_new trajectory (ch_replay config) (cx_sample_rate ctx)
         in case tap_renderer_new replay_ops
             \<lparr>tp_tap_source = Some source, tp_afe_chain_gain_linear = afe_chain_gain_linear config ctx,
              tp_base_delay_samples = bulk_propagation_delay_samples config (cx_sample_rate ctx),
              tp_sample_rate = cx_sample_rate ctx, tp_clock_offset_ppm = ch_clock_offset_ppm config,
              tp_sdl_worst_excess_samples = rs_max_tap_delta_samples source\<rparr> of
            Inl e \<Rightarrow> Inl (Build_Error e) | Inr r \<Rightarrow> Inr (Replay_R r))"

record channel_model =
  cm_name :: string
  cm_make_renderer :: "channel_config \<Rightarrow> channel_build_context \<Rightarrow> build_error + renderer"

fun find_channel_model :: "files \<Rightarrow> channel_mode \<Rightarrow> channel_model" where
  "find_channel_model fs Mode_Static = \<lparr>cm_name = ''static'', cm_make_renderer = make_static_renderer\<rparr>"
| "find_channel_model fs Mode_Geometric = \<lparr>cm_name = ''geometric'', cm_make_renderer = make_geometric_renderer\<rparr>"
| "find_channel_model fs Mode_Replay = \<lparr>cm_name = ''replay'', cm_make_renderer = make_replay_renderer fs\<rparr>"

section \<open>Virtual calls\<close>

definition lift_process :: "('r \<Rightarrow> renderer) \<Rightarrow> error + ('r \<times> 'a) option \<Rightarrow> error + (renderer \<times> 'a) option" where
  "lift_process c res = (case res of Inl e \<Rightarrow> Inl e | Inr o' \<Rightarrow> Inr (map_option (map_prod c (\<lambda>x. x)) o'))"

fun renderer_start :: "renderer \<Rightarrow> error + renderer" where
  "renderer_start (Static_R r) = map_sum (\<lambda>e. e) Static_R (static_on_message_start r)"
| "renderer_start (Geometric_R r) = map_sum (\<lambda>e. e) Geometric_R (tap_on_message_start geometric_ops r)"
| "renderer_start (Replay_R r) = map_sum (\<lambda>e. e) Replay_R (tap_on_message_start replay_ops r)"

fun renderer_process :: "real list \<Rightarrow> renderer \<Rightarrow> error + (renderer \<times> render_call list \<times> nat) option" where
  "renderer_process xs (Static_R r) = lift_process Static_R (static_process xs r)"
| "renderer_process xs (Geometric_R r) = lift_process Geometric_R (tap_process_op geometric_ops xs r)"
| "renderer_process xs (Replay_R r) = lift_process Replay_R (tap_process_op replay_ops xs r)"

fun renderer_end :: "renderer \<Rightarrow> error + (renderer \<times> render_call list) option" where
  "renderer_end (Static_R r) = lift_process Static_R (static_on_message_end r)"
| "renderer_end (Geometric_R r) = lift_process Geometric_R (tap_on_message_end geometric_ops r)"
| "renderer_end (Replay_R r) = lift_process Replay_R (tap_on_message_end replay_ops r)"

fun renderer_input_needed :: "renderer \<Rightarrow> nat" where
  "renderer_input_needed (Static_R r) = static_input_needed_for_batch r"
| "renderer_input_needed (Geometric_R r) = tap_input_needed_for_batch"
| "renderer_input_needed (Replay_R r) = tap_input_needed_for_batch"

fun renderer_base_delay :: "renderer \<Rightarrow> nat" where
  "renderer_base_delay (Static_R r) = sr_base_delay_samples r"
| "renderer_base_delay (Geometric_R r) = tr_base_delay_samples r"
| "renderer_base_delay (Replay_R r) = tr_base_delay_samples r"

fun renderer_max_tap_delta :: "renderer \<Rightarrow> nat" where
  "renderer_max_tap_delta (Static_R r) = sr_max_tap_delta_samples r"
| "renderer_max_tap_delta (Geometric_R r) = tr_max_tap_delta_samples r"
| "renderer_max_tap_delta (Replay_R r) = tr_max_tap_delta_samples r"

fun renderer_doppler_ratio :: "renderer \<Rightarrow> real" where
  "renderer_doppler_ratio (Static_R r) = sr_current_doppler_ratio r"
| "renderer_doppler_ratio (Geometric_R r) = tap_current_doppler_ratio r"
| "renderer_doppler_ratio (Replay_R r) = tap_current_doppler_ratio r"

section \<open>The channel\<close>

record channel =
  cn_config :: channel_config
  cn_sample_rate :: nat
  cn_renderer :: renderer

definition channel_new :: "files \<Rightarrow> channel_config \<Rightarrow> calibration_data \<Rightarrow> calibration_data \<Rightarrow>
    transducer_spec \<Rightarrow> transducer_spec \<Rightarrow> real \<Rightarrow> build_error + channel" where
  "channel_new fs config source_cal receiver_cal source_transducer receiver_transducer receive_boost_db =
    (let sample_rate = unat (cal_adc_sampling_rate source_cal);
         ctx = \<lparr>cx_source_cal = source_cal, cx_receiver_cal = receiver_cal, cx_source_transducer = source_transducer,
           cx_receiver_transducer = receiver_transducer, cx_receive_boost_db = receive_boost_db,
           cx_sample_rate = sample_rate\<rparr>
     in case cm_make_renderer (find_channel_model fs (ch_mode config)) config ctx of
          Inl e \<Rightarrow> Inl e
        | Inr r \<Rightarrow> Inr \<lparr>cn_config = config, cn_sample_rate = sample_rate, cn_renderer = r\<rparr>)"

definition channel_on_message_start :: "nat \<Rightarrow> bool \<Rightarrow> channel \<Rightarrow> pair_buffer \<Rightarrow> error + channel \<times> pair_buffer" where
  "channel_on_message_start gap absolute_first_origin c b =
    (case renderer_start (cn_renderer c) of Inl e \<Rightarrow> Inl e
     | Inr r \<Rightarrow> Inr (c\<lparr>cn_renderer := r\<rparr>, begin_message gap absolute_first_origin b))"

definition channel_process :: "real list \<Rightarrow> channel \<Rightarrow> pair_buffer \<Rightarrow> error + (channel \<times> pair_buffer \<times> nat) option" where
  "channel_process samples c b =
    (case renderer_process samples (cn_renderer c) of Inl e \<Rightarrow> Inl e | Inr None \<Rightarrow> Inr None
     | Inr (Some (r, cs, used)) \<Rightarrow> Inr (Some (c\<lparr>cn_renderer := r\<rparr>, apply_calls cs b, used)))"

definition channel_on_message_end :: "channel \<Rightarrow> pair_buffer \<Rightarrow> error + (channel \<times> pair_buffer) option" where
  "channel_on_message_end c b =
    (case renderer_end (cn_renderer c) of Inl e \<Rightarrow> Inl e | Inr None \<Rightarrow> Inr None
     | Inr (Some (r, cs)) \<Rightarrow> Inr (Some (c\<lparr>cn_renderer := r\<rparr>, apply_calls cs b)))"

definition channel_input_needed_for_batch :: "channel \<Rightarrow> nat" where
  "channel_input_needed_for_batch c = renderer_input_needed (cn_renderer c)"

definition channel_max_tap_delta_samples :: "channel \<Rightarrow> nat" where
  "channel_max_tap_delta_samples c = renderer_max_tap_delta (cn_renderer c)"

definition channel_base_delay_samples :: "channel \<Rightarrow> nat" where
  "channel_base_delay_samples c = renderer_base_delay (cn_renderer c)"

definition write_extent_samples :: "channel \<Rightarrow> nat" where
  "write_extent_samples c = channel_base_delay_samples c + channel_max_tap_delta_samples c"

definition propagation_delay_seconds :: "channel \<Rightarrow> real" where
  "propagation_delay_seconds c = (if 0 < cn_sample_rate c
     then ddiv (f64 (real (channel_base_delay_samples c))) (real (cn_sample_rate c)) else 0)"

definition channel_current_doppler_ratio :: "channel \<Rightarrow> real" where
  "channel_current_doppler_ratio c = renderer_doppler_ratio (cn_renderer c)"

section \<open>Every renderer keeps the sizing contract\<close>

fun renderer_progress :: "renderer \<Rightarrow> nat" where
  "renderer_progress (Static_R r) = sr_source_samples_processed r"
| "renderer_progress (Geometric_R r) = tr_out_cursor r"
| "renderer_progress (Replay_R r) = tr_out_cursor r"

fun renderer_good :: "renderer \<Rightarrow> bool" where
  "renderer_good (Static_R r) \<longleftrightarrow> static_good r"
| "renderer_good _ \<longleftrightarrow> True"

lemma map_sum_Inr: "map_sum (\<lambda>e. e) c x = Inr y \<longleftrightarrow> (\<exists>z. x = Inr z \<and> y = c z)"
  by (cases x) auto

lemma lift_process_Some: "lift_process c res = Inr (Some (r, a)) \<longleftrightarrow> (\<exists>q. res = Inr (Some (q, a)) \<and> r = c q)"
  by (auto simp: lift_process_def split: sum.splits)

interpretation rend: channel_renderer renderer_start renderer_process renderer_end renderer_progress
  renderer_max_tap_delta renderer_good
proof
  fix r r' assume "renderer_good r" "renderer_start r = Inr r'"
  then show "renderer_good r' \<and> renderer_progress r' = 0 \<and> renderer_max_tap_delta r' = renderer_max_tap_delta r"
    by (cases r) (auto simp: map_sum_Inr dest: static.start_law tap_renderer.start_law [OF TrueI])
next
  fix r xs r' cs used assume "renderer_good r" "renderer_process xs r = Inr (Some (r', cs, used))"
  then show "renderer_good r' \<and> renderer_max_tap_delta r' = renderer_max_tap_delta r \<and> used \<le> length xs \<and>
      calls_within (renderer_progress r' + renderer_max_tap_delta r) (renderer_progress r) cs (renderer_progress r')"
    by (cases r) (auto simp: lift_process_Some dest: static.process_law tap_renderer.process_law [OF TrueI])
next
  fix r r' cs assume "renderer_good r" "renderer_end r = Inr (Some (r', cs))"
  then show "renderer_good r' \<and> renderer_max_tap_delta r' = renderer_max_tap_delta r \<and>
      calls_within (renderer_progress r' + renderer_max_tap_delta r) (renderer_progress r) cs (renderer_progress r')"
    by (cases r) (auto simp: lift_process_Some dest: static.finish_law tap_renderer.finish_law [OF TrueI])
qed

section \<open>Channels built by the models are good\<close>

lemma foldl_max_ge: "m \<le> foldl (\<lambda>m t. max m (f t)) (m :: nat) ts"
    "t \<in> set ts \<Longrightarrow> f t \<le> foldl (\<lambda>m t. max m (f t)) m ts"
proof -
  have base: "m \<le> foldl (\<lambda>m t. max m (f t)) m ts" for m ts
  proof (induction ts arbitrary: m)
    case (Cons t ts)
    from Cons.IH [of "max m (f t)"] show ?case by simp
  qed simp
  show "m \<le> foldl (\<lambda>m t. max m (f t)) m ts" by (rule base)
  show "t \<in> set ts \<Longrightarrow> f t \<le> foldl (\<lambda>m t. max m (f t)) m ts"
  proof (induction ts arbitrary: m)
    case (Cons u ts)
    show ?case
    proof (cases "t = u")
      case True
      then have "f t \<le> max m (f u)" by simp
      also have "\<dots> \<le> foldl (\<lambda>m t. max m (f t)) (max m (f u)) ts" by (rule base)
      finally show ?thesis by simp
    next
      case False
      with Cons show ?thesis by simp
    qed
  qed simp
qed

lemma static_new_good: "static_new p = Inr r \<Longrightarrow> static_good r"
proof -
  assume new: "static_new p = Inr r"
  have e: "default_hilbert = \<lparr>hb_length = 31, hb_group_delay = 15, hb_coeffs = map (hilbert_tap 31) [0..<31],
      hb_history = replicate 31 0, hb_write_pos = 0\<rparr>"
    by (simp add: default_hilbert_def hilbert_new_def design_hilbert_taps_def)
  have d: "hilbert_new 31 = Inr default_hilbert" by (simp add: e hilbert_new_def design_hilbert_taps_def)
  have h: "hb_length default_hilbert = 31" "hb_group_delay default_hilbert = 15" "hb_history default_hilbert = replicate 31 0"
      "hb_write_pos default_hilbert = 0" "length (hb_coeffs default_hilbert) = 31"
    by (simp_all add: e)
  have "hilbert_reset default_hilbert = default_hilbert" using h by (simp add: hilbert_reset_def map_replicate_const)
  with hilbert_reset_at [OF d, of default_hilbert] h have z: "hilbert_at [] default_hilbert" by simp
  obtain taps q where q: "refresh_ratio q = Inr r" "sr_hilbert q = default_hilbert" "sr_source_samples_processed q = 0"
      "sr_taps q = taps" "sr_max_tap_delta_samples q = foldl (\<lambda>m t. cmax m (rt_delta_samples t)) 0 taps"
    by (rule that [OF new [unfolded static_new_def Let_def]]) simp_all
  have "taps_in_extent q" unfolding taps_in_extent_def q using foldl_max_ge(2) [of _ taps rt_delta_samples] by simp
  moreover have "streamed [] q" using z h q by (simp add: streamed_def)
  moreover have "sr_hilbert r = default_hilbert" using q(1,2) by (auto simp: refresh_ratio_Inr)
  ultimately show "static_good r"
    using refresh_frame [OF q(1)] h q(2) by (auto simp: static_good_def same_setup_def)
qed

lemma channel_new_good:
  assumes "channel_new fs config scal rcal stx rtx boost = Inr c"
  shows "renderer_good (cn_renderer c) \<and> cn_config c = config \<and> cn_sample_rate c = unat (cal_adc_sampling_rate scal)"
  using assms static_new_good
  by (cases "ch_mode config")
    (auto simp: channel_new_def make_static_renderer_def make_geometric_renderer_def make_replay_renderer_def Let_def
      split: sum.splits)

section \<open>A message through a channel\<close>

text \<open>What happens to a channel and its buffer between start and end of a message: the worker feeds
  blocks, the receiver reads, in any order.\<close>

datatype channel_event = Feed "real list" | Receive nat

fun channel_run :: "channel_event list \<Rightarrow> channel \<Rightarrow> pair_buffer \<Rightarrow> error + (channel \<times> pair_buffer \<times> real list) option" where
  "channel_run [] c b = Inr (Some (c, b, []))"
| "channel_run (Feed xs # evs) c b = (case channel_process xs c b of Inl e \<Rightarrow> Inl e | Inr None \<Rightarrow> Inr None
     | Inr (Some (c, b, used)) \<Rightarrow> channel_run evs c b)"
| "channel_run (Receive n # evs) c b = (let (b, out) = read_advance n b
     in case channel_run evs c b of Inl e \<Rightarrow> Inl e | Inr None \<Rightarrow> Inr None
        | Inr (Some (c, b, out')) \<Rightarrow> Inr (Some (c, b, out @ out')))"

lemma apply_calls_frame: "pb_read_pos (apply_calls cs b) = pb_read_pos b \<and> pb_capacity (apply_calls cs b) = pb_capacity b \<and>
    pb_write_origin (apply_calls cs b) = pb_write_origin b \<and> pb_base_delay_samples (apply_calls cs b) = pb_base_delay_samples b"
  by (induction cs arbitrary: b) (simp_all add: apply_calls_def apply_call_fields)

lemma read_advance_frame: "pb_read_pos b \<le> pb_read_pos (fst (read_advance n b)) \<and>
    pb_write_origin (fst (read_advance n b)) = pb_write_origin b \<and>
    pb_base_delay_samples (fst (read_advance n b)) = pb_base_delay_samples b"
  by (simp add: read_advance_def Let_def)

lemma channel_run_facts:
  assumes "channel_run evs c b = Inr (Some (c', b', out))" and "renderer_good (cn_renderer c)"
  defines "lead \<equiv> renderer_max_tap_delta (cn_renderer c)"
  shows "renderer_good (cn_renderer c') \<and> renderer_max_tap_delta (cn_renderer c') = lead \<and>
    renderer_progress (cn_renderer c) \<le> renderer_progress (cn_renderer c') \<and> pb_read_pos b \<le> pb_read_pos b' \<and>
    pb_capacity b' = pb_capacity b \<and> pb_write_origin b' = pb_write_origin b \<and>
    pb_base_delay_samples b' = pb_base_delay_samples b \<and>
    (pb_write_origin b + renderer_progress (cn_renderer c') + lead \<le> pb_read_pos b + pb_capacity b \<longrightarrow>
       pb_overflow_drops b' = pb_overflow_drops b)"
  using assms(1,2) unfolding lead_def
proof (induction evs arbitrary: c b out)
  case Nil
  then show ?case by simp
next
  case (Cons ev evs)
  show ?case
  proof (cases ev)
    case (Feed xs)
    obtain r cs used where p: "renderer_process xs (cn_renderer c) = Inr (Some (r, cs, used))"
      "channel_run evs (c\<lparr>cn_renderer := r\<rparr>) (apply_calls cs b) = Inr (Some (c', b', out))"
      using Cons.prems(1) Feed by (auto simp: channel_process_def split: sum.splits option.splits)
    note law = rend.process_law [OF Cons.prems(2) p(1)]
    from Cons.IH [OF p(2)] law have ih: "renderer_good (cn_renderer c')"
      "renderer_max_tap_delta (cn_renderer c') = renderer_max_tap_delta (cn_renderer c)"
      "renderer_progress r \<le> renderer_progress (cn_renderer c')" "pb_read_pos b \<le> pb_read_pos b'"
      "pb_capacity b' = pb_capacity b" "pb_write_origin b' = pb_write_origin b" "pb_base_delay_samples b' = pb_base_delay_samples b"
      "pb_write_origin b + renderer_progress (cn_renderer c') + renderer_max_tap_delta (cn_renderer c) \<le> pb_read_pos b + pb_capacity b \<Longrightarrow>
        pb_overflow_drops b' = pb_overflow_drops (apply_calls cs b)"
      by (auto simp: apply_calls_frame)
    have "pb_overflow_drops (apply_calls cs b) = pb_overflow_drops b"
      if "pb_write_origin b + renderer_progress (cn_renderer c') + renderer_max_tap_delta (cn_renderer c) \<le> pb_read_pos b + pb_capacity b"
      by (rule apply_calls_no_drop [where hi = "renderer_progress r + renderer_max_tap_delta (cn_renderer c)"])
        (use law ih(3) that in auto)
    with ih law calls_within_le show ?thesis by fastforce
  next
    case (Receive n)
    obtain out' where p: "channel_run evs c (fst (read_advance n b)) = Inr (Some (c', b', out'))"
      using Cons.prems(1) Receive by (auto simp: case_prod_unfold Let_def split: sum.splits option.splits)
    from Cons.IH [OF p Cons.prems(2)] read_advance_frame [of b n] read_fields [of n b] show ?thesis by auto
  qed
qed

lemma message_no_drop:
  assumes "renderer_good (cn_renderer c)"
    and "channel_on_message_start gap absolute_origin c b = Inr (c0, b0)"
    and "channel_run evs c0 b0 = Inr (Some (c1, b1, out))" and "channel_on_message_end c1 b1 = Inr (Some (c2, b2))"
  shows "renderer_good (cn_renderer c2) \<and> channel_max_tap_delta_samples c2 = channel_max_tap_delta_samples c \<and>
    pb_capacity b2 = pb_capacity b \<and> pb_base_delay_samples b2 = pb_base_delay_samples b \<and>
    (pb_write_origin b0 + renderer_progress (cn_renderer c2) + channel_max_tap_delta_samples c \<le> pb_read_pos b0 + pb_capacity b0 \<longrightarrow>
       pb_overflow_drops b2 = pb_overflow_drops b)"
proof -
  note g = assms(1)
  obtain r0 where r0: "renderer_start (cn_renderer c) = Inr r0" "c0 = c\<lparr>cn_renderer := r0\<rparr>" "b0 = begin_message gap absolute_origin b"
    using assms(2) by (auto simp: channel_on_message_start_def split: sum.splits)
  obtain r2 cs where r2: "renderer_end (cn_renderer c1) = Inr (Some (r2, cs))" "c2 = c1\<lparr>cn_renderer := r2\<rparr>" "b2 = apply_calls cs b1"
    using assms(4) by (auto simp: channel_on_message_end_def split: sum.splits option.splits)
  from rend.start_law [OF g r0(1)] have s: "renderer_good r0" "renderer_max_tap_delta r0 = channel_max_tap_delta_samples c"
    by (auto simp: channel_max_tap_delta_samples_def)
  have run: "renderer_good (cn_renderer c1)" "renderer_max_tap_delta (cn_renderer c1) = channel_max_tap_delta_samples c"
    "pb_read_pos b0 \<le> pb_read_pos b1" "pb_base_delay_samples b1 = pb_base_delay_samples b0" "pb_capacity b1 = pb_capacity b0" "pb_write_origin b1 = pb_write_origin b0"
    "pb_write_origin b0 + renderer_progress (cn_renderer c1) + channel_max_tap_delta_samples c \<le> pb_read_pos b0 + pb_capacity b0 \<Longrightarrow>
       pb_overflow_drops b1 = pb_overflow_drops b0"
    using channel_run_facts [OF assms(3)] s r0(2) by auto
  from rend.finish_law [OF run(1) r2(1)] have f: "calls_within (renderer_progress r2 + channel_max_tap_delta_samples c)
      (renderer_progress (cn_renderer c1)) cs (renderer_progress r2)" by (simp add: run(2))
  have "pb_overflow_drops b2 = pb_overflow_drops b"
    if fits: "pb_write_origin b0 + renderer_progress (cn_renderer c2) + channel_max_tap_delta_samples c \<le> pb_read_pos b0 + pb_capacity b0"
  proof -
    have "pb_overflow_drops b2 = pb_overflow_drops b1"
      unfolding r2(3) by (rule apply_calls_no_drop [OF f]) (use fits run r2(2) in simp)
    moreover have "pb_overflow_drops b1 = pb_overflow_drops b0" using run(7) calls_within_le [OF f] fits r2(2) by simp
    moreover have "pb_overflow_drops b0 = pb_overflow_drops b" unfolding r0(3) by (simp add: begin_message_def)
    ultimately show ?thesis by simp
  qed
  moreover have "renderer_good r2" "renderer_max_tap_delta r2 = channel_max_tap_delta_samples c"
    using rend.finish_law [OF run(1) r2(1)] run(2) by simp_all
  moreover have "pb_capacity b0 = pb_capacity b" "pb_base_delay_samples b0 = pb_base_delay_samples b"
    unfolding r0(3) by (simp_all add: begin_message_def)
  ultimately show ?thesis using r2 run by (simp add: apply_calls_frame channel_max_tap_delta_samples_def)
qed

text \<open>C12: The sizing contract between channel and buffer, for every propagation model: if at the start of
  a message the buffer's writable window reaches past the message's committed length plus the longest
  tap delay, then whatever blocks are fed, whatever the receiver reads in between and however the
  message ends, none of its samples is dropped.\<close>

theorem channel_message_never_drops:
  assumes "channel_new fs config scal rcal stx rtx boost = Inr c"
    and "channel_on_message_start gap absolute_origin c b = Inr (c0, b0)"
    and "channel_run evs c0 b0 = Inr (Some (c1, b1, out))" and "channel_on_message_end c1 b1 = Inr (Some (c2, b2))"
    and "pb_write_origin b0 + renderer_progress (cn_renderer c2) + channel_max_tap_delta_samples c \<le> pb_read_pos b0 + pb_capacity b0"
  shows "pb_overflow_drops b2 = pb_overflow_drops b"
  using message_no_drop [OF _ assms(2-4)] channel_new_good [OF assms(1)] assms(5) by blast

text \<open>A replay channel on a two-frame record, a buffer of 64 samples, and a message of two blocks.\<close>

definition tiny_channel :: channel_config where
  "tiny_channel = default_channel\<lparr>ch_mode := Mode_Replay\<rparr>"

lemma tiny_channel_new:
  "\<exists>c r. channel_new (\<lambda>_. Some tiny_octt) tiny_channel default_calibration default_calibration
     \<lparr>tr_tvr_db = 0, tr_rvr_db = 0\<rparr> \<lparr>tr_tvr_db = 0, tr_rvr_db = 0\<rparr> 0 = Inr c \<and>
     cn_renderer c = Replay_R r \<and> tr_max_tap_delta_samples r = 0"
proof -
  have "rs_max_tap_delta_samples (replay_source_new tiny_trajectory cfg n) = 0" for cfg n
    by (simp add: replay_source_new_def Let_def tiny_trajectory_def tiny_header_def)
  then show ?thesis
    by (simp add: channel_new_def tiny_channel_def make_replay_renderer_def tiny_loads Let_def tap_renderer_new_def replay_ops_def)
qed

theorem channel_message_never_drops_witness:
  "\<exists>c c0 b0 c1 b1 out c2 b2. channel_new (\<lambda>_. Some tiny_octt) tiny_channel default_calibration default_calibration
     \<lparr>tr_tvr_db = 0, tr_rvr_db = 0\<rparr> \<lparr>tr_tvr_db = 0, tr_rvr_db = 0\<rparr> 0 = Inr c \<and>
   channel_on_message_start 0 False c (projr (pair_buffer_new 64 10)) = Inr (c0, b0) \<and>
   channel_run [Feed [1, 1], Receive 1, Feed [1]] c0 b0 = Inr (Some (c1, b1, out)) \<and>
   channel_on_message_end c1 b1 = Inr (Some (c2, b2)) \<and> pb_overflow_drops b2 = 0"
proof -
  let ?buf = "projr (pair_buffer_new 64 10)"
  obtain c r where c: "channel_new (\<lambda>_. Some tiny_octt) tiny_channel default_calibration default_calibration
      \<lparr>tr_tvr_db = 0, tr_rvr_db = 0\<rparr> \<lparr>tr_tvr_db = 0, tr_rvr_db = 0\<rparr> 0 = Inr c"
      "cn_renderer c = Replay_R r" "tr_max_tap_delta_samples r = 0" using tiny_channel_new by blast
  obtain r0 where r0: "tap_on_message_start replay_ops r = Inr r0" "tr_out_cursor r0 = 0" "tr_max_tap_delta_samples r0 = 0"
    using c(3) by (simp add: tap_on_message_start_def)
  obtain r1 cs1 where r1: "tap_process replay_ops [1, 1] r0 = (r1, cs1)" by (cases "tap_process replay_ops [1, 1] r0")
  obtain r2 cs2 where r2: "tap_process replay_ops [1] r1 = (r2, cs2)" by (cases "tap_process replay_ops [1] r1")
  let ?c0 = "c\<lparr>cn_renderer := Replay_R r0\<rparr>" and ?b0 = "begin_message 0 False ?buf"
  let ?c2 = "c\<lparr>cn_renderer := Replay_R r2\<rparr>"
  let ?b1 = "fst (read_advance 1 (apply_calls cs1 ?b0))" and ?out = "snd (read_advance 1 (apply_calls cs1 ?b0))"
  let ?b2 = "apply_calls cs2 ?b1"
  have p: "tr_out_cursor r2 = 3" "tr_max_tap_delta_samples r2 = 0"
    using tap_process_facts [OF r1] tap_process_facts [OF r2] r0 by simp_all
  have start: "channel_on_message_start 0 False c ?buf = Inr (?c0, ?b0)"
    by (simp add: channel_on_message_start_def c(2) r0)
  have run: "channel_run [Feed [1, 1], Receive 1, Feed [1]] ?c0 ?b0 = Inr (Some (?c2, ?b2, ?out))"
    by (simp add: channel_process_def tap_process_op_def r1 r2 lift_process_def case_prod_unfold Let_def)
  have finish: "channel_on_message_end ?c2 ?b2 = Inr (Some (?c2, ?b2))"
    by (simp add: channel_on_message_end_def tap_on_message_end_def p drain_tail.simps lift_process_def apply_calls_def)
  have b: "pb_write_origin ?b0 = 10" "pb_read_pos ?b0 = 0" "pb_capacity ?b0 = 64" "pb_overflow_drops ?buf = 0"
    by (simp_all add: pair_buffer_new_def round_up_pow2_def pow2_loop.simps Let_def begin_message_def)
  have lead: "channel_max_tap_delta_samples c = 0" by (simp add: channel_max_tap_delta_samples_def c)
  have "pb_overflow_drops ?b2 = pb_overflow_drops ?buf"
    by (rule channel_message_never_drops [OF c(1) start run finish]) (simp add: b lead p)
  then have "pb_overflow_drops ?b2 = 0" using b(4) by simp
  with c(1) start run finish show ?thesis by (intro exI conjI) assumption+
qed

end
