(* ===== verification/Observability.thy ===== *)
theory Observability
  imports Metrics Scenario "HOL-Library.Char_ord"
begin

text \<open>
  What a run reports about itself: the processing-time histogram
  (\<open>simulator/processing_time_stats.cpp\<close>), the per-modem event log
  (\<open>simulator/message_event_log.cpp\<close>) and the parts of \<open>simulator/run_summary.cpp\<close> that are
  not the JSON library. Counters are natural numbers; \<open>log\<close> and \<open>exp\<close> are correctly rounded.
\<close>

section \<open>Processing-time histogram\<close>

definition kBucketCount :: nat where "kBucketCount = 256"
definition kLogMax :: real where "kLogMax = f64 (ln 100000)"
definition kScale :: real where "kScale = ddiv (real (kBucketCount - 1)) (dsub kLogMax 0)"

definition bucket_for :: "nat \<Rightarrow> nat" where
  "bucket_for duration_us =
    (if duration_us = 0 then 0
     else let idx_f = dmul (f64 (ln (f64 (real duration_us)))) kScale
          in if idx_f \<le> 0 then 0
             else if real (kBucketCount - 1) \<le> idx_f then kBucketCount - 1 else nat (ctrunc idx_f))"

definition bucket_lower_bound :: "nat \<Rightarrow> nat" where
  "bucket_lower_bound bucket_idx =
    (if bucket_idx = 0 then 0 else nat (ctrunc (f64 (exp (ddiv (real bucket_idx) kScale)))))"

record time_stats =
  ts_buckets :: "nat list"
  ts_count :: nat
  ts_sum_us :: nat
  ts_max_us :: nat
  ts_underrun_count :: nat

definition time_stats_new :: time_stats where
  "time_stats_new = \<lparr>ts_buckets = replicate kBucketCount 0, ts_count = 0, ts_sum_us = 0, ts_max_us = 0,
     ts_underrun_count = 0\<rparr>"

definition ts_record :: "nat \<Rightarrow> nat \<Rightarrow> time_stats \<Rightarrow> time_stats" where
  "ts_record duration_us deadline_us s =
    (let b = bucket_for duration_us;
         s = s\<lparr>ts_buckets := (ts_buckets s)[b := ts_buckets s ! b + 1], ts_count := ts_count s + 1,
               ts_sum_us := ts_sum_us s + duration_us,
               ts_max_us := (if ts_max_us s < duration_us then duration_us else ts_max_us s)\<rparr>
     in if 0 < deadline_us \<and> deadline_us < duration_us then s\<lparr>ts_underrun_count := ts_underrun_count s + 1\<rparr> else s)"

record time_snapshot =
  sn_count :: nat
  sn_mean_us :: real
  sn_p50_us :: nat
  sn_p95_us :: nat
  sn_p99_us :: nat
  sn_max_us :: nat
  sn_underrun_count :: nat

text \<open>The scan over the buckets; a percentile is \<open>Some\<close> once its target is reached, and the loop
  ends with the last.\<close>

fun snap_scan :: "nat \<times> nat \<times> nat \<Rightarrow> nat \<Rightarrow> nat \<Rightarrow> nat list \<Rightarrow> nat option \<times> nat option \<times> nat option \<Rightarrow>
    nat option \<times> nat option \<times> nat option" where
  "snap_scan ts i cumulative [] got = got"
| "snap_scan (t50, t95, t99) i cumulative (b # bs) (g50, g95, g99) =
    (let cumulative = cumulative + b;
         g50 = (if g50 = None \<and> t50 \<le> cumulative then Some (bucket_lower_bound i) else g50);
         g95 = (if g95 = None \<and> t95 \<le> cumulative then Some (bucket_lower_bound i) else g95)
     in if g99 = None \<and> t99 \<le> cumulative then (g50, g95, Some (bucket_lower_bound i))
        else snap_scan (t50, t95, t99) (i + 1) cumulative bs (g50, g95, g99))"

definition value_or_zero :: "nat option \<Rightarrow> nat" where
  "value_or_zero v = (case v of None \<Rightarrow> 0 | Some x \<Rightarrow> x)"

definition percentile_target :: "nat \<Rightarrow> nat \<Rightarrow> nat" where
  "percentile_target count q = (count * q + 99) div 100"

definition ts_snapshot :: "time_stats \<Rightarrow> time_snapshot" where
  "ts_snapshot s =
    (if ts_count s = 0
     then \<lparr>sn_count = 0, sn_mean_us = 0, sn_p50_us = 0, sn_p95_us = 0, sn_p99_us = 0,
           sn_max_us = ts_max_us s, sn_underrun_count = ts_underrun_count s\<rparr>
     else let (g50, g95, g99) = snap_scan (percentile_target (ts_count s) 50, percentile_target (ts_count s) 95,
                percentile_target (ts_count s) 99) 0 0 (ts_buckets s) (None, None, None)
          in \<lparr>sn_count = ts_count s, sn_mean_us = ddiv (f64 (real (ts_sum_us s))) (f64 (real (ts_count s))),
              sn_p50_us = value_or_zero g50, sn_p95_us = value_or_zero g95, sn_p99_us = value_or_zero g99,
              sn_max_us = ts_max_us s, sn_underrun_count = ts_underrun_count s\<rparr>)"

section \<open>Event log\<close>

datatype direction = Dir_Tx | Dir_Rx

record message_event =
  ev_modem_id :: string
  ev_direction :: direction
  ev_start_ns :: nat
  ev_end_ns :: nat
  ev_sample_count :: nat
  ev_sequence_id :: nat

fun direction_str :: "direction \<Rightarrow> string" where
  "direction_str Dir_Tx = ''tx''"
| "direction_str Dir_Rx = ''rx''"

definition hex_digit :: "nat \<Rightarrow> char" where
  "hex_digit n = (if n < 10 then char_of (48 + n) else char_of (87 + n))"

definition escape_char :: "char \<Rightarrow> string" where
  "escape_char c =
    (if c = CHR 0x22 then [CHR 0x5C, CHR 0x22] else if c = CHR 0x5C then [CHR 0x5C, CHR 0x5C]
     else if c = CHR 0x0A then [CHR 0x5C, CHR ''n''] else if c = CHR 0x0D then [CHR 0x5C, CHR ''r'']
     else if c = CHR 0x09 then [CHR 0x5C, CHR ''t'']
     else let n = (of_char c :: nat)
          in if n < 0x20 then CHR 0x5C # ''u00'' @ [hex_digit (n div 16), hex_digit (n mod 16)] else [c])"

definition json_escape :: "string \<Rightarrow> string" where
  "json_escape s = concat (map escape_char s)"

fun decimal :: "nat \<Rightarrow> string" where
  "decimal n = (if n < 10 then [char_of (48 + n)] else decimal (n div 10) @ [char_of (48 + n mod 10)])"

declare decimal.simps [simp del]

definition quoted :: "string \<Rightarrow> string" where
  "quoted s = CHR 0x22 # s @ [CHR 0x22]"

definition event_line :: "message_event \<Rightarrow> string" where
  "event_line ev =
    ''{'' @ quoted ''modem_id'' @ '':'' @ quoted (json_escape (ev_modem_id ev)) @ '','' @
    quoted ''direction'' @ '':'' @ quoted (direction_str (ev_direction ev)) @ '','' @
    quoted ''start_ns'' @ '':'' @ decimal (ev_start_ns ev) @ '','' @
    quoted ''end_ns'' @ '':'' @ decimal (ev_end_ns ev) @ '','' @
    quoted ''sample_count'' @ '':'' @ decimal (ev_sample_count ev) @ '','' @
    quoted ''sequence_id'' @ '':'' @ decimal (ev_sequence_id ev) @ ''}'' @ [CHR 0x0A]"

text \<open>A log and the text of its file; whether a path opens is the file system's answer.\<close>

record event_log =
  el_open :: bool
  el_path :: string
  el_text :: string

definition event_log_new :: event_log where
  "event_log_new = \<lparr>el_open = False, el_path = [], el_text = []\<rparr>"

definition el_open_file :: "(string \<Rightarrow> bool) \<Rightarrow> string \<Rightarrow> event_log \<Rightarrow> event_log \<times> bool" where
  "el_open_file writable path l = (l\<lparr>el_path := path, el_open := writable path, el_text := []\<rparr>, writable path)"

definition el_record :: "message_event \<Rightarrow> event_log \<Rightarrow> event_log" where
  "el_record ev l = (if \<not> el_open l then l else l\<lparr>el_text := el_text l @ event_line ev\<rparr>)"

definition el_close :: "event_log \<Rightarrow> event_log" where
  "el_close l = (if el_open l then l\<lparr>el_open := False\<rparr> else l)"

section \<open>Run summary\<close>

record engine_counters =
  ec_rx_ring_underruns :: nat
  ec_fw_rx_underruns :: nat
  ec_tx_packets_total :: nat
  ec_rx_packets_total :: nat

definition snapshot_engine_counters :: "metrics \<Rightarrow> engine_counters" where
  "snapshot_engine_counters m = \<lparr>ec_rx_ring_underruns = mt_rx_ring_underruns m, ec_fw_rx_underruns = mt_fw_rx_underruns m,
     ec_tx_packets_total = mt_tx_packets_received m, ec_rx_packets_total = mt_rx_packets_sent m\<rparr>"

definition resolve_run_summary_path :: "scenario_config \<Rightarrow> string" where
  "resolve_run_summary_path scenario =
    (let l = sc_logging scenario; dir = lo_output_directory l; name = sc_name scenario;
         base = (if name = [] then ''run'' else name)
     in if lo_run_summary_path l \<noteq> [] then lo_run_summary_path l
        else if dir = [] then base @ ''_summary.json''
        else if last dir = CHR ''/'' then dir @ base @ ''_summary.json''
        else dir @ ''/'' @ base @ ''_summary.json'')"

record run_summary =
  su_scenario_name :: string
  su_scenario_path :: string
  su_random_seed :: u64
  su_started_at :: string
  su_ended_at :: string
  su_duration_s :: real
  su_modems :: "string list"
  su_processing_time :: time_snapshot
  su_channel_engine :: engine_counters
  su_log_events :: "string list"
  su_log_cdc :: "string list"
  su_log_wav :: "string list"

definition empty_snapshot :: time_snapshot where
  "empty_snapshot = \<lparr>sn_count = 0, sn_mean_us = 0, sn_p50_us = 0, sn_p95_us = 0, sn_p99_us = 0, sn_max_us = 0,
     sn_underrun_count = 0\<rparr>"

text \<open>The JSON value the summary is written as. The library keeps an object's fields sorted by key and owns
  the printing, so \<open>dump\<close> is a parameter; the value it prints is built here, fields in assignment order.\<close>

datatype json = J_String string | J_Nat nat | J_Real real | J_Array "json list" | J_Object "(string \<times> json) list"

abbreviation J_Strings :: "string list \<Rightarrow> json" where "J_Strings xs \<equiv> J_Array (map J_String xs)"

definition summary_tree :: "run_summary \<Rightarrow> json" where
  "summary_tree s = J_Object [
     (''scenario_name'', J_String (su_scenario_name s)),
     (''scenario_path'', J_String (su_scenario_path s)),
     (''random_seed'', J_Nat (unat (su_random_seed s))),
     (''started_at'', J_String (su_started_at s)),
     (''ended_at'', J_String (su_ended_at s)),
     (''duration_s'', J_Real (su_duration_s s)),
     (''modems'', J_Strings (su_modems s)),
     (''processing_time'', (let p = su_processing_time s in J_Object [
        (''count'', J_Nat (sn_count p)), (''mean_us'', J_Real (sn_mean_us p)), (''p50_us'', J_Nat (sn_p50_us p)),
        (''p95_us'', J_Nat (sn_p95_us p)), (''p99_us'', J_Nat (sn_p99_us p)), (''max_us'', J_Nat (sn_max_us p)),
        (''underrun_count'', J_Nat (sn_underrun_count p))])),
     (''channel_engine'', (let c = su_channel_engine s in J_Object [
        (''rx_ring_underruns'', J_Nat (ec_rx_ring_underruns c)), (''fw_rx_underruns'', J_Nat (ec_fw_rx_underruns c)),
        (''tx_packets_total'', J_Nat (ec_tx_packets_total c)), (''rx_packets_total'', J_Nat (ec_rx_packets_total c))])),
     (''log_files'', J_Object [
        (''events'', J_Strings (su_log_events s)), (''cdc'', J_Strings (su_log_cdc s)), (''wav'', J_Strings (su_log_wav s))])]"

definition serialize_run_summary :: "(json \<Rightarrow> string) \<Rightarrow> run_summary \<Rightarrow> string" where
  "serialize_run_summary dump s = dump (summary_tree s)"

text \<open>A write succeeds when the file opens; it gives the path and the text then.\<close>

definition write_run_summary_json :: "(json \<Rightarrow> string) \<Rightarrow> (string \<Rightarrow> bool) \<Rightarrow> run_summary \<Rightarrow> string \<Rightarrow> (string \<times> string) option" where
  "write_run_summary_json dump writable summary path =
    (if \<not> writable path then None else Some (path, serialize_run_summary dump summary))"

section \<open>What a snapshot says\<close>

fun reach :: "nat \<Rightarrow> nat \<Rightarrow> nat \<Rightarrow> nat list \<Rightarrow> nat option" where
  "reach t i cumulative [] = None"
| "reach t i cumulative (b # bs) = (if t \<le> cumulative + b then Some i else reach t (i + 1) (cumulative + b) bs)"

lemma snap_scan_reach:
  assumes "t50 \<le> t95" and "t95 \<le> t99"
  shows "snap_scan (t50, t95, t99) i c bs (g50, g95, None) =
    (case g50 of None \<Rightarrow> map_option bucket_lower_bound (reach t50 i c bs) | Some v \<Rightarrow> Some v,
     case g95 of None \<Rightarrow> map_option bucket_lower_bound (reach t95 i c bs) | Some v \<Rightarrow> Some v,
     map_option bucket_lower_bound (reach t99 i c bs))"
proof (induction bs arbitrary: i c g50 g95)
  case Nil
  then show ?case by (simp split: option.splits)
next
  case (Cons b bs)
  with assms show ?case by (auto simp: Let_def split: option.splits)
qed

lemma reach_Some:
  assumes "t \<le> c + sum_list bs" and "bs \<noteq> []"
  shows "\<exists>j < length bs. reach t i c bs = Some (i + j) \<and> t \<le> c + sum_list (take (Suc j) bs) \<and>
    (\<forall>j' < j. c + sum_list (take (Suc j') bs) < t)"
  using assms
proof (induction bs arbitrary: i c)
  case (Cons b bs)
  show ?case
  proof (cases "t \<le> c + b")
    case True
    then show ?thesis by (intro exI [of _ 0]) simp
  next
    case False
    with Cons.prems have "t \<le> (c + b) + sum_list bs" "bs \<noteq> []" by auto
    from Cons.IH [OF this, of "i + 1"] obtain j where j: "j < length bs" "reach t (i + 1) (c + b) bs = Some (i + 1 + j)"
      "t \<le> c + b + sum_list (take (Suc j) bs)" "\<forall>j' < j. c + b + sum_list (take (Suc j') bs) < t" by blast
    show ?thesis
      using j False by (intro exI [of _ "Suc j"]) (auto simp: less_Suc_eq_0_disj add.assoc)
  qed
qed simp

definition ts_run :: "(nat \<times> nat) list \<Rightarrow> time_stats" where
  "ts_run ds = foldl (\<lambda>s (d, deadline). ts_record d deadline s) time_stats_new ds"

lemma bucket_for_less: "bucket_for d < kBucketCount"
proof -
  have "nat (ctrunc x) < 255" if "0 < x" "x < 255" for x :: real
    using that by (simp add: ctrunc_def floor_less_iff nat_less_iff)
  note less_SucI [OF this]
  then show ?thesis by (auto simp: bucket_for_def kBucketCount_def Let_def not_le)
qed

lemma ts_run_facts:
  "length (ts_buckets (ts_run ds)) = kBucketCount \<and> ts_count (ts_run ds) = length ds \<and>
   ts_sum_us (ts_run ds) = sum_list (map fst ds) \<and> ts_max_us (ts_run ds) = foldl max 0 (map fst ds) \<and>
   ts_underrun_count (ts_run ds) = length (filter (\<lambda>(d, deadline). 0 < deadline \<and> deadline < d) ds) \<and>
   (\<forall>b < kBucketCount. ts_buckets (ts_run ds) ! b = length (filter (\<lambda>d. bucket_for d = b) (map fst ds)))"
proof (induction ds rule: rev_induct)
  case Nil
  then show ?case by (simp add: ts_run_def time_stats_new_def)
next
  case (snoc x ds)
  obtain d deadline where x: "x = (d, deadline)" by (cases x)
  have r: "ts_run (ds @ [x]) = ts_record d deadline (ts_run ds)" by (simp add: ts_run_def x)
  from snoc show ?case
    unfolding r using bucket_for_less [of d]
    by (auto simp: ts_record_def Let_def x nth_list_update max_def)
qed

lemma sum_take_filter:
  assumes "\<forall>b < n. bs ! b = length (filter (\<lambda>d. f d = b) ds)" and "n \<le> length bs"
  shows "sum_list (take n bs) = length (filter (\<lambda>d. f d < n) ds)"
  using assms
proof (induction n)
  case (Suc n)
  have "filter (\<lambda>d. f d < Suc n) = filter (\<lambda>d. f d < n \<or> f d = n)" by (simp add: less_Suc_eq)
  moreover have "length (filter (\<lambda>d. f d < n \<or> f d = n) ds) = length (filter (\<lambda>d. f d < n) ds) + length (filter (\<lambda>d. f d = n) ds)"
    by (induction ds) auto
  ultimately show ?case using Suc by (simp add: take_Suc_conv_app_nth)
qed simp

text \<open>The reported value is the lower bound of the first bucket that, with those below it, holds at
  least the given percentage of the durations.\<close>

definition is_percentile :: "nat list \<Rightarrow> nat \<Rightarrow> nat \<Rightarrow> bool" where
  "is_percentile ds q v \<longleftrightarrow> (\<exists>b < kBucketCount. v = bucket_lower_bound b \<and>
     q * length ds \<le> 100 * length (filter (\<lambda>d. bucket_for d \<le> b) ds) \<and>
     (\<forall>b' < b. 100 * length (filter (\<lambda>d. bucket_for d \<le> b') ds) < q * length ds))"

lemma reach_percentile:
  assumes "ds \<noteq> []" and "q \<le> 100"
  shows "is_percentile (map fst ds) q
    (value_or_zero (map_option bucket_lower_bound (reach (percentile_target (length ds) q) 0 0 (ts_buckets (ts_run ds)))))"
proof -
  let ?bs = "ts_buckets (ts_run ds)" and ?n = "length ds" and ?t = "percentile_target (length ds) q"
  have len: "length ?bs = kBucketCount" and b: "\<forall>b < kBucketCount. ?bs ! b = length (filter (\<lambda>d. bucket_for d = b) (map fst ds))"
    using ts_run_facts [of ds] by blast+
  have sums: "sum_list (take k ?bs) = length (filter (\<lambda>d. bucket_for d < k) (map fst ds))" if "k \<le> kBucketCount" for k
    by (rule sum_take_filter) (use b len that in auto)
  have all: "sum_list ?bs = ?n" using sums [of kBucketCount] bucket_for_less len by simp
  have "?n * q \<le> ?n * 100" using assms(2) by simp
  then have le: "?t \<le> 0 + sum_list ?bs" unfolding all percentile_target_def using assms(1) by linarith
  have ne: "?bs \<noteq> []" using len by (auto simp: kBucketCount_def)
  from reach_Some [OF le ne, of 0] obtain j where j: "j < kBucketCount" "reach ?t 0 0 ?bs = Some j"
    "?t \<le> sum_list (take (Suc j) ?bs)" "\<forall>j' < j. sum_list (take (Suc j') ?bs) < ?t" by (auto simp: len)
  have t: "?t \<le> m \<longleftrightarrow> q * ?n \<le> 100 * m" for m unfolding percentile_target_def by (auto simp: mult.commute)
  have "is_percentile (map fst ds) q (bucket_lower_bound j)"
    unfolding is_percentile_def
  proof (intro exI conjI allI impI)
    show "j < kBucketCount" by (rule j(1))
    show "q * length (map fst ds) \<le> 100 * length (filter (\<lambda>d. bucket_for d \<le> j) (map fst ds))"
      using j(1,3) sums [of "Suc j"] t by (simp add: less_Suc_eq_le)
    fix b' assume "b' < j"
    then have "sum_list (take (Suc b') ?bs) < ?t" and "Suc b' \<le> kBucketCount" using j by auto
    moreover from this sums [of "Suc b'"]
    have "sum_list (take (Suc b') ?bs) = length (filter (\<lambda>d. bucket_for d \<le> b') (map fst ds))" by (simp add: less_Suc_eq_le)
    ultimately show "100 * length (filter (\<lambda>d. bucket_for d \<le> b') (map fst ds)) < q * length (map fst ds)"
      using t [of "sum_list (take (Suc b') ?bs)"] by simp
  qed simp
  then show ?thesis by (simp add: j(2) value_or_zero_def)
qed

text \<open>What the run summary's processing times mean. After any recorded batches, the snapshot counts
  them, its mean is their sum over their number, its maximum is the longest, the underruns are those
  longer than a set deadline, and each percentile is the lower bound of the first bucket at or below which
  that share of the batches lies; the scan always finds one, whatever the durations.\<close>

theorem snapshot_summarises_records:
  assumes "ds \<noteq> []"
  defines "s \<equiv> ts_snapshot (ts_run ds)"
  shows "sn_count s = length ds \<and> sn_mean_us s = ddiv (f64 (real (sum_list (map fst ds)))) (f64 (real (length ds))) \<and>
    sn_max_us s = foldl max 0 (map fst ds) \<and>
    sn_underrun_count s = length (filter (\<lambda>(d, deadline). 0 < deadline \<and> deadline < d) ds) \<and>
    is_percentile (map fst ds) 50 (sn_p50_us s) \<and> is_percentile (map fst ds) 95 (sn_p95_us s) \<and>
    is_percentile (map fst ds) 99 (sn_p99_us s)"
proof -
  have "percentile_target (length ds) 50 \<le> percentile_target (length ds) 95"
    "percentile_target (length ds) 95 \<le> percentile_target (length ds) 99"
    by (auto simp: percentile_target_def intro!: div_le_mono)
  note scan = snap_scan_reach [OF this, of 0 0 "ts_buckets (ts_run ds)" None None]
  have f: "ts_count (ts_run ds) = length ds" "ts_sum_us (ts_run ds) = sum_list (map fst ds)"
    "ts_max_us (ts_run ds) = foldl max 0 (map fst ds)"
    "ts_underrun_count (ts_run ds) = length (filter (\<lambda>(d, deadline). 0 < deadline \<and> deadline < d) ds)"
    using ts_run_facts [of ds] by blast+
  show ?thesis
    unfolding s_def ts_snapshot_def f scan option.case Let_def prod.case
    using reach_percentile [OF assms(1)] assms(1) by simp
qed

theorem snapshot_summarises_records_witness:
  "sn_count (ts_snapshot (ts_run [(0, 10), (20, 10)])) = 2 \<and> sn_underrun_count (ts_snapshot (ts_run [(0, 10), (20, 10)])) = 1 \<and>
   is_percentile [0, 20] 50 (sn_p50_us (ts_snapshot (ts_run [(0, 10), (20, 10)])))"
  using snapshot_summarises_records [of "[(0, 10), (20, 10)]"] by simp

section \<open>Event lines read back\<close>

text \<open>A reader of JSON strings, up to the closing quote: the decoded text and what follows.\<close>

definition hex_value :: "char \<Rightarrow> nat" where
  "hex_value c = (let n = of_char c in if n < 58 then n - 48 else n - 87)"

fun read_json_string :: "string \<Rightarrow> (string \<times> string) option" where
  "read_json_string [] = None"
| "read_json_string (c # s) =
    (if c = CHR 0x22 then Some ([], s)
     else if c = CHR 0x5C
     then (case s of
         [] \<Rightarrow> None
       | e # s1 \<Rightarrow>
           if e = CHR ''u''
           then (case s1 of a # b # h # l # s2 \<Rightarrow> map_option (apfst ((#) (char_of (hex_value h * 16 + hex_value l)))) (read_json_string s2)
                 | _ \<Rightarrow> None)
           else map_option (apfst ((#) (if e = CHR ''n'' then CHR 0x0A else if e = CHR ''r'' then CHR 0x0D
             else if e = CHR ''t'' then CHR 0x09 else e))) (read_json_string s1))
     else map_option (apfst ((#) c)) (read_json_string s))"

lemma char_of_no_newline: "n < 256 \<Longrightarrow> n \<noteq> 10 \<Longrightarrow> char_of n \<noteq> CHR 0x0A" for n :: nat
proof
  assume "n < 256" "n \<noteq> 10" "char_of n = CHR 0x0A"
  then have "(of_char (char_of n) :: nat) = of_char (CHR 0x0A)" by simp
  with \<open>n < 256\<close> \<open>n \<noteq> 10\<close> show False by simp
qed

lemma control_digits:
  assumes "(of_char c :: nat) < 32"
  shows "char_of (hex_value (hex_digit (of_char c div 16)) * 16 + hex_value (hex_digit (of_char c mod 16))) = c"
    and "hex_digit (of_char c div 16) \<noteq> CHR 0x0A \<and> hex_digit (of_char c mod 16) \<noteq> CHR 0x0A"
proof -
  have h: "hex_value (hex_digit n) = n \<and> hex_digit n \<noteq> CHR 0x0A" if "n < 16" for n
  proof -
    have "n \<in> set [0..<16]" using that by simp
    then have "hex_value (hex_digit n) = n" by (auto simp: upt_rec hex_value_def hex_digit_def)
    moreover have "hex_digit n \<noteq> CHR 0x0A" using that char_of_no_newline [of "48 + n"] char_of_no_newline [of "87 + n"] by (simp add: hex_digit_def)
    ultimately show ?thesis ..
  qed
  have "(of_char c :: nat) div 16 < 16" "(of_char c :: nat) mod 16 < 16" using assms by simp_all
  with h show "char_of (hex_value (hex_digit (of_char c div 16)) * 16 + hex_value (hex_digit (of_char c mod 16))) = c"
    "hex_digit (of_char c div 16) \<noteq> CHR 0x0A \<and> hex_digit (of_char c mod 16) \<noteq> CHR 0x0A"
    by (simp_all add: mult.commute [of _ 16])
qed

lemma read_escape_char: "read_json_string (escape_char c @ s) = map_option (apfst ((#) c)) (read_json_string s)"
  by (auto simp: escape_char_def Let_def control_digits(1))

lemma read_json_escape: "read_json_string (json_escape s @ CHR 0x22 # rest) = Some (s, rest)"
  by (induction s) (simp_all add: json_escape_def read_escape_char del: read_json_string.simps(2), simp)

lemma escape_no_newline: "CHR 0x0A \<notin> set (json_escape s)"
  using control_digits(2) by (fastforce simp: json_escape_def escape_char_def Let_def split: if_splits)

lemma decimal_no_newline: "CHR 0x0A \<notin> set (decimal n)"
proof (induction n rule: decimal.induct)
  case (1 n)
  have d: "char_of (48 + k) \<noteq> CHR 0x0A" if "k < 10" for k :: nat
    by (rule char_of_no_newline) (use that in simp_all)
  show ?case
  proof (cases "n < 10")
    case True
    then show ?thesis using d [of n] by (subst decimal.simps) simp
  next
    case False
    then show ?thesis using d [of "n mod 10"] 1 by (subst decimal.simps) simp
  qed
qed

text \<open>The event log is one record per line, whatever the modem is called: each record ends with its
  only newline, and a JSON reader placed at the start of the name gets exactly that name and stops at
  the field's closing quote.\<close>

theorem event_lines_read_back:
  "\<exists>body. event_line ev = body @ [CHR 0x0A] \<and> CHR 0x0A \<notin> set body \<and>
     (\<exists>rest. read_json_string (drop 13 (event_line ev)) = Some (ev_modem_id ev, '','' @ rest))"
proof -
  let ?head = "''{'' @ quoted ''modem_id'' @ '':'' @ [CHR 0x22]"
  let ?tail = "quoted ''direction'' @ '':'' @ quoted (direction_str (ev_direction ev)) @ '','' @
    quoted ''start_ns'' @ '':'' @ decimal (ev_start_ns ev) @ '','' @
    quoted ''end_ns'' @ '':'' @ decimal (ev_end_ns ev) @ '','' @
    quoted ''sample_count'' @ '':'' @ decimal (ev_sample_count ev) @ '','' @
    quoted ''sequence_id'' @ '':'' @ decimal (ev_sequence_id ev) @ ''}''"
  have line: "event_line ev = (?head @ json_escape (ev_modem_id ev) @ CHR 0x22 # '','' @ ?tail) @ [CHR 0x0A]"
    by (simp add: event_line_def quoted_def)
  have "CHR 0x0A \<notin> set ?tail"
    using decimal_no_newline by (cases "ev_direction ev") (simp_all add: quoted_def)
  then have nl: "CHR 0x0A \<notin> set (?head @ json_escape (ev_modem_id ev) @ CHR 0x22 # '','' @ ?tail)"
    using escape_no_newline by (simp add: quoted_def)
  have "drop 13 (event_line ev) = json_escape (ev_modem_id ev) @ CHR 0x22 # ('','' @ ?tail @ [CHR 0x0A])"
    unfolding line by (simp add: quoted_def)
  then have "read_json_string (drop 13 (event_line ev)) = Some (ev_modem_id ev, '','' @ ?tail @ [CHR 0x0A])"
    by (simp only: read_json_escape)
  with line nl show ?thesis by blast
qed

end
