(* ===== verification/Wav_Logging.thy ===== *)
theory Wav_Logging
  imports Codec Scenario Modem_IO Observability
begin

text \<open>
  Audio logs: \<open>logging/wav_writer.cpp\<close> and \<open>logging/stream_logger.cpp\<close>. A file stream has
  contents, a position and a good bit, and a limit on its size, past which a write fails and the
  stream stays bad; while it is bad it ignores writes and seeks. Which paths open is a parameter.
  Ownership of created files and the log lines are left out.
\<close>

section \<open>File streams\<close>

record stream =
  fs_open :: bool
  fs_good :: bool
  fs_bytes :: "u8 list"
  fs_pos :: nat
  fs_limit :: nat

definition put_bytes :: "nat \<Rightarrow> u8 list \<Rightarrow> u8 list \<Rightarrow> u8 list" where
  "put_bytes pos bs xs = take pos xs @ bs @ drop (pos + length bs) xs"

definition fs_write :: "u8 list \<Rightarrow> stream \<Rightarrow> stream" where
  "fs_write bs f =
    (if \<not> fs_open f \<or> \<not> fs_good f then f
     else if fs_limit f < fs_pos f + length bs then f\<lparr>fs_good := False\<rparr>
     else f\<lparr>fs_bytes := put_bytes (fs_pos f) bs (fs_bytes f), fs_pos := fs_pos f + length bs\<rparr>)"

definition fs_seek :: "nat \<Rightarrow> stream \<Rightarrow> stream" where
  "fs_seek pos f = (if \<not> fs_good f then f else f\<lparr>fs_pos := pos\<rparr>)"

definition fs_close :: "stream \<Rightarrow> stream" where
  "fs_close f = f\<lparr>fs_open := False\<rparr>"

section \<open>The WAV writer\<close>

definition RIFF_SIZE_OFFSET :: nat where "RIFF_SIZE_OFFSET = 4"
definition DATA_SIZE_OFFSET :: nat where "DATA_SIZE_OFFSET = 40"
definition WAV_HEADER_BYTES :: nat where "WAV_HEADER_BYTES = 44"

record wav_writer =
  ww_path :: string
  ww_file :: stream
  ww_sample_rate :: u32
  ww_source_shift :: nat
  ww_sample_count :: nat
  ww_finalized :: bool

definition tag :: "string \<Rightarrow> u8 list" where
  "tag s = map of_char s"

definition placeholder_header :: "u32 \<Rightarrow> stream \<Rightarrow> stream" where
  "placeholder_header rate f = foldl (\<lambda>f bs. fs_write bs f) (fs_seek 0 f)
     [tag ''RIFF'', le32 0, tag ''WAVE'', tag ''fmt '', le32 16, le16 1, le16 1, le32 rate, le32 (rate * 2), le16 2,
      le16 16, tag ''data'', le32 0]"

text \<open>The constructor's second attempt creates and reopens the file; both fail for a path that cannot
  be opened.\<close>

definition wav_new :: "(string \<Rightarrow> bool) \<Rightarrow> nat \<Rightarrow> string \<Rightarrow> u32 \<Rightarrow> u8 \<Rightarrow> wav_writer" where
  "wav_new openable limit path sample_rate source_bits =
    (let f = \<lparr>fs_open = openable path, fs_good = openable path, fs_bytes = [], fs_pos = 0, fs_limit = limit\<rparr>;
         w = \<lparr>ww_path = path, ww_file = f, ww_sample_rate = sample_rate,
              ww_source_shift = (if 16 \<le> source_bits then 0 else unat (16 - source_bits)),
              ww_sample_count = 0, ww_finalized = False\<rparr>
     in if \<not> fs_open f then w else w\<lparr>ww_file := placeholder_header sample_rate f\<rparr>)"

definition pcm16 :: "nat \<Rightarrow> u16 \<Rightarrow> u16" where
  "pcm16 shift s = push_bit shift s XOR 0x8000"

definition WAV_CHUNK :: nat where "WAV_CHUNK = 512"

text \<open>The chunk loop: the stream, the samples written so far, and whether it ended early.\<close>

function wav_chunks :: "nat \<Rightarrow> u16 list \<Rightarrow> stream \<Rightarrow> nat \<Rightarrow> stream \<times> nat \<times> bool" where
  "wav_chunks shift samples f written =
    (if samples = [] then (f, written, False)
     else let n = cmin WAV_CHUNK (length samples);
              f = fs_write (concat (map (\<lambda>s. le16 (pcm16 shift s)) (take n samples))) f
          in if \<not> fs_good f then (f, written, True)
             else wav_chunks shift (drop n samples) f (written + n))"
  by pat_completeness auto
termination by (relation "measure (\<lambda>(shift, samples, f, written). length samples)") (auto simp: WAV_CHUNK_def)

declare wav_chunks.simps [simp del]

definition wav_write :: "u16 list \<Rightarrow> wav_writer \<Rightarrow> wav_writer \<times> nat" where
  "wav_write samples w =
    (if \<not> fs_open (ww_file w) \<or> samples = [] then (w, 0)
     else let (f, written, failed) = wav_chunks (ww_source_shift w) samples (ww_file w) 0;
              w = w\<lparr>ww_file := f\<rparr>
          in if failed then (w, written) else (w\<lparr>ww_sample_count := ww_sample_count w + written\<rparr>, written))"

definition patch_header :: "wav_writer \<Rightarrow> stream" where
  "patch_header w =
    (let f = ww_file w; data_bytes = of_nat (ww_sample_count w * 2) :: u32;
         riff_size = of_nat (WAV_HEADER_BYTES - 8 + unat data_bytes) :: u32
     in if \<not> fs_open f then f
        else fs_write (le32 data_bytes) (fs_seek DATA_SIZE_OFFSET (fs_write (le32 riff_size) (fs_seek RIFF_SIZE_OFFSET f))))"

definition wav_finalize :: "wav_writer \<Rightarrow> wav_writer" where
  "wav_finalize w =
    (if ww_finalized w \<or> \<not> fs_open (ww_file w) then w
     else w\<lparr>ww_finalized := True, ww_file := fs_close (patch_header w)\<rparr>)"

section \<open>The stream logger\<close>

record modem_log_info =
  ml_id :: string
  ml_adc_bits :: u8
  ml_dac_bits :: u8

text \<open>\<open>sl_closed\<close> holds the writers a new session replaced, whose files stay on disk.\<close>

record stream_logger =
  sl_config :: logging_config
  sl_sample_rate :: u32
  sl_tx_writers :: "string \<rightharpoonup> wav_writer"
  sl_rx_writers :: "string \<rightharpoonup> wav_writer"
  sl_rx_session :: "string \<rightharpoonup> nat"
  sl_rx_source_bits :: "string \<rightharpoonup> u8"
  sl_finalized :: bool
  sl_closed :: "(string \<times> wav_writer) list"

text \<open>What the constructor does to the output directory before it opens its own files: of the regular files that
  \<open>listing\<close> names there (none if the directory cannot be read) it removes those with the extension \<open>.wav\<close>. The
  rest of the constructor, \<open>stream_logger_new\<close>, does not depend on it.\<close>

definition stale_wav :: "string \<Rightarrow> bool" where
  "stale_wav name \<longleftrightarrow> 4 < length name \<and> drop (length name - 4) name = ''.wav''"

definition wiped_files :: "logging_config \<Rightarrow> string list \<Rightarrow> string list" where
  "wiped_files cfg listing = (if \<not> lo_log_raw_tx cfg \<and> \<not> lo_log_raw_rx cfg then [] else filter stale_wav listing)"

text \<open>A file an earlier run left under a name of this one's is among them; a file of any other kind is not.\<close>

lemma wiped_files_are_wavs: "name \<in> set (wiped_files cfg listing) \<Longrightarrow> \<exists>stem. name = stem @ ''.wav'' \<and> stem \<noteq> []"
proof -
  assume "name \<in> set (wiped_files cfg listing)"
  then have n: "4 < length name" "drop (length name - 4) name = ''.wav''" by (auto simp: wiped_files_def stale_wav_def split: if_splits)
  then have "name = take (length name - 4) name @ ''.wav''" by (metis append_take_drop_id)
  moreover have "take (length name - 4) name \<noteq> []" using n(1) by auto
  ultimately show ?thesis by blast
qed

lemma own_files_are_wiped: "lo_log_raw_rx cfg \<Longrightarrow> name = stem @ ''.wav'' \<Longrightarrow> stem \<noteq> [] \<Longrightarrow> name \<in> set listing \<Longrightarrow>
    name \<in> set (wiped_files cfg listing)"
  by (simp add: wiped_files_def stale_wav_def)

definition pad3 :: "nat \<Rightarrow> string" where
  "pad3 n = replicate (3 - length (decimal n)) CHR ''0'' @ decimal n"

definition in_directory :: "string \<Rightarrow> string \<Rightarrow> string" where
  "in_directory dir name = (if dir = [] then name else dir @ ''/'' @ name)"

definition rx_path_for :: "logging_config \<Rightarrow> string \<Rightarrow> nat \<Rightarrow> string" where
  "rx_path_for cfg modem_id session = in_directory (lo_output_directory cfg) (modem_id @ ''_rx_'' @ pad3 session @ ''.wav'')"

definition add_modem :: "(string \<Rightarrow> bool) \<Rightarrow> nat \<Rightarrow> stream_logger \<Rightarrow> modem_log_info \<Rightarrow> stream_logger" where
  "add_modem openable limit l m =
    (let cfg = sl_config l; rate = sl_sample_rate l;
         l = (if lo_log_raw_tx cfg
              then l\<lparr>sl_tx_writers := (sl_tx_writers l)(ml_id m \<mapsto> wav_new openable limit
                (in_directory (lo_output_directory cfg) (ml_id m @ ''_tx.wav'')) rate (ml_adc_bits m))\<rparr> else l)
     in if lo_log_raw_rx cfg
        then l\<lparr>sl_rx_source_bits := (sl_rx_source_bits l)(ml_id m \<mapsto> ml_dac_bits m),
               sl_rx_session := (sl_rx_session l)(ml_id m \<mapsto> 1),
               sl_rx_writers := (sl_rx_writers l)(ml_id m \<mapsto> wav_new openable limit (rx_path_for cfg (ml_id m) 1) rate (ml_dac_bits m))\<rparr>
        else l)"

definition stream_logger_new :: "(string \<Rightarrow> bool) \<Rightarrow> nat \<Rightarrow> logging_config \<Rightarrow> modem_log_info list \<Rightarrow> u32 \<Rightarrow> stream_logger" where
  "stream_logger_new openable limit cfg modems rate =
    (let l = \<lparr>sl_config = cfg, sl_sample_rate = rate, sl_tx_writers = Map.empty, sl_rx_writers = Map.empty,
           sl_rx_session = Map.empty, sl_rx_source_bits = Map.empty, sl_finalized = False, sl_closed = []\<rparr>
     in if \<not> lo_log_raw_tx cfg \<and> \<not> lo_log_raw_rx cfg then l else foldl (add_modem openable limit) l modems)"

definition log_tx :: "string \<Rightarrow> u16 list \<Rightarrow> stream_logger \<Rightarrow> stream_logger" where
  "log_tx modem_id samples l = (case sl_tx_writers l modem_id of None \<Rightarrow> l
     | Some w \<Rightarrow> l\<lparr>sl_tx_writers := (sl_tx_writers l)(modem_id \<mapsto> fst (wav_write samples w))\<rparr>)"

definition log_rx :: "string \<Rightarrow> u16 list \<Rightarrow> stream_logger \<Rightarrow> stream_logger" where
  "log_rx modem_id samples l = (case sl_rx_writers l modem_id of None \<Rightarrow> l
     | Some w \<Rightarrow> l\<lparr>sl_rx_writers := (sl_rx_writers l)(modem_id \<mapsto> fst (wav_write samples w))\<rparr>)"

text \<open>The maps' \<open>operator[]\<close> gives zero for a missing key.\<close>

definition begin_rx_session :: "(string \<Rightarrow> bool) \<Rightarrow> nat \<Rightarrow> string \<Rightarrow> stream_logger \<Rightarrow> stream_logger" where
  "begin_rx_session openable limit modem_id l =
    (if \<not> lo_log_raw_rx (sl_config l) then l
     else case sl_rx_writers l modem_id of None \<Rightarrow> l
     | Some w \<Rightarrow>
         let next_session = (case sl_rx_session l modem_id of None \<Rightarrow> 0 | Some n \<Rightarrow> n) + 1;
             bits = (case sl_rx_source_bits l modem_id of None \<Rightarrow> 0 | Some b \<Rightarrow> b);
             path = rx_path_for (sl_config l) modem_id next_session
         in l\<lparr>sl_rx_session := (sl_rx_session l)(modem_id \<mapsto> next_session),
              sl_rx_source_bits := (sl_rx_source_bits l)(modem_id \<mapsto> bits),
              sl_closed := sl_closed l @ [(modem_id, wav_finalize w)],
              sl_rx_writers := (sl_rx_writers l)(modem_id \<mapsto> wav_new openable limit path (sl_sample_rate l) bits)\<rparr>)"

definition logger_finalize :: "stream_logger \<Rightarrow> stream_logger" where
  "logger_finalize l = (if sl_finalized l then l
     else l\<lparr>sl_finalized := True, sl_tx_writers := map_option wav_finalize \<circ> sl_tx_writers l,
            sl_rx_writers := map_option wav_finalize \<circ> sl_rx_writers l\<rparr>)"

text \<open>The calls an I/O thread makes.\<close>

fun logger_call :: "(string \<Rightarrow> bool) \<Rightarrow> nat \<Rightarrow> stream_logger \<Rightarrow> log_call \<Rightarrow> stream_logger" where
  "logger_call openable limit l (Log_Begin_Rx modem_id) = begin_rx_session openable limit modem_id l"
| "logger_call openable limit l (Log_Tx modem_id xs) = log_tx modem_id xs l"
| "logger_call openable limit l (Log_Rx modem_id xs) = log_rx modem_id xs l"

section \<open>What a WAV file holds\<close>

definition wav_header :: "u32 \<Rightarrow> u32 \<Rightarrow> u32 \<Rightarrow> u8 list" where
  "wav_header riff rate data_bytes = tag ''RIFF'' @ le32 riff @
     (tag ''WAVE'' @ tag ''fmt '' @ le32 16 @ le16 1 @ le16 1 @ le32 rate @ le32 (rate * 2) @ le16 2 @ le16 16 @ tag ''data'') @
     le32 data_bytes"

abbreviation pcm_bytes :: "nat \<Rightarrow> u16 list \<Rightarrow> u8 list" where
  "pcm_bytes shift xs \<equiv> concat (map (\<lambda>s. le16 (pcm16 shift s)) xs)"

lemma length_pcm_bytes [simp]: "length (pcm_bytes shift xs) = 2 * length xs"
  by (induction xs) simp_all

lemma length_wav_header [simp]: "length (wav_header a r d) = 44"
  by (simp add: wav_header_def tag_def)

lemma put_bytes_end: "put_bytes (length xs) bs xs = xs @ bs"
  by (simp add: put_bytes_def)

lemma put_bytes_middle: "length b = length c \<Longrightarrow> put_bytes (length a) b (a @ c @ d) = a @ b @ d"
  by (simp add: put_bytes_def)

lemma fs_write_end:
  "fs_open f \<Longrightarrow> fs_good f \<Longrightarrow> fs_pos f = length (fs_bytes f) \<Longrightarrow> fs_pos f + length bs \<le> fs_limit f \<Longrightarrow>
     fs_write bs f = f\<lparr>fs_bytes := fs_bytes f @ bs, fs_pos := fs_pos f + length bs\<rparr>"
  by (simp add: fs_write_def put_bytes_end)

lemma fs_writes_end:
  assumes "fs_open f" and "fs_good f" and "fs_pos f = length (fs_bytes f)" and "fs_pos f + length (concat bss) \<le> fs_limit f"
  shows "foldl (\<lambda>f bs. fs_write bs f) f bss = f\<lparr>fs_bytes := fs_bytes f @ concat bss, fs_pos := fs_pos f + length (concat bss)\<rparr>"
  using assms
proof (induction bss arbitrary: f)
  case (Cons bs bss)
  then show ?case by (simp add: fs_write_end)
qed simp

text \<open>An open writer that has taken the samples \<open>xs\<close>.\<close>

definition wav_holds :: "wav_writer \<Rightarrow> u32 \<Rightarrow> nat \<Rightarrow> u16 list \<Rightarrow> bool" where
  "wav_holds w rate shift xs \<longleftrightarrow> fs_open (ww_file w) \<and> fs_good (ww_file w) \<and> \<not> ww_finalized w \<and>
     fs_bytes (ww_file w) = wav_header 0 rate 0 @ pcm_bytes shift xs \<and>
     fs_pos (ww_file w) = length (fs_bytes (ww_file w)) \<and> ww_sample_count w = length xs \<and>
     ww_sample_rate w = rate \<and> ww_source_shift w = shift"

lemma wav_new_holds:
  assumes "openable path" and "44 \<le> limit" and "bits \<le> 16"
  shows "wav_holds (wav_new openable limit path rate bits) rate (16 - unat bits) []"
    and "fs_limit (ww_file (wav_new openable limit path rate bits)) = limit" and "ww_path (wav_new openable limit path rate bits) = path"
proof -
  have shift: "(if 16 \<le> bits then 0 else unat (16 - bits)) = 16 - unat bits"
    using assms(3) by (auto simp: unat_sub word_le_nat_alt)
  let ?f = "\<lparr>fs_open = True, fs_good = True, fs_bytes = [], fs_pos = 0, fs_limit = limit\<rparr>"
  have "placeholder_header rate ?f = ?f\<lparr>fs_bytes := wav_header 0 rate 0, fs_pos := 44\<rparr>"
    unfolding placeholder_header_def
    by (subst fs_writes_end) (use assms(2) in \<open>simp_all add: fs_seek_def wav_header_def tag_def\<close>)
  then show "wav_holds (wav_new openable limit path rate bits) rate (16 - unat bits) []"
    and "fs_limit (ww_file (wav_new openable limit path rate bits)) = limit" and "ww_path (wav_new openable limit path rate bits) = path"
    using assms(1) shift by (simp_all add: wav_new_def wav_holds_def Let_def)
qed

lemma wav_chunks_append:
  assumes "fs_open f" and "fs_good f" and "fs_pos f = length (fs_bytes f)" and "fs_pos f + 2 * length xs \<le> fs_limit f"
  shows "wav_chunks shift xs f n = (f\<lparr>fs_bytes := fs_bytes f @ pcm_bytes shift xs, fs_pos := fs_pos f + 2 * length xs\<rparr>, n + length xs, False)"
  using assms
proof (induction shift xs f n rule: wav_chunks.induct)
  case (1 shift xs f n)
  show ?case
  proof (cases "xs = []")
    case True
    then show ?thesis by (simp add: wav_chunks.simps)
  next
    case False
    let ?k = "min WAV_CHUNK (length xs)"
    let ?f = "fs_write (pcm_bytes shift (take ?k xs)) f"
    have k: "?k \<le> length xs" by simp
    have f: "?f = f\<lparr>fs_bytes := fs_bytes f @ pcm_bytes shift (take ?k xs), fs_pos := fs_pos f + 2 * ?k\<rparr>"
      using "1.prems" k by (subst fs_write_end) simp_all
    have "wav_chunks shift (drop ?k xs) ?f (n + ?k) = (?f\<lparr>fs_bytes := fs_bytes ?f @ pcm_bytes shift (drop ?k xs),
        fs_pos := fs_pos ?f + 2 * length (drop ?k xs)\<rparr>, n + ?k + length (drop ?k xs), False)"
      by (rule "1.IH" [unfolded cmin_min]) (use False "1.prems" k in \<open>simp_all add: f\<close>)
    moreover have "pcm_bytes shift (take ?k xs) @ pcm_bytes shift (drop ?k xs) = pcm_bytes shift xs"
      by (metis append_take_drop_id concat_append map_append)
    ultimately show ?thesis
      using False "1.prems" k by (subst wav_chunks.simps) (simp add: Let_def f algebra_simps)
  qed
qed

lemma wav_write_holds:
  assumes "wav_holds w rate shift ys" and "44 + 2 * (length ys + length xs) \<le> fs_limit (ww_file w)"
  shows "wav_holds (fst (wav_write xs w)) rate shift (ys @ xs)" and "snd (wav_write xs w) = length xs"
    and "fs_limit (ww_file (fst (wav_write xs w))) = fs_limit (ww_file w)" and "ww_path (fst (wav_write xs w)) = ww_path w"
proof -
  note h = assms(1) [unfolded wav_holds_def]
  have c: "wav_chunks (ww_source_shift w) xs (ww_file w) 0 = ((ww_file w)\<lparr>fs_bytes := fs_bytes (ww_file w) @ pcm_bytes shift xs,
      fs_pos := fs_pos (ww_file w) + 2 * length xs\<rparr>, 0 + length xs, False)"
    using wav_chunks_append [of "ww_file w" xs shift 0] h assms(2) by simp
  show "wav_holds (fst (wav_write xs w)) rate shift (ys @ xs)" "snd (wav_write xs w) = length xs"
    "fs_limit (ww_file (fst (wav_write xs w))) = fs_limit (ww_file w)" "ww_path (fst (wav_write xs w)) = ww_path w"
    unfolding wav_write_def c Let_def prod.case using h by (cases "xs = []"; simp add: wav_holds_def)+
qed

lemma unat_of_nat_u32: "n < 2 ^ 32 \<Longrightarrow> unat (of_nat n :: u32) = n"
  by (simp add: unat_of_nat)

lemma wav_finalize_bytes:
  assumes "wav_holds w rate shift xs" and "44 + 2 * length xs \<le> fs_limit (ww_file w)" and "2 * length xs + 36 < 2 ^ 32"
  shows "fs_bytes (ww_file (wav_finalize w)) =
      wav_header (of_nat (36 + 2 * length xs)) rate (of_nat (2 * length xs)) @ pcm_bytes shift xs"
    and "ww_finalized (wav_finalize w)"
proof -
  note h = assms(1) [unfolded wav_holds_def]
  let ?mid = "tag ''WAVE'' @ tag ''fmt '' @ le32 16 @ le16 1 @ le16 1 @ le32 rate @ le32 (rate * 2) @ le16 2 @ le16 16 @ tag ''data''"
  let ?d = "of_nat (2 * length xs) :: u32"
  have d: "unat ?d = 2 * length xs" by (rule unat_of_nat_u32) (use assms(3) in simp)
  have t: "length (tag ''RIFF'') = 4" "length (tag ''WAVE'') = 4" "length (tag ''fmt '') = 4" "length (tag ''data'') = 4"
    by (simp_all add: tag_def)
  have a: "put_bytes 4 (le32 r) (wav_header 0 rate 0 @ ys) = wav_header r rate 0 @ ys" for r ys
    using put_bytes_middle [of "le32 r" "le32 0" "tag ''RIFF''" "?mid @ le32 0 @ ys"] by (simp add: wav_header_def t)
  have b: "put_bytes 40 (le32 q) (wav_header r rate 0 @ ys) = wav_header r rate q @ ys" for q r ys
    using put_bytes_middle [of "le32 q" "le32 0" "tag ''RIFF'' @ le32 r @ ?mid" ys] by (simp add: wav_header_def t)
  have "fs_bytes (patch_header w) = wav_header (of_nat (36 + 2 * length xs)) rate ?d @ pcm_bytes shift xs"
    using h assms(2) d
    by (simp add: patch_header_def Let_def fs_write_def fs_seek_def RIFF_SIZE_OFFSET_def DATA_SIZE_OFFSET_def WAV_HEADER_BYTES_def
        a b mult.commute)
  then show "fs_bytes (ww_file (wav_finalize w)) =
      wav_header (of_nat (36 + 2 * length xs)) rate (of_nat (2 * length xs)) @ pcm_bytes shift xs"
    and "ww_finalized (wav_finalize w)"
    using h by (simp_all add: wav_finalize_def fs_close_def)
qed

text \<open>A reader of mono 16-bit PCM files that checks every header field.\<close>

definition wav_parse :: "u8 list \<Rightarrow> (u32 \<times> u16 list) option" where
  "wav_parse bs =
    (if 44 \<le> length bs \<and> take 4 bs = tag ''RIFF'' \<and> unat (rd32 bs 4) = length bs - 8 \<and>
        take 8 (drop 8 bs) = tag ''WAVEfmt '' \<and> rd32 bs 16 = 16 \<and> rd16 bs 20 = 1 \<and> rd16 bs 22 = 1 \<and>
        rd32 bs 28 = rd32 bs 24 * 2 \<and> rd16 bs 32 = 2 \<and> rd16 bs 34 = 16 \<and> take 4 (drop 36 bs) = tag ''data'' \<and>
        unat (rd32 bs 40) = length bs - 44
     then Some (rd32 bs 24, map (\<lambda>i. rd16 bs (44 + 2 * i)) [0..<unat (rd32 bs 40) div 2]) else None)"

lemma wav_parse_file:
  assumes "2 * length xs + 36 < 2 ^ 32"
  shows "wav_parse (wav_header (of_nat (36 + 2 * length xs)) rate (of_nat (2 * length xs)) @ pcm_bytes shift xs) =
    Some (rate, map (pcm16 shift) xs)"
proof -
  let ?r = "of_nat (36 + 2 * length xs) :: u32" and ?d = "of_nat (2 * length xs) :: u32"
  let ?bs = "wav_header ?r rate ?d @ pcm_bytes shift xs"
  have u: "unat ?r = 36 + 2 * length xs" "unat ?d = 2 * length xs"
    using assms by (auto intro!: unat_of_nat_u32 simp del: of_nat_add of_nat_mult)
  have rd: "rd32 ?bs 4 = ?r" "rd32 ?bs 16 = 16" "rd16 ?bs 20 = 1" "rd16 ?bs 22 = 1" "rd32 ?bs 24 = rate" "rd32 ?bs 28 = rate * 2"
    "rd16 ?bs 32 = 2" "rd16 ?bs 34 = 16" "rd32 ?bs 40 = ?d"
    unfolding wav_header_def rd32_def rd16_def le32_def le16_def tag_def
    by (simp_all only: list.map append.simps append_assoc nth_Cons_numeral nth_Cons_0 nth_Cons_Suc) (simp_all add: split_u32)
  have tags: "take 4 ?bs = tag ''RIFF''" "take 8 (drop 8 ?bs) = tag ''WAVEfmt ''" "take 4 (drop 36 ?bs) = tag ''data''"
    by (simp_all add: wav_header_def tag_def le32_def le16_def)
  have "rd16 ?bs (44 + 2 * i) = pcm16 shift (xs ! i)" if "i < length xs" for i
  proof -
    have "xs = take i xs @ xs ! i # drop (Suc i) xs" using that by (rule id_take_nth_drop)
    then have "?bs = (wav_header ?r rate ?d @ pcm_bytes shift (take i xs)) @ le16 (pcm16 shift (xs ! i)) @ pcm_bytes shift (drop (Suc i) xs)"
      by (metis (no_types, lifting) append.assoc concat.simps(2) concat_append list.simps(9) map_append)
    then show ?thesis using that by (simp only:) (rule rd16_at, simp)
  qed
  then have "map (\<lambda>i. rd16 ?bs (44 + 2 * i)) [0..<length xs] = map (pcm16 shift) xs"
    by (intro nth_equalityI) simp_all
  then show ?thesis unfolding wav_parse_def rd tags u by simp
qed

lemma pcm16_inverse:
  assumes "b \<le> 16" and "unat s < 2 ^ b"
  shows "drop_bit (16 - b) (pcm16 (16 - b) s XOR 0x8000) = s"
proof -
  have "take_bit b s = s"
  proof -
    have "take_bit b (unat s) = unat s" using assms(2) by (simp add: take_bit_nat_eq_self)
    then show ?thesis by (metis unsigned_take_bit_eq word_of_nat_unat)
  qed
  then have hi: "bit s n \<Longrightarrow> n < b" for n by (metis bit_take_bit_iff)
  have "pcm16 (16 - b) s XOR 0x8000 = push_bit (16 - b) s" by (simp add: pcm16_def xor.assoc)
  moreover have "drop_bit (16 - b) (push_bit (16 - b) s) = s"
    by (rule bit_word_eqI) (use hi assms(1) in \<open>auto simp: bit_simps dest: hi\<close>)
  ultimately show ?thesis by simp
qed

text \<open>Writes in any number of calls.\<close>

definition wav_writes :: "u16 list list \<Rightarrow> wav_writer \<Rightarrow> wav_writer" where
  "wav_writes xss w = foldl (\<lambda>w xs. fst (wav_write xs w)) w xss"

lemma wav_writes_holds:
  assumes "wav_holds w rate shift ys" and "44 + 2 * (length ys + length (concat xss)) \<le> fs_limit (ww_file w)"
  shows "wav_holds (wav_writes xss w) rate shift (ys @ concat xss) \<and> fs_limit (ww_file (wav_writes xss w)) = fs_limit (ww_file w)"
  using assms
proof (induction xss arbitrary: w ys)
  case (Cons xs xss)
  have l: "44 + 2 * (length ys + length xs) \<le> fs_limit (ww_file w)" using Cons.prems(2) by simp
  note w = wav_write_holds [OF Cons.prems(1) l]
  from Cons.IH [OF w(1)] Cons.prems(2) w(3) show ?case by (simp add: wav_writes_def)
qed (simp add: wav_writes_def)

text \<open>C32: A finished WAV file is readable and holds what was logged: for codes of up to 16 bits, in any
  number of writes to a file with room for them, the file parses as mono 16-bit PCM at the writer's rate,
  and undoing the shift and the sign flip of each of its samples gives the codes back, in order.\<close>

theorem wav_file_reads_back:
  assumes "openable path" and "bits \<le> 16" and "44 + 2 * length (concat xss) \<le> limit"
    and "2 * length (concat xss) + 36 < 2 ^ 32" and "\<forall>s \<in> set (concat xss). unat s < 2 ^ unat bits"
  shows "\<exists>pcm. wav_parse (fs_bytes (ww_file (wav_finalize (wav_writes xss (wav_new openable limit path rate bits))))) = Some (rate, pcm) \<and>
    map (\<lambda>p. drop_bit (16 - unat bits) (p XOR 0x8000)) pcm = concat xss"
proof -
  let ?w = "wav_new openable limit path rate bits" and ?xs = "concat xss" and ?shift = "16 - unat bits"
  have "44 \<le> limit" using assms(3) by simp
  note new = wav_new_holds [of openable path limit bits rate, OF assms(1) this assms(2)]
  have h: "wav_holds (wav_writes xss ?w) rate ?shift ?xs" "fs_limit (ww_file (wav_writes xss ?w)) = limit"
    using wav_writes_holds [OF new(1), of xss] assms(3) new(2) by auto
  have "fs_bytes (ww_file (wav_finalize (wav_writes xss ?w))) =
      wav_header (of_nat (36 + 2 * length ?xs)) rate (of_nat (2 * length ?xs)) @ pcm_bytes ?shift ?xs"
    by (rule wav_finalize_bytes(1) [OF h(1)]) (use assms(3,4) h(2) in simp_all)
  moreover have b: "unat bits \<le> 16" using assms(2) by (simp add: word_le_nat_alt)
  have "map (\<lambda>p. drop_bit ?shift (p XOR 0x8000)) (map (pcm16 ?shift) ?xs) = ?xs"
    using pcm16_inverse [OF b] assms(5) by (simp only: map_map comp_def map_idI)
  ultimately show ?thesis using wav_parse_file [OF assms(4), of rate ?shift] by simp
qed

theorem wav_file_reads_back_witness:
  "\<exists>pcm. wav_parse (fs_bytes (ww_file (wav_finalize (wav_writes [[5, 4095], [2048]]
      (wav_new (\<lambda>_. True) 100 ''m_rx_001.wav'' 500000 12))))) = Some (500000, pcm) \<and>
    map (\<lambda>p. drop_bit 4 (p XOR 0x8000)) pcm = [5, 4095, 2048]"
  using wav_file_reads_back [of "\<lambda>_. True" "''m_rx_001.wav''" 12 "[[5, 4095], [2048]]" 100 500000] by simp

section \<open>Sessions\<close>

text \<open>What each session of a modem logs, from the calls made: a session ends where the next begins.\<close>

fun rx_sessions :: "string \<Rightarrow> log_call list \<Rightarrow> u16 list \<Rightarrow> u16 list list" where
  "rx_sessions modem_id [] cur = [cur]"
| "rx_sessions modem_id (Log_Begin_Rx i # cs) cur = (if i = modem_id then cur # rx_sessions modem_id cs [] else rx_sessions modem_id cs cur)"
| "rx_sessions modem_id (Log_Rx i xs # cs) cur = rx_sessions modem_id cs (if i = modem_id then cur @ xs else cur)"
| "rx_sessions modem_id (Log_Tx i xs # cs) cur = rx_sessions modem_id cs cur"

text \<open>The RX files a modem has produced, in order, with the open one finished.\<close>

definition rx_files :: "string \<Rightarrow> stream_logger \<Rightarrow> (string \<times> u8 list) list" where
  "rx_files modem_id l = map (\<lambda>w. (ww_path w, fs_bytes (ww_file w)))
     (map snd (filter (\<lambda>p. fst p = modem_id) (sl_closed l)) @
      (case sl_rx_writers l modem_id of None \<Rightarrow> [] | Some w \<Rightarrow> [wav_finalize w]))"

text \<open>An RX writer in the middle of a session that has logged \<open>cur\<close>, with \<open>done\<close> sessions behind it.\<close>

definition in_session :: "string \<Rightarrow> u8 \<Rightarrow> nat \<Rightarrow> nat \<Rightarrow> u16 list \<Rightarrow> stream_logger \<Rightarrow> bool" where
  "in_session modem_id bits limit k cur l \<longleftrightarrow> lo_log_raw_rx (sl_config l) \<and> sl_rx_session l modem_id = Some k \<and>
     sl_rx_source_bits l modem_id = Some bits \<and>
     (\<exists>w. sl_rx_writers l modem_id = Some w \<and> wav_holds w (sl_sample_rate l) (16 - unat bits) cur \<and>
        fs_limit (ww_file w) = limit \<and> ww_path w = rx_path_for (sl_config l) modem_id k)"

definition session_file :: "logging_config \<Rightarrow> string \<Rightarrow> u32 \<Rightarrow> nat \<Rightarrow> nat \<Rightarrow> u16 list \<Rightarrow> string \<times> u8 list" where
  "session_file cfg modem_id rate shift k xs = (rx_path_for cfg modem_id k,
     wav_header (of_nat (36 + 2 * length xs)) rate (of_nat (2 * length xs)) @ pcm_bytes shift xs)"

definition session_fits :: "nat \<Rightarrow> u16 list \<Rightarrow> bool" where
  "session_fits limit xs \<longleftrightarrow> 44 + 2 * length xs \<le> limit \<and> 2 * length xs + 36 < 2 ^ 32"

lemma rx_sessions_first: "\<exists>zs rest. rx_sessions modem_id cs cur = (cur @ zs) # rest"
proof (induction modem_id cs cur rule: rx_sessions.induct)
  case (2 modem_id i cs cur)
  then show ?case by (cases "i = modem_id") fastforce+
next
  case (3 modem_id i xs cs cur)
  then show ?case by (cases "i = modem_id") fastforce+
qed auto

lemma closed_session:
  assumes "in_session modem_id bits limit k cur l" and "session_fits limit cur" and "sl_rx_writers l modem_id = Some w"
  shows "(ww_path (wav_finalize w), fs_bytes (ww_file (wav_finalize w))) =
    session_file (sl_config l) modem_id (sl_sample_rate l) (16 - unat bits) k cur"
proof -
  have h: "wav_holds w (sl_sample_rate l) (16 - unat bits) cur" "fs_limit (ww_file w) = limit" "ww_path w = rx_path_for (sl_config l) modem_id k"
    using assms(1,3) by (auto simp: in_session_def)
  have "ww_path (wav_finalize w) = ww_path w" by (simp add: wav_finalize_def)
  with wav_finalize_bytes(1) [OF h(1)] h assms(2) show ?thesis by (simp add: session_file_def session_fits_def)
qed

lemma rx_files_run:
  assumes "in_session modem_id bits limit k cur l" and "\<forall>p. openable p" and "bits \<le> 16"
    and "\<forall>xs \<in> set (rx_sessions modem_id cs cur). session_fits limit xs"
  shows "rx_files modem_id (foldl (logger_call openable limit) l cs) =
    map (\<lambda>w. (ww_path w, fs_bytes (ww_file w))) (map snd (filter (\<lambda>p. fst p = modem_id) (sl_closed l))) @
    map (\<lambda>(j, xs). session_file (sl_config l) modem_id (sl_sample_rate l) (16 - unat bits) (k + j) xs)
      (enumerate 0 (rx_sessions modem_id cs cur))"
  using assms(1,4)
proof (induction cs arbitrary: l k cur)
  case Nil
  then obtain w where w: "sl_rx_writers l modem_id = Some w" by (auto simp: in_session_def)
  from closed_session [OF Nil.prems(1) _ w] Nil.prems(2) w show ?case by (simp add: rx_files_def)
next
  case (Cons c cs)
  obtain w where w: "sl_rx_writers l modem_id = Some w" "wav_holds w (sl_sample_rate l) (16 - unat bits) cur"
    "fs_limit (ww_file w) = limit" "ww_path w = rx_path_for (sl_config l) modem_id k"
    using Cons.prems(1) by (auto simp: in_session_def)
  note ins = Cons.prems(1) [unfolded in_session_def]
  show ?case
  proof (cases c)
    case (Log_Begin_Rx i)
    let ?l = "begin_rx_session openable limit i l"
    show ?thesis
    proof (cases "i = modem_id")
      case True
      have fit: "session_fits limit cur" using Cons.prems(2) Log_Begin_Rx True by simp
      have l44: "44 \<le> limit" using fit by (simp add: session_fits_def)
      have o: "openable (rx_path_for (sl_config l) modem_id (Suc k))" using assms(2) by simp
      note new = wav_new_holds [of openable "rx_path_for (sl_config l) modem_id (Suc k)" limit bits "sl_sample_rate l", OF o l44 assms(3)]
      have ins': "in_session modem_id bits limit (Suc k) [] ?l"
        using ins w new True by (auto simp: begin_rx_session_def in_session_def Let_def)
      have closed: "sl_closed ?l = sl_closed l @ [(modem_id, wav_finalize w)]" "sl_config ?l = sl_config l" "sl_sample_rate ?l = sl_sample_rate l"
        using ins w True by (auto simp: begin_rx_session_def Let_def)
      have en: "map (\<lambda>(j, xs). session_file q modem_id r s (Suc k + j) xs) (enumerate 0 yss) =
          map (\<lambda>(j, xs). session_file q modem_id r s (k + j) xs) (enumerate 1 yss)" for q r s yss
        by (intro nth_equalityI) (auto simp: nth_enumerate_eq)
      have "\<forall>xs \<in> set (rx_sessions modem_id cs []). session_fits limit xs" using Cons.prems(2) Log_Begin_Rx True by simp
      from Cons.IH [OF ins' this] closed_session [OF Cons.prems(1) fit w(1)] show ?thesis
        unfolding en by (simp add: Log_Begin_Rx True closed [unfolded True])
    next
      case False
      have ins': "in_session modem_id bits limit k cur ?l"
        using ins w(1) False by (auto simp: begin_rx_session_def in_session_def Let_def split: option.splits)
      have closed: "filter (\<lambda>p. fst p = modem_id) (sl_closed ?l) = filter (\<lambda>p. fst p = modem_id) (sl_closed l)"
        "sl_config ?l = sl_config l" "sl_sample_rate ?l = sl_sample_rate l"
        using False by (simp_all add: begin_rx_session_def Let_def split: option.splits)
      from Cons.IH [OF ins'] Cons.prems(2) show ?thesis by (simp add: Log_Begin_Rx False closed)
    qed
  next
    case (Log_Tx i xs)
    have ins': "in_session modem_id bits limit k cur (log_tx i xs l)"
      using ins by (auto simp: log_tx_def in_session_def split: option.splits)
    have "sl_closed (log_tx i xs l) = sl_closed l" "sl_config (log_tx i xs l) = sl_config l" "sl_sample_rate (log_tx i xs l) = sl_sample_rate l"
      by (simp_all add: log_tx_def split: option.splits)
    with Cons.IH [OF ins'] Cons.prems(2) show ?thesis by (simp add: Log_Tx)
  next
    case (Log_Rx i xs)
    let ?cur = "if i = modem_id then cur @ xs else cur"
    have fields: "sl_closed (log_rx i xs l) = sl_closed l" "sl_config (log_rx i xs l) = sl_config l" "sl_sample_rate (log_rx i xs l) = sl_sample_rate l"
      by (simp_all add: log_rx_def split: option.splits)
    have fits: "\<forall>ys \<in> set (rx_sessions modem_id cs ?cur). session_fits limit ys" using Cons.prems(2) Log_Rx by simp
    have ins': "in_session modem_id bits limit k ?cur (log_rx i xs l)"
    proof (cases "i = modem_id")
      case True
      obtain zs rest where "rx_sessions modem_id cs ?cur = (?cur @ zs) # rest" using rx_sessions_first by blast
      with fits True have room: "44 + 2 * (length cur + length xs) \<le> fs_limit (ww_file w)" by (simp add: session_fits_def w(3))
      from wav_write_holds [OF w(2) room] show ?thesis
        using ins w True by (auto simp: log_rx_def in_session_def)
    next
      case False
      then show ?thesis using ins by (auto simp: log_rx_def in_session_def split: option.splits)
    qed
    from Cons.IH [OF ins' fits] show ?thesis by (simp add: Log_Rx fields)
  qed
qed

lemma logger_new_session:
  fixes rate :: u32
  assumes "m \<in> set modems" and "distinct (map ml_id modems)" and "lo_log_raw_rx cfg" and "\<forall>p. openable p" and "44 \<le> limit"
    and "\<forall>m \<in> set modems. ml_dac_bits m \<le> 16"
  defines "l \<equiv> stream_logger_new openable limit cfg modems rate"
  shows "in_session (ml_id m) (ml_dac_bits m) limit 1 [] l \<and> sl_closed l = [] \<and> sl_config l = cfg \<and> sl_sample_rate l = rate"
proof -
  have step: "sl_closed (add_modem openable limit q n) = sl_closed q \<and> sl_config (add_modem openable limit q n) = sl_config q \<and>
      sl_sample_rate (add_modem openable limit q n) = sl_sample_rate q" for q n
    by (simp add: add_modem_def Let_def)
  have other: "in_session i b limit k cur (add_modem openable limit q n) = in_session i b limit k cur q" if "i \<noteq> ml_id n" for i b k cur q n
    using that by (simp add: add_modem_def in_session_def Let_def)
  have own: "in_session (ml_id n) (ml_dac_bits n) limit 1 [] (add_modem openable limit q n)"
    if "lo_log_raw_rx (sl_config q)" "ml_dac_bits n \<le> 16" for q n
  proof -
    have o: "openable (rx_path_for (sl_config q) (ml_id n) 1)" using assms(4) by simp
    note wav_new_holds [of openable "rx_path_for (sl_config q) (ml_id n) 1" limit "ml_dac_bits n" "sl_sample_rate q", OF o assms(5) that(2)]
    then show ?thesis using that(1) by (simp add: add_modem_def in_session_def Let_def)
  qed
  have run: "sl_closed (foldl (add_modem openable limit) q ns) = sl_closed q \<and> sl_config (foldl (add_modem openable limit) q ns) = sl_config q \<and>
      sl_sample_rate (foldl (add_modem openable limit) q ns) = sl_sample_rate q \<and>
      (i \<notin> ml_id ` set ns \<longrightarrow> in_session i b limit k cur (foldl (add_modem openable limit) q ns) = in_session i b limit k cur q)" for q ns i b k cur
    by (induction ns arbitrary: q) (auto simp: step other)
  obtain ms ns where m: "modems = ms @ m # ns" using assms(1) by (meson split_list)
  then have fresh: "ml_id m \<notin> ml_id ` set ns" using assms(2) by auto
  show ?thesis
    unfolding l_def m stream_logger_new_def Let_def
    using run [where i = "ml_id m" and ns = ns and b = "ml_dac_bits m" and k = 1 and cur = "[]"] run [where ns = ms] fresh own step assms(3,6) m
    by simp
qed

text \<open>C33: One file per RX session. From construction on, whatever calls the I/O threads make for whichever
  modems, the RX files of a modem are numbered from 001 in order, and the k-th parses at the logger's
  rate as exactly what was logged for that modem between its (k-1)-th and k-th new session, each code
  shifted to full scale; TX logging and other modems never reach them.\<close>

theorem rx_sessions_are_files:
  assumes "m \<in> set modems" and "distinct (map ml_id modems)" and "lo_log_raw_rx cfg" and "\<forall>p. openable p"
    and "\<forall>m \<in> set modems. ml_dac_bits m \<le> 16" and "\<forall>xs \<in> set (rx_sessions (ml_id m) cs []). session_fits limit xs"
  shows "map (\<lambda>(path, bytes). (path, wav_parse bytes))
      (rx_files (ml_id m) (foldl (logger_call openable limit) (stream_logger_new openable limit cfg modems rate) cs)) =
    map (\<lambda>(j, xs). (rx_path_for cfg (ml_id m) (1 + j), Some (rate, map (pcm16 (16 - unat (ml_dac_bits m))) xs)))
      (enumerate 0 (rx_sessions (ml_id m) cs []))"
proof -
  obtain zs rest where "rx_sessions (ml_id m) cs [] = zs # rest" using rx_sessions_first [of "ml_id m" cs "[]"] by blast
  then have "44 \<le> limit" using assms(6) by (simp add: session_fits_def)
  note new = logger_new_session [where rate = rate, OF assms(1-4) this assms(5)]
  have bits: "ml_dac_bits m \<le> 16" using assms(1,5) by blast
  have files: "rx_files (ml_id m) (foldl (logger_call openable limit) (stream_logger_new openable limit cfg modems rate) cs) =
      map (\<lambda>(j, xs). session_file cfg (ml_id m) rate (16 - unat (ml_dac_bits m)) (1 + j) xs) (enumerate 0 (rx_sessions (ml_id m) cs []))"
    using rx_files_run [OF conjunct1 [OF new] assms(4) bits assms(6)] new by simp
  have "wav_parse (snd (session_file cfg i rate sh k xs)) = Some (rate, map (pcm16 sh) xs)" if "session_fits limit xs" for i sh k xs
    using wav_parse_file [of xs rate sh] that by (simp add: session_file_def session_fits_def)
  then show ?thesis
    unfolding files using assms(6) by (auto simp: session_file_def in_set_enumerate_eq)
qed

text \<open>The modem I/O thread announces a session on its first RX entry too, so the first file stays empty.\<close>

theorem rx_sessions_are_files_witness:
  "map (\<lambda>(path, bytes). (path, wav_parse bytes)) (rx_files ''m'' (foldl (logger_call (\<lambda>_. True) 1000)
      (stream_logger_new (\<lambda>_. True) 1000 (default_logging\<lparr>lo_log_raw_rx := True\<rparr>)
        [\<lparr>ml_id = ''m'', ml_adc_bits = 16, ml_dac_bits = 16\<rparr>] 8000)
      [Log_Begin_Rx ''m'', Log_Rx ''m'' [7], Log_Tx ''m'' [9]])) =
    [(rx_path_for (default_logging\<lparr>lo_log_raw_rx := True\<rparr>) ''m'' 1, Some (8000, [])),
     (rx_path_for (default_logging\<lparr>lo_log_raw_rx := True\<rparr>) ''m'' 2, Some (8000, [0x8007]))]"
  (is "?files = ?expected")
proof -
  let ?m = "\<lparr>ml_id = ''m'', ml_adc_bits = 16, ml_dac_bits = 16\<rparr>"
  let ?cs = "[Log_Begin_Rx ''m'', Log_Rx ''m'' [7], Log_Tx ''m'' [9 :: u16]]"
  have sessions: "rx_sessions (ml_id ?m) ?cs [] = [[], [7]]" by simp
  have fits: "\<forall>xs \<in> set (rx_sessions (ml_id ?m) ?cs []). session_fits 1000 xs" unfolding sessions by (simp add: session_fits_def)
  have raw: "lo_log_raw_rx (default_logging\<lparr>lo_log_raw_rx := True\<rparr>)" by simp
  note files = rx_sessions_are_files [of ?m "[?m]" "default_logging\<lparr>lo_log_raw_rx := True\<rparr>" "\<lambda>_. True" ?cs 1000 8000, OF _ _ raw _ _ fits]
  have "?files = map (\<lambda>(j, xs). (rx_path_for (default_logging\<lparr>lo_log_raw_rx := True\<rparr>) (ml_id ?m) (1 + j),
      Some (8000, map (pcm16 (16 - unat (ml_dac_bits ?m))) xs))) (enumerate 0 [[], [7]])"
    using files unfolding sessions by simp
  then show ?thesis by (simp only:) (simp add: pcm16_def flip: numeral_2_eq_2)
qed

end
