(* ===== verification/Source_Worker.thy ===== *)
theory Source_Worker
  imports Channel_Model Modem_IO Observability
begin

text \<open>
  The worker thread of a source modem: \<open>channel/source_worker.cpp\<close>, in the default build (clock fill
  tracker). What the worker shares with the I/O threads and the engine is a store: the objects of modem
  \<open>i\<close> at index \<open>i\<close>, the pair buffers in the engine's list, one set of metrics and timing statistics.
  The worker holds indices where the code holds pointers, \<open>None\<close> or \<open>False\<close> for a null one. A handler
  is one uninterleaved step; between the steps other threads act on the store. Every call that reads
  the steady clock takes the next reading of \<open>clk\<close>.
\<close>

section \<open>Results\<close>

text \<open>A step may throw, or (\<open>None\<close>) not return.\<close>

type_synonym 'a res = "error + 'a option"

abbreviation ret :: "'a \<Rightarrow> 'a res" where "ret x \<equiv> Inr (Some x)"

definition and_then :: "'a res \<Rightarrow> ('a \<Rightarrow> 'b res) \<Rightarrow> 'b res" where
  "and_then m f = (case m of Inl e \<Rightarrow> Inl e | Inr None \<Rightarrow> Inr None | Inr (Some x) \<Rightarrow> f x)"

lemma and_then_ret [simp]: "and_then (ret x) f = f x" "and_then (Inl e) f = Inl e" "and_then (Inr None) f = Inr None"
  by (simp_all add: and_then_def)

lemma and_then_eq_ret: "and_then m f = ret y \<longleftrightarrow> (\<exists>x. m = ret x \<and> f x = ret y)"
  by (auto simp: and_then_def split: sum.splits option.splits)

lemma and_then_cong [fundef_cong]:
  "m = m' \<Longrightarrow> (\<And>x. m' = ret x \<Longrightarrow> f x = f' x) \<Longrightarrow> and_then m f = and_then m' f'"
  by (auto simp: and_then_def split: sum.splits option.splits)

definition lift_error :: "error + 'a \<Rightarrow> 'a res" where
  "lift_error m = (case m of Inl e \<Rightarrow> Inl e | Inr x \<Rightarrow> ret x)"

lemma lift_error_eq_ret: "lift_error m = ret y \<longleftrightarrow> m = Inr y"
  by (auto simp: lift_error_def split: sum.splits)

section \<open>The shared store\<close>

record shared =
  sh_runtime :: "nat \<Rightarrow> modem_runtime_state"
  sh_tx_ring :: "nat \<Rightarrow> u16 spsc"
  sh_rx_ring :: "nat \<Rightarrow> u16 spsc"
  sh_tracker :: "nat \<Rightarrow> cft"
  sh_estimator :: "nat \<Rightarrow> tx_estimator"
  sh_pair_buffers :: "pair_buffer list"
  sh_metrics :: metrics
  sh_stats :: time_stats
  sh_event_log :: "nat \<Rightarrow> event_log"
  sh_clock_reads :: nat

section \<open>The worker\<close>

record outgoing =
  og_channel :: channel
  og_pair_buffer :: nat
  og_receiver_fill_tracker :: "nat option"
  og_receiver_rx_ring :: "nat option"
  og_receiver_sample_rate :: nat
  og_propagation_delay_s :: real

record source_worker =
  sw_source_id :: string
  sw_runtime :: nat
  sw_tx_ring :: nat
  sw_source_cal :: calibration_data
  sw_outgoing :: "outgoing list"
  sw_running :: bool
  sw_last_state :: modem_state
  sw_last_tx_exit_time :: "host_time option"
  sw_source_tx_estimator :: "nat option"
  sw_metrics :: bool
  sw_processing_time_stats :: bool
  sw_message_event_log :: "nat option"
  sw_processing_deadline_us :: nat
  sw_tx_sequence_id :: nat
  sw_current_msg_start_time :: host_time
  sw_current_msg_start_samples :: nat
  sw_current_msg_active :: bool
  sw_raw_buf_size :: nat
  sw_residuals :: "real list list"
  sw_samples_consumed :: nat

definition steady_ns :: "host_time \<Rightarrow> nat" where
  "steady_ns t = unat (of_int t :: u64)"

text \<open>The gap from the previous watermark, and whether the message is late.\<close>

definition compute_arrival_aligned_gap ::
    "host_time \<Rightarrow> real \<Rightarrow> host_time \<Rightarrow> nat \<Rightarrow> u32 \<Rightarrow> nat \<Rightarrow> nat \<Rightarrow> u32 \<Rightarrow> nat \<times> bool" where
  "compute_arrival_aligned_gap T_tx_start propagation_delay_s now receiver_fs receiver_fill prior_watermark read_pos rx_ring_depth =
    (let target = T_tx_start + ns_of_seconds propagation_delay_s;
         dt_s = seconds_f64 (target - now);
         in_flight = int prior_watermark - int read_pos;
         gap = ctrunc (dmul dt_s (real receiver_fs)) - in_flight - int (unat rx_ring_depth) - int (unat receiver_fill)
     in if gap < 0 then (0, True) else (nat gap, False))"

definition source_worker_new :: "string \<Rightarrow> nat \<Rightarrow> nat \<Rightarrow> calibration_data \<Rightarrow> outgoing list \<Rightarrow> source_worker" where
  "source_worker_new source_id runtime tx_ring source_cal ogs =
    (let max_batch = foldl (\<lambda>m og. cmax m (channel_input_needed_for_batch (og_channel og))) PROCESSING_BLOCK_SIZE ogs
     in \<lparr>sw_source_id = source_id, sw_runtime = runtime, sw_tx_ring = tx_ring, sw_source_cal = source_cal, sw_outgoing = ogs,
         sw_running = False, sw_last_state = ST_IDLE, sw_last_tx_exit_time = None, sw_source_tx_estimator = None,
         sw_metrics = False, sw_processing_time_stats = False, sw_message_event_log = None, sw_processing_deadline_us = 0,
         sw_tx_sequence_id = 0, sw_current_msg_start_time = 0, sw_current_msg_start_samples = 0, sw_current_msg_active = False,
         sw_raw_buf_size = max_batch, sw_residuals = replicate (length ogs) [], sw_samples_consumed = 0\<rparr>)"

definition set_outgoing_receiver_context :: "nat \<Rightarrow> nat option \<Rightarrow> nat option \<Rightarrow> source_worker \<Rightarrow> source_worker" where
  "set_outgoing_receiver_context k tracker ring w =
    (if k < length (sw_outgoing w)
     then w\<lparr>sw_outgoing := (sw_outgoing w)[k := (sw_outgoing w ! k)\<lparr>og_receiver_fill_tracker := tracker, og_receiver_rx_ring := ring\<rparr>]\<rparr>
     else w)"

definition set_source_tx_estimator :: "nat option \<Rightarrow> source_worker \<Rightarrow> source_worker" where
  "set_source_tx_estimator est w = w\<lparr>sw_source_tx_estimator := est\<rparr>"

definition sw_set_metrics :: "bool \<Rightarrow> source_worker \<Rightarrow> source_worker" where
  "sw_set_metrics wired w = w\<lparr>sw_metrics := wired\<rparr>"

definition sw_set_processing_time_stats :: "bool \<Rightarrow> source_worker \<Rightarrow> source_worker" where
  "sw_set_processing_time_stats wired w = w\<lparr>sw_processing_time_stats := wired\<rparr>"

definition sw_set_message_event_log :: "nat option \<Rightarrow> source_worker \<Rightarrow> source_worker" where
  "sw_set_message_event_log l w = w\<lparr>sw_message_event_log := l\<rparr>"

definition sw_set_processing_deadline_us :: "nat \<Rightarrow> source_worker \<Rightarrow> source_worker" where
  "sw_set_processing_deadline_us us w = w\<lparr>sw_processing_deadline_us := us\<rparr>"

definition num_outgoing :: "source_worker \<Rightarrow> nat" where
  "num_outgoing w = length (sw_outgoing w)"

definition sw_stop :: "source_worker \<Rightarrow> source_worker" where
  "sw_stop w = w\<lparr>sw_running := False\<rparr>"

definition clock_now :: "(nat \<Rightarrow> host_time) \<Rightarrow> shared \<Rightarrow> shared \<times> host_time" where
  "clock_now clk s = (s\<lparr>sh_clock_reads := sh_clock_reads s + 1\<rparr>, clk (sh_clock_reads s))"

section \<open>Feeding the channels\<close>

text \<open>The loops over \<open>outgoing_\<close> and \<open>residuals_\<close>: each turn works on one channel, its residual and its
  buffer.\<close>

definition visit_one :: "(outgoing \<Rightarrow> real list \<Rightarrow> pair_buffer \<Rightarrow> (channel \<times> real list \<times> pair_buffer) res) \<Rightarrow>
    outgoing \<Rightarrow> real list \<Rightarrow> pair_buffer list \<Rightarrow> (outgoing \<times> real list \<times> pair_buffer list) res" where
  "visit_one f og residual pbs =
    and_then (f og residual (pbs ! og_pair_buffer og)) (\<lambda>(c, residual', b).
      ret (og\<lparr>og_channel := c\<rparr>, residual', pbs[og_pair_buffer og := b]))"

fun visit_all :: "(outgoing \<Rightarrow> real list \<Rightarrow> pair_buffer \<Rightarrow> (channel \<times> real list \<times> pair_buffer) res) \<Rightarrow>
    outgoing list \<Rightarrow> real list list \<Rightarrow> pair_buffer list \<Rightarrow> (outgoing list \<times> real list list \<times> pair_buffer list) res" where
  "visit_all f (og # ogs) (residual # residuals) pbs =
    and_then (visit_one f og residual pbs) (\<lambda>(og', residual', pbs').
      and_then (visit_all f ogs residuals pbs') (\<lambda>(ogs', residuals', pbs'').
        ret (og' # ogs', residual' # residuals', pbs'')))"
| "visit_all f ogs residuals pbs = ret (ogs, residuals, pbs)"

text \<open>The residual and the new samples go in, what the channel did not consume is kept.\<close>

definition feed_one :: "real list \<Rightarrow> outgoing \<Rightarrow> real list \<Rightarrow> pair_buffer \<Rightarrow> (channel \<times> real list \<times> pair_buffer) res" where
  "feed_one xs og residual b =
    (let buf = residual @ xs
     in and_then (channel_process buf (og_channel og) b) (\<lambda>(c, b', used). ret (c, drop used buf, b')))"

text \<open>The histogram entry the timer guard makes when its scope is left; the steady clock does not go back.\<close>

definition record_duration :: "(nat \<Rightarrow> host_time) \<Rightarrow> host_time \<Rightarrow> source_worker \<Rightarrow> shared \<Rightarrow> shared" where
  "record_duration clk t0 w s =
    (if \<not> sw_processing_time_stats w then s
     else let (s1, t1) = clock_now clk s;
              us = unat (of_int ((t1 - t0) div 1000) :: u64)
          in s1\<lparr>sh_stats := ts_record us (sw_processing_deadline_us w) (sh_stats s1)\<rparr>)"

definition process_available :: "(nat \<Rightarrow> host_time) \<Rightarrow> source_worker \<Rightarrow> shared \<Rightarrow> (source_worker \<times> shared \<times> nat) res" where
  "process_available clk w s =
    (let avail = unat (spsc_available_read (sh_tx_ring s (sw_tx_ring w)))
     in if avail = 0 then ret (w, s, 0)
        else
          let (s1, t0) = clock_now clk s;
              batch = cmin avail (sw_raw_buf_size w);
              (ring, raw) = spsc_read (sh_tx_ring s1 (sw_tx_ring w)) (of_nat batch);
              s2 = s1\<lparr>sh_tx_ring := (sh_tx_ring s1)(sw_tx_ring w := ring)\<rparr>;
              got = length raw
          in if got = 0 then ret (w, record_duration clk t0 w s2, 0)
             else
               let xs = map (\<lambda>x. adc_to_float x (cal_adc_bits (sw_source_cal w))) raw;
                   w1 = w\<lparr>sw_samples_consumed := sw_samples_consumed w + got\<rparr>
               in and_then (visit_all (feed_one xs) (sw_outgoing w1) (sw_residuals w1) (sh_pair_buffers s2)) (\<lambda>(ogs, residuals, pbs).
                    ret (w1\<lparr>sw_outgoing := ogs, sw_residuals := residuals\<rparr>,
                         record_duration clk t0 w1 (s2\<lparr>sh_pair_buffers := pbs\<rparr>), got)))"

text \<open>\<open>while (tx_ring_.available_read() > 0) if (process_available() == 0) break;\<close>\<close>

lemma record_duration_frame [simp]:
  "sh_tx_ring (record_duration clk t0 w s) = sh_tx_ring s" "sh_pair_buffers (record_duration clk t0 w s) = sh_pair_buffers s"
  "sh_runtime (record_duration clk t0 w s) = sh_runtime s" "sh_event_log (record_duration clk t0 w s) = sh_event_log s"
  "sh_metrics (record_duration clk t0 w s) = sh_metrics s" "sh_tracker (record_duration clk t0 w s) = sh_tracker s"
  "sh_rx_ring (record_duration clk t0 w s) = sh_rx_ring s" "sh_estimator (record_duration clk t0 w s) = sh_estimator s"
  by (simp_all add: record_duration_def clock_now_def Let_def)

lemma spsc_read_length:
  assumes "n \<le> unat (spsc_available_read q)"
  shows "length (snd (spsc_read q (of_nat n))) = n \<and>
    unat (spsc_available_read (fst (spsc_read q (of_nat n)))) = unat (spsc_available_read q) - n"
proof -
  have n: "unat (of_nat n :: u64) = n" using assms unat_u64 [of "spsc_available_read q"] by (simp add: unsigned_of_nat take_bit_nat_eq_self)
  then have le: "of_nat n \<le> spsc_available_read q" using assms by (simp add: word_le_nat_alt)
  have "unat (rb_write_pos q - (rb_read_pos q + of_nat n)) = unat (rb_write_pos q - rb_read_pos q) - n"
    using unat_sub [OF le] n by (simp add: spsc_available_read_def diff_diff_eq)
  with n le show ?thesis
    by (simp add: spsc_read_def spsc_available_read_def Let_def min_absorb1)
qed

lemma process_available_drains:
  assumes "process_available clk w s = ret (w', s', n)"
  shows "sw_tx_ring w' = sw_tx_ring w \<and>
    unat (spsc_available_read (sh_tx_ring s' (sw_tx_ring w))) = unat (spsc_available_read (sh_tx_ring s (sw_tx_ring w))) - n \<and>
    n \<le> unat (spsc_available_read (sh_tx_ring s (sw_tx_ring w)))"
proof -
  let ?q = "sh_tx_ring s (sw_tx_ring w)" and ?n = "min (unat (spsc_available_read (sh_tx_ring s (sw_tx_ring w)))) (sw_raw_buf_size w)"
  note len = spsc_read_length [of ?n ?q]
  show ?thesis
    using assms len
    by (auto simp: process_available_def Let_def clock_now_def case_prod_unfold and_then_eq_ret split: if_splits)
qed

function drain_ring :: "(nat \<Rightarrow> host_time) \<Rightarrow> source_worker \<Rightarrow> shared \<Rightarrow> (source_worker \<times> shared) res" where
  "drain_ring clk w s =
    (if spsc_available_read (sh_tx_ring s (sw_tx_ring w)) = 0 then ret (w, s)
     else and_then (process_available clk w s) (\<lambda>(w', s', n). if n = 0 then ret (w', s') else drain_ring clk w' s'))"
  by pat_completeness auto
termination
proof (relation "measure (\<lambda>(clk, w, s). unat (spsc_available_read (sh_tx_ring s (sw_tx_ring w))))", goal_cases)
  case (2 clk w s x w' b s' n)
  then show ?case using process_available_drains [of clk w s w' s' n] by auto
qed simp

declare drain_ring.simps [simp del]

text \<open>\<open>if (!res.empty()) ...; on_message_end\<close>.\<close>

definition flush_one :: "outgoing \<Rightarrow> real list \<Rightarrow> pair_buffer \<Rightarrow> (channel \<times> real list \<times> pair_buffer) res" where
  "flush_one og residual b =
    and_then (if residual \<noteq> [] then feed_one [] og residual b else ret (og_channel og, residual, b)) (\<lambda>(c, residual', b').
      and_then (channel_on_message_end c b') (\<lambda>(c', b''). ret (c', residual', b'')))"

definition drain_and_flush :: "(nat \<Rightarrow> host_time) \<Rightarrow> source_worker \<Rightarrow> shared \<Rightarrow> (source_worker \<times> shared) res" where
  "drain_and_flush clk w s =
    and_then (drain_ring clk w s) (\<lambda>(w1, s1).
      and_then (visit_all flush_one (sw_outgoing w1) (sw_residuals w1) (sh_pair_buffers s1)) (\<lambda>(ogs, residuals, pbs).
        ret (w1\<lparr>sw_outgoing := ogs, sw_residuals := residuals\<rparr>, s1\<lparr>sh_pair_buffers := pbs\<rparr>)))"

section \<open>State edges\<close>

text \<open>Where a message starts in one channel's buffer, and whether it is late there.\<close>

definition arrival_gap :: "host_time \<Rightarrow> host_time \<Rightarrow> shared \<Rightarrow> outgoing \<Rightarrow> nat \<times> bool \<times> bool" where
  "arrival_gap T_tx_start now s og =
    (case (og_receiver_fill_tracker og, og_receiver_rx_ring og) of
       (Some t, Some r) \<Rightarrow>
         let b = sh_pair_buffers s ! og_pair_buffer og;
             (gap, late) = compute_arrival_aligned_gap T_tx_start (og_propagation_delay_s og) now (og_receiver_sample_rate og)
               (cft_estimated_fill now (sh_tracker s t)) (pb_write_watermark b) (pb_read_pos b)
               (ucast (spsc_available_read (sh_rx_ring s r)))
         in (gap, late, True)
     | _ \<Rightarrow> (0, False, False))"

fun start_all :: "host_time \<Rightarrow> host_time \<Rightarrow> bool \<Rightarrow> outgoing list \<Rightarrow> shared \<Rightarrow> (outgoing list \<times> shared) res" where
  "start_all T_tx_start now wired [] s = ret ([], s)"
| "start_all T_tx_start now wired (og # ogs) s =
    (let (gap, late, arrival_alignment) = arrival_gap T_tx_start now s og;
         s1 = (if late \<and> wired then s\<lparr>sh_metrics := (sh_metrics s)\<lparr>mt_late_messages := mt_late_messages (sh_metrics s) + 1\<rparr>\<rparr> else s)
     in and_then (lift_error (channel_on_message_start gap arrival_alignment (og_channel og) (sh_pair_buffers s1 ! og_pair_buffer og)))
          (\<lambda>(c, b). and_then (start_all T_tx_start now wired ogs (s1\<lparr>sh_pair_buffers := (sh_pair_buffers s1)[og_pair_buffer og := b]\<rparr>))
            (\<lambda>(ogs', s2). ret (og\<lparr>og_channel := c\<rparr> # ogs', s2))))"

text \<open>The tightest observation of the estimator, or now if there is none.\<close>

definition tx_start_bound :: "host_time \<Rightarrow> source_worker \<Rightarrow> shared \<Rightarrow> host_time" where
  "tx_start_bound now w s =
    (case sw_source_tx_estimator w of None \<Rightarrow> now
     | Some i \<Rightarrow> if has_observation (sh_estimator s i) then the (earliest_start_time (sh_estimator s i)) else now)"

definition tx_entry :: "(nat \<Rightarrow> host_time) \<Rightarrow> source_worker \<Rightarrow> shared \<Rightarrow> (source_worker \<times> shared) res" where
  "tx_entry clk w s =
    (let (s1, now) = clock_now clk s
     in and_then (start_all (tx_start_bound now w s1) now (sw_metrics w) (sw_outgoing w) s1) (\<lambda>(ogs, s2).
          let w1 = w\<lparr>sw_outgoing := ogs, sw_residuals := map (\<lambda>_. []) (sw_residuals w)\<rparr>
          in if sw_message_event_log w1 = None then ret (w1, s2)
             else let (s3, t) = clock_now clk s2
                  in ret (w1\<lparr>sw_current_msg_start_time := t, sw_current_msg_start_samples := sw_samples_consumed w1,
                             sw_current_msg_active := True\<rparr>, s3)))"

definition tx_exit :: "(nat \<Rightarrow> host_time) \<Rightarrow> source_worker \<Rightarrow> shared \<Rightarrow> (source_worker \<times> shared) res" where
  "tx_exit clk w s =
    and_then (drain_and_flush clk w s) (\<lambda>(w1, s1).
      let (s2, t) = clock_now clk s1;
          w2 = w1\<lparr>sw_last_tx_exit_time := Some t\<rparr>
      in case sw_message_event_log w2 of None \<Rightarrow> ret (w2, s2)
         | Some l \<Rightarrow>
           if \<not> sw_current_msg_active w2 then ret (w2, s2)
           else let ev = \<lparr>ev_modem_id = sw_source_id w2, ev_direction = Dir_Tx, ev_start_ns = steady_ns (sw_current_msg_start_time w2),
                       ev_end_ns = steady_ns t, ev_sample_count = sw_samples_consumed w2 - sw_current_msg_start_samples w2,
                       ev_sequence_id = sw_tx_sequence_id w2\<rparr>
                in ret (w2\<lparr>sw_tx_sequence_id := sw_tx_sequence_id w2 + 1, sw_current_msg_active := False\<rparr>,
                        s2\<lparr>sh_event_log := (sh_event_log s2)(l := el_record ev (sh_event_log s2 l))\<rparr>))"

definition live_state :: "source_worker \<Rightarrow> shared \<Rightarrow> modem_state" where
  "live_state w s = rt_state (sh_runtime s (sw_runtime w))"

definition poll_state_edges :: "(nat \<Rightarrow> host_time) \<Rightarrow> source_worker \<Rightarrow> shared \<Rightarrow> (source_worker \<times> shared) res" where
  "poll_state_edges clk w s =
    (let now = live_state w s; was_tx = sw_last_state w = ST_TX; is_tx = now = ST_TX
     in if now = sw_last_state w then ret (w, s)
        else and_then (if \<not> was_tx \<and> is_tx then tx_entry clk w s
                       else if was_tx \<and> \<not> is_tx then tx_exit clk w s
                       else ret (w, s))
               (\<lambda>(w', s'). ret (w'\<lparr>sw_last_state := now\<rparr>, s')))"

section \<open>The loop\<close>

text \<open>What the other threads do to the store: the source's I/O thread pushes received codes and publishes
  states, receivers read their buffers, the I/O threads of receivers move on.\<close>

datatype env_act =
    Env_Push "u16 list"
  | Env_State modem_state
  | Env_Pull nat nat
  | Env_Receiver nat cft "u16 spsc"
  | Env_Estimator nat tx_estimator

fun env_step :: "source_worker \<Rightarrow> env_act \<Rightarrow> shared \<Rightarrow> shared" where
  "env_step w (Env_Push xs) s = s\<lparr>sh_tx_ring := (sh_tx_ring s)(sw_tx_ring w := fst (spsc_write (sh_tx_ring s (sw_tx_ring w)) xs))\<rparr>"
| "env_step w (Env_State st) s = s\<lparr>sh_runtime := (sh_runtime s)(sw_runtime w := (sh_runtime s (sw_runtime w))\<lparr>rt_state := st\<rparr>)\<rparr>"
| "env_step w (Env_Pull k n) s = s\<lparr>sh_pair_buffers := (sh_pair_buffers s)[k := fst (read_advance n (sh_pair_buffers s ! k))]\<rparr>"
| "env_step w (Env_Receiver i tracker ring) s = s\<lparr>sh_tracker := (sh_tracker s)(i := tracker), sh_rx_ring := (sh_rx_ring s)(i := ring)\<rparr>"
| "env_step w (Env_Estimator i est) s = s\<lparr>sh_estimator := (sh_estimator s)(i := est)\<rparr>"

definition env_steps :: "source_worker \<Rightarrow> env_act list \<Rightarrow> shared \<Rightarrow> shared" where
  "env_steps w acts s = fold (env_step w) acts s"

text \<open>One turn of the loop; the state is read twice, and the other threads act before each reading. The
  last component tells whether the thread sleeps for \<open>kIdleSleep\<close> at the end.\<close>

definition kIdleSleep :: int where "kIdleSleep = 100 * 1000"

definition sw_iteration :: "(nat \<Rightarrow> host_time) \<Rightarrow> env_act list \<Rightarrow> env_act list \<Rightarrow> source_worker \<Rightarrow> shared \<Rightarrow> (source_worker \<times> shared \<times> bool) res" where
  "sw_iteration clk before between w s =
    and_then (poll_state_edges clk w (env_steps w before s)) (\<lambda>(w1, s1).
      let s2 = env_steps w1 between s1
      in and_then (if live_state w1 s2 = ST_TX then process_available clk w1 s2 else ret (w1, s2, 0)) (\<lambda>(w3, s3, processed).
           ret (w3, s3, processed = 0)))"

text \<open>The thread from its start to its end: \<open>sched\<close> holds what the others do around each turn that the
  loop makes before it sees \<open>stop\<close>, \<open>final\<close> what they do before the last poll.\<close>

fun sw_loop :: "(nat \<Rightarrow> host_time) \<Rightarrow> (env_act list \<times> env_act list) list \<Rightarrow> source_worker \<Rightarrow> shared \<Rightarrow> (source_worker \<times> shared) res" where
  "sw_loop clk [] w s = ret (w, s)"
| "sw_loop clk ((before, between) # sched) w s =
    and_then (sw_iteration clk before between w s) (\<lambda>(w1, s1, slept). sw_loop clk sched w1 s1)"

text \<open>After the loop: the last poll, and what it takes to close a message that is still open.\<close>

definition sw_finish :: "(nat \<Rightarrow> host_time) \<Rightarrow> source_worker \<Rightarrow> shared \<Rightarrow> (source_worker \<times> shared) res" where
  "sw_finish clk w s =
    and_then (poll_state_edges clk w s) (\<lambda>(w1, s1).
      if sw_last_state w1 = ST_TX
      then and_then (drain_and_flush clk w1 s1) (\<lambda>(w2, s2). ret (w2\<lparr>sw_last_state := ST_IDLE\<rparr>, s2))
      else ret (w1, s1))"

definition sw_run :: "(nat \<Rightarrow> host_time) \<Rightarrow> (env_act list \<times> env_act list) list \<Rightarrow> env_act list \<Rightarrow> source_worker \<Rightarrow> shared \<Rightarrow> (source_worker \<times> shared) res" where
  "sw_run clk sched final w s =
    and_then (sw_loop clk sched (w\<lparr>sw_running := True, sw_last_state := ST_IDLE\<rparr>) s) (\<lambda>(w1, s1).
      sw_finish clk (sw_stop w1) (env_steps w1 final s1))"

end
