(* ===== verification/Worker_Message.thy ===== *)
theory Worker_Message
  imports Source_Worker
begin

text \<open>
  What a source worker does with a message: from the turn of its loop that sees the modem enter TX to the
  one that sees it leave, with the other threads acting in between. The loops over the channels act on each
  channel as if it were alone, the codes come off the ring in order, and every channel gets all of them
  between its start and its end.
\<close>

section \<open>The loops visit every channel\<close>

definition pb_wired :: "outgoing list \<Rightarrow> pair_buffer list \<Rightarrow> bool" where
  "pb_wired ogs pbs \<longleftrightarrow> distinct (map og_pair_buffer ogs) \<and> (\<forall>og \<in> set ogs. og_pair_buffer og < length pbs)"

definition own :: "outgoing \<Rightarrow> pair_buffer list \<Rightarrow> channel \<times> pair_buffer" where
  "own og pbs = (og_channel og, pbs ! og_pair_buffer og)"

definition og_wiring :: "outgoing \<Rightarrow> nat \<times> nat option \<times> nat option \<times> nat \<times> real" where
  "og_wiring og = (og_pair_buffer og, og_receiver_fill_tracker og, og_receiver_rx_ring og, og_receiver_sample_rate og,
     og_propagation_delay_s og)"

lemma og_wiring_upd [simp]: "og_wiring (og\<lparr>og_channel := c\<rparr>) = og_wiring og"
  by (simp add: og_wiring_def)

lemma wiring_slot: "og_wiring og = og_wiring og' \<Longrightarrow> og_pair_buffer og = og_pair_buffer og'"
  by (simp add: og_wiring_def)

text \<open>A loop over the channels acts on each one as if it were alone.\<close>

lemma visit_all_each:
  assumes "visit_all f ogs residuals pbs = ret (ogs', residuals', pbs')" and "pb_wired ogs pbs" and "length residuals = length ogs"
  shows "length residuals' = length ogs \<and> length pbs' = length pbs \<and> length ogs' = length ogs \<and>
    (\<forall>j < length ogs. f (ogs ! j) (residuals ! j) (pbs ! og_pair_buffer (ogs ! j)) =
        ret (og_channel (ogs' ! j), residuals' ! j, pbs' ! og_pair_buffer (ogs ! j)) \<and>
      og_wiring (ogs' ! j) = og_wiring (ogs ! j)) \<and>
    (\<forall>i. i \<notin> og_pair_buffer ` set ogs \<longrightarrow> pbs' ! i = pbs ! i)"
  using assms
proof (induction f ogs residuals pbs arbitrary: ogs' residuals' pbs' rule: visit_all.induct)
  case (1 f og ogs r rs pbs)
  obtain c r' b where v: "f og r (pbs ! og_pair_buffer og) = ret (c, r', b)"
    "visit_one f og r pbs = ret (og\<lparr>og_channel := c\<rparr>, r', pbs[og_pair_buffer og := b])"
    using 1(2) by (auto simp: visit_one_def and_then_eq_ret)
  obtain ogs2 rs2 where rest: "visit_all f ogs rs (pbs[og_pair_buffer og := b]) = ret (ogs2, rs2, pbs')"
    "ogs' = og\<lparr>og_channel := c\<rparr> # ogs2" "residuals' = r' # rs2"
    using 1(2) v(2) by (auto simp: and_then_eq_ret)
  have wired: "pb_wired ogs (pbs[og_pair_buffer og := b])" and fresh: "og_pair_buffer og \<notin> og_pair_buffer ` set ogs"
    and in_range: "og_pair_buffer og < length pbs"
    using 1(3) by (auto simp: pb_wired_def)
  have other: "pbs[og_pair_buffer og := b] ! og_pair_buffer (ogs ! j) = pbs ! og_pair_buffer (ogs ! j)" if "j < length ogs" for j
    using fresh that by (intro nth_list_update_neq) auto
  from "1.IH" [OF v(2) refl refl rest(1) wired] 1(4) have ih: "length rs2 = length ogs" "length pbs' = length pbs" "length ogs2 = length ogs"
    "\<And>j. j < length ogs \<Longrightarrow> f (ogs ! j) (rs ! j) (pbs ! og_pair_buffer (ogs ! j)) =
      ret (og_channel (ogs2 ! j), rs2 ! j, pbs' ! og_pair_buffer (ogs ! j)) \<and> og_wiring (ogs2 ! j) = og_wiring (ogs ! j)"
    "\<And>i. i \<notin> og_pair_buffer ` set ogs \<Longrightarrow> pbs' ! i = pbs[og_pair_buffer og := b] ! i"
    using other by auto
  have "pbs' ! og_pair_buffer og = b" using ih(5) [OF fresh] in_range by simp
  with ih v(1) rest(2,3) show ?case by (auto simp: less_Suc_eq_0_disj)
qed simp_all

section \<open>Renderers consume what they are given\<close>

lemma farrow_loop_short: "length (fst (snd (farrow_loop f xs n))) < n \<Longrightarrow> snd (snd (farrow_loop f xs n)) = []"
proof (induction f xs n rule: farrow_loop.induct)
  case (2 f input n)
  obtain f1 rest dry where a: "farrow_advance f input = (f1, rest, dry)" by (metis prod_cases3)
  show ?case
  proof (cases dry)
    case True
    with a farrow_advance_dry [of f input f1 rest] show ?thesis by simp
  next
    case False
    with "2.IH" [OF refl a [symmetric] refl False] "2.prems" a show ?thesis by (simp add: case_prod_beta Let_def)
  qed
qed simp

lemma static_loop_consumes: "static_loop r samples = Some (r', cs, used) \<Longrightarrow> used = length samples"
proof (induction r samples "(r', cs, used)" arbitrary: r' cs used rule: static_loop.raw_induct [rotated 1, consumes 1, case_names step])
  case (step loop r samples)
  obtain f out u where p: "farrow_process (sr_resampler r) samples PROCESSING_BLOCK_SIZE = (f, out, u)" by (metis prod_cases3)
  have short: "u = length samples" if "length out < PROCESSING_BLOCK_SIZE"
    using p that farrow_loop_short [of "sr_resampler r" samples PROCESSING_BLOCK_SIZE] by (auto simp: farrow_process_def case_prod_beta Let_def)
  have le: "u \<le> length samples" using p by (auto simp: farrow_process_def case_prod_beta Let_def)
  show ?case
  proof (cases "samples = []")
    case True
    with step.hyps(2) show ?thesis by simp
  next
    case ne: False
    have moves: "\<not> (u = 0 \<and> out = [])" using short ne by (auto simp: PROCESSING_BLOCK_SIZE_def)
    show ?thesis
    proof (cases "length out < PROCESSING_BLOCK_SIZE")
      case True
      with step.hyps(2) p ne moves short show ?thesis by (auto simp: Let_def case_prod_beta split: if_splits)
    next
      case False
      with step.hyps(2) p ne moves obtain r2 r3 cs2 cs' used' where l: "loop r2 (drop u samples) = Some (r3, cs', used')" "used = u + used'"
        by (auto simp: Let_def case_prod_beta split: if_splits bind_splits)
      from step.hyps(1) [OF l(1)] l(2) le show ?thesis by simp
    qed
  qed
qed

lemma renderer_consumes: "renderer_process xs r = ret (r', cs, used) \<Longrightarrow> used = length xs"
proof (cases r)
  case (Static_R q)
  then show "renderer_process xs r = ret (r', cs, used) \<Longrightarrow> used = length xs"
    by (auto simp: lift_process_Some static_process_def dest: static_loop_consumes split: if_splits sum.splits)
qed (auto simp: lift_process_Some tap_process_op_def case_prod_beta)

lemma channel_process_consumes: "channel_process xs c b = ret (c', b', used) \<Longrightarrow> used = length xs"
  by (auto simp: channel_process_def dest: renderer_consumes split: sum.splits option.splits)

lemma feed_one_consumes: "feed_one xs og r b = ret (c, r', b') \<Longrightarrow> r' = []"
  by (auto simp: feed_one_def Let_def and_then_eq_ret dest: channel_process_consumes)

section \<open>What a channel sees\<close>

fun feeds :: "channel_event list \<Rightarrow> real list" where
  "feeds [] = []"
| "feeds (Feed xs # evs) = xs @ feeds evs"
| "feeds (Receive n # evs) = feeds evs"

lemma feeds_append [simp]: "feeds (evs @ evs') = feeds evs @ feeds evs'"
  by (induction evs rule: feeds.induct) simp_all

lemma channel_run_append:
  assumes "channel_run evs c b = ret (c', b', out)" and "channel_run evs' c' b' = ret (c'', b'', out')"
  shows "channel_run (evs @ evs') c b = ret (c'', b'', out @ out')"
  using assms
proof (induction evs arbitrary: c b out)
  case (Cons ev evs)
  show ?case
  proof (cases ev)
    case (Feed xs)
    with Cons show ?thesis by (auto split: sum.splits option.splits)
  next
    case (Receive n)
    obtain b1 got where r: "read_advance n b = (b1, got)" by fastforce
    with Cons.prems(1) Receive obtain out1 where o: "channel_run evs c b1 = ret (c', b', out1)" "out = got @ out1"
      by (auto split: sum.splits option.splits)
    from Cons.IH [OF o(1) Cons.prems(2)] show ?thesis using r o(2) Receive by simp
  qed
qed simp

text \<open>A channel and its buffer go from one state to another by being fed \<open>xs\<close> and read, in some order.\<close>

definition fed :: "channel \<times> pair_buffer \<Rightarrow> real list \<Rightarrow> channel \<times> pair_buffer \<Rightarrow> bool" where
  "fed p xs q \<longleftrightarrow> (\<exists>evs out. channel_run evs (fst p) (snd p) = ret (fst q, snd q, out) \<and> feeds evs = xs)"

lemma fed_refl: "fed p [] p"
  unfolding fed_def by (intro exI [of _ "[]"] exI [of _ "[]"]) simp

lemma fed_trans: "fed p xs q \<Longrightarrow> fed q ys r \<Longrightarrow> fed p (xs @ ys) r"
  unfolding fed_def by (elim exE conjE, intro exI conjI, erule (1) channel_run_append) simp

lemma fed_process: "channel_process xs c b = ret (c', b', used) \<Longrightarrow> fed (c, b) xs (c', b')"
  unfolding fed_def by (intro exI [of _ "[Feed xs]"] exI [of _ "[]"]) simp

lemma fed_read: "fed (c, b) [] (c, fst (read_advance n b))"
  unfolding fed_def by (intro exI [of _ "[Receive n]"] exI [of _ "snd (read_advance n b)"]) (simp add: case_prod_unfold Let_def)

definition all_fed :: "outgoing list \<Rightarrow> pair_buffer list \<Rightarrow> real list \<Rightarrow> outgoing list \<Rightarrow> pair_buffer list \<Rightarrow> bool" where
  "all_fed ogs pbs xs ogs' pbs' \<longleftrightarrow> length pbs' = length pbs \<and> length ogs' = length ogs \<and>
     (\<forall>j < length ogs. fed (own (ogs ! j) pbs) xs (own (ogs' ! j) pbs') \<and> og_wiring (ogs' ! j) = og_wiring (ogs ! j))"

lemma all_fed_refl: "all_fed ogs pbs [] ogs pbs"
  by (simp add: all_fed_def fed_refl)

lemma all_fed_trans: "all_fed ogs pbs xs ogs1 pbs1 \<Longrightarrow> all_fed ogs1 pbs1 ys ogs2 pbs2 \<Longrightarrow> all_fed ogs pbs (xs @ ys) ogs2 pbs2"
  unfolding all_fed_def by (simp, blast intro: fed_trans)

lemma same_slots: "all_fed ogs pbs xs ogs' pbs' \<Longrightarrow> map og_pair_buffer ogs' = map og_pair_buffer ogs"
  by (intro nth_equalityI) (auto simp: all_fed_def dest: wiring_slot)

lemma pb_wired_map: "pb_wired ogs pbs \<longleftrightarrow> distinct (map og_pair_buffer ogs) \<and> (\<forall>k \<in> set (map og_pair_buffer ogs). k < length pbs)"
  by (simp add: pb_wired_def)

lemma all_fed_wired: "all_fed ogs pbs xs ogs' pbs' \<Longrightarrow> pb_wired ogs pbs \<Longrightarrow> pb_wired ogs' pbs'"
  using same_slots [of ogs pbs xs ogs' pbs'] by (auto simp: pb_wired_map all_fed_def)

lemma visit_feeds:
  assumes "visit_all (feed_one xs) ogs (replicate (length ogs) []) pbs = ret (ogs', residuals', pbs')" and "pb_wired ogs pbs"
  shows "all_fed ogs pbs xs ogs' pbs' \<and> residuals' = replicate (length ogs) []"
proof -
  note each = visit_all_each [OF assms, simplified]
  have f: "feed_one xs (ogs ! j) [] (pbs ! og_pair_buffer (ogs ! j)) =
      ret (og_channel (ogs' ! j), residuals' ! j, pbs' ! og_pair_buffer (ogs ! j))" if "j < length ogs" for j
    using each that by simp
  have slot: "og_pair_buffer (ogs' ! j) = og_pair_buffer (ogs ! j)" if "j < length ogs" for j
    using each that wiring_slot by blast
  have "fed (own (ogs ! j) pbs) xs (own (ogs' ! j) pbs')" if "j < length ogs" for j
    using f [OF that] slot [OF that] by (auto simp: feed_one_def and_then_eq_ret own_def intro: fed_process)
  moreover have "residuals' = replicate (length ogs) []"
    by (intro nth_equalityI) (use each feed_one_consumes [OF f] in auto)
  ultimately show ?thesis using each by (simp add: all_fed_def)
qed

section \<open>A message\<close>

definition worker_ok :: "source_worker \<Rightarrow> shared \<Rightarrow> bool" where
  "worker_ok w s \<longleftrightarrow> pb_wired (sw_outgoing w) (sh_pair_buffers s) \<and> sw_residuals w = replicate (length (sw_outgoing w)) [] \<and>
     spsc_inv (sh_tx_ring s (sw_tx_ring w)) \<and> 0 < sw_raw_buf_size w"

text \<open>What a step reads: the codes come off the ring in order and reach every channel as samples.\<close>

definition as_samples :: "source_worker \<Rightarrow> u16 list \<Rightarrow> real list" where
  "as_samples w codes = map (\<lambda>x. adc_to_float x (cal_adc_bits (sw_source_cal w))) codes"

lemma as_samples_append: "as_samples w (xs @ ys) = as_samples w xs @ as_samples w ys"
  by (simp add: as_samples_def)

definition worker_const :: "source_worker \<Rightarrow> string \<times> nat \<times> nat \<times> calibration_data \<times> nat option \<times> nat \<times> nat option \<times> bool" where
  "worker_const w = (sw_source_id w, sw_runtime w, sw_tx_ring w, sw_source_cal w, sw_source_tx_estimator w, sw_raw_buf_size w,
     sw_message_event_log w, sw_metrics w)"

definition msg_record :: "source_worker \<Rightarrow> nat \<times> host_time \<times> nat \<times> bool" where
  "msg_record w = (sw_tx_sequence_id w, sw_current_msg_start_time w, sw_current_msg_start_samples w, sw_current_msg_active w)"

abbreviation tx_contents :: "source_worker \<Rightarrow> shared \<Rightarrow> u16 list" where
  "tx_contents w s \<equiv> spsc_contents (sh_tx_ring s (sw_tx_ring w))"

text \<open>\<open>codes\<close> has been taken off the ring and fed to every channel, from one state to another.\<close>

definition took :: "source_worker \<Rightarrow> shared \<Rightarrow> u16 list \<Rightarrow> source_worker \<Rightarrow> shared \<Rightarrow> bool" where
  "took w s codes w' s' \<longleftrightarrow> worker_ok w' s' \<and> worker_const w' = worker_const w \<and> msg_record w' = msg_record w \<and>
     sw_samples_consumed w' = sw_samples_consumed w + length codes \<and> sh_event_log s' = sh_event_log s \<and>
     all_fed (sw_outgoing w) (sh_pair_buffers s) (as_samples w codes) (sw_outgoing w') (sh_pair_buffers s')"

lemma took_refl: "worker_ok w s \<Longrightarrow> took w s [] w s"
  by (simp add: took_def all_fed_refl as_samples_def)

lemma as_samples_const: "worker_const w = worker_const w' \<Longrightarrow> as_samples w = as_samples w'"
  by (simp add: worker_const_def as_samples_def fun_eq_iff)

lemma took_trans:
  assumes "took w s xs w1 s1" and "took w1 s1 ys w2 s2"
  shows "took w s (xs @ ys) w2 s2"
proof -
  have "as_samples w1 = as_samples w" using assms(1) by (intro as_samples_const) (simp add: took_def)
  with assms show ?thesis unfolding took_def as_samples_append by (auto intro: all_fed_trans)
qed

lemma length_contents: "length (spsc_contents q) = unat (spsc_available_read q)"
  by (simp add: spsc_contents_def spsc_available_read_def)

lemma process_available_took:
  assumes "process_available clk w s = ret (w', s', n)" and "worker_ok w s"
  shows "took w s (take n (tx_contents w s)) w' s' \<and> tx_contents w' s' = drop n (tx_contents w s) \<and>
    n = min (length (tx_contents w s)) (sw_raw_buf_size w)"
proof -
  let ?q = "sh_tx_ring s (sw_tx_ring w)"
  let ?k = "min (unat (spsc_available_read ?q)) (sw_raw_buf_size w)"
  have inv: "spsc_inv ?q" using assms(2) by (simp add: worker_ok_def)
  have k: "unat (of_nat ?k :: u64) = ?k"
    using unat_u64 [of "spsc_available_read ?q"] by (simp add: unsigned_of_nat take_bit_nat_eq_self min_less_iff_disj)
  note rd = spsc_read_facts [OF inv, of "of_nat ?k", unfolded k]
  show ?thesis
  proof (cases "spsc_available_read ?q = 0")
    case True
    then have e: "tx_contents w s = []" using length_contents [of ?q] by simp
    from True assms(1) have "w' = w" "s' = s" "n = 0" by (simp_all add: process_available_def Let_def)
    with e assms(2) took_refl show ?thesis by simp
  next
    case False
    obtain ring raw where r: "spsc_read ?q (of_nat ?k) = (ring, raw)" by fastforce
    with rd have raw: "raw = take ?k (tx_contents w s)" "spsc_inv ring" "spsc_contents ring = drop ?k (tx_contents w s)" by simp_all
    have pos: "0 < ?k" using False assms(2) by (simp add: worker_ok_def unat_gt_0)
    then have len: "length raw = ?k" "raw \<noteq> []" using raw(1) length_contents [of ?q] by (auto simp: min_def)
    obtain ogs residuals pbs where v: "visit_all (feed_one (as_samples w raw)) (sw_outgoing w) (sw_residuals w) (sh_pair_buffers s) = ret (ogs, residuals, pbs)"
      and out: "w' = w\<lparr>sw_samples_consumed := sw_samples_consumed w + length raw, sw_outgoing := ogs, sw_residuals := residuals\<rparr>"
        "n = length raw" "sh_tx_ring s' = (sh_tx_ring s)(sw_tx_ring w := ring)" "sh_pair_buffers s' = pbs" "sh_event_log s' = sh_event_log s"
      using assms(1) False [folded unat_eq_0] r len
      by (auto simp: process_available_def Let_def clock_now_def and_then_eq_ret as_samples_def)
    have ok: "pb_wired (sw_outgoing w) (sh_pair_buffers s)" "sw_residuals w = replicate (length (sw_outgoing w)) []"
      using assms(2) by (simp_all add: worker_ok_def)
    from visit_feeds [OF v [unfolded ok(2)] ok(1)]
    have f: "all_fed (sw_outgoing w) (sh_pair_buffers s) (as_samples w raw) ogs pbs" "residuals = replicate (length (sw_outgoing w)) []"
      by simp_all
    have "length ogs = length (sw_outgoing w)" using f(1) by (simp add: all_fed_def)
    with f out raw all_fed_wired [OF f(1) ok(1)] assms(2) have "took w s raw w' s'"
      by (simp add: took_def worker_ok_def worker_const_def msg_record_def)
    with out raw len length_contents [of ?q] show ?thesis by simp
  qed
qed

lemma drain_ring_took:
  assumes "drain_ring clk w s = ret (w', s')" and "worker_ok w s"
  shows "took w s (tx_contents w s) w' s' \<and> tx_contents w' s' = []"
  using assms
proof (induction clk w s rule: drain_ring.induct)
  case (1 clk w s)
  show ?case
  proof (cases "spsc_available_read (sh_tx_ring s (sw_tx_ring w)) = 0")
    case True
    then have "tx_contents w s = []" using length_contents [of "sh_tx_ring s (sw_tx_ring w)"] by simp
    with True "1.prems" took_refl show ?thesis by (simp add: drain_ring.simps)
  next
    case False
    then obtain w1 s1 n where p: "process_available clk w s = ret (w1, s1, n)"
      "(if n = 0 then ret (w1, s1) else drain_ring clk w1 s1) = ret (w', s')"
      using "1.prems"(1) by (subst (asm) drain_ring.simps) (auto simp: and_then_eq_ret)
    note t = process_available_took [OF p(1) "1.prems"(2)]
    have "tx_contents w s \<noteq> []" using False length_contents [of "sh_tx_ring s (sw_tx_ring w)"] by (auto simp: unat_eq_0)
    with t "1.prems"(2) have n: "n \<noteq> 0" by (auto simp: worker_ok_def)
    with p have d: "drain_ring clk w1 s1 = ret (w', s')" by simp
    have ok: "worker_ok w1 s1" using t by (simp add: took_def)
    from "1.IH" [OF False p(1) refl refl n d ok] t took_trans show ?thesis by (metis append_take_drop_id)
  qed
qed

text \<open>The start of a message, on each channel as if it were alone.\<close>

lemma arrival_gap_cong:
  assumes "sh_pair_buffers s ! og_pair_buffer og = sh_pair_buffers s' ! og_pair_buffer og" and "sh_tracker s = sh_tracker s'"
    and "sh_rx_ring s = sh_rx_ring s'"
  shows "arrival_gap T now s og = arrival_gap T now s' og"
  by (simp add: arrival_gap_def assms split: option.splits)

definition started :: "host_time \<Rightarrow> host_time \<Rightarrow> shared \<Rightarrow> outgoing \<Rightarrow> outgoing \<Rightarrow> shared \<Rightarrow> bool" where
  "started T now s og og' s' \<longleftrightarrow> og_wiring og' = og_wiring og \<and>
     (case arrival_gap T now s og of (gap, late, aligned) \<Rightarrow>
        channel_on_message_start gap aligned (og_channel og) (sh_pair_buffers s ! og_pair_buffer og) = Inr (own og' (sh_pair_buffers s')))"

lemma start_all_each:
  assumes "start_all T now wired ogs s = ret (ogs', s')" and "pb_wired ogs (sh_pair_buffers s)"
  shows "length ogs' = length ogs \<and> length (sh_pair_buffers s') = length (sh_pair_buffers s) \<and>
    (\<forall>j < length ogs. started T now s (ogs ! j) (ogs' ! j) s') \<and>
    (\<forall>i. i \<notin> og_pair_buffer ` set ogs \<longrightarrow> sh_pair_buffers s' ! i = sh_pair_buffers s ! i) \<and>
    sh_tx_ring s' = sh_tx_ring s \<and> sh_event_log s' = sh_event_log s \<and>
    mt_late_messages (sh_metrics s') = mt_late_messages (sh_metrics s) +
      (if wired then length (filter (\<lambda>og. fst (snd (arrival_gap T now s og))) ogs) else 0)"
  using assms
proof (induction ogs arbitrary: s ogs')
  case (Cons og ogs)
  obtain gap late aligned where g: "arrival_gap T now s og = (gap, late, aligned)" by (metis prod_cases3)
  let ?s1 = "if late \<and> wired then s\<lparr>sh_metrics := (sh_metrics s)\<lparr>mt_late_messages := mt_late_messages (sh_metrics s) + 1\<rparr>\<rparr> else s"
  have s1: "sh_pair_buffers ?s1 = sh_pair_buffers s" "sh_tracker ?s1 = sh_tracker s" "sh_rx_ring ?s1 = sh_rx_ring s"
    "sh_tx_ring ?s1 = sh_tx_ring s" "sh_event_log ?s1 = sh_event_log s"
    "mt_late_messages (sh_metrics ?s1) = mt_late_messages (sh_metrics s) + (if late \<and> wired then 1 else 0)" by simp_all
  obtain c b ogs2 where c: "channel_on_message_start gap aligned (og_channel og) (sh_pair_buffers s ! og_pair_buffer og) = Inr (c, b)"
    and rest: "start_all T now wired ogs (?s1\<lparr>sh_pair_buffers := (sh_pair_buffers s)[og_pair_buffer og := b]\<rparr>) = ret (ogs2, s')"
      "ogs' = og\<lparr>og_channel := c\<rparr> # ogs2"
    using Cons.prems(1) g by (auto simp: Let_def and_then_eq_ret lift_error_eq_ret s1(1) simp del: if_split)
  let ?s2 = "?s1\<lparr>sh_pair_buffers := (sh_pair_buffers s)[og_pair_buffer og := b]\<rparr>"
  have wired': "pb_wired ogs (sh_pair_buffers ?s2)" and fresh: "og_pair_buffer og \<notin> og_pair_buffer ` set ogs"
    and in_range: "og_pair_buffer og < length (sh_pair_buffers s)"
    using Cons.prems(2) by (auto simp: pb_wired_def)
  have slot: "sh_pair_buffers ?s2 ! og_pair_buffer x = sh_pair_buffers s ! og_pair_buffer x" if "x \<in> set ogs" for x
    using fresh that by (auto intro!: nth_list_update_neq)
  have gaps: "arrival_gap T now ?s2 x = arrival_gap T now s x" if "x \<in> set ogs" for x
    by (rule arrival_gap_cong) (use slot [OF that] s1 in simp_all)
  then have "filter (\<lambda>og. fst (snd (arrival_gap T now ?s2 og))) ogs = filter (\<lambda>og. fst (snd (arrival_gap T now s og))) ogs"
    by (intro filter_cong) simp_all
  note ih = Cons.IH [OF rest(1) wired', unfolded this]
  have "started T now s (ogs ! j) (ogs2 ! j) s'" if "j < length ogs" for j
    using ih that slot [OF nth_mem [OF that]] gaps [OF nth_mem [OF that]] by (auto simp: started_def)
  moreover have "sh_pair_buffers s' ! og_pair_buffer og = b" using ih fresh in_range by simp
  then have "started T now s og (og\<lparr>og_channel := c\<rparr>) s'" using c g by (simp add: started_def own_def)
  ultimately show ?case using ih s1 rest(2) g in_range by (auto simp: less_Suc_eq_0_disj)
qed simp

lemma tx_entry_starts:
  fixes st :: modem_state
  assumes "tx_entry clk w s = ret (v, s')" and "worker_ok w s"
  defines "now \<equiv> clk (sh_clock_reads s)" and "w' \<equiv> v\<lparr>sw_last_state := st\<rparr>"
  shows "(\<forall>j < length (sw_outgoing w). started (tx_start_bound now w s) now s (sw_outgoing w ! j) (sw_outgoing w' ! j) s') \<and>
    length (sw_outgoing w') = length (sw_outgoing w) \<and> worker_ok w' s' \<and> worker_const w' = worker_const w \<and>
    sh_tx_ring s' = sh_tx_ring s \<and> sw_samples_consumed w' = sw_samples_consumed w \<and> sh_event_log s' = sh_event_log s \<and>
    sw_tx_sequence_id w' = sw_tx_sequence_id w \<and>
    (sw_message_event_log w \<noteq> None \<longrightarrow> sw_current_msg_active w' \<and> sw_current_msg_start_samples w' = sw_samples_consumed w)"
proof -
  let ?s1 = "s\<lparr>sh_clock_reads := sh_clock_reads s + 1\<rparr>"
  define T where "T = tx_start_bound now w ?s1"
  have T: "T = tx_start_bound now w s" by (simp add: T_def tx_start_bound_def split: option.split)
  obtain ogs s2 where st: "start_all T now (sw_metrics w) (sw_outgoing w) ?s1 = ret (ogs, s2)"
    and rest: "(let w1 = w\<lparr>sw_outgoing := ogs, sw_residuals := map (\<lambda>_. []) (sw_residuals w)\<rparr>
          in if sw_message_event_log w1 = None then ret (w1, s2)
             else let (s3, t) = clock_now clk s2
                  in ret (w1\<lparr>sw_current_msg_start_time := t, sw_current_msg_start_samples := sw_samples_consumed w1,
                             sw_current_msg_active := True\<rparr>, s3)) = ret (v, s')"
    using assms(1) unfolding tx_entry_def clock_now_def Let_def case_prod_conv fst_conv snd_conv now_def [symmetric] T_def [symmetric]
    by (auto simp: and_then_eq_ret)
  have w': "sw_outgoing w' = ogs" "sw_residuals w' = map (\<lambda>_. []) (sw_residuals w)" "worker_const w' = worker_const w"
      "sw_samples_consumed w' = sw_samples_consumed w" "sw_tx_sequence_id w' = sw_tx_sequence_id w"
      "sh_pair_buffers s' = sh_pair_buffers s2" "sh_tx_ring s' = sh_tx_ring s2" "sh_event_log s' = sh_event_log s2"
      "sw_message_event_log w \<noteq> None \<longrightarrow> sw_current_msg_active w' \<and> sw_current_msg_start_samples w' = sw_samples_consumed w"
    using rest by (cases "sw_message_event_log w"; auto simp: clock_now_def worker_const_def w'_def)+
  have ok: "pb_wired (sw_outgoing w) (sh_pair_buffers s)" "sw_residuals w = replicate (length (sw_outgoing w)) []"
    "spsc_inv (sh_tx_ring s (sw_tx_ring w))" "0 < sw_raw_buf_size w" using assms(2) by (simp_all add: worker_ok_def)
  from start_all_each [OF st] ok(1) have e: "length ogs = length (sw_outgoing w)" "length (sh_pair_buffers s2) = length (sh_pair_buffers s)"
    "\<forall>j < length (sw_outgoing w). started T now (s\<lparr>sh_clock_reads := sh_clock_reads s + 1\<rparr>) (sw_outgoing w ! j) (ogs ! j) s2"
    "sh_tx_ring s2 = sh_tx_ring s" "sh_event_log s2 = sh_event_log s" by simp_all
  have started: "\<forall>j < length (sw_outgoing w). started T now s (sw_outgoing w ! j) (ogs ! j) s'"
    using e(3) w'(6) arrival_gap_cong [of "s\<lparr>sh_clock_reads := sh_clock_reads s + 1\<rparr>" _ s] by (simp add: started_def)
  have wir: "og_wiring (ogs ! j) = og_wiring (sw_outgoing w ! j)" if "j < length (sw_outgoing w)" for j
    using started that by (simp add: started_def)
  have "map og_pair_buffer ogs = map og_pair_buffer (sw_outgoing w)"
    by (intro nth_equalityI) (simp_all add: e(1) wiring_slot [OF wir])
  with ok(1) e(2) have "pb_wired ogs (sh_pair_buffers s')" by (simp add: pb_wired_map w'(6))
  with started e w' ok show ?thesis
    unfolding T by (auto simp: worker_ok_def worker_const_def map_replicate_const)
qed

text \<open>Between entry and exit the worker's turns interleave with what the others do.\<close>

datatype msg_event = Others env_act | Tick

fun msg_run :: "(nat \<Rightarrow> host_time) \<Rightarrow> msg_event list \<Rightarrow> source_worker \<Rightarrow> shared \<Rightarrow> (source_worker \<times> shared) res" where
  "msg_run clk [] w s = ret (w, s)"
| "msg_run clk (Others a # evs) w s = msg_run clk evs w (env_step w a s)"
| "msg_run clk (Tick # evs) w s = and_then (process_available clk w s) (\<lambda>(w', s', n). msg_run clk evs w' s')"

definition worker_message :: "(nat \<Rightarrow> host_time) \<Rightarrow> msg_event list \<Rightarrow> source_worker \<Rightarrow> shared \<Rightarrow> (source_worker \<times> shared) res" where
  "worker_message clk evs w s =
    and_then (tx_entry clk w s) (\<lambda>(w0, s0). and_then (msg_run clk evs (w0\<lparr>sw_last_state := ST_TX\<rparr>) s0) (\<lambda>(w1, s1). tx_exit clk w1 s1))"

text \<open>What the ring accepts meanwhile, from its fill level alone: a push is cut to the free space, a turn
  of the worker takes at most a batch.\<close>

fun accepts :: "nat \<Rightarrow> nat \<Rightarrow> nat \<Rightarrow> msg_event list \<Rightarrow> u16 list" where
  "accepts cap batch fill [] = []"
| "accepts cap batch fill (Others (Env_Push xs) # evs) =
    (let k = min (length xs) (cap - fill) in take k xs @ accepts cap batch (fill + k) evs)"
| "accepts cap batch fill (Others _ # evs) = accepts cap batch fill evs"
| "accepts cap batch fill (Tick # evs) = accepts cap batch (fill - min fill batch) evs"

fun small_pushes :: "msg_event list \<Rightarrow> bool" where
  "small_pushes [] = True"
| "small_pushes (Others (Env_Push xs) # evs) = (length xs < 2 ^ 64 \<and> small_pushes evs)"
| "small_pushes (_ # evs) = small_pushes evs"

abbreviation tx_capacity :: "source_worker \<Rightarrow> shared \<Rightarrow> nat" where
  "tx_capacity w s \<equiv> unat (rb_capacity (sh_tx_ring s (sw_tx_ring w)))"

definition ring_accepts :: "source_worker \<Rightarrow> shared \<Rightarrow> msg_event list \<Rightarrow> u16 list" where
  "ring_accepts w s evs = accepts (tx_capacity w s) (sw_raw_buf_size w) (length (tx_contents w s)) evs"

text \<open>What another thread does feeds nothing; a push appends what fits.\<close>

lemma env_step_took:
  assumes "worker_ok w s" and "small_pushes [Others a]"
  shows "took w s [] w (env_step w a s) \<and> tx_contents w (env_step w a s) = tx_contents w s @ ring_accepts w s [Others a] \<and>
    tx_capacity w (env_step w a s) = tx_capacity w s"
proof (cases a)
  case (Env_Push xs)
  have inv: "spsc_inv (sh_tx_ring s (sw_tx_ring w))" using assms(1) by (simp add: worker_ok_def)
  have len: "length xs < 2 ^ 64" using assms(2) Env_Push by simp
  note wr = spsc_write_facts [OF inv len]
  have "took w s [] w (env_step w a s)"
    using assms(1) wr Env_Push by (simp add: took_def worker_ok_def all_fed_refl as_samples_def)
  moreover have "rb_capacity (fst (spsc_write q ys)) = rb_capacity q" for q :: "u16 spsc" and ys
    by (simp add: spsc_write_def Let_def)
  ultimately show ?thesis using wr Env_Push by (simp add: ring_accepts_def Let_def)
next
  case (Env_Pull k n)
  let ?pbs = "(sh_pair_buffers s)[k := fst (read_advance n (sh_pair_buffers s ! k))]"
  have slot: "own og ?pbs = own og (sh_pair_buffers s) \<or>
      own og ?pbs = (og_channel og, fst (read_advance n (sh_pair_buffers s ! og_pair_buffer og)))" for og
    by (cases "og_pair_buffer og = k"; cases "k < length (sh_pair_buffers s)") (simp_all add: own_def list_update_beyond)
  have "fed (own og (sh_pair_buffers s)) [] (own og ?pbs)" for og
    using slot [of og] fed_read [of "og_channel og" "sh_pair_buffers s ! og_pair_buffer og" n] fed_refl by (auto simp: own_def)
  with assms(1) Env_Pull show ?thesis
    by (auto simp: took_def worker_ok_def as_samples_def all_fed_def pb_wired_def ring_accepts_def)
qed (use assms(1) in \<open>auto simp: took_def worker_ok_def all_fed_refl as_samples_def ring_accepts_def\<close>)

lemma ring_accepts_step:
  assumes "tx_contents w s' = tx_contents w s @ ring_accepts w s [Others a]" and "tx_capacity w s' = tx_capacity w s"
  shows "ring_accepts w s (Others a # evs) = ring_accepts w s [Others a] @ ring_accepts w s' evs"
  using assms by (cases a) (simp_all add: ring_accepts_def Let_def)

lemma process_available_capacity:
  "process_available clk w s = ret (w', s', n) \<Longrightarrow> tx_capacity w' s' = tx_capacity w s"
  by (auto simp: process_available_def Let_def clock_now_def case_prod_unfold and_then_eq_ret spsc_read_def split: if_splits)

lemma small_pushes_Cons: "small_pushes (e # evs) \<longleftrightarrow> small_pushes [e] \<and> small_pushes evs"
proof (cases e)
  case (Others a)
  then show ?thesis by (cases a) simp_all
qed simp

lemma msg_run_took:
  assumes "msg_run clk evs w s = ret (w', s')" and "worker_ok w s" and "small_pushes evs"
  shows "\<exists>codes. took w s codes w' s' \<and> codes @ tx_contents w' s' = tx_contents w s @ ring_accepts w s evs"
  using assms
proof (induction clk evs w s rule: msg_run.induct)
  case (1 clk w s)
  then show ?case using took_refl by (intro exI [of _ "[]"]) (auto simp: ring_accepts_def)
next
  case (2 clk a evs w s)
  have small: "small_pushes [Others a]" "small_pushes evs" using 2(4) small_pushes_Cons by blast+
  note e = env_step_took [OF 2(3) small(1)]
  have "worker_ok w (env_step w a s)" using e by (simp add: took_def)
  with "2.IH" 2(2) small(2) obtain codes where ih: "took w (env_step w a s) codes w' s'"
    "codes @ tx_contents w' s' = tx_contents w (env_step w a s) @ ring_accepts w (env_step w a s) evs" by auto
  have "took w s codes w' s'" using took_trans [OF conjunct1 [OF e] ih(1)] by simp
  moreover have "ring_accepts w s (Others a # evs) = ring_accepts w s [Others a] @ ring_accepts w (env_step w a s) evs"
    using e by (intro ring_accepts_step) simp_all
  then have "codes @ tx_contents w' s' = tx_contents w s @ ring_accepts w s (Others a # evs)"
    unfolding ih(2) using e by simp
  ultimately show ?case by (intro exI [of _ codes] conjI)
next
  case (3 clk evs w s)
  then obtain w1 s1 n where p: "process_available clk w s = ret (w1, s1, n)" "msg_run clk evs w1 s1 = ret (w', s')"
    by (auto simp: and_then_eq_ret)
  note t = process_available_took [OF p(1) 3(3)]
  have "worker_ok w1 s1" using t by (simp add: took_def)
  from "3.IH" [OF p(1) refl refl p(2) this] 3(4) obtain codes where ih: "took w1 s1 codes w' s'"
    "codes @ tx_contents w' s' = tx_contents w1 s1 @ ring_accepts w1 s1 evs" by auto
  have "took w s (take n (tx_contents w s) @ codes) w' s'" using took_trans [OF conjunct1 [OF t] ih(1)] .
  moreover have "ring_accepts w s (Tick # evs) = ring_accepts w1 s1 evs"
  proof -
    have c: "sw_tx_ring w1 = sw_tx_ring w" "sw_raw_buf_size w1 = sw_raw_buf_size w" using t by (simp_all add: took_def worker_const_def)
    have "length (tx_contents w1 s1) = length (tx_contents w s) - min (length (tx_contents w s)) (sw_raw_buf_size w)" using t by simp
    then show ?thesis using process_available_capacity [OF p(1)] c by (simp add: ring_accepts_def)
  qed
  then have "(take n (tx_contents w s) @ codes) @ tx_contents w' s' = tx_contents w s @ ring_accepts w s (Tick # evs)"
    using ih(2) t by (metis append.assoc append_take_drop_id)
  ultimately show ?case by blast
qed

text \<open>The end of a message: the ring is drained, then every channel is flushed.\<close>

lemma flush_one_empty: "flush_one og [] b = and_then (channel_on_message_end (og_channel og) b) (\<lambda>(c, b'). ret (c, [], b'))"
  by (simp add: flush_one_def)

lemma drain_and_flush_took:
  assumes "drain_and_flush clk w s = ret (w', s')" and "worker_ok w s"
  shows "\<exists>w1 s1. took w s (tx_contents w s) w1 s1 \<and> tx_contents w' s' = [] \<and> worker_ok w' s' \<and> worker_const w' = worker_const w \<and>
    msg_record w' = msg_record w \<and> sw_samples_consumed w' = sw_samples_consumed w + length (tx_contents w s) \<and>
    sh_event_log s' = sh_event_log s \<and> length (sw_outgoing w') = length (sw_outgoing w) \<and>
    (\<forall>j < length (sw_outgoing w).
       channel_on_message_end (og_channel (sw_outgoing w1 ! j)) (snd (own (sw_outgoing w1 ! j) (sh_pair_buffers s1))) =
         ret (own (sw_outgoing w' ! j) (sh_pair_buffers s')) \<and> og_wiring (sw_outgoing w' ! j) = og_wiring (sw_outgoing w ! j))"
proof -
  obtain w1 s1 ogs residuals pbs where d: "drain_ring clk w s = ret (w1, s1)"
    and v: "visit_all flush_one (sw_outgoing w1) (sw_residuals w1) (sh_pair_buffers s1) = ret (ogs, residuals, pbs)"
    and out: "w' = w1\<lparr>sw_outgoing := ogs, sw_residuals := residuals\<rparr>" "s' = s1\<lparr>sh_pair_buffers := pbs\<rparr>"
    using assms(1) by (auto simp: drain_and_flush_def and_then_eq_ret)
  note t = drain_ring_took [OF d assms(2)]
  have tk: "took w s (tx_contents w s) w1 s1" using t by simp
  have len: "length (sw_outgoing w1) = length (sw_outgoing w)" using tk by (simp add: took_def all_fed_def)
  have ok: "pb_wired (sw_outgoing w1) (sh_pair_buffers s1)" "sw_residuals w1 = replicate (length (sw_outgoing w1)) []"
    using tk by (simp_all add: took_def worker_ok_def)
  note each = visit_all_each [OF v [unfolded ok(2)] ok(1), simplified]
  have slot: "og_pair_buffer (ogs ! j) = og_pair_buffer (sw_outgoing w1 ! j)" if "j < length (sw_outgoing w1)" for j
    using each that wiring_slot by blast
  have flush: "residuals ! j = [] \<and> channel_on_message_end (og_channel (sw_outgoing w1 ! j)) (snd (own (sw_outgoing w1 ! j) (sh_pair_buffers s1))) =
      ret (own (ogs ! j) pbs) \<and> og_wiring (ogs ! j) = og_wiring (sw_outgoing w ! j)" if j: "j < length (sw_outgoing w1)" for j
  proof -
    have "flush_one (sw_outgoing w1 ! j) [] (sh_pair_buffers s1 ! og_pair_buffer (sw_outgoing w1 ! j)) =
        ret (og_channel (ogs ! j), residuals ! j, pbs ! og_pair_buffer (ogs ! j))" using each j slot [OF j] by simp
    moreover have "og_wiring (ogs ! j) = og_wiring (sw_outgoing w ! j)" using each tk j len by (simp add: took_def all_fed_def)
    ultimately show ?thesis by (auto simp: flush_one_empty and_then_eq_ret own_def)
  qed
  have "residuals = replicate (length ogs) []"
    by (intro nth_equalityI) (use each flush in auto)
  moreover have "map og_pair_buffer ogs = map og_pair_buffer (sw_outgoing w1)"
    by (intro nth_equalityI) (simp_all add: each slot)
  then have "pb_wired ogs pbs" using ok(1) each by (simp add: pb_wired_map)
  ultimately have "worker_ok w' s'" using tk out by (simp add: took_def worker_ok_def)
  moreover have "tx_contents w' s' = []" using t out by simp
  ultimately show ?thesis
    using tk out flush len each by (intro exI [of _ w1] exI [of _ s1]) (auto simp: took_def worker_const_def msg_record_def)
qed

lemma tx_exit_ends:
  assumes "tx_exit clk w s = ret (w', s')"
  shows "\<exists>w1 s1 t. drain_and_flush clk w s = ret (w1, s1) \<and> sw_outgoing w' = sw_outgoing w1 \<and> sh_pair_buffers s' = sh_pair_buffers s1 \<and>
    sh_tx_ring s' = sh_tx_ring s1 \<and> sw_samples_consumed w' = sw_samples_consumed w1 \<and> worker_const w' = worker_const w1 \<and>
    sh_runtime s' = sh_runtime s1 \<and> sw_residuals w' = sw_residuals w1 \<and>
    (case sw_message_event_log w1 of None \<Rightarrow> sh_event_log s' = sh_event_log s1 \<and> sw_tx_sequence_id w' = sw_tx_sequence_id w1
     | Some l \<Rightarrow> if \<not> sw_current_msg_active w1 then sh_event_log s' = sh_event_log s1 \<and> sw_tx_sequence_id w' = sw_tx_sequence_id w1
        else \<not> sw_current_msg_active w' \<and> sw_tx_sequence_id w' = sw_tx_sequence_id w1 + 1 \<and>
          sh_event_log s' = (sh_event_log s1)(l := el_record \<lparr>ev_modem_id = sw_source_id w1, ev_direction = Dir_Tx,
            ev_start_ns = steady_ns (sw_current_msg_start_time w1), ev_end_ns = steady_ns t,
            ev_sample_count = sw_samples_consumed w1 - sw_current_msg_start_samples w1,
            ev_sequence_id = sw_tx_sequence_id w1\<rparr> (sh_event_log s1 l)))"
proof -
  obtain w1 s1 where d: "drain_and_flush clk w s = ret (w1, s1)" using assms by (auto simp: tx_exit_def and_then_eq_ret)
  show ?thesis
    using assms d by (intro exI [of _ w1] exI [of _ s1] exI [of _ "clk (sh_clock_reads s1)"], cases "sw_message_event_log w1"; cases "sw_current_msg_active w1")
      (auto simp: tx_exit_def clock_now_def worker_const_def Let_def)
qed

section \<open>Properties\<close>

text \<open>What one channel goes through during a message, on its own: its start at the arrival-aligned gap,
  then \<open>xs\<close> in some blocks with the receiver reading in between, then its end.\<close>

definition lone_message :: "host_time \<Rightarrow> host_time \<Rightarrow> shared \<Rightarrow> outgoing \<Rightarrow> real list \<Rightarrow> channel \<times> pair_buffer \<Rightarrow> bool" where
  "lone_message T now s og xs p \<longleftrightarrow> (\<exists>gap late aligned c0 b0 evs out c1 b1. arrival_gap T now s og = (gap, late, aligned) \<and>
     channel_on_message_start gap aligned (og_channel og) (sh_pair_buffers s ! og_pair_buffer og) = Inr (c0, b0) \<and>
     channel_run evs c0 b0 = ret (c1, b1, out) \<and> feeds evs = xs \<and> channel_on_message_end c1 b1 = ret p)"

lemma worker_message_story:
  assumes "worker_message clk evs w s = ret (w', s')" and "worker_ok w s" and "small_pushes evs"
  defines "now \<equiv> clk (sh_clock_reads s)" and "codes \<equiv> tx_contents w s @ ring_accepts w s evs"
  shows "tx_contents w' s' = [] \<and> sw_samples_consumed w' = sw_samples_consumed w + length codes \<and>
    worker_ok w' s' \<and> worker_const w' = worker_const w \<and> length (sw_outgoing w') = length (sw_outgoing w) \<and>
    (\<forall>j < length (sw_outgoing w). lone_message (tx_start_bound now w s) now s (sw_outgoing w ! j) (as_samples w codes)
       (own (sw_outgoing w' ! j) (sh_pair_buffers s')) \<and> og_wiring (sw_outgoing w' ! j) = og_wiring (sw_outgoing w ! j)) \<and>
    (\<forall>l. sw_message_event_log w = Some l \<longrightarrow> sw_tx_sequence_id w' = sw_tx_sequence_id w + 1 \<and>
       (\<exists>t0 t1. sh_event_log s' = (sh_event_log s)(l := el_record \<lparr>ev_modem_id = sw_source_id w, ev_direction = Dir_Tx, ev_start_ns = t0,
          ev_end_ns = t1, ev_sample_count = length codes, ev_sequence_id = sw_tx_sequence_id w\<rparr> (sh_event_log s l))))"
proof -
  obtain v s0 w1 s1 where m: "tx_entry clk w s = ret (v, s0)" "msg_run clk evs (v\<lparr>sw_last_state := ST_TX\<rparr>) s0 = ret (w1, s1)"
      "tx_exit clk w1 s1 = ret (w', s')"
    using assms(1) by (auto simp: worker_message_def and_then_eq_ret)
  define w0 where "w0 = v\<lparr>sw_last_state := ST_TX\<rparr>"
  note e = tx_entry_starts [OF m(1) assms(2), of ST_TX, folded now_def w0_def]
  note run = m(2) [folded w0_def]
  have ok0: "worker_ok w0 s0" using e by simp
  from msg_run_took [OF run ok0 assms(3)] obtain mid where r: "took w0 s0 mid w1 s1"
    "mid @ tx_contents w1 s1 = tx_contents w0 s0 @ ring_accepts w0 s0 evs" by blast
  have "ring_accepts w0 s0 evs = ring_accepts w s evs" using e by (simp add: ring_accepts_def worker_const_def)
  then have codes_eq: "codes = mid @ tx_contents w1 s1" using r(2) e by (simp add: codes_def worker_const_def)
  have ok1: "worker_ok w1 s1" using r(1) by (simp add: took_def)
  from tx_exit_ends [OF m(3)] obtain w2 s2 t where x: "drain_and_flush clk w1 s1 = ret (w2, s2)" "sw_outgoing w' = sw_outgoing w2"
    "sh_pair_buffers s' = sh_pair_buffers s2" "sh_tx_ring s' = sh_tx_ring s2" "sw_samples_consumed w' = sw_samples_consumed w2"
    "worker_const w' = worker_const w2" "sw_residuals w' = sw_residuals w2"
    and log: "case sw_message_event_log w2 of None \<Rightarrow> sh_event_log s' = sh_event_log s2 \<and> sw_tx_sequence_id w' = sw_tx_sequence_id w2
     | Some l \<Rightarrow> if \<not> sw_current_msg_active w2 then sh_event_log s' = sh_event_log s2 \<and> sw_tx_sequence_id w' = sw_tx_sequence_id w2
        else \<not> sw_current_msg_active w' \<and> sw_tx_sequence_id w' = sw_tx_sequence_id w2 + 1 \<and>
          sh_event_log s' = (sh_event_log s2)(l := el_record \<lparr>ev_modem_id = sw_source_id w2, ev_direction = Dir_Tx,
            ev_start_ns = steady_ns (sw_current_msg_start_time w2), ev_end_ns = steady_ns t,
            ev_sample_count = sw_samples_consumed w2 - sw_current_msg_start_samples w2,
            ev_sequence_id = sw_tx_sequence_id w2\<rparr> (sh_event_log s2 l))" by blast
  from drain_and_flush_took [OF x(1) ok1] obtain w3 s3 where d: "took w1 s1 (tx_contents w1 s1) w3 s3" "tx_contents w2 s2 = []"
    "worker_ok w2 s2" "worker_const w2 = worker_const w1" "msg_record w2 = msg_record w1"
    "sw_samples_consumed w2 = sw_samples_consumed w1 + length (tx_contents w1 s1)" "sh_event_log s2 = sh_event_log s1"
    "length (sw_outgoing w2) = length (sw_outgoing w1)"
    "\<And>j. j < length (sw_outgoing w1) \<Longrightarrow> channel_on_message_end (og_channel (sw_outgoing w3 ! j))
       (snd (own (sw_outgoing w3 ! j) (sh_pair_buffers s3))) = ret (own (sw_outgoing w2 ! j) (sh_pair_buffers s2)) \<and>
       og_wiring (sw_outgoing w2 ! j) = og_wiring (sw_outgoing w1 ! j)" by blast
  have all: "took w0 s0 codes w3 s3" unfolding codes_eq by (rule took_trans [OF r(1) d(1)])
  have const: "worker_const w0 = worker_const w" "worker_const w1 = worker_const w" "worker_const w2 = worker_const w" "worker_const w' = worker_const w"
    using e r(1) d(4) x(6) by (simp_all add: took_def)
  have len: "length (sw_outgoing w0) = length (sw_outgoing w)" "length (sw_outgoing w1) = length (sw_outgoing w)"
    using e r(1) by (simp_all add: took_def all_fed_def)
  have consumed: "sw_samples_consumed w' = sw_samples_consumed w + length codes"
    using e r(1) d(6) x(5) by (simp add: took_def codes_eq)
  have lone: "lone_message (tx_start_bound now w s) now s (sw_outgoing w ! j) (as_samples w codes) (own (sw_outgoing w' ! j) (sh_pair_buffers s'))"
    if j: "j < length (sw_outgoing w)" for j
  proof -
    obtain gap late aligned where g: "arrival_gap (tx_start_bound now w s) now s (sw_outgoing w ! j) = (gap, late, aligned)" by (metis prod_cases3)
    have st: "channel_on_message_start gap aligned (og_channel (sw_outgoing w ! j)) (sh_pair_buffers s ! og_pair_buffer (sw_outgoing w ! j)) =
        Inr (own (sw_outgoing w0 ! j) (sh_pair_buffers s0))" using e j g by (auto simp: started_def)
    have "fed (own (sw_outgoing w0 ! j) (sh_pair_buffers s0)) (as_samples w codes) (own (sw_outgoing w3 ! j) (sh_pair_buffers s3))"
      using all j len(1) as_samples_const [OF const(1)] by (simp add: took_def all_fed_def)
    then obtain evs' out where "channel_run evs' (fst (own (sw_outgoing w0 ! j) (sh_pair_buffers s0))) (snd (own (sw_outgoing w0 ! j) (sh_pair_buffers s0))) =
        ret (fst (own (sw_outgoing w3 ! j) (sh_pair_buffers s3)), snd (own (sw_outgoing w3 ! j) (sh_pair_buffers s3)), out)" "feeds evs' = as_samples w codes"
      by (auto simp: fed_def)
    moreover have "channel_on_message_end (fst (own (sw_outgoing w3 ! j) (sh_pair_buffers s3))) (snd (own (sw_outgoing w3 ! j) (sh_pair_buffers s3))) =
        ret (own (sw_outgoing w' ! j) (sh_pair_buffers s'))" using d(9) [of j] j len x(2,3) by (simp add: own_def)
    ultimately show ?thesis unfolding lone_message_def using g st
      by (intro exI conjI) (assumption | simp add: prod_eq_iff)+
  qed
  have wire: "og_wiring (sw_outgoing w' ! j) = og_wiring (sw_outgoing w ! j)" if j: "j < length (sw_outgoing w)" for j
    using d(9) [of j] j len x(2) r(1) e by (simp add: took_def all_fed_def started_def)
  have event: "sw_tx_sequence_id w' = sw_tx_sequence_id w + 1 \<and>
       (\<exists>t0 t1. sh_event_log s' = (sh_event_log s)(l := el_record \<lparr>ev_modem_id = sw_source_id w, ev_direction = Dir_Tx, ev_start_ns = t0,
          ev_end_ns = t1, ev_sample_count = length codes, ev_sequence_id = sw_tx_sequence_id w\<rparr> (sh_event_log s l)))"
    if l: "sw_message_event_log w = Some l" for l
  proof -
    have "sw_message_event_log w2 = Some l" "sw_source_id w2 = sw_source_id w" using const(3) l by (simp_all add: worker_const_def)
    moreover have "msg_record w2 = msg_record w0" using d(5) r(1) by (simp add: took_def)
    moreover have "sw_current_msg_active w0" "sw_current_msg_start_samples w0 = sw_samples_consumed w" "sw_tx_sequence_id w0 = sw_tx_sequence_id w"
      using e l by simp_all
    moreover have "sh_event_log s2 = sh_event_log s" using d(7) r(1) e by (simp add: took_def)
    ultimately show ?thesis using log consumed x(5) by (auto simp: msg_record_def)
  qed
  have empty: "tx_contents w' s' = []" using d(2) x(4,6) const by (simp add: worker_const_def)
  have ok': "worker_ok w' s'" using d(3) x by (simp add: worker_ok_def worker_const_def)
  have len': "length (sw_outgoing w') = length (sw_outgoing w)" using x(2) d(8) len(2) by simp
  show ?thesis
    by (intro conjI allI impI)
      (rule empty consumed ok' const(4) len' lone wire conjunct1 [OF event] conjunct2 [OF event]; assumption)+
qed

end
