(* ===== verification/Worker_Run.thy ===== *)
theory Worker_Run
  imports Worker_Message
begin

text \<open>
  The loop of a source worker. Its turns over one message are that message and its idle turns change nothing.
  What any run leaves in the event log is read off the states its polls see (\<open>polled\<close>, \<open>tx_exits\<close>). With
  tap-based channels every run returns.
\<close>

section \<open>A message as the loop makes it\<close>

text \<open>The turns of one message: the first sees the modem in TX, the last sees it in another state, and in
  between the state does not change.\<close>

type_synonym turns = "(env_act list \<times> env_act list) list"

fun keeps_state :: "env_act list \<Rightarrow> bool" where
  "keeps_state [] = True"
| "keeps_state (Env_State st # acts) = False"
| "keeps_state (_ # acts) = keeps_state acts"

definition keeping_turns :: "turns \<Rightarrow> bool" where
  "keeping_turns ts = list_all (\<lambda>(before, between). keeps_state before \<and> keeps_state between) ts"

definition message_turns :: "env_act list \<Rightarrow> env_act list \<Rightarrow> turns \<Rightarrow> env_act list \<Rightarrow> modem_state \<Rightarrow> turns" where
  "message_turns before between mids after st = (before @ [Env_State ST_TX], between) # mids @ [(after @ [Env_State st], [])]"

fun turn_events :: "turns \<Rightarrow> msg_event list" where
  "turn_events [] = []"
| "turn_events ((before, between) # ts) = map Others (before @ between) @ Tick # turn_events ts"

definition message_events :: "env_act list \<Rightarrow> turns \<Rightarrow> env_act list \<Rightarrow> modem_state \<Rightarrow> msg_event list" where
  "message_events between mids after st = map Others between @ Tick # turn_events mids @ map Others (after @ [Env_State st])"

lemma env_steps_simps [simp]: "env_steps w [] s = s" "env_steps w (a # acts) s = env_steps w acts (env_step w a s)"
  "env_steps w (acts @ acts') s = env_steps w acts' (env_steps w acts s)"
  by (simp_all add: env_steps_def)

lemma keeping_live: "keeps_state acts \<Longrightarrow> live_state w (env_steps v acts s) = live_state w s"
  by (induction acts arbitrary: s rule: keeps_state.induct) (simp_all add: live_state_def)

lemma live_after_state [simp]: "live_state w (env_steps w (acts @ [Env_State st]) s) = st"
  by (simp add: live_state_def)

lemma msg_run_append: "msg_run clk (xs @ ys) w s = and_then (msg_run clk xs w s) (\<lambda>(w, s). msg_run clk ys w s)"
proof (induction clk xs w s rule: msg_run.induct)
  case (3 clk evs w s)
  then show ?case by (auto simp: and_then_def split: sum.splits option.splits prod.splits)
qed simp_all

lemma msg_run_others: "msg_run clk (map Others acts @ evs) w s = msg_run clk evs w (env_steps w acts s)"
  by (induction acts arbitrary: s) simp_all

lemma sw_loop_append: "sw_loop clk (xs @ ys) w s = and_then (sw_loop clk xs w s) (\<lambda>(w, s). sw_loop clk ys w s)"
proof (induction clk xs w s rule: sw_loop.induct)
  case (2 clk before between sched w s)
  then show ?case by (auto simp: and_then_def split: sum.splits option.splits prod.splits)
qed simp

lemma process_available_frame:
  "process_available clk w s = ret (w', s', n) \<Longrightarrow>
    sw_last_state w' = sw_last_state w \<and> sw_runtime w' = sw_runtime w \<and> sh_runtime s' = sh_runtime s"
  by (auto simp: process_available_def Let_def clock_now_def case_prod_unfold and_then_eq_ret split: if_splits)

lemma drain_ring_frame:
  "drain_ring clk w s = ret (w', s') \<Longrightarrow> sw_runtime w' = sw_runtime w \<and> sh_runtime s' = sh_runtime s"
proof (induction clk w s rule: drain_ring.induct)
  case (1 clk w s)
  show ?case
  proof (cases "spsc_available_read (sh_tx_ring s (sw_tx_ring w)) = 0")
    case True
    with "1.prems" show ?thesis by (simp add: drain_ring.simps)
  next
    case False
    then obtain w1 s1 n where p: "process_available clk w s = ret (w1, s1, n)"
      "(if n = 0 then ret (w1, s1) else drain_ring clk w1 s1) = ret (w', s')"
      using "1.prems" by (subst (asm) drain_ring.simps) (auto simp: and_then_eq_ret)
    with "1.IH" [OF False p(1) refl refl] process_available_frame [OF p(1)] show ?thesis by (auto split: if_splits)
  qed
qed

lemma drain_and_flush_frame:
  "drain_and_flush clk w s = ret (w', s') \<Longrightarrow> sw_runtime w' = sw_runtime w \<and> sh_runtime s' = sh_runtime s"
  by (auto simp: drain_and_flush_def and_then_eq_ret dest!: drain_ring_frame)

lemma tx_exit_frame: "tx_exit clk w s = ret (w', s') \<Longrightarrow> sw_runtime w' = sw_runtime w \<and> sh_runtime s' = sh_runtime s"
  by (drule tx_exit_ends) (auto simp: worker_const_def dest!: drain_and_flush_frame)

lemma start_all_frame: "start_all T now wired ogs s = ret (ogs', s') \<Longrightarrow> sh_runtime s' = sh_runtime s"
proof (induction ogs arbitrary: s ogs')
  case (Cons og ogs)
  obtain gap late aligned where g: "arrival_gap T now s og = (gap, late, aligned)" by (metis prod_cases3)
  from Cons.prems g Cons.IH show ?case
    by (cases "late \<and> wired") (fastforce simp: Let_def and_then_eq_ret)+
qed simp

lemma tx_entry_frame:
  assumes "tx_entry clk w s = ret (w', s')"
  shows "sw_runtime w' = sw_runtime w \<and> sh_runtime s' = sh_runtime s"
proof -
  let ?s1 = "fst (clock_now clk s)" and ?now = "snd (clock_now clk s)"
  obtain ogs s2 where st: "start_all (tx_start_bound ?now w ?s1) ?now (sw_metrics w) (sw_outgoing w) ?s1 = ret (ogs, s2)"
    using assms by (cases "start_all (tx_start_bound ?now w ?s1) ?now (sw_metrics w) (sw_outgoing w) ?s1")
      (auto simp: tx_entry_def case_prod_unfold Let_def and_then_eq_ret)
  from start_all_frame [OF st] have "sh_runtime s2 = sh_runtime s" by (simp add: clock_now_def)
  with assms st show ?thesis
    by (cases "sw_message_event_log w") (auto simp: tx_entry_def case_prod_unfold Let_def clock_now_def)
qed

lemma tx_turn:
  assumes "sw_last_state w = ST_TX" and "live_state w s = ST_TX" and "keeps_state before" and "keeps_state between"
  shows "sw_iteration clk before between w s =
    and_then (process_available clk w (env_steps w (before @ between) s)) (\<lambda>(w', s', n). ret (w', s', n = 0))"
  using assms by (simp add: sw_iteration_def poll_state_edges_def keeping_live Let_def case_prod_unfold)

lemma keeping_loop:
  assumes "keeping_turns ts" and "sw_last_state w = ST_TX" and "live_state w s = ST_TX"
  shows "sw_loop clk ts w s = msg_run clk (turn_events ts) w s \<and>
    (\<forall>w' s'. sw_loop clk ts w s = ret (w', s') \<longrightarrow> sw_last_state w' = ST_TX \<and> live_state w' s' = ST_TX)"
  using assms
proof (induction clk ts w s rule: sw_loop.induct)
  case (2 clk before between ts w s)
  have q: "keeps_state before" "keeps_state between" "keeping_turns ts" using "2.prems"(1) by (simp_all add: keeping_turns_def)
  note turn = tx_turn [OF "2.prems"(2,3) q(1,2), of clk]
  let ?s = "env_steps w (before @ between) s"
  have live: "live_state w ?s = ST_TX" using q "2.prems"(3) by (simp add: keeping_live)
  show ?case
  proof (cases "process_available clk w ?s")
    case (Inr r)
    show ?thesis
    proof (cases r)
      case (Some r')
      obtain w1 s1 n where r': "process_available clk w ?s = ret (w1, s1, n)" using Inr Some by (cases r') auto
      have it: "sw_iteration clk before between w s = ret (w1, s1, n = 0)" using turn r' by simp
      from process_available_frame [OF r'] live "2.prems"(2) have "sw_last_state w1 = ST_TX" "live_state w1 s1 = ST_TX"
        by (simp_all add: live_state_def)
      from "2.IH" [OF it refl refl q(3) this] it r' show ?thesis by (simp add: msg_run_others)
    qed (use Inr turn in \<open>simp add: msg_run_others\<close>)
  qed (use turn in \<open>simp add: msg_run_others\<close>)
qed simp

lemma exit_turn:
  assumes "sw_iteration clk before [] w s = ret (w', s', b)" and "env_steps w before s = s1" and "live_state w s1 = st"
    and "st \<noteq> ST_TX" and "sw_last_state w = ST_TX"
  shows "\<exists>v. tx_exit clk w s1 = ret (v, s') \<and> w' = v\<lparr>sw_last_state := st\<rparr> \<and> live_state w' s' = st"
proof -
  have poll: "poll_state_edges clk w s1 = and_then (tx_exit clk w s1) (\<lambda>(w', s'). ret (w'\<lparr>sw_last_state := st\<rparr>, s'))"
    using assms(3-5) by (simp add: poll_state_edges_def)
  obtain v s2 n where v: "tx_exit clk w s1 = ret (v, s2)" "(if live_state (v\<lparr>sw_last_state := st\<rparr>) s2 = ST_TX
        then process_available clk (v\<lparr>sw_last_state := st\<rparr>) s2 else ret (v\<lparr>sw_last_state := st\<rparr>, s2, 0)) = ret (w', s', n)"
    using assms(1) unfolding sw_iteration_def assms(2) poll by (auto simp: and_then_eq_ret Let_def simp del: if_split)
  have "live_state (v\<lparr>sw_last_state := st\<rparr>) s2 = st" using tx_exit_frame [OF v(1)] assms(3) by (simp add: live_state_def)
  with v assms(4) show ?thesis by auto
qed

lemma entry_turn:
  assumes "sw_iteration clk before between w s = ret (w', s', b)" and "env_steps w before s = s1" and "live_state w s1 = ST_TX"
    and "sw_last_state w \<noteq> ST_TX" and "keeps_state between"
  shows "\<exists>v s2 n. tx_entry clk w s1 = ret (v, s2) \<and>
    process_available clk (v\<lparr>sw_last_state := ST_TX\<rparr>) (env_steps (v\<lparr>sw_last_state := ST_TX\<rparr>) between s2) = ret (w', s', n) \<and>
    sw_last_state w' = ST_TX \<and> live_state w' s' = ST_TX"
proof -
  let ?tx = "\<lambda>v. v\<lparr>sw_last_state := ST_TX\<rparr>"
  have poll: "poll_state_edges clk w s1 = and_then (tx_entry clk w s1) (\<lambda>(w', s'). ret (?tx w', s'))"
    using assms(3,4) by (simp add: poll_state_edges_def)
  obtain v s2 n where v: "tx_entry clk w s1 = ret (v, s2)" "(if live_state (?tx v) (env_steps (?tx v) between s2) = ST_TX
        then process_available clk (?tx v) (env_steps (?tx v) between s2) else ret (?tx v, env_steps (?tx v) between s2, 0)) = ret (w', s', n)"
    using assms(1) unfolding sw_iteration_def assms(2) poll by (auto simp: and_then_eq_ret Let_def simp del: if_split)
  have live: "live_state (?tx v) (env_steps (?tx v) between s2) = ST_TX"
    unfolding keeping_live [OF assms(5)] using tx_entry_frame [OF v(1)] assms(3) by (simp add: live_state_def)
  with v(2) have p: "process_available clk (?tx v) (env_steps (?tx v) between s2) = ret (w', s', n)" by simp
  from process_available_frame [OF p] live have "sw_last_state w' = ST_TX" "live_state w' s' = ST_TX"
    by (simp_all add: live_state_def)
  with v(1) p show ?thesis by blast
qed

text \<open>The loop over the turns of a message is the message.\<close>

lemma loop_message:
  assumes "sw_loop clk (message_turns before between mids after st) w s = ret (w', s')"
    and "sw_last_state w \<noteq> ST_TX" and "st \<noteq> ST_TX" and "keeps_state between" and "keeping_turns mids"
  defines "s0 \<equiv> env_steps w (before @ [Env_State ST_TX]) s"
  shows "\<exists>v. worker_message clk (message_events between mids after st) w s0 = ret (v, s') \<and> w' = v\<lparr>sw_last_state := st\<rparr> \<and>
    live_state w' s' = st"
proof -
  obtain w1 s1 b w2 s2 where l: "sw_iteration clk (before @ [Env_State ST_TX]) between w s = ret (w1, s1, b)"
    "sw_loop clk mids w1 s1 = ret (w2, s2)" "sw_loop clk [(after @ [Env_State st], [])] w2 s2 = ret (w', s')"
    using assms(1) by (auto simp: message_turns_def sw_loop_append and_then_eq_ret)
  have live: "live_state w s0 = ST_TX" unfolding s0_def by (rule live_after_state)
  obtain v0 s01 n where e: "tx_entry clk w s0 = ret (v0, s01)"
    and p: "process_available clk (v0\<lparr>sw_last_state := ST_TX\<rparr>) (env_steps (v0\<lparr>sw_last_state := ST_TX\<rparr>) between s01) = ret (w1, s1, n)"
    and tx1: "sw_last_state w1 = ST_TX" "live_state w1 s1 = ST_TX"
    using entry_turn [OF l(1) meta_eq_to_obj_eq [OF s0_def, symmetric] live assms(2,4)] by blast
  note q = keeping_loop [OF assms(5) tx1, of clk]
  have run2: "msg_run clk (turn_events mids) w1 s1 = ret (w2, s2)" and last2: "sw_last_state w2 = ST_TX" using q l(2) by auto
  let ?s3 = "env_steps w2 (after @ [Env_State st]) s2"
  have run: "msg_run clk (message_events between mids after st) (v0\<lparr>sw_last_state := ST_TX\<rparr>) s01 = ret (w2, ?s3)"
    using p run2 by (simp add: message_events_def msg_run_others msg_run_append [where xs = "turn_events mids"]
        msg_run_others [where evs = "[]", simplified])
  obtain b' where "sw_iteration clk (after @ [Env_State st]) [] w2 s2 = ret (w', s', b')"
    using l(3) by (auto simp: and_then_eq_ret)
  from exit_turn [OF this refl live_after_state assms(3) last2]
  obtain v where "tx_exit clk w2 ?s3 = ret (v, s')" "w' = v\<lparr>sw_last_state := st\<rparr>" "live_state w' s' = st" by blast
  with e run show ?thesis by (intro exI [of _ v]) (simp add: worker_message_def)
qed

lemma env_steps_took: "worker_ok w s \<Longrightarrow> small_pushes (map Others acts) \<Longrightarrow> took w s [] w (env_steps w acts s)"
proof (induction acts arbitrary: s)
  case (Cons a acts)
  have small: "small_pushes [Others a]" "small_pushes (map Others acts)"
    using Cons.prems(2) small_pushes_Cons [of "Others a" "map Others acts"] by simp_all
  have t: "took w s [] w (env_step w a s)" using env_step_took [OF Cons.prems(1) small(1)] by simp
  then have "worker_ok w (env_step w a s)" by (simp add: took_def)
  from took_trans [OF t Cons.IH [OF this small(2)]] show ?case by simp
qed (simp add: took_refl)

section \<open>What a run logs\<close>

text \<open>The states the polls of a run see, from the acts of the other threads alone: the state at the poll of each
  turn and at the last poll.\<close>

fun state_after :: "env_act list \<Rightarrow> modem_state \<Rightarrow> modem_state" where
  "state_after [] st = st"
| "state_after (Env_State st' # acts) st = state_after acts st'"
| "state_after (_ # acts) st = state_after acts st"

fun polled :: "turns \<Rightarrow> env_act list \<Rightarrow> modem_state \<Rightarrow> modem_state list" where
  "polled [] final st = [state_after final st]"
| "polled ((before, between) # ts) final st =
    (let st1 = state_after before st in st1 # polled ts final (state_after between st1))"

text \<open>The transmissions whose end a poll sees.\<close>

fun tx_exits :: "modem_state list \<Rightarrow> nat" where
  "tx_exits (st # st' # sts) = (if st = ST_TX \<and> st' \<noteq> ST_TX then 1 else 0) + tx_exits (st' # sts)"
| "tx_exits _ = 0"

text \<open>Whether some turn sees TX at its second reading but not at its poll.\<close>

fun enters_between :: "turns \<Rightarrow> modem_state \<Rightarrow> bool" where
  "enters_between [] st = False"
| "enters_between ((before, between) # ts) st =
    (let st1 = state_after before st; st2 = state_after between st1
     in st1 \<noteq> ST_TX \<and> st2 = ST_TX \<or> enters_between ts st2)"

lemma live_after: "live_state w (env_steps w acts s) = state_after acts (live_state w s)"
proof (induction acts "live_state w s" arbitrary: s rule: state_after.induct)
  case (2 st' acts)
  then show ?case using "2.hyps" [of "env_step w (Env_State st') s"] by (simp add: live_state_def)
qed (simp_all add: live_state_def)

lemma others_log: "sh_event_log (env_steps w acts s) = sh_event_log s"
proof (induction acts arbitrary: s)
  case (Cons a acts)
  have "sh_event_log (env_step w a s) = sh_event_log s" by (cases a) simp_all
  with Cons show ?case by simp
qed simp

text \<open>Reading and feeding touch neither the log nor the record of the open message.\<close>

definition fed_only :: "source_worker \<Rightarrow> shared \<Rightarrow> source_worker \<Rightarrow> shared \<Rightarrow> bool" where
  "fed_only w s w' s' \<longleftrightarrow> worker_const w' = worker_const w \<and> msg_record w' = msg_record w \<and> sw_last_state w' = sw_last_state w \<and>
     sw_samples_consumed w \<le> sw_samples_consumed w' \<and> sh_event_log s' = sh_event_log s \<and> sh_runtime s' = sh_runtime s"

lemma process_feeds:
  assumes "process_available clk w s = ret (w', s', n)"
  shows "fed_only w s w' s'"
proof (cases "unat (spsc_available_read (sh_tx_ring s (sw_tx_ring w))) = 0")
  case True
  with assms show ?thesis by (simp add: process_available_def fed_only_def)
next
  case False
  let ?r = "spsc_read (sh_tx_ring s (sw_tx_ring w)) (of_nat (cmin (unat (spsc_available_read (sh_tx_ring s (sw_tx_ring w)))) (sw_raw_buf_size w)))"
  show ?thesis
  proof (cases "snd ?r = []")
    case True
    with False assms show ?thesis by (auto simp: process_available_def Let_def clock_now_def case_prod_unfold fed_only_def)
  next
    case ne: False
    from assms False ne show ?thesis
      by (auto simp: process_available_def Let_def clock_now_def case_prod_unfold and_then_eq_ret fed_only_def worker_const_def msg_record_def)
  qed
qed

lemma fed_only_trans: "fed_only w s w1 s1 \<Longrightarrow> fed_only w1 s1 w2 s2 \<Longrightarrow> fed_only w s w2 s2"
  by (simp add: fed_only_def)

lemma drain_feeds: "drain_ring clk w s = ret (w', s') \<Longrightarrow> fed_only w s w' s'"
proof (induction clk w s rule: drain_ring.induct)
  case (1 clk w s)
  show ?case
  proof (cases "spsc_available_read (sh_tx_ring s (sw_tx_ring w)) = 0")
    case True
    with "1.prems" show ?thesis by (simp add: drain_ring.simps fed_only_def)
  next
    case False
    then obtain w1 s1 n where p: "process_available clk w s = ret (w1, s1, n)"
      "(if n = 0 then ret (w1, s1) else drain_ring clk w1 s1) = ret (w', s')"
      using "1.prems" by (subst (asm) drain_ring.simps) (auto simp: and_then_eq_ret)
    with "1.IH" [OF False p(1) refl refl] process_feeds [OF p(1)] show ?thesis
      by (cases "n = 0") (auto intro: fed_only_trans)
  qed
qed

lemma flush_feeds: "drain_and_flush clk w s = ret (w', s') \<Longrightarrow> fed_only w s w' s'"
  by (auto simp: drain_and_flush_def and_then_eq_ret fed_only_def worker_const_def msg_record_def dest!: drain_feeds)

lemma start_all_log: "start_all T now wired ogs s = ret (ogs', s') \<Longrightarrow> sh_event_log s' = sh_event_log s"
proof (induction ogs arbitrary: s ogs')
  case (Cons og ogs)
  obtain gap late aligned where g: "arrival_gap T now s og = (gap, late, aligned)" by (metis prod_cases3)
  from Cons.prems g Cons.IH show ?case
    by (cases "late \<and> wired") (fastforce simp: Let_def and_then_eq_ret)+
qed simp

lemma entry_opens:
  assumes "tx_entry clk w s = ret (w', s')" and "sw_message_event_log w = Some l"
  shows "worker_const w' = worker_const w \<and> sw_tx_sequence_id w' = sw_tx_sequence_id w \<and> sw_current_msg_active w' \<and>
    sw_current_msg_start_samples w' = sw_samples_consumed w \<and> sw_samples_consumed w' = sw_samples_consumed w \<and>
    sh_event_log s' = sh_event_log s"
proof -
  let ?s1 = "fst (clock_now clk s)" and ?now = "snd (clock_now clk s)"
  obtain ogs s2 where st: "start_all (tx_start_bound ?now w ?s1) ?now (sw_metrics w) (sw_outgoing w) ?s1 = ret (ogs, s2)"
    using assms(1) by (cases "start_all (tx_start_bound ?now w ?s1) ?now (sw_metrics w) (sw_outgoing w) ?s1")
      (auto simp: tx_entry_def case_prod_unfold Let_def and_then_eq_ret)
  from start_all_log [OF st] have "sh_event_log s2 = sh_event_log s" by (simp add: clock_now_def)
  with assms st show ?thesis
    by (auto simp: tx_entry_def case_prod_unfold Let_def clock_now_def worker_const_def)
qed

text \<open>A record of a transmitted message, with its number.\<close>

definition tx_event :: "source_worker \<Rightarrow> nat \<Rightarrow> message_event \<Rightarrow> bool" where
  "tx_event w n ev \<longleftrightarrow> ev_modem_id ev = sw_source_id w \<and> ev_direction ev = Dir_Tx \<and> ev_sequence_id ev = n"

text \<open>The books of a run that began at \<open>w0\<close> and \<open>s0\<close> with log \<open>l\<close>: the events \<open>evs\<close> are written, and \<open>out\<close>
  samples belong to none of them nor to the message that is open while the last poll saw TX.\<close>

definition booked :: "source_worker \<Rightarrow> shared \<Rightarrow> nat \<Rightarrow> message_event list \<Rightarrow> nat \<Rightarrow> source_worker \<Rightarrow> shared \<Rightarrow> bool" where
  "booked w0 s0 l evs out w s \<longleftrightarrow> worker_const w = worker_const w0 \<and> sw_message_event_log w0 = Some l \<and> el_open (sh_event_log s l) \<and>
     list_all2 (tx_event w0) [sw_tx_sequence_id w0 ..< sw_tx_sequence_id w0 + length evs] evs \<and>
     sw_tx_sequence_id w = sw_tx_sequence_id w0 + length evs \<and>
     el_text (sh_event_log s l) = el_text (sh_event_log s0 l) @ concat (map event_line evs) \<and>
     (let logged = sw_samples_consumed w0 + sum_list (map ev_sample_count evs) + out
      in if sw_last_state w = ST_TX
         then sw_current_msg_active w \<and> sw_current_msg_start_samples w = logged \<and> logged \<le> sw_samples_consumed w
         else sw_samples_consumed w = logged)"

lemma booked_open: "booked w0 s0 l evs out w s \<Longrightarrow> sw_last_state w = ST_TX \<Longrightarrow> fed_only w s w' s' \<Longrightarrow> booked w0 s0 l evs out w' s'"
  by (auto simp: booked_def fed_only_def worker_const_def msg_record_def Let_def)

lemma booked_between:
  assumes "booked w0 s0 l evs out w s" and "sw_last_state w \<noteq> ST_TX" and "fed_only w s w' s'"
  shows "booked w0 s0 l evs (out + (sw_samples_consumed w' - sw_samples_consumed w)) w' s'"
  using assms by (auto simp: booked_def fed_only_def worker_const_def msg_record_def Let_def)

lemma booked_others: "booked w0 s0 l evs out w (env_steps v acts s) \<longleftrightarrow> booked w0 s0 l evs out w s"
  by (simp add: booked_def others_log)

lemma exit_books:
  assumes "tx_exit clk w s = ret (w', s')" and "booked w0 s0 l evs out w s" and "sw_last_state w = ST_TX" and "st \<noteq> ST_TX"
  shows "\<exists>ev. booked w0 s0 l (evs @ [ev]) out (w'\<lparr>sw_last_state := st\<rparr>) s'"
proof -
  from tx_exit_ends [OF assms(1)] obtain w1 s1 t where d: "drain_and_flush clk w s = ret (w1, s1)"
    and k: "worker_const w' = worker_const w1" "sw_samples_consumed w' = sw_samples_consumed w1"
    and c: "case sw_message_event_log w1 of None \<Rightarrow> sh_event_log s' = sh_event_log s1 \<and> sw_tx_sequence_id w' = sw_tx_sequence_id w1
     | Some l \<Rightarrow> if \<not> sw_current_msg_active w1 then sh_event_log s' = sh_event_log s1 \<and> sw_tx_sequence_id w' = sw_tx_sequence_id w1
        else \<not> sw_current_msg_active w' \<and> sw_tx_sequence_id w' = sw_tx_sequence_id w1 + 1 \<and>
          sh_event_log s' = (sh_event_log s1)(l := el_record \<lparr>ev_modem_id = sw_source_id w1, ev_direction = Dir_Tx,
            ev_start_ns = steady_ns (sw_current_msg_start_time w1), ev_end_ns = steady_ns t,
            ev_sample_count = sw_samples_consumed w1 - sw_current_msg_start_samples w1,
            ev_sequence_id = sw_tx_sequence_id w1\<rparr> (sh_event_log s1 l))" by blast
  have b: "booked w0 s0 l evs out w1 s1" by (rule booked_open [OF assms(2,3) flush_feeds [OF d]])
  have tx: "sw_last_state w1 = ST_TX" using flush_feeds [OF d] assms(3) by (simp add: fed_only_def)
  let ?ev = "\<lparr>ev_modem_id = sw_source_id w1, ev_direction = Dir_Tx, ev_start_ns = steady_ns (sw_current_msg_start_time w1),
    ev_end_ns = steady_ns t, ev_sample_count = sw_samples_consumed w1 - sw_current_msg_start_samples w1, ev_sequence_id = sw_tx_sequence_id w1\<rparr>"
  have log: "sh_event_log s' = (sh_event_log s1)(l := el_record ?ev (sh_event_log s1 l))" "sw_tx_sequence_id w' = sw_tx_sequence_id w1 + 1"
    using b tx c by (simp_all add: booked_def Let_def worker_const_def)
  have "tx_event w0 (sw_tx_sequence_id w0 + length evs) ?ev"
    using b by (simp add: booked_def tx_event_def worker_const_def)
  with b tx have evs: "list_all2 (tx_event w0) [sw_tx_sequence_id w0 ..< sw_tx_sequence_id w0 + length (evs @ [?ev])] (evs @ [?ev])"
    by (simp add: booked_def list_all2_appendI)
  show ?thesis
    by (rule exI [of _ ?ev]) (use b tx evs log k assms(4) in \<open>simp add: booked_def Let_def worker_const_def el_record_def\<close>)
qed

text \<open>A poll writes an event exactly when it sees an exit.\<close>

lemma poll_books:
  assumes "poll_state_edges clk w s = ret (w', s')" and "booked w0 s0 l evs out w s"
  shows "\<exists>evs'. booked w0 s0 l evs' out w' s' \<and> sw_last_state w' = live_state w s \<and> live_state w' s' = live_state w s \<and>
    length evs' = length evs + tx_exits [sw_last_state w, live_state w s]"
proof -
  let ?now = "live_state w s"
  have rt: "live_state w' s' = ?now" if "sw_runtime w' = sw_runtime w \<and> sh_runtime s' = sh_runtime s"
    using that by (simp add: live_state_def)
  consider (same) "?now = sw_last_state w" | (enter) "sw_last_state w \<noteq> ST_TX" "?now = ST_TX"
    | (exit) "sw_last_state w = ST_TX" "?now \<noteq> ST_TX" | (other) "?now \<noteq> sw_last_state w" "sw_last_state w \<noteq> ST_TX" "?now \<noteq> ST_TX"
    by metis
  then show ?thesis
  proof cases
    case same
    with assms show ?thesis by (intro exI [of _ evs]) (simp add: poll_state_edges_def)
  next
    case enter
    then obtain v where v: "tx_entry clk w s = ret (v, s')" "w' = v\<lparr>sw_last_state := ?now\<rparr>"
      using assms(1) by (auto simp: poll_state_edges_def Let_def and_then_eq_ret)
    have "sw_message_event_log w = Some l" using assms(2) by (simp add: booked_def worker_const_def)
    from entry_opens [OF v(1) this] assms(2) enter v(2) have "booked w0 s0 l evs out w' s'"
      by (auto simp: booked_def Let_def worker_const_def)
    moreover have "live_state w' s' = ?now" using tx_entry_frame [OF v(1)] v(2) by (intro rt) simp
    ultimately show ?thesis using enter v(2) by (intro exI [of _ evs]) simp
  next
    case exit
    then obtain v where v: "tx_exit clk w s = ret (v, s')" "w' = v\<lparr>sw_last_state := ?now\<rparr>"
      using assms(1) by (auto simp: poll_state_edges_def Let_def and_then_eq_ret)
    from exit_books [OF v(1) assms(2) exit] v(2) obtain ev where "booked w0 s0 l (evs @ [ev]) out w' s'" by blast
    moreover have "live_state w' s' = ?now" using tx_exit_frame [OF v(1)] v(2) by (intro rt) simp
    ultimately show ?thesis using exit v(2) by (intro exI [of _ "evs @ [ev]"]) simp
  next
    case other
    then have w': "w' = w\<lparr>sw_last_state := ?now\<rparr>" "s' = s" using assms(1) by (auto simp: poll_state_edges_def Let_def)
    with assms(2) other have "booked w0 s0 l evs out w' s'" by (simp add: booked_def worker_const_def)
    moreover have "live_state w' s' = ?now" using w' by (intro rt) simp
    ultimately show ?thesis using other w' by (intro exI [of _ evs]) simp
  qed
qed

lemma tx_exits_Cons: "tx_exits (st # st' # sts) = tx_exits [st, st'] + tx_exits (st' # sts)"
  by simp

lemma polled_ne: "polled ts final st \<noteq> []"
  by (cases ts) (auto simp: Let_def)

lemma iteration_books:
  assumes "sw_iteration clk before between w s = ret (w', s', slept)" and "booked w0 s0 l evs out w s"
  defines "st1 \<equiv> state_after before (live_state w s)"
  defines "st2 \<equiv> state_after between st1"
  shows "\<exists>evs' out'. booked w0 s0 l evs' out' w' s' \<and> sw_last_state w' = st1 \<and> live_state w' s' = st2 \<and>
    length evs' = length evs + tx_exits [sw_last_state w, st1] \<and> (st1 = ST_TX \<or> st2 \<noteq> ST_TX \<longrightarrow> out' = out)"
proof -
  obtain w1 s1 where p: "poll_state_edges clk w (env_steps w before s) = ret (w1, s1)"
    using assms(1) by (auto simp: sw_iteration_def and_then_eq_ret)
  have "booked w0 s0 l evs out w (env_steps w before s)" using assms(2) by (simp add: booked_others)
  from poll_books [OF p this, unfolded live_after, folded st1_def] obtain evs' where
    b: "booked w0 s0 l evs' out w1 s1" "sw_last_state w1 = st1" "live_state w1 s1 = st1"
      "length evs' = length evs + tx_exits [sw_last_state w, st1]" by blast
  let ?s2 = "env_steps w1 between s1"
  have live: "live_state w1 ?s2 = st2" unfolding live_after b(3) st2_def ..
  have b2: "booked w0 s0 l evs' out w1 ?s2" using b(1) by (simp add: booked_others)
  show ?thesis
  proof (cases "st2 = ST_TX")
    case False
    with assms(1) p live have "w' = w1" "s' = ?s2" by (auto simp: sw_iteration_def)
    with b b2 live show ?thesis by (intro exI [of _ evs'] exI [of _ out]) simp
  next
    case True
    with assms(1) p live obtain n where "process_available clk w1 ?s2 = ret (w', s', n)"
      by (auto simp: sw_iteration_def and_then_eq_ret)
    from process_feeds [OF this] have f: "fed_only w1 ?s2 w' s'" .
    then have k: "sw_last_state w' = st1" "live_state w' s' = st2"
      using b(2) live by (simp_all add: fed_only_def worker_const_def live_state_def)
    show ?thesis
    proof (cases "st1 = ST_TX")
      case True
      with booked_open [OF b2 _ f] b k show ?thesis by (intro exI [of _ evs'] exI [of _ out]) simp
    next
      case st1: False
      with booked_between [OF b2 _ f] b k True show ?thesis by (intro exI [of _ evs'] exI) auto
    qed
  qed
qed

lemma loop_books:
  assumes "sw_loop clk ts w s = ret (w', s')" and "booked w0 s0 l evs out w s"
  shows "\<exists>evs' out'. booked w0 s0 l evs' out' w' s' \<and>
    length evs' + tx_exits (sw_last_state w' # [state_after final (live_state w' s')])
      = length evs + tx_exits (sw_last_state w # polled ts final (live_state w s)) \<and>
    last (polled ts final (live_state w s)) = state_after final (live_state w' s') \<and>
    (\<not> enters_between ts (live_state w s) \<longrightarrow> out' = out)"
  using assms
proof (induction ts arbitrary: w s evs out)
  case Nil
  then show ?case by (intro exI [of _ evs] exI [of _ out]) simp
next
  case (Cons t ts)
  obtain before between where t: "t = (before, between)" by (cases t)
  let ?st1 = "state_after before (live_state w s)"
  let ?st2 = "state_after between ?st1"
  obtain w1 s1 slept where i: "sw_iteration clk before between w s = ret (w1, s1, slept)" "sw_loop clk ts w1 s1 = ret (w', s')"
    using Cons.prems(1) by (auto simp: t and_then_eq_ret)
  from iteration_books [OF i(1) Cons.prems(2)] obtain evs1 out1 where
    b: "booked w0 s0 l evs1 out1 w1 s1" "sw_last_state w1 = ?st1" "live_state w1 s1 = ?st2"
      "length evs1 = length evs + tx_exits [sw_last_state w, ?st1]" "?st1 = ST_TX \<or> ?st2 \<noteq> ST_TX \<longrightarrow> out1 = out" by blast
  from Cons.IH [OF i(2) b(1), unfolded b(2,3)] obtain evs' out' where
    r: "booked w0 s0 l evs' out' w' s'"
      "length evs' + tx_exits (sw_last_state w' # [state_after final (live_state w' s')]) = length evs1 + tx_exits (?st1 # polled ts final ?st2)"
      "last (polled ts final ?st2) = state_after final (live_state w' s')" "\<not> enters_between ts ?st2 \<longrightarrow> out' = out1" by blast
  have p: "polled (t # ts) final (live_state w s) = ?st1 # polled ts final ?st2" by (simp add: t Let_def)
  note ne = polled_ne [of ts final ?st2]
  have c: "length evs' + tx_exits (sw_last_state w' # [state_after final (live_state w' s')]) =
      length evs + tx_exits (sw_last_state w # polled (t # ts) final (live_state w s))"
    using r(2) b(4) tx_exits_Cons [of "sw_last_state w" ?st1 "polled ts final ?st2"] unfolding p by linarith
  have "\<not> enters_between (t # ts) (live_state w s) \<longrightarrow> out' = out" using b(5) r(4) by (auto simp: t Let_def)
  with r(1,3) c ne show ?case unfolding p by (intro exI [of _ evs'] exI [of _ out']) simp
qed

section \<open>A worker with steady channels always returns\<close>

text \<open>Without motion the static renderer's ratio is a constant of its clock offset, so one that was accepted
  once is accepted again.\<close>

definition motion :: "static_renderer \<Rightarrow> real \<times> real \<times> real \<times> real" where
  "motion r = (sr_clock_offset_ppm r, sr_sound_speed_m_s r, sr_velocity_radial_m_s r, sr_acceleration_radial_m_s2 r)"

definition steady_static :: "static_renderer \<Rightarrow> bool" where
  "steady_static r \<longleftrightarrow> sr_velocity_radial_m_s r = 0 \<and> sr_acceleration_radial_m_s2 r = 0 \<and> 1 / 64 \<le> sr_current_doppler_ratio r \<and>
     0 \<le> fr_mu (sr_resampler r)"

lemma still_ratio:
  assumes "sr_velocity_radial_m_s r = 0" and "sr_acceleration_radial_m_s2 r = 0"
  shows "sr_current_doppler_ratio r = dmul (dadd 1 (dmul (sr_clock_offset_ppm r) (f64 (1 / 10 ^ 6)))) 1"
  using assms by (simp add: sr_current_doppler_ratio_def Let_def)

lemma steady_cong: "motion r' = motion r \<Longrightarrow> 0 \<le> fr_mu (sr_resampler r') \<Longrightarrow> steady_static r \<Longrightarrow> steady_static r'"
  by (auto simp: steady_static_def motion_def still_ratio)

lemma refresh_steady:
  assumes "steady_static r"
  shows "\<exists>r1. refresh_ratio r = Inr r1 \<and> steady_static r1 \<and> motion r1 = motion r \<and> 1 / 64 \<le> fr_step (sr_resampler r1)"
proof -
  let ?r = "r\<lparr>sr_resampler := (sr_resampler r)\<lparr>fr_ratio := sr_current_doppler_ratio r, fr_step := sr_current_doppler_ratio r\<rparr>\<rparr>"
  have "refresh_ratio r = Inr ?r" using assms by (simp add: refresh_ratio_Inr steady_static_def)
  moreover have "motion ?r = motion r" by (simp add: motion_def)
  ultimately show ?thesis using assms steady_cong [of ?r r] by (intro exI [of _ ?r]) (simp add: steady_static_def)
qed

lemma round_motion: "static_round r samples = (r2, cs, out, used) \<Longrightarrow> motion r2 = motion r"
  by (auto simp: static_round_def scatter_taps_def motion_def Let_def case_prod_beta split: if_splits)

lemma static_loop_steady:
  assumes "1 / 64 \<le> fr_step (sr_resampler r)" and "0 \<le> fr_mu (sr_resampler r)"
  shows "\<exists>r' cs used. static_loop r samples = Some (r', cs, used) \<and> motion r' = motion r \<and> 0 \<le> fr_mu (sr_resampler r')"
  using assms
proof (induction "length samples" arbitrary: samples r rule: less_induct)
  case less
  show ?case
  proof (cases "samples = []")
    case False
    obtain r2 cs out used where rd: "static_round r samples = (r2, cs, out, used)" by (metis prod_cases4)
    note f = static_round_facts [OF rd] and m = round_motion [OF rd]
    have mu: "0 \<le> fr_mu (sr_resampler r2)"
      using f(4) farrow_loop_mu [of "sr_resampler r" samples PROCESSING_BLOCK_SIZE] less.prems
      by (auto simp: farrow_process_def case_prod_beta Let_def)
    show ?thesis
    proof (cases "length out < PROCESSING_BLOCK_SIZE")
      case True
      with rd False m mu show ?thesis by (subst static_loop_round) simp
    next
      case 1: False
      with f(3) have "length out = PROCESSING_BLOCK_SIZE" by simp
      with static_round_moves [OF rd False less.prems] have "0 < used" by simp
      with f(1) have "length (drop used samples) < length samples" by simp
      from less.hyps [OF this, of r2] f(2) less.prems mu obtain r3 cs3 used3
        where "static_loop r2 (drop used samples) = Some (r3, cs3, used3)" "motion r3 = motion r2" "0 \<le> fr_mu (sr_resampler r3)" by auto
      with rd False 1 m show ?thesis by (subst static_loop_round) simp
    qed
  qed (subst static_loop_round, use less.prems in simp)
qed

lemma static_process_steady:
  assumes "steady_static r"
  shows "\<exists>r' cs used. static_process samples r = ret (r', cs, used) \<and> steady_static r'"
proof (cases "samples = []")
  case False
  obtain r1 where r1: "refresh_ratio r = Inr r1" "steady_static r1" "1 / 64 \<le> fr_step (sr_resampler r1)"
    using refresh_steady [OF assms] by blast
  then have "0 \<le> fr_mu (sr_resampler r1)" by (simp add: steady_static_def)
  from static_loop_steady [OF r1(3) this, of samples] r1 False steady_cong show ?thesis by (fastforce simp: static_process_def)
qed (use assms in \<open>simp add: static_process_def\<close>)

lemma static_start_steady:
  assumes "steady_static r"
  shows "\<exists>r'. static_on_message_start r = Inr r' \<and> steady_static r'"
proof -
  let ?r = "r\<lparr>sr_resampler := farrow_reset (sr_resampler r),
      sr_hilbert := (if sr_needs_hilbert r then hilbert_reset (sr_hilbert r) else sr_hilbert r), sr_source_samples_processed := 0\<rparr>"
  have "steady_static ?r" by (rule steady_cong [OF _ _ assms]) (simp_all add: motion_def farrow_reset_def)
  from refresh_steady [OF this] show ?thesis by (auto simp: static_on_message_start_def)
qed

lemma static_end_steady: "steady_static r \<Longrightarrow> \<exists>r' cs. static_on_message_end r = ret (r', cs) \<and> steady_static r'"
  using static_process_steady [of r "replicate (if sr_needs_hilbert r then cmax kFarrowDrainZeros (hb_group_delay (sr_hilbert r)) else kFarrowDrainZeros) 0"]
  by (auto simp: static_on_message_end_def Let_def)

text \<open>A channel whose calls always return: one of the tap-based models, or a static one without motion.\<close>

definition steady :: "channel \<Rightarrow> bool" where
  "steady c \<longleftrightarrow> (\<forall>r. cn_renderer c = Static_R r \<longrightarrow> steady_static r)"

lemma steady_process_returns:
  assumes "steady c"
  shows "\<exists>c' b' used. channel_process xs c b = ret (c', b', used) \<and> steady c'"
proof (cases "cn_renderer c")
  case (Static_R r)
  with assms obtain r' cs used where "static_process xs r = ret (r', cs, used)" "steady_static r'"
    using static_process_steady [of r xs] by (auto simp: steady_def)
  with Static_R show ?thesis by (simp add: channel_process_def lift_process_def steady_def)
qed (auto simp: steady_def channel_process_def tap_process_op_def lift_process_def case_prod_unfold Let_def)

lemma steady_start_returns:
  assumes "steady c"
  shows "\<exists>c' b'. channel_on_message_start gap aligned c b = Inr (c', b') \<and> steady c'"
proof (cases "cn_renderer c")
  case (Static_R r)
  with assms obtain r' where "static_on_message_start r = Inr r'" "steady_static r'"
    using static_start_steady [of r] by (auto simp: steady_def)
  with Static_R show ?thesis by (simp add: channel_on_message_start_def steady_def)
qed (auto simp: steady_def channel_on_message_start_def tap_on_message_start_def)

lemma steady_end_returns:
  assumes "steady c"
  shows "\<exists>c' b'. channel_on_message_end c b = ret (c', b') \<and> steady c'"
proof (cases "cn_renderer c")
  case (Static_R r)
  with assms obtain r' cs where "static_on_message_end r = ret (r', cs)" "steady_static r'"
    using static_end_steady [of r] by (auto simp: steady_def)
  with Static_R show ?thesis by (simp add: channel_on_message_end_def lift_process_def steady_def)
qed (auto simp: steady_def channel_on_message_end_def tap_on_message_end_def lift_process_def case_prod_unfold map_prod_def)

lemma feed_one_returns: "steady (og_channel og) \<Longrightarrow> \<exists>c r' b'. feed_one xs og r b = ret (c, r', b') \<and> steady c"
  using steady_process_returns [of "og_channel og" "r @ xs" b] by (auto simp: feed_one_def)

lemma flush_one_returns:
  assumes "steady (og_channel og)"
  shows "\<exists>c r' b'. flush_one og r b = ret (c, r', b') \<and> steady c"
proof (cases "r = []")
  case True
  with steady_end_returns [OF assms, of b] show ?thesis by (auto simp: flush_one_empty)
next
  case False
  obtain c r' b' where "feed_one [] og r b = ret (c, r', b')" "steady c" using feed_one_returns [OF assms] by blast
  with False steady_end_returns [of c b'] show ?thesis by (auto simp: flush_one_def)
qed

lemma visit_all_returns:
  assumes "\<And>og r b. P (og_channel og) \<Longrightarrow> \<exists>c r' b'. f og r b = ret (c, r', b') \<and> P c" and "\<forall>og \<in> set ogs. P (og_channel og)"
  shows "\<exists>ogs' rs' pbs'. visit_all f ogs rs pbs = ret (ogs', rs', pbs') \<and> (\<forall>og \<in> set ogs'. P (og_channel og))"
  using assms(2)
proof (induction ogs arbitrary: rs pbs)
  case (Cons og ogs)
  show ?case
  proof (cases rs)
    case (Cons r rs')
    obtain c r' b' where v: "f og r (pbs ! og_pair_buffer og) = ret (c, r', b')" "P c" using assms(1) Cons.prems by fastforce
    obtain ogs' rs'' pbs' where rest: "visit_all f ogs rs' (pbs[og_pair_buffer og := b']) = ret (ogs', rs'', pbs')"
      "\<forall>og \<in> set ogs'. P (og_channel og)" using Cons.IH Cons.prems by fastforce
    from v rest show ?thesis by (simp add: Cons visit_one_def)
  qed (use Cons.prems in simp)
qed simp

lemma process_available_returns:
  assumes "\<forall>og \<in> set (sw_outgoing w). steady (og_channel og)"
  shows "\<exists>w' s' n. process_available clk w s = ret (w', s', n) \<and> (\<forall>og \<in> set (sw_outgoing w'). steady (og_channel og))"
proof -
  have "\<exists>ogs' rs' pbs'. visit_all (feed_one xs) (sw_outgoing w) (sw_residuals w) pbs = ret (ogs', rs', pbs') \<and>
      (\<forall>og \<in> set ogs'. steady (og_channel og))" for xs pbs
    by (rule visit_all_returns [where P = steady]) (use feed_one_returns assms in auto)
  note v = this
  let ?q = "sh_tx_ring s (sw_tx_ring w)"
  let ?k = "min (unat (spsc_available_read ?q)) (sw_raw_buf_size w)"
  obtain ring raw where r: "spsc_read ?q (of_nat ?k) = (ring, raw)" by fastforce
  show ?thesis
  proof (cases "unat (spsc_available_read ?q) = 0")
    case True
    with assms show ?thesis by (simp add: process_available_def Let_def)
  next
    case ne: False
    show ?thesis
    proof (cases "raw = []")
      case True
      with ne r assms show ?thesis by (simp add: process_available_def Let_def clock_now_def)
    next
      case False
      obtain ogs rs pbs where "visit_all (feed_one (map (\<lambda>x. adc_to_float x (cal_adc_bits (sw_source_cal w))) raw))
          (sw_outgoing w) (sw_residuals w) (sh_pair_buffers s) = ret (ogs, rs, pbs)" "\<forall>og \<in> set ogs. steady (og_channel og)"
        using v by blast
      with ne r False show ?thesis by (simp add: process_available_def Let_def clock_now_def)
    qed
  qed
qed

lemma drain_ring_returns:
  "\<forall>og \<in> set (sw_outgoing w). steady (og_channel og) \<Longrightarrow>
    \<exists>w' s'. drain_ring clk w s = ret (w', s') \<and> (\<forall>og \<in> set (sw_outgoing w'). steady (og_channel og))"
proof (induction clk w s rule: drain_ring.induct)
  case (1 clk w s)
  from process_available_returns [OF "1.prems"] obtain w1 s1 n where p: "process_available clk w s = ret (w1, s1, n)"
    "\<forall>og \<in> set (sw_outgoing w1). steady (og_channel og)" by blast
  show ?case
  proof (cases "spsc_available_read (sh_tx_ring s (sw_tx_ring w)) = 0 \<or> n = 0")
    case True
    with p "1.prems" show ?thesis by (subst drain_ring.simps) auto
  next
    case False
    then have "\<exists>w' s'. drain_ring clk w1 s1 = ret (w', s') \<and> (\<forall>og \<in> set (sw_outgoing w'). steady (og_channel og))"
      using "1.IH" [OF _ p(1) refl refl _ p(2)] by simp
    with p(1) False show ?thesis by (subst drain_ring.simps) simp
  qed
qed

lemma start_all_returns:
  "\<forall>og \<in> set ogs. steady (og_channel og) \<Longrightarrow>
    \<exists>ogs' s'. start_all T now wired ogs s = ret (ogs', s') \<and> (\<forall>og \<in> set ogs'. steady (og_channel og))"
proof (induction ogs arbitrary: s)
  case (Cons og ogs)
  obtain gap late aligned where g: "arrival_gap T now s og = (gap, late, aligned)" by (metis prod_cases3)
  let ?s1 = "if late \<and> wired then s\<lparr>sh_metrics := (sh_metrics s)\<lparr>mt_late_messages := mt_late_messages (sh_metrics s) + 1\<rparr>\<rparr> else s"
  obtain c b where c: "channel_on_message_start gap aligned (og_channel og) (sh_pair_buffers ?s1 ! og_pair_buffer og) = Inr (c, b)" "steady c"
    using steady_start_returns [of "og_channel og"] Cons.prems by fastforce
  obtain ogs' s' where "start_all T now wired ogs (?s1\<lparr>sh_pair_buffers := (sh_pair_buffers ?s1)[og_pair_buffer og := b]\<rparr>) = ret (ogs', s')"
    "\<forall>og \<in> set ogs'. steady (og_channel og)" using Cons by fastforce
  with g c show ?case by (simp add: Let_def lift_error_def del: if_split)
qed simp

lemma msg_run_returns:
  "\<forall>og \<in> set (sw_outgoing w). steady (og_channel og) \<Longrightarrow>
    \<exists>w' s'. msg_run clk evs w s = ret (w', s') \<and> (\<forall>og \<in> set (sw_outgoing w'). steady (og_channel og))"
proof (induction clk evs w s rule: msg_run.induct)
  case (3 clk evs w s)
  from process_available_returns [OF 3(2)] obtain w1 s1 n where p: "process_available clk w s = ret (w1, s1, n)"
    "\<forall>og \<in> set (sw_outgoing w1). steady (og_channel og)" by blast
  from "3.IH" [OF p(1) refl refl p(2)] p(1) show ?case by simp
qed auto

abbreviation steady_worker :: "source_worker \<Rightarrow> bool" where
  "steady_worker w \<equiv> \<forall>og \<in> set (sw_outgoing w). steady (og_channel og)"

lemma tx_entry_returns:
  assumes "steady_worker w"
  shows "\<exists>w' s'. tx_entry clk w s = ret (w', s') \<and> steady_worker w'"
proof -
  let ?s1 = "fst (clock_now clk s)" and ?now = "snd (clock_now clk s)"
  obtain ogs s2 where "start_all (tx_start_bound ?now w ?s1) ?now (sw_metrics w) (sw_outgoing w) ?s1 = ret (ogs, s2)"
    "\<forall>og \<in> set ogs. steady (og_channel og)" using start_all_returns [OF assms] by blast
  then show ?thesis by (auto simp: tx_entry_def case_prod_unfold Let_def)
qed

lemma drain_and_flush_returns:
  assumes "steady_worker w"
  shows "\<exists>w' s'. drain_and_flush clk w s = ret (w', s') \<and> steady_worker w'"
proof -
  from drain_ring_returns [OF assms] obtain w2 s2 where w2: "drain_ring clk w s = ret (w2, s2)" "steady_worker w2" by blast
  have "\<exists>ogs rs pbs. visit_all flush_one (sw_outgoing w2) (sw_residuals w2) (sh_pair_buffers s2) = ret (ogs, rs, pbs) \<and>
      (\<forall>og \<in> set ogs. steady (og_channel og))"
    by (rule visit_all_returns [where P = steady]) (use flush_one_returns w2(2) in auto)
  with w2 show ?thesis by (auto simp: drain_and_flush_def)
qed

lemma tx_exit_returns: "steady_worker w \<Longrightarrow> \<exists>w' s'. tx_exit clk w s = ret (w', s') \<and> steady_worker w'"
  using drain_and_flush_returns [of w clk s] by (auto simp: tx_exit_def case_prod_unfold Let_def split: option.splits)

lemma poll_returns:
  assumes "steady_worker w"
  shows "\<exists>w' s'. poll_state_edges clk w s = ret (w', s') \<and> steady_worker w'"
proof -
  obtain w1 s1 w2 s2 where "tx_entry clk w s = ret (w1, s1)" "steady_worker w1" "tx_exit clk w s = ret (w2, s2)" "steady_worker w2"
    using tx_entry_returns [OF assms] tx_exit_returns [OF assms] by blast
  with assms show ?thesis by (auto simp: poll_state_edges_def Let_def)
qed

lemma iteration_returns:
  assumes "steady_worker w"
  shows "\<exists>w' s' b. sw_iteration clk before between w s = ret (w', s', b) \<and> steady_worker w'"
proof -
  obtain w1 s1 where p: "poll_state_edges clk w (env_steps w before s) = ret (w1, s1)" "steady_worker w1" using poll_returns [OF assms] by blast
  obtain w2 s2 n where "process_available clk w1 (env_steps w1 between s1) = ret (w2, s2, n)" "steady_worker w2"
    using process_available_returns [OF p(2)] by blast
  with p show ?thesis by (auto simp: sw_iteration_def Let_def)
qed

lemma loop_returns: "steady_worker w \<Longrightarrow> \<exists>w' s'. sw_loop clk sched w s = ret (w', s') \<and> steady_worker w'"
proof (induction sched arbitrary: w s)
  case (Cons turn sched)
  obtain before between where turn: "turn = (before, between)" by fastforce
  obtain w1 s1 b where "sw_iteration clk before between w s = ret (w1, s1, b)" "steady_worker w1" using iteration_returns [OF Cons.prems] by blast
  with Cons.IH [of w1 s1] show ?case by (simp add: turn)
qed simp

section \<open>Where a message lands\<close>

lemma f64_close:
  assumes "x = 0 \<or> 1 / 10 ^ 20 \<le> \<bar>x\<bar>"
  shows "\<bar>f64 x - x\<bar> \<le> \<bar>x\<bar> / 10 ^ 15"
proof (cases "x = 0")
  case False
  have "(2::real) powi (- 1022) \<le> 2 powi (- 67)" by (simp only: powi2_le_iff)
  also have "\<dots> \<le> 1 / 10 ^ 20" by (simp add: power_int_minus field_simps)
  finally have "2 powi (- 1022) \<le> \<bar>x\<bar>" using assms False by linarith
  from f64_rel [OF this] have e: "\<bar>f64 x - x\<bar> \<le> \<bar>x\<bar> * 2 powi (- 53)" .
  have "(2::real) powi (- 53) \<le> 1 / 10 ^ 15" by (simp add: power_int_minus divide_simps)
  then have "\<bar>x\<bar> * 2 powi (- 53) \<le> \<bar>x\<bar> * (1 / 10 ^ 15)" by (intro mult_left_mono) simp_all
  with e show ?thesis by simp
qed simp

text \<open>The time until an instant, in samples: two roundings away from the exact quotient.\<close>

lemma half_close:
  fixes x y :: real
  assumes "\<bar>x - y\<bar> \<le> \<bar>y\<bar> / 10 ^ 15"
  shows "\<bar>x\<bar> \<le> \<bar>y\<bar> * 2" "\<bar>y\<bar> / 2 \<le> \<bar>x\<bar>"
proof -
  have "\<bar>y\<bar> / 10 ^ 15 \<le> \<bar>y\<bar> / 2" by (rule divide_left_mono) simp_all
  with assms have "\<bar>x - y\<bar> \<le> \<bar>y\<bar> / 2" by (rule order_trans)
  then show "\<bar>x\<bar> \<le> \<bar>y\<bar> * 2" "\<bar>y\<bar> / 2 \<le> \<bar>x\<bar>" by arith+
qed

lemma samples_until:
  fixes n :: nat and t :: int
  assumes "\<bar>t\<bar> \<le> 2 ^ 53"
  defines "due \<equiv> real_of_int t / 10 ^ 9 * real n"
  shows "\<bar>dmul (seconds_f64 t) (real n) - due\<bar> \<le> \<bar>due\<bar> * 3 / 10 ^ 15"
proof -
  let ?q = "real_of_int t / 10 ^ 9" and ?s = "seconds_f64 t"
  have s: "?s = f64 ?q" using f64_of_int [OF assms(1)] by (simp add: seconds_f64_def)
  have q: "?q = 0 \<or> 1 / 10 ^ 9 \<le> \<bar>?q\<bar>"
  proof (cases "t = 0")
    case False
    then have "1 \<le> \<bar>real_of_int t\<bar>" by linarith
    then show ?thesis by (simp add: divide_simps)
  qed simp
  then have "?q = 0 \<or> 1 / 10 ^ 20 \<le> \<bar>?q\<bar>" by auto
  from f64_close [OF this] have e1: "\<bar>?s - ?q\<bar> \<le> \<bar>?q\<bar> / 10 ^ 15" unfolding s .
  have s_le: "\<bar>?s\<bar> \<le> \<bar>?q\<bar> * 2" and s_ge: "\<bar>?q\<bar> / 2 \<le> \<bar>?s\<bar>" using half_close [OF e1] by simp_all
  have "?s * real n = 0 \<or> 1 / 10 ^ 20 \<le> \<bar>?s * real n\<bar>"
  proof (cases "n = 0 \<or> ?q = 0")
    case True
    with s_le show ?thesis by auto
  next
    case False
    then have n: "1 \<le> real n" by simp
    have "1 / 10 ^ 20 \<le> \<bar>?q\<bar> / 2" using q False by auto
    also have "\<dots> \<le> \<bar>?s\<bar> * 1" using s_ge by simp
    also have "\<dots> \<le> \<bar>?s\<bar> * real n" using n by (intro mult_left_mono) simp_all
    finally show ?thesis by (simp add: abs_mult)
  qed
  from f64_close [OF this] have e2: "\<bar>f64 (?s * real n) - ?s * real n\<bar> \<le> \<bar>?s\<bar> * real n / 10 ^ 15" by (simp add: abs_mult)
  have "\<bar>?s\<bar> * real n \<le> \<bar>?q\<bar> * 2 * real n" using s_le by (intro mult_right_mono) simp_all
  then have "\<bar>?s\<bar> * real n \<le> 2 * \<bar>due\<bar>" by (simp add: due_def abs_mult mult_ac)
  then have e2': "\<bar>f64 (?s * real n) - ?s * real n\<bar> \<le> 2 * \<bar>due\<bar> / 10 ^ 15"
    using e2 by (simp add: field_simps)
  have "\<bar>?s * real n - due\<bar> = \<bar>?s - ?q\<bar> * real n" 
    by (simp only: due_def left_diff_distrib [symmetric] abs_mult abs_of_nat)
  also have "\<dots> \<le> \<bar>?q\<bar> / 10 ^ 15 * real n" using e1 by (intro mult_right_mono) simp_all
  also have "\<dots> = \<bar>due\<bar> / 10 ^ 15" by (simp add: due_def abs_mult)
  finally have e1': "\<bar>?s * real n - due\<bar> \<le> \<bar>due\<bar> / 10 ^ 15" .
  have "\<bar>f64 (?s * real n) - due\<bar> \<le> \<bar>f64 (?s * real n) - ?s * real n\<bar> + \<bar>?s * real n - due\<bar>"
    using abs_triangle_ineq [of "f64 (?s * real n) - ?s * real n" "?s * real n - due"] by simp
  also have "\<dots> \<le> 2 * \<bar>due\<bar> / 10 ^ 15 + \<bar>due\<bar> / 10 ^ 15" using e2' e1' by (rule add_mono)
  also have "\<dots> = \<bar>due\<bar> * 3 / 10 ^ 15" by simp
  finally show ?thesis .
qed

text \<open>C20: A message's first sample leaves the receiver when it should. Counting what is ahead of it (the
  unread part of the pair buffer, the receive ring, the modem's own buffer and the gap), a message that is
  not late is placed within one sample, and a relative rounding error of at most three in ten to the fifteen,
  of the instant \<open>T_tx_start\<close> plus the propagation delay; it is reported late only when that instant
  has passed before what is already queued can be played, and then it is placed as early as possible.\<close>

theorem arrival_gap_on_time:
  fixes fs watermark read_pos :: nat and depth fill :: "32 word"
  assumes "\<bar>T_tx_start + ns_of_seconds delay - now\<bar> \<le> 2 ^ 53"
  defines "due \<equiv> real_of_int (T_tx_start + ns_of_seconds delay - now) / 10 ^ 9 * real fs"
    and "queued \<equiv> int watermark - int read_pos + int (unat depth) + int (unat fill)"
    and "r \<equiv> compute_arrival_aligned_gap T_tx_start delay now fs fill watermark read_pos depth"
  shows "if snd r then fst r = 0 \<and> due < real_of_int queued + \<bar>due\<bar> * 3 / 10 ^ 15
    else \<bar>real (fst r) + real_of_int queued - due\<bar> < 1 + \<bar>due\<bar> * 3 / 10 ^ 15"
proof -
  define m where "m = dmul (seconds_f64 (T_tx_start + ns_of_seconds delay - now)) (real fs)"
  have e: "\<bar>m - due\<bar> \<le> \<bar>due\<bar> * 3 / 10 ^ 15" unfolding m_def due_def by (rule samples_until [OF assms(1)])
  have r: "r = (if ctrunc m - queued < 0 then (0, True) else (nat (ctrunc m - queued), False))"
    by (simp add: r_def compute_arrival_aligned_gap_def queued_def m_def Let_def algebra_simps)
  have t: "\<bar>real_of_int (ctrunc m) - m\<bar> < 1" by (simp add: ctrunc_def) linarith
  show ?thesis
  proof (cases "ctrunc m - queued < 0")
    case True
    then have "ctrunc m \<le> queued - 1" by simp
    then have "real_of_int (ctrunc m) \<le> real_of_int queued - 1" by linarith
    with t have "m < real_of_int queued" by linarith
    then have "due < real_of_int queued + \<bar>due\<bar> * 3 / 10 ^ 15" using e by linarith
    with True r show ?thesis by simp
  next
    case False
    then have "real (fst r) + real_of_int queued = real_of_int (ctrunc m)" by (simp add: r)
    moreover have "\<bar>real_of_int (ctrunc m) - due\<bar> < 1 + \<bar>due\<bar> * 3 / 10 ^ 15" using t e by linarith
    ultimately show ?thesis using False by (simp add: r)
  qed
qed

theorem arrival_gap_on_time_witness:
  "let r = compute_arrival_aligned_gap 1000000 0 0 500000 100 50 20 70
   in if snd r then fst r = 0 \<and> (500::real) < 200 + 500 * 3 / 10 ^ 15
      else \<bar>real (fst r) + 200 - 500\<bar> < 1 + 500 * 3 / 10 ^ 15"
proof -
  have "\<bar>(1000000::int) + ns_of_seconds 0 - 0\<bar> \<le> 2 ^ 53" by (simp add: ns_of_seconds_def ctrunc_def)
  from arrival_gap_on_time [OF this, where fs = 500000 and watermark = 50 and read_pos = 20 and depth = 70 and fill = 100] show ?thesis
    by (simp add: ns_of_seconds_def ctrunc_def Let_def split del: if_split cong: if_cong) (simp split: if_splits)
qed

lemma loop_message_story:
  assumes "sw_loop clk (message_turns before between mids after st) w s = ret (w', s')"
    and "worker_ok w s" and "sw_last_state w \<noteq> ST_TX" and "st \<noteq> ST_TX" and "keeps_state between" and "keeping_turns mids"
    and "small_pushes (map Others (before @ [Env_State ST_TX]))" and "small_pushes (message_events between mids after st)"
  defines "s0 \<equiv> env_steps w (before @ [Env_State ST_TX]) s"
  defines "now \<equiv> clk (sh_clock_reads s0)"
    and "codes \<equiv> tx_contents w s0 @ ring_accepts w s0 (message_events between mids after st)"
  shows "worker_ok w' s' \<and> tx_contents w' s' = [] \<and> sw_last_state w' = st \<and>
    sw_samples_consumed w' = sw_samples_consumed w + length codes \<and> length (sw_outgoing w') = length (sw_outgoing w) \<and>
    (\<forall>j < length (sw_outgoing w). lone_message (tx_start_bound now w s0) now s0 (sw_outgoing w ! j) (as_samples w codes)
       (own (sw_outgoing w' ! j) (sh_pair_buffers s')) \<and> og_wiring (sw_outgoing w' ! j) = og_wiring (sw_outgoing w ! j))"
proof -
  from loop_message [OF assms(1,3-6), folded s0_def] obtain v where
    v: "worker_message clk (message_events between mids after st) w s0 = ret (v, s')" "w' = v\<lparr>sw_last_state := st\<rparr>" by blast
  have "worker_ok w s0" using env_steps_took [OF assms(2,7)] by (simp add: s0_def took_def)
  from worker_message_story [OF v(1) this assms(8), folded now_def codes_def] v(2) show ?thesis
    by (simp add: worker_ok_def)
qed

text \<open>C1: A message reaches every channel whole. Take the turns of the worker's loop from the one that
  sees the modem enter TX to the one that sees it leave, with the I/O threads filling the ring, receivers
  reading and estimators moving in between in any order. Then every outgoing channel, on its own buffer,
  goes through exactly one message: a start at the gap computed from the state at entry, the samples of all
  codes that were in the ring or that the ring accepted, in order and nothing else, then its end. The ring
  is left empty, no residual is kept, and the other channels' buffers play no part.\<close>

theorem worker_message_feeds_channels:
  assumes "sw_loop clk (message_turns before between mids after st) w s = ret (w', s')"
    and "worker_ok w s" and "sw_last_state w \<noteq> ST_TX" and "st \<noteq> ST_TX" and "keeps_state between" and "keeping_turns mids"
    and "small_pushes (map Others (before @ [Env_State ST_TX]))" and "small_pushes (message_events between mids after st)"
  defines "s0 \<equiv> env_steps w (before @ [Env_State ST_TX]) s"
  defines "now \<equiv> clk (sh_clock_reads s0)"
    and "codes \<equiv> tx_contents w s0 @ ring_accepts w s0 (message_events between mids after st)"
  shows "worker_ok w' s' \<and> tx_contents w' s' = [] \<and> sw_last_state w' = st \<and>
    sw_samples_consumed w' = sw_samples_consumed w + length codes \<and> length (sw_outgoing w') = length (sw_outgoing w) \<and>
    (\<forall>j < length (sw_outgoing w). lone_message (tx_start_bound now w s0) now s0 (sw_outgoing w ! j) (as_samples w codes)
       (own (sw_outgoing w' ! j) (sh_pair_buffers s')))"
  using loop_message_story [OF assms(1-8), folded s0_def, folded now_def codes_def] by simp

text \<open>C22: What the event log of a worker holds after any run, whatever the other threads do between its steps:
  one more line for each transmission whose end a poll of the worker sees, and nothing else. The lines are of this
  modem, direction tx, numbered consecutively, and their sample counts add up to the samples consumed but for those
  of no logged message: there are none unless some turn enters TX between its two readings of the state, or the
  last poll still sees TX. A transmission still open when the thread is stopped gets no line.\<close>

theorem worker_logs_every_message:
  assumes "sw_run clk sched final w s = ret (w', s')" and "sw_message_event_log w = Some l" and "el_open (sh_event_log s l)"
  shows "\<exists>evs outside. length evs = tx_exits (ST_IDLE # polled sched final (live_state w s)) \<and>
    el_text (sh_event_log s' l) = el_text (sh_event_log s l) @ concat (map event_line evs) \<and>
    list_all2 (tx_event w) [sw_tx_sequence_id w ..< sw_tx_sequence_id w + length evs] evs \<and>
    sw_tx_sequence_id w' = sw_tx_sequence_id w + length evs \<and>
    sw_samples_consumed w' = sw_samples_consumed w + sum_list (map ev_sample_count evs) + outside \<and>
    (\<not> enters_between sched (live_state w s) \<and> last (polled sched final (live_state w s)) \<noteq> ST_TX \<longrightarrow> outside = 0)"
proof -
  let ?w = "w\<lparr>sw_running := True, sw_last_state := ST_IDLE\<rparr>"
  obtain w1 s1 where l: "sw_loop clk sched ?w s = ret (w1, s1)" "sw_finish clk (sw_stop w1) (env_steps w1 final s1) = ret (w', s')"
    using assms(1) by (auto simp: sw_run_def and_then_eq_ret)
  have "booked w s l [] 0 ?w s" using assms(2,3) by (simp add: booked_def worker_const_def)
  from loop_books [OF l(1) this, of final] obtain evs1 out1 where b: "booked w s l evs1 out1 w1 s1"
    "length evs1 + tx_exits (sw_last_state w1 # [state_after final (live_state w1 s1)]) = tx_exits (ST_IDLE # polled sched final (live_state w s))"
    "last (polled sched final (live_state w s)) = state_after final (live_state w1 s1)" "\<not> enters_between sched (live_state w s) \<longrightarrow> out1 = 0"
    by (auto simp: live_state_def)
  obtain w2 s2 where p: "poll_state_edges clk (sw_stop w1) (env_steps w1 final s1) = ret (w2, s2)"
    "(if sw_last_state w2 = ST_TX then and_then (drain_and_flush clk w2 s2) (\<lambda>(w3, s3). ret (w3\<lparr>sw_last_state := ST_IDLE\<rparr>, s3))
      else ret (w2, s2)) = ret (w', s')"
    using l(2) by (auto simp: sw_finish_def and_then_eq_ret simp del: if_split)
  have stop: "booked w s l evs1 out1 (sw_stop w1) (env_steps w1 final s1)" "sw_last_state (sw_stop w1) = sw_last_state w1"
    "live_state (sw_stop w1) (env_steps w1 final s1) = state_after final (live_state w1 s1)"
    using b(1) live_after [of w1 final s1]
    by (simp_all add: booked_others) (simp_all add: booked_def sw_stop_def worker_const_def live_state_def Let_def)
  from poll_books [OF p(1) stop(1)] obtain evs where e: "booked w s l evs out1 w2 s2"
    "sw_last_state w2 = state_after final (live_state w1 s1)"
    "length evs = tx_exits (ST_IDLE # polled sched final (live_state w s))"
    unfolding stop(2,3) b(2) [symmetric] by blast
  show ?thesis
  proof (cases "sw_last_state w2 = ST_TX")
    case False
    with e p(2) b(3,4) show ?thesis by (intro exI [of _ evs] exI [of _ out1]) (auto simp: booked_def)
  next
    case True
    with p(2) obtain w3 where w3: "drain_and_flush clk w2 s2 = ret (w3, s')" "w' = w3\<lparr>sw_last_state := ST_IDLE\<rparr>"
      by (auto simp: and_then_eq_ret)
    have "booked w s l evs out1 w3 s'" "sw_last_state w3 = ST_TX"
      using booked_open [OF e(1) True flush_feeds [OF w3(1)]] flush_feeds [OF w3(1)] True by (simp_all add: fed_only_def)
    with e(2,3) b(3) w3(2) True show ?thesis
      by (intro exI [of _ evs] exI [of _ "sw_samples_consumed w' - sw_samples_consumed w - sum_list (map ev_sample_count evs)"])
        (simp add: booked_def Let_def)
  qed
qed

lemma run_returns:
  assumes "steady_worker w"
  shows "\<exists>w' s'. sw_run clk sched final w s = ret (w', s') \<and> sw_last_state w' \<noteq> ST_TX"
proof -
  let ?w = "w\<lparr>sw_running := True, sw_last_state := ST_IDLE\<rparr>"
  obtain w1 s1 where l: "sw_loop clk sched ?w s = ret (w1, s1)" "steady_worker w1" using loop_returns [of ?w clk sched s] assms by auto
  then have "steady_worker (sw_stop w1)" by (simp add: sw_stop_def)
  then obtain w2 s2 where p: "poll_state_edges clk (sw_stop w1) (env_steps w1 final s1) = ret (w2, s2)" "steady_worker w2"
    using poll_returns by blast
  obtain w3 s3 where d: "drain_and_flush clk w2 s2 = ret (w3, s3)" using drain_and_flush_returns [OF p(2)] by blast
  from l p d show ?thesis by (auto simp: sw_run_def sw_finish_def)
qed

text \<open>C23: With channels of the tap-based models (geometric and replay), and static channels without motion whose
  clock ratio is not below 1/64, the worker thread always comes to its end once it is stopped: no call of a turn, of the drain loop at the end of a message or of the last flush
  throws or fails to return, whatever the other threads do.\<close>

theorem worker_run_returns:
  assumes "\<forall>og \<in> set (sw_outgoing w). steady (og_channel og)"
  shows "\<exists>w' s'. sw_run clk sched final w s = ret (w', s') \<and> sw_last_state w' \<noteq> ST_TX"
  by (rule run_returns [OF assms])

text \<open>A worker with one replay channel, its objects, and a message of two codes.\<close>

definition tiny_outgoing :: "channel \<Rightarrow> outgoing" where
  "tiny_outgoing c = \<lparr>og_channel = c, og_pair_buffer = 0, og_receiver_fill_tracker = None, og_receiver_rx_ring = None,
     og_receiver_sample_rate = 500000, og_propagation_delay_s = 0\<rparr>"

definition tiny_worker :: "channel \<Rightarrow> source_worker" where
  "tiny_worker c = (source_worker_new ''a'' 0 0 default_calibration [tiny_outgoing c])\<lparr>sw_message_event_log := Some 0\<rparr>"

definition tiny_shared :: shared where
  "tiny_shared = \<lparr>sh_runtime = \<lambda>_. initial_runtime, sh_tx_ring = \<lambda>_. the (spsc_new 0 16), sh_rx_ring = \<lambda>_. the (spsc_new 0 16),
     sh_tracker = \<lambda>_. cft_new cft_default_config, sh_estimator = \<lambda>_. tx_estimator_new 500000, sh_pair_buffers = [projr (pair_buffer_new 64 10)],
     sh_metrics = metrics_init, sh_stats = time_stats_new, sh_event_log = \<lambda>_. event_log_new\<lparr>el_open := True\<rparr>, sh_clock_reads = 0\<rparr>"

definition tiny_message :: turns where
  "tiny_message = message_turns [Env_Push [2048, 7]] [] [] [Env_Push [1]] ST_IDLE"

lemma tiny_ring: "\<exists>rb. spsc_new (0::u16) 16 = Some rb \<and> rb_capacity rb = 16"
  by (simp add: spsc_new_def spsc_cap_loop.simps)

lemma tiny_ok: "worker_ok (tiny_worker c) tiny_shared"
proof -
  obtain rb where "spsc_new (0::u16) 16 = Some rb" using tiny_ring by blast
  with spsc_new_inv [OF this] show ?thesis
    by (simp add: worker_ok_def tiny_worker_def tiny_shared_def pb_wired_def source_worker_new_def Let_def tiny_outgoing_def PROCESSING_BLOCK_SIZE_def)
qed

lemma tiny_tap: "cn_renderer c = Replay_R r \<Longrightarrow> steady_worker (tiny_worker c)"
  by (simp add: tiny_worker_def source_worker_new_def Let_def tiny_outgoing_def steady_def)

theorem worker_message_feeds_channels_witness:
  "\<exists>c w' s'. sw_loop (\<lambda>_. 0) tiny_message (tiny_worker c) tiny_shared = ret (w', s') \<and> tx_contents w' s' = [] \<and>
     sw_last_state w' = ST_IDLE"
proof -
  obtain c r where c: "cn_renderer (c :: channel) = Replay_R r" using tiny_channel_new by blast
  obtain w' s' where l: "sw_loop (\<lambda>_. 0) tiny_message (tiny_worker c) tiny_shared = ret (w', s')"
    using loop_returns [OF tiny_tap [OF c]] by blast
  from worker_message_feeds_channels [OF l [unfolded tiny_message_def] tiny_ok]
  have "tx_contents w' s' = [] \<and> sw_last_state w' = ST_IDLE"
    by (simp add: tiny_worker_def source_worker_new_def Let_def keeping_turns_def message_events_def)
  with l show ?thesis by blast
qed

text \<open>A whole message, then one that is still open at the stop: one line.\<close>

theorem worker_logs_every_message_witness:
  "\<exists>c w' s' ev. sw_run (\<lambda>_. 0) tiny_message [Env_Push [5], Env_State ST_TX] (tiny_worker c) tiny_shared = ret (w', s') \<and>
     ev_modem_id ev = ''a'' \<and> ev_sequence_id ev = 0 \<and> el_text (sh_event_log s' 0) = event_line ev"
proof -
  obtain c r where c: "cn_renderer (c :: channel) = Replay_R r" using tiny_channel_new by blast
  let ?final = "[Env_Push [5], Env_State ST_TX]"
  obtain w' s' where l: "sw_run (\<lambda>_. 0) tiny_message ?final (tiny_worker c) tiny_shared = ret (w', s')"
    using run_returns [OF tiny_tap [OF c]] by blast
  have f: "sw_message_event_log (tiny_worker c) = Some 0" "el_open (sh_event_log tiny_shared 0)" "el_text (sh_event_log tiny_shared 0) = []"
    "sw_tx_sequence_id (tiny_worker c) = 0" "sw_source_id (tiny_worker c) = ''a''"
    by (simp_all add: tiny_shared_def tiny_worker_def source_worker_new_def Let_def event_log_new_def)
  from worker_logs_every_message [OF l f(1,2)] obtain evs where
    e: "length evs = tx_exits (ST_IDLE # polled tiny_message ?final (live_state (tiny_worker c) tiny_shared))"
      "el_text (sh_event_log s' 0) = el_text (sh_event_log tiny_shared 0) @ concat (map event_line evs)"
      "list_all2 (tx_event (tiny_worker c)) [sw_tx_sequence_id (tiny_worker c) ..< sw_tx_sequence_id (tiny_worker c) + length evs] evs"
    by (elim exE conjE) (rule that)
  have n: "length evs = 1" unfolding e(1) by (simp add: tiny_message_def message_turns_def)
  then have evs: "length evs = 1" "el_text (sh_event_log s' 0) = concat (map event_line evs)"
    "list_all2 (tx_event (tiny_worker c)) [0 ..< length evs] evs"
    using e(2,3) f(3,4) by simp_all
  obtain ev where ev: "evs = [ev]" using evs(1) by (auto simp: length_Suc_conv)
  have "ev_modem_id ev = ''a'' \<and> ev_sequence_id ev = 0" using evs(3) f(5) by (simp add: ev tx_event_def)
  with l evs(2) show ?thesis by (intro exI [of _ c] exI [of _ w'] exI [of _ s'] exI [of _ ev]) (simp add: ev)
qed

theorem worker_run_returns_witness:
  "\<exists>c w' s'. sw_run (\<lambda>_. 0) tiny_message [] (tiny_worker c) tiny_shared = ret (w', s') \<and> sw_last_state w' \<noteq> ST_TX"
proof -
  obtain c r where c: "cn_renderer (c :: channel) = Replay_R r" using tiny_channel_new by blast
  from worker_run_returns [OF tiny_tap [OF c]] show ?thesis by blast
qed

end
