(* ===== verification/Signal_Path.thy ===== *)
theory Signal_Path
  imports Worker_Run
begin

text \<open>
  The signal path of one message, from its codes to what the receiver pulls: the calls a renderer makes for
  the blocks of a message, applied to a pair buffer that is read meanwhile, add to the buffer's timeline;
  the worker makes exactly those calls; and a pull of the receiver's mix returns that timeline as codes.
\<close>

section \<open>Calls that extend nothing\<close>

text \<open>The zone after a message is committed by its last call, if at all: before that, a renderer only
  scatters and commits.\<close>

fun no_extra :: "render_call list \<Rightarrow> bool" where
  "no_extra [] = True"
| "no_extra (R_Extra n # cs) = False"
| "no_extra (_ # cs) = no_extra cs"

lemma no_extra_append [simp]: "no_extra (cs @ ds) \<longleftrightarrow> no_extra cs \<and> no_extra ds"
  by (induction cs rule: no_extra.induct) simp_all

lemma no_extra_scatters [simp]: "no_extra (map (\<lambda>x. R_Scatter (f x) (g x)) xs)"
  by (induction xs) simp_all

lemma static_loop_no_extra: "static_loop r samples = Some (r', cs, used) \<Longrightarrow> no_extra cs"
proof (induction r samples "(r', cs, used)" arbitrary: r' cs used rule: static_loop.raw_induct [rotated 1, consumes 1, case_names step])
  case (step loop r samples)
  obtain f out u where p: "farrow_process (sr_resampler r) samples PROCESSING_BLOCK_SIZE = (f, out, u)" by (metis prod_cases3)
  have taps: "no_extra (snd (scatter_taps n xs q))" for n xs q by (simp add: scatter_taps_def case_prod_beta)
  show ?case
  proof (cases "samples = [] \<or> u = 0 \<and> out = [] \<or> length out < PROCESSING_BLOCK_SIZE")
    case True
    with step.hyps(2) p taps show ?thesis by (auto simp: Let_def case_prod_beta PROCESSING_BLOCK_SIZE_def split: if_splits)
  next
    case False
    let ?taps = "scatter_taps (sr_source_samples_processed r) out (r\<lparr>sr_resampler := f\<rparr>)"
    from False step.hyps(2) p obtain q m cs1 used1 where l: "loop q (drop u samples) = Some (r', cs1, used1)"
        "cs = snd ?taps @ R_Commit m # cs1"
      by (auto simp: Let_def case_prod_beta PROCESSING_BLOCK_SIZE_def split: if_splits bind_splits)
    from step.hyps(1) [OF l(1)] l(2) taps show ?thesis by simp
  qed
qed

lemma static_process_no_extra: "static_process xs r = ret (r', cs, used) \<Longrightarrow> no_extra cs"
  by (auto simp: static_process_def dest: static_loop_no_extra split: if_splits sum.splits)

lemma tap_loop_no_extra: "no_extra (snd (tap_loop src n r))"
proof (induction n arbitrary: r rule: less_induct)
  case (less n)
  have "no_extra (snd (tap_block src m q))" for m q by (simp add: tap_block_def case_prod_beta Let_def)
  moreover have "no_extra (snd (tap_loop src (n - min PROCESSING_BLOCK_SIZE n) q))" if "n \<noteq> 0" for q
    using less that by (simp add: PROCESSING_BLOCK_SIZE_def)
  ultimately show ?case by (subst tap_loop.simps) (simp add: case_prod_beta Let_def)
qed

lemma tap_process_no_extra: "no_extra (snd (tap_process src xs r))"
  by (simp add: tap_process_def tap_loop_no_extra)

lemma drain_tail_no_extra: "no_extra (snd (drain_tail src n r))"
proof (induction n arbitrary: r rule: less_induct)
  case (less n)
  have "no_extra (snd (drain_tail src (n - min PROCESSING_BLOCK_SIZE n) q))" if "n \<noteq> 0" for q
    using less that by (simp add: PROCESSING_BLOCK_SIZE_def)
  then show ?case by (subst drain_tail.simps) (simp add: case_prod_beta Let_def tap_process_no_extra)
qed

lemma process_no_extra: "renderer_process xs r = ret (r', cs, used) \<Longrightarrow> no_extra cs"
  by (cases r) (auto simp: lift_process_Some tap_process_op_def case_prod_beta tap_process_no_extra dest: static_process_no_extra)

text \<open>Only the static renderer commits the zone of its echoes after the message.\<close>

fun renderer_zone :: "renderer \<Rightarrow> nat" where
  "renderer_zone (Static_R r) = sr_max_tap_delta_samples r"
| "renderer_zone _ = 0"

lemma end_zone_last:
  assumes "renderer_end r = ret (r', cs)"
  shows "\<exists>ds es. cs = ds @ es \<and> no_extra ds \<and> (es = [R_Extra (renderer_zone r')] \<or> es = [] \<and> renderer_zone r' = 0)"
proof (cases r)
  case (Static_R q)
  obtain q' drain ds used where "static_process (replicate drain 0) q = ret (q', ds, used)" "cs = ds @ [R_Extra (sr_max_tap_delta_samples q')]"
      "r' = Static_R q'"
    using assms Static_R by (auto simp: lift_process_Some static_on_message_end_def Let_def split: sum.splits option.splits)
  then show ?thesis using static_process_no_extra by fastforce
next
  case (Geometric_R q)
  then have "cs = snd (drain_tail geometric_ops (tr_max_tap_delta_samples q) q) \<and> renderer_zone r' = 0"
    using assms by (auto simp: lift_process_Some tap_on_message_end_def)
  then show ?thesis using drain_tail_no_extra by (intro exI [of _ cs] exI [of _ "[]"]) simp
next
  case (Replay_R q)
  then have "cs = snd (drain_tail replay_ops (tr_max_tap_delta_samples q) q) \<and> renderer_zone r' = 0"
    using assms by (auto simp: lift_process_Some tap_on_message_end_def)
  then show ?thesis using drain_tail_no_extra by (intro exI [of _ cs] exI [of _ "[]"]) simp
qed

section \<open>What stands on the timeline\<close>

text \<open>From \<open>b\<close> to \<open>b'\<close> the receiver has read \<open>out\<close>, and position by position what it got or can still get
  is what stood in \<open>b\<close> with the additions made there, in order.\<close>

definition added_onto :: "real \<Rightarrow> (nat \<times> real) list \<Rightarrow> nat \<Rightarrow> real" where
  "added_onto x adds p = foldl fadd x (map snd (filter (\<lambda>a. fst a = p) adds))"

definition stands :: "pair_buffer \<Rightarrow> real list \<Rightarrow> (nat \<times> real) list \<Rightarrow> pair_buffer \<Rightarrow> bool" where
  "stands b out adds b' \<longleftrightarrow> pb_ok b' \<and> pb_capacity b' = pb_capacity b \<and> pb_read_pos b' = pb_read_pos b + length out \<and>
     (\<forall>a \<in> set adds. pb_read_pos b \<le> fst a) \<and>
     (\<forall>p \<ge> pb_read_pos b. (if p < pb_read_pos b' then out ! (p - pb_read_pos b) else pb_timeline b' p) =
        added_onto (pb_timeline b p) adds p)"

abbreviation shifted :: "nat \<Rightarrow> (nat \<times> real) list \<Rightarrow> (nat \<times> real) list" where
  "shifted n \<equiv> map (\<lambda>(p, x). (n + p, x))"

lemma added_onto_append: "added_onto x (adds @ new) p = added_onto (added_onto x adds p) new p"
  by (simp add: added_onto_def)

lemma added_onto_elsewhere: "\<forall>a \<in> set adds. fst a \<noteq> p \<Longrightarrow> added_onto x adds p = x"
  by (simp add: added_onto_def filter_empty_conv)

lemma stands_refl: "pb_ok b \<Longrightarrow> stands b [] [] b"
  by (simp add: stands_def added_onto_def)

lemma standsD:
  assumes "stands b out adds b'" and "pb_read_pos b \<le> p"
  shows "p < pb_read_pos b' \<Longrightarrow> out ! (p - pb_read_pos b) = added_onto (pb_timeline b p) adds p"
    and "\<not> p < pb_read_pos b' \<Longrightarrow> pb_timeline b' p = added_onto (pb_timeline b p) adds p"
  using assms by (simp_all add: stands_def, metis+)

lemma stands_trans:
  assumes "stands a xs adds b" and "stands b ys new c"
  shows "stands a (xs @ ys) (adds @ new) c"
proof -
  have rp: "pb_read_pos b = pb_read_pos a + length xs" "pb_read_pos c = pb_read_pos b + length ys" using assms by (simp_all add: stands_def)
  have "(if p < pb_read_pos c then (xs @ ys) ! (p - pb_read_pos a) else pb_timeline c p) = added_onto (pb_timeline a p) (adds @ new) p"
    if "pb_read_pos a \<le> p" for p
  proof (cases "p < pb_read_pos b")
    case True
    then have "added_onto x new p = x" for x using assms(2) by (intro added_onto_elsewhere) (auto simp: stands_def)
    moreover have "p - pb_read_pos a < length xs" using True that rp(1) by simp
    moreover have "xs ! (p - pb_read_pos a) = added_onto (pb_timeline a p) adds p"
      by (rule standsD(1) [OF assms(1) that True])
    ultimately show ?thesis using True that rp by (simp add: nth_append added_onto_append)
  next
    case False
    then have "pb_timeline b p = added_onto (pb_timeline a p) adds p" by (rule standsD(2) [OF assms(1) that])
    moreover have "(if p < pb_read_pos c then ys ! (p - pb_read_pos b) else pb_timeline c p) = added_onto (pb_timeline b p) new p"
      using standsD [OF assms(2), of p] False by (cases "p < pb_read_pos c") simp_all
    moreover have "\<not> p - pb_read_pos a < length xs" "p - pb_read_pos a - length xs = p - pb_read_pos b" using False that rp(1) by simp_all
    ultimately show ?thesis by (cases "p < pb_read_pos c") (simp_all add: nth_append added_onto_append)
  qed
  moreover have "\<forall>x \<in> set new. pb_read_pos a \<le> fst x" using assms(2) rp(1) by (auto simp: stands_def dest!: bspec)
  ultimately show ?thesis using assms rp by (auto simp: stands_def)
qed

lemma stands_read:
  assumes "pb_ok b"
  shows "stands b (snd (read_advance n b)) [] (fst (read_advance n b))"
proof -
  let ?k = "min n (pb_write_watermark b - pb_read_pos b)"
  have "map (pb_timeline b) [pb_read_pos b..<pb_read_pos b + ?k] ! (p - pb_read_pos b) = pb_timeline b p"
    if "pb_read_pos b \<le> p" "p < pb_read_pos b + ?k" for p
    using that by (subst nth_map) (simp_all del: min_less_iff_conj)
  then show ?thesis
    using pb_ok_step [OF assms, of "Read n"] pb_read_timeline [OF assms, of n]
    by (simp add: stands_def added_onto_def read_fields del: min_less_iff_conj)
qed

lemma stands_same:
  assumes "pb_ok b" and "pb_ok b'" and "pb_capacity b' = pb_capacity b" and "pb_read_pos b' = pb_read_pos b" and "pb_timeline b' = pb_timeline b"
  shows "stands b [] [] b'"
  using assms by (simp add: stands_def added_onto_def)

lemma stands_scatter:
  assumes "pb_ok b" and "pb_read_pos b \<le> pb_write_origin b + off"
    and "pb_write_origin b + off + length xs \<le> pb_read_pos b + pb_capacity b"
  shows "stands b [] (zip [pb_write_origin b + off..<pb_write_origin b + off + length xs] xs) (scatter_add (pb_read_pos b) off xs b)"
proof -
  note t = pb_scatter_timeline [OF assms(1) order_refl assms(2)]
  have "pb_timeline (scatter_add (pb_read_pos b) off xs b) p =
      added_onto (pb_timeline b p) (zip [pb_write_origin b + off..<pb_write_origin b + off + length xs] xs) p" if "pb_read_pos b \<le> p" for p
    using assms(3) by (auto simp: t [OF that] added_onto_def pb.filter_zip_upt)
  moreover have "fst a \<in> set [pb_write_origin b + off..<pb_write_origin b + off + length xs]"
    if "a \<in> set (zip [pb_write_origin b + off..<pb_write_origin b + off + length xs] xs)" for a
    using that by (metis in_set_zipE prod.collapse)
  ultimately show ?thesis
    using pb_ok_step [OF assms(1), of "Scatter (pb_read_pos b) off xs"] assms(2)
    by (fastforce simp: stands_def scatter_fields)
qed

text \<open>Progress \<open>p\<close> of a message is what is committed of it.\<close>

definition committed :: "nat \<Rightarrow> pair_buffer \<Rightarrow> bool" where
  "committed p b \<longleftrightarrow> pb_write_watermark b \<le> pb_write_origin b + p \<and> (0 < p \<longrightarrow> pb_write_watermark b = pb_write_origin b + p)"

lemma apply_calls_Cons [simp]: "apply_calls (c # cs) b = apply_calls cs (apply_call b c)"
  by (simp add: apply_calls_def)

lemma apply_calls_stands:
  assumes "calls_within hi p cs p'" and "no_extra cs" and "pb_ok b" and "committed p b"
    and "pb_write_origin b + hi \<le> pb_read_pos b + pb_capacity b"
  shows "stands b [] (shifted (pb_write_origin b) (adds_of cs)) (apply_calls cs b) \<and> committed p' (apply_calls cs b)"
  using assms
proof (induction hi p cs p' arbitrary: b rule: calls_within.induct)
  case (1 hi p p')
  then show ?case by (simp add: stands_refl apply_calls_def)
next
  case (2 hi p off xs cs p')
  let ?b = "apply_call b (R_Scatter off xs)"
  note f = apply_call_fields [of b "R_Scatter off xs"]
  have "pb_write_watermark ?b = pb_write_watermark b" by (simp add: apply_call_def call_op_def scatter_fields)
  then have ih: "stands ?b [] (shifted (pb_write_origin ?b) (adds_of cs)) (apply_calls cs ?b) \<and> committed p' (apply_calls cs ?b)"
    using 2 f pb_ok_step [of b "Scatter (pb_read_pos b) off xs"]
    by (intro "2.IH") (auto simp: committed_def apply_call_def call_op_def)
  have "shifted o' (zip [off..<off + length xs] xs) = zip [o' + off..<o' + off + length xs] xs" for o'
    by (rule nth_equalityI) auto
  then have "stands b [] (shifted (pb_write_origin b) (zip [off..<off + length xs] xs)) ?b"
    using stands_scatter [of b off xs] 2 by (auto simp: apply_call_def call_op_def committed_def pb_ok_def)
  with stands_trans [OF this] ih f show ?case by fastforce
next
  case (3 hi p n cs p')
  let ?b = "apply_call b (R_Commit n)"
  note f = apply_call_fields [of b "R_Commit n"]
  have "committed n ?b" using 3 by (auto simp: committed_def apply_call_def call_op_def commit_source_progress_def Let_def)
  moreover have ok: "pb_ok ?b" using pb_ok_step [of b "Commit n"] 3 by (simp add: apply_call_def call_op_def)
  ultimately have ih: "stands ?b [] (shifted (pb_write_origin ?b) (adds_of cs)) (apply_calls cs ?b) \<and> committed p' (apply_calls cs ?b)"
    using 3 f by (intro "3.IH") auto
  have "pb_timeline ?b = pb_timeline b"
    by (simp add: apply_call_def call_op_def commit_source_progress_def Let_def pb_timeline_def)
  with f ok 3 have "stands b [] [] ?b" by (intro stands_same) simp_all
  from stands_trans [OF this conjunct1 [OF ih]] ih f show ?case by simp
qed simp

text \<open>The end of a message may commit the zone after it as well.\<close>

lemma apply_extra: "apply_call b (R_Extra n) = commit_extra n b"
  by (simp add: apply_call_def call_op_def)

lemma extra_stands: "pb_ok b \<Longrightarrow> stands b [] [] (commit_extra n b)"
  using pb_ok_step [of b "Extra n"] by (intro stands_same) (auto simp: commit_extra_def pb_timeline_def)

lemma calls_within_drop_extra: "calls_within hi p (cs @ [R_Extra n]) p' \<longleftrightarrow> calls_within hi p cs p'"
  by (induction hi p cs p' rule: calls_within.induct) simp_all

section \<open>A message on the timeline\<close>

text \<open>The renderer alone: its calls for a message in blocks.\<close>

fun render_blocks :: "real list list \<Rightarrow> renderer \<Rightarrow> (renderer \<times> render_call list) res" where
  "render_blocks [] r = ret (r, [])"
| "render_blocks (xs # xss) r = and_then (renderer_process xs r) (\<lambda>(r1, cs, used).
     and_then (render_blocks xss r1) (\<lambda>(r2, ds). ret (r2, cs @ ds)))"

definition render_message :: "real list list \<Rightarrow> renderer \<Rightarrow> (renderer \<times> render_call list) res" where
  "render_message xss r = (case renderer_start r of Inl e \<Rightarrow> Inl e | Inr r0 \<Rightarrow>
     and_then (render_blocks xss r0) (\<lambda>(r1, cs). and_then (renderer_end r1) (\<lambda>(r2, ds). ret (r2, cs @ ds))))"

fun blocks_of :: "channel_event list \<Rightarrow> real list list" where
  "blocks_of [] = []"
| "blocks_of (Feed xs # evs) = xs # blocks_of evs"
| "blocks_of (Receive n # evs) = blocks_of evs"

lemma concat_blocks: "concat (blocks_of evs) = feeds evs"
  by (induction evs rule: feeds.induct) simp_all

lemma channel_run_stands:
  assumes "channel_run evs c b = ret (c', b', out)" and "renderer_good (cn_renderer c)" and "pb_ok b"
    and "committed (renderer_progress (cn_renderer c)) b"
    and "pb_write_origin b + renderer_progress (cn_renderer c') + renderer_max_tap_delta (cn_renderer c) \<le> pb_read_pos b + pb_capacity b"
  shows "\<exists>cs. render_blocks (blocks_of evs) (cn_renderer c) = ret (cn_renderer c', cs) \<and>
    stands b out (shifted (pb_write_origin b) (adds_of cs)) b' \<and> committed (renderer_progress (cn_renderer c')) b'"
  using assms
proof (induction evs arbitrary: c b out)
  case Nil
  then show ?case by (auto simp: stands_refl)
next
  case (Cons ev evs)
  show ?case
  proof (cases ev)
    case (Feed xs)
    obtain r cs used where p: "renderer_process xs (cn_renderer c) = ret (r, cs, used)"
      "channel_run evs (c\<lparr>cn_renderer := r\<rparr>) (apply_calls cs b) = ret (c', b', out)"
      using Cons.prems(1) Feed by (auto simp: channel_process_def split: sum.splits option.splits)
    let ?b = "apply_calls cs b"
    note law = rend.process_law [OF Cons.prems(2) p(1)]
    note frame = apply_calls_frame [of cs b]
    have le: "renderer_progress r \<le> renderer_progress (cn_renderer c')" using channel_run_facts [OF p(2)] law by simp
    have one: "stands b [] (shifted (pb_write_origin b) (adds_of cs)) ?b \<and> committed (renderer_progress r) ?b"
      by (rule apply_calls_stands [OF _ process_no_extra [OF p(1)] Cons.prems(3,4)]) (use law le Cons.prems(5) in auto)
    have "\<exists>ds. render_blocks (blocks_of evs) r = ret (cn_renderer c', ds) \<and>
        stands ?b out (shifted (pb_write_origin ?b) (adds_of ds)) b' \<and> committed (renderer_progress (cn_renderer c')) b'"
      using Cons.IH [OF p(2)] law one frame Cons.prems(5) by (simp add: stands_def)
    then obtain ds where "render_blocks (blocks_of evs) r = ret (cn_renderer c', ds)"
        "stands ?b out (shifted (pb_write_origin b) (adds_of ds)) b'" "committed (renderer_progress (cn_renderer c')) b'"
      using frame by auto
    with stands_trans [OF conjunct1 [OF one]] p(1) Feed show ?thesis by fastforce
  next
    case (Receive n)
    let ?b = "fst (read_advance n b)"
    obtain out' where p: "channel_run evs c ?b = ret (c', b', out')" "out = snd (read_advance n b) @ out'"
      using Cons.prems(1) Receive by (auto simp: case_prod_unfold Let_def split: sum.splits option.splits)
    note frame = read_advance_frame [of b n] read_fields [of n b]
    have "committed (renderer_progress (cn_renderer c)) ?b" using Cons.prems(4) frame by (simp add: committed_def)
    moreover note read = stands_read [OF Cons.prems(3), of n]
    ultimately obtain cs where "render_blocks (blocks_of evs) (cn_renderer c) = ret (cn_renderer c', cs)"
        "stands ?b out' (shifted (pb_write_origin b) (adds_of cs)) b'" "committed (renderer_progress (cn_renderer c')) b'"
      using Cons.IH [OF p(1) Cons.prems(2)] Cons.prems(5) frame by (auto simp: stands_def)
    with stands_trans [OF read] p(2) Receive show ?thesis by fastforce
  qed
qed

lemma message_stands:
  assumes "renderer_good (cn_renderer c)" and "pb_ok b" and "pb_first_message b \<longrightarrow> pb_write_watermark b \<le> pb_base_delay_samples b"
    and "channel_on_message_start gap absolute_origin c b = Inr (c0, b0)"
    and "channel_run evs c0 b0 = ret (c1, b1, out)" and "channel_on_message_end c1 b1 = ret (c2, b2)"
    and "pb_write_origin b0 + renderer_progress (cn_renderer c2) + channel_max_tap_delta_samples c \<le> pb_read_pos b + pb_capacity b"
  shows "\<exists>cs. render_message (blocks_of evs) (cn_renderer c) = ret (cn_renderer c2, cs) \<and>
    b0 = begin_message gap absolute_origin b \<and> stands b out (shifted (pb_write_origin b0) (adds_of cs)) b2 \<and>
    (0 < renderer_progress (cn_renderer c2) \<longrightarrow>
       pb_write_watermark b2 = pb_write_origin b0 + renderer_progress (cn_renderer c2) + renderer_zone (cn_renderer c2))"
proof -
  obtain r0 where r0: "renderer_start (cn_renderer c) = Inr r0" "c0 = c\<lparr>cn_renderer := r0\<rparr>" "b0 = begin_message gap absolute_origin b"
    using assms(4) by (auto simp: channel_on_message_start_def split: sum.splits)
  obtain r2 cs2 where r2: "renderer_end (cn_renderer c1) = ret (r2, cs2)" "c2 = c1\<lparr>cn_renderer := r2\<rparr>" "b2 = apply_calls cs2 b1"
    using assms(6) by (auto simp: channel_on_message_end_def split: sum.splits option.splits)
  have b0: "pb_capacity b0 = pb_capacity b" "pb_read_pos b0 = pb_read_pos b" "pb_timeline b0 = pb_timeline b"
      "pb_write_watermark b0 = pb_write_watermark b" "pb_write_watermark b \<le> pb_write_origin b0"
    using assms(3) unfolding r0(3) by (simp_all add: begin_message_def pb_timeline_def)
  have ok0: "pb_ok b0" using pb_ok_step [OF assms(2), of "Begin gap absolute_origin"] by (simp add: r0(3))
  note start = rend.start_law [OF assms(1) r0(1)]
  have good: "renderer_good (cn_renderer c0)" and zero: "renderer_progress (cn_renderer c0) = 0"
    and lead: "renderer_max_tap_delta (cn_renderer c0) = channel_max_tap_delta_samples c"
    using start r0(2) by (simp_all add: channel_max_tap_delta_samples_def)
  note run = channel_run_facts [OF assms(5) good]
  from rend.finish_law [OF _ r2(1)] run lead have fin: "calls_within (renderer_progress r2 + channel_max_tap_delta_samples c)
      (renderer_progress (cn_renderer c1)) cs2 (renderer_progress r2)" by simp
  from end_zone_last [OF r2(1)] obtain ds es where e: "cs2 = ds @ es" "no_extra ds"
      "es = [R_Extra (renderer_zone r2)] \<or> es = [] \<and> renderer_zone r2 = 0" by blast
  have fin': "calls_within (renderer_progress r2 + channel_max_tap_delta_samples c) (renderer_progress (cn_renderer c1)) ds (renderer_progress r2)"
    using fin e(1,3) calls_within_drop_extra by auto
  note le = calls_within_le [OF fin]
  have "committed (renderer_progress (cn_renderer c0)) b0" using b0(4,5) zero by (simp add: committed_def)
  from channel_run_stands [OF assms(5) good ok0 this] lead le assms(7) b0(2) r2(2) b0(1) obtain cs where
    cs: "render_blocks (blocks_of evs) (cn_renderer c0) = ret (cn_renderer c1, cs)"
      "stands b0 out (shifted (pb_write_origin b0) (adds_of cs)) b1" "committed (renderer_progress (cn_renderer c1)) b1" by auto
  have ok1: "pb_ok b1" using cs(2) by (simp add: stands_def)
  have "stands b1 [] (shifted (pb_write_origin b1) (adds_of ds)) (apply_calls ds b1) \<and> committed (renderer_progress r2) (apply_calls ds b1)"
    by (rule apply_calls_stands [OF fin' e(2) ok1 cs(3)]) (use run assms(7) b0 r2(2) in simp)
  then have d: "stands b1 [] (shifted (pb_write_origin b0) (adds_of ds)) (apply_calls ds b1)" "committed (renderer_progress r2) (apply_calls ds b1)"
    using run by simp_all
  have b2: "b2 = apply_calls es (apply_calls ds b1)" by (simp add: r2(3) e(1) apply_calls_def)
  have ok: "pb_ok (apply_calls ds b1)" using d(1) by (simp add: stands_def)
  have last: "stands (apply_calls ds b1) [] [] b2"
    using e(3) stands_refl [OF ok] extra_stands [OF ok] by (auto simp: b2 apply_extra apply_calls_def [of "[]"])
  have zone: "pb_write_watermark b2 = pb_write_watermark (apply_calls ds b1) + renderer_zone r2"
    using e(3) by (auto simp: b2 apply_extra apply_calls_def [of "[]"] commit_extra_def)
  have "adds_of cs2 = adds_of ds" using e(3) by (auto simp: e(1))
  with stands_trans [OF cs(2) stands_trans [OF d(1) last]]
  have "stands b0 out (shifted (pb_write_origin b0) (adds_of (cs @ cs2))) b2" by simp
  moreover have "stands b0 = stands b" by (intro ext) (simp only: stands_def b0)
  moreover have "render_message (blocks_of evs) (cn_renderer c) = ret (cn_renderer c2, cs @ cs2)"
    using r0(1,2) cs(1) r2(1,2) by (simp add: render_message_def)
  moreover have "pb_write_origin (apply_calls ds b1) = pb_write_origin b0" using apply_calls_frame [of ds b1] run by simp
  ultimately show ?thesis using d(2) zone r0(3) r2(2) by (intro exI [of _ "cs @ cs2"]) (auto simp: committed_def)
qed

text \<open>What the renderer does in a message depends on the blocks alone.\<close>

lemma channel_run_renders:
  "channel_run evs c b = ret (c', b', out) \<Longrightarrow> \<exists>cs. render_blocks (blocks_of evs) (cn_renderer c) = ret (cn_renderer c', cs)"
proof (induction evs arbitrary: c b out rule: blocks_of.induct)
  case (2 xs evs)
  then obtain r cs used b1 where "renderer_process xs (cn_renderer c) = ret (r, cs, used)" "channel_run evs (c\<lparr>cn_renderer := r\<rparr>) b1 = ret (c', b', out)"
    by (auto simp: channel_process_def split: sum.splits option.splits)
  with "2.IH" [of "c\<lparr>cn_renderer := r\<rparr>" b1 out] show ?case by auto
qed (auto simp: case_prod_unfold Let_def split: sum.splits option.splits)

lemma message_renders:
  assumes "channel_on_message_start gap absolute_origin c b = Inr (c0, b0)" and "channel_run evs c0 b0 = ret (c1, b1, out)"
    and "channel_on_message_end c1 b1 = ret (c2, b2)"
  shows "\<exists>cs. render_message (blocks_of evs) (cn_renderer c) = ret (cn_renderer c2, cs)"
  using channel_run_renders [OF assms(2)] assms(1,3)
  by (auto simp: channel_on_message_start_def channel_on_message_end_def render_message_def split: sum.splits option.splits)

section \<open>Through a static channel\<close>

lemma render_static_blocks:
  "static_blocks xss r = ret (r', cs) \<Longrightarrow> render_blocks xss (Static_R r) = ret (Static_R r', cs)"
proof (induction xss arbitrary: r cs)
  case (Cons xs xss)
  then obtain r1 c1 used ds where "static_process xs r = ret (r1, c1, used)" "static_blocks xss r1 = ret (r', ds)" "cs = c1 @ ds"
    by (auto split: sum.splits option.splits)
  with Cons.IH show ?case by (simp add: lift_process_def)
qed simp

lemma render_static:
  "static_message xss r = ret (r', cs) \<Longrightarrow> render_message xss (Static_R r) = ret (Static_R r', cs)"
  by (auto simp: static_message_def render_message_def lift_process_def and_then_def dest!: render_static_blocks split: sum.splits option.splits)

lemma adc_is_float: "f32 (adc_to_float x bits) = adc_to_float x bits"
  by (simp add: adc_to_float_def Let_def)

text \<open>The resampled stream of a message, and what its taps add from \<open>origin\<close> on.\<close>

definition padded :: "static_renderer \<Rightarrow> real list \<Rightarrow> real list" where
  "padded r xs = take (length xs + drain_zeros r + 1) (replicate 3 0 @ xs @ replicate (drain_zeros r) 0)"

definition tap_additions :: "static_renderer \<Rightarrow> nat \<Rightarrow> real list \<Rightarrow> (nat \<times> real) multiset" where
  "tap_additions r origin F = (\<Sum>tap \<in># mset (sr_taps r).
     image_mset (\<lambda>i. (origin + i + rt_delta_samples tap, tap_out r F tap i)) (mset [0..<length F]))"

lemma image_mset_sums: "image_mset f (\<Sum>x \<in># M. g x) = (\<Sum>x \<in># M. image_mset f (g x))"
  by (induction M) simp_all

lemma tap_additions_shifted:
  "mset adds = (\<Sum>tap \<in># mset (sr_taps r). image_mset (\<lambda>i. (i + rt_delta_samples tap, tap_out r F tap i)) (mset [0..<length F])) \<Longrightarrow>
     mset (shifted origin adds) = tap_additions r origin F"
  unfolding tap_additions_def mset_map
  by (simp add: image_mset_sums multiset.map_comp comp_def add.assoc)

lemma static_transmission:
  assumes loop: "sw_loop clk (message_turns before between mids after st) w s = ret (w', s')"
    and story: "worker_ok w s" "sw_last_state w \<noteq> ST_TX" "st \<noteq> ST_TX" "keeps_state between" "keeping_turns mids"
      "small_pushes (map Others (before @ [Env_State ST_TX]))" "small_pushes (message_events between mids after st)"
  defines "s0 \<equiv> env_steps w (before @ [Env_State ST_TX]) s"
  defines "now \<equiv> clk (sh_clock_reads s0)"
    and "codes \<equiv> tx_contents w s0 @ ring_accepts w s0 (message_events between mids after st)"
  assumes j: "j < length (sw_outgoing w)"
    and still: "cn_renderer (og_channel (sw_outgoing w ! j)) = Static_R r" "static_good r" "sr_clock_offset_ppm r = 0"
      "sr_velocity_radial_m_s r = 0" "sr_acceleration_radial_m_s2 r = 0"
  defines "k \<equiv> og_pair_buffer (sw_outgoing w ! j)"
  defines "b \<equiv> sh_pair_buffers s0 ! k" and "b' \<equiv> sh_pair_buffers s' ! k" and "F \<equiv> padded r (as_samples w codes)"
  assumes buffer: "pb_ok b" "pb_first_message b \<longrightarrow> pb_write_watermark b \<le> pb_base_delay_samples b"
    and gap: "arrival_gap (tx_start_bound now w s0) now s0 (sw_outgoing w ! j) = (gap, late, aligned)"
  defines "origin \<equiv> pb_write_origin (begin_message gap aligned b)"
  assumes room: "origin + length F + sr_max_tap_delta_samples r \<le> pb_read_pos b + pb_capacity b"
  shows "\<exists>out adds. mset adds = tap_additions r origin F \<and> stands b out adds b' \<and> k < length (sh_pair_buffers s') \<and>
    pb_write_watermark b' = origin + length F + sr_max_tap_delta_samples r"
proof -
  note loop_story = loop_message_story [OF loop story, folded s0_def, folded now_def codes_def]
  have "lone_message (tx_start_bound now w s0) now s0 (sw_outgoing w ! j) (as_samples w codes) (own (sw_outgoing w' ! j) (sh_pair_buffers s'))"
    and same: "og_wiring (sw_outgoing w' ! j) = og_wiring (sw_outgoing w ! j)" using loop_story j by simp_all
  then obtain c0 b0 evs out c1 b1 c2 where m: "channel_on_message_start gap aligned (og_channel (sw_outgoing w ! j)) b = Inr (c0, b0)"
      "channel_run evs c0 b0 = ret (c1, b1, out)" "feeds evs = as_samples w codes" "channel_on_message_end c1 b1 = ret (c2, b')"
    using gap wiring_slot [OF same] by (auto simp: lone_message_def own_def b_def b'_def k_def)
  have "sw_outgoing w' ! j \<in> set (sw_outgoing w')" "pb_wired (sw_outgoing w') (sh_pair_buffers s')"
    using loop_story j by (simp_all add: worker_ok_def)
  then have k: "k < length (sh_pair_buffers s')" using wiring_slot [OF same] by (auto simp: pb_wired_def k_def)
  have floats: "\<forall>x \<in> set (concat (blocks_of evs)). f32 x = x"
    unfolding concat_blocks m(3) by (auto simp: as_samples_def adc_is_float)
  have F: "F = take (length (concat (blocks_of evs)) + drain_zeros r + 1)
      (replicate 3 0 @ concat (blocks_of evs) @ replicate (drain_zeros r) 0)"
    unfolding concat_blocks m(3) by (simp add: F_def padded_def)
  from static_message_unity [OF still(2-5) floats F] obtain r2 cs where
    r2: "static_message (blocks_of evs) r = ret (r2, cs)" "sr_source_samples_processed r2 = length F"
      "mset (adds_of cs) = (\<Sum>tap \<in># mset (sr_taps r). image_mset (\<lambda>i. (i + rt_delta_samples tap, tap_out r F tap i)) (mset [0..<length F]))"
    by auto
  have c2: "cn_renderer c2 = Static_R r2" using message_renders [OF m(1,2,4)] render_static [OF r2(1)] still(1) by simp
  have zone: "sr_max_tap_delta_samples r2 = sr_max_tap_delta_samples r"
    using static.message_within [OF static_message_message [OF r2(1)] still(2)] by simp
  have pos: "0 < length F" by (simp add: F_def padded_def)
  have o0: "pb_write_origin b0 = origin" using m(1) by (auto simp: origin_def channel_on_message_start_def split: sum.splits)
  have "renderer_good (cn_renderer (og_channel (sw_outgoing w ! j)))" using still(1,2) by simp
  from message_stands [OF this buffer m(1,2,4)] o0 c2 r2(2) room still(1) obtain cs' where
    "render_message (blocks_of evs) (cn_renderer (og_channel (sw_outgoing w ! j))) = ret (cn_renderer c2, cs')"
    "stands b out (shifted origin (adds_of cs')) b'"
    "pb_write_watermark b' = origin + length F + sr_max_tap_delta_samples r2"
    using pos by (auto simp: channel_max_tap_delta_samples_def)
  moreover from this(1) have "cs' = cs" using render_static [OF r2(1)] still(1) by simp
  ultimately show ?thesis
    using k zone by (intro exI [of _ out] exI [of _ "shifted origin (adds_of cs)"] conjI tap_additions_shifted [OF r2(3)]) simp_all
qed

section \<open>What the receiver pulls\<close>

lemma mix_of_one: "mix_at pbs [k] i = (if i < available_read (pbs ! k) then fadd 0 (pb_timeline (pbs ! k) (pb_read_pos (pbs ! k) + i)) else 0)"
  by (simp add: mix_at_def)

text \<open>A receiver with one incoming buffer, and room in its ring: it gets the timeline from the read head on.\<close>

lemma pull_of_one:
  assumes "rm_incoming rm = [k]" and "k < length pbs" and "pb_ok (pbs ! k)" and "spsc_inv ring" and "n < 2 ^ 64"
    and "length (spsc_contents ring) + n \<le> unat (rb_capacity ring)" and "pull gs n rm pbs ring = (rm', pbs', ring', accepted)"
  shows "spsc_contents ring' = spsc_contents ring @ pulled gs n rm pbs"
proof (cases "n = 0")
  case True
  with assms(7) show ?thesis by (simp add: pull_def pulled_def)
next
  case False
  then have p: "pull_loop gs n 0 rm pbs ring = (rm', pbs', ring', accepted)" using assms(7) by (simp add: pull_def)
  have "mix_wf rm pbs" using assms(1-3) by (simp add: mix_wf_def)
  from pull_loop_facts [OF this assms(4,5) p] assms(6) show ?thesis by (simp add: length_pulled)
qed

lemma transmission_heard:
  assumes loop: "sw_loop clk (message_turns before between mids after st) w s = ret (w', s')"
    and story: "worker_ok w s" "sw_last_state w \<noteq> ST_TX" "st \<noteq> ST_TX" "keeps_state between" "keeping_turns mids"
      "small_pushes (map Others (before @ [Env_State ST_TX]))" "small_pushes (message_events between mids after st)"
  defines "s0 \<equiv> env_steps w (before @ [Env_State ST_TX]) s"
  defines "now \<equiv> clk (sh_clock_reads s0)"
    and "codes \<equiv> tx_contents w s0 @ ring_accepts w s0 (message_events between mids after st)"
  assumes j: "j < length (sw_outgoing w)"
    and still: "cn_renderer (og_channel (sw_outgoing w ! j)) = Static_R r" "static_good r" "sr_clock_offset_ppm r = 0"
      "sr_velocity_radial_m_s r = 0" "sr_acceleration_radial_m_s2 r = 0"
  defines "k \<equiv> og_pair_buffer (sw_outgoing w ! j)"
  defines "b \<equiv> sh_pair_buffers s0 ! k" and "b' \<equiv> sh_pair_buffers s' ! k" and "F \<equiv> padded r (as_samples w codes)"
  assumes buffer: "pb_ok b" "pb_first_message b \<longrightarrow> pb_write_watermark b \<le> pb_base_delay_samples b"
    and gap: "arrival_gap (tx_start_bound now w s0) now s0 (sw_outgoing w ! j) = (gap, late, aligned)"
  defines "origin \<equiv> pb_write_origin (begin_message gap aligned b)"
  assumes room: "origin + length F + sr_max_tap_delta_samples r \<le> pb_read_pos b + pb_capacity b"
    and receiver: "rm_incoming rm = [k]" "spsc_inv ring" "n < 2 ^ 64" "length (spsc_contents ring) + n \<le> unat (rb_capacity ring)"
      "pull gs n rm (sh_pair_buffers s') ring = (rm', pbs', ring', accepted)"
  shows "\<exists>adds. mset adds = tap_additions r origin F \<and> pb_read_pos b \<le> pb_read_pos b' \<and>
    spsc_contents ring' = spsc_contents ring @ map (\<lambda>i. let p = pb_read_pos b' + i
      in float_to_dac (fadd (if p < origin + length F + sr_max_tap_delta_samples r then fadd 0 (added_onto (pb_timeline b p) adds p) else 0)
           (snd (generate gs n (rm_noise_gen rm)) ! i)) (cal_dac_bits (rm_rcv_cal rm))) [0..<n]"
proof -
  from static_transmission [OF loop story, folded s0_def, folded now_def codes_def, OF j still, folded k_def, folded b_def b'_def F_def,
      OF buffer gap, folded origin_def, OF room]
  obtain out adds where t: "mset adds = tap_additions r origin F" "stands b out adds b'" "k < length (sh_pair_buffers s')"
      "pb_write_watermark b' = origin + length F + sr_max_tap_delta_samples r" by blast
  have ok: "pb_ok b'" and rp: "pb_read_pos b \<le> pb_read_pos b'" using t(2) by (simp_all add: stands_def)
  have "pb_timeline b' p = added_onto (pb_timeline b p) adds p" if "pb_read_pos b' \<le> p" for p
    using standsD(2) [OF t(2), of p] rp that by simp
  then have "mix_at (sh_pair_buffers s') [k] i = (if pb_read_pos b' + i < origin + length F + sr_max_tap_delta_samples r
      then fadd 0 (added_onto (pb_timeline b (pb_read_pos b' + i)) adds (pb_read_pos b' + i)) else 0)" for i
    unfolding mix_of_one available_read_eq b'_def [symmetric] t(4) by auto
  then have "pulled gs n rm (sh_pair_buffers s') = map (\<lambda>i. let p = pb_read_pos b' + i
      in float_to_dac (fadd (if p < origin + length F + sr_max_tap_delta_samples r then fadd 0 (added_onto (pb_timeline b p) adds p) else 0)
           (snd (generate gs n (rm_noise_gen rm)) ! i)) (cal_dac_bits (rm_rcv_cal rm))) [0..<n]"
    by (simp add: pulled_def receiver(1) Let_def)
  with pull_of_one [OF receiver(1) t(3) ok [unfolded b'_def] receiver(2-5)] t(1) rp show ?thesis by auto
qed

section \<open>A clear channel\<close>

lemma added_onto_line:
  assumes "mset adds = image_mset (\<lambda>i. (c + i, g i)) (mset [0..<m])"
  shows "added_onto x adds p = (if c \<le> p \<and> p < c + m then fadd x (g (p - c)) else x)"
proof -
  have one: "filter (\<lambda>i. c + i = p) [0..<m] = (if c \<le> p \<and> p < c + m then [p - c] else [])" by (induction m) auto
  have "mset (filter (\<lambda>a. fst a = p) adds) = image_mset (\<lambda>i. (c + i, g i)) (mset (filter (\<lambda>i. c + i = p) [0..<m]))"
    by (simp add: assms filter_mset_image_mset comp_def)
  then have "mset (filter (\<lambda>a. fst a = p) adds) = (if c \<le> p \<and> p < c + m then {# (p, g (p - c)) #} else {#})"
    unfolding one by auto
  then have "filter (\<lambda>a. fst a = p) adds = (if c \<le> p \<and> p < c + m then [(p, g (p - c))] else [])"
    by (cases "c \<le> p \<and> p < c + m") (simp_all del: mset_filter)
  then show ?thesis by (simp add: added_onto_def)
qed

lemma padded_nth:
  assumes "\<not> sr_needs_hilbert r"
  shows "length (padded r xs) = length xs + 5"
    and "i < length xs + 5 \<Longrightarrow> padded r xs ! i = (if 3 \<le> i \<and> i < 3 + length xs then xs ! (i - 3) else 0)"
  using assms by (auto simp: padded_def drain_zeros_def kFarrowDrainZeros_def nth_append)

text \<open>A direct path of unit gain, without motion.\<close>

definition clear_path :: "nat \<Rightarrow> static_renderer \<Rightarrow> bool" where
  "clear_path d r \<longleftrightarrow> sr_taps r = [\<lparr>rt_delta_samples = d, rt_gain = 1, rt_gain_imag = 0\<rparr>] \<and> \<not> sr_needs_hilbert r"

lemma clear_sum:
  assumes "clear_path d r" and "mset adds = tap_additions r origin (padded r xs)" and "\<forall>x \<in> set xs. f32 x = x"
  shows "added_onto 0 adds p = (if origin + d + 3 \<le> p \<and> p < origin + d + 3 + length xs then xs ! (p - (origin + d + 3)) else 0)"
proof -
  let ?F = "padded r xs"
  have nh: "\<not> sr_needs_hilbert r" using assms(1) by (simp add: clear_path_def)
  note F = padded_nth [OF nh]
  have "mset adds = image_mset (\<lambda>i. (origin + d + i, fmul (?F ! i) 1)) (mset [0..<length ?F])"
    unfolding assms(2) using assms(1) by (simp add: tap_additions_def clear_path_def tap_out_def ac_simps)
  note line = added_onto_line [OF this]
  have x: "f32 (xs ! i) = xs ! i" if "i < length xs" for i using assms(3) that by simp
  show ?thesis
  proof (cases "origin + d \<le> p \<and> p < origin + d + length ?F")
    case True
    then have "p - (origin + d) < length xs + 5" unfolding F(1) by arith
    moreover have "p - (origin + d) - 3 = p - (origin + d + 3)" by simp
    ultimately show ?thesis
      using True F(2) [of "p - (origin + d)" xs] x [of "p - (origin + d + 3)"] by (auto simp: line)
  qed (auto simp: line F(1))
qed

lemma padded_silence: "map (\<lambda>i. f (if c \<le> a + i \<and> a + i < c + length xs then xs ! (a + i - c) else z)) [0..<n] =
    replicate (c - a) (f z) @ map f xs @ replicate (n - (c - a) - length xs) (f z)"
  if "a \<le> c" "c - a + length xs \<le> n" for xs :: "real list" and f :: "real \<Rightarrow> u16"
proof (rule nth_equalityI)
  fix i assume "i < length (map (\<lambda>i. f (if c \<le> a + i \<and> a + i < c + length xs then xs ! (a + i - c) else z)) [0..<n])"
  then have i: "i < n" by simp
  have "a + i - c = i - (c - a)" "c \<le> a + i \<longleftrightarrow> c - a \<le> i" "a + i < c + length xs \<longleftrightarrow> i < c - a + length xs" using that(1) by auto
  then show "map (\<lambda>i. f (if c \<le> a + i \<and> a + i < c + length xs then xs ! (a + i - c) else z)) [0..<n] ! i =
      (replicate (c - a) (f z) @ map f xs @ replicate (n - (c - a) - length xs) (f z)) ! i"
    using i that(2) by (auto simp: nth_append)
qed (use that in simp)

lemma clear_window:
  assumes sum: "\<And>p. added_onto 0 adds p = (if c \<le> p \<and> p < c + length xs then xs ! (p - c) else 0)"
    and floats: "\<forall>x \<in> set xs. f32 x = x" and whole: "a \<le> c" "c + length xs \<le> a + n" and fits: "c + length xs \<le> e"
  shows "map (\<lambda>i. float_to_dac (fadd (if a + i < e then fadd 0 (added_onto 0 adds (a + i)) else 0) 0) bits) [0..<n] =
    replicate (c - a) (float_to_dac 0 bits) @ map (\<lambda>x. float_to_dac x bits) xs @ replicate (a + n - (c + length xs)) (float_to_dac 0 bits)"
proof -
  have "(if a + i < e then fadd 0 (added_onto 0 adds (a + i)) else 0) = (if c \<le> a + i \<and> a + i < c + length xs then xs ! (a + i - c) else 0)" for i
  proof (cases "c \<le> a + i \<and> a + i < c + length xs")
    case True
    moreover from True have "xs ! (a + i - c) \<in> set xs" by (intro nth_mem) linarith
    ultimately show ?thesis using sum [of "a + i"] floats fits by simp
  next
    case False
    with sum [of "a + i"] have "added_onto 0 adds (a + i) = 0" by (simp only: if_False)
    then show ?thesis by (subst if_not_P [OF False]) simp
  qed
  moreover have "f32 (xs ! (a + i - c)) = xs ! (a + i - c)" if "c \<le> a + i" "a + i < c + length xs" for i
  proof -
    have "xs ! (a + i - c) \<in> set xs" using that by (intro nth_mem) linarith
    with floats show ?thesis by blast
  qed
  ultimately have "map (\<lambda>i. float_to_dac (fadd (if a + i < e then fadd 0 (added_onto 0 adds (a + i)) else 0) 0) bits) [0..<n] =
      map (\<lambda>i. float_to_dac (if c \<le> a + i \<and> a + i < c + length xs then xs ! (a + i - c) else 0) bits) [0..<n]"
    by (intro map_cong refl arg_cong [where f = "\<lambda>x. float_to_dac x bits"]) simp
  also have "\<dots> = replicate (c - a) (float_to_dac 0 bits) @ map (\<lambda>x. float_to_dac x bits) xs @
      replicate (n - (c - a) - length xs) (float_to_dac 0 bits)"
    by (rule padded_silence [of a c xs n "\<lambda>x. float_to_dac x bits"]) (use whole in linarith)+
  finally show ?thesis using whole by simp
qed

lemma codes_round_trip:
  assumes "1 \<le> unat bits" and "unat bits \<le> 16" and "bits = cal_adc_bits (sw_source_cal w)" and "\<forall>x \<in> set codes. unat x < 2 ^ unat bits"
  shows "map (\<lambda>x. float_to_dac x bits) (as_samples w codes) = codes"
  using assms adc_dac_inverse [OF assms(1,2)] by (auto simp: as_samples_def intro: map_idI)

section \<open>Only receivers move read heads\<close>

abbreviation heads :: "shared \<Rightarrow> nat list" where
  "heads s \<equiv> map pb_read_pos (sh_pair_buffers s)"

lemma same_head: "pb_read_pos b = pb_read_pos (pbs ! k) \<Longrightarrow> map pb_read_pos (pbs[k := b]) = map pb_read_pos pbs"
  by (cases "k < length pbs") (simp_all add: map_update list_update_same_conv list_update_beyond)

lemma visit_heads:
  assumes "visit_all f ogs residuals pbs = ret (ogs', residuals', pbs')"
    and "\<And>og r b c r' b'. f og r b = ret (c, r', b') \<Longrightarrow> pb_read_pos b' = pb_read_pos b"
  shows "map pb_read_pos pbs' = map pb_read_pos pbs"
  using assms(1)
proof (induction ogs arbitrary: residuals pbs ogs' residuals')
  case (Cons og ogs)
  show ?case
  proof (cases residuals)
    case (Cons residual rest)
    with Cons.prems obtain c r b ogs1 rs1 where v: "f og residual (pbs ! og_pair_buffer og) = ret (c, r, b)"
      "visit_all f ogs rest (pbs[og_pair_buffer og := b]) = ret (ogs1, rs1, pbs')"
      by (auto simp: visit_one_def and_then_eq_ret)
    from Cons.IH [OF v(2)] same_head [OF assms(2) [OF v(1)]] show ?thesis by simp
  qed (use Cons.prems in simp)
qed simp

lemma feed_heads: "feed_one xs og r b = ret (c, r', b') \<Longrightarrow> pb_read_pos b' = pb_read_pos b"
  by (auto simp: feed_one_def and_then_eq_ret channel_process_def apply_calls_frame split: sum.splits option.splits)

lemma end_heads: "channel_on_message_end c b = ret (c', b') \<Longrightarrow> pb_read_pos b' = pb_read_pos b"
  by (auto simp: channel_on_message_end_def apply_calls_frame split: sum.splits option.splits)

lemma flush_heads: "flush_one og r b = ret (c, r', b') \<Longrightarrow> pb_read_pos b' = pb_read_pos b"
  by (auto simp: flush_one_def and_then_eq_ret dest!: feed_heads end_heads split: if_splits)

lemma process_heads: "process_available clk w s = ret (w', s', n) \<Longrightarrow> heads s' = heads s"
  by (auto simp: process_available_def Let_def clock_now_def case_prod_unfold and_then_eq_ret split: if_splits
    dest!: visit_heads [OF _ feed_heads])

lemma drain_heads: "drain_ring clk w s = ret (w', s') \<Longrightarrow> heads s' = heads s"
proof (induction clk w s rule: drain_ring.induct)
  case (1 clk w s)
  show ?case
  proof (cases "spsc_available_read (sh_tx_ring s (sw_tx_ring w)) = 0")
    case True
    with "1.prems" show ?thesis by (simp add: drain_ring.simps)
  next
    case False
    then obtain w1 s1 n where p: "process_available clk w s = ret (w1, s1, n)"
      "(if n = 0 then ret (w1, s1) else drain_ring clk w1 s1) = ret (w', s')"
      using "1.prems" by (subst (asm) drain_ring.simps) (auto simp: and_then_eq_ret)
    with "1.IH" [OF False p(1) refl refl] process_heads [OF p(1)] show ?thesis by (auto split: if_splits)
  qed
qed

lemma exit_heads: "tx_exit clk w s = ret (w', s') \<Longrightarrow> heads s' = heads s"
  by (drule tx_exit_ends) (auto simp: drain_and_flush_def and_then_eq_ret dest!: drain_heads visit_heads [OF _ flush_heads])

lemma start_heads: "start_all T now wired ogs s = ret (ogs', s') \<Longrightarrow> heads s' = heads s"
proof (induction ogs arbitrary: s ogs')
  case (Cons og ogs)
  obtain gap late aligned where g: "arrival_gap T now s og = (gap, late, aligned)" by (metis prod_cases3)
  have "pb_read_pos b' = pb_read_pos b" if "channel_on_message_start gap aligned c b = Inr (c', b')" for c c' b b'
    using that by (auto simp: channel_on_message_start_def begin_message_def split: sum.splits)
  note start = this
  let ?s1 = "if late \<and> wired then s\<lparr>sh_metrics := (sh_metrics s)\<lparr>mt_late_messages := mt_late_messages (sh_metrics s) + 1\<rparr>\<rparr> else s"
  have s1: "sh_pair_buffers ?s1 = sh_pair_buffers s" by simp
  obtain c b ogs2 where c: "channel_on_message_start gap aligned (og_channel og) (sh_pair_buffers s ! og_pair_buffer og) = Inr (c, b)"
    and rest: "start_all T now wired ogs (?s1\<lparr>sh_pair_buffers := (sh_pair_buffers s)[og_pair_buffer og := b]\<rparr>) = ret (ogs2, s')"
    using Cons.prems g by (auto simp: Let_def and_then_eq_ret lift_error_eq_ret s1 simp del: if_split)
  from Cons.IH [OF rest] same_head [OF start [OF c]] show ?case by simp
qed simp

lemma entry_heads:
  assumes "tx_entry clk w s = ret (w', s')"
  shows "heads s' = heads s"
proof -
  let ?s1 = "fst (clock_now clk s)" and ?now = "snd (clock_now clk s)"
  obtain ogs s2 where st: "start_all (tx_start_bound ?now w ?s1) ?now (sw_metrics w) (sw_outgoing w) ?s1 = ret (ogs, s2)"
    using assms by (cases "start_all (tx_start_bound ?now w ?s1) ?now (sw_metrics w) (sw_outgoing w) ?s1")
      (auto simp: tx_entry_def case_prod_unfold Let_def and_then_eq_ret)
  from start_heads [OF st] have "heads s2 = heads s" by (simp add: clock_now_def)
  with assms st show ?thesis
    by (cases "sw_message_event_log w") (auto simp: tx_entry_def case_prod_unfold Let_def clock_now_def)
qed

fun no_pull :: "msg_event list \<Rightarrow> bool" where
  "no_pull [] = True"
| "no_pull (Others (Env_Pull k n) # evs) = False"
| "no_pull (_ # evs) = no_pull evs"

lemma msg_run_heads: "msg_run clk evs w s = ret (w', s') \<Longrightarrow> no_pull evs \<Longrightarrow> heads s' = heads s"
proof (induction clk evs w s rule: msg_run.induct)
  case (2 clk a evs w s)
  then show ?case by (cases a) simp_all
next
  case (3 clk evs w s)
  then show ?case by (auto simp: and_then_eq_ret dest: process_heads)
qed simp

lemma message_heads:
  assumes "worker_message clk evs w s = ret (w', s')" and "no_pull evs"
  shows "heads s' = heads s"
  using assms by (auto simp: worker_message_def and_then_eq_ret dest!: entry_heads exit_heads msg_run_heads)

section \<open>Properties\<close>

text \<open>C8: A message stands on the receiver's timeline, for every propagation model. Let a channel start a
  message, be fed blocks while the receiver reads at any points in between, and end it, with room for all of
  it. The renderer alone, given the same blocks, makes certain calls; and position by position, what the
  receiver has read or can still read is what stood there before plus exactly the samples these calls add
  there, in their order, shifted to where the message begins. The message is readable to its end, with the
  zone of its echoes.\<close>

theorem message_stands_on_timeline:
  assumes "renderer_good (cn_renderer c)" and "pb_ok b" and "pb_first_message b \<longrightarrow> pb_write_watermark b \<le> pb_base_delay_samples b"
    and "channel_on_message_start gap absolute_origin c b = Inr (c0, b0)"
    and "channel_run evs c0 b0 = ret (c1, b1, out)" and "channel_on_message_end c1 b1 = ret (c2, b2)"
    and "pb_write_origin b0 + renderer_progress (cn_renderer c2) + channel_max_tap_delta_samples c \<le> pb_read_pos b + pb_capacity b"
    and "0 < renderer_progress (cn_renderer c2)"
  shows "\<exists>cs. render_message (blocks_of evs) (cn_renderer c) = ret (cn_renderer c2, cs) \<and>
    pb_read_pos b2 = pb_read_pos b + length out \<and>
    (\<forall>p \<ge> pb_read_pos b. (if p < pb_read_pos b2 then out ! (p - pb_read_pos b) else pb_timeline b2 p) =
       added_onto (pb_timeline b p) (map (\<lambda>(i, x). (pb_write_origin b0 + i, x)) (adds_of cs)) p) \<and>
    pb_write_watermark b2 = pb_write_origin b0 + renderer_progress (cn_renderer c2) + renderer_zone (cn_renderer c2)"
proof -
  from message_stands [OF assms(1-7)] obtain cs where
    cs: "render_message (blocks_of evs) (cn_renderer c) = ret (cn_renderer c2, cs)" "stands b out (shifted (pb_write_origin b0) (adds_of cs)) b2"
    "0 < renderer_progress (cn_renderer c2) \<longrightarrow>
       pb_write_watermark b2 = pb_write_origin b0 + renderer_progress (cn_renderer c2) + renderer_zone (cn_renderer c2)" by (elim exE conjE) (rule that)
  have "pb_read_pos b2 = pb_read_pos b + length out"
    using cs(2) by (simp add: stands_def)
  moreover have "\<forall>p \<ge> pb_read_pos b. (if p < pb_read_pos b2 then out ! (p - pb_read_pos b) else pb_timeline b2 p) =
         added_onto (pb_timeline b p) (shifted (pb_write_origin b0) (adds_of cs)) p"
    by (rule cs(2) [unfolded stands_def, THEN conjunct2, THEN conjunct2, THEN conjunct2, THEN conjunct2])
  moreover note cs(1) cs(3) [rule_format, OF assms(8)]
  ultimately show ?thesis by (intro exI [of _ cs] conjI)
qed

text \<open>C3: A clear channel is transparent, from the source's codes to the receiver's. Take the worker's turns
  over one message on a static channel with one path of unit gain and no motion, into a buffer that was
  silent and has room, and a pull of the receiver's mix afterwards into a ring that has room, with equal
  converter widths, no other incoming channel and no noise. If the pull spans the message, the receive ring
  gets silence up to the arrival position, then the very codes that the source's ring held or accepted during
  the message, in order, then silence; the arrival position is the start of the message in the receiver's
  time plus the path's delay and the interpolator's three samples.\<close>

theorem clear_channel_is_transparent:
  assumes loop: "sw_loop clk (message_turns before between mids after st) w s = ret (w', s')"
    and story: "worker_ok w s" "sw_last_state w \<noteq> ST_TX" "st \<noteq> ST_TX" "keeps_state between" "keeping_turns mids"
      "small_pushes (map Others (before @ [Env_State ST_TX]))" "small_pushes (message_events between mids after st)"
  defines "s0 \<equiv> env_steps w (before @ [Env_State ST_TX]) s"
  defines "now \<equiv> clk (sh_clock_reads s0)"
    and "codes \<equiv> tx_contents w s0 @ ring_accepts w s0 (message_events between mids after st)"
  assumes j: "j < length (sw_outgoing w)"
    and still: "cn_renderer (og_channel (sw_outgoing w ! j)) = Static_R r" "static_good r" "sr_clock_offset_ppm r = 0"
      "sr_velocity_radial_m_s r = 0" "sr_acceleration_radial_m_s2 r = 0"
    and clear: "clear_path d r"
  defines "k \<equiv> og_pair_buffer (sw_outgoing w ! j)"
  defines "b \<equiv> sh_pair_buffers s0 ! k" and "b' \<equiv> sh_pair_buffers s' ! k"
  assumes buffer: "pb_ok b" "pb_first_message b \<longrightarrow> pb_write_watermark b \<le> pb_base_delay_samples b"
    and silent: "\<forall>p \<ge> pb_read_pos b. pb_timeline b p = 0"
    and gap: "arrival_gap (tx_start_bound now w s0) now s0 (sw_outgoing w ! j) = (gap, late, aligned)"
  defines "arrival \<equiv> pb_write_origin (begin_message gap aligned b) + d + 3"
  assumes room: "arrival + length codes + 2 + sr_max_tap_delta_samples r \<le> pb_read_pos b + pb_capacity b + d"
    and receiver: "rm_incoming rm = [k]" "spsc_inv ring" "n < 2 ^ 64" "length (spsc_contents ring) + n \<le> unat (rb_capacity ring)"
      "pull gs n rm (sh_pair_buffers s') ring = (rm', pbs', ring', accepted)"
    and quiet: "\<forall>i < n. snd (generate gs n (rm_noise_gen rm)) ! i = 0"
    and bits: "cal_dac_bits (rm_rcv_cal rm) = cal_adc_bits (sw_source_cal w)" "1 \<le> unat (cal_adc_bits (sw_source_cal w))"
      "unat (cal_adc_bits (sw_source_cal w)) \<le> 16" "\<forall>x \<in> set codes. unat x < 2 ^ unat (cal_adc_bits (sw_source_cal w))"
    and whole: "pb_read_pos b' \<le> arrival" "arrival + length codes \<le> pb_read_pos b' + n"
  shows "spsc_contents ring' = spsc_contents ring @ replicate (arrival - pb_read_pos b') (float_to_dac 0 (cal_dac_bits (rm_rcv_cal rm))) @
    codes @ replicate (pb_read_pos b' + n - (arrival + length codes)) (float_to_dac 0 (cal_dac_bits (rm_rcv_cal rm)))"
proof -
  let ?xs = "as_samples w codes" and ?bits = "cal_dac_bits (rm_rcv_cal rm)"
  let ?o = "pb_write_origin (begin_message gap aligned b)"
  have nh: "\<not> sr_needs_hilbert r" and d: "d \<le> sr_max_tap_delta_samples r"
    using clear still(2) by (auto simp: clear_path_def static_good_def taps_in_extent_def)
  have len: "length (padded r ?xs) = length codes + 5" by (simp add: padded_nth [OF nh] as_samples_def)
  have "?o + length (padded r ?xs) + sr_max_tap_delta_samples r \<le> pb_read_pos b + pb_capacity b"
    unfolding len using room by (simp add: arrival_def)
  from transmission_heard [OF loop story, folded s0_def, folded now_def codes_def, OF j still, folded k_def, folded b_def b'_def, OF buffer gap this receiver]
  obtain adds where t: "mset adds = tap_additions r ?o (padded r ?xs)" "pb_read_pos b \<le> pb_read_pos b'"
      "spsc_contents ring' = spsc_contents ring @ map (\<lambda>i. let p = pb_read_pos b' + i
        in float_to_dac (fadd (if p < ?o + length (padded r ?xs) + sr_max_tap_delta_samples r then fadd 0 (added_onto (pb_timeline b p) adds p) else 0)
           (snd (generate gs n (rm_noise_gen rm)) ! i)) ?bits) [0..<n]" by blast
  have floats: "\<forall>x \<in> set ?xs. f32 x = x" by (auto simp: as_samples_def adc_is_float)
  have n: "length ?xs = length codes" by (simp add: as_samples_def)
  have "pb_timeline b (pb_read_pos b' + i) = 0" for i using silent t(2) by simp
  then have "spsc_contents ring' = spsc_contents ring @ map (\<lambda>i. float_to_dac (fadd (if pb_read_pos b' + i <
      ?o + length (padded r ?xs) + sr_max_tap_delta_samples r then fadd 0 (added_onto 0 adds (pb_read_pos b' + i)) else 0) 0) ?bits) [0..<n]"
    unfolding t(3) using quiet by (simp add: Let_def)
  also have "\<dots> = spsc_contents ring @ replicate (arrival - pb_read_pos b') (float_to_dac 0 ?bits) @
      map (\<lambda>x. float_to_dac x ?bits) ?xs @ replicate (pb_read_pos b' + n - (arrival + length ?xs)) (float_to_dac 0 ?bits)"
    by (subst clear_window [where c = arrival and xs = ?xs, OF clear_sum [OF clear t(1) floats, folded arrival_def] floats])
      (use whole d n len in \<open>simp_all add: arrival_def\<close>)
  also have "map (\<lambda>x. float_to_dac x ?bits) ?xs = codes" using bits by (intro codes_round_trip) simp_all
  finally show ?thesis unfolding n .
qed

text \<open>A channel with one path, a worker with that channel, and a receiver without noise.\<close>

definition clear_renderer :: static_renderer where
  "clear_renderer = echo_renderer\<lparr>sr_taps := [\<lparr>rt_delta_samples = 0, rt_gain = 1, rt_gain_imag = 0\<rparr>], sr_max_tap_delta_samples := 0\<rparr>"

definition static_channel :: "static_renderer \<Rightarrow> channel" where
  "static_channel r = \<lparr>cn_config = default_channel, cn_sample_rate = 500000, cn_renderer = Static_R r\<rparr>"

lemma clear_facts: "static_good clear_renderer" "clear_path 0 clear_renderer" "sr_clock_offset_ppm clear_renderer = 0"
  "sr_velocity_radial_m_s clear_renderer = 0" "sr_acceleration_radial_m_s2 clear_renderer = 0" "sr_max_tap_delta_samples clear_renderer = 0"
  by (auto simp: clear_renderer_def clear_path_def static_good_def echo_renderer_def taps_in_extent_def streamed_def)

lemma small_buffer: "pair_buffer_new 64 10 = Inr (projr (pair_buffer_new 64 10))" "pb_first_message (projr (pair_buffer_new 64 10))"
    "pb_write_watermark (projr (pair_buffer_new 64 10)) = 0" "pb_base_delay_samples (projr (pair_buffer_new 64 10)) = 10"
    "pb_capacity (projr (pair_buffer_new 64 10)) = 64"
  by (simp_all add: pair_buffer_new_def round_up_pow2_def pow2_loop.simps Let_def)

lemma still_steady:
  assumes "sr_clock_offset_ppm r = 0" and "sr_velocity_radial_m_s r = 0" and "sr_acceleration_radial_m_s2 r = 0" and "sr_resampler r = farrow_new"
  shows "steady (static_channel r)"
  using assms by (simp add: steady_def static_channel_def steady_static_def still_ratio farrow_new_def)

theorem message_stands_on_timeline_witness:
  "\<exists>c0 b0 c1 b1 out c2 b2. channel_on_message_start 0 False (static_channel echo_renderer) (projr (pair_buffer_new 64 10)) = Inr (c0, b0) \<and>
     channel_run [Feed [1], Receive 5, Feed [2]] c0 b0 = ret (c1, b1, out) \<and> channel_on_message_end c1 b1 = ret (c2, b2) \<and>
     pb_read_pos b2 = length out \<and> pb_write_watermark b2 = 10 + 7 + 2"
proof -
  let ?c = "static_channel echo_renderer" and ?b = "projr (pair_buffer_new 64 10)"
  have st: "steady ?c" by (rule still_steady) (simp_all add: echo_renderer_def)
  obtain c0 b0 where start: "channel_on_message_start 0 False ?c ?b = Inr (c0, b0)" "steady c0" using steady_start_returns [OF st] by blast
  obtain ca ba u where pa: "channel_process [1] c0 b0 = ret (ca, ba, u)" "steady ca" using steady_process_returns [OF start(2)] by blast
  obtain c1 b1 u' where pb: "channel_process [2] ca (fst (read_advance 5 ba)) = ret (c1, b1, u')" "steady c1"
    using steady_process_returns [OF pa(2)] by blast
  obtain c2 b2 where fin: "channel_on_message_end c1 b1 = ret (c2, b2)" using steady_end_returns [OF pb(2)] by blast
  let ?out = "snd (read_advance 5 ba)"
  have run: "channel_run [Feed [1], Receive 5, Feed [2]] c0 b0 = ret (c1, b1, ?out)" using pa(1) pb(1) by (simp add: case_prod_unfold Let_def)
  from static_message_unity [OF echo_good echo_facts(2-4,1,5)] obtain r calls where
    r: "static_message [[1], [2]] echo_renderer = ret (r, calls)" "sr_source_samples_processed r = 7" by (elim exE conjE) simp
  have c: "cn_renderer ?c = Static_R echo_renderer" by (simp add: static_channel_def)
  from message_renders [OF start(1) run fin] render_static [OF r(1)] have c2: "cn_renderer c2 = Static_R r" by (simp add: c)
  have zone: "sr_max_tap_delta_samples r = 2" "sr_max_tap_delta_samples echo_renderer = 2"
    using static.message_within [OF static_message_message [OF r(1)] echo_good] by (simp_all add: echo_renderer_def)
  have b0: "pb_write_origin b0 = 10"
    using start(1) small_buffer(2-5) by (auto simp: channel_on_message_start_def begin_message_def split: sum.splits)
  have new: "pb_ok ?b" "pb_read_pos ?b = 0" using pair_buffer_new_facts [OF small_buffer(1)] by simp_all
  have good: "renderer_good (cn_renderer ?c)" by (simp add: c echo_good)
  have first: "pb_first_message ?b \<longrightarrow> pb_write_watermark ?b \<le> pb_base_delay_samples ?b" by (simp add: small_buffer(2-5))
  have room: "pb_write_origin b0 + renderer_progress (cn_renderer c2) + channel_max_tap_delta_samples ?c \<le> pb_read_pos ?b + pb_capacity ?b"
    by (simp add: small_buffer(2-5) c2 r(2) zone b0 new(2) channel_max_tap_delta_samples_def c)
  have pos: "0 < renderer_progress (cn_renderer c2)" by (simp add: c2 r(2))
  obtain "pb_read_pos b2 = pb_read_pos ?b + length ?out"
      "pb_write_watermark b2 = pb_write_origin b0 + renderer_progress (cn_renderer c2) + renderer_zone (cn_renderer c2)"
    using message_stands_on_timeline [OF good new(1) first start(1) run fin room pos] by (elim exE conjE) (rule that)
  then have "pb_read_pos b2 = length ?out" "pb_write_watermark b2 = 10 + 7 + 2" by (simp_all add: new(2) b0 c2 r(2) zone)
  with start(1) run fin show ?thesis
    by (intro exI [of _ c0] exI [of _ b0] exI [of _ c1] exI [of _ b1] exI [of _ ?out] exI [of _ c2] exI [of _ b2] conjI)
qed

lemma silent_noise: "ng_output_scale ng = 0 \<Longrightarrow> ng_tonals ng = [] \<Longrightarrow> i < n \<Longrightarrow> snd (generate gs n ng) ! i = 0"
  by (induction n arbitrary: ng i) (auto simp: generate_sample_def case_prod_beta Let_def nth_Cons' split: nat.splits)

lemma tiny_codes:
  fixes c :: channel
  defines "s0 \<equiv> env_steps (tiny_worker c) ([Env_Push [2048, 7]] @ [Env_State ST_TX]) tiny_shared"
  shows "tx_contents (tiny_worker c) s0 @ ring_accepts (tiny_worker c) s0 (message_events [] [] [] ST_IDLE) = [2048, 7]"
    and "sh_pair_buffers s0 = [projr (pair_buffer_new 64 10)]"
proof -
  let ?w = "tiny_worker c"
  obtain rb where rb: "spsc_new (0::u16) 16 = Some rb" "rb_capacity rb = 16" using tiny_ring by blast
  have "tx_contents ?w (env_step ?w (Env_Push [2048, 7]) tiny_shared) =
      tx_contents ?w tiny_shared @ ring_accepts ?w tiny_shared [Others (Env_Push [2048, 7])]"
    using env_step_took [OF tiny_ok, of "Env_Push [2048, 7]"] by simp
  moreover have "tx_contents ?w tiny_shared = []" "rb_capacity (sh_tx_ring tiny_shared k) = 16" for k
    using rb spsc_new_inv [OF rb(1)] by (simp_all add: tiny_shared_def)
  ultimately show "tx_contents ?w s0 @ ring_accepts ?w s0 (message_events [] [] [] ST_IDLE) = [2048, 7]"
    by (simp add: s0_def ring_accepts_def message_events_def)
  show "sh_pair_buffers s0 = [projr (pair_buffer_new 64 10)]" by (simp add: s0_def tiny_shared_def)
qed

theorem clear_channel_is_transparent_witness:
  "\<exists>w' s' rm' pbs' ring' accepted.
     sw_loop (\<lambda>_. 0) (message_turns [Env_Push [2048, 7]] [] [] [] ST_IDLE) (tiny_worker (static_channel clear_renderer)) tiny_shared = ret (w', s') \<and>
     pull counting 20 (quiet_mix\<lparr>rm_incoming := [0]\<rparr>) (sh_pair_buffers s') (the (spsc_new 0 64)) = (rm', pbs', ring', accepted) \<and>
     spsc_contents ring' = replicate 13 0x8000 @ [2048, 7] @ replicate 5 0x8000"
proof -
  let ?w = "tiny_worker (static_channel clear_renderer)" and ?clk = "\<lambda>_ :: nat. 0 :: int"
  let ?s0 = "env_steps ?w ([Env_Push [2048, 7]] @ [Env_State ST_TX]) tiny_shared" and ?rm = "quiet_mix\<lparr>rm_incoming := [0]\<rparr>"
  have out: "sw_outgoing ?w = [tiny_outgoing (static_channel clear_renderer)]" and last: "sw_last_state ?w \<noteq> ST_TX"
    and cal: "sw_source_cal ?w = default_calibration"
    by (simp_all add: tiny_worker_def source_worker_new_def Let_def)
  have "steady (static_channel clear_renderer)" using clear_facts by (intro still_steady) (simp_all add: clear_renderer_def echo_renderer_def)
  then have "steady_worker ?w" by (simp add: out tiny_outgoing_def)
  from loop_returns [OF this] obtain w' s' where
    l: "sw_loop ?clk (message_turns [Env_Push [2048, 7]] [] [] [] ST_IDLE) ?w tiny_shared = ret (w', s')" by blast
  obtain rm' pbs' ring' accepted where p: "pull counting 20 ?rm (sh_pair_buffers s') (the (spsc_new 0 64)) = (rm', pbs', ring', accepted)"
    by (metis prod_cases4)
  have small: "small_pushes (map Others ([Env_Push [2048, 7]] @ [Env_State ST_TX]))" "small_pushes (message_events [] [] [] ST_IDLE)"
    and kept: "keeps_state []" "keeping_turns []" "ST_IDLE \<noteq> ST_TX" by (simp_all add: message_events_def keeping_turns_def)
  obtain v where "worker_message ?clk (message_events [] [] [] ST_IDLE) ?w ?s0 = ret (v, s')"
    using loop_message [OF l last kept(3,1,2)] by blast
  then have "heads s' = heads ?s0" by (rule message_heads) (simp add: message_events_def)
  also have "\<dots> = [0]" unfolding tiny_codes(2) using pair_buffer_new_facts [OF small_buffer(1)] by simp
  finally have rp: "pb_read_pos (sh_pair_buffers s' ! 0) = 0" by (auto simp: map_eq_Cons_conv)
  note codes = tiny_codes [of "static_channel clear_renderer"]
  have og: "sw_outgoing ?w ! 0 = tiny_outgoing (static_channel clear_renderer)" by (simp add: out)
  have gap: "arrival_gap T now s (sw_outgoing ?w ! 0) = (0, False, False)" for T now s by (simp add: og arrival_gap_def tiny_outgoing_def)
  obtain ring where ring: "spsc_new (0::u16) 64 = Some ring" "rb_capacity ring = 64" by (simp add: spsc_new_def spsc_cap_loop.simps)
  note ring_ok = spsc_new_inv [OF ring(1)]
  have "float_to_dac (adc_to_float 0x8000 16) 16 = (0x8000 :: u16)" by (rule adc_dac_inverse) simp_all
  moreover have "adc_to_float 0x8000 16 = 0" by (subst adc_to_float_exact) simp_all
  ultimately have mid: "float_to_dac 0 16 = (0x8000 :: u16)" by simp
  have still: "cn_renderer (og_channel (sw_outgoing ?w ! 0)) = Static_R clear_renderer"
    unfolding og by (simp add: tiny_outgoing_def static_channel_def)
  have buf: "sh_pair_buffers ?s0 ! 0 = projr (pair_buffer_new 64 10)" unfolding tiny_codes(2) by simp
  have slot: "og_pair_buffer (sw_outgoing ?w ! 0) = 0" by (simp add: og tiny_outgoing_def)
  note new = pair_buffer_new_facts [OF small_buffer(1)] small_buffer(2-5)
  have origin: "pb_write_origin (begin_message 0 False (projr (pair_buffer_new 64 10))) = 10" by (simp add: begin_message_def small_buffer(2-5))
  have rcv: "cal_dac_bits (rm_rcv_cal ?rm) = cal_adc_bits (sw_source_cal ?w)" "cal_adc_bits (sw_source_cal ?w) = 16"
    "ng_output_scale (rm_noise_gen ?rm) = 0" "ng_tonals (rm_noise_gen ?rm) = []" "rm_incoming ?rm = [0]"
    unfolding cal by (simp_all add: quiet_mix_def default_calibration_def two_taps_def)
  have width: "cal_dac_bits (rm_rcv_cal quiet_mix) = 16" by (simp add: quiet_mix_def default_calibration_def)
  note quiet = silent_noise [OF rcv(3,4)]
  note heard = clear_channel_is_transparent [where gap = 0 and late = False and aligned = False and rm = ?rm and ring = ring and n = 20
        and gs = counting, OF l tiny_ok last kept(3,1,2) small _ still clear_facts(1,3-5,2), unfolded slot buf codes(1) origin rp, OF _ _ _ _ gap]
  have "spsc_contents ring' = spsc_contents ring @ replicate (10 + 0 + 3 - 0) (float_to_dac 0 (cal_dac_bits (rm_rcv_cal ?rm))) @ [2048, 7] @
      replicate (0 + 20 - (10 + 0 + 3 + length [2048 :: u16, 7])) (float_to_dac 0 (cal_dac_bits (rm_rcv_cal ?rm)))"
  proof (rule heard)
    show "pb_ok (projr (pair_buffer_new 64 10))" "\<forall>p \<ge> pb_read_pos (projr (pair_buffer_new 64 10)). pb_timeline (projr (pair_buffer_new 64 10)) p = 0"
      using new by simp_all
    show "pull counting 20 ?rm (sh_pair_buffers s') ring = (rm', pbs', ring', accepted)" using p ring(1) by simp
    show "\<forall>i < 20. snd (generate counting 20 (rm_noise_gen ?rm)) ! i = 0" using quiet by blast
    show "spsc_inv ring" "length (spsc_contents ring) + 20 \<le> unat (rb_capacity ring)" using ring_ok ring(2) by simp_all
  qed (simp_all add: rcv width out clear_facts(6) new small_buffer(2-5))
  then have "spsc_contents ring' = replicate 13 0x8000 @ [2048, 7] @ replicate 5 0x8000"
    unfolding rcv(1,2) mid using ring_ok by simp
  with l p show ?thesis by blast
qed

end
