(* ===== verification/Channel_Engine.thy ===== *)
theory Channel_Engine
  imports Worker_Run Receiver_Mix Scenario
begin

text \<open>
  The channel engine: \<open>channel/channel_engine.cpp\<close>. It builds one channel and one pair buffer per
  configured channel, one source worker per modem that sends, one receiver mix per modem, and owns the
  worker threads. A pair buffer is its index in the engine's list; the rings, runtime states, trackers and
  estimators of modem \<open>i\<close> are the store's objects the context names. The log lines are left out.
\<close>

section \<open>State\<close>

record per_modem_context =
  pc_id :: string
  pc_calibration :: calibration_data
  pc_runtime :: nat
  pc_tx_ring :: nat
  pc_rx_ring :: nat
  pc_noise_cfg :: noise_config
  pc_sample_rate :: nat
  pc_receive_boost_db :: real

record 'g channel_engine =
  eg_modems :: "per_modem_context list"
  eg_pair_buffers :: "pair_buffer list"
  eg_source_workers :: "source_worker option list"
  eg_receiver_mixes :: "'g receiver_mix list"
  eg_worker_threads :: "nat option list"
  eg_per_receiver_outgoing_refs :: "(nat \<times> nat) list list"
  eg_started :: bool

section \<open>Construction\<close>

definition clamp_sound_speed_engine :: "real \<Rightarrow> real" where
  "clamp_sound_speed_engine speed = (if 0 < speed then speed else 1500)"

definition modem_index :: "per_modem_context list \<Rightarrow> string \<Rightarrow> error + nat" where
  "modem_index modems i = (case find (\<lambda>k. pc_id (modems ! k) = i) [0..<length modems] of
     Some k \<Rightarrow> Inr k
   | None \<Rightarrow> Inl (Invalid_Argument (''ChannelEngine: unknown modem id '' @ i)))"

definition in_flight_samples :: "environment_config \<Rightarrow> nat \<Rightarrow> nat" where
  "in_flight_samples env sample_rate =
    (let dur = (if 0 < en_max_message_duration_s env then en_max_message_duration_s env else 10)
     in nat (cround (dmul dur (real sample_rate))))"

definition pair_capacity_for_extent :: "nat \<Rightarrow> environment_config \<Rightarrow> nat \<Rightarrow> nat" where
  "pair_capacity_for_extent worst env sample_rate =
    (let sound_speed = clamp_sound_speed_engine (en_sound_speed_m_s env);
         worst1 = (if 0 < en_max_range_m env
           then let env_base = nat (cround (ddiv (dmul (en_max_range_m env) (real sample_rate)) sound_speed));
                    env_mp = nat (cround (fmul MAX_MULTIPATH_DELAY_S (f32 (real sample_rate))))
                in cmax worst (env_base + env_mp)
           else worst);
         worst2 = (if worst1 = 0 then sample_rate else worst1)
     in worst2 + in_flight_samples env sample_rate)"

text \<open>The transducer of a modem: the first configuration entry with its id decides.\<close>

definition transducer_for :: "scenario_config \<Rightarrow> string \<Rightarrow> transducer_spec" where
  "transducer_for scenario i = (case find (\<lambda>mc. mo_id mc = i) (sc_modems scenario) of
     Some mc \<Rightarrow> (case sc_transducers scenario (mo_transducer_id mc) of Some t \<Rightarrow> t | None \<Rightarrow> \<lparr>tr_tvr_db = 0, tr_rvr_db = 0\<rparr>)
   | None \<Rightarrow> \<lparr>tr_tvr_db = 0, tr_rvr_db = 0\<rparr>)"

record built_channel =
  bc_channel :: channel
  bc_src_idx :: nat
  bc_rcv_idx :: nat

definition build_channel :: "files \<Rightarrow> scenario_config \<Rightarrow> per_modem_context list \<Rightarrow> channel_config \<Rightarrow> build_error + built_channel" where
  "build_channel fs scenario modems cc =
    (case modem_index modems (ch_from_modem cc) of Inl e \<Rightarrow> Inl (Build_Error e)
     | Inr src \<Rightarrow> case modem_index modems (ch_to_modem cc) of Inl e \<Rightarrow> Inl (Build_Error e)
     | Inr rcv \<Rightarrow> map_sum (\<lambda>e. e) (\<lambda>c. \<lparr>bc_channel = c, bc_src_idx = src, bc_rcv_idx = rcv\<rparr>)
         (channel_new fs cc (pc_calibration (modems ! src)) (pc_calibration (modems ! rcv))
            (transducer_for scenario (pc_id (modems ! src))) (transducer_for scenario (pc_id (modems ! rcv)))
            (pc_receive_boost_db (modems ! rcv))))"

text \<open>The first pass, which stops at the first channel that throws.\<close>

fun build_channels :: "files \<Rightarrow> scenario_config \<Rightarrow> per_modem_context list \<Rightarrow> channel_config list \<Rightarrow> build_error + built_channel list" where
  "build_channels fs scenario modems [] = Inr []"
| "build_channels fs scenario modems (cc # ccs) =
    (case build_channel fs scenario modems cc of Inl e \<Rightarrow> Inl e
     | Inr bc \<Rightarrow> map_sum (\<lambda>e. e) (\<lambda>bcs. bc # bcs) (build_channels fs scenario modems ccs))"

definition worst_channel_extent :: "built_channel list \<Rightarrow> nat" where
  "worst_channel_extent bcs = foldl (\<lambda>m bc. cmax m (write_extent_samples (bc_channel bc))) 0 bcs"

text \<open>The second pass: a buffer per channel, and the three views of the graph.\<close>

record wiring =
  wi_pair_buffers :: "pair_buffer list"
  wi_outgoing :: "outgoing list list"
  wi_incoming :: "nat list list"
  wi_refs :: "(nat \<times> nat) list list"

definition outgoing_for :: "per_modem_context list \<Rightarrow> nat \<Rightarrow> built_channel \<Rightarrow> outgoing" where
  "outgoing_for modems k bc = \<lparr>og_channel = bc_channel bc, og_pair_buffer = k, og_receiver_fill_tracker = None,
     og_receiver_rx_ring = None, og_receiver_sample_rate = pc_sample_rate (modems ! bc_rcv_idx bc),
     og_propagation_delay_s = propagation_delay_seconds (bc_channel bc)\<rparr>"

definition wire_channel :: "per_modem_context list \<Rightarrow> nat \<Rightarrow> built_channel \<Rightarrow> wiring \<Rightarrow> error + wiring" where
  "wire_channel modems pair_cap bc wi =
    (case pair_buffer_new pair_cap (channel_base_delay_samples (bc_channel bc)) of Inl e \<Rightarrow> Inl e
     | Inr pair \<Rightarrow>
         let k = length (wi_pair_buffers wi); src = bc_src_idx bc; rcv = bc_rcv_idx bc;
             outs = (wi_outgoing wi)[src := wi_outgoing wi ! src @ [outgoing_for modems k bc]];
             outgoing_idx = length (outs ! src) - 1
         in Inr \<lparr>wi_pair_buffers = wi_pair_buffers wi @ [pair], wi_outgoing = outs,
              wi_incoming = (wi_incoming wi)[rcv := wi_incoming wi ! rcv @ [k]],
              wi_refs = (wi_refs wi)[rcv := wi_refs wi ! rcv @ [(src, outgoing_idx)]]\<rparr>)"

fun wire_channels :: "per_modem_context list \<Rightarrow> nat \<Rightarrow> built_channel list \<Rightarrow> wiring \<Rightarrow> error + wiring" where
  "wire_channels modems pair_cap [] wi = Inr wi"
| "wire_channels modems pair_cap (bc # bcs) wi =
    (case wire_channel modems pair_cap bc wi of Inl e \<Rightarrow> Inl e | Inr wi' \<Rightarrow> wire_channels modems pair_cap bcs wi')"

definition worker_for :: "per_modem_context \<Rightarrow> outgoing list \<Rightarrow> source_worker option" where
  "worker_for m ogs = (if ogs = [] then None
     else Some (source_worker_new (pc_id m) (pc_runtime m) (pc_tx_ring m) (pc_calibration m) ogs))"

definition channel_engine_new :: "'g gauss_source \<Rightarrow> 'g \<Rightarrow> files \<Rightarrow> scenario_config \<Rightarrow> per_modem_context list \<Rightarrow>
    build_error + 'g channel_engine" where
  "channel_engine_new gs g0 fs scenario modems =
    (if modems = [] then Inl (Build_Error (Invalid_Argument ''ChannelEngine: at least one modem required''))
     else case build_channels fs scenario modems (sc_channels scenario) of Inl e \<Rightarrow> Inl e
     | Inr bcs \<Rightarrow>
         let n = length modems;
             pair_cap = pair_capacity_for_extent (worst_channel_extent bcs) (sc_environment scenario) (pc_sample_rate (hd modems))
         in case wire_channels modems pair_cap bcs
             \<lparr>wi_pair_buffers = [], wi_outgoing = replicate n [], wi_incoming = replicate n [], wi_refs = replicate n []\<rparr> of
            Inl e \<Rightarrow> Inl (Build_Error e)
          | Inr wi \<Rightarrow> Inr \<lparr>eg_modems = modems, eg_pair_buffers = wi_pair_buffers wi,
              eg_source_workers = map2 worker_for modems (wi_outgoing wi),
              eg_receiver_mixes = map2 (\<lambda>m ks. receiver_mix_new gs g0 ks (pc_noise_cfg m) (pc_calibration m) (pc_sample_rate m))
                modems (wi_incoming wi),
              eg_worker_threads = [], eg_per_receiver_outgoing_refs = wi_refs wi, eg_started = False\<rparr>)"

section \<open>Operations\<close>

definition each_worker :: "(source_worker \<Rightarrow> source_worker) \<Rightarrow> 'g channel_engine \<Rightarrow> 'g channel_engine" where
  "each_worker f e = e\<lparr>eg_source_workers := map (map_option f) (eg_source_workers e)\<rparr>"

definition engine_start :: "'g channel_engine \<Rightarrow> 'g channel_engine" where
  "engine_start e = (if eg_started e then e
     else e\<lparr>eg_started := True, eg_worker_threads := eg_worker_threads e @
       map2 (\<lambda>i sw. map_option (\<lambda>_. i) sw) [0..<length (eg_source_workers e)] (eg_source_workers e)\<rparr>)"

text \<open>Stopping has two parts: the flags, and the join, which returns when the threads have ended. Another
  caller sees \<open>started_\<close> cleared and does nothing.\<close>

definition engine_request_stop :: "'g channel_engine \<Rightarrow> 'g channel_engine" where
  "engine_request_stop e = (each_worker sw_stop e)\<lparr>eg_started := False\<rparr>"

definition engine_join :: "'g channel_engine \<Rightarrow> 'g channel_engine" where
  "engine_join e = e\<lparr>eg_worker_threads := []\<rparr>"

definition engine_stop :: "'g channel_engine \<Rightarrow> 'g channel_engine" where
  "engine_stop e = (if \<not> eg_started e then e else engine_join (engine_request_stop e))"

definition engine_receiver_mix :: "nat \<Rightarrow> 'g channel_engine \<Rightarrow> 'g receiver_mix option" where
  "engine_receiver_mix i e = (if length (eg_receiver_mixes e) \<le> i then None else Some (eg_receiver_mixes e ! i))"

definition engine_set_metrics :: "bool \<Rightarrow> 'g channel_engine \<Rightarrow> 'g channel_engine" where
  "engine_set_metrics wired = each_worker (sw_set_metrics wired)"

definition engine_set_processing_time_stats :: "bool \<Rightarrow> nat \<Rightarrow> 'g channel_engine \<Rightarrow> 'g channel_engine" where
  "engine_set_processing_time_stats wired us =
    each_worker (\<lambda>w. sw_set_processing_deadline_us us (sw_set_processing_time_stats wired w))"

definition engine_set_message_event_logs :: "nat option list \<Rightarrow> 'g channel_engine \<Rightarrow> 'g channel_engine" where
  "engine_set_message_event_logs logs e = e\<lparr>eg_source_workers :=
    map (\<lambda>i. if i < length logs then map_option (sw_set_message_event_log (logs ! i)) (eg_source_workers e ! i)
      else eg_source_workers e ! i) [0..<length (eg_source_workers e)]\<rparr>"

definition engine_source_worker :: "nat \<Rightarrow> 'g channel_engine \<Rightarrow> source_worker option" where
  "engine_source_worker i e = (if length (eg_source_workers e) \<le> i then None else eg_source_workers e ! i)"

definition num_modems :: "'g channel_engine \<Rightarrow> nat" where
  "num_modems e = length (eg_modems e)"

definition num_pair_buffers :: "'g channel_engine \<Rightarrow> nat" where
  "num_pair_buffers e = length (eg_pair_buffers e)"

definition num_source_workers :: "'g channel_engine \<Rightarrow> nat" where
  "num_source_workers e = length (eg_source_workers e)"

definition pair_buffer_capacity_samples :: "'g channel_engine \<Rightarrow> nat" where
  "pair_buffer_capacity_samples e = (case eg_pair_buffers e of [] \<Rightarrow> 0 | b # _ \<Rightarrow> pb_capacity b)"

text \<open>A null worker or one out of range is skipped.\<close>

definition with_worker :: "nat \<Rightarrow> (source_worker \<Rightarrow> source_worker) \<Rightarrow> source_worker option list \<Rightarrow> source_worker option list" where
  "with_worker i f sws = (if i < length sws then sws[i := map_option f (sws ! i)] else sws)"

definition wire_modem_trackers :: "nat \<Rightarrow> nat option \<Rightarrow> nat option \<Rightarrow> nat option \<Rightarrow> 'g channel_engine \<Rightarrow> 'g channel_engine" where
  "wire_modem_trackers modem_idx tracker tx_start_estimator rx_ring e =
    (if length (eg_modems e) \<le> modem_idx then e
     else
       let sws = with_worker modem_idx (set_source_tx_estimator tx_start_estimator) (eg_source_workers e)
       in e\<lparr>eg_source_workers := foldl (\<lambda>sws (src, out). with_worker src (set_outgoing_receiver_context out tracker rx_ring) sws)
            sws (eg_per_receiver_outgoing_refs e ! modem_idx)\<rparr>)"

section \<open>The graph\<close>

text \<open>The channels out of a modem and into it, each with its number, in the order of the scenario.\<close>

definition out_of :: "nat \<Rightarrow> built_channel list \<Rightarrow> (nat \<times> built_channel) list" where
  "out_of i bcs = filter (\<lambda>(k, bc). bc_src_idx bc = i) (enumerate 0 bcs)"

definition into :: "nat \<Rightarrow> built_channel list \<Rightarrow> (nat \<times> built_channel) list" where
  "into i bcs = filter (\<lambda>(k, bc). bc_rcv_idx bc = i) (enumerate 0 bcs)"

text \<open>The place of channel \<open>k\<close> in its sender's list.\<close>

definition rank :: "built_channel list \<Rightarrow> nat \<Rightarrow> nat" where
  "rank bcs k = length (out_of (bc_src_idx (bcs ! k)) (take k bcs))"

definition graph_ok :: "per_modem_context list \<Rightarrow> nat \<Rightarrow> built_channel list \<Rightarrow> wiring \<Rightarrow> bool" where
  "graph_ok modems pair_cap bcs wi \<longleftrightarrow> length (wi_pair_buffers wi) = length bcs \<and>
     length (wi_outgoing wi) = length modems \<and> length (wi_incoming wi) = length modems \<and> length (wi_refs wi) = length modems \<and>
     (\<forall>k < length bcs. pair_buffer_new pair_cap (channel_base_delay_samples (bc_channel (bcs ! k))) = Inr (wi_pair_buffers wi ! k)) \<and>
     (\<forall>i < length modems. wi_outgoing wi ! i = map (\<lambda>(k, bc). outgoing_for modems k bc) (out_of i bcs) \<and>
        wi_incoming wi ! i = map fst (into i bcs) \<and>
        wi_refs wi ! i = map (\<lambda>(k, bc). (bc_src_idx bc, rank bcs k)) (into i bcs))"

definition indices_ok :: "per_modem_context list \<Rightarrow> built_channel list \<Rightarrow> bool" where
  "indices_ok modems bcs \<longleftrightarrow> (\<forall>bc \<in> set bcs. bc_src_idx bc < length modems \<and> bc_rcv_idx bc < length modems)"

lemma out_of_snoc: "out_of i (bcs @ [bc]) = out_of i bcs @ (if bc_src_idx bc = i then [(length bcs, bc)] else [])"
  by (simp add: out_of_def enumerate_append_eq)

lemma into_snoc: "into i (bcs @ [bc]) = into i bcs @ (if bc_rcv_idx bc = i then [(length bcs, bc)] else [])"
  by (simp add: into_def enumerate_append_eq)

lemma into_member: "(k, bc) \<in> set (into i bcs) \<longleftrightarrow> k < length bcs \<and> bcs ! k = bc \<and> bc_rcv_idx bc = i"
  by (auto simp: into_def in_set_enumerate_eq)

lemma out_of_member: "(k, bc) \<in> set (out_of i bcs) \<longleftrightarrow> k < length bcs \<and> bcs ! k = bc \<and> bc_src_idx bc = i"
  by (auto simp: out_of_def in_set_enumerate_eq)

lemma rank_snoc: "k < length bcs \<Longrightarrow> rank (bcs @ [bc]) k = rank bcs k"
  by (simp add: rank_def nth_append)

lemma wire_channel_graph:
  assumes "wire_channel modems pair_cap bc wi = Inr wi'" and "graph_ok modems pair_cap bcs wi"
    and "bc_src_idx bc < length modems" and "bc_rcv_idx bc < length modems"
  shows "graph_ok modems pair_cap (bcs @ [bc]) wi'"
proof -
  obtain pair where pair: "pair_buffer_new pair_cap (channel_base_delay_samples (bc_channel bc)) = Inr pair"
    and wi': "wi' = \<lparr>wi_pair_buffers = wi_pair_buffers wi @ [pair],
      wi_outgoing = (wi_outgoing wi)[bc_src_idx bc := wi_outgoing wi ! bc_src_idx bc @ [outgoing_for modems (length bcs) bc]],
      wi_incoming = (wi_incoming wi)[bc_rcv_idx bc := wi_incoming wi ! bc_rcv_idx bc @ [length bcs]],
      wi_refs = (wi_refs wi)[bc_rcv_idx bc := wi_refs wi ! bc_rcv_idx bc @ [(bc_src_idx bc, length (wi_outgoing wi ! bc_src_idx bc))]]\<rparr>"
    using assms by (auto simp: wire_channel_def Let_def graph_ok_def split: sum.splits)
  have refs: "map (\<lambda>(k, bc'). (bc_src_idx bc', rank (bcs @ [bc]) k)) (into i bcs) =
      map (\<lambda>(k, bc'). (bc_src_idx bc', rank bcs k)) (into i bcs)" for i
    by (intro map_cong) (auto simp: into_member rank_snoc)
  have last: "rank (bcs @ [bc]) (length bcs) = length (wi_outgoing wi ! bc_src_idx bc)"
    using assms(2,3) by (simp add: rank_def graph_ok_def)
  show ?thesis
    using assms(2-4) pair refs last unfolding wi' graph_ok_def
    by (auto simp: nth_append nth_list_update out_of_snoc into_snoc less_Suc_eq)
qed

lemma wire_channels_graph:
  assumes "wire_channels modems pair_cap bcs wi = Inr wi'" and "graph_ok modems pair_cap pre wi" and "indices_ok modems bcs"
  shows "graph_ok modems pair_cap (pre @ bcs) wi'"
  using assms
proof (induction bcs arbitrary: pre wi)
  case (Cons bc bcs)
  then obtain wi1 where w: "wire_channel modems pair_cap bc wi = Inr wi1" "wire_channels modems pair_cap bcs wi1 = Inr wi'"
    by (auto split: sum.splits)
  have "graph_ok modems pair_cap (pre @ [bc]) wi1"
    by (rule wire_channel_graph [OF w(1)]) (use Cons.prems(2,3) in \<open>auto simp: indices_ok_def\<close>)
  from Cons.IH [OF w(2) this] Cons.prems(3) show ?case by (simp add: indices_ok_def)
qed simp

lemma modem_index_range: "modem_index modems i = Inr k \<Longrightarrow> k < length modems \<and> pc_id (modems ! k) = i \<and> (\<forall>j < k. pc_id (modems ! j) \<noteq> i)"
  by (auto simp: modem_index_def find_Some_iff split: option.splits)

text \<open>What a built channel is.\<close>

lemma build_channel_facts:
  assumes "build_channel fs scenario modems cc = Inr bc"
  shows "modem_index modems (ch_from_modem cc) = Inr (bc_src_idx bc) \<and> modem_index modems (ch_to_modem cc) = Inr (bc_rcv_idx bc) \<and>
    (\<exists>stx rtx. channel_new fs cc (pc_calibration (modems ! bc_src_idx bc)) (pc_calibration (modems ! bc_rcv_idx bc)) stx rtx
       (pc_receive_boost_db (modems ! bc_rcv_idx bc)) = Inr (bc_channel bc))"
  using assms by (auto simp: build_channel_def map_sum_Inr split: sum.splits; blast)

lemma build_channels_all2: "build_channels fs scenario modems ccs = Inr bcs \<Longrightarrow>
    list_all2 (\<lambda>cc bc. build_channel fs scenario modems cc = Inr bc) ccs bcs"
  by (induction ccs arbitrary: bcs) (auto simp: map_sum_Inr split: sum.splits)

lemma built_indices:
  assumes "list_all2 (\<lambda>cc bc. build_channel fs scenario modems cc = Inr bc) ccs bcs"
  shows "indices_ok modems bcs"
  using assms by (induction rule: list_all2_induct)
    (auto simp: indices_ok_def dest: build_channel_facts modem_index_range)

definition engine_pair_cap :: "scenario_config \<Rightarrow> per_modem_context list \<Rightarrow> built_channel list \<Rightarrow> nat" where
  "engine_pair_cap scenario modems bcs =
    pair_capacity_for_extent (worst_channel_extent bcs) (sc_environment scenario) (pc_sample_rate (hd modems))"

text \<open>An engine over the channels \<open>bcs\<close>.\<close>

lemma engine_of_graph:
  assumes "channel_engine_new gs g0 fs scenario modems = Inr e"
  shows "\<exists>bcs wi. list_all2 (\<lambda>cc bc. build_channel fs scenario modems cc = Inr bc) (sc_channels scenario) bcs \<and>
    graph_ok modems (engine_pair_cap scenario modems bcs) bcs wi \<and> modems \<noteq> [] \<and> eg_modems e = modems \<and>
    eg_pair_buffers e = wi_pair_buffers wi \<and> eg_per_receiver_outgoing_refs e = wi_refs wi \<and>
    eg_source_workers e = map2 worker_for modems (wi_outgoing wi) \<and> \<not> eg_started e \<and> eg_worker_threads e = [] \<and>
    eg_receiver_mixes e = map2 (\<lambda>m ks. receiver_mix_new gs g0 ks (pc_noise_cfg m) (pc_calibration m) (pc_sample_rate m)) modems (wi_incoming wi)"
proof -
  let ?wi0 = "\<lparr>wi_pair_buffers = [], wi_outgoing = replicate (length modems) [], wi_incoming = replicate (length modems) [],
      wi_refs = replicate (length modems) []\<rparr>"
  obtain bcs wi where b: "build_channels fs scenario modems (sc_channels scenario) = Inr bcs"
    and w: "wire_channels modems (engine_pair_cap scenario modems bcs) bcs ?wi0 = Inr wi" and ne: "modems \<noteq> []"
    and e: "e = \<lparr>eg_modems = modems, eg_pair_buffers = wi_pair_buffers wi, eg_source_workers = map2 worker_for modems (wi_outgoing wi),
      eg_receiver_mixes = map2 (\<lambda>m ks. receiver_mix_new gs g0 ks (pc_noise_cfg m) (pc_calibration m) (pc_sample_rate m)) modems (wi_incoming wi),
      eg_worker_threads = [], eg_per_receiver_outgoing_refs = wi_refs wi, eg_started = False\<rparr>"
    using assms by (auto simp: channel_engine_new_def engine_pair_cap_def Let_def split: if_splits sum.splits)
  note all2 = build_channels_all2 [OF b]
  have "graph_ok modems cap [] ?wi0" for cap by (simp add: graph_ok_def out_of_def into_def)
  from wire_channels_graph [OF w this built_indices [OF all2]]
  have "graph_ok modems (engine_pair_cap scenario modems bcs) bcs wi" by simp
  with all2 ne e show ?thesis by (intro exI [of _ bcs] exI [of _ wi]) simp
qed

section \<open>One writer, one reader\<close>

lemma map_fst_out_of: "map fst (out_of i bcs) = filter (\<lambda>k. bc_src_idx (bcs ! k) = i) [0..<length bcs]"
  by (induction bcs rule: rev_induct) (auto simp: out_of_snoc nth_append out_of_def [of _ "[]"] intro!: filter_cong)

lemma map_fst_into: "map fst (into i bcs) = filter (\<lambda>k. bc_rcv_idx (bcs ! k) = i) [0..<length bcs]"
  by (induction bcs rule: rev_induct) (auto simp: into_snoc nth_append into_def [of _ "[]"] intro!: filter_cong)

lemma unique_place:
  assumes "\<And>i. distinct (L i)" and "\<And>i. k \<in> set (L i) \<longleftrightarrow> i = i0"
  shows "\<exists>p. {(i, p). p < length (L i) \<and> L i ! p = k} = {(i0, p)}"
proof -
  obtain p where p: "p < length (L i0)" "L i0 ! p = k" using assms(2) [of i0] by (auto simp: in_set_conv_nth)
  have uniq: "i = i0 \<and> q = p" if "q < length (L i)" "L i ! q = k" for i q
  proof -
    have "k \<in> set (L i)" using that nth_mem by blast
    then have "i = i0" using assms(2) by simp
    with that p nth_eq_iff_index_eq [OF assms(1) [of i0], of q p] show ?thesis by auto
  qed
  have "x \<in> {(i, q). q < length (L i) \<and> L i ! q = k} \<longleftrightarrow> x \<in> {(i0, p)}" for x
    using p uniq [of "snd x" "fst x"] by (cases x) auto
  then show ?thesis by (intro exI [of _ p] set_eqI)
qed

text \<open>The worker entries that write buffer \<open>k\<close> and the mix entries that read it.\<close>

definition writers :: "'g channel_engine \<Rightarrow> nat \<Rightarrow> (nat \<times> nat) set" where
  "writers e k = {(i, p). \<exists>w. engine_source_worker i e = Some w \<and> p < length (sw_outgoing w) \<and> og_pair_buffer (sw_outgoing w ! p) = k}"

definition readers :: "'g channel_engine \<Rightarrow> nat \<Rightarrow> (nat \<times> nat) set" where
  "readers e k = {(j, p). \<exists>m. engine_receiver_mix j e = Some m \<and> p < length (rm_incoming m) \<and> rm_incoming m ! p = k}"

lemma worker_for_outgoing: "worker_for m ogs = Some w \<Longrightarrow> sw_outgoing w = ogs \<and> ogs \<noteq> []"
  by (auto simp: worker_for_def source_worker_new_def Let_def split: if_splits)

lemma out_of_none: "indices_ok modems bcs \<Longrightarrow> length modems \<le> i \<Longrightarrow> out_of i bcs = []"
  by (auto simp: out_of_def indices_ok_def filter_empty_conv in_set_enumerate_eq) (meson leD nth_mem)

lemma into_none: "indices_ok modems bcs \<Longrightarrow> length modems \<le> i \<Longrightarrow> into i bcs = []"
  by (auto simp: into_def indices_ok_def filter_empty_conv in_set_enumerate_eq) (meson leD nth_mem)

section \<open>Construction fails only on a channel\<close>

lemma pair_buffer_new_ok: "base < capacity \<Longrightarrow> \<exists>b. pair_buffer_new capacity base = Inr b"
  using pow2_loop_1 [of capacity] by (auto simp: pair_buffer_new_def Let_def round_up_pow2_def)

lemma capacity_covers: "worst + in_flight_samples env rate \<le> pair_capacity_for_extent worst env rate"
  by (simp add: pair_capacity_for_extent_def Let_def)

lemma extent_le_worst: "bc \<in> set bcs \<Longrightarrow> write_extent_samples (bc_channel bc) \<le> worst_channel_extent bcs"
  using foldl_max_ge(2) [of bc bcs "\<lambda>bc. write_extent_samples (bc_channel bc)"] by (simp add: worst_channel_extent_def)

lemma wire_channels_ok:
  "\<forall>bc \<in> set bcs. channel_base_delay_samples (bc_channel bc) < pair_cap \<Longrightarrow> \<exists>wi'. wire_channels modems pair_cap bcs wi = Inr wi'"
proof (induction bcs arbitrary: wi)
  case (Cons bc bcs)
  then obtain b where "pair_buffer_new pair_cap (channel_base_delay_samples (bc_channel bc)) = Inr b"
    using pair_buffer_new_ok by fastforce
  then obtain wi1 where "wire_channel modems pair_cap bc wi = Inr wi1" by (simp add: wire_channel_def Let_def)
  with Cons show ?case by simp
qed simp

lemma engine_new_ok:
  assumes "modems \<noteq> []" and "build_channels fs scenario modems (sc_channels scenario) = Inr bcs"
    and "0 < in_flight_samples (sc_environment scenario) (pc_sample_rate (hd modems))"
  shows "\<exists>e. channel_engine_new gs g0 fs scenario modems = Inr e"
proof -
  let ?cap = "pair_capacity_for_extent (worst_channel_extent bcs) (sc_environment scenario) (pc_sample_rate (hd modems))"
  have "channel_base_delay_samples (bc_channel bc) < ?cap" if "bc \<in> set bcs" for bc
    using extent_le_worst [OF that] capacity_covers [of "worst_channel_extent bcs" "sc_environment scenario" "pc_sample_rate (hd modems)"] assms(3)
    by (simp add: write_extent_samples_def)
  then obtain wi where "wire_channels modems ?cap bcs \<lparr>wi_pair_buffers = [], wi_outgoing = replicate (length modems) [],
      wi_incoming = replicate (length modems) [], wi_refs = replicate (length modems) []\<rparr> = Inr wi"
    using wire_channels_ok by blast
  with assms show ?thesis by (simp add: channel_engine_new_def)
qed

text \<open>Two modems and a replay channel from one to the other, without bulk delay.\<close>

definition tiny_link :: channel_config where
  "tiny_link = tiny_channel\<lparr>ch_from_modem := ''a'', ch_to_modem := ''b'', ch_propagation_delay_s := 0\<rparr>"

definition tiny_scenario :: scenario_config where
  "tiny_scenario = default_scenario\<lparr>sc_channels := [tiny_link]\<rparr>"

definition tiny_modem :: "string \<Rightarrow> nat \<Rightarrow> per_modem_context" where
  "tiny_modem i k = \<lparr>pc_id = i, pc_calibration = default_calibration, pc_runtime = k, pc_tx_ring = k, pc_rx_ring = k,
     pc_noise_cfg = default_noise_config, pc_sample_rate = 500000, pc_receive_boost_db = 0\<rparr>"

definition tiny_modems :: "per_modem_context list" where
  "tiny_modems = [tiny_modem ''a'' 0, tiny_modem ''b'' 1]"

lemma tiny_build:
  "\<exists>bc r. build_channel (\<lambda>_. Some tiny_octt) tiny_scenario tiny_modems tiny_link = Inr bc \<and> bc_src_idx bc = 0 \<and> bc_rcv_idx bc = 1 \<and>
     cn_renderer (bc_channel bc) = Replay_R r \<and> tr_max_tap_delta_samples r = 0 \<and> tr_base_delay_samples r = 0"
proof -
  have idx: "modem_index tiny_modems ''a'' = Inr 0" "modem_index tiny_modems ''b'' = Inr 1"
    by (simp_all add: modem_index_def tiny_modems_def tiny_modem_def upt_rec)
  have "rs_max_tap_delta_samples (replay_source_new tiny_trajectory cfg n) = 0" for cfg n
    by (simp add: replay_source_new_def Let_def tiny_trajectory_def tiny_header_def)
  moreover have "bulk_propagation_delay_samples tiny_link n = 0" for n
    by (simp add: bulk_propagation_delay_samples_def tiny_link_def cround_def)
  ultimately show ?thesis
    by (simp add: build_channel_def tiny_link_def [THEN arg_cong, of ch_from_modem] tiny_link_def [THEN arg_cong, of ch_to_modem] idx
        channel_new_def tiny_link_def [THEN arg_cong, of ch_mode] tiny_channel_def make_replay_renderer_def
        tiny_link_def [THEN arg_cong, of ch_replay] tiny_loads Let_def tap_renderer_new_def replay_ops_def)
qed

lemma tiny_flight: "in_flight_samples (sc_environment tiny_scenario) 500000 = 5000000"
  using f64_of_int [of 5000000] by (simp add: in_flight_samples_def tiny_scenario_def default_scenario_def default_environment_def cround_def)

lemma tiny_engine: "\<exists>e. channel_engine_new counting 0 (\<lambda>_. Some tiny_octt) tiny_scenario tiny_modems = Inr e"
proof -
  obtain bc where "build_channel (\<lambda>_. Some tiny_octt) tiny_scenario tiny_modems tiny_link = Inr bc" using tiny_build by blast
  then have b: "build_channels (\<lambda>_. Some tiny_octt) tiny_scenario tiny_modems (sc_channels tiny_scenario) = Inr [bc]"
    by (simp add: tiny_scenario_def)
  show ?thesis by (rule engine_new_ok [OF _ b]) (simp_all add: tiny_modems_def tiny_modem_def tiny_flight)
qed

section \<open>Properties\<close>

text \<open>C6: The engine builds the graph of the scenario: one buffer per channel, of its base delay; the worker
  of a modem holds exactly the channels that leave it and the mix of a modem exactly those that enter it, in
  the order of the scenario, each with its own buffer. A modem without outgoing channels has no worker.\<close>

theorem engine_wires_scenario:
  assumes "channel_engine_new gs g0 fs scenario modems = Inr e"
  shows "\<exists>bcs. list_all2 (\<lambda>cc bc. build_channel fs scenario modems cc = Inr bc) (sc_channels scenario) bcs \<and>
    length (eg_pair_buffers e) = length bcs \<and>
    (\<forall>k < length bcs. pair_buffer_new (engine_pair_cap scenario modems bcs) (channel_base_delay_samples (bc_channel (bcs ! k))) =
       Inr (eg_pair_buffers e ! k)) \<and>
    (\<forall>i < length modems. engine_source_worker i e = worker_for (modems ! i) (map (\<lambda>(k, bc). outgoing_for modems k bc) (out_of i bcs)) \<and>
       map_option rm_incoming (engine_receiver_mix i e) = Some (map fst (into i bcs)))"
proof -
  obtain bcs wi where b: "list_all2 (\<lambda>cc bc. build_channel fs scenario modems cc = Inr bc) (sc_channels scenario) bcs"
    and g: "graph_ok modems (engine_pair_cap scenario modems bcs) bcs wi" and e: "eg_pair_buffers e = wi_pair_buffers wi"
    "eg_source_workers e = map2 worker_for modems (wi_outgoing wi)"
    "eg_receiver_mixes e = map2 (\<lambda>m ks. receiver_mix_new gs g0 ks (pc_noise_cfg m) (pc_calibration m) (pc_sample_rate m)) modems (wi_incoming wi)"
    using engine_of_graph [OF assms] by blast
  from g e show ?thesis
    by (intro exI [of _ bcs]) (simp add: b graph_ok_def engine_source_worker_def engine_receiver_mix_def receiver_mix_new_def)
qed

lemma engine_lists:
  assumes "channel_engine_new gs g0 fs scenario modems = Inr e"
  shows "\<exists>bcs. list_all2 (\<lambda>cc bc. build_channel fs scenario modems cc = Inr bc) (sc_channels scenario) bcs \<and>
    (\<forall>i w. engine_source_worker i e = Some w \<longrightarrow> map og_pair_buffer (sw_outgoing w) = map fst (out_of i bcs)) \<and>
    (\<forall>i. engine_source_worker i e = None \<longrightarrow> out_of i bcs = []) \<and>
    (\<forall>i m. engine_receiver_mix i e = Some m \<longrightarrow> rm_incoming m = map fst (into i bcs)) \<and>
    (\<forall>i. engine_receiver_mix i e = None \<longrightarrow> into i bcs = [])"
proof -
  obtain bcs wi where b: "list_all2 (\<lambda>cc bc. build_channel fs scenario modems cc = Inr bc) (sc_channels scenario) bcs"
    and g: "graph_ok modems (engine_pair_cap scenario modems bcs) bcs wi" and e:
    "eg_source_workers e = map2 worker_for modems (wi_outgoing wi)"
    "eg_receiver_mixes e = map2 (\<lambda>m ks. receiver_mix_new gs g0 ks (pc_noise_cfg m) (pc_calibration m) (pc_sample_rate m)) modems (wi_incoming wi)"
    using engine_of_graph [OF assms] by blast
  note none = out_of_none [OF built_indices [OF b]] into_none [OF built_indices [OF b]]
  have slots: "map og_pair_buffer (map (\<lambda>(k, bc). outgoing_for modems k bc) l) = map fst l" for l
    by (simp add: outgoing_for_def case_prod_unfold)
  have "map og_pair_buffer (sw_outgoing w) = map fst (out_of i bcs)" if "engine_source_worker i e = Some w" for i w
    using that g e(1) worker_for_outgoing [of "modems ! i" "wi_outgoing wi ! i" w] slots
    by (auto simp: engine_source_worker_def graph_ok_def split: if_splits)
  moreover have "out_of i bcs = []" if "engine_source_worker i e = None" for i
    using that g e(1) none by (cases "i < length modems") (auto simp: engine_source_worker_def graph_ok_def worker_for_def split: if_splits)
  moreover have "rm_incoming m = map fst (into i bcs)" if "engine_receiver_mix i e = Some m" for i m
    using that g e(2) by (auto simp: engine_receiver_mix_def graph_ok_def receiver_mix_new_def split: if_splits)
  moreover have "into i bcs = []" if "engine_receiver_mix i e = None" for i
    using that g e(2) none by (auto simp: engine_receiver_mix_def graph_ok_def split: if_splits)
  ultimately show ?thesis using b by blast
qed

text \<open>C17: The discipline the lock-free pair buffer needs holds by construction: the buffer of every channel
  is written by exactly one entry of exactly one worker, that of the channel's sender, and read by exactly
  one entry of exactly one mix, that of its receiver.\<close>

theorem pair_buffer_one_writer_one_reader:
  assumes "channel_engine_new gs g0 fs scenario modems = Inr e" and "k < length (sc_channels scenario)"
  shows "\<exists>i j p q. modem_index modems (ch_from_modem (sc_channels scenario ! k)) = Inr i \<and> writers e k = {(i, p)} \<and>
    modem_index modems (ch_to_modem (sc_channels scenario ! k)) = Inr j \<and> readers e k = {(j, q)}"
proof -
  obtain bcs where b: "list_all2 (\<lambda>cc bc. build_channel fs scenario modems cc = Inr bc) (sc_channels scenario) bcs"
    and w: "\<And>i w. engine_source_worker i e = Some w \<Longrightarrow> map og_pair_buffer (sw_outgoing w) = map fst (out_of i bcs)"
      "\<And>i. engine_source_worker i e = None \<Longrightarrow> out_of i bcs = []"
    and r: "\<And>i m. engine_receiver_mix i e = Some m \<Longrightarrow> rm_incoming m = map fst (into i bcs)"
      "\<And>i. engine_receiver_mix i e = None \<Longrightarrow> into i bcs = []"
    using engine_lists [OF assms(1)] by blast
  have k: "k < length bcs" "build_channel fs scenario modems (sc_channels scenario ! k) = Inr (bcs ! k)"
    using b assms(2) by (auto simp: list_all2_conv_all_nth)
  have wr: "writers e k = {(i, p). p < length (map fst (out_of i bcs)) \<and> map fst (out_of i bcs) ! p = k}"
  proof -
    have "(\<exists>w. engine_source_worker i e = Some w \<and> p < length (sw_outgoing w) \<and> og_pair_buffer (sw_outgoing w ! p) = k) \<longleftrightarrow>
        p < length (map fst (out_of i bcs)) \<and> map fst (out_of i bcs) ! p = k" for i p
    proof (cases "engine_source_worker i e")
      case (Some v)
      have "(p < length (sw_outgoing v) \<and> og_pair_buffer (sw_outgoing v ! p) = k) \<longleftrightarrow>
          p < length (map og_pair_buffer (sw_outgoing v)) \<and> map og_pair_buffer (sw_outgoing v) ! p = k" by auto
      then show ?thesis unfolding w(1) [OF Some] by (simp add: Some)
    qed (simp add: w(2))
    then show ?thesis by (simp add: writers_def)
  qed
  have rd: "readers e k = {(i, p). p < length (map fst (into i bcs)) \<and> map fst (into i bcs) ! p = k}"
  proof -
    have "(\<exists>m. engine_receiver_mix i e = Some m \<and> p < length (rm_incoming m) \<and> rm_incoming m ! p = k) \<longleftrightarrow>
        p < length (map fst (into i bcs)) \<and> map fst (into i bcs) ! p = k" for i p
      using r(1) [of i] r(2) [of i] by (cases "engine_receiver_mix i e") auto
    then show ?thesis by (simp add: readers_def)
  qed
  have "\<exists>p. writers e k = {(bc_src_idx (bcs ! k), p)}" unfolding wr
    by (rule unique_place) (use k(1) in \<open>auto simp: map_fst_out_of\<close>)
  moreover have "\<exists>q. readers e k = {(bc_rcv_idx (bcs ! k), q)}" unfolding rd
    by (rule unique_place) (use k(1) in \<open>auto simp: map_fst_into\<close>)
  ultimately show ?thesis using build_channel_facts [OF k(2)] by blast
qed

section \<open>Wiring the trackers\<close>

lemma rank_nth:
  assumes "k < length bcs"
  shows "rank bcs k < length (out_of (bc_src_idx (bcs ! k)) bcs) \<and> out_of (bc_src_idx (bcs ! k)) bcs ! rank bcs k = (k, bcs ! k)"
proof -
  have split: "bcs = (take k bcs @ [bcs ! k]) @ drop (Suc k) bcs" using assms by (simp add: id_take_nth_drop)
  have "out_of i (xs @ ys) = out_of i xs @ filter (\<lambda>(k, bc). bc_src_idx bc = i) (enumerate (length xs) ys)" for i xs ys
    by (simp add: out_of_def enumerate_append_eq)
  then have "out_of (bc_src_idx (bcs ! k)) bcs = (out_of (bc_src_idx (bcs ! k)) (take k bcs) @ [(k, bcs ! k)]) @
      filter (\<lambda>(k', bc). bc_src_idx bc = bc_src_idx (bcs ! k)) (enumerate (Suc k) (drop (Suc k) bcs))"
    using assms by (subst split) (simp add: out_of_snoc)
  then show ?thesis by (simp add: rank_def nth_append)
qed

text \<open>Place \<open>p\<close> of sender \<open>i\<close> is among the references of receiver \<open>j\<close> if its channel goes to \<open>j\<close>.\<close>

lemma ref_member:
  "(i, p) \<in> set (map (\<lambda>(k, bc). (bc_src_idx bc, rank bcs k)) (into j bcs)) \<longleftrightarrow>
    p < length (out_of i bcs) \<and> bc_rcv_idx (snd (out_of i bcs ! p)) = j"
proof
  assume "(i, p) \<in> set (map (\<lambda>(k, bc). (bc_src_idx bc, rank bcs k)) (into j bcs))"
  then obtain k where "k < length bcs" "bc_rcv_idx (bcs ! k) = j" "i = bc_src_idx (bcs ! k)" "p = rank bcs k"
    by (auto simp: into_member)
  with rank_nth [of k bcs] show "p < length (out_of i bcs) \<and> bc_rcv_idx (snd (out_of i bcs ! p)) = j" by simp
next
  assume p: "p < length (out_of i bcs) \<and> bc_rcv_idx (snd (out_of i bcs ! p)) = j"
  obtain k bc where kb: "out_of i bcs ! p = (k, bc)" by fastforce
  then have "(k, bc) \<in> set (out_of i bcs)" using p nth_mem by metis
  then have k: "k < length bcs" "bcs ! k = bc" "bc_src_idx bc = i" by (simp_all add: out_of_member)
  note r = rank_nth [OF k(1), unfolded k(2,3)]
  have "distinct (out_of i bcs)" by (simp add: out_of_def enumerate_eq_zip distinct_zipI1)
  with r p kb have "p = rank bcs k" using nth_eq_iff_index_eq [of "out_of i bcs" p "rank bcs k"] by simp
  then show "(i, p) \<in> set (map (\<lambda>(k, bc). (bc_src_idx bc, rank bcs k)) (into j bcs))"
    using k p kb by (auto simp: image_iff into_member intro!: bexI [of _ "(k, bc)"])
qed

definition with_context :: "nat option \<Rightarrow> nat option \<Rightarrow> nat set \<Rightarrow> outgoing list \<Rightarrow> outgoing list" where
  "with_context t r ps ogs = map (\<lambda>p. if p \<in> ps then (ogs ! p)\<lparr>og_receiver_fill_tracker := t, og_receiver_rx_ring := r\<rparr> else ogs ! p)
     [0..<length ogs]"

lemma set_context: "set_outgoing_receiver_context k t r w = w\<lparr>sw_outgoing := with_context t r {k} (sw_outgoing w)\<rparr>"
proof -
  have "with_context t r {k} (sw_outgoing w) = (if k < length (sw_outgoing w)
      then (sw_outgoing w)[k := (sw_outgoing w ! k)\<lparr>og_receiver_fill_tracker := t, og_receiver_rx_ring := r\<rparr>] else sw_outgoing w)"
    by (rule nth_equalityI) (auto simp: with_context_def nth_list_update)
  then show ?thesis by (simp add: set_outgoing_receiver_context_def)
qed

lemma with_context_twice: "with_context t r ps (with_context t r qs ogs) = with_context t r (ps \<union> qs) ogs"
  by (rule nth_equalityI) (auto simp: with_context_def)

lemma with_context_none: "with_context t r {} ogs = ogs"
  by (rule nth_equalityI) (auto simp: with_context_def)

lemma wire_refs:
  assumes "i < length sws" and "sws ! i = map_option (\<lambda>w. w\<lparr>sw_outgoing := with_context t r qs (sw_outgoing w)\<rparr>) v"
  shows "foldl (\<lambda>sws (src, out). with_worker src (set_outgoing_receiver_context out t r) sws) sws refs ! i =
    map_option (\<lambda>w. w\<lparr>sw_outgoing := with_context t r (qs \<union> {p. (i, p) \<in> set refs}) (sw_outgoing w)\<rparr>) v \<and>
    length (foldl (\<lambda>sws (src, out). with_worker src (set_outgoing_receiver_context out t r) sws) sws refs) = length sws"
  using assms
proof (induction refs arbitrary: sws qs)
  case (Cons ref refs)
  obtain src out where ref: "ref = (src, out)" by fastforce
  let ?sws = "with_worker src (set_outgoing_receiver_context out t r) sws"
  have i: "i < length ?sws" and len: "length ?sws = length sws" using Cons.prems by (simp_all add: with_worker_def)
  let ?qs = "qs \<union> (if src = i then {out} else {})"
  have "?sws ! i = map_option (\<lambda>w. w\<lparr>sw_outgoing := with_context t r ?qs (sw_outgoing w)\<rparr>) v"
    using Cons.prems by (cases v) (auto simp: with_worker_def nth_list_update set_context with_context_twice)
  from Cons.IH [OF i this] len show ?case
    by (auto simp: ref Un_assoc intro!: arg_cong [where f = "\<lambda>qs. map_option (\<lambda>w. w\<lparr>sw_outgoing := with_context t r qs (sw_outgoing w)\<rparr>) v"])
qed simp

text \<open>The simulator's wiring: modem \<open>i\<close>'s tracker, estimator and receive ring, one modem after the other.\<close>

definition wire_first :: "nat \<Rightarrow> 'g channel_engine \<Rightarrow> 'g channel_engine" where
  "wire_first n e = foldl (\<lambda>e i. wire_modem_trackers i (Some i) (Some i) (Some i) e) e [0..<n]"

definition wired_outgoing :: "nat \<Rightarrow> per_modem_context list \<Rightarrow> nat \<times> built_channel \<Rightarrow> outgoing" where
  "wired_outgoing n modems kb = (case kb of (k, bc) \<Rightarrow>
     if bc_rcv_idx bc < n then (outgoing_for modems k bc)\<lparr>og_receiver_fill_tracker := Some (bc_rcv_idx bc), og_receiver_rx_ring := Some (bc_rcv_idx bc)\<rparr>
     else outgoing_for modems k bc)"

lemma wired_step:
  "with_context (Some n) (Some n) {p. p < length l \<and> bc_rcv_idx (snd (l ! p)) = n} (map (wired_outgoing n modems) l) =
    map (wired_outgoing (Suc n) modems) l"
  by (rule nth_equalityI) (auto simp: with_context_def wired_outgoing_def less_Suc_eq split: prod.splits)

lemma wire_one_modem:
  assumes "j < length (eg_modems e)" and "i < length (eg_source_workers e)"
  defines "ps \<equiv> {p. (i, p) \<in> set (eg_per_receiver_outgoing_refs e ! j)}"
  shows "eg_source_workers (wire_modem_trackers j t est r e) ! i =
      map_option (\<lambda>w. w\<lparr>sw_source_tx_estimator := if i = j then est else sw_source_tx_estimator w,
        sw_outgoing := with_context t r ps (sw_outgoing w)\<rparr>) (eg_source_workers e ! i) \<and>
    length (eg_source_workers (wire_modem_trackers j t est r e)) = length (eg_source_workers e)"
proof -
  let ?sws = "with_worker j (set_source_tx_estimator est) (eg_source_workers e)"
  have i: "i < length ?sws" "length ?sws = length (eg_source_workers e)" using assms(2) by (simp_all add: with_worker_def)
  have "?sws ! i = map_option (\<lambda>w. w\<lparr>sw_outgoing := with_context t r {} (sw_outgoing w)\<rparr>) (?sws ! i)"
    by (cases "?sws ! i") (simp_all add: with_context_none)
  note w = wire_refs [OF i(1) this, of "eg_per_receiver_outgoing_refs e ! j"]
  have "?sws ! i = map_option (\<lambda>w. w\<lparr>sw_source_tx_estimator := if i = j then est else sw_source_tx_estimator w\<rparr>) (eg_source_workers e ! i)"
    using assms(2) by (cases "eg_source_workers e ! i") (auto simp: with_worker_def nth_list_update set_source_tx_estimator_def)
  with w i(2) assms(1) show ?thesis
    by (cases "eg_source_workers e ! i") (simp_all add: wire_modem_trackers_def Let_def ps_def)
qed

lemma wire_frame: "eg_modems (wire_modem_trackers j t est r e) = eg_modems e \<and>
    eg_per_receiver_outgoing_refs (wire_modem_trackers j t est r e) = eg_per_receiver_outgoing_refs e \<and>
    eg_pair_buffers (wire_modem_trackers j t est r e) = eg_pair_buffers e \<and>
    eg_receiver_mixes (wire_modem_trackers j t est r e) = eg_receiver_mixes e"
  by (simp add: wire_modem_trackers_def Let_def)

lemma wire_first_frame: "eg_modems (wire_first n e) = eg_modems e \<and>
    eg_per_receiver_outgoing_refs (wire_first n e) = eg_per_receiver_outgoing_refs e \<and>
    eg_pair_buffers (wire_first n e) = eg_pair_buffers e \<and> eg_receiver_mixes (wire_first n e) = eg_receiver_mixes e"
  by (induction n) (simp_all add: wire_first_def wire_frame)

lemma wire_first_workers:
  assumes "graph_ok modems cap bcs wi" and "eg_modems e = modems" and "eg_per_receiver_outgoing_refs e = wi_refs wi"
    and "eg_source_workers e = map2 worker_for modems (wi_outgoing wi)" and "i < length modems"
  shows "n \<le> length modems \<Longrightarrow> length (eg_source_workers (wire_first n e)) = length modems \<and>
    eg_source_workers (wire_first n e) ! i = map_option (\<lambda>w. w\<lparr>sw_source_tx_estimator := if i < n then Some i else None,
      sw_outgoing := map (wired_outgoing n modems) (out_of i bcs)\<rparr>) (eg_source_workers e ! i)"
proof (induction n)
  case 0
  have "wired_outgoing 0 modems = (\<lambda>(k, bc). outgoing_for modems k bc)" by (simp add: fun_eq_iff wired_outgoing_def)
  then show ?case
    using assms by (auto simp: wire_first_def graph_ok_def worker_for_def source_worker_new_def Let_def)
next
  case (Suc n)
  let ?e = "wire_first n e"
  have step: "wire_first (Suc n) e = wire_modem_trackers n (Some n) (Some n) (Some n) ?e" by (simp add: wire_first_def)
  have n: "n < length modems" using Suc.prems by simp
  have frame: "eg_modems ?e = modems" "eg_per_receiver_outgoing_refs ?e = wi_refs wi" using wire_first_frame [of n e] assms(2,3) by simp_all
  have ih: "length (eg_source_workers ?e) = length modems" "eg_source_workers ?e ! i = map_option (\<lambda>w. w\<lparr>sw_source_tx_estimator :=
      if i < n then Some i else None, sw_outgoing := map (wired_outgoing n modems) (out_of i bcs)\<rparr>) (eg_source_workers e ! i)"
    using Suc n by simp_all
  have "wi_refs wi ! n = map (\<lambda>(k, bc). (bc_src_idx bc, rank bcs k)) (into n bcs)" using assms(1) n by (simp add: graph_ok_def)
  then have refs: "{p. (i, p) \<in> set (eg_per_receiver_outgoing_refs ?e ! n)} = {p. p < length (out_of i bcs) \<and> bc_rcv_idx (snd (out_of i bcs ! p)) = n}"
    by (simp only: frame ref_member)
  have "n < length (eg_modems ?e)" "i < length (eg_source_workers ?e)" using n frame ih(1) assms(5) by simp_all
  from wire_one_modem [OF this, of "Some n" "Some n" "Some n", folded step, unfolded refs] ih
  show ?case by (cases "eg_source_workers e ! i") (auto simp: wired_step)
qed

text \<open>C21: Once every modem has been wired, every worker asks its own modem's estimator for the start of its
  transmission, and every one of its channels asks the fill tracker and the receive ring of the modem that
  channel leads to, no other; nothing else of a worker changes.\<close>

theorem wired_engine_asks_receivers:
  assumes "channel_engine_new gs g0 fs scenario modems = Inr e"
  shows "\<exists>bcs. list_all2 (\<lambda>cc bc. build_channel fs scenario modems cc = Inr bc) (sc_channels scenario) bcs \<and>
    (\<forall>i < length modems. engine_source_worker i (wire_first (length modems) e) =
       map_option (\<lambda>w. w\<lparr>sw_source_tx_estimator := Some i, sw_outgoing := map (\<lambda>(k, bc). (outgoing_for modems k bc)
         \<lparr>og_receiver_fill_tracker := Some (bc_rcv_idx bc), og_receiver_rx_ring := Some (bc_rcv_idx bc)\<rparr>) (out_of i bcs)\<rparr>)
       (engine_source_worker i e))"
proof -
  obtain bcs wi where b: "list_all2 (\<lambda>cc bc. build_channel fs scenario modems cc = Inr bc) (sc_channels scenario) bcs"
    and g: "graph_ok modems (engine_pair_cap scenario modems bcs) bcs wi" and e: "eg_modems e = modems"
    "eg_per_receiver_outgoing_refs e = wi_refs wi" "eg_source_workers e = map2 worker_for modems (wi_outgoing wi)"
    using engine_of_graph [OF assms] by blast
  have wired: "map (wired_outgoing (length modems) modems) (out_of i bcs) = map (\<lambda>(k, bc). (outgoing_for modems k bc)
      \<lparr>og_receiver_fill_tracker := Some (bc_rcv_idx bc), og_receiver_rx_ring := Some (bc_rcv_idx bc)\<rparr>) (out_of i bcs)" for i
    using built_indices [OF b] by (auto simp: wired_outgoing_def out_of_member indices_ok_def)
  have "engine_source_worker i (wire_first (length modems) e) = map_option (\<lambda>w. w\<lparr>sw_source_tx_estimator := Some i,
      sw_outgoing := map (wired_outgoing (length modems) modems) (out_of i bcs)\<rparr>) (engine_source_worker i e)" if "i < length modems" for i
  proof -
    have "length (eg_source_workers e) = length modems" using e(3) g by (simp add: graph_ok_def)
    with wire_first_workers [OF g e that order_refl] that show ?thesis by (simp add: engine_source_worker_def)
  qed
  with b show ?thesis unfolding wired by (intro exI [of _ bcs]) blast
qed

theorem engine_wires_scenario_witness:
  "\<exists>e bc. channel_engine_new counting 0 (\<lambda>_. Some tiny_octt) tiny_scenario tiny_modems = Inr e \<and>
     engine_source_worker 0 e = worker_for (tiny_modem ''a'' 0) [outgoing_for tiny_modems 0 bc] \<and> engine_source_worker 1 e = None \<and>
     map_option rm_incoming (engine_receiver_mix 1 e) = Some [0]"
proof -
  obtain e where e: "channel_engine_new counting 0 (\<lambda>_. Some tiny_octt) tiny_scenario tiny_modems = Inr e" using tiny_engine by blast
  obtain bc where bc: "build_channel (\<lambda>_. Some tiny_octt) tiny_scenario tiny_modems tiny_link = Inr bc" "bc_src_idx bc = 0" "bc_rcv_idx bc = 1"
    using tiny_build by blast
  have "sc_channels tiny_scenario = [tiny_link]" by (simp add: tiny_scenario_def)
  with engine_wires_scenario [OF e] bc(1) have "\<forall>i < length tiny_modems.
      engine_source_worker i e = worker_for (tiny_modems ! i) (map (\<lambda>(k, bc). outgoing_for tiny_modems k bc) (out_of i [bc])) \<and>
      map_option rm_incoming (engine_receiver_mix i e) = Some (map fst (into i [bc]))" by (auto simp: list_all2_Cons1)
  from this [rule_format, of 0] this [rule_format, of 1] bc(2,3) e show ?thesis
    by (intro exI [of _ e] exI [of _ bc]) (simp add: tiny_modems_def out_of_def into_def worker_for_def)
qed

theorem pair_buffer_one_writer_one_reader_witness:
  "\<exists>e p q. channel_engine_new counting 0 (\<lambda>_. Some tiny_octt) tiny_scenario tiny_modems = Inr e \<and>
     writers e 0 = {(0, p)} \<and> readers e 0 = {(1, q)}"
proof -
  obtain e where e: "channel_engine_new counting 0 (\<lambda>_. Some tiny_octt) tiny_scenario tiny_modems = Inr e" using tiny_engine by blast
  have c: "sc_channels tiny_scenario = [tiny_link]" by (simp add: tiny_scenario_def)
  have idx: "modem_index tiny_modems ''a'' = Inr 0" "modem_index tiny_modems ''b'' = Inr 1"
    by (simp_all add: modem_index_def tiny_modems_def tiny_modem_def upt_rec)
  from pair_buffer_one_writer_one_reader [OF e, of 0] obtain p q where "writers e 0 = {(0, p)}" "readers e 0 = {(1, q)}"
    by (auto simp: c tiny_link_def idx)
  with e show ?thesis by blast
qed

theorem wired_engine_asks_receivers_witness:
  "\<exists>e bc w. channel_engine_new counting 0 (\<lambda>_. Some tiny_octt) tiny_scenario tiny_modems = Inr e \<and>
     engine_source_worker 0 (wire_first 2 e) = Some w \<and> sw_source_tx_estimator w = Some 0 \<and>
     map og_receiver_fill_tracker (sw_outgoing w) = [Some 1]"
proof -
  obtain e where e: "channel_engine_new counting 0 (\<lambda>_. Some tiny_octt) tiny_scenario tiny_modems = Inr e" using tiny_engine by blast
  obtain bc where bc: "build_channel (\<lambda>_. Some tiny_octt) tiny_scenario tiny_modems tiny_link = Inr bc" "bc_src_idx bc = 0" "bc_rcv_idx bc = 1"
    using tiny_build by blast
  have c: "sc_channels tiny_scenario = [tiny_link]" by (simp add: tiny_scenario_def)
  from engine_lists [OF e] bc(1) have "engine_source_worker 0 e = None \<longrightarrow> out_of 0 [bc] = []" by (auto simp: c list_all2_Cons1)
  then obtain w where w: "engine_source_worker 0 e = Some w" using bc(2) by (auto simp: out_of_def)
  from wired_engine_asks_receivers [OF e] bc(1) have "engine_source_worker 0 (wire_first (length tiny_modems) e) =
       map_option (\<lambda>w. w\<lparr>sw_source_tx_estimator := Some 0, sw_outgoing := map (\<lambda>(k, bc). (outgoing_for tiny_modems k bc)
         \<lparr>og_receiver_fill_tracker := Some (bc_rcv_idx bc), og_receiver_rx_ring := Some (bc_rcv_idx bc)\<rparr>) (out_of 0 [bc])\<rparr>)
       (engine_source_worker 0 e)" by (auto simp: c list_all2_Cons1 tiny_modems_def)
  with w bc(2,3) e show ?thesis by (simp add: tiny_modems_def out_of_def numeral_2_eq_2)
qed

end
