(* ===== verification/Engine_Sizing.thy ===== *)
theory Engine_Sizing
  imports Channel_Engine
begin

text \<open>
  Why the engine's buffers are large enough: every buffer holds the worst write extent of the scenario plus
  a message of the longest configured duration, a message that is not late never starts further ahead of the
  read head than the base delay, so none of its samples is dropped, and the state after it is again one of
  which this holds.
\<close>

section \<open>Capacity\<close>

text \<open>What a sender's entry and its buffer must satisfy: room for the base delay, the longest tap delay and
  \<open>flight\<close> samples, and the entry's delay is that of the buffer at \<open>rate\<close>.\<close>

definition fits :: "nat \<Rightarrow> nat \<Rightarrow> outgoing \<Rightarrow> pair_buffer \<Rightarrow> bool" where
  "fits rate flight og b \<longleftrightarrow> renderer_good (cn_renderer (og_channel og)) \<and>
     pb_base_delay_samples b + channel_max_tap_delta_samples (og_channel og) + flight \<le> pb_capacity b \<and>
     og_receiver_sample_rate og = rate \<and> og_propagation_delay_s og = ddiv (f64 (real (pb_base_delay_samples b))) (real rate)"

definition one_rate :: "nat \<Rightarrow> per_modem_context list \<Rightarrow> bool" where
  "one_rate rate modems \<longleftrightarrow> (\<forall>m \<in> set modems. pc_sample_rate m = rate \<and> unat (cal_adc_sampling_rate (pc_calibration m)) = rate)"

lemma pair_base: "pair_buffer_new capacity base = Inr b \<Longrightarrow> pb_base_delay_samples b = base"
  and pair_empty: "pair_buffer_new capacity base = Inr b \<Longrightarrow> pb_write_watermark b = 0"
  by (auto simp: pair_buffer_new_def Let_def split: if_splits)

lemma engine_fits:
  assumes "channel_engine_new gs g0 fs scenario modems = Inr e" and "one_rate rate modems" and "0 < rate"
    and "engine_source_worker i e = Some w" and "og \<in> set (sw_outgoing w)"
  shows "fits rate (in_flight_samples (sc_environment scenario) rate) og (eg_pair_buffers e ! og_pair_buffer og)"
proof -
  obtain bcs wi where b: "list_all2 (\<lambda>cc bc. build_channel fs scenario modems cc = Inr bc) (sc_channels scenario) bcs"
    and g: "graph_ok modems (engine_pair_cap scenario modems bcs) bcs wi" and ne: "modems \<noteq> []"
    and e: "eg_pair_buffers e = wi_pair_buffers wi" "eg_source_workers e = map2 worker_for modems (wi_outgoing wi)"
    using engine_of_graph [OF assms(1)] by blast
  have "i < length modems" "sw_outgoing w = wi_outgoing wi ! i"
    using assms(4) g e(2) worker_for_outgoing [of "modems ! i" "wi_outgoing wi ! i" w]
    by (auto simp: engine_source_worker_def graph_ok_def split: if_splits)
  with assms(5) g obtain k bc where k: "(k, bc) \<in> set (out_of i bcs)" "og = outgoing_for modems k bc"
    by (auto simp: graph_ok_def)
  then have bc: "k < length bcs" "bcs ! k = bc" by (simp_all add: out_of_member)
  then have mem: "bc \<in> set bcs" by auto
  have idx: "bc_src_idx bc < length modems" "bc_rcv_idx bc < length modems"
    using built_indices [OF b] mem by (simp_all add: indices_ok_def)
  from b bc obtain cc where "build_channel fs scenario modems cc = Inr bc" by (auto simp: list_all2_conv_all_nth)
  from build_channel_facts [OF this] obtain stx rtx boost where
    "channel_new fs cc (pc_calibration (modems ! bc_src_idx bc)) (pc_calibration (modems ! bc_rcv_idx bc)) stx rtx boost = Inr (bc_channel bc)"
    by blast
  from channel_new_good [OF this] assms(2) idx(1)
  have c: "renderer_good (cn_renderer (bc_channel bc))" "cn_sample_rate (bc_channel bc) = rate" by (auto simp: one_rate_def)
  have pair: "pair_buffer_new (engine_pair_cap scenario modems bcs) (channel_base_delay_samples (bc_channel bc)) = Inr (eg_pair_buffers e ! k)"
    using g bc e(1) by (auto simp: graph_ok_def)
  have base: "pb_base_delay_samples (eg_pair_buffers e ! k) = channel_base_delay_samples (bc_channel bc)"
    by (rule pair_base [OF pair])
  have "write_extent_samples (bc_channel bc) + in_flight_samples (sc_environment scenario) rate \<le> engine_pair_cap scenario modems bcs"
    using extent_le_worst [OF mem] capacity_covers [of "worst_channel_extent bcs" "sc_environment scenario" rate] assms(2) ne
    by (cases modems) (auto simp: engine_pair_cap_def one_rate_def)
  also have "\<dots> \<le> pb_capacity (eg_pair_buffers e ! k)" using pair_buffer_new_facts [OF pair] by simp
  finally show ?thesis
    using c base assms(2,3) idx by (simp add: fits_def k(2) outgoing_for_def write_extent_samples_def propagation_delay_seconds_def one_rate_def)
qed

section \<open>Where a message starts\<close>

lemma f64_up:
  assumes "0 \<le> x" and "x = 0 \<or> 1 / 10 ^ 20 \<le> x" and "x \<le> y"
  shows "f64 x \<le> y * (1 + 1 / 10 ^ 15)"
proof -
  have "f64 x - x \<le> \<bar>f64 x - x\<bar>" by simp
  also have "\<dots> \<le> x / 10 ^ 15" using f64_close [of x] assms(1,2) by simp
  finally have "f64 x \<le> x + x / 10 ^ 15" by simp
  also have "\<dots> = x * (1 + 1 / 10 ^ 15)" by (simp add: field_simps)
  also have "\<dots> \<le> y * (1 + 1 / 10 ^ 15)" using assms(3) by (rule mult_right_mono) simp
  finally show ?thesis .
qed

text \<open>The propagation delay, rounded to seconds, to nanoseconds and back to samples, is not more than the
  base delay.\<close>

definition delay_bounded :: "nat \<Rightarrow> nat \<Rightarrow> bool" where
  "delay_bounded rate base \<longleftrightarrow> 0 < rate \<and> rate \<le> 10 ^ 10 \<and> base \<le> 10 ^ 6 * rate \<and> base \<le> 10 ^ 14"

lemma delay_in_samples:
  assumes "delay_bounded rate base"
  shows "ctrunc (dmul (seconds_f64 (ns_of_seconds (ddiv (f64 (real base)) (real rate)))) (real rate)) \<le> int base"
proof (cases "base = 0")
  case True
  then show ?thesis by (simp add: ns_of_seconds_def ctrunc_def seconds_f64_def)
next
  case False
  let ?e = "1 / 10 ^ 15 :: real"
  have n: "base \<le> 10 ^ 14" "base \<le> 10 ^ 6 * rate" "1 \<le> rate" "rate \<le> 10 ^ 10" "1 \<le> base"
    using assms False by (auto simp: delay_bounded_def)
  note real = n [THEN of_nat_mono [where 'a = real]]
  have b: "real base \<le> 10 ^ 14" "1 \<le> real base" "real base \<le> 10 ^ 6 * real rate" using real by simp_all
  have r: "1 \<le> real rate" "real rate \<le> 10 ^ 10" using real by simp_all
  have fb: "f64 (real base) = real base" using f64_of_int [of "int base"] assms by (simp add: delay_bounded_def)
  define q where "q = real base / real rate"
  have q: "1 / 10 ^ 10 \<le> q" "q \<le> 10 ^ 6" "q * real rate = real base"
    unfolding q_def using frac_le [of "real base" 1 "real rate" "10 ^ 10"] b r by (simp_all add: pos_divide_le_eq)
  have "(1::real) / 10 ^ 20 \<le> 1 / 10 ^ 10" by simp
  then have q20: "1 / 10 ^ 20 \<le> q" "0 \<le> q" using q(1) by simp_all
  define pd where "pd = f64 q"
  have "0 \<le> pd" using f64_mono [OF q20(2)] by (simp add: pd_def)
  moreover have "\<bar>q\<bar> / 2 \<le> \<bar>pd\<bar>" unfolding pd_def by (rule half_close(2), rule f64_close) (use q20 in simp)
  ultimately have pd: "pd \<le> q * (1 + ?e)" "q / 2 \<le> pd" "0 \<le> pd"
    using f64_up [of q q] q20 by (simp_all add: pd_def)
  have "(1::real) / 10 ^ 20 \<le> 1 / 10 ^ 10 / 2 * 1000000000" by simp
  also have "\<dots> \<le> pd * 1000000000" using pd(2) q(1) by simp
  finally have big: "1 / 10 ^ 20 \<le> pd * 1000000000" .
  define x where "x = dmul pd 1000000000"
  have "x \<le> (q * (1 + ?e) * 1000000000) * (1 + ?e)"
    unfolding x_def using pd big by (intro f64_up mult_right_mono disjI2) simp_all
  then have x: "x \<le> q * 1000000000 * ((1 + ?e) * (1 + ?e))" by (simp only: mult_ac)
  have x0: "0 \<le> x" unfolding x_def using pd(3) f64_mono [of 0 "pd * 1000000000"] by simp
  define ns where "ns = ctrunc x"
  have ns: "0 \<le> ns" "real_of_int ns \<le> x" using x0 by (simp_all add: ns_def ctrunc_def)
  note x
  also have "q * 1000000000 * ((1 + ?e) * (1 + ?e)) \<le> 10 ^ 6 * 1000000000 * ((1 + ?e) * (1 + ?e))"
    using q(2) by (intro mult_right_mono) simp_all
  also have "\<dots> \<le> 2 ^ 53" by simp
  finally have "real_of_int ns \<le> 2 ^ 53" using ns(2) by linarith
  then have "ns \<le> 2 ^ 53" by (subst of_int_le_iff [symmetric, where 'a = real]) simp
  then have "\<bar>ns\<bar> \<le> 2 ^ 53" using ns(1) by simp
  note close = samples_until [OF this, of rate]
  define due where "due = real_of_int ns / 10 ^ 9 * real rate"
  have "due \<le> x / 10 ^ 9 * real rate" unfolding due_def using ns r by (intro mult_right_mono divide_right_mono) simp_all
  also have "\<dots> \<le> (q * 1000000000 * ((1 + ?e) * (1 + ?e))) / 10 ^ 9 * real rate"
    using x r by (intro mult_right_mono divide_right_mono) simp_all
  also have "\<dots> = (q * real rate) * ((1 + ?e) * (1 + ?e))" by simp
  finally have due: "due \<le> real base * ((1 + ?e) * (1 + ?e))" unfolding q(3) .
  have due0: "0 \<le> due" using ns(1) by (simp add: due_def)
  define m where "m = dmul (seconds_f64 ns) (real rate)"
  have "m \<le> due + due * 3 / 10 ^ 15" using close due0 unfolding m_def due_def [symmetric] by linarith
  also have "\<dots> = due * (1 + 3 * ?e)" by (simp add: field_simps)
  also have "\<dots> \<le> real base * ((1 + ?e) * (1 + ?e)) * (1 + 3 * ?e)" using due by (intro mult_right_mono) simp_all
  also have "\<dots> = real base * ((1 + ?e) * (1 + ?e) * (1 + 3 * ?e))" by (simp add: mult_ac)
  also have "\<dots> \<le> real base * (1 + 6 * ?e)" by (intro mult_left_mono) simp_all
  also have "\<dots> < real base + 1" using b by (simp add: field_simps)
  finally have "m < real base + 1" .
  then have "ctrunc m \<le> int base" by (auto simp: ctrunc_def) linarith+
  then show ?thesis by (simp add: m_def ns_def x_def pd_def q_def ns_of_seconds_def fb)
qed

lemma samples_mono: "t \<le> t' \<Longrightarrow> ctrunc (dmul (seconds_f64 t) (real n)) \<le> ctrunc (dmul (seconds_f64 t') (real n))"
  unfolding seconds_f64_def by (intro ctrunc_mono f64_mono mult_right_mono divide_right_mono) simp_all

text \<open>A message that is not started from the future begins at most the base delay ahead of the read head, if
  what earlier messages left unread does not reach further.\<close>

lemma start_near:
  assumes "arrival_gap T now s og = (gap, late, aligned)" and "T \<le> now" and "sh_pair_buffers s ! og_pair_buffer og = b"
    and "fits rate flight og b" and "delay_bounded rate (pb_base_delay_samples b)"
    and "pb_write_watermark b \<le> pb_read_pos b + pb_base_delay_samples b"
  shows "pb_write_origin (begin_message gap aligned b) \<le> pb_read_pos b + pb_base_delay_samples b"
proof (cases "\<exists>t r. og_receiver_fill_tracker og = Some t \<and> og_receiver_rx_ring og = Some r")
  case False
  then have "gap = 0" "\<not> aligned" using assms(1) by (auto simp: arrival_gap_def split: option.splits)
  then show ?thesis using assms(6) by (simp add: begin_message_def)
next
  case True
  then obtain t r where tr: "og_receiver_fill_tracker og = Some t" "og_receiver_rx_ring og = Some r" by blast
  let ?pd = "ddiv (f64 (real (pb_base_delay_samples b))) (real rate)"
  let ?m = "ctrunc (dmul (seconds_f64 (T + ns_of_seconds ?pd - now)) (real rate))"
  let ?fill = "cft_estimated_fill now (sh_tracker s t)" and ?depth = "ucast (spsc_available_read (sh_rx_ring s r)) :: u32"
  obtain gap' late' where c: "compute_arrival_aligned_gap T ?pd now rate ?fill (pb_write_watermark b) (pb_read_pos b) ?depth = (gap', late')"
    by fastforce
  have "og_receiver_sample_rate og = rate" "og_propagation_delay_s og = ?pd" using assms(4) by (simp_all add: fits_def)
  with assms(1) tr c have g: "compute_arrival_aligned_gap T ?pd now rate ?fill (pb_write_watermark b) (pb_read_pos b) ?depth = (gap, late)" "aligned"
    by (simp_all add: arrival_gap_def assms(3) Let_def)
  have "?m \<le> ctrunc (dmul (seconds_f64 (ns_of_seconds ?pd)) (real rate))" using assms(2) by (intro samples_mono) simp
  also have "\<dots> \<le> int (pb_base_delay_samples b)" by (rule delay_in_samples [OF assms(5)])
  finally have "pb_write_watermark b + gap \<le> pb_read_pos b + pb_base_delay_samples b"
    using g(1) assms(6) by (auto simp: compute_arrival_aligned_gap_def Let_def split: if_splits)
  then show ?thesis using g(2) by (simp add: begin_message_def)
qed

section \<open>A message keeps the sizes and drops nothing\<close>

definition worker_fits :: "nat \<Rightarrow> nat \<Rightarrow> source_worker \<Rightarrow> shared \<Rightarrow> bool" where
  "worker_fits rate flight w s \<longleftrightarrow> (\<forall>og \<in> set (sw_outgoing w). fits rate flight og (sh_pair_buffers s ! og_pair_buffer og))"

lemma begin_message_frame: "pb_read_pos (begin_message gap aligned b) = pb_read_pos b \<and>
    pb_capacity (begin_message gap aligned b) = pb_capacity b"
  by (simp add: begin_message_def)

lemma lone_message_fits:
  assumes "lone_message T now s og xs p" and "T \<le> now" and "sh_pair_buffers s ! og_pair_buffer og = b"
    and "fits rate flight og b" and "delay_bounded rate (pb_base_delay_samples b)"
    and "pb_write_watermark b \<le> pb_read_pos b + pb_base_delay_samples b"
    and "renderer_progress (cn_renderer (fst p)) \<le> flight" and "og_wiring og' = og_wiring og" and "og_channel og' = fst p"
  shows "fits rate flight og' (snd p) \<and> pb_overflow_drops (snd p) = pb_overflow_drops b"
proof -
  obtain gap late aligned c0 b0 evs out c1 b1 where m: "arrival_gap T now s og = (gap, late, aligned)"
    "channel_on_message_start gap aligned (og_channel og) b = Inr (c0, b0)" "channel_run evs c0 b0 = ret (c1, b1, out)"
    "channel_on_message_end c1 b1 = ret (fst p, snd p)"
    using assms(1,3) by (auto simp: lone_message_def)
  have b0: "b0 = begin_message gap aligned b" using m(2) by (auto simp: channel_on_message_start_def split: sum.splits)
  note start = start_near [OF m(1) assms(2-6), folded b0]
  have good: "renderer_good (cn_renderer (og_channel og))" using assms(4) by (simp add: fits_def)
  note step = message_no_drop [OF good m(2-4)]
  have "pb_read_pos b0 = pb_read_pos b" "pb_capacity b0 = pb_capacity b" using begin_message_frame by (simp_all add: b0)
  with start assms(4,7) have "pb_write_origin b0 + renderer_progress (cn_renderer (fst p)) + channel_max_tap_delta_samples (og_channel og) \<le>
      pb_read_pos b0 + pb_capacity b0" by (simp add: fits_def)
  with step assms(4,8,9) show ?thesis by (simp add: fits_def og_wiring_def)
qed

lemma env_step_frame:
  "length (sh_pair_buffers (env_step w a s)) = length (sh_pair_buffers s) \<and>
   (\<forall>k. pb_capacity (sh_pair_buffers (env_step w a s) ! k) = pb_capacity (sh_pair_buffers s ! k) \<and>
     pb_base_delay_samples (sh_pair_buffers (env_step w a s) ! k) = pb_base_delay_samples (sh_pair_buffers s ! k) \<and>
     pb_overflow_drops (sh_pair_buffers (env_step w a s) ! k) = pb_overflow_drops (sh_pair_buffers s ! k))"
proof (cases a)
  case (Env_Pull k n)
  then show ?thesis
    using read_fields [of n "sh_pair_buffers s ! k"] read_advance_frame [of "sh_pair_buffers s ! k" n]
    by (cases "k < length (sh_pair_buffers s)") (auto simp: nth_list_update list_update_beyond)
qed simp_all

lemma env_steps_frame:
  "pb_capacity (sh_pair_buffers (env_steps w acts s) ! k) = pb_capacity (sh_pair_buffers s ! k) \<and>
   pb_base_delay_samples (sh_pair_buffers (env_steps w acts s) ! k) = pb_base_delay_samples (sh_pair_buffers s ! k) \<and>
   pb_overflow_drops (sh_pair_buffers (env_steps w acts s) ! k) = pb_overflow_drops (sh_pair_buffers s ! k)"
  by (induction acts arbitrary: s) (simp_all add: env_step_frame)

text \<open>C10: No sample is lost for want of room. Take a worker whose channels and buffers have the engine's
  sizes, and the turns of one message. If the estimated start of the transmission is not in the future,
  what is still unread in each buffer when the message begins does not exceed the base delay, and no
  renderer produces more than \<open>flight\<close> samples, its tail included, then no buffer drops a sample, whether the
  message was placed by arrival alignment, was late, or was placed by the base delay, and the sizes hold
  again afterwards.\<close>

theorem sized_message_not_dropped:
  assumes "sw_loop clk (message_turns before between mids after st) w s = ret (w', s')"
    and "worker_ok w s" and "sw_last_state w \<noteq> ST_TX" and "st \<noteq> ST_TX" and "keeps_state between" and "keeping_turns mids"
    and "small_pushes (map Others (before @ [Env_State ST_TX]))" and "small_pushes (message_events between mids after st)"
    and "worker_fits rate flight w s"
    and "let s0 = env_steps w (before @ [Env_State ST_TX]) s; now = clk (sh_clock_reads s0)
      in tx_start_bound now w s0 \<le> now \<and>
        (\<forall>og \<in> set (sw_outgoing w). let b = sh_pair_buffers s0 ! og_pair_buffer og
           in delay_bounded rate (pb_base_delay_samples b) \<and> pb_write_watermark b \<le> pb_read_pos b + pb_base_delay_samples b)"
    and "\<forall>og \<in> set (sw_outgoing w'). renderer_progress (cn_renderer (og_channel og)) \<le> flight"
  shows "worker_fits rate flight w' s' \<and> (\<forall>og \<in> set (sw_outgoing w').
    pb_overflow_drops (sh_pair_buffers s' ! og_pair_buffer og) = pb_overflow_drops (sh_pair_buffers s ! og_pair_buffer og))"
proof -
  let ?s0 = "env_steps w (before @ [Env_State ST_TX]) s"
  let ?now = "clk (sh_clock_reads ?s0)"
  note story = loop_message_story [OF assms(1-8)]
  have len: "length (sw_outgoing w') = length (sw_outgoing w)" using story by simp
  have one: "fits rate flight (sw_outgoing w' ! j) (sh_pair_buffers s' ! og_pair_buffer (sw_outgoing w' ! j)) \<and>
      pb_overflow_drops (sh_pair_buffers s' ! og_pair_buffer (sw_outgoing w' ! j)) =
      pb_overflow_drops (sh_pair_buffers s ! og_pair_buffer (sw_outgoing w' ! j))" if j: "j < length (sw_outgoing w)" for j
  proof -
    let ?og = "sw_outgoing w ! j" and ?og' = "sw_outgoing w' ! j"
    let ?b = "sh_pair_buffers ?s0 ! og_pair_buffer ?og"
    have mem: "?og \<in> set (sw_outgoing w)" and mem': "?og' \<in> set (sw_outgoing w')" using j len by simp_all
    obtain xs where lone: "lone_message (tx_start_bound ?now w ?s0) ?now ?s0 ?og xs (own ?og' (sh_pair_buffers s'))"
      and wiring: "og_wiring ?og' = og_wiring ?og" using story j by blast
    have start: "tx_start_bound ?now w ?s0 \<le> ?now" "delay_bounded rate (pb_base_delay_samples ?b)"
        "pb_write_watermark ?b \<le> pb_read_pos ?b + pb_base_delay_samples ?b" using assms(10) mem by (simp_all add: Let_def)
    have "fits rate flight ?og (sh_pair_buffers s ! og_pair_buffer ?og)" using assms(9) mem by (simp add: worker_fits_def)
    then have fit: "fits rate flight ?og ?b" by (simp add: fits_def env_steps_frame del: env_steps_simps)
    have prog: "renderer_progress (cn_renderer (fst (own ?og' (sh_pair_buffers s')))) \<le> flight"
      using assms(11) mem' by (simp add: own_def)
    have slot: "og_pair_buffer ?og' = og_pair_buffer ?og" by (rule wiring_slot [OF wiring])
    from lone_message_fits [OF lone start(1) refl fit start(2,3) prog wiring] show ?thesis
      by (simp add: own_def slot env_steps_frame del: env_steps_simps)
  qed
  then show ?thesis using len by (auto simp: worker_fits_def in_set_conv_nth)
qed

section \<open>An engine starts well-formed\<close>

lemma wired_from:
  assumes "channel_engine_new gs g0 fs scenario modems = Inr e"
    and "engine_source_worker i (wire_first (length modems) e) = Some w'"
  shows "\<exists>bcs w. list_all2 (\<lambda>cc bc. build_channel fs scenario modems cc = Inr bc) (sc_channels scenario) bcs \<and>
    length (eg_pair_buffers e) = length bcs \<and> i < length modems \<and> engine_source_worker i e = Some w \<and>
    w = source_worker_new (pc_id (modems ! i)) (pc_runtime (modems ! i)) (pc_tx_ring (modems ! i)) (pc_calibration (modems ! i))
      (map (\<lambda>(k, bc). outgoing_for modems k bc) (out_of i bcs)) \<and>
    w' = w\<lparr>sw_source_tx_estimator := Some i, sw_outgoing := map (wired_outgoing (length modems) modems) (out_of i bcs)\<rparr>"
proof -
  obtain bcs wi where b: "list_all2 (\<lambda>cc bc. build_channel fs scenario modems cc = Inr bc) (sc_channels scenario) bcs"
    and g: "graph_ok modems (engine_pair_cap scenario modems bcs) bcs wi" and e: "eg_modems e = modems"
    "eg_per_receiver_outgoing_refs e = wi_refs wi" "eg_source_workers e = map2 worker_for modems (wi_outgoing wi)"
    "eg_pair_buffers e = wi_pair_buffers wi"
    using engine_of_graph [OF assms(1)] by blast
  have len: "length (eg_source_workers e) = length modems" using e(3) g by (simp add: graph_ok_def)
  have "length (eg_source_workers (wire_first (length modems) e)) = length modems"
    using wire_first_workers [OF g e(1-3), of 0] g engine_of_graph [OF assms(1)] by (metis order_refl length_greater_0_conv wire_first_workers [OF g e(1-3)])
  then have i: "i < length modems" using assms(2) by (auto simp: engine_source_worker_def split: if_splits)
  note wired = wire_first_workers [OF g e(1-3) i order_refl]
  from assms(2) wired i obtain w where w: "eg_source_workers e ! i = Some w"
    "w' = w\<lparr>sw_source_tx_estimator := Some i, sw_outgoing := map (wired_outgoing (length modems) modems) (out_of i bcs)\<rparr>"
    by (cases "eg_source_workers e ! i") (auto simp: engine_source_worker_def)
  from w(1) e(3) g i have "worker_for (modems ! i) (map (\<lambda>(k, bc). outgoing_for modems k bc) (out_of i bcs)) = Some w"
    by (simp add: graph_ok_def)
  with b g e(4) i w len show ?thesis
    by (intro exI [of _ bcs] exI [of _ w]) (auto simp: engine_source_worker_def graph_ok_def worker_for_def split: if_splits)
qed

lemma wired_outgoing_fields:
  "og_pair_buffer (wired_outgoing n modems kb) = fst kb" "og_channel (wired_outgoing n modems kb) = bc_channel (snd kb)"
  "og_receiver_sample_rate (wired_outgoing n modems kb) = pc_sample_rate (modems ! bc_rcv_idx (snd kb))"
  "og_propagation_delay_s (wired_outgoing n modems kb) = propagation_delay_seconds (bc_channel (snd kb))"
  by (simp_all add: wired_outgoing_def outgoing_for_def split: prod.splits)

lemma engine_ready:
  assumes "channel_engine_new gs g0 fs scenario modems = Inr e" and "one_rate rate modems" and "0 < rate"
    and "sh_pair_buffers s = eg_pair_buffers e" and "\<forall>m \<in> set modems. spsc_inv (sh_tx_ring s (pc_tx_ring m))"
  shows "(\<forall>i w. engine_source_worker i (wire_first (length modems) e) = Some w \<longrightarrow>
      worker_ok w s \<and> worker_fits rate (in_flight_samples (sc_environment scenario) rate) w s \<and> sw_last_state w = ST_IDLE) \<and>
    (\<forall>j m. engine_receiver_mix j (wire_first (length modems) e) = Some m \<longrightarrow>
      distinct (rm_incoming m) \<and> (\<forall>k \<in> set (rm_incoming m). k < length (eg_pair_buffers e) \<and> pb_ok (eg_pair_buffers e ! k)))"
proof -
  let ?e = "wire_first (length modems) e"
  have "worker_ok w' s \<and> worker_fits rate (in_flight_samples (sc_environment scenario) rate) w' s \<and> sw_last_state w' = ST_IDLE"
    if sw: "engine_source_worker i ?e = Some w'" for i w'
  proof -
    from wired_from [OF assms(1) sw] obtain bcs w where b: "length (eg_pair_buffers e) = length bcs" "i < length modems"
      and w: "engine_source_worker i e = Some w" "w = source_worker_new (pc_id (modems ! i)) (pc_runtime (modems ! i)) (pc_tx_ring (modems ! i))
          (pc_calibration (modems ! i)) (map (\<lambda>(k, bc). outgoing_for modems k bc) (out_of i bcs))"
        "w' = w\<lparr>sw_source_tx_estimator := Some i, sw_outgoing := map (wired_outgoing (length modems) modems) (out_of i bcs)\<rparr>" by blast
    have slots: "map og_pair_buffer (sw_outgoing w') = filter (\<lambda>k. bc_src_idx (bcs ! k) = i) [0..<length bcs]"
      unfolding map_fst_out_of [symmetric] by (simp add: w(3) wired_outgoing_fields)
    have "pb_wired (sw_outgoing w') (sh_pair_buffers s)" unfolding pb_wired_map slots using assms(4) b(1) by simp
    moreover have "0 < sw_raw_buf_size w" unfolding w(2)
      by (simp add: source_worker_new_def Let_def) (rule less_le_trans [OF _ foldl_max_ge(1)], simp add: PROCESSING_BLOCK_SIZE_def)
    ultimately have "worker_ok w' s"
      using assms(5) b(2) w(2,3) by (simp add: worker_ok_def source_worker_new_def Let_def)
    moreover have "fits rate (in_flight_samples (sc_environment scenario) rate) og' (sh_pair_buffers s ! og_pair_buffer og')"
      if og': "og' \<in> set (sw_outgoing w')" for og'
    proof -
      obtain k bc where kb: "(k, bc) \<in> set (out_of i bcs)" "og' = wired_outgoing (length modems) modems (k, bc)"
        using og' w(3) by auto
      have "outgoing_for modems k bc \<in> set (sw_outgoing w)" using kb(1) w(2) by (force simp: source_worker_new_def Let_def)
      from engine_fits [OF assms(1-3) w(1) this] show ?thesis
        by (simp add: fits_def kb(2) wired_outgoing_fields assms(4)) (simp add: outgoing_for_def)
    qed
    moreover have "sw_last_state w' = ST_IDLE" using w by (simp add: source_worker_new_def Let_def)
    ultimately show ?thesis by (simp add: worker_fits_def)
  qed
  moreover have "distinct (rm_incoming m) \<and> (\<forall>k \<in> set (rm_incoming m). k < length (eg_pair_buffers e) \<and> pb_ok (eg_pair_buffers e ! k))"
    if mix: "engine_receiver_mix j ?e = Some m" for j m
  proof -
    obtain bcs wi where g: "graph_ok modems (engine_pair_cap scenario modems bcs) bcs wi" and e: "eg_pair_buffers e = wi_pair_buffers wi"
      "eg_receiver_mixes e = map2 (\<lambda>m ks. receiver_mix_new gs g0 ks (pc_noise_cfg m) (pc_calibration m) (pc_sample_rate m)) modems (wi_incoming wi)"
      using engine_of_graph [OF assms(1)] by blast
    have "rm_incoming m = map fst (into j bcs)"
      using mix g e(2) wire_first_frame [of "length modems" e]
      by (auto simp: engine_receiver_mix_def graph_ok_def receiver_mix_new_def split: if_splits)
    then have "rm_incoming m = filter (\<lambda>k. bc_rcv_idx (bcs ! k) = j) [0..<length bcs]" by (simp add: map_fst_into)
    moreover have "pb_ok (eg_pair_buffers e ! k)" if "k < length bcs" for k
      using g that e(1) pair_buffer_new_facts by (auto simp: graph_ok_def)
    moreover have "length (eg_pair_buffers e) = length bcs" using g e(1) by (simp add: graph_ok_def)
    ultimately show ?thesis by auto
  qed
  ultimately show ?thesis by blast
qed

text \<open>C14: An engine whose trackers are wired is ready to run. With the engine's buffers in the store and
  initialised rings, every worker satisfies the invariant the theorems on messages start from, its entries
  and buffers have room for the longest configured message, and every mix reads distinct, well-formed
  buffers, as the theorem on pulls requires.\<close>

theorem wired_engine_is_ready:
  assumes "channel_engine_new gs g0 fs scenario modems = Inr e" and "one_rate rate modems" and "0 < rate"
    and "sh_pair_buffers s = eg_pair_buffers e" and "\<forall>m \<in> set modems. spsc_inv (sh_tx_ring s (pc_tx_ring m))"
  shows "(\<forall>i w. engine_source_worker i (wire_first (length modems) e) = Some w \<longrightarrow>
      worker_ok w s \<and> worker_fits rate (in_flight_samples (sc_environment scenario) rate) w s \<and> sw_last_state w = ST_IDLE) \<and>
    (\<forall>j m. engine_receiver_mix j (wire_first (length modems) e) = Some m \<longrightarrow>
      distinct (rm_incoming m) \<and> (\<forall>k \<in> set (rm_incoming m). k < length (eg_pair_buffers e) \<and> pb_ok (eg_pair_buffers e ! k)))"
  by (rule engine_ready [OF assms])

text \<open>What a replay channel produces in a message: one sample per sample fed, and the tail.\<close>

lemma replay_run:
  assumes "channel_run evs c b = ret (c', b', out)" and "cn_renderer c = Replay_R r"
  shows "\<exists>r'. cn_renderer c' = Replay_R r' \<and> tr_out_cursor r' = tr_out_cursor r + length (feeds evs) \<and>
    tr_max_tap_delta_samples r' = tr_max_tap_delta_samples r"
  using assms
proof (induction evs arbitrary: c b r out)
  case (Cons ev evs)
  show ?case
  proof (cases ev)
    case (Feed xs)
    obtain r1 cs where p: "tap_process replay_ops xs r = (r1, cs)" by fastforce
    have "channel_run evs (c\<lparr>cn_renderer := Replay_R r1\<rparr>) (apply_calls cs b) = ret (c', b', out)"
      using Cons.prems p Feed by (simp add: channel_process_def tap_process_op_def lift_process_def)
    from Cons.IH [OF this] tap_process_facts [OF p] Feed show ?thesis by (auto simp: add.assoc)
  next
    case (Receive n)
    with Cons.prems obtain out' where "channel_run evs c (fst (read_advance n b)) = ret (c', b', out')"
      by (auto simp: case_prod_unfold Let_def split: sum.splits option.splits)
    from Cons.IH [OF this Cons.prems(2)] Receive show ?thesis by simp
  qed
qed simp

lemma lone_replay:
  assumes "lone_message T now s og xs p" and "cn_renderer (og_channel og) = Replay_R r"
  shows "renderer_progress (cn_renderer (fst p)) = length xs + tr_max_tap_delta_samples r"
proof -
  obtain gap late aligned c0 b0 evs out c1 b1 where m:
    "channel_on_message_start gap aligned (og_channel og) (sh_pair_buffers s ! og_pair_buffer og) = Inr (c0, b0)"
    "channel_run evs c0 b0 = ret (c1, b1, out)" "feeds evs = xs" "channel_on_message_end c1 b1 = ret p"
    using assms(1) by (auto simp: lone_message_def)
  obtain r0 where r0: "cn_renderer c0 = Replay_R r0" "tr_out_cursor r0 = 0" "tr_max_tap_delta_samples r0 = tr_max_tap_delta_samples r"
    using m(1) assms(2) by (auto simp: channel_on_message_start_def tap_on_message_start_def)
  from replay_run [OF m(2) r0(1)] r0 m(3) obtain r1 where r1: "cn_renderer c1 = Replay_R r1" "tr_out_cursor r1 = length xs"
    "tr_max_tap_delta_samples r1 = tr_max_tap_delta_samples r" by auto
  obtain r2 cs where d: "drain_tail replay_ops (tr_max_tap_delta_samples r1) r1 = (r2, cs)" by fastforce
  with m(4) r1(1) have "cn_renderer (fst p) = Replay_R r2"
    by (auto simp: channel_on_message_end_def tap_on_message_end_def lift_process_def)
  with drain_tail_facts [OF d] r1 show ?thesis by simp
qed

section \<open>Witnesses\<close>

lemma tiny_ready:
  "\<exists>e bc r w. channel_engine_new counting 0 (\<lambda>_. Some tiny_octt) tiny_scenario tiny_modems = Inr e \<and>
     cn_renderer (bc_channel bc) = Replay_R r \<and> tr_max_tap_delta_samples r = 0 \<and> tr_base_delay_samples r = 0 \<and>
     engine_source_worker 0 (wire_first (length tiny_modems) e) = Some w \<and>
     sw_outgoing w = [wired_outgoing (length tiny_modems) tiny_modems (0, bc)] \<and> sw_tx_ring w = 0 \<and> sw_source_tx_estimator w = Some 0 \<and>
     pair_buffer_new (engine_pair_cap tiny_scenario tiny_modems [bc]) 0 = Inr (eg_pair_buffers e ! 0)"
proof -
  obtain e where e: "channel_engine_new counting 0 (\<lambda>_. Some tiny_octt) tiny_scenario tiny_modems = Inr e" using tiny_engine by blast
  obtain bc r where bc: "build_channel (\<lambda>_. Some tiny_octt) tiny_scenario tiny_modems tiny_link = Inr bc" "bc_src_idx bc = 0" "bc_rcv_idx bc = 1"
      "cn_renderer (bc_channel bc) = Replay_R r" "tr_max_tap_delta_samples r = 0" "tr_base_delay_samples r = 0"
    using tiny_build by blast
  have c: "sc_channels tiny_scenario = [tiny_link]" by (simp add: tiny_scenario_def)
  obtain wi where g: "graph_ok tiny_modems (engine_pair_cap tiny_scenario tiny_modems [bc]) [bc] wi" and eg: "eg_modems e = tiny_modems"
    "eg_per_receiver_outgoing_refs e = wi_refs wi" "eg_source_workers e = map2 worker_for tiny_modems (wi_outgoing wi)"
    "eg_pair_buffers e = wi_pair_buffers wi"
    using engine_of_graph [OF e] bc(1) by (auto simp: c list_all2_Cons1)
  have out: "out_of 0 [bc] = [(0, bc)]" using bc(2) by (simp add: out_of_def)
  have n: "0 < length tiny_modems" by (simp add: tiny_modems_def)
  have "eg_source_workers e ! 0 = worker_for (tiny_modems ! 0) [outgoing_for tiny_modems 0 bc]"
    using g eg(3) n out by (simp add: graph_ok_def)
  then obtain w where w: "eg_source_workers e ! 0 = Some w" "sw_tx_ring w = 0"
    by (auto simp: worker_for_def source_worker_new_def Let_def tiny_modems_def tiny_modem_def)
  from wire_first_workers [OF g eg(1-3) n order_refl] w(1) n have "engine_source_worker 0 (wire_first (length tiny_modems) e) =
      Some (w\<lparr>sw_source_tx_estimator := Some 0, sw_outgoing := [wired_outgoing (length tiny_modems) tiny_modems (0, bc)]\<rparr>)"
    by (simp add: engine_source_worker_def out)
  moreover have "pair_buffer_new (engine_pair_cap tiny_scenario tiny_modems [bc]) 0 = Inr (eg_pair_buffers e ! 0)"
    using g eg(4) bc(4,6) by (simp add: graph_ok_def channel_base_delay_samples_def)
  ultimately show ?thesis using e bc w(2)
    by (intro exI [of _ e] exI [of _ bc] exI [of _ r] exI conjI) (assumption | simp)+
qed

lemma tiny_one_rate: "one_rate 500000 tiny_modems"
  by (simp add: one_rate_def tiny_modems_def tiny_modem_def default_calibration_def)

lemma tiny_rings: "spsc_inv (sh_tx_ring tiny_shared k)"
  using tiny_ring spsc_new_inv [of "0::u16" 16] by (auto simp: tiny_shared_def)

theorem wired_engine_is_ready_witness:
  "\<exists>e w. channel_engine_new counting 0 (\<lambda>_. Some tiny_octt) tiny_scenario tiny_modems = Inr e \<and>
     engine_source_worker 0 (wire_first (length tiny_modems) e) = Some w \<and>
     worker_ok w (tiny_shared\<lparr>sh_pair_buffers := eg_pair_buffers e\<rparr>) \<and>
     worker_fits 500000 5000000 w (tiny_shared\<lparr>sh_pair_buffers := eg_pair_buffers e\<rparr>)"
proof -
  obtain e w where e: "channel_engine_new counting 0 (\<lambda>_. Some tiny_octt) tiny_scenario tiny_modems = Inr e"
    "engine_source_worker 0 (wire_first (length tiny_modems) e) = Some w" using tiny_ready by blast
  from wired_engine_is_ready [OF e(1) tiny_one_rate, of "tiny_shared\<lparr>sh_pair_buffers := eg_pair_buffers e\<rparr>"] tiny_rings e(2)
  have "worker_ok w (tiny_shared\<lparr>sh_pair_buffers := eg_pair_buffers e\<rparr>) \<and>
      worker_fits 500000 5000000 w (tiny_shared\<lparr>sh_pair_buffers := eg_pair_buffers e\<rparr>)" by (simp add: tiny_flight)
  with e show ?thesis by blast
qed

theorem sized_message_not_dropped_witness:
  "\<exists>e w w' s'. channel_engine_new counting 0 (\<lambda>_. Some tiny_octt) tiny_scenario tiny_modems = Inr e \<and>
     engine_source_worker 0 (wire_first (length tiny_modems) e) = Some w \<and>
     sw_loop (\<lambda>_. 0) (message_turns [Env_Push [2048, 7]] [] [] [] ST_IDLE) w (tiny_shared\<lparr>sh_pair_buffers := eg_pair_buffers e\<rparr>) = ret (w', s') \<and>
     (\<forall>og \<in> set (sw_outgoing w'). pb_overflow_drops (sh_pair_buffers s' ! og_pair_buffer og) = 0)"
proof -
  obtain e bc r w where e: "channel_engine_new counting 0 (\<lambda>_. Some tiny_octt) tiny_scenario tiny_modems = Inr e"
    and r: "cn_renderer (bc_channel bc) = Replay_R r" "tr_max_tap_delta_samples r = 0"
    and w: "engine_source_worker 0 (wire_first (length tiny_modems) e) = Some w"
      "sw_outgoing w = [wired_outgoing (length tiny_modems) tiny_modems (0, bc)]" "sw_tx_ring w = 0" "sw_source_tx_estimator w = Some 0"
    and pb: "pair_buffer_new (engine_pair_cap tiny_scenario tiny_modems [bc]) 0 = Inr (eg_pair_buffers e ! 0)"
    using tiny_ready by blast
  let ?s = "tiny_shared\<lparr>sh_pair_buffers := eg_pair_buffers e\<rparr>" and ?clk = "\<lambda>_ :: nat. 0 :: int"
  let ?entry = "env_steps w ([Env_Push [2048, 7]] @ [Env_State ST_TX]) ?s"
  have ready: "worker_ok w ?s" "worker_fits 500000 5000000 w ?s" "sw_last_state w \<noteq> ST_TX"
    using engine_ready [OF e tiny_one_rate, of ?s] tiny_rings w(1) by (simp_all add: tiny_flight)
  have chan: "og_channel (wired_outgoing (length tiny_modems) tiny_modems (0, bc)) = bc_channel bc"
    "og_pair_buffer (wired_outgoing (length tiny_modems) tiny_modems (0, bc)) = 0" by (simp_all add: wired_outgoing_fields)
  have "steady_worker w" by (simp add: w(2) chan steady_def r)
  from loop_returns [OF this] obtain w' s' where
    l: "sw_loop ?clk (message_turns [Env_Push [2048, 7]] [] [] [] ST_IDLE) w ?s = ret (w', s')" by blast
  have small: "small_pushes (map Others ([Env_Push [2048, 7]] @ [Env_State ST_TX]))" "small_pushes (message_events [] [] [] ST_IDLE)"
    by (simp_all add: message_events_def)
  note story = loop_message_story [OF l ready(1,3) _ _ _ small]
  have none: "ring_accepts w ?entry (message_events [] [] [] ST_IDLE) = []" by (simp add: ring_accepts_def message_events_def)
  have len: "length (tx_contents w ?entry) \<le> 2"
  proof -
    have "tx_contents w (env_step w (Env_Push [2048, 7]) ?s) = tx_contents w ?s @ ring_accepts w ?s [Others (Env_Push [2048, 7])]"
      using env_step_took [OF ready(1), of "Env_Push [2048, 7]"] by simp
    moreover have "tx_contents w ?s = []" using tiny_ring spsc_new_inv [of "0::u16" 16] by (auto simp: tiny_shared_def)
    ultimately show ?thesis by (simp add: ring_accepts_def Let_def)
  qed
  have bound: "tx_start_bound (?clk (sh_clock_reads ?entry)) w ?entry \<le> ?clk (sh_clock_reads ?entry)"
    by (simp add: tx_start_bound_def w(4) tiny_shared_def has_observation_def tx_estimator_new_def)
  have buf: "sh_pair_buffers ?entry ! 0 = eg_pair_buffers e ! 0" by simp
  have fresh: "pb_base_delay_samples (eg_pair_buffers e ! 0) = 0" "pb_write_watermark (eg_pair_buffers e ! 0) = 0"
      "pb_overflow_drops (eg_pair_buffers e ! 0) = 0"
    using pair_base [OF pb] pair_empty [OF pb] pair_buffer_new_facts [OF pb] by simp_all
  have start: "let s0 = ?entry; now = ?clk (sh_clock_reads s0) in tx_start_bound now w s0 \<le> now \<and>
      (\<forall>og \<in> set (sw_outgoing w). let b = sh_pair_buffers s0 ! og_pair_buffer og
        in delay_bounded 500000 (pb_base_delay_samples b) \<and> pb_write_watermark b \<le> pb_read_pos b + pb_base_delay_samples b)"
    using bound fresh by (simp add: Let_def w(2) chan delay_bounded_def del: env_steps_simps) (simp add: delay_bounded_def)
  have "renderer_progress (cn_renderer (og_channel og)) \<le> 5000000" if "og \<in> set (sw_outgoing w')" for og
  proof -
    have "length (sw_outgoing w') = 1" using story w(2) by (simp add: keeping_turns_def)
    with that have og: "og = sw_outgoing w' ! 0" by (auto simp: length_Suc_conv)
    have "lone_message (tx_start_bound (?clk (sh_clock_reads ?entry)) w ?entry) (?clk (sh_clock_reads ?entry)) ?entry (sw_outgoing w ! 0)
        (as_samples w (tx_contents w ?entry)) (own og (sh_pair_buffers s'))"
      using story w(2) none by (simp add: keeping_turns_def og del: env_steps_simps)
    from lone_replay [OF this] r have "renderer_progress (cn_renderer (og_channel og)) = length (tx_contents w ?entry)"
      by (simp add: w(2) chan own_def as_samples_def del: env_steps_simps)
    with len show ?thesis by simp
  qed
  then have prog: "\<forall>og \<in> set (sw_outgoing w'). renderer_progress (cn_renderer (og_channel og)) \<le> 5000000" ..
  have "\<forall>og \<in> set (sw_outgoing w'). pb_overflow_drops (sh_pair_buffers s' ! og_pair_buffer og) =
      pb_overflow_drops (sh_pair_buffers ?s ! og_pair_buffer og)"
    using sized_message_not_dropped [OF l ready(1,3) _ _ _ small ready(2) start prog] by (simp add: keeping_turns_def)
  moreover have "og_pair_buffer og = 0" if "og \<in> set (sw_outgoing w')" for og
  proof -
    have n: "length (sw_outgoing w') = 1" using story w(2) by (simp add: keeping_turns_def)
    with that have "og = sw_outgoing w' ! 0" by (auto simp: length_Suc_conv)
    moreover have "og_wiring (sw_outgoing w' ! 0) = og_wiring (sw_outgoing w ! 0)" using story n w(2) by (simp add: keeping_turns_def)
    ultimately show ?thesis using w(2) chan by (simp add: og_wiring_def)
  qed
  ultimately have "\<forall>og \<in> set (sw_outgoing w'). pb_overflow_drops (sh_pair_buffers s' ! og_pair_buffer og) = 0" using fresh by simp
  with e w(1) l show ?thesis by blast
qed

end
