(* ===== verification/Simulator.thy ===== *)
theory Simulator
  imports Channel_Engine Scenario_Loader Modem_Session Wav_Logging
begin

text \<open>
  The top-level coordinator up to the start of its threads: \<open>simulator/simulator.cpp\<close>. It loads the
  scenario, connects the modems, sizes the noise of every receiver, builds the channel engine and the loggers,
  and on the way out gathers the run summary. What the program takes from outside (the YAML library, the
  links, the file system, the clocks, the random engines) is one record of parameters. Log lines are left out.
\<close>

section \<open>State\<close>

record ('n, 'r, 't, 'g) sim_env =
  se_yaml :: "'n yaml"
  se_normal :: "'r normal_source"
  se_files :: files
  se_load_file :: "string \<Rightarrow> string + 'n"
  se_transport :: "'t transport"
  se_factory :: "string \<Rightarrow> 't"
  se_gauss :: "'g gauss_source"
  se_gauss_init :: 'g
  se_wav_openable :: "string \<Rightarrow> bool"
  se_wav_limit :: nat
  se_writable :: "string \<Rightarrow> bool"
  se_dump :: "json \<Rightarrow> string"
  se_io_clock :: "nat \<Rightarrow> nat \<Rightarrow> host_time"
  se_worker_clock :: "nat \<Rightarrow> host_time"

record modem_buffers =
  mb_tx_ring :: "u16 spsc"
  mb_rx_ring :: "u16 spsc"

definition modem_buffers_new :: modem_buffers where
  "modem_buffers_new = \<lparr>mb_tx_ring = the (spsc_new 0 TX_RING_CAPACITY), mb_rx_ring = the (spsc_new 0 RX_RING_CAPACITY)\<rparr>"

text \<open>What a thread is doing: created, in its loop with the iterations it has made, or at its end.\<close>

datatype thread = Spawned | In_Loop nat | Ended

text \<open>The threads of the modems and of the workers are told apart by what they run. \<open>si_destroyed\<close> holds the
  links of modems whose start-up failed, \<open>si_written\<close> the summary files written, \<open>si_clock_reads\<close> counts
  the readings of the workers' clock.\<close>

record ('t, 'g) simulator =
  si_scenario_path :: string
  si_scenario :: scenario_config
  si_modems :: "'t modem list"
  si_buffers :: "modem_buffers list"
  si_engine :: "'g channel_engine option"
  si_io_workers :: "('t, 'g) modem_io list"
  si_logger :: "stream_logger option"
  si_metrics :: metrics
  si_processing_time_stats :: "time_stats option"
  si_message_event_logs :: "event_log list"
  si_run_started_at :: nat
  si_run_started_steady :: host_time
  si_io_threads :: "thread list"
  si_worker_threads :: "thread list"
  si_running :: bool
  si_destroyed :: "'t list"
  si_written :: "(string \<times> string) list"
  si_clock_reads :: nat

definition simulator_new :: "string \<Rightarrow> ('t, 'g) simulator" where
  "simulator_new scenario_path = \<lparr>si_scenario_path = scenario_path, si_scenario = default_scenario, si_modems = [], si_buffers = [],
     si_engine = None, si_io_workers = [], si_logger = None, si_metrics = metrics_init, si_processing_time_stats = None,
     si_message_event_logs = [], si_run_started_at = 0, si_run_started_steady = 0, si_io_threads = [], si_worker_threads = [],
     si_running = False, si_destroyed = [], si_written = [], si_clock_reads = 0\<rparr>"

section \<open>Initialisation\<close>

text \<open>An exception that nothing catches ends the program; \<open>Thread_Exception\<close> is one that leaves a thread.\<close>

datatype uncaught = Uncaught_Yaml string | Uncaught_Build build_error | Thread_Exception error

definition sim_load_scenario :: "('n, 'r, 't, 'g) sim_env \<Rightarrow> ('t, 'g) simulator \<Rightarrow> ('t, 'g) simulator \<times> (uncaught + bool)" where
  "sim_load_scenario env s =
    (case load_scenario (se_yaml env) (se_normal env) (se_files env) (se_load_file env) (si_scenario_path s) of
       Inr cfg \<Rightarrow> (s\<lparr>si_scenario := cfg\<rparr>, Inr True)
     | Inl (Scenario_Load_Error _ _ _) \<Rightarrow> (s, Inr False)
     | Inl (Yaml_Exception what) \<Rightarrow> (s, Inl (Uncaught_Yaml what)))"

definition ident_of :: "modem_config \<Rightarrow> modem_ident" where
  "ident_of mc = \<lparr>mi_id = mo_id mc, mi_usb_serial = mo_usb_serial mc\<rparr>"

text \<open>Every exception of the start-up is caught here.\<close>

definition discover_modems :: "('n, 'r, 't, 'g) sim_env \<Rightarrow> ('t, 'g) simulator \<Rightarrow> ('t, 'g) simulator \<times> bool" where
  "discover_modems env s =
    (case discover_and_connect (se_transport env) (se_factory env) (map ident_of (sc_modems (si_scenario s))) of
       (ts, Inr modems) \<Rightarrow> (s\<lparr>si_modems := modems\<rparr>, True)
     | (ts, Inl e) \<Rightarrow> (s\<lparr>si_destroyed := si_destroyed s @ ts\<rparr>, False))"

definition calibrate_modems :: "('t, 'g) simulator \<Rightarrow> bool" where
  "calibrate_modems s = True"

definition first_rate :: "'t modem list \<Rightarrow> u32" where
  "first_rate modems = (case modems of [] \<Rightarrow> 500000 | m # _ \<Rightarrow> cal_adc_sampling_rate (md_calibration m))"

definition rx_atten_idx_for_modem :: "channel_config list \<Rightarrow> string \<Rightarrow> nat" where
  "rx_atten_idx_for_modem ccs modem_id =
    (case find (\<lambda>cc. ch_to_modem cc = modem_id) ccs of Some cc \<Rightarrow> ch_rx_atten_idx cc | None \<Rightarrow> 1)"

definition config_of :: "modem_config list \<Rightarrow> 't modem \<Rightarrow> modem_config option" where
  "config_of mcs m = find (\<lambda>mc. mo_usb_serial mc = md_id m) mcs"

definition context_id :: "modem_config list \<Rightarrow> 't modem \<Rightarrow> string" where
  "context_id mcs m = (case config_of mcs m of Some mc \<Rightarrow> mo_id mc | None \<Rightarrow> md_id m)"

definition rx_transducer :: "scenario_config \<Rightarrow> 't modem \<Rightarrow> transducer_spec" where
  "rx_transducer cfg m = (case config_of (sc_modems cfg) m of None \<Rightarrow> \<lparr>tr_tvr_db = 0, tr_rvr_db = 0\<rparr>
     | Some mc \<Rightarrow> (case sc_transducers cfg (mo_transducer_id mc) of Some t \<Rightarrow> t | None \<Rightarrow> \<lparr>tr_tvr_db = 0, tr_rvr_db = 0\<rparr>))"

definition noise_cfg_for :: "noise_settings \<Rightarrow> u32 \<Rightarrow> real list \<Rightarrow> calibration_data \<Rightarrow> receiver_noise_sizing \<Rightarrow> noise_config" where
  "noise_cfg_for ns sample_rate shaping_taps cal sizing =
    \<lparr>nc_wenz_sea_state = ns_wenz_sea_state ns,
     nc_target_level_db_re_fs = (if ns_disable ns then -300
       else case psd_target_to_total_rms_dbfs (rz_target_psd_dbfs_at_dac sizing) shaping_taps (f32_value (cal_center_freq_hz cal))
              (f32 (real (unat sample_rate))) of Level l \<Rightarrow> l | _ \<Rightarrow> -300),
     nc_saltwater = ns_saltwater ns, nc_tonals = ns_tonal_sources ns\<rparr>"

definition sim_context :: "scenario_config \<Rightarrow> u32 \<Rightarrow> real list \<Rightarrow> nat \<Rightarrow> 't modem \<Rightarrow> per_modem_context" where
  "sim_context cfg sample_rate shaping_taps i m =
    (let cal = md_calibration m; modem_id = context_id (sc_modems cfg) m; ns = sc_noise cfg;
         sizing = compute_receiver_noise_sizing cal (rx_transducer cfg m) (ns_wenz_sea_state ns) (ns_saltwater ns)
           (rx_atten_idx_for_modem (sc_channels cfg) modem_id) (ns_min_margin_above_afe_db ns)
     in \<lparr>pc_id = modem_id, pc_calibration = cal, pc_runtime = i, pc_tx_ring = i, pc_rx_ring = i,
         pc_noise_cfg = noise_cfg_for ns sample_rate shaping_taps cal sizing, pc_sample_rate = unat sample_rate,
         pc_receive_boost_db = rz_boost_db sizing\<rparr>)"

definition sim_contexts :: "scenario_config \<Rightarrow> 't modem list \<Rightarrow> per_modem_context list" where
  "sim_contexts cfg modems =
    (let sample_rate = first_rate modems;
         taps = design_shaping_filter (f32 (real (unat sample_rate))) (ns_wenz_sea_state (sc_noise cfg)) (ns_saltwater (sc_noise cfg)) 32
     in map2 (sim_context cfg sample_rate taps) [0..<length modems] modems)"

definition log_info :: "'t modem \<Rightarrow> modem_log_info" where
  "log_info m = \<lparr>ml_id = md_id m, ml_adc_bits = cal_adc_bits (md_calibration m), ml_dac_bits = cal_dac_bits (md_calibration m)\<rparr>"

definition build_channel_engine :: "('n, 'r, 't, 'g) sim_env \<Rightarrow> ('t, 'g) simulator \<Rightarrow> ('t, 'g) simulator \<times> (uncaught + bool)" where
  "build_channel_engine env s =
    (let n = length (si_modems s); cfg = si_scenario s;
         s1 = s\<lparr>si_buffers := take n (si_buffers s) @ replicate (n - length (si_buffers s)) modem_buffers_new\<rparr>
     in case channel_engine_new (se_gauss env) (se_gauss_init env) (se_files env) cfg (sim_contexts cfg (si_modems s)) of
          Inl e \<Rightarrow> (s1, Inl (Uncaught_Build e))
        | Inr engine \<Rightarrow> (s1\<lparr>si_engine := Some (engine_set_metrics True engine),
            si_logger := Some (stream_logger_new (se_wav_openable env) (se_wav_limit env) (sc_logging cfg)
              (map log_info (si_modems s)) (first_rate (si_modems s)))\<rparr>, Inr True))"

definition initialize :: "('n, 'r, 't, 'g) sim_env \<Rightarrow> ('t, 'g) simulator \<Rightarrow> ('t, 'g) simulator \<times> (uncaught + bool)" where
  "initialize env s =
    (case sim_load_scenario env s of
       (s1, Inr True) \<Rightarrow>
         (case discover_modems env s1 of
            (s2, True) \<Rightarrow> if calibrate_modems s2 then build_channel_engine env s2 else (s2, Inr False)
          | (s2, False) \<Rightarrow> (s2, Inr False))
     | r \<Rightarrow> r)"

section \<open>Observability\<close>

definition join_path :: "string \<Rightarrow> string \<Rightarrow> string" where
  "join_path dir name = (if dir = [] then name else if last dir = CHR ''/'' then dir @ name else dir @ ''/'' @ name)"

definition events_path :: "logging_config \<Rightarrow> 't modem \<Rightarrow> string" where
  "events_path cfg m = join_path (lo_output_directory cfg) (md_id m @ ''_events.jsonl'')"

definition deadline_for :: "u32 \<Rightarrow> nat" where
  "deadline_for fs = nat (ctrunc (dmul (ddiv (real PROCESSING_BLOCK_SIZE) (real (unat fs))) 1000000))"

definition install_histogram :: "('t, 'g) simulator \<Rightarrow> ('t, 'g) simulator" where
  "install_histogram s = (if \<not> lo_log_processing_time_histogram (sc_logging (si_scenario s)) then s
     else s\<lparr>si_processing_time_stats := Some time_stats_new,
       si_engine := map_option (engine_set_processing_time_stats True (deadline_for (first_rate (si_modems s)))) (si_engine s)\<rparr>)"

text \<open>A log that cannot be opened is kept but not handed to the workers.\<close>

definition install_event_logs :: "('n, 'r, 't, 'g) sim_env \<Rightarrow> ('t, 'g) simulator \<Rightarrow> ('t, 'g) simulator" where
  "install_event_logs env s =
    (let cfg = sc_logging (si_scenario s)
     in if \<not> lo_log_message_events cfg then s
        else let opened = map (\<lambda>m. el_open_file (se_writable env) (events_path cfg m) event_log_new) (si_modems s);
                 raw_logs = map2 (\<lambda>i (el, ok). if ok then Some i else None) [0..<length opened] opened
             in s\<lparr>si_message_event_logs := map fst opened,
                  si_engine := map_option (engine_set_message_event_logs raw_logs) (si_engine s)\<rparr>)"

definition install_observability :: "('n, 'r, 't, 'g) sim_env \<Rightarrow> ('t, 'g) simulator \<Rightarrow> ('t, 'g) simulator" where
  "install_observability env s = install_event_logs env (install_histogram s)"

definition run_summary_enabled :: "logging_config \<Rightarrow> bool" where
  "run_summary_enabled cfg \<longleftrightarrow> lo_run_summary_path cfg \<noteq> [] \<or> lo_log_processing_time_histogram cfg \<or> lo_log_message_events cfg"

text \<open>The calendar date of \<open>gmtime_r\<close>: whole years are taken off the days since 1970, then whole months.\<close>

definition leap_year :: "nat \<Rightarrow> bool" where
  "leap_year y \<longleftrightarrow> 4 dvd y \<and> (\<not> 100 dvd y \<or> 400 dvd y)"

definition year_days :: "nat \<Rightarrow> nat" where
  "year_days y = (if leap_year y then 366 else 365)"

definition month_days :: "nat \<Rightarrow> nat list" where
  "month_days y = [31, if leap_year y then 29 else 28, 31, 30, 31, 30, 31, 31, 30, 31, 30, 31]"

function split_year :: "nat \<Rightarrow> nat \<Rightarrow> nat \<times> nat" where
  "split_year y d = (if d < year_days y then (y, d) else split_year (y + 1) (d - year_days y))"
  by pat_completeness auto
termination by (relation "measure snd") (auto simp: year_days_def split: if_splits)

declare split_year.simps [simp del]

fun split_month :: "nat \<Rightarrow> nat list \<Rightarrow> nat \<Rightarrow> nat \<times> nat" where
  "split_month m [] d = (m, d)"
| "split_month m (n # ns) d = (if d < n then (m, d) else split_month (m + 1) ns (d - n))"

definition pad2 :: "nat \<Rightarrow> string" where
  "pad2 n = (if n < 10 then CHR ''0'' # decimal n else decimal n)"

text \<open>\<open>t\<close> in nanoseconds since 1970, which no clock of the program precedes.\<close>

definition iso8601_utc :: "nat \<Rightarrow> string" where
  "iso8601_utc t =
    (let secs = t div 10 ^ 9; sod = secs mod 86400;
         (y, yd) = split_year 1970 (secs div 86400);
         (m, d) = split_month 1 (month_days y) yd
     in decimal y @ ''-'' @ pad2 m @ ''-'' @ pad2 (d + 1) @ ''T'' @ pad2 (sod div 3600) @ '':'' @
        pad2 (sod div 60 mod 60) @ '':'' @ pad2 (sod mod 60) @ ''Z'')"

definition run_summary_of :: "nat \<Rightarrow> host_time \<Rightarrow> ('t, 'g) simulator \<Rightarrow> run_summary" where
  "run_summary_of ended_at ended_steady s =
    \<lparr>su_scenario_name = sc_name (si_scenario s), su_scenario_path = si_scenario_path s, su_random_seed = sc_random_seed (si_scenario s),
     su_started_at = iso8601_utc (si_run_started_at s), su_ended_at = iso8601_utc ended_at,
     su_duration_s = seconds_f64 (ended_steady - si_run_started_steady s), su_modems = map md_id (si_modems s),
     su_processing_time = (case si_processing_time_stats s of Some t \<Rightarrow> ts_snapshot t | None \<Rightarrow> empty_snapshot),
     su_channel_engine = snapshot_engine_counters (si_metrics s),
     su_log_events = map el_path (filter el_open (si_message_event_logs s)), su_log_cdc = [], su_log_wav = []\<rparr>"

definition emit_run_summary :: "('n, 'r, 't, 'g) sim_env \<Rightarrow> nat \<Rightarrow> host_time \<Rightarrow> ('t, 'g) simulator \<Rightarrow> ('t, 'g) simulator" where
  "emit_run_summary env ended_at ended_steady s =
    (if \<not> run_summary_enabled (sc_logging (si_scenario s)) then s
     else case write_run_summary_json (se_dump env) (se_writable env) (run_summary_of ended_at ended_steady s)
                 (resolve_run_summary_path (si_scenario s)) of
            None \<Rightarrow> s
          | Some file \<Rightarrow> s\<lparr>si_written := si_written s @ [file]\<rparr>)"

end
