(* ===== verification/Simulator_Run.thy ===== *)
theory Simulator_Run
  imports Simulator Worker_Run
begin

text \<open>
  The running simulator: \<open>run\<close>, \<open>stop\<close> and the threads of \<open>simulator/simulator.cpp\<close>. The objects
  the threads share live in the simulator; a step of a thread sees them, and writes back what it changed. A
  schedule says which thread takes its next turn, where a turn is one iteration of its loop.
\<close>

section \<open>The steps of the threads\<close>

text \<open>The I/O thread's references: the modem, its rings, its mix, the engine's buffers, the logger (the calls
  of this step) and the metrics.\<close>

definition io_view :: "nat \<Rightarrow> ('t, 'g) simulator \<Rightarrow> ('t, 'g) modem_io" where
  "io_view i s = (si_io_workers s ! i)\<lparr>io_modem := si_modems s ! i, io_tx_ring := mb_tx_ring (si_buffers s ! i),
     io_rx_ring := mb_rx_ring (si_buffers s ! i),
     io_receiver_mix := (case si_engine s of None \<Rightarrow> None | Some e \<Rightarrow> engine_receiver_mix i e),
     io_pair_buffers := (case si_engine s of None \<Rightarrow> [] | Some e \<Rightarrow> eg_pair_buffers e),
     io_logger := map_option (\<lambda>_. []) (si_logger s), io_metrics := Some (si_metrics s)\<rparr>"

definition put_mix :: "nat \<Rightarrow> 'g receiver_mix option \<Rightarrow> pair_buffer list \<Rightarrow> 'g channel_engine \<Rightarrow> 'g channel_engine" where
  "put_mix i mix pbs e = e\<lparr>eg_receiver_mixes := (case mix of None \<Rightarrow> eg_receiver_mixes e | Some m \<Rightarrow> (eg_receiver_mixes e)[i := m]),
     eg_pair_buffers := pbs\<rparr>"

definition put_io :: "('n, 'r, 't, 'g) sim_env \<Rightarrow> nat \<Rightarrow> ('t, 'g) modem_io \<Rightarrow> ('t, 'g) simulator \<Rightarrow> ('t, 'g) simulator" where
  "put_io env i io s = s\<lparr>si_io_workers := (si_io_workers s)[i := io], si_modems := (si_modems s)[i := io_modem io],
     si_buffers := (si_buffers s)[i := \<lparr>mb_tx_ring = io_tx_ring io, mb_rx_ring = io_rx_ring io\<rparr>],
     si_engine := map_option (put_mix i (io_receiver_mix io) (io_pair_buffers io)) (si_engine s),
     si_logger := map_option (\<lambda>l. foldl (logger_call (se_wav_openable env) (se_wav_limit env)) l
       (case io_logger io of None \<Rightarrow> [] | Some cs \<Rightarrow> cs)) (si_logger s),
     si_metrics := (case io_metrics io of None \<Rightarrow> si_metrics s | Some m \<Rightarrow> m)\<rparr>"

definition io_env_of :: "('n, 'r, 't, 'g) sim_env \<Rightarrow> nat \<Rightarrow> ('t, 'g) io_env" where
  "io_env_of env i = \<lparr>en_transport = se_transport env, en_gauss = se_gauss env, en_clock = se_io_clock env i\<rparr>"

definition io_begin :: "nat \<Rightarrow> ('t, 'g) simulator \<Rightarrow> ('t, 'g) simulator" where
  "io_begin i s = s\<lparr>si_io_workers := (si_io_workers s)[i := (si_io_workers s ! i)\<lparr>io_running := True\<rparr>],
     si_io_threads := (si_io_threads s)[i := In_Loop 0]\<rparr>"

definition io_turn :: "('n, 'r, 't, 'g) sim_env \<Rightarrow> nat \<Rightarrow> nat \<Rightarrow> ('t, 'g) simulator \<Rightarrow> ('t, 'g) simulator" where
  "io_turn env i n s =
    (if io_running (si_io_workers s ! i)
     then (put_io env i (io_iteration (io_env_of env i) n (io_view i s)) s)\<lparr>si_io_threads := (si_io_threads s)[i := In_Loop (n + 1)]\<rparr>
     else s\<lparr>si_io_threads := (si_io_threads s)[i := Ended]\<rparr>)"

text \<open>The store a worker's references lead to, and what it leaves there.\<close>

definition sim_store :: "('t, 'g) simulator \<Rightarrow> shared" where
  "sim_store s = \<lparr>sh_runtime = (\<lambda>i. md_runtime_state (si_modems s ! i)), sh_tx_ring = (\<lambda>i. mb_tx_ring (si_buffers s ! i)),
     sh_rx_ring = (\<lambda>i. mb_rx_ring (si_buffers s ! i)), sh_tracker = (\<lambda>i. io_tracker (si_io_workers s ! i)),
     sh_estimator = (\<lambda>i. io_tx_start (si_io_workers s ! i)),
     sh_pair_buffers = (case si_engine s of None \<Rightarrow> [] | Some e \<Rightarrow> eg_pair_buffers e), sh_metrics = si_metrics s,
     sh_stats = (case si_processing_time_stats s of None \<Rightarrow> time_stats_new | Some t \<Rightarrow> t),
     sh_event_log = (\<lambda>i. si_message_event_logs s ! i), sh_clock_reads = si_clock_reads s\<rparr>"

definition put_worker :: "nat \<Rightarrow> source_worker \<Rightarrow> shared \<Rightarrow> ('t, 'g) simulator \<Rightarrow> ('t, 'g) simulator" where
  "put_worker i w sh s = s\<lparr>
     si_engine := map_option (\<lambda>e. e\<lparr>eg_source_workers := (eg_source_workers e)[i := Some w], eg_pair_buffers := sh_pair_buffers sh\<rparr>) (si_engine s),
     si_buffers := map2 (\<lambda>j b. b\<lparr>mb_tx_ring := sh_tx_ring sh j\<rparr>) [0..<length (si_buffers s)] (si_buffers s),
     si_metrics := sh_metrics sh, si_processing_time_stats := map_option (\<lambda>_. sh_stats sh) (si_processing_time_stats s),
     si_message_event_logs := map (sh_event_log sh) [0..<length (si_message_event_logs s)], si_clock_reads := sh_clock_reads sh\<rparr>"

definition sim_worker :: "nat \<Rightarrow> ('t, 'g) simulator \<Rightarrow> source_worker option" where
  "sim_worker i s = (case si_engine s of None \<Rightarrow> None | Some e \<Rightarrow> engine_source_worker i e)"

definition worker_begin :: "nat \<Rightarrow> source_worker \<Rightarrow> ('t, 'g) simulator \<Rightarrow> ('t, 'g) simulator" where
  "worker_begin i w s = (put_worker i (w\<lparr>sw_running := True, sw_last_state := ST_IDLE\<rparr>) (sim_store s) s)
     \<lparr>si_worker_threads := (si_worker_threads s)[i := In_Loop 0]\<rparr>"

definition worker_turn :: "('n, 'r, 't, 'g) sim_env \<Rightarrow> nat \<Rightarrow> nat \<Rightarrow> source_worker \<Rightarrow> ('t, 'g) simulator \<Rightarrow> ('t, 'g) simulator res" where
  "worker_turn env i n w s =
    (if sw_running w
     then and_then (sw_iteration (se_worker_clock env) [] [] w (sim_store s)) (\<lambda>(w', sh, slept).
       ret ((put_worker i w' sh s)\<lparr>si_worker_threads := (si_worker_threads s)[i := In_Loop (n + 1)]\<rparr>))
     else and_then (sw_finish (se_worker_clock env) w (sim_store s)) (\<lambda>(w', sh).
       ret ((put_worker i w' sh s)\<lparr>si_worker_threads := (si_worker_threads s)[i := Ended]\<rparr>)))"

text \<open>\<open>stop\<close>, from any thread: the flags, and then the join, which returns once the workers have ended.\<close>

definition sim_stop :: "('t, 'g) simulator \<Rightarrow> ('t, 'g) simulator" where
  "sim_stop s = s\<lparr>si_running := False, si_io_workers := map io_stop (si_io_workers s),
     si_engine := map_option (\<lambda>e. if eg_started e then engine_request_stop e else e) (si_engine s)\<rparr>"

definition sim_stop_join :: "('t, 'g) simulator \<Rightarrow> ('t, 'g) simulator" where
  "sim_stop_join s = s\<lparr>si_engine := map_option engine_join (si_engine s)\<rparr>"

definition engine_running :: "('t, 'g) simulator \<Rightarrow> bool" where
  "engine_running s = (case si_engine s of None \<Rightarrow> False | Some e \<Rightarrow> eg_started e)"

definition all_ended :: "thread list \<Rightarrow> bool" where
  "all_ended ts = list_all (\<lambda>t. t = Ended) ts"

text \<open>One step of the schedule. A thread that is not there, or not in that phase, does nothing.\<close>

datatype sim_act = Io_Begin nat | Io_Turn nat | Worker_Begin nat | Worker_Turn nat | Stop_Request | Stop_Join

definition sim_act :: "('n, 'r, 't, 'g) sim_env \<Rightarrow> sim_act \<Rightarrow> ('t, 'g) simulator \<Rightarrow> ('t, 'g) simulator res" where
  "sim_act env a s = (case a of
     Io_Begin i \<Rightarrow> ret (if i < length (si_io_threads s) \<and> si_io_threads s ! i = Spawned then io_begin i s else s)
   | Io_Turn i \<Rightarrow> ret (if i < length (si_io_threads s)
       then (case si_io_threads s ! i of In_Loop n \<Rightarrow> io_turn env i n s | _ \<Rightarrow> s) else s)
   | Worker_Begin i \<Rightarrow> ret (if i < length (si_worker_threads s) \<and> si_worker_threads s ! i = Spawned
       then (case sim_worker i s of Some w \<Rightarrow> worker_begin i w s | None \<Rightarrow> s) else s)
   | Worker_Turn i \<Rightarrow> if i < length (si_worker_threads s)
       then (case (si_worker_threads s ! i, sim_worker i s) of (In_Loop n, Some w) \<Rightarrow> worker_turn env i n w s | _ \<Rightarrow> ret s) else ret s
   | Stop_Request \<Rightarrow> ret (sim_stop s)
   | Stop_Join \<Rightarrow> ret (if \<not> engine_running s \<and> all_ended (si_worker_threads s) then sim_stop_join s else s))"

fun sim_acts :: "('n, 'r, 't, 'g) sim_env \<Rightarrow> sim_act list \<Rightarrow> ('t, 'g) simulator \<Rightarrow> ('t, 'g) simulator res" where
  "sim_acts env [] s = ret s"
| "sim_acts env (a # as) s = and_then (sim_act env a s) (sim_acts env as)"

section \<open>run\<close>

text \<open>The modems enter HIL mode in turn; each one that does is taken to be in RX.\<close>

fun enter_all :: "'t transport \<Rightarrow> 't modem list \<Rightarrow> 't modem list \<times> bool" where
  "enter_all tp [] = ([], True)"
| "enter_all tp (m # ms) = (case modem_enter_hil_mode tp m of
     (m', Inl e) \<Rightarrow> (m' # ms, False)
   | (m', Inr _) \<Rightarrow>
       let (ms', ok) = enter_all tp ms
       in (m'\<lparr>md_runtime_state := (md_runtime_state m')\<lparr>rt_state := ST_RX\<rparr>\<rparr> # ms', ok))"

text \<open>The start of \<open>run\<close>; when a modem refuses, \<open>run\<close> ends there.\<close>

definition run_begin :: "('n, 'r, 't, 'g) sim_env \<Rightarrow> nat \<Rightarrow> host_time \<Rightarrow> ('t, 'g) simulator \<Rightarrow> ('t, 'g) simulator \<times> bool" where
  "run_begin env started_at started_steady s =
    (let s1 = install_observability env (s\<lparr>si_running := True, si_run_started_at := started_at, si_run_started_steady := started_steady\<rparr>);
         (ms, ok) = enter_all (se_transport env) (si_modems s1);
         s2 = s1\<lparr>si_modems := ms\<rparr>
     in if ok then (s2, True) else (sim_stop_join (sim_stop s2), False))"

definition sim_engine_start :: "('t, 'g) simulator \<Rightarrow> ('t, 'g) simulator" where
  "sim_engine_start s = (case si_engine s of None \<Rightarrow> s
     | Some e \<Rightarrow> if eg_started e then s
         else s\<lparr>si_engine := Some (engine_start e),
                si_worker_threads := map (\<lambda>sw. case sw of None \<Rightarrow> Ended | Some _ \<Rightarrow> Spawned) (eg_source_workers e)\<rparr>)"

definition start_io_thread :: "nat \<Rightarrow> ('t, 'g) simulator \<Rightarrow> ('t, 'g) simulator" where
  "start_io_thread i s =
    (let rx_mix = (case si_engine s of None \<Rightarrow> None | Some e \<Rightarrow> engine_receiver_mix i e);
         worker = modem_io_new (si_modems s ! i) (mb_tx_ring (si_buffers s ! i)) (mb_rx_ring (si_buffers s ! i)) rx_mix
           (case si_engine s of None \<Rightarrow> [] | Some e \<Rightarrow> eg_pair_buffers e) (map_option (\<lambda>_. []) (si_logger s)) (Some (si_metrics s))
     in s\<lparr>si_io_workers := si_io_workers s @ [worker],
          si_engine := map_option (wire_modem_trackers i (Some i) (Some i) (Some i)) (si_engine s),
          si_io_threads := si_io_threads s @ [Spawned]\<rparr>)"

text \<open>The threads already created go on while the next is made ready: \<open>spawn i\<close> is what they do.\<close>

fun start_io_threads :: "('n, 'r, 't, 'g) sim_env \<Rightarrow> (nat \<Rightarrow> sim_act list) \<Rightarrow> nat list \<Rightarrow> ('t, 'g) simulator \<Rightarrow> ('t, 'g) simulator res" where
  "start_io_threads env spawn [] s = ret s"
| "start_io_threads env spawn (i # is) s =
    and_then (sim_acts env (spawn i) (start_io_thread i s)) (start_io_threads env spawn is)"

text \<open>The main thread looks at \<open>running_\<close> once a second and starts new metrics; \<open>seconds\<close> is what the other
  threads do in each. While nobody stops it the loop goes on, and \<open>run\<close> does not return.\<close>

fun metrics_loop :: "('n, 'r, 't, 'g) sim_env \<Rightarrow> sim_act list list \<Rightarrow> ('t, 'g) simulator \<Rightarrow> ('t, 'g) simulator res" where
  "metrics_loop env [] s = (if si_running s then Inr None else ret s)"
| "metrics_loop env (acts # seconds) s = (if \<not> si_running s then ret s
     else and_then (sim_acts env acts s) (\<lambda>s1. if \<not> si_running s1 then ret s1
       else metrics_loop env seconds (s1\<lparr>si_metrics := metrics_reset (si_metrics s1)\<rparr>)))"

text \<open>A join returns only when the threads have ended.\<close>

definition join_all_threads :: "('n, 'r, 't, 'g) sim_env \<Rightarrow> sim_act list \<Rightarrow> ('t, 'g) simulator \<Rightarrow> ('t, 'g) simulator res" where
  "join_all_threads env acts s = and_then (sim_acts env acts s) (\<lambda>s1.
     if all_ended (si_io_threads s1) then ret (s1\<lparr>si_io_threads := []\<rparr>) else Inr None)"

definition sim_engine_stop :: "('n, 'r, 't, 'g) sim_env \<Rightarrow> sim_act list \<Rightarrow> ('t, 'g) simulator \<Rightarrow> ('t, 'g) simulator res" where
  "sim_engine_stop env acts s =
    (if engine_running s
     then and_then (sim_acts env acts (s\<lparr>si_engine := map_option engine_request_stop (si_engine s)\<rparr>)) (\<lambda>s1.
       if all_ended (si_worker_threads s1) then ret (sim_stop_join s1) else Inr None)
     else sim_acts env acts s)"

definition run_end :: "('n, 'r, 't, 'g) sim_env \<Rightarrow> nat \<Rightarrow> host_time \<Rightarrow> ('t, 'g) simulator \<Rightarrow> ('t, 'g) simulator" where
  "run_end env ended_at ended_steady s =
    (let s1 = s\<lparr>si_modems := map (modem_exit_hil_mode (se_transport env)) (si_modems s)\<rparr>;
         s2 = s1\<lparr>si_logger := map_option logger_finalize (si_logger s1)\<rparr>;
         s3 = s2\<lparr>si_message_event_logs := map el_close (si_message_event_logs s2)\<rparr>
     in emit_run_summary env ended_at ended_steady s3)"

record sim_sched =
  ss_started_at :: nat
  ss_started_steady :: host_time
  ss_spawn :: "nat \<Rightarrow> sim_act list"
  ss_seconds :: "sim_act list list"
  ss_join :: "sim_act list"
  ss_drain :: "sim_act list"
  ss_ended_at :: nat
  ss_ended_steady :: host_time

definition run_threads :: "('n, 'r, 't, 'g) sim_env \<Rightarrow> sim_sched \<Rightarrow> ('t, 'g) simulator \<Rightarrow> ('t, 'g) simulator res" where
  "run_threads env sched s =
    and_then (metrics_loop env (ss_seconds sched) s) (\<lambda>s1.
      and_then (join_all_threads env (ss_join sched) s1) (sim_engine_stop env (ss_drain sched)))"

definition sim_run :: "('n, 'r, 't, 'g) sim_env \<Rightarrow> sim_sched \<Rightarrow> ('t, 'g) simulator \<Rightarrow> ('t, 'g) simulator res" where
  "sim_run env sched s =
    (case run_begin env (ss_started_at sched) (ss_started_steady sched) s of
       (s1, False) \<Rightarrow> ret s1
     | (s1, True) \<Rightarrow>
         and_then (start_io_threads env (ss_spawn sched) [0..<length (si_modems s1)] (sim_engine_start s1)) (\<lambda>s2.
           and_then (run_threads env sched s2) (\<lambda>s3. ret (run_end env (ss_ended_at sched) (ss_ended_steady sched) s3))))"

text \<open>The destructor: the member objects go after its body, the modems by leaving HIL mode and closing.\<close>

definition sim_destroy :: "('n, 'r, 't, 'g) sim_env \<Rightarrow> ('t, 'g) simulator \<Rightarrow> ('t, 'g) simulator" where
  "sim_destroy env s =
    (let s1 = sim_stop_join (sim_stop s);
         s2 = s1\<lparr>si_io_threads := [], si_logger := map_option logger_finalize (si_logger s1)\<rparr>
     in s2\<lparr>si_destroyed := si_destroyed s2 @ map (modem_destroy (se_transport env)) (si_modems s2), si_modems := []\<rparr>)"

text \<open>\<open>main\<close>: its exit code (zero is success). Without an argument it prints the usage line.\<close>

definition sim_main :: "('n, 'r, 't, 'g) sim_env \<Rightarrow> sim_sched \<Rightarrow> string list \<Rightarrow> (uncaught + nat \<times> ('t, 'g) simulator option) option" where
  "sim_main env sched argv =
    (if length argv < 2 then Some (Inr (1, None))
     else case initialize env (simulator_new (argv ! 1)) of
       (s, Inl e) \<Rightarrow> Some (Inl e)
     | (s, Inr False) \<Rightarrow> Some (Inr (1, Some (sim_destroy env s)))
     | (s, Inr True) \<Rightarrow> (case sim_run env sched s of
          Inr (Some s1) \<Rightarrow> Some (Inr (0, Some (sim_destroy env s1)))
        | Inr None \<Rightarrow> None
        | Inl e \<Rightarrow> Some (Inl (Thread_Exception e))))"

end
