(* ===== verification/Simulator_Invariant.thy ===== *)
theory Simulator_Invariant
  imports Simulator_Run Engine_Sizing
begin

text \<open>
  What holds at every point of a run: the objects the threads share stay well formed and stay wired as the
  engine wired them, so that the assumptions of the theorems on pulls, messages and rings hold in every
  state the program reaches.
\<close>

section \<open>An iteration of an I/O thread\<close>

definition mix_fits :: "'g receiver_mix \<Rightarrow> pair_buffer list \<Rightarrow> bool" where
  "mix_fits rm pbs \<longleftrightarrow> distinct (rm_incoming rm) \<and> (\<forall>k \<in> set (rm_incoming rm). k < length pbs)"

definition io_sound :: "('t, 'g) modem_io \<Rightarrow> bool" where
  "io_sound io \<longleftrightarrow> spsc_inv (io_tx_ring io) \<and> spsc_inv (io_rx_ring io) \<and> io_samples_per_pkt io < 2 ^ 64 \<and>
     (\<forall>rm. io_receiver_mix io = Some rm \<longrightarrow> mix_fits rm (io_pair_buffers io)) \<and> list_all pb_ok (io_pair_buffers io)"

text \<open>What no handler changes, and what every handler keeps.\<close>

definition io_fixed :: "('t, 'g) modem_io \<Rightarrow> string \<times> nat \<times> nat list option \<times> nat \<times> bool \<times> bool" where
  "io_fixed io = (md_id (io_modem io), io_samples_per_pkt io, map_option rm_incoming (io_receiver_mix io),
     length (io_pair_buffers io), io_metrics io = None, io_logger io = None)"

definition io_kept :: "('t, 'g) modem_io \<Rightarrow> ('t, 'g) modem_io \<Rightarrow> bool" where
  "io_kept io io' \<longleftrightarrow> io_fixed io' = io_fixed io \<and> (io_sound io \<longrightarrow> io_sound io')"

lemma io_kept_refl: "io_kept io io"
  by (simp add: io_kept_def)

lemma io_kept_trans: "io_kept a b \<Longrightarrow> io_kept b c \<Longrightarrow> io_kept a c"
  by (simp add: io_kept_def)

text \<open>A handler that leaves the audio path alone.\<close>

definition io_shape :: "('t, 'g) modem_io \<Rightarrow> (string \<times> nat \<times> bool \<times> bool) \<times> u16 spsc \<times> u16 spsc \<times> 'g receiver_mix option \<times> pair_buffer list" where
  "io_shape io = ((md_id (io_modem io), io_samples_per_pkt io, io_metrics io = None, io_logger io = None), io_tx_ring io, io_rx_ring io,
     io_receiver_mix io, io_pair_buffers io)"

lemma io_kept_shape: "io_shape io' = io_shape io \<Longrightarrow> io_kept io io'"
  by (simp add: io_kept_def io_fixed_def io_shape_def io_sound_def)

lemma io_shape_upd [simp]:
  "io_shape (io\<lparr>io_running := b\<rparr>) = io_shape io" "io_shape (io\<lparr>io_tracker := c\<rparr>) = io_shape io"
  "io_shape (upd_metrics f io) = io_shape io" "io_shape (log_to call io) = io_shape io" "io_shape (upd_runtime g io) = io_shape io"
  "io_shape (fst (read_clock env io)) = io_shape io" "io_shape (set_transport t io) = io_shape io"
  "io_shape (io\<lparr>io_codec := cd\<rparr>) = io_shape io" "io_shape (io\<lparr>io_tx_start := e\<rparr>) = io_shape io"
  "io_shape (io\<lparr>io_data_buf := d\<rparr>) = io_shape io" "io_shape (io\<lparr>io_ctrl_buf := d\<rparr>) = io_shape io"
  "io_shape (io\<lparr>io_sleeps := l\<rparr>) = io_shape io" "io_shape (io\<lparr>io_rx_send_skipped := n\<rparr>) = io_shape io"
  "io_shape (io\<lparr>io_tx_pkt_id := i\<rparr>) = io_shape io" "io_shape (io\<lparr>io_rx_packets_sent := n\<rparr>) = io_shape io"
  "io_shape (io\<lparr>io_log_first_rx_send := b\<rparr>) = io_shape io" "io_shape (io\<lparr>io_skip_next_drift_check := b\<rparr>) = io_shape io"
  "io_shape (io\<lparr>io_last_fill_est := j\<rparr>) = io_shape io" "io_shape (io\<lparr>io_last_modem_rate := v\<rparr>) = io_shape io"
  "io_shape (io\<lparr>io_last_tracker_fallbacks := n\<rparr>) = io_shape io" "io_shape (io\<lparr>io_last_fallback_count := n\<rparr>) = io_shape io"
  "io_shape (io\<lparr>io_last_fill_fw := u\<rparr>) = io_shape io" "io_shape (io\<lparr>io_last_error_flags := v\<rparr>) = io_shape io"
  by (simp_all add: io_shape_def io_steps)

lemma shape_recv [simp]: "io_shape (fst (io_recv_data env ms io)) = io_shape io" "io_shape (fst (io_recv_control env ms io)) = io_shape io"
  by (simp_all add: io_recv_data_def io_recv_control_def case_prod_beta)

lemma shape_track [simp]: "io_shape (track_status env status old new io) = io_shape io"
  by (simp add: track_status_def Let_def case_prod_beta split: option.splits)

lemma shape_record [simp]: "io_shape (record_fill status io) = io_shape io" "io_shape (record_errors status io) = io_shape io"
  "io_shape (record_drift status new io) = io_shape io"
  by (simp_all add: record_fill_def record_errors_def record_drift_def Let_def)

lemma kept_write:
  assumes "length xs < 2 ^ 64"
  shows "io_kept io (io\<lparr>io_tx_ring := fst (spsc_write (io_tx_ring io) xs)\<rparr>)"
  using spsc_write_facts [OF _ assms, of "io_tx_ring io"] by (auto simp: io_kept_def io_fixed_def io_sound_def)

lemma io_kept_same: "io_kept a b \<Longrightarrow> io_shape a = io_shape a' \<Longrightarrow> io_shape b = io_shape b' \<Longrightarrow> io_kept a' b'"
  by (simp add: io_kept_def io_fixed_def io_sound_def io_shape_def)

lemma shape_process: "io_shape (process_tx_packet env n io) = io_shape io \<or>
    (\<exists>xs. length xs < 2 ^ 64 \<and> io_shape (process_tx_packet env n io) = io_shape (io\<lparr>io_tx_ring := fst (spsc_write (io_tx_ring io) xs)\<rparr>))"
proof (cases "n = int DATA_PACKET_SIZE")
  case True
  let ?d = "decode_data_packet (io_data_buf io) DATA_SAMPLES_PER_PKT"
  have "length (snd ?d) < 2 ^ 64" by (simp add: decode_data_packet_def Let_def)
  moreover have "io_shape (process_tx_packet env n io) =
      io_shape (io\<lparr>io_tx_ring := fst (spsc_write (io_tx_ring io) (snd ?d))\<rparr>)"
    using True by (simp add: process_tx_packet_def Let_def case_prod_beta) (simp add: io_shape_def io_steps)
  ultimately show ?thesis by blast
qed (simp add: process_tx_packet_def)

lemma kept_process_tx: "io_kept io (process_tx_packet env n io)"
  using shape_process [of env n io]
proof (elim disjE exE conjE)
  fix xs assume "length xs < 2 ^ 64"
    and "io_shape (process_tx_packet env n io) = io_shape (io\<lparr>io_tx_ring := fst (spsc_write (io_tx_ring io) xs)\<rparr>)"
  then show ?thesis using io_kept_same [OF kept_write refl] by metis
qed (rule io_kept_shape)

lemma kept_receive_tx: "io_kept io (receive_tx_data env io)"
  using io_kept_trans [OF io_kept_shape kept_process_tx, of "fst (io_recv_data env DATA_TIMEOUT_MS io)" io]
  by (simp add: receive_tx_data_def case_prod_beta Let_def io_kept_shape)

lemma kept_drain_tx: "io_kept io (tx_drain_loop env n io)"
proof (induction n arbitrary: io)
  case (Suc n)
  let ?r = "fst (io_recv_data env TX_DRAIN_TIMEOUT_MS io)"
  have "io_kept io ?r" by (simp add: io_kept_shape)
  then have "io_kept io (tx_drain_loop env n (process_tx_packet env b ?r))" for b
    using io_kept_trans [OF io_kept_trans [OF _ kept_process_tx] Suc.IH] by blast
  then show ?case by (simp add: case_prod_beta Let_def io_kept_shape)
qed (simp add: io_kept_refl)

lemma kept_handle_status: "io_kept io (handle_status env status io)"
proof -
  have "io_kept io (state_change env old new io)" for old new
  proof -
    let ?d = "if old = ST_TX then drain_tx_pipeline env io else io"
    have "io_kept io ?d" by (simp add: drain_tx_pipeline_def kept_drain_tx io_kept_refl)
    moreover have "io_shape (state_change env old new io) \<in> {io_shape ?d, io_shape io}"
      by (simp add: state_change_def Let_def io_shape_def)
    ultimately show ?thesis using io_kept_trans [OF _ io_kept_shape] io_kept_shape by blast
  qed
  from io_kept_trans [OF this io_kept_shape] show ?thesis by (simp add: handle_status_def Let_def)
qed

lemma kept_poll_control: "io_kept io (poll_control env io)"
  using io_kept_trans [OF io_kept_shape kept_handle_status, of "fst (io_recv_control env IO_CTRL_TIMEOUT_MS io)" io]
  by (simp add: poll_control_def case_prod_beta Let_def io_kept_shape split: option.splits)

lemma sum_incoming_length: "length (fst (sum_incoming n ks pbs)) = length pbs"
proof (induction ks rule: rev_induct)
  case (snoc k ks)
  then show ?case by (simp add: sum_incoming_def case_prod_unfold Let_def)
qed (simp add: sum_incoming_def)

lemma pull_loop_fixed:
  "pull_loop gs n0 tot rm pbs ring = (rm', pbs', ring', acc) \<Longrightarrow> rm_incoming rm' = rm_incoming rm \<and> length pbs' = length pbs"
proof (induction gs n0 tot rm pbs ring rule: pull_loop.induct)
  case (1 gs n0 tot rm pbs ring)
  show ?case
  proof (cases "n0 = 0")
    case True
    with "1.prems" show ?thesis by (simp add: pull_loop.simps [of _ 0])
  next
    case False
    define n where "n = cmin n0 PROCESSING_BLOCK_SIZE"
    obtain rm1 pbs1 ring1 a where c: "pull_chunk gs n rm pbs ring = (rm1, pbs1, ring1, a)" by (metis prod_cases4)
    then have c': "(rm1, pbs1, ring1, a) = pull_chunk gs (cmin n0 PROCESSING_BLOCK_SIZE) rm pbs ring" by (simp add: n_def)
    have rest: "pull_loop gs (n0 - n) (tot + a) rm1 pbs1 ring1 = (rm', pbs', ring', acc)"
      using "1.prems"(1) False c by (subst (asm) pull_loop.simps) (simp add: Let_def flip: n_def cmin_min)
    have "rm_incoming rm1 = rm_incoming rm \<and> length pbs1 = length pbs"
      using c sum_incoming_length [of n "rm_incoming rm" pbs] by (auto simp: pull_chunk_def Let_def case_prod_unfold)
    moreover have "rm_incoming rm' = rm_incoming rm1 \<and> length pbs' = length pbs1"
      by (rule "1.IH" [OF _ refl c' refl refl refl, folded n_def, OF _ rest]) (use False in simp)
    ultimately show ?thesis by simp
  qed
qed

lemma mix_fits_wf: "mix_fits rm pbs \<Longrightarrow> list_all pb_ok pbs \<Longrightarrow> mix_wf rm pbs"
  by (simp add: mix_fits_def mix_wf_def list_all_length)

lemma kept_top_up: "io_kept io (top_up env io)"
proof (cases "io_receiver_mix io")
  case (Some rm)
  let ?n = "io_samples_per_pkt io"
  obtain rm' pbs ring acc where p: "pull (en_gauss env) ?n rm (io_pair_buffers io) (io_rx_ring io) = (rm', pbs, ring, acc)"
    by (metis prod_cases4)
  show ?thesis
  proof (cases "io_sound io")
    case True
    then have wf: "mix_wf rm (io_pair_buffers io)" "spsc_inv (io_rx_ring io)" "?n < 2 ^ 64" "list_all pb_ok (io_pair_buffers io)"
      "mix_fits rm (io_pair_buffers io)"
      using Some mix_fits_wf by (auto simp: io_sound_def)
    have "rm_incoming rm' = rm_incoming rm \<and> spsc_inv ring \<and> pbs_kept (io_pair_buffers io) pbs"
      using p pull_loop_keeps [OF _ wf(1-3)] wf(2) by (simp add: pull_def split: if_splits)
    with True Some p wf show ?thesis
      by (auto simp: top_up_def io_kept_def io_fixed_def io_sound_def pbs_kept_def mix_fits_def list_all_length)
  next
    case False
    have "rm_incoming rm' = rm_incoming rm \<and> length pbs = length (io_pair_buffers io)" 
      using p pull_loop_fixed by (simp add: pull_def split: if_splits)
    with False Some p show ?thesis by (auto simp: top_up_def io_kept_def io_fixed_def)
  qed
qed (simp add: top_up_def io_kept_refl)

lemma kept_send_packet_io: "io_kept io (send_packet env io)"
proof -
  let ?q = "fst (spsc_read (io_rx_ring io) (of_nat (io_samples_per_pkt io)))"
  have "io_kept io (io\<lparr>io_rx_ring := ?q\<rparr>)"
    using spsc_read_facts [of "io_rx_ring io"] by (auto simp: io_kept_def io_fixed_def io_sound_def)
  moreover have "io_shape (send_packet env io) = io_shape (io\<lparr>io_rx_ring := ?q\<rparr>)"
    by (simp add: send_packet_def Let_def case_prod_beta io_shape_def io_steps)
  ultimately show ?thesis using io_kept_trans [OF _ io_kept_shape] by blast
qed

lemma kept_send_rx: "io_kept io (send_rx_data env io)"
proof -
  let ?t = "top_up env io"
  have "io_kept ?t (send_rx_data env io)"
  proof (cases "unat (spsc_available_read (io_rx_ring ?t)) < io_samples_per_pkt ?t")
    case True
    then show ?thesis by (simp add: send_rx_data_def Let_def io_kept_shape)
  next
    case False
    let ?r = "read_clock env ?t"
    let ?c = "cft_should_send (snd ?r) (io_tracker (fst ?r))"
    let ?io2 = "(fst ?r)\<lparr>io_tracker := fst ?c\<rparr>"
    have "io_kept ?t ?io2" by (simp add: io_kept_shape)
    with io_kept_trans [OF this kept_send_packet_io] False show ?thesis
      by (auto simp: send_rx_data_def Let_def case_prod_beta intro!: io_kept_shape)
  qed
  then show ?thesis using io_kept_trans [OF kept_top_up] by blast
qed

lemma kept_io_iteration: "io_kept io (io_iteration env i io)"
proof -
  let ?p = "if i mod CONTROL_POLL_INTERVAL = 0 then poll_control env io else io"
  have p: "io_kept io ?p" using kept_poll_control [of io env] by (simp add: io_kept_refl)
  show ?thesis
    unfolding io_iteration_def Let_def
    using p io_kept_trans [OF p kept_receive_tx] io_kept_trans [OF p kept_send_rx]
    by (cases "io_state ?p") simp_all
qed

section \<open>A turn of a worker\<close>

text \<open>A worker keeps its own invariant, writes no buffer but those of its channels and no ring but its own,
  and leaves its wiring as it is.\<close>

definition turn_kept :: "source_worker \<Rightarrow> shared \<Rightarrow> source_worker \<Rightarrow> shared \<Rightarrow> bool" where
  "turn_kept w s w' s' \<longleftrightarrow> worker_ok w' s' \<and> worker_const w' = worker_const w \<and>
     map og_wiring (sw_outgoing w') = map og_wiring (sw_outgoing w) \<and> pbs_kept (sh_pair_buffers s) (sh_pair_buffers s') \<and>
     (\<forall>k. k \<notin> og_pair_buffer ` set (sw_outgoing w) \<longrightarrow> sh_pair_buffers s' ! k = sh_pair_buffers s ! k) \<and>
     (\<forall>r. r \<noteq> sw_tx_ring w \<longrightarrow> sh_tx_ring s' r = sh_tx_ring s r)"

lemma same_wiring_slots: "map og_wiring ogs' = map og_wiring ogs \<Longrightarrow> map og_pair_buffer ogs' = map og_pair_buffer ogs"
  by (drule arg_cong [where f = "map fst"]) (simp add: og_wiring_def comp_def)

lemma turn_kept_refl: "worker_ok w s \<Longrightarrow> turn_kept w s w s"
  by (simp add: turn_kept_def)

lemma turn_kept_trans:
  assumes "turn_kept w s w1 s1" and "turn_kept w1 s1 w2 s2"
  shows "turn_kept w s w2 s2"
proof -
  have "og_pair_buffer ` set (sw_outgoing w1) = og_pair_buffer ` set (sw_outgoing w)"
    using assms(1) same_wiring_slots [of "sw_outgoing w1" "sw_outgoing w"] by (metis turn_kept_def list.set_map)
  moreover have "sw_tx_ring w1 = sw_tx_ring w" using assms(1) by (simp add: turn_kept_def worker_const_def)
  ultimately show ?thesis using assms pbs_kept_trans by (auto simp: turn_kept_def)
qed

lemma apply_calls_ok: "pb_ok b \<Longrightarrow> pb_ok (apply_calls cs b)"
  by (induction cs arbitrary: b) (simp_all add: apply_calls_def apply_call_def pb_ok_step)

lemma channel_run_ok: "channel_run evs c b = ret (c', b', out) \<Longrightarrow> pb_ok b \<Longrightarrow> pb_ok b'"
proof (induction evs arbitrary: c b out)
  case (Cons ev evs)
  show ?case
  proof (cases ev)
    case (Feed xs)
    with Cons show ?thesis
      by (auto simp: channel_process_def apply_calls_ok split: sum.splits option.splits prod.splits)
  next
    case (Receive n)
    with Cons show ?thesis
      using read_advance_next(1) by (auto simp: Let_def case_prod_unfold split: sum.splits option.splits)
  qed
qed simp

text \<open>The loops over the channels, with a body that keeps a buffer well formed.\<close>

definition keeps_buffer :: "(outgoing \<Rightarrow> real list \<Rightarrow> pair_buffer \<Rightarrow> (channel \<times> real list \<times> pair_buffer) res) \<Rightarrow> bool" where
  "keeps_buffer f \<longleftrightarrow> (\<forall>og r b c r' b'. f og r b = ret (c, r', b') \<longrightarrow> pb_ok b \<longrightarrow> pb_ok b')"

definition graph_kept :: "outgoing list \<Rightarrow> pair_buffer list \<Rightarrow> outgoing list \<Rightarrow> pair_buffer list \<Rightarrow> bool" where
  "graph_kept ogs pbs ogs' pbs' \<longleftrightarrow> map og_wiring ogs' = map og_wiring ogs \<and> pbs_kept pbs pbs' \<and>
     (\<forall>k. k \<notin> og_pair_buffer ` set ogs \<longrightarrow> pbs' ! k = pbs ! k)"

lemma graph_kept_refl: "graph_kept ogs pbs ogs pbs"
  by (simp add: graph_kept_def)

lemma graph_kept_slots: "graph_kept ogs pbs ogs' pbs' \<Longrightarrow> og_pair_buffer ` set ogs' = og_pair_buffer ` set ogs"
  using same_wiring_slots [of ogs' ogs] by (metis graph_kept_def list.set_map)

lemma graph_kept_trans: "graph_kept a x b y \<Longrightarrow> graph_kept b y c z \<Longrightarrow> graph_kept a x c z"
  using graph_kept_slots [of a x b y] pbs_kept_trans by (auto simp: graph_kept_def)

lemma graph_kept_wired: "graph_kept ogs pbs ogs' pbs' \<Longrightarrow> pb_wired ogs pbs \<Longrightarrow> pb_wired ogs' pbs'"
  using same_wiring_slots [of ogs' ogs] by (simp add: pb_wired_map graph_kept_def pbs_kept_def)

lemma graph_keptI:
  assumes "pb_wired ogs pbs" and "length pbs' = length pbs" and "length ogs' = length ogs"
    and "\<And>j. j < length ogs \<Longrightarrow> og_wiring (ogs' ! j) = og_wiring (ogs ! j)"
    and "\<And>j. j < length ogs \<Longrightarrow> pb_ok (pbs ! og_pair_buffer (ogs ! j)) \<Longrightarrow> pb_ok (pbs' ! og_pair_buffer (ogs ! j))"
    and "\<And>k. k \<notin> og_pair_buffer ` set ogs \<Longrightarrow> pbs' ! k = pbs ! k"
  shows "graph_kept ogs pbs ogs' pbs'"
proof -
  have "pb_ok (pbs' ! k)" if "k < length pbs" "pb_ok (pbs ! k)" for k
  proof (cases "k \<in> og_pair_buffer ` set ogs")
    case True
    then obtain j where "j < length ogs" "k = og_pair_buffer (ogs ! j)" by (auto simp: in_set_conv_nth)
    with assms(5) that(2) show ?thesis by simp
  qed (use assms(6) that in simp)
  with assms show ?thesis by (auto simp: graph_kept_def pbs_kept_def intro!: nth_equalityI)
qed

lemma visit_kept:
  assumes "visit_all f ogs residuals pbs = ret (ogs', residuals', pbs')" and "pb_wired ogs pbs" and "length residuals = length ogs"
    and "keeps_buffer f"
  shows "graph_kept ogs pbs ogs' pbs'"
proof (rule graph_keptI [OF assms(2)])
  note each = visit_all_each [OF assms(1-3)]
  show "length pbs' = length pbs" "length ogs' = length ogs" using each by simp_all
  fix j assume "j < length ogs"
  with each show "og_wiring (ogs' ! j) = og_wiring (ogs ! j)"
    and "pb_ok (pbs ! og_pair_buffer (ogs ! j)) \<Longrightarrow> pb_ok (pbs' ! og_pair_buffer (ogs ! j))"
    using assms(4) unfolding keeps_buffer_def by blast+
next
  fix k assume "k \<notin> og_pair_buffer ` set ogs"
  then show "pbs' ! k = pbs ! k" using visit_all_each [OF assms(1-3)] by simp
qed

lemma feed_keeps [simp]: "keeps_buffer (feed_one xs)"
  by (auto simp: keeps_buffer_def feed_one_def Let_def and_then_eq_ret channel_process_def apply_calls_ok
      split: sum.splits option.splits)

lemma flush_keeps [simp]: "keeps_buffer flush_one"
proof -
  have "pb_ok b'" if "channel_on_message_end c b = ret (c', b')" "pb_ok b" for c b c' b'
    using that by (auto simp: channel_on_message_end_def apply_calls_ok split: sum.splits option.splits)
  moreover have "pb_ok b'" if "feed_one [] og r b = ret (c, r', b')" "pb_ok b" for og r b c r' b'
    using that feed_keeps [of "[]"] unfolding keeps_buffer_def by blast
  ultimately show ?thesis
    unfolding keeps_buffer_def flush_one_def by (auto simp: and_then_eq_ret split: if_splits; blast)
qed

lemma turn_keptI:
  assumes "worker_ok w' s'" and "worker_const w' = worker_const w"
    and "graph_kept (sw_outgoing w) (sh_pair_buffers s) (sw_outgoing w') (sh_pair_buffers s')"
    and "\<And>r. r \<noteq> sw_tx_ring w \<Longrightarrow> sh_tx_ring s' r = sh_tx_ring s r"
  shows "turn_kept w s w' s'"
  using assms by (simp add: turn_kept_def graph_kept_def)

lemma turn_process:
  assumes "process_available clk w s = ret (w', s', n)" and "worker_ok w s"
  shows "turn_kept w s w' s'"
proof (rule turn_keptI)
  note t = process_available_took [OF assms]
  show "worker_ok w' s'" "worker_const w' = worker_const w" using t by (simp_all add: took_def)
  have r: "sw_residuals w = replicate (length (sw_outgoing w)) []" and p: "pb_wired (sw_outgoing w) (sh_pair_buffers s)"
    using assms(2) by (simp_all add: worker_ok_def)
  show "graph_kept (sw_outgoing w) (sh_pair_buffers s) (sw_outgoing w') (sh_pair_buffers s')"
    and "\<And>r. r \<noteq> sw_tx_ring w \<Longrightarrow> sh_tx_ring s' r = sh_tx_ring s r"
    using assms(1) visit_kept [OF _ p _ feed_keeps]
    by (auto simp: process_available_def Let_def clock_now_def case_prod_unfold and_then_eq_ret graph_kept_refl r split: if_splits)
qed

lemma turn_drain:
  "drain_ring clk w s = ret (w', s') \<Longrightarrow> worker_ok w s \<Longrightarrow> turn_kept w s w' s'"
proof (induction clk w s rule: drain_ring.induct)
  case (1 clk w s)
  show ?case
  proof (cases "spsc_available_read (sh_tx_ring s (sw_tx_ring w)) = 0")
    case True
    with "1.prems" show ?thesis by (simp add: drain_ring.simps turn_kept_refl)
  next
    case False
    then obtain w1 s1 n where p: "process_available clk w s = ret (w1, s1, n)"
      "(if n = 0 then ret (w1, s1) else drain_ring clk w1 s1) = ret (w', s')"
      using "1.prems"(1) by (subst (asm) drain_ring.simps) (auto simp: and_then_eq_ret)
    have t: "turn_kept w s w1 s1" by (rule turn_process [OF p(1) "1.prems"(2)])
    have ok: "worker_ok w1 s1" using t by (simp add: turn_kept_def)
    show ?thesis
    proof (cases "n = 0")
      case n: False
      with p have "drain_ring clk w1 s1 = ret (w', s')" by simp
      from "1.IH" [OF False p(1) refl refl n this ok] t turn_kept_trans show ?thesis by blast
    qed (use p t in simp)
  qed
qed

lemma turn_flush:
  assumes "drain_and_flush clk w s = ret (w', s')" and "worker_ok w s"
  shows "turn_kept w s w' s'"
proof -
  obtain w1 s1 ogs residuals pbs where d: "drain_ring clk w s = ret (w1, s1)"
    and v: "visit_all flush_one (sw_outgoing w1) (sw_residuals w1) (sh_pair_buffers s1) = ret (ogs, residuals, pbs)"
    and out: "w' = w1\<lparr>sw_outgoing := ogs, sw_residuals := residuals\<rparr>" "s' = s1\<lparr>sh_pair_buffers := pbs\<rparr>"
    using assms(1) by (auto simp: drain_and_flush_def and_then_eq_ret)
  have t: "turn_kept w s w1 s1" by (rule turn_drain [OF d assms(2)])
  then have ok: "worker_ok w1 s1" by (simp add: turn_kept_def)
  obtain w2 s2 where "worker_ok w' s'" using drain_and_flush_took [OF assms] by blast
  then have "turn_kept w1 s1 w' s'"
    using visit_kept [OF v _ _ flush_keeps] ok by (intro turn_keptI) (simp_all add: out worker_ok_def worker_const_def)
  with t show ?thesis by (rule turn_kept_trans)
qed

lemma message_start_ok: "channel_on_message_start gap aligned c b = Inr (c', b') \<Longrightarrow> pb_ok b \<Longrightarrow> pb_ok b'"
  using pb_ok_step [of b "Begin gap aligned"] by (auto simp: channel_on_message_start_def split: sum.splits)

lemma turn_entry:
  assumes "tx_entry clk w s = ret (w', s')" and "worker_ok w s"
  shows "turn_kept w s w' s'"
proof (rule turn_keptI)
  note e = tx_entry_starts [OF assms, of "sw_last_state w'", simplified]
  show "worker_ok w' s'" "worker_const w' = worker_const w" "\<And>r. sh_tx_ring s' r = sh_tx_ring s r" using e by simp_all
  let ?s1 = "fst (clock_now clk s)" and ?now = "snd (clock_now clk s)"
  obtain ogs s2 where st: "start_all (tx_start_bound ?now w ?s1) ?now (sw_metrics w) (sw_outgoing w) ?s1 = ret (ogs, s2)"
    using assms(1) by (cases "start_all (tx_start_bound ?now w ?s1) ?now (sw_metrics w) (sw_outgoing w) ?s1")
      (auto simp: tx_entry_def case_prod_unfold Let_def and_then_eq_ret)
  have p: "pb_wired (sw_outgoing w) (sh_pair_buffers ?s1)" using assms(2) by (simp add: worker_ok_def clock_now_def)
  note each = start_all_each [OF st p]
  have "graph_kept (sw_outgoing w) (sh_pair_buffers ?s1) ogs (sh_pair_buffers s2)"
  proof (rule graph_keptI [OF p])
    show "length (sh_pair_buffers s2) = length (sh_pair_buffers ?s1)" "length ogs = length (sw_outgoing w)" using each by simp_all
    fix j assume j: "j < length (sw_outgoing w)"
    with each have st: "started (tx_start_bound ?now w ?s1) ?now ?s1 (sw_outgoing w ! j) (ogs ! j) s2" by blast
    then show wi: "og_wiring (ogs ! j) = og_wiring (sw_outgoing w ! j)" by (simp add: started_def)
    show "pb_ok (sh_pair_buffers s2 ! og_pair_buffer (sw_outgoing w ! j))" if "pb_ok (sh_pair_buffers ?s1 ! og_pair_buffer (sw_outgoing w ! j))"
      using st message_start_ok [OF _ that] wiring_slot [OF wi] by (auto simp: started_def own_def split: prod.splits)
  next
    fix k assume "k \<notin> og_pair_buffer ` set (sw_outgoing w)"
    then show "sh_pair_buffers s2 ! k = sh_pair_buffers ?s1 ! k" using each by simp
  qed
  then show "graph_kept (sw_outgoing w) (sh_pair_buffers s) (sw_outgoing w') (sh_pair_buffers s')"
    using assms(1) st by (auto simp: tx_entry_def case_prod_unfold Let_def clock_now_def split: if_splits)
qed

lemma turn_exit:
  assumes "tx_exit clk w s = ret (w', s')" and "worker_ok w s"
  shows "turn_kept w s w' s'"
proof -
  obtain w1 s1 where d: "drain_and_flush clk w s = ret (w1, s1)" "sw_outgoing w' = sw_outgoing w1" "sh_pair_buffers s' = sh_pair_buffers s1"
    "sh_tx_ring s' = sh_tx_ring s1" "worker_const w' = worker_const w1" "sw_residuals w' = sw_residuals w1"
    using tx_exit_ends [OF assms(1)] by blast
  have "turn_kept w s w1 s1" by (rule turn_flush [OF d(1) assms(2)])
  with d show ?thesis by (auto simp: turn_kept_def worker_ok_def worker_const_def)
qed

lemma turn_kept_state: "turn_kept w s w' s' \<Longrightarrow> turn_kept w s (w'\<lparr>sw_last_state := st\<rparr>) s'"
  by (auto simp: turn_kept_def worker_ok_def worker_const_def)

lemma turn_poll:
  assumes "poll_state_edges clk w s = ret (w', s')" and "worker_ok w s"
  shows "turn_kept w s w' s'"
  using assms turn_entry [OF _ assms(2)] turn_exit [OF _ assms(2)] turn_kept_refl [OF assms(2)] turn_kept_state
  by (auto simp: poll_state_edges_def Let_def and_then_eq_ret split: if_splits)

lemma turn_iteration:
  assumes "sw_iteration clk [] [] w s = ret (w', s', slept)" and "worker_ok w s"
  shows "turn_kept w s w' s'"
proof -
  obtain w1 s1 where p: "poll_state_edges clk w s = ret (w1, s1)"
    and q: "(if live_state w1 s1 = ST_TX then process_available clk w1 s1 else ret (w1, s1, 0)) = ret (w', s', if slept then 0 else 1) \<or>
      (\<exists>n. (if live_state w1 s1 = ST_TX then process_available clk w1 s1 else ret (w1, s1, 0)) = ret (w', s', n))"
    using assms(1) by (auto simp: sw_iteration_def Let_def and_then_eq_ret env_steps_def)
  have t: "turn_kept w s w1 s1" by (rule turn_poll [OF p assms(2)])
  then have ok: "worker_ok w1 s1" by (simp add: turn_kept_def)
  from q have "turn_kept w1 s1 w' s'" using turn_process [OF _ ok] turn_kept_refl [OF ok] by (auto split: if_splits)
  with t show ?thesis by (rule turn_kept_trans)
qed

lemma turn_finish:
  assumes "sw_finish clk w s = ret (w', s')" and "worker_ok w s"
  shows "turn_kept w s w' s'"
proof -
  obtain w1 s1 where p: "poll_state_edges clk w s = ret (w1, s1)"
    and q: "(if sw_last_state w1 = ST_TX then and_then (drain_and_flush clk w1 s1) (\<lambda>(w2, s2). ret (w2\<lparr>sw_last_state := ST_IDLE\<rparr>, s2))
      else ret (w1, s1)) = ret (w', s')"
    using assms(1) by (auto simp: sw_finish_def and_then_eq_ret)
  have t: "turn_kept w s w1 s1" by (rule turn_poll [OF p assms(2)])
  then have ok: "worker_ok w1 s1" by (simp add: turn_kept_def)
  from q have "turn_kept w1 s1 w' s'" using turn_flush [OF _ ok] turn_kept_refl [OF ok] turn_kept_state
    by (auto simp: and_then_eq_ret split: if_splits)
  with t show ?thesis by (rule turn_kept_trans)
qed

end
