(* ===== verification/System_Invariant.thy ===== *)
theory System_Invariant
  imports Simulator_Invariant
begin

text \<open>
  The invariant of the whole program, over every state that initialisation, the start of the threads and any
  interleaving of their turns lead to.
\<close>

section \<open>The invariant\<close>

text \<open>A worker's references: its own modem and ring, and trackers, estimators, rings and event logs that exist.\<close>

definition worker_placed :: "nat \<Rightarrow> nat \<Rightarrow> nat \<Rightarrow> source_worker \<Rightarrow> bool" where
  "worker_placed m l i w \<longleftrightarrow> sw_runtime w = i \<and> sw_tx_ring w = i \<and> (\<forall>j. sw_source_tx_estimator w = Some j \<longrightarrow> j < m) \<and>
     (\<forall>j. sw_message_event_log w = Some j \<longrightarrow> j < l) \<and>
     (\<forall>og \<in> set (sw_outgoing w). (\<forall>j. og_receiver_fill_tracker og = Some j \<longrightarrow> j < m) \<and> (\<forall>j. og_receiver_rx_ring og = Some j \<longrightarrow> j < m))"

definition exclusive :: "nat list list \<Rightarrow> bool" where
  "exclusive ls \<longleftrightarrow> (\<forall>i < length ls. \<forall>j < length ls. i \<noteq> j \<longrightarrow> set (ls ! i) \<inter> set (ls ! j) = {})"

definition written_by :: "'g channel_engine \<Rightarrow> nat list list" where
  "written_by e = map (\<lambda>v. case v of None \<Rightarrow> [] | Some w \<Rightarrow> map og_pair_buffer (sw_outgoing w)) (eg_source_workers e)"

definition read_by :: "'g channel_engine \<Rightarrow> nat list list" where
  "read_by e = map rm_incoming (eg_receiver_mixes e)"

definition rings_ok :: "modem_buffers \<Rightarrow> bool" where
  "rings_ok b \<longleftrightarrow> spsc_inv (mb_tx_ring b) \<and> spsc_inv (mb_rx_ring b)"

definition engine_sound :: "nat \<Rightarrow> nat \<Rightarrow> shared \<Rightarrow> 'g channel_engine \<Rightarrow> bool" where
  "engine_sound m l sh e \<longleftrightarrow> list_all pb_ok (eg_pair_buffers e) \<and>
     (\<forall>i w. engine_source_worker i e = Some w \<longrightarrow> worker_ok w sh \<and> worker_placed m l i w) \<and>
     (\<forall>rm \<in> set (eg_receiver_mixes e). mix_fits rm (eg_pair_buffers e)) \<and> exclusive (written_by e) \<and> exclusive (read_by e)"

definition system_ok :: "('t, 'g) simulator \<Rightarrow> bool" where
  "system_ok s \<longleftrightarrow>
     length (si_buffers s) = length (si_modems s) \<and> list_all rings_ok (si_buffers s) \<and>
     length (si_io_workers s) \<le> length (si_modems s) \<and> length (si_io_threads s) \<le> length (si_io_workers s) \<and>
     list_all (\<lambda>io. io_samples_per_pkt io < 2 ^ 64) (si_io_workers s) \<and>
     (\<exists>e. si_engine s = Some e \<and> length (eg_source_workers e) = length (si_modems s) \<and>
        length (eg_receiver_mixes e) = length (si_modems s) \<and> length (si_worker_threads s) \<le> length (si_modems s) \<and>
        length (eg_modems e) = length (si_modems s) \<and> length (eg_per_receiver_outgoing_refs e) = length (si_modems s) \<and>
        engine_sound (length (si_io_workers s)) (length (si_message_event_logs s)) (sim_store s) e)"

lemma worker_placed_cong:
  assumes "worker_const w' = worker_const w" and "map og_wiring (sw_outgoing w') = map og_wiring (sw_outgoing w)"
  shows "worker_placed m l i w' = worker_placed m l i w"
proof -
  define P where "P x = ((\<forall>j. fst (snd x) = Some j \<longrightarrow> j < m) \<and> (\<forall>j. fst (snd (snd x)) = Some j \<longrightarrow> j < m))"
    for x :: "nat \<times> nat option \<times> nat option \<times> nat \<times> real"
  have "(\<forall>og \<in> set ogs. P (og_wiring og)) \<longleftrightarrow> list_all P (map og_wiring ogs)" for ogs
    by (simp add: list_all_iff)
  then have "(\<forall>og \<in> set (sw_outgoing w'). P (og_wiring og)) = (\<forall>og \<in> set (sw_outgoing w). P (og_wiring og))"
    using assms(2) by metis
  then show ?thesis using assms(1) by (simp add: worker_placed_def worker_const_def P_def og_wiring_def)
qed

lemma worker_placed_mono: "worker_placed m l i w \<Longrightarrow> m \<le> m' \<Longrightarrow> worker_placed m' l i w"
  unfolding worker_placed_def by (meson less_le_trans)

text \<open>The store seen through the parts the invariant of a worker reads.\<close>

lemma worker_ok_cong: "sh_pair_buffers s' = sh_pair_buffers s \<Longrightarrow> sh_tx_ring s' (sw_tx_ring w) = sh_tx_ring s (sw_tx_ring w) \<Longrightarrow>
    worker_ok w s' = worker_ok w s"
  by (simp add: worker_ok_def)

lemma engine_worker_range: "engine_source_worker i e = Some w \<Longrightarrow> i < length (eg_source_workers e) \<and> eg_source_workers e ! i = Some w"
  by (auto simp: engine_source_worker_def split: if_splits)

section \<open>The threads keep it\<close>

lemma store_put_io:
  assumes "i < length (si_buffers s)" and "si_engine s = Some e"
  shows "sh_pair_buffers (sim_store (put_io env i io s)) = io_pair_buffers io"
    and "j \<noteq> i \<Longrightarrow> sh_tx_ring (sim_store (put_io env i io s)) j = sh_tx_ring (sim_store s) j"
    and "sh_tx_ring (sim_store (put_io env i io s)) i = io_tx_ring io"
  using assms by (simp_all add: sim_store_def put_io_def put_mix_def)

lemma sim_store_threads [simp]: "sim_store (s\<lparr>si_io_threads := ts\<rparr>) = sim_store s" "sim_store (s\<lparr>si_worker_threads := ts\<rparr>) = sim_store s"
  by (simp_all add: sim_store_def)

lemma put_io_fields:
  "si_modems (put_io env i io s) = (si_modems s)[i := io_modem io]" "si_io_workers (put_io env i io s) = (si_io_workers s)[i := io]"
  "si_buffers (put_io env i io s) = (si_buffers s)[i := \<lparr>mb_tx_ring = io_tx_ring io, mb_rx_ring = io_rx_ring io\<rparr>]"
  "si_engine (put_io env i io s) = map_option (put_mix i (io_receiver_mix io) (io_pair_buffers io)) (si_engine s)"
  "si_io_threads (put_io env i io s) = si_io_threads s" "si_worker_threads (put_io env i io s) = si_worker_threads s"
  "si_message_event_logs (put_io env i io s) = si_message_event_logs s"
  by (simp_all add: put_io_def)

lemma put_mix_fields:
  "eg_source_workers (put_mix i mix pbs e) = eg_source_workers e" "eg_modems (put_mix i mix pbs e) = eg_modems e"
  "eg_per_receiver_outgoing_refs (put_mix i mix pbs e) = eg_per_receiver_outgoing_refs e"
  "length (eg_receiver_mixes (put_mix i mix pbs e)) = length (eg_receiver_mixes e)"
  by (simp_all add: put_mix_def split: option.split)

lemma list_all_update: "list_all P xs \<Longrightarrow> P x \<Longrightarrow> list_all P (xs[i := x])"
  by (auto simp: list_all_iff dest: set_update_subset_insert [THEN subsetD])

lemma io_view_sound:
  assumes "system_ok s" and "i < length (si_io_workers s)"
  shows "io_sound (io_view i s)"
proof -
  obtain e where e: "si_engine s = Some e" "length (eg_receiver_mixes e) = length (si_modems s)"
    "list_all pb_ok (eg_pair_buffers e)" "\<forall>rm \<in> set (eg_receiver_mixes e). mix_fits rm (eg_pair_buffers e)"
    using assms(1) by (auto simp: system_ok_def engine_sound_def)
  have i: "i < length (si_modems s)" "i < length (si_buffers s)" using assms by (auto simp: system_ok_def)
  have "rings_ok (si_buffers s ! i)" "io_samples_per_pkt (si_io_workers s ! i) < 2 ^ 64"
    using assms i by (auto simp: system_ok_def list_all_length)
  with e i show ?thesis
    by (auto simp: io_sound_def io_view_def rings_ok_def engine_receiver_mix_def split: if_splits)
qed

lemma io_turn_ok:
  assumes "system_ok s" and "i < length (si_io_workers s)"
  shows "system_ok (io_turn env i n s)"
proof (cases "io_running (si_io_workers s ! i)")
  case False
  with assms(1) show ?thesis by (simp add: io_turn_def system_ok_def sim_store_def)
next
  case True
  define io where "io = io_iteration (io_env_of env i) n (io_view i s)"
  have k: "io_kept (io_view i s) io" unfolding io_def by (rule kept_io_iteration)
  have sound: "io_sound io" and fx: "io_fixed io = io_fixed (io_view i s)"
    using k io_view_sound [OF assms] by (simp_all add: io_kept_def)
  obtain e where e: "si_engine s = Some e" "length (eg_source_workers e) = length (si_modems s)"
    "length (eg_receiver_mixes e) = length (si_modems s)" "length (si_worker_threads s) \<le> length (si_modems s)"
    "engine_sound (length (si_io_workers s)) (length (si_message_event_logs s)) (sim_store s) e"
    "length (eg_modems e) = length (si_modems s)" "length (eg_per_receiver_outgoing_refs e) = length (si_modems s)"
    using assms(1) by (auto simp: system_ok_def)
  have len: "length (si_buffers s) = length (si_modems s)" "length (si_io_workers s) \<le> length (si_modems s)"
    "length (si_io_threads s) \<le> length (si_io_workers s)" "list_all rings_ok (si_buffers s)"
    "list_all (\<lambda>io. io_samples_per_pkt io < 2 ^ 64) (si_io_workers s)"
    using assms(1) by (auto simp: system_ok_def)
  have i: "i < length (si_modems s)" "i < length (si_buffers s)" using assms(2) len by simp_all
  let ?s1 = "put_io env i io s"
  let ?e1 = "put_mix i (io_receiver_mix io) (io_pair_buffers io) e"
  obtain rm rm' where rm: "io_receiver_mix io = Some rm'" "rm_incoming rm' = rm_incoming (eg_receiver_mixes e ! i)"
    and plen: "length (io_pair_buffers io) = length (eg_pair_buffers e)"
    using fx i e by (cases "io_receiver_mix io") (auto simp: io_fixed_def io_view_def engine_receiver_mix_def)
  have mixes: "read_by ?e1 = read_by e"
    using rm i e(3) by (auto simp: read_by_def put_mix_def intro!: nth_equalityI simp: nth_list_update)
  have fits: "mix_fits v (io_pair_buffers io)" if v: "v \<in> set ((eg_receiver_mixes e)[i := rm'])" for v
  proof -
    have "v = rm' \<or> v \<in> set (eg_receiver_mixes e)" using v set_update_subset_insert by fastforce
    moreover have "eg_receiver_mixes e ! i \<in> set (eg_receiver_mixes e)" using i e(3) by simp
    ultimately obtain u where "u \<in> set (eg_receiver_mixes e)" "rm_incoming v = rm_incoming u" using rm(2) by metis
    with e(5) plen show ?thesis by (auto simp: engine_sound_def mix_fits_def)
  qed
  have workers: "worker_ok w (sim_store ?s1) \<and> worker_placed (length (si_io_workers s)) (length (si_message_event_logs s)) j w"
    if "engine_source_worker j e = Some w" for j w
  proof -
    have w: "worker_ok w (sim_store s)" "worker_placed (length (si_io_workers s)) (length (si_message_event_logs s)) j w"
      using that e(5) by (auto simp: engine_sound_def)
    have "spsc_inv (sh_tx_ring (sim_store ?s1) (sw_tx_ring w))"
      using w sound by (cases "sw_tx_ring w = i")
        (auto simp: worker_ok_def io_sound_def store_put_io(2,3) [OF i(2) e(1)])
    with w plen show ?thesis
      by (simp add: worker_ok_def pb_wired_def store_put_io(1) [OF i(2) e(1)]) (simp add: sim_store_def e(1))
  qed
  have "engine_sound (length (si_io_workers s)) (length (si_message_event_logs s)) (sim_store ?s1) ?e1"
  proof -
    have "engine_source_worker j ?e1 = engine_source_worker j e" for j by (simp add: engine_source_worker_def put_mix_def)
    moreover have "written_by ?e1 = written_by e" by (simp add: written_by_def put_mix_def)
    moreover have "eg_pair_buffers ?e1 = io_pair_buffers io" "eg_receiver_mixes ?e1 = (eg_receiver_mixes e)[i := rm']"
      by (simp_all add: put_mix_def rm(1))
    moreover have "list_all pb_ok (io_pair_buffers io)" using sound by (simp add: io_sound_def)
    ultimately show ?thesis using fits workers e(5) mixes by (simp add: engine_sound_def)
  qed
  moreover have "io_samples_per_pkt io < 2 ^ 64" using sound by (simp add: io_sound_def)
  moreover have "rings_ok \<lparr>mb_tx_ring = io_tx_ring io, mb_rx_ring = io_rx_ring io\<rparr>" using sound by (simp add: io_sound_def rings_ok_def)
  ultimately show ?thesis
    using True e len i rm(1) unfolding io_turn_def io_def [symmetric]
    by (simp add: system_ok_def put_io_fields put_mix_fields list_all_update)
qed

text \<open>A worker's turn, and the start of its thread.\<close>

lemma put_worker_fields:
  "si_modems (put_worker i w sh s) = si_modems s" "si_io_workers (put_worker i w sh s) = si_io_workers s"
  "length (si_buffers (put_worker i w sh s)) = length (si_buffers s)"
  "si_engine (put_worker i w sh s) =
     map_option (\<lambda>e. e\<lparr>eg_source_workers := (eg_source_workers e)[i := Some w], eg_pair_buffers := sh_pair_buffers sh\<rparr>) (si_engine s)"
  "si_io_threads (put_worker i w sh s) = si_io_threads s" "si_worker_threads (put_worker i w sh s) = si_worker_threads s"
  "length (si_message_event_logs (put_worker i w sh s)) = length (si_message_event_logs s)"
  by (simp_all add: put_worker_def)

lemma store_put_worker:
  assumes "si_engine s = Some e"
  shows "sh_pair_buffers (sim_store (put_worker i w sh s)) = sh_pair_buffers sh"
    and "j < length (si_buffers s) \<Longrightarrow> sh_tx_ring (sim_store (put_worker i w sh s)) j = sh_tx_ring sh j"
  using assms by (simp_all add: sim_store_def put_worker_def)

lemma worker_put_ok:
  assumes "system_ok s" and "sim_worker i s = Some w" and "turn_kept w (sim_store s) w' sh"
  shows "system_ok (put_worker i w' sh s)"
proof -
  obtain e where e: "si_engine s = Some e" "length (eg_source_workers e) = length (si_modems s)"
    "length (eg_receiver_mixes e) = length (si_modems s)" "length (si_worker_threads s) \<le> length (si_modems s)"
    "length (eg_modems e) = length (si_modems s)" "length (eg_per_receiver_outgoing_refs e) = length (si_modems s)"
    and es: "engine_sound (length (si_io_workers s)) (length (si_message_event_logs s)) (sim_store s) e"
    using assms(1) by (auto simp: system_ok_def)
  have len: "length (si_buffers s) = length (si_modems s)" "length (si_io_workers s) \<le> length (si_modems s)"
    "length (si_io_threads s) \<le> length (si_io_workers s)" "list_all rings_ok (si_buffers s)"
    "list_all (\<lambda>io. io_samples_per_pkt io < 2 ^ 64) (si_io_workers s)"
    using assms(1) by (auto simp: system_ok_def)
  let ?s1 = "put_worker i w' sh s"
  let ?e1 = "e\<lparr>eg_source_workers := (eg_source_workers e)[i := Some w'], eg_pair_buffers := sh_pair_buffers sh\<rparr>"
  have w: "engine_source_worker i e = Some w" using assms(2) e(1) by (simp add: sim_worker_def)
  note wi = engine_worker_range [OF w]
  have pbs: "sh_pair_buffers (sim_store s) = eg_pair_buffers e" by (simp add: sim_store_def e(1))
  have ok: "worker_ok w (sim_store s)" "worker_placed (length (si_io_workers s)) (length (si_message_event_logs s)) i w"
    using es w by (auto simp: engine_sound_def)
  have t: "worker_ok w' sh" "worker_const w' = worker_const w" "map og_wiring (sw_outgoing w') = map og_wiring (sw_outgoing w)"
    "pbs_kept (eg_pair_buffers e) (sh_pair_buffers sh)" "\<And>r. r \<noteq> i \<Longrightarrow> sh_tx_ring sh r = sh_tx_ring (sim_store s) r"
    using assms(3) ok(2) by (simp_all add: turn_kept_def pbs worker_placed_def)
  have tx: "sw_tx_ring w' = i" using t(2) ok(2) by (simp add: worker_const_def worker_placed_def)
  have i: "i < length (si_buffers s)" using wi e(2) len(1) by simp
  have workers: "worker_ok v (sim_store ?s1) \<and> worker_placed (length (si_io_workers s)) (length (si_message_event_logs s)) j v"
    if v: "engine_source_worker j ?e1 = Some v" for j v
  proof (cases "j = i")
    case True
    then have "v = w'" using v wi by (simp add: engine_source_worker_def split: if_splits)
    moreover have "worker_ok w' (sim_store ?s1)"
      using t(1) by (subst worker_ok_cong [of _ sh]) (simp_all add: store_put_worker [OF e(1)] tx i)
    moreover have "worker_placed (length (si_io_workers s)) (length (si_message_event_logs s)) i w'"
      using ok(2) worker_placed_cong [OF t(2,3)] by simp
    ultimately show ?thesis using True by simp
  next
    case False
    then have v': "engine_source_worker j e = Some v" using v by (simp add: engine_source_worker_def split: if_splits)
    then have o: "worker_ok v (sim_store s)" "worker_placed (length (si_io_workers s)) (length (si_message_event_logs s)) j v"
      using es by (auto simp: engine_sound_def)
    then have "sw_tx_ring v = j" by (simp add: worker_placed_def)
    moreover have "j < length (si_buffers s)" using engine_worker_range [OF v'] e(2) len(1) by simp
    ultimately have "worker_ok v (sim_store ?s1)"
      using o(1) t(4,5) False by (simp add: worker_ok_def pb_wired_def store_put_worker [OF e(1)] pbs pbs_kept_def)
    with o(2) show ?thesis by simp
  qed
  have "written_by ?e1 = written_by e"
    using wi same_wiring_slots [OF t(3)] by (auto simp: written_by_def intro!: nth_equalityI simp: nth_list_update)
  moreover have "read_by ?e1 = read_by e" by (simp add: read_by_def)
  moreover have "list_all pb_ok (sh_pair_buffers sh)" using es t(4) by (simp add: engine_sound_def pbs_kept_def list_all_length)
  moreover have "mix_fits rm (sh_pair_buffers sh)" if "rm \<in> set (eg_receiver_mixes e)" for rm
    using that es t(4) by (simp add: engine_sound_def mix_fits_def pbs_kept_def)
  ultimately have "engine_sound (length (si_io_workers s)) (length (si_message_event_logs s)) (sim_store ?s1) ?e1"
    using workers es by (simp add: engine_sound_def)
  moreover have "list_all rings_ok (si_buffers ?s1)"
  proof -
    have "spsc_inv (sh_tx_ring sh j)" if "j < length (si_buffers s)" for j
    proof (cases "j = i")
      case True
      then show ?thesis using t(1) tx by (simp add: worker_ok_def)
    next
      case False
      then show ?thesis using that len(4) by (simp add: t(5) sim_store_def e(1) list_all_length rings_ok_def)
    qed
    with len(4) show ?thesis by (simp add: put_worker_def list_all_length rings_ok_def)
  qed
  ultimately show ?thesis using e len by (simp add: system_ok_def put_worker_fields)
qed

lemma worker_turn_ok:
  assumes "system_ok s" and "sim_worker i s = Some w" and "worker_turn env i n w s = ret s'"
  shows "system_ok s'"
proof -
  have ok: "worker_ok w (sim_store s)" using assms(1,2) by (auto simp: system_ok_def engine_sound_def sim_worker_def)
  have threads: "system_ok (s1\<lparr>si_worker_threads := (si_worker_threads s)[i := th]\<rparr>)"
    if "system_ok s1" "length (si_worker_threads s1) = length (si_worker_threads s)" for s1 :: "('a, 'b) simulator" and th
    using that by (simp add: system_ok_def)
  show ?thesis
    using assms(3) turn_iteration [OF _ ok] turn_finish [OF _ ok] worker_put_ok [OF assms(1,2)]
    by (auto simp: worker_turn_def and_then_eq_ret put_worker_fields intro!: threads split: if_splits)
qed

lemma worker_begin_ok:
  assumes "system_ok s" and "sim_worker i s = Some w"
  shows "system_ok (worker_begin i w s)"
proof -
  have "worker_ok w (sim_store s)" using assms by (auto simp: system_ok_def engine_sound_def sim_worker_def)
  then have "turn_kept w (sim_store s) (w\<lparr>sw_running := True, sw_last_state := ST_IDLE\<rparr>) (sim_store s)"
    by (simp add: turn_kept_def worker_ok_def worker_const_def)
  from worker_put_ok [OF assms this] show ?thesis by (simp add: worker_begin_def system_ok_def put_worker_fields)
qed

text \<open>Steps that only set fields of the workers.\<close>

definition same_place :: "source_worker \<Rightarrow> source_worker \<Rightarrow> bool" where
  "same_place w w' \<longleftrightarrow> map og_pair_buffer (sw_outgoing w') = map og_pair_buffer (sw_outgoing w) \<and> sw_residuals w' = sw_residuals w \<and>
     sw_tx_ring w' = sw_tx_ring w \<and> sw_raw_buf_size w' = sw_raw_buf_size w"

lemma same_place_ok:
  assumes "same_place w w'" and "worker_ok w sh"
  shows "worker_ok w' sh"
proof -
  have "length (sw_outgoing w') = length (sw_outgoing w)" using assms(1) unfolding same_place_def by (metis length_map)
  then show ?thesis using assms by (simp add: same_place_def worker_ok_def pb_wired_map del: set_map)
qed

lemma engine_sound_workers:
  assumes "engine_sound m l sh e" and "eg_pair_buffers e' = eg_pair_buffers e" and "eg_receiver_mixes e' = eg_receiver_mixes e"
    and "length (eg_source_workers e') = length (eg_source_workers e)"
    and "\<And>i. i < length (eg_source_workers e) \<Longrightarrow>
      rel_option (\<lambda>w w'. same_place w w' \<and> (worker_placed m l i w \<longrightarrow> worker_placed m' l' i w')) (eg_source_workers e ! i) (eg_source_workers e' ! i)"
  shows "engine_sound m' l' sh e'"
proof -
  have "worker_ok w' sh \<and> worker_placed m' l' i w'" if "engine_source_worker i e' = Some w'" for i w'
  proof -
    have i: "i < length (eg_source_workers e)" "eg_source_workers e' ! i = Some w'" using that assms(4) engine_worker_range by metis+
    with assms(5) [OF i(1)] obtain w where w: "eg_source_workers e ! i = Some w" "same_place w w'"
      "worker_placed m l i w \<longrightarrow> worker_placed m' l' i w'" by (auto simp: rel_option_iff split: option.splits)
    with i(1) have "engine_source_worker i e = Some w" by (simp add: engine_source_worker_def)
    with assms(1) w same_place_ok show ?thesis unfolding engine_sound_def by blast
  qed
  moreover have "written_by e' = written_by e"
  proof (rule nth_equalityI)
    fix i assume "i < length (written_by e')"
    then have i: "i < length (eg_source_workers e)" "i < length (eg_source_workers e')" using assms(4) by (simp_all add: written_by_def)
    from assms(5) [OF i(1)] i show "written_by e' ! i = written_by e ! i"
      by (auto simp: written_by_def rel_option_iff same_place_def split: option.splits)
  qed (simp add: written_by_def assms(4))
  ultimately show ?thesis using assms(1-3) by (simp add: engine_sound_def read_by_def)
qed

lemma engine_sound_each:
  assumes "engine_sound m l sh e" and "\<And>w. same_place w (f w)" and "\<And>i w. worker_placed m l i w \<Longrightarrow> worker_placed m l i (f w)"
  shows "engine_sound m l sh (each_worker f e)"
  using assms by (intro engine_sound_workers [OF assms(1)]) (auto simp: each_worker_def rel_option_iff split: option.split)

text \<open>The invariant of an engine reads the buffers and the transmit rings of the store.\<close>

lemma engine_sound_cong:
  assumes "sh_pair_buffers sh' = sh_pair_buffers sh" and "\<And>j. j < length (eg_source_workers e) \<Longrightarrow> sh_tx_ring sh' j = sh_tx_ring sh j"
    and "engine_sound m l sh e"
  shows "engine_sound m l sh' e"
proof -
  have "worker_ok w sh'" if "engine_source_worker i e = Some w" for i w
  proof -
    have "worker_ok w sh" "sw_tx_ring w = i" using assms(3) that by (auto simp: engine_sound_def worker_placed_def)
    moreover have "i < length (eg_source_workers e)" using engine_worker_range [OF that] by simp
    ultimately show ?thesis using worker_ok_cong [OF assms(1)] assms(2) by simp
  qed
  with assms(3) show ?thesis by (simp add: engine_sound_def)
qed

lemma same_engine_buffers: "eg_pair_buffers e' = eg_pair_buffers e \<Longrightarrow> si_engine s = Some e \<Longrightarrow>
    sh_pair_buffers (sim_store (s\<lparr>si_engine := Some e'\<rparr>)) = sh_pair_buffers (sim_store s) \<and>
    sh_tx_ring (sim_store (s\<lparr>si_engine := Some e'\<rparr>)) = sh_tx_ring (sim_store s)"
  by (simp add: sim_store_def)

lemma engine_sound_same:
  assumes "eg_pair_buffers e' = eg_pair_buffers e" and "eg_source_workers e' = eg_source_workers e" and "eg_receiver_mixes e' = eg_receiver_mixes e"
  shows "engine_sound m l sh e' = engine_sound m l sh e"
  by (simp add: engine_sound_def engine_source_worker_def written_by_def read_by_def assms)

lemma request_sound:
  assumes "engine_sound m l sh e"
  shows "engine_sound m l sh (engine_request_stop e)"
proof -
  have "engine_sound m l sh (each_worker sw_stop e)"
    by (rule engine_sound_each [OF assms]) (simp_all add: sw_stop_def same_place_def worker_placed_def)
  then show ?thesis by (subst engine_sound_same [of _ "each_worker sw_stop e"]) (simp_all add: engine_request_stop_def)
qed

lemma join_sound: "engine_sound m l sh (engine_join e) = engine_sound m l sh e"
  by (rule engine_sound_same) (simp_all add: engine_join_def)

lemma system_engine:
  assumes "system_ok s"
  obtains e where "si_engine s = Some e" and "engine_sound (length (si_io_workers s)) (length (si_message_event_logs s)) (sim_store s) e"
  using assms by (auto simp: system_ok_def)

text \<open>A step that replaces the engine by one over the same buffers, rings and mixes.\<close>

lemma system_ok_engine:
  assumes "system_ok s" and "si_engine s = Some e" and "eg_pair_buffers e' = eg_pair_buffers e"
    and "length (eg_source_workers e') = length (eg_source_workers e)" and "length (eg_receiver_mixes e') = length (eg_receiver_mixes e)"
    and "eg_modems e' = eg_modems e" and "eg_per_receiver_outgoing_refs e' = eg_per_receiver_outgoing_refs e"
    and "engine_sound (length (si_io_workers s)) (length (si_message_event_logs s)) (sim_store s) e'"
  shows "system_ok (s\<lparr>si_engine := Some e'\<rparr>)"
proof -
  have "engine_sound (length (si_io_workers s)) (length (si_message_event_logs s)) (sim_store (s\<lparr>si_engine := Some e'\<rparr>)) e'"
    using same_engine_buffers [OF assms(3,2)] by (intro engine_sound_cong [OF _ _ assms(8)]) simp_all
  with assms show ?thesis by (auto simp: system_ok_def)
qed

lemma request_fields:
  "eg_pair_buffers (engine_request_stop e) = eg_pair_buffers e" "length (eg_source_workers (engine_request_stop e)) = length (eg_source_workers e)"
  "eg_receiver_mixes (engine_request_stop e) = eg_receiver_mixes e" "eg_modems (engine_request_stop e) = eg_modems e"
  "eg_per_receiver_outgoing_refs (engine_request_stop e) = eg_per_receiver_outgoing_refs e" "\<not> eg_started (engine_request_stop e)"
  "eg_pair_buffers (engine_join e) = eg_pair_buffers e" "eg_source_workers (engine_join e) = eg_source_workers e"
  "eg_receiver_mixes (engine_join e) = eg_receiver_mixes e" "eg_modems (engine_join e) = eg_modems e"
  "eg_per_receiver_outgoing_refs (engine_join e) = eg_per_receiver_outgoing_refs e" "eg_started (engine_join e) = eg_started e"
  by (simp_all add: engine_request_stop_def each_worker_def engine_join_def)

lemma request_ok:
  assumes "system_ok s"
  shows "system_ok (s\<lparr>si_engine := map_option engine_request_stop (si_engine s)\<rparr>)"
proof -
  obtain e where e: "si_engine s = Some e" "engine_sound (length (si_io_workers s)) (length (si_message_event_logs s)) (sim_store s) e"
    by (rule system_engine [OF assms])
  from system_ok_engine [OF assms e(1), of "engine_request_stop e"] request_sound [OF e(2)] e(1) show ?thesis
    by (simp add: request_fields)
qed

lemma stop_join_ok:
  assumes "system_ok s"
  shows "system_ok (sim_stop_join s)"
proof -
  obtain e where e: "si_engine s = Some e" "engine_sound (length (si_io_workers s)) (length (si_message_event_logs s)) (sim_store s) e"
    by (rule system_engine [OF assms])
  from system_ok_engine [OF assms e(1), of "engine_join e"] e show ?thesis
    by (simp add: request_fields join_sound sim_stop_join_def)
qed

text \<open>Steps on the I/O workers that leave the store alone.\<close>

lemma system_ok_io:
  assumes "system_ok s" and "length ios = length (si_io_workers s)" and "list_all (\<lambda>io. io_samples_per_pkt io < 2 ^ 64) ios"
  shows "system_ok (s\<lparr>si_io_workers := ios, si_running := b\<rparr>)"
proof -
  obtain e where e: "si_engine s = Some e" "engine_sound (length (si_io_workers s)) (length (si_message_event_logs s)) (sim_store s) e"
    by (rule system_engine [OF assms(1)])
  have "engine_sound (length (si_io_workers s)) (length (si_message_event_logs s)) (sim_store (s\<lparr>si_io_workers := ios, si_running := b\<rparr>)) e"
    by (rule engine_sound_cong [OF _ _ e(2)]) (simp_all add: sim_store_def e(1))
  with assms e(1) show ?thesis by (auto simp: system_ok_def)
qed

lemma sim_stop_ok:
  assumes "system_ok s"
  shows "system_ok (sim_stop s)"
proof -
  let ?s = "s\<lparr>si_io_workers := map io_stop (si_io_workers s), si_running := False\<rparr>"
  have ok: "system_ok ?s"
    using assms by (intro system_ok_io) (auto simp: system_ok_def list_all_iff io_stop_def)
  have "sim_stop s = (if engine_running s then ?s\<lparr>si_engine := map_option engine_request_stop (si_engine ?s)\<rparr> else ?s)"
    by (cases s; cases "si_engine s") (simp_all add: sim_stop_def engine_running_def)
  with ok request_ok [OF ok] show ?thesis by simp
qed

lemma io_begin_ok:
  assumes "system_ok s" and "i < length (si_io_threads s)"
  shows "system_ok (io_begin i s)"
proof -
  have "i < length (si_io_workers s)" "list_all (\<lambda>io. io_samples_per_pkt io < 2 ^ 64) (si_io_workers s)"
    using assms by (auto simp: system_ok_def)
  then have "system_ok (s\<lparr>si_io_workers := (si_io_workers s)[i := (si_io_workers s ! i)\<lparr>io_running := True\<rparr>], si_running := si_running s\<rparr>)"
    by (intro system_ok_io [OF assms(1)] list_all_update) (simp_all add: list_all_length)
  then show ?thesis by (simp add: io_begin_def system_ok_def sim_store_def)
qed

lemma sim_act_ok:
  assumes "system_ok s" and "sim_act env a s = ret s'"
  shows "system_ok s'"
proof (cases a)
  case (Io_Begin i)
  with assms io_begin_ok show ?thesis by (auto simp: sim_act_def split: if_splits)
next
  case (Io_Turn i)
  have "length (si_io_threads s) \<le> length (si_io_workers s)" using assms(1) by (simp add: system_ok_def)
  with Io_Turn assms io_turn_ok [OF assms(1), of i env] show ?thesis
    by (auto simp: sim_act_def split: if_splits thread.splits)
next
  case (Worker_Begin i)
  with assms worker_begin_ok show ?thesis by (auto simp: sim_act_def split: if_splits option.splits)
next
  case (Worker_Turn i)
  with assms worker_turn_ok show ?thesis by (auto simp: sim_act_def split: if_splits option.splits thread.splits)
next
  case Stop_Request
  with assms sim_stop_ok show ?thesis by (auto simp: sim_act_def)
next
  case Stop_Join
  with assms stop_join_ok show ?thesis by (auto simp: sim_act_def split: if_splits)
qed

section \<open>The start keeps it\<close>

lemma context_slots: "map og_pair_buffer (with_context t r ps ogs) = map og_pair_buffer ogs"
  by (rule nth_equalityI) (auto simp: with_context_def)

lemma wire_sound:
  assumes "engine_sound m l sh e" and "m < length (eg_modems e)"
  shows "engine_sound (Suc m) l sh (wire_modem_trackers m (Some m) (Some m) (Some m) e)"
proof (cases "eg_source_workers e = []")
  let ?e = "wire_modem_trackers m (Some m) (Some m) (Some m) e"
  have "same_place w (w\<lparr>sw_source_tx_estimator := est, sw_outgoing := with_context t r ps (sw_outgoing w)\<rparr>)" for w est t r ps
    by (simp add: same_place_def context_slots)
  moreover have "worker_placed (Suc m) l i (w\<lparr>sw_source_tx_estimator := if i = m then Some m else sw_source_tx_estimator w,
      sw_outgoing := with_context (Some m) (Some m) ps (sw_outgoing w)\<rparr>)" if "worker_placed m l i w" for i w ps
    using that by (auto simp: worker_placed_def with_context_def less_Suc_eq split: if_splits)
  moreover note wire = wire_one_modem [OF assms(2), of _ "Some m" "Some m" "Some m"]
  ultimately have "rel_option (\<lambda>w w'. same_place w w' \<and> (worker_placed m l i w \<longrightarrow> worker_placed (Suc m) l i w'))
      (eg_source_workers e ! i) (eg_source_workers ?e ! i)" if "i < length (eg_source_workers e)" for i
    using that by (cases "eg_source_workers e ! i") simp_all
  moreover case False
  then have "length (eg_source_workers ?e) = length (eg_source_workers e)" using wire [of 0] by simp
  ultimately show ?thesis using wire_frame [of m "Some m" "Some m" "Some m" e] by (intro engine_sound_workers [OF assms(1)]) simp_all
next
  case True
  have none: "foldl (\<lambda>sws (src, out). with_worker src (set_outgoing_receiver_context out t r) sws) [] refs = []" for t r refs
    by (induction refs) (auto simp: with_worker_def)
  have "eg_source_workers (wire_modem_trackers m (Some m) (Some m) (Some m) e) = []"
    using True none by (simp add: wire_modem_trackers_def with_worker_def)
  with True show ?thesis
    using wire_frame [of m "Some m" "Some m" "Some m" e] by (intro engine_sound_workers [OF assms(1)]) simp_all
qed

lemma length_wire: "length (eg_source_workers (wire_modem_trackers m t est r e)) = length (eg_source_workers e)"
proof -
  have "length (foldl (\<lambda>sws (src, out). with_worker src (set_outgoing_receiver_context out t r) sws) sws refs) = length sws" for sws refs
    by (induction refs arbitrary: sws) (auto simp: with_worker_def split: prod.splits)
  then show ?thesis by (simp add: wire_modem_trackers_def with_worker_def Let_def)
qed

lemma start_io_thread_ok:
  assumes "system_ok s" and "length (si_io_workers s) < length (si_modems s)"
  shows "system_ok (start_io_thread (length (si_io_workers s)) s)"
proof -
  let ?m = "length (si_io_workers s)"
  obtain e where e: "si_engine s = Some e" "engine_sound ?m (length (si_message_event_logs s)) (sim_store s) e"
    by (rule system_engine [OF assms(1)])
  have len: "length (eg_source_workers e) = length (si_modems s)" "length (eg_modems e) = length (si_modems s)"
    "length (eg_receiver_mixes e) = length (si_modems s)" "length (si_buffers s) = length (si_modems s)"
    using assms(1) e(1) by (auto simp: system_ok_def)
  let ?e = "wire_modem_trackers ?m (Some ?m) (Some ?m) (Some ?m) e"
  let ?s = "start_io_thread ?m s"
  have "engine_sound (Suc ?m) (length (si_message_event_logs s)) (sim_store s) ?e"
    using wire_sound [OF e(2)] assms(2) len(2) by simp
  then have "engine_sound (Suc ?m) (length (si_message_event_logs s)) (sim_store ?s) ?e"
    using wire_frame [of ?m "Some ?m" "Some ?m" "Some ?m" e]
    by (intro engine_sound_cong [of "sim_store ?s" "sim_store s"]) (simp_all add: sim_store_def start_io_thread_def Let_def e(1))
  moreover have "io_samples_per_pkt (modem_io_new modem tx_ring rx_ring mix pbs logger metrics) < 2 ^ 64"
    for modem :: "'a modem" and tx_ring rx_ring and mix :: "'b receiver_mix option" and pbs logger metrics
  proof -
    have "unat (samples_per_packet (md_calibration modem)) < 2 ^ 16" using unat_u16 [of "samples_per_packet (md_calibration modem)"] by simp
    then show ?thesis by (simp add: modem_io_new_def Let_def)
  qed
  ultimately show ?thesis
    using assms e(1) len wire_frame [of ?m "Some ?m" "Some ?m" "Some ?m" e] length_wire [of ?m "Some ?m" "Some ?m" "Some ?m" e]
    by (auto simp: system_ok_def start_io_thread_def Let_def)
qed

lemma engine_new_sound:
  assumes "channel_engine_new gs g0 fs scenario modems = Inr e"
    and "\<forall>i < length modems. pc_runtime (modems ! i) = i \<and> pc_tx_ring (modems ! i) = i"
    and "sh_pair_buffers sh = eg_pair_buffers e" and "\<forall>i < length modems. spsc_inv (sh_tx_ring sh i)"
  shows "engine_sound m l sh e \<and> length (eg_source_workers e) = length modems \<and> length (eg_receiver_mixes e) = length modems \<and>
    eg_modems e = modems \<and> length (eg_per_receiver_outgoing_refs e) = length modems \<and> \<not> eg_started e"
proof -
  obtain bcs wi where b: "list_all2 (\<lambda>cc bc. build_channel fs scenario modems cc = Inr bc) (sc_channels scenario) bcs"
    and g: "graph_ok modems (engine_pair_cap scenario modems bcs) bcs wi"
    and e: "eg_modems e = modems" "eg_pair_buffers e = wi_pair_buffers wi" "eg_per_receiver_outgoing_refs e = wi_refs wi"
      "eg_source_workers e = map2 worker_for modems (wi_outgoing wi)" "\<not> eg_started e"
      "eg_receiver_mixes e = map2 (\<lambda>m ks. receiver_mix_new gs g0 ks (pc_noise_cfg m) (pc_calibration m) (pc_sample_rate m)) modems (wi_incoming wi)"
    using engine_of_graph [OF assms(1)] by blast
  have len: "length (eg_source_workers e) = length modems" "length (eg_receiver_mixes e) = length modems" "length (eg_pair_buffers e) = length bcs"
    "length (eg_per_receiver_outgoing_refs e) = length modems"
    using e g by (simp_all add: graph_ok_def)
  have pbs: "list_all pb_ok (eg_pair_buffers e)"
    using g e(2) len(3) pair_buffer_new_facts by (auto simp: list_all_length graph_ok_def)
  have slots: "map og_pair_buffer (map (\<lambda>(k, bc). outgoing_for modems k bc) kbs) = map fst kbs" for kbs
    by (simp add: outgoing_for_def case_prod_unfold)
  have out: "eg_source_workers e ! i = worker_for (modems ! i) (map (\<lambda>(k, bc). outgoing_for modems k bc) (out_of i bcs))"
    if "i < length modems" for i using that e(4) g by (simp add: graph_ok_def)
  have workers: "worker_ok w sh \<and> worker_placed m l i w" if "engine_source_worker i e = Some w" for i w
  proof -
    have i: "i < length modems" "eg_source_workers e ! i = Some w" using engine_worker_range [OF that] len(1) by simp_all
    then have w: "w = source_worker_new (pc_id (modems ! i)) (pc_runtime (modems ! i)) (pc_tx_ring (modems ! i)) (pc_calibration (modems ! i))
        (map (\<lambda>(k, bc). outgoing_for modems k bc) (out_of i bcs))"
      using out by (simp add: worker_for_def split: if_splits)
    have sl: "map og_pair_buffer (sw_outgoing w) = filter (\<lambda>k. bc_src_idx (bcs ! k) = i) [0..<length bcs]"
      by (simp only: w source_worker_new_def Let_def source_worker.select_convs slots map_fst_out_of)
    have "pb_wired (sw_outgoing w) (sh_pair_buffers sh)" unfolding pb_wired_map sl using assms(3) len(3) by simp
    moreover have "0 < sw_raw_buf_size w" unfolding w
      by (simp add: source_worker_new_def Let_def) (rule less_le_trans [OF _ foldl_max_ge(1)], simp add: PROCESSING_BLOCK_SIZE_def)
    ultimately have "worker_ok w sh" using assms(2,4) i(1) w by (simp add: worker_ok_def source_worker_new_def Let_def)
    moreover have "worker_placed m l i w"
      using assms(2) i(1) by (auto simp: w worker_placed_def source_worker_new_def Let_def outgoing_for_def)
    ultimately show ?thesis by simp
  qed
  have mix: "rm_incoming (eg_receiver_mixes e ! j) = filter (\<lambda>k. bc_rcv_idx (bcs ! k) = j) [0..<length bcs]" if "j < length modems" for j
    using that e(6) g by (simp add: graph_ok_def receiver_mix_new_def map_fst_into)
  then have mixes: "mix_fits rm (eg_pair_buffers e)" if "rm \<in> set (eg_receiver_mixes e)" for rm
    using that len(2,3) by (auto simp: in_set_conv_nth mix_fits_def)
  have "exclusive (read_by e)"
    using len(2) mix by (auto simp: exclusive_def read_by_def)
  moreover have "exclusive (written_by e)"
  proof -
    have sub: "bc_src_idx (bcs ! k) = i" if "i < length modems" "k \<in> set (written_by e ! i)" for i k
    proof (cases "eg_source_workers e ! i")
      case (Some w)
      then have "worker_for (modems ! i) (map (\<lambda>(k, bc). outgoing_for modems k bc) (out_of i bcs)) = Some w" using out [OF that(1)] by simp
      from worker_for_outgoing [OF this] have "map og_pair_buffer (sw_outgoing w) = map fst (out_of i bcs)" by (simp only: slots)
      with Some that len(1) show ?thesis by (auto simp: written_by_def map_fst_out_of)
    qed (use that len(1) in \<open>simp add: written_by_def\<close>)
    have "length (written_by e) = length modems" using len(1) by (simp add: written_by_def)
    then show ?thesis unfolding exclusive_def disjoint_iff using sub by metis
  qed
  ultimately show ?thesis using pbs workers mixes len e by (simp add: engine_sound_def)
qed

text \<open>The setters of the engine.\<close>

lemma set_metrics_sound: "engine_sound m l sh e \<Longrightarrow> engine_sound m l sh (engine_set_metrics b e)"
  unfolding engine_set_metrics_def by (rule engine_sound_each) (simp_all add: sw_set_metrics_def same_place_def worker_placed_def)

lemma set_stats_sound: "engine_sound m l sh e \<Longrightarrow> engine_sound m l sh (engine_set_processing_time_stats b us e)"
  unfolding engine_set_processing_time_stats_def
  by (rule engine_sound_each) (simp_all add: sw_set_processing_deadline_us_def sw_set_processing_time_stats_def same_place_def worker_placed_def)

lemma set_logs_sound:
  assumes "engine_sound m l sh e" and "l \<le> l'" and "\<And>i j. i < length logs \<Longrightarrow> logs ! i = Some j \<Longrightarrow> j < l'"
  shows "engine_sound m l' sh (engine_set_message_event_logs logs e)"
proof (rule engine_sound_workers [OF assms(1)])
  fix i assume i: "i < length (eg_source_workers e)"
  have "worker_placed m l' i w" if "worker_placed m l i w" for w
    using that assms(2) unfolding worker_placed_def by (meson less_le_trans)
  moreover have "worker_placed m l' i (sw_set_message_event_log (logs ! i) w)" if "worker_placed m l i w" "i < length logs" for w
    using that assms(3) by (simp add: worker_placed_def sw_set_message_event_log_def)
  moreover have "same_place w w" "same_place w (sw_set_message_event_log v w)" for w v
    by (simp_all add: same_place_def sw_set_message_event_log_def)
  ultimately show "rel_option (\<lambda>w w'. same_place w w' \<and> (worker_placed m l i w \<longrightarrow> worker_placed m l' i w'))
      (eg_source_workers e ! i) (eg_source_workers (engine_set_message_event_logs logs e) ! i)"
    using i by (cases "eg_source_workers e ! i") (simp_all add: engine_set_message_event_logs_def)
qed (simp_all add: engine_set_message_event_logs_def)

definition same_engine :: "'g channel_engine \<Rightarrow> 'g channel_engine \<Rightarrow> bool" where
  "same_engine e e' \<longleftrightarrow> eg_pair_buffers e' = eg_pair_buffers e \<and> length (eg_source_workers e') = length (eg_source_workers e) \<and>
     eg_receiver_mixes e' = eg_receiver_mixes e \<and> eg_modems e' = eg_modems e \<and> eg_started e' = eg_started e \<and>
     eg_per_receiver_outgoing_refs e' = eg_per_receiver_outgoing_refs e"

lemma setters_same:
  "same_engine e (engine_set_metrics b e)" "same_engine e (engine_set_processing_time_stats b us e)"
  "same_engine e (engine_set_message_event_logs logs e)"
  by (simp_all add: same_engine_def engine_set_metrics_def engine_set_processing_time_stats_def engine_set_message_event_logs_def
      each_worker_def)

lemma same_engine_refl: "same_engine e e"
  by (simp add: same_engine_def)

lemma same_engine_trans: "same_engine a b \<Longrightarrow> same_engine b c \<Longrightarrow> same_engine a c"
  by (simp add: same_engine_def)

lemma ring_capacity: "\<exists>rb. spsc_new (0 :: u16) (2 ^ k) = Some rb \<and> spsc_inv rb \<and> spsc_contents rb = []" if "k \<le> 63"
proof -
  have "(2 :: nat) ^ k \<le> 2 ^ 63" using that by (rule power_increasing) simp
  then have "unat ((2 :: u64) ^ k) \<le> 2 ^ 63" using that by (simp add: unat_pow2)
  then obtain k' where "spsc_cap_loop (2 ^ 0) (2 ^ k) = Some (2 ^ k')" using spsc_cap_loop_returns [of "2 ^ k" 0] by auto
  then obtain rb where "spsc_new (0 :: u16) (2 ^ k) = Some rb" by (simp add: spsc_new_def)
  with spsc_new_inv [OF this] show ?thesis by blast
qed

lemma new_rings_ok: "rings_ok modem_buffers_new"
proof -
  have "TX_RING_CAPACITY = 2 ^ 19" "RX_RING_CAPACITY = 2 ^ 16" by (simp_all add: TX_RING_CAPACITY_def RX_RING_CAPACITY_def)
  with ring_capacity [of 19] ring_capacity [of 16] show ?thesis by (auto simp: rings_ok_def modem_buffers_new_def)
qed

text \<open>What initialisation leaves.\<close>

definition initialised :: "('n, 'r, 't, 'g) sim_env \<Rightarrow> ('t, 'g) simulator \<Rightarrow> bool" where
  "initialised env s \<longleftrightarrow> si_buffers s = replicate (length (si_modems s)) modem_buffers_new \<and> si_io_workers s = [] \<and> si_io_threads s = [] \<and>
     si_worker_threads s = [] \<and> si_message_event_logs s = [] \<and> \<not> si_running s \<and> si_written s = [] \<and> si_logger s \<noteq> None \<and>
     (\<exists>e. channel_engine_new (se_gauss env) (se_gauss_init env) (se_files env) (si_scenario s) (sim_contexts (si_scenario s) (si_modems s)) = Inr e \<and>
        si_engine s = Some (engine_set_metrics True e))"

lemma initialize_initialised:
  assumes "initialize env (simulator_new path) = (s, Inr True)"
  shows "initialised env s"
  using assms
  by (auto simp: initialize_def sim_load_scenario_def discover_modems_def build_channel_engine_def simulator_new_def calibrate_modems_def
      initialised_def Let_def split: sum.splits prod.splits load_error.splits bool.splits)

lemma context_indices: "i < length (sim_contexts cfg modems) \<Longrightarrow>
    pc_runtime (sim_contexts cfg modems ! i) = i \<and> pc_tx_ring (sim_contexts cfg modems ! i) = i"
  by (simp add: sim_contexts_def sim_context_def Let_def)

lemma length_contexts [simp]: "length (sim_contexts cfg modems) = length modems"
  by (simp add: sim_contexts_def Let_def)

text \<open>The fields that only initialisation and the shutdown change.\<close>

definition sim_fixed :: "('t, 'g) simulator \<Rightarrow> string \<times> scenario_config \<times> 't list \<times> (string \<times> string) list" where
  "sim_fixed s = (si_scenario_path s, si_scenario s, si_destroyed s, si_written s)"

lemma install_facts:
  fixes env :: "('n, 'r, 't, 'g) sim_env" and s :: "('t, 'g) simulator"
  assumes "si_engine s = Some e0" and "engine_sound 0 0 sh e0" and "si_message_event_logs s = []"
  defines "s1 \<equiv> install_observability env s"
  shows "\<exists>e1. si_engine s1 = Some e1 \<and> same_engine e0 e1 \<and> engine_sound 0 (length (si_message_event_logs s1)) sh e1 \<and>
    si_modems s1 = si_modems s \<and> si_buffers s1 = si_buffers s \<and> si_io_workers s1 = si_io_workers s \<and>
    si_io_threads s1 = si_io_threads s \<and> si_running s1 = si_running s \<and> si_logger s1 = si_logger s \<and> sim_fixed s1 = sim_fixed s"
proof -
  define s2 where "s2 = install_histogram s"
  obtain e2 where e2: "si_engine s2 = Some e2" "same_engine e0 e2" "engine_sound 0 0 sh e2"
    and f: "si_message_event_logs s2 = []" "si_modems s2 = si_modems s" "si_buffers s2 = si_buffers s" "si_io_workers s2 = si_io_workers s"
    "si_io_threads s2 = si_io_threads s" "si_running s2 = si_running s" "si_logger s2 = si_logger s" "sim_fixed s2 = sim_fixed s"
    using assms(1-3) set_stats_sound [OF assms(2)]
    by (cases "lo_log_processing_time_histogram (sc_logging (si_scenario s))")
      (simp_all add: s2_def install_histogram_def sim_fixed_def setters_same(2) same_engine_refl)
  let ?raw = "\<lambda>opened :: (event_log \<times> bool) list. map2 (\<lambda>i (el, ok). if ok then Some i else None) [0..<length opened] opened"
  have raw: "j < length opened" if "i < length (?raw opened)" "?raw opened ! i = Some j" for i j and opened :: "(event_log \<times> bool) list"
    using that by (auto split: if_splits prod.splits)
  have logs: "engine_sound 0 (length opened) sh (engine_set_message_event_logs (?raw opened) e2)" for opened
    by (rule set_logs_sound [OF e2(3)]) (use raw [of _ opened] in auto)
  show ?thesis
    unfolding s1_def install_observability_def s2_def [symmetric]
    using e2 f logs [of "map (\<lambda>m. el_open_file (se_writable env) (events_path (sc_logging (si_scenario s2)) m) event_log_new) (si_modems s2)"]
      same_engine_trans [OF e2(2) setters_same(3)]
    by (auto simp: install_event_logs_def Let_def sim_fixed_def)
qed

lemma enter_all_ids: "enter_all tp ms = (ms', ok) \<Longrightarrow> map md_id ms' = map md_id ms"
  by (induction ms arbitrary: ms' ok)
    (auto simp: Let_def modem_enter_hil_mode_def split: prod.splits sum.splits if_splits)

lemma run_begin_ok:
  assumes "initialised env s" and "run_begin env t0 t1 s = (s1, True)"
  defines "s2 \<equiv> sim_engine_start s1"
  shows "system_ok s2 \<and> si_io_workers s2 = [] \<and> si_io_threads s2 = [] \<and> map md_id (si_modems s2) = map md_id (si_modems s) \<and>
    sim_fixed s2 = sim_fixed s \<and> si_logger s2 = si_logger s \<and> si_running s2 \<and> length (si_modems s1) = length (si_modems s)"
proof -
  let ?s = "s\<lparr>si_running := True, si_run_started_at := t0, si_run_started_steady := t1\<rparr>"
  let ?n = "length (si_modems s)"
  obtain e where e: "channel_engine_new (se_gauss env) (se_gauss_init env) (se_files env) (si_scenario s) (sim_contexts (si_scenario s) (si_modems s)) = Inr e"
    "si_engine ?s = Some (engine_set_metrics True e)"
    and f: "si_buffers s = replicate ?n modem_buffers_new" "si_io_workers s = []" "si_io_threads s = []" "si_message_event_logs ?s = []"
    using assms(1) by (auto simp: initialised_def)
  define sh where "sh = sim_store ?s"
  have sh: "sh_pair_buffers sh = eg_pair_buffers e" "\<forall>i < ?n. spsc_inv (sh_tx_ring sh i)"
    using new_rings_ok setters_same(1) [of e True] e(2) f(1) by (simp_all add: sh_def sim_store_def rings_ok_def same_engine_def)
  note new = engine_new_sound [OF e(1) _ sh(1), of 0 0]
  have n: "engine_sound 0 0 sh e" "length (eg_source_workers e) = ?n" "length (eg_receiver_mixes e) = ?n" "length (eg_modems e) = ?n"
    "length (eg_per_receiver_outgoing_refs e) = ?n" "\<not> eg_started e"
    using new sh(2) by (simp_all add: context_indices)
  obtain e1 where i: "si_engine (install_observability env ?s) = Some e1" "same_engine (engine_set_metrics True e) e1"
    "engine_sound 0 (length (si_message_event_logs (install_observability env ?s))) sh e1"
    "si_modems (install_observability env ?s) = si_modems s" "si_buffers (install_observability env ?s) = si_buffers s"
    "si_io_workers (install_observability env ?s) = []" "si_io_threads (install_observability env ?s) = []"
    "si_running (install_observability env ?s)" "si_logger (install_observability env ?s) = si_logger s"
    "sim_fixed (install_observability env ?s) = sim_fixed s"
    using install_facts [OF e(2) set_metrics_sound [OF n(1)] f(4), of env] f(2,3) by (auto simp: sim_fixed_def)
  have se: "same_engine e e1" by (rule same_engine_trans [OF setters_same(1) i(2)])
  obtain ms where ms: "enter_all (se_transport env) (si_modems s) = (ms, True)" "s1 = (install_observability env ?s)\<lparr>si_modems := ms\<rparr>"
    using assms(2) i(4) by (auto simp: run_begin_def Let_def split: prod.splits if_splits)
  have ids: "map md_id ms = map md_id (si_modems s)" by (rule enter_all_ids [OF ms(1)])
  then have len: "length ms = ?n" by (metis length_map)
  have started: "\<not> eg_started e1" using se n(6) by (simp add: same_engine_def)
  have s2: "s2 = s1\<lparr>si_engine := Some (engine_start e1),
      si_worker_threads := map (\<lambda>sw. case sw of None \<Rightarrow> Ended | Some _ \<Rightarrow> Spawned) (eg_source_workers e1)\<rparr>"
    using started i(1) by (simp add: s2_def sim_engine_start_def ms(2))
  have es: "eg_pair_buffers (engine_start e1) = eg_pair_buffers e1" "eg_source_workers (engine_start e1) = eg_source_workers e1"
    "eg_receiver_mixes (engine_start e1) = eg_receiver_mixes e1" "eg_modems (engine_start e1) = eg_modems e1"
    "eg_per_receiver_outgoing_refs (engine_start e1) = eg_per_receiver_outgoing_refs e1" by (simp_all add: engine_start_def)
  have snd: "engine_sound 0 (length (si_message_event_logs s2)) sh (engine_start e1)"
    using i(3) by (subst engine_sound_same [OF es(1-3)]) (simp add: s2 ms(2))
  have store: "sh_pair_buffers (sim_store s2) = sh_pair_buffers sh" "sh_tx_ring (sim_store s2) = sh_tx_ring sh"
    using se by (simp_all add: sh(1) s2 ms(2) i(5) es same_engine_def) (simp_all add: sim_store_def sh_def i(5) es same_engine_def)
  have "engine_sound 0 (length (si_message_event_logs s2)) (sim_store s2) (engine_start e1)"
    by (rule engine_sound_cong [OF _ _ snd]) (simp_all add: store)
  moreover have "list_all rings_ok (si_buffers s)" using new_rings_ok f(1) by (simp add: list_all_length)
  ultimately show ?thesis
    using n(2-5) se i len ids f(1) by (simp add: system_ok_def s2 ms(2) es same_engine_def sim_fixed_def)
qed

section \<open>Every state of a run\<close>

text \<open>The states between the start of the threads and the last join, with the threads' turns in any order.\<close>

inductive reachable :: "('n, 'r, 't, 'g) sim_env \<Rightarrow> string \<Rightarrow> ('t, 'g) simulator \<Rightarrow> bool" for env path where
  reach_begin: "initialize env (simulator_new path) = (s, Inr True) \<Longrightarrow> run_begin env t0 t1 s = (s1, True) \<Longrightarrow>
    reachable env path (sim_engine_start s1)"
| reach_spawn: "reachable env path s \<Longrightarrow> length (si_io_workers s) < length (si_modems s) \<Longrightarrow>
    reachable env path (start_io_thread (length (si_io_workers s)) s)"
| reach_act: "reachable env path s \<Longrightarrow> sim_act env a s = ret s' \<Longrightarrow> reachable env path s'"
| reach_second: "reachable env path s \<Longrightarrow> reachable env path (s\<lparr>si_metrics := metrics_reset (si_metrics s)\<rparr>)"
| reach_join: "reachable env path s \<Longrightarrow> all_ended (si_io_threads s) \<Longrightarrow> reachable env path (s\<lparr>si_io_threads := []\<rparr>)"
| reach_request: "reachable env path s \<Longrightarrow> reachable env path (s\<lparr>si_engine := map_option engine_request_stop (si_engine s)\<rparr>)"
| reach_stop_join: "reachable env path s \<Longrightarrow> reachable env path (sim_stop_join s)"

lemma reachable_ok: "reachable env path s \<Longrightarrow> system_ok s"
proof (induction rule: reachable.induct)
  case (reach_begin s t0 t1 s1)
  then show ?case using run_begin_ok [OF initialize_initialised] by blast
next
  case (reach_spawn s)
  then show ?case using start_io_thread_ok by blast
next
  case (reach_act s a s')
  then show ?case using sim_act_ok by blast
next
  case (reach_second s)
  then obtain e where e: "si_engine s = Some e" "engine_sound (length (si_io_workers s)) (length (si_message_event_logs s)) (sim_store s) e"
    by (elim system_engine)
  let ?s = "s\<lparr>si_metrics := metrics_reset (si_metrics s)\<rparr>"
  have "engine_sound (length (si_io_workers s)) (length (si_message_event_logs s)) (sim_store ?s) e"
    by (rule engine_sound_cong [OF _ _ e(2)]) (simp_all add: sim_store_def)
  with reach_second.IH e(1) show ?case by (auto simp: system_ok_def)
next
  case (reach_join s)
  then show ?case by (simp add: system_ok_def)
next
  case (reach_request s)
  then show ?case using request_ok by blast
next
  case (reach_stop_join s)
  then show ?case using stop_join_ok by blast
qed

text \<open>\<open>run\<close> goes through reachable states only.\<close>

lemma acts_reachable: "reachable env path s \<Longrightarrow> sim_acts env as s = ret s' \<Longrightarrow> reachable env path s'"
  by (induction as arbitrary: s) (auto simp: and_then_eq_ret intro: reach_act)

lemma metrics_loop_reachable: "metrics_loop env seconds s = ret s' \<Longrightarrow> reachable env path s \<Longrightarrow> reachable env path s' \<and> \<not> si_running s'"
proof (induction env seconds s rule: metrics_loop.induct)
  case (2 env acts seconds s)
  show ?case
  proof (cases "si_running s")
    case True
    with "2.prems" obtain s1 where s1: "sim_acts env acts s = ret s1"
      "(if \<not> si_running s1 then ret s1 else metrics_loop env seconds (s1\<lparr>si_metrics := metrics_reset (si_metrics s1)\<rparr>)) = ret s'"
      by (auto simp: and_then_eq_ret)
    have r: "reachable env path s1" by (rule acts_reachable [OF "2.prems"(2) s1(1)])
    show ?thesis
    proof (cases "si_running s1")
      case run: True
      with s1(2) have "metrics_loop env seconds (s1\<lparr>si_metrics := metrics_reset (si_metrics s1)\<rparr>) = ret s'" by simp
      from "2.IH" [of s1] True run s1 this reach_second [OF r] show ?thesis by simp
    qed (use s1 r in simp)
  qed (use "2.prems" in simp)
qed (auto split: if_splits)

lemma act_frame:
  assumes "sim_act env a s = ret s'"
  shows "length (si_io_workers s') = length (si_io_workers s) \<and> length (si_modems s') = length (si_modems s)"
  using assms
  by (auto simp: sim_act_def io_begin_def io_turn_def worker_begin_def worker_turn_def put_io_fields put_worker_fields sim_stop_def
      sim_stop_join_def and_then_eq_ret split: sim_act.splits if_splits thread.splits option.splits)

lemma acts_frame: "sim_acts env as s = ret s' \<Longrightarrow>
    length (si_io_workers s') = length (si_io_workers s) \<and> length (si_modems s') = length (si_modems s)"
  by (induction as arbitrary: s) (auto simp: and_then_eq_ret dest: act_frame)

lemma start_threads_reachable:
  "start_io_threads env spawn [k..<n] s = ret s' \<Longrightarrow> reachable env path s \<Longrightarrow> length (si_io_workers s) = k \<Longrightarrow> n = length (si_modems s) \<Longrightarrow> k \<le> n \<Longrightarrow>
    reachable env path s' \<and> length (si_io_workers s') = n \<and> length (si_modems s') = n"
proof (induction "n - k" arbitrary: k s)
  case (Suc d)
  then have k: "k < n" by simp
  with Suc.prems(1) obtain s1 where s1: "sim_acts env (spawn k) (start_io_thread k s) = ret s1" "start_io_threads env spawn [Suc k..<n] s1 = ret s'"
    by (auto simp: upt_conv_Cons and_then_eq_ret)
  have r: "reachable env path (start_io_thread k s)" using reach_spawn [OF Suc.prems(2)] k Suc.prems(3,4) by simp
  have len: "length (si_io_workers (start_io_thread k s)) = Suc k" "length (si_modems (start_io_thread k s)) = n"
    using Suc.prems(3,4) by (simp_all add: start_io_thread_def Let_def)
  show ?case
    by (rule Suc.hyps(1) [OF _ s1(2) acts_reachable [OF r s1(1)]]) (use acts_frame [OF s1(1)] len k Suc.hyps(2) in simp_all)
qed simp

lemma join_reachable: "join_all_threads env acts s = ret s' \<Longrightarrow> reachable env path s \<Longrightarrow> reachable env path s' \<and> si_io_threads s' = []"
  by (auto simp: join_all_threads_def and_then_eq_ret intro: reach_join acts_reachable split: if_splits)

lemma engine_stop_reachable: "sim_engine_stop env acts s = ret s' \<Longrightarrow> reachable env path s \<Longrightarrow> reachable env path s'"
  by (auto simp: sim_engine_stop_def and_then_eq_ret intro: reach_stop_join reach_request acts_reachable split: if_splits)

lemma run_threads_reachable:
  assumes "initialize env (simulator_new path) = (s, Inr True)" and "run_begin env (ss_started_at sched) (ss_started_steady sched) s = (s1, True)"
    and "start_io_threads env (ss_spawn sched) [0..<length (si_modems s1)] (sim_engine_start s1) = ret s2"
    and "run_threads env sched s2 = ret s3"
  shows "reachable env path s2 \<and> reachable env path s3"
proof -
  note b = run_begin_ok [OF initialize_initialised [OF assms(1)] assms(2)]
  have "length (si_modems (sim_engine_start s1)) = length (si_modems s1)" using b by (metis length_map)
  then have r2: "reachable env path s2"
    using start_threads_reachable [OF assms(3) reach_begin [OF assms(1,2)]] b by simp
  with assms(4) show ?thesis
    by (auto simp: run_threads_def and_then_eq_ret dest!: metrics_loop_reachable join_reachable engine_stop_reachable)
qed

end
