(* ===== verification/Simulator_Shutdown.thy ===== *)
theory Simulator_Shutdown
  imports System_Invariant
begin

text \<open>
  How a run begins and ends: what initialisation leaves when it fails and when it succeeds, that a stop ends
  the threads, and what the program leaves behind when \<open>run\<close> has returned, to its end or because a modem
  refused HIL mode.
\<close>

section \<open>What no step of a thread changes\<close>

lemma io_iteration_id: "md_id (io_modem (io_iteration env n io)) = md_id (io_modem io)"
  using kept_io_iteration [of io env n] by (simp add: io_kept_def io_fixed_def)

text \<open>The two sides of a step: constants, and flags that only fall.\<close>

definition act_kept :: "('t, 'g) simulator \<Rightarrow> ('t, 'g) simulator \<Rightarrow> bool" where
  "act_kept s s' \<longleftrightarrow> sim_fixed s' = sim_fixed s \<and> map md_id (si_modems s') = map md_id (si_modems s) \<and>
     (si_logger s' = None \<longleftrightarrow> si_logger s = None) \<and> length (si_io_threads s') = length (si_io_threads s) \<and>
     length (si_worker_threads s') = length (si_worker_threads s) \<and>
     (si_running s' \<longrightarrow> si_running s) \<and> (engine_running s' \<longrightarrow> engine_running s)"

lemma act_kept_refl: "act_kept s s"
  by (simp add: act_kept_def)

lemma act_kept_trans: "act_kept a b \<Longrightarrow> act_kept b c \<Longrightarrow> act_kept a c"
  by (auto simp: act_kept_def)

lemma put_worker_kept: "act_kept s ((put_worker i w sh s)\<lparr>si_worker_threads := (si_worker_threads s)[i := th]\<rparr>)"
  by (cases "si_engine s") (simp_all add: act_kept_def put_worker_def sim_fixed_def engine_running_def)

lemma io_turn_kept: "act_kept s (io_turn env i n s)"
proof (cases "io_running (si_io_workers s ! i)")
  case True
  let ?io = "io_iteration (io_env_of env i) n (io_view i s)"
  have "md_id (io_modem ?io) = md_id (si_modems s ! i)" by (simp add: io_iteration_id io_view_def)
  then have "map md_id ((si_modems s)[i := io_modem ?io]) = map md_id (si_modems s)"
    by (cases "i < length (si_modems s)") (auto intro!: nth_equalityI simp: nth_list_update)
  with True show ?thesis
    by (cases "si_engine s") (simp_all add: act_kept_def io_turn_def put_io_def sim_fixed_def engine_running_def put_mix_def)
qed (simp add: io_turn_def act_kept_def sim_fixed_def engine_running_def)

lemma sim_act_kept:
  assumes "sim_act env a s = ret s'"
  shows "act_kept s s'"
proof (cases a)
  case (Io_Begin i)
  with assms show ?thesis
    by (auto simp: sim_act_def act_kept_refl io_begin_def act_kept_def sim_fixed_def engine_running_def split: if_splits)
next
  case (Io_Turn i)
  with assms io_turn_kept [of s env i] show ?thesis by (auto simp: sim_act_def act_kept_refl split: if_splits thread.splits)
next
  case (Worker_Begin i)
  with assms put_worker_kept show ?thesis
    by (auto simp: sim_act_def act_kept_refl worker_begin_def split: if_splits option.splits)
next
  case (Worker_Turn i)
  with assms put_worker_kept [of s i] show ?thesis
    by (auto simp: sim_act_def act_kept_refl worker_turn_def and_then_eq_ret split: if_splits option.splits thread.splits)
next
  case Stop_Request
  with assms show ?thesis
    by (cases "si_engine s") (auto simp: sim_act_def sim_stop_def act_kept_def sim_fixed_def engine_running_def request_fields split: if_splits)
next
  case Stop_Join
  with assms show ?thesis
    by (cases "si_engine s")
      (auto simp: sim_act_def sim_stop_join_def act_kept_def sim_fixed_def engine_running_def request_fields split: if_splits)
qed

lemma sim_acts_kept: "sim_acts env as s = ret s' \<Longrightarrow> act_kept s s'"
proof (induction as arbitrary: s)
  case (Cons a as)
  then obtain s1 where "sim_act env a s = ret s1" "sim_acts env as s1 = ret s'" by (auto simp: and_then_eq_ret)
  with Cons.IH sim_act_kept act_kept_trans show ?case by blast
qed (simp add: act_kept_refl)

text \<open>The same for the parts of \<open>run\<close> that consist of such steps.\<close>

definition run_kept :: "('t, 'g) simulator \<Rightarrow> ('t, 'g) simulator \<Rightarrow> bool" where
  "run_kept s s' \<longleftrightarrow> sim_fixed s' = sim_fixed s \<and> map md_id (si_modems s') = map md_id (si_modems s) \<and>
     (si_logger s' = None \<longleftrightarrow> si_logger s = None) \<and> (si_running s' \<longrightarrow> si_running s) \<and> (engine_running s' \<longrightarrow> engine_running s)"

lemma run_kept_trans: "run_kept a b \<Longrightarrow> run_kept b c \<Longrightarrow> run_kept a c"
  by (auto simp: run_kept_def)

lemma acts_run_kept: "sim_acts env as s = ret s' \<Longrightarrow> run_kept s s'"
  using sim_acts_kept by (auto simp: act_kept_def run_kept_def)

lemma start_threads_kept: "start_io_threads env spawn is s = ret s' \<Longrightarrow> run_kept s s'"
proof (induction env spawn "is" s rule: start_io_threads.induct)
  case (2 env spawn i "is" s)
  then obtain s1 where s1: "sim_acts env (spawn i) (start_io_thread i s) = ret s1" "start_io_threads env spawn is s1 = ret s'"
    by (auto simp: and_then_eq_ret)
  have "run_kept s (start_io_thread i s)"
    by (cases "si_engine s")
      (simp_all add: run_kept_def start_io_thread_def Let_def sim_fixed_def engine_running_def wire_modem_trackers_def)
  with s1 2(1) acts_run_kept run_kept_trans show ?case by blast
qed (simp add: run_kept_def)

lemma metrics_loop_kept: "metrics_loop env seconds s = ret s' \<Longrightarrow> run_kept s s' \<and> \<not> si_running s'"
proof (induction env seconds s rule: metrics_loop.induct)
  case (2 env acts seconds s)
  show ?case
  proof (cases "si_running s")
    case True
    with "2.prems" obtain s1 where s1: "sim_acts env acts s = ret s1"
      "(if \<not> si_running s1 then ret s1 else metrics_loop env seconds (s1\<lparr>si_metrics := metrics_reset (si_metrics s1)\<rparr>)) = ret s'"
      by (auto simp: and_then_eq_ret)
    have k: "run_kept s s1" by (rule acts_run_kept [OF s1(1)])
    show ?thesis
    proof (cases "si_running s1")
      case run: True
      let ?s = "s1\<lparr>si_metrics := metrics_reset (si_metrics s1)\<rparr>"
      from run s1(2) have "metrics_loop env seconds ?s = ret s'" by simp
      from "2.IH" [of s1] True run s1(1) this have "run_kept ?s s' \<and> \<not> si_running s'" by simp
      moreover have "run_kept s1 ?s" by (simp add: run_kept_def sim_fixed_def engine_running_def)
      ultimately show ?thesis using k run_kept_trans by blast
    qed (use s1 k in simp)
  qed (use "2.prems" in \<open>simp add: run_kept_def\<close>)
qed (auto simp: run_kept_def split: if_splits)

lemma run_threads_kept:
  assumes "run_threads env sched s = ret s'"
  shows "run_kept s s' \<and> \<not> si_running s' \<and> \<not> engine_running s' \<and> si_io_threads s' = []"
proof -
  obtain s1 s2 where s1: "metrics_loop env (ss_seconds sched) s = ret s1" and s2: "join_all_threads env (ss_join sched) s1 = ret s2"
    and s3: "sim_engine_stop env (ss_drain sched) s2 = ret s'"
    using assms by (auto simp: run_threads_def and_then_eq_ret)
  obtain s2a where a: "sim_acts env (ss_join sched) s1 = ret s2a" "s2 = s2a\<lparr>si_io_threads := []\<rparr>"
    using s2 by (auto simp: join_all_threads_def and_then_eq_ret split: if_splits)
  have k2: "run_kept s1 s2" "si_io_threads s2 = []"
    using acts_run_kept [OF a(1)] by (simp_all add: a(2) run_kept_def sim_fixed_def engine_running_def)
  have k3: "run_kept s2 s' \<and> \<not> engine_running s' \<and> si_io_threads s' = []"
  proof (cases "engine_running s2")
    case True
    let ?r = "s2\<lparr>si_engine := map_option engine_request_stop (si_engine s2)\<rparr>"
    obtain s3a where a: "sim_acts env (ss_drain sched) ?r = ret s3a" "s' = sim_stop_join s3a"
      using s3 True by (auto simp: sim_engine_stop_def and_then_eq_ret split: if_splits)
    have r: "\<not> engine_running ?r" "run_kept s2 ?r"
      using True by (auto simp: engine_running_def request_fields run_kept_def sim_fixed_def split: option.splits)
    have "run_kept s3a s'" "engine_running s' = engine_running s3a" "si_io_threads s' = si_io_threads s3a"
      by (cases "si_engine s3a"; simp add: a(2) sim_stop_join_def run_kept_def sim_fixed_def engine_running_def request_fields)+
    moreover have "si_io_threads s3a = []" using sim_acts_kept [OF a(1)] k2(2) by (simp add: act_kept_def)
    moreover have "run_kept ?r s3a" by (rule acts_run_kept [OF a(1)])
    moreover have "\<not> engine_running s3a" using acts_run_kept [OF a(1)] r(1) by (auto simp: run_kept_def)
    ultimately show ?thesis using r(2) by (auto intro: run_kept_trans)
  next
    case False
    then have "sim_acts env (ss_drain sched) s2 = ret s'" using s3 by (simp add: sim_engine_stop_def)
    with sim_acts_kept [OF this] k2(2) False show ?thesis by (auto simp: act_kept_def run_kept_def)
  qed
  have k1: "run_kept s s1" "\<not> si_running s1" using metrics_loop_kept [OF s1] by simp_all
  from k1 k2 k3 show ?thesis by (auto simp: run_kept_def)
qed

section \<open>The end of a run\<close>

lemma closed_log: "\<not> el_open (el_close l)"
  by (simp add: el_close_def)

lemma no_open_logs: "filter el_open (map el_close ls) = []"
  by (simp add: filter_empty_conv closed_log)

lemma exit_hil_id: "md_id (modem_exit_hil_mode tp m) = md_id m"
  by (simp add: modem_exit_hil_mode_def)

lemma run_end_facts:
  fixes env :: "('n, 'r, 't, 'g) sim_env" and s :: "('t, 'g) simulator" and ended_at :: nat and ended_steady :: host_time
  assumes "\<not> si_running s" and "\<not> engine_running s" and "si_io_threads s = []"
  defines "s' \<equiv> run_end env ended_at ended_steady s"
  shows "\<not> si_running s' \<and> \<not> engine_running s' \<and> si_io_threads s' = [] \<and> (si_logger s' = None \<longleftrightarrow> si_logger s = None) \<and>
    (\<forall>l. si_logger s' = Some l \<longrightarrow> sl_finalized l) \<and> list_all (\<lambda>l. \<not> el_open l) (si_message_event_logs s') \<and>
    si_modems s' = map (modem_exit_hil_mode (se_transport env)) (si_modems s) \<and> map md_id (si_modems s') = map md_id (si_modems s) \<and>
    si_scenario_path s' = si_scenario_path s \<and> si_scenario s' = si_scenario s \<and> si_metrics s' = si_metrics s \<and>
    si_written s' = si_written s @
      (if run_summary_enabled (sc_logging (si_scenario s)) \<and> se_writable env (resolve_run_summary_path (si_scenario s))
       then [(resolve_run_summary_path (si_scenario s), serialize_run_summary (se_dump env) (run_summary_of ended_at ended_steady s'))] else [])"
proof -
  let ?s = "s\<lparr>si_modems := map (modem_exit_hil_mode (se_transport env)) (si_modems s), si_logger := map_option logger_finalize (si_logger s),
    si_message_event_logs := map el_close (si_message_event_logs s)\<rparr>"
  have e: "s' = emit_run_summary env ended_at ended_steady ?s" by (simp add: s'_def run_end_def Let_def)
  have r: "run_summary_of ended_at ended_steady (?s\<lparr>si_written := ws\<rparr>) = run_summary_of ended_at ended_steady ?s" for ws
    by (simp add: run_summary_of_def)
  have f: "sl_finalized (logger_finalize l)" for l by (simp add: logger_finalize_def)
  show ?thesis
    using assms(1-3) r unfolding e
    by (auto simp: emit_run_summary_def write_run_summary_json_def engine_running_def exit_hil_id list_all_iff closed_log f)
qed

text \<open>What \<open>run\<close> leaves when all modems entered HIL mode and it has returned.\<close>

lemma run_shutdown:
  fixes path :: string and s' :: "('t, 'g) simulator" and sched :: sim_sched
  assumes "initialize env (simulator_new path) = (s, Inr True)"
    and "run_begin env (ss_started_at sched) (ss_started_steady sched) s = (s1, True)" and "sim_run env sched s = ret s'"
  defines "summary \<equiv> run_summary_of (ss_ended_at sched) (ss_ended_steady sched) s'"
  shows "\<not> si_running s' \<and> \<not> engine_running s' \<and> si_io_threads s' = [] \<and>
    (\<exists>l. si_logger s' = Some l \<and> sl_finalized l) \<and> list_all (\<lambda>l. \<not> el_open l) (si_message_event_logs s') \<and>
    si_scenario_path s' = si_scenario_path s \<and> si_scenario s' = si_scenario s \<and>
    (\<exists>ms. si_modems s' = map (modem_exit_hil_mode (se_transport env)) ms) \<and> map md_id (si_modems s') = map md_id (si_modems s) \<and>
    si_written s' = (if run_summary_enabled (sc_logging (si_scenario s)) \<and> se_writable env (resolve_run_summary_path (si_scenario s))
      then [(resolve_run_summary_path (si_scenario s), serialize_run_summary (se_dump env) summary)] else []) \<and>
    su_modems summary = map md_id (si_modems s) \<and> su_channel_engine summary = snapshot_engine_counters (si_metrics s') \<and> su_log_events summary = []"
proof -
  obtain s2 s3 where s2: "start_io_threads env (ss_spawn sched) [0..<length (si_modems s1)] (sim_engine_start s1) = ret s2"
    and s3: "run_threads env sched s2 = ret s3" and s': "s' = run_end env (ss_ended_at sched) (ss_ended_steady sched) s3"
    using assms(2,3) by (auto simp: sim_run_def and_then_eq_ret)
  note init = initialize_initialised [OF assms(1)]
  note b = run_begin_ok [OF init assms(2)]
  have k: "run_kept (sim_engine_start s1) s3" "\<not> si_running s3" "\<not> engine_running s3" "si_io_threads s3 = []"
    using start_threads_kept [OF s2] run_threads_kept [OF s3] run_kept_trans by blast+
  then have fx: "sim_fixed s3 = sim_fixed s" "map md_id (si_modems s3) = map md_id (si_modems s)" "si_logger s3 \<noteq> None"
    using b init by (auto simp: run_kept_def initialised_def)
  have "si_written s = []" using init by (simp add: initialised_def)
  with fx run_end_facts [OF k(2-4), of env "ss_ended_at sched" "ss_ended_steady sched", folded s'] show ?thesis
    by (auto simp: sim_fixed_def summary_def run_summary_of_def filter_empty_conv list_all_iff)
qed

section \<open>A refused start\<close>

lemma setters_started:
  "eg_started (engine_set_metrics b e) = eg_started e" "eg_started (engine_set_processing_time_stats b us e) = eg_started e"
  "eg_started (engine_set_message_event_logs logs e) = eg_started e"
  using setters_same [of e] by (simp_all add: same_engine_def)

text \<open>A modem that entered HIL mode, taken to be in RX.\<close>

definition entered_hil :: "'t transport \<Rightarrow> 't modem \<Rightarrow> 't modem" where
  "entered_hil tp m = (let m' = fst (modem_enter_hil_mode tp m) in m'\<lparr>md_runtime_state := (md_runtime_state m')\<lparr>rt_state := ST_RX\<rparr>\<rparr>)"

lemma enter_all_accepted: "snd (enter_all tp ms) \<longleftrightarrow> (\<forall>m \<in> set ms. \<not> isl (snd (modem_enter_hil_mode tp m)))"
  by (induction ms) (auto simp: Let_def split: prod.split sum.split)

lemma enter_all_refused:
  assumes "enter_all tp ms = (ms', False)"
  shows "\<exists>k < length ms. (\<forall>i < k. \<not> isl (snd (modem_enter_hil_mode tp (ms ! i)))) \<and> isl (snd (modem_enter_hil_mode tp (ms ! k))) \<and>
    ms' = map (entered_hil tp) (take k ms) @ fst (modem_enter_hil_mode tp (ms ! k)) # drop (Suc k) ms"
  using assms
proof (induction ms arbitrary: ms')
  case (Cons m ms)
  obtain m' r where m: "modem_enter_hil_mode tp m = (m', r)" by fastforce
  show ?case
  proof (cases r)
    case (Inl e)
    with Cons.prems m show ?thesis by (intro exI [of _ 0]) simp
  next
    case (Inr u)
    obtain ms1 where ms1: "enter_all tp ms = (ms1, False)" "ms' = entered_hil tp m # ms1"
      using Cons.prems m Inr by (auto simp: Let_def entered_hil_def split: prod.splits)
    from Cons.IH [OF ms1(1)] obtain k where k: "k < length ms" "\<forall>i < k. \<not> isl (snd (modem_enter_hil_mode tp (ms ! i)))"
      "isl (snd (modem_enter_hil_mode tp (ms ! k)))"
      "ms1 = map (entered_hil tp) (take k ms) @ fst (modem_enter_hil_mode tp (ms ! k)) # drop (Suc k) ms" by blast
    then show ?thesis using m Inr ms1(2) by (intro exI [of _ "Suc k"]) (auto simp: less_Suc_eq_0_disj)
  qed
qed simp

text \<open>What \<open>run\<close> leaves when a modem refuses HIL mode: it is over before a thread was started, the logs are
  left as they were opened and nothing is written.\<close>

lemma run_refused:
  assumes "initialize env (simulator_new path) = (s, Inr True)" and "\<exists>m \<in> set (si_modems s). isl (snd (modem_enter_hil_mode (se_transport env) m))"
  shows "\<exists>s' ms'. sim_run env sched s = ret s' \<and> enter_all (se_transport env) (si_modems s) = (ms', False) \<and> si_modems s' = ms' \<and>
    \<not> si_running s' \<and> \<not> engine_running s' \<and> si_io_threads s' = [] \<and> si_worker_threads s' = [] \<and> si_scenario s' = si_scenario s \<and>
    si_logger s' = si_logger s \<and> si_written s' = [] \<and>
    map el_open (si_message_event_logs s') = (let cfg = sc_logging (si_scenario s)
      in if lo_log_message_events cfg then map (\<lambda>m. se_writable env (events_path cfg m)) (si_modems s) else [])"
proof -
  have init: "si_io_threads s = []" "si_worker_threads s = []" "si_message_event_logs s = []" "si_written s = []"
    using initialize_initialised [OF assms(1)] by (simp_all add: initialised_def)
  obtain e where e: "channel_engine_new (se_gauss env) (se_gauss_init env) (se_files env) (si_scenario s) (sim_contexts (si_scenario s) (si_modems s)) = Inr e"
    "si_engine s = Some (engine_set_metrics True e)"
    using initialize_initialised [OF assms(1)] by (auto simp: initialised_def)
  have "\<not> eg_started (engine_set_metrics True e)"
    using engine_of_graph [OF e(1)] setters_same(1) [of e True] by (auto simp: same_engine_def)
  then have off: "\<not> engine_running s" using e(2) by (simp add: engine_running_def)
  let ?s = "install_observability env (s\<lparr>si_running := True, si_run_started_at := ss_started_at sched, si_run_started_steady := ss_started_steady sched\<rparr>)"
  obtain ms' where ms': "enter_all (se_transport env) (si_modems s) = (ms', False)"
    using assms(2) enter_all_accepted [of "se_transport env" "si_modems s"] by (metis (full_types) prod.collapse)
  have f: "si_modems ?s = si_modems s" "engine_running ?s = engine_running s" "si_io_threads ?s = []" "si_worker_threads ?s = []"
    "si_scenario ?s = si_scenario s" "si_logger ?s = si_logger s" "si_written ?s = []"
    "map el_open (si_message_event_logs ?s) = (let cfg = sc_logging (si_scenario s)
      in if lo_log_message_events cfg then map (\<lambda>m. se_writable env (events_path cfg m)) (si_modems s) else [])"
    using init e(2)
    by (simp_all add: setters_started install_observability_def install_event_logs_def install_histogram_def Let_def engine_running_def el_open_file_def comp_def)
  let ?s' = "sim_stop_join (sim_stop (?s\<lparr>si_modems := ms'\<rparr>))"
  have "sim_run env sched s = ret ?s'" using ms' f(1) by (simp add: sim_run_def run_begin_def Let_def)
  moreover have "\<not> engine_running ?s'" using off f(2)
    by (auto simp: engine_running_def sim_stop_join_def sim_stop_def engine_join_def split: option.splits if_splits)
  ultimately show ?thesis
    using ms' f by (intro exI [of _ ?s'] exI [of _ ms']) (simp add: sim_stop_join_def sim_stop_def)
qed

end
