(* ===== verification/Small_System.thy ===== *)
theory Small_System
  imports Simulator_Run
begin

text \<open>
  A small complete system: two mock modems, a replay channel from the first to the second and a log of the
  messages. It initialises and its modems enter HIL mode, so the statements about runs apply to it.
\<close>

section \<open>The scenario file\<close>

definition pair_link :: node where
  "pair_link = Obj [(''from'', Str ''a''), (''to'', Str ''b''), (''mode'', Str ''replay''),
     (''replay'', Obj [(''trajectory_file'', Str ''/r'')])]"

definition pair_modem :: "string \<Rightarrow> string \<Rightarrow> modem_config" where
  "pair_modem i s = small_modem\<lparr>mo_id := i, mo_usb_serial := s\<rparr>"

definition pair_node :: "string \<Rightarrow> string \<Rightarrow> node" where
  "pair_node i s = Obj [(''id'', Str i), (''usb_serial'', Str s), (''transducer_id'', Str ''d'')]"

definition pair_doc :: node where
  "pair_doc = Obj [(''name'', Str ''t''), (''transducers'', Obj [(''d'', Obj [(''tvr_db'', Num 0), (''rvr_db'', Num 0)])]),
     (''modems'', Arr [pair_node ''a'' ''s1'', pair_node ''b'' ''s2'']), (''channels'', Arr [pair_link]),
     (''logging'', Obj [(''log_message_events'', Str ''true'')])]"

definition pair_modems :: "modem_config list" where
  "pair_modems = [pair_modem ''a'' ''s1'', pair_modem ''b'' ''s2'']"

lemma pair_parse_modems: "parse_modems nodes src [''d'' \<mapsto> t] [] 0 [pair_node ''a'' ''s1'', pair_node ''b'' ''s2''] = Inr pair_modems"
  by (simp add: parse_modem_def nodes_simps present absent Let_def small_modem_def pair_modems_def pair_modem_def pair_node_def)

lemma pair_peek: "peek_header (\<lambda>_. Some tiny_octt) path = Inr tiny_header"
  by (simp add: peek_header_def open_binary_def tiny_header_reads)

definition on_pair :: "channel_config \<Rightarrow> bool" where
  "on_pair c \<longleftrightarrow> ch_from_modem c = ''a'' \<and> ch_to_modem c = ''b'' \<and> ch_mode c = Mode_Replay"

lemma pair_parse_channel:
  "\<exists>c. parse_channels nodes (\<lambda>_. Some tiny_octt) dir src default_environment pair_modems 0 [pair_link] = Inr [c] \<and> on_pair c"
proof -
  let ?r = "Obj [(''trajectory_file'', Str ''/r'')]"
  have f: "chain (channel_fields nodes e pair_link) c = Inr (c\<lparr>ch_mode := Mode_Replay\<rparr>)" if "ch_range_m c = 150" for c e
    using that by (simp add: pair_link_def channel_fields_def absent present reject_def set_checked_def child_Obj mode_of_def nodes_simps)
  have r: "chain (replay_fields nodes (\<lambda>_. Some tiny_octt) e ?r) rp = Inr rp" for e rp
    by (simp add: replay_fields_def absent check_trajectory_Inr pair_peek)
  have p: "\<exists>rp. parse_replay nodes (\<lambda>_. Some tiny_octt) d e pair_link c = Inr (c\<lparr>ch_replay := rp\<rparr>)" for c d e
    by (rule exI [of _ "default_replay\<lparr>rp_trajectory_path := resolve_path d ''/r''\<rparr>"])
      (simp add: pair_link_def parse_replay_def present absent nodes_simps r)
  have fin: "\<exists>c'. finish_channel nodes (\<lambda>_. Some tiny_octt) dir src default_environment pair_modems 0 pair_link c = Inr c' \<and> on_pair c'"
    if "on_pair c" for c
  proof -
    obtain rp where "parse_replay nodes (\<lambda>_. Some tiny_octt) dir (Scenario_Load_Error src (At_Channel 0)) pair_link c = Inr (c\<lparr>ch_replay := rp\<rparr>)"
      using p by blast
    then show ?thesis
      using that
      by (simp add: finish_channel_def on_pair_def Let_def find_modem_def pair_modems_def pair_modem_def small_modem_def inherit_def
          relative_clock_def static_taps_def)
  qed
  have ids: "map mo_id pair_modems = [''a'', ''b'']" by (simp add: pair_modems_def pair_modem_def)
  let ?c = "default_channel\<lparr>ch_from_modem := ''a'', ch_to_modem := ''b'', ch_mode := Mode_Replay\<rparr>"
  obtain c where c: "finish_channel nodes (\<lambda>_. Some tiny_octt) dir src default_environment pair_modems 0 pair_link ?c = Inr c" "on_pair c"
    using fin [of ?c] by (auto simp: on_pair_def)
  have "parse_channel nodes (\<lambda>_. Some tiny_octt) dir src default_environment pair_modems 0 pair_link = Inr c"
    using c(1) ids
    by (simp add: parse_channel_def pair_link_def [THEN arg_cong, of "\<lambda>n. required nodes n k e" for k e] present nodes_simps Let_def f default_channel_def)
  with c(2) show ?thesis by simp
qed

lemma pair_loads: "\<exists>cfg c. parse_scenario nodes quiet (\<lambda>_. Some tiny_octt) pair_doc src dir = Inr cfg \<and> sc_modems cfg = pair_modems \<and>
    sc_channels cfg = [c] \<and> on_pair c \<and> sc_environment cfg = default_environment \<and> lo_log_message_events (sc_logging cfg)"
proof -
  have one: "sample_offsets quiet pair_modems g = pair_modems" for g
    by (simp add: draw_truncated_normal_ppm_def small_modem_def pair_modems_def pair_modem_def)
  obtain c where c: "parse_channels nodes (\<lambda>_. Some tiny_octt) dir src default_environment pair_modems 0 [pair_link] = Inr [c]" "on_pair c"
    using pair_parse_channel by blast
  obtain lg where lg: "parse_logging nodes (Obj [(''log_message_events'', Str ''true'')]) = Inr lg" "lo_log_message_events lg"
    by (simp add: parse_logging_def present absent nodes_simps)
  show ?thesis
    unfolding parse_scenario_def pair_doc_def
    by (simp add: present absent nodes_simps small_library pair_parse_modems one c lg Let_def MAX_MODEMS_def
        del: sample_offsets.simps parse_modems.simps parse_channels.simps ebind_Inr cong: ebind_weak)
qed

section \<open>The system\<close>

definition pair_env :: "(node, unit, mock, nat) sim_env" where
  "pair_env = \<lparr>se_yaml = nodes, se_normal = quiet, se_files = (\<lambda>_. Some tiny_octt), se_load_file = (\<lambda>_. Inr pair_doc),
     se_transport = mock_transport, se_factory = (\<lambda>_. mock_set_calibration default_calibration mock_new),
     se_gauss = counting, se_gauss_init = 0, se_wav_openable = (\<lambda>_. True), se_wav_limit = 1000, se_writable = (\<lambda>_. True),
     se_dump = (\<lambda>_. ''{}''), se_io_clock = (\<lambda>_ _. 0), se_worker_clock = (\<lambda>_. 0)\<rparr>"

lemma pair_discovered:
  "\<exists>ms. discover_and_connect mock_transport (\<lambda>_. mock_set_calibration default_calibration mock_new) (map ident_of pair_modems) = ([], Inr ms) \<and>
     map md_id ms = [''s1'', ''s2''] \<and> (\<forall>m \<in> set ms. ready (\<lambda>_. default_calibration) m)"
proof -
  have ids: "map mi_usb_serial (map ident_of pair_modems) = [''s1'', ''s2'']"
    by (simp add: ident_of_def pair_modems_def pair_modem_def)
  show ?thesis
    unfolding discover_and_connect_def
    using discover_mocks [of "\<lambda>_. mock_set_calibration default_calibration mock_new" "\<lambda>_. default_calibration" "map ident_of pair_modems" "[]"]
      default_calibration_valid ids by simp
qed

text \<open>A replay channel over the small trajectory can be built between any modems.\<close>

lemma pair_channel_new:
  assumes "on_pair c"
  shows "\<exists>ch r. channel_new (\<lambda>_. Some tiny_octt) c cal cal' t t' boost = Inr ch \<and> cn_renderer ch = Replay_R r"
  using assms
  by (simp add: on_pair_def channel_new_def make_replay_renderer_def tiny_loads Let_def tap_renderer_new_def)

lemma pair_initialize:
  "\<exists>s c. initialize pair_env (simulator_new path) = (s, Inr True) \<and> map md_id (si_modems s) = [''s1'', ''s2''] \<and>
     (\<forall>m \<in> set (si_modems s). ready (\<lambda>_. default_calibration) m) \<and> lo_log_message_events (sc_logging (si_scenario s)) \<and>
     sc_modems (si_scenario s) = pair_modems \<and> sc_channels (si_scenario s) = [c] \<and> on_pair c"
proof -
  obtain cfg c where cfg: "parse_scenario nodes quiet (\<lambda>_. Some tiny_octt) pair_doc path (parent_path path) = Inr cfg"
    "sc_modems cfg = pair_modems" "sc_channels cfg = [c]" "on_pair c" "sc_environment cfg = default_environment"
    "lo_log_message_events (sc_logging cfg)" using pair_loads by blast
  obtain ms where ms: "discover_and_connect mock_transport (\<lambda>_. mock_set_calibration default_calibration mock_new) (map ident_of pair_modems) = ([], Inr ms)"
    "map md_id ms = [''s1'', ''s2'']" "\<forall>m \<in> set ms. ready (\<lambda>_. default_calibration) m" using pair_discovered by (elim exE conjE) (rule that)
  obtain m1 m2 where m: "ms = [m1, m2]" "md_id m1 = ''s1''" "md_id m2 = ''s2''" using ms(2) by auto
  have cal: "md_calibration m1 = default_calibration" "md_calibration m2 = default_calibration" using ms(3) m by (simp_all add: ready_def)
  have rate: "first_rate ms = 500000" by (simp add: first_rate_def m cal default_calibration_def)
  let ?ctx = "sim_contexts cfg ms"
  have ids: "context_id pair_modems m1 = ''a''" "context_id pair_modems m2 = ''b''"
    by (simp_all add: context_id_def config_of_def pair_modems_def pair_modem_def m)
  have idx: "modem_index ?ctx ''a'' = Inr 0" "modem_index ?ctx ''b'' = Inr 1"
    by (simp_all add: modem_index_def sim_contexts_def sim_context_def Let_def m(1) upt_rec cfg(2) ids)
  obtain ch r where ch: "channel_new (\<lambda>_. Some tiny_octt) c (pc_calibration (?ctx ! 0)) (pc_calibration (?ctx ! 1))
      (transducer_for cfg (pc_id (?ctx ! 0))) (transducer_for cfg (pc_id (?ctx ! 1))) (pc_receive_boost_db (?ctx ! 1)) = Inr ch"
    "cn_renderer ch = Replay_R r"
    using pair_channel_new [OF cfg(4)] by blast
  define bc where "bc = \<lparr>bc_channel = ch, bc_src_idx = 0, bc_rcv_idx = 1\<rparr>"
  have "build_channel (\<lambda>_. Some tiny_octt) cfg ?ctx c = Inr bc"
    using cfg(4) ch(1) by (simp add: build_channel_def on_pair_def idx bc_def)
  then have bcs: "build_channels (\<lambda>_. Some tiny_octt) cfg ?ctx (sc_channels cfg) = Inr [bc]" by (simp add: cfg(3))
  have hd: "pc_sample_rate (hd ?ctx) = 500000" by (simp add: sim_contexts_def sim_context_def Let_def m(1) upt_rec rate [unfolded m(1)])
  have flight: "0 < in_flight_samples (sc_environment cfg) (pc_sample_rate (hd ?ctx))"
    using tiny_flight by (simp add: hd cfg(5) tiny_scenario_def default_scenario_def)
  have "?ctx \<noteq> []" by (simp add: sim_contexts_def Let_def m upt_rec)
  from engine_new_ok [OF this bcs flight, of counting 0]
  obtain e where e: "channel_engine_new counting 0 (\<lambda>_. Some tiny_octt) cfg ?ctx = Inr e" by blast
  show ?thesis
    using cfg ms e
    by (simp add: initialize_def sim_load_scenario_def pair_env_def load_scenario_def simulator_new_def discover_modems_def calibrate_modems_def
        build_channel_engine_def Let_def)
qed

end
