(* ===== verification/System_Progress.thy ===== *)
theory System_Progress
  imports Simulator_Shutdown Small_System
begin

text \<open>
  A stop ends the run: with channels of the tap-based models no step of any thread throws or fails to
  return, and once a stop has come after the start of the threads, each of them ends at its next turn.
\<close>

section \<open>Only a stop changes a worker's flag\<close>

lemma running_process: "process_available clk w s = ret (w', s', n) \<Longrightarrow> sw_running w' = sw_running w"
  by (auto simp: process_available_def Let_def clock_now_def case_prod_unfold and_then_eq_ret split: if_splits)

lemma running_drain: "drain_ring clk w s = ret (w', s') \<Longrightarrow> sw_running w' = sw_running w"
proof (induction clk w s rule: drain_ring.induct)
  case (1 clk w s)
  show ?case
  proof (cases "spsc_available_read (sh_tx_ring s (sw_tx_ring w)) = 0")
    case True
    with "1.prems" show ?thesis by (simp add: drain_ring.simps)
  next
    case False
    then obtain w1 s1 n where p: "process_available clk w s = ret (w1, s1, n)"
      "(if n = 0 then ret (w1, s1) else drain_ring clk w1 s1) = ret (w', s')"
      using "1.prems" by (subst (asm) drain_ring.simps) (auto simp: and_then_eq_ret)
    with "1.IH" [OF False p(1) refl refl] running_process [OF p(1)] show ?thesis by (auto split: if_splits)
  qed
qed

lemma running_flush: "drain_and_flush clk w s = ret (w', s') \<Longrightarrow> sw_running w' = sw_running w"
  by (auto simp: drain_and_flush_def and_then_eq_ret dest!: running_drain)

lemma running_exit:
  assumes "tx_exit clk w s = ret (w', s')"
  shows "sw_running w' = sw_running w"
proof -
  obtain w1 s1 where d: "drain_and_flush clk w s = ret (w1, s1)" using assms by (auto simp: tx_exit_def and_then_eq_ret)
  with assms running_flush [OF d] show ?thesis
    by (cases "sw_message_event_log w1") (auto simp: tx_exit_def Let_def case_prod_unfold split: if_splits)
qed

lemma running_entry:
  assumes "tx_entry clk w s = ret (w', s')"
  shows "sw_running w' = sw_running w"
proof -
  let ?s1 = "fst (clock_now clk s)" and ?now = "snd (clock_now clk s)"
  obtain ogs s2 where "start_all (tx_start_bound ?now w ?s1) ?now (sw_metrics w) (sw_outgoing w) ?s1 = ret (ogs, s2)"
    using assms by (cases "start_all (tx_start_bound ?now w ?s1) ?now (sw_metrics w) (sw_outgoing w) ?s1")
      (auto simp: tx_entry_def case_prod_unfold Let_def and_then_eq_ret)
  with assms show ?thesis
    by (cases "sw_message_event_log w") (auto simp: tx_entry_def case_prod_unfold Let_def)
qed

lemma running_poll: "poll_state_edges clk w s = ret (w', s') \<Longrightarrow> sw_running w' = sw_running w"
  by (auto simp: poll_state_edges_def Let_def and_then_eq_ret dest: running_exit running_entry split: if_splits)

lemma running_iteration: "sw_iteration clk before between w s = ret (w', s', b) \<Longrightarrow> sw_running w' = sw_running w"
  by (auto simp: sw_iteration_def Let_def and_then_eq_ret dest!: running_poll running_process split: if_splits)

lemma running_finish: "sw_finish clk w s = ret (w', s') \<Longrightarrow> sw_running w' = sw_running w"
  by (auto simp: sw_finish_def and_then_eq_ret dest!: running_poll running_flush split: if_splits)

section \<open>Every step returns\<close>

text \<open>A channel of the scenario whose renderer never throws: without motion the static renderer's ratio is that
  of the clocks, and an offset of a whole order of magnitude is still accepted.\<close>

definition steady_config :: "channel_config \<Rightarrow> bool" where
  "steady_config cc \<longleftrightarrow> (ch_mode cc = Mode_Static \<longrightarrow>
     ch_velocity_radial_m_s cc = 0 \<and> ch_acceleration_radial_m_s2 cc = 0 \<and> - 900000 \<le> ch_clock_offset_ppm cc)"

lemma clock_ratio:
  assumes "- 900000 \<le> ppm"
  shows "1 / 64 \<le> dmul (dadd 1 (dmul ppm (f64 (1 / 10 ^ 6)))) 1"
proof -
  have d: "f64 (17 / 2 ^ 24) = 17 / 2 ^ 24" "f64 (- 15 / 16) = - 15 / 16" "f64 (1 / 64) = 1 / 64"
    using f64_dyadic [of 17 "- 24"] f64_dyadic [of "- 15" "- 4"] f64_dyadic [of 1 "- 6"] by (simp_all add: power_int_def power_divide)
  let ?c = "f64 (1 / 10 ^ 6)"
  have c: "0 \<le> ?c" "?c \<le> 17 / 2 ^ 24" using f64_mono [of "1 / 10 ^ 6" "17 / 2 ^ 24"] d by (simp_all add: f64_nonneg)
  have "- 900000 * ?c \<le> ppm * ?c" using assms c(1) by (rule mult_right_mono)
  moreover have "- 15 / 16 \<le> - 900000 * ?c" using c by simp
  ultimately have "f64 (- 15 / 16) \<le> dmul ppm ?c" by (intro f64_mono) linarith
  then have "f64 (1 / 64) \<le> dadd 1 (dmul ppm ?c)" using d by (intro f64_mono) simp
  then have "f64 (1 / 64) \<le> dmul (dadd 1 (dmul ppm ?c)) 1" using d by (intro f64_mono) simp
  with d show ?thesis by simp
qed

lemma static_new_steady:
  assumes "static_new p = Inr r" and "sp_velocity_radial_m_s p = 0" and "sp_acceleration_radial_m_s2 p = 0" and "- 900000 \<le> sp_clock_offset_ppm p"
  shows "steady_static r"
  using assms clock_ratio [OF assms(4)] by (auto simp: steady_static_def static_new_def Let_def refresh_ratio_Inr still_ratio farrow_new_def)

lemma steady_channel_new:
  assumes "channel_new fs cc scal rcal stx rtx boost = Inr c" and "steady_config cc"
  shows "steady c"
proof (cases "ch_mode cc")
  case Mode_Static
  have m: "ch_velocity_radial_m_s cc = 0" "ch_acceleration_radial_m_s2 cc = 0" "- 900000 \<le> ch_clock_offset_ppm cc"
    using assms(2) Mode_Static by (simp_all add: steady_config_def)
  show ?thesis
    using assms(1) Mode_Static m
    by (auto simp: channel_new_def make_static_renderer_def Let_def steady_def split: sum.splits intro!: static_new_steady)
next
  case Mode_Geometric
  with assms(1) show ?thesis by (auto simp: channel_new_def make_geometric_renderer_def steady_def Let_def split: sum.splits)
next
  case Mode_Replay
  with assms(1) show ?thesis by (auto simp: channel_new_def make_replay_renderer_def steady_def Let_def split: sum.splits)
qed

definition steady_engine :: "'g channel_engine \<Rightarrow> bool" where
  "steady_engine e \<longleftrightarrow> (\<forall>w. Some w \<in> set (eg_source_workers e) \<longrightarrow> steady_worker w)"

definition steady_system :: "('t, 'g) simulator \<Rightarrow> bool" where
  "steady_system s \<longleftrightarrow> (\<forall>e. si_engine s = Some e \<longrightarrow> steady_engine e)"

lemma steady_systemD:
  assumes "steady_system s" and "sim_worker i s = Some w"
  shows "steady_worker w"
proof -
  obtain e where e: "si_engine s = Some e" "engine_source_worker i e = Some w" using assms(2) by (auto simp: sim_worker_def split: option.splits)
  from engine_worker_range [OF e(2)] have "Some w \<in> set (eg_source_workers e)" by (metis nth_mem)
  with assms(1) e(1) show ?thesis by (auto simp: steady_system_def steady_engine_def)
qed

lemma steady_engine_new:
  assumes "channel_engine_new gs g0 fs scenario modems = Inr e" and "\<forall>cc \<in> set (sc_channels scenario). steady_config cc"
  shows "steady_engine e"
proof -
  obtain bcs wi where b: "list_all2 (\<lambda>cc bc. build_channel fs scenario modems cc = Inr bc) (sc_channels scenario) bcs"
    and g: "graph_ok modems (engine_pair_cap scenario modems bcs) bcs wi"
    and e: "eg_source_workers e = map2 worker_for modems (wi_outgoing wi)"
    using engine_of_graph [OF assms(1)] by blast
  have tap: "steady (bc_channel bc)" if bc: "bc \<in> set bcs" for bc
  proof -
    obtain k where k: "k < length bcs" "bcs ! k = bc" using bc by (auto simp: in_set_conv_nth)
    define cc where "cc = sc_channels scenario ! k"
    have cc: "cc \<in> set (sc_channels scenario)" "build_channel fs scenario modems cc = Inr bc"
      using list_all2_nthD2 [OF b k(1)] list_all2_lengthD [OF b] k by (simp_all add: cc_def)
    then show ?thesis using build_channel_facts [OF cc(2)] steady_channel_new assms(2) by blast
  qed
  have "steady_worker w" if w: "Some w \<in> set (eg_source_workers e)" for w
  proof -
    obtain i where "i < length (eg_source_workers e)" "eg_source_workers e ! i = Some w" using w by (auto simp: in_set_conv_nth)
    then have i: "i < length modems" "worker_for (modems ! i) (wi_outgoing wi ! i) = Some w"
      using e g by (simp_all add: graph_ok_def)
    have "sw_outgoing w = map (\<lambda>(k, bc). outgoing_for modems k bc) (out_of i bcs)"
      using worker_for_outgoing [OF i(2)] i(1) g by (simp add: graph_ok_def)
    moreover have "bc \<in> set bcs" if "(k, bc) \<in> set (out_of i bcs)" for k bc using that out_of_member by (metis nth_mem)
    ultimately show ?thesis using tap by (auto simp: outgoing_for_def)
  qed
  then show ?thesis by (simp add: steady_engine_def)
qed

lemma steady_each:
  assumes "steady_engine e" and "\<And>w. sw_outgoing (f w) = sw_outgoing w"
  shows "steady_engine (each_worker f e)"
  using assms by (auto simp: steady_engine_def each_worker_def eq_commute [of "Some _" "map_option f _"])

lemma steady_request: "steady_engine e \<Longrightarrow> steady_engine (engine_request_stop e)"
  using steady_each [of e sw_stop] by (simp add: engine_request_stop_def steady_engine_def sw_stop_def)

lemma put_worker_steady:
  assumes "steady_system s" and "steady_worker w"
  shows "steady_system (put_worker i w sh s)"
  using assms by (auto simp: steady_system_def steady_engine_def put_worker_fields dest!: set_update_subset_insert [THEN subsetD])

lemma steady_threads [simp]:
  "steady_system (s\<lparr>si_worker_threads := ts\<rparr>) = steady_system s" "steady_system (s\<lparr>si_io_threads := ts\<rparr>) = steady_system s"
  "steady_system (s\<lparr>si_metrics := m\<rparr>) = steady_system s"
  by (simp_all add: steady_system_def)

lemma io_turn_steady: "steady_system s \<Longrightarrow> steady_system (io_turn env i n s)"
  by (auto simp: steady_system_def steady_engine_def io_turn_def put_io_fields put_mix_fields)

lemma worker_turn_returns:
  assumes "steady_system s" and "sim_worker i s = Some w"
  shows "\<exists>s'. worker_turn env i n w s = ret s' \<and> steady_system s'"
proof (cases "sw_running w")
  case True
  obtain w' sh b where "sw_iteration (se_worker_clock env) [] [] w (sim_store s) = ret (w', sh, b)" "steady_worker w'"
    using iteration_returns [OF steady_systemD [OF assms]] by blast
  with True put_worker_steady [OF assms(1)] show ?thesis by (simp add: worker_turn_def)
next
  case False
  obtain w1 s1 where p: "poll_state_edges (se_worker_clock env) w (sim_store s) = ret (w1, s1)" "steady_worker w1"
    using poll_returns [OF steady_systemD [OF assms]] by blast
  obtain w2 s2 where "drain_and_flush (se_worker_clock env) w1 s1 = ret (w2, s2)" "steady_worker w2"
    using drain_and_flush_returns [OF p(2)] by blast
  with p obtain w' sh where "sw_finish (se_worker_clock env) w (sim_store s) = ret (w', sh)" "steady_worker w'"
    by (cases "sw_last_state w1 = ST_TX") (simp_all add: sw_finish_def)
  with False put_worker_steady [OF assms(1)] show ?thesis by (simp add: worker_turn_def)
qed

lemma sim_act_returns:
  assumes "steady_system s"
  shows "\<exists>s'. sim_act env a s = ret s' \<and> steady_system s'"
proof (cases a)
  case (Io_Begin i)
  with assms show ?thesis by (simp add: sim_act_def io_begin_def steady_system_def)
next
  case (Io_Turn i)
  with assms show ?thesis by (simp add: sim_act_def io_turn_steady split: thread.split)
next
  case (Worker_Begin i)
  with assms steady_systemD [OF assms, of i] put_worker_steady [OF assms] show ?thesis
    by (auto simp: sim_act_def worker_begin_def split: option.split)
next
  case (Worker_Turn i)
  have "\<exists>s'. worker_turn env i n w s = ret s' \<and> steady_system s'" if "sim_worker i s = Some w" for n w
    using worker_turn_returns [OF assms that] by blast
  with assms Worker_Turn show ?thesis by (simp add: sim_act_def split: thread.split option.split)
next
  case Stop_Request
  with assms steady_request show ?thesis by (auto simp: sim_act_def sim_stop_def steady_system_def)
next
  case Stop_Join
  with assms show ?thesis by (auto simp: sim_act_def sim_stop_join_def steady_system_def steady_engine_def engine_join_def)
qed

lemma sim_acts_return: "steady_system s \<Longrightarrow> \<exists>s'. sim_acts env as s = ret s' \<and> steady_system s'"
proof (induction as arbitrary: s)
  case (Cons a as)
  obtain s1 where s1: "sim_act env a s = ret s1" "steady_system s1" using sim_act_returns [OF Cons.prems] by blast
  with Cons.IH [OF s1(2)] show ?case by simp
qed simp

section \<open>The phases of a thread\<close>

definition io_begun :: "nat \<Rightarrow> ('t, 'g) simulator \<Rightarrow> bool" where
  "io_begun i s \<longleftrightarrow> i < length (si_io_threads s) \<and> i < length (si_io_workers s) \<and> si_io_threads s ! i \<noteq> Spawned"

definition io_off :: "nat \<Rightarrow> ('t, 'g) simulator \<Rightarrow> bool" where
  "io_off i s \<longleftrightarrow> io_begun i s \<and> \<not> io_running (si_io_workers s ! i)"

definition io_over :: "nat \<Rightarrow> ('t, 'g) simulator \<Rightarrow> bool" where
  "io_over i s \<longleftrightarrow> i < length (si_io_threads s) \<and> si_io_threads s ! i = Ended"

definition worker_there :: "nat \<Rightarrow> ('t, 'g) simulator \<Rightarrow> bool" where
  "worker_there i s \<longleftrightarrow> i < length (si_worker_threads s) \<and> (si_worker_threads s ! i = Ended \<or> sim_worker i s \<noteq> None)"

definition worker_begun :: "nat \<Rightarrow> ('t, 'g) simulator \<Rightarrow> bool" where
  "worker_begun i s \<longleftrightarrow> worker_there i s \<and> si_worker_threads s ! i \<noteq> Spawned"

definition worker_off :: "nat \<Rightarrow> ('t, 'g) simulator \<Rightarrow> bool" where
  "worker_off i s \<longleftrightarrow> worker_begun i s \<and> (\<forall>w. sim_worker i s = Some w \<longrightarrow> \<not> sw_running w)"

definition worker_over :: "nat \<Rightarrow> ('t, 'g) simulator \<Rightarrow> bool" where
  "worker_over i s \<longleftrightarrow> i < length (si_worker_threads s) \<and> si_worker_threads s ! i = Ended"

text \<open>Whatever a thread has reached it keeps, whoever takes the next turn.\<close>

definition phases_kept :: "nat \<Rightarrow> ('t, 'g) simulator \<Rightarrow> ('t, 'g) simulator \<Rightarrow> bool" where
  "phases_kept i s s' \<longleftrightarrow> (\<forall>P \<in> {io_begun, io_off, io_over, worker_there, worker_begun, worker_off, worker_over}. P i s \<longrightarrow> P i s')"

lemmas phase_defs = io_begun_def io_off_def io_over_def worker_there_def worker_begun_def worker_off_def worker_over_def

lemma sim_worker_put: "sim_worker i s = Some v \<Longrightarrow> sim_worker j (put_worker i w sh s) = (if j = i then Some w else sim_worker j s)"
  by (cases "si_engine s") (auto simp: sim_worker_def put_worker_fields engine_source_worker_def split: if_splits)

lemma sim_worker_threads [simp]:
  "sim_worker j (s\<lparr>si_worker_threads := ts\<rparr>) = sim_worker j s" "sim_worker j (s\<lparr>si_io_threads := ts\<rparr>) = sim_worker j s"
  "sim_worker j (s\<lparr>si_io_workers := ios\<rparr>) = sim_worker j s" "sim_worker j (s\<lparr>si_metrics := m\<rparr>) = sim_worker j s"
  by (simp_all add: sim_worker_def)

lemma sim_worker_put_io [simp]: "sim_worker j (put_io env i io s) = sim_worker j s"
  by (cases "si_engine s") (simp_all add: sim_worker_def put_io_fields engine_source_worker_def put_mix_fields)

lemma sim_worker_stop: "sim_worker j (sim_stop s) = (if engine_running s then map_option sw_stop (sim_worker j s) else sim_worker j s)"
  by (cases "si_engine s")
    (auto simp: sim_worker_def sim_stop_def engine_running_def engine_source_worker_def engine_request_stop_def each_worker_def)

lemma stop_fields:
  "si_io_threads (sim_stop s) = si_io_threads s" "si_worker_threads (sim_stop s) = si_worker_threads s"
  "si_io_workers (sim_stop s) = map io_stop (si_io_workers s)" "\<not> si_running (sim_stop s)" "\<not> engine_running (sim_stop s)"
  by (simp_all add: sim_stop_def engine_running_def request_fields split: option.split)

lemma io_turn_phases:
  assumes "si_io_threads s ! j = In_Loop n"
  shows "phases_kept i s (io_turn env j n s)"
  using assms
  by (cases "i = j") (auto simp: phases_kept_def phase_defs io_turn_def put_io_fields)

lemma worker_put_phases:
  assumes "sim_worker j s = Some w" and "si_worker_threads s ! j \<noteq> Ended"
    and "si_worker_threads s ! j \<noteq> Spawned \<Longrightarrow> th \<noteq> Spawned \<and> sw_running w' = sw_running w"
  shows "phases_kept i s ((put_worker j w' sh s)\<lparr>si_worker_threads := (si_worker_threads s)[j := th]\<rparr>)"
  using assms
  by (cases "i = j") (auto simp: phases_kept_def phase_defs put_worker_fields sim_worker_put)

lemma sim_act_phases:
  assumes "sim_act env a s = ret s'"
  shows "phases_kept i s s'"
proof (cases a)
  case (Io_Begin j)
  with assms show ?thesis
    by (cases "i = j") (auto simp: phases_kept_def phase_defs sim_act_def io_begin_def split: if_splits)
next
  case (Io_Turn j)
  with assms io_turn_phases [of s j] show ?thesis by (auto simp: sim_act_def phases_kept_def split: if_splits thread.splits)
next
  case (Worker_Begin j)
  with assms worker_put_phases [of j s] show ?thesis
    by (auto simp: sim_act_def worker_begin_def split: if_splits option.splits) (simp_all add: phases_kept_def)
next
  case (Worker_Turn j)
  show ?thesis
  proof (cases "j < length (si_worker_threads s) \<and> (\<exists>n w. si_worker_threads s ! j = In_Loop n \<and> sim_worker j s = Some w)")
    case True
    then obtain n w where w: "si_worker_threads s ! j = In_Loop n" "sim_worker j s = Some w" "worker_turn env j n w s = ret s'"
      using assms Worker_Turn by (auto simp: sim_act_def)
    show ?thesis
    proof (cases "sw_running w")
      case True
      with w(3) obtain w' sh b where it: "sw_iteration (se_worker_clock env) [] [] w (sim_store s) = ret (w', sh, b)"
        "s' = (put_worker j w' sh s)\<lparr>si_worker_threads := (si_worker_threads s)[j := In_Loop (n + 1)]\<rparr>"
        by (auto simp: worker_turn_def and_then_eq_ret)
      show ?thesis unfolding it(2) by (rule worker_put_phases) (use w running_iteration [OF it(1)] in simp_all)
    next
      case False
      with w(3) obtain w' sh where it: "sw_finish (se_worker_clock env) w (sim_store s) = ret (w', sh)"
        "s' = (put_worker j w' sh s)\<lparr>si_worker_threads := (si_worker_threads s)[j := Ended]\<rparr>"
        by (auto simp: worker_turn_def and_then_eq_ret)
      show ?thesis unfolding it(2) by (rule worker_put_phases) (use w running_finish [OF it(1)] in simp_all)
    qed
  qed (use assms Worker_Turn in \<open>auto simp: sim_act_def phases_kept_def split: if_splits thread.splits option.splits\<close>)
next
  case Stop_Request
  with assms show ?thesis
    by (cases "engine_running s")
      (auto simp: phases_kept_def phase_defs sim_act_def sim_worker_stop stop_fields sw_stop_def io_stop_def)
next
  case Stop_Join
  with assms show ?thesis
    by (cases "si_engine s")
      (auto simp: phases_kept_def phase_defs sim_act_def sim_stop_join_def sim_worker_def engine_source_worker_def engine_join_def split: if_splits)
qed

lemma phases_refl: "phases_kept i s s"
  by (simp add: phases_kept_def)

lemma phases_trans: "phases_kept i a b \<Longrightarrow> phases_kept i b c \<Longrightarrow> phases_kept i a c"
  by (simp add: phases_kept_def)

lemma phasesD:
  assumes "phases_kept i s s'"
  shows "io_begun i s \<Longrightarrow> io_begun i s'" "io_off i s \<Longrightarrow> io_off i s'" "io_over i s \<Longrightarrow> io_over i s'"
    "worker_there i s \<Longrightarrow> worker_there i s'" "worker_begun i s \<Longrightarrow> worker_begun i s'" "worker_off i s \<Longrightarrow> worker_off i s'"
    "worker_over i s \<Longrightarrow> worker_over i s'"
  using assms by (simp_all add: phases_kept_def)

lemma sim_acts_phases: "sim_acts env as s = ret s' \<Longrightarrow> phases_kept i s s'"
proof (induction as arbitrary: s)
  case (Cons a as)
  then obtain s1 where "sim_act env a s = ret s1" "sim_acts env as s1 = ret s'" by (auto simp: and_then_eq_ret)
  with Cons.IH sim_act_phases phases_trans show ?case by blast
qed (simp add: phases_refl)

text \<open>What one turn establishes, a schedule that contains the turn establishes.\<close>

lemma acts_reach:
  assumes "sim_acts env as s = ret s'" and "a \<in> set as" and "Q s"
    and "\<And>s s' b. sim_act env b s = ret s' \<Longrightarrow> Q s \<Longrightarrow> Q s'" and "\<And>s s' b. sim_act env b s = ret s' \<Longrightarrow> P s \<Longrightarrow> P s'"
    and hit: "\<And>s s'. sim_act env a s = ret s' \<Longrightarrow> Q s \<Longrightarrow> P s'"
  shows "P s'"
  using assms(1-3)
proof (induction as arbitrary: s)
  case (Cons b as)
  then obtain s1 where s1: "sim_act env b s = ret s1" "sim_acts env as s1 = ret s'" by (auto simp: and_then_eq_ret)
  have keep: "sim_acts env xs t = ret t' \<Longrightarrow> P t \<Longrightarrow> P t'" for xs t t'
    by (induction xs arbitrary: t) (auto simp: and_then_eq_ret intro: assms(5))
  show ?case
  proof (cases "a = b")
    case True
    with hit s1 Cons.prems(3) keep show ?thesis by blast
  next
    case False
    with Cons.prems(2) have "a \<in> set as" by simp
    from Cons.IH [OF s1(2) this] assms(4) [OF s1(1) Cons.prems(3)] show ?thesis by blast
  qed
qed simp

lemma acts_io_begun:
  assumes "sim_acts env as s = ret s'" and "Io_Begin i \<in> set as" and "i < length (si_io_threads s)" and "i < length (si_io_workers s)"
  shows "io_begun i s'"
proof (rule acts_reach [OF assms(1,2), where P = "io_begun i" and Q = "\<lambda>s. i < length (si_io_threads s) \<and> i < length (si_io_workers s)"])
  show "i < length (si_io_threads s1) \<and> i < length (si_io_workers s1)"
    if "sim_act env b s = ret s1" "i < length (si_io_threads s) \<and> i < length (si_io_workers s)" for s s1 b
    using that sim_act_kept [OF that(1)] act_frame [OF that(1)] by (simp add: act_kept_def)
  show "io_begun i s1" if "sim_act env (Io_Begin i) s = ret s1" "i < length (si_io_threads s) \<and> i < length (si_io_workers s)" for s s1
    using that by (auto simp: sim_act_def io_begin_def io_begun_def split: if_splits)
qed (use assms(3,4) phasesD(1) [OF sim_act_phases] in blast)+

lemma acts_worker_begun:
  assumes "sim_acts env as s = ret s'" and "Worker_Begin i \<in> set as" and "worker_there i s"
  shows "worker_begun i s'"
proof (rule acts_reach [OF assms(1,2), where P = "worker_begun i" and Q = "worker_there i"])
  show "worker_begun i s1" if "sim_act env (Worker_Begin i) s = ret s1" "worker_there i s" for s s1
    using that phasesD(5) [OF sim_act_phases [OF that(1)]]
    by (auto simp: sim_act_def worker_begin_def worker_begun_def worker_there_def sim_worker_put put_worker_fields split: if_splits option.splits)
qed (use phasesD(4,5) [OF sim_act_phases] assms(3) in blast)+

lemma acts_io_over:
  assumes "sim_acts env as s = ret s'" and "Io_Turn i \<in> set as" and "io_off i s"
  shows "io_over i s'"
proof (rule acts_reach [OF assms(1,2), where P = "io_over i" and Q = "io_off i"])
  show "io_over i s1" if "sim_act env (Io_Turn i) s = ret s1" "io_off i s" for s s1
    using that by (cases "si_io_threads s ! i") (auto simp: sim_act_def io_turn_def io_off_def io_begun_def io_over_def)
qed (use phasesD(2,3) [OF sim_act_phases] assms(3) in blast)+

lemma acts_worker_over:
  assumes "sim_acts env as s = ret s'" and "Worker_Turn i \<in> set as" and "worker_off i s"
  shows "worker_over i s'"
proof (rule acts_reach [OF assms(1,2), where P = "worker_over i" and Q = "worker_off i"])
  show "worker_over i s1" if "sim_act env (Worker_Turn i) s = ret s1" "worker_off i s" for s s1
    using that
    by (cases "si_worker_threads s ! i"; cases "sim_worker i s")
      (auto simp: sim_act_def worker_turn_def worker_off_def worker_begun_def worker_there_def worker_over_def and_then_eq_ret put_worker_fields)
qed (use phasesD(6,7) [OF sim_act_phases] assms(3) in blast)+

section \<open>The stop\<close>

text \<open>A run whose threads have all begun, and one that has been stopped after that.\<close>

definition all_begun :: "nat \<Rightarrow> ('t, 'g) simulator \<Rightarrow> bool" where
  "all_begun n s \<longleftrightarrow> steady_system s \<and> length (si_io_threads s) = n \<and> length (si_worker_threads s) = n \<and>
     (\<forall>i < n. io_begun i s \<and> worker_begun i s) \<and> si_running s \<and> engine_running s"

definition all_stopped :: "nat \<Rightarrow> ('t, 'g) simulator \<Rightarrow> bool" where
  "all_stopped n s \<longleftrightarrow> steady_system s \<and> length (si_io_threads s) = n \<and> length (si_worker_threads s) = n \<and>
     (\<forall>i < n. io_off i s \<and> worker_off i s) \<and> \<not> si_running s \<and> \<not> engine_running s"

lemma act_flags:
  assumes "sim_act env a s = ret s'" and "a \<noteq> Stop_Request"
  shows "si_running s' = si_running s \<and> engine_running s' = engine_running s"
  using assms
  by (cases "si_engine s"; cases a)
    (auto simp: sim_act_def io_begin_def io_turn_def put_io_def put_mix_def worker_begin_def worker_turn_def put_worker_def sim_stop_join_def
      engine_running_def engine_join_def and_then_eq_ret split: if_splits option.splits thread.splits)

lemma stop_stops:
  assumes "all_begun n s \<or> all_stopped n s"
  shows "all_stopped n (sim_stop s)"
proof -
  have "steady_system (sim_stop s)" using assms sim_act_returns [of s _ Stop_Request] by (auto simp: sim_act_def all_begun_def all_stopped_def)
  moreover have "io_off i (sim_stop s) \<and> worker_off i (sim_stop s)" if "i < n" for i
    using assms that
    by (cases "sim_worker i s")
      (auto simp: all_begun_def all_stopped_def phase_defs stop_fields sim_worker_stop sw_stop_def io_stop_def)
  ultimately show ?thesis using assms by (auto simp: all_stopped_def all_begun_def stop_fields)
qed

lemma act_begun:
  assumes "sim_act env a s = ret s'" and "all_begun n s" and "a \<noteq> Stop_Request"
  shows "all_begun n s'"
proof -
  have "steady_system s'" using sim_act_returns [of s env a] assms(1,2) by (auto simp: all_begun_def)
  then show ?thesis
    using assms(2) act_flags [OF assms(1,3)] sim_act_kept [OF assms(1)] phasesD(1,5) [OF sim_act_phases [OF assms(1)]]
    by (simp add: all_begun_def act_kept_def)
qed

lemma act_stopped:
  assumes "sim_act env a s = ret s'" and "all_stopped n s"
  shows "all_stopped n s'"
proof -
  have "steady_system s'" using sim_act_returns [of s env a] assms by (auto simp: all_stopped_def)
  then show ?thesis
    using assms(2) sim_act_kept [OF assms(1)] phasesD(2,6) [OF sim_act_phases [OF assms(1)]]
    by (auto simp: all_stopped_def act_kept_def)
qed

lemma acts_keep_stop:
  assumes "sim_acts env as s = ret s'" and "all_begun n s \<or> all_stopped n s"
  shows "all_begun n s' \<or> all_stopped n s'" and "Stop_Request \<in> set as \<Longrightarrow> all_stopped n s'"
proof -
  have step: "all_begun n s' \<or> all_stopped n s'" if "sim_act env a s = ret s'" "all_begun n s \<or> all_stopped n s" for a s s'
    using that act_begun [OF that(1)] act_stopped [OF that(1)] stop_stops [of n s] by (cases "a = Stop_Request") (auto simp: sim_act_def)
  show "all_begun n s' \<or> all_stopped n s'" using assms by (induction as arbitrary: s) (auto simp: and_then_eq_ret dest: step)
  have hit: "all_stopped n s1" if "sim_act env Stop_Request s = ret s1" "all_begun n s \<or> all_stopped n s" for s s1
    using that stop_stops by (auto simp: sim_act_def)
  show "all_stopped n s'" if m: "Stop_Request \<in> set as"
    by (rule acts_reach [OF assms(1) m, where P = "all_stopped n" and Q = "\<lambda>s. all_begun n s \<or> all_stopped n s"])
      (use assms(2) step act_stopped hit in blast)+
qed

lemma acts_stop:
  assumes "all_begun n s \<or> all_stopped n s"
  obtains s' where "sim_acts env as s = ret s'" and "all_begun n s' \<or> all_stopped n s'" and "Stop_Request \<in> set as \<Longrightarrow> all_stopped n s'"
proof -
  obtain s' where "sim_acts env as s = ret s'" using sim_acts_return [of s env as] assms by (auto simp: all_begun_def all_stopped_def)
  with acts_keep_stop [OF this assms] that show thesis by blast
qed

text \<open>The main loop ends in the second in which the stop arrives.\<close>

lemma metrics_loop_stops:
  assumes "all_begun n s \<and> Stop_Request \<in> set (concat seconds) \<or> all_stopped n s"
  shows "\<exists>s'. metrics_loop env seconds s = ret s' \<and> all_stopped n s'"
  using assms
proof (induction seconds arbitrary: s)
  case Nil
  then show ?case by (auto simp: all_stopped_def)
next
  case (Cons acts seconds)
  show ?case
  proof (cases "all_stopped n s")
    case True
    then show ?thesis by (auto simp: all_stopped_def)
  next
    case False
    with Cons.prems have b: "all_begun n s" "Stop_Request \<in> set acts \<union> set (concat seconds)" by auto
    obtain s1 where s1: "sim_acts env acts s = ret s1" "all_begun n s1 \<or> all_stopped n s1" "Stop_Request \<in> set acts \<Longrightarrow> all_stopped n s1"
      using acts_stop [of n s env acts] b(1) by blast
    show ?thesis
    proof (cases "all_stopped n s1")
      case True
      with b(1) s1 show ?thesis by (auto simp: all_stopped_def all_begun_def)
    next
      case False
      let ?s = "s1\<lparr>si_metrics := metrics_reset (si_metrics s1)\<rparr>"
      have "all_begun n ?s" using False s1(2) by (simp add: all_begun_def phase_defs engine_running_def)
      moreover have "Stop_Request \<in> set (concat seconds)" using False s1(3) b(2) by auto
      ultimately obtain s' where "metrics_loop env seconds ?s = ret s'" "all_stopped n s'" using Cons.IH by blast
      moreover have "si_running s" "si_running s1" using b(1) False s1(2) by (auto simp: all_begun_def)
      ultimately show ?thesis using s1(1) by simp
    qed
  qed
qed

lemma all_endedI: "length ts = n \<Longrightarrow> (\<And>i. i < n \<Longrightarrow> ts ! i = Ended) \<Longrightarrow> all_ended ts"
  by (simp add: all_ended_def list_all_length)

lemma run_threads_stop:
  assumes "all_begun n s" and "Stop_Request \<in> set (concat (ss_seconds sched))"
    and "\<And>i. i < n \<Longrightarrow> Io_Turn i \<in> set (ss_join sched)" and "\<And>i. i < n \<Longrightarrow> Worker_Turn i \<in> set (ss_drain sched)"
  shows "\<exists>s'. run_threads env sched s = ret s' \<and> all_ended (si_worker_threads s')"
proof -
  obtain s1 where s1: "metrics_loop env (ss_seconds sched) s = ret s1" "all_stopped n s1"
    using metrics_loop_stops [of n s "ss_seconds sched" env] assms(1,2) by blast
  obtain s2 where s2: "sim_acts env (ss_join sched) s1 = ret s2" "all_begun n s2 \<or> all_stopped n s2"
    using acts_stop [of n s1 env "ss_join sched"] s1(2) by blast
  have "io_over i s2" if "i < n" for i
    using acts_io_over [OF s2(1) assms(3) [OF that]] s1(2) that by (simp add: all_stopped_def)
  moreover have "length (si_io_threads s2) = n" using s2(2) unfolding all_begun_def all_stopped_def by blast
  ultimately have io: "all_ended (si_io_threads s2)" by (intro all_endedI [of _ n]) (simp_all add: io_over_def)
  let ?s = "s2\<lparr>si_io_threads := []\<rparr>"
  have off: "worker_off i ?s" if "i < n" for i
  proof -
    have "worker_off i s2" using phasesD(6) [OF sim_acts_phases [OF s2(1)]] s1(2) that unfolding all_stopped_def by blast
    then show ?thesis by (simp add: worker_off_def worker_begun_def worker_there_def)
  qed
  have "steady_system s2" using s2(2) unfolding all_begun_def all_stopped_def by blast
  then have "steady_system ?s" by simp
  from sim_acts_return [OF this] obtain s3 where s3: "sim_acts env (ss_drain sched) ?s = ret s3" by blast
  have "worker_over i s3" if "i < n" for i
    using acts_worker_over [OF s3 assms(4) [OF that] off [OF that]] .
  moreover have "length (si_worker_threads s3) = n"
  proof -
    have "length (si_worker_threads s2) = n" using s2(2) unfolding all_begun_def all_stopped_def by blast
    with sim_acts_kept [OF s3] show ?thesis by (simp add: act_kept_def)
  qed
  ultimately have w: "all_ended (si_worker_threads s3)" by (intro all_endedI [of _ n]) (simp_all add: worker_over_def)
  have "\<not> engine_running s2" using acts_run_kept [OF s2(1)] s1(2) unfolding run_kept_def all_stopped_def by blast
  then have "\<not> engine_running ?s" by (simp add: engine_running_def)
  then show ?thesis using s1(1) s2(1) io s3 w by (simp add: run_threads_def join_all_threads_def sim_engine_stop_def)
qed

section \<open>The start\<close>

lemma with_worker_keeps:
  assumes "\<And>w. sw_running (f w) = sw_running w" and "\<And>w. steady_worker w \<Longrightarrow> steady_worker (f w)"
  shows "map (map_option sw_running) (with_worker i f sws) = map (map_option sw_running) sws"
    and "\<forall>w. Some w \<in> set sws \<longrightarrow> steady_worker w \<Longrightarrow> \<forall>w. Some w \<in> set (with_worker i f sws) \<longrightarrow> steady_worker w"
proof -
  show "map (map_option sw_running) (with_worker i f sws) = map (map_option sw_running) sws"
    by (rule nth_equalityI) (auto simp: with_worker_def nth_list_update option.map_comp comp_def assms(1) split: if_splits)
  assume s: "\<forall>w. Some w \<in> set sws \<longrightarrow> steady_worker w"
  show "\<forall>w. Some w \<in> set (with_worker i f sws) \<longrightarrow> steady_worker w"
  proof (intro allI impI)
    fix w assume w: "Some w \<in> set (with_worker i f sws)"
    show "steady_worker w"
    proof (cases "i < length sws \<and> Some w = map_option f (sws ! i)")
      case True
      then obtain v where "sws ! i = Some v" "w = f v" by (cases "sws ! i") auto
      with True s assms(2) show ?thesis by (metis nth_mem)
    qed (use w s set_update_subset_insert in \<open>fastforce simp: with_worker_def split: if_splits\<close>)
  qed
qed

lemma context_keeps: "sw_running (set_outgoing_receiver_context k t r w) = sw_running w"
  "steady_worker w \<Longrightarrow> steady_worker (set_outgoing_receiver_context k t r w)"
  by (auto simp: set_outgoing_receiver_context_def dest!: set_update_subset_insert [THEN subsetD])

lemma wire_keeps:
  fixes e :: "'g channel_engine" and m :: nat and est t r :: "nat option"
  defines "e' \<equiv> wire_modem_trackers m est t r e"
  shows "map (map_option sw_running) (eg_source_workers e') = map (map_option sw_running) (eg_source_workers e)"
    and "steady_engine e \<Longrightarrow> steady_engine e'"
proof -
  have run: "map (map_option sw_running) (foldl (\<lambda>sws (src, out). with_worker src (set_outgoing_receiver_context out t' r') sws) sws refs) =
      map (map_option sw_running) sws" for t' r' sws refs
    by (induction refs arbitrary: sws) (auto simp: with_worker_keeps(1) [OF context_keeps])
  have st: "\<forall>w. Some w \<in> set sws \<longrightarrow> steady_worker w \<Longrightarrow>
      \<forall>w. Some w \<in> set (foldl (\<lambda>sws (src, out). with_worker src (set_outgoing_receiver_context out t' r') sws) sws refs) \<longrightarrow> steady_worker w"
    for t' r' sws refs
  proof (induction refs arbitrary: sws)
    case (Cons ref refs)
    obtain src out where ref: "ref = (src, out)" by fastforce
    have "\<forall>w. Some w \<in> set (with_worker src (set_outgoing_receiver_context out t' r') sws) \<longrightarrow> steady_worker w"
      by (rule with_worker_keeps(2) [OF context_keeps Cons.prems])
    from Cons.IH [OF this] show ?case by (simp add: ref)
  qed simp
  have est: "sw_running (set_source_tx_estimator x w) = sw_running w" "steady_worker w \<Longrightarrow> steady_worker (set_source_tx_estimator x w)" for x w
    by (simp_all add: set_source_tx_estimator_def)
  show "map (map_option sw_running) (eg_source_workers e') = map (map_option sw_running) (eg_source_workers e)"
    by (simp add: e'_def wire_modem_trackers_def Let_def run with_worker_keeps(1) [OF est])
  assume "steady_engine e"
  then have "\<forall>w. Some w \<in> set (eg_source_workers e) \<longrightarrow> steady_worker w" by (simp add: steady_engine_def)
  from st [OF with_worker_keeps(2) [OF est this]] this show "steady_engine e'"
    by (simp add: e'_def wire_modem_trackers_def Let_def steady_engine_def)
qed

lemma engine_worker_running: "map_option sw_running (engine_source_worker j e) =
    (if j < length (eg_source_workers e) then map (map_option sw_running) (eg_source_workers e) ! j else None)"
  by (simp add: engine_source_worker_def)

lemma start_io_thread_worker:
  "map_option sw_running (sim_worker j (start_io_thread i s)) = map_option sw_running (sim_worker j s)"
proof (cases "si_engine s")
  case (Some e)
  let ?e = "wire_modem_trackers i (Some i) (Some i) (Some i) e"
  have m: "map (map_option sw_running) (eg_source_workers ?e) = map (map_option sw_running) (eg_source_workers e)" by (rule wire_keeps(1))
  then have "length (eg_source_workers ?e) = length (eg_source_workers e)" by (metis length_map)
  with m Some show ?thesis by (simp add: sim_worker_def start_io_thread_def Let_def engine_worker_running)
qed (simp add: sim_worker_def start_io_thread_def Let_def)

lemma start_io_thread_phases: "phases_kept j s (start_io_thread i s)"
proof -
  have w: "sim_worker j (start_io_thread i s) = None \<longleftrightarrow> sim_worker j s = None"
    "(\<forall>w. sim_worker j (start_io_thread i s) = Some w \<longrightarrow> \<not> sw_running w) \<longleftrightarrow> (\<forall>w. sim_worker j s = Some w \<longrightarrow> \<not> sw_running w)"
    using start_io_thread_worker [of j i s]
    by (cases "sim_worker j s"; cases "sim_worker j (start_io_thread i s)"; simp)+
  have f: "si_io_threads (start_io_thread i s) = si_io_threads s @ [Spawned]" "si_worker_threads (start_io_thread i s) = si_worker_threads s"
    "\<exists>w. si_io_workers (start_io_thread i s) = si_io_workers s @ [w]"
    by (simp_all add: start_io_thread_def Let_def)
  from f(3) obtain io where io: "si_io_workers (start_io_thread i s) = si_io_workers s @ [io]" by blast
  show ?thesis by (auto simp: phases_kept_def phase_defs w f(1,2) io nth_append)
qed

lemma start_io_thread_steady: "steady_system s \<Longrightarrow> steady_system (start_io_thread i s)"
  using wire_keeps(2) by (auto simp: steady_system_def start_io_thread_def Let_def)

lemma acts_flags: "sim_acts env as s = ret s' \<Longrightarrow> Stop_Request \<notin> set as \<Longrightarrow>
    si_running s' = si_running s \<and> engine_running s' = engine_running s"
proof (induction as arbitrary: s)
  case (Cons a as)
  then obtain s1 where s1: "sim_act env a s = ret s1" "sim_acts env as s1 = ret s'" by (auto simp: and_then_eq_ret)
  with Cons.IH [OF s1(2)] act_flags [OF s1(1)] Cons.prems(2) show ?case by auto
qed simp

text \<open>What the start of the I/O threads leaves, from thread \<open>k\<close> on.\<close>

definition begins :: "(nat \<Rightarrow> sim_act list) \<Rightarrow> nat \<Rightarrow> nat \<Rightarrow> ('t, 'g) simulator \<Rightarrow> ('t, 'g) simulator \<Rightarrow> bool" where
  "begins spawn k n s s' \<longleftrightarrow> steady_system s' \<and> length (si_io_threads s') = n \<and>
     length (si_worker_threads s') = length (si_worker_threads s) \<and> si_running s' = si_running s \<and> engine_running s' = engine_running s \<and>
     (\<forall>i. phases_kept i s s') \<and> (\<forall>i \<in> {k..<n}. io_begun i s') \<and>
     (\<forall>i. \<forall>j \<in> {k..<n}. Worker_Begin i \<in> set (spawn j) \<longrightarrow> worker_there i s \<longrightarrow> worker_begun i s')"

lemma start_threads_begin:
  assumes "k \<le> n" and "steady_system s" and "length (si_io_workers s) = k" and "length (si_io_threads s) = k"
    and "\<forall>i \<in> {k..<n}. Io_Begin i \<in> set (spawn i) \<and> Stop_Request \<notin> set (spawn i)"
  shows "\<exists>s'. start_io_threads env spawn [k..<n] s = ret s' \<and> begins spawn k n s s'"
  using assms
proof (induction "n - k" arbitrary: k s)
  case 0
  then show ?case by (auto simp: begins_def phases_refl)
next
  case (Suc d)
  then have k: "k < n" by simp
  let ?t = "start_io_thread k s"
  have t: "steady_system ?t" "si_running ?t = si_running s" "engine_running ?t = engine_running s"
    "si_worker_threads ?t = si_worker_threads s" "length (si_io_threads ?t) = Suc k" "length (si_io_workers ?t) = Suc k"
    using start_io_thread_steady [OF Suc.prems(2)] Suc.prems(3,4)
    by (simp_all add: start_io_thread_def Let_def engine_running_def wire_modem_trackers_def split: option.split)
  obtain s1 where s1: "sim_acts env (spawn k) ?t = ret s1" "steady_system s1" using sim_acts_return [OF t(1)] by blast
  have spawn: "Io_Begin k \<in> set (spawn k)" "Stop_Request \<notin> set (spawn k)" using Suc.prems(5) k by auto
  have l1: "length (si_io_workers s1) = Suc k" "length (si_io_threads s1) = Suc k" "length (si_worker_threads s1) = length (si_worker_threads s)"
    using acts_frame [OF s1(1)] sim_acts_kept [OF s1(1)] t by (simp_all add: act_kept_def)
  have "d = n - Suc k" using Suc.hyps(2) by simp
  from Suc.hyps(1) [OF this, of s1] Suc.prems(5) s1(2) l1(1,2) k
  obtain s' where s': "start_io_threads env spawn [Suc k..<n] s1 = ret s'" "begins spawn (Suc k) n s1 s'" by auto
  have p: "phases_kept i s s1" "phases_kept i s1 s'" for i
    using phases_trans [OF start_io_thread_phases sim_acts_phases [OF s1(1)]] s'(2) by (simp_all add: begins_def)
  have "io_begun k s1" by (rule acts_io_begun [OF s1(1) spawn(1)]) (simp_all add: t)
  then have io: "\<forall>i \<in> {k..<n}. io_begun i s'" using s'(2) phasesD(1) [OF p(2)] by (auto simp: begins_def le_eq_less_or_eq)
  have w: "worker_begun i s'" if "Worker_Begin i \<in> set (spawn j)" "worker_there i s" "j \<in> {k..<n}" for i j
  proof (cases "j = k")
    case True
    have "worker_there i ?t" using phasesD(4) [OF start_io_thread_phases that(2)] .
    with acts_worker_begun [OF s1(1)] that(1) True phasesD(5) [OF p(2)] show ?thesis by blast
  next
    case False
    then have "j \<in> {Suc k..<n}" using that(3) by simp
    with s'(2) that(1) phasesD(4) [OF p(1) that(2)] show ?thesis unfolding begins_def by blast
  qed
  have "begins spawn k n s s'"
    using s'(2) l1(3) acts_flags [OF s1(1) spawn(2)] t(2,3) phases_trans [OF p] io w by (simp add: begins_def)
  with s1(1) s'(1) k show ?case by (simp add: upt_conv_Cons)
qed

lemma install_steady:
  fixes s :: "('t, 'g) simulator" and e :: "'g channel_engine" and env :: "('n, 'r, 't, 'g) sim_env"
  assumes "si_engine s = Some e" and "steady_engine e"
  shows "\<exists>e'. si_engine (install_observability env s) = Some e' \<and> steady_engine e' \<and> eg_started e' = eg_started e \<and>
    length (eg_source_workers e') = length (eg_source_workers e)"
proof -
  have st: "steady_engine (engine_set_processing_time_stats b us e)" for b us
    unfolding engine_set_processing_time_stats_def
    by (rule steady_each [OF assms(2)]) (simp add: sw_set_processing_deadline_us_def sw_set_processing_time_stats_def)
  have lg: "steady_engine (engine_set_message_event_logs logs e1)" if e1: "steady_engine e1" for e1 :: "'g channel_engine" and logs
    unfolding steady_engine_def
  proof (intro allI impI)
    fix w assume "Some w \<in> set (eg_source_workers (engine_set_message_event_logs logs e1))"
    then obtain i where i: "i < length (eg_source_workers e1)"
      "Some w = (if i < length logs then map_option (sw_set_message_event_log (logs ! i)) (eg_source_workers e1 ! i) else eg_source_workers e1 ! i)"
      by (auto simp: engine_set_message_event_logs_def)
    then obtain v where "eg_source_workers e1 ! i = Some v" "sw_outgoing w = sw_outgoing v"
      by (cases "eg_source_workers e1 ! i") (auto simp: sw_set_message_event_log_def split: if_splits)
    with i(1) e1 show "steady_worker w" unfolding steady_engine_def by (metis nth_mem)
  qed
  obtain e1 where e1: "si_engine (install_histogram s) = Some e1" "steady_engine e1" "eg_started e1 = eg_started e"
    "length (eg_source_workers e1) = length (eg_source_workers e)"
    using assms st setters_same(2) [of e]
    by (cases "lo_log_processing_time_histogram (sc_logging (si_scenario s))") (simp_all add: install_histogram_def same_engine_def)
  have "eg_started (engine_set_message_event_logs logs e1) = eg_started e1"
    "length (eg_source_workers (engine_set_message_event_logs logs e1)) = length (eg_source_workers e1)" for logs
    by (simp_all add: engine_set_message_event_logs_def)
  with e1 lg [OF e1(2)] show ?thesis by (simp add: install_observability_def install_event_logs_def Let_def)
qed

text \<open>A schedule under which every thread begins before the stop and gets a turn after it.\<close>

definition orderly :: "nat \<Rightarrow> sim_sched \<Rightarrow> bool" where
  "orderly n sched \<longleftrightarrow> Stop_Request \<in> set (concat (ss_seconds sched)) \<and>
     (\<forall>i < n. Io_Begin i \<in> set (ss_spawn sched i) \<and> (\<exists>k < n. Worker_Begin i \<in> set (ss_spawn sched k)) \<and>
        Stop_Request \<notin> set (ss_spawn sched i) \<and> Io_Turn i \<in> set (ss_join sched) \<and> Worker_Turn i \<in> set (ss_drain sched))"

lemma started_workers:
  assumes "initialize env (simulator_new path) = (s, Inr True)" and "run_begin env t0 t1 s = (s1, True)"
    and "\<forall>cc \<in> set (sc_channels (si_scenario s)). steady_config cc"
  defines "s2 \<equiv> sim_engine_start s1"
  shows "steady_system s2 \<and> engine_running s2 \<and> length (si_worker_threads s2) = length (si_modems s) \<and>
    (\<forall>i < length (si_modems s). worker_there i s2)"
proof -
  let ?s = "s\<lparr>si_running := True, si_run_started_at := t0, si_run_started_steady := t1\<rparr>"
  obtain e where e: "channel_engine_new (se_gauss env) (se_gauss_init env) (se_files env) (si_scenario s) (sim_contexts (si_scenario s) (si_modems s)) = Inr e"
    "si_engine ?s = Some (engine_set_metrics True e)"
    using initialize_initialised [OF assms(1)] by (auto simp: initialised_def)
  have "steady_engine (engine_set_metrics True e)"
    unfolding engine_set_metrics_def by (rule steady_each [OF steady_engine_new [OF e(1) assms(3)]]) (simp add: sw_set_metrics_def)
  from install_steady [OF e(2) this, of env] obtain e1 where e1: "si_engine (install_observability env ?s) = Some e1" "steady_engine e1"
    "eg_started e1 = eg_started (engine_set_metrics True e)" "length (eg_source_workers e1) = length (eg_source_workers (engine_set_metrics True e))"
    by blast
  have g: "\<not> eg_started e1" "length (eg_source_workers e1) = length (si_modems s)"
    using engine_of_graph [OF e(1)] setters_same(1) [of e True] e1(3,4) by (auto simp: same_engine_def graph_ok_def)
  have "si_engine s1 = Some e1" using assms(2) e1(1) by (auto simp: run_begin_def Let_def split: prod.splits if_splits)
  with g have s2: "si_engine s2 = Some (engine_start e1)"
    "si_worker_threads s2 = map (\<lambda>sw. case sw of None \<Rightarrow> Ended | Some _ \<Rightarrow> Spawned) (eg_source_workers e1)"
    "eg_source_workers (engine_start e1) = eg_source_workers e1" "eg_started (engine_start e1)"
    by (simp_all add: s2_def sim_engine_start_def engine_start_def)
  have "worker_there i s2" if "i < length (si_modems s)" for i
    using that s2 g(2) by (cases "eg_source_workers e1 ! i") (simp_all add: worker_there_def sim_worker_def engine_source_worker_def)
  with s2 e1(2) g(2) show ?thesis by (simp add: steady_system_def steady_engine_def engine_running_def)
qed

lemma run_returns_after_stop:
  fixes path :: string and sched :: sim_sched
  assumes "initialize env (simulator_new path) = (s, Inr True)" and "run_begin env (ss_started_at sched) (ss_started_steady sched) s = (s1, True)"
    and "\<forall>cc \<in> set (sc_channels (si_scenario s)). steady_config cc" and "orderly (length (si_modems s)) sched"
  shows "\<exists>s'. sim_run env sched s = ret s' \<and> all_ended (si_worker_threads s')"
proof -
  let ?n = "length (si_modems s)"
  let ?s2 = "sim_engine_start s1"
  note w = started_workers [OF assms(1-3)]
  note b = run_begin_ok [OF initialize_initialised [OF assms(1)] assms(2)]
  have spawn: "\<forall>i \<in> {0..<?n}. Io_Begin i \<in> set (ss_spawn sched i) \<and> Stop_Request \<notin> set (ss_spawn sched i)"
    using assms(4) by (simp add: orderly_def)
  have n1: "length (si_modems s1) = ?n" using b by simp
  obtain s3 where s3: "start_io_threads env (ss_spawn sched) [0..<?n] ?s2 = ret s3" "begins (ss_spawn sched) 0 ?n ?s2 s3"
    using start_threads_begin [of 0 ?n ?s2 "ss_spawn sched" env] w b spawn by auto
  have "worker_begun i s3" if i: "i < ?n" for i
  proof -
    obtain k where "k \<in> {0..<?n}" "Worker_Begin i \<in> set (ss_spawn sched k)" using assms(4) i by (auto simp: orderly_def)
    with s3(2) w i show ?thesis unfolding begins_def by blast
  qed
  with s3(2) w b have "all_begun ?n s3" by (simp add: begins_def all_begun_def)
  then obtain s4 where s4: "run_threads env sched s3 = ret s4" "all_ended (si_worker_threads s4)"
    using run_threads_stop [of ?n s3 sched env] assms(4) by (auto simp: orderly_def)
  have "si_worker_threads (run_end env (ss_ended_at sched) (ss_ended_steady sched) s4) = si_worker_threads s4"
    by (simp add: run_end_def Let_def emit_run_summary_def split: option.split)
  with s3(1) s4 assms(2) n1 show ?thesis by (simp add: sim_run_def)
qed

end
