(* ===== verification/System_Properties.thy ===== *)
theory System_Properties
  imports System_Progress
begin

text \<open>
  The properties of the whole program: its initialisation, every state its threads can reach, the stop and
  what a run leaves behind; each with the small system as an instance.
\<close>

section \<open>The small system runs\<close>

lemma mock_enters:
  assumes "mk_is_open (md_transport m)"
  shows "\<exists>m'. modem_enter_hil_mode mock_transport m = (m', Inr ())"
  using assms length_encode_command [of ENTER_HIL_MODE "[]"]
  by (simp add: modem_enter_hil_mode_def mock_transport_def mock_send_control_def Let_def tr_ok_def)

lemma mocks_enter: "\<forall>m \<in> set ms. mk_is_open (md_transport m) \<Longrightarrow> \<exists>ms'. enter_all mock_transport ms = (ms', True)"
proof (induction ms)
  case (Cons m ms)
  obtain m' where "modem_enter_hil_mode mock_transport m = (m', Inr ())" using mock_enters [of m] Cons.prems by auto
  with Cons show ?case by (auto simp: Let_def)
qed simp

lemma pair_runs:
  "\<exists>s s1. initialize pair_env (simulator_new ''x'') = (s, Inr True) \<and> run_begin pair_env 0 0 s = (s1, True) \<and>
     map md_id (si_modems s) = [''s1'', ''s2''] \<and> (\<forall>cc \<in> set (sc_channels (si_scenario s)). steady_config cc) \<and>
     lo_log_message_events (sc_logging (si_scenario s))"
proof -
  obtain s c where s: "initialize pair_env (simulator_new ''x'') = (s, Inr True)" "map md_id (si_modems s) = [''s1'', ''s2'']"
    "\<forall>m \<in> set (si_modems s). ready (\<lambda>_. default_calibration) m" "lo_log_message_events (sc_logging (si_scenario s))"
    "sc_modems (si_scenario s) = pair_modems" "sc_channels (si_scenario s) = [c]" "on_pair c"
    using pair_initialize [of "''x''"] by (elim exE conjE) (rule that)
  let ?s = "install_observability pair_env (s\<lparr>si_running := True, si_run_started_at := 0, si_run_started_steady := 0\<rparr>)"
  have ms: "si_modems ?s = si_modems s" by (simp add: install_observability_def install_event_logs_def install_histogram_def Let_def)
  obtain ms where "enter_all mock_transport (si_modems s) = (ms, True)" using mocks_enter [of "si_modems s"] s(3) by (auto simp: ready_def)
  then have "run_begin pair_env 0 0 s = (?s\<lparr>si_modems := ms\<rparr>, True)" by (simp add: run_begin_def ms Let_def) (simp add: pair_env_def)
  moreover have "steady_config c" using s(7) by (simp add: on_pair_def steady_config_def)
  ultimately show ?thesis using s by auto
qed

text \<open>Every thread begins, both modems and the worker take turns, and the stop comes in the second second.\<close>

definition pair_sched :: sim_sched where
  "pair_sched = \<lparr>ss_started_at = 0, ss_started_steady = 0, ss_spawn = (\<lambda>i. [Io_Begin i, Worker_Begin 0, Worker_Begin 1]),
     ss_seconds = [[Io_Turn 0, Worker_Turn 0, Io_Turn 1], [Io_Turn 1, Stop_Request]], ss_join = [Io_Turn 0, Io_Turn 1],
     ss_drain = [Worker_Turn 0, Worker_Turn 1], ss_ended_at = 10 ^ 9, ss_ended_steady = 10 ^ 9\<rparr>"

lemma pair_orderly: "orderly 2 pair_sched"
  by (auto simp: orderly_def pair_sched_def less_2_cases_iff)

section \<open>Initialisation\<close>

lemma calibrate_loop_id: "md_id (fst (calibrate_loop tp n buf m)) = md_id m"
proof (induction tp n buf m rule: calibrate_loop.induct)
  case (2 tp n buf m)
  obtain t r w where rc: "tp_recv_control tp 64 CTRL_TIMEOUT_MS (md_transport m) = (t, r, w)" by (metis prod_cases3)
  with "2.IH" [OF rc [symmetric] refl refl refl] show ?case
    by (cases "tr_timed_out r"; cases "tr_ok r"; cases "fst (decode_calibration (overwrite w buf) (md_calibration m))")
      (simp_all add: Let_def)
qed simp

lemma calibrate_id: "md_id (fst (modem_calibrate tp m)) = md_id m"
  by (simp add: modem_calibrate_def calibrate_loop_id Let_def split: prod.split)

lemma discover_loop_ids: "discover_loop tp factory cfgs modems = (ts, Inr ms) \<Longrightarrow>
    map md_id ms = map md_id modems @ map mi_usb_serial cfgs"
proof (induction cfgs arbitrary: modems)
  case (Cons cfg cfgs)
  let ?c = "modem_connect tp (modem_new (factory (mi_usb_serial cfg)) (mi_usb_serial cfg))"
  have c: "md_id (fst ?c) = mi_usb_serial cfg" by (simp add: modem_connect_def modem_new_def Let_def)
  obtain m2 cal m3 where m: "modem_calibrate tp (fst ?c) = (m2, Inr cal)" "modem_enter_hil_mode tp m2 = (m3, Inr ())"
    "discover_loop tp factory cfgs (modems @ [m3]) = (ts, Inr ms)"
    using Cons.prems by (auto simp: discover_loop.simps(2) Let_def split: if_splits prod.splits sum.splits)
  have "md_id m3 = mi_usb_serial cfg"
    using m(2) calibrate_id [of tp "fst ?c"] m(1) c by (auto simp: modem_enter_hil_mode_def split: prod.splits)
  with Cons.IH [OF m(3)] show ?case by simp
qed simp

lemma initialize_cases:
  assumes "initialize env (simulator_new path) = (s, r)"
  obtains (scenario) "snd (sim_load_scenario env (simulator_new path)) \<noteq> Inr True" and "si_modems s = []" and "si_destroyed s = []" and "si_engine s = None"
  | (links) ts e where "discover_and_connect (se_transport env) (se_factory env) (map ident_of (sc_modems (si_scenario s))) = (ts, Inl e)"
      "snd (sim_load_scenario env (simulator_new path)) = Inr True" "si_modems s = []" "si_destroyed s = ts" "si_engine s = None" "r = Inr False"
  | (connected) "discover_and_connect (se_transport env) (se_factory env) (map ident_of (sc_modems (si_scenario s))) = ([], Inr (si_modems s))"
      "si_destroyed s = []" "r \<noteq> Inr False"
proof -
  have nil: "ts = []" if "discover_and_connect tp f cfgs = (ts, Inr ms)" for tp :: "'t transport" and f cfgs ts ms
  proof -
    have "discover_loop tp f cfgs modems = (ts, Inr ms) \<Longrightarrow> ts = []" for modems
      by (induction cfgs arbitrary: modems) (auto simp: discover_loop.simps(2) Let_def split: if_splits prod.splits sum.splits)
    with that show ?thesis by (simp add: discover_and_connect_def)
  qed
  obtain s1 r1 where l: "sim_load_scenario env (simulator_new path) = (s1, r1)" by fastforce
  then have f: "si_modems s1 = []" "si_destroyed s1 = []" "si_engine s1 = None"
    by (auto simp: sim_load_scenario_def simulator_new_def split: sum.splits load_error.splits)
  show thesis
  proof (cases "r1 = Inr True")
    case False
    with assms l have "s = s1" by (auto simp: initialize_def split: sum.splits bool.splits)
    with f l False scenario show thesis by simp
  next
    case True
    obtain ts d where d: "discover_and_connect (se_transport env) (se_factory env) (map ident_of (sc_modems (si_scenario s1))) = (ts, d)" by fastforce
    show thesis
    proof (cases d)
      case (Inl e)
      with d True l assms have "s = s1\<lparr>si_destroyed := si_destroyed s1 @ ts\<rparr>" "r = Inr False"
        by (auto simp: initialize_def discover_modems_def)
      with d Inl f l True links show thesis by simp
    next
      case (Inr ms)
      let ?s2 = "s1\<lparr>si_modems := ms\<rparr>"
      have "build_channel_engine env ?s2 = (s, r)" using d Inr True l assms by (simp add: initialize_def discover_modems_def calibrate_modems_def)
      then have "si_modems s = ms" "si_destroyed s = []" "si_scenario s = si_scenario s1" "r \<noteq> Inr False"
        using f(2) by (auto simp: build_channel_engine_def Let_def split: sum.splits)
      with d Inr nil [of _ _ _ ts ms] connected show thesis by simp
    qed
  qed
qed

lemma sim_contexts_nth:
  assumes "i < length modems"
  shows "\<exists>rate taps. sim_contexts cfg modems ! i = sim_context cfg rate taps i (modems ! i)"
  using assms by (auto simp: sim_contexts_def Let_def)

lemma find_nth_unique: "distinct (map f xs) \<Longrightarrow> i < length xs \<Longrightarrow> find (\<lambda>x. f x = f (xs ! i)) xs = Some (xs ! i)"
  by (auto simp: find_Some_iff distinct_conv_nth intro!: exI [of _ i])

text \<open>With distinct serials the contexts carry the scenario's names in the scenario's order.\<close>

lemma context_names:
  assumes "map md_id modems = map mo_usb_serial (sc_modems cfg)" and "distinct (map mo_usb_serial (sc_modems cfg))" and "i < length modems"
  shows "pc_id (sim_contexts cfg modems ! i) = mo_id (sc_modems cfg ! i)"
proof -
  have len: "length modems = length (sc_modems cfg)" using assms(1) by (metis length_map)
  then have "md_id (modems ! i) = mo_usb_serial (sc_modems cfg ! i)" using arg_cong [OF assms(1), of "\<lambda>xs. xs ! i"] assms(3) by simp
  then have "config_of (sc_modems cfg) (modems ! i) = Some (sc_modems cfg ! i)"
    using find_nth_unique [OF assms(2), of i] assms(3) len by (simp add: config_of_def)
  with sim_contexts_nth [OF assms(3), of cfg] show ?thesis by (auto simp: sim_context_def Let_def context_id_def)
qed

lemma modem_index_unique:
  assumes "distinct (map pc_id ms)" and "i < length ms"
  shows "modem_index ms (pc_id (ms ! i)) = Inr i"
proof -
  have "find (\<lambda>k. pc_id (ms ! k) = pc_id (ms ! i)) [0..<length ms] = Some i"
    using assms by (auto simp: find_Some_iff distinct_conv_nth)
  then show ?thesis by (simp add: modem_index_def)
qed

lemma initialized_scenario:
  assumes "initialize env (simulator_new path) = (s, Inr True)"
  shows "scenario_ok (se_files env) (si_scenario s)"
proof -
  obtain dir src doc where "parse_scenario (se_yaml env) (se_normal env) (se_files env) doc src dir = Inr (si_scenario s)"
    using assms(1)
    by (auto simp: initialize_def sim_load_scenario_def load_scenario_def discover_modems_def build_channel_engine_def calibrate_modems_def Let_def
      split: sum.splits prod.splits load_error.splits bool.splits)
  from parse_scenario_ok [OF this] show ?thesis .
qed

lemma names_resolve:
  assumes "initialize env (simulator_new path) = (s, Inr True)"
  defines "mcs \<equiv> sc_modems (si_scenario s)"
  assumes "distinct (map mo_usb_serial mcs)" and "i < length mcs"
  shows "\<exists>e. si_engine s = Some e \<and> modem_index (eg_modems e) (mo_id (mcs ! i)) = Inr i \<and> md_id (si_modems s ! i) = mo_usb_serial (mcs ! i)"
proof -
  obtain e where e: "channel_engine_new (se_gauss env) (se_gauss_init env) (se_files env) (si_scenario s) (sim_contexts (si_scenario s) (si_modems s)) = Inr e"
    "si_engine s = Some (engine_set_metrics True e)"
    using initialize_initialised [OF assms(1)] by (auto simp: initialised_def)
  have "discover_and_connect (se_transport env) (se_factory env) (map ident_of mcs) = ([], Inr (si_modems s))"
    by (rule initialize_cases [OF assms(1)]) (use e(2) mcs_def in simp_all)
  then have ids: "map md_id (si_modems s) = map mo_usb_serial mcs"
    using discover_loop_ids [of "se_transport env" "se_factory env" "map ident_of mcs" "[]"] by (simp add: discover_and_connect_def ident_of_def comp_def)
  then have len: "length (si_modems s) = length mcs" by (metis length_map)
  have "distinct (map mo_id mcs)" using initialized_scenario [OF assms(1)] by (simp add: scenario_ok_def mcs_def)
  moreover have "map pc_id (sim_contexts (si_scenario s) (si_modems s)) = map mo_id mcs"
    using context_names [OF ids [unfolded mcs_def] assms(3) [unfolded mcs_def]] len by (intro nth_equalityI) (simp_all add: mcs_def)
  ultimately have "modem_index (sim_contexts (si_scenario s) (si_modems s)) (mo_id (mcs ! i)) = Inr i"
    using modem_index_unique [of "sim_contexts (si_scenario s) (si_modems s)" i] assms(4) len
      context_names [OF ids [unfolded mcs_def] assms(3) [unfolded mcs_def], of i] by (simp add: mcs_def)
  moreover have "eg_modems (engine_set_metrics True e) = sim_contexts (si_scenario s) (si_modems s)"
    using engine_of_graph [OF e(1)] setters_same(1) [of e True] by (auto simp: same_engine_def)
  moreover have "md_id (si_modems s ! i) = mo_usb_serial (mcs ! i)" using arg_cong [OF ids, of "\<lambda>xs. xs ! i"] assms(4) len by simp
  ultimately show ?thesis using e(2) by simp
qed

lemma add_modem_open: "\<not> sl_finalized l \<Longrightarrow> \<not> sl_finalized (foldl (add_modem openable limit) l ms)"
  by (induction ms arbitrary: l) (simp_all add: add_modem_def Let_def)

lemma initialized_logger: "initialize env (simulator_new path) = (s, Inr True) \<Longrightarrow> \<exists>l. si_logger s = Some l \<and> \<not> sl_finalized l"
  by (auto simp: initialize_def discover_modems_def build_channel_engine_def calibrate_modems_def stream_logger_new_def Let_def add_modem_open
      split: sum.splits prod.splits bool.splits if_splits)

lemma run_begin_accepted: "(\<exists>s1. run_begin env t0 t1 s = (s1, True)) \<longleftrightarrow>
    (\<forall>m \<in> set (si_modems s). \<not> isl (snd (modem_enter_hil_mode (se_transport env) m)))"
proof -
  let ?s = "install_observability env (s\<lparr>si_running := True, si_run_started_at := t0, si_run_started_steady := t1\<rparr>)"
  have "si_modems ?s = si_modems s" by (simp add: install_observability_def install_event_logs_def install_histogram_def Let_def)
  moreover obtain ms ok where "enter_all (se_transport env) (si_modems s) = (ms, ok)" by fastforce
  ultimately show ?thesis
    using enter_all_accepted [of "se_transport env" "si_modems s"] by (cases ok) (simp_all add: run_begin_def Let_def)
qed

section \<open>What the invariant says\<close>

lemma exclusiveD: "exclusive ls \<Longrightarrow> i < length ls \<Longrightarrow> j < length ls \<Longrightarrow> i \<noteq> j \<Longrightarrow> set (ls ! i) \<inter> set (ls ! j) = {}"
  by (simp add: exclusive_def)

lemma system_facts:
  assumes "system_ok s"
  shows "\<exists>e. si_engine s = Some e \<and> length (si_buffers s) = length (si_modems s) \<and>
    (\<forall>b \<in> set (si_buffers s). spsc_inv (mb_tx_ring b) \<and> spsc_inv (mb_rx_ring b)) \<and> list_all pb_ok (eg_pair_buffers e) \<and>
    (\<forall>i w. engine_source_worker i e = Some w \<longrightarrow> sw_runtime w = i \<and> sw_tx_ring w = i \<and> worker_ok w (sim_store s)) \<and>
    (\<forall>i rm. engine_receiver_mix i e = Some rm \<longrightarrow> mix_wf rm (eg_pair_buffers e)) \<and>
    (\<forall>i j v w. i \<noteq> j \<longrightarrow> engine_source_worker i e = Some v \<longrightarrow> engine_source_worker j e = Some w \<longrightarrow>
       og_pair_buffer ` set (sw_outgoing v) \<inter> og_pair_buffer ` set (sw_outgoing w) = {}) \<and>
    (\<forall>i j v w. i \<noteq> j \<longrightarrow> engine_receiver_mix i e = Some v \<longrightarrow> engine_receiver_mix j e = Some w \<longrightarrow>
       set (rm_incoming v) \<inter> set (rm_incoming w) = {})"
proof -
  obtain e where e: "si_engine s = Some e" "engine_sound (length (si_io_workers s)) (length (si_message_event_logs s)) (sim_store s) e"
    by (rule system_engine [OF assms])
  have bufs: "length (si_buffers s) = length (si_modems s)" "list_all rings_ok (si_buffers s)" using assms by (simp_all add: system_ok_def)
  have writers: "og_pair_buffer ` set (sw_outgoing v) \<inter> og_pair_buffer ` set (sw_outgoing w) = {}"
    if "i \<noteq> j" "engine_source_worker i e = Some v" "engine_source_worker j e = Some w" for i j v w
    using exclusiveD [of "written_by e" i j] e(2) engine_worker_range [OF that(2)] engine_worker_range [OF that(3)] that(1)
    by (simp add: engine_sound_def written_by_def)
  have readers: "set (rm_incoming v) \<inter> set (rm_incoming w) = {}"
    if "i \<noteq> j" "engine_receiver_mix i e = Some v" "engine_receiver_mix j e = Some w" for i j v w
    using exclusiveD [of "read_by e" i j] e(2) that by (auto simp: engine_sound_def read_by_def engine_receiver_mix_def split: if_splits)
  have mixes: "mix_wf rm (eg_pair_buffers e)" if "engine_receiver_mix i e = Some rm" for i rm
    using e(2) that mix_fits_wf [of rm] by (auto simp: engine_sound_def engine_receiver_mix_def split: if_splits)
  have workers: "sw_runtime w = i \<and> sw_tx_ring w = i \<and> worker_ok w (sim_store s)" if "engine_source_worker i e = Some w" for i w
    using e(2) that by (simp add: engine_sound_def worker_placed_def)
  show ?thesis
    using e(1) bufs writers readers mixes workers e(2) by (intro exI [of _ e]) (simp add: engine_sound_def list_all_iff rings_ok_def)
qed

section \<open>Properties\<close>

text \<open>C4: A run ends when it is told to. Take an initialised program whose modems enter HIL mode and whose
  channels are all of a tap-based model, or static without motion. Under any schedule in which every thread
  begins while the I/O threads are started, a stop arrives in some second after that, and every thread gets a
  turn during the joins, \<open>run\<close> returns and every worker thread has ended; what else the threads do, and how
  often, is arbitrary. Nothing throws.\<close>

theorem stopped_run_returns:
  assumes "initialize env (simulator_new path) = (s, Inr True)" and "run_begin env (ss_started_at sched) (ss_started_steady sched) s = (s1, True)"
    and "\<forall>cc \<in> set (sc_channels (si_scenario s)). ch_mode cc = Mode_Static \<longrightarrow>
      ch_velocity_radial_m_s cc = 0 \<and> ch_acceleration_radial_m_s2 cc = 0 \<and> - 900000 \<le> ch_clock_offset_ppm cc"
    and "Stop_Request \<in> set (concat (ss_seconds sched))"
    and "\<forall>i < length (si_modems s). Io_Begin i \<in> set (ss_spawn sched i) \<and>
      (\<exists>k < length (si_modems s). Worker_Begin i \<in> set (ss_spawn sched k)) \<and> Stop_Request \<notin> set (ss_spawn sched i) \<and>
      Io_Turn i \<in> set (ss_join sched) \<and> Worker_Turn i \<in> set (ss_drain sched)"
  shows "\<exists>s'. sim_run env sched s = ret s' \<and> all_ended (si_worker_threads s')"
  by (rule run_returns_after_stop [OF assms(1,2)]) (use assms(3-5) in \<open>simp_all add: steady_config_def orderly_def\<close>)

theorem stopped_run_returns_witness:
  "\<exists>s s'. initialize pair_env (simulator_new ''x'') = (s, Inr True) \<and> length (si_modems s) = 2 \<and> sim_run pair_env pair_sched s = ret s' \<and>
     all_ended (si_worker_threads s')"
proof -
  obtain s s1 where s: "initialize pair_env (simulator_new ''x'') = (s, Inr True)" "run_begin pair_env 0 0 s = (s1, True)"
    "map md_id (si_modems s) = [''s1'', ''s2'']" "\<forall>cc \<in> set (sc_channels (si_scenario s)). steady_config cc"
    using pair_runs by (elim exE conjE) (rule that)
  have n: "length (si_modems s) = 2" using arg_cong [OF s(3), of length] by simp
  have "\<exists>s'. sim_run pair_env pair_sched s = ret s' \<and> all_ended (si_worker_threads s')"
    by (rule stopped_run_returns [OF s(1)])
      (use s(2,4) pair_orderly in \<open>simp_all add: n steady_config_def orderly_def pair_sched_def\<close>)
  with s(1) n show ?thesis by blast
qed

text \<open>C11: What \<open>run\<close> leaves behind whenever it returns, whatever the schedule. The run flag is down, the
  engine is marked stopped and no I/O thread is left. If every modem had entered HIL mode, all modems have then
  been told to leave it, the audio logger is finalised, every event log is closed, and exactly when the scenario
  asks for a summary and its path can be written one summary file has been written, the summary of the final
  state, with the modems in the scenario's order. If a modem refused, \<open>run\<close> has returned early: no worker
  thread was started, the modems before the refusing one are left in HIL mode and the ones after it untouched,
  the logger is not finalised, the event logs are still open and no summary is written. Whether the worker
  threads of a started run have ended is not said here: after a stop from another thread \<open>run\<close> does not wait
  for them.\<close>

theorem run_shuts_down:
  assumes "initialize env (simulator_new path) = (s, Inr True)" and "sim_run env sched s = ret s'"
  shows "let tp = se_transport env; cfg = sc_logging (si_scenario s); summary_path = resolve_run_summary_path (si_scenario s);
      refuses = (\<lambda>m. isl (snd (modem_enter_hil_mode tp m)))
    in \<not> si_running s' \<and> \<not> engine_running s' \<and> si_io_threads s' = [] \<and>
      (if \<forall>m \<in> set (si_modems s). \<not> refuses m
       then (\<exists>ms. si_modems s' = map (modem_exit_hil_mode tp) ms) \<and> map md_id (si_modems s') = map md_id (si_modems s) \<and>
         (\<exists>l. si_logger s' = Some l \<and> sl_finalized l) \<and> list_all (\<lambda>l. \<not> el_open l) (si_message_event_logs s') \<and>
         si_written s' = (if run_summary_enabled cfg \<and> se_writable env summary_path
           then [(summary_path, serialize_run_summary (se_dump env) (run_summary_of (ss_ended_at sched) (ss_ended_steady sched) s'))] else [])
       else (\<exists>k < length (si_modems s). (\<forall>i < k. \<not> refuses (si_modems s ! i)) \<and> refuses (si_modems s ! k) \<and>
           si_modems s' = map (entered_hil tp) (take k (si_modems s)) @
             fst (modem_enter_hil_mode tp (si_modems s ! k)) # drop (Suc k) (si_modems s)) \<and>
         si_worker_threads s' = [] \<and> (\<exists>l. si_logger s' = Some l \<and> \<not> sl_finalized l) \<and> si_written s' = [] \<and>
         map el_open (si_message_event_logs s') =
           (if lo_log_message_events cfg then map (\<lambda>m. se_writable env (events_path cfg m)) (si_modems s) else []))"
proof (cases "\<forall>m \<in> set (si_modems s). \<not> isl (snd (modem_enter_hil_mode (se_transport env) m))")
  case True
  then obtain s1 where "run_begin env (ss_started_at sched) (ss_started_steady sched) s = (s1, True)"
    using run_begin_accepted by blast
  from run_shutdown [OF assms(1) this assms(2)] True show ?thesis by (simp add: Let_def)
next
  case False
  then obtain s2 ms' where r: "sim_run env sched s = ret s2" "enter_all (se_transport env) (si_modems s) = (ms', False)" "si_modems s2 = ms'"
    "\<not> si_running s2" "\<not> engine_running s2" "si_io_threads s2 = []" "si_worker_threads s2 = []"
    "si_logger s2 = si_logger s" "si_written s2 = []"
    "map el_open (si_message_event_logs s2) = (let cfg = sc_logging (si_scenario s)
      in if lo_log_message_events cfg then map (\<lambda>m. se_writable env (events_path cfg m)) (si_modems s) else [])"
    using run_refused [OF assms(1), of sched] by auto
  have "s2 = s'" using r(1) assms(2) by simp
  with r initialized_logger [OF assms(1)] enter_all_refused [OF r(2)] show ?thesis
    unfolding Let_def if_not_P [OF False] by simp
qed

theorem run_shuts_down_witness:
  "\<exists>s s'. initialize pair_env (simulator_new ''x'') = (s, Inr True) \<and> sim_run pair_env pair_sched s = ret s' \<and> \<not> si_running s' \<and>
     length (si_written s') = 1 \<and> list_all (\<lambda>l. \<not> el_open l) (si_message_event_logs s') \<and> map md_id (si_modems s') = [''s1'', ''s2'']"
proof -
  obtain s s1 where s: "initialize pair_env (simulator_new ''x'') = (s, Inr True)" "run_begin pair_env 0 0 s = (s1, True)"
    "map md_id (si_modems s) = [''s1'', ''s2'']" "\<forall>cc \<in> set (sc_channels (si_scenario s)). steady_config cc"
    "lo_log_message_events (sc_logging (si_scenario s))"
    using pair_runs by (elim exE conjE) (rule that)
  have n: "length (si_modems s) = 2" using arg_cong [OF s(3), of length] by simp
  have b: "run_begin pair_env (ss_started_at pair_sched) (ss_started_steady pair_sched) s = (s1, True)" using s(2) by (simp add: pair_sched_def)
  obtain s' where s': "sim_run pair_env pair_sched s = ret s'"
    using run_returns_after_stop [OF s(1) b s(4)] n pair_orderly by auto
  have "\<forall>m \<in> set (si_modems s). \<not> isl (snd (modem_enter_hil_mode (se_transport pair_env) m))"
    using b run_begin_accepted [of pair_env "ss_started_at pair_sched" "ss_started_steady pair_sched" s] by auto
  moreover have "run_summary_enabled (sc_logging (si_scenario s))" "se_writable pair_env p" for p
    using s(5) by (simp_all add: run_summary_enabled_def pair_env_def)
  ultimately show ?thesis using run_shuts_down [OF s(1) s'] s(1,3) s' by (auto simp: Let_def)
qed

text \<open>C2: In every state the program reaches between the start of its threads and its last join, in whatever
  order the threads take their turns, stops arrive and seconds pass: the rings are consistent; the pair
  buffers are well formed; the worker of a modem reads that modem's ring and state and is wired to distinct
  existing buffers; the mix of every modem reads distinct existing buffers; and no two workers write, and no
  two mixes read, the same pair buffer or ring, so every shared queue has one producer and one consumer.\<close>

theorem reachable_states_are_sound:
  assumes "reachable env path s"
  shows "\<exists>e. si_engine s = Some e \<and> length (si_buffers s) = length (si_modems s) \<and>
    (\<forall>b \<in> set (si_buffers s). spsc_inv (mb_tx_ring b) \<and> spsc_inv (mb_rx_ring b)) \<and> list_all pb_ok (eg_pair_buffers e) \<and>
    (\<forall>i w. engine_source_worker i e = Some w \<longrightarrow> sw_runtime w = i \<and> sw_tx_ring w = i \<and> worker_ok w (sim_store s)) \<and>
    (\<forall>i rm. engine_receiver_mix i e = Some rm \<longrightarrow> mix_wf rm (eg_pair_buffers e)) \<and>
    (\<forall>i j v w. i \<noteq> j \<longrightarrow> engine_source_worker i e = Some v \<longrightarrow> engine_source_worker j e = Some w \<longrightarrow>
       og_pair_buffer ` set (sw_outgoing v) \<inter> og_pair_buffer ` set (sw_outgoing w) = {}) \<and>
    (\<forall>i j v w. i \<noteq> j \<longrightarrow> engine_receiver_mix i e = Some v \<longrightarrow> engine_receiver_mix j e = Some w \<longrightarrow>
       set (rm_incoming v) \<inter> set (rm_incoming w) = {})"
  by (rule system_facts [OF reachable_ok [OF assms]])

theorem reachable_states_are_sound_witness:
  "\<exists>s e. reachable pair_env ''x'' s \<and> length (si_io_workers s) = 2 \<and> si_engine s = Some e \<and> list_all pb_ok (eg_pair_buffers e)"
proof -
  obtain s s1 where s: "initialize pair_env (simulator_new ''x'') = (s, Inr True)" "run_begin pair_env 0 0 s = (s1, True)"
    "map md_id (si_modems s) = [''s1'', ''s2'']" "\<forall>cc \<in> set (sc_channels (si_scenario s)). steady_config cc"
    using pair_runs by (elim exE conjE) (rule that)
  have n: "length (si_modems s) = 2" using arg_cong [OF s(3), of length] by simp
  note b = run_begin_ok [OF initialize_initialised [OF s(1)] s(2)]
  note w = started_workers [OF s(1,2,4)]
  have "\<forall>i \<in> {0..<2}. Io_Begin i \<in> set (ss_spawn pair_sched i) \<and> Stop_Request \<notin> set (ss_spawn pair_sched i)"
    using pair_orderly by (simp add: orderly_def)
  with start_threads_begin [of 0 2 "sim_engine_start s1" "ss_spawn pair_sched" pair_env] w b
  obtain s2 where s2: "start_io_threads pair_env (ss_spawn pair_sched) [0..<2] (sim_engine_start s1) = ret s2" by auto
  have "length (si_modems (sim_engine_start s1)) = length (si_modems s)" using b by (metis length_map)
  then have r: "reachable pair_env ''x'' s2 \<and> length (si_io_workers s2) = 2"
    using start_threads_reachable [OF s2 reach_begin [OF s(1,2)]] b n by simp
  from reachable_states_are_sound [OF conjunct1 [OF r]]
  obtain e where "si_engine s2 = Some e" "list_all pb_ok (eg_pair_buffers e)" by (elim exE conjE) (rule that)
  with r show ?thesis by (intro exI [of _ s2] exI [of _ e]) simp
qed

text \<open>C19: When initialisation reports failure, everything it opened has been closed again: no modem and no
  engine remain, and the program exits with a failure code. If the scenario did not load, no link had been made.
  Otherwise the modems were brought up in the scenario's order to the first one that did not connect, deliver a
  valid calibration and enter HIL mode, and the links given back are exactly that modem's and those of the
  modems before it, each after its modem was destroyed; over any link that keeps the interface's promises they
  are closed.\<close>

theorem failed_initialisation_closes_links:
  assumes "modem_link (se_transport env)" and "initialize env (simulator_new path) = (s, Inr False)"
  shows "si_modems s = [] \<and> si_engine s = None \<and>
    (let up = bring_up (se_transport env) (se_factory env); mcs = map ident_of (sc_modems (si_scenario s))
     in if snd (sim_load_scenario env (simulator_new path)) = Inr True
        then \<exists>k < length mcs. (\<forall>i < k. snd (up (mcs ! i))) \<and> \<not> snd (up (mcs ! k)) \<and>
          si_destroyed s = map (\<lambda>mc. modem_destroy (se_transport env) (fst (up mc))) (mcs ! k # take k mcs)
        else si_destroyed s = []) \<and>
    (\<forall>t \<in> set (si_destroyed s). \<not> tp_is_open (se_transport env) t) \<and>
    (\<exists>s'. sim_main env sched [argv0, path] = Some (Inr (1, Some s')) \<and> si_destroyed s' = si_destroyed s)"
proof -
  have "\<exists>s'. sim_main env sched [argv0, path] = Some (Inr (1, Some s')) \<and> si_destroyed s' = si_destroyed s"
    if "si_modems s = []" "si_engine s = None"
    using assms(2) that by (auto simp: sim_main_def sim_destroy_def sim_stop_def sim_stop_join_def Let_def)
  note exit = this
  show ?thesis
  proof (rule initialize_cases [OF assms(2)], goal_cases)
    case 1
    with exit show ?case by (simp add: Let_def)
  next
    case (2 ts e)
    from 2(1) have loop: "discover_loop (se_transport env) (se_factory env) (map ident_of (sc_modems (si_scenario s))) [] = (ts, Inl e)"
      by (simp add: discover_and_connect_def)
    from exit discover_loop_fails [OF loop] modem_link.discover_loop_closes [OF assms(1) loop] 2 show ?case
      by (simp add: Let_def comp_def)
  qed simp
qed

text \<open>Two modems of which the second delivers a calibration out of range.\<close>

definition bad_env :: "(node, unit, mock, nat) sim_env" where
  "bad_env = pair_env\<lparr>se_factory := \<lambda>s. mock_set_calibration
     (if s = ''s2'' then default_calibration\<lparr>cal_adc_vref_peak_volts := 0\<rparr> else default_calibration) mock_new\<rparr>"

lemma bad_env_fails: "\<exists>s. initialize bad_env (simulator_new ''x'') = (s, Inr False) \<and> sc_modems (si_scenario s) = pair_modems \<and>
    snd (sim_load_scenario bad_env (simulator_new ''x'')) = Inr True"
proof -
  obtain cfg where cfg: "parse_scenario nodes quiet (\<lambda>_. Some tiny_octt) pair_doc ''x'' (parent_path ''x'') = Inr cfg" "sc_modems cfg = pair_modems"
    using pair_loads by blast
  then have load: "sim_load_scenario bad_env (simulator_new ''x'') = ((simulator_new ''x'')\<lparr>si_scenario := cfg\<rparr>, Inr True)"
    by (simp add: sim_load_scenario_def bad_env_def pair_env_def load_scenario_def simulator_new_def)
  have "f32_class 0 = Finite" "f32_value 0 = 0"
    by (simp_all add: f32_class_def f32_exponent_def f32_fraction_def f32_value_def Let_def)
  then have bad: "\<not> validate_calibration_ranges (default_calibration\<lparr>cal_adc_vref_peak_volts := 0\<rparr>)"
    by (simp add: validate_calibration_ranges_iff)
  have link: "se_transport bad_env = mock_transport" by (simp add: bad_env_def pair_env_def)
  have "\<not> snd (bring_up mock_transport (se_factory bad_env) (ident_of (pair_modem ''b'' ''s2'')))"
    using bad by (subst mock_bring_up) (auto simp: bad_env_def ident_of_def pair_modem_def)
  then have "\<exists>mc \<in> set (map ident_of pair_modems). \<not> snd (bring_up mock_transport (se_factory bad_env) mc)"
    by (simp add: pair_modems_def)
  then obtain ts e where "discover_and_connect mock_transport (se_factory bad_env) (map ident_of pair_modems) = (ts, Inl e)"
    using discover_loop_result [of mock_transport "se_factory bad_env" "map ident_of pair_modems" "[]"]
    unfolding discover_and_connect_def by (metis prod.collapse)
  with load cfg(2) link show ?thesis by (simp add: initialize_def discover_modems_def)
qed

theorem failed_initialisation_closes_links_witness:
  "\<exists>s. initialize bad_env (simulator_new ''x'') = (s, Inr False) \<and> length (si_destroyed s) = 2 \<and>
     (\<forall>t \<in> set (si_destroyed s). \<not> mk_is_open t)"
proof -
  obtain s where s: "initialize bad_env (simulator_new ''x'') = (s, Inr False)" "sc_modems (si_scenario s) = pair_modems"
    "snd (sim_load_scenario bad_env (simulator_new ''x'')) = Inr True"
    using bad_env_fails by blast
  have link: "se_transport bad_env = mock_transport" by (simp add: bad_env_def pair_env_def)
  have first: "snd (bring_up mock_transport (se_factory bad_env) (ident_of (pair_modem ''a'' ''s1'')))"
    using default_calibration_valid by (subst mock_bring_up) (auto simp: bad_env_def ident_of_def pair_modem_def)
  have "modem_link (se_transport bad_env)" using link mock.modem_link_axioms by simp
  note c = failed_initialisation_closes_links [OF this s(1), of pair_sched "[]", unfolded Let_def if_P [OF s(3)] s(2) link]
  then obtain k where "k < length (map ident_of pair_modems)"
    "\<not> snd (bring_up mock_transport (se_factory bad_env) (map ident_of pair_modems ! k))"
    "si_destroyed s = map (\<lambda>mc. modem_destroy mock_transport (fst (bring_up mock_transport (se_factory bad_env) mc)))
      (map ident_of pair_modems ! k # take k (map ident_of pair_modems))" by blast
  then have k: "k < 2" "\<not> snd (bring_up mock_transport (se_factory bad_env) (map ident_of pair_modems ! k))"
    "length (si_destroyed s) = Suc k" by (simp_all add: pair_modems_def)
  have closed: "\<forall>t \<in> set (si_destroyed s). \<not> tp_is_open mock_transport t" using c by blast
  have "k = 1" using k(1,2) first by (auto simp: less_2_cases_iff pair_modems_def)
  with k(3) closed s(1) show ?thesis by (auto simp: mock_transport_def)
qed

text \<open>C18: Over any link, an initialised program has connected the scenario's modems in the scenario's order.
  If their serials differ, both ends of every channel resolve in the engine to the modem that the scenario
  means: the one at the position of that name, connected to the serial configured there.\<close>

theorem channels_join_named_modems:
  assumes "initialize env (simulator_new path) = (s, Inr True)" and "distinct (map mo_usb_serial (sc_modems (si_scenario s)))"
    and "cc \<in> set (sc_channels (si_scenario s))" and "name \<in> {ch_from_modem cc, ch_to_modem cc}"
  shows "\<exists>e i. si_engine s = Some e \<and> i < length (sc_modems (si_scenario s)) \<and> mo_id (sc_modems (si_scenario s) ! i) = name \<and>
    modem_index (eg_modems e) name = Inr i \<and> md_id (si_modems s ! i) = mo_usb_serial (sc_modems (si_scenario s) ! i)"
proof -
  have "name \<in> set (map mo_id (sc_modems (si_scenario s)))"
    using initialized_scenario [OF assms(1)] assms(3,4) by (auto simp: scenario_ok_def channel_ok_def)
  then obtain i where "i < length (sc_modems (si_scenario s))" "mo_id (sc_modems (si_scenario s) ! i) = name" by (auto simp: in_set_conv_nth)
  with names_resolve [OF assms(1,2)] show ?thesis by blast
qed

theorem channels_join_named_modems_witness:
  "\<exists>s e i. initialize pair_env (simulator_new ''x'') = (s, Inr True) \<and> si_engine s = Some e \<and> modem_index (eg_modems e) ''b'' = Inr i \<and>
     md_id (si_modems s ! i) = ''s2''"
proof -
  obtain s c where s: "initialize pair_env (simulator_new ''x'') = (s, Inr True)" "sc_modems (si_scenario s) = pair_modems"
    "sc_channels (si_scenario s) = [c]" "on_pair c"
    using pair_initialize [of "''x''"] by (elim exE conjE) (rule that)
  obtain e i where i: "si_engine s = Some e" "i < length pair_modems" "mo_id (pair_modems ! i) = ''b''"
    "modem_index (eg_modems e) ''b'' = Inr i" "md_id (si_modems s ! i) = mo_usb_serial (pair_modems ! i)"
    using channels_join_named_modems [OF s(1), of c "''b''"] s(2-4)
    by (auto simp: on_pair_def pair_modems_def pair_modem_def)
  then have "i = 1" by (auto simp: pair_modems_def pair_modem_def less_2_cases_iff nth_Cons' split: if_splits)
  with i s(1) show ?thesis by (auto simp: pair_modems_def pair_modem_def)
qed

end
