(* ===== verification/Spec2Isabelle.thy ===== *)
theory Spec2Isabelle
  imports Ring_Buffer Core_Types Codec Tx_Start Buffer_Pacer Clock_Fill_Tracker Pair_Buffer Transport Modem Usb_Transport
    Delay_Lines Metrics Modem_IO Modem_Session Noise Receiver_Mix Resampler Scenario Tap_Trajectory Scenario_Loader Levels
    Channel_Renderer Static_Renderer Tap_Source Geometric Tap_Source_Renderer Channel_Model Observability Wav_Logging Source_Worker Worker_Message Worker_Run Signal_Path
    Channel_Engine Engine_Sizing Simulator Simulator_Run Simulator_Invariant System_Invariant Simulator_Shutdown Small_System System_Progress System_Properties
begin

text \<open>
  OpenCREST simulates an underwater acoustic channel in the loop of real modems. Each modem is attached
  over USB; it streams the samples it would transmit to the host and is streamed the samples it would
  hear. This development models the host program (all of \<open>src/src/\<close>, here named without that
  prefix) and proves what makes it correct.

  \<^bold>\<open>The program.\<close>
  \<open>main.cpp\<close> builds a \<open>Simulator\<close>. Its \<open>initialize\<close> loads a YAML scenario
  (\<open>ScenarioLoader\<close>), connects and calibrates one modem per entry (\<open>ModemRegistry\<close>,
  \<open>Modem\<close>, an \<open>IModemTransport\<close>), sizes the ambient noise of every receiver and builds the
  \<open>ChannelEngine\<close>: one \<open>Channel\<close> and one \<open>PairBuffer\<close> per configured channel, one
  \<open>SourceWorker\<close> per modem that sends, one \<open>ReceiverMix\<close> per modem. \<open>run\<close> puts the
  modems into HIL mode and starts two kinds of threads.
  \<^item> The I/O thread of a modem (\<open>ModemIO\<close>) decodes its packets. While the modem transmits, codes
    go into the modem's TX ring and a status tells the start time; while it receives, the thread pulls audio from
    the modem's receiver mix and sends it at the pace its fill tracker allows.
  \<^item> The worker of a modem (\<open>SourceWorker\<close>) sees the modem's state change, aligns the message in
    every receiver's time, takes the codes off the TX ring, converts them and feeds them to every outgoing
    channel, whose renderer (static, geometric, replayed) adds them into the pair buffer of source and receiver.
  A receiver mix adds the pair buffers that target its modem, and noise. \<open>stop\<close> ends the threads;
  \<open>run\<close> then leaves HIL mode, closes the logs and writes the run summary.

  \<^bold>\<open>Theories, from the bottom up.\<close>
  \<^item> \<open>Prelude\<close>, \<open>Floats\<close>, \<open>Chrono\<close>, \<open>Core_Types\<close>: C++ helpers, ring storage, floating
    point, the steady clock and send schedule, \<open>core/constants.hpp\<close>, \<open>types.hpp\<close> and
    \<open>sample_conversion.hpp\<close> (codes and normalised samples, with the error bound of a conversion there and back).
  \<^item> \<open>Ring_Buffer\<close> (\<open>core/ring_buffer.hpp\<close>): the SPSC ring on wrapping 64-bit counters, a refinement
    of the bounded queue of the locale \<open>bounded_fifo\<close>. \<open>Pair_Buffer\<close> (\<open>channel/pair_buffer.cpp\<close>):
    a refinement of an infinite timeline of sums, locale \<open>timeline_buffer\<close>. \<open>Receiver_Mix\<close>: the
    fan-in over a shared store of pair buffers. \<open>Delay_Lines\<close>, \<open>Resampler\<close>, \<open>Noise\<close>, \<open>Levels\<close>: the
    \<open>dsp/\<close> directory; block boundaries never show in the output, noise is filtered white noise.
  \<^item> \<open>Codec\<close> (\<open>protocol/\<close>): packets as bytes, with round trips. \<open>Transport\<close>, \<open>Usb_Transport\<close>
    (\<open>transport/\<close>): the interface as a record of functions with its contract in the locale
    \<open>modem_link\<close>, interpreted on the mock modem and on the libusb transport; the locale says what a closed handle
    answers, what an unplugged device behind an open one answers is in \<open>dead_link\<close> of \<open>Modem_Session\<close>. \<open>Modem\<close> (\<open>modem/\<close>): the
    handshake and the start-up of all modems, with the links a failed start-up gives back.
  \<^item> \<open>Fill_Tracker\<close> (\<open>core/fill_tracker.hpp\<close>): the contract of the two estimates of a modem's buffer,
    \<open>Buffer_Pacer\<close> (with \<open>io/pid_fill_tracker.cpp\<close>) and \<open>Clock_Fill_Tracker\<close>. \<open>Tx_Start\<close>: the
    estimate of a transmission's start. \<open>Modem_IO\<close> (\<open>io/modem_io.cpp\<close>): every handler and the loop of the I/O thread;
    \<open>Modem_Session\<close>: that thread against the mock modem over whole sessions, with other threads writing to the pair
    buffers between its iterations (\<open>io_turns\<close>), and on a link whose device is gone. \<open>Metrics\<close>: the counters.
  \<^item> \<open>Scenario\<close>, \<open>Scenario_Loader\<close> (\<open>config/\<close>), \<open>Tap_Trajectory\<close>, \<open>Tap_Source\<close> (\<open>channel/model/replay/\<close>,
    locale \<open>tap_source_contract\<close>), \<open>Geometric\<close> (\<open>channel/model/geometric/\<close>): what a scenario
    may say, the files it names, and the sources of time-varying taps.
  \<^item> \<open>Channel_Renderer\<close> (locale \<open>channel_renderer\<close>), \<open>Static_Renderer\<close>, \<open>Tap_Source_Renderer\<close>,
    \<open>Channel_Model\<close> (\<open>channel/renderer/\<close>, the model factories, \<open>channel/channel.cpp\<close>): the signal path of one channel.
  \<^item> \<open>Source_Worker\<close>, \<open>Worker_Message\<close>, \<open>Worker_Run\<close> (\<open>channel/source_worker.cpp\<close>): the handlers of the
    worker; one message from its first to its last turn; the whole run of the thread under any schedule.
    \<open>Signal_Path\<close>: from the codes of a message to what the receiver pulls, through worker, channel, pair buffer and mix.
  \<^item> \<open>Channel_Engine\<close>, \<open>Engine_Sizing\<close> (\<open>channel/channel_engine.cpp\<close>): construction, wiring and threads, and
    why the buffers are large enough.
  \<^item> \<open>Observability\<close>, \<open>Wav_Logging\<close> (\<open>simulator/\<close> but the simulator, \<open>logging/\<close>): histogram, event log, run summary, WAV files and sessions
    and the stale ones wiped before them (\<open>wiped_files\<close>).
  \<^item> \<open>Simulator\<close> (\<open>initialize\<close>, the summary, the destructor), \<open>Simulator_Run\<close> (\<open>run\<close>, \<open>stop\<close>, the
    threads, \<open>main\<close>), \<open>Simulator_Invariant\<close>, \<open>System_Invariant\<close>, \<open>Simulator_Shutdown\<close>,
    \<open>System_Progress\<close> and \<open>System_Properties\<close>: the whole program, its invariant over every interleaving, its
    shutdown. \<open>Small_System\<close> is the instance its witnesses run: two mock modems and a replayed channel.

  \<^bold>\<open>State and operations.\<close> A class is a record, its members the fields (prefixed), a method a function
  from the record to the record and the result. A handler carries every state change of the code, in its order.
  A pointer to a shared object is its index in a store; a null pointer is \<open>None\<close> or \<open>False\<close>. An exception is the left
  value of a sum. A virtual interface is a record of functions, or a datatype with a dispatching function. A
  renderer returns the list of pair-buffer calls it makes, the I/O thread the list of calls on the stream
  logger (\<open>log_call\<close>), which \<open>Wav_Logging\<close> runs.

  \<^bold>\<open>Threads.\<close> A thread's turn is one iteration of its loop and is atomic; a schedule (\<open>sim_act\<close>,
  \<open>sim_sched\<close>) says who takes the next turn, so a statement for every schedule is one for every interleaving of
  turns. \<open>Worker_Message\<close> is finer: other threads act between the two reads of the state in a turn and
  between its handlers. The two queues that threads share without a lock are also treated below that level:
  \<open>Ring_Buffer\<close> for interleaved calls, \<open>Pair_Buffer\<close> with a producer whose view of the read head is stale.
  A stop can come before \<open>run\<close>, where it finds nothing to stop, or at any turn after the engine's start. \<open>run\<close>
  also returns when a modem refuses HIL mode, before any thread exists; \<open>run_shuts_down\<close> covers both returns. A join returns when the thread has
  ended; if the schedule ends first, the result is \<open>Inr None\<close>, which means that \<open>run\<close> does not return under it. So
  \<open>stopped_run_returns\<close>, which says that it returns, is a statement of progress and not a consequence of the model.

  \<^bold>\<open>Loops.\<close> Every loop of the code that ends by its data is a total function. The three that need not are
  explicit: \<open>process\<close> of the static renderer runs while the resampler makes progress
  (\<open>partial_function (option)\<close>, \<open>None\<close> for not returning, and \<open>Static_Renderer\<close> and \<open>Worker_Run\<close> prove when it
  returns); so is the capacity loop of the ring buffer, which does not end for requests above \<open>2 ^ 63\<close>;
  thread loops take as many turns as the schedule gives them. No fuel is used elsewhere.

  \<^bold>\<open>Numbers.\<close> Wire fields, codes and ring counters are words of the code's width. Other 64-bit counters of
  samples and events are naturals: they would take centuries to wrap. Durations are integer nanoseconds. A
  finite \<open>float\<close> or \<open>double\<close> is a real, and each operation is the exact one rounded to nearest even at
  24 or 53 bits with gradual underflow; library functions count as correctly rounded. Overflow to
  infinity, NaN and contraction to fused operations are outside this reading; floats off the wire or from a
  file keep their bits until the code has classified them; the scalars of a YAML file are finite. Buffer capacities
  that are rounded up to a power of two are naturals, except the ring buffer's.

  \<^bold>\<open>What the lemmas show.\<close> Each component theory proves its invariant and what each operation does on every branch,
  errors included; locales state the contracts between components and carry the clients' lemmas. The
  properties follow the signal: rings and packets (\<open>spsc_fifo\<close>, \<open>data_packet_decodes\<close>,
  \<open>tx_waveform_reaches_ring\<close>), a message through the worker into the channels
  (\<open>worker_message_feeds_channels\<close>), the renderers (\<open>static_message_is_tap_sum\<close>,
  \<open>delay_line_is_long_enough\<close>), the pair buffer and the mix (\<open>pair_buffer_refines_timeline\<close>,
  \<open>receiver_mix_pull\<close>), all of these composed (\<open>message_stands_on_timeline\<close>,
  \<open>clear_channel_is_transparent\<close>), the modem that hears it (\<open>rx_audio_reaches_modem\<close>); then sizes and bounds, the
  wiring, the loader, and the life of the whole program. Statements with restrictions name them: the exact
  delay line needs a zero clock offset and delays of three samples or more, the transparent channel a static
  path of unit gain, the delivered audio a link that takes every packet (\<open>send_attempt_outcomes\<close> says what a
  failing one costs), the worker's log the transmissions whose end a poll sees.

  \<^bold>\<open>Parameters.\<close> yaml-cpp (a record of node operations), libusb (a record of its calls), the standard
  library's random engine and distributions, the file system, the clocks, the JSON printer and the choice of
  transport are arguments of the definitions.

  \<^bold>\<open>Not modelled.\<close> Log and console output, including the lines of the metrics printer (its rates are
  modelled); creating directories and changing the owner of log files; the signal handler's global pointer and usage text; move constructors
  of the ring, used before threads exist; memory orderings, beyond the stale views named above; the build's
  alternative PID branch inside \<open>ModemIO\<close> and \<open>SourceWorker\<close> (its classes are modelled); the
  quoted values in the scenario loader's error texts; a summary file that opens and then cannot be written to the end; tests, scripts and experiments.
\<close>

end
